(* ===== verification/Ovn_Prelude.thy ===== *)
theory Ovn_Prelude
  imports Main "HOL-Library.Word"
begin

text \<open>
  Shared vocabulary of the development: names for Go's machine types, the result and panic
  conventions, the collections of simplification rules, generic facts on lists, maps and the
  bits of \<open>math/big\<close> integers, and the interface \<open>pool\<close> that all the repository's
  allocators (bitmaps, IP ranges, node subnets) implement.

  Conventions. A Go \<open>error\<close> result is a sum: \<open>Inl\<close> carries the error, \<open>Inr\<close> the value.
  A run-time panic is \<open>None\<close> of an option type. A Go map is a partial function. A mutable
  receiver is passed in and returned updated. Mutexes that make one method atomic are left
  implicit: one call of a method is one step.
\<close>

unbundle bit_operations_syntax

section \<open>Types and rule collections\<close>

type_synonym byte = "8 word"
type_synonym u32 = "32 word"
type_synonym u64 = "64 word"

named_theorems alloc_simps \<open>definitions unfolded in the proofs about allocators\<close>
named_theorems wf_simps \<open>definitions of well-formedness predicates\<close>

section \<open>Bits of non-negative integers\<close>

text \<open>The set of bits that are one, the abstraction of a \<open>big.Int\<close> used as a bitmap.\<close>

definition bits_of :: "int \<Rightarrow> nat set" where
  "bits_of k = {n. bit k n}"

lemma mem_bits_of [simp]: "n \<in> bits_of k \<longleftrightarrow> bit k n"
  by (simp add: bits_of_def)

lemma bits_of_0 [simp]: "bits_of 0 = {}"
  by (simp add: bits_of_def)

lemma bits_of_set_bit [simp]: "bits_of (set_bit n k) = insert n (bits_of k)"
  by (auto simp: bits_of_def bit_set_bit_iff)

lemma bits_of_unset_bit [simp]: "bits_of (unset_bit n k) = bits_of k - {n}"
  by (auto simp: bits_of_def bit_unset_bit_iff)

lemma bit_lt_exp:
  fixes k :: int
  assumes "0 \<le> k" and "k < 2 ^ m" and "bit k n"
  shows "n < m"
proof -
  have "take_bit m k = k" using assms(1,2) by (rule take_bit_int_eq_self)
  then show ?thesis using assms(3) by (metis bit_take_bit_iff)
qed

lemma int_lt_exp: "(k::int) < 2 ^ nat k"
proof (cases "0 \<le> k")
  case True
  have "nat k < 2 ^ nat k" by (rule less_exp)
  then have "int (nat k) < int (2 ^ nat k)" by (simp only: of_nat_less_iff)
  then show ?thesis using True by simp
qed simp

lemma finite_bits_of: "0 \<le> k \<Longrightarrow> finite (bits_of k)"
  by (rule finite_subset [of _ "{..<nat k}"]) (use bit_lt_exp int_lt_exp in auto)

lemma bits_of_inject: "bits_of j = bits_of k \<Longrightarrow> j = k"
  by (rule bit_eqI) (metis mem_bits_of)

section \<open>Lists and rotations\<close>

lemma rotate_mod_set:
  assumes "(0::nat) < m"
  shows "(\<lambda>i. (s + i) mod m) ` {..<m} = {..<m}"
proof -
  have "\<exists>i<m. (s + i) mod m = j" if "j < m" for j
  proof -
    let ?i = "(j + (m - s mod m)) mod m"
    have "(s + ?i) mod m = (s mod m + (j + (m - s mod m))) mod m"
      by (metis mod_add_left_eq mod_add_right_eq)
    also have "\<dots> = (j + m) mod m"
    proof -
      have "s mod m < m" using assms by simp
      then have "s mod m + (j + (m - s mod m)) = j + m" by simp
      then show ?thesis by simp
    qed
    also have "\<dots> = j" using that by simp
    finally show ?thesis using assms by (intro exI [of _ ?i]) simp
  qed
  then show ?thesis using assms by (auto simp: image_iff)
qed

lemma mod_add_neq:
  assumes "a < m" and "0 < d" and "d < m"
  shows "(a + d) mod m \<noteq> (a::nat)"
proof (cases "a + d < m")
  case False
  then have "(a + d) mod m = a + d - m" using assms by (simp add: mod_if)
  then show ?thesis using assms False by linarith
qed (use assms in simp)

section \<open>The pool interface\<close>

text \<open>
  What every allocator of the repository promises to its callers: a set of items, some of them
  held; an item can be claimed by name, the next free one can be asked for, and a held item can
  be given back. \<open>take_any\<close> takes the environment's choice (the random offset of the random
  scan strategy) as its first argument.
\<close>

locale pool =
  fixes pinv :: "'s \<Rightarrow> bool"
    and items :: "'s \<Rightarrow> 'a set"
    and held :: "'s \<Rightarrow> 'a set"
    and claim :: "'a \<Rightarrow> 's \<Rightarrow> 's option"
    and take_any :: "'c \<Rightarrow> 's \<Rightarrow> ('a \<times> 's) option"
    and give :: "'a \<Rightarrow> 's \<Rightarrow> 's"
  assumes held_items: "pinv s \<Longrightarrow> held s \<subseteq> items s"
    and finite_items: "pinv s \<Longrightarrow> finite (items s)"
    and claim_ok: "pinv s \<Longrightarrow> a \<in> items s \<Longrightarrow> a \<notin> held s \<Longrightarrow>
      \<exists>t. claim a s = Some t \<and> pinv t \<and> items t = items s \<and> held t = insert a (held s)"
    and claim_held: "pinv s \<Longrightarrow> a \<in> held s \<Longrightarrow> claim a s = None"
    and take_ok: "pinv s \<Longrightarrow> take_any c s = Some (a, t) \<Longrightarrow>
      a \<in> items s - held s \<and> pinv t \<and> items t = items s \<and> held t = insert a (held s)"
    and take_full: "pinv s \<Longrightarrow> take_any c s = None \<Longrightarrow> held s = items s"
    and give_ok: "pinv s \<Longrightarrow> a \<in> items s \<Longrightarrow>
      pinv (give a s) \<and> items (give a s) = items s \<and> held (give a s) = held s - {a}"
begin

text \<open>Asking for the next free item until the pool refuses, at most once per choice.\<close>

fun drain :: "'c list \<Rightarrow> 's \<Rightarrow> 'a list \<times> 's" where
  "drain [] s = ([], s)"
| "drain (c # cs) s =
     (case take_any c s of
        None \<Rightarrow> ([], s)
      | Some (a, t) \<Rightarrow> (case drain cs t of (as, u) \<Rightarrow> (a # as, u)))"

lemma finite_held: "pinv s \<Longrightarrow> finite (held s)"
  using held_items finite_items finite_subset by blast

lemma take_any_some_iff: "pinv s \<Longrightarrow> (\<exists>a t. take_any c s = Some (a, t)) \<longleftrightarrow> held s \<noteq> items s"
  using take_full [of s c] take_ok [of s c] by (cases "take_any c s") auto

lemma drain_step:
  assumes "pinv s" and "drain cs s = (as, u)"
  shows "pinv u \<and> items u = items s \<and> held u = held s \<union> set as
    \<and> distinct as \<and> set as \<subseteq> items s - held s"
  using assms
proof (induction cs s arbitrary: as u rule: drain.induct)
  case (1 s)
  then show ?case by auto
next
  case (2 c cs s)
  show ?case
  proof (cases "take_any c s")
    case None
    with 2 show ?thesis by auto
  next
    case (Some p)
    obtain a t where p: "take_any c s = Some (a, t)" using Some by (cases p) auto
    obtain bs where bs: "drain cs t = (bs, u)" "as = a # bs"
      using "2.prems"(2) p by (auto split: prod.splits)
    note t = take_ok [OF "2.prems"(1) p]
    have "pinv u \<and> items u = items t \<and> held u = held t \<union> set bs
        \<and> distinct bs \<and> set bs \<subseteq> items t - held t"
      by (rule "2.IH" [of "(a, t)" a t]) (use p t bs in auto)
    with t bs show ?thesis by auto
  qed
qed

text \<open>Enough requests exhaust the pool: every free item is handed out, each exactly once.\<close>

lemma drain_all:
  assumes "pinv s" and "card (items s - held s) < length cs"
  shows "\<exists>as u. drain cs s = (as, u) \<and> set as = items s - held s \<and> distinct as
    \<and> held u = items s"
  using assms
proof (induction cs arbitrary: s)
  case Nil
  then show ?case by simp
next
  case (Cons c cs)
  show ?case
  proof (cases "take_any c s")
    case None
    then show ?thesis using take_full [OF Cons.prems(1) None] by simp
  next
    case (Some p)
    obtain a t where p: "take_any c s = Some (a, t)" using Some by (cases p) auto
    note t = take_ok [OF Cons.prems(1) p]
    have "items t - held t = (items s - held s) - {a}" using t by auto
    moreover have "a \<in> items s - held s" and "finite (items s - held s)"
      using t finite_items [OF Cons.prems(1)] by auto
    ultimately have "card (items t - held t) < card (items s - held s)"
      by (metis card_Diff1_less)
    then have "card (items t - held t) < length cs" using Cons.prems(2) by simp
    then obtain as u where "drain cs t = (as, u)" "set as = items t - held t" "distinct as"
        "held u = items t"
      using Cons.IH t by blast
    then show ?thesis using p t by auto
  qed
qed

text \<open>An item that was given back can be claimed again, and giving back undoes a claim.\<close>

lemma give_claim:
  assumes "pinv s" and "a \<in> items s"
  shows "\<exists>t. claim a (give a s) = Some t \<and> pinv t \<and> held t = insert a (held s)"
  using give_ok [OF assms] claim_ok [of "give a s" a] assms by auto

lemma claim_give:
  assumes "pinv s" and "a \<in> items s" and "claim a s = Some t"
  shows "pinv (give a t) \<and> held (give a t) = held s"
proof -
  have "a \<notin> held s" using claim_held [OF assms(1), of a] assms(3) by auto
  then show ?thesis using claim_ok [OF assms(1,2)] assms(3) give_ok [of t a] assms(2) by auto
qed

end

end
