(* ===== verification/Go_Big.thy ===== *)
theory Go_Big
  imports Ovn_Prelude
begin

text \<open>
  The operations of Go's \<open>math/big\<close> and of its integer conversions that the repository uses:
  big-endian bytes of a non-negative integer and back, its machine words, and the truncation of
  \<open>Int64\<close>. A \<open>big.Int\<close> is an \<open>int\<close>.
\<close>

section \<open>Bytes and words of a big integer\<close>

text \<open>Base-256 digits, least significant first; \<open>Bytes\<close> is the big-endian form of the absolute
  value without leading zeros.\<close>

function big_bytes_le :: "int \<Rightarrow> byte list" where
  "big_bytes_le k = (if k \<le> 0 then [] else word_of_int k # big_bytes_le (k div 256))"
  by pat_completeness auto
termination
  by (relation "measure nat") auto

declare big_bytes_le.simps [simp del]

definition big_Bytes :: "int \<Rightarrow> byte list" where
  "big_Bytes k = rev (big_bytes_le \<bar>k\<bar>)"

definition big_SetBytes :: "byte list \<Rightarrow> int" where
  "big_SetBytes bs = horner_sum uint 256 (rev bs)"

text \<open>\<open>Bits\<close>: the base-\<open>2 ^ 64\<close> digits, least significant first, without leading zeros.\<close>

function big_Bits :: "int \<Rightarrow> u64 list" where
  "big_Bits k = (if k \<le> 0 then [] else word_of_int k # big_Bits (k div 2 ^ 64))"
  by pat_completeness auto
termination
proof (relation "measure nat")
  show "wf (measure nat)" by simp
next
  fix k :: int
  assume "\<not> k \<le> 0"
  then have "k div 2 ^ 64 < k" by (intro int_div_less_self) auto
  then show "(k div 2 ^ 64, k) \<in> measure nat" using \<open>\<not> k \<le> 0\<close> by simp
qed

declare big_Bits.simps [simp del]

text \<open>\<open>Int64\<close>: the low 64 bits of the magnitude read as two's complement, negated for a negative
  number.\<close>

definition big_Int64 :: "int \<Rightarrow> int" where
  "big_Int64 k =
     (let v = word_of_int \<bar>k\<bar> :: u64 in if k < 0 then sint (- v) else sint v)"

section \<open>Facts\<close>

lemma uint_word_of_int_byte: "uint (word_of_int k :: byte) = k mod 256"
  by (simp add: uint_word_of_int)

lemma big_bytes_le_horner: "0 \<le> k \<Longrightarrow> horner_sum uint 256 (big_bytes_le k) = k"
proof (induction k rule: big_bytes_le.induct)
  case (1 k)
  show ?case
  proof (cases "k \<le> 0")
    case True
    with 1 show ?thesis by (simp add: big_bytes_le.simps)
  next
    case False
    then have "0 \<le> k div 256" by simp
    with 1 False have "horner_sum uint 256 (big_bytes_le (k div 256)) = k div 256" by simp
    with False show ?thesis
      by (simp add: big_bytes_le.simps [of k] uint_word_of_int_byte)
  qed
qed

lemma big_SetBytes_Bytes: "0 \<le> k \<Longrightarrow> big_SetBytes (big_Bytes k) = k"
  by (simp add: big_SetBytes_def big_Bytes_def big_bytes_le_horner)

lemma big_SetBytes_nonneg [simp]: "0 \<le> big_SetBytes bs"
proof -
  have "0 \<le> horner_sum uint 256 bs" for bs :: "byte list"
    by (induction bs) auto
  then show ?thesis by (simp add: big_SetBytes_def)
qed

lemma big_SetBytes_Nil [simp]: "big_SetBytes [] = 0"
  by (simp add: big_SetBytes_def)

lemma big_SetBytes_Cons:
  "big_SetBytes (b # bs) = uint b * 256 ^ length bs + big_SetBytes bs"
  by (simp add: big_SetBytes_def horner_sum_append)

lemma big_SetBytes_append:
  "big_SetBytes (as @ bs) = big_SetBytes as * 256 ^ length bs + big_SetBytes bs"
  by (simp add: big_SetBytes_def horner_sum_append)

lemma uint_byte_lt: "uint (b :: byte) < 256"
  using uint_lt2p [of b] by simp

lemma big_SetBytes_lt: "big_SetBytes bs < 256 ^ length bs"
proof (induction bs)
  case (Cons b bs)
  have "uint b * 256 ^ length bs + 256 ^ length bs \<le> 256 * (256::int) ^ length bs"
    using mult_right_mono [of "uint b + 1" 256 "256 ^ length bs"] uint_byte_lt [of b]
    by (simp add: algebra_simps)
  moreover have "big_SetBytes (b # bs) < uint b * 256 ^ length bs + 256 ^ length bs"
    using Cons by (simp add: big_SetBytes_Cons)
  moreover have "(256::int) ^ length (b # bs) = 256 * 256 ^ length bs" by simp
  ultimately show ?case by linarith
qed simp

lemma big_SetBytes_inject:
  "length as = length bs \<Longrightarrow> big_SetBytes as = big_SetBytes bs \<longleftrightarrow> as = bs"
proof (induction as bs rule: list_induct2)
  case (Cons a as b bs)
  show ?case
  proof
    assume eq: "big_SetBytes (a # as) = big_SetBytes (b # bs)"
    have pos: "(0::int) < 256 ^ length bs" by simp
    have "big_SetBytes (a # as) div 256 ^ length bs = uint a"
      using Cons.hyps big_SetBytes_lt [of as] pos by (simp add: big_SetBytes_Cons)
    moreover have "big_SetBytes (b # bs) div 256 ^ length bs = uint b"
      using big_SetBytes_lt [of bs] pos by (simp add: big_SetBytes_Cons)
    ultimately have "a = b" using eq by (metis word_of_int_uint)
    with eq Cons.hyps have "big_SetBytes as = big_SetBytes bs"
      by (simp add: big_SetBytes_Cons)
    with Cons.IH \<open>a = b\<close> show "a # as = b # bs" by simp
  qed simp
qed simp

text \<open>The set bits of a digit sequence: those of the first digit, and the shifted rest.\<close>

lemma bits_of_horner_Cons:
  "bits_of (horner_sum uint (2 ^ LENGTH('a::len)) ((w::'a word) # ws)) =
     {n. bit w n} \<union> (+) LENGTH('a) ` bits_of (horner_sum uint (2 ^ LENGTH('a)) ws)"
  (is "?l = ?r")
proof (rule set_eqI)
  fix n
  have *: "bit (horner_sum uint (2 ^ LENGTH('a)) (w # ws)) n =
      (if n < LENGTH('a) then bit w n
       else bit (horner_sum uint (2 ^ LENGTH('a)) ws) (n - LENGTH('a)))"
    unfolding horner_sum_uint_exp_Cons_eq by (simp add: bit_concat_bit_iff bit_uint_iff)
  have "n \<in> ?r \<longleftrightarrow> (if n < LENGTH('a) then bit w n
       else bit (horner_sum uint (2 ^ LENGTH('a)) ws) (n - LENGTH('a)))"
  proof -
    have "n \<in> (+) LENGTH('a) ` B \<longleftrightarrow> LENGTH('a) \<le> n \<and> n - LENGTH('a) \<in> B" for B
      by (auto simp: image_iff intro!: bexI [of _ "n - LENGTH('a)"])
    moreover have "bit w n \<Longrightarrow> n < LENGTH('a)" by (rule bit_imp_le_length)
    ultimately show ?thesis by auto
  qed
  then show "n \<in> ?l \<longleftrightarrow> n \<in> ?r" using * by (simp only: mem_bits_of)
qed

lemma big_Bits_horner: "0 \<le> k \<Longrightarrow> horner_sum uint (2 ^ 64) (big_Bits k) = k"
proof (induction k rule: big_Bits.induct)
  case (1 k)
  show ?case
  proof (cases "k \<le> 0")
    case True
    with 1 show ?thesis by (simp add: big_Bits.simps)
  next
    case False
    then have "0 \<le> k div 2 ^ 64" by simp
    with 1 False have "horner_sum uint (2 ^ 64) (big_Bits (k div 2 ^ 64)) = k div 2 ^ 64" by simp
    moreover have "uint (word_of_int k :: u64) = k mod 2 ^ 64"
      by (simp add: uint_word_of_int)
    ultimately show ?thesis using False
      by (simp only: big_Bits.simps [of k] horner_sum_simps if_False mod_mult_div_eq)
  qed
qed

lemma sint_u64_small: "- (2 ^ 63) \<le> j \<Longrightarrow> j < 2 ^ 63 \<Longrightarrow> sint (word_of_int j :: u64) = j"
  by (simp add: sint_word_ariths signed_take_bit_int_eq_self sint_sbintrunc')

lemma big_Int64_small:
  assumes "- (2 ^ 63) < k" and "k < 2 ^ 63"
  shows "big_Int64 k = k"
proof (cases "k < 0")
  case True
  then have "- (word_of_int \<bar>k\<bar> :: u64) = word_of_int k"
    by (simp only: wi_hom_neg abs_of_neg minus_minus)
  then show ?thesis using True sint_u64_small [of k] assms
    by (simp only: big_Int64_def Let_def if_True less_imp_le)
next
  case False
  then have "\<bar>k\<bar> = k" by simp
  then show ?thesis using False sint_u64_small [of k] assms
    by (simp only: big_Int64_def Let_def if_False less_imp_le)
qed

end
