(* ===== verification/Bitmap.thy ===== *)
theory Bitmap
  imports Go_Big
begin

text \<open>
  \<open>pkg/allocator/bitmap\<close>: the contiguous bitmap allocator under every other allocator
  (\<open>bitmap.go\<close>, \<open>utils.go\<close>). The state is the record \<open>AllocationBitmap\<close>; the set bits of
  \<open>bm_allocated\<close> are the items in use. The three scan strategies share one loop \<open>scan_loop\<close>.
  The section on correctness shows that \<open>count\<close> is the number of set bits after every
  operation, that \<open>AllocateNext\<close> fails only when the range is full, what each strategy
  returns, that \<open>ForEach\<close> visits the set bits in ascending order and that \<open>Restore\<close> undoes
  \<open>Snapshot\<close>. The allocator is an instance of the \<open>pool\<close> interface.

  Offsets handed to \<open>Allocate\<close>, \<open>Release\<close> and \<open>Has\<close> are Go integers: a negative one makes
  \<open>big.Int.Bit\<close> panic, the outcome \<open>None\<close>. Offsets the strategies produce are never negative
  and are natural numbers, as is \<open>nextAlloc\<close>, which is 0 or a remainder.
\<close>

section \<open>State\<close>

datatype bitAllocator =
    randomScanStrategy
  | contiguousScanStrategy
  | roundRobinScanStrategy nat \<comment> \<open>\<open>nextAlloc\<close>\<close>

record AllocationBitmap =
  bm_strategy :: bitAllocator
  bm_max :: int
  bm_rangeSpec :: string
  bm_count :: int
  bm_allocated :: int

definition NewAllocationMap :: "int \<Rightarrow> string \<Rightarrow> AllocationBitmap" where
  "NewAllocationMap m spec =
     \<lparr>bm_strategy = randomScanStrategy, bm_max = m, bm_rangeSpec = spec,
      bm_count = 0, bm_allocated = 0\<rparr>"

definition NewContiguousAllocationMap :: "int \<Rightarrow> string \<Rightarrow> AllocationBitmap" where
  "NewContiguousAllocationMap m spec =
     \<lparr>bm_strategy = contiguousScanStrategy, bm_max = m, bm_rangeSpec = spec,
      bm_count = 0, bm_allocated = 0\<rparr>"

definition NewRoundRobinAllocationMap :: "int \<Rightarrow> string \<Rightarrow> AllocationBitmap" where
  "NewRoundRobinAllocationMap m spec =
     \<lparr>bm_strategy = roundRobinScanStrategy 0, bm_max = m, bm_rangeSpec = spec,
      bm_count = 0, bm_allocated = 0\<rparr>"

section \<open>Scan strategies\<close>

text \<open>The loop \<open>for i := 0; i < max; i++\<close> of the three strategies: the first index whose bit is
  zero; \<open>at i\<close> is the bit probed in round \<open>i\<close>.\<close>

function scan_loop :: "int \<Rightarrow> (nat \<Rightarrow> nat) \<Rightarrow> int \<Rightarrow> nat \<Rightarrow> nat option" where
  "scan_loop allocated at m i =
     (if int i < m
      then if \<not> bit allocated (at i) then Some (at i) else scan_loop allocated at m (Suc i)
      else None)"
  by pat_completeness auto
termination
  by (relation "measure (\<lambda>(allocated, at, m, i). nat (m - int i))") auto

declare scan_loop.simps [simp del]

text \<open>\<open>AllocateBit\<close> of each strategy, with the strategy's own new state. \<open>rnd\<close> is what
  \<open>cryptorand.Intn\<close> returns; only the random strategy reads it.\<close>

fun AllocateBit :: "nat \<Rightarrow> bitAllocator \<Rightarrow> int \<Rightarrow> int \<Rightarrow> int \<Rightarrow> nat option \<times> bitAllocator" where
  "AllocateBit rnd randomScanStrategy allocated m cnt =
     (if cnt \<ge> m then (None, randomScanStrategy)
      else (scan_loop allocated (\<lambda>i. (rnd + i) mod nat m) m 0, randomScanStrategy))"
| "AllocateBit rnd contiguousScanStrategy allocated m cnt =
     (if cnt \<ge> m then (None, contiguousScanStrategy)
      else (scan_loop allocated (\<lambda>i. i) m 0, contiguousScanStrategy))"
| "AllocateBit rnd (roundRobinScanStrategy nextAlloc) allocated m cnt =
     (if cnt \<ge> m then (None, roundRobinScanStrategy nextAlloc)
      else case scan_loop allocated (\<lambda>i. (nextAlloc + i) mod nat m) m 0 of
          Some at \<Rightarrow> (Some at, roundRobinScanStrategy ((at + 1) mod nat m))
        | None \<Rightarrow> (None, roundRobinScanStrategy nextAlloc))"

section \<open>Operations\<close>

definition bitmap_Allocate :: "int \<Rightarrow> AllocationBitmap \<Rightarrow> (bool \<times> AllocationBitmap) option" where
  "bitmap_Allocate offset r =
     (if offset < 0 then None
      else if bit (bm_allocated r) (nat offset) then Some (False, r)
      else Some (True, r\<lparr>bm_allocated := set_bit (nat offset) (bm_allocated r),
                         bm_count := bm_count r + 1\<rparr>))"

definition bitmap_AllocateNext :: "nat \<Rightarrow> AllocationBitmap \<Rightarrow> nat option \<times> AllocationBitmap" where
  "bitmap_AllocateNext rnd r =
     (case AllocateBit rnd (bm_strategy r) (bm_allocated r) (bm_max r) (bm_count r) of
        (None, st) \<Rightarrow> (None, r\<lparr>bm_strategy := st\<rparr>)
      | (Some nxt, st) \<Rightarrow>
          (Some nxt, r\<lparr>bm_strategy := st, bm_count := bm_count r + 1,
                       bm_allocated := set_bit nxt (bm_allocated r)\<rparr>))"

definition bitmap_Release :: "int \<Rightarrow> AllocationBitmap \<Rightarrow> AllocationBitmap option" where
  "bitmap_Release offset r =
     (if offset < 0 then None
      else if \<not> bit (bm_allocated r) (nat offset) then Some r
      else Some (r\<lparr>bm_allocated := unset_bit (nat offset) (bm_allocated r),
                   bm_count := bm_count r - 1\<rparr>))"

text \<open>The constants that compute the size of a \<open>big.Word\<close> in bytes, on a 64-bit machine.\<close>

definition notZero :: u64 where
  "notZero = NOT 0"

definition wordPower :: nat where
  "wordPower = unat ((drop_bit 8 notZero AND 1) + (drop_bit 16 notZero AND 1)
                     + (drop_bit 32 notZero AND 1))"

definition wordSize :: nat where
  "wordSize = push_bit wordPower 1"

text \<open>The inner loop of \<open>ForEach\<close> over one word; the result lists the arguments of the calls of
  the callback, in order.\<close>

function forEachWord :: "nat \<Rightarrow> u64 \<Rightarrow> nat \<Rightarrow> nat list" where
  "forEachWord base w b =
     (if 0 < w
      then if w AND 1 \<noteq> 0
           then (base + b) # forEachWord base (drop_bit 1 (w AND NOT 1)) (Suc b)
           else forEachWord base (drop_bit 1 w) (Suc b)
      else [])"
  by pat_completeness auto
termination
proof (relation "measure (\<lambda>(base, w, b). unat w)")
  fix base b :: nat and w :: u64
  have *: "unat (drop_bit 1 v) < unat w" if "0 < w" "unat v \<le> unat w" for v :: u64
  proof -
    have "unat (drop_bit 1 v) = unat v div 2"
      by (simp add: unat_div_distrib drop_bit_eq_div)
    moreover have "0 < unat w" using that(1) by (simp add: word_less_nat_alt)
    ultimately show ?thesis using that(2) by linarith
  qed
  have "unat (w AND NOT 1) \<le> unat w"
    using word_and_le2 [of w "NOT 1"] by (simp add: word_le_nat_alt)
  then show "((base, drop_bit 1 (w AND NOT 1), Suc b), base, w, b) \<in> measure (\<lambda>(base, w, b). unat w)"
    if "0 < w"
    using * that by (simp only: in_measure prod.case)
  show "((base, drop_bit 1 w, Suc b), base, w, b) \<in> measure (\<lambda>(base, w, b). unat w)"
    if "0 < w"
    using * that by (simp only: in_measure prod.case)
qed simp

declare forEachWord.simps [simp del]

fun forEachWords :: "nat \<Rightarrow> u64 list \<Rightarrow> nat list" where
  "forEachWords wordIdx [] = []"
| "forEachWords wordIdx (w # ws) =
     forEachWord (wordIdx * wordSize * 8) w 0 @ forEachWords (Suc wordIdx) ws"

definition bitmap_ForEach :: "AllocationBitmap \<Rightarrow> nat list" where
  "bitmap_ForEach r = forEachWords 0 (big_Bits (bm_allocated r))"

definition bitmap_Has :: "int \<Rightarrow> AllocationBitmap \<Rightarrow> bool option" where
  "bitmap_Has offset r = (if offset < 0 then None else Some (bit (bm_allocated r) (nat offset)))"

definition bitmap_Free :: "AllocationBitmap \<Rightarrow> int" where
  "bitmap_Free r = bm_max r - bm_count r"

definition bitmap_Snapshot :: "AllocationBitmap \<Rightarrow> string \<times> byte list" where
  "bitmap_Snapshot r = (bm_rangeSpec r, big_Bytes (bm_allocated r))"

text \<open>\<open>utils.go\<close>: the table of the number of one bits of each byte, and \<open>countBits\<close> over it.\<close>

definition bitCounts :: "nat list" where
  "bitCounts = [
    0, 1, 1, 2, 1, 2, 2, 3, 1, 2, 2, 3, 2, 3, 3, 4, 1, 2, 2, 3, 2, 3, 3, 4, 2, 3, 3, 4, 3, 4, 4, 5,
    1, 2, 2, 3, 2, 3, 3, 4, 2, 3, 3, 4, 3, 4, 4, 5, 2, 3, 3, 4, 3, 4, 4, 5, 3, 4, 4, 5, 4, 5, 5, 6,
    1, 2, 2, 3, 2, 3, 3, 4, 2, 3, 3, 4, 3, 4, 4, 5, 2, 3, 3, 4, 3, 4, 4, 5, 3, 4, 4, 5, 4, 5, 5, 6,
    2, 3, 3, 4, 3, 4, 4, 5, 3, 4, 4, 5, 4, 5, 5, 6, 3, 4, 4, 5, 4, 5, 5, 6, 4, 5, 5, 6, 5, 6, 6, 7,
    1, 2, 2, 3, 2, 3, 3, 4, 2, 3, 3, 4, 3, 4, 4, 5, 2, 3, 3, 4, 3, 4, 4, 5, 3, 4, 4, 5, 4, 5, 5, 6,
    2, 3, 3, 4, 3, 4, 4, 5, 3, 4, 4, 5, 4, 5, 5, 6, 3, 4, 4, 5, 4, 5, 5, 6, 4, 5, 5, 6, 5, 6, 6, 7,
    2, 3, 3, 4, 3, 4, 4, 5, 3, 4, 4, 5, 4, 5, 5, 6, 3, 4, 4, 5, 4, 5, 5, 6, 4, 5, 5, 6, 5, 6, 6, 7,
    3, 4, 4, 5, 4, 5, 5, 6, 4, 5, 5, 6, 5, 6, 6, 7, 4, 5, 5, 6, 5, 6, 6, 7, 5, 6, 6, 7, 6, 7, 7, 8]"

definition countBits :: "int \<Rightarrow> int" where
  "countBits n = fold (\<lambda>b c. c + int (bitCounts ! unat b)) (big_Bytes n) 0"

datatype restore_error = RangeMismatch

definition bitmap_Restore ::
  "string \<Rightarrow> byte list \<Rightarrow> AllocationBitmap \<Rightarrow> restore_error + AllocationBitmap" where
  "bitmap_Restore rangeSpec data r =
     (if bm_rangeSpec r \<noteq> rangeSpec then Inl RangeMismatch
      else let a = big_SetBytes data
           in Inr (r\<lparr>bm_allocated := a, bm_count := countBits a\<rparr>))"

section \<open>Correctness of the scan strategies\<close>

abbreviation bm_bits :: "AllocationBitmap \<Rightarrow> nat set" where
  "bm_bits r \<equiv> bits_of (bm_allocated r)"

text \<open>The consistency the type's comment promises: \<open>count\<close> is the number of set bits.\<close>

definition bitmap_wf :: "AllocationBitmap \<Rightarrow> bool" where
  "bitmap_wf r \<longleftrightarrow> 0 \<le> bm_allocated r \<and> bm_count r = int (card (bm_bits r))"

definition bitmap_inrange :: "AllocationBitmap \<Rightarrow> bool" where
  "bitmap_inrange r \<longleftrightarrow> bm_bits r \<subseteq> {..<nat (bm_max r)}"

declare bitmap_wf_def [wf_simps] bitmap_inrange_def [wf_simps]

lemma scan_loop_find:
  "scan_loop allocated at m i = find (\<lambda>a. \<not> bit allocated a) (map at [i..<nat m])"
proof (induction allocated at m i rule: scan_loop.induct)
  case (1 allocated at m i)
  show ?case
  proof (cases "int i < m")
    case True
    then have "[i..<nat m] = i # [Suc i..<nat m]" by (simp add: upt_conv_Cons)
    with 1 True show ?thesis by (simp add: scan_loop.simps [of allocated at m i])
  next
    case False
    then show ?thesis by (simp add: scan_loop.simps [of allocated at m i])
  qed
qed

lemma scan_loop_Some:
  assumes "scan_loop allocated at m 0 = Some a"
  shows "\<not> bit allocated a \<and> a \<in> at ` {..<nat m}"
proof -
  from assms have "find (\<lambda>a. \<not> bit allocated a) (map at [0..<nat m]) = Some a"
    by (simp only: scan_loop_find)
  then have "\<not> bit allocated a" and "a \<in> set (map at [0..<nat m])"
    by (auto simp: find_Some_iff in_set_conv_nth)
  then show ?thesis by (auto simp: image_iff)
qed

lemma scan_loop_None:
  "scan_loop allocated at m 0 = None \<longleftrightarrow> (\<forall>i<nat m. bit allocated (at i))"
  by (auto simp: scan_loop_find find_None_iff)

lemma scan_rotation:
  "scan_loop allocated (\<lambda>i. (s + i) mod nat m) m 0 = Some a \<Longrightarrow> \<not> bit allocated a \<and> a < nat m"
  "scan_loop allocated (\<lambda>i. (s + i) mod nat m) m 0 = None \<longleftrightarrow> (\<forall>i<nat m. bit allocated i)"
proof -
  assume "scan_loop allocated (\<lambda>i. (s + i) mod nat m) m 0 = Some a"
  from scan_loop_Some [OF this]
  have *: "\<not> bit allocated a" "a \<in> (\<lambda>i. (s + i) mod nat m) ` {..<nat m}" by auto
  then have "0 < nat m" by auto
  with * rotate_mod_set [of "nat m" s] show "\<not> bit allocated a \<and> a < nat m" by auto
next
  show "scan_loop allocated (\<lambda>i. (s + i) mod nat m) m 0 = None \<longleftrightarrow> (\<forall>i<nat m. bit allocated i)"
  proof (cases "0 < nat m")
    case True
    have "(\<forall>i<nat m. bit allocated ((s + i) mod nat m)) \<longleftrightarrow>
        (\<forall>j\<in>(\<lambda>i. (s + i) mod nat m) ` {..<nat m}. bit allocated j)" by auto
    then show ?thesis by (simp add: scan_loop_None rotate_mod_set [OF True]) auto
  next
    case False
    then show ?thesis by (simp add: scan_loop_None)
  qed
qed

text \<open>All three strategies probe exactly the offsets below \<open>max\<close>.\<close>

lemma AllocateBit_Some:
  assumes "AllocateBit rnd st allocated m cnt = (Some a, st')"
  shows "\<not> bit allocated a \<and> a < nat m \<and> cnt < m"
proof (cases st)
  case randomScanStrategy
  with assms show ?thesis using scan_rotation(1) [of allocated rnd m a] by (auto split: if_splits)
next
  case contiguousScanStrategy
  with assms show ?thesis using scan_loop_Some [of allocated "\<lambda>i. i" m a] by (auto split: if_splits)
next
  case (roundRobinScanStrategy n)
  with assms show ?thesis using scan_rotation(1) [of allocated n m a]
    by (auto split: if_splits option.splits)
qed

lemma AllocateBit_None:
  assumes "AllocateBit rnd st allocated m cnt = (None, st')"
  shows "st' = st \<and> (cnt < m \<longrightarrow> (\<forall>i<nat m. bit allocated i))"
proof (cases st)
  case randomScanStrategy
  with assms show ?thesis using scan_rotation(2) [of allocated rnd m] by (auto split: if_splits)
next
  case contiguousScanStrategy
  with assms show ?thesis using scan_loop_None [of allocated "\<lambda>i. i" m] by (auto split: if_splits)
next
  case (roundRobinScanStrategy n)
  with assms show ?thesis using scan_rotation(2) [of allocated n m]
    by (auto split: if_splits option.splits)
qed

section \<open>The allocator as a pool\<close>

lemma card_eq_full: "A \<subseteq> {..<n} \<Longrightarrow> card A \<ge> n \<Longrightarrow> A = {..<(n::nat)}"
  by (metis card_lessThan card_seteq finite_lessThan)

lemma bitmap_wf_finite: "bitmap_wf r \<Longrightarrow> finite (bm_bits r)"
  by (simp add: bitmap_wf_def finite_bits_of)

lemma bitmap_New_wf [simp]:
  "bitmap_wf (NewAllocationMap m spec)" "bitmap_wf (NewContiguousAllocationMap m spec)"
  "bitmap_wf (NewRoundRobinAllocationMap m spec)"
  "bitmap_inrange (NewAllocationMap m spec)" "bitmap_inrange (NewContiguousAllocationMap m spec)"
  "bitmap_inrange (NewRoundRobinAllocationMap m spec)"
  by (simp_all add: wf_simps NewAllocationMap_def NewContiguousAllocationMap_def
      NewRoundRobinAllocationMap_def)

lemma bitmap_Allocate_eff:
  assumes "bitmap_Allocate offset r = Some (ok, r')"
  shows "0 \<le> offset \<and> (ok \<longleftrightarrow> nat offset \<notin> bm_bits r) \<and> bm_bits r' = insert (nat offset) (bm_bits r)
    \<and> bm_max r' = bm_max r \<and> bm_strategy r' = bm_strategy r \<and> bm_rangeSpec r' = bm_rangeSpec r
    \<and> (bitmap_wf r \<longrightarrow> bitmap_wf r')"
  using assms
  by (auto simp: bitmap_Allocate_def bitmap_wf_def finite_bits_of split: if_splits)

lemma bitmap_Release_eff:
  assumes "bitmap_Release offset r = Some r'"
  shows "0 \<le> offset \<and> bm_bits r' = bm_bits r - {nat offset}
    \<and> bm_max r' = bm_max r \<and> bm_strategy r' = bm_strategy r \<and> bm_rangeSpec r' = bm_rangeSpec r
    \<and> (bitmap_wf r \<longrightarrow> bitmap_wf r')"
proof -
  have "Suc 0 \<le> card (bm_bits r)" if "bit (bm_allocated r) n" "bitmap_wf r" for n
  proof -
    have "n \<in> bm_bits r" using that by simp
    then show ?thesis using bitmap_wf_finite [OF that(2)] card_0_eq [of "bm_bits r"] by fastforce
  qed
  then show ?thesis using assms
    by (auto simp: bitmap_Release_def bitmap_wf_def finite_bits_of of_nat_diff split: if_splits)
qed

lemma bitmap_AllocateNext_Some:
  assumes "bitmap_AllocateNext rnd r = (Some a, r')"
  shows "a < nat (bm_max r) \<and> a \<notin> bm_bits r \<and> bm_bits r' = insert a (bm_bits r)
    \<and> bm_max r' = bm_max r \<and> bm_rangeSpec r' = bm_rangeSpec r
    \<and> (bitmap_wf r \<longrightarrow> bitmap_wf r')"
proof -
  obtain st where st: "AllocateBit rnd (bm_strategy r) (bm_allocated r) (bm_max r) (bm_count r)
      = (Some a, st)"
    and r': "r' = r\<lparr>bm_strategy := st, bm_count := bm_count r + 1,
      bm_allocated := set_bit a (bm_allocated r)\<rparr>"
    using assms by (auto simp: bitmap_AllocateNext_def split: prod.splits option.splits)
  from AllocateBit_Some [OF st] r' show ?thesis
    by (auto simp: bitmap_wf_def finite_bits_of)
qed

lemma bitmap_AllocateNext_None:
  assumes "bitmap_AllocateNext rnd r = (None, r')"
  shows "r' = r \<and> (bm_count r < bm_max r \<longrightarrow> {..<nat (bm_max r)} \<subseteq> bm_bits r)"
proof -
  obtain st where st: "AllocateBit rnd (bm_strategy r) (bm_allocated r) (bm_max r) (bm_count r)
      = (None, st)" and r': "r' = r\<lparr>bm_strategy := st\<rparr>"
    using assms by (auto simp: bitmap_AllocateNext_def split: prod.splits option.splits)
  from AllocateBit_None [OF st] r' show ?thesis by auto
qed

text \<open>With all set bits in range, a refusal means that every offset is taken.\<close>

lemma bitmap_AllocateNext_full:
  assumes "bitmap_wf r" and "bitmap_inrange r" and "bitmap_AllocateNext rnd r = (None, r')"
  shows "bm_bits r = {..<nat (bm_max r)}"
proof (cases "bm_count r < bm_max r")
  case True
  with bitmap_AllocateNext_None [OF assms(3)] assms(2) show ?thesis
    by (auto simp: bitmap_inrange_def)
next
  case False
  with assms(1) have "nat (bm_max r) \<le> card (bm_bits r)" by (auto simp: bitmap_wf_def)
  with assms(2) show ?thesis by (intro card_eq_full) (auto simp: bitmap_inrange_def)
qed

definition bitmap_claim :: "nat \<Rightarrow> AllocationBitmap \<Rightarrow> AllocationBitmap option" where
  "bitmap_claim a r = (case bitmap_Allocate (int a) r of Some (True, r') \<Rightarrow> Some r' | _ \<Rightarrow> None)"

definition bitmap_take :: "nat \<Rightarrow> AllocationBitmap \<Rightarrow> (nat \<times> AllocationBitmap) option" where
  "bitmap_take rnd r = (case bitmap_AllocateNext rnd r of (Some a, r') \<Rightarrow> Some (a, r') | _ \<Rightarrow> None)"

definition bitmap_give :: "nat \<Rightarrow> AllocationBitmap \<Rightarrow> AllocationBitmap" where
  "bitmap_give a r = (case bitmap_Release (int a) r of Some r' \<Rightarrow> r' | None \<Rightarrow> r)"

interpretation bmp: pool "\<lambda>r. bitmap_wf r \<and> bitmap_inrange r" "\<lambda>r. {..<nat (bm_max r)}" bm_bits
  bitmap_claim bitmap_take bitmap_give
proof (unfold_locales, goal_cases)
  case (1 s)
  then show ?case by (simp add: bitmap_inrange_def)
next
  case (2 s)
  then show ?case by simp
next
  case (3 s a)
  obtain ok t where t: "bitmap_Allocate (int a) s = Some (ok, t)"
    by (simp add: bitmap_Allocate_def) metis
  from bitmap_Allocate_eff [OF t] 3 show ?case
    by (auto simp: bitmap_claim_def t bitmap_inrange_def)
next
  case (4 s a)
  then show ?case by (simp add: bitmap_claim_def bitmap_Allocate_def)
next
  case (5 s c a t)
  then have "bitmap_AllocateNext c s = (Some a, t)"
    by (auto simp: bitmap_take_def split: prod.splits option.splits)
  from bitmap_AllocateNext_Some [OF this] 5 show ?case
    by (auto simp: bitmap_inrange_def)
next
  case (6 s c)
  then have "bitmap_AllocateNext c s = (None, snd (bitmap_AllocateNext c s))"
    by (auto simp: bitmap_take_def split: prod.splits option.splits)
  with 6 bitmap_AllocateNext_full show ?case by blast
next
  case (7 s a)
  obtain t where t: "bitmap_Release (int a) s = Some t"
    by (cases "bit (bm_allocated s) a") (auto simp: bitmap_Release_def)
  from bitmap_Release_eff [OF t] 7 show ?case
    by (auto simp: bitmap_give_def t bitmap_inrange_def)
qed

section \<open>ForEach, Snapshot and Restore\<close>

lemma wordSize_eq: "wordSize = 8"
  by (simp add: wordSize_def wordPower_def notZero_def drop_bit_eq_div) 

lemma odd_and_one: "(w :: u64) AND 1 \<noteq> 0 \<longleftrightarrow> bit w 0"
  by (simp only: and_one_eq bit_0 odd_iff_mod_2_eq_one) (cases "even w", simp_all add: even_iff_mod_2_eq_zero odd_iff_mod_2_eq_one)

lemma set_forEachWord: "set (forEachWord base w b) = (\<lambda>i. base + b + i) ` {i. bit w i}"
proof (induction base w b rule: forEachWord.induct)
  case (1 base w b)
  have split: "{i. bit w i} = (if bit w 0 then {0} else {}) \<union> Suc ` {i. bit w (Suc i)}"
    by (auto simp: image_iff gr0_conv_Suc) (metis not0_implies_Suc)+
  show ?case
  proof (cases "0 < w")
    case True
    have "bit (NOT (1::u64)) (Suc i) \<longleftrightarrow> Suc i < 64" for i
      by (simp only: bit_not_iff bit_1_iff) (simp add: possible_bit_word)
    then have "bit (drop_bit 1 (w AND NOT 1)) i \<longleftrightarrow> bit w (Suc i)" for i
      using bit_imp_le_length [of w "Suc i"]
      by (simp only: bit_drop_bit_eq bit_and_iff o_def add.commute plus_1_eq_Suc) auto
    moreover have "bit (drop_bit 1 w) i \<longleftrightarrow> bit w (Suc i)" for i
      by (simp only: bit_drop_bit_eq o_def plus_1_eq_Suc)
    ultimately have *: "{i. bit (drop_bit 1 (w AND NOT 1)) i} = {i. bit w (Suc i)}"
      "{i. bit (drop_bit 1 w) i} = {i. bit w (Suc i)}" by blast+
    show ?thesis
    proof (cases "w AND 1 \<noteq> 0")
      case True
      note IH = "1.IH"(1) [OF \<open>0 < w\<close> True, unfolded *]
      have "set (forEachWord base w b) =
          insert (base + b) (set (forEachWord base (drop_bit 1 (w AND NOT 1)) (Suc b)))"
        using \<open>0 < w\<close> True by (simp only: forEachWord.simps [of base w b] if_True list.set simp_thms)
      then show ?thesis unfolding IH using True
        by (subst split) (simp only: odd_and_one if_True image_Un image_image, simp)
    next
      case False
      note IH = "1.IH"(2) [OF \<open>0 < w\<close> False, unfolded *]
      have "forEachWord base w b = forEachWord base (drop_bit 1 w) (Suc b)"
        using \<open>0 < w\<close> False by (simp only: forEachWord.simps [of base w b] if_True if_False)
      then show ?thesis using IH False
        by (subst split) (simp only: odd_and_one if_False image_Un image_image, simp)
    qed
  next
    case False
    then have "w = 0" by (simp add: word_less_nat_alt unat_eq_0)
    then show ?thesis by (simp add: forEachWord.simps)
  qed
qed

lemma sorted_forEachWord: "sorted_wrt (<) (forEachWord base w b)"
proof (induction base w b rule: forEachWord.induct)
  case (1 base w b)
  then show ?case
    by (subst forEachWord.simps) (auto simp: set_forEachWord)
qed

lemma forEachWords_spec:
  "sorted_wrt (<) (forEachWords k ws) \<and>
   set (forEachWords k ws) = (+) (k * 64) ` bits_of (horner_sum uint (2 ^ 64) ws)"
proof (induction ws arbitrary: k)
  case Nil
  then show ?case by simp
next
  case (Cons w ws)
  have bits: "bits_of (horner_sum uint (2 ^ 64) (w # ws)) =
      {n. bit w n} \<union> (+) 64 ` bits_of (horner_sum uint (2 ^ 64) ws)"
    using bits_of_horner_Cons [of w ws] by simp
  have lt: "bit w n \<Longrightarrow> n < 64" for n
    using bit_imp_le_length [of w n] by simp
  show ?case
    unfolding forEachWords.simps bits
    using Cons [of "Suc k"] lt
    by (auto simp: sorted_wrt_append sorted_forEachWord set_forEachWord wordSize_eq image_Un
        image_image algebra_simps dest!: lt)
qed

text \<open>\<open>ForEach\<close> calls its function on exactly the set bits, in ascending order.\<close>

lemma bitmap_ForEach_sorted:
  assumes "0 \<le> bm_allocated r"
  shows "bitmap_ForEach r = sorted_list_of_set (bm_bits r)"
proof -
  have "sorted_wrt (<) (bitmap_ForEach r)" and "set (bitmap_ForEach r) = bm_bits r"
    using forEachWords_spec [of 0 "big_Bits (bm_allocated r)"] big_Bits_horner [OF assms]
    by (simp_all add: bitmap_ForEach_def)
  then show ?thesis
    by (metis strict_sorted_equal strict_sorted_list_of_set set_sorted_list_of_set
        finite_bits_of [OF assms])
qed

lemma bitCounts_table:
  "bitCounts = map (\<lambda>k. sum_list (map (\<lambda>n. of_bool (odd (k div 2 ^ n))) [0..<8])) [0..255::int]"
  unfolding bitCounts_def by code_simp

lemma bitCounts_card: "bitCounts ! unat (b :: byte) = card {n. bit b n}"
proof -
  have lt: "unat b < 256" using unsigned_less [of b] by simp
  have "bit b n \<longleftrightarrow> n < 8 \<and> odd (uint b div 2 ^ n)" for n
    using bit_uint_iff [of b n] bit_iff_odd [of "uint b" n] bit_imp_le_length [of b n] by auto
  then have "{n. bit b n} = set (filter (\<lambda>n. odd (uint b div 2 ^ n)) [0..<8])" by auto
  then have "card {n. bit b n} = length (filter (\<lambda>n. odd (uint b div 2 ^ n)) [0..<8])"
    by (simp only: distinct_card distinct_filter distinct_upt)
  also have "\<dots> = sum_list (map (\<lambda>n. of_bool (odd (uint b div 2 ^ n))) [0..<8])"
    by (simp only: sum_list_map_filter' [symmetric] of_bool_def sum_list_triv) simp
  also have "\<dots> = bitCounts ! unat b"
  proof -
    have "[0..255::int] ! unat b = uint b" using lt uint_byte_lt [of b] by (subst nth_upto) auto
    moreover have "unat b < length [0..255::int]" using lt by simp
    ultimately show ?thesis unfolding bitCounts_table by (simp only: nth_map)
  qed
  finally show ?thesis by simp
qed

lemma bits_of_SetBytes_rev:
  "bits_of (big_SetBytes (rev (b # bs))) = {n. bit b n} \<union> (+) 8 ` bits_of (big_SetBytes (rev bs))"
  using bits_of_horner_Cons [of b bs] by (simp add: big_SetBytes_def)

lemma fold_bitCounts:
  "fold (\<lambda>b c. c + int (bitCounts ! unat b)) bs k =
     k + int (sum_list (map (\<lambda>b. bitCounts ! unat b) bs))"
  by (induction bs arbitrary: k) auto

lemma card_bits_SetBytes:
  "card (bits_of (big_SetBytes (rev bs))) = sum_list (map (\<lambda>b. bitCounts ! unat b) bs)"
proof (induction bs)
  case (Cons b bs)
  have "finite {n. bit b n}" and disj: "{n. bit b n} \<inter> (+) 8 ` bits_of (big_SetBytes (rev bs)) = {}"
    by (rule finite_subset [of _ "{..<8}"]) (auto dest: bit_imp_le_length)
  then have "card (bits_of (big_SetBytes (rev (b # bs)))) =
      card {n. bit b n} + card ((+) 8 ` bits_of (big_SetBytes (rev bs)))"
    unfolding bits_of_SetBytes_rev by (intro card_Un_disjoint) (auto simp: finite_bits_of)
  also have "card ((+) 8 ` bits_of (big_SetBytes (rev bs))) = card (bits_of (big_SetBytes (rev bs)))"
    by (intro card_image) (simp add: inj_on_def)
  finally show ?case using Cons by (simp add: bitCounts_card)
qed simp

lemma countBits_card:
  assumes "0 \<le> n"
  shows "countBits n = int (card (bits_of n))"
proof -
  have "card (bits_of n) = sum_list (map (\<lambda>b. bitCounts ! unat b) (rev (big_Bytes n)))"
    using card_bits_SetBytes [of "rev (big_Bytes n)"] big_SetBytes_Bytes [OF assms] by simp
  then show ?thesis by (simp add: countBits_def fold_bitCounts rev_map [symmetric])
qed

lemma bitmap_Restore_wf:
  "bitmap_Restore spec data r = Inr r' \<Longrightarrow> bitmap_wf r' \<and> bm_allocated r' = big_SetBytes data"
  by (auto simp: bitmap_Restore_def bitmap_wf_def countBits_card Let_def split: if_splits)

section \<open>Reachable bitmaps\<close>

text \<open>The bitmaps a client can build with the exported operations. \<open>Allocate\<close> and \<open>Release\<close>
  take any non-negative offset: the code has no range check.\<close>

inductive bitmap_reach :: "AllocationBitmap \<Rightarrow> bool" where
  new_random: "bitmap_reach (NewAllocationMap m spec)"
| new_contiguous: "bitmap_reach (NewContiguousAllocationMap m spec)"
| new_round_robin: "bitmap_reach (NewRoundRobinAllocationMap m spec)"
| allocate: "bitmap_reach r \<Longrightarrow> bitmap_Allocate offset r = Some (ok, r') \<Longrightarrow> bitmap_reach r'"
| allocate_next: "bitmap_reach r \<Longrightarrow> bitmap_AllocateNext rnd r = (res, r') \<Longrightarrow> bitmap_reach r'"
| release: "bitmap_reach r \<Longrightarrow> bitmap_Release offset r = Some r' \<Longrightarrow> bitmap_reach r'"
| restore: "bitmap_reach r \<Longrightarrow> bitmap_Restore spec data r = Inr r' \<Longrightarrow> bitmap_reach r'"

lemma bitmap_reach_wf: "bitmap_reach r \<Longrightarrow> bitmap_wf r"
proof (induction rule: bitmap_reach.induct)
  case (allocate_next r rnd res r')
  then show ?case
    by (cases res) (auto dest: bitmap_AllocateNext_Some bitmap_AllocateNext_None)
qed (auto dest: bitmap_Allocate_eff bitmap_Release_eff bitmap_Restore_wf)

text \<open>C35: In every bitmap built by any sequence of the exported operations, the counter
  \<open>count\<close> equals the number of set bits, \<open>Free\<close> is the maximum minus that number, and
  \<open>ForEach\<close> visits exactly the set bits, once each and in ascending order.\<close>

theorem bitmap_count_consistent:
  assumes "bitmap_reach r"
  shows "bm_count r = int (length (bitmap_ForEach r))
    \<and> bitmap_Free r = bm_max r - int (card (bm_bits r))
    \<and> bitmap_ForEach r = sorted_list_of_set (bm_bits r)"
  using bitmap_reach_wf [OF assms] bitmap_ForEach_sorted [of r]
  by (simp add: bitmap_wf_def bitmap_Free_def)

theorem bitmap_count_consistent_witness:
  "let r = snd (bitmap_AllocateNext 0 (NewRoundRobinAllocationMap 4 ''s''))
   in bm_count r = int (length (bitmap_ForEach r))"
proof -
  have "bitmap_reach (snd (bitmap_AllocateNext 0 (NewRoundRobinAllocationMap 4 ''s'')))"
    by (rule bitmap_reach.allocate_next [OF bitmap_reach.new_round_robin]) (rule prod.collapse [symmetric])
  from bitmap_count_consistent [OF this] show ?thesis by (simp add: Let_def)
qed

section \<open>Properties of the operations\<close>

lemma find_map_upt_least:
  "find P (map (\<lambda>i. i) [0..<m]) = Some a \<Longrightarrow> i < a \<Longrightarrow> \<not> P i"
  by (auto simp: find_Some_iff)

lemma contiguous_least:
  assumes "bm_strategy r = contiguousScanStrategy" and "bitmap_AllocateNext rnd r = (Some a, r')"
  shows "{..<a} \<subseteq> bm_bits r"
proof -
  have "scan_loop (bm_allocated r) (\<lambda>i. i) (bm_max r) 0 = Some a"
    using assms by (auto simp: bitmap_AllocateNext_def split: prod.splits option.splits if_splits)
  then show ?thesis unfolding scan_loop_find using find_map_upt_least by fastforce
qed

text \<open>\<open>AllocateNext\<close> on a consistent bitmap whose bits are in range, whatever the random
  offset: it refuses exactly when every offset below \<open>max\<close> is taken, leaving the bitmap as it
  was; otherwise it returns a free offset below \<open>max\<close>, marks that offset and no other, keeps
  the bitmap consistent, and under the contiguous strategy the offset is the lowest free one.\<close>

lemma bitmap_AllocateNext_correct:
  assumes "bitmap_wf r" and "bitmap_inrange r"
  shows "case bitmap_AllocateNext rnd r of
      (None, r') \<Rightarrow> r' = r \<and> bm_bits r = {..<nat (bm_max r)}
    | (Some a, r') \<Rightarrow> a < nat (bm_max r) \<and> a \<notin> bm_bits r \<and> bm_bits r' = insert a (bm_bits r)
        \<and> bm_max r' = bm_max r \<and> bitmap_wf r' \<and> bitmap_inrange r'
        \<and> (bm_strategy r = contiguousScanStrategy \<longrightarrow> {..<a} \<subseteq> bm_bits r)"
proof (cases "bitmap_AllocateNext rnd r")
  case (Pair res r')
  show ?thesis
  proof (cases res)
    case None
    then show ?thesis using Pair bitmap_AllocateNext_None [of rnd r r']
        bitmap_AllocateNext_full [OF assms, of rnd r'] by simp
  next
    case (Some a)
    then have "bitmap_AllocateNext rnd r = (Some a, r')" using Pair by simp
    from bitmap_AllocateNext_Some [OF this] contiguous_least [OF _ this] assms
    show ?thesis by (simp add: Pair Some bitmap_inrange_def)
  qed
qed

text \<open>An allocator never runs out early and never hands out an offset twice: enough calls
  of \<open>AllocateNext\<close>, with any random offsets, return every free offset exactly once.\<close>

lemma bitmap_drains_completely:
  assumes "bitmap_wf r" and "bitmap_inrange r"
    and "card ({..<nat (bm_max r)} - bm_bits r) < length rnds"
  shows "\<exists>as u. bmp.drain rnds r = (as, u) \<and> distinct as
    \<and> set as = {..<nat (bm_max r)} - bm_bits r \<and> bm_bits u = {..<nat (bm_max r)}"
  using bmp.drain_all [of r rnds] assms by blast

text \<open>\<open>Restore\<close> of a snapshot rebuilds the bitmap: the same bits and the same counter,
  whatever the receiver held before; a snapshot of another range is refused.\<close>

lemma bitmap_Restore_Snapshot:
  assumes "bitmap_wf r"
  shows "case bitmap_Snapshot r of (spec, data) \<Rightarrow>
    bitmap_Restore spec data r0 =
      (if bm_rangeSpec r0 \<noteq> bm_rangeSpec r then Inl RangeMismatch
       else Inr (r0\<lparr>bm_allocated := bm_allocated r, bm_count := bm_count r\<rparr>))"
  using assms
  by (simp add: bitmap_Snapshot_def bitmap_Restore_def big_SetBytes_Bytes countBits_card
      bitmap_wf_def Let_def)

lemma round_robin_last_probe:
  assumes "0 < nat m" and "a < nat m"
    and "scan_loop allocated (\<lambda>i. ((a + 1) mod nat m + i) mod nat m) m 0 = Some a"
  shows "{..<nat m} - {a} \<subseteq> bits_of allocated"
proof
  fix j assume j: "j \<in> {..<nat m} - {a}"
  let ?at = "\<lambda>i. ((a + 1) mod nat m + i) mod nat m"
  obtain k where k: "k < nat m" "?at k = a" "\<forall>i<k. bit allocated (?at i)"
    using assms(3) unfolding scan_loop_find by (auto simp: find_Some_iff)
  have *: "?at i = (a + Suc i) mod nat m" for i
    by (simp add: mod_add_left_eq)
  have "k = nat m - 1"
  proof (rule ccontr)
    assume "k \<noteq> nat m - 1"
    then have "Suc k < nat m" using k(1) by linarith
    moreover have "(a + Suc k) mod nat m = a" using k(2) * by simp
    ultimately show False using mod_add_neq [OF assms(2), of "Suc k"] by blast
  qed
  moreover have "j \<in> (\<lambda>i. (a + 1 + i) mod nat m) ` {..<nat m}"
    using j by (simp only: rotate_mod_set [OF assms(1)]) simp
  then obtain i where "i < nat m" "(a + 1 + i) mod nat m = j" by auto
  moreover have "i \<noteq> nat m - 1"
  proof
    assume "i = nat m - 1"
    then have "a + 1 + i = a + nat m" using assms(1) by simp
    then have "j = (a + nat m) mod nat m" using \<open>(a + 1 + i) mod nat m = j\<close> by (simp only:)
    then have "j = a" using assms(2) by simp
    with j show False by simp
  qed
  ultimately have "i < k" "?at i = j" using * by auto
  with k(3) show "j \<in> bits_of allocated" by auto
qed

lemma bitmap_AllocateNext_round_robin:
  assumes "bm_strategy r = roundRobinScanStrategy n" and "bitmap_AllocateNext rnd r = (Some a, r')"
  shows "scan_loop (bm_allocated r) (\<lambda>i. (n + i) mod nat (bm_max r)) (bm_max r) 0 = Some a
    \<and> bm_strategy r' = roundRobinScanStrategy ((a + 1) mod nat (bm_max r))"
  using assms by (auto simp: bitmap_AllocateNext_def split: option.splits if_splits)

text \<open>The round-robin strategy does not hand out the offset that was just released as long
  as any other offset is free: allocate, release, allocate again returns the same offset only
  when it is the only free one.\<close>

lemma round_robin_no_immediate_reuse:
  assumes "bitmap_wf r" and "bm_strategy r = roundRobinScanStrategy n"
    and "bitmap_AllocateNext rnd r = (Some a, r1)"
    and "bitmap_Release (int a) r1 = Some r2"
    and "bitmap_AllocateNext rnd' r2 = (Some b, r3)"
  shows "b \<noteq> a \<or> {..<nat (bm_max r)} - {a} \<subseteq> bm_bits r"
proof -
  note 1 = bitmap_AllocateNext_Some [OF assms(3)]
  note 2 = bitmap_Release_eff [OF assms(4)]
  have "bm_strategy r1 = roundRobinScanStrategy ((a + 1) mod nat (bm_max r))"
    using bitmap_AllocateNext_round_robin [OF assms(2,3)] by blast
  moreover have "bm_bits r2 = bm_bits r" "bm_max r2 = bm_max r" "bm_strategy r2 = bm_strategy r1"
    using 1 2 by auto
  moreover from calculation(2) have "bm_allocated r2 = bm_allocated r" by (rule bits_of_inject)
  ultimately have scan: "scan_loop (bm_allocated r)
      (\<lambda>i. ((a + 1) mod nat (bm_max r) + i) mod nat (bm_max r)) (bm_max r) 0 = Some b"
    using bitmap_AllocateNext_round_robin [OF _ assms(5), of "(a + 1) mod nat (bm_max r)"]
    by (simp only: simp_thms)
  have a: "a < nat (bm_max r)" using 1 by blast
  then have pos: "0 < nat (bm_max r)" by (rule le_less_trans [OF le0])
  show ?thesis
  proof (cases "b = a")
    case True
    then show ?thesis using round_robin_last_probe [OF pos a] scan by blast
  qed blast
qed

end
