(* ===== verification/Go_Net.thy ===== *)
theory Go_Net
  imports Go_Big
begin

text \<open>
  Go's \<open>net.IP\<close>, \<open>net.IPMask\<close> and \<open>net.IPNet\<close> as the repository uses them, and the arithmetic
  of \<open>k8s.io/utils/net\<close> (\<open>net.go\<close>, \<open>ipfamily.go\<close>) and of the CNI plugins' \<open>pkg/ip/cidr.go\<close> over
  them. An address is a list of bytes, the nil slice is the empty list. The main result is
  \<open>Contains_iff\<close>: for a network in canonical form \<open>Contains\<close> is membership of an interval of
  integers.
\<close>

section \<open>Addresses and masks\<close>

type_synonym ip = "byte list"
type_synonym ipmask = "byte list"

record ipnet =
  IP :: ip
  Mask :: ipmask

definition v4InV6Prefix :: "byte list" where
  "v4InV6Prefix = [0, 0, 0, 0, 0, 0, 0, 0, 0, 0, 0xff, 0xff]"

definition To4 :: "ip \<Rightarrow> ip" where
  "To4 x = (if length x = 4 then x
            else if length x = 16 \<and> take 12 x = v4InV6Prefix then drop 12 x
            else [])"

definition To16 :: "ip \<Rightarrow> ip" where
  "To16 x = (if length x = 4 then v4InV6Prefix @ x else if length x = 16 then x else [])"

definition IP_Equal :: "ip \<Rightarrow> ip \<Rightarrow> bool" where
  "IP_Equal x y =
     (if length x = length y then x = y
      else if length x = 4 \<and> length y = 16 then take 12 y = v4InV6Prefix \<and> x = drop 12 y
      else if length x = 16 \<and> length y = 4 then take 12 x = v4InV6Prefix \<and> drop 12 x = y
      else False)"

definition IP_Mask :: "ip \<Rightarrow> ipmask \<Rightarrow> ip" where
  "IP_Mask x m =
     (let m' = (if length m = 16 \<and> length x = 4 \<and> (\<forall>b\<in>set (take 12 m). b = 0xff)
                then drop 12 m else m);
          x' = (if length m' = 4 \<and> length x = 16 \<and> take 12 x = v4InV6Prefix
                then drop 12 x else x)
      in if length x' \<noteq> length m' then [] else map2 (AND) x' m')"

text \<open>\<open>simpleMaskLength\<close>: the number of leading ones, or -1 when the ones are not a prefix. The
  inner loop shifts a byte left while its top bit is one; after eight shifts it is zero, so the
  first argument 8 never cuts it short.\<close>

fun leadingOnes :: "nat \<Rightarrow> byte \<Rightarrow> int \<Rightarrow> int \<times> byte" where
  "leadingOnes 0 v n = (n, v)"
| "leadingOnes (Suc k) v n =
     (if v AND 0x80 \<noteq> 0 then leadingOnes k (push_bit 1 v) (n + 1) else (n, v))"

fun maskLength :: "int \<Rightarrow> ipmask \<Rightarrow> int" where
  "maskLength n [] = n"
| "maskLength n (v # vs) =
     (if v = 0xff then maskLength (n + 8) vs
      else case leadingOnes 8 v n of (n', v') \<Rightarrow>
        if v' \<noteq> 0 then -1 else if list_all (\<lambda>b. b = 0) vs then n' else -1)"

definition simpleMaskLength :: "ipmask \<Rightarrow> int" where
  "simpleMaskLength m = maskLength 0 m"

definition Mask_Size :: "ipmask \<Rightarrow> int \<times> int" where
  "Mask_Size m =
     (if simpleMaskLength m = -1 then (0, 0) else (simpleMaskLength m, int (length m) * 8))"

fun cidrBytes :: "nat \<Rightarrow> nat \<Rightarrow> ipmask" where
  "cidrBytes 0 n = []"
| "cidrBytes (Suc l) n =
     (if n \<ge> 8 then 0xff # cidrBytes l (n - 8) else NOT (drop_bit n 0xff) # cidrBytes l 0)"

definition CIDRMask :: "int \<Rightarrow> int \<Rightarrow> ipmask" where
  "CIDRMask ones bits =
     (if bits \<noteq> 32 \<and> bits \<noteq> 128 then []
      else if ones < 0 \<or> ones > bits then []
      else cidrBytes (nat (bits div 8)) (nat ones))"

definition networkNumberAndMask :: "ipnet \<Rightarrow> ip \<times> ipmask" where
  "networkNumberAndMask n =
     (let x = (if To4 (IP n) \<noteq> [] then To4 (IP n) else IP n); m = Mask n
      in if To4 (IP n) = [] \<and> length (IP n) \<noteq> 16 then ([], [])
         else if length m = 4 then (if length x \<noteq> 4 then ([], []) else (x, m))
         else if length m = 16 then (if length x = 4 then (x, drop 12 m) else (x, m))
         else ([], []))"

definition IPNet_Contains :: "ipnet \<Rightarrow> ip \<Rightarrow> bool" where
  "IPNet_Contains n x =
     (case networkNumberAndMask n of (nn, m) \<Rightarrow>
        let x' = (if To4 x \<noteq> [] then To4 x else x)
        in length x' = length nn \<and> map2 (AND) nn m = map2 (AND) x' m)"

section \<open>The arithmetic of k8s.io/utils/net\<close>

datatype IPFamily = IPFamilyUnknown | IPv4 | IPv6

definition IPFamilyOf :: "ip \<Rightarrow> IPFamily" where
  "IPFamilyOf x = (if To4 x \<noteq> [] then IPv4 else if To16 x \<noteq> [] then IPv6 else IPFamilyUnknown)"

definition IPFamilyOfCIDR :: "ipnet option \<Rightarrow> IPFamily" where
  "IPFamilyOfCIDR c = (case c of None \<Rightarrow> IPFamilyUnknown | Some n \<Rightarrow> IPFamilyOf (IP n))"

definition IsIPv6 :: "ip \<Rightarrow> bool" where
  "IsIPv6 x \<longleftrightarrow> IPFamilyOf x = IPv6"

definition IsIPv4 :: "ip \<Rightarrow> bool" where
  "IsIPv4 x \<longleftrightarrow> IPFamilyOf x = IPv4"

definition IsIPv6CIDR :: "ipnet \<Rightarrow> bool" where
  "IsIPv6CIDR n \<longleftrightarrow> IPFamilyOfCIDR (Some n) = IPv6"

definition IsIPv4CIDR :: "ipnet \<Rightarrow> bool" where
  "IsIPv4CIDR n \<longleftrightarrow> IPFamilyOfCIDR (Some n) = IPv4"

definition BigForIP :: "ip \<Rightarrow> int" where
  "BigForIP x = big_SetBytes (To16 x)"

definition AddIPOffset :: "int \<Rightarrow> int \<Rightarrow> ip" where
  "AddIPOffset base offset =
     (let r = replicate 16 0 @ big_Bytes (base + offset) in drop (length r - 16) r)"

definition MaxInt64 :: int where
  "MaxInt64 = 2 ^ 63 - 1"

definition RangeSize :: "ipnet \<Rightarrow> int" where
  "RangeSize subnet =
     (case Mask_Size (Mask subnet) of (ones, bits) \<Rightarrow>
        if bits = 32 \<and> bits - ones \<ge> 31 \<or> bits = 128 \<and> bits - ones \<ge> 127 then 0
        else if bits - ones \<ge> 63 then MaxInt64
        else 2 ^ nat (bits - ones))"

datatype index_error = SubnetTooSmall int ipnet

definition GetIndexedIP :: "ipnet \<Rightarrow> int \<Rightarrow> index_error + ip" where
  "GetIndexedIP subnet index =
     (let x = AddIPOffset (BigForIP (IP subnet)) index
      in if \<not> IPNet_Contains subnet x then Inl (SubnetTooSmall index subnet) else Inr x)"

section \<open>The CNI plugins' NextIP\<close>

definition normalizeIP :: "ip \<Rightarrow> ip" where
  "normalizeIP x = (if To4 x \<noteq> [] then To4 x else To16 x)"

text \<open>\<open>make([]byte, n)\<close> with a negative \<open>n\<close> panics; the result of \<open>intToIP\<close> is then \<open>None\<close>.\<close>

definition intToIP :: "int \<Rightarrow> bool \<Rightarrow> ip option" where
  "intToIP i isIPv6 =
     (let b = big_Bytes i
      in if length b = 4 \<or> length b = 16 then Some b
         else let n = (if isIPv6 then 16 else 4)
              in if n < length b then None else Some (replicate (n - length b) 0 @ b))"

definition NextIP :: "ip \<Rightarrow> ip option" where
  "NextIP x =
     (let y = normalizeIP x
      in if y = [] then Some [] else intToIP (big_SetBytes y + 1) (length y = 16))"

section \<open>Canonical networks\<close>

text \<open>The form \<open>ParseCIDR\<close> produces: a 4-byte address with a 4-byte mask or a 16-byte address that
  is not an embedded IPv4 one with a 16-byte mask, the mask a run of \<open>ones\<close> ones, and all host
  bits of the address zero.\<close>

definition net_bits :: "ipnet \<Rightarrow> nat" where
  "net_bits n = 8 * length (IP n)"

definition net_ones :: "ipnet \<Rightarrow> nat" where
  "net_ones n = nat (simpleMaskLength (Mask n))"

definition net_size :: "ipnet \<Rightarrow> int" where
  "net_size n = 2 ^ (net_bits n - net_ones n)"

definition ip_wf :: "ip \<Rightarrow> bool" where
  "ip_wf x \<longleftrightarrow> length x = 4 \<or> length x = 16"

definition cidr_wf :: "ipnet \<Rightarrow> bool" where
  "cidr_wf n \<longleftrightarrow> (length (IP n) = 4 \<or> length (IP n) = 16 \<and> To4 (IP n) = [])
     \<and> net_ones n \<le> net_bits n \<and> Mask n = cidrBytes (length (IP n)) (net_ones n)
     \<and> map2 (AND) (IP n) (Mask n) = IP n"

declare cidr_wf_def [wf_simps] ip_wf_def [wf_simps]

lemma length_cidrBytes [simp]: "length (cidrBytes l n) = l"
  by (induction l n rule: cidrBytes.induct) auto

lemma length_v4InV6Prefix [simp]: "length v4InV6Prefix = 12"
  by (simp add: v4InV6Prefix_def)

lemma length_To4: "length (To4 x) = 4 \<or> To4 x = []"
  by (auto simp: To4_def)

lemma cidrBytes_size:
  "list_all (\<lambda>n. maskLength 0 (cidrBytes 4 n) = int n) [0..<33]"
  "list_all (\<lambda>n. maskLength 0 (cidrBytes 16 n) = int n) [0..<129]"
  by code_simp+

lemma simpleMaskLength_cidrBytes:
  "l = 4 \<or> l = 16 \<Longrightarrow> n \<le> 8 * l \<Longrightarrow> simpleMaskLength (cidrBytes l n) = int n"
  using cidrBytes_size by (auto simp: simpleMaskLength_def list_all_iff)

lemma CIDRMask_Size:
  "bits = 32 \<or> bits = 128 \<Longrightarrow> 0 \<le> ones \<Longrightarrow> ones \<le> bits \<Longrightarrow> Mask_Size (CIDRMask ones bits) = (ones, bits)"
  using simpleMaskLength_cidrBytes [of 4 "nat ones"] simpleMaskLength_cidrBytes [of 16 "nat ones"]
  by (auto simp: Mask_Size_def CIDRMask_def)

section \<open>Contains is membership of an interval\<close>

lemma byte_mask_eq:
  assumes "n < 8"
  shows "(a :: byte) AND NOT (drop_bit n 0xff) = b AND NOT (drop_bit n 0xff) \<longleftrightarrow>
    uint a div 2 ^ (8 - n) = uint b div 2 ^ (8 - n)"
proof -
  have ff: "bit (0xff::byte) i \<longleftrightarrow> i < 8" for i
  proof -
    have "(0xff::byte) = mask 8" by (simp add: mask_eq_decr_exp)
    then show ?thesis by (simp only: bit_mask_iff) simp
  qed
  have m: "bit (NOT (drop_bit n (0xff::byte))) i \<longleftrightarrow> i < 8 \<and> 8 \<le> n + i" for i
    by (simp only: bit_not_iff bit_drop_bit_eq o_def ff possible_bit_word) auto
  have "a AND NOT (drop_bit n 0xff) = b AND NOT (drop_bit n 0xff) \<longleftrightarrow>
      (\<forall>i. i < 8 \<and> 8 \<le> n + i \<longrightarrow> bit a i = bit b i)"
    by (simp only: bit_eq_iff bit_and_iff m possible_bit_word) auto
  also have "\<dots> \<longleftrightarrow> drop_bit (8 - n) a = drop_bit (8 - n) b"
  proof -
    have "(\<forall>i. i < 8 \<and> 8 \<le> n + i \<longrightarrow> bit a i = bit b i) \<longleftrightarrow>
        (\<forall>i. bit a (8 - n + i) = bit b (8 - n + i))"
    proof
      assume *: "\<forall>i. i < 8 \<and> 8 \<le> n + i \<longrightarrow> bit a i = bit b i"
      have "bit a (8 - n + i) = bit b (8 - n + i)" for i
        using * [rule_format, of "8 - n + i"] assms bit_imp_le_length [of a "8 - n + i"]
          bit_imp_le_length [of b "8 - n + i"] by auto
      then show "\<forall>i. bit a (8 - n + i) = bit b (8 - n + i)" by blast
    next
      assume *: "\<forall>i. bit a (8 - n + i) = bit b (8 - n + i)"
      have "bit a i = bit b i" if "i < 8 \<and> 8 \<le> n + i" for i
      proof -
        have "8 - n + (i - (8 - n)) = i" using that assms by linarith
        then show ?thesis using * [rule_format, of "i - (8 - n)"] by simp
      qed
      then show "\<forall>i. i < 8 \<and> 8 \<le> n + i \<longrightarrow> bit a i = bit b i" by blast
    qed
    moreover have "drop_bit (8 - n) a = drop_bit (8 - n) b \<longleftrightarrow>
        (\<forall>i. bit a (8 - n + i) = bit b (8 - n + i))"
    proof
      assume "drop_bit (8 - n) a = drop_bit (8 - n) b"
      then have "bit (drop_bit (8 - n) a) i = bit (drop_bit (8 - n) b) i" for i by (rule arg_cong)
      then show "\<forall>i. bit a (8 - n + i) = bit b (8 - n + i)" by (simp only: bit_drop_bit_eq o_def) blast
    next
      assume "\<forall>i. bit a (8 - n + i) = bit b (8 - n + i)"
      then show "drop_bit (8 - n) a = drop_bit (8 - n) b"
        by (intro bit_eqI) (simp only: bit_drop_bit_eq o_def)
    qed
    ultimately show ?thesis by simp
  qed
  also have "\<dots> \<longleftrightarrow> uint a div 2 ^ (8 - n) = uint b div 2 ^ (8 - n)"
  proof -
    have "uint (drop_bit (8 - n) w) = uint w div 2 ^ (8 - n)" for w :: byte
    proof -
      have "unat (drop_bit (8 - n) w) = unat w div 2 ^ (8 - n)"
        using unat_drop_bit_eq [of "8 - n" w] drop_bit_eq_div [of "8 - n" "unat w"] by (rule trans)
      then have "int (unat (drop_bit (8 - n) w)) = int (unat w) div int (2 ^ (8 - n))"
        unfolding zdiv_int [symmetric] by (rule arg_cong)
      then show ?thesis by simp
    qed
    then show ?thesis by (metis word_uint_eq_iff)
  qed
  finally show ?thesis .
qed

lemma map2_and_zero: "length as = length bs \<Longrightarrow>
  map2 (AND) as (cidrBytes (length as) 0) = map2 (AND) bs (cidrBytes (length as) 0)"
proof (induction as bs rule: list_induct2)
  case (Cons a as b bs)
  have "NOT (drop_bit 0 0xff) = (0::byte)" by code_simp
  with Cons show ?case by (simp del: drop_bit_0)
qed simp

lemma div_mult_le_int: "0 < d \<Longrightarrow> x div d * d \<le> (x::int)"
  using div_mult_mod_eq [of x d] pos_mod_sign [of d x] by linarith

lemma div_exp_pad:
  assumes "h \<le> k" and "0 \<le> A" and "A < 2 ^ k"
  shows "(a * 2 ^ k + A) div 2 ^ h = a * 2 ^ (k - h) + A div (2::int) ^ h"
    and "A div 2 ^ h < (2::int) ^ (k - h)" and "0 \<le> A div (2::int) ^ h"
proof -
  have e: "(2::int) ^ k = 2 ^ (k - h) * 2 ^ h" using assms(1) by (simp flip: power_add)
  show "(a * 2 ^ k + A) div 2 ^ h = a * 2 ^ (k - h) + A div (2::int) ^ h"
    unfolding e by (simp add: mult.assoc [symmetric])
  show "A div 2 ^ h < (2::int) ^ (k - h)"
  proof -
    have "A div 2 ^ h * 2 ^ h \<le> A"
      by (rule div_mult_le_int) simp
    then have "A div 2 ^ h * 2 ^ h < 2 ^ (k - h) * 2 ^ h" using assms(3) unfolding e by (rule le_less_trans)
    then show ?thesis by simp
  qed
  show "0 \<le> A div (2::int) ^ h" using assms(2) by (simp add: pos_imp_zdiv_nonneg_iff)
qed

lemma base_digit_eq:
  assumes "0 \<le> A" "A < M" "0 \<le> B" "B < (M::int)"
  shows "a * M + A = b * M + B \<longleftrightarrow> a = b \<and> A = B"
proof
  assume eq: "a * M + A = b * M + B"
  have "(a * M + A) div M = a" "(b * M + B) div M = b" using assms by (simp_all add: div_pos_pos_trivial)
  with eq have "a = b" by simp
  with eq show "a = b \<and> A = B" by simp
qed simp

lemma exp256: "(256::int) ^ k = 2 ^ (8 * k)"
  by (simp add: power_mult)

text \<open>Masking with a run of \<open>n\<close> ones compares the numbers without their low \<open>8 * l - n\<close> bits.\<close>

lemma map2_and_cidr:
  assumes "length as = length bs" and "n \<le> 8 * length as"
  shows "map2 (AND) as (cidrBytes (length as) n) = map2 (AND) bs (cidrBytes (length as) n) \<longleftrightarrow>
    big_SetBytes as div 2 ^ (8 * length as - n) = big_SetBytes bs div 2 ^ (8 * length as - n)"
  using assms
proof (induction as bs arbitrary: n rule: list_induct2)
  case Nil
  then show ?case by simp
next
  case (Cons a as b bs)
  let ?k = "8 * length as"
  have lt: "big_SetBytes as < 2 ^ ?k" "big_SetBytes bs < 2 ^ ?k"
    using big_SetBytes_lt [of as] big_SetBytes_lt [of bs] Cons.hyps by (simp_all add: exp256)
  have e: "big_SetBytes (a # as) = uint a * 2 ^ ?k + big_SetBytes as"
      "big_SetBytes (b # bs) = uint b * 2 ^ ?k + big_SetBytes bs"
    using Cons.hyps by (simp_all add: big_SetBytes_Cons exp256)
  show ?case
  proof (cases "8 \<le> n")
    case True
    let ?h = "8 * length (a # as) - n"
    have h: "?h \<le> ?k" "?h = 8 * length as - (n - 8)" using True Cons.prems by auto
    have ff: "(w::byte) AND 0xff = w" for w
    proof -
      have "(0xff::byte) = -1" by simp
      then show ?thesis by (simp only: and.right_neutral)
    qed
    have "big_SetBytes (a # as) div 2 ^ ?h = big_SetBytes (b # bs) div 2 ^ ?h \<longleftrightarrow>
        uint a = uint b \<and> big_SetBytes as div 2 ^ ?h = big_SetBytes bs div 2 ^ ?h"
      unfolding e
      using div_exp_pad [OF h(1) big_SetBytes_nonneg [of as] lt(1)]
        div_exp_pad [OF h(1) big_SetBytes_nonneg [of bs] lt(2)]
      by (simp only: base_digit_eq)
    also have "\<dots> \<longleftrightarrow> a = b \<and> map2 (AND) as (cidrBytes (length as) (n - 8)) =
        map2 (AND) bs (cidrBytes (length as) (n - 8))"
      using Cons.IH [of "n - 8"] Cons.prems h(2) by (simp add: word_uint_eq_iff)
    finally show ?thesis using True by (simp add: ff)
  next
    case False
    then have h: "8 * length (a # as) - n = ?k + (8 - n)" by simp
    have "(uint c * 2 ^ ?k + A) div 2 ^ (?k + (8 - n)) = uint c div 2 ^ (8 - n)"
      if "0 \<le> A" "A < 2 ^ ?k" for c :: byte and A
    proof -
      have "(uint c * 2 ^ ?k + A) div 2 ^ ?k = uint c" using that by simp
      then show ?thesis by (simp only: power_add zdiv_zmult2_eq zero_le_power zero_le_numeral)
    qed
    then have "big_SetBytes (a # as) div 2 ^ (8 * length (a # as) - n) =
        big_SetBytes (b # bs) div 2 ^ (8 * length (a # as) - n) \<longleftrightarrow>
        uint a div 2 ^ (8 - n) = uint b div 2 ^ (8 - n)"
      unfolding e h using lt by simp
    then show ?thesis
      using False byte_mask_eq [of n a b] map2_and_zero [OF Cons.hyps] by simp
  qed
qed

lemma byte_mask_dvd:
  assumes "n < 8" and "(a :: byte) AND NOT (drop_bit n 0xff) = a"
  shows "2 ^ (8 - n) dvd uint a"
proof -
  have "(a AND NOT (drop_bit n 0xff)) AND NOT (drop_bit n 0xff) = a AND NOT (drop_bit n 0xff)"
    by (simp only: and.assoc and.idem)
  let ?q = "uint a div 2 ^ (8 - n)"
  let ?b = "word_of_int (?q * 2 ^ (8 - n)) :: byte"
  have le: "?q * 2 ^ (8 - n) \<le> uint a" "0 \<le> ?q"
    using div_mult_le_int [of "2 ^ (8 - n)" "uint a"] by (auto simp: pos_imp_zdiv_nonneg_iff)
  then have "uint ?b = ?q * 2 ^ (8 - n)"
    using uint_byte_lt [of a] by (simp only: uint_word_of_int) (simp add: mod_pos_pos_trivial)
  then have "uint ?b div 2 ^ (8 - n) = ?q" by simp
  then have "?b AND NOT (drop_bit n 0xff) = a" using byte_mask_eq [OF assms(1), of a ?b] assms(2) by simp
  then have "a \<le> ?b" using word_and_le2 by metis
  then have "uint a \<le> ?q * 2 ^ (8 - n)" using \<open>uint ?b = _\<close> by (simp add: word_le_def)
  with le have "uint a = ?q * 2 ^ (8 - n)" by simp
  then show ?thesis by (metis dvd_triv_right)
qed

lemma masked_zero: "map2 (AND) as (cidrBytes (length as) 0) = as \<Longrightarrow> big_SetBytes as = 0"
proof (induction as)
  case (Cons a as)
  have "NOT (drop_bit 0 0xff) = (0::byte)" by code_simp
  with Cons show ?case by (simp add: big_SetBytes_Cons del: drop_bit_0)
qed simp

lemma masked_dvd:
  assumes "map2 (AND) as (cidrBytes (length as) n) = as" and "n \<le> 8 * length as"
  shows "2 ^ (8 * length as - n) dvd big_SetBytes as"
  using assms
proof (induction as arbitrary: n)
  case (Cons a as)
  show ?case
  proof (cases "8 \<le> n")
    case True
    have "2 ^ (8 * length as - (n - 8)) dvd big_SetBytes as"
      by (rule Cons.IH) (use Cons.prems True in auto)
    moreover have "(2::int) ^ (8 * length as - (n - 8)) dvd uint a * 256 ^ length as"
      unfolding exp256 by (rule dvd_mult) (simp add: le_imp_power_dvd)
    moreover have "8 * length (a # as) - n = 8 * length as - (n - 8)" using True by simp
    ultimately show ?thesis by (simp add: big_SetBytes_Cons)
  next
    case False
    then have "a AND NOT (drop_bit n 0xff) = a" and "map2 (AND) as (cidrBytes (length as) 0) = as"
      using Cons.prems by auto
    then have "2 ^ (8 - n) dvd uint a" and "big_SetBytes as = 0"
      using byte_mask_dvd [of n a] masked_zero False by auto
    moreover have "8 * length (a # as) - n = (8 - n) + 8 * length as" using False by simp
    ultimately show ?thesis
      by (simp add: big_SetBytes_Cons exp256 power_add)
  qed
qed simp

lemma aligned_div_eq:
  assumes "(M::int) dvd b" and "0 < M"
  shows "x div M = b div M \<longleftrightarrow> b \<le> x \<and> x < b + M"
proof -
  obtain q where b: "b = M * q" using assms(1) by (auto elim: dvdE)
  have "x div M = q \<longleftrightarrow> M * q \<le> x \<and> x < M * q + M"
  proof
    assume "x div M = q"
    then show "M * q \<le> x \<and> x < M * q + M"
      using mult_div_mod_eq [of M x] pos_mod_bound [OF assms(2), of x] pos_mod_sign [OF assms(2), of x]
      by (auto simp del: pos_mod_bound pos_mod_sign)
  next
    assume *: "M * q \<le> x \<and> x < M * q + M"
    show "x div M = q" by (rule int_div_pos_eq [of _ _ _ "x - M * q"]) (use * in auto)
  qed
  then show ?thesis using b assms(2) by simp
qed

lemma To4_nonempty: "To4 x \<noteq> [] \<Longrightarrow> length (To4 x) = 4 \<and> To16 x = v4InV6Prefix @ To4 x"
  by (auto simp: To4_def To16_def split: if_splits) (metis append_take_drop_id)

definition v4_base :: int where
  "v4_base = 0xffff * 2 ^ 32"

lemma BigForIP_v4: "To4 x \<noteq> [] \<Longrightarrow> BigForIP x = v4_base + big_SetBytes (To4 x)"
  using To4_nonempty [of x]
  by (simp add: BigForIP_def big_SetBytes_append v4_base_def)
    (simp add: v4InV6Prefix_def big_SetBytes_Cons)

lemma BigForIP_v6: "To4 x = [] \<Longrightarrow> ip_wf x \<Longrightarrow> length x = 16 \<and> BigForIP x = big_SetBytes x"
  by (auto simp: BigForIP_def ip_wf_def To16_def To4_def)

lemma net_size_pos [simp]: "0 < net_size n"
  by (simp add: net_size_def)

lemma cidr_wf_v4:
  "cidr_wf n \<Longrightarrow> length (IP n) = 4 \<Longrightarrow> To4 (IP n) = IP n \<and> networkNumberAndMask n = (IP n, Mask n)"
  by (auto simp: cidr_wf_def networkNumberAndMask_def To4_def)

lemma cidr_wf_v6:
  "cidr_wf n \<Longrightarrow> length (IP n) \<noteq> 4 \<Longrightarrow>
     length (IP n) = 16 \<and> To4 (IP n) = [] \<and> networkNumberAndMask n = (IP n, Mask n)"
  by (auto simp: cidr_wf_def networkNumberAndMask_def)

text \<open>The family of an address and of a canonical network.\<close>

abbreviation is4 :: "ip \<Rightarrow> bool" where
  "is4 x \<equiv> To4 x \<noteq> []"

lemma Contains_bytes:
  assumes "cidr_wf n" and "length x = length (IP n)"
  shows "map2 (AND) (IP n) (Mask n) = map2 (AND) x (Mask n) \<longleftrightarrow>
    big_SetBytes (IP n) \<le> big_SetBytes x \<and> big_SetBytes x < big_SetBytes (IP n) + net_size n"
proof -
  have m: "Mask n = cidrBytes (length (IP n)) (net_ones n)" "net_ones n \<le> 8 * length (IP n)"
      "map2 (AND) (IP n) (cidrBytes (length (IP n)) (net_ones n)) = IP n"
    using assms(1) unfolding cidr_wf_def net_bits_def by auto
  have "net_size n dvd big_SetBytes (IP n)"
    using masked_dvd [OF m(3,2)] by (simp add: net_size_def net_bits_def)
  from aligned_div_eq [OF this net_size_pos, of "big_SetBytes x"]
  show ?thesis unfolding m(1) using map2_and_cidr [of "IP n" x "net_ones n"] assms(2) m(2)
    by (auto simp: net_size_def net_bits_def)
qed

text \<open>For a canonical network, \<open>Contains\<close> is: same family, and the address's number is at most
  \<open>net_size - 1\<close> above the network's.\<close>

lemma Contains_iff:
  assumes "cidr_wf n" and "ip_wf x"
  shows "IPNet_Contains n x \<longleftrightarrow> (is4 x \<longleftrightarrow> is4 (IP n)) \<and>
    BigForIP (IP n) \<le> BigForIP x \<and> BigForIP x < BigForIP (IP n) + net_size n"
proof (cases "length (IP n) = 4")
  case True
  note n = cidr_wf_v4 [OF assms(1) True]
  have n4: "is4 (IP n)" using n True by auto
  show ?thesis
  proof (cases "is4 x")
    case True
    then have "length (To4 x) = length (IP n)" using To4_nonempty [OF True] \<open>length (IP n) = 4\<close> by simp
    from Contains_bytes [OF assms(1) this] show ?thesis
      using True n n4 BigForIP_v4 [OF True] BigForIP_v4 [OF n4] \<open>length (To4 x) = length (IP n)\<close>
      by (auto simp: IPNet_Contains_def)
  next
    case False
    then have "length x = 16" using assms(2) by (auto simp: ip_wf_def To4_def)
    then show ?thesis using False n n4 \<open>length (IP n) = 4\<close> by (simp add: IPNet_Contains_def)
  qed
next
  case False
  note n = cidr_wf_v6 [OF assms(1) False]
  have nw: "ip_wf (IP n)" using n by (simp add: ip_wf_def)
  show ?thesis
  proof (cases "is4 x")
    case True
    then show ?thesis using To4_nonempty [OF True] n by (simp add: IPNet_Contains_def)
  next
    case x6: False
    then have "length x = length (IP n)" using BigForIP_v6 [of x] assms(2) n by simp
    from Contains_bytes [OF assms(1) this] show ?thesis
      using x6 n BigForIP_v6 [of x] BigForIP_v6 [OF _ nw] assms(2) \<open>length x = length (IP n)\<close>
      by (auto simp: IPNet_Contains_def)
  qed
qed

section \<open>Numbers to addresses\<close>

lemma length_big_bytes_le: "k < 256 ^ m \<Longrightarrow> length (big_bytes_le k) \<le> m"
proof (induction k arbitrary: m rule: big_bytes_le.induct)
  case (1 k)
  show ?case
  proof (cases "k \<le> 0")
    case True
    then show ?thesis by (simp add: big_bytes_le.simps)
  next
    case False
    with 1 have "m \<noteq> 0" by (cases m) auto
    then obtain j where m: "m = Suc j" by (cases m) auto
    have "k div 256 < 256 ^ j" using "1.prems" m by (simp add: div_less_iff_less_mult mult.commute)
    with "1.IH" False m show ?thesis by (simp add: big_bytes_le.simps [of k])
  qed
qed

lemma length_big_Bytes: "0 \<le> k \<Longrightarrow> k < 256 ^ m \<Longrightarrow> length (big_Bytes k) \<le> m"
  by (simp add: big_Bytes_def length_big_bytes_le)

lemma big_SetBytes_zeros [simp]: "big_SetBytes (replicate n 0 @ bs) = big_SetBytes bs"
  by (induction n) (auto simp: big_SetBytes_Cons)

lemma length_AddIPOffset [simp]: "length (AddIPOffset b k) = 16"
  by (simp add: AddIPOffset_def Let_def)

lemma AddIPOffset_wf [simp]: "ip_wf (AddIPOffset b k)"
  by (simp add: ip_wf_def)

lemma BigForIP_AddIPOffset:
  assumes "0 \<le> b + k" and "b + k < 2 ^ 128"
  shows "BigForIP (AddIPOffset b k) = b + k"
proof -
  have l: "length (big_Bytes (b + k)) \<le> 16"
    by (rule length_big_Bytes) (use assms in simp_all)
  then have "AddIPOffset b k = replicate (16 - length (big_Bytes (b + k))) 0 @ big_Bytes (b + k)"
    by (simp add: AddIPOffset_def Let_def)
  then have "big_SetBytes (AddIPOffset b k) = b + k" using assms(1) by (simp add: big_SetBytes_Bytes)
  then show ?thesis by (simp add: BigForIP_def To16_def)
qed

lemma is4_iff:
  assumes "length x = 16"
  shows "is4 x \<longleftrightarrow> v4_base \<le> BigForIP x \<and> BigForIP x < v4_base + 2 ^ 32"
proof -
  have e: "BigForIP x = big_SetBytes (take 12 x) * 2 ^ 32 + big_SetBytes (drop 12 x)"
    using big_SetBytes_append [of "take 12 x" "drop 12 x"] assms
    by (simp add: BigForIP_def To16_def)
  have r: "0 \<le> big_SetBytes (drop 12 x)" "big_SetBytes (drop 12 x) < 2 ^ 32"
    using big_SetBytes_lt [of "drop 12 x"] assms by simp_all
  have "is4 x \<longleftrightarrow> take 12 x = v4InV6Prefix" using assms by (simp add: To4_def)
  also have "\<dots> \<longleftrightarrow> big_SetBytes (take 12 x) = big_SetBytes v4InV6Prefix"
    using assms by (simp add: big_SetBytes_inject)
  also have "big_SetBytes v4InV6Prefix = 0xffff"
    by (simp add: v4InV6Prefix_def big_SetBytes_Cons)
  also have "big_SetBytes (take 12 x) = 0xffff \<longleftrightarrow>
      v4_base \<le> BigForIP x \<and> BigForIP x < v4_base + 2 ^ 32"
  proof -
    have "t = 65535 \<longleftrightarrow> 0xffff * 2 ^ 32 \<le> t * 2 ^ 32 + d \<and> t * 2 ^ 32 + d < 0xffff * 2 ^ 32 + 2 ^ 32"
      if "0 \<le> d" "d < 2 ^ 32" for t d :: int
    proof -
      have p: "(2::int) ^ 32 = 4294967296" by simp
      show ?thesis using that unfolding p by (intro iffI conjI; linarith)
    qed
    then show ?thesis unfolding e v4_base_def using r by blast
  qed
  finally show ?thesis .
qed

lemma BigForIP_range: "0 \<le> BigForIP x" "BigForIP x < 2 ^ 128"
proof -
  show "0 \<le> BigForIP x" by (simp add: BigForIP_def)
  show "BigForIP x < 2 ^ 128"
  proof (cases "length (To16 x) = 16")
    case True
    then show ?thesis using big_SetBytes_lt [of "To16 x"] by (simp add: BigForIP_def)
  next
    case False
    then show ?thesis by (simp add: BigForIP_def To16_def split: if_splits)
  qed
qed

lemma BigForIP_v4_range: "is4 x \<Longrightarrow> v4_base \<le> BigForIP x \<and> BigForIP x < v4_base + 2 ^ 32"
  using BigForIP_v4 [of x] big_SetBytes_lt [of "To4 x"] To4_nonempty [of x] by auto

text \<open>Two addresses of the same number are equal in Go's sense.\<close>

lemma IP_Equal_To16: "ip_wf x \<Longrightarrow> ip_wf y \<Longrightarrow> IP_Equal x y \<longleftrightarrow> To16 x = To16 y"
  by (auto simp: IP_Equal_def ip_wf_def To16_def append_eq_conv_conj) (metis append_take_drop_id)+

lemma IP_Equal_BigForIP:
  assumes "ip_wf x" and "ip_wf y"
  shows "IP_Equal x y \<longleftrightarrow> BigForIP x = BigForIP y"
proof -
  have "length (To16 x) = 16" "length (To16 y) = 16" using assms by (auto simp: ip_wf_def To16_def)
  then show ?thesis using IP_Equal_To16 [OF assms] by (simp add: BigForIP_def big_SetBytes_inject)
qed

text \<open>The last address of a canonical network is still an address of its family.\<close>

lemma net_size_le: "cidr_wf n \<Longrightarrow> net_size n \<le> 2 ^ net_bits n"
  by (simp add: net_size_def)

lemma cidr_aligned:
  assumes "cidr_wf n"
  shows "net_size n dvd big_SetBytes (IP n)"
proof -
  have "map2 (AND) (IP n) (cidrBytes (length (IP n)) (net_ones n)) = IP n"
      "net_ones n \<le> 8 * length (IP n)"
    using assms unfolding cidr_wf_def net_bits_def by auto
  from masked_dvd [OF this] show ?thesis by (simp add: net_size_def net_bits_def)
qed

lemma aligned_end_le:
  assumes "(M::int) dvd b" and "M dvd N" and "b < N" and "0 < M"
  shows "b + M \<le> N"
proof -
  obtain q r where "b = M * q" "N = M * r" using assms(1,2) by (auto elim!: dvdE)
  with assms(3,4) have "q + 1 \<le> r" by simp
  then have "M * (q + 1) \<le> M * r" using assms(4) by simp
  then show ?thesis using \<open>b = _\<close> \<open>N = _\<close> by (simp add: algebra_simps)
qed

lemma cidr_last:
  assumes "cidr_wf n"
  shows "big_SetBytes (IP n) + net_size n \<le> 2 ^ net_bits n"
  by (rule aligned_end_le [OF cidr_aligned [OF assms]])
    (use big_SetBytes_lt [of "IP n"] in \<open>simp_all add: net_size_def net_bits_def exp256 le_imp_power_dvd\<close>)

lemma BigForIP_cidr:
  assumes "cidr_wf n"
  shows "BigForIP (IP n) = (if is4 (IP n) then v4_base else 0) + big_SetBytes (IP n)"
    and "is4 (IP n) \<longleftrightarrow> net_bits n = 32" and "net_bits n = 32 \<or> net_bits n = 128"
proof -
  have "ip_wf (IP n)" using assms by (auto simp: wf_simps)
  then show "BigForIP (IP n) = (if is4 (IP n) then v4_base else 0) + big_SetBytes (IP n)"
  proof (cases "is4 (IP n)")
    case True
    then have "To4 (IP n) = IP n" using assms by (auto simp: cidr_wf_def To4_def)
    then show ?thesis using True BigForIP_v4 [OF True] by (simp only: if_True simp_thms)
  next
    case False
    then show ?thesis using BigForIP_v6 [of "IP n"] \<open>ip_wf (IP n)\<close> by simp
  qed
  show "is4 (IP n) \<longleftrightarrow> net_bits n = 32" "net_bits n = 32 \<or> net_bits n = 128"
    using assms by (auto simp: cidr_wf_def net_bits_def To4_def)
qed

text \<open>An IPv6 network that is not inside the embedded IPv4 block does not reach into it within
  its first \<open>2 ^ 32\<close> addresses.\<close>

lemma AddIPOffset_not4:
  assumes "cidr_wf n" and "\<not> is4 (IP n)" and "0 \<le> k" and "k < net_size n" and "k < 2 ^ 32"
    and "BigForIP (IP n) + k < 2 ^ 128"
  shows "\<not> is4 (AddIPOffset (BigForIP (IP n)) k)"
proof
  let ?b = "BigForIP (IP n)" and ?h = "min (net_bits n - net_ones n) 32"
  assume "is4 (AddIPOffset ?b k)"
  then have r: "v4_base \<le> ?b + k" "?b + k < v4_base + 2 ^ 32"
    using is4_iff [OF length_AddIPOffset] BigForIP_AddIPOffset [of ?b k] BigForIP_range [of "IP n"]
      assms(3,6) by auto
  have b: "?b = big_SetBytes (IP n)" using BigForIP_cidr(1) [OF assms(1)] assms(2) by simp
  have "(2::int) ^ ?h dvd net_size n" by (simp add: net_size_def le_imp_power_dvd)
  then have "(2::int) ^ ?h dvd ?b" unfolding b using cidr_aligned [OF assms(1)] by (rule dvd_trans)
  moreover have "(2::int) ^ ?h dvd v4_base"
    unfolding v4_base_def by (intro dvd_mult le_imp_power_dvd) simp
  moreover have "k < 2 ^ ?h" using assms(4,5) by (simp add: net_size_def min_def)
  ultimately have "v4_base \<le> ?b" using aligned_end_le [of "2 ^ ?h" ?b v4_base] r(1)
    by (cases "?b < v4_base") auto
  moreover have "length (IP n) = 16" using assms(1,2) by (auto simp: cidr_wf_def To4_def split: if_splits)
  ultimately show False using assms(2,3) is4_iff [of "IP n"] r(2) by auto
qed

lemma Contains_AddIPOffset:
  assumes "cidr_wf n" and "0 \<le> k" and "k < net_size n" and "k < 2 ^ 32"
  shows "IPNet_Contains n (AddIPOffset (BigForIP (IP n)) k)
    \<and> BigForIP (AddIPOffset (BigForIP (IP n)) k) = BigForIP (IP n) + k
    \<and> (is4 (AddIPOffset (BigForIP (IP n)) k) \<longleftrightarrow> is4 (IP n))"
proof -
  note b = BigForIP_cidr [OF assms(1)]
  have lt: "BigForIP (IP n) + k < (if is4 (IP n) then v4_base + 2 ^ 32 else 2 ^ 128)"
    using cidr_last [OF assms(1)] assms(3) b by (cases "is4 (IP n)") simp_all
  moreover have "v4_base + 2 ^ 32 < 2 ^ 128" by (simp add: v4_base_def)
  ultimately have "BigForIP (IP n) + k < 2 ^ 128" by (auto split: if_splits)
  moreover from this have val: "BigForIP (AddIPOffset (BigForIP (IP n)) k) = BigForIP (IP n) + k"
    using BigForIP_range [of "IP n"] assms(2) by (intro BigForIP_AddIPOffset) auto
  ultimately have "is4 (AddIPOffset (BigForIP (IP n)) k) \<longleftrightarrow> is4 (IP n)"
    using lt BigForIP_v4_range [of "IP n"] assms AddIPOffset_not4 [of n k]
      is4_iff [OF length_AddIPOffset, of "BigForIP (IP n)" k]
    by (cases "is4 (IP n)") auto
  then show ?thesis using val Contains_iff [OF assms(1) AddIPOffset_wf] assms(2,3) by simp
qed

end
