(* ===== verification/Go_Text.thy ===== *)
theory Go_Text
  imports Go_Net
begin

text \<open>
  The textual forms of addresses and networks: \<open>IP.String\<close>, \<open>IPMask.String\<close> and \<open>IPNet.String\<close>
  of Go's \<open>net\<close> package. The code uses these strings as map keys, so the theory proves that the
  string of a canonical network determines the network.
\<close>

section \<open>Numbers\<close>

definition digit_char :: "int \<Rightarrow> char" where
  "digit_char d = ''0123456789abcdef'' ! nat d"

function natdigits :: "int \<Rightarrow> int \<Rightarrow> int list" where
  "natdigits b n = (if b < 2 \<or> n < b then [n] else natdigits b (n div b) @ [n mod b])"
  by pat_completeness auto
termination
  by (relation "measure (\<lambda>(b, n). nat n)") (auto intro: int_div_less_self)

declare natdigits.simps [simp del]

definition utoa :: "int \<Rightarrow> string" where
  "utoa n = map digit_char (natdigits 10 n)"

definition itoa :: "int \<Rightarrow> string" where
  "itoa i = (if i < 0 then ''-'' @ utoa (- i) else utoa i)"

definition hex :: "int \<Rightarrow> string" where
  "hex n = map digit_char (natdigits 16 n)"

definition hexString :: "byte list \<Rightarrow> string" where
  "hexString bs = concat (map (\<lambda>b. [digit_char (uint b div 16), digit_char (uint b mod 16)]) bs)"

fun join :: "'a list \<Rightarrow> 'a list list \<Rightarrow> 'a list" where
  "join sep [] = []"
| "join sep [x] = x"
| "join sep (x # y # ys) = x @ sep @ join sep (y # ys)"

section \<open>Addresses and networks\<close>

fun hextets :: "byte list \<Rightarrow> int list" where
  "hextets (a # b # bs) = (256 * uint a + uint b) # hextets bs"
| "hextets _ = []"

definition zero_run :: "int list \<Rightarrow> nat" where
  "zero_run gs = length (takeWhile (\<lambda>g. g = 0) gs)"

text \<open>The first longest run of at least two zero groups: its start and its length.\<close>

definition longest_zeros :: "int list \<Rightarrow> nat \<times> nat" where
  "longest_zeros gs =
     fold (\<lambda>i (s, l). if zero_run (drop i gs) \<ge> 2 \<and> zero_run (drop i gs) > l
                      then (i, zero_run (drop i gs)) else (s, l)) [0..<length gs] (0, 0)"

definition v6_string :: "int list \<Rightarrow> string" where
  "v6_string gs =
     (case longest_zeros gs of (s, l) \<Rightarrow>
        if l = 0 then join '':'' (map hex gs)
        else join '':'' (map hex (take s gs)) @ ''::'' @ join '':'' (map hex (drop (s + l) gs)))"

definition IP_String :: "ip \<Rightarrow> string" where
  "IP_String x =
     (if x = [] then ''<nil>''
      else if is4 x then join ''.'' (map (\<lambda>b. utoa (uint b)) (To4 x))
      else if length x \<noteq> 16 then ''?'' @ hexString x
      else v6_string (hextets x))"

definition IPMask_String :: "ipmask \<Rightarrow> string" where
  "IPMask_String m = (if m = [] then ''<nil>'' else hexString m)"

definition IPNet_String :: "ipnet \<Rightarrow> string" where
  "IPNet_String n =
     (case networkNumberAndMask n of (nn, m) \<Rightarrow>
        if nn = [] \<or> m = [] then ''<nil>''
        else if simpleMaskLength m = -1 then IP_String nn @ ''/'' @ IPMask_String m
        else IP_String nn @ ''/'' @ utoa (simpleMaskLength m))"

lemma IP_String_test:
  "IP_String [10, 0, 255, 1] = ''10.0.255.1''"
  "IP_String [0xfd, 0, 0, 0, 0, 0, 0, 0, 0, 0, 0, 0, 0, 0, 0, 0x1a] = ''fd00::1a''"
  "IP_String (replicate 16 0) = ''::''"
  "IPNet_String \<lparr>IP = [10, 0, 0, 0], Mask = CIDRMask 8 32\<rparr> = ''10.0.0.0/8''"
  by code_simp+

section \<open>Parsing\<close>

text \<open>The parser of \<open>k8s.io/utils\<close> (forked from Go's \<open>net\<close>) and that of \<open>net\<close> itself differ only
  in leading zeros of an IPv4 octet: \<open>strict\<close> is true for \<open>net.ParseIP\<close>. Each of these functions
  returns the number and the rest of the string, \<open>None\<close> for \<open>ok = false\<close>.\<close>

definition parse_big :: int where
  "parse_big = 0xFFFFFF"

definition dec_value :: "char \<Rightarrow> int option" where
  "dec_value c = (let d = of_char c :: int in if 48 \<le> d \<and> d \<le> 57 then Some (d - 48) else None)"

definition hex_value :: "char \<Rightarrow> int option" where
  "hex_value c =
     (let d = of_char c :: int
      in if 48 \<le> d \<and> d \<le> 57 then Some (d - 48)
         else if 97 \<le> d \<and> d \<le> 102 then Some (d - 97 + 10)
         else if 65 \<le> d \<and> d \<le> 70 then Some (d - 65 + 10) else None)"

fun digits_loop :: "(char \<Rightarrow> int option) \<Rightarrow> int \<Rightarrow> int \<Rightarrow> string \<Rightarrow> (int \<times> string) option" where
  "digits_loop val b n [] = Some (n, [])"
| "digits_loop val b n (c # cs) =
     (case val c of
        None \<Rightarrow> Some (n, c # cs)
      | Some d \<Rightarrow> if n * b + d \<ge> parse_big then None else digits_loop val b (n * b + d) cs)"

definition dtoi :: "string \<Rightarrow> (int \<times> string) option" where
  "dtoi s = (if s = [] \<or> dec_value (hd s) = None then None else digits_loop dec_value 10 0 s)"

definition xtoi :: "string \<Rightarrow> (int \<times> string) option" where
  "xtoi s = (if s = [] \<or> hex_value (hd s) = None then None else digits_loop hex_value 16 0 s)"

fun parse4_loop :: "bool \<Rightarrow> nat \<Rightarrow> bool \<Rightarrow> string \<Rightarrow> byte list \<Rightarrow> byte list option" where
  "parse4_loop strict 0 first s p = (if s \<noteq> [] then None else Some p)"
| "parse4_loop strict (Suc k) first s p =
     (if s = [] then None
      else if \<not> first \<and> hd s \<noteq> CHR ''.'' then None
      else let s1 = (if first then s else tl s)
           in case dtoi s1 of
                None \<Rightarrow> None
              | Some (n, s2) \<Rightarrow>
                  if n > 0xFF then None
                  else if strict \<and> length s1 - length s2 > 1 \<and> hd s1 = CHR ''0'' then None
                  else parse4_loop strict k False s2 (p @ [word_of_int n]))"

definition parseIPv4 :: "bool \<Rightarrow> string \<Rightarrow> ip" where
  "parseIPv4 strict s =
     (case parse4_loop strict 4 True s [] of None \<Rightarrow> [] | Some p \<Rightarrow> v4InV6Prefix @ p)"

text \<open>The loop over the groups: the bytes read, the position of the ellipsis and the rest of the
  string. At most eight groups fit.\<close>

fun parse6_loop ::
  "bool \<Rightarrow> nat \<Rightarrow> string \<Rightarrow> byte list \<Rightarrow> nat option \<Rightarrow> (byte list \<times> nat option \<times> string) option" where
  "parse6_loop strict 0 s p el = Some (p, el, s)"
| "parse6_loop strict (Suc k) s p el =
     (case xtoi s of
        None \<Rightarrow> None
      | Some (n, s1) \<Rightarrow>
          if n > 0xFFFF then None
          else if s1 \<noteq> [] \<and> hd s1 = CHR ''.'' then
            (if el = None \<and> length p \<noteq> 12 then None
             else if length p + 4 > 16 then None
             else let ip4 = parseIPv4 strict s
                  in if ip4 = [] then None else Some (p @ drop 12 ip4, el, []))
          else let p1 = p @ [word_of_int (n div 256), word_of_int n]
               in if s1 = [] then Some (p1, el, [])
                  else if hd s1 \<noteq> CHR '':'' \<or> length s1 = 1 then None
                  else let s2 = tl s1
                       in if hd s2 = CHR '':'' then
                            (if el \<noteq> None then None
                             else if tl s2 = [] then Some (p1, Some (length p1), [])
                             else parse6_loop strict k (tl s2) p1 (Some (length p1)))
                          else parse6_loop strict k s2 p1 el)"

definition expand_ellipsis :: "(byte list \<times> nat option \<times> string) option \<Rightarrow> ip" where
  "expand_ellipsis r =
     (case r of
        None \<Rightarrow> []
      | Some (p, el, s) \<Rightarrow>
          if s \<noteq> [] then []
          else if length p < 16 then
            (case el of None \<Rightarrow> [] | Some e \<Rightarrow> take e p @ replicate (16 - length p) 0 @ drop e p)
          else if el \<noteq> None then [] else p)"

definition parseIPv6 :: "bool \<Rightarrow> string \<Rightarrow> ip" where
  "parseIPv6 strict s =
     (if take 2 s = ''::'' then
        (if drop 2 s = [] then replicate 16 0
         else expand_ellipsis (parse6_loop strict 8 (drop 2 s) [] (Some 0)))
      else expand_ellipsis (parse6_loop strict 8 s [] None))"

definition parseIP :: "bool \<Rightarrow> string \<Rightarrow> ip" where
  "parseIP strict s =
     (case find (\<lambda>c. c = CHR ''.'' \<or> c = CHR '':'') s of
        None \<Rightarrow> []
      | Some c \<Rightarrow> if c = CHR ''.'' then parseIPv4 strict s else parseIPv6 strict s)"

definition ParseIP :: "string \<Rightarrow> ip" where
  "ParseIP s = parseIP True s"

definition ParseIPSloppy :: "string \<Rightarrow> ip" where
  "ParseIPSloppy s = parseIP False s"

definition ParseCIDRSloppy :: "string \<Rightarrow> (ip \<times> ipnet) option" where
  "ParseCIDRSloppy s =
     (if CHR ''/'' \<notin> set s then None
      else let addr = takeWhile (\<lambda>c. c \<noteq> CHR ''/'') s;
               msk = tl (dropWhile (\<lambda>c. c \<noteq> CHR ''/'') s);
               v4 = parseIPv4 False addr;
               iplen = (if v4 \<noteq> [] then 4 else 16);
               x = (if v4 \<noteq> [] then v4 else parseIPv6 False addr)
           in case dtoi msk of
                None \<Rightarrow> None
              | Some (n, rest) \<Rightarrow>
                  if x = [] \<or> rest \<noteq> [] \<or> n < 0 \<or> n > 8 * iplen then None
                  else let m = CIDRMask n (8 * iplen) in Some (x, \<lparr>IP = IP_Mask x m, Mask = m\<rparr>))"

lemma ParseIP_test:
  "ParseIP ''10.0.255.1'' = v4InV6Prefix @ [10, 0, 255, 1]"
  "ParseIP ''010.0.0.1'' = []"
  "ParseIPSloppy ''010.0.0.1'' = v4InV6Prefix @ [10, 0, 0, 1]"
  "ParseIP ''fd00::1a'' = [0xfd, 0, 0, 0, 0, 0, 0, 0, 0, 0, 0, 0, 0, 0, 0, 0x1a]"
  "ParseIP ''1:2'' = []"
  by code_simp+

lemma ParseCIDR_test:
  "ParseCIDRSloppy ''10.1.2.3/8'' =
     Some (v4InV6Prefix @ [10, 1, 2, 3], \<lparr>IP = [10, 0, 0, 0], Mask = [255, 0, 0, 0]\<rparr>)"
  by code_simp

section \<open>Printing and parsing back\<close>

lemma digit_char_table:
  "list_all (\<lambda>d. hex_value (digit_char d) = Some d \<and> (d < 10 \<longrightarrow> dec_value (digit_char d) = Some d)
     \<and> (0 < d \<longrightarrow> digit_char d \<noteq> CHR ''0'') \<and> digit_char d \<noteq> CHR ''.'' \<and> digit_char d \<noteq> CHR '':''
     \<and> digit_char d \<noteq> CHR ''/'') [0..15]"
  by code_simp

lemma digit_char_facts:
  assumes "0 \<le> d" and "d < 16"
  shows "hex_value (digit_char d) = Some d" "d < 10 \<Longrightarrow> dec_value (digit_char d) = Some d"
    "0 < d \<Longrightarrow> digit_char d \<noteq> CHR ''0''" "digit_char d \<noteq> CHR ''.''" "digit_char d \<noteq> CHR '':''"
    "digit_char d \<noteq> CHR ''/''"
  using digit_char_table assms by (auto simp: list_all_iff)

lemma natdigits_spec:
  assumes "2 \<le> b" and "0 \<le> n"
  shows "natdigits b n \<noteq> [] \<and> (\<forall>d\<in>set (natdigits b n). 0 \<le> d \<and> d < b)
    \<and> foldl (\<lambda>m d. m * b + d) 0 (natdigits b n) = n
    \<and> (0 < hd (natdigits b n) \<or> n = 0 \<and> natdigits b n = [0])"
  using assms
proof (induction b n rule: natdigits.induct)
  case (1 b n)
  show ?case
  proof (cases "n < b")
    case True
    then have "natdigits b n = [n]" by (subst natdigits.simps) simp
    then show ?thesis using "1.prems" True by auto
  next
    case False
    then have e: "natdigits b n = natdigits b (n div b) @ [n mod b]"
      using "1.prems" by (subst natdigits.simps) simp
    have "0 < n div b" using False "1.prems" by (simp add: pos_imp_zdiv_pos_iff)
    with "1.IH" "1.prems" False have IH: "natdigits b (n div b) \<noteq> []"
        "\<forall>d\<in>set (natdigits b (n div b)). 0 \<le> d \<and> d < b"
        "foldl (\<lambda>m d. m * b + d) 0 (natdigits b (n div b)) = n div b"
        "0 < hd (natdigits b (n div b))"
      by auto
    then show ?thesis using "1.prems" unfolding e by auto
  qed
qed

lemma foldl_base_ge:
  "\<forall>d\<in>set ds. 0 \<le> d \<Longrightarrow> 0 \<le> n \<Longrightarrow> 1 \<le> b \<Longrightarrow> n \<le> foldl (\<lambda>m d. m * b + d) n (ds :: int list)"
proof (induction ds arbitrary: n)
  case (Cons d ds)
  have "n * 1 \<le> n * b" using Cons.prems by (intro mult_left_mono) auto
  then have "n \<le> n * b + d" using Cons.prems by simp
  also have "\<dots> \<le> foldl (\<lambda>m d. m * b + d) (n * b + d) ds" using Cons \<open>n \<le> n * b + d\<close> by simp
  finally show ?case by simp
qed simp

lemma digits_loop_digits:
  assumes "\<forall>d\<in>set ds. 0 \<le> d \<and> val (digit_char d) = Some d" and "0 \<le> n" and "1 \<le> b"
    and "foldl (\<lambda>m d. m * b + d) n ds < parse_big" and "rest = [] \<or> val (hd rest) = None"
  shows "digits_loop val b n (map digit_char ds @ rest) = Some (foldl (\<lambda>m d. m * b + d) n ds, rest)"
  using assms
proof (induction ds arbitrary: n)
  case Nil
  then show ?case by (cases rest) auto
next
  case (Cons d ds)
  have "0 \<le> n * b + d" using Cons.prems by simp
  then have "n * b + d < parse_big"
    using foldl_base_ge [of ds "n * b + d" b] Cons.prems by fastforce
  then show ?case using Cons \<open>0 \<le> n * b + d\<close> by simp
qed

lemma dtoi_utoa:
  assumes "0 \<le> n" and "n < parse_big" and "rest = [] \<or> dec_value (hd rest) = None"
  shows "dtoi (utoa n @ rest) = Some (n, rest)"
proof -
  note s = natdigits_spec [of 10 n, simplified]
  have d: "\<forall>d\<in>set (natdigits 10 n). 0 \<le> d \<and> dec_value (digit_char d) = Some d"
    using s assms(1) digit_char_facts(2) by force
  have "digits_loop dec_value 10 0 (utoa n @ rest) = Some (n, rest)"
    unfolding utoa_def using digits_loop_digits [OF d, of 0 10 rest] s assms by simp
  then show ?thesis using d s assms(1)
    by (cases "natdigits 10 n") (auto simp: dtoi_def utoa_def)
qed

lemma xtoi_hex:
  assumes "0 \<le> n" and "n < parse_big" and "rest = [] \<or> hex_value (hd rest) = None"
  shows "xtoi (hex n @ rest) = Some (n, rest)"
proof -
  note s = natdigits_spec [of 16 n, simplified]
  have d: "\<forall>d\<in>set (natdigits 16 n). 0 \<le> d \<and> hex_value (digit_char d) = Some d"
    using s assms(1) digit_char_facts(1) by force
  have "digits_loop hex_value 16 0 (hex n @ rest) = Some (n, rest)"
    unfolding hex_def using digits_loop_digits [OF d, of 0 16 rest] s assms by simp
  then show ?thesis using d s assms(1)
    by (cases "natdigits 16 n") (auto simp: xtoi_def hex_def)
qed

lemma utoa_chars:
  assumes "0 \<le> n"
  shows "utoa n \<noteq> []" "CHR ''.'' \<notin> set (utoa n)" "CHR '':'' \<notin> set (utoa n)" "CHR ''/'' \<notin> set (utoa n)"
    and "hd (utoa n) = CHR ''0'' \<Longrightarrow> length (utoa n) = 1"
proof -
  note s = natdigits_spec [of 10 n, simplified, OF assms]
  have r: "0 \<le> d \<and> d < 16" if "d \<in> set (natdigits 10 n)" for d using s that by force
  show "utoa n \<noteq> []" using s by (simp add: utoa_def)
  show "CHR ''.'' \<notin> set (utoa n)" "CHR '':'' \<notin> set (utoa n)" "CHR ''/'' \<notin> set (utoa n)"
    using r digit_char_facts(4-6) by (fastforce simp: utoa_def)+
  assume "hd (utoa n) = CHR ''0''"
  moreover have "hd (natdigits 10 n) \<in> set (natdigits 10 n)" using s by simp
  ultimately show "length (utoa n) = 1"
    using s r [of "hd (natdigits 10 n)"] digit_char_facts(3) [of "hd (natdigits 10 n)"]
    by (auto simp: utoa_def hd_map)
qed

lemma hex_chars:
  assumes "0 \<le> n"
  shows "hex n \<noteq> []" "CHR ''.'' \<notin> set (hex n)" "CHR '':'' \<notin> set (hex n)" "CHR ''/'' \<notin> set (hex n)"
proof -
  note s = natdigits_spec [of 16 n, simplified, OF assms]
  show "hex n \<noteq> []" using s by (simp add: hex_def)
  show "CHR ''.'' \<notin> set (hex n)" "CHR '':'' \<notin> set (hex n)" "CHR ''/'' \<notin> set (hex n)"
    using s digit_char_facts(4-6) by (fastforce simp: hex_def)+
qed

lemma dec_value_sep: "dec_value (CHR ''.'') = None" "dec_value (CHR ''/'') = None"
  "hex_value (CHR '':'') = None" "hex_value (CHR ''/'') = None"
  by code_simp+

lemma parse4_loop_join:
  assumes "length bs = k" and "bs \<noteq> [] \<or> \<not> first"
  shows "parse4_loop strict k first
      ((if first \<or> bs = [] then [] else ''.'') @ join ''.'' (map (\<lambda>b. utoa (uint b)) bs)) p = Some (p @ bs)"
  using assms
proof (induction bs arbitrary: k first p)
  case Nil
  then show ?case by simp
next
  case (Cons b bs)
  then obtain j where k: "k = Suc j" "length bs = j" by auto
  let ?rest = "(if bs = [] then [] else ''.'') @ join ''.'' (map (\<lambda>b. utoa (uint b)) bs)"
  have e: "join ''.'' (map (\<lambda>b. utoa (uint b)) (b # bs)) = utoa (uint b) @ ?rest"
    by (cases bs) auto
  have d: "dtoi (utoa (uint b) @ ?rest) = Some (uint b, ?rest)"
    by (rule dtoi_utoa) (use uint_byte_lt [of b] dec_value_sep in \<open>auto simp: parse_big_def\<close>)
  have IH: "parse4_loop strict j False ?rest (p @ [b]) = Some (p @ b # bs)"
    using Cons.IH [of j False "p @ [b]"] k by auto
  note u = utoa_chars [of "uint b", simplified]
  have ok: "\<not> (strict \<and> length (utoa (uint b) @ ?rest) - length ?rest > 1
      \<and> hd (utoa (uint b) @ ?rest) = CHR ''0'')"
    using u(5) u(1) by auto
  have "\<not> uint b > 0xFF" using uint_byte_lt [of b] by simp
  then show ?case unfolding k(1) e using d IH ok u(1)
    by (cases first) (simp_all add: Let_def)
qed

lemma parseIPv4_string:
  "length bs = 4 \<Longrightarrow> parseIPv4 strict (join ''.'' (map (\<lambda>b. utoa (uint b)) bs)) = v4InV6Prefix @ bs"
  using parse4_loop_join [of bs 4 True strict "[]"] by (cases bs) (auto simp: parseIPv4_def)

lemma find_first: "\<forall>x\<in>set xs. \<not> P x \<Longrightarrow> P y \<Longrightarrow> find P (xs @ y # ys) = Some y"
  by (induction xs) auto

lemma parseIP_v4:
  assumes "length bs = 4"
  shows "parseIP strict (join ''.'' (map (\<lambda>b. utoa (uint b)) bs)) = v4InV6Prefix @ bs"
proof -
  obtain a b c d where bs: "bs = [a, b, c, d]"
    using assms by (auto simp: eval_nat_numeral length_Suc_conv)
  have "find (\<lambda>c. c = CHR ''.'' \<or> c = CHR '':'') (utoa (uint a) @ CHR ''.'' # t) = Some (CHR ''.'')" for t
    using utoa_chars(2,3) [of "uint a"] by (intro find_first) auto
  then show ?thesis using parseIPv4_string [OF assms] unfolding bs parseIP_def by simp
qed

subsection \<open>IPv6\<close>

fun hextet_bytes :: "int list \<Rightarrow> byte list" where
  "hextet_bytes [] = []"
| "hextet_bytes (g # gs) = word_of_int (g div 256) # word_of_int g # hextet_bytes gs"

lemma length_hextet_bytes [simp]: "length (hextet_bytes gs) = 2 * length gs"
  by (induction gs) auto

lemma hextet_bytes_append [simp]: "hextet_bytes (as @ bs) = hextet_bytes as @ hextet_bytes bs"
  by (induction as) auto

lemma hextet_bytes_zeros: "hextet_bytes (replicate l 0) = replicate (2 * l) 0"
  by (induction l) auto

lemma hextets_inv: "even (length x) \<Longrightarrow> hextet_bytes (hextets x) = x \<and> length (hextets x) = length x div 2
   \<and> (\<forall>g\<in>set (hextets x). 0 \<le> g \<and> g \<le> 0xFFFF)"
proof (induction x rule: hextets.induct)
  case (1 a b bs)
  have "(256 * uint a + uint b) div 256 = uint a" using uint_byte_lt [of b] by simp
  moreover have "(word_of_int (256 * uint a + uint b) :: byte) = b"
  proof -
    have "(word_of_int (256 * uint a + uint b) :: byte) = word_of_int (uint b)"
      by (simp only: word_of_int_eq_iff take_bit_eq_mod) simp
    then show ?thesis by simp
  qed
  moreover have "256 * uint a + uint b \<le> 0xFFFF" using uint_byte_lt [of a] uint_byte_lt [of b] by linarith
  ultimately show ?case using 1 by auto
qed auto

abbreviation groups_ok :: "int list \<Rightarrow> bool" where
  "groups_ok gs \<equiv> \<forall>g\<in>set gs. 0 \<le> g \<and> g \<le> 0xFFFF"

lemma parse6_last:
  assumes "groups_ok gs" and "gs \<noteq> []" and "length gs \<le> k"
  shows "parse6_loop strict k (join '':'' (map hex gs)) p el = Some (p @ hextet_bytes gs, el, [])"
  using assms
proof (induction gs arbitrary: k p)
  case (Cons g gs)
  then obtain j where k: "k = Suc j" by (cases k) auto
  have g: "0 \<le> g" "g \<le> 0xFFFF" "g < parse_big" using Cons.prems by (auto simp: parse_big_def)
  note h = hex_chars [OF g(1)]
  show ?case
  proof (cases gs)
    case Nil
    then show ?thesis using xtoi_hex [of g "[]"] g k by (simp add: Let_def)
  next
    case (Cons g' gs')
    let ?t = "join '':'' (map hex gs)"
    have t: "?t \<noteq> []" "hd ?t \<noteq> CHR '':''"
      using Cons.prems hex_chars(1,3) [of g'] \<open>gs = g' # gs'\<close>
      by (cases gs'; cases "hex g'"; auto)+
    have e: "join '':'' (map hex (g # gs)) = hex g @ CHR '':'' # ?t" using Cons by simp
    have "xtoi (hex g @ CHR '':'' # ?t) = Some (g, CHR '':'' # ?t)"
      by (rule xtoi_hex) (use g dec_value_sep in auto)
    moreover have "parse6_loop strict j ?t (p @ [word_of_int (g div 256), word_of_int g]) el =
        Some (p @ hextet_bytes (g # gs), el, [])"
      using Cons.IH [of j "p @ [word_of_int (g div 256), word_of_int g]"] Cons.prems k \<open>gs = g' # gs'\<close>
      by simp
    ultimately show ?thesis unfolding k e using g t by (simp add: Let_def)
  qed
qed simp

lemma parse6_ellipsis:
  assumes "groups_ok gs" and "gs \<noteq> []" and "length gs \<le> k"
  shows "parse6_loop strict k (join '':'' (map hex gs) @ ''::'' @ t) p None =
    (let p' = p @ hextet_bytes gs
     in if t = [] then Some (p', Some (length p'), [])
        else parse6_loop strict (k - length gs) t p' (Some (length p')))"
  using assms
proof (induction gs arbitrary: k p)
  case (Cons g gs)
  then obtain j where k: "k = Suc j" by (cases k) auto
  have g: "0 \<le> g" "g \<le> 0xFFFF" "g < parse_big" using Cons.prems by (auto simp: parse_big_def)
  note h = hex_chars [OF g(1)]
  show ?case
  proof (cases gs)
    case Nil
    have "xtoi (hex g @ ''::'' @ t) = Some (g, ''::'' @ t)"
      by (rule xtoi_hex) (use g dec_value_sep in auto)
    then show ?thesis using Nil g k by (simp add: Let_def)
  next
    case (Cons g' gs')
    let ?t = "join '':'' (map hex gs) @ ''::'' @ t"
    have t: "?t \<noteq> []" "hd ?t \<noteq> CHR '':''"
      using Cons.prems hex_chars(1,3) [of g'] \<open>gs = g' # gs'\<close>
      by (cases gs'; cases "hex g'"; auto)+
    have e: "join '':'' (map hex (g # gs)) @ ''::'' @ t = hex g @ CHR '':'' # ?t" using Cons by simp
    have "xtoi (hex g @ CHR '':'' # ?t) = Some (g, CHR '':'' # ?t)"
      by (rule xtoi_hex) (use g dec_value_sep in auto)
    then have "parse6_loop strict k (hex g @ CHR '':'' # ?t) p None =
        parse6_loop strict j ?t (p @ [word_of_int (g div 256), word_of_int g]) None"
      unfolding k using g t by (simp add: Let_def)
    then show ?thesis unfolding e
      using Cons.IH [of j "p @ [word_of_int (g div 256), word_of_int g]"] Cons.prems k \<open>gs = g' # gs'\<close>
      by (simp add: Let_def)
  qed
qed simp

lemma zero_run_split:
  "zero_run gs \<le> length gs" "take (zero_run gs) gs = replicate (zero_run gs) 0"
proof -
  show "zero_run gs \<le> length gs" by (simp add: zero_run_def length_takeWhile_le)
  show "take (zero_run gs) gs = replicate (zero_run gs) 0"
    unfolding zero_run_def by (induction gs) auto
qed

lemma longest_zeros_spec:
  assumes "longest_zeros gs = (s, l)"
  shows "l = 0 \<or> 2 \<le> l \<and> s + l \<le> length gs \<and> gs = take s gs @ replicate l 0 @ drop (s + l) gs"
proof -
  define f where "f = (\<lambda>i (s, l). if zero_run (drop i gs) \<ge> 2 \<and> zero_run (drop i gs) > l
      then (i, zero_run (drop i gs)) else (s, l :: nat))"
  define good where "good = (\<lambda>(s, l). l = 0 \<or> (2 \<le> l \<and> s \<le> length gs \<and> l = zero_run (drop s gs)))"
  have step: "good (f i q)" if "good q" "i \<le> length gs" for i q
    using that by (cases q) (auto simp: f_def good_def)
  have "good (fold f is q)" if "good q" "\<forall>i\<in>set is. i \<le> length gs" for "is" q
    using that by (induction "is" arbitrary: q) (auto simp: step)
  from this [of "(0, 0)" "[0..<length gs]"] assms
  have *: "l = 0 \<or> (2 \<le> l \<and> s \<le> length gs \<and> l = zero_run (drop s gs))"
    by (simp add: longest_zeros_def f_def good_def)
  show ?thesis
  proof (cases "l = 0")
    case False
    with * have l: "2 \<le> l" "s \<le> length gs" "l = zero_run (drop s gs)" by auto
    have "drop s gs = replicate l 0 @ drop l (drop s gs)"
      using zero_run_split(2) [of "drop s gs"] l(3) append_take_drop_id [of l "drop s gs"] by simp
    then have "gs = take s gs @ replicate l 0 @ drop (s + l) gs"
      using append_take_drop_id [of s gs] by (simp add: add.commute)
    moreover have "s + l \<le> length gs" using zero_run_split(1) [of "drop s gs"] l by simp
    ultimately show ?thesis using l by blast
  qed simp
qed

lemma join_hex_head:
  assumes "groups_ok gs" and "gs \<noteq> []"
  shows "join '':'' (map hex gs) \<noteq> []" "hd (join '':'' (map hex gs) @ t) \<noteq> CHR '':''"
  using assms hex_chars(1,3) [of "hd gs"]
  by (cases gs; cases "tl gs"; cases "hex (hd gs)"; auto)+

lemma join_hex_not_ellipsis:
  "groups_ok hs \<Longrightarrow> hs \<noteq> [] \<Longrightarrow> take 2 (join '':'' (map hex hs) @ t) \<noteq> ''::''"
  using join_hex_head [of hs] by (cases "join '':'' (map hex hs)") auto

lemma parse6_compressed:
  assumes "groups_ok a" and "groups_ok b" and "0 < l" and "length a + l + length b = 8"
  shows "parseIPv6 strict (join '':'' (map hex a) @ ''::'' @ join '':'' (map hex b)) =
    hextet_bytes a @ replicate (2 * l) 0 @ hextet_bytes b"
proof (cases "a = []")
  case True
  then show ?thesis
    using parse6_last [OF assms(2), of 8 strict "[]" "Some 0"] join_hex_head(1) [OF assms(2)] assms(3,4)
    by (cases "b = []") (auto simp: parseIPv6_def expand_ellipsis_def)
next
  case a: False
  let ?t = "join '':'' (map hex b)"
  have pe: "parse6_loop strict 8 (join '':'' (map hex a) @ ''::'' @ ?t) [] None =
      (if ?t = [] then Some (hextet_bytes a, Some (2 * length a), [])
       else parse6_loop strict (8 - length a) ?t (hextet_bytes a) (Some (2 * length a)))"
    using parse6_ellipsis [OF assms(1) a, of 8 strict ?t "[]"] assms(4) by (simp add: Let_def)
  have "parse6_loop strict 8 (join '':'' (map hex a) @ ''::'' @ ?t) [] None =
      Some (hextet_bytes a @ hextet_bytes b, Some (2 * length a), [])"
  proof (cases "b = []")
    case True
    then show ?thesis using pe by simp
  next
    case False
    then show ?thesis
      using pe join_hex_head(1) [OF assms(2) False] assms(4)
        parse6_last [OF assms(2) False, of "8 - length a" strict "hextet_bytes a" "Some (2 * length a)"]
      by simp
  qed
  moreover have "16 - (2 * length a + 2 * length b) = 2 * l" using assms(4) by simp
  ultimately show ?thesis
    using join_hex_not_ellipsis [OF assms(1) a] assms(3,4)
    by (simp only: parseIPv6_def if_False) (simp add: expand_ellipsis_def)
qed

lemma parseIPv6_string:
  assumes "groups_ok gs" and "length gs = 8"
  shows "parseIPv6 strict (v6_string gs) = hextet_bytes gs"
proof (cases "longest_zeros gs")
  case (Pair s l)
  show ?thesis
  proof (cases "l = 0")
    case True
    then have "v6_string gs = join '':'' (map hex gs)" using Pair by (simp add: v6_string_def)
    moreover have "gs \<noteq> []" using assms by auto
    ultimately show ?thesis
      using join_hex_not_ellipsis [of gs "[]"] parse6_last [OF assms(1), of 8] assms
      by (simp add: parseIPv6_def expand_ellipsis_def)
  next
    case False
    with longest_zeros_spec [OF Pair]
    have sl: "0 < l" "s + l \<le> 8" and gs: "gs = take s gs @ replicate l 0 @ drop (s + l) gs"
      using assms(2) by auto
    have "v6_string gs = join '':'' (map hex (take s gs)) @ ''::'' @ join '':'' (map hex (drop (s + l) gs))"
      using Pair False by (simp add: v6_string_def)
    moreover have "groups_ok (take s gs)" "groups_ok (drop (s + l) gs)"
      using assms(1) by (auto dest: in_set_takeD in_set_dropD)
    moreover have "length (take s gs) + l + length (drop (s + l) gs) = 8" using sl assms(2) by simp
    ultimately have "parseIPv6 strict (v6_string gs) =
        hextet_bytes (take s gs) @ replicate (2 * l) 0 @ hextet_bytes (drop (s + l) gs)"
      using parse6_compressed sl(1) by presburger
    also have "\<dots> = hextet_bytes (take s gs @ replicate l 0 @ drop (s + l) gs)"
      by (simp only: hextet_bytes_append hextet_bytes_zeros)
    finally show ?thesis using gs by simp
  qed
qed

lemma v6_string_find:
  assumes "groups_ok gs" and "length gs = 8"
  shows "find (\<lambda>c. c = CHR ''.'' \<or> c = CHR '':'') (v6_string gs) = Some (CHR '':'')"
proof -
  have f: "find (\<lambda>c. c = CHR ''.'' \<or> c = CHR '':'') (join '':'' (map hex hs) @ t) = Some (CHR '':'')"
    if "groups_ok hs" "t = [] \<longrightarrow> 2 \<le> length hs" "t \<noteq> [] \<longrightarrow> hd t = CHR '':''" for hs t
  proof (cases hs)
    case Nil
    then show ?thesis using that by (cases t) auto
  next
    case (Cons h hs')
    have "\<exists>u. join '':'' (map hex hs) @ t = hex h @ CHR '':'' # u"
    proof (cases hs')
      case Nil
      then have "t \<noteq> []" "hd t = CHR '':''" using that(2,3) Cons by auto
      then show ?thesis using Cons Nil by (intro exI [of _ "tl t"]) (cases t, auto)
    qed (use Cons in auto)
    then obtain u where u: "join '':'' (map hex hs) @ t = hex h @ CHR '':'' # u" ..
    then show ?thesis unfolding u using hex_chars(2,3) [of h] that(1) Cons
      by (intro find_first) auto
  qed
  show ?thesis
  proof (cases "longest_zeros gs")
    case (Pair s l)
    have "groups_ok (take s gs)" using assms(1) by (auto dest: in_set_takeD)
    then show ?thesis using Pair f [of "take s gs" "''::'' @ join '':'' (map hex (drop (s + l) gs))"]
        f [of gs "[]"] assms by (simp add: v6_string_def)
  qed
qed

text \<open>Parsing the string of an address gives its 16-byte form back; so the string of an address
  determines the address.\<close>

lemma parseIP_String:
  assumes "ip_wf x"
  shows "parseIP strict (IP_String x) = To16 x"
proof (cases "is4 x")
  case True
  then have "x \<noteq> []" by (auto simp: To4_def)
  then show ?thesis using True To4_nonempty [OF True] parseIP_v4 [of "To4 x" strict]
    by (simp add: IP_String_def)
next
  case False
  then have x: "length x = 16" using assms by (auto simp: ip_wf_def To4_def)
  then have "groups_ok (hextets x)" "length (hextets x) = 8" "hextet_bytes (hextets x) = x"
    using hextets_inv [of x] by auto
  moreover have "IP_String x = v6_string (hextets x)" using False x by (auto simp: IP_String_def)
  ultimately show ?thesis
    using parseIPv6_string [of "hextets x" strict] v6_string_find [of "hextets x"] x
    by (simp add: parseIP_def To16_def)
qed

lemma IP_String_inject:
  "ip_wf x \<Longrightarrow> ip_wf y \<Longrightarrow> IP_String x = IP_String y \<longleftrightarrow> IP_Equal x y"
proof -
  assume w: "ip_wf x" "ip_wf y"
  have "IP_String x = IP_String y \<Longrightarrow> To16 x = To16 y" using parseIP_String w by metis
  moreover have "To16 x = To16 y \<Longrightarrow> IP_String x = IP_String y"
    using w by (auto simp: IP_String_def To16_def To4_def ip_wf_def append_eq_conv_conj)
  ultimately show "IP_String x = IP_String y \<longleftrightarrow> IP_Equal x y" using IP_Equal_To16 [OF w] by blast
qed

lemma set_join: "set (join sep xs) \<subseteq> set sep \<union> (\<Union>x\<in>set xs. set x)"
  by (induction sep xs rule: join.induct) auto

lemma IP_String_no_slash:
  assumes "ip_wf x"
  shows "CHR ''/'' \<notin> set (IP_String x)"
proof (cases "is4 x")
  case True
  then have "x \<noteq> []" by (auto simp: To4_def)
  then have "IP_String x = join ''.'' (map (\<lambda>b. utoa (uint b)) (To4 x))"
    using True by (simp add: IP_String_def)
  then show ?thesis
    using set_join [of "''.''" "map (\<lambda>b. utoa (uint b)) (To4 x)"] utoa_chars(4) by fastforce
next
  case False
  then have x: "length x = 16" using assms by (auto simp: ip_wf_def To4_def)
  then have g: "groups_ok (hextets x)" using hextets_inv [of x] by auto
  have j: "CHR ''/'' \<notin> set (join '':'' (map hex hs))" if "set hs \<subseteq> set (hextets x)" for hs
    using set_join [of "'':''" "map hex hs"] hex_chars(4) that g by fastforce
  have "IP_String x = v6_string (hextets x)" using False x by (auto simp: IP_String_def)
  then show ?thesis
    using j [of "hextets x"] j [OF set_take_subset] j [OF set_drop_subset]
    by (auto simp: v6_string_def split: prod.splits)
qed

lemma IPNet_String_cidr:
  assumes "cidr_wf n"
  shows "IPNet_String n = IP_String (IP n) @ ''/'' @ utoa (int (net_ones n))"
proof -
  have m: "Mask n = cidrBytes (length (IP n)) (net_ones n)" "net_ones n \<le> 8 * length (IP n)"
      "length (IP n) = 4 \<or> length (IP n) = 16"
    using assms unfolding cidr_wf_def net_bits_def by auto
  then have "simpleMaskLength (Mask n) = int (net_ones n)"
    using simpleMaskLength_cidrBytes by simp
  moreover have "networkNumberAndMask n = (IP n, Mask n)"
    using cidr_wf_v4 [OF assms] cidr_wf_v6 [OF assms] by blast
  moreover have "IP n \<noteq> []" using m(3) by auto
  moreover have "Mask n \<noteq> []"
    using m(1,3) length_cidrBytes [of "length (IP n)" "net_ones n"] by force
  ultimately show ?thesis by (simp add: IPNet_String_def)
qed

text \<open>The string of a canonical network determines the network.\<close>

lemma IPNet_String_inject:
  assumes "cidr_wf n" and "cidr_wf k"
  shows "IPNet_String n = IPNet_String k \<longleftrightarrow> n = k"
proof
  assume eq: "IPNet_String n = IPNet_String k"
  have w: "ip_wf (IP n)" "ip_wf (IP k)" using assms by (auto simp: wf_simps)
  have split: "takeWhile (\<lambda>c. c \<noteq> CHR ''/'') (IPNet_String i) = IP_String (IP i)
      \<and> dropWhile (\<lambda>c. c \<noteq> CHR ''/'') (IPNet_String i) = ''/'' @ utoa (int (net_ones i))"
    if "cidr_wf i" for i
  proof -
    have "ip_wf (IP i)" using that by (auto simp: wf_simps)
    from IP_String_no_slash [OF this] show ?thesis
      using IPNet_String_cidr [OF that]
      by (auto simp: takeWhile_append dropWhile_append)
  qed
  have "IP_Equal (IP n) (IP k)" using split [OF assms(1)] split [OF assms(2)] eq IP_String_inject [OF w] by metis
  moreover have "length (IP n) = length (IP k)"
    using \<open>IP_Equal (IP n) (IP k)\<close> assms by (auto simp: IP_Equal_def cidr_wf_def To4_def split: if_splits)
  ultimately have ip: "IP n = IP k" by (simp add: IP_Equal_def)
  have "utoa (int (net_ones n)) = utoa (int (net_ones k))"
    using split [OF assms(1)] split [OF assms(2)] eq by simp
  moreover have "dtoi (utoa (int (net_ones i))) = Some (int (net_ones i), [])" if "cidr_wf i" for i
    using dtoi_utoa [of "int (net_ones i)" "[]"] BigForIP_cidr(3) [OF that] that
    by (auto simp: parse_big_def cidr_wf_def)
  ultimately have "net_ones n = net_ones k" using assms by (metis option.inject prod.inject of_nat_eq_iff)
  then have "Mask n = Mask k" using ip assms by (auto simp: cidr_wf_def)
  with ip show "n = k" by simp
qed simp

end
