(* ===== verification/IP_Range.thy ===== *)
theory IP_Range
  imports Bitmap Go_Text
begin

text \<open>
  \<open>pkg/allocator/ip/allocator.go\<close>: a contiguous block of addresses over a bitmap allocator. The
  state is the record \<open>Range\<close>. The lemmas tie offsets to addresses: which addresses \<open>contains\<close>
  accepts, that \<open>AllocateNext\<close> returns an address of the network that is neither its first nor
  (for IPv4) its last, that \<open>Allocate\<close>, \<open>Has\<close>, \<open>Release\<close> and \<open>ForEach\<close> agree, and that
  the range is an instance of the \<open>pool\<close> interface with addresses as items.
\<close>

section \<open>State and operations\<close>

datatype ip_error =
    ErrFull
  | ErrAllocated
  | ErrNotInRange string

definition IsErrAllocated :: "ip_error \<Rightarrow> bool" where
  "IsErrAllocated e \<longleftrightarrow> e = ErrAllocated"

record Range =
  rg_net :: ipnet
  rg_base :: int
  rg_max :: int
  rg_alloc :: AllocationBitmap

definition maximum :: "int \<Rightarrow> int \<Rightarrow> int" where
  "maximum a b = (if a > b then a else b)"

text \<open>The second argument is the \<open>AllocatorFactory\<close>; the repository's factories never fail.\<close>

definition NewAllocatorCIDRRange :: "ipnet \<Rightarrow> (int \<Rightarrow> string \<Rightarrow> AllocationBitmap) \<Rightarrow> Range" where
  "NewAllocatorCIDRRange cidr allocatorFactory =
     (let m = RangeSize cidr;
          base = BigForIP (IP cidr);
          rangeSpec = IPNet_String cidr;
          m1 = (if IsIPv6CIDR cidr then (if m > 65536 then 65536 else m) else m - 1);
          base1 = base + 1;
          m2 = m1 - 1;
          m3 = maximum 0 m2
      in \<lparr>rg_net = cidr, rg_base = base1, rg_max = m3, rg_alloc = allocatorFactory m3 rangeSpec\<rparr>)"

definition NewCIDRRange :: "ipnet \<Rightarrow> Range" where
  "NewCIDRRange cidr = NewAllocatorCIDRRange cidr NewAllocationMap"

definition Range_Free :: "Range \<Rightarrow> int" where
  "Range_Free r = bitmap_Free (rg_alloc r)"

definition Range_Used :: "Range \<Rightarrow> int" where
  "Range_Used r = rg_max r - bitmap_Free (rg_alloc r)"

definition Range_CIDR :: "Range \<Rightarrow> ipnet" where
  "Range_CIDR r = rg_net r"

definition calculateIPOffset :: "int \<Rightarrow> ip \<Rightarrow> int" where
  "calculateIPOffset base x = big_Int64 (BigForIP x - base)"

definition Range_contains :: "ip \<Rightarrow> Range \<Rightarrow> bool \<times> int" where
  "Range_contains x r =
     (if \<not> IPNet_Contains (rg_net r) x then (False, 0)
      else let offset = calculateIPOffset (rg_base r) x
           in if offset < 0 \<or> offset \<ge> rg_max r then (False, 0) else (True, offset))"

text \<open>\<open>contains\<close> only lets non-negative offsets through, so that the bitmap operations below do not
  panic: \<open>the\<close> is applied to \<open>Some\<close>.\<close>

definition Range_Allocate :: "ip \<Rightarrow> Range \<Rightarrow> (ip_error + unit) \<times> Range" where
  "Range_Allocate x r =
     (case Range_contains x r of
        (False, _) \<Rightarrow> (Inl (ErrNotInRange (IPNet_String (rg_net r))), r)
      | (True, offset) \<Rightarrow>
          (case the (bitmap_Allocate offset (rg_alloc r)) of
             (False, bm) \<Rightarrow> (Inl ErrAllocated, r\<lparr>rg_alloc := bm\<rparr>)
           | (True, bm) \<Rightarrow> (Inr (), r\<lparr>rg_alloc := bm\<rparr>)))"

definition Range_AllocateNext :: "nat \<Rightarrow> Range \<Rightarrow> (ip_error + ip) \<times> Range" where
  "Range_AllocateNext rnd r =
     (case bitmap_AllocateNext rnd (rg_alloc r) of
        (None, bm) \<Rightarrow> (Inl ErrFull, r\<lparr>rg_alloc := bm\<rparr>)
      | (Some offset, bm) \<Rightarrow> (Inr (AddIPOffset (rg_base r) (int offset)), r\<lparr>rg_alloc := bm\<rparr>))"

definition Range_Release :: "ip \<Rightarrow> Range \<Rightarrow> Range" where
  "Range_Release x r =
     (case Range_contains x r of
        (False, _) \<Rightarrow> r
      | (True, offset) \<Rightarrow> r\<lparr>rg_alloc := the (bitmap_Release offset (rg_alloc r))\<rparr>)"

text \<open>The arguments of the calls of the callback, in order; an error of \<open>GetIndexedIP\<close> is dropped
  and leaves the nil address.\<close>

definition Range_ForEach :: "Range \<Rightarrow> ip list" where
  "Range_ForEach r =
     map (\<lambda>offset. case GetIndexedIP (rg_net r) (int offset + 1) of Inr x \<Rightarrow> x | Inl _ \<Rightarrow> [])
       (bitmap_ForEach (rg_alloc r))"

definition Range_Has :: "ip \<Rightarrow> Range \<Rightarrow> bool" where
  "Range_Has x r =
     (case Range_contains x r of
        (False, _) \<Rightarrow> False
      | (True, offset) \<Rightarrow> the (bitmap_Has offset (rg_alloc r)))"

definition Range_Reserved :: "ip \<Rightarrow> Range \<Rightarrow> bool" where
  "Range_Reserved x r =
     (if \<not> IPNet_Contains (rg_net r) x then False
      else let offset = calculateIPOffset (rg_base r) x in offset = -1 \<or> offset = rg_max r)"

section \<open>Invariant\<close>

text \<open>A range over a canonical network of at most \<open>2 ^ 64\<close> addresses: above that size the
  truncation of \<open>calculateIPOffset\<close> to 64 bits makes different addresses share an offset.\<close>

definition range_wf :: "Range \<Rightarrow> bool" where
  "range_wf r \<longleftrightarrow> cidr_wf (rg_net r) \<and> net_size (rg_net r) \<le> 2 ^ 64
     \<and> rg_base r = BigForIP (IP (rg_net r)) + 1
     \<and> 0 \<le> rg_max r \<and> rg_max r < net_size (rg_net r) \<and> rg_max r < 2 ^ 32
     \<and> bm_max (rg_alloc r) = rg_max r \<and> bitmap_wf (rg_alloc r) \<and> bitmap_inrange (rg_alloc r)"

text \<open>The address of an offset, and the addresses held.\<close>

definition range_ip :: "Range \<Rightarrow> nat \<Rightarrow> ip" where
  "range_ip r k = AddIPOffset (rg_base r) (int k)"

definition range_items :: "Range \<Rightarrow> ip set" where
  "range_items r = range_ip r ` {..<nat (rg_max r)}"

definition range_held :: "Range \<Rightarrow> ip set" where
  "range_held r = range_ip r ` bm_bits (rg_alloc r)"

lemma RangeSize_cidr:
  assumes "cidr_wf n"
  shows "RangeSize n = (if is4 (IP n) then (if net_ones n < 2 then 0 else net_size n)
    else (if net_ones n < 2 then 0 else if net_ones n \<le> 65 then MaxInt64 else net_size n))"
proof -
  have m: "Mask n = cidrBytes (length (IP n)) (net_ones n)" "net_ones n \<le> 8 * length (IP n)"
      "length (IP n) = 4 \<or> length (IP n) = 16"
    using assms unfolding cidr_wf_def net_bits_def by auto
  then have "simpleMaskLength (Mask n) = int (net_ones n)"
    using simpleMaskLength_cidrBytes by simp
  moreover have "length (Mask n) = length (IP n)" using m by simp
  ultimately have sz: "Mask_Size (Mask n) = (int (net_ones n), int (net_bits n))"
    by (simp add: Mask_Size_def net_bits_def)
  have nat: "nat (int (net_bits n) - int (net_ones n)) = net_bits n - net_ones n" by simp
  have le: "net_ones n \<le> net_bits n" using m(2) by (simp add: net_bits_def)
  show ?thesis
    using BigForIP_cidr(2,3) [OF assms] le
    unfolding RangeSize_def sz prod.case nat net_size_def
    by (cases "is4 (IP n)") auto
qed

lemma IsIPv6CIDR_cidr: "cidr_wf n \<Longrightarrow> IsIPv6CIDR n \<longleftrightarrow> \<not> is4 (IP n)"
  by (auto simp: IsIPv6CIDR_def IPFamilyOfCIDR_def IPFamilyOf_def To16_def cidr_wf_def split: if_splits)

definition usable :: "ipnet \<Rightarrow> int" where
  "usable n =
     (if net_ones n < 2 then 0
      else if is4 (IP n) then max 0 (net_size n - 2) else min 65535 (net_size n - 1))"

lemma New_max:
  assumes "cidr_wf n"
  shows "rg_max (NewAllocatorCIDRRange n f) = usable n"
proof -
  have "net_size n > 65536" if "\<not> is4 (IP n)" "net_ones n \<le> 65"
  proof -
    have "(2::int) ^ 63 \<le> net_size n"
      unfolding net_size_def using that BigForIP_cidr(2,3) [OF assms]
      by (intro power_increasing) auto
    then show ?thesis by simp
  qed
  moreover have "1 \<le> net_size n" using net_size_pos [of n] by linarith
  ultimately show ?thesis
    using RangeSize_cidr [OF assms] IsIPv6CIDR_cidr [OF assms]
    by (auto simp: NewAllocatorCIDRRange_def Let_def maximum_def usable_def MaxInt64_def)
qed

lemma usable_range:
  assumes "cidr_wf n"
  shows "0 \<le> usable n \<and> usable n < net_size n \<and> usable n < 2 ^ 32"
proof -
  have "1 \<le> net_size n" using net_size_pos [of n] by linarith
  moreover have "is4 (IP n) \<Longrightarrow> net_size n \<le> 2 ^ 32"
    using net_size_le [OF assms] BigForIP_cidr(2) [OF assms] by simp
  ultimately show ?thesis by (auto simp: usable_def)
qed

lemma New_range_wf:
  assumes "cidr_wf n" and "net_size n \<le> 2 ^ 64"
    and "\<And>m spec. bm_max (f m spec) = m \<and> bitmap_wf (f m spec) \<and> bm_bits (f m spec) = {}"
  shows "range_wf (NewAllocatorCIDRRange n f) \<and> range_held (NewAllocatorCIDRRange n f) = {}"
proof -
  have "bm_max (rg_alloc (NewAllocatorCIDRRange n f)) = rg_max (NewAllocatorCIDRRange n f)"
      "bitmap_wf (rg_alloc (NewAllocatorCIDRRange n f))"
      "bm_bits (rg_alloc (NewAllocatorCIDRRange n f)) = {}"
      "rg_net (NewAllocatorCIDRRange n f) = n"
      "rg_base (NewAllocatorCIDRRange n f) = BigForIP (IP n) + 1"
    using assms(3) by (simp_all add: NewAllocatorCIDRRange_def Let_def)
  then show ?thesis
    using assms New_max [OF assms(1)] usable_range [OF assms(1)]
    by (simp add: range_wf_def range_held_def bitmap_inrange_def)
qed

section \<open>Offsets and addresses\<close>

lemma big_Int64_wrap:
  assumes "2 ^ 63 \<le> k" and "k < 2 ^ 64"
  shows "big_Int64 k = k - 2 ^ 64"
proof -
  have "(word_of_int k :: u64) = word_of_int (k - 2 ^ 64)"
    by (simp add: word_of_int_eq_iff take_bit_eq_mod)
  moreover have "sint (word_of_int (k - 2 ^ 64) :: u64) = k - 2 ^ 64"
    by (rule sint_u64_small) (use assms in simp_all)
  ultimately have "sint (word_of_int k :: u64) = k - 2 ^ 64" by (simp only:)
  moreover have "\<bar>k\<bar> = k" "\<not> k < 0" using assms by auto
  ultimately show ?thesis by (simp only: big_Int64_def Let_def if_False)
qed

lemma Range_contains_iff:
  assumes "range_wf r" and "ip_wf x"
  shows "Range_contains x r =
    (if (is4 x \<longleftrightarrow> is4 (IP (rg_net r))) \<and> rg_base r \<le> BigForIP x \<and> BigForIP x < rg_base r + rg_max r
     then (True, BigForIP x - rg_base r) else (False, 0))"
proof -
  let ?n = "rg_net r" and ?d = "BigForIP x - rg_base r"
  note wf = assms(1) [unfolded range_wf_def]
  have C: "IPNet_Contains ?n x \<longleftrightarrow> (is4 x \<longleftrightarrow> is4 (IP ?n)) \<and> -1 \<le> ?d \<and> ?d < net_size ?n - 1"
    using Contains_iff [of ?n x] wf assms(2) by auto
  have off: "calculateIPOffset (rg_base r) x = (if ?d < 2 ^ 63 then ?d else ?d - 2 ^ 64)"
    if "IPNet_Contains ?n x"
    unfolding calculateIPOffset_def
    using that C wf big_Int64_small [of ?d] big_Int64_wrap [of ?d] by auto
  show ?thesis
  proof (cases "IPNet_Contains ?n x")
    case True
    then show ?thesis using C off wf by (auto simp: Range_contains_def Let_def)
  next
    case False
    then show ?thesis using C wf by (auto simp: Range_contains_def)
  qed
qed

lemma range_ip_value:
  assumes "range_wf r" and "k < nat (rg_max r)"
  shows "BigForIP (range_ip r k) = rg_base r + int k" and "is4 (range_ip r k) \<longleftrightarrow> is4 (IP (rg_net r))"
    and "IPNet_Contains (rg_net r) (range_ip r k)" and "Range_contains (range_ip r k) r = (True, int k)"
proof -
  note wf = assms(1) [unfolded range_wf_def]
  have e: "range_ip r k = AddIPOffset (BigForIP (IP (rg_net r))) (int k + 1)"
    using wf by (simp add: range_ip_def AddIPOffset_def algebra_simps)
  have *: "IPNet_Contains (rg_net r) (range_ip r k) \<and> BigForIP (range_ip r k) = rg_base r + int k
      \<and> (is4 (range_ip r k) \<longleftrightarrow> is4 (IP (rg_net r)))"
  proof -
    have "0 \<le> int k + 1" "int k + 1 < net_size (rg_net r)" "int k + 1 < 2 ^ 32"
      using wf assms(2) by linarith+
    from Contains_AddIPOffset [OF _ this] wf show ?thesis unfolding e by auto
  qed
  then show "BigForIP (range_ip r k) = rg_base r + int k"
    "is4 (range_ip r k) \<longleftrightarrow> is4 (IP (rg_net r))" "IPNet_Contains (rg_net r) (range_ip r k)" by auto
  show "Range_contains (range_ip r k) r = (True, int k)"
    using Range_contains_iff [OF assms(1), of "range_ip r k"] * assms(2)
    by (simp add: range_ip_def)
qed

lemma is4_BigForIP:
  assumes "ip_wf x" and "ip_wf y" and "BigForIP x = BigForIP y"
  shows "is4 x \<longleftrightarrow> is4 y"
proof -
  have "is4 z \<longleftrightarrow> v4_base \<le> BigForIP z \<and> BigForIP z < v4_base + 2 ^ 32" if "ip_wf z" for z
  proof (cases "length z = 16")
    case True
    then show ?thesis by (rule is4_iff)
  next
    case False
    then have "is4 z" using that by (auto simp: ip_wf_def To4_def)
    then show ?thesis using BigForIP_v4_range [of z] by simp
  qed
  then show ?thesis using assms by metis
qed

lemma range_ip_inj: "range_wf r \<Longrightarrow> inj_on (range_ip r) {..<nat (rg_max r)}"
  by (rule inj_onI) (metis range_ip_value(1) add_left_cancel lessThan_iff of_nat_eq_iff)

lemma range_bits: "range_wf r \<Longrightarrow> bm_bits (rg_alloc r) \<subseteq> {..<nat (rg_max r)}"
  by (auto simp: range_wf_def bitmap_inrange_def)

lemma range_ip_held:
  assumes "range_wf r" and "k < nat (rg_max r)"
  shows "range_ip r k \<in> range_held r \<longleftrightarrow> bit (bm_allocated (rg_alloc r)) k"
  using inj_on_image_mem_iff [OF range_ip_inj [OF assms(1)], of k "bm_bits (rg_alloc r)"]
    range_bits [OF assms(1)] assms(2) by (simp add: range_held_def)

lemma range_wf_upd:
  assumes "range_wf r" and "bitmap_wf bm" and "bitmap_inrange bm" and "bm_max bm = rg_max r"
  shows "range_wf (r\<lparr>rg_alloc := bm\<rparr>)" and "range_ip (r\<lparr>rg_alloc := bm\<rparr>) = range_ip r"
    and "range_items (r\<lparr>rg_alloc := bm\<rparr>) = range_items r"
  using assms by (auto simp: range_wf_def range_items_def range_ip_def fun_eq_iff)

text \<open>Every address \<open>contains\<close> accepts is, up to its 4- or 16-byte form, the address of an offset.\<close>

lemma Range_contains_True:
  assumes "range_wf r" and "ip_wf x" and "Range_contains x r = (True, off)"
  shows "0 \<le> off \<and> off < rg_max r \<and> IP_Equal x (range_ip r (nat off))"
proof -
  have off: "off = BigForIP x - rg_base r" "0 \<le> off" "off < rg_max r"
    using assms(3) Range_contains_iff [OF assms(1,2)] by (auto split: if_splits)
  then have "BigForIP (range_ip r (nat off)) = BigForIP x"
    using range_ip_value(1) [OF assms(1), of "nat off"] by simp
  then show ?thesis using off assms(2) IP_Equal_BigForIP [of x "range_ip r (nat off)"]
    by (simp add: range_ip_def)
qed

section \<open>Effects of the operations\<close>

lemma Range_Allocate_eff:
  assumes "range_wf r" and "ip_wf x"
  shows "case Range_contains x r of
      (False, _) \<Rightarrow> Range_Allocate x r = (Inl (ErrNotInRange (IPNet_String (rg_net r))), r)
    | (True, off) \<Rightarrow>
        (if range_ip r (nat off) \<in> range_held r then Range_Allocate x r = (Inl ErrAllocated, r)
         else \<exists>r'. Range_Allocate x r = (Inr (), r') \<and> range_wf r' \<and> range_items r' = range_items r
           \<and> range_held r' = insert (range_ip r (nat off)) (range_held r))"
proof (cases "Range_contains x r")
  case (Pair c off)
  show ?thesis
  proof (cases c)
    case True
    then have P: "Range_contains x r = (True, off)" using Pair by simp
    note o = Range_contains_True [OF assms P]
    obtain ok bm where bm: "bitmap_Allocate off (rg_alloc r) = Some (ok, bm)"
      using o by (simp add: bitmap_Allocate_def) metis
    note eff = bitmap_Allocate_eff [OF bm]
    have held: "range_ip r (nat off) \<in> range_held r \<longleftrightarrow> \<not> ok"
      using range_ip_held [OF assms(1), of "nat off"] o eff by simp
    show ?thesis
    proof (cases ok)
      case False
      then have "bm = rg_alloc r" using bm by (auto simp: bitmap_Allocate_def split: if_splits)
      then show ?thesis using P bm held False by (simp add: Range_Allocate_def)
    next
      case True
      have "bitmap_wf bm" "bitmap_inrange bm" "bm_max bm = rg_max r"
        using eff assms(1) o by (auto simp: range_wf_def bitmap_inrange_def)
      note upd = range_wf_upd [OF assms(1) this]
      have "range_held (r\<lparr>rg_alloc := bm\<rparr>) = insert (range_ip r (nat off)) (range_held r)"
        using eff upd(2) by (simp add: range_held_def)
      then show ?thesis using P bm held True upd by (simp add: Range_Allocate_def)
    qed
  qed (use Pair in \<open>simp add: Range_Allocate_def\<close>)
qed

lemma Range_AllocateNext_Inr:
  assumes "range_wf r" and "Range_AllocateNext rnd r = (Inr x, r')"
  shows "x \<in> range_items r - range_held r \<and> range_wf r' \<and> range_items r' = range_items r
    \<and> range_held r' = insert x (range_held r)"
proof -
  note wf = assms(1) [unfolded range_wf_def]
  obtain k bm where bm: "bitmap_AllocateNext rnd (rg_alloc r) = (Some k, bm)"
    and x: "x = range_ip r k" "r' = r\<lparr>rg_alloc := bm\<rparr>"
    using assms(2) by (auto simp: Range_AllocateNext_def range_ip_def split: prod.splits option.splits)
  note eff = bitmap_AllocateNext_Some [OF bm]
  have k: "k < nat (rg_max r)" using eff wf by simp
  have "bitmap_wf bm" "bitmap_inrange bm" "bm_max bm = rg_max r"
    using eff wf by (auto simp: bitmap_inrange_def)
  note upd = range_wf_upd [OF assms(1) this]
  then show ?thesis using x eff k range_ip_held [OF assms(1) k]
    by (auto simp: range_items_def range_held_def)
qed

lemma Range_AllocateNext_Inl:
  assumes "range_wf r" and "Range_AllocateNext rnd r = (Inl e, r')"
  shows "e = ErrFull \<and> r' = r \<and> range_held r = range_items r"
proof -
  note wf = assms(1) [unfolded range_wf_def]
  obtain bm where bm: "bitmap_AllocateNext rnd (rg_alloc r) = (None, bm)"
    and e: "e = ErrFull" "r' = r\<lparr>rg_alloc := bm\<rparr>"
    using assms(2) by (auto simp: Range_AllocateNext_def split: prod.splits option.splits)
  have "bm_bits (rg_alloc r) = {..<nat (rg_max r)}"
    using bitmap_AllocateNext_full [OF _ _ bm] wf by simp
  then show ?thesis using e bitmap_AllocateNext_None [OF bm]
    by (simp add: range_held_def range_items_def)
qed

lemma Range_Release_eff:
  assumes "range_wf r" and "ip_wf x"
  shows "range_wf (Range_Release x r) \<and> range_items (Range_Release x r) = range_items r
    \<and> range_held (Range_Release x r) = range_held r -
        (case Range_contains x r of (False, _) \<Rightarrow> {} | (True, off) \<Rightarrow> {range_ip r (nat off)})"
proof (cases "Range_contains x r")
  case (Pair c off)
  show ?thesis
  proof (cases c)
    case True
    then have P: "Range_contains x r = (True, off)" using Pair by simp
    note o = Range_contains_True [OF assms P]
    obtain bm where bm: "bitmap_Release off (rg_alloc r) = Some bm"
      using o by (cases "bit (bm_allocated (rg_alloc r)) (nat off)") (auto simp: bitmap_Release_def)
    note eff = bitmap_Release_eff [OF bm]
    have "bitmap_wf bm" "bitmap_inrange bm" "bm_max bm = rg_max r"
      using eff assms(1) o by (auto simp: range_wf_def bitmap_inrange_def)
    note upd = range_wf_upd [OF assms(1) this]
    have "range_ip r ` (bm_bits (rg_alloc r) - {nat off}) =
        range_ip r ` bm_bits (rg_alloc r) - range_ip r ` {nat off}"
      by (rule inj_on_image_set_diff [OF range_ip_inj [OF assms(1)]])
        (use range_bits [OF assms(1)] o in auto)
    then show ?thesis using P bm eff upd by (simp add: Range_Release_def range_held_def)
  qed (use Pair assms in \<open>simp add: Range_Release_def\<close>)
qed

lemma Range_Has_eff:
  assumes "range_wf r" and "ip_wf x"
  shows "Range_Has x r \<longleftrightarrow> (\<exists>y\<in>range_held r. IP_Equal x y)"
proof (cases "Range_contains x r")
  case (Pair c off)
  have held: "\<exists>k<nat (rg_max r). y = range_ip r k \<and> bit (bm_allocated (rg_alloc r)) k"
    if "y \<in> range_held r" for y
    using that range_bits [OF assms(1)] by (auto simp: range_held_def)
  have eq: "(is4 x \<longleftrightarrow> is4 (IP (rg_net r))) \<and> BigForIP x = rg_base r + int k"
    if "k < nat (rg_max r)" "IP_Equal x (range_ip r k)" for k
  proof -
    have B: "BigForIP x = BigForIP (range_ip r k)"
      using IP_Equal_BigForIP [OF assms(2), of "range_ip r k"] that by (simp add: range_ip_def)
    moreover have "is4 x \<longleftrightarrow> is4 (range_ip r k)"
      using is4_BigForIP [OF assms(2), of "range_ip r k"] B by (simp add: range_ip_def)
    ultimately show ?thesis using range_ip_value(1,2) [OF assms(1) that(1)] by simp
  qed
  show ?thesis
  proof (cases c)
    case True
    then have P: "Range_contains x r = (True, off)" using Pair by simp
    note o = Range_contains_True [OF assms P]
    have off: "off = BigForIP x - rg_base r"
      using P Range_contains_iff [OF assms] by (auto split: if_splits)
    have "Range_Has x r \<longleftrightarrow> bit (bm_allocated (rg_alloc r)) (nat off)"
      using P o by (simp add: Range_Has_def bitmap_Has_def)
    moreover have "k = nat off" if "k < nat (rg_max r)" "IP_Equal x (range_ip r k)" for k
      using eq [OF that] off by simp
    moreover have "nat off < nat (rg_max r)" using o by simp
    ultimately show ?thesis using o held range_ip_held [OF assms(1), of "nat off"] by metis
  next
    case False
    then have "\<not> Range_Has x r" using Pair by (simp add: Range_Has_def)
    moreover have "\<not> IP_Equal x (range_ip r k)" if "k < nat (rg_max r)" for k
      using eq [OF that] Pair False Range_contains_iff [OF assms] that by (auto split: if_splits)
    ultimately show ?thesis using held by blast
  qed
qed

lemma Range_ops_net [simp]:
  "rg_net (snd (Range_Allocate x r)) = rg_net r" "rg_net (snd (Range_AllocateNext rnd r)) = rg_net r"
  "rg_net (Range_Release x r) = rg_net r"
  "rg_base (snd (Range_Allocate x r)) = rg_base r" "rg_max (snd (Range_Allocate x r)) = rg_max r"
  by (auto simp: Range_Allocate_def Range_AllocateNext_def Range_Release_def
      split: prod.splits bool.splits option.splits)

lemma Range_Allocate_Inl:
  assumes "range_wf r" and "ip_wf x" and "Range_Allocate x r = (Inl e, r')"
  shows "r' = r"
  using Range_Allocate_eff [OF assms(1,2)] assms(3) by (auto split: prod.splits bool.splits if_splits)

text \<open>A successful \<open>Allocate\<close> takes one address, and \<open>Release\<close> of the same address gives it back.\<close>

lemma Range_Allocate_Inr:
  assumes "range_wf r" and "ip_wf x" and "Range_Allocate x r = (Inr u, r')"
  shows "\<exists>y\<in>range_items r - range_held r. IP_Equal x y \<and> range_held r' = insert y (range_held r)
    \<and> range_wf r' \<and> range_items r' = range_items r
    \<and> range_wf (Range_Release x r') \<and> range_held (Range_Release x r') = range_held r"
proof -
  obtain c off where cp: "Range_contains x r = (c, off)" by fastforce
  with Range_Allocate_eff [OF assms(1,2)] assms(3) have P: "Range_contains x r = (True, off)"
    by (cases c) auto
  note o = Range_contains_True [OF assms(1,2) P]
  let ?y = "range_ip r (nat off)"
  have r': "?y \<notin> range_held r" "range_wf r'" "range_items r' = range_items r"
      "range_held r' = insert ?y (range_held r)"
    using Range_Allocate_eff [OF assms(1,2)] P assms(3) by (auto split: if_splits)
  have "rg_net r' = rg_net r" "rg_base r' = rg_base r" "rg_max r' = rg_max r"
    using Range_ops_net(1,4,5) [of x r] assms(3) by simp_all
  then have "Range_contains x r' = (True, off)" and "range_ip r' = range_ip r"
    using P by (simp_all only: Range_contains_def range_ip_def fun_eq_iff simp_thms)
  then have "range_wf (Range_Release x r')" "range_held (Range_Release x r') = range_held r"
    using Range_Release_eff [OF r'(2) assms(2)] r' by auto
  moreover have "?y \<in> range_items r" using o by (simp add: range_items_def)
  ultimately show ?thesis using r' o by (intro bexI [of _ ?y]) auto
qed

section \<open>The range as a pool of addresses\<close>

definition range_claim :: "ip \<Rightarrow> Range \<Rightarrow> Range option" where
  "range_claim x r = (case Range_Allocate x r of (Inr _, r') \<Rightarrow> Some r' | _ \<Rightarrow> None)"

definition range_take :: "nat \<Rightarrow> Range \<Rightarrow> (ip \<times> Range) option" where
  "range_take rnd r = (case Range_AllocateNext rnd r of (Inr x, r') \<Rightarrow> Some (x, r') | _ \<Rightarrow> None)"

lemma range_items_wf: "x \<in> range_items r \<Longrightarrow> ip_wf x"
  by (auto simp: range_items_def range_ip_def)

lemma range_held_items: "range_wf r \<Longrightarrow> range_held r \<subseteq> range_items r"
  using range_bits [of r] by (auto simp: range_held_def range_items_def)

interpretation rng: pool range_wf range_items range_held range_claim range_take Range_Release
proof (unfold_locales, goal_cases)
  case (1 s)
  then show ?case by (rule range_held_items)
next
  case (2 s)
  then show ?case by (simp add: range_items_def)
next
  case (3 s a)
  then obtain k where k: "k < nat (rg_max s)" "a = range_ip s k" by (auto simp: range_items_def)
  from Range_Allocate_eff [OF 3(1) range_items_wf [OF 3(2)]] range_ip_value(4) [OF 3(1) k(1)] k 3(3)
  show ?case by (auto simp: range_claim_def)
next
  case (4 s a)
  then obtain k where k: "k < nat (rg_max s)" "a = range_ip s k"
    using range_held_items by (auto simp: range_items_def)
  then have "a \<in> range_items s" by (simp add: range_items_def)
  from Range_Allocate_eff [OF 4(1) range_items_wf [OF this]] range_ip_value(4) [OF 4(1) k(1)] k 4(2)
  show ?case by (auto simp: range_claim_def)
next
  case (5 s c a t)
  then have "Range_AllocateNext c s = (Inr a, t)"
    by (auto simp: range_take_def split: prod.splits sum.splits)
  from Range_AllocateNext_Inr [OF 5(1) this] show ?case by simp
next
  case (6 s c)
  then obtain e t where "Range_AllocateNext c s = (Inl e, t)"
    by (auto simp: range_take_def split: prod.splits sum.splits)
  from Range_AllocateNext_Inl [OF 6(1) this] show ?case by simp
next
  case (7 s a)
  then obtain k where k: "k < nat (rg_max s)" "a = range_ip s k" by (auto simp: range_items_def)
  from Range_Release_eff [OF 7(1) range_items_wf [OF 7(2)]] range_ip_value(4) [OF 7(1) k(1)] k
  show ?case by simp
qed

section \<open>Properties\<close>

text \<open>A small range used by the witnesses.\<close>

definition example_net :: ipnet where
  "example_net = \<lparr>IP = [10, 1, 2, 0], Mask = [0xff, 0xff, 0xff, 0xf8]\<rparr>"

lemma example_net_wf: "cidr_wf example_net \<and> net_size example_net = 8 \<and> net_ones example_net = 29"
  unfolding cidr_wf_def net_size_def net_bits_def net_ones_def simpleMaskLength_def example_net_def
  by code_simp

lemma New_bitmap_factory:
  "bm_max (NewAllocationMap m spec) = m \<and> bitmap_wf (NewAllocationMap m spec)
    \<and> bm_bits (NewAllocationMap m spec) = {}"
  "bm_max (NewRoundRobinAllocationMap m spec) = m \<and> bitmap_wf (NewRoundRobinAllocationMap m spec)
    \<and> bm_bits (NewRoundRobinAllocationMap m spec) = {}"
  using bitmap_New_wf [of m spec] by (simp_all add: NewAllocationMap_def NewRoundRobinAllocationMap_def)

lemma NewCIDRRange_wf:
  "cidr_wf n \<Longrightarrow> net_size n \<le> 2 ^ 64 \<Longrightarrow> range_wf (NewCIDRRange n) \<and> range_held (NewCIDRRange n) = {}"
  unfolding NewCIDRRange_def by (rule New_range_wf) (use New_bitmap_factory in blast)+

lemma example_range_wf: "range_wf (NewCIDRRange example_net)" "range_held (NewCIDRRange example_net) = {}"
  using NewCIDRRange_wf [of example_net] example_net_wf by auto

lemma New_items_card:
  assumes "cidr_wf n" and "range_wf r" and "rg_max r = usable n"
  shows "card (range_items r) = nat (usable n)"
  using card_image [OF range_ip_inj [OF assms(2)]] assms(3) by (simp add: range_items_def)

text \<open>\<open>AllocateNext\<close> of a range, for any random offset: on success the address lies in the
  network, is not the network address, is not the broadcast address of an IPv4 network, was not
  allocated before and is allocated afterwards together with exactly the earlier ones; it reports
  \<open>ErrFull\<close> only when every usable address is allocated, and then nothing changes.\<close>

lemma Range_AllocateNext_correct:
  assumes "range_wf r" and "is4 (IP (rg_net r)) \<longrightarrow> rg_max r \<le> net_size (rg_net r) - 2"
  shows "case Range_AllocateNext rnd r of
      (Inr x, r') \<Rightarrow> IPNet_Contains (rg_net r) x \<and> \<not> IP_Equal x (IP (rg_net r))
        \<and> (is4 (IP (rg_net r)) \<longrightarrow> BigForIP x \<noteq> BigForIP (IP (rg_net r)) + net_size (rg_net r) - 1)
        \<and> \<not> Range_Has x r \<and> Range_Has x r' \<and> range_held r' = insert x (range_held r) \<and> range_wf r'
    | (Inl e, r') \<Rightarrow> e = ErrFull \<and> r' = r \<and> range_held r = range_items r"
proof (cases "Range_AllocateNext rnd r")
  case (Pair res r')
  show ?thesis
  proof (cases res)
    case (Inl e)
    then show ?thesis using Range_AllocateNext_Inl [OF assms(1), of rnd e r'] Pair by simp
  next
    case (Inr x)
    note eff = Range_AllocateNext_Inr [OF assms(1), of rnd x r', unfolded Pair Inr, OF refl]
    then obtain k where k: "k < nat (rg_max r)" "x = range_ip r k" by (auto simp: range_items_def)
    note v = range_ip_value [OF assms(1) k(1), folded k(2)]
    have w: "ip_wf x" "ip_wf (IP (rg_net r))" using range_items_wf [of x r] eff assms(1)
      by (auto simp: range_wf_def wf_simps)
    have "\<not> IP_Equal x (IP (rg_net r))"
      using IP_Equal_BigForIP [OF w] v(1) assms(1) by (simp add: range_wf_def)
    moreover have "\<not> Range_Has x r"
    proof -
      have "Range_Has x r \<longleftrightarrow> bit (bm_allocated (rg_alloc r)) k"
        using v(4) by (simp add: Range_Has_def bitmap_Has_def)
      then show ?thesis using eff range_ip_held [OF assms(1) k(1)] k(2) by simp
    qed
    moreover have "Range_Has x r'"
      using Range_Has_eff [of r' x] eff w(1) by (auto simp: IP_Equal_def)
    moreover have "is4 (IP (rg_net r)) \<longrightarrow>
        BigForIP x \<noteq> BigForIP (IP (rg_net r)) + net_size (rg_net r) - 1"
      using v(1) k(1) assms by (auto simp: range_wf_def)
    ultimately show ?thesis using Pair Inr eff v(3) by simp
  qed
qed

text \<open>\<open>Allocate\<close>, \<open>Has\<close> and \<open>Release\<close> of a given address agree, for the 4-byte and the
  16-byte form alike: an address outside the usable part of the network gives \<open>ErrNotInRange\<close>, one
  already allocated gives \<open>ErrAllocated\<close>, any other is allocated and then reported by \<open>Has\<close>;
  after \<open>Release\<close> it is not, and releasing undoes the allocation.\<close>

lemma Range_Allocate_Has_Release:
  assumes "range_wf r" and "ip_wf x"
  shows "case Range_Allocate x r of
      (Inr _, r') \<Rightarrow> fst (Range_contains x r) \<and> \<not> Range_Has x r \<and> Range_Has x r'
        \<and> \<not> Range_Has x (Range_Release x r') \<and> range_held (Range_Release x r') = range_held r
    | (Inl e, r') \<Rightarrow> r' = r \<and>
        (if Range_Has x r then e = ErrAllocated
         else \<not> fst (Range_contains x r) \<and> e = ErrNotInRange (IPNet_String (rg_net r)))"
proof (cases "Range_Allocate x r")
  case (Pair res r')
  obtain c off where cp: "Range_contains x r = (c, off)" by fastforce
  have has: "Range_Has x r \<longleftrightarrow> c \<and> range_ip r (nat off) \<in> range_held r"
    using cp Range_contains_True [OF assms, of off] range_ip_held [OF assms(1), of "nat off"]
    by (cases c) (auto simp: Range_Has_def bitmap_Has_def)
  note eff = Range_Allocate_eff [OF assms]
  show ?thesis
  proof (cases res)
    case (Inl e)
    then show ?thesis using Pair cp has eff Range_Allocate_Inl [OF assms, of e r'] by (cases c) (auto split: if_splits)
  next
    case (Inr u)
    then obtain y where y: "IP_Equal x y" "range_held r' = insert y (range_held r)" "range_wf r'"
        "range_wf (Range_Release x r')" "range_held (Range_Release x r') = range_held r"
      using Range_Allocate_Inr [OF assms, of u r'] Pair by blast
    have "\<not> Range_Has x r" "c" using Pair Inr cp has eff by (cases c; auto split: if_splits)+
    moreover have "Range_Has x r'" using Range_Has_eff [OF y(3) assms(2)] y(1,2) by blast
    moreover have "\<not> Range_Has x (Range_Release x r')"
      using Range_Has_eff [OF y(4) assms(2)] Range_Has_eff [OF assms] y(5) calculation(1) by simp
    ultimately show ?thesis using Pair Inr cp y by simp
  qed
qed

text \<open>A new range over a network hands out exactly its usable addresses: repeated
  \<open>AllocateNext\<close>, with any random offsets, returns \<open>2 ^ h - 2\<close> different addresses of an IPv4
  network with \<open>h\<close> host bits (none when \<open>h\<close> is below 2 or above 30), and \<open>2 ^ h - 1\<close> but at
  most 65535 different addresses of an IPv6 network, before it reports \<open>ErrFull\<close>.\<close>

lemma NewCIDRRange_capacity:
  assumes "cidr_wf n" and "net_size n \<le> 2 ^ 64" and "nat (usable n) < length rnds"
  shows "\<exists>xs r. rng.drain rnds (NewCIDRRange n) = (xs, r) \<and> distinct xs
    \<and> length xs = nat (usable n) \<and> (\<forall>rnd. Range_AllocateNext rnd r = (Inl ErrFull, r))"
proof -
  note wf = NewCIDRRange_wf [OF assms(1,2)]
  have card: "card (range_items (NewCIDRRange n)) = nat (usable n)"
    using New_items_card [OF assms(1)] wf New_max [OF assms(1)] by (simp add: NewCIDRRange_def)
  then obtain xs r where d: "rng.drain rnds (NewCIDRRange n) = (xs, r)" "distinct xs"
      "set xs = range_items (NewCIDRRange n)"
    using rng.drain_all [of "NewCIDRRange n" rnds] wf assms(3) by auto
  note r = rng.drain_step [OF conjunct1 [OF wf] d(1)]
  have "Range_AllocateNext rnd r = (Inl ErrFull, r)" for rnd
  proof (cases "Range_AllocateNext rnd r")
    case (Pair res r')
    show ?thesis
    proof (cases res)
      case (Inl e)
      then show ?thesis using Pair Range_AllocateNext_Inl [of r rnd e r'] r by simp
    next
      case (Inr x)
      then show ?thesis using Pair Range_AllocateNext_Inr [of r rnd x r'] r wf d(3) by simp
    qed
  qed
  then show ?thesis using d card distinct_card [OF d(2)] by auto
qed

text \<open>\<open>ForEach\<close> visits exactly the allocated addresses, each once, in ascending order of
  offset, and \<open>Used\<close> counts them.\<close>

lemma Range_ForEach_held:
  assumes "range_wf r"
  shows "Range_ForEach r = map (range_ip r) (sorted_list_of_set (bm_bits (rg_alloc r)))
    \<and> set (Range_ForEach r) = range_held r \<and> distinct (Range_ForEach r)
    \<and> Range_Used r = int (length (Range_ForEach r))"
proof -
  note wf = assms [unfolded range_wf_def]
  have each: "bitmap_ForEach (rg_alloc r) = sorted_list_of_set (bm_bits (rg_alloc r))"
    and fin: "finite (bm_bits (rg_alloc r))" and cnt: "bm_count (rg_alloc r) = int (card (bm_bits (rg_alloc r)))"
    using bitmap_ForEach_sorted finite_bits_of wf by (auto simp: bitmap_wf_def)
  have "(case GetIndexedIP (rg_net r) (int k + 1) of Inr x \<Rightarrow> x | Inl _ \<Rightarrow> []) = range_ip r k"
    if "k \<in> bm_bits (rg_alloc r)" for k
  proof -
    have k: "k < nat (rg_max r)" using that range_bits [OF assms] by auto
    have "range_ip r k = AddIPOffset (BigForIP (IP (rg_net r))) (int k + 1)"
      using wf by (simp add: range_ip_def AddIPOffset_def algebra_simps)
    then show ?thesis using range_ip_value(3) [OF assms k] by (simp add: GetIndexedIP_def Let_def)
  qed
  then have eq: "Range_ForEach r = map (range_ip r) (sorted_list_of_set (bm_bits (rg_alloc r)))"
    unfolding Range_ForEach_def each using fin by (intro map_cong) auto
  moreover have "distinct (Range_ForEach r)"
    unfolding eq using range_ip_inj [OF assms] range_bits [OF assms] fin
    by (simp add: distinct_map inj_on_subset)
  ultimately show ?thesis using fin cnt wf
    by (simp add: range_held_def Range_Used_def bitmap_Free_def)
qed

text \<open>\<open>Reserved\<close> is true exactly for the network address and, in an IPv4 network of at
  most 30 ones, for the broadcast address, among the addresses of the network.\<close>

lemma Range_Reserved_iff:
  assumes "range_wf r" and "ip_wf x" and "IPNet_Contains (rg_net r) x"
    and "is4 (IP (rg_net r))" and "rg_max r = usable (rg_net r)" and "2 \<le> net_ones (rg_net r)"
    and "net_ones (rg_net r) \<le> 30"
  shows "Range_Reserved x r \<longleftrightarrow> IP_Equal x (IP (rg_net r))
    \<or> BigForIP x = BigForIP (IP (rg_net r)) + net_size (rg_net r) - 1"
proof -
  let ?n = "rg_net r"
  note wf = assms(1) [unfolded range_wf_def]
  have sz: "(4::int) \<le> net_size ?n" "net_size ?n \<le> 2 ^ 32"
  proof -
    have "(2::int) ^ 2 \<le> net_size ?n" unfolding net_size_def
      using BigForIP_cidr(2) [of ?n] wf assms(4,7) by (intro power_increasing) auto
    then show "4 \<le> net_size ?n" by simp
    show "net_size ?n \<le> 2 ^ 32" using net_size_le [of ?n] wf BigForIP_cidr(2) [of ?n] assms(4) by simp
  qed
  have d: "-1 \<le> BigForIP x - rg_base r" "BigForIP x - rg_base r < net_size ?n - 1"
    using Contains_iff [of ?n x] wf assms(2,3) by auto
  then have off: "calculateIPOffset (rg_base r) x = BigForIP x - rg_base r"
    unfolding calculateIPOffset_def using sz by (intro big_Int64_small) auto
  have "ip_wf (IP ?n)" using wf by (auto simp: wf_simps)
  then show ?thesis
    using assms(3,4,5,6) off wf sz d IP_Equal_BigForIP [OF assms(2)]
    by (auto simp: Range_Reserved_def Let_def usable_def)
qed

text \<open>In an IPv6 network of more than \<open>2 ^ 64\<close> addresses the 64-bit truncation of the offset
  makes two different addresses share one bit: after allocating \<open>fd00:0:0:1::5\<close> in \<open>fd00::/48\<close>,
  \<open>fd00::5\<close> counts as allocated although it never was.\<close>

lemma Range_offset_aliasing:
  "let n = \<lparr>IP = [0xfd, 0, 0, 0, 0, 0, 0, 0, 0, 0, 0, 0, 0, 0, 0, 0], Mask = CIDRMask 48 128\<rparr>;
       x = [0xfd, 0, 0, 0, 0, 0, 0, 1, 0, 0, 0, 0, 0, 0, 0, 5];
       y = [0xfd, 0, 0, 0, 0, 0, 0, 0, 0, 0, 0, 0, 0, 0, 0, 5];
       r = NewCIDRRange n
   in fst (Range_Allocate x r) = Inr () \<and> \<not> Range_Has y r \<and> Range_Has y (snd (Range_Allocate x r))
      \<and> \<not> IP_Equal x y"
  unfolding Let_def by code_simp

end
