(* ===== verification/Util_Net.thy ===== *)
theory Util_Net
  imports Go_Text
begin

text \<open>
  The address helpers of \<open>pkg/util\<close> (\<open>net.go\<close> and the address part of \<open>util.go\<close>) that the
  controllers use: the gateway, management and hybrid-overlay addresses of a node subnet,
  matching by IP family, CIDR containment, MAC addresses derived from IP addresses, host:port
  strings and the filtering of address lists. A nil \<open>*net.IPNet\<close> is \<open>None\<close>; an index out of
  range and a nil dereference are panics, \<open>None\<close> of an outer option.
\<close>

section \<open>Node addresses\<close>

definition GetNodeGatewayIfAddr :: "ipnet option \<Rightarrow> ipnet option option" where
  "GetNodeGatewayIfAddr subnet =
     (case subnet of
        None \<Rightarrow> Some None
      | Some n \<Rightarrow>
          (case NextIP (IP n) of
             None \<Rightarrow> None
           | Some x \<Rightarrow> if x = [] then Some None else Some (Some \<lparr>IP = x, Mask = Mask n\<rparr>)))"

definition GetNodeManagementIfAddr :: "ipnet option \<Rightarrow> ipnet option option" where
  "GetNodeManagementIfAddr subnet =
     (case GetNodeGatewayIfAddr subnet of
        None \<Rightarrow> None
      | Some None \<Rightarrow> Some None
      | Some (Some gw) \<Rightarrow>
          (case NextIP (IP gw) of
             None \<Rightarrow> None
           | Some x \<Rightarrow> Some (Some \<lparr>IP = x, Mask = Mask (the subnet)\<rparr>)))"

definition GetNodeHybridOverlayIfAddr :: "ipnet option \<Rightarrow> ipnet option option" where
  "GetNodeHybridOverlayIfAddr subnet =
     (case GetNodeManagementIfAddr subnet of
        None \<Rightarrow> None
      | Some None \<Rightarrow> Some None
      | Some (Some mgmt) \<Rightarrow>
          (case NextIP (IP mgmt) of
             None \<Rightarrow> None
           | Some x \<Rightarrow> Some (Some \<lparr>IP = x, Mask = Mask (the subnet)\<rparr>)))"

fun IsNodeHybridOverlayIfAddr :: "ip \<Rightarrow> ipnet option list \<Rightarrow> bool option" where
  "IsNodeHybridOverlayIfAddr x [] = Some False"
| "IsNodeHybridOverlayIfAddr x (s # ss) =
     (case GetNodeHybridOverlayIfAddr s of
        Some (Some a) \<Rightarrow> if IP_Equal x (IP a) then Some True else IsNodeHybridOverlayIfAddr x ss
      | _ \<Rightarrow> None)"

section \<open>Host and port\<close>

text \<open>\<open>net.JoinHostPort\<close> and \<open>net.SplitHostPort\<close>.\<close>

definition JoinHostPort :: "string \<Rightarrow> string \<Rightarrow> string" where
  "JoinHostPort host port =
     (if CHR '':'' \<in> set host then ''['' @ host @ '']:'' @ port else host @ '':'' @ port)"

datatype hostport_error = MissingPort | TooManyColons | MissingBracket | UnexpectedBracket

definition last_index :: "char \<Rightarrow> string \<Rightarrow> nat option" where
  "last_index c s =
     (if c \<in> set s then Some (length s - 1 - length (takeWhile (\<lambda>d. d \<noteq> c) (rev s))) else None)"

definition first_index :: "char \<Rightarrow> string \<Rightarrow> nat option" where
  "first_index c s = (if c \<in> set s then Some (length (takeWhile (\<lambda>d. d \<noteq> c) s)) else None)"

definition SplitHostPort :: "string \<Rightarrow> hostport_error + string \<times> string" where
  "SplitHostPort s =
     (case last_index (CHR '':'') s of
        None \<Rightarrow> Inl MissingPort
      | Some i \<Rightarrow>
          (let fin = (\<lambda>host j k.
             if CHR ''['' \<in> set (drop j s) then Inl UnexpectedBracket
             else if CHR '']'' \<in> set (drop k s) then Inl UnexpectedBracket
             else Inr (host, drop (i + 1) s))
           in if hd s = CHR ''['' then
                (case first_index (CHR '']'') s of
                   None \<Rightarrow> Inl MissingBracket
                 | Some e \<Rightarrow>
                     if e + 1 = length s then Inl MissingPort
                     else if e + 1 = i then fin (drop 1 (take e s)) 1 (e + 1)
                     else if s ! (e + 1) = CHR '':'' then Inl TooManyColons
                     else Inl MissingPort)
              else if CHR '':'' \<in> set (take i s) then Inl TooManyColons
              else fin (take i s) 0 0))"

definition JoinHostPortInt32 :: "string \<Rightarrow> int \<Rightarrow> string" where
  "JoinHostPortInt32 host port = JoinHostPort host (itoa port)"

text \<open>\<open>strconv.ParseInt(s, 10, 32)\<close>: an optional sign, decimal digits, and the 32-bit range.\<close>

fun all_digits :: "int \<Rightarrow> string \<Rightarrow> int option" where
  "all_digits n [] = Some n"
| "all_digits n (c # cs) =
     (case dec_value c of None \<Rightarrow> None | Some d \<Rightarrow> all_digits (n * 10 + d) cs)"

definition ParseInt32 :: "string \<Rightarrow> int option" where
  "ParseInt32 s =
     (let neg = (s \<noteq> [] \<and> hd s = CHR ''-'');
          t = (if s \<noteq> [] \<and> (hd s = CHR ''-'' \<or> hd s = CHR ''+'') then tl s else s)
      in if t = [] then None
         else case all_digits 0 t of
             None \<Rightarrow> None
           | Some n \<Rightarrow>
               let v = (if neg then - n else n)
               in if - (2 ^ 31) \<le> v \<and> v < 2 ^ 31 then Some v else None)"

datatype split_error = SplitError hostport_error | PortSyntax

definition SplitHostPortInt32 :: "string \<Rightarrow> split_error + string \<times> int" where
  "SplitHostPortInt32 vip =
     (case SplitHostPort vip of
        Inl e \<Rightarrow> Inl (SplitError e)
      | Inr (h, portRaw) \<Rightarrow>
          (case ParseInt32 portRaw of None \<Rightarrow> Inl PortSyntax | Some p \<Rightarrow> Inr (h, p)))"

section \<open>MAC addresses\<close>

text \<open>\<open>sha256\<close> stands for \<open>crypto/sha256.Sum256\<close>; the argument is the byte string hashed.\<close>

definition string_bytes :: "string \<Rightarrow> byte list" where
  "string_bytes s = map (\<lambda>c. word_of_int (of_char c)) s"

definition IPAddrToHWAddr :: "(byte list \<Rightarrow> byte list) \<Rightarrow> ip \<Rightarrow> byte list" where
  "IPAddrToHWAddr sha256 x =
     (if is4 x then [0x0A, 0x58, To4 x ! 0, To4 x ! 1, To4 x ! 2, To4 x ! 3]
      else let h = sha256 (string_bytes (IP_String x)) in [0x0A, 0x58, h ! 0, h ! 1, h ! 2, h ! 3])"

definition HWAddrToIPv6LLA :: "byte list \<Rightarrow> ip option" where
  "HWAddrToIPv6LLA hw =
     (if length hw < 6 then None
      else Some [0xfe, 0x80, 0, 0, 0, 0, 0, 0, hw ! 0 XOR 0x02, hw ! 1, hw ! 2, 0xff, 0xfe,
                 hw ! 3, hw ! 4, hw ! 5])"

text \<open>\<open>buf\<close> is what \<open>crypto/rand.Read\<close> fills in.\<close>

definition GenerateRandMAC :: "byte list \<Rightarrow> byte list" where
  "GenerateRandMAC buf = buf[0 := (buf ! 0 OR 0x02) AND 0xfe]"

section \<open>Lists of addresses\<close>

definition JoinIPs :: "ip list \<Rightarrow> string \<Rightarrow> string" where
  "JoinIPs ips sep = join sep (map IP_String ips)"

definition JoinIPNets :: "ipnet list \<Rightarrow> string \<Rightarrow> string" where
  "JoinIPNets ipnets sep = join sep (map IPNet_String ipnets)"

definition JoinIPNetIPs :: "ipnet list \<Rightarrow> string \<Rightarrow> string" where
  "JoinIPNetIPs ipnets sep = join sep (map (\<lambda>n. IP_String (IP n)) ipnets)"

definition IPFamilyName :: "bool \<Rightarrow> string" where
  "IPFamilyName isIPv6 = (if isIPv6 then ''IPv6'' else ''IPv4'')"

datatype family_error = NoIPAvailable string | NoValueAvailable string | NoStringAvailable string | ErrorNoIP

definition MatchIPFamily :: "bool \<Rightarrow> ip list \<Rightarrow> family_error + ip list" where
  "MatchIPFamily isIPv6 ips =
     (let ipAddrs = filter (\<lambda>x. IsIPv6 x = isIPv6) ips
      in if length ipAddrs > 0 then Inr ipAddrs else Inl (NoIPAvailable (IPFamilyName isIPv6)))"

fun MatchFirstIPFamily :: "bool \<Rightarrow> ip list \<Rightarrow> family_error + ip" where
  "MatchFirstIPFamily isIPv6 [] = Inl (NoIPAvailable (IPFamilyName isIPv6))"
| "MatchFirstIPFamily isIPv6 (x # xs) =
     (if IsIPv6 x = isIPv6 then Inr x else MatchFirstIPFamily isIPv6 xs)"

fun MatchFirstIPNetFamily :: "bool \<Rightarrow> ipnet list \<Rightarrow> family_error + ipnet" where
  "MatchFirstIPNetFamily isIPv6 [] = Inl (NoValueAvailable (IPFamilyName isIPv6))"
| "MatchFirstIPNetFamily isIPv6 (n # ns) =
     (if IsIPv6CIDR n = isIPv6 then Inr n else MatchFirstIPNetFamily isIPv6 ns)"

definition MatchAllIPNetFamily :: "bool \<Rightarrow> ipnet list \<Rightarrow> ipnet list" where
  "MatchAllIPNetFamily isIPv6 ipnets = filter (\<lambda>n. IsIPv6CIDR n = isIPv6) ipnets"

definition IsIPv6String :: "string \<Rightarrow> bool" where
  "IsIPv6String s \<longleftrightarrow> IPFamilyOf (ParseIPSloppy s) = IPv6"

fun MatchIPStringFamily :: "bool \<Rightarrow> string list \<Rightarrow> family_error + string" where
  "MatchIPStringFamily isIPv6 [] = Inl (NoStringAvailable (IPFamilyName isIPv6))"
| "MatchIPStringFamily isIPv6 (s # ss) =
     (if IsIPv6String s = isIPv6 then Inr s else MatchIPStringFamily isIPv6 ss)"

definition MatchAllIPStringFamily :: "bool \<Rightarrow> string list \<Rightarrow> family_error + string list" where
  "MatchAllIPStringFamily isIPv6 ipStrings =
     (let ipAddrs = filter (\<lambda>s. IsIPv6String s = isIPv6) ipStrings
      in if length ipAddrs > 0 then Inr ipAddrs else Inl ErrorNoIP)"

definition ContainsCIDR :: "ipnet \<Rightarrow> ipnet \<Rightarrow> bool" where
  "ContainsCIDR ipnet1 ipnet2 =
     (fst (Mask_Size (Mask ipnet1)) \<le> fst (Mask_Size (Mask ipnet2))
      \<and> IPNet_Contains ipnet1 (IP ipnet2))"

fun ParseIPNets :: "string list \<Rightarrow> ipnet list option" where
  "ParseIPNets [] = Some []"
| "ParseIPNets (s # ss) =
     (case ParseCIDRSloppy s of
        None \<Rightarrow> None
      | Some (x, n) \<Rightarrow> map_option ((#) (n\<lparr>IP := x\<rparr>)) (ParseIPNets ss))"

definition CopyIPNets :: "ipnet list \<Rightarrow> ipnet list" where
  "CopyIPNets ipnets = map (\<lambda>n. \<lparr>IP = IP n, Mask = Mask n\<rparr>) ipnets"

definition IPsToNetworkIPs :: "ipnet list \<Rightarrow> ipnet list" where
  "IPsToNetworkIPs ips = map (\<lambda>n. \<lparr>IP = IP_Mask (IP n) (Mask n), Mask = Mask n\<rparr>) ips"

definition StringsToIPs :: "string list \<Rightarrow> ip list" where
  "StringsToIPs ips = map ParseIP ips"

section \<open>util.go\<close>

definition GetIPFullMask :: "ip \<Rightarrow> ipmask" where
  "GetIPFullMask x = (if IsIPv6 x then CIDRMask 128 128 else CIDRMask 32 32)"

definition GetIPNetFullMask :: "string \<Rightarrow> string + ipnet" where
  "GetIPNetFullMask s =
     (let x = ParseIP s in if x = [] then Inl s else Inr \<lparr>IP = x, Mask = GetIPFullMask x\<rparr>)"

definition GetIPFullMaskString :: "string \<Rightarrow> string" where
  "GetIPFullMaskString s = (if IsIPv6 (ParseIP s) then ''/128'' else ''/32'')"

definition GetLegacyK8sMgmtIntfName :: "string \<Rightarrow> string" where
  "GetLegacyK8sMgmtIntfName nodeName =
     (if length nodeName > 11 then ''k8s-'' @ take 11 nodeName else ''k8s-'' @ nodeName)"

definition GetGatewayRouterFromNode :: "string \<Rightarrow> string" where
  "GetGatewayRouterFromNode node = ''GR_'' @ node"

definition GetWorkerFromGatewayRouter :: "string \<Rightarrow> string" where
  "GetWorkerFromGatewayRouter gr = (if take 3 gr = ''GR_'' then drop 3 gr else gr)"

text \<open>A node's \<open>status.addresses\<close>: the type and the address of each entry.\<close>

fun GetNodeInternalAddrs_loop :: "(string \<times> string) list \<Rightarrow> ip \<Rightarrow> ip \<Rightarrow> ip \<times> ip" where
  "GetNodeInternalAddrs_loop [] v4 v6 = (v4, v6)"
| "GetNodeInternalAddrs_loop ((ty, addr) # as) v4 v6 =
     (if ty = ''InternalIP'' then
        (let x = ParseIPSloppy addr
         in if \<not> IsIPv6 x \<and> v4 = [] then GetNodeInternalAddrs_loop as x v6
            else if IsIPv6 x \<and> v6 = [] then GetNodeInternalAddrs_loop as v4 x
            else GetNodeInternalAddrs_loop as v4 v6)
      else GetNodeInternalAddrs_loop as v4 v6)"

definition GetNodeInternalAddrs :: "(string \<times> string) list \<Rightarrow> ip \<times> ip" where
  "GetNodeInternalAddrs addresses = GetNodeInternalAddrs_loop addresses [] []"

definition GetHybridOverlayPortName :: "string \<Rightarrow> string" where
  "GetHybridOverlayPortName nodeName = ''int-'' @ nodeName"

text \<open>\<open>HashForOVN\<close> over FNV-1a with 64 bits.\<close>

definition fnv64a :: "byte list \<Rightarrow> u64" where
  "fnv64a bs = fold (\<lambda>b h. (h XOR ucast b) * 0x100000001b3) bs 0xcbf29ce484222325"

definition HashForOVN :: "string \<Rightarrow> string" where
  "HashForOVN s = ''a'' @ utoa (uint (fnv64a (string_bytes s)))"

definition UpdateIPsSlice :: "string list \<Rightarrow> string list \<Rightarrow> string list \<Rightarrow> string list \<times> bool" where
  "UpdateIPsSlice s oldIPs newIPs =
     (let upd = (\<lambda>entry.
        case find (\<lambda>oldIP. entry = oldIP) oldIPs of
          None \<Rightarrow> None
        | Some oldIP \<Rightarrow> find (\<lambda>newIP. IsIPv6 (ParseIP newIP) = IsIPv6 (ParseIP oldIP)) newIPs)
      in (map (\<lambda>entry. case upd entry of Some newIP \<Rightarrow> newIP | None \<Rightarrow> entry) s,
          \<exists>entry\<in>set s. upd entry \<noteq> None))"

definition FilterIPsSlice :: "string list \<Rightarrow> ipnet list \<Rightarrow> bool \<Rightarrow> string list" where
  "FilterIPsSlice s flt keep =
     filter (\<lambda>ipStr.
       let x = ParseIP ipStr
       in if (\<exists>cidr\<in>set flt. is4 x \<and> is4 (IP cidr) \<and> IPNet_Contains cidr x
                 \<or> \<not> is4 x \<and> \<not> is4 (IP cidr) \<and> IPNet_Contains cidr x)
          then keep else \<not> keep) s"

definition IsClusterIP :: "ipnet list \<Rightarrow> string \<Rightarrow> bool" where
  "IsClusterIP serviceCIDRs svcVIP =
     (let x = ParseIP svcVIP
      in \<exists>c\<in>set serviceCIDRs. is4 x \<and> is4 (IP c) \<and> IPNet_Contains c x
           \<or> \<not> is4 x \<and> \<not> is4 (IP c) \<and> IPNet_Contains c x)"

definition composePortName :: "string \<Rightarrow> string \<Rightarrow> string" where
  "composePortName podNamespace podName = podNamespace @ ''_'' @ podName"

definition GetLogicalPortName :: "string \<Rightarrow> string \<Rightarrow> string" where
  "GetLogicalPortName podNamespace podName = composePortName podNamespace podName"

definition GetIfaceId :: "string \<Rightarrow> string \<Rightarrow> string" where
  "GetIfaceId podNamespace podName = composePortName podNamespace podName"

definition SliceHasStringItem :: "string list \<Rightarrow> string \<Rightarrow> bool" where
  "SliceHasStringItem items item \<longleftrightarrow> item \<in> set items"

section \<open>Properties\<close>

text \<open>\<open>NextIP\<close> adds one to the number of the address and keeps its family, except at the top of the
  address space and at the IPv6 numbers whose successor has exactly four bytes.\<close>

lemma big_Bytes_length4: "0 \<le> k \<Longrightarrow> length (big_Bytes k) = 4 \<Longrightarrow> k < 2 ^ 32"
  using big_SetBytes_lt [of "big_Bytes k"] big_SetBytes_Bytes [of k] by simp

lemma NextIP_v4:
  assumes "is4 x" and "BigForIP x + 1 < v4_base + 2 ^ 32"
  shows "\<exists>y. NextIP x = Some y \<and> length y = 4 \<and> BigForIP y = BigForIP x + 1"
proof -
  let ?k = "big_SetBytes (To4 x) + 1"
  have k: "0 \<le> ?k" "?k < 256 ^ 4" using assms BigForIP_v4 [OF assms(1)] by auto
  note l = length_big_Bytes [OF k]
  have n: "normalizeIP x = To4 x" "length (To4 x) = 4"
    using assms(1) To4_nonempty by (auto simp: normalizeIP_def)
  obtain y where y: "NextIP x = Some y" "length y = 4" "big_SetBytes y = ?k"
  proof (cases "length (big_Bytes ?k) = 4")
    case True
    then show ?thesis using that [of "big_Bytes ?k"] n assms(1) big_SetBytes_Bytes [OF k(1)]
      by (simp add: NextIP_def intToIP_def Let_def)
  next
    case False
    then show ?thesis
      using that [of "replicate (4 - length (big_Bytes ?k)) 0 @ big_Bytes ?k"] n assms(1) l
        big_SetBytes_Bytes [OF k(1)]
      by (simp add: NextIP_def intToIP_def Let_def)
  qed
  then have "To4 y = y" by (simp add: To4_def)
  moreover have "y \<noteq> []" using y(2) by auto
  ultimately have "BigForIP y = v4_base + ?k" using BigForIP_v4 [of y] y by auto
  then show ?thesis using y BigForIP_v4 [OF assms(1)] by auto
qed

lemma NextIP_v6:
  assumes "length x = 16" and "\<not> is4 x" and "BigForIP x + 1 < 2 ^ 128" and "2 ^ 32 \<le> BigForIP x"
  shows "\<exists>y. NextIP x = Some y \<and> length y = 16 \<and> BigForIP y = BigForIP x + 1"
proof -
  have b: "BigForIP x = big_SetBytes x" using BigForIP_v6 [of x] assms by (simp add: ip_wf_def)
  let ?k = "big_SetBytes x + 1"
  have k: "0 \<le> ?k" "?k < 256 ^ 16" using assms b by auto
  note l = length_big_Bytes [OF k]
  have n4: "length (big_Bytes ?k) \<noteq> 4" using big_Bytes_length4 [OF k(1)] assms(4) b by linarith
  have "normalizeIP x = x" "x \<noteq> []" using assms by (auto simp: normalizeIP_def To16_def)
  then have n: "NextIP x = intToIP ?k True" using assms(1) by (simp add: NextIP_def)
  obtain y where y: "NextIP x = Some y" "length y = 16" "big_SetBytes y = ?k"
  proof (cases "length (big_Bytes ?k) = 16")
    case True
    then show ?thesis using that [of "big_Bytes ?k"] n big_SetBytes_Bytes [OF k(1)]
      by (simp add: intToIP_def Let_def)
  next
    case False
    then show ?thesis
      using that [of "replicate (16 - length (big_Bytes ?k)) 0 @ big_Bytes ?k"] n n4 l
        big_SetBytes_Bytes [OF k(1)]
      by (simp add: intToIP_def Let_def)
  qed
  then show ?thesis using b by (simp add: BigForIP_def To16_def)
qed

text \<open>Addresses whose \<open>NextIP\<close> behaves as an increment as long as they stay inside \<open>n\<close>.\<close>

definition steppable :: "ipnet \<Rightarrow> bool" where
  "steppable n \<longleftrightarrow> cidr_wf n \<and> (is4 (IP n) \<or> 2 ^ 32 \<le> BigForIP (IP n))"

lemma NextIP_in_net:
  assumes "steppable n" and "ip_wf x" and "IPNet_Contains n x"
    and "BigForIP x + 1 < BigForIP (IP n) + net_size n" and "BigForIP x + 1 < BigForIP (IP n) + 2 ^ 32"
  shows "\<exists>y. NextIP x = Some y \<and> ip_wf y \<and> y \<noteq> [] \<and> IPNet_Contains n y \<and> BigForIP y = BigForIP x + 1
    \<and> (is4 y \<longrightarrow> length y = 4)"
proof -
  have n: "cidr_wf n" using assms(1) by (simp add: steppable_def)
  note c = Contains_iff [OF n assms(2), THEN iffD1, OF assms(3)]
  note b = BigForIP_cidr [OF n] cidr_last [OF n]
  show ?thesis
  proof (cases "is4 x")
    case True
    then have "is4 (IP n)" using c by simp
    then have "BigForIP x + 1 < v4_base + 2 ^ 32" using b assms(4) by simp
    then obtain y where y: "NextIP x = Some y" "length y = 4" "BigForIP y = BigForIP x + 1"
      using NextIP_v4 [OF True] by blast
    then have "is4 y" "ip_wf y" by (auto simp: To4_def ip_wf_def)
    moreover from this have "IPNet_Contains n y" using Contains_iff [OF n] c y assms(4) \<open>is4 (IP n)\<close> by simp
    ultimately show ?thesis using y by auto
  next
    case False
    then have x: "length x = 16" "\<not> is4 (IP n)" using assms(2) c by (auto simp: ip_wf_def To4_def)
    then have "2 ^ 32 \<le> BigForIP x" "BigForIP x + 1 < 2 ^ 128"
      using assms(1,4) c b by (auto simp: steppable_def)
    then obtain y where y: "NextIP x = Some y" "length y = 16" "BigForIP y = BigForIP x + 1"
      using NextIP_v6 [OF x(1) False] by blast
    have "\<not> is4 y"
    proof -
      let ?k = "BigForIP y - BigForIP (IP n)"
      have "y = AddIPOffset (BigForIP (IP n)) ?k"
      proof -
        have "IP_Equal y (AddIPOffset (BigForIP (IP n)) ?k)"
          using IP_Equal_BigForIP [of y] y BigForIP_AddIPOffset [of "BigForIP (IP n)" ?k]
            BigForIP_range [of y] by (simp add: ip_wf_def)
        then show ?thesis using y(2) by (simp add: IP_Equal_def)
      qed
      moreover have "\<not> is4 (AddIPOffset (BigForIP (IP n)) ?k)"
        by (rule AddIPOffset_not4 [OF n x(2)]) (use y c assms(4,5) BigForIP_range [of y] in auto)
      ultimately show ?thesis by simp
    qed
    moreover from this have "IPNet_Contains n y" using Contains_iff [OF n, of y] c y assms(4) x(2)
      by (simp add: ip_wf_def)
    ultimately show ?thesis using y by (auto simp: ip_wf_def)
  qed
qed

lemma node_addrs:
  assumes "steppable n" and "4 \<le> net_size n"
  shows "\<exists>gw mg hy. GetNodeGatewayIfAddr (Some n) = Some (Some gw)
    \<and> GetNodeManagementIfAddr (Some n) = Some (Some mg) \<and> GetNodeHybridOverlayIfAddr (Some n) = Some (Some hy)
    \<and> BigForIP (IP gw) = BigForIP (IP n) + 1 \<and> BigForIP (IP mg) = BigForIP (IP n) + 2
    \<and> BigForIP (IP hy) = BigForIP (IP n) + 3
    \<and> list_all (\<lambda>a. IPNet_Contains n (IP a) \<and> Mask a = Mask n \<and> ip_wf (IP a)
         \<and> (is4 (IP a) \<longrightarrow> length (IP a) = 4)) [gw, mg, hy]"
proof -
  have w: "ip_wf (IP n)" "IPNet_Contains n (IP n)"
    using assms(1) Contains_iff [of n "IP n"] by (auto simp: steppable_def wf_simps)
  obtain a where a: "NextIP (IP n) = Some a" "ip_wf a" "a \<noteq> []" "IPNet_Contains n a"
      "BigForIP a = BigForIP (IP n) + 1" "is4 a \<longrightarrow> length a = 4"
    using NextIP_in_net [OF assms(1) w] assms(2) by auto
  obtain b where b: "NextIP a = Some b" "ip_wf b" "IPNet_Contains n b" "BigForIP b = BigForIP (IP n) + 2"
      "is4 b \<longrightarrow> length b = 4"
    using NextIP_in_net [OF assms(1) a(2,4)] a(5) assms(2) by auto
  obtain c where c: "NextIP b = Some c" "IPNet_Contains n c" "BigForIP c = BigForIP (IP n) + 3" "ip_wf c"
      "is4 c \<longrightarrow> length c = 4"
    using NextIP_in_net [OF assms(1) b(2,3)] b(4) assms(2) by auto
  show ?thesis
    using a b c
    by (simp add: GetNodeGatewayIfAddr_def GetNodeManagementIfAddr_def GetNodeHybridOverlayIfAddr_def)
qed

text \<open>In a canonical subnet of at least four addresses the gateway, management and
  hybrid-overlay addresses are the first three addresses after the network address, lie in the
  subnet and carry its mask.\<close>

lemma node_if_addrs:
  assumes "steppable n" and "4 \<le> net_size n"
  shows "\<exists>gw mg hy. GetNodeGatewayIfAddr (Some n) = Some (Some gw)
    \<and> GetNodeManagementIfAddr (Some n) = Some (Some mg) \<and> GetNodeHybridOverlayIfAddr (Some n) = Some (Some hy)
    \<and> BigForIP (IP gw) = BigForIP (IP n) + 1 \<and> BigForIP (IP mg) = BigForIP (IP n) + 2
    \<and> BigForIP (IP hy) = BigForIP (IP n) + 3
    \<and> list_all (\<lambda>a. IPNet_Contains n (IP a) \<and> Mask a = Mask n) [gw, mg, hy]"
  using node_addrs [OF assms] by auto

lemma net_mask_size:
  assumes "cidr_wf n"
  shows "Mask_Size (Mask n) = (int (net_ones n), int (net_bits n))"
proof -
  have m: "Mask n = cidrBytes (length (IP n)) (net_ones n)" "net_ones n \<le> 8 * length (IP n)"
      "length (IP n) = 4 \<or> length (IP n) = 16"
    using assms unfolding cidr_wf_def net_bits_def by auto
  then have "simpleMaskLength (Mask n) = int (net_ones n)"
    using simpleMaskLength_cidrBytes by simp
  moreover have "length (Mask n) = length (IP n)" using m by simp
  ultimately show ?thesis by (simp add: Mask_Size_def net_bits_def)
qed

text \<open>For canonical networks \<open>ContainsCIDR\<close> is containment of address ranges: it holds exactly
  when the families agree and every number of the second network lies in the first.\<close>

lemma ContainsCIDR_iff:
  assumes "cidr_wf a" and "cidr_wf b"
  shows "ContainsCIDR a b \<longleftrightarrow> (is4 (IP a) \<longleftrightarrow> is4 (IP b)) \<and>
    {BigForIP (IP b) ..< BigForIP (IP b) + net_size b} \<subseteq>
    {BigForIP (IP a) ..< BigForIP (IP a) + net_size a}"
proof (cases "is4 (IP a) \<longleftrightarrow> is4 (IP b)")
  case False
  have "ip_wf (IP b)" using assms(2) by (auto simp: wf_simps)
  then show ?thesis using False Contains_iff [OF assms(1)] by (auto simp: ContainsCIDR_def)
next
  case True
  let ?A = "BigForIP (IP a)" and ?B = "BigForIP (IP b)"
  have bits: "net_bits a = net_bits b"
    using True BigForIP_cidr(2,3) [OF assms(1)] BigForIP_cidr(2,3) [OF assms(2)] by auto
  have ones: "net_ones a \<le> net_bits a" "net_ones b \<le> net_bits b"
    using assms by (auto simp: cidr_wf_def)
  have w: "ip_wf (IP b)" using assms(2) by (auto simp: wf_simps)
  have C: "ContainsCIDR a b \<longleftrightarrow> net_ones a \<le> net_ones b \<and> ?A \<le> ?B \<and> ?B < ?A + net_size a"
    using net_mask_size [OF assms(1)] net_mask_size [OF assms(2)] Contains_iff [OF assms(1) w] True
    by (simp add: ContainsCIDR_def)
  have size: "net_ones a \<le> net_ones b \<Longrightarrow> net_size b dvd net_size a"
      "net_size b \<le> net_size a \<longleftrightarrow> net_ones a \<le> net_ones b"
    unfolding net_size_def bits using ones bits by (auto intro: le_imp_power_dvd)
  have dv: "net_size b dvd ?B - (if is4 (IP b) then v4_base else 0)"
      "net_size a dvd ?A - (if is4 (IP b) then v4_base else 0)"
    using cidr_aligned [OF assms(1)] cidr_aligned [OF assms(2)] BigForIP_cidr(1) [OF assms(1)]
      BigForIP_cidr(1) [OF assms(2)] True by auto
  let ?o = "if is4 (IP b) then v4_base else 0"
  have sub: "{?B ..< ?B + net_size b} \<subseteq> {?A ..< ?A + net_size a} \<longleftrightarrow> ?A \<le> ?B \<and> ?B + net_size b \<le> ?A + net_size a"
    using net_size_pos [of b] by (simp only: ivl_subset) linarith
  have "?A \<le> ?B \<and> ?B + net_size b \<le> ?A + net_size a"
    if "net_ones a \<le> net_ones b" "?A \<le> ?B" "?B < ?A + net_size a"
  proof -
    have d: "net_size b dvd net_size a" using that size by simp
    have "net_size b dvd (?A - ?o) + net_size a" using d dv(2) by (meson dvd_add dvd_trans)
    from aligned_end_le [OF dv(1) this] that(3) net_size_pos [of b] have "?B + net_size b \<le> ?A + net_size a" by auto
    then show ?thesis using that by simp
  qed
  moreover have "net_ones a \<le> net_ones b" if "?A \<le> ?B" "?B + net_size b \<le> ?A + net_size a"
    using that size(2) by linarith
  moreover have "?B < ?A + net_size a" if "?B + net_size b \<le> ?A + net_size a"
    using that net_size_pos [of b] by linarith
  ultimately show ?thesis unfolding C sub using True by blast
qed

lemma last_index_append: "c \<notin> set t \<Longrightarrow> last_index c (xs @ c # t) = Some (length xs)"
  by (simp add: last_index_def takeWhile_append)

lemma first_index_append: "c \<notin> set xs \<Longrightarrow> first_index c (xs @ c # t) = Some (length xs)"
  by (auto simp: first_index_def takeWhile_append)

lemma digit_char_other:
  assumes "0 \<le> d" and "d < 10"
  shows "digit_char d \<notin> {CHR ''-'', CHR ''+'', CHR ''['', CHR '']'', CHR '':''}"
proof -
  have "list_all (\<lambda>d. digit_char d \<notin> {CHR ''-'', CHR ''+'', CHR ''['', CHR '']'', CHR '':''}) [0..9]"
    by code_simp
  then show ?thesis using assms by (auto simp: list_all_iff)
qed

lemma all_digits_utoa:
  assumes "0 \<le> n"
  shows "all_digits 0 (utoa n) = Some n"
proof -
  have "all_digits m (map digit_char ds) = Some (foldl (\<lambda>m d. m * 10 + d) m ds)"
    if "\<forall>d\<in>set ds. 0 \<le> d \<and> d < 10" for m ds
    using that digit_char_facts(2) by (induction ds arbitrary: m) auto
  then show ?thesis using natdigits_spec [of 10 n] assms by (simp add: utoa_def)
qed

lemma set_utoa: "0 \<le> n \<Longrightarrow> set (utoa n) \<inter> {CHR ''-'', CHR ''+'', CHR ''['', CHR '']'', CHR '':''} = {}"
  using natdigits_spec [of 10 n] digit_char_other by (fastforce simp: utoa_def)

lemma ParseInt32_itoa:
  assumes "- (2 ^ 31) \<le> p" and "p < 2 ^ 31"
  shows "ParseInt32 (itoa p) = Some p"
proof (cases "p < 0")
  case True
  then show ?thesis using all_digits_utoa [of "- p"] utoa_chars(1) [of "- p"] assms
    by (simp add: ParseInt32_def itoa_def Let_def)
next
  case False
  have "hd (utoa p) \<in> set (utoa p)" using utoa_chars(1) [of p] False by simp
  then have "hd (utoa p) \<noteq> CHR ''-''" "hd (utoa p) \<noteq> CHR ''+''" using set_utoa [of p] False by auto
  then show ?thesis using False all_digits_utoa [of p] utoa_chars(1) [of p] assms
    by (simp add: ParseInt32_def itoa_def Let_def)
qed

lemma set_itoa: "set (itoa p) \<inter> {CHR ''['', CHR '']'', CHR '':''} = {}"
  using set_utoa [of p] set_utoa [of "- p"] by (auto simp: itoa_def)

lemma SplitHostPort_Join:
  assumes "set host \<inter> {CHR ''['', CHR '']''} = {}" and "set port \<inter> {CHR ''['', CHR '']'', CHR '':''} = {}"
  shows "SplitHostPort (JoinHostPort host port) = Inr (host, port)"
proof (cases "CHR '':'' \<in> set host")
  case True
  let ?s = "''['' @ host @ '']:'' @ port"
  have "last_index (CHR '':'') ?s = Some (length host + 2)"
    using last_index_append [of "CHR '':''" port "''['' @ host @ '']''"] assms(2) by simp
  moreover have "first_index (CHR '']'') ?s = Some (length host + 1)"
    using first_index_append [of "CHR '']''" "''['' @ host" "CHR '':'' # port"] assms(1) by auto
  ultimately show ?thesis using True assms
    by (auto simp: SplitHostPort_def JoinHostPort_def Let_def)
next
  case False
  let ?s = "host @ '':'' @ port"
  have "last_index (CHR '':'') ?s = Some (length host)"
    using last_index_append [of "CHR '':''" port host] assms(2) by auto
  moreover have "hd ?s \<noteq> CHR ''[''" using assms(1) by (cases host) auto
  ultimately show ?thesis using False assms
    by (auto simp: SplitHostPort_def JoinHostPort_def Let_def)
qed

text \<open>\<open>SplitHostPortInt32\<close> undoes \<open>JoinHostPortInt32\<close> for every 32-bit port and every host
  without brackets, IPv6 addresses included.\<close>

lemma SplitHostPort_roundtrip:
  assumes "set host \<inter> {CHR ''['', CHR '']''} = {}" and "- (2 ^ 31) \<le> port" and "port < 2 ^ 31"
  shows "SplitHostPortInt32 (JoinHostPortInt32 host port) = Inr (host, port)"
  using SplitHostPort_Join [OF assms(1) set_itoa [of port]] ParseInt32_itoa [OF assms(2,3)]
  by (simp add: SplitHostPortInt32_def JoinHostPortInt32_def)

text \<open>The MAC address derived from an IPv4 address starts with \<open>0a:58\<close>, is unicast and locally
  administered, and determines the address: different IPv4 addresses get different MAC addresses.\<close>

lemma IPAddrToHWAddr_v4_inj:
  assumes "is4 x" and "is4 y"
  shows "(IPAddrToHWAddr sha256 x = IPAddrToHWAddr sha256 y \<longleftrightarrow> IP_Equal x y)
    \<and> take 2 (IPAddrToHWAddr sha256 x) = [0x0A, 0x58]
    \<and> bit (hd (IPAddrToHWAddr sha256 x)) 1 \<and> \<not> bit (hd (IPAddrToHWAddr sha256 x)) 0"
proof -
  have 4: "\<exists>a b c d. To4 z = [a, b, c, d]" if "is4 z" for z
  proof -
    have "length (To4 z) = 4" using To4_nonempty [OF that] by simp
    then show ?thesis by (auto simp: eval_nat_numeral length_Suc_conv)
  qed
  have w: "ip_wf x" "ip_wf y" using assms by (auto simp: To4_def ip_wf_def split: if_splits)
  have "IP_Equal x y \<longleftrightarrow> To4 x = To4 y"
    using IP_Equal_To16 [OF w] To4_nonempty [OF assms(1)] To4_nonempty [OF assms(2)] by simp
  moreover obtain a b c d where "To4 x = [a, b, c, d]" using 4 [OF assms(1)] by blast
  moreover obtain e f g h where "To4 y = [e, f, g, h]" using 4 [OF assms(2)] by blast
  ultimately show ?thesis by (simp add: IPAddrToHWAddr_def eval_nat_numeral)
qed

lemma gateway_router_roundtrip: "GetWorkerFromGatewayRouter (GetGatewayRouterFromNode node) = node"
  by (simp add: GetWorkerFromGatewayRouter_def GetGatewayRouterFromNode_def)


end
