(* ===== verification/Subnet_IPAM.thy ===== *)
theory Subnet_IPAM
  imports IP_Range Util_Net
begin

text \<open>
  \<open>pkg/allocator/ip/subnet/allocator.go\<close>: sets of subnets by name, with one IP range per
  subnet. The state is the record \<open>allocator\<close>. A call that does not return normally (a panic of
  \<open>NextIP\<close> at the top of the address space, or a loop that does not end) is \<open>None\<close>. The lemmas
  show that \<open>AllocateIPs\<close> and \<open>AllocateNextIPs\<close> are all-or-nothing, what they allocate, that
  \<open>ReleaseIPs\<close> undoes them, and that excluded subnets are reserved completely.
\<close>

section \<open>State\<close>

record subnetInfo =
  si_subnets :: "ipnet list"
  si_ipams :: "Range list"

record allocator =
  cache :: "string \<rightharpoonup> subnetInfo"

datatype subnet_error =
    ErrSubnetNotFound string
  | NoIPAM string
  | NoIPs string
  | MultipleIPs ip string
  | SubnetCountMismatch string nat nat
  | AllocError ip_error
  | ReserveFailed ip ip_error
  | ExcludeFailed ipnet string subnet_error
  | ExcludeNotContained ipnet string

definition newIPAMAllocator :: "ipnet \<Rightarrow> Range" where
  "newIPAMAllocator cidr = NewAllocatorCIDRRange cidr NewRoundRobinAllocationMap"

definition NewAllocator :: allocator where
  "NewAllocator = \<lparr>cache = Map.empty\<rparr>"

section \<open>Adding and excluding\<close>

text \<open>The loop of \<open>reserveSubnets\<close> from address \<open>x\<close> on.\<close>

partial_function (option) reserveSubnets_loop ::
  "ipnet \<Rightarrow> ip \<Rightarrow> Range \<Rightarrow> ((subnet_error + unit) \<times> Range) option" where
  "reserveSubnets_loop subnet x ipam =
     (if \<not> IPNet_Contains subnet x then Some (Inr (), ipam)
      else if Range_Reserved x ipam
        then Option.bind (NextIP x) (\<lambda>y. reserveSubnets_loop subnet y ipam)
      else (case Range_Allocate x ipam of
          (Inl e, ipam') \<Rightarrow> Some (Inl (ReserveFailed x e), ipam')
        | (Inr _, ipam') \<Rightarrow> Option.bind (NextIP x) (\<lambda>y. reserveSubnets_loop subnet y ipam')))"

declare reserveSubnets_loop.simps [code]

definition reserveSubnets :: "ipnet \<Rightarrow> Range \<Rightarrow> ((subnet_error + unit) \<times> Range) option" where
  "reserveSubnets subnet ipam = reserveSubnets_loop subnet (IP subnet) ipam"

text \<open>The inner loop over the subnets for one excluded subnet: the flag \<open>excluded\<close> and the
  updated ranges, or the first error with the ranges as they are then.\<close>

fun exclude_loop ::
  "string \<Rightarrow> ipnet \<Rightarrow> bool \<Rightarrow> ipnet list \<Rightarrow> Range list \<Rightarrow> ((subnet_error + bool) \<times> Range list) option" where
  "exclude_loop nm ex excluded (s # ss) (r # rs) =
     Option.bind
       (if ContainsCIDR s ex then reserveSubnets ex r else Some (Inr (), r))
       (\<lambda>(res, r'). case res of
          Inl e \<Rightarrow> Some (Inl (ExcludeFailed ex nm e), r' # rs)
        | Inr _ \<Rightarrow> map_option (\<lambda>(res', rs'). (res', r' # rs')) (exclude_loop nm ex True ss rs))"
| "exclude_loop nm ex excluded _ rs = Some (Inr excluded, rs)"

fun exclude_all ::
  "string \<Rightarrow> ipnet list \<Rightarrow> ipnet list \<Rightarrow> Range list \<Rightarrow> ((subnet_error + unit) \<times> Range list) option" where
  "exclude_all nm [] ss rs = Some (Inr (), rs)"
| "exclude_all nm (ex # exs) ss rs =
     Option.bind (exclude_loop nm ex False ss rs)
       (\<lambda>(res, rs'). case res of
          Inl e \<Rightarrow> Some (Inl e, rs')
        | Inr excluded \<Rightarrow>
            if \<not> excluded then Some (Inl (ExcludeNotContained ex nm), rs')
            else exclude_all nm exs ss rs')"

definition AddOrUpdateSubnet ::
  "string \<Rightarrow> ipnet list \<Rightarrow> ipnet list \<Rightarrow> allocator \<Rightarrow> ((subnet_error + unit) \<times> allocator) option" where
  "AddOrUpdateSubnet nm subnets excludeSubnets a =
     (let ipams = map newIPAMAllocator subnets
      in map_option
           (\<lambda>(res, ipams').
              (res, a\<lparr>cache := (cache a)(nm \<mapsto> \<lparr>si_subnets = subnets, si_ipams = ipams'\<rparr>)\<rparr>))
           (exclude_all nm excludeSubnets subnets ipams))"

definition DeleteSubnet :: "string \<Rightarrow> allocator \<Rightarrow> allocator" where
  "DeleteSubnet nm a = a\<lparr>cache := (cache a)(nm := None)\<rparr>"

definition GetSubnets :: "string \<Rightarrow> allocator \<Rightarrow> subnet_error + ipnet list" where
  "GetSubnets nm a =
     (case cache a nm of None \<Rightarrow> Inl (ErrSubnetNotFound nm) | Some si \<Rightarrow> Inr (CopyIPNets (si_subnets si)))"

section \<open>Allocating and releasing\<close>

definition set_ipams :: "string \<Rightarrow> subnetInfo \<Rightarrow> Range list \<Rightarrow> allocator \<Rightarrow> allocator" where
  "set_ipams nm si rs a = a\<lparr>cache := (cache a)(nm \<mapsto> si\<lparr>si_ipams := rs\<rparr>)\<rparr>"

text \<open>\<open>AllocateUntilFull\<close>: rounds over all ranges until the error left by the last range is
  \<open>ErrFull\<close>.\<close>

fun allocate_round :: "(ip_error + ip) \<Rightarrow> Range list \<Rightarrow> (ip_error + ip) \<times> Range list" where
  "allocate_round lst [] = (lst, [])"
| "allocate_round lst (r # rs) =
     (case Range_AllocateNext 0 r of (res, r') \<Rightarrow>
        case allocate_round res rs of (res', rs') \<Rightarrow> (res', r' # rs'))"

partial_function (option) until_full :: "(ip_error + ip) \<Rightarrow> Range list \<Rightarrow> Range list option" where
  "until_full lst rs =
     (if lst = Inl ErrFull then Some rs
      else case allocate_round lst rs of (lst', rs') \<Rightarrow> until_full lst' rs')"

declare until_full.simps [code]

definition AllocateUntilFull :: "string \<Rightarrow> allocator \<Rightarrow> ((subnet_error + unit) \<times> allocator) option" where
  "AllocateUntilFull nm a =
     (case cache a nm of
        None \<Rightarrow> Some (Inl (ErrSubnetNotFound nm), a)
      | Some si \<Rightarrow>
          if si_ipams si = [] then Some (Inl (NoIPAM nm), a)
          else map_option (\<lambda>rs. (Inr (), set_ipams nm si rs a)) (until_full (Inr []) (si_ipams si)))"

text \<open>The index of the first range whose network contains the address.\<close>

fun ipam_index :: "Range list \<Rightarrow> ip \<Rightarrow> nat option" where
  "ipam_index [] x = None"
| "ipam_index (r # rs) x =
     (if IPNet_Contains (Range_CIDR r) x then Some 0 else map_option Suc (ipam_index rs x))"

text \<open>The loop of \<open>AllocateIPs\<close>; \<open>allocated\<close> maps range indices to addresses, latest first.\<close>

fun AllocateIPs_loop ::
  "string \<Rightarrow> ipnet list \<Rightarrow> (nat \<times> ipnet) list \<Rightarrow> Range list
   \<Rightarrow> (subnet_error + unit) \<times> (nat \<times> ipnet) list \<times> Range list" where
  "AllocateIPs_loop nm [] allocated rs = (Inr (), allocated, rs)"
| "AllocateIPs_loop nm (n # ns) allocated rs =
     (case ipam_index rs (IP n) of
        None \<Rightarrow> AllocateIPs_loop nm ns allocated rs
      | Some i \<Rightarrow>
          if map_of allocated i \<noteq> None then (Inl (MultipleIPs (IP n) nm), allocated, rs)
          else case Range_Allocate (IP n) (rs ! i) of
              (Inl e, r') \<Rightarrow> (Inl (AllocError e), allocated, rs[i := r'])
            | (Inr _, r') \<Rightarrow> AllocateIPs_loop nm ns ((i, n) # allocated) (rs[i := r']))"

text \<open>The deferred rollback. Go iterates over the map in any order; the indices differ, so the
  order does not matter.\<close>

definition rollback :: "(nat \<times> ipnet) list \<Rightarrow> Range list \<Rightarrow> Range list" where
  "rollback allocated rs = fold (\<lambda>(i, n) rs. rs[i := Range_Release (IP n) (rs ! i)]) allocated rs"

definition AllocateIPs :: "string \<Rightarrow> ipnet list \<Rightarrow> allocator \<Rightarrow> (subnet_error + unit) \<times> allocator" where
  "AllocateIPs nm ips a =
     (if ips = [] then (Inl (NoIPs nm), a)
      else case cache a nm of
          None \<Rightarrow> (Inl (ErrSubnetNotFound nm), a)
        | Some si \<Rightarrow>
            if si_ipams si = [] then (Inl (NoIPAM nm), a)
            else case AllocateIPs_loop nm ips [] (si_ipams si) of
                (Inl e, allocated, rs) \<Rightarrow> (Inl e, set_ipams nm si (rollback allocated rs) a)
              | (Inr _, allocated, rs) \<Rightarrow> (Inr (), set_ipams nm si rs a))"

fun AllocateNextIPs_loop ::
  "ipnet list \<Rightarrow> Range list \<Rightarrow> (ip_error + unit) \<times> ipnet list \<times> Range list" where
  "AllocateNextIPs_loop (s # ss) (r # rs) =
     (case Range_AllocateNext 0 r of
        (Inl e, r') \<Rightarrow> (Inl e, [], r' # rs)
      | (Inr x, r') \<Rightarrow>
          (case AllocateNextIPs_loop ss rs of
             (res, ns, rs') \<Rightarrow> (res, \<lparr>IP = x, Mask = Mask s\<rparr> # ns, r' # rs')))"
| "AllocateNextIPs_loop _ rs = (Inr (), [], rs)"

text \<open>The deferred release of the addresses obtained before the error: the k-th address goes back
  to the k-th range.\<close>

fun release_prefix :: "ipnet list \<Rightarrow> Range list \<Rightarrow> Range list" where
  "release_prefix (n # ns) (r # rs) = Range_Release (IP n) r # release_prefix ns rs"
| "release_prefix _ rs = rs"

definition AllocateNextIPs :: "string \<Rightarrow> allocator \<Rightarrow> (subnet_error + ipnet list) \<times> allocator" where
  "AllocateNextIPs nm a =
     (case cache a nm of
        None \<Rightarrow> (Inl (ErrSubnetNotFound nm), a)
      | Some si \<Rightarrow>
          if si_ipams si = [] then (Inl (NoIPAM nm), a)
          else if length (si_ipams si) \<noteq> length (si_subnets si)
            then (Inl (SubnetCountMismatch nm (length (si_subnets si)) (length (si_ipams si))), a)
          else case AllocateNextIPs_loop (si_subnets si) (si_ipams si) of
              (Inl e, ns, rs) \<Rightarrow> (Inl (AllocError e), set_ipams nm si (release_prefix ns rs) a)
            | (Inr _, ns, rs) \<Rightarrow> (Inr ns, set_ipams nm si rs a))"

definition ReleaseIPs_step :: "ipnet \<Rightarrow> Range list \<Rightarrow> Range list" where
  "ReleaseIPs_step n rs =
     (case ipam_index rs (IP n) of
        None \<Rightarrow> rs
      | Some i \<Rightarrow> rs[i := Range_Release (IP n) (rs ! i)])"

text \<open>A nil slice of addresses is \<open>None\<close>.\<close>

definition ReleaseIPs :: "string \<Rightarrow> ipnet list option \<Rightarrow> allocator \<Rightarrow> (subnet_error + unit) \<times> allocator" where
  "ReleaseIPs nm ips a =
     (if ips = None \<or> nm = [] then (Inr (), a)
      else case cache a nm of
          None \<Rightarrow> (Inl (ErrSubnetNotFound nm), a)
        | Some si \<Rightarrow> (Inr (), set_ipams nm si (fold ReleaseIPs_step (the ips) (si_ipams si)) a))"

text \<open>The predicate is the caller's function; its result is an argument.\<close>

definition ConditionalIPRelease ::
  "string \<Rightarrow> ipnet list option \<Rightarrow> ('e + bool) \<Rightarrow> allocator \<Rightarrow> 'e + bool" where
  "ConditionalIPRelease nm ips predicate a =
     (if ips = None \<or> nm = [] then Inr False
      else case cache a nm of
          None \<Rightarrow> Inr False
        | Some si \<Rightarrow>
            if si_ipams si = [] then Inr False
            else if list_ex (\<lambda>n. list_ex (\<lambda>r. IPNet_Contains (Range_CIDR r) (IP n) \<and> Range_Has (IP n) r)
                (si_ipams si)) (the ips)
            then predicate else Inr False)"

text \<open>\<open>order\<close> is the order in which Go iterates over the cache.\<close>

fun GetSubnetName :: "string list \<Rightarrow> ipnet list \<Rightarrow> allocator \<Rightarrow> string option" where
  "GetSubnetName order [] a = None"
| "GetSubnetName order (n # ns) a =
     (case find (\<lambda>nm. case cache a nm of
                        None \<Rightarrow> False
                      | Some si \<Rightarrow> list_ex (\<lambda>r. IPNet_Contains (Range_CIDR r) (IP n)) (si_ipams si)) order of
        Some nm \<Rightarrow> Some nm
      | None \<Rightarrow> GetSubnetName order ns a)"

text \<open>\<open>ForSubnet\<close> and the methods of the value it returns.\<close>

record IPAllocator =
  ia_name :: string
  ia_allocator :: allocator

definition ForSubnet :: "string \<Rightarrow> allocator \<Rightarrow> IPAllocator" where
  "ForSubnet nm a = \<lparr>ia_name = nm, ia_allocator = a\<rparr>"

definition named_AllocateIPs :: "ipnet list \<Rightarrow> IPAllocator \<Rightarrow> (subnet_error + unit) \<times> allocator" where
  "named_AllocateIPs ips i = AllocateIPs (ia_name i) ips (ia_allocator i)"

definition named_AllocateNextIPs :: "IPAllocator \<Rightarrow> (subnet_error + ipnet list) \<times> allocator" where
  "named_AllocateNextIPs i = AllocateNextIPs (ia_name i) (ia_allocator i)"

definition named_ReleaseIPs :: "ipnet list option \<Rightarrow> IPAllocator \<Rightarrow> (subnet_error + unit) \<times> allocator" where
  "named_ReleaseIPs ips i = ReleaseIPs (ia_name i) ips (ia_allocator i)"

section \<open>Invariant\<close>

definition ipams_wf :: "subnetInfo \<Rightarrow> bool" where
  "ipams_wf si \<longleftrightarrow> list_all2 (\<lambda>s r. range_wf r \<and> rg_net r = s) (si_subnets si) (si_ipams si)"

definition ipam_wf :: "allocator \<Rightarrow> bool" where
  "ipam_wf a \<longleftrightarrow> (\<forall>nm si. cache a nm = Some si \<longrightarrow> ipams_wf si)"

abbreviation held_by :: "Range list \<Rightarrow> ip set list" where
  "held_by rs \<equiv> map range_held rs"

text \<open>Two lists of ranges over the same networks, both well formed.\<close>

definition same_nets :: "Range list \<Rightarrow> Range list \<Rightarrow> bool" where
  "same_nets rs rs' \<longleftrightarrow> list_all2 (\<lambda>r r'. range_wf r' \<and> rg_net r' = rg_net r) rs rs'"

lemma same_nets_nth:
  "same_nets rs rs' \<longleftrightarrow> length rs' = length rs \<and> (\<forall>i<length rs. range_wf (rs' ! i) \<and> rg_net (rs' ! i) = rg_net (rs ! i))"
  by (auto simp: same_nets_def list_all2_conv_all_nth)

lemma ipams_wf_nth:
  "ipams_wf si \<longleftrightarrow> length (si_ipams si) = length (si_subnets si)
     \<and> (\<forall>i<length (si_ipams si). range_wf (si_ipams si ! i) \<and> rg_net (si_ipams si ! i) = si_subnets si ! i)"
  by (auto simp: ipams_wf_def list_all2_conv_all_nth)

lemma ipams_wf_same: "ipams_wf si \<Longrightarrow> same_nets (si_ipams si) rs \<Longrightarrow> ipams_wf (si\<lparr>si_ipams := rs\<rparr>)"
  by (auto simp: ipams_wf_nth same_nets_nth)

lemma ipams_wf_refl: "ipams_wf si \<Longrightarrow> same_nets (si_ipams si) (si_ipams si)"
  by (auto simp: ipams_wf_nth same_nets_nth)

lemma ipam_wf_set_ipams:
  "ipam_wf a \<Longrightarrow> cache a nm = Some si \<Longrightarrow> same_nets (si_ipams si) rs \<Longrightarrow> ipam_wf (set_ipams nm si rs a)"
  using ipams_wf_same [of si rs] by (auto simp: ipam_wf_def set_ipams_def)

lemma ipam_index_same: "map rg_net rs = map rg_net rs' \<Longrightarrow> ipam_index rs x = ipam_index rs' x"
proof (induction rs arbitrary: rs')
  case (Cons r rs)
  then obtain r' rs'' where "rs' = r' # rs''" "rg_net r = rg_net r'" "map rg_net rs = map rg_net rs''"
    by (cases rs') auto
  then show ?case using Cons.IH [of rs''] by (simp add: Range_CIDR_def)
qed simp

lemma ipam_index_Some:
  "ipam_index rs x = Some i \<Longrightarrow> i < length rs \<and> IPNet_Contains (rg_net (rs ! i)) x"
  by (induction rs arbitrary: i) (auto simp: Range_CIDR_def split: if_splits)

lemma same_nets_index: "same_nets rs rs' \<Longrightarrow> ipam_index rs' x = ipam_index rs x"
  by (rule ipam_index_same) (auto simp: same_nets_nth list_eq_iff_nth_eq)

section \<open>AllocateIPs is all or nothing\<close>

text \<open>The relation between the ranges before the loop and those at some point of it: a range whose
  index is in \<open>allocated\<close> holds one more address, which releasing gives back; the others are as
  they were.\<close>

definition took :: "ipnet \<Rightarrow> Range \<Rightarrow> Range \<Rightarrow> bool" where
  "took n r r' \<longleftrightarrow> range_wf (Range_Release (IP n) r') \<and> range_held (Range_Release (IP n) r') = range_held r
     \<and> (\<exists>y\<in>range_items r - range_held r. IP_Equal (IP n) y \<and> range_held r' = insert y (range_held r))"

definition tracks :: "(nat \<times> ipnet) list \<Rightarrow> Range list \<Rightarrow> Range list \<Rightarrow> bool" where
  "tracks allocated rs0 rs \<longleftrightarrow> same_nets rs0 rs \<and> distinct (map fst allocated)
     \<and> (\<forall>i<length rs0. case map_of allocated i of
          None \<Rightarrow> rs ! i = rs0 ! i | Some n \<Rightarrow> took n (rs0 ! i) (rs ! i))"

lemma rollback_nth:
  assumes "distinct (map fst allocated)"
  shows "length (rollback allocated rs) = length rs \<and>
    (i < length rs \<longrightarrow> rollback allocated rs ! i =
       (case map_of allocated i of None \<Rightarrow> rs ! i | Some n \<Rightarrow> Range_Release (IP n) (rs ! i)))"
  using assms
proof (induction allocated arbitrary: rs)
  case Nil
  then show ?case by (simp add: rollback_def)
next
  case (Cons p allocated)
  obtain j n where p: "p = (j, n)" by fastforce
  have "map_of allocated j = None" using Cons.prems p by (auto simp: map_of_eq_None_iff)
  then show ?case
    using Cons.IH [of "rs[j := Range_Release (IP n) (rs ! j)]"] Cons.prems p
    by (auto simp: rollback_def nth_list_update split: option.splits)
qed

lemma tracks_rollback:
  assumes "tracks allocated rs0 rs"
  shows "same_nets rs0 (rollback allocated rs) \<and> held_by (rollback allocated rs) = held_by rs0"
proof -
  note rb = rollback_nth [of allocated rs]
  have d: "distinct (map fst allocated)" and l: "length rs = length rs0"
    using assms by (auto simp: tracks_def same_nets_nth)
  have "range_wf (rollback allocated rs ! i) \<and> rg_net (rollback allocated rs ! i) = rg_net (rs0 ! i)
      \<and> range_held (rollback allocated rs ! i) = range_held (rs0 ! i)" if "i < length rs0" for i
    using rb [OF d, of i] assms that l
    by (cases "map_of allocated i") (auto simp: tracks_def same_nets_nth took_def split: option.splits)
  then show ?thesis using rb [OF d] l by (auto simp: same_nets_nth list_eq_iff_nth_eq)
qed

lemma AllocateIPs_loop_tracks:
  assumes "tracks allocated rs0 rs" and "\<forall>n\<in>set ns. ip_wf (IP n)"
    and "AllocateIPs_loop nm ns allocated rs = (res, allocated', rs')"
  shows "tracks allocated' rs0 rs' \<and>
    (res = Inr () \<longrightarrow>
       map_of allocated \<subseteq>\<^sub>m map_of allocated' \<and>
       (\<forall>n\<in>set ns. \<forall>i. ipam_index rs0 (IP n) = Some i \<longrightarrow> map_of allocated' i = Some n) \<and>
       (\<forall>i n. map_of allocated' i = Some n \<longrightarrow> map_of allocated i = Some n \<or> n \<in> set ns))"
  using assms
proof (induction nm ns allocated rs rule: AllocateIPs_loop.induct)
  case (1 nm allocated rs)
  then show ?case by auto
next
  case (2 nm n ns allocated rs)
  have sn: "same_nets rs0 rs" using "2.prems"(1) by (simp add: tracks_def)
  note idx = same_nets_index [OF sn, of "IP n"]
  show ?case
  proof (cases "ipam_index rs (IP n)")
    case None
    then show ?thesis using "2.IH"(1) "2.prems" idx by auto
  next
    case (Some i)
    have i: "i < length rs" "length rs = length rs0" using ipam_index_Some [OF Some] sn by (auto simp: same_nets_nth)
    then have wf: "range_wf (rs ! i)" "rg_net (rs ! i) = rg_net (rs0 ! i)" using sn by (auto simp: same_nets_nth)
    show ?thesis
    proof (cases "map_of allocated i \<noteq> None")
      case True
      then show ?thesis using "2.prems" Some by auto
    next
      case False
      obtain r r' where A: "Range_Allocate (IP n) (rs ! i) = (r, r')" by fastforce
      have nw: "ip_wf (IP n)" using "2.prems"(2) by simp
      have eq: "rs ! i = rs0 ! i" using "2.prems"(1) False i by (auto simp: tracks_def split: option.splits)
      show ?thesis
      proof (cases r)
        case (Inl e)
        then have "r' = rs ! i" using Range_Allocate_Inl [OF wf(1) nw] A by simp
        then show ?thesis using "2.prems" Some False A Inl by auto
      next
        case (Inr u)
        note R = Range_Allocate_Inr [OF wf(1) nw, of u r'] 
        have net: "rg_net r' = rg_net (rs ! i)" using Range_ops_net(1) [of "IP n" "rs ! i"] A by simp
        have "took n (rs0 ! i) r'" and "range_wf r'" using R A Inr eq by (auto simp: took_def)
        then have T: "tracks ((i, n) # allocated) rs0 (rs[i := r'])"
          using "2.prems"(1) False i net wf eq
          by (auto simp: tracks_def same_nets_nth nth_list_update map_of_eq_None_iff split: option.splits)
        have L: "AllocateIPs_loop nm ns ((i, n) # allocated) (rs[i := r']) = (res, allocated', rs')"
          using "2.prems"(3) Some False A Inr by simp
        have "\<forall>n\<in>set ns. ip_wf (IP n)" using "2.prems"(2) by simp
        from "2.IH"(2) [OF Some False A [symmetric] Inr T this L]
        have IH: "tracks allocated' rs0 rs' \<and>
          (res = Inr () \<longrightarrow> map_of ((i, n) # allocated) \<subseteq>\<^sub>m map_of allocated' \<and>
           (\<forall>n\<in>set ns. \<forall>i. ipam_index rs0 (IP n) = Some i \<longrightarrow> map_of allocated' i = Some n) \<and>
           (\<forall>j k. map_of allocated' j = Some k \<longrightarrow> map_of ((i, n) # allocated) j = Some k \<or> k \<in> set ns))"
          .
        moreover have "map_of allocated \<subseteq>\<^sub>m map_of ((i, n) # allocated)"
          using False by (auto simp: map_le_def)
        ultimately show ?thesis using Some idx
          by (auto simp: map_le_def split: if_splits)
      qed
    qed
  qed
qed

lemma AllocateIPs_effect:
  assumes "ipam_wf a" and "cache a nm = Some si" and "\<forall>n\<in>set ips. ip_wf (IP n)"
    and "AllocateIPs nm ips a = (res, a')"
  shows "ipam_wf a' \<and> (\<forall>k. k \<noteq> nm \<longrightarrow> cache a' k = cache a k) \<and>
    (\<exists>si'. cache a' nm = Some si' \<and> si_subnets si' = si_subnets si \<and>
      (case res of
         Inl e \<Rightarrow> held_by (si_ipams si') = held_by (si_ipams si)
       | Inr _ \<Rightarrow> (\<forall>i<length (si_ipams si). 
           (\<forall>n\<in>set ips. ipam_index (si_ipams si) (IP n) = Some i \<longrightarrow> took n (si_ipams si ! i) (si_ipams si' ! i))
           \<and> (si_ipams si' ! i = si_ipams si ! i \<or> (\<exists>n\<in>set ips. took n (si_ipams si ! i) (si_ipams si' ! i))))))"
proof -
  have wf: "ipams_wf si" using assms(1,2) by (auto simp: ipam_wf_def)
  show ?thesis
  proof (cases "ips = [] \<or> si_ipams si = []")
    case True
    then have "a' = a \<and> (\<exists>e. res = Inl e)"
      using assms(2,4) by (auto simp: AllocateIPs_def split: if_splits)
    then show ?thesis using assms(1,2) by auto
  next
    case False
    obtain r al rs where L: "AllocateIPs_loop nm ips [] (si_ipams si) = (r, al, rs)" by (metis prod_cases3)
    have "tracks [] (si_ipams si) (si_ipams si)" using ipams_wf_refl [OF wf] by (simp add: tracks_def)
    note T = AllocateIPs_loop_tracks [OF this assms(3) L]
    note rb = tracks_rollback [OF conjunct1 [OF T]]
    show ?thesis
    proof (cases r)
      case (Inl e)
      then have "res = Inl e" "a' = set_ipams nm si (rollback al rs) a"
        using assms(2,4) False L by (auto simp: AllocateIPs_def)
      then show ?thesis using rb ipam_wf_set_ipams [OF assms(1,2)] by (auto simp: set_ipams_def)
    next
      case (Inr u)
      then have a': "res = Inr ()" "a' = set_ipams nm si rs a"
        using assms(2,4) False L by (auto simp: AllocateIPs_def)
      have t: "same_nets (si_ipams si) rs"
          "\<forall>i<length (si_ipams si). case map_of al i of None \<Rightarrow> rs ! i = si_ipams si ! i
             | Some n \<Rightarrow> took n (si_ipams si ! i) (rs ! i)"
          "\<forall>n\<in>set ips. \<forall>i. ipam_index (si_ipams si) (IP n) = Some i \<longrightarrow> map_of al i = Some n"
          "\<forall>i n. map_of al i = Some n \<longrightarrow> n \<in> set ips"
        using T Inr by (auto simp: tracks_def)
      have "(\<forall>n\<in>set ips. ipam_index (si_ipams si) (IP n) = Some i \<longrightarrow> took n (si_ipams si ! i) (rs ! i))
          \<and> (rs ! i = si_ipams si ! i \<or> (\<exists>n\<in>set ips. took n (si_ipams si ! i) (rs ! i)))"
        if "i < length (si_ipams si)" for i
      proof (cases "map_of al i")
        case None
        then have "rs ! i = si_ipams si ! i" using t(2) that by auto
        then show ?thesis using None t(3) by (metis option.distinct(1))
      next
        case (Some k)
        then have "took k (si_ipams si ! i) (rs ! i)" "k \<in> set ips" using t(2,4) that by auto
        then show ?thesis using Some t(3) by (metis option.inject)
      qed
      then show ?thesis using a' ipam_wf_set_ipams [OF assms(1,2) t(1)]
        by (simp add: set_ipams_def)
    qed
  qed
qed

text \<open>C14: \<open>AllocateIPs\<close> is all or nothing. On success every requested address that lies in one of
  the subnets is newly allocated in the first subnet that contains it, nothing else changes, and no
  subnet gives two addresses; on an error (an address taken or out of the usable range, or two
  addresses of one subnet) no address stays allocated: every range holds exactly what it held.\<close>

theorem AllocateIPs_all_or_nothing:
  assumes "ipam_wf a" and "cache a nm = Some si" and "\<forall>n\<in>set ips. ip_wf (IP n)"
    and "AllocateIPs nm ips a = (res, a')"
  shows "ipam_wf a' \<and> (\<forall>k. k \<noteq> nm \<longrightarrow> cache a' k = cache a k) \<and>
    (\<exists>si'. cache a' nm = Some si' \<and> si_subnets si' = si_subnets si \<and>
      (case res of
         Inl e \<Rightarrow> held_by (si_ipams si') = held_by (si_ipams si)
       | Inr _ \<Rightarrow> (\<forall>i<length (si_ipams si). 
           (\<forall>n\<in>set ips. ipam_index (si_ipams si) (IP n) = Some i \<longrightarrow> took n (si_ipams si ! i) (si_ipams si' ! i))
           \<and> (si_ipams si' ! i = si_ipams si ! i \<or> (\<exists>n\<in>set ips. took n (si_ipams si ! i) (si_ipams si' ! i))))))"
  by (rule AllocateIPs_effect [OF assms])

lemma range_Allocate_took:
  "range_wf r \<Longrightarrow> ip_wf (IP n) \<Longrightarrow> Range_Allocate (IP n) r = (Inr u, r') \<Longrightarrow> took n r r'"
  using Range_Allocate_Inr [of r "IP n" u r'] by (auto simp: took_def)

section \<open>AllocateNextIPs\<close>

lemma Range_AllocateNext_took:
  assumes "range_wf r" and "Range_AllocateNext rnd r = (Inr x, r')"
  shows "took \<lparr>IP = x, Mask = m\<rparr> r r' \<and> range_wf r' \<and> rg_net r' = rg_net r \<and> ip_wf x
    \<and> IPNet_Contains (rg_net r) x \<and> x \<in> range_items r - range_held r"
proof -
  note eff = Range_AllocateNext_Inr [OF assms]
  then obtain k where k: "k < nat (rg_max r)" "x = range_ip r k" by (auto simp: range_items_def)
  have w: "ip_wf x" using eff range_items_wf by blast
  have same: "rg_net r' = rg_net r" "rg_base r' = rg_base r" "rg_max r' = rg_max r"
    using assms(2) by (auto simp: Range_AllocateNext_def split: prod.splits option.splits)
  then have ip: "range_ip r' = range_ip r" by (simp add: range_ip_def fun_eq_iff)
  have "Range_contains x r' = (True, int k)"
    using range_ip_value(4) [of r' k] eff same k ip by simp
  then have "range_wf (Range_Release x r') \<and> range_held (Range_Release x r') = range_held r"
    using Range_Release_eff [of r' x] eff w k ip by auto
  moreover have "IP_Equal x x" by (simp add: IP_Equal_def)
  ultimately show ?thesis
    using eff w same range_ip_value(3) [OF assms(1) k(1)] k(2) by (auto simp: took_def)
qed

lemma AllocateNextIPs_loop_spec:
  assumes "list_all2 (\<lambda>s r. range_wf r \<and> rg_net r = s) ss rs"
    and "AllocateNextIPs_loop ss rs = (res, ns, rs')"
  shows "(case res of
      Inr _ \<Rightarrow> same_nets rs rs' \<and> length ns = length ss \<and>
        (\<forall>i<length ss. took (ns ! i) (rs ! i) (rs' ! i) \<and> Mask (ns ! i) = Mask (ss ! i)
           \<and> ip_wf (IP (ns ! i)) \<and> IPNet_Contains (ss ! i) (IP (ns ! i))
           \<and> IP (ns ! i) \<in> range_items (rs ! i) - range_held (rs ! i))
    | Inl e \<Rightarrow> same_nets rs (release_prefix ns rs') \<and> held_by (release_prefix ns rs') = held_by rs
        \<and> e = ErrFull \<and> (\<exists>r\<in>set rs. range_held r = range_items r))"
  using assms
proof (induction ss rs arbitrary: res ns rs' rule: list_all2_induct)
  case Nil
  then show ?case by (auto simp: same_nets_def)
next
  case (Cons s ss r rs)
  obtain x r' where A: "Range_AllocateNext 0 r = (x, r')" by fastforce
  show ?case
  proof (cases x)
    case (Inl e)
    then have "r' = r" "e = ErrFull" "range_held r = range_items r"
      using Range_AllocateNext_Inl [of r 0 e r'] A Cons.hyps by auto
    moreover have "res = Inl e" "ns = []" "rs' = r' # rs" using Cons.prems A Inl by auto
    moreover have "same_nets rs rs" using Cons.hyps(2)
      by (auto simp: same_nets_nth list_all2_conv_all_nth)
    ultimately show ?thesis using Cons.hyps(1) by (simp add: same_nets_def)
  next
    case (Inr y)
    note R = Range_AllocateNext_took [of r 0 y r' "Mask s"]
    obtain res1 ns1 rs1 where L: "AllocateNextIPs_loop ss rs = (res1, ns1, rs1)" by (metis prod_cases3)
    have e: "res = res1" "ns = \<lparr>IP = y, Mask = Mask s\<rparr> # ns1" "rs' = r' # rs1"
      using Cons.prems A Inr L by auto
    note IH = Cons.IH [OF L]
    show ?thesis
    proof (cases res1)
      case (Inl e')
      then show ?thesis using IH e R A Inr Cons.hyps(1) by (auto simp: same_nets_def took_def)
    next
      case (Inr u)
      have "same_nets (r # rs) (r' # rs1)" using IH Inr R A \<open>x = Inr y\<close> Cons.hyps(1)
        by (simp add: same_nets_def)
      moreover have "took (ns ! i) ((r # rs) ! i) (rs' ! i) \<and> Mask (ns ! i) = Mask ((s # ss) ! i)
           \<and> ip_wf (IP (ns ! i)) \<and> IPNet_Contains ((s # ss) ! i) (IP (ns ! i))
           \<and> IP (ns ! i) \<in> range_items ((r # rs) ! i) - range_held ((r # rs) ! i)"
        if "i < length (s # ss)" for i
        using that IH Inr R A \<open>x = Inr y\<close> Cons.hyps(1) e by (cases i) auto
      ultimately show ?thesis using IH Inr e by auto
    qed
  qed
qed

lemma AllocateNextIPs_effect:
  assumes "ipam_wf a" and "cache a nm = Some si" and "si_ipams si \<noteq> []"
  shows "case AllocateNextIPs nm a of (res, a') \<Rightarrow> ipam_wf a' \<and>
    (\<exists>si'. cache a' = (cache a)(nm \<mapsto> si') \<and> si_subnets si' = si_subnets si \<and>
      (case res of
         Inl e \<Rightarrow> e = AllocError ErrFull \<and> held_by (si_ipams si') = held_by (si_ipams si)
           \<and> (\<exists>r\<in>set (si_ipams si). range_held r = range_items r)
       | Inr ns \<Rightarrow> length ns = length (si_subnets si) \<and>
           (\<forall>i<length ns. Mask (ns ! i) = Mask (si_subnets si ! i)
              \<and> IPNet_Contains (si_subnets si ! i) (IP (ns ! i))
              \<and> IP (ns ! i) \<notin> range_held (si_ipams si ! i)
              \<and> range_held (si_ipams si' ! i) = insert (IP (ns ! i)) (range_held (si_ipams si ! i)))))"
proof -
  have wf: "ipams_wf si" using assms(1,2) by (auto simp: ipam_wf_def)
  then have len: "length (si_ipams si) = length (si_subnets si)" by (simp add: ipams_wf_nth)
  obtain r ns rs where L: "AllocateNextIPs_loop (si_subnets si) (si_ipams si) = (r, ns, rs)"
    by (metis prod_cases3)
  note S = AllocateNextIPs_loop_spec [OF wf [unfolded ipams_wf_def] L]
  show ?thesis
  proof (cases r)
    case (Inl e)
    then have "AllocateNextIPs nm a = (Inl (AllocError e), set_ipams nm si (release_prefix ns rs) a)"
      using assms(2,3) len L by (simp add: AllocateNextIPs_def)
    then show ?thesis using S Inl ipam_wf_set_ipams [OF assms(1,2)] by (auto simp: set_ipams_def)
  next
    case (Inr u)
    then have e: "AllocateNextIPs nm a = (Inr ns, set_ipams nm si rs a)"
      using assms(2,3) len L by (simp add: AllocateNextIPs_def)
    have "range_held (rs ! i) = insert (IP (ns ! i)) (range_held (si_ipams si ! i))" if "i < length ns" for i
    proof -
      have "i < length (si_subnets si)" using S Inr that by simp
      then have t: "range_wf (si_ipams si ! i)" "took (ns ! i) (si_ipams si ! i) (rs ! i)"
          "IP (ns ! i) \<in> range_items (si_ipams si ! i)" "ip_wf (IP (ns ! i))"
        using S Inr wf len by (auto simp: ipams_wf_nth)
      from t(2) obtain y where y: "y \<in> range_items (si_ipams si ! i)" "IP_Equal (IP (ns ! i)) y"
          "range_held (rs ! i) = insert y (range_held (si_ipams si ! i))" by (auto simp: took_def)
      then have "y = IP (ns ! i)" using t(3) by (auto simp: range_items_def range_ip_def IP_Equal_def)
      then show ?thesis using y by simp
    qed
    then show ?thesis using S Inr e ipam_wf_set_ipams [OF assms(1,2)] by (auto simp: set_ipams_def)
  qed
qed

text \<open>C40: \<open>AllocateNextIPs\<close> on success returns one address per subnet, in order, each with its
  subnet's mask, lying in the subnet and not allocated before; exactly these are newly allocated.
  On an error some subnet is full and nothing stays allocated.\<close>

theorem AllocateNextIPs_correct:
  assumes "ipam_wf a" and "cache a nm = Some si" and "si_ipams si \<noteq> []"
  shows "case AllocateNextIPs nm a of (res, a') \<Rightarrow> ipam_wf a' \<and>
    (\<exists>si'. cache a' = (cache a)(nm \<mapsto> si') \<and> si_subnets si' = si_subnets si \<and>
      (case res of
         Inl e \<Rightarrow> e = AllocError ErrFull \<and> held_by (si_ipams si') = held_by (si_ipams si)
           \<and> (\<exists>r\<in>set (si_ipams si). range_held r = range_items r)
       | Inr ns \<Rightarrow> length ns = length (si_subnets si) \<and>
           (\<forall>i<length ns. Mask (ns ! i) = Mask (si_subnets si ! i)
              \<and> IPNet_Contains (si_subnets si ! i) (IP (ns ! i))
              \<and> IP (ns ! i) \<notin> range_held (si_ipams si ! i)
              \<and> range_held (si_ipams si' ! i) = insert (IP (ns ! i)) (range_held (si_ipams si ! i)))))"
  by (rule AllocateNextIPs_effect [OF assms])

text \<open>A one-subnet allocator used by the witnesses.\<close>

definition example_alloc :: allocator where
  "example_alloc = \<lparr>cache = [''s'' \<mapsto> \<lparr>si_subnets = [example_net], si_ipams = [newIPAMAllocator example_net]\<rparr>]\<rparr>"

lemma newIPAMAllocator_wf:
  assumes "cidr_wf n" and "net_size n \<le> 2 ^ 64"
  shows "range_wf (newIPAMAllocator n) \<and> rg_net (newIPAMAllocator n) = n \<and> range_held (newIPAMAllocator n) = {}
    \<and> rg_max (newIPAMAllocator n) = usable n"
  using New_range_wf [OF assms, of NewRoundRobinAllocationMap] New_bitmap_factory(2) New_max [OF assms(1)]
  by (simp add: newIPAMAllocator_def) (simp add: NewAllocatorCIDRRange_def Let_def)

lemma example_alloc_wf:
  "ipam_wf example_alloc"
  "AddOrUpdateSubnet ''s'' [example_net] [] NewAllocator = Some (Inr (), example_alloc)"
  using newIPAMAllocator_wf [of example_net] example_net_wf
  by (auto simp: example_alloc_def ipam_wf_def ipams_wf_def AddOrUpdateSubnet_def NewAllocator_def)

theorem AllocateIPs_all_or_nothing_witness:
  "\<exists>si'. cache (snd (AllocateIPs ''s'' [\<lparr>IP = [10, 1, 2, 1], Mask = []\<rparr>, \<lparr>IP = [10, 1, 2, 2], Mask = []\<rparr>]
       example_alloc)) ''s'' = Some si' \<and> held_by (si_ipams si') = [{}]"
proof -
  let ?ips = "[\<lparr>IP = [10, 1, 2, 1], Mask = []\<rparr>, \<lparr>IP = [10, 1, 2, 2], Mask = []\<rparr>]"
  have "fst (AllocateIPs ''s'' ?ips example_alloc) = Inl (MultipleIPs [10, 1, 2, 2] ''s'')"
    by code_simp
  then have e: "AllocateIPs ''s'' ?ips example_alloc =
      (Inl (MultipleIPs [10, 1, 2, 2] ''s''), snd (AllocateIPs ''s'' ?ips example_alloc))"
    by (simp add: prod_eq_iff)
  have c: "cache example_alloc ''s'' = Some \<lparr>si_subnets = [example_net], si_ipams = [newIPAMAllocator example_net]\<rparr>"
    by (simp add: example_alloc_def)
  have "\<forall>n\<in>set ?ips. ip_wf (IP n)" by (simp add: ip_wf_def)
  from AllocateIPs_all_or_nothing [OF example_alloc_wf(1) c this e]
  show ?thesis using newIPAMAllocator_wf [of example_net] example_net_wf by auto
qed

theorem AllocateNextIPs_correct_witness:
  "case AllocateNextIPs ''s'' example_alloc of (res, a') \<Rightarrow>
     (case res of Inl e \<Rightarrow> False | Inr ns \<Rightarrow> length ns = 1 \<and> IPNet_Contains example_net (IP (ns ! 0)))"
proof -
  have c: "cache example_alloc ''s'' = Some \<lparr>si_subnets = [example_net], si_ipams = [newIPAMAllocator example_net]\<rparr>"
    by (simp add: example_alloc_def)
  have "fst (AllocateNextIPs ''s'' example_alloc) =
      Inr [\<lparr>IP = [0, 0, 0, 0, 0, 0, 0, 0, 0, 0, 255, 255, 10, 1, 2, 1], Mask = [255, 255, 255, 248]\<rparr>]"
    by code_simp
  with AllocateNextIPs_correct [OF example_alloc_wf(1) c] show ?thesis by (auto split: prod.splits)
qed

section \<open>Releasing\<close>

lemma ReleaseIPs_fold:
  assumes "\<forall>(i, n)\<in>set ps. ipam_index rs (IP n) = Some i"
  shows "fold ReleaseIPs_step (map snd ps) rs = rollback ps rs"
  using assms
proof (induction ps arbitrary: rs)
  case Nil
  then show ?case by (simp add: rollback_def)
next
  case (Cons p ps)
  obtain i n where p: "p = (i, n)" by fastforce
  have "map rg_net (rs[i := Range_Release (IP n) (rs ! i)]) = map rg_net rs"
    by (cases "i < length rs") (auto simp: list_eq_iff_nth_eq nth_list_update)
  then have "ipam_index (rs[i := Range_Release (IP n) (rs ! i)]) x = ipam_index rs x" for x
    by (rule ipam_index_same)
  then show ?case using Cons p by (simp add: ReleaseIPs_step_def rollback_def split: prod.splits)
qed

lemma ipam_index_disjoint:
  assumes "i < length rs" and "IPNet_Contains (rg_net (rs ! i)) x"
    and "\<forall>j<i. \<not> IPNet_Contains (rg_net (rs ! j)) x"
  shows "ipam_index rs x = Some i"
  using assms
proof (induction rs arbitrary: i)
  case (Cons r rs)
  show ?case
  proof (cases i)
    case 0
    then show ?thesis using Cons.prems by (simp add: Range_CIDR_def)
  next
    case (Suc j)
    have "\<not> IPNet_Contains (rg_net r) x" using Cons.prems(3) Suc by force
    moreover have "ipam_index rs x = Some j"
      by (rule Cons.IH) (use Cons.prems Suc in \<open>auto simp: Suc_less_eq2\<close>)
    ultimately show ?thesis using Suc by (simp add: Range_CIDR_def)
  qed
qed simp

lemma ReleaseIPs_AllocateNextIPs:
  assumes "ipam_wf a" and "cache a nm = Some si" and "nm \<noteq> []" and "si_ipams si \<noteq> []"
    and "\<And>x i j. i < j \<Longrightarrow> j < length (si_subnets si) \<Longrightarrow> IPNet_Contains (si_subnets si ! i) x \<Longrightarrow>
      \<not> IPNet_Contains (si_subnets si ! j) x"
    and "AllocateNextIPs nm a = (Inr ns, a')"
  shows "case ReleaseIPs nm (Some ns) a' of (res, a'') \<Rightarrow> res = Inr () \<and> ipam_wf a'' \<and>
    (\<exists>si'. cache a'' = (cache a)(nm \<mapsto> si') \<and> si_subnets si' = si_subnets si
       \<and> held_by (si_ipams si') = held_by (si_ipams si))"
proof -
  have wf: "ipams_wf si" using assms(1,2) by (auto simp: ipam_wf_def)
  then have len: "length (si_ipams si) = length (si_subnets si)" by (simp add: ipams_wf_nth)
  obtain r ns' rs where L: "AllocateNextIPs_loop (si_subnets si) (si_ipams si) = (r, ns', rs)"
    by (metis prod_cases3)
  have r: "r = Inr ()" "ns' = ns" "a' = set_ipams nm si rs a"
    using assms(2,4,6) len L by (auto simp: AllocateNextIPs_def split: sum.splits)
  have S: "same_nets (si_ipams si) rs" "length ns = length (si_subnets si)"
      "\<forall>i<length (si_subnets si). took (ns ! i) (si_ipams si ! i) (rs ! i)
        \<and> IPNet_Contains (si_subnets si ! i) (IP (ns ! i))"
    using AllocateNextIPs_loop_spec [OF wf [unfolded ipams_wf_def] L] r by auto
  let ?ps = "zip [0..<length ns] ns"
  have mo: "map_of ?ps i = Some (ns ! i)" if "i < length ns" for i
    using that map_of_zip_nth [of "[0..<length ns]" ns i] by simp
  have T: "tracks ?ps (si_ipams si) rs"
  proof -
    have "case map_of ?ps i of None \<Rightarrow> rs ! i = si_ipams si ! i | Some n \<Rightarrow> took n (si_ipams si ! i) (rs ! i)"
      if "i < length (si_ipams si)" for i
      using S(2,3) that len by (subst mo) auto
    then show ?thesis using S(1) by (simp add: tracks_def)
  qed
  have "ipam_index rs (IP n) = Some i" if "(i, n) \<in> set ?ps" for i n
  proof -
    have i: "i < length ns" "n = ns ! i" using that by (auto simp: set_zip)
    have net: "\<forall>j<length rs. rg_net (rs ! j) = si_subnets si ! j"
      using S(1) wf by (auto simp: same_nets_nth ipams_wf_nth)
    have "length rs = length ns" using S len by (auto simp: same_nets_nth)
    then show ?thesis using i S(2,3) net assms(5)
      by (intro ipam_index_disjoint) fastforce+
  qed
  then have "fold ReleaseIPs_step (map snd ?ps) rs = rollback ?ps rs" by (intro ReleaseIPs_fold) auto
  then have f: "fold ReleaseIPs_step ns rs = rollback ?ps rs" by simp
  let ?si = "si\<lparr>si_ipams := rs\<rparr>"
  have rel: "ReleaseIPs nm (Some ns) a' = (Inr (), set_ipams nm ?si (rollback ?ps rs) a')"
    using assms(3) r(3) f by (simp add: ReleaseIPs_def set_ipams_def)
  have "set_ipams nm ?si (rollback ?ps rs) a' = set_ipams nm si (rollback ?ps rs) a"
    using r(3) by (simp add: set_ipams_def)
  then show ?thesis using rel tracks_rollback [OF T] ipam_wf_set_ipams [OF assms(1,2)]
    by (auto simp: set_ipams_def)
qed

text \<open>\<open>ReleaseIPs\<close> gives back what \<open>AllocateNextIPs\<close> handed out: when the subnets of the set do
  not overlap, allocating and releasing the returned addresses leaves every range as it was.\<close>

lemma ReleaseIPs_undoes_AllocateNextIPs:
  assumes "ipam_wf a" and "cache a nm = Some si" and "nm \<noteq> []" and "si_ipams si \<noteq> []"
    and "\<And>x i j. i < j \<Longrightarrow> j < length (si_subnets si) \<Longrightarrow> IPNet_Contains (si_subnets si ! i) x \<Longrightarrow>
      \<not> IPNet_Contains (si_subnets si ! j) x"
    and "AllocateNextIPs nm a = (Inr ns, a')"
  shows "case ReleaseIPs nm (Some ns) a' of (res, a'') \<Rightarrow> res = Inr () \<and> ipam_wf a'' \<and>
    (\<exists>si'. cache a'' = (cache a)(nm \<mapsto> si') \<and> si_subnets si' = si_subnets si
       \<and> held_by (si_ipams si') = held_by (si_ipams si))"
  by (rule ReleaseIPs_AllocateNextIPs [OF assms])

text \<open>Two allocators with the same subnets and the same allocated addresses.\<close>

definition ipam_view :: "allocator \<Rightarrow> string \<rightharpoonup> ipnet list \<times> ip set list" where
  "ipam_view a k = map_option (\<lambda>si. (si_subnets si, held_by (si_ipams si))) (cache a k)"

definition same_held :: "allocator \<Rightarrow> allocator \<Rightarrow> bool" where
  "same_held a a' \<longleftrightarrow> ipam_view a' = ipam_view a"

lemma same_held_refl [simp]: "same_held a a"
  by (simp add: same_held_def)

lemma same_held_trans: "same_held a b \<Longrightarrow> same_held b c \<Longrightarrow> same_held a c"
  by (simp add: same_held_def)

lemma same_heldI:
  "cache a nm = Some si \<Longrightarrow> cache a' = (cache a)(nm \<mapsto> si') \<Longrightarrow> si_subnets si' = si_subnets si \<Longrightarrow>
   held_by (si_ipams si') = held_by (si_ipams si) \<Longrightarrow> same_held a a'"
  by (auto simp: same_held_def ipam_view_def fun_eq_iff)

lemma AllocateIPs_error:
  assumes "ipam_wf a" "\<forall>n\<in>set ips. ip_wf (IP n)" "AllocateIPs nm ips a = (Inl e, a')"
  shows "ipam_wf a' \<and> same_held a a'"
proof (cases "cache a nm")
  case None
  then have "a' = a" using assms(3) by (auto simp: AllocateIPs_def split: if_splits)
  then show ?thesis using assms(1) by simp
next
  case (Some si)
  obtain si' where si': "ipam_wf a'" "\<forall>k. k \<noteq> nm \<longrightarrow> cache a' k = cache a k" "cache a' nm = Some si'"
    "si_subnets si' = si_subnets si" "held_by (si_ipams si') = held_by (si_ipams si)"
    using AllocateIPs_effect [OF assms(1) Some assms(2,3)] by auto
  then have "cache a' = (cache a)(nm \<mapsto> si')" by auto
  then show ?thesis using si' same_heldI [OF Some] by blast
qed

text \<open>The addresses a successful \<open>AllocateIPs\<close> took, with their ranges.\<close>

definition indexed :: "ipnet list \<Rightarrow> Range list \<Rightarrow> (nat \<times> ipnet) list" where
  "indexed ns rs = List.map_filter (\<lambda>n. map_option (\<lambda>i. (i, n)) (ipam_index rs (IP n))) ns"

lemma AllocateIPs_loop_allocated:
  "AllocateIPs_loop nm ns allocated rs = (Inr (), allocated', rs') \<Longrightarrow> allocated' = rev (indexed ns rs) @ allocated"
proof (induction nm ns allocated rs rule: AllocateIPs_loop.induct)
  case (2 nm n ns allocated rs)
  show ?case
  proof (cases "ipam_index rs (IP n)")
    case None
    with "2.IH"(1) "2.prems" show ?thesis by (simp add: indexed_def map_filter_simps)
  next
    case (Some i)
    then obtain u r' where A: "Range_Allocate (IP n) (rs ! i) = (Inr u, r')" "map_of allocated i = None"
      and L: "AllocateIPs_loop nm ns ((i, n) # allocated) (rs[i := r']) = (Inr (), allocated', rs')"
      using "2.prems" by (auto split: if_splits prod.splits sum.splits)
    have "map rg_net (rs[i := r']) = map rg_net rs"
      using Range_ops_net(1) [of "IP n" "rs ! i"] A(1) ipam_index_Some [OF Some]
      by (auto simp: list_eq_iff_nth_eq nth_list_update)
    then have "indexed ns (rs[i := r']) = indexed ns rs"
      unfolding indexed_def by (simp add: ipam_index_same [of "rs[i := r']" rs])
    moreover have "allocated' = rev (indexed ns (rs[i := r'])) @ (i, n) # allocated"
      using "2.IH"(2) [OF Some _ A(1) [symmetric] refl L] A(2) by simp
    ultimately show ?thesis using Some by (simp add: indexed_def map_filter_simps)
  qed
qed (simp add: indexed_def map_filter_simps)

lemma ReleaseIPs_fold_indexed: "fold ReleaseIPs_step ns rs = rollback (indexed ns rs) rs"
proof (induction ns arbitrary: rs)
  case (Cons n ns)
  show ?case
  proof (cases "ipam_index rs (IP n)")
    case None
    then show ?thesis using Cons by (simp add: ReleaseIPs_step_def indexed_def map_filter_simps)
  next
    case (Some i)
    let ?rs = "rs[i := Range_Release (IP n) (rs ! i)]"
    have "map rg_net ?rs = map rg_net rs"
      by (cases "i < length rs") (auto simp: list_eq_iff_nth_eq nth_list_update)
    then have "indexed ns ?rs = indexed ns rs"
      unfolding indexed_def by (simp add: ipam_index_same [of ?rs rs])
    then show ?thesis using Some Cons [of ?rs] by (simp add: ReleaseIPs_step_def indexed_def map_filter_simps rollback_def)
  qed
qed (simp add: indexed_def map_filter_simps rollback_def)

lemma ReleaseIPs_AllocateIPs:
  assumes "ipam_wf a" "\<forall>n\<in>set ips. ip_wf (IP n)" "nm \<noteq> []" "AllocateIPs nm ips a = (Inr u, a')"
  shows "case ReleaseIPs nm (Some ips) a' of (res, a'') \<Rightarrow> res = Inr () \<and> ipam_wf a'' \<and> same_held a a''"
proof -
  obtain si rs al where si: "cache a nm = Some si" and L: "AllocateIPs_loop nm ips [] (si_ipams si) = (Inr (), al, rs)"
    and a': "a' = set_ipams nm si rs a"
    using assms(4) by (auto simp: AllocateIPs_def split: if_splits option.splits prod.splits sum.splits)
  have wf: "ipams_wf si" using assms(1) si by (auto simp: ipam_wf_def)
  then have "tracks [] (si_ipams si) (si_ipams si)" using ipams_wf_refl by (simp add: tracks_def)
  from AllocateIPs_loop_tracks [OF this assms(2) L] have T: "tracks al (si_ipams si) rs" by simp
  have al: "al = rev (indexed ips (si_ipams si))" using AllocateIPs_loop_allocated [OF L] by simp
  have "indexed ips rs = indexed ips (si_ipams si)"
    using same_nets_index [of "si_ipams si" rs] T unfolding indexed_def tracks_def by simp
  then have ix: "indexed ips rs = rev al" using al by simp
  have d: "distinct (map fst (rev al))" using T by (simp add: tracks_def rev_map [symmetric])
  then have "map_of (rev al) = map_of al" by (subst map_of_inject_set) (simp_all add: rev_map [symmetric])
  then have T': "tracks (rev al) (si_ipams si) rs" using T d by (simp add: tracks_def)
  let ?rs = "rollback (rev al) rs"
  have rel: "ReleaseIPs nm (Some ips) a' = (Inr (), set_ipams nm (si\<lparr>si_ipams := rs\<rparr>) ?rs a')"
    using assms(3) a' ReleaseIPs_fold_indexed [of ips rs] ix by (simp add: ReleaseIPs_def set_ipams_def)
  have eq: "set_ipams nm (si\<lparr>si_ipams := rs\<rparr>) ?rs a' = set_ipams nm si ?rs a" using a' by (simp add: set_ipams_def)
  show ?thesis
    using rel tracks_rollback [OF T'] ipam_wf_set_ipams [OF assms(1) si] same_heldI [OF si, of _ "si\<lparr>si_ipams := ?rs\<rparr>"]
    unfolding eq by (simp add: set_ipams_def)
qed

section \<open>Excluded subnets\<close>

lemma Range_Reserved_offset:
  assumes "range_wf r" and "ip_wf x"
  shows "Range_Reserved x r \<longleftrightarrow> IPNet_Contains (rg_net r) x
    \<and> (BigForIP x = rg_base r - 1 \<or> BigForIP x = rg_base r + rg_max r)"
proof -
  let ?n = "rg_net r" and ?d = "BigForIP x - rg_base r"
  note wf = assms(1) [unfolded range_wf_def]
  have off: "calculateIPOffset (rg_base r) x = (if ?d < 2 ^ 63 then ?d else ?d - 2 ^ 64)"
    if "IPNet_Contains ?n x"
  proof -
    have "-1 \<le> ?d" "?d < net_size ?n - 1" using Contains_iff [of ?n x] wf assms(2) that by auto
    then show ?thesis unfolding calculateIPOffset_def
      using wf big_Int64_small [of ?d] big_Int64_wrap [of ?d] by auto
  qed
  show ?thesis
  proof (cases "IPNet_Contains ?n x")
    case True
    have "?d < 2 ^ 64 - 1" using Contains_iff [of ?n x] wf assms(2) True by auto
    then show ?thesis using True off [OF True] wf by (auto simp: Range_Reserved_def Let_def)
  qed (simp add: Range_Reserved_def)
qed

text \<open>The addresses of the range whose numbers lie between two bounds.\<close>

definition block :: "Range \<Rightarrow> int \<Rightarrow> int \<Rightarrow> ip set" where
  "block r lo hi = {y \<in> range_items r. lo \<le> BigForIP y \<and> BigForIP y < hi}"

lemma block_step:
  assumes "range_wf r" and "lo < hi"
  shows "block r lo hi = {y \<in> range_items r. BigForIP y = lo} \<union> block r (lo + 1) hi"
  using assms(2) by (auto simp: block_def)

lemma range_item_unique:
  assumes "range_wf r" and "y \<in> range_items r" and "z \<in> range_items r" and "BigForIP y = BigForIP z"
  shows "y = z"
  using assms range_ip_value(1) [OF assms(1)] by (auto simp: range_items_def)

definition top_of :: "ipnet \<Rightarrow> int" where
  "top_of n = (if is4 (IP n) then v4_base + 2 ^ 32 else 2 ^ 128)"

text \<open>The networks whose reservation succeeds: inside the range's network, every address usable or
  reserved, and not at the top of the address space, where \<open>NextIP\<close> panics.\<close>

definition reservable :: "ipnet \<Rightarrow> Range \<Rightarrow> bool" where
  "reservable ex r \<longleftrightarrow> steppable ex \<and> net_size ex < 2 ^ 32 \<and> (is4 (IP ex) \<longleftrightarrow> is4 (IP (rg_net r)))
     \<and> rg_base r - 1 \<le> BigForIP (IP ex) \<and> BigForIP (IP ex) + net_size ex \<le> rg_base r + rg_max r + 1
     \<and> BigForIP (IP ex) + net_size ex \<le> BigForIP (IP (rg_net r)) + net_size (rg_net r)
     \<and> BigForIP (IP ex) + net_size ex < top_of ex"

lemma reservable_same:
  "reservable ex r \<Longrightarrow> rg_net r' = rg_net r \<Longrightarrow> rg_base r' = rg_base r \<Longrightarrow> rg_max r' = rg_max r \<Longrightarrow> reservable ex r'"
  by (simp add: reservable_def)

lemma NextIP_defined:
  assumes "reservable ex r" and "ip_wf x" and "IPNet_Contains ex x"
  shows "\<exists>y. NextIP x = Some y \<and>
    (if BigForIP x + 1 < BigForIP (IP ex) + net_size ex
     then ip_wf y \<and> IPNet_Contains ex y \<and> BigForIP y = BigForIP x + 1 else \<not> IPNet_Contains ex y)"
proof (cases "BigForIP x + 1 < BigForIP (IP ex) + net_size ex")
  case True
  then show ?thesis
    using NextIP_in_net [of ex x] assms by (fastforce simp: reservable_def)
next
  case False
  have cw: "cidr_wf ex" using assms(1) by (simp add: reservable_def steppable_def)
  note c = Contains_iff [OF cw assms(2), THEN iffD1, OF assms(3)]
  have last: "BigForIP x + 1 = BigForIP (IP ex) + net_size ex" using False c by simp
  have "\<exists>y. NextIP x = Some y \<and> ip_wf y \<and> BigForIP y = BigForIP x + 1"
  proof (cases "is4 x")
    case True
    then show ?thesis using NextIP_v4 [OF True] assms(1) last c
      by (fastforce simp: reservable_def top_of_def ip_wf_def)
  next
    case False
    then have "length x = 16" "\<not> is4 (IP ex)" using assms(2) c by (auto simp: ip_wf_def To4_def)
    moreover from this have "2 ^ 32 \<le> BigForIP x" using c assms(1) by (auto simp: reservable_def steppable_def)
    ultimately show ?thesis using NextIP_v6 [OF _ False] assms(1) last
      by (fastforce simp: reservable_def top_of_def ip_wf_def)
  qed
  then obtain y where y: "NextIP x = Some y" "ip_wf y" "BigForIP y = BigForIP x + 1" by blast
  then have "\<not> IPNet_Contains ex y" using Contains_iff [OF cw y(2)] last by simp
  then show ?thesis using y False by auto
qed

lemma reserveSubnets_loop_spec:
  assumes "range_wf r" and "reservable ex r" and "ip_wf x" and "IPNet_Contains ex x"
    and "block r (BigForIP x) (BigForIP (IP ex) + net_size ex) \<inter> range_held r = {}"
  shows "\<exists>r'. reserveSubnets_loop ex x r = Some (Inr (), r') \<and> range_wf r' \<and> rg_net r' = rg_net r
    \<and> rg_base r' = rg_base r \<and> rg_max r' = rg_max r
    \<and> range_held r' = range_held r \<union> block r (BigForIP x) (BigForIP (IP ex) + net_size ex)"
  using assms
proof (induction "nat (BigForIP (IP ex) + net_size ex - BigForIP x)" arbitrary: x r rule: less_induct)
  case less
  let ?E = "BigForIP (IP ex) + net_size ex"
  have cw: "cidr_wf ex" using less.prems(2) by (simp add: reservable_def steppable_def)
  note c = Contains_iff [OF cw less.prems(3), THEN iffD1, OF less.prems(4)]
  have lt: "BigForIP x < ?E" using c by simp
  have rv: "is4 x \<longleftrightarrow> is4 (IP (rg_net r))" "rg_base r - 1 \<le> BigForIP x" "BigForIP x \<le> rg_base r + rg_max r"
      "BigForIP x < BigForIP (IP (rg_net r)) + net_size (rg_net r)"
    using c less.prems(2) by (auto simp: reservable_def)
  obtain y where y: "NextIP x = Some y" "if BigForIP x + 1 < ?E
      then ip_wf y \<and> IPNet_Contains ex y \<and> BigForIP y = BigForIP x + 1 else \<not> IPNet_Contains ex y"
    using NextIP_defined [OF less.prems(2-4)] by blast
  have tail: "\<exists>r'. reserveSubnets_loop ex y r1 = Some (Inr (), r') \<and> range_wf r' \<and> rg_net r' = rg_net r
      \<and> rg_base r' = rg_base r \<and> rg_max r' = rg_max r
      \<and> range_held r' = range_held r1 \<union> block r (BigForIP x + 1) ?E"
    if "range_wf r1" "rg_net r1 = rg_net r" "rg_base r1 = rg_base r" "rg_max r1 = rg_max r"
      "block r (BigForIP x + 1) ?E \<inter> range_held r1 = {}" for r1
  proof (cases "BigForIP x + 1 < ?E")
    case True
    have "block r1 lo hi = block r lo hi" for lo hi
      using that by (simp add: block_def range_items_def range_ip_def)
    then show ?thesis
      using less.hyps [of y r1] True y(2) that reservable_same [OF less.prems(2)] c by auto
  next
    case False
    then have "reserveSubnets_loop ex y r1 = Some (Inr (), r1)"
      using y(2) by (subst reserveSubnets_loop.simps) simp
    moreover have "block r (BigForIP x + 1) ?E = {}" using False by (auto simp: block_def)
    ultimately show ?thesis using that by simp
  qed
  show ?case
  proof (cases "Range_Reserved x r")
    case True
    have "{y \<in> range_items r. BigForIP y = BigForIP x} = {}"
      using True Range_Reserved_offset [OF less.prems(1,3)] range_ip_value(1) [OF less.prems(1)]
      by (auto simp: range_items_def)
    then have b: "block r (BigForIP x) ?E = block r (BigForIP x + 1) ?E"
      unfolding block_step [OF less.prems(1) lt] by (simp only: Un_empty_left)
    have "reserveSubnets_loop ex x r = reserveSubnets_loop ex y r"
      using True less.prems(4) y(1) by (subst reserveSubnets_loop.simps) simp
    then show ?thesis using tail [of r] less.prems(1,5) b by auto
  next
    case False
    have "IPNet_Contains (rg_net r) x"
      using Contains_iff [of "rg_net r" x] less.prems(1,3) rv by (auto simp: range_wf_def)
    then have "rg_base r \<le> BigForIP x \<and> BigForIP x < rg_base r + rg_max r"
      using False Range_Reserved_offset [OF less.prems(1,3)] rv by auto
    then have P: "Range_contains x r = (True, BigForIP x - rg_base r)"
      using Range_contains_iff [OF less.prems(1,3)] rv by simp
    let ?z = "range_ip r (nat (BigForIP x - rg_base r))"
    have z: "?z \<in> range_items r" "BigForIP ?z = BigForIP x"
      using \<open>rg_base r \<le> _ \<and> _\<close> range_ip_value(1) [OF less.prems(1), of "nat (BigForIP x - rg_base r)"]
      by (auto simp: range_items_def)
    then have "?z \<in> block r (BigForIP x) ?E" using c by (simp add: block_def)
    then have "?z \<notin> range_held r" using less.prems(5) by blast
    then obtain r1 where r1: "Range_Allocate x r = (Inr (), r1)" "range_wf r1"
        "range_held r1 = insert ?z (range_held r)"
      using Range_Allocate_eff [OF less.prems(1,3)] P less.prems(5) by auto
    have "{y \<in> range_items r. BigForIP y = BigForIP x} = {?z}"
      using z range_item_unique [OF less.prems(1)] by auto
    then have b: "block r (BigForIP x) ?E = insert ?z (block r (BigForIP x + 1) ?E)"
      unfolding block_step [OF less.prems(1) lt] by (simp only: insert_is_Un [symmetric])
    have "block r (BigForIP x + 1) ?E \<inter> range_held r1 = {}"
      using r1(3) less.prems(5) b z(2) by (auto simp: block_def)
    moreover have "rg_net r1 = rg_net r" "rg_base r1 = rg_base r" "rg_max r1 = rg_max r"
      using Range_ops_net(1,4,5) [of x r] r1(1) by simp_all
    ultimately obtain r' where r': "reserveSubnets_loop ex y r1 = Some (Inr (), r')" "range_wf r'"
        "rg_net r' = rg_net r" "rg_base r' = rg_base r" "rg_max r' = rg_max r"
        "range_held r' = range_held r1 \<union> block r (BigForIP x + 1) ?E"
      using tail [OF r1(2)] by blast
    have "reserveSubnets_loop ex x r = reserveSubnets_loop ex y r1"
      using False less.prems(4) y(1) r1(1) by (subst reserveSubnets_loop.simps) simp
    then show ?thesis using r' r1(3) b by auto
  qed
qed

text \<open>Excluding a subnet from a new range returns (the loop over its addresses ends) and
  reserves exactly the excluded addresses: afterwards the addresses held are those of the range
  that lie in the excluded subnet, so that \<open>AllocateNext\<close> never hands one out.\<close>

lemma reserveSubnets_correct:
  assumes "range_wf r" and "range_held r = {}" and "reservable ex r"
  shows "\<exists>r'. reserveSubnets ex r = Some (Inr (), r') \<and> range_wf r'
    \<and> range_held r' = {y \<in> range_items r. IPNet_Contains ex y}"
proof -
  have cw: "cidr_wf ex" and fam: "is4 (IP ex) \<longleftrightarrow> is4 (IP (rg_net r))"
    using assms(3) by (auto simp: reservable_def steppable_def)
  have w: "ip_wf (IP ex)" "IPNet_Contains ex (IP ex)"
    using cw Contains_iff [OF cw, of "IP ex"] by (auto simp: wf_simps)
  have "block r (BigForIP (IP ex)) (BigForIP (IP ex) + net_size ex) = {y \<in> range_items r. IPNet_Contains ex y}"
    using Contains_iff [OF cw] range_items_wf [of _ r] fam range_ip_value(2) [OF assms(1)]
    by (auto simp: block_def range_items_def)
  then show ?thesis using reserveSubnets_loop_spec [OF assms(1,3) w] assms(2)
    by (auto simp: reserveSubnets_def)
qed

text \<open>\<open>AddOrUpdateSubnet\<close> accepts an excluded subnet that lies outside every subnet of the set:
  the flag \<open>excluded\<close> is set after the containment test, not inside it, so the error \<open>not contained
  in any of the subnets\<close> is returned only for an empty set of subnets.\<close>

lemma AddOrUpdateSubnet_accepts_foreign_exclude:
  assumes "subnets \<noteq> []" and "\<forall>s\<in>set subnets. \<not> ContainsCIDR s ex"
  shows "\<exists>a'. AddOrUpdateSubnet nm subnets [ex] a = Some (Inr (), a')"
proof -
  have "exclude_loop nm ex b ss rs = Some (Inr (b \<or> ss \<noteq> []), rs)"
    if "\<forall>s\<in>set ss. \<not> ContainsCIDR s ex" "length ss = length rs" for b ss rs
    using that by (induction nm ex b ss rs rule: exclude_loop.induct) auto
  then show ?thesis using assms by (simp add: AddOrUpdateSubnet_def)
qed

lemma allocate_round_last:
  assumes "rs \<noteq> []" and "allocate_round lst rs = (res, rs')"
  shows "rs' \<noteq> [] \<and> Range_AllocateNext 0 (last rs) = (res, last rs')"
  using assms
proof (induction lst rs arbitrary: res rs' rule: allocate_round.induct)
  case (2 lst r rs)
  show ?case
  proof (cases "rs = []")
    case True
    then show ?thesis using "2.prems" by (auto split: prod.splits)
  next
    case False
    then show ?thesis using "2.IH" "2.prems" by (auto split: prod.splits)
  qed
qed simp

text \<open>\<open>AllocateUntilFull\<close> returns: its loop ends, and when it does the last range of the set is
  full.\<close>

lemma until_full_returns:
  assumes "rs \<noteq> []" and "range_wf (last rs)"
  shows "\<exists>rs'. until_full (Inr x) rs = Some rs' \<and> range_held (last rs') = range_items (last rs')"
proof -
  have "\<exists>rs'. until_full lst rs = Some rs' \<and> range_held (last rs') = range_items (last rs')"
    if "rs \<noteq> []" "range_wf (last rs)" "lst = Inl ErrFull \<longrightarrow> range_held (last rs) = range_items (last rs)" for lst rs
    using that
  proof (induction "card (range_items (last rs) - range_held (last rs))" arbitrary: lst rs rule: less_induct)
    case less
    show ?case
    proof (cases "lst = Inl ErrFull")
      case True
      then show ?thesis using less.prems by (subst until_full.simps) simp
    next
      case False
      obtain res rs1 where R: "allocate_round lst rs = (res, rs1)" by fastforce
      note L = allocate_round_last [OF less.prems(1) R]
      have u: "until_full lst rs = until_full res rs1"
        using False R by (subst until_full.simps) simp
      show ?thesis
      proof (cases res)
        case (Inl e)
        then have "e = ErrFull" "last rs1 = last rs" "range_held (last rs) = range_items (last rs)"
          using Range_AllocateNext_Inl [OF less.prems(2), of 0 e "last rs1"] L by auto
        then show ?thesis unfolding u using Inl by (subst until_full.simps) simp
      next
        case (Inr y)
        note S = Range_AllocateNext_Inr [OF less.prems(2), of 0 y "last rs1"]
        have "range_items (last rs1) - range_held (last rs1) = range_items (last rs) - range_held (last rs) - {y}"
            "y \<in> range_items (last rs) - range_held (last rs)" "range_wf (last rs1)"
          using S L Inr by auto
        moreover have "finite (range_items (last rs) - range_held (last rs))" by (simp add: range_items_def)
        ultimately have "card (range_items (last rs1) - range_held (last rs1))
            < card (range_items (last rs) - range_held (last rs))"
          by (metis card_Diff1_less)
        then show ?thesis unfolding u using less.hyps [of rs1 res] L Inr \<open>range_wf (last rs1)\<close> by simp
      qed
    qed
  qed
  then show ?thesis using assms by blast
qed

end
