(* ===== verification/Logical_Switch_Manager.thy ===== *)
theory Logical_Switch_Manager
  imports Subnet_IPAM
begin

text \<open>
  \<open>pkg/ovn/logical_switch_manager/logical_switch_manager.go\<close>: IPAM of the logical switches. It adds
  to the subnet allocator the reservation of the node's gateway and management port addresses and
  the allocation of the hybrid-overlay address. The main result: after \<open>AddOrUpdateSwitch\<close> exactly
  the \<open>.1\<close> and \<open>.2\<close> addresses of each host subnet are held, so that no pod gets one.
\<close>

section \<open>State and operations\<close>

record LogicalSwitchManager =
  lsm_allocator :: allocator
  lsm_reserveIPs :: bool

definition NewLogicalSwitchManager :: LogicalSwitchManager where
  "NewLogicalSwitchManager = \<lparr>lsm_allocator = NewAllocator, lsm_reserveIPs = True\<rparr>"

definition NewL2SwitchManager :: LogicalSwitchManager where
  "NewL2SwitchManager = \<lparr>lsm_allocator = NewAllocator, lsm_reserveIPs = False\<rparr>"

text \<open>The single-address networks of the gateway and management addresses of one subnet.\<close>

definition reserved_ips :: "ipnet \<Rightarrow> ipnet list option" where
  "reserved_ips hostSubnet =
     (case (GetNodeGatewayIfAddr (Some hostSubnet), GetNodeManagementIfAddr (Some hostSubnet)) of
        (Some (Some gw), Some (Some mg)) \<Rightarrow>
          Some [\<lparr>IP = IP gw, Mask = GetIPFullMask (IP gw)\<rparr>, \<lparr>IP = IP mg, Mask = GetIPFullMask (IP mg)\<rparr>]
      | _ \<Rightarrow> None)"

fun reserved_all :: "ipnet list \<Rightarrow> ipnet list option" where
  "reserved_all [] = Some []"
| "reserved_all (s # ss) =
     (case reserved_ips s of
        None \<Rightarrow> None
      | Some es \<Rightarrow> map_option ((@) es) (reserved_all ss))"

definition AddOrUpdateSwitch ::
  "string \<Rightarrow> ipnet list \<Rightarrow> ipnet list \<Rightarrow> LogicalSwitchManager
   \<Rightarrow> ((subnet_error + unit) \<times> LogicalSwitchManager) option" where
  "AddOrUpdateSwitch switchName hostSubnets excludeSubnets m =
     (case AddOrUpdateSubnet switchName hostSubnets [] (lsm_allocator m) of
        None \<Rightarrow> None
      | Some (Inl e, al) \<Rightarrow> Some (Inl e, m\<lparr>lsm_allocator := al\<rparr>)
      | Some (Inr _, al) \<Rightarrow>
          (case (if lsm_reserveIPs m then reserved_all hostSubnets else Some []) of
             None \<Rightarrow> None
           | Some es \<Rightarrow>
               map_option (\<lambda>(res, al'). (res, m\<lparr>lsm_allocator := al'\<rparr>))
                 (AddOrUpdateSubnet switchName hostSubnets (excludeSubnets @ es) al)))"

definition AddNoHostSubnetSwitch ::
  "string \<Rightarrow> LogicalSwitchManager \<Rightarrow> ((subnet_error + unit) \<times> LogicalSwitchManager) option" where
  "AddNoHostSubnetSwitch switchName m =
     map_option (\<lambda>(res, al). (res, m\<lparr>lsm_allocator := al\<rparr>))
       (AddOrUpdateSubnet switchName [] [] (lsm_allocator m))"

definition DeleteSwitch :: "string \<Rightarrow> LogicalSwitchManager \<Rightarrow> LogicalSwitchManager" where
  "DeleteSwitch switchName m = m\<lparr>lsm_allocator := DeleteSubnet switchName (lsm_allocator m)\<rparr>"

definition IsNonHostSubnetSwitch :: "string \<Rightarrow> LogicalSwitchManager \<Rightarrow> bool" where
  "IsNonHostSubnetSwitch switchName m =
     (case GetSubnets switchName (lsm_allocator m) of Inl _ \<Rightarrow> False | Inr ss \<Rightarrow> length ss = 0)"

definition GetSwitchSubnets :: "string \<Rightarrow> LogicalSwitchManager \<Rightarrow> ipnet list" where
  "GetSwitchSubnets switchName m =
     (case GetSubnets switchName (lsm_allocator m) of Inl _ \<Rightarrow> [] | Inr ss \<Rightarrow> ss)"

definition lsm_AllocateUntilFull ::
  "string \<Rightarrow> LogicalSwitchManager \<Rightarrow> ((subnet_error + unit) \<times> LogicalSwitchManager) option" where
  "lsm_AllocateUntilFull switchName m =
     map_option (\<lambda>(res, al). (res, m\<lparr>lsm_allocator := al\<rparr>)) (AllocateUntilFull switchName (lsm_allocator m))"

definition lsm_AllocateIPs ::
  "string \<Rightarrow> ipnet list \<Rightarrow> LogicalSwitchManager \<Rightarrow> (subnet_error + unit) \<times> LogicalSwitchManager" where
  "lsm_AllocateIPs switchName ipnets m =
     (case AllocateIPs switchName ipnets (lsm_allocator m) of (res, al) \<Rightarrow> (res, m\<lparr>lsm_allocator := al\<rparr>))"

definition lsm_AllocateNextIPs ::
  "string \<Rightarrow> LogicalSwitchManager \<Rightarrow> (subnet_error + ipnet list) \<times> LogicalSwitchManager" where
  "lsm_AllocateNextIPs switchName m =
     (case AllocateNextIPs switchName (lsm_allocator m) of (res, al) \<Rightarrow> (res, m\<lparr>lsm_allocator := al\<rparr>))"

text \<open>The hybrid-overlay addresses of the subnets; a nil one is dereferenced by the allocation.\<close>

fun hybrid_addrs :: "ipnet list \<Rightarrow> ipnet list option" where
  "hybrid_addrs [] = Some []"
| "hybrid_addrs (s # ss) =
     (case GetNodeHybridOverlayIfAddr (Some s) of
        Some (Some a) \<Rightarrow> map_option ((#) a) (hybrid_addrs ss)
      | _ \<Rightarrow> None)"

definition AllocateHybridOverlay ::
  "string \<Rightarrow> string list \<Rightarrow> LogicalSwitchManager
   \<Rightarrow> ((subnet_error + ipnet list) \<times> LogicalSwitchManager) option" where
  "AllocateHybridOverlay switchName hybridOverlayAnnotation m =
     (if hybridOverlayAnnotation \<noteq> [] then
        (let addrs = map (\<lambda>s. \<lparr>IP = To4 (ParseIP s), Mask = CIDRMask 32 32\<rparr>) hybridOverlayAnnotation
         in case lsm_AllocateIPs switchName addrs m of
              (Inl e, m') \<Rightarrow> if e \<noteq> AllocError ErrAllocated then Some (Inl e, m') else Some (Inr addrs, m')
            | (Inr _, m') \<Rightarrow> Some (Inr addrs, m'))
      else
        (case hybrid_addrs (GetSwitchSubnets switchName m) of
           None \<Rightarrow> None
         | Some addrs \<Rightarrow>
             (case lsm_AllocateIPs switchName addrs m of
                (Inr _, m') \<Rightarrow> Some (Inr addrs, m')
              | (Inl e, m') \<Rightarrow>
                  if e \<noteq> AllocError ErrAllocated then Some (Inl e, m')
                  else Some (lsm_AllocateNextIPs switchName m'))))"

definition lsm_ReleaseIPs ::
  "string \<Rightarrow> ipnet list option \<Rightarrow> LogicalSwitchManager \<Rightarrow> (subnet_error + unit) \<times> LogicalSwitchManager" where
  "lsm_ReleaseIPs switchName ipnets m =
     (case ReleaseIPs switchName ipnets (lsm_allocator m) of (res, al) \<Rightarrow> (res, m\<lparr>lsm_allocator := al\<rparr>))"

definition lsm_ConditionalIPRelease ::
  "string \<Rightarrow> ipnet list option \<Rightarrow> ('e + bool) \<Rightarrow> LogicalSwitchManager \<Rightarrow> 'e + bool" where
  "lsm_ConditionalIPRelease switchName ipnets predicate m =
     ConditionalIPRelease switchName ipnets predicate (lsm_allocator m)"

definition ForSwitch :: "string \<Rightarrow> LogicalSwitchManager \<Rightarrow> IPAllocator" where
  "ForSwitch switchName m = ForSubnet switchName (lsm_allocator m)"

definition lsm_GetSubnetName :: "string list \<Rightarrow> ipnet list \<Rightarrow> LogicalSwitchManager \<Rightarrow> string option" where
  "lsm_GetSubnetName order subnets m = GetSubnetName order subnets (lsm_allocator m)"

section \<open>Reservation of several single addresses\<close>

lemma exclude_loop_single:
  assumes "length ss = length rs" and "j < length ss"
    and "\<forall>i<length ss. ContainsCIDR (ss ! i) ex \<longleftrightarrow> i = j"
    and "reserveSubnets ex (rs ! j) = Some (Inr (), r')"
  shows "exclude_loop nm ex b ss rs = Some (Inr True, rs[j := r'])"
  using assms
proof (induction ss rs arbitrary: j b rule: list_induct2)
  case (Cons s ss r rs)
  have skip: "exclude_loop nm ex b ss rs = Some (Inr (b \<or> ss \<noteq> []), rs)"
    if "\<forall>s\<in>set ss. \<not> ContainsCIDR s ex" "length ss = length rs" for b ss rs
    using that by (induction nm ex b ss rs rule: exclude_loop.induct) auto
  show ?case
  proof (cases j)
    case 0
    have "\<forall>s\<in>set ss. \<not> ContainsCIDR s ex"
      using Cons.prems(2) 0 by (force simp: in_set_conv_nth)
    moreover have "ContainsCIDR s ex" using Cons.prems(2) 0 by force
    ultimately show ?thesis using Cons.prems Cons.hyps 0 skip [of ss rs True] by simp
  next
    case (Suc k)
    have "\<not> ContainsCIDR s ex" using Cons.prems(2) Suc by force
    moreover have "\<forall>i<length ss. ContainsCIDR (ss ! i) ex \<longleftrightarrow> i = k"
      using Cons.prems(2) Suc by force
    ultimately show ?thesis using Cons.IH [of k True] Cons.prems Suc by simp
  qed
qed simp

text \<open>A list of excluded networks with the index of the one subnet each belongs to.\<close>

lemma exclude_all_each:
  assumes "length ss = length rs" and "\<forall>i<length rs. range_wf (rs ! i)"
    and "\<forall>(j, ex)\<in>set ps. j < length ss \<and> (\<forall>i<length ss. ContainsCIDR (ss ! i) ex \<longleftrightarrow> i = j)
       \<and> reservable ex (rs ! j) \<and> {y \<in> range_items (rs ! j). IPNet_Contains ex y} \<inter> range_held (rs ! j) = {}"
    and "sorted_wrt (\<lambda>(j, ex) (k, ex'). j = k \<longrightarrow> (\<forall>y. ip_wf y \<longrightarrow> \<not> (IPNet_Contains ex y \<and> IPNet_Contains ex' y))) ps"
  shows "\<exists>rs'. exclude_all nm (map snd ps) ss rs = Some (Inr (), rs') \<and> same_nets rs rs' \<and>
    (\<forall>i<length rs. range_items (rs' ! i) = range_items (rs ! i) \<and>
       range_held (rs' ! i) = range_held (rs ! i) \<union>
         {y \<in> range_items (rs ! i). \<exists>ex. (i, ex) \<in> set ps \<and> IPNet_Contains ex y})"
  using assms
proof (induction ps arbitrary: rs)
  case Nil
  then show ?case by (auto simp: same_nets_nth)
next
  case (Cons p ps)
  obtain j ex where p: "p = (j, ex)" by fastforce
  let ?r = "rs ! j"
  have j: "j < length ss" "\<forall>i<length ss. ContainsCIDR (ss ! i) ex \<longleftrightarrow> i = j" "reservable ex ?r"
      "{y \<in> range_items ?r. IPNet_Contains ex y} \<inter> range_held ?r = {}" "range_wf ?r"
    using Cons.prems p by auto
  have cw: "cidr_wf ex" and fam: "is4 (IP ex) \<longleftrightarrow> is4 (IP (rg_net ?r))"
    using j(3) by (auto simp: reservable_def steppable_def)
  have w: "ip_wf (IP ex)" "IPNet_Contains ex (IP ex)"
    using cw Contains_iff [OF cw, of "IP ex"] by (auto simp: wf_simps)
  have blk: "block ?r (BigForIP (IP ex)) (BigForIP (IP ex) + net_size ex) = {y \<in> range_items ?r. IPNet_Contains ex y}"
    using Contains_iff [OF cw] range_items_wf [of _ ?r] fam range_ip_value(2) [OF j(5)]
    by (auto simp: block_def range_items_def)
  obtain r' where r': "reserveSubnets ex ?r = Some (Inr (), r')" "range_wf r'" "rg_net r' = rg_net ?r"
      "rg_base r' = rg_base ?r" "rg_max r' = rg_max ?r"
      "range_held r' = range_held ?r \<union> {y \<in> range_items ?r. IPNet_Contains ex y}"
    using reserveSubnets_loop_spec [OF j(5,3) w] j(4) unfolding blk reserveSubnets_def by blast
  have items: "range_items r' = range_items ?r" using r' by (simp add: range_items_def range_ip_def)
  let ?rs = "rs[j := r']"
  have jr: "j < length rs" using j(1) Cons.prems(1) by simp
  have conds: "\<forall>(k, e)\<in>set ps. k < length ss \<and> (\<forall>i<length ss. ContainsCIDR (ss ! i) e \<longleftrightarrow> i = k)
       \<and> reservable e (?rs ! k) \<and> {y \<in> range_items (?rs ! k). IPNet_Contains e y} \<inter> range_held (?rs ! k) = {}"
  proof (clarify)
    fix k e assume ke: "(k, e) \<in> set ps"
    have old: "k < length ss \<and> (\<forall>i<length ss. ContainsCIDR (ss ! i) e \<longleftrightarrow> i = k)
       \<and> reservable e (rs ! k) \<and> {y \<in> range_items (rs ! k). IPNet_Contains e y} \<inter> range_held (rs ! k) = {}"
      using Cons.prems(3) ke by auto
    have "j = k \<longrightarrow> (\<forall>y. ip_wf y \<longrightarrow> \<not> (IPNet_Contains ex y \<and> IPNet_Contains e y))"
      using Cons.prems(4) ke p by auto
    then have "j = k \<Longrightarrow> {y \<in> range_items r'. IPNet_Contains e y} \<inter> range_held r' = {}"
      using old r'(6) items range_items_wf [of _ ?r] by auto
    moreover have "j = k \<Longrightarrow> reservable e r'" using old reservable_same [of e ?r r'] r' by simp
    ultimately show "k < length ss \<and> (\<forall>i<length ss. ContainsCIDR (ss ! i) e \<longleftrightarrow> i = k)
       \<and> reservable e (?rs ! k) \<and> {y \<in> range_items (?rs ! k). IPNet_Contains e y} \<inter> range_held (?rs ! k) = {}"
      using old jr by (cases "j = k") auto
  qed
  have "\<forall>i<length ?rs. range_wf (?rs ! i)" using Cons.prems(2) r'(2) jr by (simp add: nth_list_update)
  then obtain rs' where rs': "exclude_all nm (map snd ps) ss ?rs = Some (Inr (), rs')" "same_nets ?rs rs'"
      "\<forall>i<length ?rs. range_items (rs' ! i) = range_items (?rs ! i) \<and>
       range_held (rs' ! i) = range_held (?rs ! i) \<union>
         {y \<in> range_items (?rs ! i). \<exists>ex. (i, ex) \<in> set ps \<and> IPNet_Contains ex y}"
    using Cons.IH [OF _ _ conds] Cons.prems(1,4) by auto
  have "exclude_loop nm ex False ss rs = Some (Inr True, ?rs)"
    by (rule exclude_loop_single [OF Cons.prems(1) j(1,2) r'(1)])
  then have "exclude_all nm (map snd (p # ps)) ss rs = Some (Inr (), rs')" using rs'(1) p by simp
  moreover have "same_nets rs rs'"
    using rs'(2) r'(3) jr by (auto simp: same_nets_nth nth_list_update split: if_splits)
  moreover have "range_items (rs' ! i) = range_items (rs ! i) \<and>
       range_held (rs' ! i) = range_held (rs ! i) \<union>
         {y \<in> range_items (rs ! i). \<exists>ex. (i, ex) \<in> set (p # ps) \<and> IPNet_Contains ex y}"
    if "i < length rs" for i
    using rs'(3) that r'(6) items p by (cases "i = j") auto
  ultimately show ?case by blast
qed

section \<open>Single-address networks\<close>

abbreviation host_net :: "ip \<Rightarrow> ipnet" where
  "host_net x \<equiv> \<lparr>IP = x, Mask = GetIPFullMask x\<rparr>"

lemma map2_and_full: "map2 (AND) x (replicate (length x) 0xff) = (x :: byte list)"
proof (induction x)
  case (Cons b x)
  have "(0xff :: byte) = -1" by simp
  then have "b AND 0xff = b" by (simp only: and.right_neutral)
  then show ?case using Cons by simp
qed simp

lemma full_masks:
  "cidrBytes 4 32 = replicate 4 0xff" "cidrBytes 16 128 = replicate 16 0xff"
  "simpleMaskLength (replicate 4 0xff) = 32" "simpleMaskLength (replicate 16 0xff) = 128"
  by code_simp+

lemma host_net_cidr:
  assumes "ip_wf x" and "is4 x \<longrightarrow> length x = 4"
  shows "cidr_wf (host_net x) \<and> net_size (host_net x) = 1"
proof (cases "is4 x")
  case True
  then have "Mask (host_net x) = replicate 4 0xff"
    by (simp add: GetIPFullMask_def IsIPv6_def IPFamilyOf_def CIDRMask_def full_masks)
  then show ?thesis using True assms(2) map2_and_full [of x] full_masks
    by (simp add: cidr_wf_def net_ones_def net_bits_def net_size_def)
next
  case False
  then have x: "length x = 16" using assms(1) by (auto simp: ip_wf_def To4_def)
  then have "Mask (host_net x) = replicate 16 0xff" using False
    by (auto simp: GetIPFullMask_def IsIPv6_def IPFamilyOf_def To16_def CIDRMask_def full_masks)
  then show ?thesis using False x map2_and_full [of x] full_masks
    by (simp add: cidr_wf_def net_ones_def net_bits_def net_size_def)
qed

lemma host_net_Contains:
  assumes "ip_wf x" and "is4 x \<longrightarrow> length x = 4" and "ip_wf y"
  shows "IPNet_Contains (host_net x) y \<longleftrightarrow> BigForIP y = BigForIP x"
  using Contains_iff [of "host_net x" y] host_net_cidr [OF assms(1,2)] assms is4_BigForIP [of x y] by auto

lemma host_net_ContainsCIDR:
  assumes "cidr_wf n" and "ip_wf x" and "is4 x \<longrightarrow> length x = 4"
  shows "ContainsCIDR n (host_net x) \<longleftrightarrow> IPNet_Contains n x"
proof -
  note h = host_net_cidr [OF assms(2,3)]
  have "net_ones n \<le> net_ones (host_net x)" if "IPNet_Contains n x"
  proof -
    have "is4 x \<longleftrightarrow> is4 (IP n)" using Contains_iff [OF assms(1,2)] that by simp
    then have "net_bits n = net_bits (host_net x)"
      using BigForIP_cidr(2,3) [OF assms(1)] BigForIP_cidr(2,3) [of "host_net x"] h by auto
    moreover have "net_ones (host_net x) \<le> net_bits (host_net x)" using h by (simp add: cidr_wf_def)
    moreover have "net_bits (host_net x) - net_ones (host_net x) = 0"
      using h one_less_power [of "2::int" "net_bits (host_net x) - net_ones (host_net x)"]
      by (fastforce simp: net_size_def)
    ultimately show ?thesis using assms(1) by (simp add: cidr_wf_def)
  qed
  then show ?thesis using net_mask_size [OF assms(1)] net_mask_size [of "host_net x"] h
    by (auto simp: ContainsCIDR_def)
qed

section \<open>AddOrUpdateSwitch\<close>

text \<open>The host subnets a switch gets: canonical, with at least four and at most \<open>2 ^ 64\<close>
  addresses (an IPv4 one at most a quarter of the address space), and pairwise disjoint.\<close>

definition host_subnets_ok :: "ipnet list \<Rightarrow> bool" where
  "host_subnets_ok ss \<longleftrightarrow> (\<forall>s\<in>set ss. steppable s \<and> 4 \<le> net_size s \<and> net_size s \<le> 2 ^ 64
       \<and> (is4 (IP s) \<longrightarrow> 2 \<le> net_ones s))
     \<and> (\<forall>i<length ss. \<forall>j<length ss. i \<noteq> j \<longrightarrow> (\<forall>x. ip_wf x \<longrightarrow> \<not> (IPNet_Contains (ss ! i) x \<and> IPNet_Contains (ss ! j) x)))"

lemma usable_ge2:
  assumes "cidr_wf n" and "4 \<le> net_size n" and "net_size n \<le> 2 ^ 64" and "is4 (IP n) \<longrightarrow> 2 \<le> net_ones n"
  shows "2 \<le> usable n"
proof -
  have "\<not> is4 (IP n) \<Longrightarrow> 2 \<le> net_ones n"
  proof (rule ccontr)
    assume "\<not> is4 (IP n)" "\<not> 2 \<le> net_ones n"
    then have "net_bits n = 128" using BigForIP_cidr(2,3) [OF assms(1)] by simp
    then have "(2::int) ^ 127 \<le> net_size n" unfolding net_size_def
      using \<open>\<not> 2 \<le> net_ones n\<close> by (intro power_increasing) auto
    then show False using assms(3) by simp
  qed
  then show ?thesis using assms by (auto simp: usable_def)
qed

lemma reserved_ips_spec:
  assumes "steppable s" and "4 \<le> net_size s"
  shows "\<exists>x y. reserved_ips s = Some [host_net x, host_net y]
    \<and> BigForIP x = BigForIP (IP s) + 1 \<and> BigForIP y = BigForIP (IP s) + 2
    \<and> (\<forall>z\<in>{x, y}. ip_wf z \<and> (is4 z \<longrightarrow> length z = 4) \<and> IPNet_Contains s z)"
proof -
  obtain gw mg where "GetNodeGatewayIfAddr (Some s) = Some (Some gw)"
      "GetNodeManagementIfAddr (Some s) = Some (Some mg)"
      "BigForIP (IP gw) = BigForIP (IP s) + 1" "BigForIP (IP mg) = BigForIP (IP s) + 2"
      "\<forall>a\<in>{gw, mg}. IPNet_Contains s (IP a) \<and> ip_wf (IP a) \<and> (is4 (IP a) \<longrightarrow> length (IP a) = 4)"
    using node_addrs [OF assms] by auto
  then show ?thesis by (intro exI [of _ "IP gw"] exI [of _ "IP mg"]) (simp add: reserved_ips_def)
qed

lemma host_net_reservable:
  assumes "steppable s" and "4 \<le> net_size s" and "net_size s \<le> 2 ^ 64" and "is4 (IP s) \<longrightarrow> 2 \<le> net_ones s"
    and "rg_net r = s" and "rg_base r = BigForIP (IP s) + 1" and "rg_max r = usable s"
    and "ip_wf x" and "is4 x \<longrightarrow> length x = 4" and "IPNet_Contains s x"
    and "BigForIP x = BigForIP (IP s) + 1 \<or> BigForIP x = BigForIP (IP s) + 2"
  shows "reservable (host_net x) r"
proof -
  have cw: "cidr_wf s" using assms(1) by (simp add: steppable_def)
  note h = host_net_cidr [OF assms(8,9)]
  note c = Contains_iff [OF cw assms(8), THEN iffD1, OF assms(10)]
  have u: "2 \<le> usable s" by (rule usable_ge2 [OF cw assms(2-4)])
  have top: "BigForIP (IP s) + net_size s \<le> top_of s"
    using cidr_last [OF cw] BigForIP_cidr [OF cw] by (auto simp: top_of_def)
  moreover have "top_of (host_net x) = top_of s" using c by (simp add: top_of_def)
  moreover have "steppable (host_net x)"
    using h assms(1) c by (auto simp: steppable_def)
  ultimately show ?thesis using h c u assms(2,5-7,11) by (auto simp: reservable_def)
qed

text \<open>The excluded networks with the index of their subnet.\<close>

lemma reserved_all_spec:
  assumes "\<forall>s\<in>set ss. steppable s \<and> 4 \<le> net_size s"
  shows "\<exists>ps. reserved_all ss = Some (map snd ps)
    \<and> (\<forall>(j, e)\<in>set ps. k \<le> j \<and> j < k + length ss \<and> (\<exists>x. e = host_net x \<and> ip_wf x \<and> (is4 x \<longrightarrow> length x = 4)
         \<and> IPNet_Contains (ss ! (j - k)) x
         \<and> (BigForIP x = BigForIP (IP (ss ! (j - k))) + 1 \<or> BigForIP x = BigForIP (IP (ss ! (j - k))) + 2)))
    \<and> (\<forall>j\<in>{k..<k + length ss}. \<forall>d\<in>{1, 2}. \<exists>x. (j, host_net x) \<in> set ps \<and> ip_wf x
         \<and> (is4 x \<longrightarrow> length x = 4) \<and> BigForIP x = BigForIP (IP (ss ! (j - k))) + d)
    \<and> sorted_wrt (\<lambda>(j, e) (j', e'). j = j' \<longrightarrow> (\<forall>y. ip_wf y \<longrightarrow> \<not> (IPNet_Contains e y \<and> IPNet_Contains e' y))) ps"
  using assms
proof (induction ss arbitrary: k)
  case (Cons s ss)
  obtain x y where xy: "reserved_ips s = Some [host_net x, host_net y]"
      "BigForIP x = BigForIP (IP s) + 1" "BigForIP y = BigForIP (IP s) + 2"
      "\<forall>z\<in>{x, y}. ip_wf z \<and> (is4 z \<longrightarrow> length z = 4) \<and> IPNet_Contains s z"
    using reserved_ips_spec [of s] Cons.prems by auto
  obtain ps where ps: "reserved_all ss = Some (map snd ps)"
    and P: "\<forall>(j, e)\<in>set ps. Suc k \<le> j \<and> j < Suc k + length ss \<and> (\<exists>x. e = host_net x \<and> ip_wf x \<and> (is4 x \<longrightarrow> length x = 4)
         \<and> IPNet_Contains (ss ! (j - Suc k)) x
         \<and> (BigForIP x = BigForIP (IP (ss ! (j - Suc k))) + 1 \<or> BigForIP x = BigForIP (IP (ss ! (j - Suc k))) + 2))"
    and Q: "\<forall>j\<in>{Suc k..<Suc k + length ss}. \<forall>d\<in>{1, 2}. \<exists>x. (j, host_net x) \<in> set ps \<and> ip_wf x
         \<and> (is4 x \<longrightarrow> length x = 4) \<and> BigForIP x = BigForIP (IP (ss ! (j - Suc k))) + d"
    and S: "sorted_wrt (\<lambda>(j, e) (j', e'). j = j' \<longrightarrow> (\<forall>y. ip_wf y \<longrightarrow> \<not> (IPNet_Contains e y \<and> IPNet_Contains e' y))) ps"
    using Cons.IH [of "Suc k"] Cons.prems by auto
  have sub: "(s # ss) ! (j - k) = ss ! (j - Suc k)" if "Suc k \<le> j" for j
  proof -
    have "j - k = Suc (j - Suc k)" using that by simp
    then show ?thesis by simp
  qed
  let ?ps = "(k, host_net x) # (k, host_net y) # ps"
  have "reserved_all (s # ss) = Some (map snd ?ps)" using xy(1) ps by simp
  moreover have "\<forall>(j, e)\<in>set ?ps. k \<le> j \<and> j < k + length (s # ss) \<and> (\<exists>x. e = host_net x \<and> ip_wf x \<and> (is4 x \<longrightarrow> length x = 4)
         \<and> IPNet_Contains ((s # ss) ! (j - k)) x
         \<and> (BigForIP x = BigForIP (IP ((s # ss) ! (j - k))) + 1 \<or> BigForIP x = BigForIP (IP ((s # ss) ! (j - k))) + 2))"
    using xy P sub by fastforce
  moreover have "\<exists>z. (j, host_net z) \<in> set ?ps \<and> ip_wf z \<and> (is4 z \<longrightarrow> length z = 4)
        \<and> BigForIP z = BigForIP (IP ((s # ss) ! (j - k))) + d"
    if j: "j \<in> {k..<k + length (s # ss)}" and d: "d \<in> {1, 2}" for j d
  proof (cases "j = k")
    case True
    then show ?thesis using xy d by auto
  next
    case False
    then have jj: "j \<in> {Suc k..<Suc k + length ss}" using j by auto
    then show ?thesis using Q d sub [of j] by fastforce
  qed
  moreover have "sorted_wrt (\<lambda>(j, e) (j', e'). j = j' \<longrightarrow> (\<forall>y. ip_wf y \<longrightarrow> \<not> (IPNet_Contains e y \<and> IPNet_Contains e' y))) ?ps"
    using S P xy host_net_Contains [of x] host_net_Contains [of y] by fastforce
  ultimately show ?case by blast
qed simp

lemma AddOrUpdateSwitch_held:
  assumes "host_subnets_ok ss" and "lsm_reserveIPs m"
  shows "\<exists>rs. AddOrUpdateSwitch nm ss [] m = Some (Inr (),
      m\<lparr>lsm_allocator := \<lparr>cache = (cache (lsm_allocator m))(nm \<mapsto> \<lparr>si_subnets = ss, si_ipams = rs\<rparr>)\<rparr>\<rparr>)
    \<and> ipams_wf \<lparr>si_subnets = ss, si_ipams = rs\<rparr>
    \<and> (\<forall>i<length ss. range_held (rs ! i) =
         {y \<in> range_items (rs ! i). BigForIP y \<in> {BigForIP (IP (ss ! i)) + 1, BigForIP (IP (ss ! i)) + 2}})"
proof -
  let ?rs = "map newIPAMAllocator ss"
  have ok: "steppable s \<and> 4 \<le> net_size s \<and> net_size s \<le> 2 ^ 64 \<and> (is4 (IP s) \<longrightarrow> 2 \<le> net_ones s) \<and> cidr_wf s"
    if "s \<in> set ss" for s using assms(1) that by (auto simp: host_subnets_ok_def steppable_def)
  have new: "range_wf (?rs ! i) \<and> rg_net (?rs ! i) = ss ! i \<and> range_held (?rs ! i) = {}
      \<and> rg_max (?rs ! i) = usable (ss ! i) \<and> rg_base (?rs ! i) = BigForIP (IP (ss ! i)) + 1"
    if "i < length ss" for i
    using newIPAMAllocator_wf [of "ss ! i"] ok [of "ss ! i"] that by (auto simp: range_wf_def)
  obtain ps where ps: "reserved_all ss = Some (map snd ps)"
    and P: "\<forall>(j, e)\<in>set ps. j < length ss \<and> (\<exists>x. e = host_net x \<and> ip_wf x \<and> (is4 x \<longrightarrow> length x = 4)
         \<and> IPNet_Contains (ss ! j) x
         \<and> (BigForIP x = BigForIP (IP (ss ! j)) + 1 \<or> BigForIP x = BigForIP (IP (ss ! j)) + 2))"
    and Q: "\<forall>j\<in>{0..<length ss}. \<forall>d\<in>{1, 2}. \<exists>x. (j, host_net x) \<in> set ps \<and> ip_wf x
         \<and> (is4 x \<longrightarrow> length x = 4) \<and> BigForIP x = BigForIP (IP (ss ! j)) + d"
    and S: "sorted_wrt (\<lambda>(j, e) (j', e'). j = j' \<longrightarrow> (\<forall>y. ip_wf y \<longrightarrow> \<not> (IPNet_Contains e y \<and> IPNet_Contains e' y))) ps"
    using reserved_all_spec [of ss 0] ok by auto
  have "\<forall>(j, ex)\<in>set ps. j < length ss \<and> (\<forall>i<length ss. ContainsCIDR (ss ! i) ex \<longleftrightarrow> i = j)
       \<and> reservable ex (?rs ! j) \<and> {y \<in> range_items (?rs ! j). IPNet_Contains ex y} \<inter> range_held (?rs ! j) = {}"
  proof clarify
    fix j ex assume "(j, ex) \<in> set ps"
    then obtain x where j: "j < length ss" and ex: "ex = host_net x" "ip_wf x" "is4 x \<longrightarrow> length x = 4"
        "IPNet_Contains (ss ! j) x"
        "BigForIP x = BigForIP (IP (ss ! j)) + 1 \<or> BigForIP x = BigForIP (IP (ss ! j)) + 2"
      using P by auto
    note okj = ok [of "ss ! j", OF nth_mem, OF j] new [OF j]
    have "ContainsCIDR (ss ! i) ex \<longleftrightarrow> i = j" if "i < length ss" for i
      using host_net_ContainsCIDR [of "ss ! i" x] ok [OF nth_mem, OF that] ex assms(1) that j
      by (auto simp: host_subnets_ok_def)
    moreover have "reservable ex (?rs ! j)" unfolding ex(1)
      by (rule host_net_reservable [of "ss ! j"]) (use okj ex in auto)
    ultimately show "j < length ss \<and> (\<forall>i<length ss. ContainsCIDR (ss ! i) ex \<longleftrightarrow> i = j)
       \<and> reservable ex (?rs ! j) \<and> {y \<in> range_items (?rs ! j). IPNet_Contains ex y} \<inter> range_held (?rs ! j) = {}"
      using j new by auto
  qed
  then obtain rs where rs: "exclude_all nm (map snd ps) ss ?rs = Some (Inr (), rs)" "same_nets ?rs rs"
      "\<forall>i<length ?rs. range_items (rs ! i) = range_items (?rs ! i) \<and>
       range_held (rs ! i) = range_held (?rs ! i) \<union>
         {y \<in> range_items (?rs ! i). \<exists>ex. (i, ex) \<in> set ps \<and> IPNet_Contains ex y}"
    using exclude_all_each [of ss ?rs ps nm] S new by auto
  have eq: "(\<exists>ex. (i, ex) \<in> set ps \<and> IPNet_Contains ex y) \<longleftrightarrow>
      BigForIP y \<in> {BigForIP (IP (ss ! i)) + 1, BigForIP (IP (ss ! i)) + 2}"
    if "i < length ss" "ip_wf y" for i y
  proof
    assume "\<exists>ex. (i, ex) \<in> set ps \<and> IPNet_Contains ex y"
    then show "BigForIP y \<in> {BigForIP (IP (ss ! i)) + 1, BigForIP (IP (ss ! i)) + 2}"
      using P that(2) host_net_Contains by fastforce
  next
    assume "BigForIP y \<in> {BigForIP (IP (ss ! i)) + 1, BigForIP (IP (ss ! i)) + 2}"
    then obtain d where "d \<in> {1, 2}" "BigForIP y = BigForIP (IP (ss ! i)) + d" by auto
    have i0: "i \<in> {0..<length ss}" using that(1) by simp
    obtain x where "(i, host_net x) \<in> set ps" "ip_wf x" "is4 x \<longrightarrow> length x = 4"
        "BigForIP x = BigForIP (IP (ss ! i)) + d"
      using Q [THEN bspec, OF i0, THEN bspec, OF \<open>d \<in> {1, 2}\<close>] by blast
    then show "\<exists>ex. (i, ex) \<in> set ps \<and> IPNet_Contains ex y"
      using host_net_Contains [of x y] that(2) \<open>BigForIP y = _\<close> by auto
  qed
  have held: "range_held (rs ! i) =
      {y \<in> range_items (rs ! i). BigForIP y \<in> {BigForIP (IP (ss ! i)) + 1, BigForIP (IP (ss ! i)) + 2}}"
    if "i < length ss" for i
  proof -
    have e: "range_items (rs ! i) = range_items (?rs ! i)"
        "range_held (rs ! i) = {y \<in> range_items (?rs ! i). \<exists>ex. (i, ex) \<in> set ps \<and> IPNet_Contains ex y}"
      using rs(3) new [OF that] that by auto
    show ?thesis unfolding e using eq [OF that] range_items_wf [of _ "?rs ! i"] by blast
  qed
  have "ipams_wf \<lparr>si_subnets = ss, si_ipams = rs\<rparr>"
    using rs(2) new by (auto simp: ipams_wf_nth same_nets_nth)
  moreover have "AddOrUpdateSwitch nm ss [] m = Some (Inr (),
      m\<lparr>lsm_allocator := \<lparr>cache = (cache (lsm_allocator m))(nm \<mapsto> \<lparr>si_subnets = ss, si_ipams = rs\<rparr>)\<rparr>\<rparr>)"
    using assms(2) ps rs(1) by (simp add: AddOrUpdateSwitch_def AddOrUpdateSubnet_def)
  ultimately show ?thesis using held by blast
qed

text \<open>After \<open>AddOrUpdateSwitch\<close> with disjoint host subnets, the first allocation for a pod
  never returns the gateway (\<open>.1\<close>) or the management port (\<open>.2\<close>) address of a subnet: the call
  succeeds, holds exactly those two addresses of each subnet, and every address
  \<open>AllocateNextIPs\<close> then returns lies above them in its subnet.\<close>

lemma AddOrUpdateSwitch_reserves:
  assumes "host_subnets_ok ss" and "ss \<noteq> []" and "lsm_reserveIPs m"
  shows "\<exists>m' si. AddOrUpdateSwitch nm ss [] m = Some (Inr (), m') \<and> cache (lsm_allocator m') nm = Some si
    \<and> si_subnets si = ss \<and> ipams_wf si
    \<and> (\<forall>i<length ss. range_held (si_ipams si ! i) = {y \<in> range_items (si_ipams si ! i).
         BigForIP y \<in> {BigForIP (IP (ss ! i)) + 1, BigForIP (IP (ss ! i)) + 2}})
    \<and> (\<forall>ns m''. lsm_AllocateNextIPs nm m' = (Inr ns, m'') \<longrightarrow> length ns = length ss \<and>
         (\<forall>i<length ss. IPNet_Contains (ss ! i) (IP (ns ! i)) \<and> BigForIP (IP (ns ! i)) > BigForIP (IP (ss ! i)) + 2))"
proof -
  obtain rs where A: "AddOrUpdateSwitch nm ss [] m = Some (Inr (),
      m\<lparr>lsm_allocator := \<lparr>cache = (cache (lsm_allocator m))(nm \<mapsto> \<lparr>si_subnets = ss, si_ipams = rs\<rparr>)\<rparr>\<rparr>)"
    and wf: "ipams_wf \<lparr>si_subnets = ss, si_ipams = rs\<rparr>"
    and held: "\<forall>i<length ss. range_held (rs ! i) =
         {y \<in> range_items (rs ! i). BigForIP y \<in> {BigForIP (IP (ss ! i)) + 1, BigForIP (IP (ss ! i)) + 2}}"
    using AddOrUpdateSwitch_held [OF assms(1,3)] by blast
  let ?m = "m\<lparr>lsm_allocator := \<lparr>cache = (cache (lsm_allocator m))(nm \<mapsto> \<lparr>si_subnets = ss, si_ipams = rs\<rparr>)\<rparr>\<rparr>"
  have len: "length rs = length ss" "rs \<noteq> []" using wf assms(2) by (auto simp: ipams_wf_nth)
  have "length ns = length ss \<and> (\<forall>i<length ss. IPNet_Contains (ss ! i) (IP (ns ! i))
      \<and> BigForIP (IP (ns ! i)) > BigForIP (IP (ss ! i)) + 2)"
    if n: "lsm_AllocateNextIPs nm ?m = (Inr ns, m'')" for ns m''
  proof -
    obtain r ns' rs' where L: "AllocateNextIPs_loop ss rs = (r, ns', rs')" by (metis prod_cases3)
    then have "r = Inr ()" "ns' = ns"
      using n len by (auto simp: lsm_AllocateNextIPs_def AllocateNextIPs_def split: sum.splits prod.splits)
    with AllocateNextIPs_loop_spec [OF _ L] wf
    have S: "length ns = length ss" "\<forall>i<length ss. IPNet_Contains (ss ! i) (IP (ns ! i))
        \<and> IP (ns ! i) \<in> range_items (rs ! i) - range_held (rs ! i)"
      by (auto simp: ipams_wf_def)
    have "BigForIP (IP (ns ! i)) > BigForIP (IP (ss ! i)) + 2" if i: "i < length ss" for i
    proof -
      obtain k where "k < nat (rg_max (rs ! i))" "IP (ns ! i) = range_ip (rs ! i) k"
        using S(2) i by (auto simp: range_items_def)
      moreover have "range_wf (rs ! i)" "rg_net (rs ! i) = ss ! i" using wf i len by (auto simp: ipams_wf_nth)
      ultimately have "BigForIP (IP (ns ! i)) \<ge> BigForIP (IP (ss ! i)) + 1"
        using range_ip_value(1) [of "rs ! i" k] by (auto simp: range_wf_def)
      moreover have "BigForIP (IP (ns ! i)) \<notin> {BigForIP (IP (ss ! i)) + 1, BigForIP (IP (ss ! i)) + 2}"
        using S(2) held i by auto
      ultimately show ?thesis by auto
    qed
    then show ?thesis using S by blast
  qed
  then show ?thesis using A wf held by (intro exI [of _ ?m] exI [of _ "\<lparr>si_subnets = ss, si_ipams = rs\<rparr>"]) auto
qed

text \<open>A finding: updating a switch that already exists builds new ranges, so that the addresses its
  pods hold count as free.\<close>

lemma AddOrUpdateSwitch_forgets:
  assumes "host_subnets_ok ss" and "lsm_reserveIPs m"
  shows "\<exists>rs m'. AddOrUpdateSwitch nm ss [] m = Some (Inr (), m')
    \<and> cache (lsm_allocator m') nm = Some \<lparr>si_subnets = ss, si_ipams = rs\<rparr>
    \<and> (\<forall>i<length ss. card (range_held (rs ! i)) \<le> 2)"
proof -
  obtain rs where A: "AddOrUpdateSwitch nm ss [] m = Some (Inr (),
      m\<lparr>lsm_allocator := \<lparr>cache = (cache (lsm_allocator m))(nm \<mapsto> \<lparr>si_subnets = ss, si_ipams = rs\<rparr>)\<rparr>\<rparr>)"
    and wf: "ipams_wf \<lparr>si_subnets = ss, si_ipams = rs\<rparr>"
    and held: "\<forall>i<length ss. range_held (rs ! i) =
         {y \<in> range_items (rs ! i). BigForIP y \<in> {BigForIP (IP (ss ! i)) + 1, BigForIP (IP (ss ! i)) + 2}}"
    using AddOrUpdateSwitch_held [OF assms] by blast
  have "card (range_held (rs ! i)) \<le> 2" if "i < length ss" for i
  proof -
    have "range_wf (rs ! i)" using wf that by (auto simp: ipams_wf_nth)
    then have "inj_on BigForIP (range_held (rs ! i))"
      using held that range_item_unique by (auto simp: inj_on_def)
    then have "card (range_held (rs ! i)) = card (BigForIP ` range_held (rs ! i))" by (simp add: card_image)
    also have "\<dots> \<le> card {BigForIP (IP (ss ! i)) + 1, BigForIP (IP (ss ! i)) + 2}"
      by (rule card_mono) (use held that in auto)
    also have "\<dots> \<le> 2" by (simp add: card_insert_if)
    finally show ?thesis .
  qed
  then show ?thesis using A by auto
qed

end
