(* ===== verification/Host_Subnets.thy ===== *)
theory Host_Subnets
  imports Util_Net
begin

text \<open>
  \<open>pkg/clustermanager/node/subnet_allocator.go\<close>: the allocation of host subnets to nodes out of the
  cluster networks. \<open>subnetAllocatorRange\<close> is one cluster network with its 32-bit bookkeeping,
  \<open>BaseSubnetAllocator\<close> the IPv4 and IPv6 ranges. The arithmetic is Go's \<open>uint32\<close>, kept as
  \<open>32 word\<close>; shifts by 32 or more give 0 as in Go. An index out of range is a panic, \<open>None\<close>.
  The lemmas show that a subnet handed out is a canonical subnet of the right length inside the
  cluster network, not owned by anyone and disjoint from every other subnet handed out, that the bit
  rotation for IPv4 is a permutation so that no subnet is lost, and that ownership is respected by
  marking and releasing.
\<close>

section \<open>One cluster network\<close>

record subnetAllocatorRange =
  sr_network :: ipnet
  sr_hostBits :: u32
  sr_subnetBits :: u32
  sr_next :: u32
  sr_allocMap :: "string \<rightharpoonup> string"
  sr_used :: u32
  sr_leftShift :: u32
  sr_leftMask :: u32
  sr_rightShift :: u32
  sr_rightMask :: u32

datatype host_error =
    HostCapacityZero
  | SubnetCapacityTooLarge
  | AlreadyOwned string string
  | UnknownRange string
  | ErrSubnetAllocatorFull

definition newSubnetAllocatorRange :: "ipnet \<Rightarrow> int \<Rightarrow> host_error + subnetAllocatorRange" where
  "newSubnetAllocatorRange network hostSubnetLen =
     (case Mask_Size (Mask network) of (clusterCIDRLen, addrLen) \<Rightarrow>
        if hostSubnetLen \<ge> addrLen then Inl HostCapacityZero
        else if hostSubnetLen < clusterCIDRLen then Inl SubnetCapacityTooLarge
        else
          let hostBits = word_of_int (addrLen - hostSubnetLen) :: u32;
              subnetBits = word_of_int (hostSubnetLen - clusterCIDRLen) :: u32;
              snr = \<lparr>sr_network = network, sr_hostBits = hostBits, sr_subnetBits = subnetBits, sr_next = 0,
                     sr_allocMap = Map.empty, sr_used = 0, sr_leftShift = 0, sr_leftMask = 0,
                     sr_rightShift = 0, sr_rightMask = 0\<rparr>
          in if addrLen = 32 \<and> hostBits mod 8 \<noteq> 0
                \<and> (hostBits - 1) div 8 \<noteq> (hostBits + subnetBits - 1) div 8
             then let leftShift = 8 - (hostBits mod 8)
                  in Inr (snr\<lparr>sr_leftShift := leftShift,
                              sr_leftMask := push_bit (unat subnetBits) 1 - 1,
                              sr_rightShift := subnetBits - leftShift,
                              sr_rightMask := push_bit (unat leftShift) 1 - 1\<rparr>)
             else Inr snr)"

definition range_usage :: "subnetAllocatorRange \<Rightarrow> u64" where
  "range_usage snr = ucast (sr_used snr)"

definition range_count :: "subnetAllocatorRange \<Rightarrow> u64" where
  "range_count snr = push_bit (unat (sr_subnetBits snr)) 1"

definition IsAlreadyOwnedError :: "host_error \<Rightarrow> bool" where
  "IsAlreadyOwnedError e = (case e of AlreadyOwned _ _ \<Rightarrow> True | _ \<Rightarrow> False)"

definition markAllocatedNetwork ::
  "string \<Rightarrow> ipnet \<Rightarrow> subnetAllocatorRange \<Rightarrow> (host_error + bool) \<times> subnetAllocatorRange" where
  "markAllocatedNetwork owner network snr =
     (let str = IPNet_String network
      in if \<not> IPNet_Contains (sr_network snr) (IP network) then (Inr False, snr)
         else case sr_allocMap snr str of
             None \<Rightarrow> (Inr True, snr\<lparr>sr_allocMap := (sr_allocMap snr)(str \<mapsto> owner), sr_used := sr_used snr + 1\<rparr>)
           | Some existingOwner \<Rightarrow>
               if existingOwner = owner then (Inr True, snr)
               else (Inl (AlreadyOwned str existingOwner), snr))"

text \<open>The loop that writes the subnet bits into the address, from byte \<open>b\<close> to the left.\<close>

function genIP_loop :: "byte list \<Rightarrow> u32 \<Rightarrow> u32 \<Rightarrow> byte list option" where
  "genIP_loop genIP subnetBits b =
     (if subnetBits \<noteq> 0 then
        (if unat b < length genIP
         then genIP_loop (genIP[unat b := genIP ! unat b OR ucast subnetBits]) (drop_bit 8 subnetBits) (b - 1)
         else None)
      else Some genIP)"
  by pat_completeness auto
termination
proof (relation "measure (\<lambda>(g, s, b). unat s)")
  fix genIP :: "byte list" and subnetBits b :: u32
  assume "subnetBits \<noteq> 0"
  then have "unat subnetBits div 256 < unat subnetBits" by (intro div_less_dividend) (auto simp: unat_gt_0)
  moreover have "unat (drop_bit 8 subnetBits) = unat subnetBits div 256"
    using unat_drop_bit_eq [of 8 subnetBits] by (simp add: drop_bit_eq_div)
  ultimately show "((genIP[unat b := genIP ! unat b OR ucast subnetBits], drop_bit 8 subnetBits, b - 1),
      genIP, subnetBits, b) \<in> measure (\<lambda>(g, s, b). unat s)"
    by (simp only: in_measure prod.case)
qed simp

declare genIP_loop.simps [simp del]

definition range_numSubnets :: "subnetAllocatorRange \<Rightarrow> u32" where
  "range_numSubnets snr =
     (if sr_subnetBits snr > 24 then push_bit 24 1 else push_bit (unat (sr_subnetBits snr)) 1)"

text \<open>The subnet number for the counter \<open>n\<close>: the rotation for IPv4, or the counter itself.\<close>

definition range_base :: "subnetAllocatorRange \<Rightarrow> u32 \<Rightarrow> u32" where
  "range_base snr n =
     (if sr_leftShift snr \<noteq> 0
      then (push_bit (unat (sr_leftShift snr)) n AND sr_leftMask snr)
             OR (drop_bit (unat (sr_rightShift snr)) n AND sr_rightMask snr)
      else n)"

text \<open>The counters the loop skips: IPv6 subnet numbers with all zeros in the low word.\<close>

definition range_skips :: "subnetAllocatorRange \<Rightarrow> u32 \<Rightarrow> bool" where
  "range_skips snr n \<longleftrightarrow> sr_leftShift snr = 0 \<and> snd (Mask_Size (Mask (sr_network snr))) = 128
     \<and> sr_subnetBits snr \<ge> 16 \<and> n AND 0xFFFF = 0"

definition genSubnet :: "subnetAllocatorRange \<Rightarrow> u32 \<Rightarrow> ipnet option" where
  "genSubnet snr n =
     (case Mask_Size (Mask (sr_network snr)) of (netMaskSize, addrLen) \<Rightarrow>
        map_option
          (\<lambda>genIP. \<lparr>IP = genIP, Mask = CIDRMask (uint (sr_subnetBits snr) + netMaskSize) addrLen\<rparr>)
          (genIP_loop (IP (sr_network snr))
             (push_bit (unat (sr_hostBits snr mod 8)) (range_base snr n))
             ((word_of_int addrLen - sr_hostBits snr - 1) div 8)))"

function allocateNetwork_loop ::
  "string \<Rightarrow> nat \<Rightarrow> subnetAllocatorRange \<Rightarrow> (ipnet option \<times> subnetAllocatorRange) option" where
  "allocateNetwork_loop owner i snr =
     (if i < unat (range_numSubnets snr) then
        (let n = (of_nat i + sr_next snr) mod range_numSubnets snr
         in if range_skips snr n then allocateNetwork_loop owner (Suc i) snr
            else case genSubnet snr n of
                None \<Rightarrow> None
              | Some g \<Rightarrow>
                  (case sr_allocMap snr (IPNet_String g) of
                     None \<Rightarrow>
                       Some (Some g, snr\<lparr>sr_allocMap := (sr_allocMap snr)(IPNet_String g \<mapsto> owner),
                                         sr_next := n + 1, sr_used := sr_used snr + 1\<rparr>)
                   | Some _ \<Rightarrow> allocateNetwork_loop owner (Suc i) snr))
      else Some (None, snr\<lparr>sr_next := 0\<rparr>))"
  by pat_completeness auto
termination
  by (relation "measure (\<lambda>(owner, i, snr). unat (range_numSubnets snr) - i)") auto

declare allocateNetwork_loop.simps [simp del]

definition allocateNetwork ::
  "string \<Rightarrow> subnetAllocatorRange \<Rightarrow> (ipnet option \<times> subnetAllocatorRange) option" where
  "allocateNetwork owner snr = allocateNetwork_loop owner 0 snr"

definition releaseNetwork ::
  "string \<Rightarrow> ipnet \<Rightarrow> subnetAllocatorRange \<Rightarrow> (host_error + bool) \<times> subnetAllocatorRange" where
  "releaseNetwork owner network snr =
     (if \<not> IPNet_Contains (sr_network snr) (IP network) then (Inr False, snr)
      else let str = IPNet_String network
           in case sr_allocMap snr str of
                None \<Rightarrow> (Inr False, snr)
              | Some existingOwner \<Rightarrow>
                  if existingOwner = owner
                  then (Inr True, snr\<lparr>sr_allocMap := (sr_allocMap snr)(str := None), sr_used := sr_used snr - 1\<rparr>)
                  else (Inl (AlreadyOwned str existingOwner), snr))"

text \<open>The loop over the map removes every entry of the owner and counts each of them down.\<close>

definition range_releaseAllNetworks :: "string \<Rightarrow> subnetAllocatorRange \<Rightarrow> subnetAllocatorRange" where
  "range_releaseAllNetworks owner snr =
     snr\<lparr>sr_allocMap := (\<lambda>k. if sr_allocMap snr k = Some owner then None else sr_allocMap snr k),
         sr_used := sr_used snr - of_nat (card {k. sr_allocMap snr k = Some owner})\<rparr>"

section \<open>The allocator\<close>

record BaseSubnetAllocator =
  sna_v4ranges :: "subnetAllocatorRange list"
  sna_v6ranges :: "subnetAllocatorRange list"

definition NewSubnetAllocator :: BaseSubnetAllocator where
  "NewSubnetAllocator = \<lparr>sna_v4ranges = [], sna_v6ranges = []\<rparr>"

definition Usage :: "BaseSubnetAllocator \<Rightarrow> u64 \<times> u64" where
  "Usage sna = (sum_list (map range_usage (sna_v4ranges sna)), sum_list (map range_usage (sna_v6ranges sna)))"

definition Count :: "BaseSubnetAllocator \<Rightarrow> u64 \<times> u64" where
  "Count sna = (sum_list (map range_count (sna_v4ranges sna)), sum_list (map range_count (sna_v6ranges sna)))"

definition AddNetworkRange ::
  "ipnet \<Rightarrow> int \<Rightarrow> BaseSubnetAllocator \<Rightarrow> (host_error + unit) \<times> BaseSubnetAllocator" where
  "AddNetworkRange network hostSubnetLen sna =
     (case newSubnetAllocatorRange network hostSubnetLen of
        Inl e \<Rightarrow> (Inl e, sna)
      | Inr snr \<Rightarrow>
          if IsIPv6 (IP (sr_network snr))
          then (Inr (), sna\<lparr>sna_v6ranges := sna_v6ranges sna @ [snr]\<rparr>)
          else (Inr (), sna\<lparr>sna_v4ranges := sna_v4ranges sna @ [snr]\<rparr>))"

text \<open>The loop over one list of ranges: whether some range took the network, or the first error.\<close>

fun mark_ranges ::
  "string \<Rightarrow> ipnet \<Rightarrow> subnetAllocatorRange list \<Rightarrow> (host_error + bool) \<times> subnetAllocatorRange list" where
  "mark_ranges owner n [] = (Inr False, [])"
| "mark_ranges owner n (r # rs) =
     (case markAllocatedNetwork owner n r of
        (Inl e, r') \<Rightarrow> (Inl e, r' # rs)
      | (Inr True, r') \<Rightarrow> (Inr True, r' # rs)
      | (Inr False, r') \<Rightarrow> (case mark_ranges owner n rs of (res, rs') \<Rightarrow> (res, r' # rs')))"

text \<open>The loop of \<open>releaseNetworks\<close> over one list of ranges for one network: whether it was
  released, and the errors on the way.\<close>

fun release_ranges ::
  "string \<Rightarrow> ipnet \<Rightarrow> subnetAllocatorRange list \<Rightarrow> bool \<times> host_error list \<times> subnetAllocatorRange list" where
  "release_ranges owner n [] = (False, [], [])"
| "release_ranges owner n (r # rs) =
     (case releaseNetwork owner n r of
        (Inr True, r') \<Rightarrow> (True, [], r' # rs)
      | (Inr False, r') \<Rightarrow> (case release_ranges owner n rs of (b, es, rs') \<Rightarrow> (b, es, r' # rs'))
      | (Inl e, r') \<Rightarrow> (case release_ranges owner n rs of (b, es, rs') \<Rightarrow> (b, e # es, r' # rs')))"

definition releaseNetwork_one ::
  "string \<Rightarrow> ipnet \<Rightarrow> BaseSubnetAllocator \<Rightarrow> host_error list \<times> BaseSubnetAllocator" where
  "releaseNetwork_one owner n sna =
     (case release_ranges owner n (sna_v4ranges sna) of
        (released, es, v4) \<Rightarrow>
          let sna1 = sna\<lparr>sna_v4ranges := v4\<rparr>; errHandled = (es \<noteq> [])
          in if released \<or> errHandled then (es, sna1)
             else case release_ranges owner n (sna_v6ranges sna1) of
                 (released', es', v6) \<Rightarrow>
                   (es @ es' @ (if released' then [] else [UnknownRange (IPNet_String n)]),
                    sna1\<lparr>sna_v6ranges := v6\<rparr>))"

fun releaseNetworks ::
  "string \<Rightarrow> ipnet list \<Rightarrow> BaseSubnetAllocator \<Rightarrow> host_error list \<times> BaseSubnetAllocator" where
  "releaseNetworks owner [] sna = ([], sna)"
| "releaseNetworks owner (n # ns) sna =
     (case releaseNetwork_one owner n sna of (es, sna1) \<Rightarrow>
        case releaseNetworks owner ns sna1 of (es', sna2) \<Rightarrow> (es @ es', sna2))"

fun MarkAllocatedNetworks_loop ::
  "string \<Rightarrow> ipnet list \<Rightarrow> ipnet list \<Rightarrow> BaseSubnetAllocator \<Rightarrow> (host_error + unit) \<times> BaseSubnetAllocator" where
  "MarkAllocatedNetworks_loop owner releaseOnError [] sna = (Inr (), sna)"
| "MarkAllocatedNetworks_loop owner releaseOnError (n # ns) sna =
     (case mark_ranges owner n (sna_v4ranges sna) of
        (Inl e, v4) \<Rightarrow> (Inl e, snd (releaseNetworks owner releaseOnError (sna\<lparr>sna_v4ranges := v4\<rparr>)))
      | (Inr True, v4) \<Rightarrow>
          MarkAllocatedNetworks_loop owner (releaseOnError @ [n]) ns (sna\<lparr>sna_v4ranges := v4\<rparr>)
      | (Inr False, v4) \<Rightarrow>
          let sna1 = sna\<lparr>sna_v4ranges := v4\<rparr>
          in case mark_ranges owner n (sna_v6ranges sna1) of
               (Inl e, v6) \<Rightarrow> (Inl e, snd (releaseNetworks owner releaseOnError (sna1\<lparr>sna_v6ranges := v6\<rparr>)))
             | (Inr True, v6) \<Rightarrow>
                 MarkAllocatedNetworks_loop owner (releaseOnError @ [n]) ns (sna1\<lparr>sna_v6ranges := v6\<rparr>)
             | (Inr False, v6) \<Rightarrow>
                 (Inl (UnknownRange (IPNet_String n)),
                  snd (releaseNetworks owner releaseOnError (sna1\<lparr>sna_v6ranges := v6\<rparr>))))"

definition MarkAllocatedNetworks ::
  "string \<Rightarrow> ipnet list \<Rightarrow> BaseSubnetAllocator \<Rightarrow> (host_error + unit) \<times> BaseSubnetAllocator" where
  "MarkAllocatedNetworks owner subnets sna = MarkAllocatedNetworks_loop owner [] subnets sna"

fun allocate_ranges ::
  "string \<Rightarrow> subnetAllocatorRange list \<Rightarrow> (ipnet option \<times> subnetAllocatorRange list) option" where
  "allocate_ranges owner [] = Some (None, [])"
| "allocate_ranges owner (r # rs) =
     (case allocateNetwork owner r of
        None \<Rightarrow> None
      | Some (Some n, r') \<Rightarrow> Some (Some n, r' # rs)
      | Some (None, r') \<Rightarrow> map_option (\<lambda>(n, rs'). (n, r' # rs')) (allocate_ranges owner rs))"

definition AllocateIPv4Network ::
  "string \<Rightarrow> BaseSubnetAllocator \<Rightarrow> ((host_error + ipnet option) \<times> BaseSubnetAllocator) option" where
  "AllocateIPv4Network owner sna =
     (if sna_v4ranges sna = [] then Some (Inr None, sna)
      else case allocate_ranges owner (sna_v4ranges sna) of
          None \<Rightarrow> None
        | Some (Some n, rs) \<Rightarrow> Some (Inr (Some n), sna\<lparr>sna_v4ranges := rs\<rparr>)
        | Some (None, rs) \<Rightarrow> Some (Inl ErrSubnetAllocatorFull, sna\<lparr>sna_v4ranges := rs\<rparr>))"

definition AllocateIPv6Network ::
  "string \<Rightarrow> BaseSubnetAllocator \<Rightarrow> ((host_error + ipnet option) \<times> BaseSubnetAllocator) option" where
  "AllocateIPv6Network owner sna =
     (if sna_v6ranges sna = [] then Some (Inr None, sna)
      else case allocate_ranges owner (sna_v6ranges sna) of
          None \<Rightarrow> None
        | Some (Some n, rs) \<Rightarrow> Some (Inr (Some n), sna\<lparr>sna_v6ranges := rs\<rparr>)
        | Some (None, rs) \<Rightarrow> Some (Inl ErrSubnetAllocatorFull, sna\<lparr>sna_v6ranges := rs\<rparr>))"

definition ReleaseNetworks ::
  "string \<Rightarrow> ipnet list \<Rightarrow> BaseSubnetAllocator \<Rightarrow> host_error list \<times> BaseSubnetAllocator" where
  "ReleaseNetworks owner subnets sna = releaseNetworks owner subnets sna"

definition ReleaseAllNetworks :: "string \<Rightarrow> BaseSubnetAllocator \<Rightarrow> BaseSubnetAllocator" where
  "ReleaseAllNetworks owner sna =
     sna\<lparr>sna_v4ranges := map (range_releaseAllNetworks owner) (sna_v4ranges sna),
         sna_v6ranges := map (range_releaseAllNetworks owner) (sna_v6ranges sna)\<rparr>"

definition AllocateNetworks ::
  "string \<Rightarrow> BaseSubnetAllocator \<Rightarrow> ((host_error + ipnet list) \<times> BaseSubnetAllocator) option" where
  "AllocateNetworks owner sna =
     (case AllocateIPv4Network owner sna of
        None \<Rightarrow> None
      | Some (Inl e, sna1) \<Rightarrow> Some (Inl e, sna1)
      | Some (Inr v4, sna1) \<Rightarrow>
          let networks = (case v4 of None \<Rightarrow> [] | Some n \<Rightarrow> [n])
          in case AllocateIPv6Network owner sna1 of
               None \<Rightarrow> None
             | Some (Inl e, sna2) \<Rightarrow>
                 Some (Inl e, if networks \<noteq> [] then snd (ReleaseNetworks owner networks sna2) else sna2)
             | Some (Inr v6, sna2) \<Rightarrow>
                 Some (Inr (networks @ (case v6 of None \<Rightarrow> [] | Some n \<Rightarrow> [n])), sna2))"

section \<open>Writing subnet bits into an address\<close>

lemma big_SetBytes_concat: "big_SetBytes (b # bs) = concat_bit (8 * length bs) (big_SetBytes bs) (uint b)"
proof -
  have "take_bit (8 * length bs) (big_SetBytes bs) = big_SetBytes bs"
    using big_SetBytes_lt [of bs] by (intro take_bit_int_eq_self) (simp_all add: exp256)
  then show ?thesis by (simp add: big_SetBytes_Cons concat_bit_eq push_bit_eq_mult exp256)
qed

lemma bit_big_SetBytes:
  "bit (big_SetBytes xs) k \<longleftrightarrow> k < 8 * length xs \<and> bit (xs ! (length xs - 1 - k div 8)) (k mod 8)"
proof (induction xs arbitrary: k)
  case (Cons b xs)
  let ?l = "8 * length xs"
  have "bit (big_SetBytes (b # xs)) k \<longleftrightarrow> k < ?l \<and> bit (big_SetBytes xs) k \<or> ?l \<le> k \<and> bit (uint b) (k - ?l)"
    by (simp only: big_SetBytes_concat bit_concat_bit_iff)
  also have "\<dots> \<longleftrightarrow> k < 8 * length (b # xs) \<and> bit ((b # xs) ! (length (b # xs) - 1 - k div 8)) (k mod 8)"
  proof (cases "k < ?l")
    case True
    then have "length xs - k div 8 = Suc (length xs - 1 - k div 8)" by (simp add: less_mult_imp_div_less)
    then show ?thesis using True Cons.IH [of k] by auto
  next
    case False
    show ?thesis
    proof (cases "k < ?l + 8")
      case True
      then have d: "k div 8 = length xs" using False by simp
      moreover have "k mod 8 = k - ?l" using d by (simp add: minus_div_mult_eq_mod [symmetric])
      ultimately have "k div 8 = length xs" "k mod 8 = k - ?l" by auto
      moreover have "k - ?l < 8" using True False by simp
      ultimately show ?thesis using True False by (simp add: bit_uint_iff)
    next
      case F: False
      have "\<not> bit (uint b) (k - ?l)"
        using F bit_imp_le_length [of b "k - ?l"] by (auto simp: bit_uint_iff)
      then show ?thesis using F False by simp
    qed
  qed
  finally show ?case .
qed simp

lemma big_SetBytes_or:
  assumes "j < length g"
  shows "big_SetBytes (g[j := g ! j OR w]) = big_SetBytes g OR push_bit (8 * (length g - 1 - j)) (uint w)"
proof (rule bit_eqI)
  fix k
  let ?p = "length g - 1 - j" and ?i = "length g - 1 - k div 8"
  have w8: "bit w i \<Longrightarrow> i < 8" for i using bit_imp_le_length [of w i] by simp
  have "?i = j \<longleftrightarrow> k div 8 = ?p" if "k < 8 * length g"
    using that assms by (auto simp: less_mult_imp_div_less)
  moreover have "k div 8 = ?p \<longleftrightarrow> 8 * ?p \<le> k \<and> k - 8 * ?p < 8" by auto
  moreover have "k div 8 = ?p \<Longrightarrow> k mod 8 = k - 8 * ?p" by (simp add: minus_div_mult_eq_mod [symmetric])
  moreover have "k div 8 = ?p \<Longrightarrow> k < 8 * length g" using assms by auto
  moreover have "?i < length g" using assms by linarith
  ultimately show "bit (big_SetBytes (g[j := g ! j OR w])) k =
      bit (big_SetBytes g OR push_bit (8 * ?p) (uint w)) k"
    by (auto simp: bit_big_SetBytes bit_or_iff bit_push_bit_iff bit_uint_iff nth_list_update dest: w8)
qed

lemma genIP_loop_spec:
  assumes "unat b < length g" and "length g < 2 ^ 31" and "uint s < 2 ^ (8 * (unat b + 1))"
  shows "\<exists>g'. genIP_loop g s b = Some g' \<and> length g' = length g
    \<and> big_SetBytes g' = big_SetBytes g OR push_bit (8 * (length g - 1 - unat b)) (uint s)"
  using assms
proof (induction g s b rule: genIP_loop.induct)
  case (1 g s b)
  show ?case
  proof (cases "s = 0")
    case True
    then show ?thesis by (simp add: genIP_loop.simps)
  next
    case False
    let ?g = "g[unat b := g ! unat b OR ucast s]" and ?s = "drop_bit 8 s"
    have step: "genIP_loop g s b = genIP_loop ?g ?s (b - 1)"
      using False "1.prems"(1) by (subst genIP_loop.simps) simp
    have or1: "big_SetBytes ?g = big_SetBytes g OR push_bit (8 * (length g - 1 - unat b)) (uint (ucast s :: byte))"
      by (rule big_SetBytes_or [OF "1.prems"(1)])
    have lo: "uint (ucast s :: byte) = take_bit 8 (uint s)" by (simp add: unsigned_ucast_eq)
    have hi: "uint ?s = drop_bit 8 (uint s)"
    proof -
      have "int (unat (drop_bit 8 s)) = int (drop_bit 8 (unat s))" by (simp only: unat_drop_bit_eq)
      then show ?thesis by (simp add: drop_bit_eq_div zdiv_int)
    qed
    have split: "push_bit p (take_bit 8 (uint s)) OR push_bit (p + 8) (drop_bit 8 (uint s)) = push_bit p (uint s)" for p
    proof (rule bit_eqI)
      fix n
      have "8 + (n - (p + 8)) = n - p" if "p + 8 \<le> n" using that by simp
      then show "bit (push_bit p (take_bit 8 (uint s)) OR push_bit (p + 8) (drop_bit 8 (uint s))) n =
          bit (push_bit p (uint s)) n"
        by (cases "p + 8 \<le> n") (auto simp: bit_or_iff bit_push_bit_iff bit_take_bit_iff bit_drop_bit_eq)
    qed
    show ?thesis
    proof (cases "?s = 0")
      case True
      then have "genIP_loop ?g ?s (b - 1) = Some ?g" by (subst genIP_loop.simps) simp
      moreover have "take_bit 8 (uint s) = uint s"
        using True hi split [of 0] by simp
      ultimately show ?thesis using step or1 lo by simp
    next
      case s0: False
      have "unat b \<noteq> 0"
      proof
        assume "unat b = 0"
        then have "uint s < 2 ^ 8" using "1.prems"(3) by simp
        then have "drop_bit 8 (uint s) = 0" by (simp add: drop_bit_eq_div)
        then show False using s0 hi by (metis uint_0_iff)
      qed
      then have b1: "unat (b - 1) = unat b - 1" by (simp add: unat_minus_one unat_eq_0)
      have "uint ?s < 2 ^ (8 * (unat (b - 1) + 1))"
      proof -
        have "8 * (unat b + 1) = 8 * (unat (b - 1) + 1) + 8" using b1 \<open>unat b \<noteq> 0\<close> by simp
        then have "uint s < 2 ^ (8 * (unat (b - 1) + 1)) * 256" using "1.prems"(3) by (simp add: power_add)
        moreover have "uint ?s = uint s div 256" using hi by (simp only: drop_bit_eq_div) simp
        then have "uint ?s * 256 \<le> uint s" using div_mult_le_int [of 256 "uint s"] by simp
        ultimately show ?thesis by linarith
      qed
      moreover have "unat (b - 1) < length g" using b1 "1.prems"(1) by simp
      ultimately obtain g' where g': "genIP_loop ?g ?s (b - 1) = Some g'" "length g' = length g"
          "big_SetBytes g' = big_SetBytes ?g OR push_bit (8 * (length g - 1 - unat (b - 1))) (uint ?s)"
        using "1.IH" [OF False "1.prems"(1)] "1.prems"(2) by auto
      have "8 * (length g - 1 - unat (b - 1)) = 8 * (length g - 1 - unat b) + 8"
        using b1 \<open>unat b \<noteq> 0\<close> "1.prems"(1) by simp
      then have "big_SetBytes g' = big_SetBytes g OR push_bit (8 * (length g - 1 - unat b)) (uint s)"
        unfolding g'(3) or1 lo hi split [symmetric] by (simp only: or.assoc)
      then show ?thesis using step g' by auto
    qed
  qed
qed

section \<open>Invariant of a range\<close>

definition snr_wf :: "subnetAllocatorRange \<Rightarrow> bool" where
  "snr_wf r \<longleftrightarrow> cidr_wf (sr_network r)
     \<and> net_ones (sr_network r) + unat (sr_subnetBits r) + unat (sr_hostBits r) = net_bits (sr_network r)
     \<and> 0 < unat (sr_hostBits r) \<and> unat (sr_hostBits r) < net_bits (sr_network r)
     \<and> (is4 (IP (sr_network r)) \<or> BigForIP (IP (sr_network r)) + net_size (sr_network r) \<le> v4_base
        \<or> v4_base + 2 ^ 32 \<le> BigForIP (IP (sr_network r)))
     \<and> (sr_leftShift r \<noteq> 0 \<longrightarrow> is4 (IP (sr_network r))
        \<and> unat (sr_leftShift r) + unat (sr_hostBits r) mod 8 = 8
        \<and> unat (sr_leftShift r) < unat (sr_subnetBits r)
        \<and> sr_leftMask r = mask (unat (sr_subnetBits r))
        \<and> unat (sr_rightShift r) = unat (sr_subnetBits r) - unat (sr_leftShift r)
        \<and> sr_rightMask r = mask (unat (sr_leftShift r)))
     \<and> finite (dom (sr_allocMap r)) \<and> sr_used r = of_nat (card (dom (sr_allocMap r)))"

lemma numSubnets_value: "unat (range_numSubnets r) = 2 ^ min 24 (unat (sr_subnetBits r))"
proof (cases "sr_subnetBits r > 24")
  case True
  then have "24 < unat (sr_subnetBits r)" by (simp add: word_less_nat_alt)
  then show ?thesis using True by (simp add: range_numSubnets_def)
next
  case False
  then have le: "unat (sr_subnetBits r) \<le> 24" by (simp add: word_less_nat_alt not_less)
  then have "(2::nat) ^ unat (sr_subnetBits r) \<le> 2 ^ 24" by (intro power_increasing) auto
  then have "(2::nat) ^ unat (sr_subnetBits r) < 2 ^ LENGTH(32)" by simp
  then have "unat (of_nat (2 ^ unat (sr_subnetBits r)) :: u32) = 2 ^ unat (sr_subnetBits r)"
    by (simp only: unsigned_of_nat take_bit_nat_eq_self of_nat_id)
  then have "unat (2 ^ unat (sr_subnetBits r) :: u32) = 2 ^ unat (sr_subnetBits r)" by simp
  then show ?thesis using False le by (simp add: range_numSubnets_def min_def push_bit_eq_mult)
qed

text \<open>The rotation by \<open>l\<close> of the low \<open>s\<close> bits.\<close>

lemma bit_rotation:
  fixes w ls rs :: u32 and n :: nat
  assumes "l < s" and "s \<le> 32" and "n < 2 ^ s" and "unat rs = s - l" and "unat ls = l" and "unat w = n"
  shows "bit (push_bit (unat ls) w AND mask s OR (drop_bit (unat rs) w AND mask l)) k \<longleftrightarrow>
    k < s \<and> bit n ((k + (s - l)) mod s)"
proof -
  have wn: "bit w i \<longleftrightarrow> bit n i" for i using assms(6) by (auto simp: bit_unsigned_iff)
  have hi: "bit n i \<Longrightarrow> i < s" for i
    using assms(3) by (metis bit_take_bit_iff take_bit_nat_eq_self)
  have L: "bit (push_bit (unat ls) w AND mask s) k \<longleftrightarrow> k < s \<and> l \<le> k \<and> bit n (k - l)"
    using assms(1,2,5) wn by (auto simp: bit_and_iff bit_push_bit_iff bit_mask_iff)
  have R: "bit (drop_bit (unat rs) w AND mask l) k \<longleftrightarrow> k < l \<and> bit n (k + (s - l))"
    using assms(1,2,4) wn by (auto simp: bit_and_iff bit_drop_bit_eq bit_mask_iff add.commute)
  have m: "(k + (s - l)) mod s = (if k < l then k + (s - l) else k - l)" if "k < s"
  proof (cases "k < l")
    case True
    then show ?thesis using assms(1) by simp
  next
    case False
    then have "(k + (s - l)) mod s = (k - l + s) mod s" using assms(1) by simp
    also have "\<dots> = k - l" using that by simp
    finally show ?thesis using False by simp
  qed
  show ?thesis
  proof (cases "k < s")
    case True
    then show ?thesis unfolding bit_or_iff L R m [OF True] using assms(1) by (cases "k < l") auto
  qed (use L R assms(1) in \<open>simp add: bit_or_iff\<close>)
qed

lemma range_base_no_rotation: "sr_leftShift r = 0 \<Longrightarrow> range_base r n = n"
  by (simp add: range_base_def)

lemma range_base_bits:
  assumes "snr_wf r" and "sr_leftShift r \<noteq> 0" and "unat n < 2 ^ unat (sr_subnetBits r)"
  shows "bit (range_base r n) k \<longleftrightarrow> k < unat (sr_subnetBits r) \<and>
    bit (unat n) ((k + (unat (sr_subnetBits r) - unat (sr_leftShift r))) mod unat (sr_subnetBits r))"
proof -
  have wf: "unat (sr_leftShift r) < unat (sr_subnetBits r)" "sr_leftMask r = mask (unat (sr_subnetBits r))"
      "unat (sr_rightShift r) = unat (sr_subnetBits r) - unat (sr_leftShift r)"
      "sr_rightMask r = mask (unat (sr_leftShift r))" "net_bits (sr_network r) = 32"
      "net_ones (sr_network r) + unat (sr_subnetBits r) + unat (sr_hostBits r) = net_bits (sr_network r)"
    using assms(1,2) BigForIP_cidr(2) [of "sr_network r"] by (auto simp: snr_wf_def)
  have "unat (sr_subnetBits r) \<le> 32" using wf by simp
  then show ?thesis
    using bit_rotation [OF wf(1) _ assms(3) wf(3) refl refl, of k] assms(2) wf(2,4)
    by (simp only: range_base_def if_True simp_thms)
qed

lemma uint_lt_of_bits: "(\<And>k. bit w k \<Longrightarrow> k < s) \<Longrightarrow> uint w < 2 ^ s"
proof -
  assume *: "\<And>k. bit w k \<Longrightarrow> k < s"
  have "take_bit s (uint w) = uint w"
    by (rule bit_eqI) (auto simp: bit_take_bit_iff bit_uint_iff dest: *)
  then show ?thesis using take_bit_int_less_exp [of s "uint w"] by simp
qed

lemma uint_push_bit_exact:
  fixes w :: u32
  assumes "uint w * 2 ^ m < 2 ^ 32"
  shows "uint (push_bit m w) = uint w * 2 ^ m"
proof -
  have "uint (push_bit m w) = take_bit 32 (push_bit m (uint w))"
    by (rule bit_eqI) (auto simp: bit_uint_iff bit_push_bit_iff bit_take_bit_iff)
  also have "push_bit m (uint w) = uint w * 2 ^ m" by (rule push_bit_eq_mult)
  also have "take_bit 32 (uint w * 2 ^ m) = uint w * 2 ^ m" using assms by (intro take_bit_int_eq_self) auto
  finally show ?thesis .
qed

abbreviation counters :: "subnetAllocatorRange \<Rightarrow> u32 set" where
  "counters r \<equiv> {n. unat n < 2 ^ min 24 (unat (sr_subnetBits r))}"

lemma counters_lt: "n \<in> counters r \<Longrightarrow> unat n < 2 ^ unat (sr_subnetBits r) \<and> unat n < 2 ^ 24"
proof -
  assume "n \<in> counters r"
  then have "unat n < 2 ^ min 24 (unat (sr_subnetBits r))" by simp
  moreover have "(2::nat) ^ min 24 (unat (sr_subnetBits r)) \<le> 2 ^ unat (sr_subnetBits r)"
    "(2::nat) ^ min 24 (unat (sr_subnetBits r)) \<le> 2 ^ 24" by (intro power_increasing; simp)+
  ultimately show ?thesis by linarith
qed

text \<open>The subnet number stays below the number of subnets, and shifting it to its octet does not
  overflow 32 bits.\<close>

lemma range_base_bounds:
  assumes "snr_wf r" and "n \<in> counters r"
  shows "uint (range_base r n) < 2 ^ unat (sr_subnetBits r)"
    and "uint (push_bit (unat (sr_hostBits r mod 8)) (range_base r n)) =
      uint (range_base r n) * 2 ^ (unat (sr_hostBits r) mod 8)"
proof -
  note lt = counters_lt [OF assms(2)]
  have m8: "unat (sr_hostBits r mod 8) = unat (sr_hostBits r) mod 8" by (simp add: unat_mod)
  show b: "uint (range_base r n) < 2 ^ unat (sr_subnetBits r)"
  proof (cases "sr_leftShift r = 0")
    case True
    have "int (unat n) < 2 ^ unat (sr_subnetBits r)" using lt by (metis of_nat_less_iff of_nat_numeral of_nat_power)
    then show ?thesis using True by (simp add: range_base_no_rotation)
  next
    case False
    then show ?thesis using range_base_bits [OF assms(1) False] lt by (intro uint_lt_of_bits) auto
  qed
  have "uint (range_base r n) * 2 ^ (unat (sr_hostBits r) mod 8) < 2 ^ 32"
  proof (cases "sr_leftShift r = 0")
    case True
    have "uint n < 2 ^ 24" using lt by (metis of_nat_less_iff of_nat_numeral of_nat_power of_nat_unat)
    moreover have "(2::int) ^ (unat (sr_hostBits r) mod 8) \<le> 2 ^ 7" by (intro power_increasing) auto
    ultimately have "uint n * 2 ^ (unat (sr_hostBits r) mod 8) \<le> 2 ^ 24 * 2 ^ 7"
      by (intro mult_mono) auto
    then show ?thesis using True by (simp add: range_base_no_rotation)
  next
    case False
    then have "unat (sr_subnetBits r) + unat (sr_hostBits r) \<le> 32"
      using assms(1) BigForIP_cidr(2) [of "sr_network r"] by (auto simp: snr_wf_def)
    then have "unat (sr_subnetBits r) + unat (sr_hostBits r) mod 8 \<le> 32"
      using mod_less_eq_dividend [of "unat (sr_hostBits r)" 8] by linarith
    then have "(2::int) ^ (unat (sr_subnetBits r) + unat (sr_hostBits r) mod 8) \<le> 2 ^ 32"
      by (intro power_increasing) auto
    moreover have "uint (range_base r n) * 2 ^ (unat (sr_hostBits r) mod 8)
        < 2 ^ unat (sr_subnetBits r) * 2 ^ (unat (sr_hostBits r) mod 8)"
      using b by (intro mult_strict_right_mono) auto
    ultimately show ?thesis unfolding power_add by linarith
  qed
  then show "uint (push_bit (unat (sr_hostBits r mod 8)) (range_base r n)) =
      uint (range_base r n) * 2 ^ (unat (sr_hostBits r) mod 8)"
    unfolding m8 by (rule uint_push_bit_exact)
qed

lemma range_base_inj:
  assumes "snr_wf r"
  shows "inj_on (range_base r) {n. unat n < 2 ^ unat (sr_subnetBits r)}"
proof (rule inj_onI, goal_cases)
  case (1 n n')
  show ?case
  proof (cases "sr_leftShift r = 0")
    case True
    then show ?thesis using 1 by (simp add: range_base_no_rotation)
  next
    case False
    let ?S = "unat (sr_subnetBits r)" and ?l = "unat (sr_leftShift r)"
    have S: "0 < ?S" using assms False by (auto simp: snr_wf_def)
    have "bit (unat n) j = bit (unat n') j" for j
    proof (cases "j < ?S")
      case True
      then have "j \<in> (\<lambda>i. (?S - ?l + i) mod ?S) ` {..<?S}"
        using rotate_mod_set [OF S, of "?S - ?l"] by simp
      then obtain k where "k < ?S" "(k + (?S - ?l)) mod ?S = j" by (auto simp: add.commute)
      then show ?thesis
        using range_base_bits [OF assms False, of n k] range_base_bits [OF assms False, of n' k] 1 by simp
    next
      case False
      then have "\<not> bit (unat m) j" if "unat m < 2 ^ ?S" for m :: u32
        using that by (metis bit_take_bit_iff take_bit_nat_eq_self)
      then show ?thesis using 1 by simp
    qed
    then have "unat n = unat n'" by (intro bit_eqI) blast
    then show ?thesis by (simp add: unsigned_word_eqI)
  qed
qed

lemma masked_iff_dvd:
  assumes "n \<le> 8 * length as"
  shows "map2 (AND) as (cidrBytes (length as) n) = as \<longleftrightarrow> 2 ^ (8 * length as - n) dvd big_SetBytes as"
proof
  assume d: "2 ^ (8 * length as - n) dvd big_SetBytes as"
  let ?M = "cidrBytes (length as) n" and ?h = "8 * length as - n"
  let ?B = "map2 (AND) as ?M"
  have len: "length ?B = length as" by simp
  have idem: "map2 (AND) ?B ?M = ?B"
    by (rule nth_equalityI) (simp_all add: and.assoc)
  have "2 ^ ?h dvd big_SetBytes ?B" using masked_dvd [of ?B n] idem assms len by simp
  moreover have "big_SetBytes ?B div 2 ^ ?h = big_SetBytes as div 2 ^ ?h"
    using map2_and_cidr [of ?B as n] idem assms len by simp
  ultimately have "big_SetBytes ?B = big_SetBytes as" using d by (metis dvd_div_mult_self)
  then show "?B = as" using big_SetBytes_inject [OF len] by simp
qed (rule masked_dvd [OF _ assms])

lemma or_eq_add_aligned:
  assumes "2 ^ k dvd (a::int)" and "0 \<le> b" and "b < 2 ^ k"
  shows "a OR b = a + b"
proof -
  obtain q where q: "a = 2 ^ k * q" using assms(1) by (elim dvdE)
  have "\<not> bit a i \<or> \<not> bit b i" for i
  proof (cases "i < k")
    case True
    have "a = push_bit k q" using q by (simp add: push_bit_eq_mult)
    then show ?thesis using True by (simp add: bit_push_bit_iff)
  next
    case False
    then show ?thesis using bit_lt_exp [OF assms(2,3), of i] by auto
  qed
  then have "a AND b = 0" by (intro bit_eqI) (auto simp: bit_and_iff)
  then show ?thesis by (simp add: disjunctive_add_eq_or [symmetric])
qed

lemma CIDRMask_cidrBytes:
  "l = 4 \<or> l = 16 \<Longrightarrow> k \<le> 8 * l \<Longrightarrow> CIDRMask (int k) (int (8 * l)) = cidrBytes l k"
  by (auto simp: CIDRMask_def)

lemma net_ones_cidrBytes:
  "Mask g = cidrBytes l k \<Longrightarrow> l = 4 \<or> l = 16 \<Longrightarrow> k \<le> 8 * l \<Longrightarrow> net_ones g = k"
  by (simp add: net_ones_def simpleMaskLength_cidrBytes)

lemma genIP_index:
  assumes "snr_wf r"
  shows "unat ((word_of_int (int (net_bits (sr_network r))) - sr_hostBits r - 1 :: u32) div 8) =
    length (IP (sr_network r)) - 1 - unat (sr_hostBits r) div 8"
    and "unat (sr_hostBits r) div 8 < length (IP (sr_network r))"
proof -
  let ?B = "net_bits (sr_network r)" and ?H = "unat (sr_hostBits r)" and ?L = "length (IP (sr_network r))"
  have B: "?B = 8 * ?L" "?B = 32 \<or> ?B = 128" "0 < ?H" "?H < ?B"
    using assms BigForIP_cidr(3) [of "sr_network r"] by (auto simp: snr_wf_def net_bits_def)
  have u: "unat (word_of_int (int ?B) :: u32) = ?B" using B(2) by auto
  have s: "unat (word_of_int (int ?B) - sr_hostBits r) = ?B - ?H"
    using u B(4) by (simp add: unat_sub word_le_nat_alt)
  then have "word_of_int (int ?B) - sr_hostBits r \<noteq> 0" using B(4) by (metis unat_0 zero_less_diff less_numeral_extra(3))
  then have "unat (word_of_int (int ?B) - sr_hostBits r - 1) = ?B - ?H - 1" using s by (simp add: unat_minus_one)
  then have "unat ((word_of_int (int ?B) - sr_hostBits r - 1 :: u32) div 8) = (8 * ?L - ?H - 1) div 8"
    unfolding B(1) by (simp add: unat_div)
  also have "\<dots> = ?L - 1 - ?H div 8" using B by arith
  finally show "unat ((word_of_int (int ?B) - sr_hostBits r - 1 :: u32) div 8) = ?L - 1 - ?H div 8" .
  show "?H div 8 < ?L" using B by arith
qed

text \<open>The subnet of a counter: a canonical network of the host subnet length inside the cluster
  network, at the offset given by the subnet number.\<close>

lemma genSubnet_bytes:
  assumes "snr_wf r" and "n \<in> counters r"
  shows "\<exists>g. genSubnet r n = Some g \<and> length (IP g) = length (IP (sr_network r))
    \<and> Mask g = cidrBytes (length (IP g)) (net_ones (sr_network r) + unat (sr_subnetBits r))
    \<and> big_SetBytes (IP g) = big_SetBytes (IP (sr_network r)) + uint (range_base r n) * 2 ^ unat (sr_hostBits r)"
proof -
  let ?N = "sr_network r" and ?H = "unat (sr_hostBits r)" and ?S = "unat (sr_subnetBits r)"
  let ?L = "length (IP ?N)" and ?o = "net_ones ?N" and ?base = "uint (range_base r n)"
  let ?b = "(word_of_int (int (net_bits ?N)) - sr_hostBits r - 1 :: u32) div 8"
  let ?s = "push_bit (unat (sr_hostBits r mod 8)) (range_base r n)"
  have wf: "cidr_wf ?N" "?o + ?S + ?H = 8 * ?L" "?L = 4 \<or> ?L = 16"
    using assms(1) by (auto simp: snr_wf_def net_bits_def cidr_wf_def)
  note idx = genIP_index [OF assms(1)] and base = range_base_bounds [OF assms]
  have ms: "Mask_Size (Mask ?N) = (int ?o, int (net_bits ?N))" by (rule net_mask_size [OF wf(1)])
  have b1: "unat ?b < ?L" using idx wf(3) by (simp add: less_imp_diff_less)
  have e8: "8 * (unat ?b + 1) = 8 * ?L - 8 * (?H div 8)" unfolding idx(1) using idx(2) by simp
  have pos: "8 * (?L - 1 - unat ?b) = 8 * (?H div 8)" unfolding idx(1) using idx(2) by simp
  have "?base * 2 ^ (?H mod 8) < 2 ^ ?S * 2 ^ (?H mod 8)" using base(1) by (intro mult_strict_right_mono) auto
  moreover have "(2::int) ^ (?S + ?H mod 8) \<le> 2 ^ (8 * ?L - 8 * (?H div 8))"
    using wf(2) by (intro power_increasing) (simp_all add: modulo_nat_def)
  ultimately have "uint ?s < 2 ^ (8 * (unat ?b + 1))" unfolding base(2) e8 power_add by linarith
  moreover have "?L < 2 ^ 31" using wf(3) by auto
  ultimately obtain g' where g': "genIP_loop (IP ?N) ?s ?b = Some g'" "length g' = ?L"
      "big_SetBytes g' = big_SetBytes (IP ?N) OR push_bit (8 * (?L - 1 - unat ?b)) (uint ?s)"
    using genIP_loop_spec [OF b1] by blast
  have "push_bit (8 * (?L - 1 - unat ?b)) (uint ?s) = ?base * (2 ^ (?H mod 8) * 2 ^ (8 * (?H div 8)))"
    unfolding pos base(2) by (simp only: push_bit_eq_mult mult.assoc)
  also have "(2::int) ^ (?H mod 8) * 2 ^ (8 * (?H div 8)) = 2 ^ ?H"
    by (simp add: power_add [symmetric])
  finally have sh: "push_bit (8 * (?L - 1 - unat ?b)) (uint ?s) = ?base * 2 ^ ?H" .
  have "?base * 2 ^ ?H < 2 ^ ?S * 2 ^ ?H" using base(1) by (intro mult_strict_right_mono) auto
  moreover have sz: "net_size ?N = 2 ^ ?S * 2 ^ ?H" using wf(2) by (simp add: net_size_def net_bits_def power_add [symmetric])
  ultimately have "big_SetBytes g' = big_SetBytes (IP ?N) + ?base * 2 ^ ?H"
    unfolding g'(3) sh using cidr_aligned [OF wf(1)] wf(2)
    by (intro or_eq_add_aligned [where k = "?S + ?H"]) (simp_all add: net_size_def net_bits_def power_add)
  moreover have "CIDRMask (uint (sr_subnetBits r) + int ?o) (int (net_bits ?N)) = cidrBytes ?L (?o + ?S)"
  proof -
    have "uint (sr_subnetBits r) + int ?o = int (?o + ?S)" by simp
    moreover have "?o + ?S \<le> 8 * ?L" using wf(2) by simp
    ultimately show ?thesis unfolding net_bits_def using CIDRMask_cidrBytes [OF wf(3)] by metis
  qed
  ultimately show ?thesis using g' ms by (simp add: genSubnet_def)
qed

lemma genSubnet_spec:
  assumes "snr_wf r" and "n \<in> counters r"
  shows "\<exists>g. genSubnet r n = Some g \<and> cidr_wf g \<and> net_bits g = net_bits (sr_network r)
    \<and> net_ones g = net_ones (sr_network r) + unat (sr_subnetBits r)
    \<and> BigForIP (IP g) = BigForIP (IP (sr_network r)) + uint (range_base r n) * 2 ^ unat (sr_hostBits r)
    \<and> (is4 (IP g) \<longleftrightarrow> is4 (IP (sr_network r))) \<and> net_size g = 2 ^ unat (sr_hostBits r)
    \<and> BigForIP (IP g) + net_size g \<le> BigForIP (IP (sr_network r)) + net_size (sr_network r)"
proof -
  let ?N = "sr_network r" and ?H = "unat (sr_hostBits r)" and ?S = "unat (sr_subnetBits r)"
  let ?x = "uint (range_base r n) * 2 ^ unat (sr_hostBits r)"
  obtain g where g: "genSubnet r n = Some g" "length (IP g) = length (IP ?N)"
      "Mask g = cidrBytes (length (IP g)) (net_ones ?N + ?S)" "big_SetBytes (IP g) = big_SetBytes (IP ?N) + ?x"
    using genSubnet_bytes [OF assms] by blast
  have wf: "cidr_wf ?N" "net_ones ?N + ?S + ?H = net_bits ?N" "is4 (IP ?N) \<or> BigForIP (IP ?N) + net_size ?N \<le> v4_base
      \<or> v4_base + 2 ^ 32 \<le> BigForIP (IP ?N)"
    using assms(1) by (auto simp: snr_wf_def)
  have sz: "net_size ?N = 2 ^ ?S * 2 ^ ?H"
    using wf(2) by (simp add: net_size_def power_add [symmetric])
  have "uint (range_base r n) + 1 \<le> 2 ^ ?S" using range_base_bounds(1) [OF assms] by simp
  then have "(uint (range_base r n) + 1) * 2 ^ ?H \<le> 2 ^ ?S * 2 ^ ?H" by (intro mult_right_mono) auto
  then have last: "?x + 2 ^ ?H \<le> net_size ?N" unfolding sz by (simp add: distrib_right)
  have "net_size ?N dvd big_SetBytes (IP ?N)" by (rule cidr_aligned [OF wf(1)])
  then have "(2::int) ^ ?H dvd big_SetBytes (IP g)" unfolding g(4) sz by (meson dvd_add dvd_mult_right dvd_triv_right)
  moreover have "?H = 8 * length (IP g) - (net_ones ?N + ?S)" "net_ones ?N + ?S \<le> 8 * length (IP g)"
    using wf(2) g(2) by (auto simp: net_bits_def)
  ultimately have masked: "map2 (AND) (IP g) (Mask g) = IP g" using masked_iff_dvd g(3) by metis
  have nb: "net_bits g = net_bits ?N" using g(2) by (simp add: net_bits_def)
  have len: "length (IP ?N) = 4 \<or> length (IP ?N) = 16" using wf(1) by (auto simp: cidr_wf_def)
  have v6: "To4 (IP g) = []" if "length (IP ?N) = 16"
  proof -
    have n6: "\<not> is4 (IP ?N)" using that wf(1) by (auto simp: cidr_wf_def)
    then have "BigForIP (IP ?N) = big_SetBytes (IP ?N)" using BigForIP_cidr(1) [OF wf(1)] by simp
    moreover have "BigForIP (IP g) = big_SetBytes (IP g)" using that g(2) by (simp add: BigForIP_def To16_def)
    ultimately have "BigForIP (IP g) = BigForIP (IP ?N) + ?x" using g(4) by simp
    moreover have "0 \<le> ?x" "(0::int) < 2 ^ ?H" by simp_all
    ultimately show ?thesis using wf(3) n6 last is4_iff [of "IP g"] that g(2) by linarith
  qed
  have ones: "net_ones g = net_ones ?N + ?S"
    using net_ones_cidrBytes [OF g(3)] g(2) len wf(2) by (simp add: net_bits_def)
  have cw: "cidr_wf g"
    unfolding cidr_wf_def ones nb using g(2,3) masked v6 wf(2) len by auto
  have f: "is4 (IP g) \<longleftrightarrow> is4 (IP ?N)" using BigForIP_cidr(2) [OF cw] BigForIP_cidr(2) [OF wf(1)] nb by simp
  have big: "BigForIP (IP g) = BigForIP (IP ?N) + ?x"
    using BigForIP_cidr(1) [OF cw] BigForIP_cidr(1) [OF wf(1)] f g(4) by simp
  have "net_size g = 2 ^ ?H" using ones nb wf(2) by (simp add: net_size_def)
  then show ?thesis using g(1) cw nb ones big f last by auto
qed

section \<open>Allocation from a range\<close>

lemma counter_value:
  "unat ((of_nat j + sr_next r) mod range_numSubnets r) = (j + unat (sr_next r)) mod 2 ^ min 24 (unat (sr_subnetBits r))"
proof -
  let ?m = "min 24 (unat (sr_subnetBits r))"
  have "(2::nat) ^ ?m dvd 2 ^ 32" by (intro le_imp_power_dvd) simp
  moreover have "unat (of_nat j + sr_next r) = (j + unat (sr_next r)) mod 2 ^ 32"
    by (simp add: unat_word_ariths unsigned_of_nat take_bit_eq_mod mod_add_left_eq)
  ultimately show ?thesis by (simp only: unat_mod numSubnets_value mod_mod_cancel)
qed

lemma counter_in: "(of_nat j + sr_next r) mod range_numSubnets r \<in> counters r"
  by (simp add: counter_value)

lemma counter_all:
  assumes "n \<in> counters r"
  shows "\<exists>j < unat (range_numSubnets r). (of_nat j + sr_next r) mod range_numSubnets r = n"
proof -
  let ?N = "(2::nat) ^ min 24 (unat (sr_subnetBits r))"
  have "unat n \<in> (\<lambda>i. (unat (sr_next r) + i) mod ?N) ` {..<?N}"
    using rotate_mod_set [of ?N "unat (sr_next r)"] assms by simp
  then obtain j where "j < ?N" "unat n = (j + unat (sr_next r)) mod ?N" by (auto simp: add.commute)
  then have "j < unat (range_numSubnets r)" "unat ((of_nat j + sr_next r) mod range_numSubnets r) = unat n"
    by (simp_all only: numSubnets_value counter_value)
  then show ?thesis by (auto dest: unsigned_word_eqI)
qed

text \<open>A counter is taken when it is skipped or its subnet has an owner.\<close>

definition counter_taken :: "subnetAllocatorRange \<Rightarrow> u32 \<Rightarrow> bool" where
  "counter_taken r n \<longleftrightarrow> range_skips r n \<or> (\<exists>g. genSubnet r n = Some g \<and> sr_allocMap r (IPNet_String g) \<noteq> None)"

definition range_take :: "string \<Rightarrow> u32 \<Rightarrow> ipnet \<Rightarrow> subnetAllocatorRange \<Rightarrow> subnetAllocatorRange" where
  "range_take owner n g r = r\<lparr>sr_allocMap := (sr_allocMap r)(IPNet_String g \<mapsto> owner),
     sr_next := n + 1, sr_used := sr_used r + 1\<rparr>"

abbreviation range_full_from :: "nat \<Rightarrow> subnetAllocatorRange \<Rightarrow> bool" where
  "range_full_from i r \<equiv> \<forall>j. i \<le> j \<and> j < unat (range_numSubnets r) \<longrightarrow>
     counter_taken r ((of_nat j + sr_next r) mod range_numSubnets r)"

lemma allocateNetwork_loop_spec:
  assumes "snr_wf r"
  shows "(\<exists>n g. n \<in> counters r \<and> genSubnet r n = Some g \<and> sr_allocMap r (IPNet_String g) = None \<and>
        allocateNetwork_loop owner i r = Some (Some g, range_take owner n g r))
    \<or> allocateNetwork_loop owner i r = Some (None, r\<lparr>sr_next := 0\<rparr>) \<and> range_full_from i r"
  using assms
proof (induction owner i r rule: allocateNetwork_loop.induct)
  case (1 owner i r)
  let ?n = "(of_nat i + sr_next r) mod range_numSubnets r"
  show ?case
  proof (cases "i < unat (range_numSubnets r)")
    case True
    obtain g where g: "genSubnet r ?n = Some g" using genSubnet_spec [OF "1.prems" counter_in] by blast
    show ?thesis
    proof (cases "counter_taken r ?n")
      case tk: True
      have eq: "allocateNetwork_loop owner i r = allocateNetwork_loop owner (Suc i) r"
        using True tk g by (subst allocateNetwork_loop.simps) (auto simp: counter_taken_def Let_def)
      have full: "range_full_from (Suc i) r \<Longrightarrow> range_full_from i r"
        using tk by (metis Suc_leI le_neq_implies_less)
      show ?thesis
      proof (cases "range_skips r ?n")
        case True
        from "1.IH"(1) [OF \<open>i < _\<close> refl True "1.prems"] show ?thesis unfolding eq using full by blast
      next
        case False
        then obtain y where "sr_allocMap r (IPNet_String g) = Some y" using tk g by (auto simp: counter_taken_def)
        from "1.IH"(2) [OF \<open>i < _\<close> refl False g this "1.prems"] show ?thesis unfolding eq using full by blast
      qed
    next
      case False
      then have "\<not> range_skips r ?n" "sr_allocMap r (IPNet_String g) = None" using g by (auto simp: counter_taken_def)
      moreover from this have "allocateNetwork_loop owner i r = Some (Some g, range_take owner ?n g r)"
        using True g by (subst allocateNetwork_loop.simps) (simp add: range_take_def Let_def)
      ultimately show ?thesis using g counter_in by blast
    qed
  next
    case False
    then have "allocateNetwork_loop owner i r = Some (None, r\<lparr>sr_next := 0\<rparr>)" "range_full_from i r"
      by (simp add: allocateNetwork_loop.simps) (use False in auto)
    then show ?thesis by blast
  qed
qed

lemma same_size_disjoint:
  assumes "cidr_wf a" and "cidr_wf b" and "net_bits a = net_bits b" and "net_ones a = net_ones b" and "a \<noteq> b"
  shows "{BigForIP (IP a) ..< BigForIP (IP a) + net_size a} \<inter> {BigForIP (IP b) ..< BigForIP (IP b) + net_size b} = {}"
proof (rule ccontr)
  let ?M = "net_size a" and ?x = "big_SetBytes (IP a)" and ?y = "big_SetBytes (IP b)"
  have sz: "net_size b = ?M" using assms(3,4) by (simp add: net_size_def)
  have f: "is4 (IP a) \<longleftrightarrow> is4 (IP b)" using BigForIP_cidr(2) assms(1-3) by simp
  let ?o = "if is4 (IP b) then v4_base else 0"
  assume "\<not> ?thesis"
  then obtain w where "?o + ?x \<le> w" "w < ?o + ?x + ?M" "?o + ?y \<le> w" "w < ?o + ?y + ?M"
    unfolding BigForIP_cidr(1) [OF assms(1)] BigForIP_cidr(1) [OF assms(2)] f sz by fastforce
  then obtain z where "?x \<le> z" "z < ?x + ?M" "?y \<le> z" "z < ?y + ?M"
    using that [of "w - ?o"] by linarith
  moreover have "?M dvd ?x" "?M dvd ?y"
    using cidr_aligned [OF assms(1)] cidr_aligned [OF assms(2)] sz by auto
  ultimately have "?x = ?y" using aligned_div_eq [of ?M ?x z] aligned_div_eq [of ?M ?y z]
    by (metis dvd_div_mult_self net_size_pos)
  moreover have "length (IP a) = length (IP b)" using assms(3) by (simp add: net_bits_def)
  ultimately have "IP a = IP b" using big_SetBytes_inject by blast
  then have "Mask a = Mask b" using assms(1,2,4) by (auto simp: cidr_wf_def)
  then show False using \<open>IP a = IP b\<close> assms(5) by simp
qed

text \<open>The address numbers of a network.\<close>

definition net_span :: "ipnet \<Rightarrow> int set" where
  "net_span g = {BigForIP (IP g) ..< BigForIP (IP g) + net_size g}"

lemma snr_wf_upd:
  "snr_wf r \<Longrightarrow> finite (dom m) \<Longrightarrow> u = of_nat (card (dom m)) \<Longrightarrow>
     snr_wf (r\<lparr>sr_allocMap := m, sr_next := x, sr_used := u\<rparr>)"
  "snr_wf r \<Longrightarrow> finite (dom m) \<Longrightarrow> u = of_nat (card (dom m)) \<Longrightarrow>
     snr_wf (r\<lparr>sr_allocMap := m, sr_used := u\<rparr>)"
  "snr_wf r \<Longrightarrow> snr_wf (r\<lparr>sr_next := x\<rparr>)"
  by (simp_all add: snr_wf_def)

lemma used_insert:
  "snr_wf r \<Longrightarrow> sr_allocMap r k = None \<Longrightarrow>
     finite (dom ((sr_allocMap r)(k \<mapsto> v))) \<and> sr_used r + 1 = of_nat (card (dom ((sr_allocMap r)(k \<mapsto> v))))"
  by (auto simp: snr_wf_def domIff)

lemma used_remove:
  assumes "snr_wf r" and "sr_allocMap r k = Some v"
  shows "finite (dom ((sr_allocMap r)(k := None))) \<and> sr_used r - 1 = of_nat (card (dom ((sr_allocMap r)(k := None))))"
proof -
  have f: "finite (dom (sr_allocMap r))" "k \<in> dom (sr_allocMap r)" "sr_used r = of_nat (card (dom (sr_allocMap r)))"
    using assms by (auto simp: snr_wf_def)
  then have "card (dom (sr_allocMap r)) = Suc (card (dom (sr_allocMap r) - {k}))" by (simp only: card.remove)
  then show ?thesis using f by (simp add: dom_fun_upd)
qed

lemma range_take_wf: "snr_wf r \<Longrightarrow> sr_allocMap r (IPNet_String g) = None \<Longrightarrow> snr_wf (range_take owner n g r)"
  unfolding range_take_def by (intro snr_wf_upd) (use used_insert in blast)+

text \<open>C13: \<open>allocateNetwork\<close> always returns. What it hands out is a canonical network of the host subnet
  length inside the cluster network that had no owner and shares no address with any owned network of
  that length; it becomes the owner's and the counter of used subnets stays exact. It reports the range
  full only when the subnet of every counter it may try has an owner.\<close>

theorem allocateNetwork_correct:
  assumes "snr_wf r"
  shows "case allocateNetwork owner r of
      None \<Rightarrow> False
    | Some (Some g, r') \<Rightarrow> cidr_wf g \<and> net_bits g = net_bits (sr_network r)
        \<and> net_ones g = net_ones (sr_network r) + unat (sr_subnetBits r)
        \<and> net_span g \<subseteq> net_span (sr_network r)
        \<and> sr_allocMap r (IPNet_String g) = None
        \<and> sr_allocMap r' = (sr_allocMap r)(IPNet_String g \<mapsto> owner) \<and> snr_wf r'
        \<and> (\<forall>k. cidr_wf k \<and> net_bits k = net_bits g \<and> net_ones k = net_ones g
                \<and> sr_allocMap r (IPNet_String k) \<noteq> None \<longrightarrow> net_span g \<inter> net_span k = {})
    | Some (None, r') \<Rightarrow> r' = r\<lparr>sr_next := 0\<rparr> \<and> snr_wf r' \<and> (\<forall>n \<in> counters r. counter_taken r n)"
proof -
  consider (found) n g where "n \<in> counters r" "genSubnet r n = Some g" "sr_allocMap r (IPNet_String g) = None"
      "allocateNetwork owner r = Some (Some g, range_take owner n g r)"
    | (full) "allocateNetwork owner r = Some (None, r\<lparr>sr_next := 0\<rparr>)"
      "\<forall>j. 0 \<le> j \<and> j < unat (range_numSubnets r) \<longrightarrow> counter_taken r ((of_nat j + sr_next r) mod range_numSubnets r)"
    using allocateNetwork_loop_spec [OF assms, of owner 0] unfolding allocateNetwork_def by blast
  then show ?thesis
  proof cases
    case found
    have g: "cidr_wf g" "net_bits g = net_bits (sr_network r)"
        "net_ones g = net_ones (sr_network r) + unat (sr_subnetBits r)" "net_span g \<subseteq> net_span (sr_network r)"
      using genSubnet_spec [OF assms found(1)] found(2) by (auto simp: net_span_def)
    have "net_span g \<inter> net_span k = {}"
      if "cidr_wf k" "net_bits k = net_bits g" "net_ones k = net_ones g" "sr_allocMap r (IPNet_String k) \<noteq> None" for k
      using same_size_disjoint [OF g(1) that(1)] that found(3) unfolding net_span_def by force
    then show ?thesis using found(3,4) g range_take_wf [OF assms found(3)] by (simp add: range_take_def)
  next
    case full
    have "counter_taken r n" if "n \<in> counters r" for n using counter_all [OF that] full(2) by auto
    then show ?thesis using full(1) snr_wf_upd(3) [OF assms] by simp
  qed
qed

text \<open>A cluster network \<open>10.128.0.0/14\<close> with \<open>/23\<close> host subnets, whose first subnet is taken.\<close>

definition example_host_range :: subnetAllocatorRange where
  "example_host_range = \<lparr>sr_network = \<lparr>IP = [10, 128, 0, 0], Mask = [255, 252, 0, 0]\<rparr>, sr_hostBits = 9, sr_subnetBits = 9,
     sr_next = 1, sr_allocMap = [''10.128.0.0/23'' \<mapsto> ''node1''], sr_used = 1,
     sr_leftShift = 7, sr_leftMask = 0x1ff, sr_rightShift = 2, sr_rightMask = 0x7f\<rparr>"

lemma example_host_range_wf: "snr_wf example_host_range"
proof -
  have "cidr_wf (sr_network example_host_range)" "net_ones (sr_network example_host_range) = 14"
      "net_bits (sr_network example_host_range) = 32" "is4 (IP (sr_network example_host_range))"
    unfolding cidr_wf_def net_bits_def net_ones_def example_host_range_def by code_simp+
  moreover have "(0x1ff :: u32) = mask 9" "(0x7f :: u32) = mask 7" by code_simp+
  ultimately show ?thesis by (simp add: snr_wf_def) (simp add: example_host_range_def)
qed

lemma map_option_fst: "map_option fst x = Some y \<Longrightarrow> \<exists>r. x = Some (y, r)"
  by auto

theorem allocateNetwork_correct_witness:
  "\<exists>r'. allocateNetwork ''node2'' example_host_range = Some (Some \<lparr>IP = [10, 129, 0, 0], Mask = [255, 255, 254, 0]\<rparr>, r')
     \<and> snr_wf r' \<and> net_span \<lparr>IP = [10, 129, 0, 0], Mask = [255, 255, 254, 0]\<rparr> \<subseteq> net_span (sr_network example_host_range)"
proof -
  have "map_option fst (allocateNetwork ''node2'' example_host_range) =
      Some (Some \<lparr>IP = [10, 129, 0, 0], Mask = [255, 255, 254, 0]\<rparr>)"
    unfolding example_host_range_def by code_simp
  then obtain r' where "allocateNetwork ''node2'' example_host_range =
      Some (Some \<lparr>IP = [10, 129, 0, 0], Mask = [255, 255, 254, 0]\<rparr>, r')" by (rule exE [OF map_option_fst])
  with allocateNetwork_correct [OF example_host_range_wf, of "''node2''"] show ?thesis
    by (simp only: option.case prod.case) blast
qed

text \<open>A new range is well formed when its network is canonical, an IPv6 network lies on one side of
  the embedded IPv4 block, and the host subnets are not the whole address space.\<close>

lemma newSubnetAllocatorRange_wf:
  assumes "cidr_wf network" and "0 < hostSubnetLen"
    and "is4 (IP network) \<or> BigForIP (IP network) + net_size network \<le> v4_base \<or> v4_base + 2 ^ 32 \<le> BigForIP (IP network)"
    and "newSubnetAllocatorRange network hostSubnetLen = Inr r"
  shows "snr_wf r" and "sr_network r = network" and "sr_allocMap r = Map.empty"
    and "int (net_ones network) + uint (sr_subnetBits r) = hostSubnetLen"
proof -
  let ?o = "net_ones network" and ?B = "net_bits network"
  have ms: "Mask_Size (Mask network) = (int ?o, int ?B)" by (rule net_mask_size [OF assms(1)])
  have b: "?B = 32 \<or> ?B = 128" "is4 (IP network) \<longleftrightarrow> ?B = 32" using BigForIP_cidr(2,3) [OF assms(1)] by auto
  obtain h s where hs: "hostSubnetLen = int (?o + s)" "?o + s + h = ?B" "0 < h" "h < ?B"
  proof -
    have "int ?o \<le> hostSubnetLen" "hostSubnetLen < int ?B"
      using assms(4) ms by (auto simp: newSubnetAllocatorRange_def split: if_splits)
    then show ?thesis using that [of "nat (hostSubnetLen - int ?o)" "nat (int ?B - hostSubnetLen)"] assms(2) by linarith
  qed
  have u: "unat (word_of_int (int h) :: u32) = h" "unat (word_of_int (int s) :: u32) = s"
    using hs b(1) by (auto simp: unsigned_of_nat take_bit_nat_eq_self)
  let ?h = "word_of_int (int h) :: u32" and ?s = "word_of_int (int s) :: u32"
  let ?r = "\<lparr>sr_network = network, sr_hostBits = ?h, sr_subnetBits = ?s, sr_next = 0, sr_allocMap = Map.empty, sr_used = 0,
      sr_leftShift = 0, sr_leftMask = 0, sr_rightShift = 0, sr_rightMask = 0\<rparr>"
  let ?l = "8 - ?h mod 8"
  have small: "h + s \<le> 128" using hs b(1) by auto
  have h0: "?h \<noteq> 0" using u(1) hs(3) by (metis unat_0 less_numeral_extra(3))
  have hs': "unat (?h + ?s) = h + s" using u small by (simp add: unat_word_ariths)
  have "?h + ?s \<noteq> 0" using hs' hs(3) by (metis unat_0 add_is_0 less_numeral_extra(3))
  then have words: "unat (?h mod 8) = h mod 8" "unat ((?h - 1) div 8) = (h - 1) div 8" "unat ((?h + ?s - 1) div 8) = (h + s - 1) div 8"
    using h0 u hs' by (simp_all add: unat_mod unat_div unat_minus_one)
  have l: "unat ?l = 8 - h mod 8"
    using words(1) by (simp add: unat_sub word_le_nat_alt)
  have r: "r = (if ?B = 32 \<and> ?h mod 8 \<noteq> 0 \<and> (?h - 1) div 8 \<noteq> (?h + ?s - 1) div 8
      then ?r\<lparr>sr_leftShift := ?l, sr_leftMask := push_bit (unat ?s) 1 - 1, sr_rightShift := ?s - ?l, sr_rightMask := push_bit (unat ?l) 1 - 1\<rparr>
      else ?r)"
  proof -
    have a: "int ?B - hostSubnetLen = int h" "hostSubnetLen - int ?o = int s" "(hostSubnetLen \<ge> int ?B) = False"
        "(hostSubnetLen < int ?o) = False" "(int ?B = 32) = (?B = 32)" using hs by auto
    from assms(4) [unfolded newSubnetAllocatorRange_def ms prod.case Let_def a if_False]
    show ?thesis by (metis (no_types, lifting) sum.inject(2))
  qed
  show "sr_network r = network" "sr_allocMap r = Map.empty" unfolding r by simp_all
  have bits: "sr_hostBits r = ?h" "sr_subnetBits r = ?s" unfolding r by simp_all
  have "uint ?s = int (unat ?s)" by simp
  then show "int ?o + uint (sr_subnetBits r) = hostSubnetLen" unfolding bits hs(1) u(2) by (simp only: of_nat_add)
  have rot: "unat (sr_leftShift r) + h mod 8 = 8 \<and> unat (sr_leftShift r) < s \<and> sr_leftMask r = mask s \<and> ?B = 32
      \<and> unat (sr_rightShift r) = s - unat (sr_leftShift r) \<and> sr_rightMask r = mask (unat (sr_leftShift r))"
    if ls: "sr_leftShift r \<noteq> 0"
  proof -
    have c: "?B = 32 \<and> ?h mod 8 \<noteq> 0 \<and> (?h - 1) div 8 \<noteq> (?h + ?s - 1) div 8" using ls r by (auto split: if_splits)
    then have "h mod 8 \<noteq> 0" "(h - 1) div 8 \<noteq> (h + s - 1) div 8" using words by (metis unat_0 unsigned_word_eqI)+
    moreover have "(h - 1) div 8 = h div 8" "(h + s - 1) div 8 = h div 8" if "h mod 8 \<noteq> 0" "s \<le> 8 - h mod 8"
    proof -
      obtain q m where h: "h = 8 * q + m" "m < 8" "h div 8 = q" "h mod 8 = m" by (metis mod_less_divisor mult_div_mod_eq zero_less_numeral)
      show "(h - 1) div 8 = h div 8" unfolding h(3) by (rule div_nat_eqI) (use h(1,2) that [unfolded h(4)] in auto)
      show "(h + s - 1) div 8 = h div 8" unfolding h(3) by (rule div_nat_eqI) (use h(1,2) that [unfolded h(4)] in auto)
    qed
    ultimately have ls: "8 - h mod 8 < s" by (metis not_less)
    moreover have "unat (?s - ?l) = s - (8 - h mod 8)" using ls l u(2) by (simp add: unat_sub word_le_nat_alt)
    moreover have "sr_leftShift r = ?l" "sr_leftMask r = push_bit (unat ?s) 1 - 1" "sr_rightShift r = ?s - ?l"
        "sr_rightMask r = push_bit (unat ?l) 1 - 1" unfolding r if_P [OF c] by simp_all
    moreover have "8 - h mod 8 + h mod 8 = 8" by simp
    ultimately show ?thesis using c by (simp only: l u(2) mask_eq_exp_minus_1 push_bit_of_1 simp_thms)
  qed
  have "sr_used r = 0" unfolding r by simp
  then show "snr_wf r"
    unfolding snr_wf_def bits u \<open>sr_network r = network\<close> \<open>sr_allocMap r = Map.empty\<close>
    using assms(1,3) hs rot b(2) by simp
qed

section \<open>Every subnet is reachable\<close>

lemma range_base_surj:
  assumes "snr_wf r" and "unat (sr_subnetBits r) \<le> 24" and "0 \<le> x" and "x < 2 ^ unat (sr_subnetBits r)"
  shows "\<exists>n \<in> counters r. uint (range_base r n) = x"
proof -
  let ?A = "{n :: u32. unat n < 2 ^ unat (sr_subnetBits r)}"
  have A: "?A = counters r" using assms(2) by (simp add: min_def)
  have lt: "unat w < 2 ^ k \<longleftrightarrow> uint w < 2 ^ k" for w :: u32 and k
    unfolding of_nat_less_iff [where 'a = int, symmetric] by simp
  have "range_base r ` ?A \<subseteq> ?A" 
    using range_base_bounds(1) [OF assms(1)] assms(2) by (auto simp: lt min_def)
  then have img: "range_base r ` ?A = ?A" by (intro endo_inj_surj) (auto intro: range_base_inj [OF assms(1)])
  have "(2::int) ^ unat (sr_subnetBits r) \<le> 2 ^ 24" using assms(2) by (intro power_increasing) auto
  then have x: "uint (word_of_int x :: u32) = x"
    using assms(3,4) by (simp add: unsigned_of_int take_bit_int_eq_self)
  then have "word_of_int x \<in> ?A" using assms(4) by (simp add: lt)
  then have "word_of_int x \<in> range_base r ` ?A" by (simp only: img)
  then obtain n where "n \<in> ?A" "word_of_int x = range_base r n" by (elim imageE)
  then show ?thesis using x A by metis
qed

lemma genSubnet_surj:
  assumes "snr_wf r" and "unat (sr_subnetBits r) \<le> 24" and "cidr_wf k" and "net_bits k = net_bits (sr_network r)"
    and "net_ones k = net_ones (sr_network r) + unat (sr_subnetBits r)" and "net_span k \<subseteq> net_span (sr_network r)"
  shows "\<exists>n \<in> counters r. genSubnet r n = Some k"
proof -
  let ?N = "sr_network r" and ?H = "unat (sr_hostBits r)" and ?S = "unat (sr_subnetBits r)"
  have wf: "cidr_wf ?N" "net_ones ?N + ?S + ?H = net_bits ?N" using assms(1) by (auto simp: snr_wf_def)
  have sk: "net_size k = 2 ^ ?H" "net_size ?N = 2 ^ ?S * 2 ^ ?H"
    using assms(4,5) wf(2) by (simp_all add: net_size_def power_add [symmetric])
  have f: "is4 (IP k) \<longleftrightarrow> is4 (IP ?N)" using BigForIP_cidr(2) wf(1) assms(3,4) by simp
  have ends: "BigForIP (IP ?N) \<le> BigForIP (IP k)" "BigForIP (IP k) + net_size k \<le> BigForIP (IP ?N) + net_size ?N"
    using assms(6) net_size_pos [of k] unfolding net_span_def by (simp_all only: ivl_subset) linarith+
  have "net_size k dvd net_size ?N" unfolding sk by simp
  then have "net_size k dvd big_SetBytes (IP k) - big_SetBytes (IP ?N)"
    using cidr_aligned [OF assms(3)] cidr_aligned [OF wf(1)] by (meson dvd_diff dvd_trans)
  then have "2 ^ ?H dvd BigForIP (IP k) - BigForIP (IP ?N)"
    using BigForIP_cidr(1) [OF assms(3)] BigForIP_cidr(1) [OF wf(1)] f sk(1) by simp
  then obtain x where "BigForIP (IP k) - BigForIP (IP ?N) = 2 ^ ?H * x" by (elim dvdE)
  then have x: "BigForIP (IP k) = BigForIP (IP ?N) + x * 2 ^ ?H" by (simp add: algebra_simps)
  have "0 \<le> x" using ends(1) x by (simp add: zero_le_mult_iff)
  moreover have "(x + 1) * 2 ^ ?H \<le> 2 ^ ?S * 2 ^ ?H" using ends(2) x sk by (simp add: algebra_simps)
  then have "x < 2 ^ ?S" by simp
  ultimately obtain n where n: "n \<in> counters r" "uint (range_base r n) = x"
    using range_base_surj [OF assms(1,2)] by blast
  obtain g where g: "genSubnet r n = Some g" "cidr_wf g" "net_bits g = net_bits ?N" "net_ones g = net_ones ?N + ?S"
      "BigForIP (IP g) = BigForIP (IP k)" "net_size g = 2 ^ ?H"
    using genSubnet_spec [OF assms(1) n(1)] n(2) x by auto
  have "g = k"
  proof (rule ccontr)
    assume "g \<noteq> k"
    from same_size_disjoint [OF g(2) assms(3) _ _ this] g sk assms(4,5) have "{BigForIP (IP k) ..< BigForIP (IP k) + 2 ^ ?H} = {}"
      by simp
    then show False by simp
  qed
  then show ?thesis using n(1) g(1) by blast
qed

text \<open>C39: For an IPv4 cluster network with at most \<open>2 ^ 24\<close> host subnets the bit rotation loses nothing:
  \<open>allocateNetwork\<close> reports the range full only when every subnet of the host subnet length inside the
  cluster network has an owner.\<close>

theorem allocateNetwork_exhaustive:
  assumes "snr_wf r" and "is4 (IP (sr_network r))" and "unat (sr_subnetBits r) \<le> 24"
    and "allocateNetwork owner r = Some (None, r')" and "cidr_wf k" and "net_bits k = 32"
    and "net_ones k = net_ones (sr_network r) + unat (sr_subnetBits r)" and "net_span k \<subseteq> net_span (sr_network r)"
  shows "sr_allocMap r (IPNet_String k) \<noteq> None"
proof -
  have wf: "cidr_wf (sr_network r)" using assms(1) by (simp add: snr_wf_def)
  then have b: "net_bits (sr_network r) = 32" using BigForIP_cidr(2) assms(2) by blast
  then obtain n where n: "n \<in> counters r" "genSubnet r n = Some k"
    using genSubnet_surj [OF assms(1,3,5) _ assms(7,8)] assms(6) by auto
  then obtain j where j: "j < unat (range_numSubnets r)" "(of_nat j + sr_next r) mod range_numSubnets r = n"
    using counter_all by blast
  have "range_full_from 0 r"
    using allocateNetwork_loop_spec [OF assms(1), of owner 0] assms(4) unfolding allocateNetwork_def by auto
  then have "counter_taken r n" using j by auto
  moreover have "\<not> range_skips r n" using net_mask_size [OF wf] b by (simp add: range_skips_def)
  ultimately show ?thesis using n(2) by (auto simp: counter_taken_def)
qed

definition example_full :: subnetAllocatorRange where
  "example_full = \<lparr>sr_network = \<lparr>IP = [10, 1, 0, 0], Mask = [255, 255, 0, 0]\<rparr>, sr_hostBits = 15, sr_subnetBits = 1,
     sr_next = 2, sr_allocMap = [''10.1.0.0/17'' \<mapsto> ''node1'', ''10.1.128.0/17'' \<mapsto> ''node2''], sr_used = 2,
     sr_leftShift = 0, sr_leftMask = 0, sr_rightShift = 0, sr_rightMask = 0\<rparr>"

lemma example_full_wf: "snr_wf example_full"
proof -
  have "cidr_wf (sr_network example_full)" "net_ones (sr_network example_full) = 16"
      "net_bits (sr_network example_full) = 32" "is4 (IP (sr_network example_full))"
    unfolding cidr_wf_def net_bits_def net_ones_def example_full_def by code_simp+
  then show ?thesis by (simp add: snr_wf_def) (simp add: example_full_def)
qed

theorem allocateNetwork_exhaustive_witness:
  "sr_allocMap example_full (IPNet_String \<lparr>IP = [10, 1, 128, 0], Mask = [255, 255, 128, 0]\<rparr>) \<noteq> None"
proof -
  let ?k = "\<lparr>IP = [10, 1, 128, 0], Mask = [255, 255, 128, 0]\<rparr>"
  have "map_option fst (allocateNetwork ''n'' example_full) = Some None"
    unfolding example_full_def by code_simp
  then obtain r' where a: "allocateNetwork ''n'' example_full = Some (None, r')" by (rule exE [OF map_option_fst])
  have k: "cidr_wf ?k" "net_bits ?k = 32" "net_ones ?k = net_ones (sr_network example_full) + unat (sr_subnetBits example_full)"
      "is4 (IP (sr_network example_full))" "unat (sr_subnetBits example_full) \<le> 24"
    unfolding cidr_wf_def net_bits_def net_ones_def example_full_def by code_simp+
  have e: "BigForIP (IP ?k) = v4_base + 167870464" "BigForIP (IP (sr_network example_full)) = v4_base + 167837696"
      "net_size ?k = 32768" "net_size (sr_network example_full) = 65536"
    unfolding net_size_def net_bits_def net_ones_def example_full_def v4_base_def by code_simp+
  have "net_span ?k \<subseteq> net_span (sr_network example_full)" unfolding net_span_def e by simp
  from allocateNetwork_exhaustive [OF example_full_wf k(4,5) a k(1,2,3) this] show ?thesis .
qed

section \<open>Ownership\<close>

text \<open>A change on behalf of \<open>ow\<close> keeps the configuration of the range, its invariant, and every subnet
  of another owner.\<close>

definition keeps_others :: "string \<Rightarrow> subnetAllocatorRange \<Rightarrow> subnetAllocatorRange \<Rightarrow> bool" where
  "keeps_others ow r r' \<longleftrightarrow> snr_wf r' \<and> sr_network r' = sr_network r \<and> sr_subnetBits r' = sr_subnetBits r
     \<and> sr_hostBits r' = sr_hostBits r
     \<and> (\<forall>k w. w \<noteq> ow \<longrightarrow> (sr_allocMap r' k = Some w \<longleftrightarrow> sr_allocMap r k = Some w))"

lemma respects_refl: "snr_wf r \<Longrightarrow> keeps_others ow r r"
  by (simp add: keeps_others_def)

lemma respects_trans: "keeps_others ow a b \<Longrightarrow> keeps_others ow b c \<Longrightarrow> keeps_others ow a c"
  by (simp add: keeps_others_def)

lemma markAllocatedNetwork_respects:
  assumes "snr_wf r"
  shows "keeps_others ow r (snd (markAllocatedNetwork ow n r))"
proof (cases "sr_allocMap r (IPNet_String n)")
  case None
  then show ?thesis
    using assms snr_wf_upd(2) [OF assms used_insert [OF assms None, of ow, THEN conjunct1]
      used_insert [OF assms None, of ow, THEN conjunct2]]
    by (auto simp: markAllocatedNetwork_def Let_def keeps_others_def)
qed (use assms in \<open>simp add: markAllocatedNetwork_def Let_def keeps_others_def\<close>)

lemma releaseNetwork_respects:
  assumes "snr_wf r"
  shows "keeps_others ow r (snd (releaseNetwork ow n r))"
proof (cases "sr_allocMap r (IPNet_String n) = Some ow")
  case True
  then show ?thesis
    using assms snr_wf_upd(2) [OF assms used_remove [OF assms True, THEN conjunct1] used_remove [OF assms True, THEN conjunct2]]
    by (auto simp: releaseNetwork_def Let_def keeps_others_def)
qed (use assms in \<open>auto simp: releaseNetwork_def Let_def keeps_others_def split: option.splits\<close>)

lemma allocateNetwork_respects:
  "snr_wf r \<Longrightarrow> \<exists>res r'. allocateNetwork ow r = Some (res, r') \<and> keeps_others ow r r'"
  using allocateNetwork_loop_spec [of r ow 0] range_take_wf [of r _ ow] snr_wf_upd(3) [of r 0]
  unfolding allocateNetwork_def by (fastforce simp: keeps_others_def range_take_def)

lemma range_releaseAllNetworks_respects:
  assumes "snr_wf r"
  shows "keeps_others ow r (range_releaseAllNetworks ow r)"
proof -
  let ?A = "{k. sr_allocMap r k = Some ow}" and ?D = "dom (sr_allocMap r)"
  let ?m = "\<lambda>k. if sr_allocMap r k = Some ow then None else sr_allocMap r k"
  have D: "finite ?D" "sr_used r = of_nat (card ?D)" "?A \<subseteq> ?D" using assms by (auto simp: snr_wf_def)
  have m: "dom ?m = ?D - ?A" by (auto simp: domIff split: if_splits)
  have "card (dom ?m) + card ?A = card ?D"
    unfolding m using D card_Diff_subset [of ?A ?D] card_mono [OF D(1,3)] by (simp add: finite_subset)
  then have "sr_used r = of_nat (card (dom ?m)) + of_nat (card ?A)" unfolding D(2) by (simp only: of_nat_add [symmetric])
  then have "sr_used r - of_nat (card ?A) = of_nat (card (dom ?m))" by simp
  then have "snr_wf (range_releaseAllNetworks ow r)"
    unfolding range_releaseAllNetworks_def using D(1) m by (intro snr_wf_upd(2) [OF assms]) simp_all
  then show ?thesis by (simp add: keeps_others_def range_releaseAllNetworks_def)
qed

text \<open>The same for lists of ranges and for the allocator.\<close>

abbreviation all_respect :: "string \<Rightarrow> subnetAllocatorRange list \<Rightarrow> subnetAllocatorRange list \<Rightarrow> bool" where
  "all_respect ow \<equiv> list_all2 (keeps_others ow)"

definition sna_wf :: "BaseSubnetAllocator \<Rightarrow> bool" where
  "sna_wf sna \<longleftrightarrow> list_all snr_wf (sna_v4ranges sna) \<and> list_all snr_wf (sna_v6ranges sna)"

definition sna_respects :: "string \<Rightarrow> BaseSubnetAllocator \<Rightarrow> BaseSubnetAllocator \<Rightarrow> bool" where
  "sna_respects ow a b \<longleftrightarrow> all_respect ow (sna_v4ranges a) (sna_v4ranges b)
     \<and> all_respect ow (sna_v6ranges a) (sna_v6ranges b)"

lemma all_respect_refl: "list_all snr_wf rs \<Longrightarrow> all_respect ow rs rs"
  by (auto simp: list.rel_refl_strong list_all_iff respects_refl)

lemma all_respect_wf: "all_respect ow rs rs' \<Longrightarrow> list_all snr_wf rs'"
  by (induction rule: list_all2_induct) (auto simp: keeps_others_def)

lemma sna_respects_refl: "sna_wf a \<Longrightarrow> sna_respects ow a a"
  by (simp add: sna_wf_def sna_respects_def all_respect_refl)

lemma sna_respects_wf: "sna_respects ow a b \<Longrightarrow> sna_wf b"
  by (auto simp: sna_wf_def sna_respects_def dest: all_respect_wf)

lemma sna_respects_trans: "sna_respects ow a b \<Longrightarrow> sna_respects ow b c \<Longrightarrow> sna_respects ow a c"
  unfolding sna_respects_def by (auto intro: list_all2_trans [OF respects_trans])

lemma mark_ranges_respects: "list_all snr_wf rs \<Longrightarrow> all_respect ow rs (snd (mark_ranges ow n rs))"
proof (induction rs)
  case (Cons r rs)
  then show ?case
    using markAllocatedNetwork_respects [of r ow n] all_respect_refl [of rs ow]
    by (auto split: prod.splits sum.splits bool.splits)
qed simp

lemma release_ranges_respects: "list_all snr_wf rs \<Longrightarrow> all_respect ow rs (snd (snd (release_ranges ow n rs)))"
proof (induction rs)
  case (Cons r rs)
  then show ?case
    using releaseNetwork_respects [of r ow n] all_respect_refl [of rs ow]
    by (auto split: prod.splits sum.splits bool.splits)
qed simp

lemma allocate_ranges_respects:
  "list_all snr_wf rs \<Longrightarrow> \<exists>res rs'. allocate_ranges ow rs = Some (res, rs') \<and> all_respect ow rs rs'"
proof (induction rs)
  case (Cons r rs)
  obtain res r' where a: "allocateNetwork ow r = Some (res, r')" "keeps_others ow r r'"
    using Cons.prems allocateNetwork_respects [of r ow] by auto
  obtain res' rs' where "allocate_ranges ow rs = Some (res', rs')" "all_respect ow rs rs'"
    using Cons by auto
  then show ?case using a Cons.prems all_respect_refl [of rs ow] by (cases res) auto
qed simp

lemma releaseNetwork_one_respects: "sna_wf a \<Longrightarrow> sna_respects ow a (snd (releaseNetwork_one ow n a))"
  using release_ranges_respects [of "sna_v4ranges a" ow n] release_ranges_respects [of "sna_v6ranges a" ow n]
    all_respect_refl [of "sna_v6ranges a" ow]
  by (auto simp: releaseNetwork_one_def sna_wf_def sna_respects_def Let_def split: prod.splits)

lemma releaseNetworks_respects: "sna_wf a \<Longrightarrow> sna_respects ow a (snd (releaseNetworks ow ns a))"
proof (induction ns arbitrary: a)
  case (Cons n ns)
  obtain es b where b: "releaseNetwork_one ow n a = (es, b)" by fastforce
  then have ab: "sna_respects ow a b" using releaseNetwork_one_respects [OF Cons.prems, of ow n] by simp
  from sna_respects_trans [OF this Cons.IH [OF sna_respects_wf [OF this]]] show ?case
    by (auto simp: b split: prod.splits)
qed (simp add: sna_respects_refl)

lemma mark_v4_respects: "sna_wf a \<Longrightarrow> mark_ranges ow n (sna_v4ranges a) = (x, v4) \<Longrightarrow> sna_respects ow a (a\<lparr>sna_v4ranges := v4\<rparr>)"
  using mark_ranges_respects [of "sna_v4ranges a" ow n] all_respect_refl [of "sna_v6ranges a" ow]
  by (simp add: sna_respects_def sna_wf_def)

lemma mark_v6_respects: "sna_wf a \<Longrightarrow> mark_ranges ow n (sna_v6ranges a) = (x, v6) \<Longrightarrow> sna_respects ow a (a\<lparr>sna_v6ranges := v6\<rparr>)"
  using mark_ranges_respects [of "sna_v6ranges a" ow n] all_respect_refl [of "sna_v4ranges a" ow]
  by (simp add: sna_respects_def sna_wf_def)

lemma MarkAllocatedNetworks_loop_respects:
  "sna_wf a \<Longrightarrow> sna_respects ow a (snd (MarkAllocatedNetworks_loop ow rel ns a))"
proof (induction ns arbitrary: rel a)
  case (Cons n ns)
  have step: "sna_respects ow a (snd (MarkAllocatedNetworks_loop ow rel' ns b))"
    "sna_respects ow a (snd (releaseNetworks ow rel' b))" if "sna_respects ow a b" for rel' b
    using sna_respects_trans [OF that Cons.IH [OF sna_respects_wf [OF that]]]
      sna_respects_trans [OF that releaseNetworks_respects [OF sna_respects_wf [OF that]]] by auto
  obtain x v4 where v4: "mark_ranges ow n (sna_v4ranges a) = (x, v4)" by fastforce
  let ?a = "a\<lparr>sna_v4ranges := v4\<rparr>"
  obtain y v6 where v6: "mark_ranges ow n (sna_v6ranges a) = (y, v6)" by fastforce
  note r4 = mark_v4_respects [OF Cons.prems v4]
  then have w: "sna_wf ?a" by (rule sna_respects_wf)
  have r6: "sna_respects ow a (?a\<lparr>sna_v6ranges := v6\<rparr>)"
    by (rule sna_respects_trans [OF r4 mark_v6_respects [OF w, of ow n y v6]]) (simp add: v6)
  show ?case using step [OF r4] step [OF r6] v4 v6
    by (auto simp: Let_def split: sum.splits bool.splits)
qed (simp add: sna_respects_refl)

lemma AllocateIPv4Network_respects:
  "sna_wf a \<Longrightarrow> \<exists>res b. AllocateIPv4Network ow a = Some (res, b) \<and> sna_respects ow a b"
  using allocate_ranges_respects [of "sna_v4ranges a" ow] all_respect_refl [of "sna_v6ranges a" ow] sna_respects_refl [of a ow]
  by (auto simp: AllocateIPv4Network_def sna_wf_def sna_respects_def split: option.splits)

lemma AllocateIPv6Network_respects:
  "sna_wf a \<Longrightarrow> \<exists>res b. AllocateIPv6Network ow a = Some (res, b) \<and> sna_respects ow a b"
  using allocate_ranges_respects [of "sna_v6ranges a" ow] all_respect_refl [of "sna_v4ranges a" ow] sna_respects_refl [of a ow]
  by (auto simp: AllocateIPv6Network_def sna_wf_def sna_respects_def split: option.splits)

lemma AllocateNetworks_respects:
  assumes "sna_wf a"
  shows "\<exists>res b. AllocateNetworks ow a = Some (res, b) \<and> sna_respects ow a b"
proof -
  obtain r4 b where b: "AllocateIPv4Network ow a = Some (r4, b)" "sna_respects ow a b"
    using AllocateIPv4Network_respects [OF assms] by blast
  obtain r6 c where c: "AllocateIPv6Network ow b = Some (r6, c)" "sna_respects ow b c"
    using AllocateIPv6Network_respects [OF sna_respects_wf [OF b(2)]] by blast
  note ac = sna_respects_trans [OF b(2) c(2)]
  have "sna_respects ow a (snd (ReleaseNetworks ow ns c))" for ns
    unfolding ReleaseNetworks_def
    by (rule sna_respects_trans [OF ac releaseNetworks_respects [OF sna_respects_wf [OF ac]]])
  then show ?thesis using b c ac
    by (cases r4; cases r6) (auto simp: AllocateNetworks_def Let_def)
qed

lemma ReleaseAllNetworks_respects: "sna_wf a \<Longrightarrow> sna_respects ow a (ReleaseAllNetworks ow a)"
  by (auto simp: ReleaseAllNetworks_def sna_respects_def sna_wf_def list_all2_conv_all_nth list_all_length
      range_releaseAllNetworks_respects)

text \<open>The calls of the cluster manager.\<close>

datatype sna_op =
    OpMark string "ipnet list"
  | OpAllocate string
  | OpRelease string "ipnet list"
  | OpReleaseAll string

fun sna_op_owner :: "sna_op \<Rightarrow> string" where
  "sna_op_owner (OpMark ow ns) = ow"
| "sna_op_owner (OpAllocate ow) = ow"
| "sna_op_owner (OpRelease ow ns) = ow"
| "sna_op_owner (OpReleaseAll ow) = ow"

fun sna_exec :: "sna_op \<Rightarrow> BaseSubnetAllocator \<Rightarrow> BaseSubnetAllocator option" where
  "sna_exec (OpMark ow ns) sna = Some (snd (MarkAllocatedNetworks ow ns sna))"
| "sna_exec (OpAllocate ow) sna = map_option snd (AllocateNetworks ow sna)"
| "sna_exec (OpRelease ow ns) sna = Some (snd (ReleaseNetworks ow ns sna))"
| "sna_exec (OpReleaseAll ow) sna = Some (ReleaseAllNetworks ow sna)"

fun sna_run :: "sna_op list \<Rightarrow> BaseSubnetAllocator \<Rightarrow> BaseSubnetAllocator option" where
  "sna_run [] sna = Some sna"
| "sna_run (x # xs) sna = (case sna_exec x sna of None \<Rightarrow> None | Some sna' \<Rightarrow> sna_run xs sna')"

lemma sna_exec_respects: "sna_wf a \<Longrightarrow> \<exists>b. sna_exec x a = Some b \<and> sna_respects (sna_op_owner x) a b"
  by (cases x)
    (use AllocateNetworks_respects [of a] in \<open>force simp: MarkAllocatedNetworks_def MarkAllocatedNetworks_loop_respects
      ReleaseNetworks_def releaseNetworks_respects ReleaseAllNetworks_respects\<close>)+

text \<open>The subnets of an owner: pairs of range number and subnet.\<close>

definition owned_v4 :: "string \<Rightarrow> BaseSubnetAllocator \<Rightarrow> (nat \<times> string) set" where
  "owned_v4 w a = {(i, k). i < length (sna_v4ranges a) \<and> sr_allocMap (sna_v4ranges a ! i) k = Some w}"

definition owned_v6 :: "string \<Rightarrow> BaseSubnetAllocator \<Rightarrow> (nat \<times> string) set" where
  "owned_v6 w a = {(i, k). i < length (sna_v6ranges a) \<and> sr_allocMap (sna_v6ranges a ! i) k = Some w}"

lemma sna_respects_owned: "sna_respects ow a b \<Longrightarrow> w \<noteq> ow \<Longrightarrow> owned_v4 w b = owned_v4 w a \<and> owned_v6 w b = owned_v6 w a"
  by (auto simp: sna_respects_def owned_v4_def owned_v6_def list_all2_conv_all_nth keeps_others_def)

text \<open>C22: Over any sequence of marking, allocating and releasing on behalf of other nodes the allocator
  returns, its bookkeeping stays exact, and a node keeps exactly the subnets it had: nobody else can
  take, release or add one in its name.\<close>

theorem host_subnet_ownership:
  assumes "sna_wf a" and "\<forall>x \<in> set ops. sna_op_owner x \<noteq> w"
  shows "\<exists>b. sna_run ops a = Some b \<and> sna_wf b \<and> owned_v4 w b = owned_v4 w a \<and> owned_v6 w b = owned_v6 w a"
  using assms
proof (induction ops arbitrary: a)
  case (Cons x ops)
  obtain b where b: "sna_exec x a = Some b" "sna_respects (sna_op_owner x) a b"
    using sna_exec_respects [OF Cons.prems(1)] by blast
  then have "owned_v4 w b = owned_v4 w a \<and> owned_v6 w b = owned_v6 w a"
    using sna_respects_owned Cons.prems(2) by (metis list.set_intros(1))
  then show ?case using Cons.IH [OF sna_respects_wf [OF b(2)]] Cons.prems(2) b(1) by auto
qed simp

theorem host_subnet_ownership_witness:
  "\<exists>b. sna_run [OpReleaseAll ''node2'', OpMark ''node2'' [\<lparr>IP = [10, 1, 0, 0], Mask = [255, 255, 128, 0]\<rparr>], OpAllocate ''node3'']
      \<lparr>sna_v4ranges = [example_full], sna_v6ranges = []\<rparr> = Some b
    \<and> owned_v4 ''node1'' b = {(0, ''10.1.0.0/17'')}"
proof -
  let ?a = "\<lparr>sna_v4ranges = [example_full], sna_v6ranges = []\<rparr>"
  have "sna_wf ?a" by (simp add: sna_wf_def example_full_wf)
  moreover have "owned_v4 ''node1'' ?a = {(0, ''10.1.0.0/17'')}"
    by (auto simp: owned_v4_def example_full_def split: if_splits)
  ultimately show ?thesis
    using host_subnet_ownership [of ?a "[OpReleaseAll ''node2'', OpMark ''node2'' [\<lparr>IP = [10, 1, 0, 0], Mask = [255, 255, 128, 0]\<rparr>],
      OpAllocate ''node3'']" "''node1''"] by (auto simp del: sna_run.simps)
qed

end
