(* ===== verification/Node_Annotations.thy ===== *)
theory Node_Annotations
  imports Util_Net "HOL-Library.AList" "HOL-Library.List_Lexorder" "HOL-Library.Char_ord"
begin

text \<open>
  The annotations of a node object: \<open>pkg/util/subnet_annotations.go\<close>, \<open>pkg/util/node_annotations.go\<close>
  and the hybrid-overlay helpers of \<open>hybrid-overlay/pkg/util/util.go\<close>. An annotation that the code
  reads with \<open>json.Unmarshal\<close> is kept as the document it holds, \<open>None\<close> when its text is not JSON; one
  that the code reads as plain text is kept as a string. The two groups of keys are disjoint. A Go map
  is an association list without duplicate keys, whose order the code never uses. The lemmas show that
  the subnet and network-id annotations implement a map from network names: an update changes the
  entry of its network only, and reading gives back what was written.
\<close>

section \<open>JSON documents\<close>

datatype json =
    JNull
  | JBool bool
  | JNumber int
  | JFloat string
  | JString string
  | JArray "json list"
  | JObject "(string \<times> json) list"

text \<open>\<open>json.Unmarshal\<close> into a value of the given type: \<open>null\<close> leaves the old value, a document of
  another kind is an error.\<close>

fun decode_string :: "string \<Rightarrow> json \<Rightarrow> string option" where
  "decode_string old (JString s) = Some s"
| "decode_string old JNull = Some old"
| "decode_string old _ = None"

fun decode_int :: "int \<Rightarrow> json \<Rightarrow> int option" where
  "decode_int old (JNumber n) = (if - (2 ^ 63) \<le> n \<and> n < 2 ^ 63 then Some n else None)"
| "decode_int old JNull = Some old"
| "decode_int old _ = None"

fun decode_elems :: "(json \<Rightarrow> 'a option) \<Rightarrow> json list \<Rightarrow> 'a list option" where
  "decode_elems f [] = Some []"
| "decode_elems f (j # js) =
     (case f j of None \<Rightarrow> None | Some v \<Rightarrow> map_option ((#) v) (decode_elems f js))"

fun decode_strings :: "json \<Rightarrow> string list option" where
  "decode_strings (JArray js) = decode_elems (decode_string []) js"
| "decode_strings JNull = Some []"
| "decode_strings _ = None"

fun decode_members :: "(json \<Rightarrow> 'a option) \<Rightarrow> (string \<times> json) list \<Rightarrow> (string \<times> 'a) list \<Rightarrow> (string \<times> 'a) list option" where
  "decode_members f [] m = Some m"
| "decode_members f ((k, j) # ms) m =
     (case f j of None \<Rightarrow> None | Some v \<Rightarrow> decode_members f ms (AList.update k v m))"

fun decode_map :: "(json \<Rightarrow> 'a option) \<Rightarrow> json \<Rightarrow> (string \<times> 'a) list option" where
  "decode_map f (JObject ms) = decode_members f ms []"
| "decode_map f JNull = Some []"
| "decode_map f _ = None"

text \<open>\<open>json.Marshal\<close> of a map writes the members sorted by key.\<close>

definition encode_map :: "('a \<Rightarrow> json) \<Rightarrow> (string \<times> 'a) list \<Rightarrow> json" where
  "encode_map f m = JObject (sort_key fst (map (\<lambda>(k, v). (k, f v)) m))"

text \<open>The members of an object are matched with the fields of a struct without regard to case.\<close>

definition lower :: "char \<Rightarrow> char" where
  "lower c = (let d = of_char c :: nat in if 65 \<le> d \<and> d \<le> 90 then char_of (d + 32) else c)"

definition key_is :: "string \<Rightarrow> string \<Rightarrow> bool" where
  "key_is field key \<longleftrightarrow> map lower key = map lower field"

section \<open>The standard library\<close>

text \<open>\<open>net.ParseCIDR\<close>.\<close>

definition ParseCIDR :: "string \<Rightarrow> (ip \<times> ipnet) option" where
  "ParseCIDR s =
     (if CHR ''/'' \<notin> set s then None
      else let addr = takeWhile (\<lambda>c. c \<noteq> CHR ''/'') s;
               msk = tl (dropWhile (\<lambda>c. c \<noteq> CHR ''/'') s);
               iplen = (if find (\<lambda>c. c = CHR ''.'' \<or> c = CHR '':'') addr = Some (CHR ''.'') then 4 else 16);
               x = ParseIP addr
           in case dtoi msk of
                None \<Rightarrow> None
              | Some (n, rest) \<Rightarrow>
                  if x = [] \<or> rest \<noteq> [] \<or> n < 0 \<or> n > 8 * iplen then None
                  else let m = CIDRMask n (8 * iplen) in Some (x, \<lparr>IP = IP_Mask x m, Mask = m\<rparr>))"

text \<open>\<open>strconv.Atoi\<close>: the value and whether it parsed; the value is 0 after a syntax error and the
  nearest bound after a range error.\<close>

definition Atoi :: "string \<Rightarrow> int \<times> bool" where
  "Atoi s =
     (let neg = (s \<noteq> [] \<and> hd s = CHR ''-'');
          t = (if s \<noteq> [] \<and> (hd s = CHR ''-'' \<or> hd s = CHR ''+'') then tl s else s)
      in if t = [] then (0, False)
         else case all_digits 0 t of
             None \<Rightarrow> (0, False)
           | Some n \<Rightarrow>
               let v = (if neg then - n else n)
               in if v < - (2 ^ 63) then (- (2 ^ 63), False)
                  else if 2 ^ 63 \<le> v then (2 ^ 63 - 1, False) else (v, True))"

section \<open>Nodes\<close>

type_synonym documents = "string \<rightharpoonup> json option"

record Node =
  node_Name :: string
  node_docs :: documents
  node_texts :: "string \<rightharpoonup> string"

datatype annotation_error =
    NotSet string
  | NotParsed string
  | EmptyAnnotation string
  | BadValue string

definition IsAnnotationNotSetError :: "annotation_error \<Rightarrow> bool" where
  "IsAnnotationNotSetError e = (case e of NotSet _ \<Rightarrow> True | _ \<Rightarrow> False)"

section \<open>Host subnets\<close>

definition ovnNodeSubnets :: string where
  "ovnNodeSubnets = ''k8s.ovn.org/node-subnets''"

text \<open>The list of subnets of one network; an error aborts the whole parse.\<close>

fun parse_subnets :: "string list \<Rightarrow> ipnet list option" where
  "parse_subnets [] = Some []"
| "parse_subnets (s # ss) =
     (case ParseCIDR s of None \<Rightarrow> None | Some (_, n) \<Rightarrow> map_option ((#) n) (parse_subnets ss))"

fun parse_subnet_map :: "(string \<times> string list) list \<Rightarrow> (string \<times> ipnet list) list option" where
  "parse_subnet_map [] = Some []"
| "parse_subnet_map ((netName, ss) # m) =
     (case parse_subnets ss of
        None \<Rightarrow> None
      | Some ipnets \<Rightarrow> map_option ((#) (netName, ipnets)) (parse_subnet_map m))"

definition parseSubnetAnnotation :: "documents \<Rightarrow> string \<Rightarrow> annotation_error + (string \<times> ipnet list) list" where
  "parseSubnetAnnotation docs annotationName =
     (case docs annotationName of
        None \<Rightarrow> Inl (NotSet annotationName)
      | Some annotation \<Rightarrow>
          let dual = Option.bind annotation (decode_map decode_strings);
              strMap = (case dual of
                          Some m \<Rightarrow> Some m
                        | None \<Rightarrow> map_option (map (\<lambda>(k, v). (k, [v]))) (Option.bind annotation (decode_map (decode_string []))))
          in case strMap of
               None \<Rightarrow> Inl (NotParsed annotationName)
             | Some m \<Rightarrow>
                 if m = [] then Inl (EmptyAnnotation annotationName)
                 else case parse_subnet_map m of
                     None \<Rightarrow> Inl (BadValue annotationName)
                   | Some sm \<Rightarrow> Inr sm)"

definition updateSubnetAnnotation ::
  "documents \<Rightarrow> string \<Rightarrow> string \<Rightarrow> ipnet list \<Rightarrow> annotation_error + documents" where
  "updateSubnetAnnotation annotations annotationName netName hostSubnets =
     (let parsed = parseSubnetAnnotation annotations annotationName;
          subnetsMap = (case parsed of
                          Inr m \<Rightarrow> Some m
                        | Inl e \<Rightarrow> if IsAnnotationNotSetError e then Some [] else None)
      in case subnetsMap of
           None \<Rightarrow> Inl (NotParsed annotationName)
         | Some m \<Rightarrow>
             let m1 = (if length hostSubnets \<noteq> 0 then AList.update netName hostSubnets m
                       else AList.delete netName m)
             in if m1 = [] then Inr (annotations(annotationName := None))
                else Inr (annotations(annotationName \<mapsto>
                  Some (encode_map (\<lambda>subnets. JArray (map (\<lambda>n. JString (IPNet_String n)) subnets)) m1))))"

definition UpdateNodeHostSubnetAnnotation ::
  "documents \<Rightarrow> ipnet list \<Rightarrow> string \<Rightarrow> annotation_error + documents" where
  "UpdateNodeHostSubnetAnnotation annotations hostSubnets netName =
     updateSubnetAnnotation annotations ovnNodeSubnets netName hostSubnets"

definition ParseNodeHostSubnetAnnotation :: "Node \<Rightarrow> string \<Rightarrow> annotation_error + ipnet list" where
  "ParseNodeHostSubnetAnnotation node netName =
     (case parseSubnetAnnotation (node_docs node) ovnNodeSubnets of
        Inl e \<Rightarrow> Inl e
      | Inr m \<Rightarrow> (case map_of m netName of None \<Rightarrow> Inl (NotSet ovnNodeSubnets) | Some subnets \<Rightarrow> Inr subnets))"

definition GetNodeSubnetAnnotationNetworkNames :: "Node \<Rightarrow> annotation_error + string list" where
  "GetNodeSubnetAnnotationNetworkNames node =
     (case parseSubnetAnnotation (node_docs node) ovnNodeSubnets of
        Inl e \<Rightarrow> Inl e
      | Inr m \<Rightarrow> Inr (map fst m))"

section \<open>Network ids\<close>

definition ovnNetworkIDs :: string where
  "ovnNetworkIDs = ''k8s.ovn.org/network-ids''"

definition InvalidNetworkID :: int where
  "InvalidNetworkID = -1"

definition parseNetworkIDsAnnotation :: "documents \<Rightarrow> string \<Rightarrow> annotation_error + (string \<times> string) list" where
  "parseNetworkIDsAnnotation docs annotationName =
     (case docs annotationName of
        None \<Rightarrow> Inl (NotSet annotationName)
      | Some annotation \<Rightarrow>
          (case Option.bind annotation (decode_map (decode_string [])) of
             None \<Rightarrow> Inl (NotParsed annotationName)
           | Some m \<Rightarrow> if m = [] then Inl (EmptyAnnotation annotationName) else Inr m))"

text \<open>The id and the error: both are used by the callers.\<close>

definition ParseNetworkIDAnnotation :: "Node \<Rightarrow> string \<Rightarrow> int \<times> annotation_error option" where
  "ParseNetworkIDAnnotation node netName =
     (case parseNetworkIDsAnnotation (node_docs node) ovnNetworkIDs of
        Inl e \<Rightarrow> (InvalidNetworkID, Some e)
      | Inr m \<Rightarrow>
          (case map_of m netName of
             None \<Rightarrow> (InvalidNetworkID, Some (NotSet ovnNetworkIDs))
           | Some networkID \<Rightarrow>
               (case Atoi networkID of (v, ok) \<Rightarrow> (v, if ok then None else Some (BadValue networkID)))))"

definition updateNetworkIDsAnnotation :: "documents \<Rightarrow> string \<Rightarrow> int \<Rightarrow> annotation_error + documents" where
  "updateNetworkIDsAnnotation annotations netName networkID =
     (let networkIDsMap = (case parseNetworkIDsAnnotation annotations ovnNetworkIDs of
                             Inr m \<Rightarrow> Some m
                           | Inl e \<Rightarrow> if IsAnnotationNotSetError e then Some [] else None)
      in case networkIDsMap of
           None \<Rightarrow> Inl (NotParsed ovnNetworkIDs)
         | Some m \<Rightarrow>
             let m1 = (if networkID = InvalidNetworkID then AList.delete netName m
                       else AList.update netName (itoa networkID) m)
             in if m1 = [] then Inr (annotations(ovnNetworkIDs := None))
                else Inr (annotations(ovnNetworkIDs \<mapsto> Some (encode_map JString m1))))"

definition UpdateNetworkIDAnnotation :: "documents \<Rightarrow> string \<Rightarrow> int \<Rightarrow> annotation_error + documents" where
  "UpdateNetworkIDAnnotation annotations netName networkID = updateNetworkIDsAnnotation annotations netName networkID"

definition GetNodeNetworkIDsAnnotationNetworkIDs :: "Node \<Rightarrow> annotation_error + (string \<times> int) list" where
  "GetNodeNetworkIDsAnnotationNetworkIDs node =
     (case parseNetworkIDsAnnotation (node_docs node) ovnNetworkIDs of
        Inl e \<Rightarrow> Inl e
      | Inr m \<Rightarrow> Inr (map (\<lambda>(k, v). (k, fst (Atoi v))) (filter (\<lambda>(k, v). snd (Atoi v)) m)))"

definition NodeNetworkIDAnnotationChanged :: "Node \<Rightarrow> Node \<Rightarrow> string \<Rightarrow> bool" where
  "NodeNetworkIDAnnotationChanged oldNode newNode netName \<longleftrightarrow>
     fst (ParseNetworkIDAnnotation oldNode netName) \<noteq> fst (ParseNetworkIDAnnotation newNode netName)"

section \<open>Plain text annotations\<close>

text \<open>Reading a missing key of a Go map gives the empty string.\<close>

definition text_at :: "Node \<Rightarrow> string \<Rightarrow> string" where
  "text_at node key = (case node_texts node key of None \<Rightarrow> [] | Some s \<Rightarrow> s)"

definition ParseNodeGatewayMTUSupport :: "Node \<Rightarrow> bool" where
  "ParseNodeGatewayMTUSupport node \<longleftrightarrow> text_at node ''k8s.ovn.org/gateway-mtu-support'' \<noteq> ''false''"

definition ovnNodeChassisID :: string where
  "ovnNodeChassisID = ''k8s.ovn.org/node-chassis-id''"

definition ParseNodeChassisIDAnnotation :: "Node \<Rightarrow> annotation_error + string" where
  "ParseNodeChassisIDAnnotation node =
     (case node_texts node ovnNodeChassisID of None \<Rightarrow> Inl (NotSet ovnNodeChassisID) | Some s \<Rightarrow> Inr s)"

definition NodeChassisIDAnnotationChanged :: "Node \<Rightarrow> Node \<Rightarrow> bool" where
  "NodeChassisIDAnnotationChanged oldNode newNode \<longleftrightarrow> text_at oldNode ovnNodeChassisID \<noteq> text_at newNode ovnNodeChassisID"

definition ovnNodeID :: string where
  "ovnNodeID = ''k8s.ovn.org/node-id''"

definition InvalidNodeID :: int where
  "InvalidNodeID = -1"

definition UpdateNodeIDAnnotation :: "(string \<rightharpoonup> string) \<Rightarrow> int \<Rightarrow> (string \<rightharpoonup> string)" where
  "UpdateNodeIDAnnotation annotations nodeID = annotations(ovnNodeID \<mapsto> itoa nodeID)"

definition GetNodeID :: "Node \<Rightarrow> int" where
  "GetNodeID node =
     (case node_texts node ovnNodeID of
        None \<Rightarrow> InvalidNodeID
      | Some nodeID \<Rightarrow> (case Atoi nodeID of (i, ok) \<Rightarrow> if ok then i else InvalidNodeID))"

definition NodeIDAnnotationChanged :: "Node \<Rightarrow> Node \<Rightarrow> bool" where
  "NodeIDAnnotationChanged oldNode newNode \<longleftrightarrow> text_at oldNode ovnNodeID \<noteq> text_at newNode ovnNodeID"

definition ovnNodeZoneName :: string where
  "ovnNodeZoneName = ''k8s.ovn.org/zone-name''"

definition ovnNodeMigratedZoneName :: string where
  "ovnNodeMigratedZoneName = ''k8s.ovn.org/remote-zone-migrated''"

definition OvnDefaultZone :: string where
  "OvnDefaultZone = ''global''"

definition HasNodeMigratedZone :: "Node \<Rightarrow> bool" where
  "HasNodeMigratedZone node \<longleftrightarrow> node_texts node ovnNodeMigratedZoneName \<noteq> None"

definition NodeMigratedZoneAnnotationChanged :: "Node \<Rightarrow> Node \<Rightarrow> bool" where
  "NodeMigratedZoneAnnotationChanged oldNode newNode \<longleftrightarrow>
     text_at oldNode ovnNodeMigratedZoneName \<noteq> text_at newNode ovnNodeMigratedZoneName"

definition GetNodeZone :: "Node \<Rightarrow> string" where
  "GetNodeZone node = (case node_texts node ovnNodeZoneName of None \<Rightarrow> OvnDefaultZone | Some z \<Rightarrow> z)"

definition NodeZoneAnnotationChanged :: "Node \<Rightarrow> Node \<Rightarrow> bool" where
  "NodeZoneAnnotationChanged oldNode newNode \<longleftrightarrow> text_at oldNode ovnNodeZoneName \<noteq> text_at newNode ovnNodeZoneName"

definition HybridOverlayNodeSubnet :: string where
  "HybridOverlayNodeSubnet = ''k8s.ovn.org/hybrid-overlay-node-subnet''"

definition ParseHybridOverlayHostSubnet :: "Node \<Rightarrow> annotation_error + ipnet option" where
  "ParseHybridOverlayHostSubnet node =
     (case node_texts node HybridOverlayNodeSubnet of
        None \<Rightarrow> Inr None
      | Some sub \<Rightarrow> (case ParseCIDR sub of None \<Rightarrow> Inl (BadValue sub) | Some (_, subnet) \<Rightarrow> Inr (Some subnet)))"

section \<open>Interface addresses\<close>

record primaryIfAddrAnnotation =
  pa_IPv4 :: string
  pa_IPv6 :: string

fun decode_ifaddr_members :: "(string \<times> json) list \<Rightarrow> primaryIfAddrAnnotation \<Rightarrow> primaryIfAddrAnnotation option" where
  "decode_ifaddr_members [] a = Some a"
| "decode_ifaddr_members ((k, j) # ms) a =
     (if key_is ''ipv4'' k then
        (case decode_string (pa_IPv4 a) j of None \<Rightarrow> None | Some s \<Rightarrow> decode_ifaddr_members ms (a\<lparr>pa_IPv4 := s\<rparr>))
      else if key_is ''ipv6'' k then
        (case decode_string (pa_IPv6 a) j of None \<Rightarrow> None | Some s \<Rightarrow> decode_ifaddr_members ms (a\<lparr>pa_IPv6 := s\<rparr>))
      else decode_ifaddr_members ms a)"

fun decode_ifaddr :: "primaryIfAddrAnnotation \<Rightarrow> json \<Rightarrow> primaryIfAddrAnnotation option" where
  "decode_ifaddr a (JObject ms) = decode_ifaddr_members ms a"
| "decode_ifaddr a JNull = Some a"
| "decode_ifaddr a _ = None"

text \<open>\<open>json.Marshal\<close> with \<open>omitempty\<close>.\<close>

definition encode_ifaddr :: "primaryIfAddrAnnotation \<Rightarrow> json" where
  "encode_ifaddr a = JObject ((if pa_IPv4 a = [] then [] else [(''ipv4'', JString (pa_IPv4 a))])
     @ (if pa_IPv6 a = [] then [] else [(''ipv6'', JString (pa_IPv6 a))]))"

definition ovnNodeIfAddr :: string where
  "ovnNodeIfAddr = ''k8s.ovn.org/node-primary-ifaddr''"

definition ovnNodeGRLRPAddr :: string where
  "ovnNodeGRLRPAddr = ''k8s.ovn.org/node-gateway-router-lrp-ifaddr''"

definition ovnTransitSwitchPortAddr :: string where
  "ovnTransitSwitchPortAddr = ''k8s.ovn.org/node-transit-switch-port-ifaddr''"

definition createPrimaryIfAddrAnnotation ::
  "string \<Rightarrow> documents \<Rightarrow> ipnet option \<Rightarrow> ipnet option \<Rightarrow> documents" where
  "createPrimaryIfAddrAnnotation annotationName nodeAnnotation nodeIPNetv4 nodeIPNetv6 =
     nodeAnnotation(annotationName \<mapsto> Some (encode_ifaddr
       \<lparr>pa_IPv4 = (case nodeIPNetv4 of None \<Rightarrow> [] | Some n \<Rightarrow> IPNet_String n),
        pa_IPv6 = (case nodeIPNetv6 of None \<Rightarrow> [] | Some n \<Rightarrow> IPNet_String n)\<rparr>))"

definition CreateNodeGatewayRouterLRPAddrAnnotation :: "documents \<Rightarrow> ipnet option \<Rightarrow> ipnet option \<Rightarrow> documents" where
  "CreateNodeGatewayRouterLRPAddrAnnotation = createPrimaryIfAddrAnnotation ovnNodeGRLRPAddr"

definition CreateNodeTransitSwitchPortAddrAnnotation :: "documents \<Rightarrow> ipnet option \<Rightarrow> ipnet option \<Rightarrow> documents" where
  "CreateNodeTransitSwitchPortAddrAnnotation = createPrimaryIfAddrAnnotation ovnTransitSwitchPortAddr"

text \<open>The part shared by the readers: the annotation must be set, hold a document of the right
  shape, and name at least one address.\<close>

definition read_ifaddr :: "Node \<Rightarrow> string \<Rightarrow> annotation_error + primaryIfAddrAnnotation" where
  "read_ifaddr node annotationName =
     (case node_docs node annotationName of
        None \<Rightarrow> Inl (NotSet annotationName)
      | Some annotation \<Rightarrow>
          (case Option.bind annotation (decode_ifaddr \<lparr>pa_IPv4 = [], pa_IPv6 = []\<rparr>) of
             None \<Rightarrow> Inl (NotParsed annotationName)
           | Some a \<Rightarrow> if pa_IPv4 a = [] \<and> pa_IPv6 a = [] then Inl (EmptyAnnotation annotationName) else Inr a))"

definition getNodeIfAddrAnnotation :: "Node \<Rightarrow> annotation_error + primaryIfAddrAnnotation" where
  "getNodeIfAddrAnnotation node = read_ifaddr node ovnNodeIfAddr"

definition ParseNodeGatewayRouterLRPAddr :: "Node \<Rightarrow> annotation_error + ip" where
  "ParseNodeGatewayRouterLRPAddr node =
     (case read_ifaddr node ovnNodeGRLRPAddr of
        Inl e \<Rightarrow> Inl e
      | Inr a \<Rightarrow> (case ParseCIDR (pa_IPv4 a) of None \<Rightarrow> Inl (BadValue (pa_IPv4 a)) | Some (x, _) \<Rightarrow> Inr x))"

definition parse_ifaddr :: "string \<Rightarrow> annotation_error + ipnet list" where
  "parse_ifaddr s =
     (if s = [] then Inr []
      else case ParseCIDR s of None \<Rightarrow> Inl (BadValue s) | Some (x, n) \<Rightarrow> Inr [\<lparr>IP = x, Mask = Mask n\<rparr>])"

definition parsePrimaryIfAddrAnnotation :: "Node \<Rightarrow> string \<Rightarrow> annotation_error + ipnet list" where
  "parsePrimaryIfAddrAnnotation node annotationName =
     (case read_ifaddr node annotationName of
        Inl e \<Rightarrow> Inl e
      | Inr a \<Rightarrow>
          (case parse_ifaddr (pa_IPv4 a) of
             Inl e \<Rightarrow> Inl e
           | Inr v4 \<Rightarrow>
               (case parse_ifaddr (pa_IPv6 a) of
                  Inl e \<Rightarrow> Inl e
                | Inr v6 \<Rightarrow> Inr (v4 @ v6))))"

definition ParseNodeGatewayRouterLRPAddrs :: "Node \<Rightarrow> annotation_error + ipnet list" where
  "ParseNodeGatewayRouterLRPAddrs node = parsePrimaryIfAddrAnnotation node ovnNodeGRLRPAddr"

definition ParseNodeTransitSwitchPortAddrs :: "Node \<Rightarrow> annotation_error + ipnet list" where
  "ParseNodeTransitSwitchPortAddrs node = parsePrimaryIfAddrAnnotation node ovnTransitSwitchPortAddr"

section \<open>Egress configuration\<close>

record Capacity =
  cap_IPv4 :: int
  cap_IPv6 :: int
  cap_IP :: int

definition UnlimitedNodeCapacity :: int where
  "UnlimitedNodeCapacity = 2 ^ 31 - 1"

record nodeEgressIPConfiguration =
  nec_IFAddr :: primaryIfAddrAnnotation
  nec_Capacity :: Capacity

record ParsedIFAddr =
  pif_IP :: ip
  pif_Net :: "ipnet option"

record ParsedNodeEgressIPConfiguration =
  pec_V4 :: ParsedIFAddr
  pec_V6 :: ParsedIFAddr
  pec_Capacity :: Capacity

definition noIFAddr :: ParsedIFAddr where
  "noIFAddr = \<lparr>pif_IP = [], pif_Net = None\<rparr>"

definition parse_egress_addr :: "string \<Rightarrow> annotation_error + ParsedIFAddr" where
  "parse_egress_addr s =
     (if s = [] then Inr noIFAddr
      else case ParseCIDR s of None \<Rightarrow> Inl (BadValue s) | Some (x, n) \<Rightarrow> Inr \<lparr>pif_IP = x, pif_Net = Some n\<rparr>)"

definition parseNodeEgressIPConfig :: "nodeEgressIPConfiguration \<Rightarrow> annotation_error + ParsedNodeEgressIPConfiguration" where
  "parseNodeEgressIPConfig c =
     (case parse_egress_addr (pa_IPv4 (nec_IFAddr c)) of
        Inl e \<Rightarrow> Inl e
      | Inr v4 \<Rightarrow>
          (case parse_egress_addr (pa_IPv6 (nec_IFAddr c)) of
             Inl e \<Rightarrow> Inl e
           | Inr v6 \<Rightarrow> Inr \<lparr>pec_V4 = v4, pec_V6 = v6, pec_Capacity = nec_Capacity c\<rparr>))"

definition unlimited :: Capacity where
  "unlimited = \<lparr>cap_IPv4 = UnlimitedNodeCapacity, cap_IPv6 = UnlimitedNodeCapacity, cap_IP = UnlimitedNodeCapacity\<rparr>"

definition ParseNodePrimaryIfAddr :: "Node \<Rightarrow> annotation_error + ParsedNodeEgressIPConfiguration" where
  "ParseNodePrimaryIfAddr node =
     (case getNodeIfAddrAnnotation node of
        Inl e \<Rightarrow> Inl e
      | Inr a \<Rightarrow> parseNodeEgressIPConfig \<lparr>nec_IFAddr = a, nec_Capacity = unlimited\<rparr>)"

text \<open>The document of the cloud configuration is an array of objects; the first element is decoded
  over a value whose capacities are unlimited.\<close>

fun decode_capacity_members :: "(string \<times> json) list \<Rightarrow> Capacity \<Rightarrow> Capacity option" where
  "decode_capacity_members [] c = Some c"
| "decode_capacity_members ((k, j) # ms) c =
     (if key_is ''ipv4'' k then
        (case decode_int (cap_IPv4 c) j of None \<Rightarrow> None | Some n \<Rightarrow> decode_capacity_members ms (c\<lparr>cap_IPv4 := n\<rparr>))
      else if key_is ''ipv6'' k then
        (case decode_int (cap_IPv6 c) j of None \<Rightarrow> None | Some n \<Rightarrow> decode_capacity_members ms (c\<lparr>cap_IPv6 := n\<rparr>))
      else if key_is ''ip'' k then
        (case decode_int (cap_IP c) j of None \<Rightarrow> None | Some n \<Rightarrow> decode_capacity_members ms (c\<lparr>cap_IP := n\<rparr>))
      else decode_capacity_members ms c)"

fun decode_capacity :: "Capacity \<Rightarrow> json \<Rightarrow> Capacity option" where
  "decode_capacity c (JObject ms) = decode_capacity_members ms c"
| "decode_capacity c JNull = Some c"
| "decode_capacity c _ = None"

fun decode_egress_members :: "(string \<times> json) list \<Rightarrow> nodeEgressIPConfiguration \<Rightarrow> nodeEgressIPConfiguration option" where
  "decode_egress_members [] c = Some c"
| "decode_egress_members ((k, j) # ms) c =
     (if key_is ''interface'' k then
        (case decode_string [] j of None \<Rightarrow> None | Some s \<Rightarrow> decode_egress_members ms c)
      else if key_is ''ifaddr'' k then
        (case decode_ifaddr (nec_IFAddr c) j of None \<Rightarrow> None | Some a \<Rightarrow> decode_egress_members ms (c\<lparr>nec_IFAddr := a\<rparr>))
      else if key_is ''capacity'' k then
        (case decode_capacity (nec_Capacity c) j of None \<Rightarrow> None | Some a \<Rightarrow> decode_egress_members ms (c\<lparr>nec_Capacity := a\<rparr>))
      else decode_egress_members ms c)"

fun decode_egress :: "nodeEgressIPConfiguration \<Rightarrow> json \<Rightarrow> nodeEgressIPConfiguration option" where
  "decode_egress c (JObject ms) = decode_egress_members ms c"
| "decode_egress c JNull = Some c"
| "decode_egress c _ = None"

definition noEgressConfig :: "Capacity \<Rightarrow> nodeEgressIPConfiguration" where
  "noEgressConfig cap = \<lparr>nec_IFAddr = \<lparr>pa_IPv4 = [], pa_IPv6 = []\<rparr>, nec_Capacity = cap\<rparr>"

fun decode_egress_array :: "json \<Rightarrow> nodeEgressIPConfiguration list option" where
  "decode_egress_array (JArray []) = Some []"
| "decode_egress_array (JArray (j # js)) =
     (case decode_egress (noEgressConfig unlimited) j of
        None \<Rightarrow> None
      | Some c \<Rightarrow> map_option ((#) c)
          (decode_elems (decode_egress (noEgressConfig \<lparr>cap_IPv4 = 0, cap_IPv6 = 0, cap_IP = 0\<rparr>)) js))"
| "decode_egress_array JNull = Some []"
| "decode_egress_array _ = None"

definition cloudEgressIPConfigAnnotationKey :: string where
  "cloudEgressIPConfigAnnotationKey = ''cloud.network.openshift.io/egress-ipconfig''"

text \<open>The node's own address replaces the one of the cloud configuration.\<close>

definition override_ip :: "string \<Rightarrow> ParsedIFAddr \<Rightarrow> annotation_error + ParsedIFAddr" where
  "override_ip s a =
     (if s = [] then Inr a
      else case ParseCIDR s of None \<Rightarrow> Inl (BadValue s) | Some (x, _) \<Rightarrow> Inr (a\<lparr>pif_IP := x\<rparr>))"

definition ParseCloudEgressIPConfig :: "Node \<Rightarrow> annotation_error + ParsedNodeEgressIPConfiguration" where
  "ParseCloudEgressIPConfig node =
     (case node_docs node cloudEgressIPConfigAnnotationKey of
        None \<Rightarrow> Inl (NotSet cloudEgressIPConfigAnnotationKey)
      | Some annotation \<Rightarrow>
          (case Option.bind annotation decode_egress_array of
             None \<Rightarrow> Inl (NotParsed cloudEgressIPConfigAnnotationKey)
           | Some [] \<Rightarrow> Inl (EmptyAnnotation cloudEgressIPConfigAnnotationKey)
           | Some (c # cs) \<Rightarrow>
               (case parseNodeEgressIPConfig c of
                  Inl e \<Rightarrow> Inl e
                | Inr p \<Rightarrow>
                    (case getNodeIfAddrAnnotation node of
                       Inl e \<Rightarrow> Inl e
                     | Inr a \<Rightarrow>
                         (case override_ip (pa_IPv4 a) (pec_V4 p) of
                            Inl e \<Rightarrow> Inl e
                          | Inr v4 \<Rightarrow>
                              (case override_ip (pa_IPv6 a) (pec_V6 p) of
                                 Inl e \<Rightarrow> Inl e
                               | Inr v6 \<Rightarrow> Inr (p\<lparr>pec_V4 := v4, pec_V6 := v6\<rparr>)))))))"

section \<open>Host addresses\<close>

definition ovnNodeHostAddresses :: string where
  "ovnNodeHostAddresses = ''k8s.ovn.org/host-addresses''"

definition ParseNodeHostAddressesList :: "Node \<Rightarrow> annotation_error + string list" where
  "ParseNodeHostAddressesList node =
     (case node_docs node ovnNodeHostAddresses of
        None \<Rightarrow> Inl (NotSet ovnNodeHostAddresses)
      | Some annotation \<Rightarrow>
          (case Option.bind annotation decode_strings of
             None \<Rightarrow> Inl (NotParsed ovnNodeHostAddresses)
           | Some cfg \<Rightarrow> Inr cfg))"

definition ParseNodeHostAddresses :: "Node \<Rightarrow> annotation_error + string set" where
  "ParseNodeHostAddresses node =
     (case ParseNodeHostAddressesList node of Inl e \<Rightarrow> Inl e | Inr cfg \<Rightarrow> Inr (set cfg))"

fun drop_masks :: "string list \<Rightarrow> annotation_error + string list" where
  "drop_masks [] = Inr []"
| "drop_masks (c # cs) =
     (case ParseCIDR c of
        None \<Rightarrow> Inl (BadValue c)
      | Some (x, _) \<Rightarrow>
          (case drop_masks cs of Inl e \<Rightarrow> Inl e | Inr ss \<Rightarrow> Inr (IP_String x # ss)))"

definition ParseNodeHostAddressesDropNetMask :: "Node \<Rightarrow> annotation_error + string set" where
  "ParseNodeHostAddressesDropNetMask node =
     (case ParseNodeHostAddressesList node of
        Inl e \<Rightarrow> Inl e
      | Inr cfg \<Rightarrow> (case drop_masks cfg of Inl e \<Rightarrow> Inl e | Inr ss \<Rightarrow> Inr (set ss)))"

text \<open>Removal of an index moves the last element into its place.\<close>

definition RemoveIndexFromSliceUnstable :: "'a list \<Rightarrow> nat \<Rightarrow> 'a list" where
  "RemoveIndexFromSliceUnstable xs i = butlast (xs[i := last xs])"

function RemoveItem_loop :: "'a list \<Rightarrow> 'a \<Rightarrow> nat \<Rightarrow> 'a list" where
  "RemoveItem_loop xs candidate i =
     (if i < length xs then
        (if xs ! i = candidate then RemoveItem_loop (RemoveIndexFromSliceUnstable xs i) candidate i
         else RemoveItem_loop xs candidate (i + 1))
      else xs)"
  by pat_completeness auto
termination
  by (relation "measure (\<lambda>(xs, c, i). 2 * length xs - i)") (auto simp: RemoveIndexFromSliceUnstable_def)

declare RemoveItem_loop.simps [simp del]

definition RemoveItemFromSliceUnstable :: "'a list \<Rightarrow> 'a \<Rightarrow> 'a list" where
  "RemoveItemFromSliceUnstable xs candidate = RemoveItem_loop xs candidate 0"

definition ParseNodeHostAddressesExcludeOVNManagedNetworks :: "Node \<Rightarrow> annotation_error + string list" where
  "ParseNodeHostAddressesExcludeOVNManagedNetworks node =
     (case ParseNodeHostAddressesList node of
        Inl e \<Rightarrow> Inl e
      | Inr networks \<Rightarrow>
          (case getNodeIfAddrAnnotation node of
             Inl e \<Rightarrow> Inl e
           | Inr a \<Rightarrow>
               let n1 = (if pa_IPv4 a \<noteq> [] then RemoveItemFromSliceUnstable networks (pa_IPv4 a) else networks)
               in Inr (if pa_IPv6 a \<noteq> [] then RemoveItemFromSliceUnstable n1 (pa_IPv6 a) else n1)))"

text \<open>\<open>netip.ParsePrefix\<close>: the address (4 bytes for a dotted one) and the length, which has no leading
  zero.\<close>

type_synonym prefix = "ip \<times> int"

definition ParsePrefix :: "string \<Rightarrow> prefix option" where
  "ParsePrefix s =
     (if CHR ''/'' \<notin> set s then None
      else let addr = rev (tl (dropWhile (\<lambda>c. c \<noteq> CHR ''/'') (rev s)));
               bits = rev (takeWhile (\<lambda>c. c \<noteq> CHR ''/'') (rev s));
               is_v4 = (find (\<lambda>c. c = CHR ''.'' \<or> c = CHR '':'') addr = Some (CHR ''.''));
               x = ParseIP addr
           in if x = [] \<or> (length bits > 1 \<and> (hd bits = CHR ''0'' \<or> dec_value (hd bits) = None)) then None
              else case Atoi bits of (n, ok) \<Rightarrow>
                  if \<not> ok \<or> n < 0 \<or> n > (if is_v4 then 32 else 128) then None
                  else Some (if is_v4 then drop 12 x else x, n))"

definition Prefix_String :: "prefix \<Rightarrow> string" where
  "Prefix_String p = IP_String (fst p) @ ''/'' @ itoa (snd p)"

fun makeCIDRs :: "string list \<Rightarrow> annotation_error + prefix list" where
  "makeCIDRs [] = Inr []"
| "makeCIDRs (s # ss) =
     (case ParsePrefix s of
        None \<Rightarrow> Inl (BadValue s)
      | Some p \<Rightarrow> (case makeCIDRs ss of Inl e \<Rightarrow> Inl e | Inr ps \<Rightarrow> Inr (p # ps)))"

text \<open>The longest-prefix lookup of the \<open>cidrtree\<close> package is the argument \<open>lpm\<close>: it maps the
  prefixes and an address to a prefix.\<close>

definition GetNonOVNNetworkContainingIP ::
  "(prefix list \<Rightarrow> ip \<Rightarrow> prefix option) \<Rightarrow> Node \<Rightarrow> ip \<Rightarrow> annotation_error + string" where
  "GetNonOVNNetworkContainingIP lpm node x =
     (case ParseNodeHostAddressesExcludeOVNManagedNetworks node of
        Inl e \<Rightarrow> Inl e
      | Inr networks \<Rightarrow>
          (case makeCIDRs networks of
             Inl e \<Rightarrow> Inl e
           | Inr cidrs \<Rightarrow>
               let addr = ParseIP (IP_String x)
               in if addr = [] then Inl (BadValue (IP_String x))
                  else (case lpm cidrs (if is4 addr then To4 addr else addr) of
                          None \<Rightarrow> Inr []
                        | Some p \<Rightarrow> Inr (Prefix_String p))))"

definition IsNonOVNManagedNetworkContainingIP ::
  "(prefix list \<Rightarrow> ip \<Rightarrow> prefix option) \<Rightarrow> Node \<Rightarrow> ip \<Rightarrow> annotation_error + bool" where
  "IsNonOVNManagedNetworkContainingIP lpm node x =
     (if x = [] then Inl (BadValue [])
      else case GetNonOVNNetworkContainingIP lpm node x of Inl e \<Rightarrow> Inl e | Inr network \<Rightarrow> Inr (network \<noteq> []))"

definition GetEgressIPNetwork ::
  "(prefix list \<Rightarrow> ip \<Rightarrow> prefix option) \<Rightarrow> Node \<Rightarrow> ip \<Rightarrow> annotation_error + string" where
  "GetEgressIPNetwork lpm node eIP =
     (case getNodeIfAddrAnnotation node of
        Inl e \<Rightarrow> Inl e
      | Inr a \<Rightarrow>
          let primaryNetwork = (if IsIPv6 eIP then pa_IPv6 a else pa_IPv4 a)
          in if primaryNetwork \<noteq> [] then
               (case ParseCIDR primaryNetwork of
                  None \<Rightarrow> Inl (BadValue primaryNetwork)
                | Some (_, primaryNet) \<Rightarrow>
                    if IPNet_Contains primaryNet eIP then Inr (IPNet_String primaryNet)
                    else GetNonOVNNetworkContainingIP lpm node eIP)
             else GetNonOVNNetworkContainingIP lpm node eIP)"

definition IsOVNManagedNetwork :: "Node \<Rightarrow> ip \<Rightarrow> annotation_error + bool" where
  "IsOVNManagedNetwork node x =
     (if x = [] then Inl (BadValue [])
      else case getNodeIfAddrAnnotation node of
        Inl e \<Rightarrow> Inl e
      | Inr a \<Rightarrow>
          let primary = (if IsIPv6 x then pa_IPv6 a else pa_IPv4 a)
          in if primary \<noteq> [] then
               (case ParseCIDR primary of
                  None \<Rightarrow> Inl (BadValue primary)
                | Some (_, net) \<Rightarrow> Inr (IPNet_Contains net x))
             else Inl (EmptyAnnotation ovnNodeIfAddr))"

section \<open>Reading back what was written\<close>

lemma find_v4: "length bs = 4 \<Longrightarrow>
    find (\<lambda>c. c = CHR ''.'' \<or> c = CHR '':'') (join ''.'' (map (\<lambda>b. utoa (uint b)) bs)) = Some (CHR ''.'')"
proof -
  assume "length bs = 4"
  then obtain a b c d where bs: "bs = [a, b, c, d]" by (auto simp: eval_nat_numeral length_Suc_conv)
  have "find (\<lambda>c. c = CHR ''.'' \<or> c = CHR '':'') (utoa (uint a) @ CHR ''.'' # t) = Some (CHR ''.'')" for t
    using utoa_chars(2,3) [of "uint a"] by (intro find_first) auto
  then show ?thesis unfolding bs by simp
qed

lemma IP_String_sep:
  assumes "ip_wf x"
  shows "find (\<lambda>c. c = CHR ''.'' \<or> c = CHR '':'') (IP_String x) = Some (if is4 x then CHR ''.'' else CHR '':'')"
proof (cases "is4 x")
  case True
  then have "IP_String x = join ''.'' (map (\<lambda>b. utoa (uint b)) (To4 x))" "length (To4 x) = 4"
    using To4_nonempty [of x] by (auto simp: IP_String_def To4_def)
  then show ?thesis using True find_v4 by simp
next
  case False
  then have x: "length x = 16" using assms by (auto simp: ip_wf_def To4_def)
  then have "IP_String x = v6_string (hextets x)" using False by (auto simp: IP_String_def)
  moreover have "groups_ok (hextets x)" "length (hextets x) = 8" using x hextets_inv [of x] by auto
  ultimately show ?thesis using False v6_string_find by simp
qed

lemma IP_Mask_cidr:
  assumes "cidr_wf n"
  shows "IP_Mask (To16 (IP n)) (Mask n) = IP n"
proof -
  have m: "length (Mask n) = length (IP n)" "map2 (AND) (IP n) (Mask n) = IP n"
    using assms unfolding cidr_wf_def by auto
  show ?thesis
  proof (cases "length (IP n) = 4")
    case True
    then show ?thesis using m by (simp add: IP_Mask_def To16_def)
  next
    case False
    then show ?thesis using m cidr_wf_v6 [OF assms False] by (simp add: IP_Mask_def To16_def)
  qed
qed

text \<open>The text of an address with the mask of a network of its family.\<close>

lemma IPNet_String_host:
  assumes "cidr_wf n" and "ip_wf x" and "is4 x \<longleftrightarrow> is4 (IP n)"
  shows "IPNet_String \<lparr>IP = x, Mask = Mask n\<rparr> = IP_String x @ ''/'' @ utoa (int (net_ones n))"
proof -
  let ?y = "if is4 x then To4 x else x"
  have m: "Mask n = cidrBytes (length (IP n)) (net_ones n)" "net_ones n \<le> 8 * length (IP n)"
      "length (IP n) = 4 \<or> length (IP n) = 16"
    using assms unfolding cidr_wf_def net_bits_def by auto
  then have len: "simpleMaskLength (Mask n) = int (net_ones n)" "length (Mask n) = length (IP n)" "Mask n \<noteq> []"
    using simpleMaskLength_cidrBytes length_cidrBytes [of "length (IP n)" "net_ones n"] by (simp, simp, force)
  have n4: "is4 (IP n) \<longleftrightarrow> length (IP n) = 4" using cidr_wf_v4 [OF assms(1)] cidr_wf_v6 [OF assms(1)] by force
  have y: "length ?y = length (IP n)"
    using assms(2,3) n4 m(3) To4_nonempty [of x] by (auto simp: ip_wf_def To4_def)
  then have nm: "networkNumberAndMask \<lparr>IP = x, Mask = Mask n\<rparr> = (?y, Mask n)" "?y \<noteq> []"
    using m(3) assms(3) n4 len(2) by (auto simp: networkNumberAndMask_def)
  have "IP_Equal ?y x" "ip_wf ?y"
    using assms(2) To4_nonempty [of x] by (auto simp: IP_Equal_def ip_wf_def To4_def split: if_splits)
  then have "IP_String ?y = IP_String x" using IP_String_inject assms(2) by blast
  then show ?thesis using nm len by (simp add: IPNet_String_def)
qed

lemma ParseCIDR_host:
  assumes "cidr_wf n" and w: "ip_wf x" and fam: "is4 x \<longleftrightarrow> is4 (IP n)"
  shows "ParseCIDR (IPNet_String \<lparr>IP = x, Mask = Mask n\<rparr>) =
    Some (To16 x, \<lparr>IP = IP_Mask (To16 x) (Mask n), Mask = Mask n\<rparr>)"
proof -
  let ?s = "IPNet_String \<lparr>IP = x, Mask = Mask n\<rparr>"
  have s: "?s = IP_String x @ CHR ''/'' # utoa (int (net_ones n))"
    using IPNet_String_host [OF assms] by simp
  have addr: "takeWhile (\<lambda>c. c \<noteq> CHR ''/'') ?s = IP_String x"
      "tl (dropWhile (\<lambda>c. c \<noteq> CHR ''/'') ?s) = utoa (int (net_ones n))"
    unfolding s using IP_String_no_slash [OF w] by (auto simp: takeWhile_append dropWhile_append)
  have len: "length (IP n) = 4 \<or> length (IP n) = 16" using assms by (auto simp: cidr_wf_def)
  have on: "net_ones n \<le> 8 * length (IP n)" using assms by (simp add: cidr_wf_def net_bits_def)
  then have d: "dtoi (utoa (int (net_ones n))) = Some (int (net_ones n), [])"
    using dtoi_utoa [of "int (net_ones n)" "[]"] len by (auto simp: parse_big_def)
  have x: "ParseIP (IP_String x) = To16 x" "To16 x \<noteq> []"
    using parseIP_String [OF w] w by (auto simp: ParseIP_def To16_def ip_wf_def)
  let ?l = "if length (IP n) = 4 then 4 else 16 :: int"
  have l: "8 * ?l = int (8 * length (IP n))" using len by auto
  then have m: "CIDRMask (int (net_ones n)) (8 * ?l) = Mask n"
    using assms on len by (auto simp: CIDRMask_def cidr_wf_def)
  have "is4 x \<longleftrightarrow> length (IP n) = 4" using fam cidr_wf_v4 [OF assms(1)] cidr_wf_v6 [OF assms(1)] by force
  then have "(if find (\<lambda>c. c = CHR ''.'' \<or> c = CHR '':'') (IP_String x) = Some (CHR ''.'') then 4 else 16) = ?l"
    unfolding IP_String_sep [OF w] by simp
  moreover have "CHR ''/'' \<in> set ?s" unfolding s by simp
  ultimately show ?thesis
    unfolding ParseCIDR_def Let_def addr d x(1) using x(2) m l on by simp
qed

text \<open>Parsing the text of a canonical network gives the network.\<close>

lemma ParseCIDR_String:
  assumes "cidr_wf n"
  shows "ParseCIDR (IPNet_String n) = Some (To16 (IP n), n)"
proof -
  have "ip_wf (IP n)" "\<lparr>IP = IP n, Mask = Mask n\<rparr> = n" using assms by (auto simp: wf_simps)
  with ParseCIDR_host [OF assms, of "IP n"] IP_Mask_cidr [OF assms] show ?thesis by simp
qed

text \<open>An address with the mask of a canonical network of its family, in the sixteen-byte form.\<close>

definition host_net :: "ipnet \<Rightarrow> bool" where
  "host_net n \<longleftrightarrow> length (IP n) = 16 \<and> (\<exists>c. cidr_wf c \<and> Mask n = Mask c \<and> (is4 (IP n) \<longleftrightarrow> is4 (IP c)))"

lemma ParseCIDR_host_net:
  assumes "host_net n"
  shows "ParseCIDR (IPNet_String n) = Some (IP n, \<lparr>IP = IP_Mask (IP n) (Mask n), Mask = Mask n\<rparr>)"
    and "IPNet_String n \<noteq> []"
proof -
  obtain c where c: "length (IP n) = 16" "cidr_wf c" "Mask n = Mask c" "is4 (IP n) \<longleftrightarrow> is4 (IP c)"
    using assms unfolding host_net_def by blast
  have n: "n = \<lparr>IP = IP n, Mask = Mask c\<rparr>" and w: "ip_wf (IP n)" using c by (simp_all add: ip_wf_def)
  show "ParseCIDR (IPNet_String n) = Some (IP n, \<lparr>IP = IP_Mask (IP n) (Mask n), Mask = Mask n\<rparr>)"
    using ParseCIDR_host [OF c(2) w c(4)] c(1,3) unfolding n [symmetric] by (simp add: To16_def)
  show "IPNet_String n \<noteq> []" using IPNet_String_host [OF c(2) w c(4)] unfolding n [symmetric] by simp
qed

lemma decode_members_spec:
  assumes "\<forall>(k, j) \<in> set ms. f j \<noteq> None"
  shows "\<exists>r. decode_members f ms m = Some r \<and> (distinct (map fst m) \<longrightarrow> distinct (map fst r))
    \<and> (r = [] \<longleftrightarrow> ms = [] \<and> m = [])
    \<and> (\<forall>k. map_of r k = (case map_of (rev ms) k of Some j \<Rightarrow> f j | None \<Rightarrow> map_of m k))"
  using assms
proof (induction ms arbitrary: m)
  case (Cons kj ms)
  obtain k j where kj: "kj = (k, j)" by fastforce
  then obtain v where v: "f j = Some v" using Cons.prems by auto
  have "AList.update k v m \<noteq> []" by (cases m) (auto split: prod.splits)
  moreover obtain r where r: "decode_members f ms (AList.update k v m) = Some r"
      "distinct (map fst (AList.update k v m)) \<longrightarrow> distinct (map fst r)"
      "r = [] \<longleftrightarrow> ms = [] \<and> AList.update k v m = []"
      "\<forall>x. map_of r x = (case map_of (rev ms) x of Some j \<Rightarrow> f j | None \<Rightarrow> map_of (AList.update k v m) x)"
    using Cons.IH [of "AList.update k v m"] Cons.prems by auto
  ultimately show ?case using v kj
    by (auto simp: update_conv' distinct_update map_add_def split: option.splits)
qed simp

lemma decode_distinct: "decode_map f j = Some m \<Longrightarrow> distinct (map fst m)"
proof -
  have "decode_members f ms m0 = Some m \<Longrightarrow> distinct (map fst m0) \<Longrightarrow> distinct (map fst m)" for ms m0
    by (induction f ms m0 rule: decode_members.induct) (auto simp: distinct_update split: option.splits)
  then show "decode_map f j = Some m \<Longrightarrow> distinct (map fst m)" by (cases j) auto
qed

text \<open>Decoding the encoded map.\<close>

lemma decode_encode_map:
  assumes "distinct (map fst m)" and "\<And>v. v \<in> ran (map_of m) \<Longrightarrow> g (f v) = Some (h v)"
  shows "\<exists>r. decode_map g (encode_map f m) = Some r \<and> distinct (map fst r) \<and> (r = [] \<longleftrightarrow> m = [])
    \<and> map_of r = map_option h \<circ> map_of m"
proof -
  let ?e = "map (\<lambda>(k, v). (k, f v)) m" and ?s = "sort_key fst (map (\<lambda>(k, v). (k, f v)) m)"
  have d: "distinct (map fst ?e)" using assms(1) by (simp add: comp_def case_prod_unfold)
  then have ds: "distinct (map fst ?s)"
    by (metis distinct_map distinct_sort inj_on_subset set_sort subset_refl)
  have mo: "map_of (rev ?s) = map_of ?e"
    using d ds by (subst map_of_inject_set) (simp_all add: rev_map [symmetric])
  have me: "map_of ?e k = map_option f (map_of m k)" for k by (induction m) auto
  have "\<forall>(k, j) \<in> set ?s. g j \<noteq> None"
    using assms by (auto simp: ran_distinct image_iff) (metis option.discI snd_conv)
  then obtain r where r: "decode_members g ?s [] = Some r" "distinct (map fst r)" "r = [] \<longleftrightarrow> ?s = []"
      "\<forall>k. map_of r k = (case map_of (rev ?s) k of Some j \<Rightarrow> g j | None \<Rightarrow> map_of [] k)"
    using decode_members_spec [of ?s g "[]"] by auto
  have "map_of r k = map_option h (map_of m k)" for k
    using r(4) mo me assms(2) by (cases "map_of m k") (auto simp: ranI)
  moreover have "?s = [] \<longleftrightarrow> m = []" by (metis length_0_conv length_map length_sort)
  ultimately show ?thesis using r by (auto simp: encode_map_def)
qed

section \<open>Annotations as maps from network names\<close>

text \<open>An annotation that holds one value per network: \<open>entry\<close> is the map it stands for, \<open>upd\<close> sets
  (\<open>Some\<close>) or deletes (\<open>None\<close>) the value of a network.\<close>

locale network_annotation =
  fixes ok :: "documents \<Rightarrow> bool"
    and entry :: "documents \<Rightarrow> string \<rightharpoonup> 'v"
    and upd :: "documents \<Rightarrow> string \<Rightarrow> 'v option \<Rightarrow> annotation_error + documents"
    and val_ok :: "'v \<Rightarrow> bool"
    and key :: string
  assumes upd_ok: "ok d \<Longrightarrow> pred_option val_ok x \<Longrightarrow>
      \<exists>d'. upd d k x = Inr d' \<and> ok d' \<and> entry d' = (entry d)(k := x)"
    and upd_frame: "upd d k x = Inr d' \<Longrightarrow> j \<noteq> key \<Longrightarrow> d' j = d j"
begin

fun upds :: "(string \<times> 'v option) list \<Rightarrow> documents \<Rightarrow> annotation_error + documents" where
  "upds [] d = Inr d"
| "upds ((k, x) # us) d = (case upd d k x of Inl e \<Rightarrow> Inl e | Inr d' \<Rightarrow> upds us d')"

lemma upds_ok:
  assumes "ok d" and "\<forall>(k, x) \<in> set us. pred_option val_ok x"
  shows "\<exists>d'. upds us d = Inr d' \<and> ok d' \<and> entry d' = fold (\<lambda>(k, x) m. m(k := x)) us (entry d)
    \<and> (\<forall>j. j \<noteq> key \<longrightarrow> d' j = d j)"
  using assms
proof (induction us arbitrary: d)
  case (Cons u us)
  obtain k x where u: "u = (k, x)" by fastforce
  then obtain d1 where d1: "upd d k x = Inr d1" "ok d1" "entry d1 = (entry d)(k := x)"
    using upd_ok [OF Cons.prems(1), of x k] Cons.prems(2) by auto
  from Cons.IH [OF d1(2)] Cons.prems(2) d1 u show ?case using upd_frame [OF d1(1)] by auto
qed simp

end

text \<open>The host subnets of the networks.\<close>

definition host_subnets :: "documents \<Rightarrow> string \<rightharpoonup> ipnet list" where
  "host_subnets docs = (case parseSubnetAnnotation docs ovnNodeSubnets of Inl _ \<Rightarrow> Map.empty | Inr m \<Rightarrow> map_of m)"

definition subnet_docs_ok :: "documents \<Rightarrow> bool" where
  "subnet_docs_ok docs \<longleftrightarrow> docs ovnNodeSubnets = None \<or>
     (\<exists>m. parseSubnetAnnotation docs ovnNodeSubnets = Inr m \<and> (\<forall>ns \<in> ran (map_of m). list_all cidr_wf ns))"

lemma parse_subnets_String: "list_all cidr_wf ns \<Longrightarrow> parse_subnets (map IPNet_String ns) = Some ns"
  by (induction ns) (auto simp: ParseCIDR_String)

lemma parse_subnet_map_keys: "parse_subnet_map m = Some sm \<Longrightarrow> map fst sm = map fst m"
  by (induction m arbitrary: sm rule: parse_subnet_map.induct) (auto split: option.splits)

lemma parseSubnetAnnotation_distinct:
  assumes "parseSubnetAnnotation docs nm = Inr sm"
  shows "distinct (map fst sm)"
proof -
  obtain a where a: "docs nm = Some a" using assms by (auto simp: parseSubnetAnnotation_def split: option.splits)
  then obtain m where m: "parse_subnet_map m = Some sm"
      "Option.bind a (decode_map decode_strings) = Some m \<or>
       map_option (map (\<lambda>(k, v). (k, [v]))) (Option.bind a (decode_map (decode_string []))) = Some m"
    using assms by (auto simp: parseSubnetAnnotation_def Let_def split: option.splits if_splits)
  have "distinct (map fst m)"
    using m(2) by (auto simp: bind_eq_Some_conv comp_def case_prod_unfold dest: decode_distinct)
  then show ?thesis using parse_subnet_map_keys [OF m(1)] by simp
qed

lemma decode_strings_nets: "decode_strings (JArray (map (\<lambda>n. JString (IPNet_String n)) ns)) = Some (map IPNet_String ns)"
  by (simp, induction ns) auto

lemma parse_subnet_map_total:
  assumes "\<forall>(k, ss) \<in> set r. \<exists>ns. parse_subnets ss = Some ns"
  shows "\<exists>sm. parse_subnet_map r = Some sm \<and> map_of sm = (\<lambda>k. Option.bind (map_of r k) parse_subnets)"
  using assms
proof (induction r)
  case (Cons a r)
  obtain k ss where a: "a = (k, ss)" by fastforce
  then obtain ns where "parse_subnets ss = Some ns" using Cons.prems by auto
  then show ?case using Cons a by (force simp: fun_eq_iff)
qed (simp add: fun_eq_iff)

lemma parse_encoded_subnets:
  assumes "distinct (map fst m)" and "m \<noteq> []" and "\<forall>ns \<in> ran (map_of m). list_all cidr_wf ns"
  shows "\<exists>sm. parseSubnetAnnotation
      (docs(nm \<mapsto> Some (encode_map (\<lambda>subnets. JArray (map (\<lambda>n. JString (IPNet_String n)) subnets)) m))) nm = Inr sm
    \<and> map_of sm = map_of m"
proof -
  let ?f = "\<lambda>subnets. JArray (map (\<lambda>n. JString (IPNet_String n)) subnets)"
  obtain r where r: "decode_map decode_strings (encode_map ?f m) = Some r" "distinct (map fst r)" "r = [] \<longleftrightarrow> m = []"
      "map_of r = map_option (map IPNet_String) \<circ> map_of m"
    using decode_encode_map [OF assms(1), of decode_strings ?f "map IPNet_String"] decode_strings_nets by blast
  have "\<exists>ns. parse_subnets ss = Some ns" if "(k, ss) \<in> set r" for k ss
  proof -
    have "map_of r k = Some ss" using that r(2) by simp
    then obtain ns where "map_of m k = Some ns" "ss = map IPNet_String ns" using r(4) by auto
    then show ?thesis using assms(3) parse_subnets_String by (auto simp: ranI)
  qed
  then obtain sm where sm: "parse_subnet_map r = Some sm" "map_of sm = (\<lambda>k. Option.bind (map_of r k) parse_subnets)"
    using parse_subnet_map_total [of r] by auto
  have "map_of sm k = map_of m k" for k
    using sm(2) r(4) assms(3) parse_subnets_String by (cases "map_of m k") (auto simp: ranI)
  then show ?thesis using r(1,3) sm(1) assms(2) by (auto simp: parseSubnetAnnotation_def)
qed

lemma subnet_docs_parse:
  assumes "subnet_docs_ok d"
  shows "\<exists>m. distinct (map fst m) \<and> (\<forall>ns \<in> ran (map_of m). list_all cidr_wf ns) \<and> host_subnets d = map_of m
    \<and> (parseSubnetAnnotation d ovnNodeSubnets = Inr m \<or>
       m = [] \<and> parseSubnetAnnotation d ovnNodeSubnets = Inl (NotSet ovnNodeSubnets))"
proof (cases "d ovnNodeSubnets")
  case None
  then show ?thesis by (intro exI [of _ "[]"]) (auto simp: parseSubnetAnnotation_def host_subnets_def)
next
  case (Some a)
  then obtain m where "parseSubnetAnnotation d ovnNodeSubnets = Inr m" "\<forall>ns \<in> ran (map_of m). list_all cidr_wf ns"
    using assms by (auto simp: subnet_docs_ok_def)
  then show ?thesis using parseSubnetAnnotation_distinct by (intro exI [of _ m]) (auto simp: host_subnets_def)
qed

lemma subnet_upd_ok:
  assumes "subnet_docs_ok d" and "list_all cidr_wf nets"
  shows "\<exists>d'. UpdateNodeHostSubnetAnnotation d nets k = Inr d' \<and> subnet_docs_ok d'
    \<and> host_subnets d' = (host_subnets d)(k := if nets = [] then None else Some nets)"
proof -
  obtain m where m: "distinct (map fst m)" "\<forall>ns \<in> ran (map_of m). list_all cidr_wf ns" "host_subnets d = map_of m"
      "parseSubnetAnnotation d ovnNodeSubnets = Inr m \<or>
       m = [] \<and> parseSubnetAnnotation d ovnNodeSubnets = Inl (NotSet ovnNodeSubnets)"
    using subnet_docs_parse [OF assms(1)] by blast
  let ?m = "if nets = [] then AList.delete k m else AList.update k nets m"
  let ?f = "\<lambda>subnets. JArray (map (\<lambda>n. JString (IPNet_String n)) subnets)"
  let ?d = "if ?m = [] then d(ovnNodeSubnets := None) else d(ovnNodeSubnets \<mapsto> Some (encode_map ?f ?m))"
  have u: "UpdateNodeHostSubnetAnnotation d nets k = Inr ?d"
    using m(4) by (auto simp: UpdateNodeHostSubnetAnnotation_def updateSubnetAnnotation_def IsAnnotationNotSetError_def Let_def)
  have mm: "distinct (map fst ?m)" "map_of ?m = (host_subnets d)(k := if nets = [] then None else Some nets)"
    using m(1,3) by (auto simp: distinct_update distinct_delete update_conv' delete_conv')
  then have wf: "\<forall>ns \<in> ran (map_of ?m). list_all cidr_wf ns"
    using m(2,3) assms(2) by (auto simp: ran_def split: if_splits)
  have r: "subnet_docs_ok ?d \<and> host_subnets ?d = map_of ?m"
  proof (cases "?m = []")
    case True
    then show ?thesis by (simp add: subnet_docs_ok_def host_subnets_def parseSubnetAnnotation_def)
  next
    case False
    obtain sm where sm: "parseSubnetAnnotation ?d ovnNodeSubnets = Inr sm" "map_of sm = map_of ?m"
      using parse_encoded_subnets [OF mm(1) False wf, of d ovnNodeSubnets] unfolding if_not_P [OF False] by blast
    have "\<forall>ns \<in> ran (map_of sm). list_all cidr_wf ns" unfolding sm(2) by (rule wf)
    then show ?thesis
      unfolding subnet_docs_ok_def host_subnets_def sm(1) sum.case sm(2) [symmetric] by blast
  qed
  show ?thesis
    by (rule exI [of _ ?d]) (intro conjI u conjunct1 [OF r], simp only: conjunct2 [OF r] mm(2))
qed

lemma UpdateNodeHostSubnet_frame: "UpdateNodeHostSubnetAnnotation d nets k = Inr d' \<Longrightarrow> j \<noteq> ovnNodeSubnets \<Longrightarrow> d' j = d j"
  by (auto simp: UpdateNodeHostSubnetAnnotation_def updateSubnetAnnotation_def Let_def split: sum.splits option.splits if_splits)

interpretation sub: network_annotation subnet_docs_ok host_subnets
    "\<lambda>d k x. UpdateNodeHostSubnetAnnotation d (case x of None \<Rightarrow> [] | Some ns \<Rightarrow> ns) k"
    "\<lambda>ns. ns \<noteq> [] \<and> list_all cidr_wf ns" ovnNodeSubnets
proof (unfold_locales, goal_cases)
  case (1 d x k)
  then show ?case using subnet_upd_ok [of d "case x of None \<Rightarrow> [] | Some ns \<Rightarrow> ns" k]
    by (cases x) auto
next
  case (2 d k x d' j)
  then show ?case using UpdateNodeHostSubnet_frame by blast
qed

lemma ParseNodeHostSubnet_entry:
  assumes "subnet_docs_ok (node_docs node)"
  shows "ParseNodeHostSubnetAnnotation node nm =
    (case host_subnets (node_docs node) nm of None \<Rightarrow> Inl (NotSet ovnNodeSubnets) | Some ns \<Rightarrow> Inr ns)"
  using subnet_docs_parse [OF assms] by (auto simp: ParseNodeHostSubnetAnnotation_def split: option.splits)

text \<open>C38: The node-subnets annotation implements a map from network names to lists of subnets: on a
  readable annotation \<open>UpdateNodeHostSubnetAnnotation\<close> succeeds, the network then reads as exactly the
  subnets written (not set when the list is empty), every other network reads as before, and no other
  annotation changes.\<close>

theorem node_subnet_annotation_refines_map:
  assumes "subnet_docs_ok docs" and "list_all cidr_wf nets"
  shows "\<exists>docs'. UpdateNodeHostSubnetAnnotation docs nets net = Inr docs' \<and> subnet_docs_ok docs'
    \<and> (\<forall>nm. ParseNodeHostSubnetAnnotation \<lparr>node_Name = n, node_docs = docs', node_texts = t\<rparr> nm =
         (if nm = net then (if nets = [] then Inl (NotSet ovnNodeSubnets) else Inr nets)
          else ParseNodeHostSubnetAnnotation \<lparr>node_Name = n, node_docs = docs, node_texts = t\<rparr> nm))
    \<and> (\<forall>k. k \<noteq> ovnNodeSubnets \<longrightarrow> docs' k = docs k)"
proof -
  let ?x = "if nets = [] then None else Some nets"
  obtain docs' where d: "UpdateNodeHostSubnetAnnotation docs nets net = Inr docs'" "subnet_docs_ok docs'"
      "host_subnets docs' = (host_subnets docs)(net := ?x)"
    using sub.upd_ok [OF assms(1), of ?x net] assms(2) by (cases "nets = []") auto
  then show ?thesis
    using ParseNodeHostSubnet_entry [of "\<lparr>node_Name = n, node_docs = docs', node_texts = t\<rparr>"]
      ParseNodeHostSubnet_entry [of "\<lparr>node_Name = n, node_docs = docs, node_texts = t\<rparr>"] assms(1)
      UpdateNodeHostSubnet_frame [OF d(1)] by auto
qed

theorem node_subnet_annotation_refines_map_witness:
  "\<exists>docs'. UpdateNodeHostSubnetAnnotation
      [ovnNodeSubnets \<mapsto> Some (JObject [(''default'', JString ''10.130.0.0/23'')])]
      [\<lparr>IP = [10, 200, 1, 0], Mask = [255, 255, 255, 0]\<rparr>] ''blue'' = Inr docs'
    \<and> ParseNodeHostSubnetAnnotation \<lparr>node_Name = ''n'', node_docs = docs', node_texts = Map.empty\<rparr> ''default''
      = Inr [\<lparr>IP = [10, 130, 0, 0], Mask = [255, 255, 254, 0]\<rparr>]"
proof -
  let ?d = "[ovnNodeSubnets \<mapsto> Some (JObject [(''default'', JString ''10.130.0.0/23'')])]"
  let ?n = "\<lparr>IP = [10, 130, 0, 0], Mask = [255, 255, 254, 0]\<rparr>" and ?k = "\<lparr>IP = [10, 200, 1, 0], Mask = [255, 255, 255, 0]\<rparr>"
  have wf: "list_all cidr_wf [?n]" "list_all cidr_wf [?k]" unfolding cidr_wf_def net_bits_def net_ones_def by code_simp+
  have "parseSubnetAnnotation ?d ovnNodeSubnets = Inr [(''default'', [?n])]" by code_simp
  then have "subnet_docs_ok ?d" using wf(1) by (auto simp: subnet_docs_ok_def ran_def)
  moreover have "ParseNodeHostSubnetAnnotation \<lparr>node_Name = ''n'', node_docs = ?d, node_texts = Map.empty\<rparr> ''default'' = Inr [?n]"
    by code_simp
  ultimately show ?thesis
    using node_subnet_annotation_refines_map [of ?d "[?k]" "''blue''" "''n''" Map.empty] wf(2) by force
qed

section \<open>Network ids as a map\<close>

lemma Atoi_itoa:
  assumes "- (2 ^ 63) \<le> p" and "p < 2 ^ 63"
  shows "Atoi (itoa p) = (p, True)"
proof (cases "p < 0")
  case True
  then show ?thesis using all_digits_utoa [of "- p"] utoa_chars(1) [of "- p"] assms
    by (simp add: Atoi_def itoa_def Let_def)
next
  case False
  have "hd (utoa p) \<in> set (utoa p)" using utoa_chars(1) [of p] False by simp
  then have "hd (utoa p) \<noteq> CHR ''-''" "hd (utoa p) \<noteq> CHR ''+''" using set_utoa [of p] False by auto
  then show ?thesis using False all_digits_utoa [of p] utoa_chars(1) [of p] assms
    by (simp add: Atoi_def itoa_def Let_def)
qed

definition network_id_texts :: "documents \<Rightarrow> string \<rightharpoonup> string" where
  "network_id_texts docs = (case parseNetworkIDsAnnotation docs ovnNetworkIDs of Inl _ \<Rightarrow> Map.empty | Inr m \<Rightarrow> map_of m)"

definition id_docs_ok :: "documents \<Rightarrow> bool" where
  "id_docs_ok docs \<longleftrightarrow> docs ovnNetworkIDs = None \<or> (\<exists>m. parseNetworkIDsAnnotation docs ovnNetworkIDs = Inr m)"

lemma id_docs_parse:
  assumes "id_docs_ok d"
  shows "\<exists>m. distinct (map fst m) \<and> network_id_texts d = map_of m
    \<and> (parseNetworkIDsAnnotation d ovnNetworkIDs = Inr m \<or>
       m = [] \<and> parseNetworkIDsAnnotation d ovnNetworkIDs = Inl (NotSet ovnNetworkIDs))"
proof (cases "d ovnNetworkIDs")
  case None
  then show ?thesis by (intro exI [of _ "[]"]) (auto simp: parseNetworkIDsAnnotation_def network_id_texts_def)
next
  case (Some a)
  then obtain m where m: "parseNetworkIDsAnnotation d ovnNetworkIDs = Inr m" using assms by (auto simp: id_docs_ok_def)
  then have "distinct (map fst m)" using Some
    by (auto simp: parseNetworkIDsAnnotation_def bind_eq_Some_conv dest: decode_distinct split: option.splits if_splits)
  then show ?thesis using m by (intro exI [of _ m]) (auto simp: network_id_texts_def)
qed

lemma id_upd_ok:
  assumes "id_docs_ok d"
  shows "\<exists>d'. UpdateNetworkIDAnnotation d k i = Inr d' \<and> id_docs_ok d'
    \<and> network_id_texts d' = (network_id_texts d)(k := if i = InvalidNetworkID then None else Some (itoa i))"
proof -
  obtain m where m: "distinct (map fst m)" "network_id_texts d = map_of m"
      "parseNetworkIDsAnnotation d ovnNetworkIDs = Inr m \<or>
       m = [] \<and> parseNetworkIDsAnnotation d ovnNetworkIDs = Inl (NotSet ovnNetworkIDs)"
    using id_docs_parse [OF assms] by blast
  let ?m = "if i = InvalidNetworkID then AList.delete k m else AList.update k (itoa i) m"
  let ?d = "if ?m = [] then d(ovnNetworkIDs := None) else d(ovnNetworkIDs \<mapsto> Some (encode_map JString ?m))"
  have u: "UpdateNetworkIDAnnotation d k i = Inr ?d"
    using m(3) by (auto simp: UpdateNetworkIDAnnotation_def updateNetworkIDsAnnotation_def IsAnnotationNotSetError_def Let_def)
  have mm: "distinct (map fst ?m)"
      "map_of ?m = (network_id_texts d)(k := if i = InvalidNetworkID then None else Some (itoa i))"
    using m(1,2) by (auto simp: distinct_update distinct_delete update_conv' delete_conv')
  obtain r where r: "decode_map (decode_string []) (encode_map JString ?m) = Some r" "r = [] \<longleftrightarrow> ?m = []"
      "map_of r = map_option id \<circ> map_of ?m"
    using decode_encode_map [OF mm(1), of "decode_string []" JString id] by auto
  have e: "id_docs_ok ?d \<and> network_id_texts ?d = map_of ?m"
  proof (cases "?m = []")
    case True
    then show ?thesis by (simp add: id_docs_ok_def network_id_texts_def parseNetworkIDsAnnotation_def)
  next
    case False
    then have "parseNetworkIDsAnnotation ?d ovnNetworkIDs = Inr r"
      unfolding if_not_P [OF False] parseNetworkIDsAnnotation_def using r(1,2) by simp
    then show ?thesis unfolding id_docs_ok_def network_id_texts_def using r(3) by (simp add: option.map_id0)
  qed
  show ?thesis by (rule exI [of _ ?d]) (intro conjI u conjunct1 [OF e], simp only: conjunct2 [OF e] mm(2))
qed

lemma UpdateNetworkID_frame: "UpdateNetworkIDAnnotation d k i = Inr d' \<Longrightarrow> j \<noteq> ovnNetworkIDs \<Longrightarrow> d' j = d j"
  by (auto simp: UpdateNetworkIDAnnotation_def updateNetworkIDsAnnotation_def Let_def split: sum.splits option.splits if_splits)

text \<open>The ids by value.\<close>

definition network_ids :: "documents \<Rightarrow> string \<rightharpoonup> int" where
  "network_ids docs = (\<lambda>k. Option.bind (network_id_texts docs k) (\<lambda>s. if snd (Atoi s) then Some (fst (Atoi s)) else None))"

interpretation ids: network_annotation id_docs_ok network_ids
    "\<lambda>d k x. UpdateNetworkIDAnnotation d k (case x of None \<Rightarrow> InvalidNetworkID | Some i \<Rightarrow> i)"
    "\<lambda>i. i \<noteq> InvalidNetworkID \<and> - (2 ^ 63) \<le> i \<and> i < 2 ^ 63" ovnNetworkIDs
proof (unfold_locales, goal_cases)
  case (1 d x k)
  then show ?case using id_upd_ok [OF 1(1), of k "case x of None \<Rightarrow> InvalidNetworkID | Some i \<Rightarrow> i"]
    by (cases x) (auto simp: network_ids_def fun_eq_iff Atoi_itoa)
next
  case (2 d k x d' j)
  then show ?case using UpdateNetworkID_frame by blast
qed

lemma ParseNetworkID_entry:
  assumes "id_docs_ok (node_docs node)"
  shows "ParseNetworkIDAnnotation node nm =
    (case network_id_texts (node_docs node) nm of
       None \<Rightarrow> (InvalidNetworkID, Some (NotSet ovnNetworkIDs))
     | Some s \<Rightarrow> (fst (Atoi s), if snd (Atoi s) then None else Some (BadValue s)))"
  using id_docs_parse [OF assms] by (auto simp: ParseNetworkIDAnnotation_def split: option.splits prod.splits)

text \<open>\<open>ParseNetworkIDAnnotation\<close> reads back the id that \<open>UpdateNetworkIDAnnotation\<close> wrote, \<open>-1\<close> with
  an error after a deletion, and the ids of the other networks are untouched.\<close>

lemma network_id_annotation_roundtrip:
  assumes "id_docs_ok docs" and "- (2 ^ 63) \<le> i" and "i < 2 ^ 63"
  shows "\<exists>docs'. UpdateNetworkIDAnnotation docs net i = Inr docs' \<and> id_docs_ok docs'
    \<and> (\<forall>nm. ParseNetworkIDAnnotation \<lparr>node_Name = n, node_docs = docs', node_texts = t\<rparr> nm =
         (if nm = net then (if i = -1 then (-1, Some (NotSet ovnNetworkIDs)) else (i, None))
          else ParseNetworkIDAnnotation \<lparr>node_Name = n, node_docs = docs, node_texts = t\<rparr> nm))"
proof -
  obtain docs' where d: "UpdateNetworkIDAnnotation docs net i = Inr docs'" "id_docs_ok docs'"
      "network_id_texts docs' = (network_id_texts docs)(net := if i = InvalidNetworkID then None else Some (itoa i))"
    using id_upd_ok [OF assms(1), of net i] by blast
  then show ?thesis
    using ParseNetworkID_entry [of "\<lparr>node_Name = n, node_docs = docs', node_texts = t\<rparr>"]
      ParseNetworkID_entry [of "\<lparr>node_Name = n, node_docs = docs, node_texts = t\<rparr>"] assms Atoi_itoa [OF assms(2,3)]
    by (auto simp: InvalidNetworkID_def)
qed

end
