(* ===== verification/Node_Allocator.thy ===== *)
theory Node_Allocator
  imports Host_Subnets Node_Annotations
begin

text \<open>
  \<open>pkg/clustermanager/node/node_allocator.go\<close>: the node allocator of the cluster manager hands host
  subnets to nodes and writes them into the node annotations. It composes the host subnet allocator
  with the node annotations. The matching of node labels is an argument, the answers of the informer
  cache and of the API server are inputs of the handlers: for each attempt of an update, the node the
  cache returns and the outcome of the call. Logging and metrics are left out. \<open>annotator.Set\<close> with a
  string never fails (\<open>pkg/kube/annotator.go\<close>), so its error branch is not reachable. An index out of
  range is a panic, \<open>None\<close>. The lemmas show that an event leaves a node with exactly one owned subnet per
  enabled address family or reports an error, that a node keeps its valid subnets, and what goes wrong
  for a node whose annotation lists a subnet twice and when a node is deleted with hybrid overlay
  enabled.
\<close>

section \<open>State\<close>

record netInfo =
  ni_name :: string
  ni_secondary :: bool
  ni_topology :: string
  ni_subnets :: "(ipnet \<times> int) list"
  ni_ipMode :: "bool \<times> bool"

record na_config =
  cfg_hybridEnabled :: bool
  cfg_hybridSubnets :: "(ipnet \<times> int) list"
  cfg_noHostSubnetNodes :: "(Node \<Rightarrow> bool) option"

record NodeAllocator =
  na_cluster :: BaseSubnetAllocator
  na_hybrid :: BaseSubnetAllocator
  na_networkID :: int
  na_netInfo :: netInfo

datatype node_error =
    NodeRange host_error
  | NodeAllocFailed host_error
  | NotEnoughSubnets int nat
  | NodeUpdateFailed
  | NodeClearFailed string
  | SpuriousObject
  | HybridFailed node_error
  | HybridAnnotateFailed

datatype api_outcome = ApiOk | ApiConflict | ApiError

definition hasNodeSubnetAllocation :: "NodeAllocator \<Rightarrow> bool" where
  "hasNodeSubnetAllocation na \<longleftrightarrow> ni_topology (na_netInfo na) = ''layer3'' \<or> \<not> ni_secondary (na_netInfo na)"

definition hasHybridOverlayAllocation :: "na_config \<Rightarrow> NodeAllocator \<Rightarrow> bool" where
  "hasHybridOverlayAllocation cfg na \<longleftrightarrow> cfg_hybridEnabled cfg \<and> \<not> ni_secondary (na_netInfo na)"

definition NewNodeAllocator :: "int \<Rightarrow> netInfo \<Rightarrow> NodeAllocator" where
  "NewNodeAllocator networkID info =
     \<lparr>na_cluster = NewSubnetAllocator, na_hybrid = NewSubnetAllocator, na_networkID = networkID, na_netInfo = info\<rparr>"

text \<open>The loop over the configured subnets; it stops at the first error.\<close>

fun add_ranges :: "(ipnet \<times> int) list \<Rightarrow> BaseSubnetAllocator \<Rightarrow> (node_error + unit) \<times> BaseSubnetAllocator" where
  "add_ranges [] sna = (Inr (), sna)"
| "add_ranges ((cidr, len) # cs) sna =
     (case AddNetworkRange cidr len sna of
        (Inl e, sna') \<Rightarrow> (Inl (NodeRange e), sna')
      | (Inr _, sna') \<Rightarrow> add_ranges cs sna')"

definition na_Init :: "na_config \<Rightarrow> NodeAllocator \<Rightarrow> (node_error + unit) \<times> NodeAllocator" where
  "na_Init cfg na =
     (if \<not> hasNodeSubnetAllocation na then (Inr (), na)
      else case add_ranges (ni_subnets (na_netInfo na)) (na_cluster na) of
          (Inl e, sna) \<Rightarrow> (Inl e, na\<lparr>na_cluster := sna\<rparr>)
        | (Inr _, sna) \<Rightarrow>
            let na1 = na\<lparr>na_cluster := sna\<rparr>
            in if hasHybridOverlayAllocation cfg na1 then
                 (case add_ranges (cfg_hybridSubnets cfg) (na_hybrid na1) of (res, ho) \<Rightarrow> (res, na1\<lparr>na_hybrid := ho\<rparr>))
               else (Inr (), na1))"

definition NoHostSubnet :: "na_config \<Rightarrow> Node \<Rightarrow> bool" where
  "NoHostSubnet cfg node = (case cfg_noHostSubnetNodes cfg of None \<Rightarrow> False | Some matches \<Rightarrow> matches node)"

definition IsHybridOverlayNode :: "na_config \<Rightarrow> Node \<Rightarrow> bool" where
  "IsHybridOverlayNode cfg node = (case cfg_noHostSubnetNodes cfg of Some matches \<Rightarrow> matches node | None \<Rightarrow> False)"

section \<open>Subnets of one node\<close>

text \<open>The loop over the existing subnets: the families found, the valid subnets, the allocator.\<close>

fun validate_existing ::
  "string \<Rightarrow> bool \<Rightarrow> bool \<Rightarrow> ipnet list \<Rightarrow> bool \<Rightarrow> bool \<Rightarrow> ipnet list \<Rightarrow> BaseSubnetAllocator
   \<Rightarrow> bool \<times> bool \<times> ipnet list \<times> BaseSubnetAllocator" where
  "validate_existing nodeName v4Mode v6Mode [] found4 found6 kept sna = (found4, found6, kept, sna)"
| "validate_existing nodeName v4Mode v6Mode (s # ss) found4 found6 kept sna =
     (let wanted = (v4Mode \<and> IsIPv4CIDR s \<and> \<not> found4) \<or> (v6Mode \<and> IsIPv6CIDR s \<and> \<not> found6);
          marked = (if wanted then MarkAllocatedNetworks nodeName [s] sna else (Inl ErrSubnetAllocatorFull, sna))
      in if wanted \<and> \<not> isl (fst marked) then
           validate_existing nodeName v4Mode v6Mode ss
             (found4 \<or> IsIPv4CIDR s) (found6 \<or> (\<not> IsIPv4CIDR s \<and> IsIPv6CIDR s)) (kept @ [s]) (snd marked)
         else validate_existing nodeName v4Mode v6Mode ss found4 found6 kept
                (snd (ReleaseNetworks nodeName [s] (snd marked))))"

text \<open>The deferred release of the subnets allocated so far, one at a time.\<close>

definition release_each :: "string \<Rightarrow> ipnet list \<Rightarrow> BaseSubnetAllocator \<Rightarrow> BaseSubnetAllocator" where
  "release_each nodeName ns sna = fold (\<lambda>n a. snd (ReleaseNetworks nodeName [n] a)) ns sna"

text \<open>\<open>allocateOneSubnet\<close> applied to the result of an allocation, if one is needed.\<close>

definition allocate_one ::
  "bool \<Rightarrow> (BaseSubnetAllocator \<Rightarrow> ((host_error + ipnet option) \<times> BaseSubnetAllocator) option) \<Rightarrow> ipnet list
   \<Rightarrow> BaseSubnetAllocator \<Rightarrow> ((host_error + ipnet list) \<times> BaseSubnetAllocator) option" where
  "allocate_one needed alloc allocated sna =
     (if \<not> needed then Some (Inr allocated, sna)
      else case alloc sna of
          None \<Rightarrow> None
        | Some (Inl e, sna') \<Rightarrow> Some (Inl e, sna')
        | Some (Inr None, sna') \<Rightarrow> Some (Inr allocated, sna')
        | Some (Inr (Some n), sna') \<Rightarrow> Some (Inr (allocated @ [n]), sna'))"

definition allocateNodeSubnets ::
  "BaseSubnetAllocator \<Rightarrow> string \<Rightarrow> ipnet list \<Rightarrow> bool \<Rightarrow> bool
   \<Rightarrow> ((node_error + ipnet list \<times> ipnet list) \<times> BaseSubnetAllocator) option" where
  "allocateNodeSubnets sna nodeName existingSubnets v4Mode v6Mode =
     (let expected = (if v4Mode \<and> v6Mode then 2 else 1 :: int)
      in case validate_existing nodeName v4Mode v6Mode existingSubnets False False [] sna of
           (found4, found6, kept, sna1) \<Rightarrow>
             if int (length kept) = expected then Some (Inr (kept, []), sna1)
             else
               (case allocate_one (v4Mode \<and> \<not> found4) (AllocateIPv4Network nodeName) [] sna1 of
                  None \<Rightarrow> None
                | Some (Inl e, sna2) \<Rightarrow> Some (Inl (NodeAllocFailed e), sna2)
                | Some (Inr al4, sna2) \<Rightarrow>
                    (case allocate_one (v6Mode \<and> \<not> found6) (AllocateIPv6Network nodeName) al4 sna2 of
                       None \<Rightarrow> None
                     | Some (Inl e, sna3) \<Rightarrow> Some (Inl (NodeAllocFailed e), release_each nodeName al4 sna3)
                     | Some (Inr al, sna3) \<Rightarrow>
                         let wantedSubnets = expected - int (length kept)
                         in if wantedSubnets > 0 \<and> int (length al) \<noteq> wantedSubnets
                            then Some (Inl (NotEnoughSubnets expected (length al)), release_each nodeName al sna3)
                            else Some (Inr (kept @ al, al), sna3))))"

section \<open>Writing the annotations\<close>

text \<open>One attempt: the node of the cache with the subnets of each network and the network id set.\<close>

fun set_subnets :: "(string \<times> ipnet list) list \<Rightarrow> documents \<Rightarrow> annotation_error + documents" where
  "set_subnets [] docs = Inr docs"
| "set_subnets ((netName, hostSubnets) # m) docs =
     (case UpdateNodeHostSubnetAnnotation docs hostSubnets netName of Inl e \<Rightarrow> Inl e | Inr docs' \<Rightarrow> set_subnets m docs')"

definition annotate_node :: "string \<Rightarrow> (string \<times> ipnet list) list \<Rightarrow> int \<Rightarrow> Node \<Rightarrow> annotation_error + Node" where
  "annotate_node networkName hostSubnetsMap networkId node =
     (case set_subnets hostSubnetsMap (node_docs node) of
        Inl e \<Rightarrow> Inl e
      | Inr docs \<Rightarrow>
          (case UpdateNetworkIDAnnotation docs networkName networkId of
             Inl e \<Rightarrow> Inl e
           | Inr docs' \<Rightarrow> Inr (node\<lparr>node_docs := docs'\<rparr>)))"

text \<open>\<open>RetryOnConflict\<close> with four steps. The result is the node that was written, if any.\<close>

fun update_attempts :: "nat \<Rightarrow> (Node \<Rightarrow> annotation_error + Node) \<Rightarrow> (Node option \<times> api_outcome) list \<Rightarrow> node_error + Node" where
  "update_attempts 0 f as = Inl NodeUpdateFailed"
| "update_attempts (Suc k) f [] = Inl NodeUpdateFailed"
| "update_attempts (Suc k) f ((cached, outcome) # as) =
     (case cached of
        None \<Rightarrow> Inl NodeUpdateFailed
      | Some node \<Rightarrow>
          (case f node of
             Inl _ \<Rightarrow> Inl NodeUpdateFailed
           | Inr cnode \<Rightarrow>
               (case outcome of
                  ApiOk \<Rightarrow> Inr cnode
                | ApiConflict \<Rightarrow> update_attempts k f as
                | ApiError \<Rightarrow> Inl NodeUpdateFailed)))"

definition updateNodeNetworkAnnotationsWithRetry ::
  "NodeAllocator \<Rightarrow> (string \<times> ipnet list) list \<Rightarrow> int \<Rightarrow> (Node option \<times> api_outcome) list \<Rightarrow> node_error + Node" where
  "updateNodeNetworkAnnotationsWithRetry na hostSubnetsMap networkId attempts =
     update_attempts 4 (annotate_node (ni_name (na_netInfo na)) hostSubnetsMap networkId) attempts"

section \<open>Events\<close>

definition hybridOverlayNodeEnsureSubnet ::
  "NodeAllocator \<Rightarrow> Node \<Rightarrow> ((node_error + ipnet) \<times> NodeAllocator) option" where
  "hybridOverlayNodeEnsureSubnet na node =
     (let existingSubnets = (case ParseHybridOverlayHostSubnet node of Inr (Some subnet) \<Rightarrow> [subnet] | _ \<Rightarrow> [])
      in case allocateNodeSubnets (na_hybrid na) (node_Name node) existingSubnets True False of
           None \<Rightarrow> None
         | Some (Inl e, ho) \<Rightarrow> Some (Inl (HybridFailed e), na\<lparr>na_hybrid := ho\<rparr>)
         | Some (Inr ([], _), ho) \<Rightarrow> None
         | Some (Inr (n # ns, _), ho) \<Rightarrow> Some (Inr n, na\<lparr>na_hybrid := ho\<rparr>))"

definition releaseHybridOverlayNodeSubnet :: "string \<Rightarrow> NodeAllocator \<Rightarrow> NodeAllocator" where
  "releaseHybridOverlayNodeSubnet nodeName na = na\<lparr>na_hybrid := ReleaseAllNetworks nodeName (na_hybrid na)\<rparr>"

text \<open>The result carries the node written to the API server, if one was written.\<close>

definition syncNodeNetworkAnnotations ::
  "Node \<Rightarrow> (Node option \<times> api_outcome) list \<Rightarrow> NodeAllocator \<Rightarrow> ((node_error + Node option) \<times> NodeAllocator) option" where
  "syncNodeNetworkAnnotations node attempts na =
     (let networkName = ni_name (na_netInfo na);
          networkID = fst (ParseNetworkIDAnnotation node networkName);
          existing = (case ParseNodeHostSubnetAnnotation node networkName of Inr ns \<Rightarrow> ns | Inl _ \<Rightarrow> [])
      in case (if hasNodeSubnetAllocation na
               then allocateNodeSubnets (na_cluster na) (node_Name node) existing
                      (fst (ni_ipMode (na_netInfo na))) (snd (ni_ipMode (na_netInfo na)))
               else Some (Inr ([], []), na_cluster na)) of
           None \<Rightarrow> None
         | Some (Inl e, sna) \<Rightarrow> Some (Inl e, na\<lparr>na_cluster := sna\<rparr>)
         | Some (Inr (valid, allocated), sna) \<Rightarrow>
             let na1 = na\<lparr>na_cluster := sna\<rparr>;
                 updatedSubnetsMap = (if hasNodeSubnetAllocation na \<and> (length existing \<noteq> length valid \<or> length allocated > 0)
                                      then [(networkName, valid)] else [])
             in if updatedSubnetsMap \<noteq> [] \<or> na_networkID na \<noteq> networkID then
                  (case updateNodeNetworkAnnotationsWithRetry na1 updatedSubnetsMap (na_networkID na) attempts of
                     Inl e \<Rightarrow> Some (Inl e, na1\<lparr>na_cluster := snd (ReleaseNetworks (node_Name node) allocated sna)\<rparr>)
                   | Inr cnode \<Rightarrow> Some (Inr (Some cnode), na1))
                else Some (Inr None, na1))"

definition HandleAddUpdateNodeEvent ::
  "na_config \<Rightarrow> Node \<Rightarrow> (Node option \<times> api_outcome) list \<Rightarrow> bool \<Rightarrow> NodeAllocator
   \<Rightarrow> ((node_error + Node option) \<times> NodeAllocator) option" where
  "HandleAddUpdateNodeEvent cfg node attempts annotator_ok na =
     (if NoHostSubnet cfg node then
        (if hasHybridOverlayAllocation cfg na \<and> IsHybridOverlayNode cfg node then
           (case hybridOverlayNodeEnsureSubnet na node of
              None \<Rightarrow> None
            | Some (Inl e, na1) \<Rightarrow> Some (Inl e, na1)
            | Some (Inr allocatedSubnet, na1) \<Rightarrow>
                if annotator_ok then
                  Some (Inr (Some (node\<lparr>node_texts := (node_texts node)(HybridOverlayNodeSubnet \<mapsto> IPNet_String allocatedSubnet)\<rparr>)), na1)
                else Some (Inl HybridAnnotateFailed, releaseHybridOverlayNodeSubnet (node_Name node) na1))
         else Some (Inr None, na))
      else syncNodeNetworkAnnotations node attempts na)"

definition HandleDeleteNode :: "na_config \<Rightarrow> Node \<Rightarrow> NodeAllocator \<Rightarrow> NodeAllocator" where
  "HandleDeleteNode cfg node na =
     (if hasHybridOverlayAllocation cfg na then releaseHybridOverlayNodeSubnet (node_Name node) na
      else if hasNodeSubnetAllocation na then na\<lparr>na_cluster := ReleaseAllNetworks (node_Name node) (na_cluster na)\<rparr>
      else na)"

text \<open>An object that is not a node is \<open>None\<close>.\<close>

fun Sync_loop :: "na_config \<Rightarrow> Node option list \<Rightarrow> NodeAllocator \<Rightarrow> (node_error + unit) \<times> NodeAllocator" where
  "Sync_loop cfg [] na = (Inr (), na)"
| "Sync_loop cfg (None # nodes) na = (Inl SpuriousObject, na)"
| "Sync_loop cfg (Some node # nodes) na =
     (if NoHostSubnet cfg node then
        (if hasHybridOverlayAllocation cfg na \<and> IsHybridOverlayNode cfg node then
           (case ParseHybridOverlayHostSubnet node of
              Inr (Some hostSubnet) \<Rightarrow>
                Sync_loop cfg nodes (na\<lparr>na_hybrid := snd (ReleaseNetworks (node_Name node) [hostSubnet] (na_hybrid na))\<rparr>)
            | _ \<Rightarrow> Sync_loop cfg nodes na)
         else Sync_loop cfg nodes na)
      else
        (case ParseNodeHostSubnetAnnotation node (ni_name (na_netInfo na)) of
           Inr hostSubnets \<Rightarrow>
             if hostSubnets \<noteq> [] then
               Sync_loop cfg nodes (na\<lparr>na_cluster := snd (MarkAllocatedNetworks (node_Name node) hostSubnets (na_cluster na))\<rparr>)
             else Sync_loop cfg nodes na
         | Inl _ \<Rightarrow> Sync_loop cfg nodes na))"

definition na_Sync :: "na_config \<Rightarrow> Node option list \<Rightarrow> NodeAllocator \<Rightarrow> (node_error + unit) \<times> NodeAllocator" where
  "na_Sync cfg nodes na = (if \<not> hasNodeSubnetAllocation na then (Inr (), na) else Sync_loop cfg nodes na)"

text \<open>The nodes of the cache, each with the attempts of its update.\<close>

fun Cleanup_loop :: "na_config \<Rightarrow> (Node \<times> (Node option \<times> api_outcome) list) list \<Rightarrow> NodeAllocator
   \<Rightarrow> (node_error + unit) \<times> NodeAllocator" where
  "Cleanup_loop cfg [] na = (Inr (), na)"
| "Cleanup_loop cfg ((node, attempts) # ns) na =
     (if NoHostSubnet cfg node then Cleanup_loop cfg ns na
      else case updateNodeNetworkAnnotationsWithRetry na [(ni_name (na_netInfo na), [])] InvalidNetworkID attempts of
          Inl e \<Rightarrow> (Inl (NodeClearFailed (node_Name node)), na)
        | Inr _ \<Rightarrow> Cleanup_loop cfg ns (na\<lparr>na_cluster := ReleaseAllNetworks (node_Name node) (na_cluster na)\<rparr>))"

definition na_Cleanup :: "na_config \<Rightarrow> (Node \<times> (Node option \<times> api_outcome) list) list \<Rightarrow> NodeAllocator
   \<Rightarrow> (node_error + unit) \<times> NodeAllocator" where
  "na_Cleanup cfg nodes na = Cleanup_loop cfg nodes na"

section \<open>Who owns what\<close>

definition owns_in :: "subnetAllocatorRange list \<Rightarrow> string \<Rightarrow> string \<Rightarrow> bool" where
  "owns_in rs w k \<longleftrightarrow> (\<exists>r \<in> set rs. sr_allocMap r k = Some w)"

definition owns :: "BaseSubnetAllocator \<Rightarrow> string \<Rightarrow> string \<Rightarrow> bool" where
  "owns a w k \<longleftrightarrow> owns_in (sna_v4ranges a) w k \<or> owns_in (sna_v6ranges a) w k"

lemma owns_in_simps [simp]: "\<not> owns_in [] w k" "owns_in (r # rs) w k \<longleftrightarrow> sr_allocMap r k = Some w \<or> owns_in rs w k"
  by (auto simp: owns_in_def)

lemma mark_ranges_eff:
  "mark_ranges ow n rs = (res, rs') \<Longrightarrow>
     (res = Inr True \<longrightarrow> owns_in rs' ow (IPNet_String n)) \<and> (res \<noteq> Inr True \<longrightarrow> rs' = rs)
     \<and> (\<forall>w k. owns_in rs w k \<longrightarrow> owns_in rs' w k)
     \<and> (\<forall>w k. k \<noteq> IPNet_String n \<longrightarrow> owns_in rs' w k = owns_in rs w k)"
proof (induction rs arbitrary: res rs')
  case (Cons r rs)
  obtain x r' where x: "markAllocatedNetwork ow n r = (x, r')" by fastforce
  have m: "x = Inr True \<longrightarrow> sr_allocMap r' (IPNet_String n) = Some ow" "x \<noteq> Inr True \<longrightarrow> r' = r"
      "sr_allocMap r k = Some w \<Longrightarrow> sr_allocMap r' k = Some w"
      "k \<noteq> IPNet_String n \<Longrightarrow> sr_allocMap r' k = sr_allocMap r k" for k w
    using x by (auto simp: markAllocatedNetwork_def Let_def split: if_splits option.splits)
  show ?case
  proof (cases "x = Inr False")
    case True
    obtain y ss where y: "mark_ranges ow n rs = (y, ss)" by fastforce
    then show ?thesis using Cons.IH [OF y] Cons.prems x m True by auto
  next
    case False
    then have "res = x" "rs' = r' # rs" using Cons.prems x by (auto split: sum.splits bool.splits)
    then show ?thesis using m by auto
  qed
qed simp

lemma release_ranges_eff:
  "release_ranges ow n rs = (b, es, rs') \<Longrightarrow> k \<noteq> IPNet_String n \<Longrightarrow> owns_in rs' w k = owns_in rs w k"
proof (induction rs arbitrary: b es rs')
  case (Cons r rs)
  obtain x r' where x: "releaseNetwork ow n r = (x, r')" by fastforce
  have m: "sr_allocMap r' k = sr_allocMap r k"
    using x Cons.prems(2) by (auto simp: releaseNetwork_def Let_def split: if_splits option.splits)
  obtain b' es' ss where y: "release_ranges ow n rs = (b', es', ss)" by (cases "release_ranges ow n rs") auto
  from Cons.IH [OF y Cons.prems(2)] show ?case using Cons.prems(1) x y m by (auto split: sum.splits bool.splits)
qed simp

lemma releaseNetworks_owns:
  assumes "k \<noteq> IPNet_String n"
  shows "owns (snd (ReleaseNetworks ow [n] a)) w k = owns a w k"
proof -
  obtain b4 e4 v4 where v4: "release_ranges ow n (sna_v4ranges a) = (b4, e4, v4)" by (cases "release_ranges ow n (sna_v4ranges a)") auto
  obtain b6 e6 v6 where v6: "release_ranges ow n (sna_v6ranges a) = (b6, e6, v6)" by (cases "release_ranges ow n (sna_v6ranges a)") auto
  show ?thesis using release_ranges_eff [OF v4 assms] release_ranges_eff [OF v6 assms] v4 v6
    by (auto simp: ReleaseNetworks_def releaseNetwork_one_def owns_def Let_def)
qed

lemma MarkAllocatedNetworks_one:
  assumes "MarkAllocatedNetworks ow [n] a = (res, b)"
  shows "res = Inr () \<Longrightarrow> owns b ow (IPNet_String n)" and "res \<noteq> Inr () \<Longrightarrow> b = a"
    and "k \<noteq> IPNet_String n \<Longrightarrow> owns b w k = owns a w k"
proof -
  obtain x v4 where v4: "mark_ranges ow n (sna_v4ranges a) = (x, v4)" by fastforce
  obtain y v6 where v6: "mark_ranges ow n (sna_v6ranges a) = (y, v6)" by fastforce
  note e = mark_ranges_eff [OF v4] mark_ranges_eff [OF v6]
  have "res = Inr () \<longrightarrow> owns b ow (IPNet_String n)" "res \<noteq> Inr () \<longrightarrow> b = a"
      "k \<noteq> IPNet_String n \<longrightarrow> owns b w k = owns a w k"
    using assms e v4 v6
    by (auto simp: MarkAllocatedNetworks_def owns_def Let_def split: sum.splits bool.splits)
  then show "res = Inr () \<Longrightarrow> owns b ow (IPNet_String n)" "res \<noteq> Inr () \<Longrightarrow> b = a"
    "k \<noteq> IPNet_String n \<Longrightarrow> owns b w k = owns a w k" by auto
qed

text \<open>The ranges of the two lists are of their family.\<close>

definition sna_families :: "BaseSubnetAllocator \<Rightarrow> bool" where
  "sna_families a \<longleftrightarrow> (\<forall>r \<in> set (sna_v4ranges a). is4 (IP (sr_network r))) \<and> (\<forall>r \<in> set (sna_v6ranges a). \<not> is4 (IP (sr_network r)))"

lemma all_respect_networks: "all_respect ow rs rs' \<Longrightarrow> sr_network ` set rs' = sr_network ` set rs"
  by (induction rule: list_all2_induct) (auto simp: keeps_others_def)

lemma sna_families_alt: "sna_families a \<longleftrightarrow> (\<forall>n \<in> sr_network ` set (sna_v4ranges a). is4 (IP n)) \<and>
    (\<forall>n \<in> sr_network ` set (sna_v6ranges a). \<not> is4 (IP n))"
  by (auto simp: sna_families_def)

lemma sna_respects_families: "sna_respects ow a b \<Longrightarrow> sna_families a \<Longrightarrow> sna_families b"
  unfolding sna_families_alt sna_respects_def by (metis all_respect_networks)

lemma allocateNetwork_eff:
  assumes "snr_wf r" and "allocateNetwork ow r = Some (Some g, r')"
  shows "sr_allocMap r' (IPNet_String g) = Some ow" and "sr_allocMap r k = Some w \<Longrightarrow> sr_allocMap r' k = Some w"
    and "cidr_wf g" and "is4 (IP g) \<longleftrightarrow> is4 (IP (sr_network r))"
proof -
  obtain n where n: "n \<in> counters r" "genSubnet r n = Some g" "sr_allocMap r (IPNet_String g) = None" "r' = range_take ow n g r"
    using allocateNetwork_loop_spec [OF assms(1), of ow 0] assms(2) unfolding allocateNetwork_def by auto
  then show "sr_allocMap r' (IPNet_String g) = Some ow" "sr_allocMap r k = Some w \<Longrightarrow> sr_allocMap r' k = Some w"
    by (auto simp: range_take_def)
  show "cidr_wf g" "is4 (IP g) \<longleftrightarrow> is4 (IP (sr_network r))" using genSubnet_spec [OF assms(1) n(1)] n(2) by auto
qed

lemma allocate_ranges_eff:
  "list_all snr_wf rs \<Longrightarrow> allocate_ranges ow rs = Some (res, rs') \<Longrightarrow>
     (\<forall>w k. owns_in rs w k \<longrightarrow> owns_in rs' w k) \<and>
     (\<forall>g. res = Some g \<longrightarrow> owns_in rs' ow (IPNet_String g) \<and> cidr_wf g \<and> (\<exists>r \<in> set rs. is4 (IP g) \<longleftrightarrow> is4 (IP (sr_network r))))"
proof (induction rs arbitrary: res rs')
  case (Cons r rs)
  obtain x r' where x: "allocateNetwork ow r = Some (x, r')" using allocateNetwork_respects [of r ow] Cons.prems(1) by auto
  show ?case
  proof (cases x)
    case None
    then have "sr_allocMap r' = sr_allocMap r"
      using x allocateNetwork_loop_spec [of r ow 0] Cons.prems(1) unfolding allocateNetwork_def by auto
    then show ?thesis using Cons x None by (auto split: option.splits)
  next
    case (Some g)
    then show ?thesis using Cons.prems x allocateNetwork_eff [of r ow g r'] by auto
  qed
qed simp

lemma AllocateIPv4Network_eff:
  assumes "sna_wf a" and "sna_families a" and "AllocateIPv4Network ow a = Some (res, b)"
  shows "owns a w k \<longrightarrow> owns b w k" and "res = Inr (Some g) \<longrightarrow> owns b ow (IPNet_String g) \<and> IsIPv4CIDR g \<and> cidr_wf g"
  using assms allocate_ranges_eff [of "sna_v4ranges a" ow]
  by (fastforce simp: AllocateIPv4Network_def sna_wf_def owns_def sna_families_def IsIPv4CIDR_def IPFamilyOfCIDR_def
      IPFamilyOf_def split: if_splits option.splits)+

lemma IsIPv6CIDR_wf: "cidr_wf g \<Longrightarrow> \<not> is4 (IP g) \<Longrightarrow> IsIPv6CIDR g"
  by (auto simp: IsIPv6CIDR_def IPFamilyOfCIDR_def IPFamilyOf_def cidr_wf_def To16_def To4_def split: if_splits)

lemma AllocateIPv6Network_eff:
  assumes "sna_wf a" and "sna_families a" and "AllocateIPv6Network ow a = Some (res, b)"
  shows "owns a w k \<longrightarrow> owns b w k" and "res = Inr (Some g) \<longrightarrow> owns b ow (IPNet_String g) \<and> IsIPv6CIDR g \<and> cidr_wf g"
  using assms allocate_ranges_eff [of "sna_v6ranges a" ow]
  by (fastforce simp: AllocateIPv6Network_def sna_wf_def owns_def sna_families_def intro: IsIPv6CIDR_wf
      split: if_splits option.splits)+

lemma families_exclusive: "\<not> (IsIPv4CIDR n \<and> IsIPv6CIDR n)"
  by (simp add: IsIPv4CIDR_def IsIPv6CIDR_def)

text \<open>What the loop over the existing subnets keeps: every kept subnet is owned, of an enabled family,
  and there is at most one per family.\<close>

definition kept_ok :: "string \<Rightarrow> bool \<Rightarrow> bool \<Rightarrow> bool \<Rightarrow> bool \<Rightarrow> ipnet list \<Rightarrow> BaseSubnetAllocator \<Rightarrow> bool" where
  "kept_ok nm m4 m6 f4 f6 kept a \<longleftrightarrow>
     (\<forall>n \<in> set kept. owns a nm (IPNet_String n) \<and> (IsIPv4CIDR n \<or> IsIPv6CIDR n))
   \<and> length (filter IsIPv4CIDR kept) = of_bool f4 \<and> length (filter IsIPv6CIDR kept) = of_bool f6
   \<and> (f4 \<longrightarrow> m4) \<and> (f6 \<longrightarrow> m6)"

lemma kept_ok_length: "kept_ok nm m4 m6 f4 f6 kept a \<Longrightarrow> length kept = of_bool f4 + of_bool f6"
proof -
  assume k: "kept_ok nm m4 m6 f4 f6 kept a"
  have "filter (\<lambda>n. \<not> IsIPv4CIDR n) kept = filter IsIPv6CIDR kept"
    using k families_exclusive by (intro filter_cong) (auto simp: kept_ok_def)
  then show ?thesis using k sum_length_filter_compl [of IsIPv4CIDR kept] by (simp add: kept_ok_def)
qed

lemma kept_ok_mono: "kept_ok nm m4 m6 f4 f6 kept a \<Longrightarrow> (\<And>n. n \<in> set kept \<Longrightarrow> owns a nm (IPNet_String n) \<Longrightarrow> owns b nm (IPNet_String n))
    \<Longrightarrow> kept_ok nm m4 m6 f4 f6 kept b"
  by (auto simp: kept_ok_def)

lemma release_one_respects: "sna_wf a \<Longrightarrow> sna_respects ow a (snd (ReleaseNetworks ow ns a))"
  unfolding ReleaseNetworks_def by (rule releaseNetworks_respects)

lemma mark_one_respects: "sna_wf a \<Longrightarrow> sna_respects ow a (snd (MarkAllocatedNetworks ow ns a))"
  unfolding MarkAllocatedNetworks_def by (rule MarkAllocatedNetworks_loop_respects)

lemma validate_existing_spec:
  assumes "sna_wf a" and "kept_ok nm m4 m6 f4 f6 kept a" and "distinct (map IPNet_String (kept @ ss))"
    and "validate_existing nm m4 m6 ss f4 f6 kept a = (g4, g6, kept', b)"
  shows "sna_respects nm a b \<and> kept_ok nm m4 m6 g4 g6 kept' b \<and> set kept' \<subseteq> set (kept @ ss)
    \<and> length kept' \<le> length (kept @ ss) \<and> (length kept' = length (kept @ ss) \<longrightarrow> kept' = kept @ ss)"
  using assms
proof (induction ss arbitrary: f4 f6 kept a)
  case Nil
  then show ?case by (simp add: sna_respects_refl)
next
  case (Cons s ss)
  let ?w = "(m4 \<and> IsIPv4CIDR s \<and> \<not> f4) \<or> (m6 \<and> IsIPv6CIDR s \<and> \<not> f6)"
  obtain res a1 where m: "MarkAllocatedNetworks nm [s] a = (res, a1)" by fastforce
  have "IPNet_String s \<notin> IPNet_String ` set kept" using Cons.prems(3) by simp
  then have other: "n \<in> set kept \<Longrightarrow> IPNet_String n \<noteq> IPNet_String s" for n by (metis imageI)
  show ?case
  proof (cases "?w \<and> \<not> isl res")
    case True
    then have r: "res = Inr ()" by (cases res) auto
    have k1: "kept_ok nm m4 m6 (f4 \<or> IsIPv4CIDR s) (f6 \<or> \<not> IsIPv4CIDR s \<and> IsIPv6CIDR s) (kept @ [s]) a1"
      using Cons.prems(2) True families_exclusive [of s] MarkAllocatedNetworks_one [OF m] r other
      by (auto simp: kept_ok_def)
    have ra: "sna_respects nm a a1" using mark_one_respects [OF Cons.prems(1), of nm "[s]"] m by simp
    have "validate_existing nm m4 m6 ss (f4 \<or> IsIPv4CIDR s) (f6 \<or> \<not> IsIPv4CIDR s \<and> IsIPv6CIDR s) (kept @ [s]) a1 = (g4, g6, kept', b)"
      using Cons.prems(4) True m by (simp add: Let_def)
    from Cons.IH [OF sna_respects_wf [OF ra] k1 _ this] Cons.prems(3) show ?thesis
      using sna_respects_trans [OF ra] by auto
  next
    case False
    let ?a = "if ?w then a1 else a"
    let ?b = "snd (ReleaseNetworks nm [s] ?a)"
    have "?w \<Longrightarrow> a1 = a" using False MarkAllocatedNetworks_one(2) [OF m] by (cases res) auto
    then have aa: "?a = a" by auto
    have ra: "sna_respects nm a ?b" unfolding aa by (rule release_one_respects [OF Cons.prems(1)])
    have k1: "kept_ok nm m4 m6 f4 f6 kept ?b"
      unfolding aa
      by (rule kept_ok_mono [OF Cons.prems(2)], subst releaseNetworks_owns, erule other, assumption)
    have "validate_existing nm m4 m6 ss f4 f6 kept ?b = (g4, g6, kept', b)"
      using Cons.prems(4) False m by (auto simp: Let_def split: if_splits)
    from Cons.IH [OF sna_respects_wf [OF ra] k1 _ this] Cons.prems(3) show ?thesis
      using sna_respects_trans [OF ra] by auto
  qed
qed

lemma release_each_respects: "sna_wf a \<Longrightarrow> sna_respects nm a (release_each nm ns a)"
proof (induction ns arbitrary: a)
  case (Cons n ns)
  note r = release_one_respects [OF Cons.prems, of nm "[n]"]
  from Cons.IH [OF sna_respects_wf [OF r]] sna_respects_trans [OF r] show ?case by (simp add: release_each_def)
qed (simp add: release_each_def sna_respects_refl)

lemma allocate_one_v4:
  assumes "sna_wf a" and "sna_families a"
  shows "\<exists>res b. allocate_one needed (AllocateIPv4Network nm) al a = Some (res, b) \<and> sna_respects nm a b
    \<and> (\<forall>w k. owns a w k \<longrightarrow> owns b w k)
    \<and> (\<forall>al'. res = Inr al' \<longrightarrow> al' = al \<or> needed \<and> (\<exists>g. al' = al @ [g] \<and> owns b nm (IPNet_String g) \<and> IsIPv4CIDR g \<and> cidr_wf g))"
proof -
  obtain x b where "AllocateIPv4Network nm a = Some (x, b)" "sna_respects nm a b"
    using AllocateIPv4Network_respects [OF assms(1)] by blast
  then show ?thesis using AllocateIPv4Network_eff [OF assms] sna_respects_refl [OF assms(1)]
    by (cases x) (auto simp: allocate_one_def split: option.splits)
qed

lemma allocate_one_v6:
  assumes "sna_wf a" and "sna_families a"
  shows "\<exists>res b. allocate_one needed (AllocateIPv6Network nm) al a = Some (res, b) \<and> sna_respects nm a b
    \<and> (\<forall>w k. owns a w k \<longrightarrow> owns b w k)
    \<and> (\<forall>al'. res = Inr al' \<longrightarrow> al' = al \<or> needed \<and> (\<exists>g. al' = al @ [g] \<and> owns b nm (IPNet_String g) \<and> IsIPv6CIDR g \<and> cidr_wf g))"
proof -
  obtain x b where "AllocateIPv6Network nm a = Some (x, b)" "sna_respects nm a b"
    using AllocateIPv6Network_respects [OF assms(1)] by blast
  then show ?thesis using AllocateIPv6Network_eff [OF assms] sna_respects_refl [OF assms(1)]
    by (cases x) (auto simp: allocate_one_def split: option.splits)
qed

lemma owns_other: "sna_respects ow a b \<Longrightarrow> w \<noteq> ow \<Longrightarrow> owns b w k = owns a w k"
proof -
  have "all_respect ow rs rs' \<Longrightarrow> w \<noteq> ow \<Longrightarrow> owns_in rs' w k = owns_in rs w k" for rs rs'
    by (induction rule: list_all2_induct) (auto simp: keeps_others_def)
  then show "sna_respects ow a b \<Longrightarrow> w \<noteq> ow \<Longrightarrow> owns b w k = owns a w k" by (auto simp: sna_respects_def owns_def)
qed

text \<open>The subnets a node ends up with: one owned subnet of each enabled family.\<close>

definition node_subnets_ok :: "string \<Rightarrow> bool \<Rightarrow> bool \<Rightarrow> ipnet list \<Rightarrow> BaseSubnetAllocator \<Rightarrow> bool" where
  "node_subnets_ok nm m4 m6 hs b \<longleftrightarrow> length hs = (if m4 \<and> m6 then 2 else 1)
     \<and> length (filter IsIPv4CIDR hs) = of_bool m4 \<and> length (filter IsIPv6CIDR hs) = of_bool m6
     \<and> (\<forall>n \<in> set hs. owns b nm (IPNet_String n))"

lemma allocateNodeSubnets_spec:
  assumes wf: "sna_wf a" and fam: "sna_families a" and d: "distinct (map IPNet_String existing)"
  shows "\<exists>res b. allocateNodeSubnets a nm existing m4 m6 = Some (res, b) \<and> sna_respects nm a b
    \<and> (\<forall>hs al. res = Inr (hs, al) \<longrightarrow> node_subnets_ok nm m4 m6 hs b \<and> (\<exists>kept. hs = kept @ al \<and> set kept \<subseteq> set existing)
         \<and> list_all cidr_wf al \<and> (al = [] \<and> length existing = length hs \<longrightarrow> hs = existing))"
proof -
  obtain g4 g6 kept a1 where v: "validate_existing nm m4 m6 existing False False [] a = (g4, g6, kept, a1)"
    by (cases "validate_existing nm m4 m6 existing False False [] a") auto
  have v': "sna_respects nm a a1" "kept_ok nm m4 m6 g4 g6 kept a1" "set kept \<subseteq> set existing"
      "length kept = length existing \<longrightarrow> kept = existing"
    using validate_existing_spec [OF wf _ _ v] d by (auto simp: kept_ok_def)
  note len = kept_ok_length [OF v'(2)]
  let ?e = "if m4 \<and> m6 then 2 else 1 :: int"
  show ?thesis
  proof (cases "int (length kept) = ?e")
    case True
    then have "allocateNodeSubnets a nm existing m4 m6 = Some (Inr (kept, []), a1)" using v by (simp add: allocateNodeSubnets_def Let_def)
    moreover have "node_subnets_ok nm m4 m6 kept a1"
      using True len v'(2) by (cases g4; cases g6) (auto simp: node_subnets_ok_def kept_ok_def split: if_splits)
    ultimately show ?thesis using v' by auto
  next
    case F: False
    obtain r4 a2 where a2: "allocate_one (m4 \<and> \<not> g4) (AllocateIPv4Network nm) [] a1 = Some (r4, a2)" "sna_respects nm a1 a2"
        "\<And>w k. owns a1 w k \<Longrightarrow> owns a2 w k"
        "\<And>al. r4 = Inr al \<Longrightarrow> al = [] \<or> (m4 \<and> \<not> g4) \<and> (\<exists>g. al = [g] \<and> owns a2 nm (IPNet_String g) \<and> IsIPv4CIDR g \<and> cidr_wf g)"
      using allocate_one_v4 [OF sna_respects_wf [OF v'(1)] sna_respects_families [OF v'(1) fam]] by force
    note r2 = sna_respects_trans [OF v'(1) a2(2)]
    show ?thesis
    proof (cases r4)
      case (Inl e)
      then have "allocateNodeSubnets a nm existing m4 m6 = Some (Inl (NodeAllocFailed e), a2)"
        using v F a2(1) by (simp add: allocateNodeSubnets_def Let_def)
      then show ?thesis using r2 by simp
    next
      case (Inr al4)
      obtain r6 a3 where a3: "allocate_one (m6 \<and> \<not> g6) (AllocateIPv6Network nm) al4 a2 = Some (r6, a3)" "sna_respects nm a2 a3"
          "\<And>w k. owns a2 w k \<Longrightarrow> owns a3 w k"
          "\<And>al. r6 = Inr al \<Longrightarrow> al = al4 \<or> (m6 \<and> \<not> g6) \<and> (\<exists>g. al = al4 @ [g] \<and> owns a3 nm (IPNet_String g) \<and> IsIPv6CIDR g \<and> cidr_wf g)"
        using allocate_one_v6 [OF sna_respects_wf [OF r2] sna_respects_families [OF r2 fam]] by force
      note r3 = sna_respects_trans [OF r2 a3(2)]
      have rel: "sna_respects nm a (release_each nm ns a3)" for ns
        by (rule sna_respects_trans [OF r3 release_each_respects [OF sna_respects_wf [OF r3]]])
      have eq: "allocateNodeSubnets a nm existing m4 m6 = (case r6 of
            Inl e \<Rightarrow> Some (Inl (NodeAllocFailed e), release_each nm al4 a3)
          | Inr al \<Rightarrow> if ?e - int (length kept) > 0 \<and> int (length al) \<noteq> ?e - int (length kept)
              then Some (Inl (NotEnoughSubnets ?e (length al)), release_each nm al a3)
              else Some (Inr (kept @ al, al), a3))"
        using v F a2(1) Inr a3(1) by (simp add: allocateNodeSubnets_def Let_def split: sum.splits)
      have okay: "node_subnets_ok nm m4 m6 (kept @ al) a3"
        if "r6 = Inr al" "\<not> (?e - int (length kept) > 0 \<and> int (length al) \<noteq> ?e - int (length kept))" for al
      proof -
        have c: "\<forall>n \<in> set kept. owns a3 nm (IPNet_String n)" "length (filter IsIPv4CIDR kept) = of_bool g4"
            "length (filter IsIPv6CIDR kept) = of_bool g6" "g4 \<longrightarrow> m4" "g6 \<longrightarrow> m6"
          using v'(2) a2(3) a3(3) by (auto simp: kept_ok_def)
        show ?thesis using c len F that a2(4) [OF Inr] a3(3) a3(4) [OF that(1)] families_exclusive
          by (cases m4; cases m6; cases g4; cases g6) (auto simp: node_subnets_ok_def)
      qed
      have "list_all cidr_wf al" if "r6 = Inr al" for al
        using a2(4) [OF Inr] a3(4) [OF that] by auto
      then show ?thesis
        unfolding eq using rel r3 v'(3,4) okay by (cases r6) auto
    qed
  qed
qed

section \<open>Node events\<close>

lemma subnet_docs_cong:
  assumes "d ovnNodeSubnets = d' ovnNodeSubnets"
  shows "subnet_docs_ok d \<longleftrightarrow> subnet_docs_ok d'" and "host_subnets d = host_subnets d'"
  using assms by (auto simp: subnet_docs_ok_def host_subnets_def parseSubnetAnnotation_def)

lemma id_docs_cong:
  assumes "d ovnNetworkIDs = d' ovnNetworkIDs"
  shows "id_docs_ok d \<longleftrightarrow> id_docs_ok d'" and "network_id_texts d = network_id_texts d'"
  using assms by (auto simp: id_docs_ok_def network_id_texts_def parseNetworkIDsAnnotation_def)

lemma annotation_keys: "ovnNodeSubnets \<noteq> ovnNetworkIDs"
  by (simp add: ovnNodeSubnets_def ovnNetworkIDs_def)

text \<open>Writing the network id keeps the subnets.\<close>

lemma write_id:
  assumes "subnet_docs_ok (node_docs node)" and "id_docs_ok (node_docs node)" and "- (2 ^ 63) \<le> i" and "i < 2 ^ 63"
  shows "\<exists>d. UpdateNetworkIDAnnotation (node_docs node) nm i = Inr d
    \<and> ParseNodeHostSubnetAnnotation (node\<lparr>node_docs := d\<rparr>) nm' = ParseNodeHostSubnetAnnotation node nm'
    \<and> fst (ParseNetworkIDAnnotation (node\<lparr>node_docs := d\<rparr>) nm) = i"
proof -
  obtain d where d: "UpdateNetworkIDAnnotation (node_docs node) nm i = Inr d" "id_docs_ok d"
      "network_id_texts d = (network_id_texts (node_docs node))(nm := if i = InvalidNetworkID then None else Some (itoa i))"
    using id_upd_ok [OF assms(2)] by blast
  have "d ovnNodeSubnets = node_docs node ovnNodeSubnets" using UpdateNetworkID_frame [OF d(1) annotation_keys] .
  then show ?thesis
    using d assms ParseNodeHostSubnet_entry [of node] ParseNodeHostSubnet_entry [of "node\<lparr>node_docs := d\<rparr>"]
      subnet_docs_cong [of d "node_docs node"] ParseNetworkID_entry [of "node\<lparr>node_docs := d\<rparr>"] Atoi_itoa [OF assms(3,4)]
    by (intro exI [of _ d]) (auto simp: InvalidNetworkID_def)
qed

lemma annotate_node_spec:
  assumes "subnet_docs_ok (node_docs node)" and "id_docs_ok (node_docs node)" and "- (2 ^ 63) \<le> i" and "i < 2 ^ 63"
    and "list_all cidr_wf hs" and "hs \<noteq> []"
  shows "\<exists>c. annotate_node nm [(nm, hs)] i node = Inr c \<and> ParseNodeHostSubnetAnnotation c nm = Inr hs
      \<and> fst (ParseNetworkIDAnnotation c nm) = i"
    and "\<exists>c. annotate_node nm [] i node = Inr c
      \<and> ParseNodeHostSubnetAnnotation c nm = ParseNodeHostSubnetAnnotation node nm
      \<and> fst (ParseNetworkIDAnnotation c nm) = i"
proof -
  obtain d where d: "UpdateNodeHostSubnetAnnotation (node_docs node) hs nm = Inr d" "subnet_docs_ok d"
      "host_subnets d = (host_subnets (node_docs node))(nm \<mapsto> hs)"
    using sub.upd_ok [OF assms(1), of "Some hs" nm] assms(5,6) by auto
  let ?n = "node\<lparr>node_docs := d\<rparr>"
  have "d ovnNetworkIDs = node_docs node ovnNetworkIDs" using UpdateNodeHostSubnet_frame [OF d(1)] annotation_keys by metis
  then have ids: "id_docs_ok d" using id_docs_cong(1) assms(2) by blast
  have "ParseNodeHostSubnetAnnotation ?n nm = Inr hs" using ParseNodeHostSubnet_entry [of ?n] d(2,3) by simp
  then show "\<exists>c. annotate_node nm [(nm, hs)] i node = Inr c \<and> ParseNodeHostSubnetAnnotation c nm = Inr hs
      \<and> fst (ParseNetworkIDAnnotation c nm) = i"
    using write_id [of ?n i nm nm] d(1,2) ids assms(3,4) by (auto simp: annotate_node_def)
  show "\<exists>c. annotate_node nm [] i node = Inr c
      \<and> ParseNodeHostSubnetAnnotation c nm = ParseNodeHostSubnetAnnotation node nm
      \<and> fst (ParseNetworkIDAnnotation c nm) = i"
    using write_id [OF assms(1,2,3,4), of nm nm] by (auto simp: annotate_node_def)
qed

lemma update_attempts_same:
  assumes "\<forall>x \<in> set as. fst x = Some node" and "f node = Inr c" and "update_attempts k f as = Inr c'"
  shows "c' = c"
  using assms(1,3)
proof (induction k arbitrary: as)
  case (Suc k)
  then obtain o' as' where "as = (Some node, o') # as'" by (cases as) auto
  then show ?case using Suc assms(2) by (cases o') auto
qed simp

text \<open>C1: An add or update event of a node that gets host subnets, with the cache returning the node
  itself, always ends. If it reports success, the annotation of the node (the one just written, or
  the existing one when nothing had to be written) lists exactly one subnet per enabled address
  family, each owned by the node in the allocator, together with the id of the network. In every
  case the subnets of all other nodes are untouched.\<close>

theorem node_event_annotates_owned_subnets:
  assumes "sna_wf (na_cluster na)" and "sna_families (na_cluster na)" and "hasNodeSubnetAllocation na"
    and "\<not> NoHostSubnet cfg node" and "subnet_docs_ok (node_docs node)" and "id_docs_ok (node_docs node)"
    and "distinct (map IPNet_String (case ParseNodeHostSubnetAnnotation node (ni_name (na_netInfo na)) of Inr ns \<Rightarrow> ns | Inl _ \<Rightarrow> []))"
    and "\<forall>x \<in> set attempts. fst x = Some node"
    and "- (2 ^ 63) \<le> na_networkID na" and "na_networkID na < 2 ^ 63"
  shows "\<exists>res na'. HandleAddUpdateNodeEvent cfg node attempts ok na = Some (res, na')
    \<and> sna_wf (na_cluster na')
    \<and> (\<forall>w k. w \<noteq> node_Name node \<longrightarrow> owns (na_cluster na') w k = owns (na_cluster na) w k)
    \<and> (\<forall>written. res = Inr written \<longrightarrow>
         (let n' = (case written of None \<Rightarrow> node | Some c \<Rightarrow> c)
          in fst (ParseNetworkIDAnnotation n' (ni_name (na_netInfo na))) = na_networkID na
             \<and> (\<exists>hs. ParseNodeHostSubnetAnnotation n' (ni_name (na_netInfo na)) = Inr hs
                   \<and> node_subnets_ok (node_Name node) (fst (ni_ipMode (na_netInfo na))) (snd (ni_ipMode (na_netInfo na)))
                       hs (na_cluster na'))))"
proof -
  let ?nm = "ni_name (na_netInfo na)" and ?w = "node_Name node" and ?m4 = "fst (ni_ipMode (na_netInfo na))"
    and ?m6 = "snd (ni_ipMode (na_netInfo na))" and ?id = "na_networkID na"
  define ex where "ex = (case ParseNodeHostSubnetAnnotation node ?nm of Inr ns \<Rightarrow> ns | Inl _ \<Rightarrow> [])"
  have wf: "list_all cidr_wf ex"
    using ParseNodeHostSubnet_entry [OF assms(5)] subnet_docs_parse [OF assms(5)]
    by (auto simp: ex_def ranI split: option.splits)
  obtain res b where b: "allocateNodeSubnets (na_cluster na) ?w ex ?m4 ?m6 = Some (res, b)" "sna_respects ?w (na_cluster na) b"
      "\<forall>hs al. res = Inr (hs, al) \<longrightarrow> node_subnets_ok ?w ?m4 ?m6 hs b \<and> (\<exists>kept. hs = kept @ al \<and> set kept \<subseteq> set ex)
         \<and> list_all cidr_wf al \<and> (al = [] \<and> length ex = length hs \<longrightarrow> hs = ex)"
    using allocateNodeSubnets_spec [OF assms(1,2,7)] unfolding ex_def by blast
  have ev: "HandleAddUpdateNodeEvent cfg node attempts ok na = syncNodeNetworkAnnotations node attempts na"
    using assms(4) by (simp add: HandleAddUpdateNodeEvent_def)
  note others = owns_other [OF b(2)]
  show ?thesis
  proof (cases res)
    case (Inl e)
    then have "syncNodeNetworkAnnotations node attempts na = Some (Inl e, na\<lparr>na_cluster := b\<rparr>)"
      using b(1) assms(3) by (simp add: syncNodeNetworkAnnotations_def Let_def ex_def)
    then show ?thesis using ev sna_respects_wf [OF b(2)] others by simp
  next
    case (Inr p)
    obtain hs al where p: "p = (hs, al)" by fastforce
    have hs: "node_subnets_ok ?w ?m4 ?m6 hs b" "list_all cidr_wf hs" "al = [] \<and> length ex = length hs \<longrightarrow> hs = ex" "hs \<noteq> []"
    proof -
      have h: "node_subnets_ok ?w ?m4 ?m6 hs b" "\<exists>kept. hs = kept @ al \<and> set kept \<subseteq> set ex" "list_all cidr_wf al"
          "al = [] \<and> length ex = length hs \<longrightarrow> hs = ex" using b(3) Inr p by auto
      then show "node_subnets_ok ?w ?m4 ?m6 hs b" "list_all cidr_wf hs" "al = [] \<and> length ex = length hs \<longrightarrow> hs = ex" "hs \<noteq> []"
        using wf by (auto simp: list_all_iff node_subnets_ok_def split: if_splits)
    qed
    let ?m = "if length ex \<noteq> length hs \<or> length al > 0 then [(?nm, hs)] else []"
    let ?na = "na\<lparr>na_cluster := b\<rparr>"
    have eq: "syncNodeNetworkAnnotations node attempts na =
        (if ?m \<noteq> [] \<or> ?id \<noteq> fst (ParseNetworkIDAnnotation node ?nm) then
           (case updateNodeNetworkAnnotationsWithRetry ?na ?m ?id attempts of
              Inl e \<Rightarrow> Some (Inl e, ?na\<lparr>na_cluster := snd (ReleaseNetworks ?w al b)\<rparr>)
            | Inr cnode \<Rightarrow> Some (Inr (Some cnode), ?na))
         else Some (Inr None, ?na))"
      using b(1) Inr p assms(3) by (simp add: syncNodeNetworkAnnotations_def Let_def ex_def)
    have old: "?m = [] \<Longrightarrow> ParseNodeHostSubnetAnnotation node ?nm = Inr hs"
      using hs(3,4) by (cases "ParseNodeHostSubnetAnnotation node ?nm") (auto simp: ex_def split: if_splits)
    obtain c where c: "annotate_node ?nm ?m ?id node = Inr c" "ParseNodeHostSubnetAnnotation c ?nm = Inr hs"
        "fst (ParseNetworkIDAnnotation c ?nm) = ?id"
      using annotate_node_spec [OF assms(5,6,9,10) hs(2,4), of ?nm] old by (cases "?m = []") (auto split: if_splits)
    have rel: "sna_respects ?w (na_cluster na) (snd (ReleaseNetworks ?w al b))"
      by (rule sna_respects_trans [OF b(2) release_one_respects [OF sna_respects_wf [OF b(2)]]])
    show ?thesis
    proof (cases "?m \<noteq> [] \<or> ?id \<noteq> fst (ParseNetworkIDAnnotation node ?nm)")
      case False
      then show ?thesis unfolding ev eq using old hs(1) sna_respects_wf [OF b(2)] others by auto
    next
      case True
      note eq' = eq [unfolded if_P [OF True]]
      show ?thesis
      proof (cases "updateNodeNetworkAnnotationsWithRetry ?na ?m ?id attempts")
        case (Inl e)
        then show ?thesis unfolding ev eq' using sna_respects_wf [OF rel] owns_other [OF rel] by simp
      next
        case (Inr c')
        then have "c' = c" using update_attempts_same [of attempts node "annotate_node ?nm ?m ?id" c 4 c', OF assms(8) c(1)]
          by (simp add: updateNodeNetworkAnnotationsWithRetry_def)
        then show ?thesis unfolding ev eq' Inr using c(2,3) hs(1) sna_respects_wf [OF b(2)] others by simp
      qed
    qed
  qed
qed

text \<open>A cluster with the network \<open>10.128.0.0/14\<close>, and a new node.\<close>

definition example_na :: NodeAllocator where
  "example_na = \<lparr>na_cluster = \<lparr>sna_v4ranges = [example_host_range], sna_v6ranges = []\<rparr>, na_hybrid = NewSubnetAllocator,
     na_networkID = 0, na_netInfo = \<lparr>ni_name = ''default'', ni_secondary = False, ni_topology = ''layer3'',
       ni_subnets = [(sr_network example_host_range, 23)], ni_ipMode = (True, False)\<rparr>\<rparr>"

definition example_node :: Node where
  "example_node = \<lparr>node_Name = ''node2'', node_docs = Map.empty, node_texts = Map.empty\<rparr>"

definition example_cfg :: "bool \<Rightarrow> na_config" where
  "example_cfg hybrid = \<lparr>cfg_hybridEnabled = hybrid, cfg_hybridSubnets = [], cfg_noHostSubnetNodes = None\<rparr>"

lemma example_cluster_wf: "sna_wf (na_cluster example_na)" "sna_families (na_cluster example_na)"
  using example_host_range_wf by (simp_all add: sna_wf_def sna_families_def example_na_def) (simp add: example_host_range_def To4_def)

lemma written_SomeE:
  assumes "map_option (\<lambda>(r, na'). case r of Inr (Some _) \<Rightarrow> True | _ \<Rightarrow> False) x = Some True"
  obtains c na' where "x = Some (Inr (Some c), na')"
proof -
  obtain r na' where x: "x = Some (r, na')" using assms by auto
  then obtain c where "r = Inr (Some c)" using assms by (cases r) (auto split: option.splits)
  then show ?thesis using that x by blast
qed

theorem node_event_annotates_owned_subnets_witness:
  "\<exists>c na'. HandleAddUpdateNodeEvent (example_cfg False) example_node [(Some example_node, ApiConflict), (Some example_node, ApiOk)]
      True example_na = Some (Inr (Some c), na')
    \<and> (\<exists>hs. ParseNodeHostSubnetAnnotation c ''default'' = Inr hs \<and> node_subnets_ok ''node2'' True False hs (na_cluster na'))"
proof -
  let ?at = "[(Some example_node, ApiConflict), (Some example_node, ApiOk)]"
  have ev: "HandleAddUpdateNodeEvent (example_cfg False) example_node ?at True example_na = syncNodeNetworkAnnotations example_node ?at example_na"
    by (simp add: HandleAddUpdateNodeEvent_def NoHostSubnet_def example_cfg_def)
  have "map_option (\<lambda>(r, na'). case r of Inr (Some _) \<Rightarrow> True | _ \<Rightarrow> False) (syncNodeNetworkAnnotations example_node ?at example_na) = Some True"
    unfolding example_na_def example_host_range_def example_node_def by code_simp
  then obtain c na' where "syncNodeNetworkAnnotations example_node ?at example_na = Some (Inr (Some c), na')"
    by (rule written_SomeE)
  then have e: "HandleAddUpdateNodeEvent (example_cfg False) example_node ?at True example_na = Some (Inr (Some c), na')" using ev by simp
  have h: "hasNodeSubnetAllocation example_na" "\<not> NoHostSubnet (example_cfg False) example_node"
      "subnet_docs_ok (node_docs example_node)" "id_docs_ok (node_docs example_node)"
      "distinct (map IPNet_String (case ParseNodeHostSubnetAnnotation example_node (ni_name (na_netInfo example_na)) of Inr ns \<Rightarrow> ns | Inl _ \<Rightarrow> []))"
      "\<forall>x \<in> set ?at. fst x = Some example_node" "- (2 ^ 63) \<le> na_networkID example_na" "na_networkID example_na < 2 ^ 63"
    by (simp_all add: hasNodeSubnetAllocation_def NoHostSubnet_def example_na_def example_cfg_def example_node_def
        subnet_docs_ok_def id_docs_ok_def ParseNodeHostSubnetAnnotation_def parseSubnetAnnotation_def)
  from node_event_annotates_owned_subnets [OF example_cluster_wf h, of True]
  have "\<exists>hs. ParseNodeHostSubnetAnnotation c ''default'' = Inr hs \<and> node_subnets_ok ''node2'' True False hs (na_cluster na')"
    unfolding e by (simp add: example_na_def example_node_def)
  then show ?thesis using e by blast
qed

section \<open>Deleting a node\<close>

lemma ReleaseAllNetworks_owns: "owns (ReleaseAllNetworks ow a) w k \<longleftrightarrow> w \<noteq> ow \<and> owns a w k"
proof -
  have "owns_in (map (range_releaseAllNetworks ow) rs) w k \<longleftrightarrow> w \<noteq> ow \<and> owns_in rs w k" for rs
    by (induction rs) (auto simp: range_releaseAllNetworks_def)
  then show ?thesis by (auto simp: owns_def ReleaseAllNetworks_def)
qed

text \<open>Deleting a node of the default network frees all its host subnets when hybrid overlay is
  disabled; when it is enabled, the node's hybrid-overlay subnets are freed but its cluster subnets
  are not, although the node may own some. The subnets of other nodes are never touched.\<close>

lemma HandleDeleteNode_releases:
  assumes "hasNodeSubnetAllocation na"
  shows "(\<not> hasHybridOverlayAllocation cfg na \<longrightarrow> (\<forall>w k. owns (na_cluster (HandleDeleteNode cfg node na)) w k
        \<longleftrightarrow> w \<noteq> node_Name node \<and> owns (na_cluster na) w k))
    \<and> (hasHybridOverlayAllocation cfg na \<longrightarrow> na_cluster (HandleDeleteNode cfg node na) = na_cluster na
        \<and> (\<forall>w k. owns (na_hybrid (HandleDeleteNode cfg node na)) w k \<longleftrightarrow> w \<noteq> node_Name node \<and> owns (na_hybrid na) w k))"
  using assms by (simp add: HandleDeleteNode_def releaseHybridOverlayNodeSubnet_def ReleaseAllNetworks_owns)

section \<open>A subnet listed twice\<close>

text \<open>When a node's annotation lists its subnet twice, the second occurrence releases the subnet that
  the first one had just validated: the node keeps the subnet in its annotation, but the allocator
  no longer knows an owner for it and gives it to the next node that asks.\<close>

lemma duplicate_subnet_is_freed:
  "\<exists>b r'. allocateNodeSubnets (na_cluster example_na) ''node1''
      [\<lparr>IP = [10, 128, 0, 0], Mask = [255, 255, 254, 0]\<rparr>, \<lparr>IP = [10, 128, 0, 0], Mask = [255, 255, 254, 0]\<rparr>] True False
    = Some (Inr ([\<lparr>IP = [10, 128, 0, 0], Mask = [255, 255, 254, 0]\<rparr>], []), \<lparr>sna_v4ranges = [b], sna_v6ranges = []\<rparr>)
    \<and> sr_allocMap b ''10.128.0.0/23'' = None
    \<and> allocateNetwork ''node3'' (b\<lparr>sr_next := 0\<rparr>) = Some (Some \<lparr>IP = [10, 128, 0, 0], Mask = [255, 255, 254, 0]\<rparr>, r')"
proof -
  let ?S = "\<lparr>IP = [10, 128, 0, 0], Mask = [255, 255, 254, 0]\<rparr>"
  let ?b = "example_host_range\<lparr>sr_allocMap := (sr_allocMap example_host_range)(''10.128.0.0/23'' := None), sr_used := 0\<rparr>"
  have str: "IPNet_String ?S = ''10.128.0.0/23''" and c: "IPNet_Contains (sr_network example_host_range) (IP ?S)"
      and fam: "IsIPv4CIDR ?S" "\<not> IsIPv6CIDR ?S"
    unfolding example_host_range_def by code_simp+
  have m: "MarkAllocatedNetworks ''node1'' [?S] (na_cluster example_na) = (Inr (), na_cluster example_na)"
    using str c by (simp add: MarkAllocatedNetworks_def example_na_def markAllocatedNetwork_def Let_def del: ipnet.simps)
      (simp add: example_host_range_def)
  have r: "snd (ReleaseNetworks ''node1'' [?S] (na_cluster example_na)) = \<lparr>sna_v4ranges = [?b], sna_v6ranges = []\<rparr>"
    using str c by (simp add: ReleaseNetworks_def releaseNetwork_one_def example_na_def releaseNetwork_def Let_def del: ipnet.simps)
      (simp add: example_host_range_def)
  have "allocateNodeSubnets (na_cluster example_na) ''node1'' [?S, ?S] True False =
      Some (Inr ([?S], []), \<lparr>sna_v4ranges = [?b], sna_v6ranges = []\<rparr>)"
    using m r fam by (simp add: allocateNodeSubnets_def Let_def del: ipnet.simps)
  moreover have "sr_allocMap ?b ''10.128.0.0/23'' = None" by simp
  moreover have "map_option fst (allocateNetwork ''node3'' (?b\<lparr>sr_next := 0\<rparr>)) = Some (Some ?S)"
    unfolding example_host_range_def by code_simp
  then obtain r' where "allocateNetwork ''node3'' (?b\<lparr>sr_next := 0\<rparr>) = Some (Some ?S, r')" by (rule exE [OF map_option_fst])
  ultimately show ?thesis by blast
qed

end
