(* ===== verification/Cloud_Names.thy ===== *)
theory Cloud_Names
  imports Node_Annotations
begin

text \<open>
  The names of \<open>CloudPrivateIPConfig\<close> objects (\<open>pkg/clustermanager/egressip_controller.go\<close>): the
  object of an IPv4 egress address carries the address as its name, the object of an IPv6 address its
  fully expanded form with dots for colons. The theory shows that the name determines the address:
  converting the canonical text of an address to a name and back gives the text again.
\<close>

section \<open>Conversions\<close>

text \<open>Groups of four characters with a dot between them: the loop over the encoded address. The
  encoding of an address has 32 characters, that of \<open>nil\<close> none.\<close>

function dotted :: "string \<Rightarrow> string" where
  "dotted dst =
     (if dst = [] then []
      else if length dst = 4 then take 4 dst
      else take 4 dst @ ''.'' @ dotted (drop 4 dst))"
  by pat_completeness auto
termination
  by (relation "measure length") auto

declare dotted.simps [simp del]

definition ipStringToCloudPrivateIPConfigName :: "string \<Rightarrow> string" where
  "ipStringToCloudPrivateIPConfigName ipString =
     (let x = ParseIP ipString in if is4 x then ipString else dotted (hexString x))"

definition cloudPrivateIPConfigNameToIPString :: "string \<Rightarrow> string" where
  "cloudPrivateIPConfigNameToIPString nm =
     (if ParseIP nm \<noteq> [] then nm
      else IP_String (ParseIP (map (\<lambda>c. if c = CHR ''.'' then CHR '':'' else c) nm)))"

lemma cloud_name_test:
  "ipStringToCloudPrivateIPConfigName ''fc00:f853:ccd:e793::54'' = ''fc00.f853.0ccd.e793.0000.0000.0000.0054''"
  "cloudPrivateIPConfigNameToIPString ''fc00.f853.0ccd.e793.0000.0000.0000.0054'' = ''fc00:f853:ccd:e793::54''"
  "ipStringToCloudPrivateIPConfigName ''10.0.0.7'' = ''10.0.0.7''"
  by code_simp+

section \<open>The expanded form\<close>

definition hex4 :: "int \<Rightarrow> string" where
  "hex4 g = map digit_char [g div 16 div 16 div 16, g div 16 div 16 mod 16, g div 16 mod 16, g mod 16]"

lemma hex4_digits:
  fixes g :: int
  assumes "0 \<le> g" and "g \<le> 0xFFFF"
  shows "\<forall>d\<in>set [g div 16 div 16 div 16, g div 16 div 16 mod 16, g div 16 mod 16, g mod 16]. 0 \<le> d \<and> d < 16"
    and "foldl (\<lambda>m d. m * 16 + d) 0 [g div 16 div 16 div 16, g div 16 div 16 mod 16, g div 16 mod 16, g mod 16] = g"
proof -
  have "g div 16 div 16 div 16 < 16" using assms(2) by simp
  then show "\<forall>d\<in>set [g div 16 div 16 div 16, g div 16 div 16 mod 16, g div 16 mod 16, g mod 16]. 0 \<le> d \<and> d < 16"
    using assms(1) by (auto simp: pos_imp_zdiv_nonneg_iff)
  show "foldl (\<lambda>m d. m * 16 + d) 0 [g div 16 div 16 div 16, g div 16 div 16 mod 16, g div 16 mod 16, g mod 16] = g"
    by (simp only: foldl.simps mult_zero_left add_0 div_mult_mod_eq)
qed

lemma hex4_chars:
  assumes "0 \<le> g" and "g \<le> 0xFFFF"
  shows "length (hex4 g) = 4" "CHR ''.'' \<notin> set (hex4 g)" "CHR '':'' \<notin> set (hex4 g)"
proof -
  show "length (hex4 g) = 4" by (simp add: hex4_def)
  have "c \<noteq> CHR ''.'' \<and> c \<noteq> CHR '':''" if c: "c \<in> set (hex4 g)" for c
  proof -
    obtain d where d: "c = digit_char d" "d \<in> set [g div 16 div 16 div 16, g div 16 div 16 mod 16, g div 16 mod 16, g mod 16]"
      using c unfolding hex4_def set_map by (elim imageE)
    have r: "0 \<le> d \<and> d < 16" using hex4_digits(1) [OF assms] d(2) by (rule bspec)
    show ?thesis unfolding d(1) using digit_char_facts(4,5) [of d] r by simp
  qed
  then show "CHR ''.'' \<notin> set (hex4 g)" "CHR '':'' \<notin> set (hex4 g)" by auto
qed

lemma xtoi_hex4:
  assumes "0 \<le> g" and "g \<le> 0xFFFF" and "rest = [] \<or> hex_value (hd rest) = None"
  shows "xtoi (hex4 g @ rest) = Some (g, rest)"
proof -
  let ?ds = "[g div 16 div 16 div 16, g div 16 div 16 mod 16, g div 16 mod 16, g mod 16]"
  note s = hex4_digits [OF assms(1,2)]
  have d: "\<forall>d\<in>set ?ds. 0 \<le> d \<and> hex_value (digit_char d) = Some d"
    using s(1) digit_char_facts(1) by fast
  have "digits_loop hex_value 16 0 (map digit_char ?ds @ rest) = Some (g, rest)"
    using digits_loop_digits [OF d, of 0 16 rest] s(2) assms by (simp only: parse_big_def)
  moreover have "hex_value (hd (hex4 g @ rest)) = Some (g div 16 div 16 div 16)" using d by (simp add: hex4_def)
  ultimately show ?thesis unfolding xtoi_def by (simp add: hex4_def)
qed

lemma parse6_expanded:
  assumes "groups_ok gs" and "gs \<noteq> []" and "length gs \<le> k"
  shows "parse6_loop strict k (join '':'' (map hex4 gs)) p el = Some (p @ hextet_bytes gs, el, [])"
  using assms
proof (induction gs arbitrary: k p)
  case (Cons g gs)
  then obtain j where k: "k = Suc j" by (cases k) auto
  have g: "0 \<le> g" "g \<le> 0xFFFF" using Cons.prems by auto
  show ?case
  proof (cases gs)
    case Nil
    then show ?thesis using xtoi_hex4 [of g "[]"] g k by (simp add: Let_def)
  next
    case (Cons g' gs')
    let ?t = "join '':'' (map hex4 gs)"
    have g': "0 \<le> g'" "g' \<le> 0xFFFF" using Cons.prems \<open>gs = g' # gs'\<close> by auto
    have t: "?t \<noteq> []" "hd ?t \<noteq> CHR '':''"
      using hex4_chars [OF g'] \<open>gs = g' # gs'\<close> by (cases gs'; cases "hex4 g'"; auto)+
    have e: "join '':'' (map hex4 (g # gs)) = hex4 g @ CHR '':'' # ?t" using Cons by simp
    have "xtoi (hex4 g @ CHR '':'' # ?t) = Some (g, CHR '':'' # ?t)"
      by (rule xtoi_hex4) (use g dec_value_sep in auto)
    then show ?thesis unfolding k e
      using Cons.IH [of j "p @ [word_of_int (g div 256), word_of_int g]"] Cons.prems k g t \<open>gs = g' # gs'\<close>
      by (simp add: Let_def)
  qed
qed simp

lemma ParseIP_expanded:
  assumes "groups_ok gs" and "length gs = 8"
  shows "ParseIP (join '':'' (map hex4 gs)) = hextet_bytes gs"
proof -
  obtain g h gs' where gs: "gs = g # h # gs'" using assms(2) by (cases gs; cases "tl gs") auto
  have g: "0 \<le> g" "g \<le> 0xFFFF" using assms(1) gs by auto
  have s: "join '':'' (map hex4 gs) = hex4 g @ CHR '':'' # join '':'' (map hex4 (h # gs'))" using gs by simp
  have "find (\<lambda>c. c = CHR ''.'' \<or> c = CHR '':'') (join '':'' (map hex4 gs)) = Some (CHR '':'')"
    unfolding s using hex4_chars [OF g] by (intro find_first) auto
  moreover have "take 2 (join '':'' (map hex4 gs)) \<noteq> ''::''"
    unfolding s using hex4_chars [OF g] by (cases "hex4 g") auto
  moreover have "gs \<noteq> []" using gs by simp
  ultimately show ?thesis
    using parse6_expanded [OF assms(1), of 8 True "[]" None] assms(2)
    by (simp add: ParseIP_def parseIP_def parseIPv6_def expand_ellipsis_def)
qed

section \<open>An expanded name is not an IPv4 address\<close>

lemma digits_loop_suffix:
  "digits_loop val b n s = Some (m, r) \<Longrightarrow> \<exists>u. s = u @ r \<and> (\<forall>c\<in>set u. val c \<noteq> None)"
proof (induction s arbitrary: n)
  case (Cons c s)
  show ?case
  proof (cases "val c")
    case None
    then show ?thesis using Cons.prems by (intro exI [of _ "[]"]) simp
  next
    case (Some d)
    then have "digits_loop val b (n * b + d) s = Some (m, r)" using Cons.prems by (auto split: if_splits)
    from Cons.IH [OF this] obtain u where "s = u @ r" "\<forall>c\<in>set u. val c \<noteq> None" by blast
    then show ?thesis using Some by (intro exI [of _ "c # u"]) auto
  qed
qed simp

lemma dtoi_suffix: "dtoi s = Some (m, r) \<Longrightarrow> count_list s (CHR ''.'') = count_list r (CHR ''.'')"
proof -
  assume "dtoi s = Some (m, r)"
  then have "digits_loop dec_value 10 0 s = Some (m, r)" by (auto simp: dtoi_def split: if_splits)
  then obtain u where u: "s = u @ r" "\<forall>c\<in>set u. dec_value c \<noteq> None" using digits_loop_suffix by blast
  then have "CHR ''.'' \<notin> set u" using dec_value_sep(1) by auto
  then show ?thesis using u(1) by (simp add: count_list_append count_list_0_iff)
qed

lemma parse4_loop_dots:
  "parse4_loop strict k first s p = Some q \<Longrightarrow> count_list s (CHR ''.'') \<le> (if first then k - 1 else k)"
proof (induction strict k first s p rule: parse4_loop.induct)
  case (2 strict k first s p)
  let ?s1 = "if first then s else tl s"
  obtain n s2 where d: "dtoi ?s1 = Some (n, s2)"
      and r: "parse4_loop strict k False s2 (p @ [word_of_int n]) = Some q"
      and g: "s \<noteq> []" "first \<or> hd s = CHR ''.''"
    using "2.prems" by (auto simp: Let_def split: if_splits option.splits prod.splits)
  have "count_list s2 (CHR ''.'') \<le> k"
    using "2.IH" [OF _ _ refl d refl] "2.prems" g d r by (auto simp: Let_def split: if_splits)
  then have "count_list ?s1 (CHR ''.'') \<le> k" using dtoi_suffix [OF d] by simp
  then show ?case using g by (cases s) (auto split: if_splits)
qed (auto split: if_splits)

lemma count_join_dots:
  "groups_ok gs \<Longrightarrow> count_list (join ''.'' (map hex4 gs)) (CHR ''.'') = length gs - 1"
proof (induction gs)
  case (Cons g gs)
  then have "count_list (hex4 g) (CHR ''.'') = 0" using hex4_chars(2) [of g] by (simp add: count_list_0_iff)
  then show ?case using Cons by (cases gs) (auto simp: count_list_append)
qed simp

lemma ParseIP_dotted_groups:
  assumes "groups_ok gs" and "length gs = 8"
  shows "ParseIP (join ''.'' (map hex4 gs)) = []"
proof -
  obtain g h gs' where gs: "gs = g # h # gs'" using assms(2) by (cases gs; cases "tl gs") auto
  have g: "0 \<le> g" "g \<le> 0xFFFF" using assms(1) gs by auto
  have s: "join ''.'' (map hex4 gs) = hex4 g @ CHR ''.'' # join ''.'' (map hex4 (h # gs'))" using gs by simp
  have "find (\<lambda>c. c = CHR ''.'' \<or> c = CHR '':'') (join ''.'' (map hex4 gs)) = Some (CHR ''.'')"
    unfolding s using hex4_chars [OF g] by (intro find_first) auto
  moreover have "parse4_loop True 4 True (join ''.'' (map hex4 gs)) [] = None"
    using parse4_loop_dots [of True 4 True "join ''.'' (map hex4 gs)" "[]"] count_join_dots [OF assms(1)] assms(2)
    by (cases "parse4_loop True 4 True (join ''.'' (map hex4 gs)) []") auto
  ultimately show ?thesis by (simp add: ParseIP_def parseIP_def parseIPv4_def)
qed

section \<open>The round trip\<close>

lemma hextet_digits:
  fixes a b :: int
  assumes "0 \<le> b" and "b < 256"
  shows "(256 * a + b) div 16 div 16 div 16 = a div 16" "(256 * a + b) div 16 div 16 mod 16 = a mod 16"
    "(256 * a + b) div 16 mod 16 = b div 16" "(256 * a + b) mod 16 = b mod 16"
proof -
  have e: "256 * a + b = b + (16 * a) * 16" by simp
  have 1: "(256 * a + b) div 16 = b div 16 + a * 16" unfolding e by (subst div_mult_self1) auto
  have r: "0 \<le> b div 16" "b div 16 < 16" using assms by auto
  then have 2: "(256 * a + b) div 16 div 16 = a" unfolding 1 by (subst div_mult_self1) (auto simp: div_pos_pos_trivial)
  show "(256 * a + b) div 16 div 16 div 16 = a div 16" "(256 * a + b) div 16 div 16 mod 16 = a mod 16"
    by (simp_all only: 2)
  show "(256 * a + b) div 16 mod 16 = b div 16" unfolding 1 using r by (simp add: mod_pos_pos_trivial)
  show "(256 * a + b) mod 16 = b mod 16" unfolding e by (rule mod_mult_self1)
qed

lemma hexString_hextet: "hexString [a, b] = hex4 (256 * uint a + uint b)"
proof -
  have "0 \<le> uint b" "uint b < 256" using uint_byte_lt [of b] by auto
  then show ?thesis 
    by (simp only: hexString_def hex4_def hextet_digits list.map concat.simps append.simps append_Nil2)
qed

lemma length_hexString: "length (hexString bs) = 2 * length bs"
  by (induction bs) (auto simp: hexString_def)

lemma hexString_append: "hexString (as @ bs) = hexString as @ hexString bs"
  by (simp add: hexString_def)

lemma dotted_hexString:
  "even (length x) \<Longrightarrow> dotted (hexString x) = join ''.'' (map hex4 (hextets x))"
proof (induction x rule: hextets.induct)
  case (1 a b bs)
  have s: "hexString (a # b # bs) = hexString [a, b] @ hexString bs"
    using hexString_append [of "[a, b]" bs] by simp
  have l: "length (hexString [a, b]) = 4" by (simp add: length_hexString)
  show ?case
  proof (cases bs)
    case Nil
    have "dotted (hexString [a, b]) = hexString [a, b]" using l by (subst dotted.simps) auto
    then show ?thesis using Nil by (simp add: hexString_hextet)
  next
    case (Cons c cs)
    then obtain d ds where bs: "bs = c # d # ds" using "1.prems" by (cases cs) auto
    have "dotted (hexString (a # b # bs)) = hexString [a, b] @ ''.'' @ dotted (hexString bs)"
      unfolding s using l bs length_hexString [of bs] by (subst dotted.simps) auto
    then show ?thesis using "1.IH" "1.prems" bs by (simp add: hexString_hextet)
  qed
qed (auto simp: hexString_def dotted.simps)

lemma dots_to_colons:
  "groups_ok gs \<Longrightarrow> map (\<lambda>c. if c = CHR ''.'' then CHR '':'' else c) (join ''.'' (map hex4 gs)) = join '':'' (map hex4 gs)"
proof (induction gs)
  case (Cons g gs)
  then have "map (\<lambda>c. if c = CHR ''.'' then CHR '':'' else c) (hex4 g) = hex4 g"
    using hex4_chars(2) [of g] by (intro map_idI) auto
  then show ?case using Cons by (cases gs) auto
qed simp

lemma cloud_name_back:
  assumes "ip_wf x"
  shows "cloudPrivateIPConfigNameToIPString (ipStringToCloudPrivateIPConfigName (IP_String x)) = IP_String x"
proof -
  have p: "ParseIP (IP_String x) = To16 x" using parseIP_String [OF assms] by (simp add: ParseIP_def)
  show ?thesis
  proof (cases "is4 x")
    case True
    then have "is4 (To16 x)" "To16 x \<noteq> []" using assms by (auto simp: To4_def To16_def ip_wf_def split: if_splits)
    then show ?thesis using p
      by (simp add: ipStringToCloudPrivateIPConfigName_def cloudPrivateIPConfigNameToIPString_def)
  next
    case False
    then have x: "length x = 16" "To16 x = x" using assms by (auto simp: ip_wf_def To4_def To16_def)
    note h = hextets_inv [of x]
    have gs: "groups_ok (hextets x)" "length (hextets x) = 8" "hextet_bytes (hextets x) = x" using h x by auto
    have nm: "ipStringToCloudPrivateIPConfigName (IP_String x) = join ''.'' (map hex4 (hextets x))"
      using p x False dotted_hexString [of x] by (simp add: ipStringToCloudPrivateIPConfigName_def)
    show ?thesis unfolding nm cloudPrivateIPConfigNameToIPString_def
      using ParseIP_dotted_groups [OF gs(1,2)] dots_to_colons [OF gs(1)] ParseIP_expanded [OF gs(1,2)] gs(3) by simp
  qed
qed

text \<open>The name of a \<open>CloudPrivateIPConfig\<close> determines its address. For every IPv4 or IPv6 address
  the canonical text, turned into an object name and back, is the same text again; so two addresses
  never share an object.\<close>

lemma cloud_name_roundtrip:
  assumes "ip_wf x"
  shows "cloudPrivateIPConfigNameToIPString (ipStringToCloudPrivateIPConfigName (IP_String x)) = IP_String x"
  using assms by (rule cloud_name_back)

end
