(* ===== verification/Egress_IP.thy ===== *)
theory Egress_IP
  imports Cloud_Names "HOL-Library.Multiset"
begin

text \<open>
  The egress IP controller of the cluster manager (\<open>pkg/clustermanager/egressip_controller.go\<close> and
  \<open>egressip_event_handler.go\<close>): the allocator cache of egress nodes, the assignment of egress
  addresses to nodes, the reconciliation of \<open>EgressIP\<close> objects on bare metal and on a public cloud,
  the pending cloud operations, and the handlers of node, \<open>EgressIP\<close> and \<open>CloudPrivateIPConfig\<close> events.

  A Go map is an association list with distinct keys; the order of the list is the order in which the
  code happens to range over the map, so every statement holds for every order. \<open>UnsortedList\<close> is an
  argument of the model. Requests to the API server are logged; their answers, the informer caches and
  the reachability probes are the environment. The two mutexes make a call atomic. Events, metrics and
  logs are left out.
\<close>

section \<open>Objects\<close>

record EgressIPStatusItem =
  si_Node :: string
  si_EgressIP :: string
  si_Network :: string

record EgressIP =
  eip_Name :: string
  eip_Spec :: "string list"
  eip_Status :: "EgressIPStatusItem list"

record Condition =
  cond_Type :: string
  cond_Status :: string
  cond_Reason :: string
  cond_Message :: string
  cond_Time :: int
  cond_Generation :: int

record CloudPrivateIPConfig =
  cp_Name :: string
  cp_Deleting :: bool
  cp_Owner :: "string option"
  cp_SpecNode :: string
  cp_StatusNode :: string
  cp_Conditions :: "Condition list"

record KubeNode =
  kn_node :: Node
  kn_Labels :: "string \<rightharpoonup> string"
  kn_Conditions :: "(string \<times> string) list"
  kn_hostAddresses :: string

record cloudPrivateIPConfigOp =
  op_toAdd :: string
  op_toDelete :: string

record egressNode =
  eg_config :: ParsedNodeEgressIPConfiguration
  eg_mgmtIPs :: "ip list"
  eg_allocations :: "(string \<times> string) list"
  eg_isReady :: bool
  eg_isReachable :: bool
  eg_isEgressAssignable :: bool
  eg_name :: string

section \<open>Environment and state\<close>

datatype request =
    PatchStatus string "EgressIPStatusItem list"
  | UpdateCPIC CloudPrivateIPConfig
  | CreateCPIC CloudPrivateIPConfig
  | DeleteCPIC string

datatype api_error = ApiNotFound | ApiOther

datatype eip_error =
    InvalidSpec string
  | RequestFailed request
  | CloudGetFailed string
  | CloudDeleting string
  | CloudExists string
  | ListFailed
  | GetFailed string
  | NoPending string
  | NoPendingFor string string
  | NodeError annotation_error
  | Aggregate "eip_error list"

text \<open>The answer to a write may depend on the requests made before it; so may the objects the API
  server returns. \<open>RetryOnConflict\<close> repeats the same patch, so a patch is one request with its final
  outcome.\<close>

record environment =
  en_cloud :: bool
  en_lpm :: "prefix list \<Rightarrow> ip \<Rightarrow> prefix option"
  en_nodes :: "Node list option"
  en_node :: "string \<Rightarrow> Node option"
  en_cpic :: "string \<Rightarrow> api_error + CloudPrivateIPConfig"
  en_timeout :: int
  en_probe :: "string \<Rightarrow> ip list \<Rightarrow> bool"
  en_ok :: "request list \<Rightarrow> request \<Rightarrow> bool"
  en_eips :: "request list \<Rightarrow> EgressIP list option"
  en_eip :: "request list \<Rightarrow> string \<Rightarrow> api_error + EgressIP"
  en_order :: "string list \<Rightarrow> string list"

type_synonym node_cache = "(string \<times> egressNode) list"
type_synonym pending_ops = "(string \<times> (string \<times> cloudPrivateIPConfigOp) list) list"

record controller =
  ct_cache :: node_cache
  ct_pending :: pending_ops
  ct_log :: "request list"

type_synonym outcome = "eip_error option \<times> controller"

definition send :: "environment \<Rightarrow> request \<Rightarrow> controller \<Rightarrow> outcome" where
  "send e r c =
     (if en_ok e (ct_log c) r then None else Some (RequestFailed r), c\<lparr>ct_log := ct_log c @ [r]\<rparr>)"

definition patchReplaceEgressIPStatus ::
  "environment \<Rightarrow> string \<Rightarrow> EgressIPStatusItem list \<Rightarrow> controller \<Rightarrow> outcome" where
  "patchReplaceEgressIPStatus e name items c = send e (PatchStatus name items) c"

section \<open>The allocator cache\<close>

definition getAllocationCountForEgressIP :: "egressNode \<Rightarrow> string \<Rightarrow> nat" where
  "getAllocationCountForEgressIP n name = length (filter (\<lambda>(_, egressIPName). egressIPName = name) (eg_allocations n))"

definition getAllocationTotalCount :: "node_cache \<Rightarrow> nat" where
  "getAllocationTotalCount c = sum_list (map (\<lambda>(_, n). length (eg_allocations n)) c)"

text \<open>A write through a pointer of the cache.\<close>

definition on_node :: "string \<Rightarrow> (egressNode \<Rightarrow> egressNode) \<Rightarrow> node_cache \<Rightarrow> node_cache" where
  "on_node k f c = map (\<lambda>(x, n). (x, if x = k then f n else n)) c"

definition setNodeEgressAssignable :: "string \<Rightarrow> bool \<Rightarrow> node_cache \<Rightarrow> node_cache" where
  "setNodeEgressAssignable nodeName b =
     on_node nodeName (\<lambda>n. let n1 = n\<lparr>eg_isEgressAssignable := b\<rparr> in if b then n1 else n1\<lparr>eg_allocations := []\<rparr>)"

definition setNodeEgressReady :: "string \<Rightarrow> bool \<Rightarrow> node_cache \<Rightarrow> node_cache" where
  "setNodeEgressReady nodeName b =
     on_node nodeName (\<lambda>n. let n1 = n\<lparr>eg_isReady := b\<rparr> in if b then n1 else n1\<lparr>eg_allocations := []\<rparr>)"

definition setNodeEgressReachable :: "string \<Rightarrow> bool \<Rightarrow> node_cache \<Rightarrow> node_cache" where
  "setNodeEgressReachable nodeName b =
     on_node nodeName (\<lambda>n. let n1 = n\<lparr>eg_isReachable := b\<rparr> in if b then n1 else n1\<lparr>eg_allocations := []\<rparr>)"

definition deleteNodeForEgress :: "string \<Rightarrow> node_cache \<Rightarrow> node_cache" where
  "deleteNodeForEgress nodeName c = AList.delete nodeName c"

definition isReachable :: "environment \<Rightarrow> string \<Rightarrow> ip list \<Rightarrow> bool" where
  "isReachable e nodeName mgmtIPs = (if en_timeout e = 0 then True else en_probe e nodeName mgmtIPs)"

definition isEgressNodeReachable :: "environment \<Rightarrow> string \<Rightarrow> node_cache \<Rightarrow> bool" where
  "isEgressNodeReachable e nodeName c =
     (case map_of c nodeName of
        Some n \<Rightarrow> eg_isReachable n \<or> isReachable e (eg_name n) (eg_mgmtIPs n)
      | None \<Rightarrow> False)"

definition isEgressNodeReady :: "KubeNode \<Rightarrow> bool" where
  "isEgressNodeReady node =
     (case find (\<lambda>(t, _). t = ''Ready'') (kn_Conditions node) of
        Some (_, status) \<Rightarrow> status = ''True''
      | None \<Rightarrow> False)"

fun deleteAllocatorEgressIPAssignments :: "EgressIPStatusItem list \<Rightarrow> node_cache \<Rightarrow> node_cache" where
  "deleteAllocatorEgressIPAssignments [] c = c"
| "deleteAllocatorEgressIPAssignments (s # ss) c =
     deleteAllocatorEgressIPAssignments ss
       (on_node (si_Node s) (\<lambda>n. n\<lparr>eg_allocations := AList.delete (si_EgressIP s) (eg_allocations n)\<rparr>) c)"

fun addAllocatorEgressIPAssignments :: "string \<Rightarrow> EgressIPStatusItem list \<Rightarrow> node_cache \<Rightarrow> node_cache" where
  "addAllocatorEgressIPAssignments name [] c = c"
| "addAllocatorEgressIPAssignments name (s # ss) c =
     addAllocatorEgressIPAssignments name ss
       (on_node (si_Node s) (\<lambda>n. n\<lparr>eg_allocations := AList.update (si_EgressIP s) name (eg_allocations n)\<rparr>) c)"

definition deleteAllocatorEgressIPAssignmentIfExists ::
  "string \<Rightarrow> string \<Rightarrow> node_cache \<Rightarrow> string \<times> node_cache" where
  "deleteAllocatorEgressIPAssignmentIfExists name egressIP c =
     (case find (\<lambda>(_, n). map_of (eg_allocations n) egressIP = Some name) c of
        Some (nodeName, _) \<Rightarrow>
          (nodeName, on_node nodeName (\<lambda>n. n\<lparr>eg_allocations := AList.delete egressIP (eg_allocations n)\<rparr>) c)
      | None \<Rightarrow> ([], c))"

text \<open>The management address of a subnet; \<open>None\<close> when the code would panic.\<close>

fun management_addrs :: "ipnet list \<Rightarrow> ip list option" where
  "management_addrs [] = Some []"
| "management_addrs (s # ss) =
     (case GetNodeManagementIfAddr (Some s) of
        Some (Some a) \<Rightarrow> map_option ((#) (IP a)) (management_addrs ss)
      | _ \<Rightarrow> None)"

definition initEgressIPAllocator :: "environment \<Rightarrow> Node \<Rightarrow> node_cache \<Rightarrow> (eip_error + node_cache) option" where
  "initEgressIPAllocator e node c =
     (case (if en_cloud e then ParseCloudEgressIPConfig node else ParseNodePrimaryIfAddr node) of
        Inl err \<Rightarrow> Some (Inl (NodeError err))
      | Inr cfg \<Rightarrow>
          (case ParseNodeHostSubnetAnnotation node ''default'' of
             Inl err \<Rightarrow> Some (Inl (NodeError err))
           | Inr nodeSubnets \<Rightarrow>
               (case management_addrs nodeSubnets of
                  None \<Rightarrow> None
                | Some mgmtIPs \<Rightarrow>
                    Some (Inr (case map_of c (node_Name node) of
                        None \<Rightarrow> c @ [(node_Name node, \<lparr>eg_config = cfg, eg_mgmtIPs = mgmtIPs, eg_allocations = [],
                                  eg_isReady = False, eg_isReachable = False, eg_isEgressAssignable = False,
                                  eg_name = node_Name node\<rparr>)]
                      | Some _ \<Rightarrow> on_node (node_Name node) (\<lambda>n. n\<lparr>eg_config := cfg, eg_mgmtIPs := mgmtIPs\<rparr>) c)))))"


section \<open>Assignment\<close>

record egressIPNodeStatus =
  ns_Node :: string
  ns_Name :: string

definition usable :: "egressNode \<Rightarrow> bool" where
  "usable n \<longleftrightarrow> eg_isEgressAssignable n \<and> eg_isReady n \<and> eg_isReachable n"

text \<open>The pointers of the usable nodes, as keys of the cache, in ascending order of their number of
  allocations, and all allocations. \<open>sort.Slice\<close> leaves equal elements in some order; a stable sort of
  the map's order, which is arbitrary, gives any of them.\<close>

definition node_allocations :: "egressNode \<Rightarrow> (string \<rightharpoonup> egressIPNodeStatus) \<Rightarrow> (string \<rightharpoonup> egressIPNodeStatus)" where
  "node_allocations n m =
     fold (\<lambda>(x, eipName) m. m(x \<mapsto> \<lparr>ns_Node = eg_name n, ns_Name = eipName\<rparr>)) (eg_allocations n) m"

definition getSortedEgressData :: "node_cache \<Rightarrow> string list \<times> (string \<rightharpoonup> egressIPNodeStatus)" where
  "getSortedEgressData c =
     (map fst (sort_key (\<lambda>(_, n). length (eg_allocations n)) (filter (\<lambda>(_, n). usable n) c)),
      fold (\<lambda>(_, n). node_allocations n) c Map.empty)"

fun addr_conflict :: "ip \<Rightarrow> Node list \<Rightarrow> eip_error + string option" where
  "addr_conflict x [] = Inr None"
| "addr_conflict x (node # nodes) =
     (case ParseNodeHostAddressesDropNetMask node of
        Inl err \<Rightarrow> Inl (NodeError err)
      | Inr addrs \<Rightarrow> if IP_String x \<in> addrs then Inr (Some (node_Name node)) else addr_conflict x nodes)"

definition isEgressIPAddrConflict :: "environment \<Rightarrow> ip \<Rightarrow> eip_error + string option" where
  "isEgressIPAddrConflict e x = (case en_nodes e of None \<Rightarrow> Inl ListFailed | Some nodes \<Rightarrow> addr_conflict x nodes)"

definition getIPFamilyAllocationCount :: "(string \<times> string) list \<Rightarrow> bool \<Rightarrow> nat" where
  "getIPFamilyAllocationCount allocations isIPv6 =
     length (filter (\<lambda>(x, _). (IsIPv4 (ParseIPSloppy x) \<and> \<not> isIPv6) \<or> (IsIPv6 (ParseIPSloppy x) \<and> isIPv6)) allocations)"

text \<open>The guards of the inner loop: the network that hosts the address on the node, or \<open>None\<close> when the
  loop goes on to the next node. The capacities are far from the bounds of \<open>int\<close>, so the differences
  are exact.\<close>

definition exhausted :: "int \<Rightarrow> nat \<Rightarrow> bool" where
  "exhausted cap n \<longleftrightarrow> cap < UnlimitedNodeCapacity \<and> cap - int n \<le> 0"

definition node_can_host :: "environment \<Rightarrow> string \<Rightarrow> ip \<Rightarrow> egressNode \<Rightarrow> string option" where
  "node_can_host e name eIP n =
     (let cap = pec_Capacity (eg_config n)
      in if getAllocationCountForEgressIP n name > 0 then None
         else case en_node e (eg_name n) of
             None \<Rightarrow> None
           | Some node \<Rightarrow>
               (case GetEgressIPNetwork (en_lpm e) node eIP of
                  Inl _ \<Rightarrow> None
                | Inr network \<Rightarrow>
                    if network = [] then None
                    else if exhausted (cap_IP cap) (length (eg_allocations n)) then None
                    else if IsIPv4 eIP \<and> exhausted (cap_IPv4 cap) (getIPFamilyAllocationCount (eg_allocations n) False) then None
                    else if IsIPv6 eIP \<and> exhausted (cap_IPv6 cap) (getIPFamilyAllocationCount (eg_allocations n) True) then None
                    else Some network))"

fun assign_on_nodes ::
  "environment \<Rightarrow> string \<Rightarrow> ip \<Rightarrow> string list \<Rightarrow> node_cache \<Rightarrow> (EgressIPStatusItem \<times> node_cache) option" where
  "assign_on_nodes e name eIP [] c = None"
| "assign_on_nodes e name eIP (k # ks) c =
     (case map_of c k of
        None \<Rightarrow> assign_on_nodes e name eIP ks c
      | Some n \<Rightarrow>
          (case node_can_host e name eIP n of
             None \<Rightarrow> assign_on_nodes e name eIP ks c
           | Some network \<Rightarrow>
               Some (\<lparr>si_Node = eg_name n, si_EgressIP = IP_String eIP, si_Network = network\<rparr>,
                 on_node k (\<lambda>n. n\<lparr>eg_allocations := AList.update (IP_String eIP) name (eg_allocations n)\<rparr>) c)))"

text \<open>The usable nodes that host the address on a network not managed by OVN.\<close>

definition hosts_secondary :: "environment \<Rightarrow> ip \<Rightarrow> egressNode \<Rightarrow> bool" where
  "hosts_secondary e eIP n \<longleftrightarrow>
     (case en_node e (eg_name n) of
        None \<Rightarrow> False
      | Some node \<Rightarrow>
          IsOVNManagedNetwork node eIP = Inr False
          \<and> (case GetNonOVNNetworkContainingIP (en_lpm e) node eIP of Inl _ \<Rightarrow> False | Inr network \<Rightarrow> network \<noteq> []))"

definition restrict_nodes :: "environment \<Rightarrow> ip \<Rightarrow> node_cache \<Rightarrow> string list \<Rightarrow> string list" where
  "restrict_nodes e eIP c ks =
     (if en_cloud e then ks
      else let secondary = filter (\<lambda>k. case map_of c k of None \<Rightarrow> False | Some n \<Rightarrow> hosts_secondary e eIP n) ks
           in if secondary \<noteq> [] then secondary else ks)"

text \<open>An address that the object already holds is reported again; \<open>None\<close> when it is skipped.\<close>

definition reuse_assignment ::
  "environment \<Rightarrow> ip \<Rightarrow> egressIPNodeStatus \<Rightarrow> EgressIPStatusItem option" where
  "reuse_assignment e eIP status =
     (case en_node e (ns_Node status) of
        None \<Rightarrow> None
      | Some node \<Rightarrow>
          (case GetEgressIPNetwork (en_lpm e) node eIP of
             Inl _ \<Rightarrow> None
           | Inr eipNetwork \<Rightarrow>
               if eipNetwork = [] then None
               else Some \<lparr>si_Node = ns_Node status, si_EgressIP = IP_String eIP, si_Network = eipNetwork\<rparr>))"

text \<open>The loop over the addresses; \<open>existing\<close> is the snapshot of the allocations, \<open>ks\<close> the assignable
  nodes, which the loop narrows for good.\<close>

fun assign_loop ::
  "environment \<Rightarrow> string \<Rightarrow> (string \<rightharpoonup> egressIPNodeStatus) \<Rightarrow> string list \<Rightarrow> string list \<Rightarrow> node_cache
   \<Rightarrow> EgressIPStatusItem list \<Rightarrow> EgressIPStatusItem list \<times> node_cache" where
  "assign_loop e name existing [] ks c acc = (acc, c)"
| "assign_loop e name existing (egressIP # ips) ks c acc =
     (let eIP = ParseIP egressIP
      in case isEgressIPAddrConflict e eIP of
           Inl _ \<Rightarrow> (acc, c)
         | Inr (Some _) \<Rightarrow> (acc, c)
         | Inr None \<Rightarrow>
             (case existing (IP_String eIP) of
                Some status \<Rightarrow>
                  if name = ns_Name status then
                    (case reuse_assignment e eIP status of
                       None \<Rightarrow> assign_loop e name existing ips ks c acc
                     | Some item \<Rightarrow> assign_loop e name existing ips ks c (acc @ [item]))
                  else (acc, c)
              | None \<Rightarrow>
                  let ks1 = restrict_nodes e eIP c ks
                  in case assign_on_nodes e name eIP ks1 c of
                       None \<Rightarrow> assign_loop e name existing ips ks1 c acc
                     | Some (item, c1) \<Rightarrow> assign_loop e name existing ips ks1 c1 (acc @ [item])))"

definition assignEgressIPs ::
  "environment \<Rightarrow> string \<Rightarrow> string list \<Rightarrow> node_cache \<Rightarrow> EgressIPStatusItem list \<times> node_cache" where
  "assignEgressIPs e name egressIPs c =
     (case getSortedEgressData c of (assignableNodes, existingAllocations) \<Rightarrow>
        if assignableNodes = [] then ([], c)
        else assign_loop e name existingAllocations egressIPs assignableNodes c [])"

section \<open>Validation\<close>

text \<open>\<open>sets.Insert\<close> and the assignment to a map used as a set.\<close>

definition set_insert :: "'a \<Rightarrow> 'a list \<Rightarrow> 'a list" where
  "set_insert x xs = (if x \<in> set xs then xs else xs @ [x])"

fun validateEgressIPSpec :: "string list \<Rightarrow> string list \<Rightarrow> eip_error + string list" where
  "validateEgressIPSpec [] valid = Inr valid"
| "validateEgressIPSpec (egressIP # ips) valid =
     (if ParseIP egressIP = [] then Inl (InvalidSpec egressIP)
      else validateEgressIPSpec ips (set_insert egressIP valid))"

text \<open>The calls on a node that the informer does not know fail, as do those on an unparsable address; a
  failed call counts as false.\<close>

definition valid_status :: "environment \<Rightarrow> string \<Rightarrow> node_cache \<Rightarrow> EgressIPStatusItem \<Rightarrow> bool" where
  "valid_status e name c s \<longleftrightarrow>
     (case map_of c (si_Node s) of
        None \<Rightarrow> False
      | Some n \<Rightarrow>
          getAllocationCountForEgressIP n name \<le> 1 \<and> eg_isEgressAssignable n \<and> eg_isReachable n \<and> eg_isReady n
          \<and> (let x = ParseIP (si_EgressIP s)
             in case en_node e (eg_name n) of
                  None \<Rightarrow> False
                | Some node \<Rightarrow>
                    IsOVNManagedNetwork node x = Inr True
                    \<or> IsNonOVNManagedNetworkContainingIP (en_lpm e) node x = Inr True))"

definition validateEgressIPStatus ::
  "environment \<Rightarrow> string \<Rightarrow> EgressIPStatusItem list \<Rightarrow> node_cache \<Rightarrow> EgressIPStatusItem list \<times> EgressIPStatusItem list" where
  "validateEgressIPStatus e name items c =
     (fold set_insert (filter (valid_status e name c) items) [],
      fold set_insert (filter (\<lambda>s. \<not> valid_status e name c s) items) [])"

section \<open>Cloud operations\<close>

text \<open>One operation: an update, an addition, a deletion, or nothing.\<close>

definition execute_op :: "environment \<Rightarrow> string \<Rightarrow> string \<Rightarrow> cloudPrivateIPConfigOp \<Rightarrow> controller \<Rightarrow> outcome" where
  "execute_op e egressIPName egressIP opr c =
     (let nm = ipStringToCloudPrivateIPConfigName egressIP;
          got = en_cpic e nm
      in if op_toAdd opr \<noteq> [] \<and> op_toDelete opr \<noteq> [] then
           (case got of
              Inl _ \<Rightarrow> (Some (CloudGetFailed nm), c)
            | Inr cp \<Rightarrow>
                if cp_Deleting cp then (Some (CloudDeleting nm), c)
                else send e (UpdateCPIC (cp\<lparr>cp_SpecNode := op_toAdd opr\<rparr>)) c)
         else if op_toAdd opr \<noteq> [] then
           (case got of
              Inr cp \<Rightarrow> if op_toAdd opr = cp_SpecNode cp then (None, c) else (Some (CloudExists nm), c)
            | Inl _ \<Rightarrow>
                send e (CreateCPIC \<lparr>cp_Name = nm, cp_Deleting = False, cp_Owner = Some egressIPName,
                          cp_SpecNode = op_toAdd opr, cp_StatusNode = [], cp_Conditions = []\<rparr>) c)
         else if op_toDelete opr \<noteq> [] then
           (case got of
              Inl ApiNotFound \<Rightarrow> (None, c)
            | Inl ApiOther \<Rightarrow> (Some (CloudGetFailed nm), c)
            | Inr _ \<Rightarrow> send e (DeleteCPIC nm) c)
         else (None, c))"

fun executeCloudPrivateIPConfigOps ::
  "environment \<Rightarrow> string \<Rightarrow> (string \<times> cloudPrivateIPConfigOp) list \<Rightarrow> controller \<Rightarrow> outcome" where
  "executeCloudPrivateIPConfigOps e egressIPName [] c = (None, c)"
| "executeCloudPrivateIPConfigOps e egressIPName ((egressIP, opr) # ops) c =
     (case execute_op e egressIPName egressIP opr c of
        (Some err, c1) \<Rightarrow> (Some err, c1)
      | (None, c1) \<Rightarrow> executeCloudPrivateIPConfigOps e egressIPName ops c1)"

text \<open>The difference between what is to be assigned and what is to be removed.\<close>

fun ops_to_add :: "EgressIPStatusItem list \<Rightarrow> (string \<times> cloudPrivateIPConfigOp) list \<Rightarrow> (string \<times> cloudPrivateIPConfigOp) list" where
  "ops_to_add [] ops = ops"
| "ops_to_add (s # ss) ops = ops_to_add ss (AList.update (si_EgressIP s) \<lparr>op_toAdd = si_Node s, op_toDelete = []\<rparr> ops)"

fun ops_to_remove :: "EgressIPStatusItem list \<Rightarrow> (string \<times> cloudPrivateIPConfigOp) list \<Rightarrow> (string \<times> cloudPrivateIPConfigOp) list" where
  "ops_to_remove [] ops = ops"
| "ops_to_remove (s # ss) ops =
     ops_to_remove ss
       (case map_of ops (si_EgressIP s) of
          Some opr \<Rightarrow> AList.update (si_EgressIP s) (opr\<lparr>op_toDelete := si_Node s\<rparr>) ops
        | None \<Rightarrow> AList.update (si_EgressIP s) \<lparr>op_toAdd = [], op_toDelete = si_Node s\<rparr> ops)"

text \<open>A newer addition replaces a pending one, the oldest deletion is kept.\<close>

definition merge_op :: "cloudPrivateIPConfigOp \<Rightarrow> cloudPrivateIPConfigOp \<Rightarrow> cloudPrivateIPConfigOp" where
  "merge_op opr old =
     (let new_add = (if op_toAdd opr \<noteq> [] then old\<lparr>op_toAdd := op_toAdd opr\<rparr> else old)
      in if op_toDelete new_add = [] then new_add\<lparr>op_toDelete := op_toDelete opr\<rparr> else new_add)"

fun merge_ops ::
  "(string \<times> cloudPrivateIPConfigOp) list \<Rightarrow> (string \<times> cloudPrivateIPConfigOp) list \<Rightarrow> (string \<times> cloudPrivateIPConfigOp) list" where
  "merge_ops [] pending = pending"
| "merge_ops ((cloudPrivateIP, opr) # ops) pending =
     merge_ops ops
       (case map_of pending cloudPrivateIP of
          None \<Rightarrow> AList.update cloudPrivateIP opr pending
        | Some old \<Rightarrow> AList.update cloudPrivateIP (merge_op opr old) pending)"

definition executeCloudPrivateIPConfigChange ::
  "environment \<Rightarrow> string \<Rightarrow> EgressIPStatusItem list \<Rightarrow> EgressIPStatusItem list \<Rightarrow> controller \<Rightarrow> outcome" where
  "executeCloudPrivateIPConfigChange e egressIPName toAssign toRemove c =
     (let ops = ops_to_remove toRemove (ops_to_add toAssign []);
          pending =
            (if ops = [] then ct_pending c
             else case map_of (ct_pending c) egressIPName of
                 None \<Rightarrow> AList.update egressIPName ops (ct_pending c)
               | Some old \<Rightarrow> AList.update egressIPName (merge_ops ops old) (ct_pending c))
      in executeCloudPrivateIPConfigOps e egressIPName ops (c\<lparr>ct_pending := pending\<rparr>))"

section \<open>Reconciliation of an EgressIP object\<close>

text \<open>What the code computes before it branches on the platform: the name, the statuses to keep and to
  remove, the addresses to assign and the stale ones.\<close>

record plan =
  pl_name :: string
  pl_keep :: "EgressIPStatusItem list"
  pl_remove :: "EgressIPStatusItem list"
  pl_assign :: "string list"
  pl_stale :: "string list"

definition reconcile_plan ::
  "environment \<Rightarrow> EgressIP option \<Rightarrow> EgressIP option \<Rightarrow> node_cache \<Rightarrow> eip_error + plan" where
  "reconcile_plan e old new c =
     (let name = (case new of Some n \<Rightarrow> eip_Name n | None \<Rightarrow> (case old of Some x \<Rightarrow> eip_Name x | None \<Rightarrow> []));
          status = (case new of Some n \<Rightarrow> eip_Status n | None \<Rightarrow> (case old of Some x \<Rightarrow> eip_Status x | None \<Rightarrow> []));
          spec = (case new of Some n \<Rightarrow> eip_Spec n | None \<Rightarrow> []);
          stale = filter (\<lambda>x. x \<notin> set spec) (case old of Some x \<Rightarrow> fold set_insert (eip_Spec x) [] | None \<Rightarrow> [])
      in case validateEgressIPSpec spec [] of
           Inl err \<Rightarrow> Inl err
         | Inr validSpecIPs \<Rightarrow>
             (case validateEgressIPStatus e name status c of (validStatus, invalidStatus) \<Rightarrow>
                let keep = filter (\<lambda>s. si_EgressIP s \<in> set validSpecIPs) validStatus;
                    remove = fold set_insert (filter (\<lambda>s. si_EgressIP s \<notin> set validSpecIPs) validStatus) invalidStatus;
                    missing = filter (\<lambda>x. x \<notin> si_EgressIP ` set keep) validSpecIPs;
                    assign = (if remove \<noteq> [] then filter (\<lambda>x. x \<in> si_EgressIP ` set remove) missing else missing)
                in Inr \<lparr>pl_name = name, pl_keep = keep, pl_remove = remove, pl_assign = assign, pl_stale = stale\<rparr>))"

definition assign_planned :: "environment \<Rightarrow> plan \<Rightarrow> node_cache \<Rightarrow> EgressIPStatusItem list \<times> node_cache" where
  "assign_planned e p c =
     (if pl_assign p \<noteq> [] then assignEgressIPs e (pl_name p) (en_order e (pl_assign p)) c else ([], c))"

definition reconcile_baremetal :: "environment \<Rightarrow> bool \<Rightarrow> plan \<Rightarrow> controller \<Rightarrow> outcome" where
  "reconcile_baremetal e is_new p c =
     (let c1 = (if pl_remove p \<noteq> [] then deleteAllocatorEgressIPAssignments (pl_remove p) (ct_cache c) else ct_cache c)
      in case assign_planned e p c1 of (toAdd, c2) \<Rightarrow>
           let keep = pl_keep p @ toAdd;
               c3 = c\<lparr>ct_cache := addAllocatorEgressIPAssignments (pl_name p) keep c2\<rparr>
           in if toAdd \<noteq> [] \<or> (pl_remove p \<noteq> [] \<and> is_new)
              then patchReplaceEgressIPStatus e (pl_name p) keep c3 else (None, c3))"

fun remove_stale ::
  "string \<Rightarrow> string list \<Rightarrow> node_cache \<Rightarrow> EgressIPStatusItem list \<Rightarrow> node_cache \<times> EgressIPStatusItem list" where
  "remove_stale name [] c removed = (c, removed)"
| "remove_stale name (x # xs) c removed =
     (case deleteAllocatorEgressIPAssignmentIfExists name x c of (nodeName, c1) \<Rightarrow>
        remove_stale name xs c1
          (if nodeName \<noteq> [] then removed @ [\<lparr>si_Node = nodeName, si_EgressIP = x, si_Network = []\<rparr>] else removed))"

definition reconcile_cloud :: "environment \<Rightarrow> bool \<Rightarrow> plan \<Rightarrow> controller \<Rightarrow> outcome" where
  "reconcile_cloud e is_new p c =
     (let c1 = (if pl_remove p \<noteq> [] then c\<lparr>ct_cache := deleteAllocatorEgressIPAssignments (pl_remove p) (ct_cache c)\<rparr> else c);
          (err, c2) = (if pl_remove p \<noteq> [] \<and> is_new then patchReplaceEgressIPStatus e (pl_name p) (pl_keep p) c1 else (None, c1))
      in if err \<noteq> None then (err, c2)
         else let stale = filter (\<lambda>x. x \<notin> si_EgressIP ` set (pl_remove p)) (pl_stale p);
                  (cache3, removed) = remove_stale (pl_name p) (en_order e stale) (ct_cache c2) (pl_remove p);
                  (toAdd, cache4) = assign_planned e p cache3
              in executeCloudPrivateIPConfigChange e (pl_name p) toAdd removed
                   (c2\<lparr>ct_cache := addAllocatorEgressIPAssignments (pl_name p) (pl_keep p @ toAdd) cache4\<rparr>))"

definition reconcileEgressIP :: "environment \<Rightarrow> EgressIP option \<Rightarrow> EgressIP option \<Rightarrow> controller \<Rightarrow> outcome" where
  "reconcileEgressIP e old new c =
     (case reconcile_plan e old new (ct_cache c) of
        Inl err \<Rightarrow> (Some err, c)
      | Inr p \<Rightarrow> if en_cloud e then reconcile_cloud e (new \<noteq> None) p c else reconcile_baremetal e (new \<noteq> None) p c)"


section \<open>Node events\<close>

text \<open>Synthetic updates of a list of objects; the errors are collected.\<close>

fun reconcile_each :: "environment \<Rightarrow> EgressIP list \<Rightarrow> controller \<Rightarrow> eip_error list \<Rightarrow> eip_error list \<times> controller" where
  "reconcile_each e [] c errs = (errs, c)"
| "reconcile_each e (x # xs) c errs =
     (case reconcileEgressIP e None (Some x) c of
        (None, c1) \<Rightarrow> reconcile_each e xs c1 errs
      | (Some err, c1) \<Rightarrow> reconcile_each e xs c1 (errs @ [err]))"

definition aggregate :: "eip_error list \<times> controller \<Rightarrow> outcome" where
  "aggregate r = (case r of (errs, c) \<Rightarrow> (if errs = [] then None else Some (Aggregate errs), c))"

definition addEgressNode :: "environment \<Rightarrow> string \<Rightarrow> controller \<Rightarrow> outcome" where
  "addEgressNode e nodeName c =
     (case en_eips e (ct_log c) of
        None \<Rightarrow> (Some ListFailed, c)
      | Some egressIPs \<Rightarrow>
          aggregate (reconcile_each e (filter (\<lambda>x. length (eip_Spec x) \<noteq> length (eip_Status x)) egressIPs) c []))"

definition deleteEgressNode :: "environment \<Rightarrow> string \<Rightarrow> controller \<Rightarrow> outcome" where
  "deleteEgressNode e nodeName c =
     (case en_eips e (ct_log c) of
        None \<Rightarrow> (Some ListFailed, c)
      | Some egressIPs \<Rightarrow>
          aggregate (reconcile_each e (filter (\<lambda>x. \<exists>s\<in>set (eip_Status x). si_Node s = nodeName) egressIPs) c []))"

text \<open>One status of an object on the node: whether its network has changed, or the error.\<close>

definition network_moved :: "environment \<Rightarrow> Node \<Rightarrow> EgressIPStatusItem \<Rightarrow> eip_error + bool" where
  "network_moved e node s =
     (if si_Node s = node_Name node \<and> si_Network s \<noteq> [] then
        let eIP = ParseIP (si_EgressIP s)
        in case IsOVNManagedNetwork node eIP of
             Inl err \<Rightarrow> Inl (NodeError err)
           | Inr True \<Rightarrow> Inr False
           | Inr False \<Rightarrow>
               (case GetNonOVNNetworkContainingIP (en_lpm e) node eIP of
                  Inl err \<Rightarrow> Inl (NodeError err)
                | Inr network \<Rightarrow> Inr (network \<noteq> si_Network s))
      else Inr False)"

fun reconcile_moved ::
  "environment \<Rightarrow> Node \<Rightarrow> (EgressIP \<times> EgressIPStatusItem) list \<Rightarrow> controller \<Rightarrow> eip_error list \<Rightarrow> eip_error list \<times> controller" where
  "reconcile_moved e node [] c errs = (errs, c)"
| "reconcile_moved e node ((x, s) # xs) c errs =
     (case network_moved e node s of
        Inl err \<Rightarrow> reconcile_moved e node xs c (errs @ [err])
      | Inr False \<Rightarrow> reconcile_moved e node xs c errs
      | Inr True \<Rightarrow>
          (case reconcileEgressIP e None (Some x) c of
             (None, c1) \<Rightarrow> reconcile_moved e node xs c1 errs
           | (Some err, c1) \<Rightarrow> reconcile_moved e node xs c1 (errs @ [err])))"

definition reconcileNonOVNNetworkEIPs :: "environment \<Rightarrow> Node \<Rightarrow> controller \<Rightarrow> outcome" where
  "reconcileNonOVNNetworkEIPs e node c =
     (case en_eips e (ct_log c) of
        None \<Rightarrow> (Some ListFailed, c)
      | Some egressIPs \<Rightarrow>
          aggregate (reconcile_moved e node (concat (map (\<lambda>x. map (Pair x) (eip_Status x)) egressIPs)) c []))"

text \<open>One round of the reachability check: the nodes whose reachability changed, with what has to be
  done for them, and the updated cache; then the synthetic updates, whose errors are only logged.\<close>

definition probe_node :: "environment \<Rightarrow> egressNode \<Rightarrow> egressNode" where
  "probe_node e n =
     (if eg_isEgressAssignable n \<and> eg_isReady n
      then n\<lparr>eg_isReachable := isReachable e (eg_name n) (eg_mgmtIPs n)\<rparr> else n)"

definition reAddOrDelete :: "environment \<Rightarrow> node_cache \<Rightarrow> (string \<times> bool) list" where
  "reAddOrDelete e c =
     map (\<lambda>(_, n). (eg_name n, eg_isReachable n))
       (filter (\<lambda>(_, n). eg_isReachable (probe_node e n) \<noteq> eg_isReachable n) c)"

fun follow_up :: "environment \<Rightarrow> (string \<times> bool) list \<Rightarrow> controller \<Rightarrow> controller" where
  "follow_up e [] c = c"
| "follow_up e ((nodeName, shouldDelete) # xs) c =
     follow_up e xs (snd (if shouldDelete then deleteEgressNode e nodeName c else addEgressNode e nodeName c))"

definition checkEgressNodesReachabilityIterate :: "environment \<Rightarrow> controller \<Rightarrow> controller" where
  "checkEgressNodesReachabilityIterate e c =
     follow_up e (reAddOrDelete e (ct_cache c)) (c\<lparr>ct_cache := map (\<lambda>(k, n). (k, probe_node e n)) (ct_cache c)\<rparr>)"

section \<open>CloudPrivateIPConfig events\<close>

definition Assigned :: string where
  "Assigned = ''Assigned''"

text \<open>The test of the first condition; \<open>None\<close> when there is none and the code panics.\<close>

definition condition_assigned :: "CloudPrivateIPConfig \<Rightarrow> bool option" where
  "condition_assigned cp =
     (case cp_Conditions cp of [] \<Rightarrow> None | x # _ \<Rightarrow> Some (cond_Type x = Assigned \<and> cond_Status x = ''True''))"

definition and_then :: "bool \<Rightarrow> bool option \<Rightarrow> bool option" where
  "and_then b r = (if b then r else Some False)"

text \<open>Whether to delete and to add, and the node to delete.\<close>

definition cloud_decision ::
  "CloudPrivateIPConfig option \<Rightarrow> CloudPrivateIPConfig option \<Rightarrow> (bool \<times> bool \<times> string) option" where
  "cloud_decision old new =
     (let oldNode = (case old of Some x \<Rightarrow> cp_StatusNode x | None \<Rightarrow> []);
          delete0 = (case old of Some x \<Rightarrow> cp_StatusNode x \<noteq> [] \<or> new = None | None \<Rightarrow> False);
          node0 = (case old of Some x \<Rightarrow> cp_SpecNode x | None \<Rightarrow> [])
      in case new of
           None \<Rightarrow> Some (delete0, False, node0)
         | Some n \<Rightarrow>
             (case and_then (cp_StatusNode n = cp_SpecNode n) (condition_assigned n) of
                None \<Rightarrow> None
              | Some shouldAdd \<Rightarrow>
                  (case and_then (delete0 \<and> (cp_StatusNode n = [] \<or> cp_StatusNode n \<noteq> oldNode)) (condition_assigned n) of
                     None \<Rightarrow> None
                   | Some shouldDelete \<Rightarrow> Some (shouldDelete, shouldAdd, if shouldDelete then oldNode else node0))))"

definition removePendingOpsAndGetResyncs ::
  "environment \<Rightarrow> string \<Rightarrow> string \<Rightarrow> controller \<Rightarrow> (eip_error + EgressIP list) \<times> controller" where
  "removePendingOpsAndGetResyncs e egressIPName egressIP c =
     (case map_of (ct_pending c) egressIPName of
        None \<Rightarrow> (Inl (NoPending egressIPName), c)
      | Some ops \<Rightarrow>
          (case map_of ops egressIP of
             None \<Rightarrow> (Inl (NoPendingFor egressIPName egressIP), c)
           | Some opr \<Rightarrow>
               let ops1 = (if op_toAdd opr = [] \<and> op_toDelete opr \<noteq> [] then AList.delete egressIP ops else ops);
                   pending = (if ops1 = [] then AList.delete egressIPName (ct_pending c)
                              else AList.update egressIPName ops1 (ct_pending c));
                   c1 = c\<lparr>ct_pending := pending\<rparr>
               in case en_eips e (ct_log c) of
                    None \<Rightarrow> (Inl ListFailed, c1)
                  | Some egressIPs \<Rightarrow>
                      (Inr (filter (\<lambda>x. eip_Name x \<noteq> egressIPName
                          \<and> (case map_of pending (eip_Name x) of
                               None \<Rightarrow> length (eip_Status x) < length (eip_Spec x)
                             | Some p \<Rightarrow> length (eip_Status x) + length p < length (eip_Spec x))) egressIPs), c1)))"

fun resync_each :: "environment \<Rightarrow> EgressIP list \<Rightarrow> controller \<Rightarrow> outcome" where
  "resync_each e [] c = (None, c)"
| "resync_each e (x # xs) c =
     (case reconcileEgressIP e None (Some x) c of
        (Some err, c1) \<Rightarrow> (Some err, c1)
      | (None, c1) \<Rightarrow> resync_each e xs c1)"

text \<open>The three parts of the handler. The flag of the first says that the handler goes on.\<close>

definition cloud_deleted :: "environment \<Rightarrow> CloudPrivateIPConfig \<Rightarrow> string \<Rightarrow> controller \<Rightarrow> bool \<times> outcome" where
  "cloud_deleted e old nodeToDelete c =
     (case cp_Owner old of
        None \<Rightarrow> (False, (None, c))
      | Some egressIPName \<Rightarrow>
          let egressIPString = cloudPrivateIPConfigNameToIPString (cp_Name old);
              item = \<lparr>si_Node = nodeToDelete, si_EgressIP = egressIPString, si_Network = []\<rparr>;
              patched = (case en_eip e (ct_log c) egressIPName of
                  Inl ApiNotFound \<Rightarrow> (None, c)
                | Inl ApiOther \<Rightarrow> (Some (GetFailed egressIPName), c)
                | Inr x \<Rightarrow> patchReplaceEgressIPStatus e (eip_Name x) (filter (\<lambda>s. s \<noteq> item) (eip_Status x)) c)
          in case patched of
               (Some err, c1) \<Rightarrow> (False, (Some err, c1))
             | (None, c1) \<Rightarrow>
                 (case removePendingOpsAndGetResyncs e egressIPName egressIPString c1 of
                    (Inl err, c2) \<Rightarrow> (False, (Some err, c2))
                  | (Inr resyncs, c2) \<Rightarrow>
                      (case resync_each e resyncs c2 of
                         (Some err, c3) \<Rightarrow> (False, (Some err, c3))
                       | (None, c3) \<Rightarrow> (True, (None, c3)))))"

definition finish_add :: "string \<Rightarrow> string \<Rightarrow> pending_ops \<Rightarrow> pending_ops" where
  "finish_add egressIPName egressIP pending =
     (case map_of pending egressIPName of
        None \<Rightarrow> pending
      | Some ops \<Rightarrow>
          (case map_of ops egressIP of
             None \<Rightarrow> pending
           | Some opr \<Rightarrow>
               let ops1 = (if op_toAdd opr \<noteq> [] then AList.delete egressIP ops else ops)
               in if ops1 = [] then AList.delete egressIPName pending else AList.update egressIPName ops1 pending))"

definition cloud_added :: "environment \<Rightarrow> CloudPrivateIPConfig \<Rightarrow> controller \<Rightarrow> outcome" where
  "cloud_added e new c =
     (case cp_Owner new of
        None \<Rightarrow> (None, c)
      | Some egressIPName \<Rightarrow>
          (case en_eip e (ct_log c) egressIPName of
             Inl _ \<Rightarrow> (Some (GetFailed egressIPName), c)
           | Inr x \<Rightarrow>
               let egressIPString = cloudPrivateIPConfigNameToIPString (cp_Name new);
                   item = \<lparr>si_Node = cp_StatusNode new, si_EgressIP = egressIPString, si_Network = []\<rparr>
               in case (if item \<in> set (eip_Status x) then (None, c)
                        else patchReplaceEgressIPStatus e (eip_Name x) (eip_Status x @ [item]) c) of
                    (Some err, c1) \<Rightarrow> (Some err, c1)
                  | (None, c1) \<Rightarrow> (None, c1\<lparr>ct_pending := finish_add egressIPName egressIPString (ct_pending c1)\<rparr>)))"

definition reconcileCloudPrivateIPConfig ::
  "environment \<Rightarrow> CloudPrivateIPConfig option \<Rightarrow> CloudPrivateIPConfig option \<Rightarrow> controller \<Rightarrow> outcome option" where
  "reconcileCloudPrivateIPConfig e old new c =
     (case cloud_decision old new of
        None \<Rightarrow> None
      | Some (shouldDelete, shouldAdd, nodeToDelete) \<Rightarrow>
          let status = (\<lambda>x. case x of None \<Rightarrow> ([], []) | Some cp \<Rightarrow> (cp_StatusNode cp, cp_Conditions cp))
          in if status old = status new then Some (None, c)
             else case (if shouldDelete then cloud_deleted e (the old) nodeToDelete c else (True, (None, c))) of
                 (False, r) \<Rightarrow> Some r
               | (True, (err, c1)) \<Rightarrow> Some (if shouldAdd then cloud_added e (the new) c1 else (None, c1)))"

definition getCloudPrivateIPConfigMap :: "CloudPrivateIPConfig list \<Rightarrow> string \<rightharpoonup> string" where
  "getCloudPrivateIPConfigMap objs = fold (\<lambda>cp m. m(cp_Name cp \<mapsto> cp_StatusNode cp)) objs Map.empty"

fun sync_statuses :: "environment \<Rightarrow> (string \<rightharpoonup> string) \<Rightarrow> EgressIP list \<Rightarrow> controller \<Rightarrow> outcome" where
  "sync_statuses e known [] c = (None, c)"
| "sync_statuses e known (x # xs) c =
     (let updated = filter (\<lambda>s. known (ipStringToCloudPrivateIPConfigName (si_EgressIP s)) \<noteq> None) (eip_Status x)
      in case (if length updated \<noteq> length (eip_Status x)
               then patchReplaceEgressIPStatus e (eip_Name x) updated c else (None, c)) of
           (Some err, c1) \<Rightarrow> (Some err, c1)
         | (None, c1) \<Rightarrow> sync_statuses e known xs c1)"

definition syncCloudPrivateIPConfigs :: "environment \<Rightarrow> CloudPrivateIPConfig list \<Rightarrow> controller \<Rightarrow> outcome" where
  "syncCloudPrivateIPConfigs e objs c =
     (if \<not> en_cloud e then (None, c)
      else case en_eips e (ct_log c) of
          None \<Rightarrow> (Some ListFailed, c)
        | Some egressIPs \<Rightarrow> sync_statuses e (getCloudPrivateIPConfigMap objs) egressIPs c)"


section \<open>The event handler\<close>

definition ovnNodeEgressLabel :: string where
  "ovnNodeEgressLabel = ''k8s.ovn.org/egress-assignable''"

text \<open>The kinds of objects the handler is registered for; an object of another type panics in the type
  assertion.\<close>

datatype resource =
    ANode KubeNode
  | AnEgressIP EgressIP
  | ACloudPrivateIPConfig CloudPrivateIPConfig

definition kn_Name :: "KubeNode \<Rightarrow> string" where
  "kn_Name node = node_Name (kn_node node)"

definition hasEgressLabel :: "KubeNode \<Rightarrow> bool" where
  "hasEgressLabel node \<longleftrightarrow> kn_Labels node ovnNodeEgressLabel \<noteq> None"

text \<open>A failed initialisation is only logged.\<close>

definition init_logged :: "environment \<Rightarrow> KubeNode \<Rightarrow> controller \<Rightarrow> controller option" where
  "init_logged e node c =
     (case initEgressIPAllocator e (kn_node node) (ct_cache c) of
        None \<Rightarrow> None
      | Some (Inl _) \<Rightarrow> Some c
      | Some (Inr cache) \<Rightarrow> Some (c\<lparr>ct_cache := cache\<rparr>))"

definition update_cache :: "(node_cache \<Rightarrow> node_cache) \<Rightarrow> controller \<Rightarrow> controller" where
  "update_cache f c = c\<lparr>ct_cache := f (ct_cache c)\<rparr>"

definition add_egress_node :: "environment \<Rightarrow> KubeNode \<Rightarrow> controller \<Rightarrow> outcome option" where
  "add_egress_node e node c =
     map_option (\<lambda>c1.
       let c2 = (if hasEgressLabel node then update_cache (setNodeEgressAssignable (kn_Name node) True) c1 else c1);
           isReady = isEgressNodeReady node;
           c3 = (if isReady then update_cache (setNodeEgressReady (kn_Name node) True) c2 else c2);
           reachable = isEgressNodeReachable e (kn_Name node) (ct_cache c3)
       in if hasEgressLabel node \<and> reachable \<and> isReady
          then addEgressNode e (kn_Name node) (update_cache (setNodeEgressReachable (kn_Name node) True) c3)
          else (None, c3)) (init_logged e node c)"

fun AddResource :: "environment \<Rightarrow> resource \<Rightarrow> controller \<Rightarrow> outcome option" where
  "AddResource e (ANode node) c = add_egress_node e node c"
| "AddResource e (AnEgressIP eIP) c = Some (reconcileEgressIP e None (Some eIP) c)"
| "AddResource e (ACloudPrivateIPConfig cp) c = reconcileCloudPrivateIPConfig e None (Some cp) c"

definition NodeHostAddressesAnnotationChanged :: "KubeNode \<Rightarrow> KubeNode \<Rightarrow> bool" where
  "NodeHostAddressesAnnotationChanged oldNode newNode \<longleftrightarrow> kn_hostAddresses oldNode \<noteq> kn_hostAddresses newNode"

text \<open>The part of the update handler for a node that had the label and keeps it.\<close>

definition update_labelled_node ::
  "environment \<Rightarrow> KubeNode \<Rightarrow> KubeNode \<Rightarrow> bool \<Rightarrow> controller \<Rightarrow> outcome" where
  "update_labelled_node e oldNode newNode isNewReachable c =
     (let isOldReady = isEgressNodeReady oldNode;
          isNewReady = isEgressNodeReady newNode;
          isHostAddrAltered = NodeHostAddressesAnnotationChanged oldNode newNode
      in if isOldReady = isNewReady \<and> \<not> isHostAddrAltered then (None, c)
         else case (if \<not> isNewReady then deleteEgressNode e (kn_Name newNode) c
                    else if isNewReachable
                    then addEgressNode e (kn_Name newNode) (update_cache (setNodeEgressReachable (kn_Name newNode) isNewReachable) c)
                    else (None, c)) of
             (Some err, c1) \<Rightarrow> (Some err, c1)
           | (None, c1) \<Rightarrow> if isHostAddrAltered then reconcileNonOVNNetworkEIPs e (kn_node newNode) c1 else (None, c1))"

definition update_egress_node :: "environment \<Rightarrow> KubeNode \<Rightarrow> KubeNode \<Rightarrow> controller \<Rightarrow> outcome option" where
  "update_egress_node e oldNode newNode c =
     map_option (\<lambda>c1.
       let oldHad = hasEgressLabel oldNode; newHas = hasEgressLabel newNode; nm = kn_Name newNode
       in if \<not> oldHad \<and> \<not> newHas then (None, c1)
          else let c2 = update_cache (setNodeEgressAssignable nm newHas) c1
               in if oldHad \<and> \<not> newHas then deleteEgressNode e (kn_Name oldNode) c2
                  else let isNewReady = isEgressNodeReady newNode;
                           isNewReachable = isEgressNodeReachable e nm (ct_cache c2);
                           c3 = update_cache (setNodeEgressReady nm isNewReady) c2
                       in if \<not> oldHad \<and> newHas then
                            (if isNewReady \<and> isNewReachable
                             then addEgressNode e nm (update_cache (setNodeEgressReachable nm isNewReachable) c3)
                             else (None, c3))
                          else update_labelled_node e oldNode newNode isNewReachable c3) (init_logged e newNode c)"

fun UpdateResource :: "environment \<Rightarrow> resource \<Rightarrow> resource \<Rightarrow> controller \<Rightarrow> outcome option" where
  "UpdateResource e (ANode oldNode) (ANode newNode) c = update_egress_node e oldNode newNode c"
| "UpdateResource e (AnEgressIP oldEIP) (AnEgressIP newEIP) c = Some (reconcileEgressIP e (Some oldEIP) (Some newEIP) c)"
| "UpdateResource e (ACloudPrivateIPConfig oldC) (ACloudPrivateIPConfig newC) c =
     reconcileCloudPrivateIPConfig e (Some oldC) (Some newC) c"
| "UpdateResource e _ _ c = None"

fun DeleteResource :: "environment \<Rightarrow> resource \<Rightarrow> controller \<Rightarrow> outcome option" where
  "DeleteResource e (AnEgressIP eIP) c = Some (reconcileEgressIP e (Some eIP) None c)"
| "DeleteResource e (ANode node) c =
     (let c1 = update_cache (deleteNodeForEgress (kn_Name node)) c
      in Some (if hasEgressLabel node then deleteEgressNode e (kn_Name node) c1 else (None, c1)))"
| "DeleteResource e (ACloudPrivateIPConfig cp) c = reconcileCloudPrivateIPConfig e (Some cp) None c"

text \<open>The runs of the controller: every event with every environment, a round of the reachability check,
  the start-up synchronisation, and a change of the order of the cache.\<close>

definition initial_controller :: controller where
  "initial_controller = \<lparr>ct_cache = [], ct_pending = [], ct_log = []\<rparr>"

inductive egress_step :: "controller \<Rightarrow> controller \<Rightarrow> bool" where
  add: "AddResource e r c = Some (err, c') \<Longrightarrow> egress_step c c'"
| update: "UpdateResource e r r' c = Some (err, c') \<Longrightarrow> egress_step c c'"
| delete: "DeleteResource e r c = Some (err, c') \<Longrightarrow> egress_step c c'"
| check: "egress_step c (checkEgressNodesReachabilityIterate e c)"
| sync: "syncCloudPrivateIPConfigs e objs c = (err, c') \<Longrightarrow> egress_step c c'"
| reorder: "mset cache = mset (ct_cache c) \<Longrightarrow> egress_step c (c\<lparr>ct_cache := cache\<rparr>)"


end
