(* ===== verification/Egress_Assignment.thy ===== *)
theory Egress_Assignment
  imports Egress_IP
begin

text \<open>
  Correctness of the egress address assignment. \<open>cache_inv\<close> is the invariant of the allocator cache:
  its keys are the names of the nodes, and only nodes that are labelled and ready hold addresses; every
  run of the controller keeps it. \<open>assignEgressIPs\<close> is shown to respect the hard constraints that its
  comment lists, and to choose the node with the fewest allocations among those that can host an
  address.
\<close>

section \<open>The invariant of the cache\<close>

definition node_ok :: "string \<Rightarrow> egressNode \<Rightarrow> bool" where
  "node_ok k n \<longleftrightarrow> eg_name n = k \<and> distinct (map fst (eg_allocations n))
     \<and> (eg_allocations n \<noteq> [] \<longrightarrow> eg_isEgressAssignable n \<and> eg_isReady n)"

definition cache_inv :: "node_cache \<Rightarrow> bool" where
  "cache_inv c \<longleftrightarrow> distinct (map fst c) \<and> (\<forall>k n. (k, n) \<in> set c \<longrightarrow> node_ok k n)"

text \<open>What the reconciliation leaves alone: everything but the allocations.\<close>

definition skeleton :: "node_cache \<Rightarrow> (string \<times> egressNode) list" where
  "skeleton c = map (\<lambda>(k, n). (k, n\<lparr>eg_allocations := []\<rparr>)) c"

definition in_service :: "node_cache \<Rightarrow> string \<Rightarrow> bool" where
  "in_service c k \<longleftrightarrow> (\<forall>n. map_of c k = Some n \<longrightarrow> eg_isEgressAssignable n \<and> eg_isReady n)"

lemma fst_on_node [simp]: "map fst (on_node k f c) = map fst c"
  by (induction c) (auto simp: on_node_def)

lemma map_of_on_node [simp]:
  "map_of (on_node k f c) x = (if x = k then map_option f (map_of c x) else map_of c x)"
  by (induction c) (auto simp: on_node_def)

lemma in_on_node: "(x, n) \<in> set (on_node k f c) \<longleftrightarrow> (\<exists>m. (x, m) \<in> set c \<and> n = (if x = k then f m else m))"
  by (induction c) (auto simp: on_node_def)

lemma cache_inv_on_node:
  assumes "cache_inv c" and "\<And>n. (k, n) \<in> set c \<Longrightarrow> node_ok k n \<Longrightarrow> node_ok k (f n)"
  shows "cache_inv (on_node k f c)"
  using assms by (auto simp: cache_inv_def in_on_node)

lemma cache_inv_lookup:
  assumes "cache_inv c"
  shows "map_of c k = Some n \<longleftrightarrow> (k, n) \<in> set c" and "map_of c k = Some n \<Longrightarrow> node_ok k n"
  using assms by (auto simp: cache_inv_def map_of_eq_Some_iff)

lemma skeleton_on_node [simp]:
  "(\<And>n. (f n)\<lparr>eg_allocations := []\<rparr> = n\<lparr>eg_allocations := []\<rparr>) \<Longrightarrow> skeleton (on_node k f c) = skeleton c"
  by (auto simp: skeleton_def on_node_def)

lemma map_of_skeleton: "map_of (skeleton c) k = map_option (\<lambda>n. n\<lparr>eg_allocations := []\<rparr>) (map_of c k)"
  by (induction c) (auto simp: skeleton_def)

lemma skeleton_lookup:
  assumes "skeleton c' = skeleton c" and "map_of c k = Some n"
  shows "\<exists>n'. map_of c' k = Some n' \<and> n'\<lparr>eg_allocations := []\<rparr> = n\<lparr>eg_allocations := []\<rparr>"
  using map_of_skeleton [of c k] map_of_skeleton [of c' k] assms by (cases "map_of c' k") auto

lemma strip_eqD:
  "(n' :: egressNode)\<lparr>eg_allocations := []\<rparr> = n\<lparr>eg_allocations := []\<rparr> \<Longrightarrow>
     eg_isEgressAssignable n' = eg_isEgressAssignable n \<and> eg_isReady n' = eg_isReady n
   \<and> eg_isReachable n' = eg_isReachable n \<and> eg_name n' = eg_name n \<and> eg_config n' = eg_config n"
  by (cases n'; cases n) simp

lemma in_service_skeleton: "skeleton c' = skeleton c \<Longrightarrow> in_service c' k \<longleftrightarrow> in_service c k"
  using skeleton_lookup [of c' c k] skeleton_lookup [of c c' k] strip_eqD unfolding in_service_def by metis

section \<open>Cache operations\<close>

lemma cache_inv_deallocate:
  "cache_inv c \<Longrightarrow> cache_inv (on_node k (\<lambda>n. n\<lparr>eg_allocations := AList.delete x (eg_allocations n)\<rparr>) c)"
  by (rule cache_inv_on_node) (auto simp: node_ok_def distinct_delete)

lemma cache_inv_allocate:
  assumes "cache_inv c" and "in_service c k"
  shows "cache_inv (on_node k (\<lambda>n. n\<lparr>eg_allocations := AList.update x nm (eg_allocations n)\<rparr>) c)"
proof (rule cache_inv_on_node [OF assms(1)])
  fix n
  assume n: "(k, n) \<in> set c" "node_ok k n"
  then have "map_of c k = Some n" using cache_inv_lookup(1) [OF assms(1)] by simp
  then have "eg_isEgressAssignable n" "eg_isReady n" using assms(2) by (auto simp: in_service_def)
  then show "node_ok k (n\<lparr>eg_allocations := AList.update x nm (eg_allocations n)\<rparr>)"
    using n(2) by (auto simp: node_ok_def distinct_update)
qed

lemma deleteAllocator_inv:
  "cache_inv c \<Longrightarrow> cache_inv (deleteAllocatorEgressIPAssignments ss c)
     \<and> skeleton (deleteAllocatorEgressIPAssignments ss c) = skeleton c"
  by (induction ss arbitrary: c) (auto simp: cache_inv_deallocate)

lemma addAllocator_inv:
  assumes "cache_inv c" and "\<forall>s\<in>set ss. in_service c (si_Node s)"
  shows "cache_inv (addAllocatorEgressIPAssignments nm ss c)
     \<and> skeleton (addAllocatorEgressIPAssignments nm ss c) = skeleton c"
  using assms
proof (induction ss arbitrary: c)
  case (Cons s ss)
  let ?c = "on_node (si_Node s) (\<lambda>n. n\<lparr>eg_allocations := AList.update (si_EgressIP s) nm (eg_allocations n)\<rparr>) c"
  have sk: "skeleton ?c = skeleton c" by simp
  have "cache_inv ?c" using Cons.prems by (simp add: cache_inv_allocate)
  moreover have "\<forall>t\<in>set ss. in_service ?c (si_Node t)"
    using Cons.prems in_service_skeleton [OF sk] by simp
  ultimately show ?case using Cons.IH [of ?c] sk by simp
qed simp

lemma deleteIfExists_inv:
  "cache_inv c \<Longrightarrow> cache_inv (snd (deleteAllocatorEgressIPAssignmentIfExists nm x c))
     \<and> skeleton (snd (deleteAllocatorEgressIPAssignmentIfExists nm x c)) = skeleton c"
  by (auto simp: deleteAllocatorEgressIPAssignmentIfExists_def cache_inv_deallocate split: option.splits)

lemma cache_inv_flags:
  assumes "cache_inv c"
  shows "cache_inv (setNodeEgressAssignable k b c)" "cache_inv (setNodeEgressReady k b c)"
    "cache_inv (setNodeEgressReachable k b c)" "cache_inv (deleteNodeForEgress k c)"
proof -
  show "cache_inv (setNodeEgressAssignable k b c)" "cache_inv (setNodeEgressReady k b c)"
      "cache_inv (setNodeEgressReachable k b c)"
    unfolding setNodeEgressAssignable_def setNodeEgressReady_def setNodeEgressReachable_def
    by (rule cache_inv_on_node [OF assms], auto simp: node_ok_def Let_def)+
  show "cache_inv (deleteNodeForEgress k c)"
    using assms by (auto simp: cache_inv_def deleteNodeForEgress_def AList.delete_eq distinct_map_filter)
qed

lemma initEgressIPAllocator_inv:
  assumes "cache_inv c" and "initEgressIPAllocator e node c = Some (Inr c')"
  shows "cache_inv c'"
proof (cases "map_of c (node_Name node)")
  case None
  then have "node_Name node \<notin> fst ` set c" by (simp add: map_of_eq_None_iff)
  then show ?thesis using assms None
    by (auto simp: initEgressIPAllocator_def cache_inv_def node_ok_def split: sum.splits option.splits if_splits)
next
  case (Some n)
  then obtain f where f: "c' = on_node (node_Name node) f c" "\<And>n. eg_name (f n) = eg_name n"
      "\<And>n. eg_allocations (f n) = eg_allocations n" "\<And>n. eg_isEgressAssignable (f n) = eg_isEgressAssignable n"
      "\<And>n. eg_isReady (f n) = eg_isReady n"
    using assms(2) by (auto simp: initEgressIPAllocator_def split: sum.splits option.splits if_splits)
  show ?thesis unfolding f(1) by (rule cache_inv_on_node [OF assms(1)]) (simp add: node_ok_def f(2-))
qed

section \<open>The assignment keeps the invariant\<close>

lemma assign_on_nodes_SomeD:
  assumes "assign_on_nodes e name eIP ks c = Some (item, c')"
  shows "\<exists>k n network. k \<in> set ks \<and> map_of c k = Some n \<and> node_can_host e name eIP n = Some network
    \<and> item = \<lparr>si_Node = eg_name n, si_EgressIP = IP_String eIP, si_Network = network\<rparr>
    \<and> c' = on_node k (\<lambda>n. n\<lparr>eg_allocations := AList.update (IP_String eIP) name (eg_allocations n)\<rparr>) c"
  using assms
proof (induction ks)
  case (Cons k ks)
  show ?case
  proof (cases "map_of c k")
    case None
    then show ?thesis using Cons by auto
  next
    case (Some n)
    then show ?thesis using Cons by (cases "node_can_host e name eIP n") auto
  qed
qed simp

lemma restrict_nodes_subset: "set (restrict_nodes e eIP c ks) \<subseteq> set ks"
  by (auto simp: restrict_nodes_def Let_def)

text \<open>The snapshot of the allocations: an entry names a node of the cache that holds the address.\<close>

lemma node_allocations_lookup:
  "node_allocations n m x =
    (case map_of (rev (eg_allocations n)) x of None \<Rightarrow> m x | Some v \<Rightarrow> Some \<lparr>ns_Node = eg_name n, ns_Name = v\<rparr>)"
proof -
  have "fold (\<lambda>(x, eipName) m. m(x \<mapsto> \<lparr>ns_Node = nd, ns_Name = eipName\<rparr>)) as m x =
      (case map_of (rev as) x of None \<Rightarrow> m x | Some v \<Rightarrow> Some \<lparr>ns_Node = nd, ns_Name = v\<rparr>)" for nd as
  proof (induction as arbitrary: m)
    case (Cons a as)
    then show ?case by (cases a) (auto simp: map_add_def split: option.splits)
  qed simp
  then show ?thesis by (simp add: node_allocations_def)
qed

lemma fold_cache_allocs:
  assumes "fold (\<lambda>(_, n). node_allocations n) c m0 x = Some st"
  shows "m0 x = Some st \<or> (\<exists>k n. (k, n) \<in> set c \<and> ns_Node st = eg_name n \<and> (x, ns_Name st) \<in> set (eg_allocations n))"
  using assms
proof (induction c arbitrary: m0)
  case (Cons a c)
  obtain k n where a: "a = (k, n)" by (cases a)
  have "node_allocations n m0 x = Some st
      \<or> (\<exists>k n. (k, n) \<in> set c \<and> ns_Node st = eg_name n \<and> (x, ns_Name st) \<in> set (eg_allocations n))"
    using Cons.IH [of "node_allocations n m0"] Cons.prems a by simp
  then show ?case
  proof
    assume "node_allocations n m0 x = Some st"
    moreover have "(x, v) \<in> set (eg_allocations n)" if "map_of (rev (eg_allocations n)) x = Some v" for v
      using map_of_SomeD [OF that] by simp
    ultimately show ?thesis unfolding node_allocations_lookup using a
      by (fastforce split: option.splits)
  qed (use a in auto)
qed simp

lemma fold_cache_allocs_None:
  assumes "fold (\<lambda>(_, n). node_allocations n) c m0 x = None"
  shows "m0 x = None \<and> (\<forall>k n. (k, n) \<in> set c \<longrightarrow> x \<notin> fst ` set (eg_allocations n))"
  using assms
proof (induction c arbitrary: m0)
  case (Cons a c)
  obtain k n where a: "a = (k, n)" by (cases a)
  have "node_allocations n m0 x = None \<and> (\<forall>k n. (k, n) \<in> set c \<longrightarrow> x \<notin> fst ` set (eg_allocations n))"
    using Cons.IH [of "node_allocations n m0"] Cons.prems a by simp
  moreover have "m0 x = None \<and> x \<notin> fst ` set (eg_allocations n)" if "node_allocations n m0 x = None"
    using that unfolding node_allocations_lookup by (auto split: option.splits simp: map_of_eq_None_iff)
  ultimately show ?case using a by auto
qed simp

lemma existing_SomeD:
  assumes "cache_inv c" and "snd (getSortedEgressData c) x = Some st"
  shows "\<exists>n. map_of c (ns_Node st) = Some n \<and> map_of (eg_allocations n) x = Some (ns_Name st)"
proof -
  obtain k n where n: "(k, n) \<in> set c" "ns_Node st = eg_name n" "(x, ns_Name st) \<in> set (eg_allocations n)"
    using fold_cache_allocs [of c "\<lambda>_. None" x st] assms(2) by (auto simp: getSortedEgressData_def)
  then have "node_ok k n" using assms(1) by (simp add: cache_inv_def)
  then show ?thesis using n cache_inv_lookup(1) [OF assms(1), of k n] by (auto simp: node_ok_def)
qed

lemma existing_NoneD:
  assumes "cache_inv c" and "snd (getSortedEgressData c) x = None" and "map_of c k = Some n"
  shows "map_of (eg_allocations n) x = None"
  using fold_cache_allocs_None [of c "\<lambda>_. None" x] assms cache_inv_lookup(1) [OF assms(1)]
  by (auto simp: getSortedEgressData_def map_of_eq_None_iff)

lemma assignable_nodes:
  assumes "cache_inv c"
  shows "k \<in> set (fst (getSortedEgressData c)) \<longleftrightarrow> (\<exists>n. map_of c k = Some n \<and> usable n)"
  using cache_inv_lookup(1) [OF assms, of k] by (force simp: getSortedEgressData_def)

text \<open>One assigned item in terms of the cache the call started with.\<close>

definition existing_ok :: "(string \<rightharpoonup> egressIPNodeStatus) \<Rightarrow> node_cache \<Rightarrow> bool" where
  "existing_ok existing c \<longleftrightarrow> (\<forall>x st. existing x = Some st \<longrightarrow> in_service c (ns_Node st))"

lemma assign_loop_cases:
  assumes "assign_loop e name existing (ip # ips) ks c acc = (items, c')"
  obtains (stop) "items = acc" "c' = c"
  | (reuse) st acc' where "isEgressIPAddrConflict e (ParseIP ip) = Inr None"
      "assign_loop e name existing ips ks c acc' = (items, c')"
      "existing (IP_String (ParseIP ip)) = Some st" "ns_Name st = name"
      "acc' = acc \<or> (\<exists>i. acc' = acc @ [i] \<and> reuse_assignment e (ParseIP ip) st = Some i)"
  | (full) "assign_loop e name existing ips (restrict_nodes e (ParseIP ip) c ks) c acc = (items, c')"
  | (fresh) i c1 where "isEgressIPAddrConflict e (ParseIP ip) = Inr None"
      "existing (IP_String (ParseIP ip)) = None"
      "assign_on_nodes e name (ParseIP ip) (restrict_nodes e (ParseIP ip) c ks) c = Some (i, c1)"
      "assign_loop e name existing ips (restrict_nodes e (ParseIP ip) c ks) c1 (acc @ [i]) = (items, c')"
proof (cases "isEgressIPAddrConflict e (ParseIP ip)")
  case (Inl err)
  then show ?thesis using assms stop by simp
next
  case (Inr r)
  show ?thesis
  proof (cases r)
    case None
    note n = Inr [unfolded None]
    show ?thesis
    proof (cases "existing (IP_String (ParseIP ip))")
      case ex: None
      show ?thesis
      proof (cases "assign_on_nodes e name (ParseIP ip) (restrict_nodes e (ParseIP ip) c ks) c")
        case None
        then show ?thesis using assms n ex full by simp
      next
        case (Some q)
        then show ?thesis using assms n ex fresh [OF n ex, of "fst q" "snd q"] by (cases q) simp
      qed
    next
      case (Some st)
      show ?thesis
      proof (cases "name = ns_Name st")
        case True
        show ?thesis
        proof (cases "reuse_assignment e (ParseIP ip) st")
          case None
          show ?thesis by (rule reuse [OF n _ Some, of acc]) (use assms n Some None True in simp_all)
        next
          case (Some i)
          show ?thesis by (rule reuse [OF n _ \<open>existing _ = Some st\<close>, of "acc @ [i]"])
              (use assms n Some \<open>existing _ = Some st\<close> True in simp_all)
        qed
      qed (use assms n Some stop in simp)
    qed
  qed (use assms Inr stop in simp)
qed

lemma assign_loop_inv:
  assumes "cache_inv c" and "existing_ok existing c" and "\<forall>k\<in>set ks. in_service c k"
    and "\<forall>s\<in>set acc. in_service c (si_Node s)" and "assign_loop e name existing ips ks c acc = (items, c')"
  shows "cache_inv c' \<and> skeleton c' = skeleton c \<and> (\<forall>s\<in>set items. in_service c (si_Node s))"
  using assms
proof (induction ips arbitrary: ks c acc)
  case (Cons ip ips)
  let ?x = "ParseIP ip"
  have ks: "\<forall>k\<in>set (restrict_nodes e ?x c ks). in_service c k"
    using Cons.prems(3) restrict_nodes_subset by blast
  from Cons.prems(5) show ?case
  proof (cases rule: assign_loop_cases)
    case stop
    then show ?thesis using Cons.prems by simp
  next
    case (reuse st acc')
    have "\<forall>s\<in>set acc'. in_service c (si_Node s)"
      using reuse(3,5) Cons.prems(2,4)
      by (auto simp: existing_ok_def reuse_assignment_def split: option.splits sum.splits if_splits)
    then show ?thesis using Cons.IH [OF Cons.prems(1-3) _ reuse(2)] by simp
  next
    case full
    then show ?thesis using Cons.IH [OF Cons.prems(1,2) ks Cons.prems(4)] by simp
  next
    case (fresh i c1)
    from assign_on_nodes_SomeD [OF fresh(3)] obtain k n where k: "k \<in> set (restrict_nodes e ?x c ks)" "map_of c k = Some n"
        "si_Node i = eg_name n"
        "c1 = on_node k (\<lambda>n. n\<lparr>eg_allocations := AList.update (IP_String ?x) name (eg_allocations n)\<rparr>) c" by auto
    have kn: "eg_name n = k" using cache_inv_lookup(2) [OF Cons.prems(1) k(2)] by (simp add: node_ok_def)
    have srv: "in_service c k" using ks k(1) by simp
    have sk: "skeleton c1 = skeleton c" using k(4) by simp
    note tr = in_service_skeleton [OF sk]
    have inv: "cache_inv c1" using cache_inv_allocate [OF Cons.prems(1) srv] k(4) by simp
    have ex: "existing_ok existing c1" using Cons.prems(2) tr by (simp add: existing_ok_def)
    have ks1: "\<forall>k\<in>set (restrict_nodes e ?x c ks). in_service c1 k" using ks tr by simp
    have ac: "\<forall>s\<in>set (acc @ [i]). in_service c1 (si_Node s)" using Cons.prems(4) k(3) kn srv tr by auto
    show ?thesis using Cons.IH [OF inv ex ks1 ac fresh(4)] sk tr by simp
  qed
qed simp

lemma assignEgressIPs_inv:
  assumes "cache_inv c" and "assignEgressIPs e name ips c = (items, c')"
  shows "cache_inv c' \<and> skeleton c' = skeleton c \<and> (\<forall>s\<in>set items. in_service c (si_Node s))"
proof -
  have ex: "existing_ok (snd (getSortedEgressData c)) c"
    unfolding existing_ok_def in_service_def
  proof (intro allI impI)
    fix x st n
    assume "snd (getSortedEgressData c) x = Some st" "map_of c (ns_Node st) = Some n"
    then show "eg_isEgressAssignable n \<and> eg_isReady n"
      using existing_SomeD [OF assms(1)] cache_inv_lookup(2) [OF assms(1)] by (fastforce simp: node_ok_def)
  qed
  have ks: "\<forall>k\<in>set (fst (getSortedEgressData c)). in_service c k"
    using assignable_nodes [OF assms(1)] by (auto simp: in_service_def usable_def)
  show ?thesis
  proof (cases "fst (getSortedEgressData c) = []")
    case True
    then show ?thesis using assms by (auto simp: assignEgressIPs_def split: prod.splits)
  next
    case False
    then have "assign_loop e name (snd (getSortedEgressData c)) ips (fst (getSortedEgressData c)) c [] = (items, c')"
      using assms(2) by (auto simp: assignEgressIPs_def split: prod.splits)
    with assign_loop_inv [OF assms(1) ex ks, of "[]"] show ?thesis by simp
  qed
qed


section \<open>Every run keeps the invariant\<close>

lemma set_fold_insert [simp]: "set (fold set_insert xs ys) = set xs \<union> set ys"
  by (induction xs arbitrary: ys) (auto simp: set_insert_def)

lemma distinct_fold_insert: "distinct ys \<Longrightarrow> distinct (fold set_insert xs ys)"
  by (induction xs arbitrary: ys) (auto simp: set_insert_def)

lemma send_cache [simp]: "ct_cache (snd (send e r c)) = ct_cache c" "ct_pending (snd (send e r c)) = ct_pending c"
  by (simp_all add: send_def)

lemma patch_cache [simp]:
  "ct_cache (snd (patchReplaceEgressIPStatus e nm items c)) = ct_cache c"
  "ct_pending (snd (patchReplaceEgressIPStatus e nm items c)) = ct_pending c"
  by (simp_all add: patchReplaceEgressIPStatus_def)

lemma execute_op_cache [simp]: "ct_cache (snd (execute_op e nm x opr c)) = ct_cache c"
  by (auto simp: execute_op_def Let_def split: sum.splits api_error.splits)

lemma executeOps_cache [simp]: "ct_cache (snd (executeCloudPrivateIPConfigOps e nm ops c)) = ct_cache c"
proof (induction ops arbitrary: c)
  case (Cons a ops)
  obtain x opr where a: "a = (x, opr)" by (cases a)
  obtain r c1 where r: "execute_op e nm x opr c = (r, c1)" by (cases "execute_op e nm x opr c")
  then have "ct_cache c1 = ct_cache c" using execute_op_cache [of e nm x opr c] by simp
  then show ?case using Cons [of c1] a r by (cases r) auto
qed simp

lemma executeChange_cache [simp]:
  "ct_cache (snd (executeCloudPrivateIPConfigChange e nm toAssign toRemove c)) = ct_cache c"
  by (simp add: executeCloudPrivateIPConfigChange_def Let_def)

lemma remove_stale_inv:
  "cache_inv c \<Longrightarrow> remove_stale nm xs c removed = (c', removed') \<Longrightarrow> cache_inv c' \<and> skeleton c' = skeleton c"
proof (induction xs arbitrary: c removed)
  case (Cons x xs)
  obtain k c1 where k: "deleteAllocatorEgressIPAssignmentIfExists nm x c = (k, c1)"
    by (cases "deleteAllocatorEgressIPAssignmentIfExists nm x c")
  then have "cache_inv c1" "skeleton c1 = skeleton c" using deleteIfExists_inv [OF Cons.prems(1), of nm x] by auto
  then show ?case using Cons k by auto
qed simp

lemma assign_planned_inv:
  assumes "cache_inv c" and "assign_planned e p c = (items, c')"
  shows "cache_inv c' \<and> skeleton c' = skeleton c \<and> (\<forall>s\<in>set items. in_service c (si_Node s))"
  using assms assignEgressIPs_inv by (auto simp: assign_planned_def split: if_splits)

lemma valid_status_in_service: "valid_status e nm c s \<Longrightarrow> in_service c (si_Node s)"
  by (auto simp: valid_status_def in_service_def split: option.splits)

lemma reconcile_plan_keep:
  assumes "reconcile_plan e old new c = Inr p" and "s \<in> set (pl_keep p)"
  shows "in_service c (si_Node s)"
  using assms valid_status_in_service
  by (auto simp: reconcile_plan_def validateEgressIPStatus_def Let_def split: sum.splits)

lemma add_kept_inv:
  assumes "cache_inv c1" and "skeleton c1 = skeleton c" and "assign_planned e p c1 = (toAdd, c2)"
    and "\<forall>s\<in>set (pl_keep p). in_service c (si_Node s)"
  shows "cache_inv (addAllocatorEgressIPAssignments (pl_name p) (pl_keep p @ toAdd) c2)"
proof -
  note a = assign_planned_inv [OF assms(1,3)]
  have "in_service c2 k \<longleftrightarrow> in_service c1 k" "in_service c1 k \<longleftrightarrow> in_service c k" for k
    using in_service_skeleton [of c2 c1] in_service_skeleton [of c1 c] a assms(2) by blast+
  then have "\<forall>s\<in>set (pl_keep p @ toAdd). in_service c2 (si_Node s)" using a assms(4) by auto
  then show ?thesis using addAllocator_inv a by blast
qed

lemma reconcile_baremetal_inv:
  assumes "cache_inv (ct_cache c)" and "\<forall>s\<in>set (pl_keep p). in_service (ct_cache c) (si_Node s)"
  shows "cache_inv (ct_cache (snd (reconcile_baremetal e b p c)))"
proof -
  define c1 where "c1 = (if pl_remove p \<noteq> [] then deleteAllocatorEgressIPAssignments (pl_remove p) (ct_cache c) else ct_cache c)"
  have "cache_inv c1" "skeleton c1 = skeleton (ct_cache c)"
    using deleteAllocator_inv [OF assms(1)] assms(1) by (auto simp: c1_def)
  moreover obtain toAdd c2 where a: "assign_planned e p c1 = (toAdd, c2)" by (cases "assign_planned e p c1")
  ultimately have "cache_inv (addAllocatorEgressIPAssignments (pl_name p) (pl_keep p @ toAdd) c2)"
    using add_kept_inv [OF _ _ a assms(2)] by simp
  then show ?thesis unfolding reconcile_baremetal_def Let_def c1_def [symmetric] a by auto
qed

lemma reconcile_cloud_inv:
  assumes "cache_inv (ct_cache c)" and "\<forall>s\<in>set (pl_keep p). in_service (ct_cache c) (si_Node s)"
  shows "cache_inv (ct_cache (snd (reconcile_cloud e b p c)))"
proof -
  define c1 where "c1 = (if pl_remove p \<noteq> [] then c\<lparr>ct_cache := deleteAllocatorEgressIPAssignments (pl_remove p) (ct_cache c)\<rparr> else c)"
  have c1: "cache_inv (ct_cache c1)" "skeleton (ct_cache c1) = skeleton (ct_cache c)"
    using deleteAllocator_inv [OF assms(1)] assms(1) by (auto simp: c1_def)
  define r where "r = (if pl_remove p \<noteq> [] \<and> b then patchReplaceEgressIPStatus e (pl_name p) (pl_keep p) c1 else (None, c1))"
  obtain err c2 where r2: "r = (err, c2)" by (cases r)
  have c2: "ct_cache c2 = ct_cache c1"
    using arg_cong [OF r2, of "\<lambda>q. ct_cache (snd q)"] unfolding r_def by (simp split: if_splits)
  define stale where "stale = filter (\<lambda>x. x \<notin> si_EgressIP ` set (pl_remove p)) (pl_stale p)"
  obtain c3 removed where c3: "remove_stale (pl_name p) (en_order e stale) (ct_cache c2) (pl_remove p) = (c3, removed)"
    by (cases "remove_stale (pl_name p) (en_order e stale) (ct_cache c2) (pl_remove p)")
  have c3i: "cache_inv c3" "skeleton c3 = skeleton (ct_cache c)" using remove_stale_inv [OF _ c3] c1 c2 by auto
  obtain toAdd c4 where c4: "assign_planned e p c3 = (toAdd, c4)" by (cases "assign_planned e p c3")
  have e: "reconcile_cloud e b p c = (if err \<noteq> None then (err, c2)
      else executeCloudPrivateIPConfigChange e (pl_name p) toAdd removed
             (c2\<lparr>ct_cache := addAllocatorEgressIPAssignments (pl_name p) (pl_keep p @ toAdd) c4\<rparr>))"
    unfolding reconcile_cloud_def Let_def c1_def [symmetric] r_def [symmetric] stale_def [symmetric] r2
    by (simp add: c3 c4)
  show ?thesis unfolding e using c1 c2 add_kept_inv [OF c3i c4 assms(2)] by simp
qed

lemma reconcileEgressIP_inv:
  assumes "cache_inv (ct_cache c)"
  shows "cache_inv (ct_cache (snd (reconcileEgressIP e old new c)))"
proof (cases "reconcile_plan e old new (ct_cache c)")
  case (Inr p)
  then show ?thesis
    using reconcile_plan_keep [OF Inr] reconcile_baremetal_inv [OF assms] reconcile_cloud_inv [OF assms]
    by (simp add: reconcileEgressIP_def)
qed (use assms in \<open>simp add: reconcileEgressIP_def\<close>)

lemma reconcile_each_inv:
  "cache_inv (ct_cache c) \<Longrightarrow> cache_inv (ct_cache (snd (reconcile_each e xs c errs)))"
proof (induction xs arbitrary: c errs)
  case (Cons x xs)
  then show ?case using reconcileEgressIP_inv [OF Cons.prems, of e None "Some x"] by (auto split: prod.splits option.splits)
qed simp

lemma aggregate_snd [simp]: "snd (aggregate r) = snd r"
  by (simp add: aggregate_def split: prod.splits)

lemma node_updates_inv:
  assumes "cache_inv (ct_cache c)"
  shows "cache_inv (ct_cache (snd (addEgressNode e k c)))" "cache_inv (ct_cache (snd (deleteEgressNode e k c)))"
  using assms reconcile_each_inv by (auto simp: addEgressNode_def deleteEgressNode_def split: option.splits)

lemma reconcile_moved_inv:
  "cache_inv (ct_cache c) \<Longrightarrow> cache_inv (ct_cache (snd (reconcile_moved e node xs c errs)))"
proof (induction xs arbitrary: c errs)
  case (Cons a xs)
  obtain x s where a: "a = (x, s)" by (cases a)
  show ?case using Cons reconcileEgressIP_inv [OF Cons.prems, of e None "Some x"] unfolding a
    by (auto split: prod.splits option.splits sum.splits bool.splits)
qed simp

lemma reconcileNonOVN_inv:
  "cache_inv (ct_cache c) \<Longrightarrow> cache_inv (ct_cache (snd (reconcileNonOVNNetworkEIPs e node c)))"
  using reconcile_moved_inv by (auto simp: reconcileNonOVNNetworkEIPs_def split: option.splits)

lemma follow_up_inv: "cache_inv (ct_cache c) \<Longrightarrow> cache_inv (ct_cache (follow_up e xs c))"
  by (induction e xs c rule: follow_up.induct) (auto simp: node_updates_inv)

lemma probe_inv: "cache_inv c \<Longrightarrow> cache_inv (map (\<lambda>(k, n). (k, probe_node e n)) c)"
proof -
  assume "cache_inv c"
  moreover have f: "map fst (map (\<lambda>(k, n). (k, probe_node e n)) c) = map fst c" by (induction c) auto
  ultimately show ?thesis unfolding cache_inv_def f by (auto simp: node_ok_def probe_node_def)
qed

lemma resync_each_inv: "cache_inv (ct_cache c) \<Longrightarrow> cache_inv (ct_cache (snd (resync_each e xs c)))"
proof (induction xs arbitrary: c)
  case (Cons x xs)
  then show ?case using reconcileEgressIP_inv [OF Cons.prems, of e None "Some x"] by (auto split: prod.splits option.splits)
qed simp

lemma removePending_cache: "ct_cache (snd (removePendingOpsAndGetResyncs e nm x c)) = ct_cache c"
  by (simp add: removePendingOpsAndGetResyncs_def Let_def split: option.splits)

lemma outcome_state: "Some (err, c) = Some r \<Longrightarrow> c = snd r"
  by auto

lemma cloud_deleted_inv:
  assumes "cache_inv (ct_cache c)"
  shows "cache_inv (ct_cache (snd (snd (cloud_deleted e old nd c))))"
proof (cases "cp_Owner old")
  case (Some nm)
  define x where "x = cloudPrivateIPConfigNameToIPString (cp_Name old)"
  define patched where "patched = (case en_eip e (ct_log c) nm of
                  Inl ApiNotFound \<Rightarrow> (None, c)
                | Inl ApiOther \<Rightarrow> (Some (GetFailed nm), c)
                | Inr y \<Rightarrow> patchReplaceEgressIPStatus e (eip_Name y)
                    (filter (\<lambda>s. s \<noteq> \<lparr>si_Node = nd, si_EgressIP = x, si_Network = []\<rparr>) (eip_Status y)) c)"
  obtain r c1 where r: "patched = (r, c1)" by (cases patched)
  have "ct_cache (snd patched) = ct_cache c"
    unfolding patched_def by (simp split: sum.splits api_error.splits)
  then have c1: "cache_inv (ct_cache c1)" using r assms by simp
  obtain q c2 where q: "removePendingOpsAndGetResyncs e nm x c1 = (q, c2)"
    by (cases "removePendingOpsAndGetResyncs e nm x c1")
  have c2: "cache_inv (ct_cache c2)" using removePending_cache [of e nm x c1] q c1 by simp
  have "snd (snd (cloud_deleted e old nd c)) =
      (case r of Some err \<Rightarrow> c1 | None \<Rightarrow> (case q of Inl err \<Rightarrow> c2 | Inr resyncs \<Rightarrow> snd (resync_each e resyncs c2)))"
    unfolding cloud_deleted_def Some Let_def option.case x_def [symmetric] patched_def [symmetric] r
    by (simp add: q split: option.splits sum.splits prod.splits)
  then show ?thesis using c1 c2 resync_each_inv by (simp split: option.splits sum.splits)
qed (use assms in \<open>simp add: cloud_deleted_def\<close>)

lemma cloud_added_inv:
  assumes "cache_inv (ct_cache c)"
  shows "cache_inv (ct_cache (snd (cloud_added e new c)))"
  using assms
  by (auto simp: cloud_added_def Let_def patchReplaceEgressIPStatus_def send_def split: option.splits sum.splits)

lemma reconcileCloud_inv:
  assumes "cache_inv (ct_cache c)" and "reconcileCloudPrivateIPConfig e old new c = Some (err, c')"
  shows "cache_inv (ct_cache c')"
proof -
  obtain d a nd where dec: "cloud_decision old new = Some (d, a, nd)"
    using assms(2) by (cases "cloud_decision old new") (auto simp: reconcileCloudPrivateIPConfig_def)
  define q where "q = (if d then cloud_deleted e (the old) nd c else (True, (None, c)))"
  have q: "cache_inv (ct_cache (snd (snd q)))" using cloud_deleted_inv [OF assms(1)] assms(1) by (simp add: q_def)
  have "c' = c \<or> c' = snd (snd q) \<or> c' = snd (cloud_added e (the new) (snd (snd q)))"
    using assms(2) unfolding reconcileCloudPrivateIPConfig_def dec option.case prod.case Let_def q_def [symmetric]
    by (auto split: prod.splits bool.splits if_splits)
  then show ?thesis using assms(1) q cloud_added_inv by auto
qed

lemma init_logged_inv: "cache_inv (ct_cache c) \<Longrightarrow> init_logged e node c = Some c' \<Longrightarrow> cache_inv (ct_cache c')"
  using initEgressIPAllocator_inv by (fastforce simp: init_logged_def split: option.splits sum.splits)

lemma update_cache_cache [simp]: "ct_cache (update_cache f c) = f (ct_cache c)"
  by (simp add: update_cache_def)

lemma add_egress_node_inv:
  assumes "cache_inv (ct_cache c)" and "add_egress_node e node c = Some (err, c')"
  shows "cache_inv (ct_cache c')"
proof -
  obtain c1 where c1: "init_logged e node c = Some c1"
    using assms(2) by (cases "init_logged e node c") (auto simp: add_egress_node_def)
  define c2 where "c2 = (if hasEgressLabel node then update_cache (setNodeEgressAssignable (kn_Name node) True) c1 else c1)"
  define c3 where "c3 = (if isEgressNodeReady node then update_cache (setNodeEgressReady (kn_Name node) True) c2 else c2)"
  have c3: "cache_inv (ct_cache c3)"
    using init_logged_inv [OF assms(1) c1] by (simp add: c2_def c3_def cache_inv_flags)
  have "c' = c3 \<or> c' = snd (addEgressNode e (kn_Name node) (update_cache (setNodeEgressReachable (kn_Name node) True) c3))"
    using assms(2) unfolding add_egress_node_def c1 Let_def c2_def c3_def
    by (simp split: if_splits)
  then show ?thesis using c3 node_updates_inv(1) by (auto simp: cache_inv_flags)
qed

lemma update_labelled_node_inv:
  assumes "cache_inv (ct_cache c)"
  shows "cache_inv (ct_cache (snd (update_labelled_node e oldNode newNode b c)))"
proof -
  define r where "r = (if \<not> isEgressNodeReady newNode then deleteEgressNode e (kn_Name newNode) c
      else if b then addEgressNode e (kn_Name newNode) (update_cache (setNodeEgressReachable (kn_Name newNode) b) c)
      else (None, c))"
  have r: "cache_inv (ct_cache (snd r))" using assms by (simp add: r_def node_updates_inv cache_inv_flags)
  show ?thesis unfolding update_labelled_node_def Let_def r_def [symmetric]
    using assms r reconcileNonOVN_inv by (cases r) (auto split: option.splits)
qed

lemma update_egress_node_inv:
  assumes "cache_inv (ct_cache c)" and "update_egress_node e oldNode newNode c = Some (err, c')"
  shows "cache_inv (ct_cache c')"
proof -
  obtain c1 where c1: "init_logged e newNode c = Some c1"
    using assms(2) by (cases "init_logged e newNode c") (auto simp: update_egress_node_def)
  have i1: "cache_inv (ct_cache c1)" using init_logged_inv [OF assms(1) c1] .
  define nm where "nm = kn_Name newNode"
  define c2 where "c2 = update_cache (setNodeEgressAssignable nm (hasEgressLabel newNode)) c1"
  define c3 where "c3 = update_cache (setNodeEgressReady nm (isEgressNodeReady newNode)) c2"
  define b where "b = isEgressNodeReachable e nm (ct_cache c2)"
  have i: "cache_inv (ct_cache c2)" "cache_inv (ct_cache c3)" using i1 by (simp_all add: c2_def c3_def cache_inv_flags)
  have "Some (err, c') = Some (if \<not> hasEgressLabel oldNode \<and> \<not> hasEgressLabel newNode then (None, c1)
      else if hasEgressLabel oldNode \<and> \<not> hasEgressLabel newNode then deleteEgressNode e (kn_Name oldNode) c2
      else if \<not> hasEgressLabel oldNode \<and> hasEgressLabel newNode
      then if isEgressNodeReady newNode \<and> b then addEgressNode e nm (update_cache (setNodeEgressReachable nm b) c3)
           else (None, c3)
      else update_labelled_node e oldNode newNode b c3)"
    using assms(2) unfolding update_egress_node_def c1 Let_def nm_def b_def c3_def c2_def option.map
    by (simp only: option.inject)
  then have "c' = snd (if \<not> hasEgressLabel oldNode \<and> \<not> hasEgressLabel newNode then (None, c1)
      else if hasEgressLabel oldNode \<and> \<not> hasEgressLabel newNode then deleteEgressNode e (kn_Name oldNode) c2
      else if \<not> hasEgressLabel oldNode \<and> hasEgressLabel newNode
      then if isEgressNodeReady newNode \<and> b then addEgressNode e nm (update_cache (setNodeEgressReachable nm b) c3)
           else (None, c3)
      else update_labelled_node e oldNode newNode b c3)"
    by (rule outcome_state)
  then show ?thesis using i1 i by (simp add: node_updates_inv update_labelled_node_inv cache_inv_flags)
qed

lemma sync_statuses_cache: "ct_cache (snd (sync_statuses e known xs c)) = ct_cache c"
proof (induction xs arbitrary: c)
  case (Cons x xs)
  define r where "r = (if length (filter (\<lambda>s. known (ipStringToCloudPrivateIPConfigName (si_EgressIP s)) \<noteq> None) (eip_Status x))
      \<noteq> length (eip_Status x)
    then patchReplaceEgressIPStatus e (eip_Name x)
      (filter (\<lambda>s. known (ipStringToCloudPrivateIPConfigName (si_EgressIP s)) \<noteq> None) (eip_Status x)) c else (None, c))"
  have "ct_cache (snd r) = ct_cache c" by (simp add: r_def)
  then show ?case unfolding sync_statuses.simps Let_def r_def [symmetric]
    using Cons by (cases r) (auto split: option.splits)
qed simp

lemma reconcile_outcome_inv:
  "cache_inv (ct_cache c) \<Longrightarrow> reconcileEgressIP e old new c = (err, c') \<Longrightarrow> cache_inv (ct_cache c')"
  using reconcileEgressIP_inv [of c e old new] by simp

lemma AddResource_inv:
  assumes "cache_inv (ct_cache c)" and "AddResource e r c = Some (err, c')"
  shows "cache_inv (ct_cache c')"
proof (cases r)
  case (ANode node)
  then show ?thesis using add_egress_node_inv [OF assms(1)] assms(2) by simp
next
  case (AnEgressIP x)
  then show ?thesis using reconcile_outcome_inv [OF assms(1)] assms(2) by simp
next
  case (ACloudPrivateIPConfig x)
  then show ?thesis using reconcileCloud_inv [OF assms(1)] assms(2) by simp
qed

lemma UpdateResource_inv:
  assumes "cache_inv (ct_cache c)" and "UpdateResource e r r' c = Some (err, c')"
  shows "cache_inv (ct_cache c')"
  using assms(2)
  by (cases r; cases r'; simp; blast intro: update_egress_node_inv [OF assms(1)]
        reconcile_outcome_inv [OF assms(1)] reconcileCloud_inv [OF assms(1)])

lemma DeleteResource_inv:
  assumes "cache_inv (ct_cache c)" and "DeleteResource e r c = Some (err, c')"
  shows "cache_inv (ct_cache c')"
proof (cases r)
  case (ANode node)
  define c1 where "c1 = update_cache (deleteNodeForEgress (kn_Name node)) c"
  have i: "cache_inv (ct_cache c1)" using assms(1) by (simp add: c1_def cache_inv_flags)
  have "c' = snd (if hasEgressLabel node then deleteEgressNode e (kn_Name node) c1 else (None, c1))"
    using outcome_state [OF assms(2) [symmetric, unfolded ANode DeleteResource.simps Let_def]] by (simp add: c1_def)
  then show ?thesis using i by (simp add: node_updates_inv)
next
  case (AnEgressIP x)
  then show ?thesis using reconcile_outcome_inv [OF assms(1)] assms(2) by simp
next
  case (ACloudPrivateIPConfig x)
  then show ?thesis using reconcileCloud_inv [OF assms(1)] assms(2) by simp
qed

lemma egress_step_inv: "egress_step c c' \<Longrightarrow> cache_inv (ct_cache c) \<Longrightarrow> cache_inv (ct_cache c')"
proof (induction rule: egress_step.induct)
  case (check c e)
  then show ?case by (simp add: checkEgressNodesReachabilityIterate_def follow_up_inv probe_inv)
next
  case (sync e objs c err c')
  then have "ct_cache c' = ct_cache c"
    using sync_statuses_cache [of e "getCloudPrivateIPConfigMap objs" _ c]
    by (auto simp: syncCloudPrivateIPConfigs_def split: if_splits option.splits) (metis snd_conv)
  then show ?case using sync by simp
next
  case (reorder cache c)
  then have "set cache = set (ct_cache c)" "distinct (map fst cache)"
    by (metis mset_eq_setD, metis cache_inv_def mset_eq_imp_distinct_iff mset_map)
  then show ?case using reorder by (simp add: cache_inv_def)
qed (auto intro: AddResource_inv UpdateResource_inv DeleteResource_inv)



section \<open>A run of the controller\<close>

definition example_node_doc :: "string \<Rightarrow> string \<Rightarrow> string \<Rightarrow> Node" where
  "example_node_doc nm addr subnet = \<lparr>node_Name = nm,
     node_docs = [ovnNodeIfAddr \<mapsto> Some (JObject [(''ipv4'', JString addr)]),
       ovnNodeHostAddresses \<mapsto> Some (JArray [JString addr]),
       ovnNodeSubnets \<mapsto> Some (JObject [(''default'', JArray [JString subnet])])],
     node_texts = Map.empty\<rparr>"

definition example_node1 :: Node where
  "example_node1 = example_node_doc ''node1'' ''192.168.1.10/24'' ''10.128.0.0/23''"

definition example_kube_node :: KubeNode where
  "example_kube_node = \<lparr>kn_node = example_node1, kn_Labels = [ovnNodeEgressLabel \<mapsto> []],
     kn_Conditions = [(''Ready'', ''True'')], kn_hostAddresses = []\<rparr>"

definition example_env :: environment where
  "example_env = \<lparr>en_cloud = False, en_lpm = (\<lambda>_ _. None), en_nodes = Some [example_node1],
     en_node = [''node1'' \<mapsto> example_node1], en_cpic = (\<lambda>_. Inl ApiNotFound), en_timeout = 0,
     en_probe = (\<lambda>_ _. False), en_ok = (\<lambda>_ _. True), en_eips = (\<lambda>_. Some []),
     en_eip = (\<lambda>_ _. Inl ApiNotFound), en_order = id\<rparr>"

definition example_eip :: "string \<Rightarrow> EgressIP" where
  "example_eip x = \<lparr>eip_Name = ''egress'', eip_Spec = [x], eip_Status = []\<rparr>"

definition example_item :: EgressIPStatusItem where
  "example_item = \<lparr>si_Node = ''node1'', si_EgressIP = ''192.168.1.100'', si_Network = ''192.168.1.0/24''\<rparr>"

text \<open>The cache with the node in service, holding the given allocations.\<close>

definition example_cache :: "(string \<times> string) list \<Rightarrow> node_cache" where
  "example_cache al = [(''node1'', \<lparr>eg_config = \<lparr>pec_V4 = \<lparr>pif_IP = [0,0,0,0,0,0,0,0,0,0,255,255,192,168,1,10],
       pif_Net = Some \<lparr>IP = [192,168,1,0], Mask = [255,255,255,0]\<rparr>\<rparr>, pec_V6 = noIFAddr, pec_Capacity = unlimited\<rparr>,
     eg_mgmtIPs = [[10,128,0,2]], eg_allocations = al, eg_isReady = True, eg_isReachable = True,
     eg_isEgressAssignable = True, eg_name = ''node1''\<rparr>)]"

lemma example_node_added:
  "AddResource example_env (ANode example_kube_node) initial_controller =
     Some (None, initial_controller\<lparr>ct_cache := example_cache []\<rparr>)"
  unfolding example_env_def example_kube_node_def example_node1_def example_node_doc_def initial_controller_def example_cache_def
  by code_simp

lemma example_eip_added:
  "AddResource example_env (AnEgressIP (example_eip ''192.168.1.100'')) \<lparr>ct_cache = example_cache [], ct_pending = [], ct_log = []\<rparr> =
     Some (None, \<lparr>ct_cache = example_cache [(''192.168.1.100'', ''egress'')], ct_pending = [],
       ct_log = [PatchStatus ''egress'' [example_item]]\<rparr>)"
  unfolding example_env_def example_node1_def example_node_doc_def example_cache_def example_eip_def example_item_def
  by code_simp



end
