(* ===== verification/Egress_Constraints.thy ===== *)
theory Egress_Constraints
  imports Egress_Assignment
begin

text \<open>
  What an assignment of egress addresses guarantees (\<open>assignEgressIPs\<close> of
  \<open>pkg/clustermanager/egressip_controller.go\<close>): the hard constraints that the comment of the function
  lists, the choice of the least loaded node, and the limits of both: the same address written in two
  ways is assigned twice.
\<close>

section \<open>The hard constraints\<close>

abbreviation allocate :: "string \<Rightarrow> string \<Rightarrow> egressNode \<Rightarrow> egressNode" where
  "allocate x nm n \<equiv> n\<lparr>eg_allocations := AList.update x nm (eg_allocations n)\<rparr>"

text \<open>An address is on at most one node; an object has at most one address per node.\<close>

definition exclusive :: "node_cache \<Rightarrow> bool" where
  "exclusive c \<longleftrightarrow> (\<forall>k n k' n' x. map_of c k = Some n \<longrightarrow> map_of c k' = Some n' \<longrightarrow>
     map_of (eg_allocations n) x \<noteq> None \<longrightarrow> map_of (eg_allocations n') x \<noteq> None \<longrightarrow> k = k')"

definition one_per_node :: "node_cache \<Rightarrow> string \<Rightarrow> bool" where
  "one_per_node c nm \<longleftrightarrow> (\<forall>k n. map_of c k = Some n \<longrightarrow> getAllocationCountForEgressIP n nm \<le> 1)"

lemma update_fresh: "map_of al x = None \<Longrightarrow> AList.update x v al = al @ [(x, v)]"
  by (induction al) auto

lemma count_allocate_pos: "0 < getAllocationCountForEgressIP (allocate x nm n) nm"
proof -
  have "map_of (AList.update x nm (eg_allocations n)) x = Some nm" by (simp add: update_conv')
  then have "(x, nm) \<in> set (filter (\<lambda>(_, v). v = nm) (AList.update x nm (eg_allocations n)))"
    using map_of_SomeD by fastforce
  then show ?thesis by (auto simp: getAllocationCountForEgressIP_def simp del: set_filter intro: length_pos_if_in_set)
qed

lemma count_pos: "map_of (eg_allocations n) x = Some nm \<Longrightarrow> 0 < getAllocationCountForEgressIP n nm"
proof -
  assume "map_of (eg_allocations n) x = Some nm"
  then have "(x, nm) \<in> set (filter (\<lambda>(_, v). v = nm) (eg_allocations n))" using map_of_SomeD by fastforce
  then show ?thesis by (auto simp: getAllocationCountForEgressIP_def simp del: set_filter intro: length_pos_if_in_set)
qed

lemma count_two:
  assumes "map_of (eg_allocations n) x = Some nm" and "map_of (eg_allocations n) y = Some nm"
    and "getAllocationCountForEgressIP n nm \<le> 1"
  shows "x = y"
proof -
  let ?f = "filter (\<lambda>(_, v). v = nm) (eg_allocations n)"
  have in1: "(x, nm) \<in> set ?f" "(y, nm) \<in> set ?f" using map_of_SomeD [OF assms(1)] map_of_SomeD [OF assms(2)] by auto
  have "length ?f \<le> 1" using assms(3) by (simp only: getAllocationCountForEgressIP_def)
  then have "length ?f = 1" using length_pos_if_in_set [OF in1(1)] by linarith
  then obtain a where "?f = [a]" by (auto simp: length_Suc_conv)
  then show ?thesis using in1 by auto
qed

lemma node_can_host_count: "node_can_host e nm x n = Some w \<Longrightarrow> getAllocationCountForEgressIP n nm = 0"
  by (auto simp: node_can_host_def Let_def split: if_splits)

lemma node_can_host_network:
  assumes "node_can_host e nm x n = Some w"
  shows "\<exists>node. en_node e (eg_name n) = Some node \<and> GetEgressIPNetwork (en_lpm e) node x = Inr w \<and> w \<noteq> []"
  using assms by (auto simp: node_can_host_def Let_def split: if_splits option.splits sum.splits)

lemma node_can_host_capacity:
  assumes "node_can_host e nm x n = Some w"
  shows "\<not> exhausted (cap_IP (pec_Capacity (eg_config n))) (length (eg_allocations n))"
    "IsIPv4 x \<Longrightarrow> \<not> exhausted (cap_IPv4 (pec_Capacity (eg_config n))) (getIPFamilyAllocationCount (eg_allocations n) False)"
    "IsIPv6 x \<Longrightarrow> \<not> exhausted (cap_IPv6 (pec_Capacity (eg_config n))) (getIPFamilyAllocationCount (eg_allocations n) True)"
  using assms by (auto simp: node_can_host_def Let_def split: if_splits option.splits sum.splits)

text \<open>How an address of the request was handled: a fresh assignment on a node of the original cache, or
  an assignment that the object had.\<close>

definition fresh_item ::
  "environment \<Rightarrow> string \<Rightarrow> node_cache \<Rightarrow> string set \<Rightarrow> EgressIPStatusItem \<Rightarrow> egressNode \<Rightarrow> bool" where
  "fresh_item e nm c0 ips i n \<longleftrightarrow>
     (\<exists>s\<in>ips. si_EgressIP i = IP_String (ParseIP s) \<and> isEgressIPAddrConflict e (ParseIP s) = Inr None
       \<and> snd (getSortedEgressData c0) (IP_String (ParseIP s)) = None
       \<and> map_of c0 (si_Node i) = Some n \<and> usable n \<and> node_can_host e nm (ParseIP s) n = Some (si_Network i))"

definition reused_item ::
  "environment \<Rightarrow> string \<Rightarrow> node_cache \<Rightarrow> string set \<Rightarrow> EgressIPStatusItem \<Rightarrow> bool" where
  "reused_item e nm c0 ips i \<longleftrightarrow>
     (\<exists>s\<in>ips. \<exists>st. si_EgressIP i = IP_String (ParseIP s) \<and> isEgressIPAddrConflict e (ParseIP s) = Inr None
       \<and> snd (getSortedEgressData c0) (IP_String (ParseIP s)) = Some st \<and> ns_Name st = nm
       \<and> reuse_assignment e (ParseIP s) st = Some i)"

definition assigned_so_far ::
  "environment \<Rightarrow> string \<Rightarrow> node_cache \<Rightarrow> string set \<Rightarrow> node_cache \<Rightarrow> EgressIPStatusItem list \<Rightarrow> bool" where
  "assigned_so_far e nm c0 ips c acc \<longleftrightarrow>
     (\<forall>k. map_of c0 k = None \<longrightarrow> map_of c k = None)
   \<and> (\<forall>k n. map_of c0 k = Some n \<longrightarrow> map_of c k = Some n
        \<or> (\<exists>i\<in>set acc. si_Node i = k \<and> fresh_item e nm c0 ips i n \<and> map_of c k = Some (allocate (si_EgressIP i) nm n)))
   \<and> (\<forall>i\<in>set acc. reused_item e nm c0 ips i
        \<or> (\<exists>n. fresh_item e nm c0 ips i n \<and> map_of c (si_Node i) = Some (allocate (si_EgressIP i) nm n)))
   \<and> distinct (map si_EgressIP acc)
   \<and> (one_per_node c0 nm \<longrightarrow> distinct (map si_Node acc))"

lemma reused_itemD:
  assumes "cache_inv c0" and "reused_item e nm c0 ips i"
  shows "\<exists>n. map_of c0 (si_Node i) = Some n \<and> map_of (eg_allocations n) (si_EgressIP i) = Some nm"
    and "\<exists>s\<in>ips. \<exists>node. si_EgressIP i = IP_String (ParseIP s) \<and> isEgressIPAddrConflict e (ParseIP s) = Inr None
       \<and> en_node e (si_Node i) = Some node
       \<and> GetEgressIPNetwork (en_lpm e) node (ParseIP s) = Inr (si_Network i) \<and> si_Network i \<noteq> []"
proof -
  obtain s st where s: "s \<in> ips" "si_EgressIP i = IP_String (ParseIP s)"
      "snd (getSortedEgressData c0) (IP_String (ParseIP s)) = Some st" "ns_Name st = nm"
      "reuse_assignment e (ParseIP s) st = Some i" "isEgressIPAddrConflict e (ParseIP s) = Inr None"
    using assms(2) unfolding reused_item_def by blast
  have i: "si_Node i = ns_Node st"
    using s(5) by (auto simp: reuse_assignment_def split: option.splits sum.splits if_splits)
  show "\<exists>n. map_of c0 (si_Node i) = Some n \<and> map_of (eg_allocations n) (si_EgressIP i) = Some nm"
    using existing_SomeD [OF assms(1) s(3)] s i by simp
  show "\<exists>s\<in>ips. \<exists>node. si_EgressIP i = IP_String (ParseIP s) \<and> isEgressIPAddrConflict e (ParseIP s) = Inr None
       \<and> en_node e (si_Node i) = Some node
       \<and> GetEgressIPNetwork (en_lpm e) node (ParseIP s) = Inr (si_Network i) \<and> si_Network i \<noteq> []"
    using s(1,2,5,6) by (intro bexI [of _ s]) (auto simp: reuse_assignment_def split: option.splits sum.splits if_splits)
qed

lemma fresh_itemD:
  assumes "cache_inv c0" and "fresh_item e nm c0 ips i n"
  shows "map_of c0 (si_Node i) = Some n" "usable n" "getAllocationCountForEgressIP n nm = 0"
    "map_of c0 k = Some m \<Longrightarrow> map_of (eg_allocations m) (si_EgressIP i) = None"
    "eg_name n = si_Node i"
proof -
  from assms(2) obtain s where s: "si_EgressIP i = IP_String (ParseIP s)"
      "snd (getSortedEgressData c0) (IP_String (ParseIP s)) = None" "map_of c0 (si_Node i) = Some n" "usable n"
      "node_can_host e nm (ParseIP s) n = Some (si_Network i)"
    unfolding fresh_item_def by blast
  then show "map_of c0 (si_Node i) = Some n" "usable n" "getAllocationCountForEgressIP n nm = 0"
    using node_can_host_count by auto
  show "map_of (eg_allocations m) (si_EgressIP i) = None" if "map_of c0 k = Some m"
    using existing_NoneD [OF assms(1) s(2) that] s(1) by simp
  show "eg_name n = si_Node i" using cache_inv_lookup(2) [OF assms(1) s(3)] by (simp add: node_ok_def)
qed

lemma item_node_disjoint:
  assumes "cache_inv c0" and "fresh_item e nm c0 ips i n" and "reused_item e nm c0 ips' j"
  shows "si_Node i \<noteq> si_Node j"
  using fresh_itemD(1,3) [OF assms(1,2)] reused_itemD(1) [OF assms(1,3)] count_pos by force


text \<open>The facts depend on the addresses handled so far only through membership.\<close>

lemma item_mono:
  "fresh_item e nm c0 ips i n \<Longrightarrow> ips \<subseteq> ips' \<Longrightarrow> fresh_item e nm c0 ips' i n"
  "reused_item e nm c0 ips i \<Longrightarrow> ips \<subseteq> ips' \<Longrightarrow> reused_item e nm c0 ips' i"
  unfolding fresh_item_def reused_item_def by blast+

lemma assigned_mono:
  assumes "assigned_so_far e nm c0 ips c acc" and "ips \<subseteq> ips'"
  shows "assigned_so_far e nm c0 ips' c acc"
  using assms item_mono [OF _ assms(2)] unfolding assigned_so_far_def by blast

lemma assigned_address:
  assumes "assigned_so_far e nm c0 ips c acc" and "i \<in> set acc"
  shows "si_EgressIP i \<in> (\<lambda>s. IP_String (ParseIP s)) ` ips"
  using assms unfolding assigned_so_far_def fresh_item_def reused_item_def by blast

lemma assigned_node:
  assumes "assigned_so_far e nm c0 ips c acc" and "map_of c0 k = Some n"
  obtains (kept) "map_of c k = Some n"
  | (grown) i where "i \<in> set acc" "si_Node i = k" "fresh_item e nm c0 ips i n"
      "map_of c k = Some (allocate (si_EgressIP i) nm n)"
proof -
  have "map_of c k = Some n \<or> (\<exists>i\<in>set acc. si_Node i = k \<and> fresh_item e nm c0 ips i n
      \<and> map_of c k = Some (allocate (si_EgressIP i) nm n))"
    using assms unfolding assigned_so_far_def by simp
  then show ?thesis using kept grown by auto
qed

lemma assigned_reuse:
  assumes "cache_inv c0" and "assigned_so_far e nm c0 ips c acc" and "reused_item e nm c0 ips i"
    and "si_EgressIP i \<notin> si_EgressIP ` set acc"
  shows "assigned_so_far e nm c0 ips c (acc @ [i])"
proof -
  have "si_Node i \<notin> si_Node ` set acc" if one: "one_per_node c0 nm"
  proof
    assume "si_Node i \<in> si_Node ` set acc"
    then obtain j where j: "j \<in> set acc" "si_Node j = si_Node i" by auto
    show False
    proof (cases "reused_item e nm c0 ips j")
      case True
      have "si_EgressIP i = si_EgressIP j"
        using reused_itemD(1) [OF assms(1,3)] reused_itemD(1) [OF assms(1) True] j(2) count_two one
        unfolding one_per_node_def by (metis option.inject)
      then show False using assms(4) j(1) by (metis imageI)
    next
      case False
      then obtain n where "fresh_item e nm c0 ips j n" using assms(2) j(1) unfolding assigned_so_far_def by blast
      then show False using item_node_disjoint [OF assms(1) _ assms(3)] j(2) by blast
    qed
  qed
  then show ?thesis using assms(2-4) unfolding assigned_so_far_def by auto
qed

lemma assigned_fresh:
  assumes "cache_inv c0" and "assigned_so_far e nm c0 ips c acc" and "fresh_item e nm c0 ips i n"
    and "map_of c (si_Node i) = Some n" and "si_EgressIP i \<notin> si_EgressIP ` set acc"
  shows "assigned_so_far e nm c0 ips (on_node (si_Node i) (allocate (si_EgressIP i) nm) c) (acc @ [i])"
proof -
  let ?c = "on_node (si_Node i) (allocate (si_EgressIP i) nm) c"
  note f = fresh_itemD [OF assms(1,3)]
  note a = assms(2) [unfolded assigned_so_far_def]
  have new: "si_Node j \<noteq> si_Node i" if j: "j \<in> set acc" for j
  proof
    assume e: "si_Node j = si_Node i"
    show False
    proof (cases "reused_item e nm c0 ips j")
      case True
      then show False using item_node_disjoint [OF assms(1,3) True] e by simp
    next
      case False
      then obtain m where "map_of c (si_Node j) = Some (allocate (si_EgressIP j) nm m)" using a j by blast
      then have "n = allocate (si_EgressIP j) nm m" using assms(4) e by simp
      then show False using f(3) count_allocate_pos [of "si_EgressIP j" nm m] by simp
    qed
  qed
  show ?thesis unfolding assigned_so_far_def
  proof (intro conjI allI impI ballI)
    fix k assume "map_of c0 k = None"
    then show "map_of ?c k = None" using a by auto
  next
    fix k m assume m: "map_of c0 k = Some m"
    show "map_of ?c k = Some m \<or> (\<exists>j\<in>set (acc @ [i]). si_Node j = k \<and> fresh_item e nm c0 ips j m
        \<and> map_of ?c k = Some (allocate (si_EgressIP j) nm m))"
    proof (cases "k = si_Node i")
      case True
      then have "m = n" using f(1) m by simp
      then show ?thesis using True assms(3,4) by simp
    next
      case False
      then show ?thesis using a m by auto
    qed
  next
    fix j assume "j \<in> set (acc @ [i])"
    then show "reused_item e nm c0 ips j \<or> (\<exists>m. fresh_item e nm c0 ips j m
        \<and> map_of ?c (si_Node j) = Some (allocate (si_EgressIP j) nm m))"
      using a new assms(3,4) by auto
  next
    show "distinct (map si_EgressIP (acc @ [i]))" using a assms(5) by auto
  next
    assume "one_per_node c0 nm"
    moreover have "si_Node i \<notin> si_Node ` set acc" using new by force
    ultimately show "distinct (map si_Node (acc @ [i]))" using a by simp
  qed
qed

lemma assign_loop_assigned:
  assumes "cache_inv c0" and "assigned_so_far e nm c0 (set ds) c acc"
    and "\<forall>k\<in>set ks. \<exists>n. map_of c0 k = Some n \<and> usable n"
    and "distinct (map (\<lambda>s. IP_String (ParseIP s)) (ds @ ips))"
    and "assign_loop e nm (snd (getSortedEgressData c0)) ips ks c acc = (items, c')"
  shows "assigned_so_far e nm c0 (set (ds @ ips)) c' items"
  using assms(2-)
proof (induction ips arbitrary: ds ks c acc)
  case (Cons ip ips)
  let ?x = "ParseIP ip"
  have new: "x \<notin> si_EgressIP ` set acc" if "x = IP_String ?x" for x
    using assigned_address [OF Cons.prems(1)] Cons.prems(3) that by fastforce
  have sub: "set ds \<subseteq> set (ds @ [ip])" by auto
  note mono = assigned_mono [OF Cons.prems(1) sub]
  have ks: "\<forall>k\<in>set (restrict_nodes e ?x c ks). \<exists>n. map_of c0 k = Some n \<and> usable n"
    using Cons.prems(2) restrict_nodes_subset by blast
  have d: "distinct (map (\<lambda>s. IP_String (ParseIP s)) ((ds @ [ip]) @ ips))" using Cons.prems(3) by simp
  note IH = Cons.IH [OF _ _ d, simplified append_assoc append.simps]
  from Cons.prems(4) show ?case
  proof (cases rule: assign_loop_cases)
    case stop
    then show ?thesis using assigned_mono [OF Cons.prems(1), of "set (ds @ ip # ips)"] by auto
  next
    case (reuse st acc')
    have "assigned_so_far e nm c0 (set (ds @ [ip])) c acc'"
    proof (cases "acc' = acc")
      case True
      then show ?thesis using mono by simp
    next
      case False
      then obtain i where i: "acc' = acc @ [i]" "reuse_assignment e ?x st = Some i" using reuse(5) by blast
      then have x: "si_EgressIP i = IP_String ?x"
        by (auto simp: reuse_assignment_def split: option.splits sum.splits if_splits)
      have "reused_item e nm c0 (set (ds @ [ip])) i" unfolding reused_item_def using i(2) reuse(1,3,4) x by auto
      then show ?thesis unfolding i(1) using assigned_reuse [OF assms(1) mono] new [OF x] by simp
    qed
    then show ?thesis using IH [OF _ Cons.prems(2) reuse(2)] by simp
  next
    case full
    then show ?thesis using IH [OF mono ks] by simp
  next
    case (fresh i c1)
    from assign_on_nodes_SomeD [OF fresh(3)] obtain k m w where k: "k \<in> set (restrict_nodes e ?x c ks)" "map_of c k = Some m"
        "node_can_host e nm ?x m = Some w" "i = \<lparr>si_Node = eg_name m, si_EgressIP = IP_String ?x, si_Network = w\<rparr>"
        "c1 = on_node k (allocate (IP_String ?x) nm) c" by blast
    obtain n where n: "map_of c0 k = Some n" "usable n" using ks k(1) by blast
    have "m = n"
      using Cons.prems(1) n(1)
    proof (cases rule: assigned_node)
      case kept
      then show ?thesis using k(2) by simp
    next
      case (grown j)
      then have "m = allocate (si_EgressIP j) nm n" using k(2) by simp
      then show ?thesis using node_can_host_count [OF k(3)] count_allocate_pos [of "si_EgressIP j" nm n] by simp
    qed
    moreover have kn: "eg_name n = k" using cache_inv_lookup(2) [OF assms(1) n(1)] by (simp add: node_ok_def)
    ultimately have "fresh_item e nm c0 (set (ds @ [ip])) i n"
      unfolding fresh_item_def using n k fresh(1,2) by (intro bexI [of _ ip]) auto
    then have "assigned_so_far e nm c0 (set (ds @ [ip])) c1 (acc @ [i])"
      using assigned_fresh [OF assms(1) mono, of i n] new k \<open>m = n\<close> kn by simp
    then show ?thesis using IH [OF _ ks fresh(4)] by simp
  qed
qed simp


lemma assignEgressIPs_assigned:
  assumes "cache_inv c" and "distinct (map (\<lambda>s. IP_String (ParseIP s)) ips)"
    and "assignEgressIPs e nm ips c = (items, c')"
  shows "assigned_so_far e nm c (set ips) c' items"
proof -
  have start: "assigned_so_far e nm c {} c []" by (simp add: assigned_so_far_def)
  obtain ks ex where g: "getSortedEgressData c = (ks, ex)" by (cases "getSortedEgressData c")
  show ?thesis
  proof (cases "ks = []")
    case True
    then show ?thesis using assms(3) g assigned_mono [OF start, of "set ips"] by (simp add: assignEgressIPs_def)
  next
    case False
    then have "assign_loop e nm (snd (getSortedEgressData c)) ips ks c [] = (items, c')"
      using assms(3) g by (simp add: assignEgressIPs_def)
    moreover have "\<forall>k\<in>set ks. \<exists>n. map_of c k = Some n \<and> usable n" using assignable_nodes [OF assms(1)] g by simp
    ultimately show ?thesis using assign_loop_assigned [OF assms(1), of e nm "[]" c "[]" ks ips] start assms(2) by simp
  qed
qed

definition within_capacity :: "ip \<Rightarrow> egressNode \<Rightarrow> bool" where
  "within_capacity x n \<longleftrightarrow>
     (let cap = pec_Capacity (eg_config n); al = eg_allocations n
      in (cap_IP cap < UnlimitedNodeCapacity \<longrightarrow> int (length al) \<le> cap_IP cap)
       \<and> (IsIPv4 x \<longrightarrow> cap_IPv4 cap < UnlimitedNodeCapacity \<longrightarrow> int (getIPFamilyAllocationCount al False) \<le> cap_IPv4 cap)
       \<and> (IsIPv6 x \<longrightarrow> cap_IPv6 cap < UnlimitedNodeCapacity \<longrightarrow> int (getIPFamilyAllocationCount al True) \<le> cap_IPv6 cap))"

lemma family_count_append: "getIPFamilyAllocationCount (al @ [a]) b \<le> getIPFamilyAllocationCount al b + 1"
  by (simp add: getIPFamilyAllocationCount_def)

lemma within_capacity_grown:
  assumes "node_can_host e nm x n = Some w" and "map_of (eg_allocations n) y = None"
  shows "within_capacity x (allocate y nm n)"
  using node_can_host_capacity [OF assms(1)] family_count_append [of "eg_allocations n" "(y, nm)" False]
    family_count_append [of "eg_allocations n" "(y, nm)" True]
  unfolding within_capacity_def Let_def exhausted_def by (auto simp: update_fresh [OF assms(2)])

lemma addr_conflict_NoneD:
  "addr_conflict x nodes = Inr None \<Longrightarrow> nd \<in> set nodes \<Longrightarrow> \<exists>A. ParseNodeHostAddressesDropNetMask nd = Inr A \<and> IP_String x \<notin> A"
  by (induction nodes) (auto split: sum.splits if_splits)

lemma exclusive_assigned:
  assumes "cache_inv c0" and "exclusive c0" and "assigned_so_far e nm c0 ips c items"
  shows "exclusive c"
  unfolding exclusive_def
proof (intro allI impI)
  fix k n k' n' x
  assume m: "map_of c k = Some n" "map_of c k' = Some n'"
    and x: "map_of (eg_allocations n) x \<noteq> None" "map_of (eg_allocations n') x \<noteq> None"
  have cases: "\<exists>n0. map_of c0 k = Some n0 \<and> (map_of (eg_allocations n0) x \<noteq> None
      \<or> (\<exists>i\<in>set items. si_Node i = k \<and> si_EgressIP i = x \<and> (\<exists>j. fresh_item e nm c0 ips i j)))"
    if m: "map_of c k = Some n" and x: "map_of (eg_allocations n) x \<noteq> None" for k n
  proof -
    obtain n0 where n0: "map_of c0 k = Some n0"
      using assms(3) m unfolding assigned_so_far_def by (cases "map_of c0 k") auto
    from assms(3) n0 show ?thesis
    proof (cases rule: assigned_node)
      case kept
      then show ?thesis using m x n0 by auto
    next
      case (grown i)
      then show ?thesis using m x n0 by (cases "x = si_EgressIP i") (auto simp: update_conv')
    qed
  qed
  obtain n0 n0' where n0: "map_of c0 k = Some n0" "map_of c0 k' = Some n0'" using cases m x by blast
  show "k = k'"
  proof (cases "map_of (eg_allocations n0) x \<noteq> None \<and> map_of (eg_allocations n0') x \<noteq> None")
    case True
    then show ?thesis using assms(2) n0 unfolding exclusive_def by blast
  next
    case False
    have none: "map_of (eg_allocations m) x = None" if "fresh_item e nm c0 ips i j" "si_EgressIP i = x" "map_of c0 l = Some m" for i j l m
      using fresh_itemD(4) [OF assms(1) that(1,3)] that(2) by simp
    obtain i i' where "i \<in> set items" "si_Node i = k" "si_EgressIP i = x"
        "i' \<in> set items" "si_Node i' = k'" "si_EgressIP i' = x"
      using False cases [OF m(1) x(1)] cases [OF m(2) x(2)] none n0 by (metis option.inject)
    moreover have "distinct (map si_EgressIP items)" using assms(3) by (simp add: assigned_so_far_def)
    ultimately show ?thesis by (metis distinct_map inj_onD)
  qed
qed

lemma one_per_node_assigned:
  assumes "cache_inv c0" and "one_per_node c0 m" and "assigned_so_far e nm c0 ips c items"
  shows "one_per_node c m"
  unfolding one_per_node_def
proof (intro allI impI)
  fix k n
  assume n: "map_of c k = Some n"
  then obtain n0 where n0: "map_of c0 k = Some n0"
    using assms(3) unfolding assigned_so_far_def by (cases "map_of c0 k") auto
  from assms(3) n0 show "getAllocationCountForEgressIP n m \<le> 1"
  proof (cases rule: assigned_node)
    case kept
    then show ?thesis using assms(2) n n0 by (auto simp: one_per_node_def)
  next
    case (grown i)
    note f = fresh_itemD [OF assms(1) grown(3)]
    have "eg_allocations n = eg_allocations n0 @ [(si_EgressIP i, nm)]"
      using grown(4) n update_fresh [OF f(4) [OF n0]] by auto
    then show ?thesis using f(3) assms(2) n0 by (auto simp: getAllocationCountForEgressIP_def one_per_node_def)
  qed
qed

lemma item_hosted:
  assumes "cache_inv c0" and "reused_item e nm c0 ips i \<or> (\<exists>n. fresh_item e nm c0 ips i n)"
  shows "\<exists>s\<in>ips. \<exists>node nodes. si_EgressIP i = IP_String (ParseIP s) \<and> en_node e (si_Node i) = Some node
       \<and> GetEgressIPNetwork (en_lpm e) node (ParseIP s) = Inr (si_Network i) \<and> si_Network i \<noteq> []
       \<and> en_nodes e = Some nodes
       \<and> (\<forall>nd\<in>set nodes. \<exists>A. ParseNodeHostAddressesDropNetMask nd = Inr A \<and> si_EgressIP i \<notin> A)"
proof -
  obtain s node where s: "s \<in> ips" "si_EgressIP i = IP_String (ParseIP s)" "isEgressIPAddrConflict e (ParseIP s) = Inr None"
      "en_node e (si_Node i) = Some node" "GetEgressIPNetwork (en_lpm e) node (ParseIP s) = Inr (si_Network i)"
      "si_Network i \<noteq> []"
    using assms(2)
  proof
    assume "reused_item e nm c0 ips i"
    from reused_itemD(2) [OF assms(1) this] show ?thesis using that by blast
  next
    assume "\<exists>n. fresh_item e nm c0 ips i n"
    then obtain n where n: "fresh_item e nm c0 ips i n" ..
    then show ?thesis using that node_can_host_network fresh_itemD(5) [OF assms(1) n]
      unfolding fresh_item_def by metis
  qed
  obtain nodes where nodes: "en_nodes e = Some nodes" "addr_conflict (ParseIP s) nodes = Inr None"
    using s(3) by (auto simp: isEgressIPAddrConflict_def split: option.splits)
  show ?thesis
    using s nodes addr_conflict_NoneD [OF nodes(2)] by (intro bexI [OF _ s(1)] exI [of _ node] exI [of _ nodes]) auto
qed

text \<open>C11: \<open>assignEgressIPs\<close> respects the hard constraints its comment lists. For a request whose addresses
  are pairwise different and a cache in which no address is on two nodes: every item is on a node whose
  networks host the address, and the item names that network; the address is no address of any node of
  the cluster; the item is recorded in the cache for this object; no address is on two nodes afterwards,
  so none is shared by two objects; no object has two addresses on one node unless it had before, and
  the items of a request are on different nodes; a node that received an address was labelled, ready and
  reachable, received exactly one, and stays within its capacities.\<close>

theorem assignEgressIPs_constraints:
  assumes "cache_inv c" and "exclusive c" and "distinct (map (\<lambda>s. IP_String (ParseIP s)) ips)"
    and "assignEgressIPs e nm ips c = (items, c')"
  shows "(\<forall>i\<in>set items.
            (\<exists>s\<in>set ips. \<exists>node nodes. si_EgressIP i = IP_String (ParseIP s) \<and> en_node e (si_Node i) = Some node
              \<and> GetEgressIPNetwork (en_lpm e) node (ParseIP s) = Inr (si_Network i) \<and> si_Network i \<noteq> []
              \<and> en_nodes e = Some nodes
              \<and> (\<forall>nd\<in>set nodes. \<exists>A. ParseNodeHostAddressesDropNetMask nd = Inr A \<and> si_EgressIP i \<notin> A))
          \<and> (\<exists>n. map_of c' (si_Node i) = Some n \<and> map_of (eg_allocations n) (si_EgressIP i) = Some nm))
       \<and> exclusive c'
       \<and> (\<forall>m. one_per_node c m \<longrightarrow> one_per_node c' m)
       \<and> (one_per_node c nm \<longrightarrow> distinct (map si_Node items))
       \<and> (\<forall>k n. map_of c k = Some n \<longrightarrow> map_of c' k = Some n
            \<or> (\<exists>s\<in>set ips. \<exists>n'. map_of c' k = Some n' \<and> usable n' \<and> within_capacity (ParseIP s) n'
                 \<and> eg_allocations n' = eg_allocations n @ [(IP_String (ParseIP s), nm)]))"
proof (intro conjI)
  note A = assignEgressIPs_assigned [OF assms(1,3,4)]
  have items: "reused_item e nm c (set ips) i \<or> (\<exists>n. fresh_item e nm c (set ips) i n
      \<and> map_of c' (si_Node i) = Some (allocate (si_EgressIP i) nm n))" if "i \<in> set items" for i
    using A that unfolding assigned_so_far_def by simp
  have recorded: "\<exists>n. map_of c' (si_Node i) = Some n \<and> map_of (eg_allocations n) (si_EgressIP i) = Some nm"
    if i: "i \<in> set items" for i
    using items [OF i]
  proof
    assume "reused_item e nm c (set ips) i"
    from reused_itemD(1) [OF assms(1) this] obtain n where n: "map_of c (si_Node i) = Some n"
        "map_of (eg_allocations n) (si_EgressIP i) = Some nm" by blast
    from A n(1) show ?thesis
    proof (cases rule: assigned_node)
      case (grown j)
      then show ?thesis using n(2) by (simp add: update_conv')
    qed (use n(2) in simp)
  qed (auto simp: update_conv')
  show "\<forall>i\<in>set items.
            (\<exists>s\<in>set ips. \<exists>node nodes. si_EgressIP i = IP_String (ParseIP s) \<and> en_node e (si_Node i) = Some node
              \<and> GetEgressIPNetwork (en_lpm e) node (ParseIP s) = Inr (si_Network i) \<and> si_Network i \<noteq> []
              \<and> en_nodes e = Some nodes
              \<and> (\<forall>nd\<in>set nodes. \<exists>A. ParseNodeHostAddressesDropNetMask nd = Inr A \<and> si_EgressIP i \<notin> A))
          \<and> (\<exists>n. map_of c' (si_Node i) = Some n \<and> map_of (eg_allocations n) (si_EgressIP i) = Some nm)"
  proof (intro ballI conjI)
    fix i assume i: "i \<in> set items"
    then show "\<exists>n. map_of c' (si_Node i) = Some n \<and> map_of (eg_allocations n) (si_EgressIP i) = Some nm"
      by (rule recorded)
    have "reused_item e nm c (set ips) i \<or> (\<exists>n. fresh_item e nm c (set ips) i n)" using items [OF i] by blast
    then show "\<exists>s\<in>set ips. \<exists>node nodes. si_EgressIP i = IP_String (ParseIP s) \<and> en_node e (si_Node i) = Some node
              \<and> GetEgressIPNetwork (en_lpm e) node (ParseIP s) = Inr (si_Network i) \<and> si_Network i \<noteq> []
              \<and> en_nodes e = Some nodes
              \<and> (\<forall>nd\<in>set nodes. \<exists>A. ParseNodeHostAddressesDropNetMask nd = Inr A \<and> si_EgressIP i \<notin> A)"
      by (rule item_hosted [OF assms(1)])
  qed
  show "exclusive c'" using exclusive_assigned [OF assms(1,2) A] .
  show "\<forall>m. one_per_node c m \<longrightarrow> one_per_node c' m" using one_per_node_assigned [OF assms(1) _ A] by blast
  show "one_per_node c nm \<longrightarrow> distinct (map si_Node items)" using A by (simp add: assigned_so_far_def)
  show "\<forall>k n. map_of c k = Some n \<longrightarrow> map_of c' k = Some n
            \<or> (\<exists>s\<in>set ips. \<exists>n'. map_of c' k = Some n' \<and> usable n' \<and> within_capacity (ParseIP s) n'
                 \<and> eg_allocations n' = eg_allocations n @ [(IP_String (ParseIP s), nm)])"
  proof (intro allI impI)
    fix k n assume n: "map_of c k = Some n"
    from A n show "map_of c' k = Some n
            \<or> (\<exists>s\<in>set ips. \<exists>n'. map_of c' k = Some n' \<and> usable n' \<and> within_capacity (ParseIP s) n'
                 \<and> eg_allocations n' = eg_allocations n @ [(IP_String (ParseIP s), nm)])"
    proof (cases rule: assigned_node)
      case (grown i)
      note none = fresh_itemD(4) [OF assms(1) grown(3) n]
      obtain s where s: "s \<in> set ips" "si_EgressIP i = IP_String (ParseIP s)" "usable n"
          "node_can_host e nm (ParseIP s) n = Some (si_Network i)"
        using grown(3) unfolding fresh_item_def by blast
      have "usable (allocate (si_EgressIP i) nm n)" using s(3) by (simp add: usable_def)
      then show ?thesis
        using grown(4) s update_fresh [OF none] within_capacity_grown [OF s(4) none]
        by (intro disjI2 bexI [OF _ s(1)] exI [of _ "allocate (si_EgressIP i) nm n"]) simp
    qed simp
  qed
qed


section \<open>The least loaded node\<close>

definition load :: "node_cache \<Rightarrow> string \<Rightarrow> nat" where
  "load c k = (case map_of c k of None \<Rightarrow> 0 | Some n \<Rightarrow> length (eg_allocations n))"

lemma assignable_sorted:
  assumes "cache_inv c"
  shows "sorted (map (load c) (fst (getSortedEgressData c)))"
proof -
  let ?f = "\<lambda>(k, n). length (eg_allocations n)"
  let ?xs = "sort_key ?f (filter (\<lambda>(_, n). usable n) c)"
  have "map (load c) (map fst ?xs) = map ?f ?xs"
    unfolding map_map
  proof (rule map_cong [OF refl])
    fix p assume "p \<in> set ?xs"
    then have "(fst p, snd p) \<in> set c" by simp
    then have "map_of c (fst p) = Some (snd p)" using cache_inv_lookup(1) [OF assms] by blast
    then show "(load c \<circ> fst) p = ?f p" by (simp add: load_def case_prod_beta)
  qed
  then show ?thesis using sorted_sort_key [of ?f "filter (\<lambda>(_, n). usable n) c"]
    by (simp only: getSortedEgressData_def fst_conv)
qed

lemma assign_on_nodes_first:
  "sorted (map (load c) ks) \<Longrightarrow>
    (case assign_on_nodes e nm x ks c of
       None \<Rightarrow> \<forall>k\<in>set ks. \<forall>n. map_of c k = Some n \<longrightarrow> node_can_host e nm x n = None
     | Some (i, c') \<Rightarrow> \<exists>k\<in>set ks. (\<exists>n. map_of c k = Some n \<and> si_Node i = eg_name n \<and> node_can_host e nm x n \<noteq> None)
         \<and> (\<forall>k'\<in>set ks. \<forall>n. map_of c k' = Some n \<longrightarrow> node_can_host e nm x n \<noteq> None \<longrightarrow> load c k \<le> load c k'))"
proof (induction ks)
  case (Cons k ks)
  then have IH: "case assign_on_nodes e nm x ks c of
       None \<Rightarrow> \<forall>k\<in>set ks. \<forall>n. map_of c k = Some n \<longrightarrow> node_can_host e nm x n = None
     | Some (i, c') \<Rightarrow> \<exists>k\<in>set ks. (\<exists>n. map_of c k = Some n \<and> si_Node i = eg_name n \<and> node_can_host e nm x n \<noteq> None)
         \<and> (\<forall>k'\<in>set ks. \<forall>n. map_of c k' = Some n \<longrightarrow> node_can_host e nm x n \<noteq> None \<longrightarrow> load c k \<le> load c k')"
    by simp
  show ?case
  proof (cases "\<exists>n w. map_of c k = Some n \<and> node_can_host e nm x n = Some w")
    case True
    then obtain n w where n: "map_of c k = Some n" "node_can_host e nm x n = Some w" by blast
    then show ?thesis using Cons.prems by (simp del: bex_simps) (auto intro!: bexI [of _ k])
  next
    case False
    then have e: "assign_on_nodes e nm x (k # ks) c = assign_on_nodes e nm x ks c"
        and no: "map_of c k = Some n \<Longrightarrow> node_can_host e nm x n = None" for n
      by (auto split: option.splits)
    show ?thesis unfolding e using IH no by (fastforce split: option.splits prod.splits)
  qed
qed simp

text \<open>The nodes the code considers for an address: usable nodes that can host it; off the cloud, only
  those with a secondary network for it when there are any.\<close>

definition eligible :: "environment \<Rightarrow> string \<Rightarrow> ip \<Rightarrow> node_cache \<Rightarrow> string \<Rightarrow> bool" where
  "eligible e nm x c k \<longleftrightarrow>
     (\<exists>n. map_of c k = Some n \<and> usable n \<and> node_can_host e nm x n \<noteq> None
       \<and> (en_cloud e \<or> hosts_secondary e x n
          \<or> (\<forall>k' n'. map_of c k' = Some n' \<longrightarrow> usable n' \<longrightarrow> \<not> hosts_secondary e x n')))"

lemma restrict_nodes_sorted: "sorted (map f ks) \<Longrightarrow> sorted (map f (restrict_nodes e x c ks))"
  by (simp add: restrict_nodes_def Let_def sorted_filter)

lemma restrict_nodes_mem:
  assumes "cache_inv c" and "k \<in> set (restrict_nodes e x c (fst (getSortedEgressData c)))"
  shows "\<exists>n. map_of c k = Some n \<and> usable n \<and> (node_can_host e nm x n \<noteq> None \<longrightarrow> eligible e nm x c k)"
proof -
  have "k \<in> set (fst (getSortedEgressData c))" using assms(2) restrict_nodes_subset by blast
  then obtain n where n: "map_of c k = Some n" "usable n" using assignable_nodes [OF assms(1)] by blast
  have "en_cloud e \<or> hosts_secondary e x n
      \<or> (\<forall>k' n'. map_of c k' = Some n' \<longrightarrow> usable n' \<longrightarrow> \<not> hosts_secondary e x n')"
    using assms(2) n assignable_nodes [OF assms(1)]
    by (fastforce simp: restrict_nodes_def Let_def filter_empty_conv split: if_splits option.splits)
  then show ?thesis using n unfolding eligible_def by blast
qed

lemma eligible_considered:
  assumes "cache_inv c" and "eligible e nm x c k"
  shows "k \<in> set (restrict_nodes e x c (fst (getSortedEgressData c)))"
proof -
  obtain n where n: "map_of c k = Some n" "usable n" "en_cloud e \<or> hosts_secondary e x n
          \<or> (\<forall>k' n'. map_of c k' = Some n' \<longrightarrow> usable n' \<longrightarrow> \<not> hosts_secondary e x n')"
    using assms(2) unfolding eligible_def by blast
  then have k: "k \<in> set (fst (getSortedEgressData c))" using assignable_nodes [OF assms(1)] by blast
  let ?sec = "filter (\<lambda>k. case map_of c k of None \<Rightarrow> False | Some n \<Rightarrow> hosts_secondary e x n) (fst (getSortedEgressData c))"
  have "?sec = []" if "\<forall>k' n'. map_of c k' = Some n' \<longrightarrow> usable n' \<longrightarrow> \<not> hosts_secondary e x n'"
    using that assignable_nodes [OF assms(1)] by (auto simp: filter_empty_conv split: option.splits)
  moreover have "k \<in> set ?sec" if "hosts_secondary e x n" using that k n(1) by simp
  ultimately show ?thesis using n(3) k unfolding restrict_nodes_def Let_def by auto
qed

text \<open>An address goes to the least loaded node. When a single address is requested that is neither a
  node address nor allocated yet, it is assigned exactly when some node is eligible, and then to an
  eligible node that has the fewest allocations of all eligible nodes.\<close>

lemma assignEgressIPs_least_loaded:
  assumes "cache_inv c" and "isEgressIPAddrConflict e (ParseIP s) = Inr None"
    and "\<forall>k n. map_of c k = Some n \<longrightarrow> map_of (eg_allocations n) (IP_String (ParseIP s)) = None"
    and "assignEgressIPs e nm [s] c = (items, c')"
  shows "((\<nexists>k. eligible e nm (ParseIP s) c k) \<longrightarrow> items = [] \<and> c' = c)
    \<and> ((\<exists>k. eligible e nm (ParseIP s) c k) \<longrightarrow>
        (\<exists>i. items = [i] \<and> eligible e nm (ParseIP s) c (si_Node i)
           \<and> (\<forall>k. eligible e nm (ParseIP s) c k \<longrightarrow> load c (si_Node i) \<le> load c k)))"
proof -
  obtain ks ex where g: "getSortedEgressData c = (ks, ex)" by (cases "getSortedEgressData c")
  let ?x = "ParseIP s"
  let ?ks = "restrict_nodes e ?x c ks"
  have ex: "ex (IP_String ?x) = None"
  proof (rule ccontr)
    assume "ex (IP_String ?x) \<noteq> None"
    then obtain st where "snd (getSortedEgressData c) (IP_String ?x) = Some st" using g by auto
    then show False using existing_SomeD [OF assms(1)] assms(3) by fastforce
  qed
  have r: "(items, c') = (case assign_on_nodes e nm ?x ?ks c of None \<Rightarrow> ([], c) | Some (i, c1) \<Rightarrow> ([i], c1))"
  proof (cases "ks = []")
    case True
    then have "?ks = []" by (simp add: restrict_nodes_def)
    then show ?thesis using assms(4) g True by (simp add: assignEgressIPs_def)
  next
    case False
    then show ?thesis using assms(2,4) g ex
      by (simp add: assignEgressIPs_def Let_def split: option.splits prod.splits)
  qed
  have first: "case assign_on_nodes e nm ?x ?ks c of
       None \<Rightarrow> \<forall>k\<in>set ?ks. \<forall>n. map_of c k = Some n \<longrightarrow> node_can_host e nm ?x n = None
     | Some (i, c') \<Rightarrow> \<exists>k\<in>set ?ks. (\<exists>n. map_of c k = Some n \<and> si_Node i = eg_name n \<and> node_can_host e nm ?x n \<noteq> None)
         \<and> (\<forall>k'\<in>set ?ks. \<forall>n. map_of c k' = Some n \<longrightarrow> node_can_host e nm ?x n \<noteq> None \<longrightarrow> load c k \<le> load c k')"
    by (rule assign_on_nodes_first [OF restrict_nodes_sorted]) (use assignable_sorted [OF assms(1)] g in simp)
  have el: "k \<in> set ?ks \<and> (\<exists>n. map_of c k = Some n \<and> node_can_host e nm ?x n \<noteq> None) \<longleftrightarrow> eligible e nm ?x c k" for k
  proof
    assume "k \<in> set ?ks \<and> (\<exists>n. map_of c k = Some n \<and> node_can_host e nm ?x n \<noteq> None)"
    then show "eligible e nm ?x c k" using restrict_nodes_mem [OF assms(1), of k e ?x nm] g by auto
  next
    assume E: "eligible e nm ?x c k"
    then show "k \<in> set ?ks \<and> (\<exists>n. map_of c k = Some n \<and> node_can_host e nm ?x n \<noteq> None)"
      using eligible_considered [OF assms(1) E] g unfolding eligible_def by auto
  qed
  show ?thesis
  proof (cases "assign_on_nodes e nm ?x ?ks c")
    case None
    have "\<not> eligible e nm ?x c k" for k
      using first [unfolded None option.case(1)] el [of k] by (metis option.distinct(1))
    then show ?thesis using r None by simp
  next
    case (Some q)
    obtain i c1 where q: "q = (i, c1)" by (cases q)
    from first [unfolded Some q option.case prod.case] obtain k n where k: "k \<in> set ?ks" "map_of c k = Some n"
        "si_Node i = eg_name n" "node_can_host e nm ?x n \<noteq> None"
        "\<forall>k'\<in>set ?ks. \<forall>n. map_of c k' = Some n \<longrightarrow> node_can_host e nm ?x n \<noteq> None \<longrightarrow> load c k \<le> load c k'" by blast
    have "si_Node i = k" using cache_inv_lookup(2) [OF assms(1) k(2)] k(3) by (simp add: node_ok_def)
    moreover have "eligible e nm ?x c k" using el k by blast
    moreover have "load c k \<le> load c k'" if "eligible e nm ?x c k'" for k' using k(5) el [of k'] that by blast
    moreover have "items = [i]" using r Some q by simp
    ultimately show ?thesis by blast
  qed
qed


section \<open>Examples\<close>

lemma example_cache_facts:
  "cache_inv (example_cache [])" "exclusive (example_cache [])"
  "map_of (example_cache []) k = Some n \<Longrightarrow> eg_allocations n = []"
  by (auto simp: cache_inv_def node_ok_def exclusive_def example_cache_def split: if_splits)

lemma example_assigned:
  "assignEgressIPs example_env ''egress'' [''192.168.1.100''] (example_cache []) =
     ([example_item], example_cache [(''192.168.1.100'', ''egress'')])"
  "isEgressIPAddrConflict example_env (ParseIP ''192.168.1.100'') = Inr None"
  "IP_String (ParseIP ''192.168.1.100'') = ''192.168.1.100''"
  unfolding example_env_def example_node1_def example_node_doc_def example_cache_def example_item_def by code_simp+

theorem assignEgressIPs_constraints_witness:
  "cache_inv (example_cache []) \<and> exclusive (example_cache [])
   \<and> assignEgressIPs example_env ''egress'' [''192.168.1.100''] (example_cache []) =
       ([example_item], example_cache [(''192.168.1.100'', ''egress'')])
   \<and> exclusive (example_cache [(''192.168.1.100'', ''egress'')])"
proof -
  have "distinct (map (\<lambda>s. IP_String (ParseIP s)) [''192.168.1.100''])" by simp
  from assignEgressIPs_constraints [OF example_cache_facts(1,2) this example_assigned(1)]
  show ?thesis using example_cache_facts(1,2) example_assigned(1) by blast
qed

text \<open>Two nodes with a primary IPv6 network.\<close>

definition example_v6_node :: "string \<Rightarrow> string \<Rightarrow> Node" where
  "example_v6_node nm addr = \<lparr>node_Name = nm,
     node_docs = [ovnNodeIfAddr \<mapsto> Some (JObject [(''ipv6'', JString addr)]),
       ovnNodeHostAddresses \<mapsto> Some (JArray [JString addr])], node_texts = Map.empty\<rparr>"

definition example_v6_env :: environment where
  "example_v6_env = example_env\<lparr>
     en_nodes := Some [example_v6_node ''node1'' ''fd00::11/64'', example_v6_node ''node2'' ''fd00::12/64''],
     en_node := [''node1'' \<mapsto> example_v6_node ''node1'' ''fd00::11/64'', ''node2'' \<mapsto> example_v6_node ''node2'' ''fd00::12/64'']\<rparr>"

definition example_v6_entry :: "string \<Rightarrow> (string \<times> string) list \<Rightarrow> string \<times> egressNode" where
  "example_v6_entry nm al = (nm, \<lparr>eg_config = \<lparr>pec_V4 = noIFAddr, pec_V6 = noIFAddr, pec_Capacity = unlimited\<rparr>,
     eg_mgmtIPs = [], eg_allocations = al, eg_isReady = True, eg_isReachable = True,
     eg_isEgressAssignable = True, eg_name = nm\<rparr>)"

text \<open>The hypothesis on different addresses in \<open>assignEgressIPs_constraints\<close> is needed: the set of
  requested addresses is a set of strings, and the same address in two spellings ends up on two nodes.\<close>

lemma same_address_on_two_nodes:
  "assignEgressIPs example_v6_env ''egress'' [''fd00::64'', ''FD00::64'']
     [example_v6_entry ''node1'' [], example_v6_entry ''node2'' []] =
   ([\<lparr>si_Node = ''node1'', si_EgressIP = ''fd00::64'', si_Network = ''fd00::/64''\<rparr>,
     \<lparr>si_Node = ''node2'', si_EgressIP = ''fd00::64'', si_Network = ''fd00::/64''\<rparr>],
    [example_v6_entry ''node1'' [(''fd00::64'', ''egress'')], example_v6_entry ''node2'' [(''fd00::64'', ''egress'')]])"
  unfolding example_v6_env_def example_env_def example_node1_def example_node_doc_def example_v6_node_def example_v6_entry_def
  by code_simp


end
