(* ===== verification/Egress_Reconcile.thy ===== *)
theory Egress_Reconcile
  imports Egress_Constraints
begin

text \<open>
  Convergence of the egress IP reconciliation. An object whose addresses are written in canonical form
  settles: once its addresses are assigned, reconciling it again changes nothing and sends nothing. An
  object with an address in another spelling never settles. On a cloud, the confirmation of a created
  \<open>CloudPrivateIPConfig\<close> publishes exactly the assignment that was requested and clears the pending
  operation.
\<close>

section \<open>Validation of what was assigned\<close>

lemma validateEgressIPSpec_ok:
  "\<forall>s\<in>set spec. ParseIP s \<noteq> [] \<Longrightarrow> validateEgressIPSpec spec v = Inr (fold set_insert spec v)"
  by (induction spec arbitrary: v) auto

lemma fold_insert_distinct: "distinct (ys @ xs) \<Longrightarrow> fold set_insert xs ys = ys @ xs"
  by (induction xs arbitrary: ys) (auto simp: set_insert_def)

text \<open>A network found for an address is managed by OVN or a secondary network of the node, so the status
  passes the later validation.\<close>

lemma hosted_network_valid:
  assumes "GetEgressIPNetwork lpm node x = Inr w" and "w \<noteq> []" and "x \<noteq> []"
  shows "IsOVNManagedNetwork node x = Inr True \<or> IsNonOVNManagedNetworkContainingIP lpm node x = Inr True"
proof -
  obtain a where a: "getNodeIfAddrAnnotation node = Inr a"
    using assms(1) by (auto simp: GetEgressIPNetwork_def split: sum.splits)
  let ?p = "if IsIPv6 x then pa_IPv6 a else pa_IPv4 a"
  show ?thesis
  proof (cases "?p \<noteq> [] \<and> (\<exists>y net. ParseCIDR ?p = Some (y, net) \<and> IPNet_Contains net x)")
    case True
    then have "IsOVNManagedNetwork node x = Inr True" using a assms(3) by (auto simp: IsOVNManagedNetwork_def Let_def)
    then show ?thesis ..
  next
    case False
    then have "GetNonOVNNetworkContainingIP lpm node x = Inr w"
      using assms(1) a by (auto simp: GetEgressIPNetwork_def Let_def split: if_splits option.splits)
    then show ?thesis using assms(2,3) by (simp add: IsNonOVNManagedNetworkContainingIP_def)
  qed
qed

lemma on_node_id: "(\<And>n. (k, n) \<in> set c \<Longrightarrow> f n = n) \<Longrightarrow> on_node k f c = c"
  unfolding on_node_def by (rule map_idI) auto

lemma addAllocator_recorded:
  assumes "cache_inv c"
    and "\<forall>s\<in>set ss. \<exists>n. map_of c (si_Node s) = Some n \<and> map_of (eg_allocations n) (si_EgressIP s) = Some nm"
  shows "addAllocatorEgressIPAssignments nm ss c = c"
  using assms(2)
proof (induction ss)
  case (Cons s ss)
  have "on_node (si_Node s) (allocate (si_EgressIP s) nm) c = c"
  proof (rule on_node_id)
    fix n assume "(si_Node s, n) \<in> set c"
    then have "map_of c (si_Node s) = Some n" using cache_inv_lookup(1) [OF assms(1)] by simp
    then have "map_of (eg_allocations n) (si_EgressIP s) = Some nm" using Cons.prems by simp
    then show "allocate (si_EgressIP s) nm n = n" by (simp add: update_triv)
  qed
  then show ?case using Cons by simp
qed simp

lemma assigned_valid:
  assumes "cache_inv c" and "\<forall>k n. map_of c k = Some n \<longrightarrow> getAllocationCountForEgressIP n nm = 0"
    and "assigned_so_far e nm c (set ips) c' items" and "i \<in> set items"
    and "\<forall>s\<in>set ips. ParseIP s \<noteq> [] \<and> IP_String (ParseIP s) = s"
  shows "valid_status e nm c' i" and "\<exists>n. map_of c' (si_Node i) = Some n \<and> map_of (eg_allocations n) (si_EgressIP i) = Some nm"
proof -
  have "\<not> reused_item e nm c (set ips) i"
    using reused_itemD(1) [OF assms(1)] assms(2) count_pos by (metis less_irrefl)
  then obtain n where n: "fresh_item e nm c (set ips) i n" "map_of c' (si_Node i) = Some (allocate (si_EgressIP i) nm n)"
    using assms(3,4) unfolding assigned_so_far_def by blast
  then show "\<exists>n. map_of c' (si_Node i) = Some n \<and> map_of (eg_allocations n) (si_EgressIP i) = Some nm"
    by (simp add: update_conv')
  have "one_per_node c nm" using assms(2) by (auto simp: one_per_node_def)
  then have count: "getAllocationCountForEgressIP (allocate (si_EgressIP i) nm n) nm \<le> 1"
    using one_per_node_assigned [OF assms(1) _ assms(3)] n(2) unfolding one_per_node_def by blast
  obtain s where s: "s \<in> set ips" "si_EgressIP i = IP_String (ParseIP s)" "node_can_host e nm (ParseIP s) n = Some (si_Network i)"
    using n(1) unfolding fresh_item_def by blast
  have x: "ParseIP (si_EgressIP i) = ParseIP s" "ParseIP s \<noteq> []" using assms(5) s(1,2) by auto
  obtain node where "en_node e (eg_name n) = Some node" "GetEgressIPNetwork (en_lpm e) node (ParseIP s) = Inr (si_Network i)"
      "si_Network i \<noteq> []" using node_can_host_network [OF s(3)] by blast
  then show "valid_status e nm c' i"
    using n(2) count fresh_itemD(2) [OF assms(1) n(1)] hosted_network_valid x
    by (auto simp: valid_status_def usable_def Let_def)
qed

section \<open>Canonical objects settle\<close>

text \<open>What the first reconciliation of an unassigned object does on bare metal.\<close>

lemma reconcile_unassigned:
  assumes "\<not> en_cloud e" and "\<forall>s\<in>set (eip_Spec n). ParseIP s \<noteq> []" and "eip_Status n = []" and "eip_Spec n \<noteq> []"
    and "reconcileEgressIP e None (Some n) c = (None, c1)"
    and "assignEgressIPs e (eip_Name n) (en_order e (fold set_insert (eip_Spec n) [])) (ct_cache c) = (items, cache)"
  shows "c1 = c\<lparr>ct_cache := addAllocatorEgressIPAssignments (eip_Name n) items cache,
      ct_log := (if items = [] then ct_log c else ct_log c @ [PatchStatus (eip_Name n) items])\<rparr>"
proof -
  have "reconcile_plan e None (Some n) (ct_cache c) =
      Inr \<lparr>pl_name = eip_Name n, pl_keep = [], pl_remove = [], pl_assign = fold set_insert (eip_Spec n) [], pl_stale = []\<rparr>"
    using assms(2,3) by (simp add: reconcile_plan_def validateEgressIPSpec_ok validateEgressIPStatus_def Let_def)
  moreover have "fold set_insert (eip_Spec n) [] \<noteq> []" using set_fold_insert [of "eip_Spec n" "[]"] assms(4) by force
  ultimately show ?thesis using assms(1,5,6)
    by (auto simp: reconcileEgressIP_def reconcile_baremetal_def assign_planned_def Let_def
        patchReplaceEgressIPStatus_def send_def split: if_splits)
qed

lemma reconcile_settled:
  assumes "\<not> en_cloud e" and "\<forall>s\<in>set (eip_Spec n). ParseIP s \<noteq> []" and "cache_inv (ct_cache c)"
    and "distinct (eip_Status n)" and "si_EgressIP ` set (eip_Status n) = set (eip_Spec n)"
    and "\<forall>s\<in>set (eip_Status n). valid_status e (eip_Name n) (ct_cache c) s
      \<and> (\<exists>m. map_of (ct_cache c) (si_Node s) = Some m \<and> map_of (eg_allocations m) (si_EgressIP s) = Some (eip_Name n))"
  shows "reconcileEgressIP e old (Some n) c = (None, c)"
proof -
  have v: "filter (valid_status e (eip_Name n) (ct_cache c)) (eip_Status n) = eip_Status n"
      "filter (\<lambda>s. \<not> valid_status e (eip_Name n) (ct_cache c) s) (eip_Status n) = []"
    using assms(6) by (simp_all add: filter_empty_conv)
  have k: "filter (\<lambda>s. si_EgressIP s \<in> set (eip_Spec n)) (eip_Status n) = eip_Status n"
      "filter (\<lambda>s. si_EgressIP s \<notin> set (eip_Spec n)) (eip_Status n) = []"
      "filter (\<lambda>x. x \<notin> si_EgressIP ` set (eip_Status n)) (fold set_insert (eip_Spec n) []) = []"
    using assms(5) by (auto simp: filter_empty_conv filter_id_conv)
  have "\<exists>stale. reconcile_plan e old (Some n) (ct_cache c) =
      Inr \<lparr>pl_name = eip_Name n, pl_keep = eip_Status n, pl_remove = [], pl_assign = [], pl_stale = stale\<rparr>"
    using k fold_insert_distinct [of "[]" "eip_Status n"] assms(4)
    by (simp add: reconcile_plan_def validateEgressIPSpec_ok [OF assms(2)] validateEgressIPStatus_def v Let_def)
  then obtain stale where "reconcile_plan e old (Some n) (ct_cache c) =
      Inr \<lparr>pl_name = eip_Name n, pl_keep = eip_Status n, pl_remove = [], pl_assign = [], pl_stale = stale\<rparr>" ..
  moreover have "addAllocatorEgressIPAssignments (eip_Name n) (eip_Status n) (ct_cache c) = ct_cache c"
    by (rule addAllocator_recorded [OF assms(3)]) (use assms(6) in blast)
  ultimately show ?thesis using assms(1)
    by (simp add: reconcileEgressIP_def reconcile_baremetal_def assign_planned_def Let_def)
qed

text \<open>C21: an object with canonical addresses settles. On bare metal, let the reconciliation of an object
  without assignments succeed and publish one item for every address of its specification. Reconciling
  the object again, with the published status, leaves the controller as it is and sends no request.\<close>

theorem reconcile_settles:
  assumes "\<not> en_cloud e" and "\<forall>xs. set (en_order e xs) = set xs \<and> (distinct xs \<longrightarrow> distinct (en_order e xs))"
    and "cache_inv (ct_cache c)"
    and "\<forall>k m. map_of (ct_cache c) k = Some m \<longrightarrow> getAllocationCountForEgressIP m (eip_Name n) = 0"
    and "eip_Spec n \<noteq> []" and "\<forall>s\<in>set (eip_Spec n). ParseIP s \<noteq> [] \<and> IP_String (ParseIP s) = s" and "eip_Status n = []"
    and "reconcileEgressIP e None (Some n) c = (None, c1)" and "ct_log c1 = ct_log c @ [PatchStatus (eip_Name n) items]"
    and "si_EgressIP ` set items = set (eip_Spec n)"
  shows "reconcileEgressIP e old (Some (n\<lparr>eip_Status := items\<rparr>)) c1 = (None, c1)"
proof -
  let ?v = "en_order e (fold set_insert (eip_Spec n) [])"
  obtain its cache where a: "assignEgressIPs e (eip_Name n) ?v (ct_cache c) = (its, cache)"
    by (cases "assignEgressIPs e (eip_Name n) ?v (ct_cache c)")
  have v: "set ?v = set (eip_Spec n)" "distinct ?v" using assms(2) distinct_fold_insert [of "[]" "eip_Spec n"] by auto
  have canon: "\<forall>s\<in>set ?v. ParseIP s \<noteq> [] \<and> IP_String (ParseIP s) = s" using assms(6) v by simp
  then have "map (\<lambda>s. IP_String (ParseIP s)) ?v = ?v" by (intro map_idI) simp
  then have A: "assigned_so_far e (eip_Name n) (ct_cache c) (set ?v) cache its"
    using assignEgressIPs_assigned [OF assms(3) _ a] v(2) by simp
  have inv: "cache_inv cache" using assignEgressIPs_inv [OF assms(3) a] by blast
  note val = assigned_valid [OF assms(3,4) A _ canon]
  have spec: "\<forall>s\<in>set (eip_Spec n). ParseIP s \<noteq> []" using assms(6) by simp
  have same: "addAllocatorEgressIPAssignments (eip_Name n) its cache = cache"
    by (rule addAllocator_recorded [OF inv]) (use val(2) in blast)
  have c1: "c1 = c\<lparr>ct_cache := cache, ct_log := (if its = [] then ct_log c else ct_log c @ [PatchStatus (eip_Name n) its])\<rparr>"
    using reconcile_unassigned [OF assms(1) spec assms(7,5,8) a] same by simp
  then have its: "its = items" using assms(9) by (auto split: if_splits)
  have "distinct (map si_EgressIP its)" using A by (simp add: assigned_so_far_def)
  then have d: "distinct items" using its by (auto simp: distinct_map)
  show ?thesis
    by (rule reconcile_settled) (use assms(1) spec c1 inv d assms(10) val its in auto)
qed

theorem reconcile_settles_witness:
  "reconcileEgressIP example_env None (Some ((example_eip ''192.168.1.100'')\<lparr>eip_Status := [example_item]\<rparr>))
     \<lparr>ct_cache = example_cache [(''192.168.1.100'', ''egress'')], ct_pending = [], ct_log = [PatchStatus ''egress'' [example_item]]\<rparr> =
   (None, \<lparr>ct_cache = example_cache [(''192.168.1.100'', ''egress'')], ct_pending = [], ct_log = [PatchStatus ''egress'' [example_item]]\<rparr>)"
proof (rule reconcile_settles)
  let ?c = "\<lparr>ct_cache = example_cache [], ct_pending = [], ct_log = []\<rparr>"
  show "\<not> en_cloud example_env"
      "\<forall>xs. set (en_order example_env xs) = set xs \<and> (distinct xs \<longrightarrow> distinct (en_order example_env xs))"
    by (simp_all add: example_env_def)
  show "cache_inv (ct_cache ?c)" using example_cache_facts(1) by simp
  show "\<forall>k m. map_of (ct_cache ?c) k = Some m \<longrightarrow>
      getAllocationCountForEgressIP m (eip_Name (example_eip ''192.168.1.100'')) = 0"
    using example_cache_facts(3) by (auto simp: getAllocationCountForEgressIP_def)
  show "eip_Spec (example_eip ''192.168.1.100'') \<noteq> []" "eip_Status (example_eip ''192.168.1.100'') = []"
      "si_EgressIP ` set [example_item] = set (eip_Spec (example_eip ''192.168.1.100''))"
    by (simp_all add: example_eip_def example_item_def)
  show "\<forall>s\<in>set (eip_Spec (example_eip ''192.168.1.100'')). ParseIP s \<noteq> [] \<and> IP_String (ParseIP s) = s"
    unfolding example_eip_def by code_simp
  show "reconcileEgressIP example_env None (Some (example_eip ''192.168.1.100'')) ?c =
      (None, \<lparr>ct_cache = example_cache [(''192.168.1.100'', ''egress'')], ct_pending = [], ct_log = [PatchStatus ''egress'' [example_item]]\<rparr>)"
    using example_eip_added by simp
  show "ct_log \<lparr>ct_cache = example_cache [(''192.168.1.100'', ''egress'')], ct_pending = [], ct_log = [PatchStatus ''egress'' [example_item]]\<rparr> =
      ct_log ?c @ [PatchStatus (eip_Name (example_eip ''192.168.1.100'')) [example_item]]"
    by (simp add: example_eip_def)
qed

section \<open>Other spellings never settle\<close>

definition example_v6_item :: EgressIPStatusItem where
  "example_v6_item = \<lparr>si_Node = ''node1'', si_EgressIP = ''fd00::64'', si_Network = ''fd00::/64''\<rparr>"

text \<open>An object whose address is not written in canonical form never settles. Reconciling the object
  with the specification \<open>FD00::64\<close> assigns the address and publishes the item under \<open>fd00::64\<close>;
  reconciling it again with that status withdraws the item and publishes the empty status, which brings
  the cache and the object back to where they started.\<close>

lemma uncanonical_address_flaps:
  "let c0 = \<lparr>ct_cache = [example_v6_entry ''node1'' []], ct_pending = [], ct_log = []\<rparr>;
       c1 = snd (reconcileEgressIP example_v6_env None (Some (example_eip ''FD00::64'')) c0);
       r2 = reconcileEgressIP example_v6_env None (Some ((example_eip ''FD00::64'')\<lparr>eip_Status := [example_v6_item]\<rparr>)) c1
   in ct_log c1 = [PatchStatus ''egress'' [example_v6_item]] \<and> fst r2 = None
    \<and> ct_log (snd r2) = ct_log c1 @ [PatchStatus ''egress'' []] \<and> ct_cache (snd r2) = ct_cache c0"
  unfolding example_v6_env_def example_env_def example_node1_def example_node_doc_def example_v6_node_def example_v6_entry_def
    example_eip_def example_v6_item_def
  by code_simp

section \<open>Confirmation by the cloud\<close>

lemma update_absent: "map_of al k = None \<Longrightarrow> AList.delete k (AList.update k v al) = al"
proof -
  assume "map_of al k = None"
  then have "AList.update k v al = al @ [(k, v)]" "\<forall>p\<in>set al. fst p \<noteq> k"
    by (auto simp: update_fresh map_of_eq_None_iff)
  then show ?thesis by (simp add: AList.delete_eq filter_id_conv case_prod_beta) metis
qed

definition assigned_condition :: Condition where
  "assigned_condition = \<lparr>cond_Type = Assigned, cond_Status = ''True'', cond_Reason = [], cond_Message = [],
     cond_Time = 0, cond_Generation = 0\<rparr>"

text \<open>A cloud assignment from request to confirmation. Let the controller request an address for a node,
  with nothing pending for the object and no \<open>CloudPrivateIPConfig\<close> for the address. It creates one
  owned by the object; when the cloud reports that object as assigned, the controller publishes exactly
  the requested item, for the same address and node, in addition to the statuses the object has, and
  the pending operations are what they were before.\<close>

lemma cloud_assignment_confirmed:
  assumes "ip_wf a" and "nd \<noteq> []" and "map_of (ct_pending c) nm = None"
    and "en_cpic e (ipStringToCloudPrivateIPConfigName (IP_String a)) = Inl ApiNotFound"
    and "executeCloudPrivateIPConfigChange e nm [\<lparr>si_Node = nd, si_EgressIP = IP_String a, si_Network = w\<rparr>] [] c = (None, c1)"
    and "en_eip e' (ct_log c1) nm = Inr obj" and "\<forall>h r. en_ok e' h r"
    and "\<lparr>si_Node = nd, si_EgressIP = IP_String a, si_Network = []\<rparr> \<notin> set (eip_Status obj)"
  shows "\<exists>cp. ct_log c1 = ct_log c @ [CreateCPIC cp] \<and> cp_Owner cp = Some nm \<and> cp_SpecNode cp = nd
    \<and> reconcileCloudPrivateIPConfig e' (Some cp) (Some (cp\<lparr>cp_StatusNode := nd, cp_Conditions := [assigned_condition]\<rparr>)) c1 =
        Some (None, c\<lparr>ct_log := ct_log c1 @ [PatchStatus (eip_Name obj)
          (eip_Status obj @ [\<lparr>si_Node = nd, si_EgressIP = IP_String a, si_Network = []\<rparr>])]\<rparr>)"
proof -
  let ?x = "IP_String a"
  let ?nm = "ipStringToCloudPrivateIPConfigName ?x"
  let ?op = "\<lparr>op_toAdd = nd, op_toDelete = []\<rparr>"
  let ?cp = "\<lparr>cp_Name = ?nm, cp_Deleting = False, cp_Owner = Some nm, cp_SpecNode = nd, cp_StatusNode = [], cp_Conditions = []\<rparr>"
  have c1: "c1 = c\<lparr>ct_pending := AList.update nm [(?x, ?op)] (ct_pending c), ct_log := ct_log c @ [CreateCPIC ?cp]\<rparr>"
    using assms(2-5) by (auto simp: executeCloudPrivateIPConfigChange_def execute_op_def send_def Let_def split: if_splits)
  have nmx: "cloudPrivateIPConfigNameToIPString ?nm = ?x" using cloud_name_back [OF assms(1)] .
  have pend: "finish_add nm ?x (ct_pending c1) = ct_pending c"
    using assms(2) update_absent [OF assms(3)] by (simp add: c1 finish_add_def update_conv' Let_def)
  let ?new = "?cp\<lparr>cp_StatusNode := nd, cp_Conditions := [assigned_condition]\<rparr>"
  have "cloud_decision (Some ?cp) (Some ?new) = Some (False, True, nd)"
    by (simp add: cloud_decision_def and_then_def condition_assigned_def assigned_condition_def)
  moreover have "cloud_added e' ?new c1 = (None, c\<lparr>ct_log := ct_log c1 @ [PatchStatus (eip_Name obj)
          (eip_Status obj @ [\<lparr>si_Node = nd, si_EgressIP = ?x, si_Network = []\<rparr>])]\<rparr>)"
    using assms(6-8) pend by (simp add: cloud_added_def nmx patchReplaceEgressIPStatus_def send_def c1 Let_def)
  ultimately have "reconcileCloudPrivateIPConfig e' (Some ?cp) (Some ?new) c1 =
        Some (None, c\<lparr>ct_log := ct_log c1 @ [PatchStatus (eip_Name obj)
          (eip_Status obj @ [\<lparr>si_Node = nd, si_EgressIP = ?x, si_Network = []\<rparr>])]\<rparr>)"
    using assms(2) by (simp add: reconcileCloudPrivateIPConfig_def Let_def)
  then show ?thesis by (intro exI [of _ ?cp]) (simp add: c1)
qed

end
