(* ===== verification/Id_Allocator.thy ===== *)
theory Id_Allocator
  imports Bitmap
begin

text \<open>
  \<open>pkg/allocator/id/allocator.go\<close>: names of resources mapped to small integers (network ids,
  tunnel ids, zone ids). The state is the record \<open>idAllocator\<close>: the name map and a round-robin
  bitmap. A caller-supplied id is a Go integer: a negative one panics in the bitmap (\<open>None\<close>).
  The lemmas show that over any sequence of calls no two names hold the same id, that the map and
  the bitmap agree (nothing leaks), and that allocation is stable and fails only when full.
\<close>

section \<open>State and operations\<close>

datatype id_error =
    IdAllocateFailed string
  | IdDifferent int string int
  | IdReservedByOther int

record idAllocator =
  nameIdMap :: "string \<rightharpoonup> int"
  idBitmap :: AllocationBitmap

definition NewIDAllocator :: "string \<Rightarrow> int \<Rightarrow> idAllocator" where
  "NewIDAllocator nm maxIds =
     \<lparr>nameIdMap = Map.empty, idBitmap = NewRoundRobinAllocationMap maxIds nm\<rparr>"

definition AllocateID :: "string \<Rightarrow> idAllocator \<Rightarrow> (id_error + int) \<times> idAllocator" where
  "AllocateID nm a =
     (case nameIdMap a nm of
        Some v \<Rightarrow> (Inr v, a)
      | None \<Rightarrow>
          (case bitmap_AllocateNext 0 (idBitmap a) of
             (None, bm) \<Rightarrow> (Inl (IdAllocateFailed nm), a\<lparr>idBitmap := bm\<rparr>)
           | (Some i, bm) \<Rightarrow>
               (Inr (int i), a\<lparr>idBitmap := bm, nameIdMap := (nameIdMap a)(nm \<mapsto> int i)\<rparr>)))"

definition ReserveID :: "string \<Rightarrow> int \<Rightarrow> idAllocator \<Rightarrow> ((id_error + unit) \<times> idAllocator) option" where
  "ReserveID nm i a =
     (case nameIdMap a nm of
        Some v \<Rightarrow> if v = i then Some (Inr (), a) else Some (Inl (IdDifferent i nm v), a)
      | None \<Rightarrow>
          (case bitmap_Allocate i (idBitmap a) of
             None \<Rightarrow> None
           | Some (False, bm) \<Rightarrow> Some (Inl (IdReservedByOther i), a\<lparr>idBitmap := bm\<rparr>)
           | Some (True, bm) \<Rightarrow>
               Some (Inr (), a\<lparr>idBitmap := bm, nameIdMap := (nameIdMap a)(nm \<mapsto> i)\<rparr>)))"

definition ReleaseID :: "string \<Rightarrow> idAllocator \<Rightarrow> idAllocator option" where
  "ReleaseID nm a =
     (case nameIdMap a nm of
        None \<Rightarrow> Some a
      | Some v \<Rightarrow>
          (case bitmap_Release v (idBitmap a) of
             None \<Rightarrow> None
           | Some bm \<Rightarrow> Some (a\<lparr>idBitmap := bm, nameIdMap := (nameIdMap a)(nm := None)\<rparr>)))"

text \<open>\<open>ForName\<close> returns a value that pairs the name with the allocator; its three methods
  delegate.\<close>

record namedAllocator =
  na_name :: string
  na_allocator :: idAllocator

definition ForName :: "string \<Rightarrow> idAllocator \<Rightarrow> namedAllocator" where
  "ForName nm a = \<lparr>na_name = nm, na_allocator = a\<rparr>"

definition named_AllocateID :: "namedAllocator \<Rightarrow> (id_error + int) \<times> idAllocator" where
  "named_AllocateID n = AllocateID (na_name n) (na_allocator n)"

definition named_ReserveID :: "int \<Rightarrow> namedAllocator \<Rightarrow> ((id_error + unit) \<times> idAllocator) option" where
  "named_ReserveID i n = ReserveID (na_name n) i (na_allocator n)"

definition named_ReleaseID :: "namedAllocator \<Rightarrow> idAllocator option" where
  "named_ReleaseID n = ReleaseID (na_name n) (na_allocator n)"

section \<open>Invariant\<close>

text \<open>The map is injective, its ids are not negative, and the set bits are exactly its ids.\<close>

definition id_wf :: "idAllocator \<Rightarrow> bool" where
  "id_wf a \<longleftrightarrow> bitmap_wf (idBitmap a) \<and> inj_on (nameIdMap a) (dom (nameIdMap a))
     \<and> ran (nameIdMap a) = int ` bm_bits (idBitmap a)"

text \<open>The allocators a client can build.\<close>

inductive id_reach :: "idAllocator \<Rightarrow> bool" where
  new_allocator: "id_reach (NewIDAllocator nm maxIds)"
| allocate_id: "id_reach a \<Longrightarrow> AllocateID nm a = (res, a') \<Longrightarrow> id_reach a'"
| reserve_id: "id_reach a \<Longrightarrow> ReserveID nm i a = Some (res', a') \<Longrightarrow> id_reach a'"
| release_id: "id_reach a \<Longrightarrow> ReleaseID nm a = Some a' \<Longrightarrow> id_reach a'"

lemma inj_on_dom_upd:
  "inj_on m (dom m) \<Longrightarrow> v \<notin> ran m \<Longrightarrow> inj_on (m(k \<mapsto> v)) (dom (m(k \<mapsto> v)))"
  by (auto simp: inj_on_def dom_def ran_def split: if_splits)

lemma inj_on_dom_del: "inj_on m (dom m) \<Longrightarrow> inj_on (m(k := None)) (dom (m(k := None)))"
  by (auto simp: inj_on_def dom_def split: if_splits)

lemma ran_del:
  "inj_on m (dom m) \<Longrightarrow> m k = Some v \<Longrightarrow> ran (m(k := None)) = ran m - {v}"
  by (auto simp: ran_def inj_on_def dom_def split: if_splits) (metis option.inject)

lemma id_wf_New: "id_wf (NewIDAllocator nm maxIds)"
  by (simp add: id_wf_def NewIDAllocator_def) (simp add: NewRoundRobinAllocationMap_def)

lemma id_wf_AllocateID:
  assumes "id_wf a" and "AllocateID nm a = (res, a')"
  shows "id_wf a'"
proof (cases "nameIdMap a nm")
  case None
  note wf = assms(1) [unfolded id_wf_def]
  obtain r bm where r: "bitmap_AllocateNext 0 (idBitmap a) = (r, bm)" by fastforce
  show ?thesis
  proof (cases r)
    case None
    with bitmap_AllocateNext_None [of 0 "idBitmap a" bm] r assms(2) \<open>nameIdMap a nm = None\<close> wf
    show ?thesis by (auto simp: AllocateID_def id_wf_def)
  next
    case (Some i)
    with bitmap_AllocateNext_Some [of 0 "idBitmap a" i bm] r
    have bm: "i \<notin> bm_bits (idBitmap a)" "bm_bits bm = insert i (bm_bits (idBitmap a))" "bitmap_wf bm"
      using wf by auto
    then have "int i \<notin> ran (nameIdMap a)" using wf by auto
    moreover have "a' = a\<lparr>idBitmap := bm, nameIdMap := (nameIdMap a)(nm \<mapsto> int i)\<rparr>"
      using assms(2) \<open>nameIdMap a nm = None\<close> r Some by (simp add: AllocateID_def)
    ultimately show ?thesis using bm wf inj_on_dom_upd [of "nameIdMap a" "int i" nm]
        ran_map_upd [of "nameIdMap a" nm, OF \<open>nameIdMap a nm = None\<close>]
      by (simp add: id_wf_def)
  qed
qed (use assms in \<open>simp add: AllocateID_def\<close>)

lemma id_wf_ReserveID:
  assumes "id_wf a" and "ReserveID nm i a = Some (res, a')"
  shows "id_wf a'"
proof (cases "nameIdMap a nm")
  case None
  note wf = assms(1) [unfolded id_wf_def]
  obtain ok bm where r: "bitmap_Allocate i (idBitmap a) = Some (ok, bm)"
    using assms(2) None by (auto simp: ReserveID_def split: option.splits)
  note eff = bitmap_Allocate_eff [OF r]
  show ?thesis
  proof (cases ok)
    case True
    then have "nat i \<notin> bm_bits (idBitmap a)" "0 \<le> i" using eff by auto
    then have "i \<notin> ran (nameIdMap a)" using wf by auto
    moreover have "a' = a\<lparr>idBitmap := bm, nameIdMap := (nameIdMap a)(nm \<mapsto> i)\<rparr>"
      using assms(2) None r True by (simp add: ReserveID_def)
    ultimately show ?thesis using eff wf inj_on_dom_upd [of "nameIdMap a" i nm]
        ran_map_upd [of "nameIdMap a" nm, OF None]
      by (simp add: id_wf_def)
  next
    case False
    then have "bm = idBitmap a" using r by (auto simp: bitmap_Allocate_def split: if_splits)
    then show ?thesis using assms None r False by (simp add: ReserveID_def id_wf_def)
  qed
qed (use assms in \<open>auto simp: ReserveID_def split: if_splits\<close>)

lemma ReleaseID_eff:
  assumes "id_wf a"
  shows "\<exists>a'. ReleaseID nm a = Some a' \<and> id_wf a' \<and> nameIdMap a' = (nameIdMap a)(nm := None)
    \<and> bm_bits (idBitmap a') = bm_bits (idBitmap a) - (nat ` set_option (nameIdMap a nm))"
proof (cases "nameIdMap a nm")
  case None
  then show ?thesis using assms by (auto simp: ReleaseID_def)
next
  case (Some v)
  note wf = assms [unfolded id_wf_def]
  have "v \<in> ran (nameIdMap a)" using Some by (rule ranI)
  then have v: "0 \<le> v" using wf by auto
  obtain bm where r: "bitmap_Release v (idBitmap a) = Some bm"
    using v by (cases "bit (bm_allocated (idBitmap a)) (nat v)") (auto simp: bitmap_Release_def)
  note eff = bitmap_Release_eff [OF r]
  have "int ` (bm_bits (idBitmap a) - {nat v}) = int ` bm_bits (idBitmap a) - {v}"
    using v by auto
  then show ?thesis
    using Some r eff wf inj_on_dom_del [of "nameIdMap a" nm] ran_del [of "nameIdMap a" nm v]
    by (simp add: ReleaseID_def id_wf_def)
qed

lemma id_reach_wf: "id_reach a \<Longrightarrow> id_wf a"
proof (induction rule: id_reach.induct)
  case (release_id a nm a')
  then show ?case using ReleaseID_eff [of a nm] by auto
qed (auto intro: id_wf_New id_wf_AllocateID id_wf_ReserveID)

section \<open>Properties\<close>

text \<open>C34: After any sequence of calls, no id is held by two names, and the bits set in the bitmap
  are exactly the ids in the name map: an id never leaks and is never shared.\<close>

theorem id_allocator_unique:
  assumes "id_reach a"
  shows "(\<forall>n1 n2 i. nameIdMap a n1 = Some i \<and> nameIdMap a n2 = Some i \<longrightarrow> n1 = n2)
    \<and> int ` bm_bits (idBitmap a) = ran (nameIdMap a)"
  using id_reach_wf [OF assms] by (auto simp: id_wf_def inj_on_def dom_def)

theorem id_allocator_unique_witness:
  "int ` bm_bits (idBitmap (snd (AllocateID ''a'' (NewIDAllocator ''n'' 4)))) =
   ran (nameIdMap (snd (AllocateID ''a'' (NewIDAllocator ''n'' 4))))"
  using id_allocator_unique [OF id_reach.allocate_id [OF id_reach.new_allocator prod.collapse [symmetric]]]
  by blast

lemma AllocateID_result:
  assumes "id_wf a" and "AllocateID nm a = (Inr i, a')"
  shows "nameIdMap a' = (nameIdMap a)(nm \<mapsto> i)"
  using assms by (auto simp: AllocateID_def split: option.splits prod.splits)

text \<open>\<open>AllocateID\<close> is stable until the name is released: after a successful call the name
  has that id, other names keep theirs, a second call returns the same id and changes nothing,
  \<open>ReserveID\<close> of that id for the same name succeeds and of any other id is refused, and after
  \<open>ReleaseID\<close> the id is free again.\<close>

lemma AllocateID_stable:
  assumes "id_reach a" and "AllocateID nm a = (Inr i, a')"
  shows "nameIdMap a' = (nameIdMap a)(nm \<mapsto> i) \<and> AllocateID nm a' = (Inr i, a')
    \<and> ReserveID nm i a' = Some (Inr (), a')
    \<and> (j \<noteq> i \<longrightarrow> ReserveID nm j a' = Some (Inl (IdDifferent j nm i), a'))
    \<and> (\<exists>a''. ReleaseID nm a' = Some a'' \<and> nameIdMap a'' nm = None \<and> \<not> bit (bm_allocated (idBitmap a'')) (nat i))"
proof -
  note wf = id_reach_wf [OF assms(1)]
  note m = AllocateID_result [OF wf assms(2)]
  have "id_wf a'" using id_wf_AllocateID [OF wf assms(2)] .
  from ReleaseID_eff [OF this, of nm] m show ?thesis
    by (auto simp: AllocateID_def [of nm a'] ReserveID_def)
qed

text \<open>\<open>AllocateID\<close> of a new name in an allocator whose ids are all in range fails only when
  every id from 0 to the maximum is held by some name, and \<open>ReserveID\<close> of an id for a new name
  fails only when some other name holds that id.\<close>

lemma id_allocator_errors:
  assumes "id_reach a" and "nameIdMap a nm = None" and "bitmap_inrange (idBitmap a)" and "0 \<le> i"
  shows "((\<exists>e. fst (AllocateID nm a) = Inl e) \<longleftrightarrow>
        ran (nameIdMap a) = int ` {..<nat (bm_max (idBitmap a))})
    \<and> map_option fst (ReserveID nm i a) =
        Some (if i \<in> ran (nameIdMap a) then Inl (IdReservedByOther i) else Inr ())"
proof (intro conjI)
  note wf = id_reach_wf [OF assms(1), unfolded id_wf_def]
  have "(\<exists>e. fst (AllocateID nm a) = Inl e) \<longleftrightarrow> fst (bitmap_AllocateNext 0 (idBitmap a)) = None"
    using assms(2) by (auto simp: AllocateID_def split: prod.splits option.splits)
  also have "\<dots> \<longleftrightarrow> bm_bits (idBitmap a) = {..<nat (bm_max (idBitmap a))}"
  proof (cases "bitmap_AllocateNext 0 (idBitmap a)")
    case (Pair r bm)
    then show ?thesis
      using bitmap_AllocateNext_full [of "idBitmap a" 0 bm] bitmap_AllocateNext_Some [of 0 "idBitmap a" _ bm]
        wf assms(3) by (cases r) auto
  qed
  also have "\<dots> \<longleftrightarrow> ran (nameIdMap a) = int ` {..<nat (bm_max (idBitmap a))}"
    using wf by (metis inj_image_eq_iff inj_of_nat)
  finally show "(\<exists>e. fst (AllocateID nm a) = Inl e) \<longleftrightarrow> ran (nameIdMap a) = int ` {..<nat (bm_max (idBitmap a))}" .
  have "i \<in> ran (nameIdMap a) \<longleftrightarrow> bit (bm_allocated (idBitmap a)) (nat i)"
    using wf assms(4) by (auto simp: image_iff intro!: bexI [of _ "nat i"])
  then show "map_option fst (ReserveID nm i a) =
      Some (if i \<in> ran (nameIdMap a) then Inl (IdReservedByOther i) else Inr ())"
    using assms(2,4) by (simp add: ReserveID_def bitmap_Allocate_def)
qed

text \<open>The finding on \<open>ReserveID\<close>: no range check. An id beyond the maximum is accepted and
  counts against the range, so that allocation fails although an id is free.\<close>

lemma ReserveID_out_of_range:
  "case ReserveID ''a'' 7 (NewIDAllocator ''n'' 1) of
     Some (r, a') \<Rightarrow> r = Inr () \<and> fst (AllocateID ''b'' a') = Inl (IdAllocateFailed ''b'')
   | None \<Rightarrow> False"
  by code_simp

end
