(* ===== verification/Sync_Map.thy ===== *)
theory Sync_Map
  imports Ovn_Prelude
begin

text \<open>
  \<open>pkg/syncmap/syncmap.go\<close>: a map whose keys can be locked whether or not an entry exists. Lock
  objects live in a heap, so that a lock removed from the table may still be referred to; every
  critical section guarded by \<open>keyLocksMutex\<close> or \<open>entriesMutex\<close> is one step. \<open>LockKey\<close> is two
  steps: registering at the key's lock, and acquiring its mutex when another goroutine registered
  first. The step relation interleaves any number of agents. The lemmas show mutual exclusion per
  key, that a registered agent never loses its lock object, that no lock object leaks, that unlocking
  never unlocks an unlocked mutex, and that the holder of a key has exclusive access to its entry.
\<close>

section \<open>State and operations\<close>

record keyLock =
  kl_mutex :: bool
  refCounter :: int

record 'v SyncMap =
  keyLocks :: "string \<rightharpoonup> nat"
  heap :: "keyLock list"
  entries :: "string \<rightharpoonup> 'v"

definition addRef :: "keyLock \<Rightarrow> keyLock" where
  "addRef m = m\<lparr>refCounter := refCounter m + 1\<rparr>"

definition delRef :: "keyLock \<Rightarrow> keyLock" where
  "delRef m = m\<lparr>refCounter := refCounter m - 1\<rparr>"

definition newKeyLock :: keyLock where
  "newKeyLock = \<lparr>kl_mutex = False, refCounter = 0\<rparr>"

definition NewSyncMap :: "'v SyncMap" where
  "NewSyncMap = \<lparr>keyLocks = Map.empty, heap = [], entries = Map.empty\<rparr>"

definition set_lock :: "nat \<Rightarrow> (keyLock \<Rightarrow> keyLock) \<Rightarrow> 'v SyncMap \<Rightarrow> 'v SyncMap" where
  "set_lock l f c = c\<lparr>heap := (heap c)[l := f (heap c ! l)]\<rparr>"

text \<open>\<open>UnlockKey\<close>; unlocking an unlocked mutex is fatal, \<open>None\<close>.\<close>

definition UnlockKey :: "string \<Rightarrow> 'v SyncMap \<Rightarrow> 'v SyncMap option" where
  "UnlockKey lockedKey c =
     (case keyLocks c lockedKey of
        None \<Rightarrow> Some c
      | Some kLock \<Rightarrow>
          let c1 = set_lock kLock delRef c;
              c2 = (if refCounter (heap c1 ! kLock) = 0
                    then c1\<lparr>keyLocks := (keyLocks c1)(lockedKey := None)\<rparr> else c1)
          in if kl_mutex (heap c2 ! kLock) then Some (set_lock kLock (kl_mutex_update (\<lambda>_. False)) c2)
             else None)"

definition loadOrStoreKeyLock :: "string \<Rightarrow> nat \<Rightarrow> 'v SyncMap \<Rightarrow> nat \<times> bool \<times> 'v SyncMap" where
  "loadOrStoreKeyLock lockedKey v c =
     (case keyLocks c lockedKey of
        Some kLock \<Rightarrow> (kLock, True, set_lock kLock addRef c)
      | None \<Rightarrow> (v, False, set_lock v addRef (c\<lparr>keyLocks := (keyLocks c)(lockedKey \<mapsto> v)\<rparr>)))"

text \<open>The part of \<open>LockKey\<close> up to the registration: the lock, and whether the key is already locked
  for the caller.\<close>

definition LockKey_enter :: "string \<Rightarrow> 'v SyncMap \<Rightarrow> nat \<times> bool \<times> 'v SyncMap" where
  "LockKey_enter key c =
     (let newKLock = length (heap c);
          c1 = c\<lparr>heap := heap c @ [newKeyLock\<lparr>kl_mutex := True\<rparr>]\<rparr>
      in case loadOrStoreKeyLock key newKLock c1 of
           (kLock, loaded, c2) \<Rightarrow>
             if \<not> loaded then (kLock, True, c2)
             else (kLock, False, set_lock newKLock (kl_mutex_update (\<lambda>_. False)) c2))"

text \<open>The final \<open>kLock.mutex.Lock()\<close>, which blocks (\<open>None\<close>) while the mutex is locked.\<close>

definition LockKey_acquire :: "nat \<Rightarrow> 'v SyncMap \<Rightarrow> 'v SyncMap option" where
  "LockKey_acquire kLock c =
     (if kl_mutex (heap c ! kLock) then None else Some (set_lock kLock (kl_mutex_update (\<lambda>_. True)) c))"

text \<open>\<open>LockKey\<close> of a caller that is not interleaved with others; \<open>None\<close> when it blocks.\<close>

definition LockKey :: "string \<Rightarrow> 'v SyncMap \<Rightarrow> 'v SyncMap option" where
  "LockKey key c =
     (case LockKey_enter key c of
        (kLock, locked, c1) \<Rightarrow> if locked then Some c1 else LockKey_acquire kLock c1)"

definition sm_Load :: "string \<Rightarrow> 'v SyncMap \<Rightarrow> 'v option" where
  "sm_Load lockedKey c = entries c lockedKey"

definition sm_LoadOrStore :: "string \<Rightarrow> 'v \<Rightarrow> 'v SyncMap \<Rightarrow> 'v \<times> bool \<times> 'v SyncMap" where
  "sm_LoadOrStore lockedKey newEntry c =
     (case entries c lockedKey of
        Some entry \<Rightarrow> (entry, True, c)
      | None \<Rightarrow> (newEntry, False, c\<lparr>entries := (entries c)(lockedKey \<mapsto> newEntry)\<rparr>))"

definition sm_Store :: "string \<Rightarrow> 'v \<Rightarrow> 'v SyncMap \<Rightarrow> 'v SyncMap" where
  "sm_Store lockedKey newEntry c = c\<lparr>entries := (entries c)(lockedKey \<mapsto> newEntry)\<rparr>"

definition sm_Delete :: "string \<Rightarrow> 'v SyncMap \<Rightarrow> 'v SyncMap" where
  "sm_Delete lockedKey c = c\<lparr>entries := (entries c)(lockedKey := None)\<rparr>"

definition sm_GetKeys :: "'v SyncMap \<Rightarrow> string set" where
  "sm_GetKeys c = dom (entries c)"

definition DoWithLock ::
  "string \<Rightarrow> (string \<Rightarrow> 'v SyncMap \<Rightarrow> 'r \<times> 'v SyncMap) \<Rightarrow> 'v SyncMap \<Rightarrow> ('r \<times> 'v SyncMap) option" where
  "DoWithLock key f c =
     (case LockKey key c of
        None \<Rightarrow> None
      | Some c1 \<Rightarrow> (case f key c1 of (r, c2) \<Rightarrow> map_option (Pair r) (UnlockKey key c2)))"

section \<open>Interleaved agents\<close>

text \<open>An agent is one locking session of a goroutine.\<close>

datatype pc = Idle | Waiting string nat | Holding string nat

datatype 'v access = ALoad | ALoadOrStore 'v | AStore 'v | ADelete

fun do_access :: "'v access \<Rightarrow> string \<Rightarrow> 'v SyncMap \<Rightarrow> 'v SyncMap" where
  "do_access ALoad k c = c"
| "do_access (ALoadOrStore v) k c = snd (snd (sm_LoadOrStore k v c))"
| "do_access (AStore v) k c = sm_Store k v c"
| "do_access ADelete k c = sm_Delete k c"

inductive sm_step :: "'a \<Rightarrow> ('a \<Rightarrow> pc) \<Rightarrow> 'v SyncMap \<Rightarrow> ('a \<Rightarrow> pc) \<Rightarrow> 'v SyncMap \<Rightarrow> bool" where
  enter_new: "pcs a = Idle \<Longrightarrow> LockKey_enter k c = (l, True, c') \<Longrightarrow> sm_step a pcs c (pcs(a := Holding k l)) c'"
| enter_wait: "pcs a = Idle \<Longrightarrow> LockKey_enter k c = (l, False, c') \<Longrightarrow> sm_step a pcs c (pcs(a := Waiting k l)) c'"
| acquire: "pcs a = Waiting k l \<Longrightarrow> LockKey_acquire l c = Some c' \<Longrightarrow> sm_step a pcs c (pcs(a := Holding k l)) c'"
| unlock: "pcs a = Holding k l \<Longrightarrow> UnlockKey k c = Some c' \<Longrightarrow> sm_step a pcs c (pcs(a := Idle)) c'"
| access: "pcs a = Holding k l \<Longrightarrow> sm_step a pcs c pcs (do_access x k c)"

inductive_cases sm_stepE: "sm_step a pcs c pcs' c'"

inductive sm_reach :: "('a \<Rightarrow> pc) \<Rightarrow> 'v SyncMap \<Rightarrow> bool" where
  init: "sm_reach (\<lambda>_. Idle) NewSyncMap"
| step: "sm_reach pcs c \<Longrightarrow> sm_step a pcs c pcs' c' \<Longrightarrow> sm_reach pcs' c'"

section \<open>Invariant\<close>

definition users :: "('a \<Rightarrow> pc) \<Rightarrow> string \<Rightarrow> 'a set" where
  "users pcs k = {a. \<exists>l. pcs a = Waiting k l \<or> pcs a = Holding k l}"

text \<open>Every registered agent's lock is the one in the table, the reference counter counts the
  registered agents, the mutex is locked exactly while an agent holds the key, and locks of
  different keys are different objects.\<close>

definition sm_inv :: "('a \<Rightarrow> pc) \<Rightarrow> 'v SyncMap \<Rightarrow> bool" where
  "sm_inv pcs c \<longleftrightarrow>
     (\<forall>a k l. pcs a = Waiting k l \<or> pcs a = Holding k l \<longrightarrow> keyLocks c k = Some l)
   \<and> (\<forall>k l. keyLocks c k = Some l \<longrightarrow> l < length (heap c) \<and> 0 < card (users pcs k)
        \<and> refCounter (heap c ! l) = int (card (users pcs k))
        \<and> (kl_mutex (heap c ! l) \<longleftrightarrow> (\<exists>a. pcs a = Holding k l)))
   \<and> (\<forall>k k' l. keyLocks c k = Some l \<and> keyLocks c k' = Some l \<longrightarrow> k = k')
   \<and> (\<forall>a b k l. pcs a = Holding k l \<and> pcs b = Holding k l \<longrightarrow> a = b)"

lemma sm_invD:
  assumes "sm_inv pcs c"
  shows "pcs a = Waiting k l \<Longrightarrow> keyLocks c k = Some l" "pcs a = Holding k l \<Longrightarrow> keyLocks c k = Some l"
    "keyLocks c k = Some l \<Longrightarrow> l < length (heap c)" "keyLocks c k = Some l \<Longrightarrow> 0 < card (users pcs k)"
    "keyLocks c k = Some l \<Longrightarrow> refCounter (heap c ! l) = int (card (users pcs k))"
    "keyLocks c k = Some l \<Longrightarrow> kl_mutex (heap c ! l) \<longleftrightarrow> (\<exists>a. pcs a = Holding k l)"
    "keyLocks c k = Some l \<Longrightarrow> keyLocks c k' = Some l \<Longrightarrow> k = k'"
    "pcs a = Holding k l \<Longrightarrow> pcs b = Holding k l \<Longrightarrow> a = b"
  using assms unfolding sm_inv_def by blast+

lemma sm_invI:
  assumes "\<And>a k l. pcs a = Waiting k l \<or> pcs a = Holding k l \<Longrightarrow> keyLocks c k = Some l"
    and "\<And>k l. keyLocks c k = Some l \<Longrightarrow> l < length (heap c)"
    and "\<And>k l. keyLocks c k = Some l \<Longrightarrow> 0 < card (users pcs k)"
    and "\<And>k l. keyLocks c k = Some l \<Longrightarrow> refCounter (heap c ! l) = int (card (users pcs k))"
    and "\<And>k l. keyLocks c k = Some l \<Longrightarrow> kl_mutex (heap c ! l) \<longleftrightarrow> (\<exists>a. pcs a = Holding k l)"
    and "\<And>k k' l. keyLocks c k = Some l \<Longrightarrow> keyLocks c k' = Some l \<Longrightarrow> k = k'"
    and "\<And>a b k l. pcs a = Holding k l \<Longrightarrow> pcs b = Holding k l \<Longrightarrow> a = b"
  shows "sm_inv pcs c"
  using assms unfolding sm_inv_def by blast

lemma users_idle: "pcs a = Idle \<Longrightarrow> users (pcs(a := p)) k =
    (if \<exists>l. p = Waiting k l \<or> p = Holding k l then insert a (users pcs k) else users pcs k)"
  by (auto simp: users_def)

lemma users_acquire: "pcs a = Waiting k l \<Longrightarrow> users (pcs(a := Holding k l)) k' = users pcs k'"
  by (auto simp: users_def)

lemma users_unlock: "pcs a = Holding k l \<Longrightarrow> users (pcs(a := Idle)) k' = (if k' = k then users pcs k - {a} else users pcs k')"
  by (auto simp: users_def)

lemma holding_upd:
  "pcs a \<noteq> Holding k l \<Longrightarrow> (\<exists>b. (pcs(a := p)) b = Holding k l) \<longleftrightarrow> p = Holding k l \<or> (\<exists>b. pcs b = Holding k l)"
  by (metis fun_upd_apply)

lemma users_empty: "sm_inv pcs c \<Longrightarrow> keyLocks c k = None \<Longrightarrow> users pcs k = {}"
  using sm_invD(1,2) [of pcs c] by (fastforce simp: users_def)

lemma users_finite: "sm_inv pcs c \<Longrightarrow> finite (users pcs k)"
  by (cases "keyLocks c k") (auto simp: users_empty dest: sm_invD(4) intro: card_ge_0_finite)

lemma enter_new_inv:
  assumes i: "sm_inv pcs c" and p: "pcs a = Idle" and e: "LockKey_enter k c = (l, True, c')"
  shows "sm_inv (pcs(a := Holding k l)) c'"
proof -
  have k: "keyLocks c k = None" and l: "l = length (heap c)"
    and c': "keyLocks c' = (keyLocks c)(k \<mapsto> l)" "heap c' = heap c @ [\<lparr>kl_mutex = True, refCounter = 1\<rparr>]"
    using e by (auto simp: LockKey_enter_def loadOrStoreKeyLock_def Let_def set_lock_def addRef_def newKeyLock_def
        split: option.splits)
  have u: "users (pcs(a := Holding k l)) k' = (if k' = k then {a} else users pcs k')" for k'
    using users_idle [of pcs a, OF p] users_empty [OF i k] by simp
  have old: "keyLocks c k' = Some l' \<Longrightarrow> l' < length (heap c)" for k' l' by (rule sm_invD(3) [OF i])
  show ?thesis
  proof (rule sm_invI)
    show "keyLocks c' k' = Some l'" if "(pcs(a := Holding k l)) b = Waiting k' l' \<or> (pcs(a := Holding k l)) b = Holding k' l'" for b k' l'
      using that sm_invD(1,2) [OF i] k c'(1) by (auto split: if_splits)
    show "(kl_mutex (heap c' ! l')) = (\<exists>b. (pcs(a := Holding k l)) b = Holding k' l')" if "keyLocks c' k' = Some l'" for k' l'
      using that sm_invD(2) [OF i, of _ k' l'] sm_invD(6) [OF i, of k' l'] old p k l c' by (subst holding_upd) (auto simp: nth_append split: if_splits)
    show "b = b'" if "(pcs(a := Holding k l)) b = Holding k' l'" "(pcs(a := Holding k l)) b' = Holding k' l'" for b b' k' l'
      using that sm_invD(2,8) [OF i] k by (auto split: if_splits)
    show "k' = k''" if "keyLocks c' k' = Some l'" "keyLocks c' k'' = Some l'" for k' k'' l'
      using that sm_invD(7) [OF i, of k' l' k''] old [of k' l'] old [of k'' l'] l c'(1) by (auto split: if_splits)
  qed (use sm_invD(4,5) [OF i] old l c' u in \<open>auto simp: nth_append less_SucI split: if_splits\<close>)
qed

text \<open>A step that only adds a garbage lock object to the heap.\<close>

lemma enter_wait_inv:
  assumes i: "sm_inv pcs c" and p: "pcs a = Idle" and e: "LockKey_enter k c = (l, False, c')"
  shows "sm_inv (pcs(a := Waiting k l)) c'"
proof -
  have k: "keyLocks c k = Some l"
    using e by (auto simp: LockKey_enter_def loadOrStoreKeyLock_def Let_def split: option.splits)
  have l: "l < length (heap c)" by (rule sm_invD(3) [OF i k])
  have c': "keyLocks c' = keyLocks c" "heap c' = (heap c)[l := addRef (heap c ! l)] @ [newKeyLock]"
    using e k l by (auto simp: LockKey_enter_def loadOrStoreKeyLock_def Let_def set_lock_def newKeyLock_def
        list_update_append nth_append)
  have u: "users (pcs(a := Waiting k l)) k' = (if k' = k then insert a (users pcs k) else users pcs k')" for k'
    using users_idle [of pcs a, OF p] by simp
  have na: "a \<notin> users pcs k" using p by (simp add: users_def)
  have hp: "refCounter (heap c' ! l') = refCounter (heap c ! l') + (if l' = l then 1 else 0)"
      "kl_mutex (heap c' ! l') = kl_mutex (heap c ! l')" "l' < length (heap c')" if "l' < length (heap c)" for l'
    using that l by (auto simp: c' nth_append nth_list_update addRef_def)
  note old = sm_invD(3) [OF i]
  show ?thesis
  proof (rule sm_invI)
    show "keyLocks c' k' = Some l'" if "(pcs(a := Waiting k l)) b = Waiting k' l' \<or> (pcs(a := Waiting k l)) b = Holding k' l'" for b k' l'
      using that sm_invD(1,2) [OF i] k c'(1) by (auto split: if_splits)
    show "(kl_mutex (heap c' ! l')) = (\<exists>b. (pcs(a := Waiting k l)) b = Holding k' l')" if "keyLocks c' k' = Some l'" for k' l'
      using that sm_invD(6) [OF i, of k' l'] hp old p c'(1) by (subst holding_upd) auto
    show "refCounter (heap c' ! l') = int (card (users (pcs(a := Waiting k l)) k'))" if "keyLocks c' k' = Some l'" for k' l'
    proof -
      have kl: "keyLocks c k' = Some l'" using that c'(1) by simp
      have "l' = l \<longleftrightarrow> k' = k" using kl k sm_invD(7) [OF i k, of k'] by auto
      then show ?thesis using hp(1) [OF old [OF kl]] sm_invD(5) [OF i kl] na users_finite [OF i, of k] by (simp add: u)
    qed
    show "b = b'" if "(pcs(a := Waiting k l)) b = Holding k' l'" "(pcs(a := Waiting k l)) b' = Holding k' l'" for b b' k' l'
      using that sm_invD(8) [OF i] by (auto split: if_splits)
    show "k' = k''" if "keyLocks c' k' = Some l'" "keyLocks c' k'' = Some l'" for k' k'' l'
      using that sm_invD(7) [OF i] c'(1) by auto
  qed (use sm_invD(4) [OF i] hp(3) [OF old] c'(1) u users_finite [OF i] in \<open>auto simp: card_gt_0_iff\<close>)
qed

lemma acquire_inv:
  assumes i: "sm_inv pcs c" and p: "pcs a = Waiting k l" and e: "LockKey_acquire l c = Some c'"
  shows "sm_inv (pcs(a := Holding k l)) c'"
proof -
  have k: "keyLocks c k = Some l" by (rule sm_invD(1) [OF i p])
  have l: "l < length (heap c)" by (rule sm_invD(3) [OF i k])
  have free: "\<not> kl_mutex (heap c ! l)" and c': "keyLocks c' = keyLocks c"
      "heap c' = (heap c)[l := (heap c ! l)\<lparr>kl_mutex := True\<rparr>]"
    using e by (auto simp: LockKey_acquire_def set_lock_def split: if_splits)
  have none: "pcs b \<noteq> Holding k l" for b using free sm_invD(6) [OF i k] by blast
  have hp: "refCounter (heap c' ! l') = refCounter (heap c ! l')"
      "kl_mutex (heap c' ! l') = (l' = l \<or> kl_mutex (heap c ! l'))" if "l' < length (heap c)" for l'
    using that l by (auto simp: c' nth_list_update)
  note old = sm_invD(3) [OF i]
  show ?thesis
  proof (rule sm_invI)
    show "keyLocks c' k' = Some l'" if "(pcs(a := Holding k l)) b = Waiting k' l' \<or> (pcs(a := Holding k l)) b = Holding k' l'" for b k' l'
      using that sm_invD(1,2) [OF i] k c'(1) by (auto split: if_splits)
    show "(kl_mutex (heap c' ! l')) = (\<exists>b. (pcs(a := Holding k l)) b = Holding k' l')" if "keyLocks c' k' = Some l'" for k' l'
      using that sm_invD(6) [OF i, of k' l'] sm_invD(7) [OF i k, of k'] hp(2) [OF old, of k' l'] p k c'(1) by (subst holding_upd) auto
    show "b = b'" if "(pcs(a := Holding k l)) b = Holding k' l'" "(pcs(a := Holding k l)) b' = Holding k' l'" for b b' k' l'
      using that sm_invD(8) [OF i] none by (auto split: if_splits)
    show "k' = k''" if "keyLocks c' k' = Some l'" "keyLocks c' k'' = Some l'" for k' k'' l'
      using that sm_invD(7) [OF i] c'(1) by auto
  qed (use sm_invD(4,5) [OF i] hp(1) [OF old] old c' users_acquire [of pcs a, OF p] in auto)
qed


lemma unlock_inv:
  assumes i: "sm_inv pcs c" and p: "pcs a = Holding k l"
  shows "\<exists>c'. UnlockKey k c = Some c' \<and> entries c' = entries c \<and> sm_inv (pcs(a := Idle)) c'"
proof -
  have k: "keyLocks c k = Some l" by (rule sm_invD(2) [OF i p])
  have l: "l < length (heap c)" by (rule sm_invD(3) [OF i k])
  have locked: "kl_mutex (heap c ! l)" using p sm_invD(6) [OF i k] by blast
  let ?n = "refCounter (heap c ! l) - 1"
  let ?c = "c\<lparr>heap := (heap c)[l := \<lparr>kl_mutex = False, refCounter = ?n\<rparr>],
      keyLocks := (if ?n = 0 then (keyLocks c)(k := None) else keyLocks c)\<rparr>"
  have c': "UnlockKey k c = Some ?c"
    using k l locked by (cases "heap c ! l") (simp add: UnlockKey_def Let_def set_lock_def delRef_def)
  have none: "pcs b = Holding k l \<Longrightarrow> b = a" for b using sm_invD(8) [OF i _ p] .
  have u: "users (pcs(a := Idle)) k' = (if k' = k then users pcs k - {a} else users pcs k')" for k'
    using users_unlock [of pcs a, OF p] .
  have mem: "a \<in> users pcs k" "finite (users pcs k)" using p users_finite [OF i] by (auto simp: users_def)
  then have n: "?n = int (card (users pcs k - {a}))"
    unfolding sm_invD(5) [OF i k] card.remove [OF mem(2,1)] by simp
  have kl: "keyLocks ?c k' = Some l' \<longleftrightarrow> keyLocks c k' = Some l' \<and> (k' = k \<longrightarrow> ?n \<noteq> 0)" for k' l' by auto
  have ne: "keyLocks c k' = Some l' \<Longrightarrow> l' = l \<longleftrightarrow> k' = k" for k' l' using k sm_invD(7) [OF i k, of k'] by auto
  have "sm_inv (pcs(a := Idle)) ?c"
  proof (rule sm_invI, unfold kl)
    show "keyLocks c k' = Some l' \<and> (k' = k \<longrightarrow> ?n \<noteq> 0)"
      if "(pcs(a := Idle)) b = Waiting k' l' \<or> (pcs(a := Idle)) b = Holding k' l'" for b k' l'
    proof -
      have b: "b \<noteq> a" "pcs b = Waiting k' l' \<or> pcs b = Holding k' l'" using that by (auto split: if_splits)
      then have "b \<in> users pcs k' - {a}" by (auto simp: users_def)
      then have "k' = k \<Longrightarrow> card (users pcs k - {a}) \<noteq> 0" using mem(2) by auto
      then show ?thesis using b(2) n sm_invD(1,2) [OF i] by auto
    qed
    fix k' l' assume "keyLocks c k' = Some l' \<and> (k' = k \<longrightarrow> ?n \<noteq> 0)"
    then have a1: "keyLocks c k' = Some l'" and a2: "k' = k \<Longrightarrow> ?n \<noteq> 0" by auto
    note d = sm_invD(3-6) [OF i a1] and e = ne [OF a1]
    show "l' < length (heap ?c)" using d(1) by simp
    show "0 < card (users (pcs(a := Idle)) k')" using d(2) a2 n u by (cases "k' = k") auto
    show "refCounter (heap ?c ! l') = int (card (users (pcs(a := Idle)) k'))"
      using d(1,3) e n u by (cases "k' = k") auto
    show "kl_mutex (heap ?c ! l') = (\<exists>b. (pcs(a := Idle)) b = Holding k' l')"
    proof (cases "k' = k")
      case True
      then show ?thesis using e l none by (auto split: if_splits)
    next
      case False
      then have "pcs a \<noteq> Holding k' l'" using p by simp
      then show ?thesis using False e d(1,4) by (subst holding_upd) auto
    qed
  next
    show "k' = k''" if "keyLocks c k' = Some l' \<and> (k' = k \<longrightarrow> ?n \<noteq> 0)" "keyLocks c k'' = Some l' \<and> (k'' = k \<longrightarrow> ?n \<noteq> 0)" for k' k'' l'
      using that sm_invD(7) [OF i] by blast
    show "b = b'" if "(pcs(a := Idle)) b = Holding k' l'" "(pcs(a := Idle)) b' = Holding k' l'" for b b' k' l'
      using that sm_invD(8) [OF i] by (auto split: if_splits)
  qed
  then show ?thesis using c' by auto
qed

lemma do_access_frame:
  "keyLocks (do_access x k c) = keyLocks c" "heap (do_access x k c) = heap c"
  "k' \<noteq> k \<Longrightarrow> entries (do_access x k c) k' = entries c k'"
  by (cases x; auto simp: sm_LoadOrStore_def sm_Store_def sm_Delete_def split: option.splits)+

lemma access_inv: "sm_inv pcs c \<Longrightarrow> sm_inv pcs (do_access x k c)"
  by (simp add: sm_inv_def do_access_frame)

lemma sm_step_inv: "sm_step a pcs c pcs' c' \<Longrightarrow> sm_inv pcs c \<Longrightarrow> sm_inv pcs' c'"
  by (induction rule: sm_step.induct)
    (auto dest: enter_new_inv enter_wait_inv acquire_inv access_inv unlock_inv)

lemma sm_inv_init: "sm_inv (\<lambda>_. Idle) NewSyncMap"
  by (simp add: sm_inv_def NewSyncMap_def)

lemma sm_reach_inv: "sm_reach pcs c \<Longrightarrow> sm_inv pcs c"
  by (induction rule: sm_reach.induct) (rule sm_inv_init, erule sm_step_inv)

section \<open>Correctness\<close>

text \<open>C15: In every reachable interleaving at most one agent holds a key; the holder can always unlock
  it, without unlocking an unlocked mutex; the table has a lock for a key exactly while some agent is
  registered for it, so that none leaks; and an agent waits only while another one holds the key:
  otherwise it can acquire it.\<close>

theorem sync_map_mutual_exclusion:
  assumes "sm_reach pcs c"
  shows "(pcs a = Holding k l \<and> pcs b = Holding k l' \<longrightarrow> a = b)
    \<and> (pcs a = Holding k l \<longrightarrow> UnlockKey k c \<noteq> None)
    \<and> (keyLocks c k = None \<longleftrightarrow> users pcs k = {})
    \<and> (pcs a = Waiting k l \<longrightarrow> (\<exists>b. b \<noteq> a \<and> pcs b = Holding k l) \<or> LockKey_acquire l c \<noteq> None)"
proof -
  note i = sm_reach_inv [OF assms]
  have "pcs a = Holding k l \<and> pcs b = Holding k l' \<longrightarrow> a = b"
    using sm_invD(2,8) [OF i] by (metis option.inject)
  moreover have "pcs a = Holding k l \<longrightarrow> UnlockKey k c \<noteq> None" using unlock_inv [OF i] by fastforce
  moreover have "keyLocks c k = None \<longleftrightarrow> users pcs k = {}"
    using users_empty [OF i, of k] sm_invD(4) [OF i, of k] by (cases "keyLocks c k") auto
  moreover have "(\<exists>b. b \<noteq> a \<and> pcs b = Holding k l) \<or> LockKey_acquire l c \<noteq> None" if w: "pcs a = Waiting k l"
  proof (cases "kl_mutex (heap c ! l)")
    case True
    then obtain b where "pcs b = Holding k l" using sm_invD(6) [OF i sm_invD(1) [OF i w]] by blast
    then show ?thesis using w by force
  qed (simp add: LockKey_acquire_def)
  ultimately show ?thesis by blast
qed

text \<open>Two agents: the first holds the key, the second waits for it.\<close>

definition example_contended :: "int SyncMap" where
  "example_contended = snd (snd (LockKey_enter ''k'' (snd (snd (LockKey_enter ''k'' NewSyncMap)))))"

lemma example_contended_reach:
  "sm_reach (((\<lambda>_. Idle)(0 := Holding ''k'' 0))(1 := Waiting ''k'' 0) :: nat \<Rightarrow> pc) example_contended"
proof -
  let ?c1 = "snd (snd (LockKey_enter ''k'' NewSyncMap))"
  have "LockKey_enter ''k'' NewSyncMap = (0, True, ?c1)" "LockKey_enter ''k'' ?c1 = (0, False, example_contended)"
    by (simp_all add: example_contended_def LockKey_enter_def loadOrStoreKeyLock_def NewSyncMap_def set_lock_def)
  note e = this
  have "sm_reach ((\<lambda>_. Idle)(0 := Holding ''k'' 0) :: nat \<Rightarrow> pc) ?c1"
    by (rule sm_reach.step [OF sm_reach.init enter_new [OF _ e(1)]]) (rule refl)
  then show ?thesis by (rule sm_reach.step [OF _ enter_wait [OF _ e(2)]]) simp
qed

theorem sync_map_mutual_exclusion_witness:
  "UnlockKey ''k'' example_contended \<noteq> None \<and> keyLocks example_contended ''k'' \<noteq> None"
  using sync_map_mutual_exclusion [OF example_contended_reach, of 0 "''k''" 0 1 0] by (auto simp: users_def)

text \<open>Steps of all agents but one.\<close>

inductive sm_others :: "'a \<Rightarrow> ('a \<Rightarrow> pc) \<Rightarrow> 'v SyncMap \<Rightarrow> ('a \<Rightarrow> pc) \<Rightarrow> 'v SyncMap \<Rightarrow> bool" for a where
  none: "sm_others a pcs c pcs c"
| more: "sm_others a pcs c pcs1 c1 \<Longrightarrow> b \<noteq> a \<Longrightarrow> sm_step b pcs1 c1 pcs2 c2 \<Longrightarrow> sm_others a pcs c pcs2 c2"

lemma lock_steps_entries:
  "LockKey_enter k c = (l, b, c') \<Longrightarrow> entries c' = entries c"
  "LockKey_acquire l c = Some c' \<Longrightarrow> entries c' = entries c"
  "UnlockKey k c = Some c' \<Longrightarrow> entries c' = entries c"
  by (auto simp: LockKey_enter_def loadOrStoreKeyLock_def LockKey_acquire_def UnlockKey_def set_lock_def Let_def
      split: option.splits if_splits)

lemma other_step_frame:
  assumes "sm_step b pcs c pcs' c'" and "sm_inv pcs c" and "b \<noteq> a" and "pcs a = Holding k l"
  shows "pcs' a = Holding k l \<and> entries c' k = entries c k"
  using assms(1)
proof cases
  case (access k' l' x)
  have "k' \<noteq> k" using sm_invD(2,8) [OF assms(2)] assms(3,4) access(3) by (metis option.inject)
  then show ?thesis using access assms(4) by (simp add: do_access_frame)
qed (use assms(3,4) in \<open>auto dest: lock_steps_entries\<close>)

text \<open>While an agent holds a key, nothing the other agents do, however they interleave, changes the
  entry of the key or takes the key away.\<close>

lemma sync_map_exclusive_access:
  assumes "sm_reach pcs c" and "pcs a = Holding k l" and "sm_others a pcs c pcs' c'"
  shows "pcs' a = Holding k l \<and> entries c' k = entries c k"
proof -
  have "sm_inv pcs' c' \<and> pcs' a = Holding k l \<and> entries c' k = entries c k"
    using assms(3) sm_reach_inv [OF assms(1)] assms(2)
    by (induction rule: sm_others.induct) (auto intro: sm_step_inv dest: other_step_frame)
  then show ?thesis by blast
qed

text \<open>\<open>DoWithLock\<close> on a key nobody is registered for runs the function and leaves the lock table as it was.\<close>

lemma DoWithLock_free:
  assumes "keyLocks c k = None"
    and "\<And>c1. keyLocks (snd (f k c1)) = keyLocks c1 \<and> heap (snd (f k c1)) = heap c1"
  shows "\<exists>c1 c'. DoWithLock k f c = Some (fst (f k c1), c') \<and> entries c1 = entries c
    \<and> entries c' = entries (snd (f k c1)) \<and> keyLocks c' = keyLocks c"
proof -
  let ?c1 = "snd (snd (LockKey_enter k c))"
  have c1: "LockKey k c = Some ?c1" "entries ?c1 = entries c" "keyLocks ?c1 = (keyLocks c)(k \<mapsto> length (heap c))"
      "heap ?c1 = heap c @ [\<lparr>kl_mutex = True, refCounter = 1\<rparr>]"
    using assms(1) by (simp_all add: LockKey_def LockKey_enter_def loadOrStoreKeyLock_def set_lock_def addRef_def newKeyLock_def Let_def)
  obtain r c2 where f: "f k ?c1 = (r, c2)" by fastforce
  then have c2: "keyLocks c2 = keyLocks ?c1" "heap c2 = heap ?c1" using assms(2) [of ?c1] by simp_all
  obtain c' where "UnlockKey k c2 = Some c'" "keyLocks c' = keyLocks c" "entries c' = entries c2"
    using c1(3,4) assms(1) by (auto simp: UnlockKey_def c2 set_lock_def delRef_def fun_upd_idem)
  then show ?thesis using c1 f by (intro exI [of _ ?c1] exI [of _ c']) (simp add: DoWithLock_def)
qed

end
