(* ===== verification/Retry_Framework.thy ===== *)
theory Retry_Framework
  imports Sync_Map
begin

text \<open>
  The retry framework (\<open>pkg/retry/obj_retry.go\<close>): the cache of objects whose add, update or delete
  failed, the handlers of the informer events that fill it, and the periodic retry with backoff.

  The event handler of a resource type is a record of functions over a state \<open>'s\<close>, the world it acts
  on; \<open>'o\<close> is the type of the objects, and an \<open>interface{}\<close> that may be \<open>nil\<close> is an \<open>'o option\<close>. A
  handler call returns the error, if any, and the new world. The retry entries are a map from keys: the
  key lock of the sync map (theory \<open>Sync_Map\<close>) is held during each operation on a key, so one operation
  is one step. Times are in milliseconds; the clock readings and the jitter are arguments. Metrics,
  events and logs are left out.
\<close>

section \<open>State\<close>

definition RetryObjInterval :: int where
  "RetryObjInterval = 30 * 1000"

definition MaxFailedAttempts :: byte where
  "MaxFailedAttempts = 15"

definition initialBackoff :: int where
  "initialBackoff = 1"

definition noBackoff :: int where
  "noBackoff = 0"

record 'o retryObjEntry =
  re_newObj :: "'o option"
  re_oldObj :: "'o option"
  re_config :: "'o option"
  re_timeStamp :: int
  re_backoffSec :: int
  re_failedAttempts :: byte

datatype lookup_error = LookupNotFound | LookupOther

record ('o, 's) ResourceHandler =
  HasUpdateFunc :: bool
  NeedsUpdateDuringRetry :: bool
  h_AddResource :: "'o \<Rightarrow> bool \<Rightarrow> 's \<Rightarrow> string option \<times> 's"
  h_UpdateResource :: "'o \<Rightarrow> 'o \<Rightarrow> bool \<Rightarrow> 's \<Rightarrow> string option \<times> 's"
  h_DeleteResource :: "'o \<Rightarrow> 'o option \<Rightarrow> 's \<Rightarrow> string option \<times> 's"
  h_GetResourceFromInformerCache :: "string \<Rightarrow> 's \<Rightarrow> lookup_error + 'o"
  h_AreResourcesEqual :: "'o \<Rightarrow> 'o \<Rightarrow> string + bool"
  h_GetInternalCacheEntry :: "'o \<Rightarrow> 's \<Rightarrow> 'o option"
  h_IsResourceScheduled :: "'o \<Rightarrow> bool"
  h_IsObjectInTerminalState :: "'o \<Rightarrow> bool"
  h_GetResourceKey :: "'o \<Rightarrow> string option"

record ('o, 's) RetryFramework =
  retryEntries :: "string \<rightharpoonup> 'o retryObjEntry"
  retryChan :: bool
  terminatedObjects :: "string set"
  rt_world :: 's

definition NewRetryFramework :: "'s \<Rightarrow> ('o, 's) RetryFramework" where
  "NewRetryFramework w = \<lparr>retryEntries = Map.empty, retryChan = False, terminatedObjects = {}, rt_world = w\<rparr>"

text \<open>The methods of \<open>DefaultEventHandler\<close>, embedded by the handlers that do not define them.\<close>

definition default_AreResourcesEqual :: "'o \<Rightarrow> 'o \<Rightarrow> string + bool" where
  "default_AreResourcesEqual obj1 obj2 = Inr False"

definition default_GetInternalCacheEntry :: "'o \<Rightarrow> 's \<Rightarrow> 'o option" where
  "default_GetInternalCacheEntry obj w = None"

definition default_IsResourceScheduled :: "'o \<Rightarrow> bool" where
  "default_IsResourceScheduled obj = True"

definition default_IsObjectInTerminalState :: "'o \<Rightarrow> bool" where
  "default_IsObjectInTerminalState obj = False"

section \<open>Retry entries\<close>

definition emptyEntry :: "'o retryObjEntry" where
  "emptyEntry = \<lparr>re_newObj = None, re_oldObj = None, re_config = None, re_timeStamp = 0,
     re_backoffSec = 0, re_failedAttempts = 0\<rparr>"

text \<open>\<open>LoadOrStore\<close> followed by writes through the pointer it returns.\<close>

definition upsert ::
  "string \<Rightarrow> 'o retryObjEntry \<Rightarrow> ('o retryObjEntry \<Rightarrow> 'o retryObjEntry) \<Rightarrow> ('o, 's) RetryFramework \<Rightarrow> ('o, 's) RetryFramework" where
  "upsert key fresh g r =
     r\<lparr>retryEntries := (retryEntries r)(key \<mapsto> g (case retryEntries r key of Some entry \<Rightarrow> entry | None \<Rightarrow> fresh))\<rparr>"

text \<open>A write through a pointer to a stored entry.\<close>

definition on_entry ::
  "string \<Rightarrow> ('o retryObjEntry \<Rightarrow> 'o retryObjEntry) \<Rightarrow> ('o, 's) RetryFramework \<Rightarrow> ('o, 's) RetryFramework" where
  "on_entry key g r = r\<lparr>retryEntries := (retryEntries r)(key := map_option g (retryEntries r key))\<rparr>"

definition initRetryObjWithAddBackoff ::
  "'o \<Rightarrow> string \<Rightarrow> int \<Rightarrow> int \<Rightarrow> ('o, 's) RetryFramework \<Rightarrow> ('o, 's) RetryFramework" where
  "initRetryObjWithAddBackoff obj key backoff now =
     upsert key (emptyEntry\<lparr>re_backoffSec := backoff\<rparr>)
       (\<lambda>entry. entry\<lparr>re_timeStamp := now, re_newObj := Some obj, re_failedAttempts := 0, re_backoffSec := backoff\<rparr>)"

definition initRetryObjWithAdd :: "'o \<Rightarrow> string \<Rightarrow> int \<Rightarrow> ('o, 's) RetryFramework \<Rightarrow> ('o, 's) RetryFramework" where
  "initRetryObjWithAdd obj key now = initRetryObjWithAddBackoff obj key initialBackoff now"

definition initRetryObjWithUpdate ::
  "'o \<Rightarrow> 'o \<Rightarrow> string \<Rightarrow> int \<Rightarrow> ('o, 's) RetryFramework \<Rightarrow> ('o, 's) RetryFramework" where
  "initRetryObjWithUpdate oldObj newObj key now =
     upsert key (emptyEntry\<lparr>re_config := Some oldObj, re_backoffSec := initialBackoff\<rparr>)
       (\<lambda>entry. entry\<lparr>re_timeStamp := now, re_newObj := Some newObj, re_config := Some oldObj, re_failedAttempts := 0\<rparr>)"

definition InitRetryObjWithDelete ::
  "'o \<Rightarrow> string \<Rightarrow> 'o option \<Rightarrow> bool \<Rightarrow> int \<Rightarrow> ('o, 's) RetryFramework \<Rightarrow> ('o, 's) RetryFramework" where
  "InitRetryObjWithDelete obj key cfg noRetryAdd now =
     upsert key (emptyEntry\<lparr>re_config := cfg, re_backoffSec := initialBackoff\<rparr>)
       (\<lambda>entry.
          let e1 = entry\<lparr>re_timeStamp := now, re_oldObj := Some obj\<rparr>;
              e2 = (if re_config e1 = None then e1\<lparr>re_config := cfg\<rparr> else e1);
              e3 = e2\<lparr>re_failedAttempts := 0\<rparr>
          in if noRetryAdd then e3\<lparr>re_newObj := None\<rparr> else e3)"

definition AddRetryObjWithAddNoBackoff ::
  "('o, 's) ResourceHandler \<Rightarrow> 'o \<Rightarrow> int \<Rightarrow> ('o, 's) RetryFramework \<Rightarrow> (string + unit) \<times> ('o, 's) RetryFramework" where
  "AddRetryObjWithAddNoBackoff h obj now r =
     (case h_GetResourceKey h obj of
        None \<Rightarrow> (Inl ''could not get the key'', r)
      | Some key \<Rightarrow> (Inr (), initRetryObjWithAddBackoff obj key noBackoff now r))"

definition getRetryObj :: "string \<Rightarrow> ('o, 's) RetryFramework \<Rightarrow> 'o retryObjEntry option" where
  "getRetryObj key r = retryEntries r key"

definition DeleteRetryObj :: "string \<Rightarrow> ('o, 's) RetryFramework \<Rightarrow> ('o, 's) RetryFramework" where
  "DeleteRetryObj key r = r\<lparr>retryEntries := (retryEntries r)(key := None)\<rparr>"

definition setRetryObjWithNoBackoff :: "'o retryObjEntry \<Rightarrow> 'o retryObjEntry" where
  "setRetryObjWithNoBackoff entry = entry\<lparr>re_backoffSec := noBackoff\<rparr>"

definition removeDeleteFromRetryObj :: "'o retryObjEntry \<Rightarrow> 'o retryObjEntry" where
  "removeDeleteFromRetryObj entry = entry\<lparr>re_oldObj := None, re_config := None\<rparr>"

definition increaseFailedAttemptsCounter :: "'o retryObjEntry \<Rightarrow> 'o retryObjEntry" where
  "increaseFailedAttemptsCounter entry = entry\<lparr>re_failedAttempts := re_failedAttempts entry + 1\<rparr>"

text \<open>The channel has room for one request; a second one is dropped.\<close>

definition RequestRetryObjs :: "('o, 's) RetryFramework \<Rightarrow> ('o, 's) RetryFramework" where
  "RequestRetryObjs r = r\<lparr>retryChan := True\<rparr>"

section \<open>One retry\<close>

definition failed_at :: "int \<Rightarrow> 'o retryObjEntry \<Rightarrow> 'o retryObjEntry" where
  "failed_at t entry = increaseFailedAttemptsCounter (entry\<lparr>re_timeStamp := t\<rparr>)"

definition double_backoff :: "'o retryObjEntry \<Rightarrow> 'o retryObjEntry" where
  "double_backoff entry = entry\<lparr>re_backoffSec := (if re_backoffSec entry * 2 > 60 then 60 else re_backoffSec entry * 2)\<rparr>"

text \<open>The latest version of the object to add: \<open>None\<close> when the lookup fails for another reason than that
  the object is gone.\<close>

definition refresh_new ::
  "('o, 's) ResourceHandler \<Rightarrow> string \<Rightarrow> 's \<Rightarrow> 'o retryObjEntry \<Rightarrow> 'o retryObjEntry option" where
  "refresh_new h key w entry =
     (if re_newObj entry = None then Some entry
      else case h_GetResourceFromInformerCache h key w of
          Inl LookupNotFound \<Rightarrow> Some (entry\<lparr>re_newObj := None\<rparr>)
        | Inl LookupOther \<Rightarrow> None
        | Inr obj \<Rightarrow> Some (entry\<lparr>re_newObj := Some obj\<rparr>))"

text \<open>The outcome of an attempt: the entry to keep, or \<open>None\<close> when all is done.\<close>

definition attempt_update ::
  "('o, 's) ResourceHandler \<Rightarrow> int \<Rightarrow> 'o retryObjEntry \<Rightarrow> 's \<Rightarrow> 'o retryObjEntry option \<times> 's" where
  "attempt_update h t entry w =
     (case h_UpdateResource h (the (re_config entry)) (the (re_newObj entry)) True w of
        (Some err, w1) \<Rightarrow> (Some (failed_at t entry), w1)
      | (None, w1) \<Rightarrow> (None, w1))"

definition attempt_add ::
  "('o, 's) ResourceHandler \<Rightarrow> int \<Rightarrow> 'o retryObjEntry \<Rightarrow> 's \<Rightarrow> 'o retryObjEntry option \<times> 's" where
  "attempt_add h t entry w =
     (case re_newObj entry of
        None \<Rightarrow> (None, w)
      | Some obj \<Rightarrow>
          if \<not> h_IsResourceScheduled h obj then (Some (increaseFailedAttemptsCounter entry), w)
          else case h_AddResource h obj True w of
              (Some err, w1) \<Rightarrow> (Some (failed_at t entry), w1)
            | (None, w1) \<Rightarrow> (None, w1))"

definition attempt_delete_add ::
  "('o, 's) ResourceHandler \<Rightarrow> int \<Rightarrow> 'o retryObjEntry \<Rightarrow> 's \<Rightarrow> 'o retryObjEntry option \<times> 's" where
  "attempt_delete_add h t entry w =
     (case re_oldObj entry of
        None \<Rightarrow> attempt_add h t entry w
      | Some obj \<Rightarrow>
          if \<not> h_IsResourceScheduled h obj then (Some (increaseFailedAttemptsCounter entry), w)
          else case h_DeleteResource h obj (re_config entry) w of
              (Some err, w1) \<Rightarrow> (Some (failed_at t entry), w1)
            | (None, w1) \<Rightarrow> attempt_add h t (entry\<lparr>re_oldObj := None\<rparr>) w1)"

definition retry_due :: "'o retryObjEntry \<Rightarrow> int \<Rightarrow> int \<Rightarrow> bool" where
  "retry_due entry now jitter \<longleftrightarrow>
     re_backoffSec entry = noBackoff \<or> \<not> now < re_timeStamp entry + (re_backoffSec entry * 1000 + jitter)"

definition attempt ::
  "('o, 's) ResourceHandler \<Rightarrow> string \<Rightarrow> int \<Rightarrow> 'o retryObjEntry \<Rightarrow> 's \<Rightarrow> 'o retryObjEntry option \<times> 's" where
  "attempt h key t entry w =
     (let e1 = double_backoff (if re_backoffSec entry = noBackoff then entry\<lparr>re_backoffSec := initialBackoff\<rparr> else entry)
      in case refresh_new h key w e1 of
           None \<Rightarrow> (Some e1, w)
         | Some e2 \<Rightarrow>
             if NeedsUpdateDuringRetry h \<and> re_config e2 \<noteq> None \<and> re_newObj e2 \<noteq> None
             then attempt_update h t e2 w else attempt_delete_add h t e2 w)"

definition resourceRetry ::
  "('o, 's) ResourceHandler \<Rightarrow> string \<Rightarrow> int \<Rightarrow> int \<Rightarrow> int \<Rightarrow> ('o, 's) RetryFramework \<Rightarrow> ('o, 's) RetryFramework" where
  "resourceRetry h key now jitter t r =
     (case getRetryObj key r of
        None \<Rightarrow> r
      | Some entry \<Rightarrow>
          if re_failedAttempts entry \<ge> MaxFailedAttempts then DeleteRetryObj key r
          else if \<not> retry_due entry now jitter then r
          else case attempt h key t entry (rt_world r) of
              (kept, w) \<Rightarrow> r\<lparr>retryEntries := (retryEntries r)(key := kept), rt_world := w\<rparr>)"

text \<open>The goroutines of \<open>iterateRetryResources\<close> run one operation per key of the snapshot, in some order;
  each element of the list is a key with its jitter and its clock reading.\<close>

definition iterateRetryResources ::
  "('o, 's) ResourceHandler \<Rightarrow> int \<Rightarrow> (string \<times> int \<times> int) list \<Rightarrow> ('o, 's) RetryFramework \<Rightarrow> ('o, 's) RetryFramework" where
  "iterateRetryResources h now runs r = fold (\<lambda>(key, jitter, t). resourceRetry h key now jitter t) runs r"

section \<open>Informer events\<close>

definition on_world :: "('s \<Rightarrow> 'a \<times> 's) \<Rightarrow> ('o, 's) RetryFramework \<Rightarrow> 'a \<times> ('o, 's) RetryFramework" where
  "on_world g r = (case g (rt_world r) of (x, w) \<Rightarrow> (x, r\<lparr>rt_world := w\<rparr>))"

definition processObjectInTerminalState ::
  "('o, 's) ResourceHandler \<Rightarrow> 'o \<Rightarrow> string \<Rightarrow> int \<Rightarrow> ('o, 's) RetryFramework \<Rightarrow> ('o, 's) RetryFramework" where
  "processObjectInTerminalState h obj key now r =
     (if key \<in> terminatedObjects r then r
      else let r1 = r\<lparr>terminatedObjects := insert key (terminatedObjects r)\<rparr>;
               internal = h_GetInternalCacheEntry h obj (rt_world r1)
           in case on_world (h_DeleteResource h obj internal) (InitRetryObjWithDelete obj key internal True now r1) of
                (Some err, r2) \<Rightarrow> on_entry key increaseFailedAttemptsCounter r2
              | (None, r2) \<Rightarrow> DeleteRetryObj key r2)"

text \<open>The part of the add event after a stale object is out of the way.\<close>

definition add_object :: "('o, 's) ResourceHandler \<Rightarrow> 'o \<Rightarrow> string \<Rightarrow> ('o, 's) RetryFramework \<Rightarrow> ('o, 's) RetryFramework" where
  "add_object h obj key r =
     (case on_world (h_AddResource h obj False) r of
        (Some err, r1) \<Rightarrow> on_entry key increaseFailedAttemptsCounter r1
      | (None, r1) \<Rightarrow> DeleteRetryObj key r1)"

definition AddFunc :: "('o, 's) ResourceHandler \<Rightarrow> 'o \<Rightarrow> int \<Rightarrow> ('o, 's) RetryFramework \<Rightarrow> ('o, 's) RetryFramework" where
  "AddFunc h obj now r =
     (case h_GetResourceKey h obj of
        None \<Rightarrow> r
      | Some key \<Rightarrow>
          if h_IsObjectInTerminalState h obj then processObjectInTerminalState h obj key now r
          else let r1 = initRetryObjWithAdd obj key now r
               in case Option.bind (getRetryObj key r1) re_oldObj of
                    None \<Rightarrow> add_object h obj key r1
                  | Some stale \<Rightarrow>
                      (case on_world (h_DeleteResource h stale (h_GetInternalCacheEntry h obj (rt_world r1))) r1 of
                         (Some err, r2) \<Rightarrow> on_entry key increaseFailedAttemptsCounter r2
                       | (None, r2) \<Rightarrow> add_object h obj key (on_entry key removeDeleteFromRetryObj r2)))"

text \<open>The second step of the update event: the update function, or the addition of the new object.\<close>

definition update_step2 ::
  "('o, 's) ResourceHandler \<Rightarrow> 'o \<Rightarrow> 'o \<Rightarrow> bool \<Rightarrow> string \<Rightarrow> int \<Rightarrow> ('o, 's) RetryFramework \<Rightarrow> ('o, 's) RetryFramework" where
  "update_step2 h old latest found key now r =
     (if HasUpdateFunc h then
        (case on_world (h_UpdateResource h old latest found) r of
           (Some err, r1) \<Rightarrow>
             on_entry key increaseFailedAttemptsCounter
               (if NeedsUpdateDuringRetry h then initRetryObjWithUpdate old latest key now r1
                else initRetryObjWithAdd latest key now r1)
         | (None, r1) \<Rightarrow> DeleteRetryObj key r1)
      else
        (case on_world (h_AddResource h latest False) r of
           (Some err, r1) \<Rightarrow> on_entry key increaseFailedAttemptsCounter (initRetryObjWithAdd latest key now r1)
         | (None, r1) \<Rightarrow> DeleteRetryObj key r1))"

definition update_locked ::
  "('o, 's) ResourceHandler \<Rightarrow> 'o \<Rightarrow> 'o \<Rightarrow> string \<Rightarrow> int \<Rightarrow> ('o, 's) RetryFramework \<Rightarrow> ('o, 's) RetryFramework" where
  "update_locked h old latest key now r =
     (let entry = getRetryObj key r; found = (entry \<noteq> None)
      in case Option.bind entry re_oldObj of
           Some stale \<Rightarrow>
             (case on_world (h_DeleteResource h stale (re_config (the entry))) r of
                (Some err, r1) \<Rightarrow> on_entry key increaseFailedAttemptsCounter (initRetryObjWithAdd latest key now r1)
              | (None, r1) \<Rightarrow> update_step2 h old latest found key now (on_entry key removeDeleteFromRetryObj r1))
         | None \<Rightarrow>
             if h_IsObjectInTerminalState h latest then processObjectInTerminalState h latest key now r
             else if \<not> HasUpdateFunc h then
               (case on_world (h_DeleteResource h old (Option.bind entry re_config)) r of
                  (Some err, r1) \<Rightarrow>
                    on_entry key increaseFailedAttemptsCounter
                      (initRetryObjWithAdd latest key now (InitRetryObjWithDelete old key None False now r1))
                | (None, r1) \<Rightarrow> update_step2 h old latest found key now (on_entry key removeDeleteFromRetryObj r1))
             else update_step2 h old latest found key now r)"

definition UpdateFunc ::
  "('o, 's) ResourceHandler \<Rightarrow> 'o \<Rightarrow> 'o \<Rightarrow> int \<Rightarrow> ('o, 's) RetryFramework \<Rightarrow> ('o, 's) RetryFramework" where
  "UpdateFunc h old newer now r =
     (if h_AreResourcesEqual h old newer \<noteq> Inr False then r
      else case (h_GetResourceKey h newer, h_GetResourceKey h old) of
          (Some newKey, Some oldKey) \<Rightarrow>
            if newKey \<noteq> oldKey then r
            else (case h_GetResourceFromInformerCache h newKey (rt_world r) of
                    Inl LookupNotFound \<Rightarrow>
                      if h_IsObjectInTerminalState h newer then processObjectInTerminalState h newer newKey now r else r
                  | Inl LookupOther \<Rightarrow> r
                  | Inr latest \<Rightarrow> update_locked h old latest newKey now r)
        | _ \<Rightarrow> r)"

definition DeleteFunc :: "('o, 's) ResourceHandler \<Rightarrow> 'o \<Rightarrow> int \<Rightarrow> ('o, 's) RetryFramework \<Rightarrow> ('o, 's) RetryFramework" where
  "DeleteFunc h obj now r =
     (case h_GetResourceKey h obj of
        None \<Rightarrow> r
      | Some key \<Rightarrow>
          if h_IsObjectInTerminalState h obj \<and> key \<in> terminatedObjects r
          then r\<lparr>terminatedObjects := terminatedObjects r - {key}\<rparr>
          else let internal = h_GetInternalCacheEntry h obj (rt_world r)
               in case on_world (h_DeleteResource h obj internal) (InitRetryObjWithDelete obj key internal False now r) of
                    (Some err, r1) \<Rightarrow> on_entry key increaseFailedAttemptsCounter r1
                  | (None, r1) \<Rightarrow> DeleteRetryObj key r1)"

section \<open>Runs\<close>

text \<open>Everything that happens to the framework; \<open>env\<close> is what others do to the world in between.\<close>

inductive retry_step ::
  "('o, 's) ResourceHandler \<Rightarrow> ('s \<Rightarrow> 's \<Rightarrow> bool) \<Rightarrow> ('o, 's) RetryFramework \<Rightarrow> ('o, 's) RetryFramework \<Rightarrow> bool"
  for h :: "('o, 's) ResourceHandler" and env :: "'s \<Rightarrow> 's \<Rightarrow> bool" where
  added: "retry_step h env r (AddFunc h obj now r)"
| updated: "retry_step h env r (UpdateFunc h old newer now r)"
| deleted: "retry_step h env r (DeleteFunc h obj now r)"
| requested: "retry_step h env r (RequestRetryObjs r)"
| readd: "retry_step h env r (snd (AddRetryObjWithAddNoBackoff h obj now r))"
| retried: "retry_step h env r (resourceRetry h key now jitter t r)"
| iterated: "retry_step h env r (iterateRetryResources h now runs (r\<lparr>retryChan := False\<rparr>))"
| outside: "env (rt_world r) w \<Longrightarrow> retry_step h env r (r\<lparr>rt_world := w\<rparr>)"


section \<open>What every entry satisfies\<close>

definition has_object :: "'o retryObjEntry \<Rightarrow> bool" where
  "has_object e \<longleftrightarrow> re_newObj e \<noteq> None \<or> re_oldObj e \<noteq> None"

definition backoffs :: "int set" where
  "backoffs = {0, 1, 2, 4, 8, 16, 32, 60}"

definition entry_ok :: "'o retryObjEntry \<Rightarrow> bool" where
  "entry_ok e \<longleftrightarrow> has_object e \<and> re_failedAttempts e \<le> MaxFailedAttempts \<and> re_backoffSec e \<in> backoffs"

text \<open>An entry whose counter was just reset: it can be counted up once.\<close>

definition entry_reset :: "'o retryObjEntry \<Rightarrow> bool" where
  "entry_reset e \<longleftrightarrow> has_object e \<and> re_failedAttempts e = 0 \<and> re_backoffSec e \<in> backoffs"

definition retry_inv :: "('o, 's) RetryFramework \<Rightarrow> bool" where
  "retry_inv r \<longleftrightarrow> (\<forall>key e. retryEntries r key = Some e \<longrightarrow> entry_ok e)"

text \<open>All entries are in order but that of \<open>key\<close>, which satisfies \<open>P\<close>.\<close>

definition inv_at :: "string \<Rightarrow> ('o retryObjEntry \<Rightarrow> bool) \<Rightarrow> ('o, 's) RetryFramework \<Rightarrow> bool" where
  "inv_at key P r \<longleftrightarrow> (\<forall>k e. retryEntries r k = Some e \<longrightarrow> (if k = key then P e else entry_ok e))"

lemma retry_inv_at: "retry_inv r \<longleftrightarrow> inv_at key entry_ok r"
  by (auto simp: retry_inv_def inv_at_def)

lemma inv_at_weaken: "inv_at key P r \<Longrightarrow> (\<And>e. P e \<Longrightarrow> Q e) \<Longrightarrow> inv_at key Q r"
  by (auto simp: inv_at_def split: if_splits)

lemma inv_at_world [simp]: "inv_at key P (r\<lparr>rt_world := w\<rparr>) = inv_at key P r"
  by (simp add: inv_at_def)

lemma inv_at_terminated [simp]: "inv_at key P (r\<lparr>terminatedObjects := w\<rparr>) = inv_at key P r"
  by (simp add: inv_at_def)

lemma retry_inv_plain [simp]:
  "retry_inv (r\<lparr>rt_world := w\<rparr>) = retry_inv r"
  "retry_inv (r\<lparr>terminatedObjects := d\<rparr>) = retry_inv r"
  "retry_inv (r\<lparr>retryChan := b\<rparr>) = retry_inv r"
  by (simp_all add: retry_inv_def)

lemma inv_at_on_world: "on_world g r = (x, r') \<Longrightarrow> inv_at key P r' = inv_at key P r"
  by (auto simp: on_world_def split: prod.splits)

lemma retry_inv_DeleteRetryObj: "inv_at key P r \<Longrightarrow> retry_inv (DeleteRetryObj key r)"
  by (auto simp: retry_inv_def inv_at_def DeleteRetryObj_def split: if_splits)

lemma inv_at_upsert:
  assumes "inv_at key Q r" "\<And>e. Q e \<Longrightarrow> P (g e)" "P (g fresh)"
  shows "inv_at key P (upsert key fresh g r)"
  using assms by (auto simp: upsert_def inv_at_def split: if_splits option.splits)

lemma inv_at_on_entry:
  assumes "inv_at key Q r" "\<And>e. Q e \<Longrightarrow> P (g e)"
  shows "inv_at key P (on_entry key g r)"
  using assms by (auto simp: on_entry_def inv_at_def split: if_splits)

lemma entry_ok_reset: "entry_reset e \<Longrightarrow> entry_ok e"
  by (simp add: entry_reset_def entry_ok_def MaxFailedAttempts_def)

lemma entry_reset_increase: "entry_reset e \<Longrightarrow> entry_ok (increaseFailedAttemptsCounter e)"
  by (simp add: entry_reset_def entry_ok_def increaseFailedAttemptsCounter_def has_object_def MaxFailedAttempts_def)

lemma retry_inv_increase: "inv_at key entry_reset r \<Longrightarrow> retry_inv (on_entry key increaseFailedAttemptsCounter r)"
  unfolding retry_inv_at [of _ key] by (erule inv_at_on_entry) (rule entry_reset_increase)

lemma inv_at_reset_add:
  "inv_at key Q r \<Longrightarrow> backoff \<in> backoffs \<Longrightarrow> inv_at key entry_reset (initRetryObjWithAddBackoff obj key backoff now r)"
  unfolding initRetryObjWithAddBackoff_def
  by (erule inv_at_upsert) (simp_all add: entry_reset_def has_object_def)

lemma inv_at_add: "inv_at key Q r \<Longrightarrow> inv_at key entry_reset (initRetryObjWithAdd obj key now r)"
  unfolding initRetryObjWithAdd_def by (erule inv_at_reset_add) (simp add: initialBackoff_def backoffs_def)

lemma inv_at_update:
  "inv_at key (\<lambda>e. re_backoffSec e \<in> backoffs) r \<Longrightarrow> inv_at key entry_reset (initRetryObjWithUpdate old latest key now r)"
  unfolding initRetryObjWithUpdate_def
  by (erule inv_at_upsert) (simp_all add: entry_reset_def has_object_def initialBackoff_def backoffs_def)

lemma inv_at_delete:
  "inv_at key (\<lambda>e. re_backoffSec e \<in> backoffs) r
    \<Longrightarrow> inv_at key entry_reset (InitRetryObjWithDelete obj key cfg noRetryAdd now r)"
  unfolding InitRetryObjWithDelete_def
  by (erule inv_at_upsert)
    (simp_all add: entry_reset_def has_object_def initialBackoff_def backoffs_def Let_def emptyEntry_def)

lemma inv_at_backoff: "inv_at key entry_ok r \<Longrightarrow> inv_at key (\<lambda>e. re_backoffSec e \<in> backoffs) r"
  by (erule inv_at_weaken) (simp add: entry_ok_def)

lemma inv_at_remove_delete:
  "inv_at key (\<lambda>e. re_backoffSec e \<in> backoffs) r
    \<Longrightarrow> inv_at key (\<lambda>e. re_backoffSec e \<in> backoffs) (on_entry key removeDeleteFromRetryObj r)"
  by (erule inv_at_on_entry) (simp add: removeDeleteFromRetryObj_def)

lemma getRetryObj_add:
  "getRetryObj key (initRetryObjWithAddBackoff obj key backoff now r) =
     Some ((case retryEntries r key of Some e \<Rightarrow> e | None \<Rightarrow> emptyEntry)
       \<lparr>re_timeStamp := now, re_newObj := Some obj, re_failedAttempts := 0, re_backoffSec := backoff\<rparr>)"
  by (simp add: getRetryObj_def initRetryObjWithAddBackoff_def upsert_def emptyEntry_def split: option.splits)

subsection \<open>Events\<close>

lemma retry_inv_terminal:
  assumes "retry_inv r"
  shows "retry_inv (processObjectInTerminalState h obj key now r)"
proof (cases "key \<in> terminatedObjects r")
  case False
  define r1 where "r1 = r\<lparr>terminatedObjects := insert key (terminatedObjects r)\<rparr>"
  define internal where "internal = h_GetInternalCacheEntry h obj (rt_world r1)"
  obtain out r2 where run: "on_world (h_DeleteResource h obj internal) (InitRetryObjWithDelete obj key internal True now r1) = (out, r2)"
    by fastforce
  have "inv_at key entry_reset (InitRetryObjWithDelete obj key internal True now r1)"
    using assms by (simp add: r1_def retry_inv_at [of _ key] inv_at_backoff inv_at_delete)
  then have "inv_at key entry_reset r2"
    using inv_at_on_world [OF run] by simp
  then show ?thesis
    using False run
    by (cases out) (simp_all add: processObjectInTerminalState_def Let_def r1_def [symmetric]
          internal_def [symmetric] retry_inv_increase retry_inv_DeleteRetryObj)
qed (use assms in \<open>simp add: processObjectInTerminalState_def\<close>)

lemma retry_inv_add_object:
  assumes "inv_at key entry_reset r"
  shows "retry_inv (add_object h obj key r)"
proof -
  obtain out r1 where run: "on_world (h_AddResource h obj False) r = (out, r1)" by fastforce
  then have "inv_at key entry_reset r1" using inv_at_on_world [OF run] assms by simp
  then show ?thesis
    using run by (cases out) (simp_all add: add_object_def retry_inv_increase retry_inv_DeleteRetryObj)
qed

lemma retry_inv_AddFunc:
  assumes inv: "retry_inv r"
  shows "retry_inv (AddFunc h obj now r)"
proof (cases "h_GetResourceKey h obj")
  case (Some key)
  define r1 where "r1 = initRetryObjWithAdd obj key now r"
  have reset: "inv_at key entry_reset r1"
    using inv by (simp add: r1_def retry_inv_at [of _ key] inv_at_add)
  have fresh: "inv_at key (\<lambda>e. re_newObj e \<noteq> None \<and> entry_reset e) r1"
    using reset getRetryObj_add [of key obj initialBackoff now r]
    by (auto simp: inv_at_def getRetryObj_def r1_def initRetryObjWithAdd_def)
  show ?thesis
  proof (cases "h_IsObjectInTerminalState h obj")
    case True
    with Some inv show ?thesis by (simp add: AddFunc_def retry_inv_terminal)
  next
    case False
    show ?thesis
    proof (cases "Option.bind (getRetryObj key r1) re_oldObj")
      case None
      with Some False reset show ?thesis
        by (simp add: AddFunc_def Let_def r1_def [symmetric] retry_inv_add_object)
    next
      case (Some stale)
      obtain out r2 where run:
        "on_world (h_DeleteResource h stale (h_GetInternalCacheEntry h obj (rt_world r1))) r1 = (out, r2)"
        by fastforce
      have r2: "inv_at key (\<lambda>e. re_newObj e \<noteq> None \<and> entry_reset e) r2"
        using inv_at_on_world [OF run] fresh by simp
      then have "inv_at key entry_reset (on_entry key removeDeleteFromRetryObj r2)"
        by (rule inv_at_on_entry) (simp add: entry_reset_def has_object_def removeDeleteFromRetryObj_def)
      moreover have "inv_at key entry_reset r2" using r2 by (rule inv_at_weaken) simp
      ultimately show ?thesis
        using \<open>h_GetResourceKey h obj = Some key\<close> False Some run
        by (cases out) (simp_all add: AddFunc_def Let_def r1_def [symmetric] retry_inv_increase retry_inv_add_object)
    qed
  qed
qed (use inv in \<open>simp add: AddFunc_def\<close>)

lemma retry_inv_update_step2:
  assumes "inv_at key (\<lambda>e. re_backoffSec e \<in> backoffs) r"
  shows "retry_inv (update_step2 h old latest found key now r)"
proof (cases "HasUpdateFunc h")
  case True
  obtain out r1 where run: "on_world (h_UpdateResource h old latest found) r = (out, r1)" by fastforce
  then have "inv_at key (\<lambda>e. re_backoffSec e \<in> backoffs) r1" using inv_at_on_world [OF run] assms by simp
  then show ?thesis
    using True run
    by (cases out) (simp_all add: update_step2_def retry_inv_increase inv_at_update inv_at_add retry_inv_DeleteRetryObj)
next
  case False
  obtain out r1 where run: "on_world (h_AddResource h latest False) r = (out, r1)" by fastforce
  then have "inv_at key (\<lambda>e. re_backoffSec e \<in> backoffs) r1" using inv_at_on_world [OF run] assms by simp
  then show ?thesis
    using False run
    by (cases out) (simp_all add: update_step2_def retry_inv_increase inv_at_add retry_inv_DeleteRetryObj)
qed

lemma retry_inv_update_locked:
  assumes inv: "retry_inv r"
  shows "retry_inv (update_locked h old latest key now r)"
proof -
  have r0: "inv_at key (\<lambda>e. re_backoffSec e \<in> backoffs) r"
    using inv by (simp add: retry_inv_at [of _ key] inv_at_backoff)
  note steps = retry_inv_increase inv_at_add retry_inv_update_step2 inv_at_remove_delete
  show ?thesis
  proof (cases "Option.bind (getRetryObj key r) re_oldObj")
    case (Some stale)
    obtain out r1 where run: "on_world (h_DeleteResource h stale (re_config (the (getRetryObj key r)))) r = (out, r1)"
      by fastforce
    then have "inv_at key (\<lambda>e. re_backoffSec e \<in> backoffs) r1" using inv_at_on_world [OF run] r0 by simp
    then show ?thesis
      using Some run by (cases out) (simp_all add: update_locked_def Let_def steps)
  next
    case None
    obtain out r1 where run: "on_world (h_DeleteResource h old (Option.bind (getRetryObj key r) re_config)) r = (out, r1)"
      by fastforce
    then have r1: "inv_at key (\<lambda>e. re_backoffSec e \<in> backoffs) r1" using inv_at_on_world [OF run] r0 by simp
    then have "retry_inv (on_entry key increaseFailedAttemptsCounter
                 (initRetryObjWithAdd latest key now (InitRetryObjWithDelete old key None False now r1)))"
      by (intro retry_inv_increase inv_at_add [OF inv_at_delete])
    with r1 show ?thesis
      using None run r0 inv
      by (cases out) (simp_all add: update_locked_def Let_def steps retry_inv_terminal)
  qed
qed

lemma retry_inv_UpdateFunc: "retry_inv r \<Longrightarrow> retry_inv (UpdateFunc h old newer now r)"
  by (simp add: UpdateFunc_def retry_inv_update_locked retry_inv_terminal
      split: option.split sum.split lookup_error.split)

lemma retry_inv_DeleteFunc:
  assumes inv: "retry_inv r"
  shows "retry_inv (DeleteFunc h obj now r)"
proof (cases "h_GetResourceKey h obj")
  case (Some key)
  define internal where "internal = h_GetInternalCacheEntry h obj (rt_world r)"
  obtain out r1 where run: "on_world (h_DeleteResource h obj internal) (InitRetryObjWithDelete obj key internal False now r) = (out, r1)"
    by fastforce
  have "inv_at key entry_reset (InitRetryObjWithDelete obj key internal False now r)"
    using inv by (simp add: retry_inv_at [of _ key] inv_at_backoff inv_at_delete)
  then have "inv_at key entry_reset r1"
    using inv_at_on_world [OF run] by simp
  then show ?thesis
    using Some run inv
    by (cases out) (simp_all add: DeleteFunc_def Let_def internal_def [symmetric] retry_inv_increase retry_inv_DeleteRetryObj)
qed (use inv in \<open>simp add: DeleteFunc_def\<close>)


subsection \<open>Attempts\<close>

text \<open>An attempt keeps an entry that holds an object, with the counter one higher unless the lookup
  failed.\<close>

definition armed :: "'o retryObjEntry \<Rightarrow> 'o retryObjEntry" where
  "armed e = double_backoff (if re_backoffSec e = noBackoff then e\<lparr>re_backoffSec := initialBackoff\<rparr> else e)"

lemma armed_fields [simp]:
  "re_newObj (armed e) = re_newObj e" "re_oldObj (armed e) = re_oldObj e" "re_config (armed e) = re_config e"
  "re_failedAttempts (armed e) = re_failedAttempts e" "re_timeStamp (armed e) = re_timeStamp e"
  by (simp_all add: armed_def double_backoff_def)

lemma armed_backoff: "re_backoffSec e \<in> backoffs \<Longrightarrow> re_backoffSec (armed e) \<in> backoffs"
  by (auto simp: armed_def double_backoff_def noBackoff_def initialBackoff_def backoffs_def)

lemma attempt_armed:
  "attempt h key t e w =
     (case refresh_new h key w (armed e) of
        None \<Rightarrow> (Some (armed e), w)
      | Some e2 \<Rightarrow>
          if NeedsUpdateDuringRetry h \<and> re_config e2 \<noteq> None \<and> re_newObj e2 \<noteq> None
          then attempt_update h t e2 w else attempt_delete_add h t e2 w)"
  unfolding attempt_def armed_def Let_def by (rule refl)

lemma attempt_add_kept:
  assumes "attempt_add h t e w = (Some e', w')"
  shows "re_newObj e' = re_newObj e" "re_newObj e \<noteq> None" "re_backoffSec e' = re_backoffSec e"
    "re_failedAttempts e' = re_failedAttempts e + 1"
  using assms by (auto simp: attempt_add_def failed_at_def increaseFailedAttemptsCounter_def
      split: option.splits if_splits prod.splits)

lemma attempt_delete_add_kept:
  assumes "attempt_delete_add h t e w = (Some e', w')"
  shows "has_object e' \<and> re_backoffSec e' = re_backoffSec e \<and> re_failedAttempts e' = re_failedAttempts e + 1"
proof (cases "re_oldObj e")
  case None
  with assms have "attempt_add h t e w = (Some e', w')" by (simp add: attempt_delete_add_def)
  from attempt_add_kept [OF this] show ?thesis by (simp add: has_object_def)
next
  case (Some obj)
  obtain out w1 where run: "h_DeleteResource h obj (re_config e) w = (out, w1)" by fastforce
  show ?thesis
  proof (cases "h_IsResourceScheduled h obj \<and> out = None")
    case True
    with assms Some run have "attempt_add h t (e\<lparr>re_oldObj := None\<rparr>) w1 = (Some e', w')"
      by (simp add: attempt_delete_add_def)
    from attempt_add_kept [OF this] show ?thesis by (simp add: has_object_def)
  next
    case False
    with assms Some run show ?thesis
      by (auto simp: attempt_delete_add_def failed_at_def increaseFailedAttemptsCounter_def has_object_def
          split: if_splits option.splits)
  qed
qed

lemma attempt_kept:
  assumes "attempt h key t e w = (Some e', w')" "has_object e"
  shows "has_object e' \<and> re_backoffSec e' = re_backoffSec (armed e) \<and>
    (re_failedAttempts e' = re_failedAttempts e + 1 \<or>
     h_GetResourceFromInformerCache h key w = Inl LookupOther \<and> re_failedAttempts e' = re_failedAttempts e)"
proof (cases "refresh_new h key w (armed e)")
  case None
  then have "h_GetResourceFromInformerCache h key w = Inl LookupOther"
    by (auto simp: refresh_new_def split: if_splits sum.splits lookup_error.splits)
  with None assms show ?thesis by (auto simp: attempt_armed has_object_def)
next
  case (Some e2)
  then have e2: "re_failedAttempts e2 = re_failedAttempts e" "re_backoffSec e2 = re_backoffSec (armed e)"
    by (auto simp: refresh_new_def split: if_splits sum.splits lookup_error.splits)
  show ?thesis
  proof (cases "NeedsUpdateDuringRetry h \<and> re_config e2 \<noteq> None \<and> re_newObj e2 \<noteq> None")
    case True
    then have "attempt_update h t e2 w = (Some e', w')" using Some assms by (simp add: attempt_armed)
    with True e2 show ?thesis
      by (auto simp: attempt_update_def failed_at_def increaseFailedAttemptsCounter_def has_object_def
          split: prod.splits option.splits)
  next
    case False
    then have "attempt_delete_add h t e2 w = (Some e', w')"
      using Some assms by (auto simp: attempt_armed)
    with e2 show ?thesis using attempt_delete_add_kept by metis
  qed
qed

lemma byte_increase_le: "(n :: byte) < 15 \<Longrightarrow> n + 1 \<le> 15"
  by (simp add: inc_le)

lemma resourceRetry_cases:
  obtains (absent) "getRetryObj key r = None" "resourceRetry h key now jitter t r = r"
  | (exhausted) e where "getRetryObj key r = Some e" "re_failedAttempts e \<ge> MaxFailedAttempts"
      "resourceRetry h key now jitter t r = DeleteRetryObj key r"
  | (early) e where "getRetryObj key r = Some e" "re_failedAttempts e < MaxFailedAttempts"
      "\<not> retry_due e now jitter" "resourceRetry h key now jitter t r = r"
  | (tried) e kept w where "getRetryObj key r = Some e" "re_failedAttempts e < MaxFailedAttempts"
      "retry_due e now jitter" "attempt h key t e (rt_world r) = (kept, w)"
      "resourceRetry h key now jitter t r = r\<lparr>retryEntries := (retryEntries r)(key := kept), rt_world := w\<rparr>"
proof (cases "getRetryObj key r")
  case None
  then show thesis by (intro absent) (simp_all add: resourceRetry_def)
next
  case (Some e)
  obtain kept w where run: "attempt h key t e (rt_world r) = (kept, w)" by fastforce
  consider "re_failedAttempts e \<ge> MaxFailedAttempts"
    | "re_failedAttempts e < MaxFailedAttempts" "\<not> retry_due e now jitter"
    | "re_failedAttempts e < MaxFailedAttempts" "retry_due e now jitter"
    by fastforce
  then show thesis
  proof cases
    case 1
    with Some show thesis by (intro exhausted [of e]) (simp_all add: resourceRetry_def)
  next
    case 2
    with Some show thesis by (intro early [of e]) (simp_all add: resourceRetry_def not_le)
  next
    case 3
    with Some run show thesis by (intro tried [of e kept w]) (simp_all add: resourceRetry_def not_le)
  qed
qed

lemma retry_inv_resourceRetry:
  assumes inv: "retry_inv r"
  shows "retry_inv (resourceRetry h key now jitter t r)"
proof (cases rule: resourceRetry_cases [where h = h and key = key and now = now and jitter = jitter and t = t and r = r])
  case (exhausted e)
  then show ?thesis
    using retry_inv_DeleteRetryObj [of key entry_ok r] inv by (simp add: retry_inv_at [of r key])
next
  case (tried e kept w)
  then have e: "entry_ok e" using inv by (simp add: retry_inv_def getRetryObj_def)
  have "entry_ok e'" if "kept = Some e'" for e'
    using attempt_kept [of h key t e "rt_world r" e' w] tried that e armed_backoff [of e]
      byte_increase_le [of "re_failedAttempts e"]
    by (auto simp: entry_ok_def MaxFailedAttempts_def)
  with inv tried(5) show ?thesis by (auto simp: retry_inv_def)
qed (use inv in auto)

lemma retry_inv_iterate: "retry_inv r \<Longrightarrow> retry_inv (iterateRetryResources h now runs r)"
  unfolding iterateRetryResources_def
  by (induction runs arbitrary: r) (auto simp: retry_inv_resourceRetry)

lemma retry_inv_step:
  assumes "retry_step h env r r'" "retry_inv r"
  shows "retry_inv r'"
  using assms
proof cases
  case (readd obj now)
  have "backoff \<in> backoffs \<Longrightarrow> retry_inv (initRetryObjWithAddBackoff obj key backoff now r)" for key backoff
    using inv_at_weaken [OF inv_at_reset_add [of key entry_ok r backoff obj now] entry_ok_reset] assms(2)
    by (simp add: retry_inv_at [of _ key])
  with readd assms(2) show ?thesis
    by (auto simp: AddRetryObjWithAddNoBackoff_def noBackoff_def backoffs_def split: option.split)
qed (simp_all add: retry_inv_AddFunc retry_inv_UpdateFunc retry_inv_DeleteFunc RequestRetryObjs_def
      retry_inv_resourceRetry retry_inv_iterate)

lemma retry_inv_reachable: "(retry_step h env)\<^sup>*\<^sup>* (NewRetryFramework w) r \<Longrightarrow> retry_inv r"
proof (induction rule: rtranclp_induct)
  case base
  show ?case by (simp add: NewRetryFramework_def retry_inv_def)
qed (rule retry_inv_step)


section \<open>Retries end\<close>

text \<open>A sequence of retries of one key: the clock when the round starts, the jitter, the clock when the
  attempt ends, and the world as other goroutines left it.\<close>

primrec retry_runs ::
  "('o, 's) ResourceHandler \<Rightarrow> string \<Rightarrow> (int \<times> int \<times> int \<times> 's) list \<Rightarrow> ('o, 's) RetryFramework \<Rightarrow> ('o, 's) RetryFramework" where
  "retry_runs h key [] r = r"
| "retry_runs h key (x # xs) r =
     (case x of (now, jitter, t, w) \<Rightarrow> retry_runs h key xs (resourceRetry h key now jitter t (r\<lparr>rt_world := w\<rparr>)))"

text \<open>The rounds are a minute and a half second apart, the longest backoff with the longest jitter.\<close>

fun spaced :: "int \<Rightarrow> (int \<times> int \<times> int \<times> 's) list \<Rightarrow> bool" where
  "spaced since [] \<longleftrightarrow> True"
| "spaced since ((now, jitter, t, w) # xs) \<longleftrightarrow>
     since + 60500 \<le> now \<and> 0 \<le> jitter \<and> jitter < 500 \<and> now \<le> t \<and> spaced t xs"

lemma attempt_timeStamp:
  assumes "attempt h key t e w = (Some e', w')"
  shows "re_timeStamp e' = re_timeStamp e \<or> re_timeStamp e' = t"
proof -
  have add: "re_timeStamp e' = re_timeStamp e0 \<or> re_timeStamp e' = t"
    if "attempt_add h t e0 w0 = (Some e', w')" for e0 w0
    using that by (auto simp: attempt_add_def failed_at_def increaseFailedAttemptsCounter_def
        split: option.splits if_splits prod.splits)
  have del: "re_timeStamp e' = re_timeStamp e0 \<or> re_timeStamp e' = t"
    if "attempt_delete_add h t e0 w0 = (Some e', w')" for e0 w0
    using that add [of "e0\<lparr>re_oldObj := None\<rparr>"] add [of e0]
    by (auto simp: attempt_delete_add_def failed_at_def increaseFailedAttemptsCounter_def
        split: option.splits if_splits prod.splits)
  have upd: "re_timeStamp e' = t" if "attempt_update h t e0 w0 = (Some e', w')" for e0 w0
    using that by (auto simp: attempt_update_def failed_at_def increaseFailedAttemptsCounter_def split: prod.splits option.splits)
  have new: "re_timeStamp e2 = re_timeStamp e" if "refresh_new h key w (armed e) = Some e2" for e2
    using that by (auto simp: refresh_new_def split: if_splits sum.splits lookup_error.splits)
  show ?thesis
    using assms del upd new by (auto simp: attempt_armed split: option.splits if_splits)
qed

lemma due_when_spaced:
  "entry_ok e \<Longrightarrow> re_timeStamp e + 60500 \<le> now \<Longrightarrow> jitter < 500 \<Longrightarrow> retry_due e now jitter"
  by (auto simp: retry_due_def entry_ok_def backoffs_def)

lemma retry_runs_absent: "getRetryObj key r = None \<Longrightarrow> getRetryObj key (retry_runs h key runs r) = None"
  by (induction runs arbitrary: r) (auto simp: resourceRetry_def getRetryObj_def split: prod.splits)

lemma retry_runs_removes:
  assumes "retry_inv r" "getRetryObj key r = Some e" "spaced since runs" "re_timeStamp e \<le> since"
    "\<forall>(now, jitter, t, w) \<in> set runs. h_GetResourceFromInformerCache h key w \<noteq> Inl LookupOther"
    "16 \<le> length runs + unat (re_failedAttempts e)"
  shows "getRetryObj key (retry_runs h key runs r) = None"
  using assms
proof (induction runs arbitrary: r e since)
  case Nil
  then have "entry_ok e" by (simp add: retry_inv_def getRetryObj_def)
  then show ?case using Nil by (simp add: entry_ok_def MaxFailedAttempts_def word_le_nat_alt)
next
  case (Cons x xs)
  obtain now jitter t w where x: "x = (now, jitter, t, w)" by (cases x) auto
  define r0 where "r0 = r\<lparr>rt_world := w\<rparr>"
  define r1 where "r1 = resourceRetry h key now jitter t r0"
  have inv: "retry_inv r0" "retry_inv r1" using Cons.prems(1) by (simp_all add: r0_def r1_def retry_inv_resourceRetry)
  have entry: "getRetryObj key r0 = Some e" using Cons.prems(2) by (simp add: r0_def getRetryObj_def)
  have e: "entry_ok e" using inv(1) entry by (simp add: retry_inv_def getRetryObj_def)
  have due: "retry_due e now jitter" using e Cons.prems(3,4) x by (intro due_when_spaced) auto
  have runs: "retry_runs h key (x # xs) r = retry_runs h key xs r1" by (simp add: x r1_def r0_def)
  consider "getRetryObj key r1 = None" | e' w' where "re_failedAttempts e < MaxFailedAttempts"
      "getRetryObj key r1 = Some e'" "attempt h key t e (rt_world r0) = (Some e', w')"
    by (cases rule: resourceRetry_cases [where h = h and key = key and now = now and jitter = jitter and t = t and r = r0])
      (use entry due in \<open>auto simp: r1_def getRetryObj_def DeleteRetryObj_def\<close>)
  then show ?case
  proof cases
    case 1
    then show ?thesis unfolding runs by (rule retry_runs_absent)
  next
    case 2
    have "re_failedAttempts e' = re_failedAttempts e + 1"
      using attempt_kept [OF 2(3)] e Cons.prems(5) x by (auto simp: entry_ok_def r0_def)
    then have "unat (re_failedAttempts e') = Suc (unat (re_failedAttempts e))"
      using 2(1) by (simp add: MaxFailedAttempts_def unat_word_ariths word_less_nat_alt)
    moreover have "re_timeStamp e' \<le> t" using attempt_timeStamp [OF 2(3)] Cons.prems(3,4) x by auto
    ultimately show ?thesis
      unfolding runs using Cons.prems(3,5,6) x by (intro Cons.IH [OF inv(2) 2(2), of t]) auto
  qed
qed

text \<open>C23: sixteen retries of an object, spaced by more than the longest backoff, remove it from the retry
  cache whatever the handlers answer and whatever happens to the world in between, as long as looking the
  object up fails for no other reason than that it is gone.\<close>

theorem retries_end:
  "(retry_step h env)\<^sup>*\<^sup>* (NewRetryFramework w0) r \<Longrightarrow> getRetryObj key r = Some e \<Longrightarrow>
     spaced (re_timeStamp e) runs \<Longrightarrow> 16 \<le> length runs \<Longrightarrow>
     (\<forall>(now, jitter, t, w) \<in> set runs. h_GetResourceFromInformerCache h key w \<noteq> Inl LookupOther) \<Longrightarrow>
     getRetryObj key (retry_runs h key runs r) = None"
  by (rule retry_runs_removes) (auto intro: retry_inv_reachable)


text \<open>A handler that keeps a list of names and, unless \<open>up\<close>, fails.\<close>

definition list_handler :: "bool \<Rightarrow> (string, string list) ResourceHandler" where
  "list_handler up = \<lparr>HasUpdateFunc = True, NeedsUpdateDuringRetry = False,
     h_AddResource = (\<lambda>x b w. if up then (None, x # w) else (Some ''down'', w)),
     h_UpdateResource = (\<lambda>x y b w. if up then (None, y # w) else (Some ''down'', w)),
     h_DeleteResource = (\<lambda>x c w. if up then (None, removeAll x w) else (Some ''down'', w)),
     h_GetResourceFromInformerCache = (\<lambda>k w. Inr k),
     h_AreResourcesEqual = default_AreResourcesEqual, h_GetInternalCacheEntry = default_GetInternalCacheEntry,
     h_IsResourceScheduled = default_IsResourceScheduled, h_IsObjectInTerminalState = default_IsObjectInTerminalState,
     h_GetResourceKey = Some\<rparr>"

lemma list_handler_added:
  "(retry_step (list_handler up) env)\<^sup>*\<^sup>* (NewRetryFramework []) (initRetryObjWithAddBackoff ''k'' ''k'' noBackoff 0 (NewRetryFramework []))"
  using retry_step.readd [of "list_handler up" env "NewRetryFramework []" "''k''" 0]
  by (simp add: AddRetryObjWithAddNoBackoff_def list_handler_def r_into_rtranclp)


theorem retries_end_witness:
  "getRetryObj ''k'' (retry_runs (list_handler False) ''k'' (map (\<lambda>i. (70000 * int (Suc i), 0, 70000 * int (Suc i), [])) [0..<16])
     (initRetryObjWithAddBackoff ''k'' ''k'' noBackoff 0 (NewRetryFramework []))) = None"
proof -
  obtain e where "getRetryObj ''k'' (initRetryObjWithAddBackoff ''k'' ''k'' noBackoff 0 (NewRetryFramework [] :: (string, string list) RetryFramework)) = Some e"
    "re_timeStamp e = 0" by (simp add: getRetryObj_add)
  moreover have "spaced 0 (map (\<lambda>i. (70000 * int (Suc i), 0, 70000 * int (Suc i), [] :: string list)) [0..<16])"
    by (simp add: upt_rec)
  ultimately show ?thesis
    by (intro retries_end [OF list_handler_added [of False "(=)"]]) (auto simp: list_handler_def)
qed

section \<open>No event is lost\<close>

lemma retryEntries_on_world [simp]: "on_world g r = (x, r') \<Longrightarrow> getRetryObj key r' = getRetryObj key r"
  by (auto simp: on_world_def getRetryObj_def split: prod.splits)

lemma on_world_result: "on_world g r = (x, r') \<Longrightarrow> g (rt_world r) = (x, rt_world r')"
  by (auto simp: on_world_def split: prod.splits)

lemma getRetryObj_simps [simp]:
  "getRetryObj key (DeleteRetryObj key r) = None"
  "getRetryObj key (on_entry key g r) = map_option g (getRetryObj key r)"
  "rt_world (DeleteRetryObj key r) = rt_world r"
  by (simp_all add: getRetryObj_def DeleteRetryObj_def on_entry_def)

text \<open>The object is to be added, and one failure has been counted.\<close>

definition retry_add :: "'o \<Rightarrow> string \<Rightarrow> ('o, 's) RetryFramework \<Rightarrow> bool" where
  "retry_add obj key r \<longleftrightarrow> (\<exists>e. getRetryObj key r = Some e \<and> re_newObj e = Some obj \<and> re_failedAttempts e = 1)"

definition retry_delete :: "'o \<Rightarrow> string \<Rightarrow> ('o, 's) RetryFramework \<Rightarrow> bool" where
  "retry_delete obj key r \<longleftrightarrow> (\<exists>e. getRetryObj key r = Some e \<and> re_oldObj e = Some obj \<and> re_failedAttempts e = 1)"

lemma retry_add_increase:
  "retry_add obj key (on_entry key increaseFailedAttemptsCounter (initRetryObjWithAdd obj key now r))"
  by (simp add: retry_add_def initRetryObjWithAdd_def getRetryObj_add increaseFailedAttemptsCounter_def)

lemma retry_add_update:
  "retry_add obj key (on_entry key increaseFailedAttemptsCounter (initRetryObjWithUpdate old obj key now r))"
  by (simp add: retry_add_def initRetryObjWithUpdate_def getRetryObj_def upsert_def on_entry_def increaseFailedAttemptsCounter_def)

lemma AddFunc_outcome:
  assumes key: "h_GetResourceKey h obj = Some key" and live: "\<not> h_IsObjectInTerminalState h obj"
  shows "(let r' = AddFunc h obj now r in
     getRetryObj key r' = None \<and> (\<exists>w. h_AddResource h obj False w = (None, rt_world r')) \<or> retry_add obj key r')"
proof -
  define r1 where "r1 = initRetryObjWithAdd obj key now r"
  have waiting: "\<exists>e. getRetryObj key r1 = Some e \<and> re_newObj e = Some obj \<and> re_failedAttempts e = 0"
    by (simp add: r1_def initRetryObjWithAdd_def getRetryObj_add)
  have add: "(let r' = add_object h obj key r2 in
     getRetryObj key r' = None \<and> (\<exists>w. h_AddResource h obj False w = (None, rt_world r')) \<or> retry_add obj key r')"
    if "\<exists>e. getRetryObj key r2 = Some e \<and> re_newObj e = Some obj \<and> re_failedAttempts e = 0" for r2
  proof -
    obtain out r3 where run: "on_world (h_AddResource h obj False) r2 = (out, r3)" by fastforce
    have "getRetryObj key r3 = getRetryObj key r2" using run by simp
    then show ?thesis
      using run that on_world_result [OF run]
      by (cases out) (auto simp: add_object_def Let_def retry_add_def increaseFailedAttemptsCounter_def)
  qed
  show ?thesis
  proof (cases "Option.bind (getRetryObj key r1) re_oldObj")
    case None
    with key live waiting add [of r1] show ?thesis by (simp add: AddFunc_def r1_def [symmetric] Let_def)
  next
    case (Some stale)
    obtain out r2 where run:
      "on_world (h_DeleteResource h stale (h_GetInternalCacheEntry h obj (rt_world r1))) r1 = (out, r2)"
      by fastforce
    have same: "getRetryObj key r2 = getRetryObj key r1" using run by simp
    have upd: "AddFunc h obj now r =
        (case out of None \<Rightarrow> add_object h obj key (on_entry key removeDeleteFromRetryObj r2)
         | Some err \<Rightarrow> on_entry key increaseFailedAttemptsCounter r2)"
      using key live Some run by (simp add: AddFunc_def r1_def [symmetric] Let_def)
    show ?thesis
    proof (cases out)
      case None
      with upd waiting same show ?thesis
        using add [of "on_entry key removeDeleteFromRetryObj r2"] by (auto simp: removeDeleteFromRetryObj_def)
    next
      case (Some err)
      with upd waiting same show ?thesis by (auto simp: retry_add_def increaseFailedAttemptsCounter_def Let_def)
    qed
  qed
qed

lemma DeleteFunc_outcome:
  assumes key: "h_GetResourceKey h obj = Some key" and live: "\<not> h_IsObjectInTerminalState h obj"
  shows "(let r' = DeleteFunc h obj now r in
     getRetryObj key r' = None \<and> (\<exists>cfg w. h_DeleteResource h obj cfg w = (None, rt_world r')) \<or> retry_delete obj key r')"
proof -
  define internal where "internal = h_GetInternalCacheEntry h obj (rt_world r)"
  define r0 where "r0 = InitRetryObjWithDelete obj key internal False now r"
  obtain out r1 where run: "on_world (h_DeleteResource h obj internal) r0 = (out, r1)" by fastforce
  have "\<exists>e. getRetryObj key r0 = Some e \<and> re_oldObj e = Some obj \<and> re_failedAttempts e = 0"
    by (simp add: r0_def InitRetryObjWithDelete_def upsert_def getRetryObj_def Let_def)
  moreover have "getRetryObj key r1 = getRetryObj key r0" using run by simp
  ultimately show ?thesis
    using key live run on_world_result [OF run]
    by (cases out) (auto simp: DeleteFunc_def internal_def [symmetric] r0_def [symmetric] Let_def
          retry_delete_def increaseFailedAttemptsCounter_def)
qed

lemma update_step2_outcome:
  "(let r' = update_step2 h old latest found key now r in
     getRetryObj key r' = None \<and>
       (\<exists>w. (if HasUpdateFunc h then h_UpdateResource h old latest found w else h_AddResource h latest False w) = (None, rt_world r'))
     \<or> retry_add latest key r')"
proof (cases "HasUpdateFunc h")
  case True
  obtain out r1 where run: "on_world (h_UpdateResource h old latest found) r = (out, r1)" by fastforce
  show ?thesis
    using True run on_world_result [OF run]
    by (cases out) (auto simp: update_step2_def Let_def retry_add_increase retry_add_update)
next
  case False
  obtain out r1 where run: "on_world (h_AddResource h latest False) r = (out, r1)" by fastforce
  show ?thesis
    using False run on_world_result [OF run]
    by (cases out) (auto simp: update_step2_def Let_def retry_add_increase)
qed

lemma UpdateFunc_outcome:
  assumes "h_AreResourcesEqual h old newer = Inr False"
    "h_GetResourceKey h newer = Some key" "h_GetResourceKey h old = Some key"
    "h_GetResourceFromInformerCache h key (rt_world r) = Inr latest" "\<not> h_IsObjectInTerminalState h latest"
  shows "(let r' = UpdateFunc h old newer now r in
     getRetryObj key r' = None \<and>
       (\<exists>found w. (if HasUpdateFunc h then h_UpdateResource h old latest found w else h_AddResource h latest False w) = (None, rt_world r'))
     \<or> retry_add latest key r')"
proof -
  have upd: "UpdateFunc h old newer now r = update_locked h old latest key now r"
    using assms by (simp add: UpdateFunc_def)
  have "(\<exists>found r2. update_locked h old latest key now r = update_step2 h old latest found key now r2)
      \<or> retry_add latest key (update_locked h old latest key now r)"
    using assms(5)
    by (auto simp: update_locked_def Let_def retry_add_increase split: option.splits prod.splits if_splits)
  then show ?thesis
    unfolding upd using update_step2_outcome [of h old latest _ key now] by (metis (no_types, lifting))
qed

text \<open>C4: no informer event is lost. After an addition, an update or a deletion of an object that is not
  in a terminal state, either the retry cache has no entry for its key and the last thing done to the world
  was the successful call of the handler on the object (the informer's latest version for an update), or
  the retry cache holds the object for the same operation with one failure counted.\<close>

theorem event_never_lost:
  "(h_GetResourceKey h obj = Some key \<and> \<not> h_IsObjectInTerminalState h obj \<longrightarrow>
     (let r' = AddFunc h obj now r in
        getRetryObj key r' = None \<and> (\<exists>w. h_AddResource h obj False w = (None, rt_world r')) \<or> retry_add obj key r')) \<and>
   (h_GetResourceKey h obj = Some key \<and> \<not> h_IsObjectInTerminalState h obj \<longrightarrow>
     (let r' = DeleteFunc h obj now r in
        getRetryObj key r' = None \<and> (\<exists>cfg w. h_DeleteResource h obj cfg w = (None, rt_world r')) \<or> retry_delete obj key r')) \<and>
   (h_AreResourcesEqual h old newer = Inr False \<and> h_GetResourceKey h newer = Some key \<and> h_GetResourceKey h old = Some key \<and>
     h_GetResourceFromInformerCache h key (rt_world r) = Inr latest \<and> \<not> h_IsObjectInTerminalState h latest \<longrightarrow>
     (let r' = UpdateFunc h old newer now r in
        getRetryObj key r' = None \<and>
          (\<exists>found w. (if HasUpdateFunc h then h_UpdateResource h old latest found w else h_AddResource h latest False w) = (None, rt_world r'))
        \<or> retry_add latest key r'))"
  by (intro conjI impI; elim conjE) (rule AddFunc_outcome DeleteFunc_outcome UpdateFunc_outcome; assumption)+

theorem event_never_lost_witness:
  "retry_add ''k'' ''k'' (AddFunc (list_handler False) ''k'' 7 (NewRetryFramework []))"
  using event_never_lost [of "list_handler False" "''k''" "''k''" 7 "NewRetryFramework []"]
  by (simp add: Let_def) (simp add: list_handler_def default_IsObjectInTerminalState_def)

section \<open>A retry completes the work\<close>

text \<open>C24: a retry that is due, whose handlers succeed and whose lookup works, removes the entry; the world
  has then been through the deletion of the stale object, if there was one, and after it the addition of
  the version the informer has at that time (not the version that failed), if an object was to be added
  and still exists.\<close>

theorem retry_completes:
  "getRetryObj key r = Some e \<Longrightarrow> re_failedAttempts e < MaxFailedAttempts \<Longrightarrow> retry_due e now jitter \<Longrightarrow>
   \<not> NeedsUpdateDuringRetry h \<Longrightarrow> (\<And>obj. h_IsResourceScheduled h obj) \<Longrightarrow>
   (\<And>obj w. fst (h_AddResource h obj True w) = None) \<Longrightarrow> (\<And>obj cfg w. fst (h_DeleteResource h obj cfg w) = None) \<Longrightarrow>
   h_GetResourceFromInformerCache h key (rt_world r) \<noteq> Inl LookupOther \<Longrightarrow>
   resourceRetry h key now jitter t r =
     (let w1 = (case re_oldObj e of None \<Rightarrow> rt_world r | Some old \<Rightarrow> snd (h_DeleteResource h old (re_config e) (rt_world r)));
          w2 = (case (re_newObj e, h_GetResourceFromInformerCache h key (rt_world r)) of
                  (Some obj, Inr latest) \<Rightarrow> snd (h_AddResource h latest True w1) | _ \<Rightarrow> w1)
      in r\<lparr>retryEntries := (retryEntries r)(key := None), rt_world := w2\<rparr>)"
  (is "?entry \<Longrightarrow> ?left \<Longrightarrow> ?due \<Longrightarrow> ?plain \<Longrightarrow> PROP ?sched \<Longrightarrow> PROP ?add \<Longrightarrow> PROP ?del \<Longrightarrow> ?found \<Longrightarrow> ?thesis")
proof -
  assume ?entry ?left ?due ?plain ?found and sched: "PROP ?sched" and add: "PROP ?add" and del: "PROP ?del"
  have adds: "attempt_add h t e2 w = (None, case re_newObj e2 of None \<Rightarrow> w | Some obj \<Rightarrow> snd (h_AddResource h obj True w))" for e2 w
    using add [of "the (re_newObj e2)" w] sched by (auto simp: attempt_add_def split: option.split prod.split)
  have dels: "attempt_delete_add h t e2 w = attempt_add h t (e2\<lparr>re_oldObj := None\<rparr>)
      (case re_oldObj e2 of None \<Rightarrow> w | Some obj \<Rightarrow> snd (h_DeleteResource h obj (re_config e2) w))" for e2 w
    using del [of "the (re_oldObj e2)" "re_config e2" w] sched
    by (auto simp: attempt_delete_add_def adds split: option.split prod.split)
  have "attempt h key t e (rt_world r) = (None,
     let w1 = (case re_oldObj e of None \<Rightarrow> rt_world r | Some old \<Rightarrow> snd (h_DeleteResource h old (re_config e) (rt_world r)))
     in case (re_newObj e, h_GetResourceFromInformerCache h key (rt_world r)) of
          (Some obj, Inr latest) \<Rightarrow> snd (h_AddResource h latest True w1) | _ \<Rightarrow> w1)"
    using \<open>?plain\<close> \<open>?found\<close>
    by (auto simp: attempt_armed refresh_new_def dels adds Let_def split: option.split sum.split lookup_error.split)
  then show ?thesis
    using \<open>?entry\<close> \<open>?left\<close> \<open>?due\<close> by (simp add: resourceRetry_def Let_def not_le [symmetric])
qed

theorem retry_completes_witness:
  "resourceRetry (list_handler True) ''k'' 5 0 6 (initRetryObjWithAddBackoff ''k'' ''k'' noBackoff 0 (NewRetryFramework [])) =
     \<lparr>retryEntries = Map.empty, retryChan = False, terminatedObjects = {}, rt_world = [''k'']\<rparr>"
proof -
  define r :: "(string, string list) RetryFramework" where "r = initRetryObjWithAddBackoff ''k'' ''k'' noBackoff 0 (NewRetryFramework [])"
  obtain e where e: "getRetryObj ''k'' r = Some e" "re_newObj e = Some ''k''" "re_oldObj e = None" "re_failedAttempts e = 0" "re_backoffSec e = noBackoff"
    by (simp add: r_def getRetryObj_add NewRetryFramework_def emptyEntry_def)
  have "resourceRetry (list_handler True) ''k'' 5 0 6 r = r\<lparr>retryEntries := (retryEntries r)(''k'' := None), rt_world := [''k'']\<rparr>"
    using retry_completes [of "''k''" r e 5 0 "list_handler True" 6] e
    by (simp add: list_handler_def retry_due_def MaxFailedAttempts_def default_IsResourceScheduled_def)
       (simp add: r_def initRetryObjWithAddBackoff_def upsert_def NewRetryFramework_def)
  then show ?thesis
    unfolding r_def by (simp add: initRetryObjWithAddBackoff_def upsert_def NewRetryFramework_def)
qed

section \<open>Invariants of the world\<close>

text \<open>What a handler has to keep for the framework to keep it: then it holds in every state the framework
  reaches, through events, retries and the environment.\<close>

locale resource_handler =
  fixes h :: "('o, 's) ResourceHandler" and env :: "'s \<Rightarrow> 's \<Rightarrow> bool" and I :: "'s \<Rightarrow> bool"
  assumes add_keeps: "I w \<Longrightarrow> I (snd (h_AddResource h obj retried w))"
    and update_keeps: "I w \<Longrightarrow> I (snd (h_UpdateResource h old obj retried w))"
    and delete_keeps: "I w \<Longrightarrow> I (snd (h_DeleteResource h obj cfg w))"
    and env_keeps: "env w w' \<Longrightarrow> I w \<Longrightarrow> I w'"
begin

lemma on_world_keeps:
  "on_world g r = (x, r') \<Longrightarrow> I (rt_world r) \<Longrightarrow> (\<And>w. I w \<Longrightarrow> I (snd (g w))) \<Longrightarrow> I (rt_world r')"
  by (auto simp: on_world_def split: prod.splits) (metis snd_conv)

lemmas on_world_handler =
  on_world_keeps [OF _ _ add_keeps] on_world_keeps [OF _ _ update_keeps] on_world_keeps [OF _ _ delete_keeps]

lemma entries_keep_world [simp]:
  "rt_world (upsert key fresh g r) = rt_world r" "rt_world (on_entry key g r) = rt_world r"
  "rt_world (initRetryObjWithAddBackoff obj key backoff now r) = rt_world r"
  "rt_world (initRetryObjWithAdd obj key now r) = rt_world r"
  "rt_world (initRetryObjWithUpdate old obj key now r) = rt_world r"
  "rt_world (InitRetryObjWithDelete obj key cfg noRetryAdd now r) = rt_world r"
  by (simp_all add: upsert_def on_entry_def initRetryObjWithAddBackoff_def initRetryObjWithAdd_def
      initRetryObjWithUpdate_def InitRetryObjWithDelete_def)

lemma terminal_keeps: "I (rt_world r) \<Longrightarrow> I (rt_world (processObjectInTerminalState h obj key now r))"
  by (auto simp: processObjectInTerminalState_def Let_def split: prod.splits option.splits dest: on_world_handler)

lemma add_object_keeps: "I (rt_world r) \<Longrightarrow> I (rt_world (add_object h obj key r))"
  by (auto simp: add_object_def split: prod.splits option.splits dest: on_world_handler)

lemma AddFunc_keeps: "I (rt_world r) \<Longrightarrow> I (rt_world (AddFunc h obj now r))"
  by (auto simp: AddFunc_def Let_def terminal_keeps split: prod.splits option.splits
      intro!: add_object_keeps dest: on_world_handler)

lemma update_step2_keeps: "I (rt_world r) \<Longrightarrow> I (rt_world (update_step2 h old latest found key now r))"
  by (auto simp: update_step2_def split: prod.splits option.splits dest: on_world_handler)

lemma update_locked_keeps: "I (rt_world r) \<Longrightarrow> I (rt_world (update_locked h old latest key now r))"
  by (auto simp: update_locked_def Let_def terminal_keeps split: prod.splits option.splits
      intro!: update_step2_keeps dest: on_world_handler)

lemma UpdateFunc_keeps: "I (rt_world r) \<Longrightarrow> I (rt_world (UpdateFunc h old newer now r))"
  by (simp add: UpdateFunc_def update_locked_keeps terminal_keeps split: option.split sum.split lookup_error.split)

lemma DeleteFunc_keeps: "I (rt_world r) \<Longrightarrow> I (rt_world (DeleteFunc h obj now r))"
  by (auto simp: DeleteFunc_def Let_def split: prod.splits option.splits dest: on_world_handler)

lemma attempt_keeps:
  assumes "I w"
  shows "I (snd (attempt h key t e w))"
proof -
  have add: "I (snd (attempt_add h t e2 w2))" if "I w2" for e2 w2
    using that add_keeps [of w2 "the (re_newObj e2)" True] by (auto simp: attempt_add_def split: option.split prod.split)
  have "I (snd (attempt_delete_add h t e2 w))" for e2
    using assms delete_keeps [of w "the (re_oldObj e2)" "re_config e2"]
    by (auto simp: attempt_delete_add_def add split: option.split prod.split)
  moreover have "I (snd (attempt_update h t e2 w))" for e2
    using assms update_keeps [of w "the (re_config e2)" "the (re_newObj e2)" True]
    by (auto simp: attempt_update_def split: option.split prod.split)
  ultimately show ?thesis using assms by (simp add: attempt_def Let_def split: option.split)
qed

lemma resourceRetry_keeps: "I (rt_world r) \<Longrightarrow> I (rt_world (resourceRetry h key now jitter t r))"
  using attempt_keeps [of "rt_world r" key t "the (getRetryObj key r)"]
  by (auto simp: resourceRetry_def split: option.split prod.split)

lemma iterate_keeps: "I (rt_world r) \<Longrightarrow> I (rt_world (iterateRetryResources h now runs r))"
  unfolding iterateRetryResources_def by (induction runs arbitrary: r) (auto simp: resourceRetry_keeps)

lemma step_keeps: "retry_step h env r r' \<Longrightarrow> I (rt_world r) \<Longrightarrow> I (rt_world r')"
  by (induction rule: retry_step.induct)
    (auto simp: AddFunc_keeps UpdateFunc_keeps DeleteFunc_keeps RequestRetryObjs_def AddRetryObjWithAddNoBackoff_def
      resourceRetry_keeps iterate_keeps env_keeps split: option.split)

lemma reachable_keeps:
  assumes "(retry_step h env)\<^sup>*\<^sup>* (NewRetryFramework w) r" "I w"
  shows "I (rt_world r)"
  using assms by (induction rule: rtranclp_induct) (auto simp: NewRetryFramework_def intro: step_keeps)

end

end
