(* ===== verification/Zone_Controller.thy ===== *)
theory Zone_Controller
  imports Id_Allocator Node_Annotations Retry_Framework
begin

text \<open>
  The zone cluster controller (\<open>pkg/clustermanager/zone_cluster_controller.go\<close>) and its address generator
  (\<open>ip_generator.go\<close>): every node gets an id, and from the id the address of its gateway router port on the
  join switch and of its port on the transit switch, which are written into the annotations of the node.

  The controller is the event handler of a retry framework. Its world \<open>zone_world\<close> is the controller
  (\<open>None\<close> after a panic), the nodes the informer has, the answers of the API server, and the annotations
  the API server accepted for each node. The configuration is an argument.
\<close>

section \<open>The address generator\<close>

record ipGenerator =
  netCidr :: ipnet
  netBaseIP :: int

datatype zone_error =
    BadSubnet string
  | OutOfRange int ipnet
  | GeneratorFailed string string zone_error
  | ReserveFailed int
  | NodeIDFailed string id_error
  | GatewayAddrFailed string zone_error
  | TransitAddrFailed string zone_error
  | SetAnnotationsFailed
  | SpuriousNode

definition newIPGenerator :: "string \<Rightarrow> zone_error + ipGenerator" where
  "newIPGenerator subnet =
     (case ParseCIDR subnet of
        None \<Rightarrow> Inl (BadSubnet subnet)
      | Some (_, cidr) \<Rightarrow> Inr \<lparr>netCidr = cidr, netBaseIP = BigForIP (IP cidr)\<rparr>)"

definition GenerateIP :: "int \<Rightarrow> ipGenerator \<Rightarrow> zone_error + ipnet" where
  "GenerateIP idx g =
     (let ip = AddIPOffset (netBaseIP g) idx
      in if IPNet_Contains (netCidr g) ip then Inr \<lparr>IP = ip, Mask = Mask (netCidr g)\<rparr>
         else Inl (OutOfRange idx (netCidr g)))"

section \<open>The controller\<close>

record zone_config =
  IPv4Mode :: bool
  IPv6Mode :: bool
  V4JoinSubnet :: string
  V6JoinSubnet :: string
  EnableInterconnect :: bool
  V4TransitSwitchSubnet :: string
  V6TransitSwitchSubnet :: string

definition maxNodeIDs :: int where
  "maxNodeIDs = 5000"

record zoneClusterController =
  nodeIDAllocator :: idAllocator
  nodeGWRouterLRPIPv4Generator :: "ipGenerator option"
  nodeGWRouterLRPIPv6Generator :: "ipGenerator option"
  transitSwitchIPv4Generator :: "ipGenerator option"
  transitSwitchIPv6Generator :: "ipGenerator option"

text \<open>A generator that is created when \<open>wanted\<close>; \<open>shown\<close> is the subnet the error message names.\<close>

definition generator_if :: "bool \<Rightarrow> string \<Rightarrow> string \<Rightarrow> string \<Rightarrow> zone_error + ipGenerator option" where
  "generator_if wanted what shown subnet =
     (if wanted then (case newIPGenerator subnet of Inl e \<Rightarrow> Inl (GeneratorFailed what shown e) | Inr g \<Rightarrow> Inr (Some g))
      else Inr None)"

definition reserve_constants :: "idAllocator \<Rightarrow> zone_error + idAllocator" where
  "reserve_constants a =
     (case ReserveID ''zero'' 0 a of
        Some (Inr _, a1) \<Rightarrow> (case ReserveID ''one'' 1 a1 of Some (Inr _, a2) \<Rightarrow> Inr a2 | _ \<Rightarrow> Inl (ReserveFailed 1))
      | _ \<Rightarrow> Inl (ReserveFailed 0))"

definition newZoneClusterController :: "zone_config \<Rightarrow> zone_error + zoneClusterController" where
  "newZoneClusterController cfg =
     (case reserve_constants (NewIDAllocator ''NodeIDs'' (maxNodeIDs + 1)) of
        Inl e \<Rightarrow> Inl e
      | Inr a \<Rightarrow>
     (case generator_if (IPv4Mode cfg) ''v4 join'' (V4JoinSubnet cfg) (V4JoinSubnet cfg) of
        Inl e \<Rightarrow> Inl e
      | Inr j4 \<Rightarrow>
     (case generator_if (IPv6Mode cfg) ''v6 join'' (V6JoinSubnet cfg) (V6JoinSubnet cfg) of
        Inl e \<Rightarrow> Inl e
      | Inr j6 \<Rightarrow>
     (case generator_if (EnableInterconnect cfg \<and> IPv4Mode cfg) ''v4 transit switch''
             (V4TransitSwitchSubnet cfg) (V4TransitSwitchSubnet cfg) of
        Inl e \<Rightarrow> Inl e
      | Inr t4 \<Rightarrow>
     (case generator_if (EnableInterconnect cfg \<and> IPv6Mode cfg) ''v6 transit switch''
             (V4TransitSwitchSubnet cfg) (V6TransitSwitchSubnet cfg) of
        Inl e \<Rightarrow> Inl e
      | Inr t6 \<Rightarrow>
          Inr \<lparr>nodeIDAllocator = a, nodeGWRouterLRPIPv4Generator = j4, nodeGWRouterLRPIPv6Generator = j6,
               transitSwitchIPv4Generator = t4, transitSwitchIPv6Generator = t6\<rparr>)))))"

text \<open>The two addresses of one kind. A missing generator is a nil pointer, \<open>None\<close>; by construction it is
  only missing where it is not used.\<close>

definition generate_if :: "bool \<Rightarrow> int \<Rightarrow> ipGenerator option \<Rightarrow> (zone_error + ipnet option) option" where
  "generate_if wanted i g =
     (if wanted then map_option (\<lambda>g. case GenerateIP i g of Inl e \<Rightarrow> Inl e | Inr n \<Rightarrow> Inr (Some n)) g
      else Some (Inr None))"

definition generate_pair ::
  "zone_config \<Rightarrow> int \<Rightarrow> ipGenerator option \<Rightarrow> ipGenerator option \<Rightarrow> (zone_error + ipnet option \<times> ipnet option) option" where
  "generate_pair cfg i g4 g6 =
     (case generate_if (IPv4Mode cfg) i g4 of
        None \<Rightarrow> None
      | Some (Inl e) \<Rightarrow> Some (Inl e)
      | Some (Inr v4) \<Rightarrow>
          (case generate_if (IPv6Mode cfg) i g6 of
             None \<Rightarrow> None
           | Some (Inl e) \<Rightarrow> Some (Inl e)
           | Some (Inr v6) \<Rightarrow> Some (Inr (v4, v6))))"

type_synonym annotations = "(string \<rightharpoonup> string) \<times> documents"

text \<open>The annotations of a node with a given id: its id and its addresses.\<close>

definition node_annotations :: "zone_config \<Rightarrow> string \<Rightarrow> int \<Rightarrow> zoneClusterController \<Rightarrow> (zone_error + annotations) option" where
  "node_annotations cfg name i zcc =
     (let texts = UpdateNodeIDAnnotation Map.empty i
      in case generate_pair cfg i (nodeGWRouterLRPIPv4Generator zcc) (nodeGWRouterLRPIPv6Generator zcc) of
           None \<Rightarrow> None
         | Some (Inl e) \<Rightarrow> Some (Inl (GatewayAddrFailed name e))
         | Some (Inr (v4, v6)) \<Rightarrow>
             (let docs = CreateNodeGatewayRouterLRPAddrAnnotation Map.empty v4 v6
              in if EnableInterconnect cfg then
                   (case generate_pair cfg i (transitSwitchIPv4Generator zcc) (transitSwitchIPv6Generator zcc) of
                      None \<Rightarrow> None
                    | Some (Inl e) \<Rightarrow> Some (Inl (TransitAddrFailed name e))
                    | Some (Inr (t4, t6)) \<Rightarrow> Some (Inr (texts, CreateNodeTransitSwitchPortAddrAnnotation docs t4 t6)))
                 else Some (Inr (texts, docs))))"

text \<open>The handler up to the call of the API server: the annotations to set, and the new state. A panic is
  \<open>None\<close>.\<close>

definition handleAddUpdateNodeEvent ::
  "zone_config \<Rightarrow> Node \<Rightarrow> zoneClusterController \<Rightarrow> ((zone_error + annotations) \<times> zoneClusterController) option" where
  "handleAddUpdateNodeEvent cfg node zcc =
     (case AllocateID (node_Name node) (nodeIDAllocator zcc) of
        (Inl e, a) \<Rightarrow> Some (Inl (NodeIDFailed (node_Name node) e), zcc\<lparr>nodeIDAllocator := a\<rparr>)
      | (Inr i, a) \<Rightarrow>
          (let zcc' = zcc\<lparr>nodeIDAllocator := a\<rparr>
           in map_option (\<lambda>res. (res, zcc')) (node_annotations cfg (node_Name node) i zcc')))"

definition handleDeleteNode :: "Node \<Rightarrow> zoneClusterController \<Rightarrow> zoneClusterController option" where
  "handleDeleteNode node zcc =
     map_option (\<lambda>a. zcc\<lparr>nodeIDAllocator := a\<rparr>) (ReleaseID (node_Name node) (nodeIDAllocator zcc))"

section \<open>The initial synchronization\<close>

text \<open>An object of the list that is not a node is \<open>None\<close>.\<close>

fun reserve_ids :: "Node option list \<Rightarrow> string list \<Rightarrow> idAllocator \<Rightarrow> ((zone_error + string list) \<times> idAllocator) option" where
  "reserve_ids [] dups a = Some (Inr dups, a)"
| "reserve_ids (None # nodes) dups a = Some (Inl SpuriousNode, a)"
| "reserve_ids (Some node # nodes) dups a =
     (if GetNodeID node \<noteq> InvalidNodeID then
        (case ReserveID (node_Name node) (GetNodeID node) a of
           None \<Rightarrow> None
         | Some (Inl e, a') \<Rightarrow> reserve_ids nodes (dups @ [node_Name node]) a'
         | Some (Inr _, a') \<Rightarrow> reserve_ids nodes dups a')
      else reserve_ids nodes dups a)"

fun allocate_ids :: "string list \<Rightarrow> idAllocator \<Rightarrow> (zone_error + unit) \<times> idAllocator" where
  "allocate_ids [] a = (Inr (), a)"
| "allocate_ids (name # names) a =
     (case AllocateID name a of
        (Inl e, a') \<Rightarrow> (Inl (NodeIDFailed name e), a')
      | (Inr _, a') \<Rightarrow> allocate_ids names a')"

definition syncNodeIDs :: "Node option list \<Rightarrow> zoneClusterController \<Rightarrow> ((zone_error + unit) \<times> zoneClusterController) option" where
  "syncNodeIDs nodes zcc =
     (case reserve_ids nodes [] (nodeIDAllocator zcc) of
        None \<Rightarrow> None
      | Some (Inl e, a) \<Rightarrow> Some (Inl e, zcc\<lparr>nodeIDAllocator := a\<rparr>)
      | Some (Inr dups, a) \<Rightarrow>
          (case allocate_ids dups a of (res, a') \<Rightarrow> Some (res, zcc\<lparr>nodeIDAllocator := a'\<rparr>)))"

section \<open>The event handler\<close>

record zone_world =
  zw_zcc :: "zoneClusterController option"
  zw_informer :: "string \<rightharpoonup> Node"
  zw_api_ok :: "string \<Rightarrow> bool"
  zw_accepted :: "string \<rightharpoonup> annotations"

definition zone_AddResource :: "zone_config \<Rightarrow> Node \<Rightarrow> bool \<Rightarrow> zone_world \<Rightarrow> string option \<times> zone_world" where
  "zone_AddResource cfg node fromRetryLoop w =
     (case Option.bind (zw_zcc w) (handleAddUpdateNodeEvent cfg node) of
        None \<Rightarrow> (Some ''panic'', w\<lparr>zw_zcc := None\<rparr>)
      | Some (Inl e, zcc) \<Rightarrow> (Some ''node add failed'', w\<lparr>zw_zcc := Some zcc\<rparr>)
      | Some (Inr ann, zcc) \<Rightarrow>
          if zw_api_ok w (node_Name node)
          then (None, w\<lparr>zw_zcc := Some zcc, zw_accepted := (zw_accepted w)(node_Name node \<mapsto> ann)\<rparr>)
          else (Some ''node add failed'', w\<lparr>zw_zcc := Some zcc\<rparr>))"

definition zone_UpdateResource :: "zone_config \<Rightarrow> Node \<Rightarrow> Node \<Rightarrow> bool \<Rightarrow> zone_world \<Rightarrow> string option \<times> zone_world" where
  "zone_UpdateResource cfg old node inRetryCache w =
     (case zone_AddResource cfg node False w of
        (Some e, w') \<Rightarrow> (Some ''node update failed'', w') | (None, w') \<Rightarrow> (None, w'))"

text \<open>The node is gone, and its annotations with it.\<close>

definition zone_DeleteResource :: "Node \<Rightarrow> Node option \<Rightarrow> zone_world \<Rightarrow> string option \<times> zone_world" where
  "zone_DeleteResource node cachedObj w =
     (case Option.bind (zw_zcc w) (handleDeleteNode node) of
        None \<Rightarrow> (Some ''panic'', w\<lparr>zw_zcc := None\<rparr>)
      | Some zcc \<Rightarrow> (None, w\<lparr>zw_zcc := Some zcc, zw_accepted := (zw_accepted w)(node_Name node := None)\<rparr>))"

definition NodeGatewayRouterLRPAddrAnnotationChanged :: "Node \<Rightarrow> Node \<Rightarrow> bool" where
  "NodeGatewayRouterLRPAddrAnnotationChanged oldNode newNode \<longleftrightarrow>
     node_docs oldNode ovnNodeGRLRPAddr \<noteq> node_docs newNode ovnNodeGRLRPAddr"

definition NodeTransitSwitchPortAddrAnnotationChanged :: "Node \<Rightarrow> Node \<Rightarrow> bool" where
  "NodeTransitSwitchPortAddrAnnotationChanged oldNode newNode \<longleftrightarrow>
     node_docs oldNode ovnTransitSwitchPortAddr \<noteq> node_docs newNode ovnTransitSwitchPortAddr"

definition zone_AreResourcesEqual :: "Node \<Rightarrow> Node \<Rightarrow> string + bool" where
  "zone_AreResourcesEqual node1 node2 =
     (if NodeIDAnnotationChanged node1 node2 then Inr False
      else if NodeGatewayRouterLRPAddrAnnotationChanged node1 node2 then Inr False
      else if NodeTransitSwitchPortAddrAnnotationChanged node1 node2 then Inr False
      else Inr True)"

text \<open>The key of a node is its name, since a node has no namespace and no slash in its name; a key that
  does not split is an error that is not "not found".\<close>

definition zone_GetResourceFromInformerCache :: "string \<Rightarrow> zone_world \<Rightarrow> lookup_error + Node" where
  "zone_GetResourceFromInformerCache key w =
     (if count_list key (CHR ''/'') > 1 then Inl LookupOther
      else let name = (if CHR ''/'' \<in> set key then tl (dropWhile (\<lambda>c. c \<noteq> CHR ''/'') key) else key)
           in case zw_informer w name of None \<Rightarrow> Inl LookupNotFound | Some node \<Rightarrow> Inr node)"

definition zone_handler :: "zone_config \<Rightarrow> (Node, zone_world) ResourceHandler" where
  "zone_handler cfg =
     \<lparr>HasUpdateFunc = True, NeedsUpdateDuringRetry = False,
      h_AddResource = zone_AddResource cfg, h_UpdateResource = zone_UpdateResource cfg,
      h_DeleteResource = zone_DeleteResource,
      h_GetResourceFromInformerCache = zone_GetResourceFromInformerCache,
      h_AreResourcesEqual = zone_AreResourcesEqual,
      h_GetInternalCacheEntry = default_GetInternalCacheEntry,
      h_IsResourceScheduled = default_IsResourceScheduled,
      h_IsObjectInTerminalState = default_IsObjectInTerminalState,
      h_GetResourceKey = (\<lambda>node. Some (node_Name node))\<rparr>"

text \<open>The informer and the API server change by themselves.\<close>

definition zone_env :: "zone_world \<Rightarrow> zone_world \<Rightarrow> bool" where
  "zone_env w w' \<longleftrightarrow> zw_zcc w' = zw_zcc w \<and> zw_accepted w' = zw_accepted w"


section \<open>The node ids\<close>

text \<open>The ids are held by one name each and fit a Go integer.\<close>

definition ids_ok :: "idAllocator \<Rightarrow> bool" where
  "ids_ok a \<longleftrightarrow> id_wf a \<and> bm_max (idBitmap a) = maxNodeIDs + 1 \<and> ran (nameIdMap a) \<subseteq> {0 ..< 2 ^ 63}"

lemma ids_ok_AllocateID:
  assumes "ids_ok a" and run: "AllocateID nm a = (res, a')"
  shows "ids_ok a'" and "res = Inr i \<Longrightarrow> nameIdMap a' = (nameIdMap a)(nm \<mapsto> i)" and "res = Inl e \<Longrightarrow> nameIdMap a' = nameIdMap a"
proof -
  have a: "id_wf a" "bm_max (idBitmap a) = 5001" "ran (nameIdMap a) \<subseteq> {0 ..< 2 ^ 63}"
    using assms by (auto simp: ids_ok_def maxNodeIDs_def)
  have wf: "id_wf a'" using id_wf_AllocateID [OF a(1) run] .
  show "ids_ok a'"
  proof (cases "nameIdMap a nm")
    case None
    obtain r bm where r: "bitmap_AllocateNext 0 (idBitmap a) = (r, bm)" by fastforce
    show ?thesis
    proof (cases r)
      case None
      with r run \<open>nameIdMap a nm = None\<close> bitmap_AllocateNext_None [of 0 "idBitmap a" bm] a wf show ?thesis
        by (auto simp: AllocateID_def ids_ok_def maxNodeIDs_def)
    next
      case (Some k)
      with r bitmap_AllocateNext_Some [of 0 "idBitmap a" k bm] a(2)
      have "k < 5001" "bm_max bm = 5001" by auto
      with r run Some \<open>nameIdMap a nm = None\<close> a(3) wf show ?thesis
        by (auto simp: AllocateID_def ids_ok_def maxNodeIDs_def ran_map_upd subset_iff)
    qed
  qed (use run assms in \<open>simp add: AllocateID_def\<close>)
  show "res = Inr i \<Longrightarrow> nameIdMap a' = (nameIdMap a)(nm \<mapsto> i)"
    using AllocateID_result [OF a(1)] run by blast
  show "res = Inl e \<Longrightarrow> nameIdMap a' = nameIdMap a"
    using run by (auto simp: AllocateID_def split: option.splits prod.splits)
qed

lemma ids_ok_ReserveID:
  assumes "ids_ok a" and "i < 2 ^ 63" and run: "ReserveID nm i a = Some (res, a')"
  shows "ids_ok a'"
proof (cases "nameIdMap a nm")
  case None
  have a: "id_wf a" "bm_max (idBitmap a) = maxNodeIDs + 1" "ran (nameIdMap a) \<subseteq> {0 ..< 2 ^ 63}"
    using assms by (auto simp: ids_ok_def)
  obtain ok bm where r: "bitmap_Allocate i (idBitmap a) = Some (ok, bm)"
    using run None by (auto simp: ReserveID_def split: option.splits)
  have "bm_max (idBitmap a') = maxNodeIDs + 1" and "ran (nameIdMap a') \<subseteq> insert i (ran (nameIdMap a))" "0 \<le> i"
    using run None r bitmap_Allocate_eff [OF r] a(2) by (auto simp: ReserveID_def ran_def split: bool.splits if_splits)
  then show ?thesis using a(3) id_wf_ReserveID [OF a(1) run] assms(2) by (auto simp: ids_ok_def)
qed (use run assms in \<open>auto simp: ReserveID_def split: if_splits\<close>)

lemma ids_ok_ReleaseID:
  assumes "ids_ok a"
  shows "\<exists>a'. ReleaseID nm a = Some a' \<and> ids_ok a' \<and> nameIdMap a' = (nameIdMap a)(nm := None)"
proof -
  have a: "id_wf a" "bm_max (idBitmap a) = maxNodeIDs + 1" "ran (nameIdMap a) \<subseteq> {0 ..< 2 ^ 63}"
    using assms by (auto simp: ids_ok_def)
  obtain a' where a': "ReleaseID nm a = Some a'" "id_wf a'" "nameIdMap a' = (nameIdMap a)(nm := None)"
    using ReleaseID_eff [OF a(1), of nm] by blast
  moreover have "bm_max (idBitmap a') = bm_max (idBitmap a)"
    using a'(1) bitmap_Release_eff by (auto simp: ReleaseID_def split: option.splits)
  moreover have "ran (nameIdMap a') \<subseteq> {0 ..< 2 ^ 63}"
    using a(3) a'(3) by (auto simp: ran_def subset_iff split: if_splits)
  ultimately show ?thesis using a(2) by (auto simp: ids_ok_def)
qed

lemma ids_ok_inj: "ids_ok a \<Longrightarrow> nameIdMap a m = Some i \<Longrightarrow> nameIdMap a n = Some i \<Longrightarrow> m = n"
  by (auto simp: ids_ok_def id_wf_def inj_on_def dom_def)

lemma GetNodeID_lt: "GetNodeID node < 2 ^ 63"
  by (auto simp: GetNodeID_def Atoi_def InvalidNodeID_def Let_def split: option.splits if_splits)

lemma ids_ok_reserve_ids: "reserve_ids nodes dups a = Some (res, a') \<Longrightarrow> ids_ok a \<Longrightarrow> ids_ok a'"
  by (induction nodes dups a rule: reserve_ids.induct)
    (auto split: if_splits option.splits prod.splits sum.splits dest: ids_ok_ReserveID [OF _ GetNodeID_lt])

lemma ids_ok_allocate_ids: "allocate_ids names a = (res, a') \<Longrightarrow> ids_ok a \<Longrightarrow> ids_ok a'"
  by (induction names a rule: allocate_ids.induct)
    (auto split: prod.splits sum.splits dest: ids_ok_AllocateID(1))

lemma syncNodeIDs_frame:
  assumes "syncNodeIDs nodes z = Some (res, z')" "ids_ok (nodeIDAllocator z)"
  shows "ids_ok (nodeIDAllocator z') \<and> (\<exists>a. z' = z\<lparr>nodeIDAllocator := a\<rparr>)"
  using assms by (auto simp: syncNodeIDs_def split: option.splits prod.splits sum.splits
      dest!: ids_ok_reserve_ids ids_ok_allocate_ids)

lemma ids_ok_constants:
  assumes "reserve_constants (NewIDAllocator nm (maxNodeIDs + 1)) = Inr a"
  shows "ids_ok a"
proof -
  have "ids_ok (NewIDAllocator nm (maxNodeIDs + 1))"
    using id_wf_New by (simp add: ids_ok_def) (simp add: NewIDAllocator_def NewRoundRobinAllocationMap_def)
  then show ?thesis
    using assms by (auto simp: reserve_constants_def split: option.splits prod.splits sum.splits
        dest!: ids_ok_ReserveID [rotated 2])
qed

section \<open>What the annotations say\<close>

text \<open>The configured subnets are canonical and of the right family.\<close>

definition subnet_ok :: "bool \<Rightarrow> bool \<Rightarrow> string \<Rightarrow> ipnet \<Rightarrow> bool" where
  "subnet_ok wanted v4 s n \<longleftrightarrow> (wanted \<longrightarrow> cidr_wf n \<and> (is4 (IP n) \<longleftrightarrow> v4) \<and> s = IPNet_String n)"

definition zone_config_ok :: "zone_config \<Rightarrow> ipnet \<Rightarrow> ipnet \<Rightarrow> ipnet \<Rightarrow> ipnet \<Rightarrow> bool" where
  "zone_config_ok cfg j4 j6 t4 t6 \<longleftrightarrow> (IPv4Mode cfg \<or> IPv6Mode cfg)
     \<and> subnet_ok (IPv4Mode cfg) True (V4JoinSubnet cfg) j4 \<and> subnet_ok (IPv6Mode cfg) False (V6JoinSubnet cfg) j6
     \<and> subnet_ok (EnableInterconnect cfg \<and> IPv4Mode cfg) True (V4TransitSwitchSubnet cfg) t4
     \<and> subnet_ok (EnableInterconnect cfg \<and> IPv6Mode cfg) False (V6TransitSwitchSubnet cfg) t6"

definition generator_for :: "bool \<Rightarrow> ipnet \<Rightarrow> ipGenerator option" where
  "generator_for wanted n = (if wanted then Some \<lparr>netCidr = n, netBaseIP = BigForIP (IP n)\<rparr> else None)"

definition generators_ok :: "zone_config \<Rightarrow> ipnet \<Rightarrow> ipnet \<Rightarrow> ipnet \<Rightarrow> ipnet \<Rightarrow> zoneClusterController \<Rightarrow> bool" where
  "generators_ok cfg j4 j6 t4 t6 z \<longleftrightarrow>
     nodeGWRouterLRPIPv4Generator z = generator_for (IPv4Mode cfg) j4 \<and>
     nodeGWRouterLRPIPv6Generator z = generator_for (IPv6Mode cfg) j6 \<and>
     transitSwitchIPv4Generator z = generator_for (EnableInterconnect cfg \<and> IPv4Mode cfg) t4 \<and>
     transitSwitchIPv6Generator z = generator_for (EnableInterconnect cfg \<and> IPv6Mode cfg) t6"

lemma generator_if_ok: "subnet_ok wanted v4 s n \<Longrightarrow> generator_if wanted what shown s = Inr (generator_for wanted n)"
  by (auto simp: subnet_ok_def generator_if_def generator_for_def newIPGenerator_def ParseCIDR_String)

lemma newZoneClusterController_ok:
  assumes "zone_config_ok cfg j4 j6 t4 t6" "newZoneClusterController cfg = Inr z"
  shows "ids_ok (nodeIDAllocator z) \<and> generators_ok cfg j4 j6 t4 t6 z"
  using assms generator_if_ok
  by (auto simp: zone_config_ok_def newZoneClusterController_def generators_ok_def split: sum.splits dest: ids_ok_constants)

lemma generators_ok_ids [simp]:
  "generators_ok cfg j4 j6 t4 t6 (z\<lparr>nodeIDAllocator := a\<rparr>) = generators_ok cfg j4 j6 t4 t6 z"
  by (simp add: generators_ok_def)

lemma node_annotations_ids [simp]: "node_annotations cfg n i (z\<lparr>nodeIDAllocator := a\<rparr>) = node_annotations cfg n i z"
  by (simp add: node_annotations_def Let_def split: option.split sum.split)

lemma generate_if_for: "\<exists>res. generate_if wanted i (generator_for wanted n) = Some res"
  by (simp add: generate_if_def generator_for_def)

lemma generate_pair_for:
  "\<exists>res. generate_pair cfg i (generator_for (IPv4Mode cfg) a) (generator_for (IPv6Mode cfg) b) = Some res"
  using generate_if_for [of "IPv4Mode cfg" i a] generate_if_for [of "IPv6Mode cfg" i b]
  by (auto simp: generate_pair_def split: sum.split)

lemma node_annotations_returns:
  assumes "generators_ok cfg j4 j6 t4 t6 z"
  shows "\<exists>res. node_annotations cfg n i z = Some res"
proof (cases "EnableInterconnect cfg")
  case True
  obtain x y where "generate_pair cfg i (generator_for (IPv4Mode cfg) j4) (generator_for (IPv6Mode cfg) j6) = Some x"
    "generate_pair cfg i (generator_for (IPv4Mode cfg) t4) (generator_for (IPv6Mode cfg) t6) = Some y"
    using generate_pair_for by blast
  with True assms show ?thesis
    by (simp add: node_annotations_def generators_ok_def Let_def split: sum.split prod.split)
next
  case False
  obtain x where "generate_pair cfg i (generator_for (IPv4Mode cfg) j4) (generator_for (IPv6Mode cfg) j6) = Some x"
    using generate_pair_for by blast
  with False assms show ?thesis
    by (simp add: node_annotations_def generators_ok_def Let_def split: sum.split prod.split)
qed

section \<open>The invariant of the world\<close>

text \<open>The controller has not crashed, and what the API server accepted for a node is what the id the node
  holds now demands.\<close>

definition zone_inv :: "zone_config \<Rightarrow> ipnet \<Rightarrow> ipnet \<Rightarrow> ipnet \<Rightarrow> ipnet \<Rightarrow> zone_world \<Rightarrow> bool" where
  "zone_inv cfg j4 j6 t4 t6 w \<longleftrightarrow>
     (\<exists>z. zw_zcc w = Some z \<and> ids_ok (nodeIDAllocator z) \<and> generators_ok cfg j4 j6 t4 t6 z \<and>
       (\<forall>n ann. zw_accepted w n = Some ann \<longrightarrow>
          (\<exists>i. nameIdMap (nodeIDAllocator z) n = Some i \<and> node_annotations cfg n i z = Some (Inr ann))))"

lemma zone_inv_add:
  assumes "zone_inv cfg j4 j6 t4 t6 w"
  shows "zone_inv cfg j4 j6 t4 t6 (snd (zone_AddResource cfg node b w))"
proof -
  obtain z where z: "zw_zcc w = Some z" "ids_ok (nodeIDAllocator z)" "generators_ok cfg j4 j6 t4 t6 z"
    and acc: "\<And>n ann. zw_accepted w n = Some ann \<Longrightarrow>
       \<exists>i. nameIdMap (nodeIDAllocator z) n = Some i \<and> node_annotations cfg n i z = Some (Inr ann)"
    using assms unfolding zone_inv_def by blast
  obtain out a where run: "AllocateID (node_Name node) (nodeIDAllocator z) = (out, a)" by fastforce
  note ids = ids_ok_AllocateID [OF z(2) run]
  show ?thesis
  proof (cases out)
    case (Inl e)
    then have "snd (zone_AddResource cfg node b w) = w\<lparr>zw_zcc := Some (z\<lparr>nodeIDAllocator := a\<rparr>)\<rparr>"
      using z(1) run by (simp add: zone_AddResource_def handleAddUpdateNodeEvent_def)
    then show ?thesis using ids(1) ids(3) [OF Inl] z(3) acc by (simp add: zone_inv_def)
  next
    case (Inr i)
    obtain res where res: "node_annotations cfg (node_Name node) i z = Some res"
      using node_annotations_returns [OF z(3)] by blast
    have step: "Option.bind (zw_zcc w) (handleAddUpdateNodeEvent cfg node) = Some (res, z\<lparr>nodeIDAllocator := a\<rparr>)"
      using z(1) run Inr res by (simp add: handleAddUpdateNodeEvent_def)
    have old: "\<exists>i'. nameIdMap a n = Some i' \<and> node_annotations cfg n i' z = Some (Inr ann)"
      if "zw_accepted w n = Some ann" for n ann
    proof (cases "n = node_Name node")
      case True
      with acc [OF that] obtain i' where "nameIdMap (nodeIDAllocator z) n = Some i'" "node_annotations cfg n i' z = Some (Inr ann)"
        by blast
      moreover from this have "i' = i" using run True Inr by (simp add: AllocateID_def)
      ultimately show ?thesis using ids(2) [OF Inr] True by simp
    next
      case False
      with acc [OF that] ids(2) [OF Inr] show ?thesis by simp
    qed
    show ?thesis
    proof (cases res)
      case (Inl e)
      then have "snd (zone_AddResource cfg node b w) = w\<lparr>zw_zcc := Some (z\<lparr>nodeIDAllocator := a\<rparr>)\<rparr>"
        using step by (simp add: zone_AddResource_def)
      then show ?thesis using ids(1) z(3) old by (simp add: zone_inv_def)
    next
      case ann: (Inr ann)
      then have "snd (zone_AddResource cfg node b w) =
          w\<lparr>zw_zcc := Some (z\<lparr>nodeIDAllocator := a\<rparr>),
            zw_accepted := (if zw_api_ok w (node_Name node) then (zw_accepted w)(node_Name node \<mapsto> ann) else zw_accepted w)\<rparr>"
        using step by (simp add: zone_AddResource_def)
      moreover have "\<exists>i'. nameIdMap a n = Some i' \<and> node_annotations cfg n i' z = Some (Inr x)"
        if "(if zw_api_ok w (node_Name node) then (zw_accepted w)(node_Name node \<mapsto> ann) else zw_accepted w) n = Some x" for n x
        using that old [of n x] ids(2) [OF Inr] res ann by (auto split: if_splits)
      ultimately show ?thesis using ids(1) z(3) by (simp add: zone_inv_def)
    qed
  qed
qed

lemma zone_inv_delete:
  assumes "zone_inv cfg j4 j6 t4 t6 w"
  shows "zone_inv cfg j4 j6 t4 t6 (snd (zone_DeleteResource node c w))"
proof -
  obtain z where z: "zw_zcc w = Some z" "ids_ok (nodeIDAllocator z)" "generators_ok cfg j4 j6 t4 t6 z"
    and acc: "\<And>n ann. zw_accepted w n = Some ann \<Longrightarrow>
       \<exists>i. nameIdMap (nodeIDAllocator z) n = Some i \<and> node_annotations cfg n i z = Some (Inr ann)"
    using assms unfolding zone_inv_def by blast
  obtain a where a: "ReleaseID (node_Name node) (nodeIDAllocator z) = Some a" "ids_ok a"
    "nameIdMap a = (nameIdMap (nodeIDAllocator z))(node_Name node := None)"
    using ids_ok_ReleaseID [OF z(2)] by blast
  then have "snd (zone_DeleteResource node c w) =
      w\<lparr>zw_zcc := Some (z\<lparr>nodeIDAllocator := a\<rparr>), zw_accepted := (zw_accepted w)(node_Name node := None)\<rparr>"
    using z(1) by (simp add: zone_DeleteResource_def handleDeleteNode_def)
  then show ?thesis using a(2,3) z(3) acc by (simp add: zone_inv_def)
qed

interpretation zone: resource_handler "zone_handler cfg" zone_env "zone_inv cfg j4 j6 t4 t6" for cfg j4 j6 t4 t6
proof
  fix w node old and b
  assume I: "zone_inv cfg j4 j6 t4 t6 w"
  show "zone_inv cfg j4 j6 t4 t6 (snd (h_UpdateResource (zone_handler cfg) old node b w))"
    using zone_inv_add [OF I, of node False]
    by (auto simp: zone_handler_def zone_UpdateResource_def split: prod.splits option.splits)
qed (auto simp: zone_handler_def zone_inv_add zone_inv_delete, auto simp: zone_inv_def zone_env_def)

section \<open>Reading the annotations\<close>

lemma BigForIP_AddIPOffset_mod:
  assumes "0 \<le> b + k"
  shows "BigForIP (AddIPOffset b k) = (b + k) mod 2 ^ 128"
proof -
  define r where "r = replicate 16 0 @ big_Bytes (b + k)"
  define d where "d = drop (length r - 16) r"
  have len: "length d = 16" by (simp add: d_def r_def)
  with big_SetBytes_lt [of d] have d: "length d = 16" "big_SetBytes d < 2 ^ 128" by simp_all
  have "b + k = big_SetBytes r" using assms by (simp add: r_def big_SetBytes_Bytes)
  also have "\<dots> = big_SetBytes (take (length r - 16) r) * 2 ^ 128 + big_SetBytes d"
    using big_SetBytes_append [of "take (length r - 16) r" d] d(1) unfolding d_def by simp
  finally have "(b + k) mod 2 ^ 128 = big_SetBytes d mod 2 ^ 128" by (simp only: mod_mult_self3)
  also have "\<dots> = big_SetBytes d" using d(2) by (intro mod_pos_pos_trivial) simp_all
  finally have "big_SetBytes d = (b + k) mod 2 ^ 128" by simp
  moreover have "AddIPOffset b k = d" unfolding AddIPOffset_def Let_def d_def r_def ..
  ultimately show ?thesis using d(1) by (simp add: BigForIP_def To16_def)
qed

lemma AddIPOffset_inj:
  assumes "0 \<le> b" "0 \<le> i" "i < 2 ^ 63" "0 \<le> k" "k < 2 ^ 63" "AddIPOffset b i = AddIPOffset b k"
  shows "i = k"
proof -
  have "(b + i) mod 2 ^ 128 = (b + k) mod 2 ^ 128"
    using assms BigForIP_AddIPOffset_mod [of b i] BigForIP_AddIPOffset_mod [of b k] by simp
  then have "(2 :: int) ^ 128 dvd i - k" by (simp add: mod_eq_dvd_iff)
  then show ?thesis using assms zdvd_imp_le [of "2 ^ 128" "i - k"] zdvd_imp_le [of "2 ^ 128" "k - i"]
    by (cases i k rule: linorder_cases) (auto simp: dvd_diff_commute)
qed

abbreviation host_ok :: "ipnet option \<Rightarrow> bool" where
  "host_ok \<equiv> pred_option host_net"

lemma parse_ifaddr_host:
  assumes "host_ok v"
  shows "parse_ifaddr (case v of None \<Rightarrow> [] | Some n \<Rightarrow> IPNet_String n) = Inr (case v of None \<Rightarrow> [] | Some n \<Rightarrow> [n])"
    and "(case v of None \<Rightarrow> [] | Some n \<Rightarrow> IPNet_String n) = [] \<longleftrightarrow> v = None"
  using assms ParseCIDR_host_net [of "the v"] by (cases v; simp add: parse_ifaddr_def)+

lemma decode_encode_ifaddr: "decode_ifaddr \<lparr>pa_IPv4 = [], pa_IPv6 = []\<rparr> (encode_ifaddr a) = Some a"
  by (simp add: encode_ifaddr_def key_is_def lower_def)

lemma parse_created:
  assumes "host_ok v4" "host_ok v6" "v4 \<noteq> None \<or> v6 \<noteq> None"
    "node_docs node name = createPrimaryIfAddrAnnotation name docs v4 v6 name"
  shows "parsePrimaryIfAddrAnnotation node name =
    Inr ((case v4 of None \<Rightarrow> [] | Some n \<Rightarrow> [n]) @ (case v6 of None \<Rightarrow> [] | Some n \<Rightarrow> [n]))"
  using assms parse_ifaddr_host [OF assms(1)] parse_ifaddr_host [OF assms(2)]
  by (simp add: parsePrimaryIfAddrAnnotation_def read_ifaddr_def createPrimaryIfAddrAnnotation_def decode_encode_ifaddr)

lemma generate_if_result:
  assumes "generate_if wanted i (generator_for wanted n) = Some (Inr v)"
  shows "v = (if wanted then Some \<lparr>IP = AddIPOffset (BigForIP (IP n)) i, Mask = Mask n\<rparr> else None)"
    and "wanted \<Longrightarrow> IPNet_Contains n (AddIPOffset (BigForIP (IP n)) i)"
  using assms by (auto simp: generate_if_def generator_for_def GenerateIP_def Let_def split: if_splits sum.splits)

lemma generate_if_host_ok:
  assumes "generate_if wanted i (generator_for wanted n) = Some (Inr v)" "wanted \<longrightarrow> cidr_wf n"
  shows "host_ok v"
  using generate_if_result [OF assms(1)] assms(2) Contains_iff [of n "AddIPOffset (BigForIP (IP n)) i"]
  by (auto simp: host_net_def)

text \<open>The addresses of one kind for an id: one per enabled family.\<close>

definition zone_addrs :: "zone_config \<Rightarrow> ipnet \<Rightarrow> ipnet \<Rightarrow> int \<Rightarrow> ipnet list" where
  "zone_addrs cfg a b i =
     (if IPv4Mode cfg then [\<lparr>IP = AddIPOffset (BigForIP (IP a)) i, Mask = Mask a\<rparr>] else []) @
     (if IPv6Mode cfg then [\<lparr>IP = AddIPOffset (BigForIP (IP b)) i, Mask = Mask b\<rparr>] else [])"

definition annotated :: "string \<Rightarrow> annotations \<Rightarrow> Node" where
  "annotated n ann = \<lparr>node_Name = n, node_docs = snd ann, node_texts = fst ann\<rparr>"

lemma pair_addrs:
  assumes "generate_pair cfg i (generator_for (IPv4Mode cfg) a) (generator_for (IPv6Mode cfg) b) = Some (Inr (v4, v6))"
    and "subnet_ok (IPv4Mode cfg) True s4 a" "subnet_ok (IPv6Mode cfg) False s6 b" "IPv4Mode cfg \<or> IPv6Mode cfg"
  shows "host_ok v4 \<and> host_ok v6 \<and> (v4 \<noteq> None \<or> v6 \<noteq> None)"
    and "(case v4 of None \<Rightarrow> [] | Some n \<Rightarrow> [n]) @ (case v6 of None \<Rightarrow> [] | Some n \<Rightarrow> [n]) = zone_addrs cfg a b i"
    and "IPv4Mode cfg \<Longrightarrow> IPNet_Contains a (AddIPOffset (BigForIP (IP a)) i)"
    and "IPv6Mode cfg \<Longrightarrow> IPNet_Contains b (AddIPOffset (BigForIP (IP b)) i)"
proof -
  have g: "generate_if (IPv4Mode cfg) i (generator_for (IPv4Mode cfg) a) = Some (Inr v4)"
    "generate_if (IPv6Mode cfg) i (generator_for (IPv6Mode cfg) b) = Some (Inr v6)"
    using assms(1) by (auto simp: generate_pair_def split: option.splits sum.splits)
  note r = generate_if_result [OF g(1)] generate_if_result [OF g(2)]
  show "host_ok v4 \<and> host_ok v6 \<and> (v4 \<noteq> None \<or> v6 \<noteq> None)"
    using generate_if_host_ok [OF g(1)] generate_if_host_ok [OF g(2)] assms(2-) r by (auto simp: subnet_ok_def)
  show "(case v4 of None \<Rightarrow> [] | Some n \<Rightarrow> [n]) @ (case v6 of None \<Rightarrow> [] | Some n \<Rightarrow> [n]) = zone_addrs cfg a b i"
    using r by (simp add: zone_addrs_def)
qed (use generate_if_result assms(1) in \<open>auto simp: generate_pair_def split: option.splits sum.splits\<close>)

definition zone_addrs_ok :: "zone_config \<Rightarrow> ipnet \<Rightarrow> ipnet \<Rightarrow> int \<Rightarrow> bool" where
  "zone_addrs_ok cfg a b i \<longleftrightarrow>
     (IPv4Mode cfg \<longrightarrow> is4 (AddIPOffset (BigForIP (IP a)) i) \<and> IPNet_Contains a (AddIPOffset (BigForIP (IP a)) i)) \<and>
     (IPv6Mode cfg \<longrightarrow> \<not> is4 (AddIPOffset (BigForIP (IP b)) i) \<and> IPNet_Contains b (AddIPOffset (BigForIP (IP b)) i))"

lemma zone_addrs_okI:
  assumes "generate_pair cfg i (generator_for (IPv4Mode cfg) a) (generator_for (IPv6Mode cfg) b) = Some (Inr (v4, v6))"
    and ok: "subnet_ok (IPv4Mode cfg) True s4 a" "subnet_ok (IPv6Mode cfg) False s6 b" "IPv4Mode cfg \<or> IPv6Mode cfg"
  shows "zone_addrs_ok cfg a b i"
  using pair_addrs(3,4) [OF assms] ok Contains_iff [of a "AddIPOffset (BigForIP (IP a)) i"]
    Contains_iff [of b "AddIPOffset (BigForIP (IP b)) i"]
  by (auto simp: zone_addrs_ok_def subnet_ok_def)

lemma zone_addrs_contained:
  "zone_addrs_ok cfg a b i \<Longrightarrow> x \<in> set (zone_addrs cfg a b i) \<Longrightarrow> IPNet_Contains (if is4 (IP x) then a else b) (IP x)"
  by (auto simp: zone_addrs_ok_def zone_addrs_def split: if_splits)

lemma zone_addrs_disjoint:
  assumes "zone_addrs_ok cfg a b i" "zone_addrs_ok cfg a b k" "i \<noteq> k" "i \<in> {0 ..< 2 ^ 63}" "k \<in> {0 ..< 2 ^ 63}"
  shows "IP ` set (zone_addrs cfg a b i) \<inter> IP ` set (zone_addrs cfg a b k) = {}"
proof -
  have same: "AddIPOffset (BigForIP (IP n)) i \<noteq> AddIPOffset (BigForIP (IP n)) k" for n
    using AddIPOffset_inj [OF BigForIP_range(1), of i k "IP n"] assms(3-5) by auto
  have cross: "AddIPOffset (BigForIP (IP a)) l \<noteq> AddIPOffset (BigForIP (IP b)) m"
    if "IPv4Mode cfg" "IPv6Mode cfg" "zone_addrs_ok cfg a b l" "zone_addrs_ok cfg a b m" for l m
    using that by (metis zone_addrs_ok_def)
  show ?thesis
    using assms(1,2) same [of a] same [of b] cross [of i k] cross [of k i] by (simp add: zone_addrs_def) force
qed

text \<open>What the readers of the annotations make of them.\<close>

lemma node_annotations_read:
  assumes ann: "node_annotations cfg n i z = Some (Inr ann)" and gens: "generators_ok cfg j4 j6 t4 t6 z"
    and cfg: "zone_config_ok cfg j4 j6 t4 t6" and i: "i \<in> {0 ..< 2 ^ 63}"
  shows "GetNodeID (annotated n ann) = i"
    and "ParseNodeGatewayRouterLRPAddrs (annotated n ann) = Inr (zone_addrs cfg j4 j6 i) \<and> zone_addrs_ok cfg j4 j6 i"
    and "EnableInterconnect cfg \<Longrightarrow>
      ParseNodeTransitSwitchPortAddrs (annotated n ann) = Inr (zone_addrs cfg t4 t6 i) \<and> zone_addrs_ok cfg t4 t6 i"
proof -
  have keys: "ovnNodeGRLRPAddr \<noteq> ovnTransitSwitchPortAddr"
    by (simp add: ovnNodeGRLRPAddr_def ovnTransitSwitchPortAddr_def)
  have modes: "IPv4Mode cfg \<or> IPv6Mode cfg"
    and join: "subnet_ok (IPv4Mode cfg) True (V4JoinSubnet cfg) j4" "subnet_ok (IPv6Mode cfg) False (V6JoinSubnet cfg) j6"
    and transit: "EnableInterconnect cfg \<Longrightarrow> subnet_ok (IPv4Mode cfg) True (V4TransitSwitchSubnet cfg) t4"
      "EnableInterconnect cfg \<Longrightarrow> subnet_ok (IPv6Mode cfg) False (V6TransitSwitchSubnet cfg) t6"
    using cfg by (auto simp: zone_config_ok_def)
  obtain v4 v6 where gw: "generate_pair cfg i (generator_for (IPv4Mode cfg) j4) (generator_for (IPv6Mode cfg) j6) = Some (Inr (v4, v6))"
    and texts: "fst ann = UpdateNodeIDAnnotation Map.empty i"
    and docs: "\<not> EnableInterconnect cfg \<Longrightarrow> snd ann = CreateNodeGatewayRouterLRPAddrAnnotation Map.empty v4 v6"
    and trans: "EnableInterconnect cfg \<Longrightarrow> \<exists>u4 u6. generate_pair cfg i (generator_for (IPv4Mode cfg) t4) (generator_for (IPv6Mode cfg) t6)
        = Some (Inr (u4, u6)) \<and> snd ann = CreateNodeTransitSwitchPortAddrAnnotation (CreateNodeGatewayRouterLRPAddrAnnotation Map.empty v4 v6) u4 u6"
    using ann gens by (auto simp: node_annotations_def generators_ok_def Let_def split: option.splits sum.splits if_splits)
  show "GetNodeID (annotated n ann) = i"
    using texts i Atoi_itoa [of i] by (simp add: annotated_def GetNodeID_def UpdateNodeIDAnnotation_def)
  have "snd ann ovnNodeGRLRPAddr = createPrimaryIfAddrAnnotation ovnNodeGRLRPAddr Map.empty v4 v6 ovnNodeGRLRPAddr"
    using docs trans keys
    by (cases "EnableInterconnect cfg")
      (auto simp: CreateNodeGatewayRouterLRPAddrAnnotation_def CreateNodeTransitSwitchPortAddrAnnotation_def createPrimaryIfAddrAnnotation_def)
  then show "ParseNodeGatewayRouterLRPAddrs (annotated n ann) = Inr (zone_addrs cfg j4 j6 i) \<and> zone_addrs_ok cfg j4 j6 i"
    using pair_addrs(1,2) [OF gw join modes] zone_addrs_okI [OF gw join modes]
      parse_created [of v4 v6 "annotated n ann" ovnNodeGRLRPAddr Map.empty]
    by (simp add: ParseNodeGatewayRouterLRPAddrs_def annotated_def)
  show "ParseNodeTransitSwitchPortAddrs (annotated n ann) = Inr (zone_addrs cfg t4 t6 i) \<and> zone_addrs_ok cfg t4 t6 i"
    if on: "EnableInterconnect cfg"
  proof -
    obtain u4 u6 where tr: "generate_pair cfg i (generator_for (IPv4Mode cfg) t4) (generator_for (IPv6Mode cfg) t6) = Some (Inr (u4, u6))"
      and d: "snd ann = CreateNodeTransitSwitchPortAddrAnnotation (CreateNodeGatewayRouterLRPAddrAnnotation Map.empty v4 v6) u4 u6"
      using trans [OF on] by blast
    show ?thesis
      using pair_addrs(1,2) [OF tr transit [OF on] modes] zone_addrs_okI [OF tr transit [OF on] modes] d
        parse_created [of u4 u6 "annotated n ann" ovnTransitSwitchPortAddr "CreateNodeGatewayRouterLRPAddrAnnotation Map.empty v4 v6"]
      by (simp add: ParseNodeTransitSwitchPortAddrs_def annotated_def CreateNodeTransitSwitchPortAddrAnnotation_def)
  qed
qed

text \<open>C3: on a cluster with canonical subnets, in whatever order node events, retries and failures of the
  API server come after the initial synchronization, the zone controller never crashes, and the annotations
  the API server accepted for two different nodes that have not been deleted carry different node ids and,
  read back by the functions that parse them, disjoint sets of gateway router addresses, all inside the join
  subnets, and with interconnect disjoint sets of transit switch addresses, all inside the transit subnets.\<close>

theorem zone_nodes_get_distinct_addresses:
  assumes cfg: "zone_config_ok cfg j4 j6 t4 t6"
    and new: "newZoneClusterController cfg = Inr z0" and sync: "syncNodeIDs nodes z0 = Some (res, z1)"
    and run: "(retry_step (zone_handler cfg) zone_env)\<^sup>*\<^sup>*
       (NewRetryFramework \<lparr>zw_zcc = Some z1, zw_informer = informer, zw_api_ok = api, zw_accepted = Map.empty\<rparr>) r"
  shows "zw_zcc (rt_world r) \<noteq> None \<and>
    (\<forall>n1 n2 ann1 ann2. n1 \<noteq> n2 \<and> zw_accepted (rt_world r) n1 = Some ann1 \<and> zw_accepted (rt_world r) n2 = Some ann2 \<longrightarrow>
       GetNodeID (annotated n1 ann1) \<noteq> GetNodeID (annotated n2 ann2) \<and>
       (\<exists>A1 A2. ParseNodeGatewayRouterLRPAddrs (annotated n1 ann1) = Inr A1 \<and>
          ParseNodeGatewayRouterLRPAddrs (annotated n2 ann2) = Inr A2 \<and> IP ` set A1 \<inter> IP ` set A2 = {} \<and>
          (\<forall>x \<in> set A1. IPNet_Contains (if is4 (IP x) then j4 else j6) (IP x))) \<and>
       (EnableInterconnect cfg \<longrightarrow>
         (\<exists>B1 B2. ParseNodeTransitSwitchPortAddrs (annotated n1 ann1) = Inr B1 \<and>
            ParseNodeTransitSwitchPortAddrs (annotated n2 ann2) = Inr B2 \<and> IP ` set B1 \<inter> IP ` set B2 = {} \<and>
            (\<forall>x \<in> set B1. IPNet_Contains (if is4 (IP x) then t4 else t6) (IP x)))))"
proof -
  have "ids_ok (nodeIDAllocator z0)" "generators_ok cfg j4 j6 t4 t6 z0"
    using newZoneClusterController_ok [OF cfg new] by auto
  then have "zone_inv cfg j4 j6 t4 t6 \<lparr>zw_zcc = Some z1, zw_informer = informer, zw_api_ok = api, zw_accepted = Map.empty\<rparr>"
    using syncNodeIDs_frame [OF sync] by (auto simp: zone_inv_def)
  then have "zone_inv cfg j4 j6 t4 t6 (rt_world r)" by (rule zone.reachable_keeps [OF run])
  then obtain z where z: "zw_zcc (rt_world r) = Some z" "ids_ok (nodeIDAllocator z)" "generators_ok cfg j4 j6 t4 t6 z"
    and acc: "\<And>n ann. zw_accepted (rt_world r) n = Some ann \<Longrightarrow>
       \<exists>i. nameIdMap (nodeIDAllocator z) n = Some i \<and> node_annotations cfg n i z = Some (Inr ann)"
    unfolding zone_inv_def by blast
  have "GetNodeID (annotated n1 a1) \<noteq> GetNodeID (annotated n2 a2) \<and>
       (\<exists>A1 A2. ParseNodeGatewayRouterLRPAddrs (annotated n1 a1) = Inr A1 \<and>
          ParseNodeGatewayRouterLRPAddrs (annotated n2 a2) = Inr A2 \<and> IP ` set A1 \<inter> IP ` set A2 = {} \<and>
          (\<forall>x \<in> set A1. IPNet_Contains (if is4 (IP x) then j4 else j6) (IP x))) \<and>
       (EnableInterconnect cfg \<longrightarrow>
         (\<exists>B1 B2. ParseNodeTransitSwitchPortAddrs (annotated n1 a1) = Inr B1 \<and>
            ParseNodeTransitSwitchPortAddrs (annotated n2 a2) = Inr B2 \<and> IP ` set B1 \<inter> IP ` set B2 = {} \<and>
            (\<forall>x \<in> set B1. IPNet_Contains (if is4 (IP x) then t4 else t6) (IP x))))"
    if n: "n1 \<noteq> n2" and a1: "zw_accepted (rt_world r) n1 = Some a1" and a2: "zw_accepted (rt_world r) n2 = Some a2"
    for n1 n2 a1 a2
  proof -
    obtain i k where i: "nameIdMap (nodeIDAllocator z) n1 = Some i" "node_annotations cfg n1 i z = Some (Inr a1)"
      and k: "nameIdMap (nodeIDAllocator z) n2 = Some k" "node_annotations cfg n2 k z = Some (Inr a2)"
      using acc [OF a1] acc [OF a2] by blast
    have ne: "i \<noteq> k" using ids_ok_inj [OF z(2) i(1)] k(1) n by blast
    have b: "i \<in> {0 ..< 2 ^ 63}" "k \<in> {0 ..< 2 ^ 63}" using z(2) i(1) k(1) ranI unfolding ids_ok_def by fast+
    note r1 = node_annotations_read [OF i(2) z(3) cfg b(1)] and r2 = node_annotations_read [OF k(2) z(3) cfg b(2)]
    show ?thesis
      using r1 r2 ne zone_addrs_disjoint [OF _ _ ne b] zone_addrs_contained by (metis (no_types, lifting))
  qed
  with z(1) show ?thesis by blast
qed

definition zone_example_cfg :: zone_config where
  "zone_example_cfg = \<lparr>IPv4Mode = True, IPv6Mode = False, V4JoinSubnet = ''100.64.0.0/16'', V6JoinSubnet = '''',
     EnableInterconnect = True, V4TransitSwitchSubnet = ''100.88.0.0/16'', V6TransitSwitchSubnet = ''''\<rparr>"

definition zone_example_node :: "string \<Rightarrow> Node" where
  "zone_example_node n = \<lparr>node_Name = n, node_docs = Map.empty, node_texts = Map.empty\<rparr>"

definition zone_example_start :: "(Node, zone_world) RetryFramework" where
  "zone_example_start = NewRetryFramework
     \<lparr>zw_zcc = (case newZoneClusterController zone_example_cfg of Inr z \<Rightarrow> Some z | Inl _ \<Rightarrow> None),
      zw_informer = Map.empty, zw_api_ok = (\<lambda>n. True), zw_accepted = Map.empty\<rparr>"

definition zone_example :: "(Node, zone_world) RetryFramework" where
  "zone_example = AddFunc (zone_handler zone_example_cfg) (zone_example_node ''b'') 1
     (AddFunc (zone_handler zone_example_cfg) (zone_example_node ''a'') 0 zone_example_start)"

theorem zone_nodes_get_distinct_addresses_witness:
  "GetNodeID (annotated ''a'' (the (zw_accepted (rt_world zone_example) ''a''))) \<noteq>
   GetNodeID (annotated ''b'' (the (zw_accepted (rt_world zone_example) ''b'')))"
proof -
  define cfg where "cfg = zone_example_cfg"
  have "zone_config_ok zone_example_cfg \<lparr>IP = [100, 64, 0, 0], Mask = [0xff, 0xff, 0, 0]\<rparr> undefined
      \<lparr>IP = [100, 88, 0, 0], Mask = [0xff, 0xff, 0, 0]\<rparr> undefined"
  proof -
    have "subnet_ok True True ''100.64.0.0/16'' \<lparr>IP = [100, 64, 0, 0], Mask = [0xff, 0xff, 0, 0]\<rparr>"
      "subnet_ok True True ''100.88.0.0/16'' \<lparr>IP = [100, 88, 0, 0], Mask = [0xff, 0xff, 0, 0]\<rparr>" by code_simp+
    then show ?thesis by (simp add: zone_config_ok_def zone_example_cfg_def subnet_ok_def)
  qed
  then have ok: "zone_config_ok cfg \<lparr>IP = [100, 64, 0, 0], Mask = [0xff, 0xff, 0, 0]\<rparr> undefined
      \<lparr>IP = [100, 88, 0, 0], Mask = [0xff, 0xff, 0, 0]\<rparr> undefined" by (simp add: cfg_def)
  have "case newZoneClusterController zone_example_cfg of Inr z \<Rightarrow> True | Inl _ \<Rightarrow> False" by code_simp
  then obtain z where z: "newZoneClusterController cfg = Inr z" by (auto simp: cfg_def split: sum.splits)
  have sync: "syncNodeIDs [] z = Some (Inr (), z)" by (simp add: syncNodeIDs_def)
  have start: "zone_example_start = NewRetryFramework \<lparr>zw_zcc = Some z, zw_informer = Map.empty, zw_api_ok = (\<lambda>n. True), zw_accepted = Map.empty\<rparr>"
    using z by (simp add: zone_example_start_def cfg_def)
  have "(retry_step (zone_handler cfg) zone_env)\<^sup>*\<^sup>* zone_example_start zone_example"
    unfolding zone_example_def cfg_def [symmetric]
    by (rule rtranclp.rtrancl_into_rtrancl [OF rtranclp.rtrancl_into_rtrancl [OF rtranclp.rtrancl_refl]])
      (rule retry_step.added)+
  note run = this [unfolded start]
  have "zw_accepted (rt_world zone_example) ''a'' \<noteq> None" "zw_accepted (rt_world zone_example) ''b'' \<noteq> None"
    by code_simp+
  then show ?thesis
    using zone_nodes_get_distinct_addresses [OF ok z sync run, THEN conjunct2, rule_format, of "''a''" "''b''"] by auto
qed

text \<open>The pseudo-names under which the ids 0 and 1 are reserved are also legal names of nodes: a node called
  \<open>zero\<close> gets the reserved id 0, and deleting it makes the id available.\<close>

lemma node_named_zero:
  "map_option (\<lambda>ann. GetNodeID (annotated ''zero'' ann))
     (zw_accepted (rt_world (AddFunc (zone_handler zone_example_cfg) (zone_example_node ''zero'') 0 zone_example_start)) ''zero'') = Some 0"
  "map_option (\<lambda>z. nameIdMap (nodeIDAllocator z) ''zero'')
     (zw_zcc (rt_world (DeleteFunc (zone_handler zone_example_cfg) (zone_example_node ''zero'') 0 zone_example_start))) = Some None"
  by code_simp+

text \<open>A negative id in an annotation, other than the invalid id -1, crashes the controller when it starts.\<close>

lemma negative_node_id_crashes:
  "(case newZoneClusterController zone_example_cfg of
      Inr z \<Rightarrow> syncNodeIDs [Some ((zone_example_node ''a'')\<lparr>node_texts := [ovnNodeID \<mapsto> ''-5'']\<rparr>)] z = None
    | Inl _ \<Rightarrow> False)"
  by code_simp

end
