(* ===== verification/Pod_Annotation.thy ===== *)
theory Pod_Annotation
  imports Node_Annotations
begin

text \<open>
  The network annotation of a pod (\<open>pkg/util/pod_annotation.go\<close>): the document under
  \<open>k8s.ovn.org/pod-networks\<close>, which maps the name of each network attachment to the addresses, the MAC
  address, the gateways, the routes and the tunnel id of the pod on it, and the computation of gateways and
  routes from the addresses. \<open>net.ParseMAC\<close> and \<open>HardwareAddr.String\<close> are those of the standard library.
  A nil slice and an empty one are both \<open>[]\<close>; a nil address is \<open>[]\<close>. The network selections of a pod, which
  a vendored parser reads from other annotations, are fields of the pod.

  The lemmas show that reading gives back what was written, that writing one attachment leaves the others
  alone, and that the addresses of an attachment cannot be overwritten.
\<close>

section \<open>MAC addresses\<close>

definition HardwareAddr_String :: "byte list \<Rightarrow> string" where
  "HardwareAddr_String hw = join '':'' (map (\<lambda>b. hexString [b]) hw)"

definition xtoi2 :: "string \<Rightarrow> char \<Rightarrow> byte option" where
  "xtoi2 s e =
     (if length s > 2 \<and> s ! 2 \<noteq> e then None
      else case xtoi (take 2 s) of
          Some (n, rest) \<Rightarrow> if rest = [] \<and> length s \<ge> 2 then Some (word_of_int n) else None
        | None \<Rightarrow> None)"

fun mac_loop :: "nat \<Rightarrow> char \<Rightarrow> string \<Rightarrow> byte list option" where
  "mac_loop 0 e s = Some []"
| "mac_loop (Suc k) e s =
     (case xtoi2 s e of None \<Rightarrow> None | Some b \<Rightarrow> map_option ((#) b) (mac_loop k e (drop 3 s)))"

fun mac_dot_loop :: "nat \<Rightarrow> char \<Rightarrow> string \<Rightarrow> byte list option" where
  "mac_dot_loop 0 e s = Some []"
| "mac_dot_loop (Suc k) e s =
     (case (xtoi2 (take 2 s) (CHR 0x00), xtoi2 (drop 2 s) e) of
        (Some a, Some b) \<Rightarrow> map_option (\<lambda>bs. a # b # bs) (mac_dot_loop k e (drop 5 s))
      | _ \<Rightarrow> None)"

definition ParseMAC :: "string \<Rightarrow> byte list option" where
  "ParseMAC s =
     (if length s < 14 then None
      else if s ! 2 = CHR '':'' \<or> s ! 2 = CHR ''-'' then
        (let n = (length s + 1) div 3
         in if (length s + 1) mod 3 \<noteq> 0 \<or> n \<notin> {6, 8, 20} then None else mac_loop n (s ! 2) s)
      else if s ! 4 = CHR ''.'' then
        (let n = 2 * (length s + 1) div 5
         in if (length s + 1) mod 5 \<noteq> 0 \<or> n \<notin> {6, 8, 20} then None else mac_dot_loop (n div 2) (s ! 4) s)
      else None)"

definition IsUnspecified :: "ip \<Rightarrow> bool" where
  "IsUnspecified x \<longleftrightarrow> IP_Equal x (v4InV6Prefix @ [0, 0, 0, 0]) \<or> IP_Equal x (replicate 16 0)"

section \<open>The annotation\<close>

definition OvnPodAnnotationName :: string where
  "OvnPodAnnotationName = ''k8s.ovn.org/pod-networks''"

definition DefaultNetworkName :: string where
  "DefaultNetworkName = ''default''"

record PodRoute =
  pr_Dest :: ipnet
  pr_NextHop :: ip

record PodAnnotation =
  pan_IPs :: "ipnet list"
  pan_MAC :: "byte list"
  pan_Gateways :: "ip list"
  pan_Routes :: "PodRoute list"
  pan_TunnelID :: int

definition noPodAnnotation :: PodAnnotation where
  "noPodAnnotation = \<lparr>pan_IPs = [], pan_MAC = [], pan_Gateways = [], pan_Routes = [], pan_TunnelID = 0\<rparr>"

datatype pod_error =
    PodAnnotationNotSet
  | PodAnnotationNotParsed
  | NoNetwork string
  | BadMAC string
  | IPConflict
  | BadPodIP string
  | GatewayConflict
  | BadGateway string
  | BadRouteDest string
  | DefaultRouteAsRoute
  | BadNextHop string
  | NextHopFamily string string
  | SingleStackGateways
  | ErrOverridePodIPs

text \<open>The structs that are marshalled.\<close>

record podRoute =
  jr_Dest :: string
  jr_NextHop :: string

record podAnnotation =
  j_IPs :: "string list"
  j_MAC :: string
  j_Gateways :: "string list"
  j_Routes :: "podRoute list"
  j_IP :: string
  j_Gateway :: string
  j_TunnelID :: int

definition emptyPodAnnotation :: podAnnotation where
  "emptyPodAnnotation = \<lparr>j_IPs = [], j_MAC = [], j_Gateways = [], j_Routes = [], j_IP = [], j_Gateway = [], j_TunnelID = 0\<rparr>"

fun decode_route_members :: "(string \<times> json) list \<Rightarrow> podRoute \<Rightarrow> podRoute option" where
  "decode_route_members [] r = Some r"
| "decode_route_members ((k, j) # ms) r =
     (if key_is ''dest'' k then
        (case decode_string (jr_Dest r) j of None \<Rightarrow> None | Some s \<Rightarrow> decode_route_members ms (r\<lparr>jr_Dest := s\<rparr>))
      else if key_is ''nextHop'' k then
        (case decode_string (jr_NextHop r) j of None \<Rightarrow> None | Some s \<Rightarrow> decode_route_members ms (r\<lparr>jr_NextHop := s\<rparr>))
      else decode_route_members ms r)"

fun decode_route :: "json \<Rightarrow> podRoute option" where
  "decode_route (JObject ms) = decode_route_members ms \<lparr>jr_Dest = [], jr_NextHop = []\<rparr>"
| "decode_route JNull = Some \<lparr>jr_Dest = [], jr_NextHop = []\<rparr>"
| "decode_route _ = None"

fun decode_routes :: "json \<Rightarrow> podRoute list option" where
  "decode_routes (JArray js) = decode_elems decode_route js"
| "decode_routes JNull = Some []"
| "decode_routes _ = None"

definition decode_pod_field :: "string \<Rightarrow> json \<Rightarrow> podAnnotation \<Rightarrow> podAnnotation option" where
  "decode_pod_field k j a =
     (if key_is ''ip_addresses'' k then map_option (\<lambda>v. a\<lparr>j_IPs := v\<rparr>) (decode_strings j)
      else if key_is ''mac_address'' k then map_option (\<lambda>v. a\<lparr>j_MAC := v\<rparr>) (decode_string (j_MAC a) j)
      else if key_is ''gateway_ips'' k then map_option (\<lambda>v. a\<lparr>j_Gateways := v\<rparr>) (decode_strings j)
      else if key_is ''routes'' k then map_option (\<lambda>v. a\<lparr>j_Routes := v\<rparr>) (decode_routes j)
      else if key_is ''ip_address'' k then map_option (\<lambda>v. a\<lparr>j_IP := v\<rparr>) (decode_string (j_IP a) j)
      else if key_is ''gateway_ip'' k then map_option (\<lambda>v. a\<lparr>j_Gateway := v\<rparr>) (decode_string (j_Gateway a) j)
      else if key_is ''tunnel_id'' k then map_option (\<lambda>v. a\<lparr>j_TunnelID := v\<rparr>) (decode_int (j_TunnelID a) j)
      else Some a)"

fun decode_pod_members :: "(string \<times> json) list \<Rightarrow> podAnnotation \<Rightarrow> podAnnotation option" where
  "decode_pod_members [] a = Some a"
| "decode_pod_members ((k, j) # ms) a = Option.bind (decode_pod_field k j a) (decode_pod_members ms)"

fun decode_pod :: "json \<Rightarrow> podAnnotation option" where
  "decode_pod (JObject ms) = decode_pod_members ms emptyPodAnnotation"
| "decode_pod JNull = Some emptyPodAnnotation"
| "decode_pod _ = None"

definition encode_strings :: "string list \<Rightarrow> json" where
  "encode_strings ss = JArray (map JString ss)"

definition encode_route :: "podRoute \<Rightarrow> json" where
  "encode_route r = JObject [(''dest'', JString (jr_Dest r)), (''nextHop'', JString (jr_NextHop r))]"

definition encode_pod :: "podAnnotation \<Rightarrow> json" where
  "encode_pod a = JObject
     ([(''ip_addresses'', if j_IPs a = [] then JNull else encode_strings (j_IPs a)), (''mac_address'', JString (j_MAC a))]
      @ (if j_Gateways a = [] then [] else [(''gateway_ips'', encode_strings (j_Gateways a))])
      @ (if j_Routes a = [] then [] else [(''routes'', JArray (map encode_route (j_Routes a)))])
      @ (if j_IP a = [] then [] else [(''ip_address'', JString (j_IP a))])
      @ (if j_Gateway a = [] then [] else [(''gateway_ip'', JString (j_Gateway a))])
      @ (if j_TunnelID a = 0 then [] else [(''tunnel_id'', JNumber (j_TunnelID a))]))"

definition UnmarshalPodAnnotationAllNetworks :: "documents \<Rightarrow> pod_error + (string \<times> podAnnotation) list" where
  "UnmarshalPodAnnotationAllNetworks annotations =
     (case annotations OvnPodAnnotationName of
        None \<Rightarrow> Inr []
      | Some ovnAnnotation \<Rightarrow>
          (case Option.bind ovnAnnotation (decode_map decode_pod) of
             None \<Rightarrow> Inl PodAnnotationNotParsed
           | Some podNetworks \<Rightarrow> Inr podNetworks))"

fun marshal_routes :: "PodRoute list \<Rightarrow> pod_error + podRoute list" where
  "marshal_routes [] = Inr []"
| "marshal_routes (r # rs) =
     (if IsUnspecified (IP (pr_Dest r)) then Inl DefaultRouteAsRoute
      else case marshal_routes rs of
          Inl e \<Rightarrow> Inl e
        | Inr js \<Rightarrow> Inr (\<lparr>jr_Dest = IPNet_String (pr_Dest r),
                          jr_NextHop = (if pr_NextHop r \<noteq> [] then IP_String (pr_NextHop r) else [])\<rparr> # js))"

definition MarshalPodAnnotation :: "documents \<Rightarrow> PodAnnotation \<Rightarrow> string \<Rightarrow> pod_error + documents" where
  "MarshalPodAnnotation annotations podInfo nadName =
     (case UnmarshalPodAnnotationAllNetworks annotations of
        Inl e \<Rightarrow> Inl e
      | Inr podNetworks \<Rightarrow>
          if length (pan_IPs podInfo) = 1 \<and> length (pan_Gateways podInfo) > 1 then Inl SingleStackGateways
          else let ips = map IPNet_String (pan_IPs podInfo)
               in if (case map_of podNetworks nadName of
                        None \<Rightarrow> False
                      | Some existingPa \<Rightarrow> length ips \<noteq> length (j_IPs existingPa)
                          \<or> (\<exists>ip \<in> set ips. \<not> SliceHasStringItem (j_IPs existingPa) ip))
                  then Inl ErrOverridePodIPs
                  else case marshal_routes (pan_Routes podInfo) of
                      Inl e \<Rightarrow> Inl e
                    | Inr routes \<Rightarrow>
                        let pa = \<lparr>j_IPs = ips, j_MAC = HardwareAddr_String (pan_MAC podInfo),
                                  j_Gateways = map IP_String (pan_Gateways podInfo), j_Routes = routes,
                                  j_IP = (if length (pan_IPs podInfo) = 1 then IPNet_String (pan_IPs podInfo ! 0) else []),
                                  j_Gateway = (if length (pan_IPs podInfo) = 1 \<and> length (pan_Gateways podInfo) = 1
                                               then IP_String (pan_Gateways podInfo ! 0) else []),
                                  j_TunnelID = pan_TunnelID podInfo\<rparr>
                        in Inr (annotations(OvnPodAnnotationName \<mapsto> Some (encode_map encode_pod (AList.update nadName pa podNetworks)))))"

fun parse_pod_ips :: "string list \<Rightarrow> pod_error + ipnet list" where
  "parse_pod_ips [] = Inr []"
| "parse_pod_ips (s # ss) =
     (case ParseCIDR s of
        None \<Rightarrow> Inl (BadPodIP s)
      | Some (x, n) \<Rightarrow> (case parse_pod_ips ss of Inl e \<Rightarrow> Inl e | Inr ns \<Rightarrow> Inr (n\<lparr>IP := x\<rparr> # ns)))"

fun parse_gateways :: "string list \<Rightarrow> pod_error + ip list" where
  "parse_gateways [] = Inr []"
| "parse_gateways (s # ss) =
     (let gw = ParseIP s
      in if gw = [] then Inl (BadGateway s)
         else case parse_gateways ss of Inl e \<Rightarrow> Inl e | Inr gws \<Rightarrow> Inr (gw # gws))"

definition parse_route :: "podRoute \<Rightarrow> pod_error + PodRoute" where
  "parse_route r =
     (case ParseCIDR (jr_Dest r) of
        None \<Rightarrow> Inl (BadRouteDest (jr_Dest r))
      | Some (_, dest) \<Rightarrow>
          if IsUnspecified (IP dest) then Inl DefaultRouteAsRoute
          else if jr_NextHop r = [] then Inr \<lparr>pr_Dest = dest, pr_NextHop = []\<rparr>
          else let nh = ParseIP (jr_NextHop r)
               in if nh = [] then Inl (BadNextHop (jr_NextHop r))
                  else if IsIPv6 nh \<noteq> IsIPv6CIDR dest then Inl (NextHopFamily (jr_Dest r) (jr_NextHop r))
                  else Inr \<lparr>pr_Dest = dest, pr_NextHop = nh\<rparr>)"

fun parse_routes :: "podRoute list \<Rightarrow> pod_error + PodRoute list" where
  "parse_routes [] = Inr []"
| "parse_routes (r # rs) =
     (case parse_route r of
        Inl e \<Rightarrow> Inl e
      | Inr p \<Rightarrow> (case parse_routes rs of Inl e \<Rightarrow> Inl e | Inr ps \<Rightarrow> Inr (p # ps)))"

text \<open>The list that is used, given the old single field: \<open>None\<close> when the two conflict.\<close>

definition compat_list :: "string list \<Rightarrow> string \<Rightarrow> string list option" where
  "compat_list many one =
     (if many = [] then Some (if one \<noteq> [] then [one] else [])
      else if one \<noteq> [] \<and> one \<noteq> many ! 0 then None else Some many)"

definition parse_pod :: "podAnnotation \<Rightarrow> pod_error + PodAnnotation" where
  "parse_pod a =
     (case ParseMAC (j_MAC a) of
        None \<Rightarrow> Inl (BadMAC (j_MAC a))
      | Some mac \<Rightarrow>
     (case compat_list (j_IPs a) (j_IP a) of
        None \<Rightarrow> Inl IPConflict
      | Some ss \<Rightarrow>
     (case parse_pod_ips ss of
        Inl e \<Rightarrow> Inl e
      | Inr ips \<Rightarrow>
     (case compat_list (j_Gateways a) (j_Gateway a) of
        None \<Rightarrow> Inl GatewayConflict
      | Some gs \<Rightarrow>
     (case parse_gateways gs of
        Inl e \<Rightarrow> Inl e
      | Inr gws \<Rightarrow>
     (case parse_routes (j_Routes a) of
        Inl e \<Rightarrow> Inl e
      | Inr routes \<Rightarrow>
          Inr \<lparr>pan_IPs = ips, pan_MAC = mac, pan_Gateways = gws, pan_Routes = routes, pan_TunnelID = j_TunnelID a\<rparr>))))))"

definition UnmarshalPodAnnotation :: "documents \<Rightarrow> string \<Rightarrow> pod_error + PodAnnotation" where
  "UnmarshalPodAnnotation annotations nadName =
     (if annotations OvnPodAnnotationName = None then Inl PodAnnotationNotSet
      else case UnmarshalPodAnnotationAllNetworks annotations of
          Inl e \<Rightarrow> Inl e
        | Inr podNetworks \<Rightarrow>
            (case map_of podNetworks nadName of None \<Rightarrow> Inl (NoNetwork nadName) | Some a \<Rightarrow> parse_pod a))"

definition IsValidPodAnnotation :: "PodAnnotation option \<Rightarrow> bool" where
  "IsValidPodAnnotation podAnnotation \<longleftrightarrow> (case podAnnotation of None \<Rightarrow> False | Some a \<Rightarrow> length (pan_MAC a) > 0)"

lemma ParseMAC_test:
  "ParseMAC ''0a:58:fd:98:00:01'' = Some [0x0a, 0x58, 0xfd, 0x98, 0, 1]"
  "ParseMAC ''0A-58-FD-98-00-01'' = Some [0x0a, 0x58, 0xfd, 0x98, 0, 1]"
  "ParseMAC ''0a58.fd98.0001'' = Some [0x0a, 0x58, 0xfd, 0x98, 0, 1]"
  "ParseMAC ''0a:58:fd:98:00'' = None" "ParseMAC ''0a:58:fd:98:00-01'' = None"
  "HardwareAddr_String [0x0a, 0x58, 0xfd, 0x98, 0, 1] = ''0a:58:fd:98:00:01''"
  by code_simp+


section \<open>MAC addresses read back\<close>

lemma xtoi_byte: "xtoi (hexString [b]) = Some (uint b, [])"
proof -
  have b: "uint b < 256" "0 \<le> uint b" using uint_lt2p [of b] by auto
  then have "0 \<le> uint b div 16" "uint b div 16 < 16" by (simp_all add: div_int_pos_iff)
  note d = digit_char_facts(1) [OF this] digit_char_facts(1) [of "uint b mod 16"]
  have "uint b div 16 * 16 + uint b mod 16 = uint b" by simp
  then show ?thesis using b d by (simp add: hexString_def xtoi_def parse_big_def)
qed

lemma length_hexString_byte [simp]: "length (hexString [b]) = 2"
  by (simp add: hexString_def)

lemma xtoi2_byte:
  assumes "rest = [] \<or> hd rest = e"
  shows "xtoi2 (hexString [b] @ rest) e = Some b"
  using assms xtoi_byte [of b] by (cases rest) (auto simp: xtoi2_def nth_append)

lemma mac_loop_String: "mac_loop (length hw) (CHR '':'') (HardwareAddr_String hw) = Some hw"
proof (induction hw)
  case (Cons b hw)
  show ?case
  proof (cases hw)
    case Nil
    then show ?thesis using xtoi2_byte [of "[]" "CHR '':''" b] by (simp add: HardwareAddr_String_def)
  next
    case (Cons c cs)
    then have s: "HardwareAddr_String (b # hw) = hexString [b] @ CHR '':'' # HardwareAddr_String hw"
      by (simp add: HardwareAddr_String_def)
    then show ?thesis using Cons.IH xtoi2_byte [of "CHR '':'' # HardwareAddr_String hw" "CHR '':''" b] by simp
  qed
qed (simp add: HardwareAddr_String_def)

lemma length_HardwareAddr_String: "hw \<noteq> [] \<Longrightarrow> length (HardwareAddr_String hw) = 3 * length hw - 1"
proof (induction hw)
  case (Cons b hw)
  then show ?case by (cases hw) (auto simp: HardwareAddr_String_def)
qed simp

definition mac_ok :: "byte list \<Rightarrow> bool" where
  "mac_ok hw \<longleftrightarrow> length hw \<in> {6, 8, 20}"

lemma ParseMAC_String:
  assumes "mac_ok hw"
  shows "ParseMAC (HardwareAddr_String hw) = Some hw"
proof -
  obtain b c cs where hw: "hw = b # c # cs"
    using assms by (cases hw; cases "tl hw") (auto simp: mac_ok_def)
  then have "HardwareAddr_String hw ! 2 = CHR '':''" by (simp add: HardwareAddr_String_def nth_append)
  moreover have "length (HardwareAddr_String hw) + 1 = 3 * length hw"
    using length_HardwareAddr_String [of hw] hw by simp
  ultimately show ?thesis using assms mac_loop_String [of hw] by (auto simp: ParseMAC_def mac_ok_def)
qed

section \<open>Documents read back\<close>

definition pod_keys :: "string list" where
  "pod_keys = [''ip_addresses'', ''mac_address'', ''gateway_ips'', ''routes'', ''ip_address'', ''gateway_ip'', ''tunnel_id'', ''dest'', ''nextHop'']"

lemma pod_keys_distinct: "list_all (\<lambda>a. list_all (\<lambda>b. key_is a b \<longleftrightarrow> a = b) pod_keys) pod_keys"
  by code_simp

lemma pod_key_is: "a \<in> set pod_keys \<Longrightarrow> b \<in> set pod_keys \<Longrightarrow> key_is a b \<longleftrightarrow> a = b"
  using pod_keys_distinct by (auto simp: list_all_iff)

lemma decode_elems_map: "(\<And>x. x \<in> set xs \<Longrightarrow> f (g x) = Some x) \<Longrightarrow> decode_elems f (map g xs) = Some xs"
  by (induction xs) auto

lemma decode_encode_strings [simp]: "decode_strings (encode_strings ss) = Some ss"
  by (simp add: encode_strings_def decode_elems_map)

lemma decode_encode_route [simp]: "decode_route (encode_route r) = Some r"
  by (simp add: encode_route_def pod_key_is pod_keys_def)

lemma decode_pod_members_append:
  "decode_pod_members (ms @ ns) a = Option.bind (decode_pod_members ms a) (decode_pod_members ns)"
  by (induction ms arbitrary: a) (auto split: Option.bind_splits)

definition int64 :: "int \<Rightarrow> bool" where
  "int64 i \<longleftrightarrow> - (2 ^ 63) \<le> i \<and> i < 2 ^ 63"

lemma decode_pod_fields [simp]:
  "decode_pod_field ''ip_addresses'' j a = map_option (\<lambda>v. a\<lparr>j_IPs := v\<rparr>) (decode_strings j)"
  "decode_pod_field ''mac_address'' j a = map_option (\<lambda>v. a\<lparr>j_MAC := v\<rparr>) (decode_string (j_MAC a) j)"
  "decode_pod_field ''gateway_ips'' j a = map_option (\<lambda>v. a\<lparr>j_Gateways := v\<rparr>) (decode_strings j)"
  "decode_pod_field ''routes'' j a = map_option (\<lambda>v. a\<lparr>j_Routes := v\<rparr>) (decode_routes j)"
  "decode_pod_field ''ip_address'' j a = map_option (\<lambda>v. a\<lparr>j_IP := v\<rparr>) (decode_string (j_IP a) j)"
  "decode_pod_field ''gateway_ip'' j a = map_option (\<lambda>v. a\<lparr>j_Gateway := v\<rparr>) (decode_string (j_Gateway a) j)"
  "decode_pod_field ''tunnel_id'' j a = map_option (\<lambda>v. a\<lparr>j_TunnelID := v\<rparr>) (decode_int (j_TunnelID a) j)"
  by (simp_all add: decode_pod_field_def pod_key_is pod_keys_def)

lemma decode_encode_pod:
  assumes "int64 (j_TunnelID a)"
  shows "decode_pod (encode_pod a) = Some a"
  using assms
  by (cases a) (simp add: encode_pod_def decode_pod_members_append emptyPodAnnotation_def int64_def decode_elems_map)


lemma decode_pod_field_int64:
  "decode_pod_field k j a = Some a' \<Longrightarrow> int64 (j_TunnelID a) \<Longrightarrow> int64 (j_TunnelID a')"
  by (auto simp: decode_pod_field_def int64_def split: if_splits elim!: decode_int.elims)

lemma decode_pod_int64:
  assumes "decode_pod j = Some a"
  shows "int64 (j_TunnelID a)"
proof -
  have "decode_pod_members ms b = Some a \<Longrightarrow> int64 (j_TunnelID b) \<Longrightarrow> int64 (j_TunnelID a)" for ms b
    by (induction ms b rule: decode_pod_members.induct)
      (auto split: Option.bind_splits dest: decode_pod_field_int64)
  then show ?thesis using assms by (cases j) (auto simp: emptyPodAnnotation_def int64_def)
qed

lemma decode_members_ran:
  "decode_members f ms m = Some r \<Longrightarrow> v \<in> ran (map_of r) \<Longrightarrow> v \<in> ran (map_of m) \<or> (\<exists>j. f j = Some v)"
proof (induction f ms m rule: decode_members.induct)
  case (2 f k j ms m)
  then obtain u where u: "f j = Some u" "decode_members f ms (AList.update k u m) = Some r"
    by (auto split: option.splits)
  from "2.IH" [OF u(1) u(2) "2.prems"(2)] u(1) show ?case
    by (auto simp: update_conv' ran_def split: if_splits)
qed auto

lemma all_networks_entries:
  assumes "UnmarshalPodAnnotationAllNetworks docs = Inr nets"
  shows "distinct (map fst nets)" and "v \<in> ran (map_of nets) \<Longrightarrow> int64 (j_TunnelID v)"
proof -
  consider "nets = []" | d where "decode_map decode_pod d = Some nets"
    using assms by (auto simp: UnmarshalPodAnnotationAllNetworks_def bind_eq_Some_conv split: option.splits)
  note cases = this
  show "distinct (map fst nets)" by (cases rule: cases) (auto dest: decode_distinct)
  show "int64 (j_TunnelID v)" if v: "v \<in> ran (map_of nets)"
  proof (cases rule: cases)
    case (2 d)
    with v show ?thesis
      by (cases d) (auto dest: decode_members_ran [where v = v] decode_pod_int64)
  qed (use v in simp)
qed

section \<open>Annotations read back\<close>

definition route_ok :: "PodRoute \<Rightarrow> bool" where
  "route_ok r \<longleftrightarrow> cidr_wf (pr_Dest r) \<and> \<not> IsUnspecified (IP (pr_Dest r))
     \<and> (pr_NextHop r = [] \<or> length (pr_NextHop r) = 16 \<and> IsIPv6 (pr_NextHop r) = IsIPv6CIDR (pr_Dest r))"

definition pod_info_ok :: "PodAnnotation \<Rightarrow> bool" where
  "pod_info_ok p \<longleftrightarrow> mac_ok (pan_MAC p) \<and> list_all host_net (pan_IPs p) \<and> list_all (\<lambda>g. length g = 16) (pan_Gateways p)
     \<and> list_all route_ok (pan_Routes p) \<and> (length (pan_IPs p) = 1 \<longrightarrow> length (pan_Gateways p) \<le> 1) \<and> int64 (pan_TunnelID p)"

lemma ParseIP_String16:
  assumes "length x = 16"
  shows "ParseIP (IP_String x) = x" and "IP_String x \<noteq> []"
proof -
  show p: "ParseIP (IP_String x) = x"
    using parseIP_String [of x True] assms by (simp add: ParseIP_def ip_wf_def To16_def)
  have "ParseIP [] = []" by code_simp
  then show "IP_String x \<noteq> []" using p assms by auto
qed

lemma parse_pod_ips_String: "list_all host_net ns \<Longrightarrow> parse_pod_ips (map IPNet_String ns) = Inr ns"
  by (induction ns) (simp_all add: ParseCIDR_host_net)

lemma parse_gateways_String: "list_all (\<lambda>g. length g = 16) gs \<Longrightarrow> parse_gateways (map IP_String gs) = Inr gs"
  by (induction gs) (auto simp: ParseIP_String16)

lemma parse_marshal_routes: "list_all route_ok rs \<Longrightarrow> \<exists>js. marshal_routes rs = Inr js \<and> parse_routes js = Inr rs"
proof (induction rs)
  case (Cons r rs)
  then obtain js where js: "marshal_routes rs = Inr js" "parse_routes js = Inr rs" by auto
  have r: "route_ok r" using Cons.prems by simp
  then have "parse_route \<lparr>jr_Dest = IPNet_String (pr_Dest r), jr_NextHop = (if pr_NextHop r \<noteq> [] then IP_String (pr_NextHop r) else [])\<rparr> = Inr r"
    by (cases "pr_NextHop r = []") (auto simp: route_ok_def parse_route_def ParseCIDR_String ParseIP_String16)
  with js r show ?case by (simp add: route_ok_def)
qed simp

lemma compat_list_first: "compat_list ss (if length ss = 1 then ss ! 0 else []) = Some ss"
  by (cases ss) (auto simp: compat_list_def)

lemma compat_list_none: "compat_list ss [] = Some ss"
  by (auto simp: compat_list_def)

lemma parse_marshalled:
  assumes "pod_info_ok p" and "parse_routes routes = Inr (pan_Routes p)"
  shows "parse_pod \<lparr>j_IPs = map IPNet_String (pan_IPs p), j_MAC = HardwareAddr_String (pan_MAC p),
      j_Gateways = map IP_String (pan_Gateways p), j_Routes = routes,
      j_IP = (if length (pan_IPs p) = 1 then IPNet_String (pan_IPs p ! 0) else []),
      j_Gateway = (if length (pan_IPs p) = 1 \<and> length (pan_Gateways p) = 1 then IP_String (pan_Gateways p ! 0) else []),
      j_TunnelID = pan_TunnelID p\<rparr> = Inr p"
proof -
  have ips: "compat_list (map IPNet_String (pan_IPs p)) (if length (pan_IPs p) = 1 then IPNet_String (pan_IPs p ! 0) else [])
      = Some (map IPNet_String (pan_IPs p))"
    using compat_list_first [of "map IPNet_String (pan_IPs p)"] by (cases "pan_IPs p") auto
  have gws: "compat_list (map IP_String (pan_Gateways p))
      (if length (pan_IPs p) = 1 \<and> length (pan_Gateways p) = 1 then IP_String (pan_Gateways p ! 0) else [])
      = Some (map IP_String (pan_Gateways p))"
    using compat_list_none by (auto simp: compat_list_def)
  show ?thesis
    using assms unfolding parse_pod_def pod_info_ok_def
    by (simp add: ips [simplified] gws [simplified] ParseMAC_String parse_pod_ips_String parse_gateways_String)
qed


lemma unmarshal_encoded:
  assumes nets: "UnmarshalPodAnnotationAllNetworks docs = Inr nets" and pa: "int64 (j_TunnelID pa)"
  shows "UnmarshalPodAnnotation (docs(OvnPodAnnotationName \<mapsto> Some (encode_map encode_pod (AList.update nad pa nets)))) other =
    (if other = nad then parse_pod pa
     else case map_of nets other of None \<Rightarrow> Inl (NoNetwork other) | Some a \<Rightarrow> parse_pod a)"
proof -
  let ?m = "AList.update nad pa nets"
  have d: "distinct (map fst ?m)" using all_networks_entries(1) [OF nets] by (simp add: distinct_update)
  have "decode_pod (encode_pod v) = Some v" if "v \<in> ran (map_of ?m)" for v
    using that pa all_networks_entries(2) [OF nets, of v]
    by (intro decode_encode_pod) (auto simp: update_conv' ran_def split: if_splits)
  with decode_encode_map [OF d, of decode_pod encode_pod "\<lambda>v. v"] obtain r
    where r: "decode_map decode_pod (encode_map encode_pod ?m) = Some r" "map_of r = map_option (\<lambda>v. v) \<circ> map_of ?m"
    by blast
  then have "map_of r = map_of ?m" by (simp add: fun_eq_iff option.map_ident)
  with r(1) show ?thesis
    by (simp add: UnmarshalPodAnnotation_def UnmarshalPodAnnotationAllNetworks_def update_conv')
qed

lemma UnmarshalPodAnnotation_entry:
  "UnmarshalPodAnnotationAllNetworks docs = Inr nets \<Longrightarrow> docs OvnPodAnnotationName \<noteq> None \<Longrightarrow>
   UnmarshalPodAnnotation docs nad = (case map_of nets nad of None \<Rightarrow> Inl (NoNetwork nad) | Some a \<Rightarrow> parse_pod a)"
  by (auto simp: UnmarshalPodAnnotation_def)

lemma marshal_unmarshal:
  assumes nets: "UnmarshalPodAnnotationAllNetworks docs = Inr nets" and ok: "pod_info_ok p"
    and fresh: "\<And>old. map_of nets nad = Some old \<Longrightarrow> j_IPs old = map IPNet_String (pan_IPs p)"
  shows "\<exists>docs'. MarshalPodAnnotation docs p nad = Inr docs' \<and> UnmarshalPodAnnotation docs' nad = Inr p
    \<and> (\<forall>other. other \<noteq> nad \<longrightarrow> docs OvnPodAnnotationName \<noteq> None \<longrightarrow>
         UnmarshalPodAnnotation docs' other = UnmarshalPodAnnotation docs other)
    \<and> (\<forall>key. key \<noteq> OvnPodAnnotationName \<longrightarrow> docs' key = docs key)"
proof -
  obtain routes where routes: "marshal_routes (pan_Routes p) = Inr routes" "parse_routes routes = Inr (pan_Routes p)"
    using parse_marshal_routes ok by (auto simp: pod_info_ok_def)
  let ?pa = "\<lparr>j_IPs = map IPNet_String (pan_IPs p), j_MAC = HardwareAddr_String (pan_MAC p),
      j_Gateways = map IP_String (pan_Gateways p), j_Routes = routes,
      j_IP = (if length (pan_IPs p) = 1 then IPNet_String (pan_IPs p ! 0) else []),
      j_Gateway = (if length (pan_IPs p) = 1 \<and> length (pan_Gateways p) = 1 then IP_String (pan_Gateways p ! 0) else []),
      j_TunnelID = pan_TunnelID p\<rparr>"
  let ?docs = "docs(OvnPodAnnotationName \<mapsto> Some (encode_map encode_pod (AList.update nad ?pa nets)))"
  have "\<not> (case map_of nets nad of None \<Rightarrow> False
      | Some old \<Rightarrow> length (map IPNet_String (pan_IPs p)) \<noteq> length (j_IPs old)
          \<or> (\<exists>ip \<in> set (map IPNet_String (pan_IPs p)). \<not> SliceHasStringItem (j_IPs old) ip))"
    using fresh by (auto simp: SliceHasStringItem_def split: option.splits)
  moreover have "\<not> (length (pan_IPs p) = 1 \<and> length (pan_Gateways p) > 1)" using ok by (auto simp: pod_info_ok_def)
  ultimately have m: "MarshalPodAnnotation docs p nad = Inr ?docs"
    using nets routes(1) unfolding MarshalPodAnnotation_def Let_def by (simp only: sum.case if_False)
  have "int64 (j_TunnelID ?pa)" using ok by (simp add: pod_info_ok_def)
  note u = unmarshal_encoded [OF nets this, of nad]
  have "UnmarshalPodAnnotation ?docs nad = Inr p"
    unfolding u using parse_marshalled [OF ok routes(2)] by simp
  moreover have "UnmarshalPodAnnotation ?docs other = UnmarshalPodAnnotation docs other"
    if "other \<noteq> nad" "docs OvnPodAnnotationName \<noteq> None" for other
    unfolding u UnmarshalPodAnnotation_entry [OF nets that(2)] using that(1) by simp
  ultimately show ?thesis using m by (intro exI [of _ ?docs]) simp
qed


definition pod_example :: PodAnnotation where
  "pod_example = \<lparr>pan_IPs = [\<lparr>IP = v4InV6Prefix @ [10, 244, 0, 5], Mask = [0xff, 0xff, 0xff, 0]\<rparr>],
     pan_MAC = [0x0a, 0x58, 10, 244, 0, 5], pan_Gateways = [v4InV6Prefix @ [10, 244, 0, 1]],
     pan_Routes = [\<lparr>pr_Dest = \<lparr>IP = [10, 96, 0, 0], Mask = [0xff, 0xff, 0, 0]\<rparr>, pr_NextHop = v4InV6Prefix @ [10, 244, 0, 1]\<rparr>],
     pan_TunnelID = 7\<rparr>"

lemma pod_example_ok: "pod_info_ok pod_example"
proof -
  have "cidr_wf \<lparr>IP = [10, 244, 0, 0], Mask = [0xff, 0xff, 0xff, 0]\<rparr>" by code_simp
  then have "host_net \<lparr>IP = v4InV6Prefix @ [10, 244, 0, 5], Mask = [0xff, 0xff, 0xff, 0]\<rparr>"
    by (auto simp: host_net_def To4_def intro!: exI [of _ "\<lparr>IP = [10, 244, 0, 0], Mask = [0xff, 0xff, 0xff, 0]\<rparr>"])
  moreover have "route_ok \<lparr>pr_Dest = \<lparr>IP = [10, 96, 0, 0], Mask = [0xff, 0xff, 0, 0]\<rparr>, pr_NextHop = v4InV6Prefix @ [10, 244, 0, 1]\<rparr>"
    by code_simp
  ultimately show ?thesis by (simp add: pod_info_ok_def pod_example_def mac_ok_def int64_def)
qed


text \<open>The addresses of an attachment cannot be replaced: an accepted write names only addresses that the
  attachment has, and as many.\<close>

lemma MarshalPodAnnotation_keeps_IPs:
  assumes "UnmarshalPodAnnotationAllNetworks docs = Inr nets" "map_of nets nad = Some old"
    "MarshalPodAnnotation docs p nad = Inr docs'"
  shows "set (map IPNet_String (pan_IPs p)) \<subseteq> set (j_IPs old) \<and> length (pan_IPs p) = length (j_IPs old)"
proof -
  let ?bad = "length (map IPNet_String (pan_IPs p)) \<noteq> length (j_IPs old)
      \<or> (\<exists>ip \<in> set (map IPNet_String (pan_IPs p)). \<not> SliceHasStringItem (j_IPs old) ip)"
  have "\<not> ?bad"
  proof
    assume ?bad
    then have "\<exists>e. MarshalPodAnnotation docs p nad = Inl e"
      using assms(1,2) unfolding MarshalPodAnnotation_def Let_def by (simp only: sum.case option.case) auto
    then show False using assms(3) by simp
  qed
  then show ?thesis by (auto simp: SliceHasStringItem_def)
qed

text \<open>The test compares lengths and membership only: a list that names one of the two addresses of an
  attachment twice is accepted, and the other address is lost.\<close>

lemma MarshalPodAnnotation_accepts_repetition:
  "(case MarshalPodAnnotation Map.empty (pod_example\<lparr>pan_IPs := pan_IPs pod_example @ [\<lparr>IP = v4InV6Prefix @ [10, 244, 0, 6], Mask = [0xff, 0xff, 0xff, 0]\<rparr>]\<rparr>) ''n'' of
      Inl _ \<Rightarrow> False
    | Inr docs \<Rightarrow> (case MarshalPodAnnotation docs (pod_example\<lparr>pan_IPs := pan_IPs pod_example @ pan_IPs pod_example\<rparr>) ''n'' of
        Inl _ \<Rightarrow> False | Inr _ \<Rightarrow> True))"
  by code_simp


section \<open>Parsed addresses have sixteen bytes\<close>

lemma parse4_loop_length: "parse4_loop strict k first s p = Some q \<Longrightarrow> length q = length p + k"
  by (induction strict k first s p rule: parse4_loop.induct)
    (auto simp: Let_def split: if_splits option.splits prod.splits)

lemma parseIPv4_length: "parseIPv4 strict s = [] \<or> length (parseIPv4 strict s) = 16"
  by (auto simp: parseIPv4_def dest: parse4_loop_length split: option.split)

lemma parse6_loop_length:
  "parse6_loop strict k s p el = Some (p', el', s') \<Longrightarrow> length p + 2 * k = 16 \<Longrightarrow> pred_option (\<lambda>e. e \<le> length p) el \<Longrightarrow>
   length p' \<le> 16 \<and> pred_option (\<lambda>e. e \<le> length p') el'"
proof (induction k arbitrary: s p el)
  case (Suc k)
  obtain n s1 where x: "xtoi s = Some (n, s1)" using Suc.prems(1) by (auto split: option.splits)
  define p1 where "p1 = p @ [word_of_int (n div 256), word_of_int n]"
  have p1: "length p1 + 2 * k = 16" "length p1 = length p + 2" using Suc.prems(2) by (simp_all add: p1_def)
  have v4: "length (drop 12 (parseIPv4 strict s)) \<le> 4" using parseIPv4_length [of strict s] by auto
  have el: "pred_option (\<lambda>e. e \<le> length p1) el" using Suc.prems(3) p1(2) by (cases el) auto
  show ?case
    using Suc.prems x v4 el p1 Suc.IH [of "tl (tl s1)" p1 "Some (length p1)"] Suc.IH [of "tl s1" p1 el]
    by (cases el) (auto simp: Let_def p1_def [symmetric] split: if_splits)
qed auto

lemma expand_ellipsis_length:
  assumes "\<And>p el s. r = Some (p, el, s) \<Longrightarrow> length p \<le> 16 \<and> pred_option (\<lambda>e. e \<le> length p) el"
  shows "expand_ellipsis r = [] \<or> length (expand_ellipsis r) = 16"
  using assms by (auto simp: expand_ellipsis_def split: option.split)

lemma parseIPv6_length: "parseIPv6 strict s = [] \<or> length (parseIPv6 strict s) = 16"
proof -
  have "expand_ellipsis (parse6_loop strict 8 t [] el) = [] \<or> length (expand_ellipsis (parse6_loop strict 8 t [] el)) = 16"
    if "el = None \<or> el = Some 0" for t el
    using parse6_loop_length [of strict 8 t "[]" el] that by (intro expand_ellipsis_length) auto
  then show ?thesis by (auto simp: parseIPv6_def)
qed

lemma parseIP_length: "parseIP strict s \<noteq> [] \<Longrightarrow> length (parseIP strict s) = 16"
  using parseIPv4_length [of strict s] parseIPv6_length [of strict s]
  by (auto simp: parseIP_def split: option.splits if_splits)

lemma ParseCIDR_length: "ParseCIDR s = Some (x, n) \<Longrightarrow> length x = 16"
  using parseIP_length [of True] by (auto simp: ParseCIDR_def ParseIP_def Let_def split: option.splits if_splits)

lemma ParseCIDRSloppy_length: "ParseCIDRSloppy s = Some (x, n) \<Longrightarrow> length x = 16"
  using parseIPv4_length [of False] parseIPv6_length [of False]
  by (auto simp: ParseCIDRSloppy_def Let_def split: option.splits if_splits) metis+

lemma parsed_wf: "ParseCIDR s = Some (x, n) \<Longrightarrow> ip_wf x" "ParseCIDRSloppy s = Some (x, n) \<Longrightarrow> ip_wf x"
  by (auto simp: ip_wf_def dest: ParseCIDR_length ParseCIDRSloppy_length)

lemma parse_pod_ips_wf: "parse_pod_ips ss = Inr ns \<Longrightarrow> list_all (\<lambda>n. ip_wf (IP n)) ns"
  by (induction ss arbitrary: ns) (auto simp: parsed_wf split: option.splits sum.splits)

lemma UnmarshalPodAnnotation_wf: "UnmarshalPodAnnotation docs nad = Inr a \<Longrightarrow> n \<in> set (pan_IPs a) \<Longrightarrow> ip_wf (IP n)"
  by (auto simp: UnmarshalPodAnnotation_def parse_pod_def simp: list_all_iff dest!: parse_pod_ips_wf split: if_splits sum.splits option.splits)

lemma ParseIPNets_wf: "ParseIPNets ss = Some ns \<Longrightarrow> list_all (\<lambda>n. ip_wf (IP n)) ns"
  by (induction ss arbitrary: ns) (auto simp: parsed_wf split: option.splits)

end
