(* ===== verification/Pod_Allocator.thy ===== *)
theory Pod_Allocator
  imports Pod_Annotation Node_Allocator Subnet_IPAM Id_Allocator
begin

text \<open>
  The allocation of addresses and tunnel ids to pods: the gateways and routes of
  \<open>pkg/util/pod_annotation.go\<close>, the allocation with rollback of \<open>pkg/allocator/pod/pod_annotation.go\<close>, the
  update of the pod of \<open>pkg/util/pod.go\<close>, and the pod allocator of the cluster manager
  (\<open>pkg/clustermanager/pod/allocator.go\<close>). It composes the subnet IPAM, the id allocator and the pod
  annotation.

  The allocators are passed as a state; \<open>None\<close> stands for a nil interface, and a call that would crash is
  \<open>None\<close>. The closure that rolls an allocation back is the record \<open>rollback_vars\<close> of the variables it
  captures with the function \<open>pod_rollback\<close>. The answers of the pod lister and of the API server, the random
  bytes and the hash are arguments.
\<close>

section \<open>Pods and networks\<close>

record NetworkSelectionElement =
  nse_Namespace :: string
  nse_Name :: string
  nse_IPRequest :: "string list"
  nse_MacRequest :: string
  nse_GatewayRequest :: "ip list"

text \<open>What the vendored parser makes of an annotation with network selections.\<close>

datatype selections = NoSelections | BadSelections | Selections "NetworkSelectionElement list"

record Pod =
  pod_Namespace :: string
  pod_Name :: string
  pod_UID :: string
  pod_NodeName :: string
  pod_HostNetwork :: bool
  pod_Phase :: string
  pod_PodIPs :: "string list"
  pod_PodIP :: string
  pod_docs :: documents
  pod_networks :: selections
  pod_defaultNetwork :: selections

record podNetInfo = netInfo +
  ni_excludeSubnets :: "ipnet list"
  ni_nads :: "string set"

record pod_config =
  pc_EnableInterconnect :: bool
  pc_ClusterSubnets :: "ipnet list"
  pc_ServiceCIDRs :: "ipnet list"
  pc_V4JoinSubnet :: string
  pc_V6JoinSubnet :: string

definition PodWantsHostNetwork :: "Pod \<Rightarrow> bool" where
  "PodWantsHostNetwork pod \<longleftrightarrow> pod_HostNetwork pod"

definition PodCompleted :: "Pod \<Rightarrow> bool" where
  "PodCompleted pod \<longleftrightarrow> pod_Phase pod = ''Succeeded'' \<or> pod_Phase pod = ''Failed''"

definition PodScheduled :: "Pod \<Rightarrow> bool" where
  "PodScheduled pod \<longleftrightarrow> pod_NodeName pod \<noteq> []"

definition DoesNetworkRequireIPAM :: "podNetInfo \<Rightarrow> bool" where
  "DoesNetworkRequireIPAM ni \<longleftrightarrow>
     \<not> ((ni_topology ni = ''layer2'' \<or> ni_topology ni = ''localnet'') \<and> length (ni_subnets ni) = 0)"

definition DoesNetworkRequireTunnelIDs :: "pod_config \<Rightarrow> podNetInfo \<Rightarrow> bool" where
  "DoesNetworkRequireTunnelIDs cfg ni \<longleftrightarrow> ni_topology ni = ''layer2'' \<and> pc_EnableInterconnect cfg"

definition GetNADName :: "string \<Rightarrow> string \<Rightarrow> string" where
  "GetNADName namespace name = namespace @ ''/'' @ name"

definition GetK8sPodDefaultNetworkSelection :: "Pod \<Rightarrow> unit + NetworkSelectionElement option" where
  "GetK8sPodDefaultNetworkSelection pod =
     (case pod_defaultNetwork pod of
        NoSelections \<Rightarrow> Inr None
      | BadSelections \<Rightarrow> Inl ()
      | Selections networks \<Rightarrow>
          if length networks > 1 then Inl ()
          else if length networks = 1 then Inr (Some (networks ! 0)) else Inr None)"

definition GetK8sPodAllNetworkSelections :: "Pod \<Rightarrow> unit + NetworkSelectionElement list" where
  "GetK8sPodAllNetworkSelections pod =
     (case pod_networks pod of NoSelections \<Rightarrow> Inr [] | BadSelections \<Rightarrow> Inl () | Selections networks \<Rightarrow> Inr networks)"

fun nad_selections ::
  "podNetInfo \<Rightarrow> NetworkSelectionElement list \<Rightarrow> (string \<times> NetworkSelectionElement) list
   \<Rightarrow> unit + (string \<times> NetworkSelectionElement) list" where
  "nad_selections ni [] m = Inr m"
| "nad_selections ni (network # networks) m =
     (let nadName = GetNADName (nse_Namespace network) (nse_Name network)
      in if nadName \<in> ni_nads ni then
           (if map_of m nadName \<noteq> None then Inl () else nad_selections ni networks (m @ [(nadName, network)]))
         else nad_selections ni networks m)"

definition GetPodNADToNetworkMapping ::
  "Pod \<Rightarrow> podNetInfo \<Rightarrow> unit + bool \<times> (string \<times> NetworkSelectionElement) list" where
  "GetPodNADToNetworkMapping pod ni =
     (if pod_HostNetwork pod then Inr (False, [])
      else if \<not> ni_secondary ni then
        (case GetK8sPodDefaultNetworkSelection pod of
           Inl e \<Rightarrow> Inl e
         | Inr None \<Rightarrow> Inr (True, [])
         | Inr (Some network) \<Rightarrow> Inr (True, [(GetNADName (nse_Namespace network) (nse_Name network), network)]))
      else
        (case GetK8sPodAllNetworkSelections pod of
           Inl e \<Rightarrow> Inl e
         | Inr networks \<Rightarrow>
             (case nad_selections ni networks [] of
                Inl e \<Rightarrow> Inl e
              | Inr m \<Rightarrow> if length m = 0 then Inr (False, []) else Inr (True, m))))"

subsection \<open>The addresses of a pod\<close>

definition getAnnotatedPodIPs :: "Pod \<Rightarrow> string \<Rightarrow> ip list" where
  "getAnnotatedPodIPs pod nadName =
     (case UnmarshalPodAnnotation (pod_docs pod) nadName of Inl _ \<Rightarrow> [] | Inr a \<Rightarrow> map IP (pan_IPs a))"

definition DefaultNetworkPodIPs :: "Pod \<Rightarrow> ip list option" where
  "DefaultNetworkPodIPs pod =
     (let ips = filter (\<lambda>x. x \<noteq> []) (map ParseIPSloppy (pod_PodIPs pod))
      in if length ips > 0 then Some ips
         else let ips = getAnnotatedPodIPs pod DefaultNetworkName
              in if length ips > 0 then Some ips
                 else let ip = ParseIPSloppy (pod_PodIP pod) in if ip = [] then None else Some [ip])"

definition PodNadNames :: "Pod \<Rightarrow> podNetInfo \<Rightarrow> unit + string list" where
  "PodNadNames pod ni =
     (case GetPodNADToNetworkMapping pod ni of
        Inl e \<Rightarrow> Inl e
      | Inr (on, networkMap) \<Rightarrow> if \<not> on then Inr [] else Inr (map fst networkMap))"

definition SecondaryNetworkPodIPs :: "Pod \<Rightarrow> podNetInfo \<Rightarrow> ip list option" where
  "SecondaryNetworkPodIPs pod ni =
     (case PodNadNames pod ni of Inl _ \<Rightarrow> None | Inr names \<Rightarrow> Some (concat (map (getAnnotatedPodIPs pod) names)))"

definition GetPodIPsOfNetwork :: "Pod \<Rightarrow> podNetInfo \<Rightarrow> ip list option" where
  "GetPodIPsOfNetwork pod ni =
     (if ni_secondary ni then SecondaryNetworkPodIPs pod ni else DefaultNetworkPodIPs pod)"

definition GetPodCIDRsWithFullMask :: "Pod \<Rightarrow> podNetInfo \<Rightarrow> ipnet list option" where
  "GetPodCIDRsWithFullMask pod ni =
     map_option (map (\<lambda>x. \<lparr>IP = x, Mask = GetIPFullMask x\<rparr>)) (GetPodIPsOfNetwork pod ni)"

section \<open>Gateways and routes\<close>

datatype alloc_error =
    IDFailed id_error
  | StaticWithIPAM
  | BadIPRequest
  | EnsureFailed subnet_error
  | AssignFailed subnet_error
  | BadMacRequest string
  | NoNodeSubnet family_error
  | BadNetworkSelections
  | TopologyNotSupported string
  | MarshalFailed pod_error
  | PodNotFound
  | PodUpdateFailed
  | ReleaseFailed subnet_error

definition joinSubnetToRoute :: "pod_config \<Rightarrow> bool \<Rightarrow> ip \<Rightarrow> PodRoute option" where
  "joinSubnetToRoute cfg isIPv6 gatewayIP =
     (case ParseCIDR (if isIPv6 then pc_V6JoinSubnet cfg else pc_V4JoinSubnet cfg) of
        None \<Rightarrow> None
      | Some (_, subnet) \<Rightarrow> Some \<lparr>pr_Dest = subnet, pr_NextHop = gatewayIP\<rparr>)"

definition routes_via :: "bool \<Rightarrow> ipnet list \<Rightarrow> ip \<Rightarrow> PodRoute list" where
  "routes_via isIPv6 subnets gatewayIP =
     map (\<lambda>c. \<lparr>pr_Dest = c, pr_NextHop = gatewayIP\<rparr>) (filter (\<lambda>c. isIPv6 = IsIPv6CIDR c) subnets)"

text \<open>The loop for a layer 3 network: a nil gateway is only a crash where it is used.\<close>

fun layer3_routes :: "ipnet list \<Rightarrow> ipnet list \<Rightarrow> ipnet list \<Rightarrow> PodAnnotation \<Rightarrow> (alloc_error + PodAnnotation) option" where
  "layer3_routes subnets nodeSubnets [] a = Some (Inr a)"
| "layer3_routes subnets nodeSubnets (podIfAddr # ips) a =
     (let isIPv6 = IsIPv6CIDR podIfAddr
      in case MatchFirstIPNetFamily isIPv6 nodeSubnets of
           Inl e \<Rightarrow> Some (Inl (NoNodeSubnet e))
         | Inr nodeSubnet \<Rightarrow>
             (case GetNodeGatewayIfAddr (Some nodeSubnet) of
                None \<Rightarrow> None
              | Some None \<Rightarrow>
                  if filter (\<lambda>c. isIPv6 = IsIPv6CIDR c) subnets \<noteq> [] then None else layer3_routes subnets nodeSubnets ips a
              | Some (Some gw) \<Rightarrow>
                  layer3_routes subnets nodeSubnets ips (a\<lparr>pan_Routes := pan_Routes a @ routes_via isIPv6 subnets (IP gw)\<rparr>)))"

fun default_routes ::
  "pod_config \<Rightarrow> bool \<Rightarrow> bool \<Rightarrow> ipnet list \<Rightarrow> ipnet list \<Rightarrow> PodAnnotation \<Rightarrow> (alloc_error + PodAnnotation) option" where
  "default_routes cfg otherV4 otherV6 nodeSubnets [] a = Some (Inr a)"
| "default_routes cfg otherV4 otherV6 nodeSubnets (podIfAddr # ips) a =
     (let isIPv6 = IsIPv6CIDR podIfAddr
      in case MatchFirstIPNetFamily isIPv6 nodeSubnets of
           Inl e \<Rightarrow> Some (Inl (NoNodeSubnet e))
         | Inr nodeSubnet \<Rightarrow>
             (case GetNodeGatewayIfAddr (Some nodeSubnet) of
                None \<Rightarrow> None
              | Some None \<Rightarrow> None
              | Some (Some gw) \<Rightarrow>
                  (case joinSubnetToRoute cfg isIPv6 (IP gw) of
                     None \<Rightarrow> None
                   | Some joinRoute \<Rightarrow>
                       default_routes cfg otherV4 otherV6 nodeSubnets ips
                         (a\<lparr>pan_Routes := pan_Routes a @ routes_via isIPv6 (pc_ClusterSubnets cfg) (IP gw)
                              @ routes_via isIPv6 (pc_ServiceCIDRs cfg) (IP gw) @ [joinRoute],
                            pan_Gateways := pan_Gateways a @ (if (if isIPv6 then otherV6 else otherV4) then [] else [IP gw])\<rparr>))))"

definition AddRoutesGatewayIP ::
  "pod_config \<Rightarrow> podNetInfo \<Rightarrow> Pod \<Rightarrow> PodAnnotation \<Rightarrow> NetworkSelectionElement option \<Rightarrow> (alloc_error + PodAnnotation) option" where
  "AddRoutesGatewayIP cfg ni pod a network =
     (let nodeSubnets = IPsToNetworkIPs (pan_IPs a)
      in if ni_secondary ni then
           (case network of
              None \<Rightarrow> None
            | Some nw \<Rightarrow>
                let a1 = a\<lparr>pan_Gateways := pan_Gateways a @ nse_GatewayRequest nw\<rparr>
                in if ni_topology ni = ''layer2'' \<or> ni_topology ni = ''localnet'' then Some (Inr a1)
                   else if ni_topology ni = ''layer3'' then layer3_routes (map fst (ni_subnets ni)) nodeSubnets (pan_IPs a) a1
                   else Some (Inl (TopologyNotSupported (ni_topology ni))))
         else
           (case GetK8sPodAllNetworkSelections pod of
              Inl _ \<Rightarrow> Some (Inl BadNetworkSelections)
            | Inr networks \<Rightarrow>
                let requests = concat (map nse_GatewayRequest networks)
                in default_routes cfg (list_ex (\<lambda>x. \<not> IsIPv6 x) requests) (list_ex IsIPv6 requests) nodeSubnets (pan_IPs a) a))"

section \<open>Allocation with rollback\<close>

record alloc_state =
  as_ip :: "IPAllocator option"
  as_id :: "namedAllocator option"

record rollback_vars =
  rb_releaseIPs :: "ipnet list"
  rb_releaseID :: int

definition noRollback :: rollback_vars where
  "noRollback = \<lparr>rb_releaseIPs = [], rb_releaseID = 0\<rparr>"

definition release_id :: "alloc_state \<Rightarrow> alloc_state option" where
  "release_id st =
     (case as_id st of
        None \<Rightarrow> None
      | Some n \<Rightarrow> map_option (\<lambda>a. st\<lparr>as_id := Some (n\<lparr>na_allocator := a\<rparr>)\<rparr>) (named_ReleaseID n))"

definition release_ips :: "ipnet list \<Rightarrow> alloc_state \<Rightarrow> alloc_state option" where
  "release_ips ips st =
     (case as_ip st of
        None \<Rightarrow> None
      | Some i \<Rightarrow> Some (st\<lparr>as_ip := Some (i\<lparr>ia_allocator := snd (named_ReleaseIPs (Some ips) i)\<rparr>)\<rparr>))"

definition pod_rollback :: "rollback_vars \<Rightarrow> alloc_state \<Rightarrow> alloc_state option" where
  "pod_rollback rb st =
     (case (if rb_releaseID rb \<noteq> 0 then release_id st else Some st) of
        None \<Rightarrow> None
      | Some st1 \<Rightarrow> if length (rb_releaseIPs rb) = 0 then Some st1 else release_ips (rb_releaseIPs rb) st1)"

text \<open>The tunnel id: allocated, or reserved when the annotation has one.\<close>

definition assign_id ::
  "pod_config \<Rightarrow> podNetInfo \<Rightarrow> int \<Rightarrow> alloc_state \<Rightarrow> ((alloc_error + int \<times> int) \<times> alloc_state) option" where
  "assign_id cfg ni tunnelID st =
     (if DoesNetworkRequireTunnelIDs cfg ni then
        (case as_id st of
           None \<Rightarrow> None
         | Some n \<Rightarrow>
             if tunnelID = 0 then
               (case named_AllocateID n of
                  (Inl e, a) \<Rightarrow> Some (Inl (IDFailed e), st\<lparr>as_id := Some (n\<lparr>na_allocator := a\<rparr>)\<rparr>)
                | (Inr i, a) \<Rightarrow> Some (Inr (i, i), st\<lparr>as_id := Some (n\<lparr>na_allocator := a\<rparr>)\<rparr>))
             else
               (case named_ReserveID tunnelID n of
                  None \<Rightarrow> None
                | Some (Inl e, a) \<Rightarrow> Some (Inl (IDFailed e), st\<lparr>as_id := Some (n\<lparr>na_allocator := a\<rparr>)\<rparr>)
                | Some (Inr _, a) \<Rightarrow> Some (Inr (tunnelID, tunnelID), st\<lparr>as_id := Some (n\<lparr>na_allocator := a\<rparr>)\<rparr>)))
      else Some (Inr (tunnelID, 0), st))"

definition subnet_IsErrAllocated :: "subnet_error \<Rightarrow> bool" where
  "subnet_IsErrAllocated e \<longleftrightarrow> (case e of AllocError x \<Rightarrow> IsErrAllocated x | _ \<Rightarrow> False)"

definition next_ips :: "alloc_state \<Rightarrow> ((alloc_error + ipnet list) \<times> alloc_state) option" where
  "next_ips st =
     (case as_ip st of
        None \<Rightarrow> None
      | Some i \<Rightarrow>
          (case named_AllocateNextIPs i of
             (Inl e, a) \<Rightarrow> Some (Inl (AssignFailed e), st\<lparr>as_ip := Some (i\<lparr>ia_allocator := a\<rparr>)\<rparr>)
           | (Inr ips, a) \<Rightarrow> Some (Inr ips, st\<lparr>as_ip := Some (i\<lparr>ia_allocator := a\<rparr>)\<rparr>)))"

text \<open>The addresses of a network with IPAM: the addresses, those to release on a rollback, and whether
  requested addresses were given up.\<close>

definition assign_ips ::
  "ipnet list \<Rightarrow> bool \<Rightarrow> alloc_state \<Rightarrow> ((alloc_error + ipnet list \<times> ipnet list \<times> bool) \<times> alloc_state) option" where
  "assign_ips ips reallocate st =
     (let fresh = (\<lambda>gaveUp st1. case next_ips st1 of
                     None \<Rightarrow> None
                   | Some (Inl e, st2) \<Rightarrow> Some (Inl e, st2)
                   | Some (Inr ns, st2) \<Rightarrow> Some (Inr (ns, CopyIPNets ns, gaveUp), st2))
      in if length ips = 0 then fresh False st
         else case as_ip st of
             None \<Rightarrow> None
           | Some i \<Rightarrow>
               (case named_AllocateIPs ips i of
                  (Inr _, a) \<Rightarrow> Some (Inr (ips, CopyIPNets ips, False), st\<lparr>as_ip := Some (i\<lparr>ia_allocator := a\<rparr>)\<rparr>)
                | (Inl e, a) \<Rightarrow>
                    let st1 = st\<lparr>as_ip := Some (i\<lparr>ia_allocator := a\<rparr>)\<rparr>
                    in if subnet_IsErrAllocated e then Some (Inr (ips, [], False), st1)
                       else if \<not> reallocate then Some (Inl (EnsureFailed e), st1)
                       else fresh True st1))"

definition assign_mac ::
  "(byte list \<Rightarrow> byte list) \<Rightarrow> byte list \<Rightarrow> NetworkSelectionElement option \<Rightarrow> ipnet list \<Rightarrow> alloc_error + byte list" where
  "assign_mac sha256 rnd network ips =
     (case network of
        Some nw \<Rightarrow>
          if nse_MacRequest nw \<noteq> [] then
            (case ParseMAC (nse_MacRequest nw) of None \<Rightarrow> Inl (BadMacRequest (nse_MacRequest nw)) | Some mac \<Rightarrow> Inr mac)
          else if length ips > 0 then Inr (IPAddrToHWAddr sha256 (IP (ips ! 0))) else Inr (GenerateRandMAC rnd)
      | None \<Rightarrow> if length ips > 0 then Inr (IPAddrToHWAddr sha256 (IP (ips ! 0))) else Inr (GenerateRandMAC rnd))"

text \<open>The last part: MAC address, routes and gateways, and the annotation of the pod.\<close>

definition finish_annotation ::
  "pod_config \<Rightarrow> (byte list \<Rightarrow> byte list) \<Rightarrow> byte list \<Rightarrow> podNetInfo \<Rightarrow> Pod \<Rightarrow> NetworkSelectionElement option \<Rightarrow> string
   \<Rightarrow> bool \<Rightarrow> bool \<Rightarrow> PodAnnotation \<Rightarrow> PodAnnotation \<Rightarrow> (alloc_error + Pod option \<times> PodAnnotation) option" where
  "finish_annotation cfg sha256 rnd ni pod network nadName needsIPOrMAC needsID existing tentative =
     (case (if needsIPOrMAC then
              (case assign_mac sha256 rnd network (pan_IPs tentative) of
                 Inl e \<Rightarrow> Some (Inl e)
               | Inr mac \<Rightarrow> AddRoutesGatewayIP cfg ni pod (tentative\<lparr>pan_MAC := mac\<rparr>) network)
            else Some (Inr tentative)) of
        None \<Rightarrow> None
      | Some (Inl e) \<Rightarrow> Some (Inl e)
      | Some (Inr a) \<Rightarrow>
          if needsIPOrMAC \<or> needsID then
            (case MarshalPodAnnotation (pod_docs pod) a nadName of
               Inl e \<Rightarrow> Some (Inl (MarshalFailed e))
             | Inr docs \<Rightarrow> Some (Inr (Some (pod\<lparr>pod_docs := docs\<rparr>), a)))
          else Some (Inr (None, existing)))"

text \<open>The function up to its deferred call: the result, the captured variables and the allocators.\<close>

definition allocate_tentative ::
  "pod_config \<Rightarrow> (byte list \<Rightarrow> byte list) \<Rightarrow> byte list \<Rightarrow> podNetInfo \<Rightarrow> Pod \<Rightarrow> NetworkSelectionElement option \<Rightarrow> bool \<Rightarrow> alloc_state
   \<Rightarrow> ((alloc_error + Pod option \<times> PodAnnotation) \<times> rollback_vars \<times> alloc_state) option" where
  "allocate_tentative cfg sha256 rnd ni pod network reallocateIP st =
     (if ni_secondary ni \<and> network = None then None
      else
      let nadName = (if ni_secondary ni then GetNADName (nse_Namespace (the network)) (nse_Name (the network)) else DefaultNetworkName);
          existing = (case UnmarshalPodAnnotation (pod_docs pod) nadName of Inl _ \<Rightarrow> noPodAnnotation | Inr a \<Rightarrow> a);
          hasIDAllocation = DoesNetworkRequireTunnelIDs cfg ni;
          needsID = (pan_TunnelID existing = 0 \<and> hasIDAllocation)
      in case assign_id cfg ni (pan_TunnelID existing) st of
           None \<Rightarrow> None
         | Some (Inl e, st1) \<Rightarrow> Some (Inl e, noRollback, st1)
         | Some (Inr (tunnelID, releaseID), st1) \<Rightarrow>
             let rb = noRollback\<lparr>rb_releaseID := releaseID\<rparr>;
                 hasIPAM = DoesNetworkRequireIPAM ni;
                 request = (case network of None \<Rightarrow> [] | Some nw \<Rightarrow> nse_IPRequest nw);
                 hasIPRequest = (length request > 0);
                 hasStaticIPRequest = (hasIPRequest \<and> \<not> reallocateIP);
                 noIPs = (length (pan_IPs existing) = 0);
                 needsIPOrMAC = (noIPs \<and> (hasIPAM \<or> hasIPRequest) \<or> length (pan_MAC existing) = 0);
                 reallocate = (noIPs \<and> hasIPRequest \<and> \<not> hasStaticIPRequest)
             in if hasIPAM \<and> hasStaticIPRequest then Some (Inl StaticWithIPAM, rb, st1)
                else case (if noIPs \<and> hasIPRequest then ParseIPNets request else Some (pan_IPs existing)) of
                    None \<Rightarrow> Some (Inl BadIPRequest, rb, st1)
                  | Some ips \<Rightarrow>
                      (case (if hasIPAM then assign_ips ips reallocate st1 else Some (Inr (ips, [], False), st1)) of
                         None \<Rightarrow> None
                       | Some (Inl e, st2) \<Rightarrow> Some (Inl e, rb, st2)
                       | Some (Inr (ips2, releaseIPs, gaveUp), st2) \<Rightarrow>
                           (case finish_annotation cfg sha256 rnd ni pod network nadName (needsIPOrMAC \<or> gaveUp) needsID existing
                                   (noPodAnnotation\<lparr>pan_IPs := ips2, pan_MAC := pan_MAC existing, pan_TunnelID := tunnelID\<rparr>) of
                              None \<Rightarrow> None
                            | Some res \<Rightarrow> Some (res, rb\<lparr>rb_releaseIPs := releaseIPs\<rparr>, st2))))"

text \<open>With the deferred rollback: on an error the variables are cleared.\<close>

definition allocatePodAnnotationWithRollback ::
  "pod_config \<Rightarrow> (byte list \<Rightarrow> byte list) \<Rightarrow> byte list \<Rightarrow> podNetInfo \<Rightarrow> Pod \<Rightarrow> NetworkSelectionElement option \<Rightarrow> bool \<Rightarrow> alloc_state
   \<Rightarrow> ((alloc_error + Pod option \<times> PodAnnotation \<times> rollback_vars) \<times> alloc_state) option" where
  "allocatePodAnnotationWithRollback cfg sha256 rnd ni pod network reallocateIP st =
     (case allocate_tentative cfg sha256 rnd ni pod network reallocateIP st of
        None \<Rightarrow> None
      | Some (Inl e, rb, st1) \<Rightarrow> map_option (\<lambda>st2. (Inl e, st2)) (pod_rollback rb st1)
      | Some (Inr (updatedPod, podAnnotation), rb, st1) \<Rightarrow> Some (Inr (updatedPod, podAnnotation, rb), st1))"

section \<open>Updating the pod\<close>

text \<open>Each attempt: the pod the lister returns, the random bytes, and the outcome of the update.\<close>

fun UpdatePodWithRetryOrRollback ::
  "nat \<Rightarrow> (byte list \<Rightarrow> Pod \<Rightarrow> alloc_state \<Rightarrow> ((alloc_error + Pod option \<times> PodAnnotation \<times> rollback_vars) \<times> alloc_state) option)
   \<Rightarrow> (Pod option \<times> byte list \<times> api_outcome) list \<Rightarrow> alloc_state \<Rightarrow> ((alloc_error + Pod option \<times> PodAnnotation) \<times> alloc_state) option" where
  "UpdatePodWithRetryOrRollback 0 allocate as st = Some (Inl PodUpdateFailed, st)"
| "UpdatePodWithRetryOrRollback (Suc k) allocate [] st = Some (Inl PodUpdateFailed, st)"
| "UpdatePodWithRetryOrRollback (Suc k) allocate ((cached, rnd, outcome) # as) st =
     (case cached of
        None \<Rightarrow> Some (Inl PodNotFound, st)
      | Some pod \<Rightarrow>
          (case allocate rnd pod st of
             None \<Rightarrow> None
           | Some (Inl e, st1) \<Rightarrow> Some (Inl e, st1)
           | Some (Inr (None, a, rb), st1) \<Rightarrow> Some (Inr (None, a), st1)
           | Some (Inr (Some updated, a, rb), st1) \<Rightarrow>
               (case outcome of
                  ApiOk \<Rightarrow> Some (Inr (Some updated, a), st1)
                | ApiConflict \<Rightarrow> Option.bind (pod_rollback rb st1) (UpdatePodWithRetryOrRollback k allocate as)
                | ApiError \<Rightarrow> map_option (\<lambda>st2. (Inl PodUpdateFailed, st2)) (pod_rollback rb st1))))"

definition OvnConflictBackoff_Steps :: nat where
  "OvnConflictBackoff_Steps = 2"

text \<open>The result carries the pod written to the API server, if one was written. What the Go function
  returns as the updated pod is the pod it was given, in every case.\<close>

definition allocatePodAnnotationWithTunnelID ::
  "pod_config \<Rightarrow> (byte list \<Rightarrow> byte list) \<Rightarrow> podNetInfo \<Rightarrow> NetworkSelectionElement option \<Rightarrow> bool
   \<Rightarrow> (Pod option \<times> byte list \<times> api_outcome) list \<Rightarrow> alloc_state \<Rightarrow> ((alloc_error + Pod option \<times> PodAnnotation) \<times> alloc_state) option" where
  "allocatePodAnnotationWithTunnelID cfg sha256 ni network reallocateIP attempts st =
     UpdatePodWithRetryOrRollback OvnConflictBackoff_Steps
       (\<lambda>rnd pod. allocatePodAnnotationWithRollback cfg sha256 rnd ni pod network reallocateIP) attempts st"

definition allocatePodAnnotation ::
  "pod_config \<Rightarrow> (byte list \<Rightarrow> byte list) \<Rightarrow> podNetInfo \<Rightarrow> NetworkSelectionElement option \<Rightarrow> bool
   \<Rightarrow> (Pod option \<times> byte list \<times> api_outcome) list \<Rightarrow> IPAllocator option \<Rightarrow> ((alloc_error + Pod option \<times> PodAnnotation) \<times> alloc_state) option" where
  "allocatePodAnnotation cfg sha256 ni network reallocateIP attempts ipAllocator =
     allocatePodAnnotationWithTunnelID cfg sha256 ni network reallocateIP attempts \<lparr>as_ip = ipAllocator, as_id = None\<rparr>"

definition UpdatePodAnnotationWithRetry :: "PodAnnotation \<Rightarrow> string \<Rightarrow> (Pod option \<times> byte list \<times> api_outcome) list \<Rightarrow> (alloc_error + Pod option) option" where
  "UpdatePodAnnotationWithRetry a nadName attempts =
     map_option (\<lambda>(res, st). case res of Inl e \<Rightarrow> Inl e | Inr (pod, _) \<Rightarrow> Inr pod)
       (UpdatePodWithRetryOrRollback OvnConflictBackoff_Steps
          (\<lambda>rnd pod st. Some (case MarshalPodAnnotation (pod_docs pod) a nadName of
               Inl e \<Rightarrow> (Inl (MarshalFailed e), st)
             | Inr docs \<Rightarrow> (Inr (Some (pod\<lparr>pod_docs := docs\<rparr>), a, noRollback), st)))
          attempts \<lparr>as_ip = None, as_id = None\<rparr>)"

section \<open>The pod allocator of the cluster manager\<close>

record PodAllocator =
  pal_netInfo :: podNetInfo
  pal_ip :: "allocator option"
  pal_id :: "idAllocator option"
  pal_released :: "string \<rightharpoonup> string set"

definition MaxLogicalPortTunnelKey :: int where
  "MaxLogicalPortTunnelKey = 32767"

definition NewPodAllocator :: "podNetInfo \<Rightarrow> PodAllocator" where
  "NewPodAllocator ni =
     \<lparr>pal_netInfo = ni, pal_ip = (if DoesNetworkRequireIPAM ni then Some NewAllocator else None), pal_id = None, pal_released = Map.empty\<rparr>"

definition init_ids :: "pod_config \<Rightarrow> PodAllocator \<Rightarrow> (alloc_error + PodAllocator) option" where
  "init_ids cfg pa =
     (if DoesNetworkRequireTunnelIDs cfg (pal_netInfo pa) then
        (case ReserveID ''zero'' 0 (NewIDAllocator (ni_name (pal_netInfo pa)) MaxLogicalPortTunnelKey) of
           None \<Rightarrow> None
         | Some (Inl e, _) \<Rightarrow> Some (Inl (IDFailed e))
         | Some (Inr _, a) \<Rightarrow> Some (Inr (pa\<lparr>pal_id := Some a\<rparr>)))
      else Some (Inr pa))"

definition pal_Init :: "pod_config \<Rightarrow> PodAllocator \<Rightarrow> (alloc_error + PodAllocator) option" where
  "pal_Init cfg pa =
     (case init_ids cfg pa of
        None \<Rightarrow> None
      | Some (Inl e) \<Rightarrow> Some (Inl e)
      | Some (Inr pa1) \<Rightarrow>
          if DoesNetworkRequireIPAM (pal_netInfo pa1) then
            (case pal_ip pa1 of
               None \<Rightarrow> None
             | Some a \<Rightarrow>
                 (case AddOrUpdateSubnet (ni_name (pal_netInfo pa1)) (map fst (ni_subnets (pal_netInfo pa1)))
                         (ni_excludeSubnets (pal_netInfo pa1)) a of
                    None \<Rightarrow> None
                  | Some (Inl e, a') \<Rightarrow> Some (Inl (EnsureFailed e))
                  | Some (Inr _, a') \<Rightarrow> Some (Inr (pa1\<lparr>pal_ip := Some a'\<rparr>))))
          else Some (Inr pa1))"

definition podIdAllocationName :: "string \<Rightarrow> string \<Rightarrow> string" where
  "podIdAllocationName nad uid = nad @ ''/'' @ uid"

definition addReleasedPod :: "string \<Rightarrow> string \<Rightarrow> PodAllocator \<Rightarrow> PodAllocator" where
  "addReleasedPod nad uid pa =
     pa\<lparr>pal_released := (pal_released pa)(nad \<mapsto> (case pal_released pa nad of None \<Rightarrow> {uid} | Some s \<Rightarrow> insert uid s))\<rparr>"

definition deleteReleasedPod :: "string \<Rightarrow> string \<Rightarrow> PodAllocator \<Rightarrow> PodAllocator" where
  "deleteReleasedPod nad uid pa =
     (case pal_released pa nad of
        None \<Rightarrow> pa
      | Some s \<Rightarrow> pa\<lparr>pal_released := (pal_released pa)(nad := (if s - {uid} = {} then None else Some (s - {uid})))\<rparr>)"

definition isPodReleased :: "string \<Rightarrow> string \<Rightarrow> PodAllocator \<Rightarrow> bool" where
  "isPodReleased nad uid pa \<longleftrightarrow> (case pal_released pa nad of None \<Rightarrow> False | Some s \<Rightarrow> uid \<in> s)"

text \<open>A nil slice when there are no addresses.\<close>

definition slice :: "'a list \<Rightarrow> 'a list option" where
  "slice xs = (if xs = [] then None else Some xs)"

definition release_tunnel_id :: "string \<Rightarrow> PodAllocator \<Rightarrow> PodAllocator option" where
  "release_tunnel_id name pa =
     Option.bind (pal_id pa) (\<lambda>a. map_option (\<lambda>a'. pa\<lparr>pal_id := Some a'\<rparr>) (ReleaseID name a))"

definition releasePodOnNAD ::
  "pod_config \<Rightarrow> Pod \<Rightarrow> string \<Rightarrow> bool \<Rightarrow> bool \<Rightarrow> PodAllocator \<Rightarrow> ((alloc_error + unit) \<times> PodAllocator) option" where
  "releasePodOnNAD cfg pod nad podDeleted releaseFromAllocator pa =
     (let podAnnotation = (case UnmarshalPodAnnotation (pod_docs pod) nad of Inl _ \<Rightarrow> noPodAnnotation | Inr a \<Rightarrow> a);
          uid = pod_UID pod;
          hasIPAM = DoesNetworkRequireIPAM (pal_netInfo pa);
          hasIDAllocation = DoesNetworkRequireTunnelIDs cfg (pal_netInfo pa)
      in if \<not> hasIPAM \<and> \<not> hasIDAllocation then Some (Inr (), pa)
         else let doRelease = (releaseFromAllocator \<and> \<not> isPodReleased nad uid pa);
                  track = (\<lambda>pa'. if podDeleted then deleteReleasedPod nad uid pa' else addReleasedPod nad uid pa')
              in case (if doRelease \<and> hasIDAllocation then release_tunnel_id (podIdAllocationName nad uid) pa else Some pa) of
                   None \<Rightarrow> None
                 | Some pa1 \<Rightarrow>
                     if doRelease \<and> hasIPAM then
                       (case pal_ip pa1 of
                          None \<Rightarrow> None
                        | Some a \<Rightarrow>
                            (case ReleaseIPs (ni_name (pal_netInfo pa1)) (slice (pan_IPs podAnnotation)) a of
                               (Inl e, a') \<Rightarrow> Some (Inl (ReleaseFailed e), pa1\<lparr>pal_ip := Some a'\<rparr>)
                             | (Inr _, a') \<Rightarrow> Some (Inr (), track (pa1\<lparr>pal_ip := Some a'\<rparr>))))
                     else Some (Inr (), track pa1))"

definition allocatePodOnNAD ::
  "pod_config \<Rightarrow> (byte list \<Rightarrow> byte list) \<Rightarrow> Pod \<Rightarrow> string \<Rightarrow> NetworkSelectionElement \<Rightarrow> (Pod option \<times> byte list \<times> api_outcome) list
   \<Rightarrow> PodAllocator \<Rightarrow> ((alloc_error + Pod option) \<times> PodAllocator) option" where
  "allocatePodOnNAD cfg sha256 pod nad network attempts pa =
     (if DoesNetworkRequireIPAM (pal_netInfo pa) \<and> pal_ip pa = None \<or> DoesNetworkRequireTunnelIDs cfg (pal_netInfo pa) \<and> pal_id pa = None
      then None
      else let ipAllocator = (if DoesNetworkRequireIPAM (pal_netInfo pa)
                              then Some (ForSubnet (ni_name (pal_netInfo pa)) (the (pal_ip pa))) else None);
               idAllocator = (if DoesNetworkRequireTunnelIDs cfg (pal_netInfo pa)
                              then Some (ForName (podIdAllocationName nad (pod_UID pod)) (the (pal_id pa))) else None)
           in case allocatePodAnnotationWithTunnelID cfg sha256 (pal_netInfo pa) (Some network) False attempts
                     \<lparr>as_ip = ipAllocator, as_id = idAllocator\<rparr> of
                None \<Rightarrow> None
              | Some (res, st) \<Rightarrow>
                  Some (case res of Inl e \<Rightarrow> Inl e | Inr (updated, _) \<Rightarrow> Inr updated,
                    pa\<lparr>pal_ip := (case as_ip st of Some i \<Rightarrow> Some (ia_allocator i) | None \<Rightarrow> pal_ip pa),
                       pal_id := (case as_id st of Some n \<Rightarrow> Some (na_allocator n) | None \<Rightarrow> pal_id pa)\<rparr>))"

definition reconcileForNAD ::
  "pod_config \<Rightarrow> (byte list \<Rightarrow> byte list) \<Rightarrow> Pod option \<Rightarrow> Pod option \<Rightarrow> string \<Rightarrow> NetworkSelectionElement \<Rightarrow> bool
   \<Rightarrow> (Pod option \<times> byte list \<times> api_outcome) list \<Rightarrow> PodAllocator \<Rightarrow> ((alloc_error + Pod option) \<times> PodAllocator) option" where
  "reconcileForNAD cfg sha256 old new nad network releaseFromAllocator attempts pa =
     (case (case new of Some p \<Rightarrow> Some p | None \<Rightarrow> old) of
        None \<Rightarrow> None
      | Some pod \<Rightarrow>
          if PodCompleted pod \<or> new = None then
            map_option (\<lambda>(res, pa'). (case res of Inl e \<Rightarrow> Inl e | Inr _ \<Rightarrow> Inr None, pa'))
              (releasePodOnNAD cfg pod nad (new = None) releaseFromAllocator pa)
          else allocatePodOnNAD cfg sha256 pod nad network attempts pa)"

text \<open>The loop over the attachments, in the order the map is iterated.\<close>

fun reconcile_nads ::
  "pod_config \<Rightarrow> (byte list \<Rightarrow> byte list) \<Rightarrow> Pod option \<Rightarrow> Pod option \<Rightarrow> bool \<Rightarrow> (string \<Rightarrow> (Pod option \<times> byte list \<times> api_outcome) list)
   \<Rightarrow> (string \<times> NetworkSelectionElement) list \<Rightarrow> PodAllocator \<Rightarrow> ((alloc_error + unit) \<times> PodAllocator) option" where
  "reconcile_nads cfg sha256 old new release attempts [] pa = Some (Inr (), pa)"
| "reconcile_nads cfg sha256 old new release attempts ((nad, network) # m) pa =
     (case reconcileForNAD cfg sha256 old new nad network release (attempts nad) pa of
        None \<Rightarrow> None
      | Some (Inl e, pa') \<Rightarrow> Some (Inl e, pa')
      | Some (Inr _, pa') \<Rightarrow> reconcile_nads cfg sha256 old new release attempts m pa')"

definition pal_reconcile ::
  "pod_config \<Rightarrow> (byte list \<Rightarrow> byte list) \<Rightarrow> ((string \<times> NetworkSelectionElement) list \<Rightarrow> (string \<times> NetworkSelectionElement) list)
   \<Rightarrow> Pod option \<Rightarrow> Pod option \<Rightarrow> bool \<Rightarrow> (string \<Rightarrow> (Pod option \<times> byte list \<times> api_outcome) list)
   \<Rightarrow> PodAllocator \<Rightarrow> ((alloc_error + unit) \<times> PodAllocator) option" where
  "pal_reconcile cfg sha256 order old new releaseFromAllocator attempts pa =
     (case (case new of Some p \<Rightarrow> Some p | None \<Rightarrow> old) of
        None \<Rightarrow> None
      | Some pod \<Rightarrow>
          if \<not> PodScheduled pod \<or> PodWantsHostNetwork pod then Some (Inr (), pa)
          else case GetPodNADToNetworkMapping pod (pal_netInfo pa) of
              Inl _ \<Rightarrow> Some (Inl BadNetworkSelections, pa)
            | Inr (onNetwork, networkMap) \<Rightarrow>
                if \<not> onNetwork then Some (Inr (), pa)
                else reconcile_nads cfg sha256 old new releaseFromAllocator attempts (order networkMap) pa)"

definition pal_Reconcile where
  "pal_Reconcile cfg sha256 order old new attempts pa = pal_reconcile cfg sha256 order old new True attempts pa"

text \<open>An object that is not a pod (\<open>None\<close>) is skipped, and so is an error.\<close>

fun pal_Sync ::
  "pod_config \<Rightarrow> (byte list \<Rightarrow> byte list) \<Rightarrow> ((string \<times> NetworkSelectionElement) list \<Rightarrow> (string \<times> NetworkSelectionElement) list)
   \<Rightarrow> (Pod \<Rightarrow> string \<Rightarrow> (Pod option \<times> byte list \<times> api_outcome) list) \<Rightarrow> Pod option list \<Rightarrow> PodAllocator \<Rightarrow> PodAllocator option" where
  "pal_Sync cfg sha256 order attempts [] pa = Some pa"
| "pal_Sync cfg sha256 order attempts (None # objs) pa = pal_Sync cfg sha256 order attempts objs pa"
| "pal_Sync cfg sha256 order attempts (Some pod # objs) pa =
     (case pal_reconcile cfg sha256 order None (Some pod) False (attempts pod) pa of
        None \<Rightarrow> None
      | Some (_, pa') \<Rightarrow> pal_Sync cfg sha256 order attempts objs pa')"


section \<open>What an allocation that fails leaves behind\<close>

definition nets_disjoint :: "ipnet list \<Rightarrow> bool" where
  "nets_disjoint ss \<longleftrightarrow> (\<forall>x i j. i < j \<longrightarrow> j < length ss \<longrightarrow> IPNet_Contains (ss ! i) x \<longrightarrow> \<not> IPNet_Contains (ss ! j) x)"

text \<open>A well-formed IP allocator over subnets that do not overlap.\<close>

definition ip_side_ok :: "IPAllocator \<Rightarrow> bool" where
  "ip_side_ok i \<longleftrightarrow> ipam_wf (ia_allocator i) \<and> ia_name i \<noteq> []
     \<and> (\<forall>ss hs. ipam_view (ia_allocator i) (ia_name i) = Some (ss, hs) \<longrightarrow> nets_disjoint ss)"

text \<open>A well-formed id allocator, for another name than \<open>zero\<close>, which holds the id 0.\<close>

definition id_side_ok :: "namedAllocator \<Rightarrow> bool" where
  "id_side_ok n \<longleftrightarrow> id_wf (na_allocator n) \<and> na_name n \<noteq> ''zero'' \<and> nameIdMap (na_allocator n) ''zero'' = Some 0"

text \<open>The same addresses are allocated.\<close>

definition ip_kept :: "IPAllocator \<Rightarrow> IPAllocator \<Rightarrow> bool" where
  "ip_kept i i' \<longleftrightarrow> ia_name i' = ia_name i \<and> ipam_wf (ia_allocator i') \<and> same_held (ia_allocator i) (ia_allocator i')"

text \<open>No id changed hands, except that the name itself may have lost its id.\<close>

definition id_kept :: "namedAllocator \<Rightarrow> namedAllocator \<Rightarrow> bool" where
  "id_kept n n' \<longleftrightarrow> na_name n' = na_name n \<and> id_wf (na_allocator n')
     \<and> (nameIdMap (na_allocator n') = nameIdMap (na_allocator n)
        \<or> nameIdMap (na_allocator n') = (nameIdMap (na_allocator n))(na_name n := None))"

definition st_ok :: "alloc_state \<Rightarrow> bool" where
  "st_ok st \<longleftrightarrow> pred_option ip_side_ok (as_ip st) \<and> pred_option id_side_ok (as_id st)"

definition st_kept :: "alloc_state \<Rightarrow> alloc_state \<Rightarrow> bool" where
  "st_kept st st' \<longleftrightarrow> rel_option ip_kept (as_ip st) (as_ip st') \<and> rel_option id_kept (as_id st) (as_id st')"

lemma ip_kept_refl: "ip_side_ok i \<Longrightarrow> ip_kept i i"
  by (simp add: ip_kept_def ip_side_ok_def)

lemma ip_kept_ok: "ip_side_ok i \<Longrightarrow> ip_kept i i' \<Longrightarrow> ip_side_ok i'"
  by (auto simp: ip_kept_def ip_side_ok_def same_held_def)

lemma ip_kept_trans: "ip_kept i j \<Longrightarrow> ip_kept j k \<Longrightarrow> ip_kept i k"
  by (auto simp: ip_kept_def intro: same_held_trans)

lemma id_kept_refl: "id_side_ok n \<Longrightarrow> id_kept n n"
  by (simp add: id_kept_def id_side_ok_def)

lemma id_kept_ok: "id_side_ok n \<Longrightarrow> id_kept n n' \<Longrightarrow> id_side_ok n'"
  by (auto simp: id_kept_def id_side_ok_def)

lemma id_kept_trans: "id_kept i j \<Longrightarrow> id_kept j k \<Longrightarrow> id_kept i k"
  by (auto simp: id_kept_def)

lemma st_kept_refl: "st_ok st \<Longrightarrow> st_kept st st"
  by (cases "as_ip st"; cases "as_id st") (auto simp: st_ok_def st_kept_def ip_kept_refl id_kept_refl)

lemma st_kept_ok: "st_ok st \<Longrightarrow> st_kept st st' \<Longrightarrow> st_ok st'"
  by (cases "as_ip st"; cases "as_id st"; cases "as_ip st'"; cases "as_id st'")
    (auto simp: st_ok_def st_kept_def ip_kept_ok id_kept_ok)

lemma st_kept_trans: "st_kept a b \<Longrightarrow> st_kept b c \<Longrightarrow> st_kept a c"
  unfolding st_kept_def by (auto elim!: option.rel_cases intro: ip_kept_trans id_kept_trans)

subsection \<open>Tunnel ids\<close>

text \<open>What releasing the id \<open>rel\<close> makes of an id allocator.\<close>

definition id_undone :: "namedAllocator \<Rightarrow> int \<Rightarrow> namedAllocator \<Rightarrow> bool" where
  "id_undone n rel n1 \<longleftrightarrow>
     (if rel = 0 then id_kept n n1
      else na_name n1 = na_name n \<and> id_wf (na_allocator n1) \<and>
        (\<exists>i. nameIdMap (na_allocator n1) = (nameIdMap (na_allocator n))(na_name n \<mapsto> i)))"

lemma release_id_undone:
  assumes "as_id st = Some n1" "id_undone n rel n1" "rel \<noteq> 0" "release_id st = Some st'"
  shows "\<exists>n'. as_id st' = Some n' \<and> id_kept n n' \<and> as_ip st' = as_ip st"
proof -
  have n1: "na_name n1 = na_name n" "id_wf (na_allocator n1)"
    "\<exists>i. nameIdMap (na_allocator n1) = (nameIdMap (na_allocator n))(na_name n \<mapsto> i)"
    using assms(2,3) by (auto simp: id_undone_def)
  obtain a where a: "ReleaseID (na_name n1) (na_allocator n1) = Some a" "id_wf a"
    "nameIdMap a = (nameIdMap (na_allocator n1))(na_name n1 := None)"
    using ReleaseID_eff [OF n1(2), of "na_name n1"] by blast
  then have "st' = st\<lparr>as_id := Some (n1\<lparr>na_allocator := a\<rparr>)\<rparr>"
    using assms(1,4) by (simp add: release_id_def named_ReleaseID_def)
  then show ?thesis using a n1 by (auto simp: id_kept_def)
qed

lemma assign_id_effect:
  assumes ok: "pred_option id_side_ok (as_id st)" and run: "assign_id cfg ni t st = Some (res, st1)"
  shows "as_ip st1 = as_ip st"
    and "rel_option (\<lambda>n n1. id_undone n (case res of Inl _ \<Rightarrow> 0 | Inr (_, rel) \<Rightarrow> rel) n1) (as_id st) (as_id st1)"
proof -
  have same: "rel_option (\<lambda>n n1. id_undone n 0 n1) (as_id st) (as_id st)"
    using ok by (cases "as_id st") (auto simp: id_undone_def id_kept_refl)
  have "as_ip st1 = as_ip st \<and> rel_option (\<lambda>n n1. id_undone n (case res of Inl _ \<Rightarrow> 0 | Inr (_, rel) \<Rightarrow> rel) n1) (as_id st) (as_id st1)"
  proof (cases "DoesNetworkRequireTunnelIDs cfg ni")
    case False
    then show ?thesis using run same by (auto simp: assign_id_def)
  next
    case req: True
    obtain n where n: "as_id st = Some n" using run req by (auto simp: assign_id_def split: option.splits)
    then have nok: "id_wf (na_allocator n)" "na_name n \<noteq> ''zero'' \<and> nameIdMap (na_allocator n) ''zero'' = Some 0"
      using ok by (auto simp: id_side_ok_def)
    show ?thesis
    proof (cases "t = 0")
      case True
      obtain out a where A: "named_AllocateID n = (out, a)" by fastforce
      then have A': "AllocateID (na_name n) (na_allocator n) = (out, a)" by (simp add: named_AllocateID_def)
      have st1: "st1 = st\<lparr>as_id := Some (n\<lparr>na_allocator := a\<rparr>)\<rparr>" "res = (case out of Inl e \<Rightarrow> Inl (IDFailed e) | Inr i \<Rightarrow> Inr (i, i))"
        using run req n True A by (auto simp: assign_id_def split: sum.splits)
      have wf: "id_wf a" using id_wf_AllocateID [OF nok(1) A'] .
      show ?thesis
      proof (cases out)
        case (Inl e)
        then have "nameIdMap a = nameIdMap (na_allocator n)"
          using A' by (auto simp: AllocateID_def split: option.splits prod.splits)
        then show ?thesis using st1 Inl n wf by (simp add: id_undone_def id_kept_def)
      next
        case (Inr i)
        then have m: "nameIdMap a = (nameIdMap (na_allocator n))(na_name n \<mapsto> i)"
          using AllocateID_result [OF nok(1)] A' by simp
        have "i \<noteq> 0"
        proof
          assume "i = 0"
          define k where "k = ''zero''"
          have k: "k \<noteq> na_name n" "nameIdMap (na_allocator n) k = Some 0" using nok(2) by (auto simp: k_def)
          then have "nameIdMap a k = nameIdMap a (na_name n)" "k \<in> dom (nameIdMap a)" "na_name n \<in> dom (nameIdMap a)"
            using m \<open>i = 0\<close> by auto
          then show False using wf k(1) unfolding id_wf_def by (meson inj_on_eq_iff)
        qed
        then show ?thesis using st1 Inr n wf m by (auto simp: id_undone_def)
      qed
    next
      case False
      obtain out a where A: "named_ReserveID t n = Some (out, a)" using run req n False by (auto simp: assign_id_def split: option.splits)
      then have A': "ReserveID (na_name n) t (na_allocator n) = Some (out, a)" by (simp add: named_ReserveID_def)
      have st1: "st1 = st\<lparr>as_id := Some (n\<lparr>na_allocator := a\<rparr>)\<rparr>" "res = (case out of Inl e \<Rightarrow> Inl (IDFailed e) | Inr i \<Rightarrow> Inr (t, t))"
        using run req n False A by (auto simp: assign_id_def split: sum.splits)
      have wf: "id_wf a" using id_wf_ReserveID [OF nok(1) A'] .
      have "nameIdMap a = (case out of Inl _ \<Rightarrow> nameIdMap (na_allocator n) | Inr _ \<Rightarrow> (nameIdMap (na_allocator n))(na_name n \<mapsto> t))"
        using A' by (auto simp: ReserveID_def fun_upd_idem split: option.splits if_splits prod.splits bool.splits)
      then show ?thesis using st1 n wf False by (cases out) (auto simp: id_undone_def id_kept_def)
    qed
  qed
  then show "as_ip st1 = as_ip st"
    and "rel_option (\<lambda>n n1. id_undone n (case res of Inl _ \<Rightarrow> 0 | Inr (_, rel) \<Rightarrow> rel) n1) (as_id st) (as_id st1)" by auto
qed

subsection \<open>Addresses\<close>

lemma CopyIPNets_id [simp]: "CopyIPNets ns = ns"
  by (induction ns) (simp_all add: CopyIPNets_def)

text \<open>Releasing the addresses \<open>rel\<close> restores the addresses of \<open>i\<close>.\<close>

definition ip_undone :: "IPAllocator \<Rightarrow> ipnet list \<Rightarrow> IPAllocator \<Rightarrow> bool" where
  "ip_undone i rel i1 \<longleftrightarrow> ia_name i1 = ia_name i \<and>
     (if rel = [] then ip_kept i i1
      else ip_kept i (i1\<lparr>ia_allocator := snd (named_ReleaseIPs (Some rel) i1)\<rparr>))"

lemma ip_undone_trans: "ip_kept i j \<Longrightarrow> ip_undone j rel k \<Longrightarrow> ip_undone i rel k"
  by (auto simp: ip_undone_def ip_kept_def intro: same_held_trans)

lemma release_ips_undone:
  assumes "as_ip st = Some i1" "ip_undone i rel i1" "rel \<noteq> []" "release_ips rel st = Some st'"
  shows "\<exists>i'. as_ip st' = Some i' \<and> ip_kept i i' \<and> as_id st' = as_id st"
  using assms by (auto simp: release_ips_def ip_undone_def)

lemma next_ips_effect:
  assumes ok: "ip_side_ok i" and st: "as_ip st = Some i" and run: "next_ips st = Some (res, st1)"
  shows "as_id st1 = as_id st \<and>
    (\<exists>i1. as_ip st1 = Some i1 \<and> ip_undone i (case res of Inl _ \<Rightarrow> [] | Inr ns \<Rightarrow> ns) i1)"
proof -
  let ?nm = "ia_name i" and ?a = "ia_allocator i"
  obtain out a' where A: "AllocateNextIPs ?nm ?a = (out, a')" by fastforce
  then have st1: "st1 = st\<lparr>as_ip := Some (i\<lparr>ia_allocator := a'\<rparr>)\<rparr>" "res = (case out of Inl e \<Rightarrow> Inl (AssignFailed e) | Inr ns \<Rightarrow> Inr ns)"
    using run st by (auto simp: next_ips_def named_AllocateNextIPs_def split: sum.splits)
  have wf: "ipam_wf ?a" and nm: "?nm \<noteq> []" using ok by (auto simp: ip_side_ok_def)
  have "ip_undone i (case out of Inl _ \<Rightarrow> [] | Inr ns \<Rightarrow> ns) (i\<lparr>ia_allocator := a'\<rparr>)"
  proof (cases "cache ?a ?nm")
    case None
    then have "out = Inl (ErrSubnetNotFound ?nm)" "a' = ?a" using A by (auto simp: AllocateNextIPs_def)
    then show ?thesis using wf by (simp add: ip_undone_def ip_kept_def)
  next
    case si: (Some si)
    show ?thesis
    proof (cases "si_ipams si = []")
      case True
      then have "out = Inl (NoIPAM ?nm)" "a' = ?a" using A si by (auto simp: AllocateNextIPs_def)
      then show ?thesis using wf by (simp add: ip_undone_def ip_kept_def)
    next
      case False
      note eff = AllocateNextIPs_effect [OF wf si False, unfolded A prod.case]
      show ?thesis
      proof (cases out)
        case (Inl e)
        then obtain si' where "cache a' = (cache ?a)(?nm \<mapsto> si')" "si_subnets si' = si_subnets si"
          "held_by (si_ipams si') = held_by (si_ipams si)" using eff by auto
        then show ?thesis using Inl eff same_heldI [OF si] by (auto simp: ip_undone_def ip_kept_def)
      next
        case (Inr ns)
        have dis: "nets_disjoint (si_subnets si)" using ok si by (auto simp: ip_side_ok_def ipam_view_def)
        have "length (si_ipams si) = length (si_subnets si)" using wf si by (auto simp: ipam_wf_def ipams_wf_nth)
        then have "ns \<noteq> []" using eff Inr False by auto
        moreover have "case ReleaseIPs ?nm (Some ns) a' of (r, a'') \<Rightarrow> r = Inr () \<and> ipam_wf a'' \<and>
            (\<exists>si'. cache a'' = (cache ?a)(?nm \<mapsto> si') \<and> si_subnets si' = si_subnets si \<and> held_by (si_ipams si') = held_by (si_ipams si))"
          using A Inr dis by (intro ReleaseIPs_AllocateNextIPs [OF wf si nm False]) (auto simp: nets_disjoint_def)
        ultimately show ?thesis
          using Inr same_heldI [OF si] by (auto simp: ip_undone_def ip_kept_def named_ReleaseIPs_def split: prod.splits)
      qed
    qed
  qed
  then show ?thesis using st1 by (cases out) auto
qed

lemma assign_ips_effect:
  assumes ok: "ip_side_ok i" and st: "as_ip st = Some i" and ips: "list_all (\<lambda>n. ip_wf (IP n)) ips"
    and run: "assign_ips ips reallocate st = Some (res, st1)"
  shows "as_id st1 = as_id st \<and>
    (\<exists>i1. as_ip st1 = Some i1 \<and> ip_undone i (case res of Inl _ \<Rightarrow> [] | Inr (_, rel, _) \<Rightarrow> rel) i1)"
proof -
  have fresh: "as_id st1 = as_id st \<and>
      (\<exists>i1. as_ip st1 = Some i1 \<and> ip_undone i (case res of Inl _ \<Rightarrow> [] | Inr (_, rel, _) \<Rightarrow> rel) i1)"
    if j: "ip_kept i j" "as_ip st0 = Some j" "as_id st0 = as_id st"
      and n: "(case next_ips st0 of None \<Rightarrow> None | Some (Inl e, st2) \<Rightarrow> Some (Inl e, st2)
         | Some (Inr ns, st2) \<Rightarrow> Some (Inr (ns, CopyIPNets ns, g), st2)) = Some (res, st1)" for j st0 g
  proof -
    obtain out where out: "next_ips st0 = Some (out, st1)" "res = (case out of Inl e \<Rightarrow> Inl e | Inr ns \<Rightarrow> Inr (ns, ns, g))"
      using n by (auto split: option.splits prod.splits sum.splits)
    from next_ips_effect [OF ip_kept_ok [OF ok j(1)] j(2) out(1)] j(3) out(2) ip_undone_trans [OF j(1)]
    show ?thesis by (cases out) auto
  qed
  show ?thesis
  proof (cases "ips = []")
    case True
    then show ?thesis using run by (intro fresh [OF ip_kept_refl [OF ok] st refl]) (auto simp: assign_ips_def)
  next
    case False
    obtain out a' where A: "AllocateIPs (ia_name i) ips (ia_allocator i) = (out, a')" by fastforce
    then have A': "named_AllocateIPs ips i = (out, a')" by (simp add: named_AllocateIPs_def)
    have wf: "ipam_wf (ia_allocator i)" and nm: "ia_name i \<noteq> []" using ok by (auto simp: ip_side_ok_def)
    have ips': "\<forall>n\<in>set ips. ip_wf (IP n)" using ips by (simp add: list_all_iff)
    let ?j = "i\<lparr>ia_allocator := a'\<rparr>"
    show ?thesis
    proof (cases out)
      case (Inr u)
      have "ip_undone i ips ?j"
        using ReleaseIPs_AllocateIPs [OF wf ips' nm A [unfolded Inr]] False
        by (auto simp: ip_undone_def ip_kept_def named_ReleaseIPs_def split: prod.splits)
      then show ?thesis using run False st A' Inr by (auto simp: assign_ips_def)
    next
      case (Inl e)
      have k: "ip_kept i ?j" using AllocateIPs_error [OF wf ips' A [unfolded Inl]] by (simp add: ip_kept_def)
      show ?thesis
      proof (cases "subnet_IsErrAllocated e \<or> \<not> reallocate")
        case True
        then show ?thesis using run False st A' Inl k by (auto simp: assign_ips_def Let_def ip_undone_def split: if_splits)
      next
        case no: False
        show ?thesis
          by (rule fresh [OF k, of "st\<lparr>as_ip := Some ?j\<rparr>" True])
            (use run False st A' Inl no in \<open>simp_all add: assign_ips_def Let_def\<close>)
      qed
    qed
  qed
qed

subsection \<open>The whole allocation\<close>

text \<open>The captured variables are those whose release undoes the allocation.\<close>

definition undoes :: "alloc_state \<Rightarrow> rollback_vars \<Rightarrow> alloc_state \<Rightarrow> bool" where
  "undoes st rb st1 \<longleftrightarrow> rel_option (\<lambda>i i1. ip_undone i (rb_releaseIPs rb) i1) (as_ip st) (as_ip st1)
     \<and> rel_option (\<lambda>n n1. id_undone n (rb_releaseID rb) n1) (as_id st) (as_id st1)"

lemma pod_rollback_undoes:
  assumes u: "undoes st rb st1" and run: "pod_rollback rb st1 = Some st2"
  shows "st_kept st st2"
proof -
  obtain s where s: "(if rb_releaseID rb \<noteq> 0 then release_id st1 else Some st1) = Some s"
    and fin: "(if rb_releaseIPs rb = [] then Some s else release_ips (rb_releaseIPs rb) s) = Some st2"
    using run by (auto simp: pod_rollback_def split: option.splits)
  have ids: "rel_option id_kept (as_id st) (as_id s) \<and> as_ip s = as_ip st1"
  proof (cases "rb_releaseID rb = 0")
    case True
    then show ?thesis using s u by (auto simp: undoes_def id_undone_def elim!: option.rel_cases)
  next
    case False
    then obtain n1 where n1: "as_id st1 = Some n1" using s by (auto simp: release_id_def split: option.splits)
    then obtain n where n: "as_id st = Some n" and u': "id_undone n (rb_releaseID rb) n1"
      using u by (auto simp: undoes_def elim!: option.rel_cases)
    have "release_id st1 = Some s" using s False by simp
    then show ?thesis using release_id_undone [OF n1 u' False] n by auto
  qed
  show ?thesis
  proof (cases "rb_releaseIPs rb = []")
    case True
    then have "s = st2" using fin by simp
    then show ?thesis using u ids True by (auto simp: undoes_def st_kept_def ip_undone_def elim!: option.rel_cases)
  next
    case False
    then obtain i1 where i1: "as_ip s = Some i1" using fin by (auto simp: release_ips_def split: option.splits)
    then obtain i where i: "as_ip st = Some i" and u': "ip_undone i (rb_releaseIPs rb) i1"
      using u ids by (auto simp: undoes_def elim!: option.rel_cases)
    have "release_ips (rb_releaseIPs rb) s = Some st2" using fin False by simp
    then show ?thesis using release_ips_undone [OF i1 u' False] i ids by (auto simp: st_kept_def)
  qed
qed

lemma allocate_tentative_undoes:
  assumes ok: "st_ok st" and run: "allocate_tentative cfg sha256 rnd ni pod network reallocateIP st = Some (res, rb, st1)"
  shows "undoes st rb st1"
proof -
  define nadName where "nadName = (if ni_secondary ni then GetNADName (nse_Namespace (the network)) (nse_Name (the network)) else DefaultNetworkName)"
  define existing where "existing = (case UnmarshalPodAnnotation (pod_docs pod) nadName of Inl _ \<Rightarrow> noPodAnnotation | Inr a \<Rightarrow> a)"
  obtain out s1 where A: "assign_id cfg ni (pan_TunnelID existing) st = Some (out, s1)"
    using run unfolding allocate_tentative_def Let_def nadName_def [symmetric] existing_def [symmetric]
    by (auto split: if_splits option.splits)
  have sides: "pred_option ip_side_ok (as_ip st)" "pred_option id_side_ok (as_id st)" using ok by (auto simp: st_ok_def)
  note id = assign_id_effect [OF sides(2) A]
  have still: "rel_option (\<lambda>i i1. ip_undone i [] i1) (as_ip st) (as_ip st)"
    using sides(1) by (cases "as_ip st") (auto simp: ip_undone_def ip_kept_refl)
  show ?thesis
  proof (cases out)
    case (Inl e)
    then have "rb = noRollback" "st1 = s1"
      using run A unfolding allocate_tentative_def Let_def nadName_def [symmetric] existing_def [symmetric]
      by (auto split: if_splits)
    then show ?thesis using id Inl still by (simp add: undoes_def noRollback_def)
  next
    case (Inr p)
    obtain t rel where p: "p = (t, rel)" by fastforce
    define request where "request = (case network of None \<Rightarrow> [] | Some nw \<Rightarrow> nse_IPRequest nw)"
    define noIPs where "noIPs = (length (pan_IPs existing) = 0)"
    define src where "src = (if noIPs \<and> length request > 0 then ParseIPNets request else Some (pan_IPs existing))"
    define realloc where "realloc = (noIPs \<and> length request > 0 \<and> \<not> (length request > 0 \<and> \<not> reallocateIP))"
    have src_wf: "list_all (\<lambda>n. ip_wf (IP n)) ips" if "src = Some ips" for ips
      using that ParseIPNets_wf [of request ips] UnmarshalPodAnnotation_wf [of "pod_docs pod" nadName existing]
      by (auto simp: src_def existing_def noPodAnnotation_def list_all_iff split: if_splits sum.splits)
    have "rb = \<lparr>rb_releaseIPs = [], rb_releaseID = rel\<rparr> \<and> st1 = s1 \<or>
      (\<exists>ips got. src = Some ips \<and> DoesNetworkRequireIPAM ni \<and> assign_ips ips realloc s1 = Some (got, st1) \<and>
         rb = \<lparr>rb_releaseIPs = (case got of Inl _ \<Rightarrow> [] | Inr (_, r, _) \<Rightarrow> r), rb_releaseID = rel\<rparr>)"
      using run A Inr p
      unfolding allocate_tentative_def Let_def nadName_def [symmetric] existing_def [symmetric]
        request_def [symmetric] noIPs_def [symmetric] src_def [symmetric] realloc_def [symmetric]
      by (auto simp: noRollback_def split: if_splits option.splits prod.splits sum.splits)
    then show ?thesis
    proof (elim disjE exE conjE)
      assume "rb = \<lparr>rb_releaseIPs = [], rb_releaseID = rel\<rparr>" "st1 = s1"
      then show ?thesis using id Inr p still by (simp add: undoes_def)
    next
      fix ips got
      assume g: "src = Some ips" "assign_ips ips realloc s1 = Some (got, st1)"
        "rb = \<lparr>rb_releaseIPs = (case got of Inl _ \<Rightarrow> [] | Inr (_, r, _) \<Rightarrow> r), rb_releaseID = rel\<rparr>"
      obtain i where i: "as_ip s1 = Some i"
        using g(2) by (auto simp: assign_ips_def next_ips_def Let_def split: if_splits option.splits)
      then have "ip_side_ok i" "as_ip st = Some i" using id(1) sides(1) by auto
      then show ?thesis
        using assign_ips_effect [OF _ i src_wf [OF g(1)] g(2)] id Inr p g(3) by (auto simp: undoes_def)
    qed
  qed
qed

lemma allocate_error_kept:
  assumes "st_ok st" "allocatePodAnnotationWithRollback cfg sha256 rnd ni pod network reallocateIP st = Some (Inl e, st')"
  shows "st_kept st st'"
proof -
  obtain rb st1 where "allocate_tentative cfg sha256 rnd ni pod network reallocateIP st = Some (Inl e, rb, st1)"
    "pod_rollback rb st1 = Some st'"
    using assms(2) by (auto simp: allocatePodAnnotationWithRollback_def split: option.splits prod.splits sum.splits)
  then show ?thesis using allocate_tentative_undoes [OF assms(1)] pod_rollback_undoes by blast
qed

lemma allocate_success_undoes:
  assumes "st_ok st" "allocatePodAnnotationWithRollback cfg sha256 rnd ni pod network reallocateIP st = Some (Inr (p, a, rb), st')"
  shows "undoes st rb st'"
proof -
  have "allocate_tentative cfg sha256 rnd ni pod network reallocateIP st = Some (Inr (p, a), rb, st')"
    using assms(2) by (auto simp: allocatePodAnnotationWithRollback_def split: option.splits prod.splits sum.splits)
  then show ?thesis by (rule allocate_tentative_undoes [OF assms(1)])
qed


lemma UpdatePodWithRetryOrRollback_kept:
  assumes err: "\<And>rnd pod st e st'. st_ok st \<Longrightarrow> allocate rnd pod st = Some (Inl e, st') \<Longrightarrow> st_kept st st'"
    and suc: "\<And>rnd pod st p a rb st'. st_ok st \<Longrightarrow> allocate rnd pod st = Some (Inr (p, a, rb), st') \<Longrightarrow> undoes st rb st'"
  shows "st_ok st \<Longrightarrow> UpdatePodWithRetryOrRollback k allocate attempts st = Some (Inl e, st') \<Longrightarrow> st_kept st st'"
proof (induction k arbitrary: attempts st)
  case 0
  then show ?case by (simp add: st_kept_refl)
next
  case (Suc k)
  show ?case
  proof (cases attempts)
    case Nil
    then show ?thesis using Suc.prems by (simp add: st_kept_refl)
  next
    case (Cons x rest)
    obtain cached rnd outcome where x: "x = (cached, rnd, outcome)" using prod_cases3 by blast
    note run = Suc.prems(2) [unfolded Cons x UpdatePodWithRetryOrRollback.simps(3)]
    show ?thesis
    proof (cases cached)
      case None
      then show ?thesis using run Suc.prems(1) by (simp add: st_kept_refl)
    next
      case (Some pod)
      then obtain res st1 where A: "allocate rnd pod st = Some (res, st1)"
        using run by (cases "allocate rnd pod st") auto
      show ?thesis
      proof (cases res)
        case (Inl e')
        then show ?thesis using run Some A err [OF Suc.prems(1)] by simp
      next
        case (Inr r)
        obtain p a rb where r: "r = (p, a, rb)" using prod_cases3 by blast
        have u: "undoes st rb st1" using suc [OF Suc.prems(1)] A Inr r by blast
        have p: "\<exists>q. p = Some q" using run Some A Inr r by (cases p) auto
        obtain st2 where R: "pod_rollback rb st1 = Some st2"
          and rest: "st2 = st' \<or> UpdatePodWithRetryOrRollback k allocate rest st2 = Some (Inl e, st')"
          using run Some A Inr r p by (cases outcome; cases "pod_rollback rb st1") auto
        have kept: "st_kept st st2" by (rule pod_rollback_undoes [OF u R])
        from rest show ?thesis
        proof
          assume "st2 = st'"
          then show ?thesis using kept by simp
        next
          assume "UpdatePodWithRetryOrRollback k allocate rest st2 = Some (Inl e, st')"
          then show ?thesis using Suc.IH st_kept_ok [OF Suc.prems(1) kept] st_kept_trans [OF kept] by blast
        qed
      qed
    qed
  qed
qed

lemma allocate_pod_kept:
  assumes "st_ok st" "allocatePodAnnotationWithTunnelID cfg sha256 ni network reallocateIP attempts st = Some (Inl e, st')"
  shows "st_kept st st'"
  using assms unfolding allocatePodAnnotationWithTunnelID_def
  by (rule UpdatePodWithRetryOrRollback_kept [rotated 2]) (blast intro: allocate_error_kept allocate_success_undoes)+

text \<open>C5: A pod allocation that fails, at whatever point and after however many conflicting updates, leaves
  nothing behind: under the network's name, and under every other name, the same subnets hold the same
  addresses as before, and no name but the pod's own has another tunnel id (the pod's own name keeps its id
  or loses it, because an id read from the annotation is given up as well). The subnets of the network must
  not overlap, and the id 0 must be reserved, which is what initialising the pod allocator does.\<close>

theorem failed_pod_allocation_leaves_nothing:
  assumes "st_ok st" "allocatePodAnnotationWithTunnelID cfg sha256 ni network reallocateIP attempts st = Some (Inl e, st')"
  shows "rel_option (\<lambda>i i'. ia_name i' = ia_name i \<and> ipam_view (ia_allocator i') = ipam_view (ia_allocator i)) (as_ip st) (as_ip st')
    \<and> rel_option (\<lambda>n n'. na_name n' = na_name n \<and> (\<forall>m. m \<noteq> na_name n \<longrightarrow> nameIdMap (na_allocator n') m = nameIdMap (na_allocator n) m)
         \<and> nameIdMap (na_allocator n') (na_name n) \<in> {None, nameIdMap (na_allocator n) (na_name n)}) (as_id st) (as_id st')"
proof -
  have k: "rel_option ip_kept (as_ip st) (as_ip st')" "rel_option id_kept (as_id st) (as_id st')"
    using allocate_pod_kept [OF assms] by (auto simp: st_kept_def)
  show ?thesis
    by (intro conjI option.rel_mono_strong [OF k(1)] option.rel_mono_strong [OF k(2)])
      (auto simp: ip_kept_def id_kept_def same_held_def)
qed

section \<open>Fresh addresses\<close>

lemma layer3_routes_IPs: "layer3_routes ss ns ips a = Some (Inr a') \<Longrightarrow> pan_IPs a' = pan_IPs a"
  by (induction ss ns ips a rule: layer3_routes.induct) (auto simp: Let_def split: sum.splits option.splits if_splits)

lemma default_routes_IPs: "default_routes cfg o4 o6 ns ips a = Some (Inr a') \<Longrightarrow> pan_IPs a' = pan_IPs a"
  by (induction cfg o4 o6 ns ips a rule: default_routes.induct) (auto simp: Let_def split: sum.splits option.splits)

lemma AddRoutesGatewayIP_IPs:
  assumes "AddRoutesGatewayIP cfg ni pod a network = Some (Inr a')"
  shows "pan_IPs a' = pan_IPs a"
  using assms
  by (auto simp: AddRoutesGatewayIP_def Let_def dest!: layer3_routes_IPs default_routes_IPs
      split: if_splits option.splits sum.splits)

lemma finish_annotation_result:
  assumes "finish_annotation cfg sha256 rnd ni pod network nadName True needsID existing tentative = Some (Inr (p, a))"
  shows "pan_IPs a = pan_IPs tentative
    \<and> (\<exists>docs. MarshalPodAnnotation (pod_docs pod) a nadName = Inr docs \<and> p = Some (pod\<lparr>pod_docs := docs\<rparr>))"
proof -
  obtain mac where mac: "assign_mac sha256 rnd network (pan_IPs tentative) = Inr mac"
    and A: "AddRoutesGatewayIP cfg ni pod (tentative\<lparr>pan_MAC := mac\<rparr>) network = Some (Inr a)"
    and M: "\<exists>docs. MarshalPodAnnotation (pod_docs pod) a nadName = Inr docs \<and> p = Some (pod\<lparr>pod_docs := docs\<rparr>)"
    using assms by (auto simp: finish_annotation_def split: option.splits sum.splits)
  then show ?thesis using AddRoutesGatewayIP_IPs [OF A] by simp
qed


lemma allocate_fresh:
  assumes run: "allocatePodAnnotationWithRollback cfg sha256 rnd ni pod network reallocateIP st = Some (Inr (p, a, rb), st')"
    and ok: "st_ok st" and ip: "as_ip st = Some i"
    and ipam: "DoesNetworkRequireIPAM ni" and req: "pred_option (\<lambda>nw. nse_IPRequest nw = []) network"
    and nad: "nadName = (case network of Some nw \<Rightarrow> if ni_secondary ni then GetNADName (nse_Namespace nw) (nse_Name nw) else DefaultNetworkName
                          | None \<Rightarrow> DefaultNetworkName)"
    and none: "UnmarshalPodAnnotation (pod_docs pod) nadName = Inl err"
  shows "\<exists>a2. AllocateNextIPs (ia_name i) (ia_allocator i) = (Inr (pan_IPs a), a2)
    \<and> as_ip st' = Some (i\<lparr>ia_allocator := a2\<rparr>)
    \<and> (\<exists>docs. MarshalPodAnnotation (pod_docs pod) a nadName = Inr docs \<and> p = Some (pod\<lparr>pod_docs := docs\<rparr>))"
proof -
  have T: "allocate_tentative cfg sha256 rnd ni pod network reallocateIP st = Some (Inr (p, a), rb, st')"
    using run by (auto simp: allocatePodAnnotationWithRollback_def split: option.splits prod.splits sum.splits)
  have net: "\<not> (ni_secondary ni \<and> network = None)"
  proof
    assume "ni_secondary ni \<and> network = None"
    then show False using T by (simp add: allocate_tentative_def)
  qed
  have nm: "(if ni_secondary ni then GetNADName (nse_Namespace (the network)) (nse_Name (the network)) else DefaultNetworkName) = nadName"
    using nad net by (auto split: option.splits)
  have rq: "(case network of None \<Rightarrow> [] | Some nw \<Rightarrow> nse_IPRequest nw) = []" using req by (auto split: option.splits)
  have ex: "pan_TunnelID noPodAnnotation = 0" "pan_IPs noPodAnnotation = []" "pan_MAC noPodAnnotation = []"
    by (simp_all add: noPodAnnotation_def)
  note T1 = T [unfolded allocate_tentative_def Let_def nm none sum.case rq ex]
  obtain out st1 where A: "assign_id cfg ni 0 st = Some (out, st1)"
    using T1 net by (auto split: option.splits if_splits)
  have ip1: "as_ip st1 = Some i" using assign_id_effect(1) [OF _ A] ok ip by (auto simp: st_ok_def)
  obtain tid rel where out: "out = Inr (tid, rel)" using T1 net A by (auto split: sum.splits prod.splits)
  have T2: "(case assign_ips [] False st1 of
                None \<Rightarrow> None
              | Some (Inl e, st2) \<Rightarrow> Some (Inl e, noRollback\<lparr>rb_releaseID := rel\<rparr>, st2)
              | Some (Inr (ips2, releaseIPs, gaveUp), st2) \<Rightarrow>
                  (case finish_annotation cfg sha256 rnd ni pod network nadName True (DoesNetworkRequireTunnelIDs cfg ni) noPodAnnotation
                          (noPodAnnotation\<lparr>pan_IPs := ips2, pan_MAC := [], pan_TunnelID := tid\<rparr>) of
                     None \<Rightarrow> None
                   | Some res \<Rightarrow> Some (res, noRollback\<lparr>rb_releaseID := rel, rb_releaseIPs := releaseIPs\<rparr>, st2)))
             = Some (Inr (p, a), rb, st')"
    using T1 net A out ipam by (simp cong: option.case_cong sum.case_cong prod.case_cong)
  obtain out2 a2 where N: "AllocateNextIPs (ia_name i) (ia_allocator i) = (out2, a2)" by fastforce
  obtain ns where ns: "out2 = Inr ns"
    using T2 N ip1 by (cases out2) (auto simp: assign_ips_def next_ips_def named_AllocateNextIPs_def)
  have F: "finish_annotation cfg sha256 rnd ni pod network nadName True (DoesNetworkRequireTunnelIDs cfg ni) noPodAnnotation
             (noPodAnnotation\<lparr>pan_IPs := ns, pan_MAC := [], pan_TunnelID := tid\<rparr>) = Some (Inr (p, a))"
    and st': "st' = st1\<lparr>as_ip := Some (i\<lparr>ia_allocator := a2\<rparr>)\<rparr>"
    using T2 N ns ip1 by (auto simp: assign_ips_def next_ips_def named_AllocateNextIPs_def split: option.splits)
  show ?thesis using finish_annotation_result [OF F] N ns st' by simp
qed


text \<open>C25: A pod that has no annotation for the network, and no request for addresses, gets fresh addresses
  on a network with IPAM: one in each subnet of the network, with the mask of the subnet, which nobody held
  before and which is held afterwards; the annotation written to the pod is the encoding of the annotation
  returned.\<close>

theorem pod_gets_fresh_addresses:
  assumes "allocatePodAnnotationWithRollback cfg sha256 rnd ni pod network reallocateIP st = Some (Inr (p, a, rb), st')"
    and "st_ok st" and "as_ip st = Some i" and "cache (ia_allocator i) (ia_name i) = Some si" "si_ipams si \<noteq> []"
    and "DoesNetworkRequireIPAM ni" and "pred_option (\<lambda>nw. nse_IPRequest nw = []) network"
    and "nadName = (case network of Some nw \<Rightarrow> if ni_secondary ni then GetNADName (nse_Namespace nw) (nse_Name nw) else DefaultNetworkName
                          | None \<Rightarrow> DefaultNetworkName)"
    and "UnmarshalPodAnnotation (pod_docs pod) nadName = Inl err"
  shows "length (pan_IPs a) = length (si_subnets si)
    \<and> (\<exists>i' si'. as_ip st' = Some i' \<and> cache (ia_allocator i') (ia_name i) = Some si' \<and>
        (\<forall>k<length (pan_IPs a). Mask (pan_IPs a ! k) = Mask (si_subnets si ! k)
              \<and> IPNet_Contains (si_subnets si ! k) (IP (pan_IPs a ! k))
              \<and> IP (pan_IPs a ! k) \<notin> range_held (si_ipams si ! k)
              \<and> range_held (si_ipams si' ! k) = insert (IP (pan_IPs a ! k)) (range_held (si_ipams si ! k))))
    \<and> (\<exists>docs. MarshalPodAnnotation (pod_docs pod) a nadName = Inr docs \<and> p = Some (pod\<lparr>pod_docs := docs\<rparr>))"
proof -
  obtain a2 where N: "AllocateNextIPs (ia_name i) (ia_allocator i) = (Inr (pan_IPs a), a2)"
    and st': "as_ip st' = Some (i\<lparr>ia_allocator := a2\<rparr>)"
    and M: "\<exists>docs. MarshalPodAnnotation (pod_docs pod) a nadName = Inr docs \<and> p = Some (pod\<lparr>pod_docs := docs\<rparr>)"
    using allocate_fresh [OF assms(1-3,6-9)] by blast
  have "ipam_wf (ia_allocator i)" using assms(2,3) by (simp add: st_ok_def ip_side_ok_def)
  from AllocateNextIPs_effect [OF this assms(4,5), unfolded N prod.case sum.case]
  obtain si' where "cache a2 = (cache (ia_allocator i))(ia_name i \<mapsto> si')" "length (pan_IPs a) = length (si_subnets si)"
    "\<forall>k<length (pan_IPs a). Mask (pan_IPs a ! k) = Mask (si_subnets si ! k)
              \<and> IPNet_Contains (si_subnets si ! k) (IP (pan_IPs a ! k))
              \<and> IP (pan_IPs a ! k) \<notin> range_held (si_ipams si ! k)
              \<and> range_held (si_ipams si' ! k) = insert (IP (pan_IPs a ! k)) (range_held (si_ipams si ! k))"
    by blast
  then show ?thesis using st' M by auto
qed

section \<open>Tunnel ids over the life of the allocator\<close>

lemma id_undone_ok: "id_side_ok n \<Longrightarrow> id_undone n rel n1 \<Longrightarrow> id_side_ok n1 \<and> na_name n1 = na_name n"
  by (auto simp: id_undone_def id_side_ok_def id_kept_def split: if_splits)

text \<open>The part of the state that the tunnel ids rest on.\<close>

definition ids_ok :: "string option \<Rightarrow> alloc_state \<Rightarrow> bool" where
  "ids_ok nm st \<longleftrightarrow> map_option na_name (as_id st) = nm \<and> pred_option id_side_ok (as_id st)"

lemma assign_id_ids_ok: "ids_ok nm st \<Longrightarrow> assign_id cfg ni t st = Some (res, st1) \<Longrightarrow> ids_ok nm st1"
  using assign_id_effect(2) [of st cfg ni t res st1]
  by (auto simp: ids_ok_def elim!: option.rel_cases dest: id_undone_ok)

lemma assign_ips_as_id: "assign_ips ips realloc st = Some (res, st1) \<Longrightarrow> as_id st1 = as_id st"
  by (auto simp: assign_ips_def next_ips_def Let_def split: option.splits prod.splits sum.splits if_splits)

lemma allocate_tentative_ids_ok:
  assumes ok: "ids_ok nm st" and run: "allocate_tentative cfg sha256 rnd ni pod network reallocateIP st = Some (res, rb, st')"
  shows "ids_ok nm st'"
proof -
  define nadName where "nadName = (if ni_secondary ni then GetNADName (nse_Namespace (the network)) (nse_Name (the network)) else DefaultNetworkName)"
  define existing where "existing = (case UnmarshalPodAnnotation (pod_docs pod) nadName of Inl _ \<Rightarrow> noPodAnnotation | Inr a \<Rightarrow> a)"
  note R = run [unfolded allocate_tentative_def Let_def nadName_def [symmetric] existing_def [symmetric]]
  obtain out s1 where A: "assign_id cfg ni (pan_TunnelID existing) st = Some (out, s1)"
    using R by (auto split: if_splits option.splits)
  have s1: "ids_ok nm s1" by (rule assign_id_ids_ok [OF ok A])
  have "as_id st' = as_id s1"
    using R A by (auto split: if_splits option.splits sum.splits prod.splits dest: assign_ips_as_id)
  then show ?thesis using s1 by (simp add: ids_ok_def)
qed

lemma pod_rollback_ids_ok:
  assumes ok: "ids_ok nm st" and run: "pod_rollback rb st = Some st'"
  shows "ids_ok nm st'"
proof -
  obtain s where s: "(if rb_releaseID rb \<noteq> 0 then release_id st else Some st) = Some s"
    and fin: "(if rb_releaseIPs rb = [] then Some s else release_ips (rb_releaseIPs rb) s) = Some st'"
    using run by (auto simp: pod_rollback_def split: option.splits)
  have "ids_ok nm s"
  proof (cases "rb_releaseID rb = 0")
    case True
    then show ?thesis using s ok by simp
  next
    case False
    then obtain n a where n: "as_id st = Some n" "named_ReleaseID n = Some a" "s = st\<lparr>as_id := Some (n\<lparr>na_allocator := a\<rparr>)\<rparr>"
      using s by (auto simp: release_id_def split: option.splits)
    then have nok: "id_side_ok n" using ok by (simp add: ids_ok_def)
    obtain a' where "ReleaseID (na_name n) (na_allocator n) = Some a'" "id_wf a'"
      "nameIdMap a' = (nameIdMap (na_allocator n))(na_name n := None)"
      using ReleaseID_eff [of "na_allocator n" "na_name n"] nok by (auto simp: id_side_ok_def)
    then show ?thesis using n nok ok by (auto simp: named_ReleaseID_def ids_ok_def id_side_ok_def)
  qed
  moreover have "as_id st' = as_id s" using fin by (auto simp: release_ips_def split: if_splits option.splits)
  ultimately show ?thesis by (simp add: ids_ok_def)
qed


lemma allocate_rollback_ids_ok:
  assumes "ids_ok nm st" "allocatePodAnnotationWithRollback cfg sha256 rnd ni pod network reallocateIP st = Some (res, st')"
  shows "ids_ok nm st'"
proof -
  obtain r rb st1 where T: "allocate_tentative cfg sha256 rnd ni pod network reallocateIP st = Some (r, rb, st1)"
    and fin: "st' = st1 \<or> pod_rollback rb st1 = Some st'"
    using assms(2) by (auto simp: allocatePodAnnotationWithRollback_def split: option.splits prod.splits sum.splits)
  then show ?thesis using allocate_tentative_ids_ok [OF assms(1) T] pod_rollback_ids_ok by blast
qed

lemma UpdatePodWithRetryOrRollback_ids_ok:
  assumes alloc: "\<And>rnd pod st res st'. ids_ok nm st \<Longrightarrow> allocate rnd pod st = Some (res, st') \<Longrightarrow> ids_ok nm st'"
  shows "ids_ok nm st \<Longrightarrow> UpdatePodWithRetryOrRollback k allocate attempts st = Some (res, st') \<Longrightarrow> ids_ok nm st'"
proof (induction k arbitrary: attempts st)
  case (Suc k)
  show ?case
  proof (cases attempts)
    case (Cons x rest)
    obtain cached rnd outcome where x: "x = (cached, rnd, outcome)" using prod_cases3 by blast
    note run = Suc.prems(2) [unfolded Cons x UpdatePodWithRetryOrRollback.simps(3)]
    show ?thesis
    proof (cases cached)
      case (Some pod)
      then obtain r st1 where A: "allocate rnd pod st = Some (r, st1)"
        using run by (cases "allocate rnd pod st") auto
      then have st1: "ids_ok nm st1" using alloc [OF Suc.prems(1)] by blast
      have "st' = st1 \<or> (\<exists>rb st2. pod_rollback rb st1 = Some st2 \<and>
          (st' = st2 \<or> UpdatePodWithRetryOrRollback k allocate rest st2 = Some (res, st')))"
        using run Some A by (auto split: sum.splits prod.splits option.splits api_outcome.splits bind_splits)
      then show ?thesis using Suc.IH st1 pod_rollback_ids_ok by blast
    qed (use run Suc.prems in auto)
  qed (use Suc.prems in auto)
qed auto

lemma podIdAllocationName_zero: "podIdAllocationName nad uid \<noteq> ''zero''"
proof
  assume "podIdAllocationName nad uid = ''zero''"
  then have "CHR ''/'' \<in> set ''zero''" by (metis podIdAllocationName_def append_Cons in_set_conv_decomp)
  then show False by simp
qed

text \<open>What holds of the ids of a pod allocator.\<close>

definition pal_ids_ok :: "PodAllocator \<Rightarrow> bool" where
  "pal_ids_ok pa \<longleftrightarrow> pred_option (\<lambda>a. id_wf a \<and> nameIdMap a ''zero'' = Some 0) (pal_id pa)"

lemma allocatePodOnNAD_frame:
  assumes "allocatePodOnNAD cfg sha256 pod nad network attempts pa = Some (res, pa')"
  shows "pal_netInfo pa' = pal_netInfo pa \<and> pal_released pa' = pal_released pa"
  using assms by (auto simp: allocatePodOnNAD_def Let_def split: if_splits option.splits prod.splits)


lemma allocate_pod_ids_ok:
  assumes "ids_ok nm st" "allocatePodAnnotationWithTunnelID cfg sha256 ni network reallocateIP attempts st = Some (res, st')"
  shows "ids_ok nm st'"
  using assms unfolding allocatePodAnnotationWithTunnelID_def
  by (rule UpdatePodWithRetryOrRollback_ids_ok [rotated]) (blast intro: allocate_rollback_ids_ok)

lemma allocatePodOnNAD_ids_ok:
  assumes ok: "pal_ids_ok pa" and run: "allocatePodOnNAD cfg sha256 pod nad network attempts pa = Some (res, pa')"
  shows "pal_ids_ok pa'"
proof (cases "DoesNetworkRequireTunnelIDs cfg (pal_netInfo pa)")
  case True
  let ?nm = "podIdAllocationName nad (pod_UID pod)"
  obtain a where a: "pal_id pa = Some a" using run True by (auto simp: allocatePodOnNAD_def split: if_splits)
  define ip where "ip = (if DoesNetworkRequireIPAM (pal_netInfo pa)
      then Some (ForSubnet (ni_name (pal_netInfo pa)) (the (pal_ip pa))) else None)"
  let ?st = "\<lparr>as_ip = ip, as_id = Some (ForName ?nm a)\<rparr>"
  obtain r st where A: "allocatePodAnnotationWithTunnelID cfg sha256 (pal_netInfo pa) (Some network) False attempts ?st = Some (r, st)"
    and pa': "pal_id pa' = (case as_id st of Some n \<Rightarrow> Some (na_allocator n) | None \<Rightarrow> pal_id pa)"
    using run a True by (auto simp: allocatePodOnNAD_def Let_def ip_def split: if_splits option.splits)
  have "ids_ok (Some ?nm) ?st"
    using ok a podIdAllocationName_zero by (simp add: pal_ids_ok_def ids_ok_def id_side_ok_def ForName_def)
  then have "ids_ok (Some ?nm) st" using A by (rule allocate_pod_ids_ok)
  then show ?thesis using pa' by (auto simp: ids_ok_def pal_ids_ok_def id_side_ok_def)
next
  case False
  let ?st = "\<lambda>ip. \<lparr>as_ip = ip, as_id = None\<rparr>"
  define ip where "ip = (if DoesNetworkRequireIPAM (pal_netInfo pa)
      then Some (ForSubnet (ni_name (pal_netInfo pa)) (the (pal_ip pa))) else None)"
  obtain r st where A: "allocatePodAnnotationWithTunnelID cfg sha256 (pal_netInfo pa) (Some network) False attempts (?st ip) = Some (r, st)"
    and pa': "pal_id pa' = (case as_id st of Some n \<Rightarrow> Some (na_allocator n) | None \<Rightarrow> pal_id pa)"
    using run False by (auto simp: allocatePodOnNAD_def Let_def ip_def split: if_splits option.splits)
  have "ids_ok None (?st ip)" by (simp add: ids_ok_def)
  then have "ids_ok None st" using A by (rule allocate_pod_ids_ok)
  then show ?thesis using pa' ok by (simp add: ids_ok_def pal_ids_ok_def)
qed

lemma track_fields [simp]:
  "pal_ip (addReleasedPod nad uid pa) = pal_ip pa" "pal_id (addReleasedPod nad uid pa) = pal_id pa"
  "pal_netInfo (addReleasedPod nad uid pa) = pal_netInfo pa"
  "pal_ip (deleteReleasedPod nad uid pa) = pal_ip pa" "pal_id (deleteReleasedPod nad uid pa) = pal_id pa"
  "pal_netInfo (deleteReleasedPod nad uid pa) = pal_netInfo pa"
  by (auto simp: addReleasedPod_def deleteReleasedPod_def split: option.splits)

lemma release_tunnel_id_ids_ok:
  assumes "pal_ids_ok pa" "release_tunnel_id (podIdAllocationName nad uid) pa = Some pa'"
  shows "pal_ids_ok pa'"
proof -
  obtain a a' where a: "pal_id pa = Some a" "ReleaseID (podIdAllocationName nad uid) a = Some a'" "pa' = pa\<lparr>pal_id := Some a'\<rparr>"
    using assms(2) by (auto simp: release_tunnel_id_def bind_eq_Some_conv)
  then show ?thesis
    using assms(1) ReleaseID_eff [of a "podIdAllocationName nad uid"] podIdAllocationName_zero [of nad uid]
    by (auto simp: pal_ids_ok_def)
qed

lemma releasePodOnNAD_ids_ok:
  assumes ok: "pal_ids_ok pa" and run: "releasePodOnNAD cfg pod nad del rel pa = Some (res, pa')"
  shows "pal_ids_ok pa'"
proof -
  have "pal_id pa' = pal_id pa \<or>
      (\<exists>pa1. release_tunnel_id (podIdAllocationName nad (pod_UID pod)) pa = Some pa1 \<and> pal_id pa' = pal_id pa1)"
    using run unfolding releasePodOnNAD_def Let_def
    by (auto split: if_splits option.splits prod.splits sum.splits)
  then show ?thesis using ok release_tunnel_id_ids_ok by (auto simp: pal_ids_ok_def)
qed


lemma reconcileForNAD_ids_ok:
  assumes "pal_ids_ok pa" "reconcileForNAD cfg sha256 old new nad network rel attempts pa = Some (res, pa')"
  shows "pal_ids_ok pa'"
  using assms
  by (auto simp: reconcileForNAD_def dest: allocatePodOnNAD_ids_ok releasePodOnNAD_ids_ok split: option.splits if_splits)

lemma reconcile_nads_ids_ok:
  "pal_ids_ok pa \<Longrightarrow> reconcile_nads cfg sha256 old new rel attempts m pa = Some (res, pa') \<Longrightarrow> pal_ids_ok pa'"
proof (induction m arbitrary: pa)
  case (Cons x m)
  obtain nad network where x: "x = (nad, network)" by fastforce
  obtain r pa1 where R: "reconcileForNAD cfg sha256 old new nad network rel (attempts nad) pa = Some (r, pa1)"
    using Cons.prems(2) x by (auto split: option.splits)
  have "pal_ids_ok pa1" by (rule reconcileForNAD_ids_ok [OF Cons.prems(1) R])
  then show ?case using Cons.IH Cons.prems(2) x R by (cases r) auto
qed simp

lemma pal_reconcile_ids_ok:
  assumes "pal_ids_ok pa" "pal_reconcile cfg sha256 order old new rel attempts pa = Some (res, pa')"
  shows "pal_ids_ok pa'"
  using assms by (auto simp: pal_reconcile_def dest: reconcile_nads_ids_ok split: option.splits if_splits sum.splits prod.splits)

lemma pal_Sync_ids_ok:
  "pal_ids_ok pa \<Longrightarrow> pal_Sync cfg sha256 order attempts objs pa = Some pa' \<Longrightarrow> pal_ids_ok pa'"
  by (induction cfg sha256 order attempts objs pa rule: pal_Sync.induct)
    (auto split: option.splits dest: pal_reconcile_ids_ok)

lemma pal_Init_ids_ok:
  assumes "pal_Init cfg (NewPodAllocator ni) = Some (Inr pa)"
  shows "pal_ids_ok pa"
proof -
  obtain pa1 where I: "init_ids cfg (NewPodAllocator ni) = Some (Inr pa1)" and pa: "pal_id pa = pal_id pa1"
    using assms by (auto simp: pal_Init_def split: option.splits sum.splits if_splits prod.splits)
  have "pal_ids_ok pa1"
  proof (cases "DoesNetworkRequireTunnelIDs cfg ni")
    case True
    then obtain u a where R: "ReserveID ''zero'' 0 (NewIDAllocator (ni_name ni) MaxLogicalPortTunnelKey) = Some (Inr u, a)"
      and pa1: "pal_id pa1 = Some a"
      using I by (auto simp: init_ids_def NewPodAllocator_def split: option.splits prod.splits sum.splits)
    have "nameIdMap a ''zero'' = Some 0"
      using R by (auto simp: ReserveID_def split: option.splits if_splits prod.splits bool.splits)
    then show ?thesis using pa1 id_wf_ReserveID [OF id_wf_New R] by (simp add: pal_ids_ok_def)
  next
    case False
    then show ?thesis using I by (auto simp: init_ids_def NewPodAllocator_def pal_ids_ok_def)
  qed
  then show ?thesis using pa by (simp add: pal_ids_ok_def)
qed

text \<open>The allocators the cluster manager can have: initialised, then given any sequence of pod events and
  synchronisations, each of which may fail.\<close>

inductive pal_reach :: "pod_config \<Rightarrow> (byte list \<Rightarrow> byte list) \<Rightarrow> PodAllocator \<Rightarrow> bool" for cfg sha256 where
  init: "pal_Init cfg (NewPodAllocator ni) = Some (Inr pa) \<Longrightarrow> pal_reach cfg sha256 pa"
| event: "pal_reach cfg sha256 pa \<Longrightarrow> pal_Reconcile cfg sha256 order old new attempts pa = Some (res, pa') \<Longrightarrow> pal_reach cfg sha256 pa'"
| sync: "pal_reach cfg sha256 pa \<Longrightarrow> pal_Sync cfg sha256 order syncAttempts objs pa = Some pa' \<Longrightarrow> pal_reach cfg sha256 pa'"

lemma pal_reach_ids_ok: "pal_reach cfg sha256 pa \<Longrightarrow> pal_ids_ok pa"
  by (induction rule: pal_reach.induct)
    (auto simp: pal_Reconcile_def intro: pal_Init_ids_ok pal_reconcile_ids_ok pal_Sync_ids_ok)

text \<open>C16: In every state the cluster manager's pod allocator can reach, over any sequence of pod events,
  failed ones included, no two attachments share a tunnel id, none has the id 0, and an id is marked as used
  exactly when a name holds it.\<close>

theorem pod_tunnel_ids_unique:
  assumes "pal_reach cfg sha256 pa" and "pal_id pa = Some a"
  shows "(\<forall>n m i. nameIdMap a n = Some i \<longrightarrow> nameIdMap a m = Some i \<longrightarrow> n = m)
    \<and> nameIdMap a (podIdAllocationName nad uid) \<noteq> Some 0
    \<and> int ` bm_bits (idBitmap a) = ran (nameIdMap a)"
proof -
  have wf: "id_wf a" and z: "nameIdMap a ''zero'' = Some 0"
    using pal_reach_ids_ok [OF assms(1)] assms(2) by (auto simp: pal_ids_ok_def)
  have u: "\<forall>n m i. nameIdMap a n = Some i \<longrightarrow> nameIdMap a m = Some i \<longrightarrow> n = m"
    using wf by (auto simp: id_wf_def inj_on_def dom_def)
  moreover have "nameIdMap a (podIdAllocationName nad uid) \<noteq> Some 0"
    using u z podIdAllocationName_zero [of nad uid] by blast
  ultimately show ?thesis using wf by (simp add: id_wf_def)
qed

section \<open>Releasing a pod once\<close>

lemma isPodReleased_simps [simp]:
  "isPodReleased nad uid (addReleasedPod nad uid pa)"
  "\<not> isPodReleased nad uid (deleteReleasedPod nad uid pa)"
  "nad' \<noteq> nad \<or> uid' \<noteq> uid \<Longrightarrow> isPodReleased nad' uid' (addReleasedPod nad uid pa) = isPodReleased nad' uid' pa"
  "nad' \<noteq> nad \<or> uid' \<noteq> uid \<Longrightarrow> isPodReleased nad' uid' (deleteReleasedPod nad uid pa) = isPodReleased nad' uid' pa"
  by (auto simp: isPodReleased_def addReleasedPod_def deleteReleasedPod_def split: option.splits)

lemma releasePodOnNAD_tracks:
  assumes "releasePodOnNAD cfg pod nad False rel pa = Some (Inr (), pa1)"
    and "DoesNetworkRequireIPAM (pal_netInfo pa) \<or> DoesNetworkRequireTunnelIDs cfg (pal_netInfo pa)"
  shows "isPodReleased nad (pod_UID pod) pa1"
  using assms by (auto simp: releasePodOnNAD_def Let_def split: if_splits option.splits prod.splits sum.splits)



section \<open>Concrete runs\<close>

definition example_podnet :: podNetInfo where
  "example_podnet = \<lparr>ni_name = ''s'', ni_secondary = True, ni_topology = ''layer2'', ni_subnets = [(example_net, 29)],
     ni_ipMode = (True, False), ni_excludeSubnets = [], ni_nads = {''ns/s''}\<rparr>"

definition example_podcfg :: pod_config where
  "example_podcfg = \<lparr>pc_EnableInterconnect = True, pc_ClusterSubnets = [], pc_ServiceCIDRs = [],
     pc_V4JoinSubnet = ''100.64.0.0/16'', pc_V6JoinSubnet = ''fd98::/64''\<rparr>"

definition example_nse :: NetworkSelectionElement where
  "example_nse = \<lparr>nse_Namespace = ''ns'', nse_Name = ''s'', nse_IPRequest = [], nse_MacRequest = [], nse_GatewayRequest = []\<rparr>"

definition example_pod :: Pod where
  "example_pod = \<lparr>pod_Namespace = ''ns'', pod_Name = ''p'', pod_UID = ''u'', pod_NodeName = ''n'', pod_HostNetwork = False,
     pod_Phase = ''Running'', pod_PodIPs = [], pod_PodIP = [], pod_docs = Map.empty,
     pod_networks = Selections [example_nse], pod_defaultNetwork = NoSelections\<rparr>"

text \<open>The allocators of the pod: the addresses of one subnet, and a small id space with the id 0 taken.\<close>

definition example_ids :: idAllocator where
  "example_ids = snd (AllocateID ''zero'' (NewIDAllocator ''n'' 4))"

definition example_st :: alloc_state where
  "example_st = \<lparr>as_ip = Some (ForSubnet ''s'' example_alloc), as_id = Some (ForName ''ns/s/u'' example_ids)\<rparr>"

lemma nets_disjoint_single [simp]: "nets_disjoint [n]"
  by (simp add: nets_disjoint_def)

lemma example_st_ok: "st_ok example_st"
proof -
  have "nameIdMap example_ids ''zero'' = Some 0" by code_simp
  moreover have "id_wf example_ids"
    unfolding example_ids_def by (rule id_wf_AllocateID [OF id_wf_New prod.collapse [symmetric]])
  moreover have "ipam_view example_alloc ''s'' = Some (ss, hs) \<Longrightarrow> ss = [example_net]" for ss hs
    by (simp add: ipam_view_def example_alloc_def)
  ultimately show ?thesis
    using example_alloc_wf(1)
    by (auto simp: st_ok_def example_st_def ip_side_ok_def id_side_ok_def ForSubnet_def ForName_def)
qed

theorem failed_pod_allocation_leaves_nothing_witness:
  "\<exists>i'. as_ip (snd (the (allocatePodAnnotationWithTunnelID example_podcfg id example_podnet (Some example_nse) False
       [(Some example_pod, [], ApiConflict), (Some example_pod, [], ApiError)] example_st))) = Some i'
     \<and> ipam_view (ia_allocator i') = ipam_view example_alloc"
proof -
  let ?r = "allocatePodAnnotationWithTunnelID example_podcfg id example_podnet (Some example_nse) False
       [(Some example_pod, [], ApiConflict), (Some example_pod, [], ApiError)] example_st"
  have "case ?r of Some (Inl PodUpdateFailed, _) \<Rightarrow> True | _ \<Rightarrow> False" by code_simp
  then obtain st' where r: "?r = Some (Inl PodUpdateFailed, st')"
    by (cases ?r) (auto split: sum.splits alloc_error.splits)
  show ?thesis
    using failed_pod_allocation_leaves_nothing [OF example_st_ok r] r
    by (auto simp: example_st_def ForSubnet_def elim!: option.rel_cases)
qed

theorem pod_gets_fresh_addresses_witness:
  "length (pan_IPs (fst (snd (projr (fst (the (allocatePodAnnotationWithRollback example_podcfg id [] example_podnet example_pod
     (Some example_nse) False example_st))))))) = 1"
proof -
  let ?r = "allocatePodAnnotationWithRollback example_podcfg id [] example_podnet example_pod (Some example_nse) False example_st"
  have "map_option (\<lambda>(r, _). case r of Inl _ \<Rightarrow> False | Inr _ \<Rightarrow> True) ?r = Some True" by code_simp
  then obtain p a rb st' where r: "?r = Some (Inr (p, a, rb), st')"
    by (cases ?r) (auto split: sum.splits)
  have "case UnmarshalPodAnnotation (pod_docs example_pod) ''ns/s'' of Inl e \<Rightarrow> True | Inr _ \<Rightarrow> False" by code_simp
  then obtain e where e: "UnmarshalPodAnnotation (pod_docs example_pod) ''ns/s'' = Inl e" by (auto split: sum.splits)
  let ?i = "ForSubnet ''s'' example_alloc"
    and ?si = "\<lparr>si_subnets = [example_net], si_ipams = [newIPAMAllocator example_net]\<rparr>"
  have ip: "as_ip example_st = Some ?i" by (simp add: example_st_def)
  have si: "cache (ia_allocator ?i) (ia_name ?i) = Some ?si" "si_ipams ?si \<noteq> []"
    by (simp_all add: ForSubnet_def example_alloc_def)
  have ipam: "DoesNetworkRequireIPAM example_podnet" by code_simp
  have nse: "pred_option (\<lambda>nw. nse_IPRequest nw = []) (Some example_nse)" by (simp add: example_nse_def)
  have nad: "''ns/s'' = (case Some example_nse of Some nw \<Rightarrow> if ni_secondary example_podnet
      then GetNADName (nse_Namespace nw) (nse_Name nw) else DefaultNetworkName | None \<Rightarrow> DefaultNetworkName)"
    by (simp add: example_nse_def example_podnet_def GetNADName_def)
  have "length (pan_IPs a) = length (si_subnets ?si)"
    by (rule conjunct1 [OF pod_gets_fresh_addresses [OF r example_st_ok ip si ipam nse nad e]])
  then show ?thesis using r by simp
qed

definition example_pal :: PodAllocator where
  "example_pal = projr (the (pal_Init example_podcfg (NewPodAllocator example_podnet)))"

theorem pod_tunnel_ids_unique_witness:
  "nameIdMap (the (pal_id example_pal)) (podIdAllocationName ''ns/s'' ''u'') \<noteq> Some 0"
proof -
  have "(case pal_Init example_podcfg (NewPodAllocator example_podnet) of
           Some (Inr pa) \<Rightarrow> pal_id pa \<noteq> None | _ \<Rightarrow> False)" by code_simp
  then obtain pa a where pa: "pal_Init example_podcfg (NewPodAllocator example_podnet) = Some (Inr pa)" "pal_id pa = Some a"
    by (auto split: option.splits sum.splits)
  show ?thesis
    using pod_tunnel_ids_unique [OF pal_reach.init [OF pa(1), of id] pa(2), of "''ns/s''" "''u''"] pa
    by (simp add: example_pal_def)
qed



subsection \<open>Behaviour at the edges\<close>

definition annotated :: "PodAnnotation \<Rightarrow> Pod \<Rightarrow> Pod" where
  "annotated a pod = pod\<lparr>pod_docs := projr (MarshalPodAnnotation (pod_docs pod) a ''ns/s'')\<rparr>"

definition example_annotation :: PodAnnotation where
  "example_annotation = noPodAnnotation\<lparr>pan_IPs := [\<lparr>IP = [10, 1, 2, 3], Mask = [0xff, 0xff, 0xff, 0xf8]\<rparr>],
     pan_MAC := [10, 88, 10, 1, 2, 3], pan_Gateways := [[10, 1, 2, 1]]\<rparr>"

text \<open>A pod that has its addresses but no tunnel id yet: the update that adds the id drops the gateways of
  the annotation.\<close>

lemma tunnel_id_update_drops_gateways:
  "case allocatePodAnnotationWithRollback example_podcfg id [] example_podnet (annotated example_annotation example_pod)
          (Some example_nse) False example_st of
     Some (Inr (Some pod, a, _), _) \<Rightarrow> pan_TunnelID a = 1 \<and> map IPNet_String (pan_IPs a) = [''10.1.2.3/29''] \<and> pan_Gateways a = []
       \<and> (case UnmarshalPodAnnotation (pod_docs pod) ''ns/s'' of Inr b \<Rightarrow> pan_Gateways b = [] | _ \<Rightarrow> False)
   | _ \<Rightarrow> False"
  by code_simp

text \<open>A pod whose annotation has the tunnel id 2, which its name holds: when the request is refused, the
  rollback releases the id although the annotation keeps it.\<close>

lemma refused_pod_loses_annotated_id:
  "case ReserveID ''ns/s/u'' 2 example_ids of
     Some (Inr _, ids) \<Rightarrow>
       (case allocatePodAnnotationWithRollback example_podcfg id [] example_podnet
               (annotated (example_annotation\<lparr>pan_TunnelID := 2\<rparr>) example_pod)
               (Some (example_nse\<lparr>nse_IPRequest := [''10.1.2.3/29'']\<rparr>)) False
               (example_st\<lparr>as_id := Some (ForName ''ns/s/u'' ids)\<rparr>) of
          Some (Inl StaticWithIPAM, st) \<Rightarrow>
            nameIdMap ids ''ns/s/u'' = Some 2 \<and> nameIdMap (na_allocator (the (as_id st))) ''ns/s/u'' = None
        | _ \<Rightarrow> False)
   | _ \<Rightarrow> False"
  by code_simp

text \<open>A requested address that another pod holds is accepted when reallocation is allowed, and no other
  address is allocated: two pods have the address.\<close>

lemma requested_address_shared:
  "case AllocateIPs ''s'' [\<lparr>IP = [10, 1, 2, 3], Mask = [0xff, 0xff, 0xff, 0xf8]\<rparr>] example_alloc of
     (Inr _, alloc) \<Rightarrow>
       (case allocatePodAnnotationWithRollback example_podcfg id [] example_podnet example_pod
               (Some (example_nse\<lparr>nse_IPRequest := [''10.1.2.3/29'']\<rparr>)) True
               (example_st\<lparr>as_ip := Some (ForSubnet ''s'' alloc)\<rparr>) of
          Some (Inr (_, a, rb), _) \<Rightarrow> map (\<lambda>n. IP_String (IP n)) (pan_IPs a) = [''10.1.2.3''] \<and> rb_releaseIPs rb = []
        | _ \<Rightarrow> False)
   | _ \<Rightarrow> False"
  by code_simp

end
