(* ===== verification/Service_LB.thy ===== *)
theory Service_LB
  imports Pod_Annotation
begin

text \<open>
  The load balancers of services: the endpoints of a service port (\<open>pkg/util/kube.go\<close>), the abstract
  configurations and their expansion to OVN load balancers
  (\<open>pkg/ovn/controller/services/lb_config.go\<close>), template variables (\<open>svc_template_var.go\<close>) and the part of
  \<open>loadbalancer.go\<close> and \<open>node_tracker.go\<close> that these use.

  Ports are integers, protocols and address families strings. A map from chassis to a value is an
  association list in the order of insertion; the templates that the code compares are filled in the same
  order. The configuration of the process, the clock and the parser of RFC 3339 times are the record
  \<open>svc_config\<close>. Reading a nil pointer of an endpoint slice is \<open>None\<close>.
\<close>

section \<open>Services, endpoint slices and nodes\<close>

record svcPort =
  sp_Name :: string
  sp_Protocol :: string
  sp_Port :: int
  sp_NodePort :: int

record Service =
  svc_Namespace :: string
  svc_Name :: string
  svc_Type :: string
  svc_Ports :: "svcPort list"
  svc_ClusterIP :: string
  svc_ClusterIPs :: "string list"
  svc_ExternalIPs :: "string list"
  svc_Ingress :: "string list"
  svc_ExternalTrafficPolicy :: string
  svc_InternalTrafficPolicy :: "string option"
  svc_SessionAffinity :: string
  svc_TimeoutSeconds :: "int option"
  svc_PublishNotReady :: bool
  svc_Annotations :: "(string \<times> string) list"

record Endpoint =
  ep_Addresses :: "string list"
  ep_Ready :: "bool option"
  ep_Serving :: "bool option"

record slicePort =
  pt_Name :: "string option"
  pt_Protocol :: "string option"
  pt_Port :: "int option"

record EndpointSlice =
  es_AddressType :: string
  es_Ports :: "slicePort list"
  es_Endpoints :: "Endpoint list"

record svc_config =
  sc_ClusterSubnets :: "ipnet list"
  sc_ServiceCIDRs :: "ipnet list"
  sc_V4HostMasqueradeIP :: ip
  sc_V6HostMasqueradeIP :: ip
  sc_V4HostETPLocalMasqueradeIP :: ip
  sc_V4Hairpin :: ip
  sc_V6Hairpin :: ip
  sc_OVNEmptyLbEvents :: bool
  sc_now :: int
  sc_parseTime :: "string \<Rightarrow> int option"

definition HasSuffix :: "string \<Rightarrow> string \<Rightarrow> bool" where
  "HasSuffix s t \<longleftrightarrow> length t \<le> length s \<and> drop (length s - length t) s = t"

definition IsClusterIPSet :: "Service \<Rightarrow> bool" where
  "IsClusterIPSet s \<longleftrightarrow> svc_ClusterIP s \<noteq> ''None'' \<and> svc_ClusterIP s \<noteq> []"

definition GetClusterIPs :: "Service \<Rightarrow> string list" where
  "GetClusterIPs s =
     (if length (svc_ClusterIPs s) > 0 then map (\<lambda>x. IP_String (ParseIPSloppy x)) (svc_ClusterIPs s)
      else if length (svc_ClusterIP s) > 0 \<and> svc_ClusterIP s \<noteq> ''None'' then [IP_String (ParseIPSloppy (svc_ClusterIP s))]
      else [])"

definition ServiceTypeHasClusterIP :: "Service \<Rightarrow> bool" where
  "ServiceTypeHasClusterIP s \<longleftrightarrow> svc_Type s = ''ClusterIP'' \<or> svc_Type s = ''NodePort'' \<or> svc_Type s = ''LoadBalancer''"

definition ServiceTypeHasLoadBalancer :: "Service \<Rightarrow> bool" where
  "ServiceTypeHasLoadBalancer s \<longleftrightarrow> svc_Type s = ''LoadBalancer''"

text \<open>The addresses that parse, in canonical form.\<close>

definition parsed_ips :: "string list \<Rightarrow> string list" where
  "parsed_ips xs = map (\<lambda>x. IP_String (ParseIPSloppy x)) (filter (\<lambda>x. ParseIPSloppy x \<noteq> []) xs)"

definition GetExternalAndLBIPs :: "Service \<Rightarrow> string list" where
  "GetExternalAndLBIPs s =
     parsed_ips (svc_ExternalIPs s)
     @ (if ServiceTypeHasLoadBalancer s then parsed_ips (filter (\<lambda>x. length x > 0) (svc_Ingress s)) else [])"

subsection \<open>Idling\<close>

definition HasIdleAt :: "Service \<Rightarrow> bool" where
  "HasIdleAt s \<longleftrightarrow> (\<exists>(k, v) \<in> set (svc_Annotations s). HasSuffix k ''/idled-at'')"

definition getUnidleAt :: "Service \<Rightarrow> string option" where
  "getUnidleAt s = map_option snd (find (\<lambda>(k, v). HasSuffix k ''/unidled-at'') (svc_Annotations s))"

definition GracePeriodDuration :: int where
  "GracePeriodDuration = 30"

definition IsOnGracePeriod :: "svc_config \<Rightarrow> Service \<Rightarrow> bool" where
  "IsOnGracePeriod cfg s =
     (case getUnidleAt s of
        None \<Rightarrow> False
      | Some str \<Rightarrow>
          (case sc_parseTime cfg str of None \<Rightarrow> False | Some t \<Rightarrow> sc_now cfg < t + GracePeriodDuration))"

subsection \<open>Endpoints\<close>

definition IsEndpointReady :: "Endpoint \<Rightarrow> bool" where
  "IsEndpointReady e \<longleftrightarrow> (case ep_Ready e of None \<Rightarrow> True | Some b \<Rightarrow> b)"

definition IsEndpointServing :: "Endpoint \<Rightarrow> bool" where
  "IsEndpointServing e \<longleftrightarrow> (case ep_Serving e of Some b \<Rightarrow> b | None \<Rightarrow> IsEndpointReady e)"

definition IsEndpointEligible :: "Endpoint \<Rightarrow> bool \<Rightarrow> bool" where
  "IsEndpointEligible e includeTerminating \<longleftrightarrow> includeTerminating \<or> IsEndpointServing e"

definition eligible_addresses :: "EndpointSlice \<Rightarrow> Service option \<Rightarrow> string list" where
  "eligible_addresses sl service =
     concat (map ep_Addresses
       (filter (\<lambda>e. IsEndpointEligible e (case service of None \<Rightarrow> False | Some s \<Rightarrow> svc_PublishNotReady s)) (es_Endpoints sl)))"

record LbEndpoints =
  V4IPs :: "string list"
  V6IPs :: "string list"
  ep_Port :: int

definition no_endpoints :: LbEndpoints where
  "no_endpoints = \<lparr>V4IPs = [], V6IPs = [], ep_Port = 0\<rparr>"

text \<open>One port of a slice: the accumulated addresses of both families and the port.\<close>

definition slice_port ::
  "svcPort \<Rightarrow> Service option \<Rightarrow> EndpointSlice \<Rightarrow> slicePort \<Rightarrow> string list \<times> string list \<times> int \<Rightarrow> (string list \<times> string list \<times> int) option" where
  "slice_port svcPort service sl port acc =
     (if sp_Name svcPort \<noteq> [] \<and> pt_Name port = None then None
      else if sp_Name svcPort \<noteq> [] \<and> sp_Name svcPort \<noteq> the (pt_Name port) then Some acc
      else case pt_Protocol port of
          None \<Rightarrow> None
        | Some proto \<Rightarrow>
            if proto \<noteq> sp_Protocol svcPort then Some acc
            else case pt_Port port of
                None \<Rightarrow> None
              | Some p \<Rightarrow>
                  let ips = map (\<lambda>x. IP_String (ParseIPSloppy x)) (eligible_addresses sl service);
                      (v4, v6, _) = acc
                  in if es_AddressType sl = ''IPv4'' then Some (v4 @ ips, v6, p)
                     else if es_AddressType sl = ''IPv6'' then Some (v4, v6 @ ips, p)
                     else Some (v4, v6, p))"

fun slice_ports ::
  "svcPort \<Rightarrow> Service option \<Rightarrow> EndpointSlice \<Rightarrow> slicePort list \<Rightarrow> string list \<times> string list \<times> int \<Rightarrow> (string list \<times> string list \<times> int) option" where
  "slice_ports svcPort service sl [] acc = Some acc"
| "slice_ports svcPort service sl (p # ps) acc =
     Option.bind (slice_port svcPort service sl p acc) (slice_ports svcPort service sl ps)"

fun endpoint_slices ::
  "svcPort \<Rightarrow> Service option \<Rightarrow> EndpointSlice list \<Rightarrow> string list \<times> string list \<times> int \<Rightarrow> (string list \<times> string list \<times> int) option" where
  "endpoint_slices svcPort service [] acc = Some acc"
| "endpoint_slices svcPort service (sl # sls) acc =
     Option.bind (slice_ports svcPort service sl (es_Ports sl) acc) (endpoint_slices svcPort service sls)"

definition GetLbEndpoints :: "EndpointSlice list \<Rightarrow> svcPort \<Rightarrow> Service option \<Rightarrow> LbEndpoints option" where
  "GetLbEndpoints slices svcPort service =
     (if length slices = 0 then Some no_endpoints
      else map_option (\<lambda>(v4, v6, p). \<lparr>V4IPs = sort (remdups v4), V6IPs = sort (remdups v6), ep_Port = p\<rparr>)
             (endpoint_slices svcPort service slices ([], [], 0)))"

definition IsHostEndpoint :: "svc_config \<Rightarrow> string \<Rightarrow> bool" where
  "IsHostEndpoint cfg endpointIP \<longleftrightarrow> \<not> (\<exists>c \<in> set (sc_ClusterSubnets cfg). IPNet_Contains c (ParseIP endpointIP))"

definition hasHostEndpoints :: "svc_config \<Rightarrow> string list \<Rightarrow> bool" where
  "hasHostEndpoints cfg ips \<longleftrightarrow> list_ex (IsHostEndpoint cfg) ips"

section \<open>Load balancers\<close>

record Template =
  tm_Name :: string
  tm_Value :: "(string \<times> string) list"

record Addr =
  ad_IP :: string
  ad_Port :: int
  ad_Template :: "Template option"

record LBRule =
  lr_Source :: Addr
  lr_Targets :: "Addr list"

record LBOpts =
  op_Reject :: bool
  op_EmptyLBEvents :: bool
  op_AffinityTimeOut :: int
  op_SkipSNAT :: bool
  op_Template :: bool
  op_AddressFamily :: string

record LB =
  lb_Name :: string
  lb_UUID :: string
  lb_Protocol :: string
  lb_ExternalIDs :: "(string \<times> string) list"
  lb_Opts :: LBOpts
  lb_Rules :: "LBRule list"
  lb_Templates :: "(string \<times> Template) list"
  lb_Switches :: "string list"
  lb_Routers :: "string list"
  lb_Groups :: "string list"

definition emptyLB :: LB where
  "emptyLB = \<lparr>lb_Name = [], lb_UUID = [], lb_Protocol = [], lb_ExternalIDs = [],
     lb_Opts = \<lparr>op_Reject = False, op_EmptyLBEvents = False, op_AffinityTimeOut = 0, op_SkipSNAT = False, op_Template = False, op_AddressFamily = []\<rparr>,
     lb_Rules = [], lb_Templates = [], lb_Switches = [], lb_Routers = [], lb_Groups = []\<rparr>"

definition toReferenceString :: "Template \<Rightarrow> string" where
  "toReferenceString t = ''^'' @ tm_Name t"

definition Addr_String :: "Addr \<Rightarrow> string" where
  "Addr_String a =
     (case ad_Template a of
        None \<Rightarrow> JoinHostPortInt32 (ad_IP a) (ad_Port a)
      | Some t \<Rightarrow> if ad_Port a \<noteq> 0 then toReferenceString t @ '':'' @ itoa (ad_Port a) else toReferenceString t)"

text \<open>\<open>TrimRight\<close> removes every comma at the end.\<close>

definition addrsToString :: "Addr list \<Rightarrow> string" where
  "addrsToString addrs = rev (dropWhile (\<lambda>c. c = CHR '','') (rev (concat (map (\<lambda>a. Addr_String a @ '','') addrs))))"

definition hostAddr :: "string \<Rightarrow> int \<Rightarrow> Addr" where
  "hostAddr i p = \<lparr>ad_IP = i, ad_Port = p, ad_Template = None\<rparr>"

definition templateAddr :: "Template \<Rightarrow> int \<Rightarrow> Addr" where
  "templateAddr t p = \<lparr>ad_IP = [], ad_Port = p, ad_Template = Some t\<rparr>"

definition joinHostsPort :: "string list \<Rightarrow> int \<Rightarrow> Addr list" where
  "joinHostsPort ips port = map (\<lambda>i. hostAddr i port) ips"

subsection \<open>Nodes\<close>

record nodeInfo =
  nf_name :: string
  nf_l3gatewayAddresses :: "ip list"
  nf_hostAddresses :: "ip list"
  nf_podSubnets :: "ipnet list"
  nf_gatewayRouterName :: string
  nf_switchName :: string
  nf_chassisID :: string
  nf_zone :: string
  nf_migrated :: bool

definition hostAddressesStr :: "nodeInfo \<Rightarrow> string list" where
  "hostAddressesStr ni = map IP_String (nf_hostAddresses ni)"

definition l3gatewayAddressesStr :: "nodeInfo \<Rightarrow> string list" where
  "l3gatewayAddressesStr ni = map IP_String (nf_l3gatewayAddresses ni)"

definition nodeSubnets :: "nodeInfo \<Rightarrow> ipnet list" where
  "nodeSubnets ni =
     nf_podSubnets ni
     @ map (\<lambda>x. if is4 x then \<lparr>IP = x, Mask = CIDRMask 32 32\<rparr> else \<lparr>IP = x, Mask = CIDRMask 128 128\<rparr>) (nf_hostAddresses ni)"

subsection \<open>Configurations\<close>

definition placeholderNodeIPs :: string where
  "placeholderNodeIPs = ''node''"

record lbConfig =
  lc_vips :: "string list"
  lc_protocol :: string
  lc_inport :: int
  lc_eps :: LbEndpoints
  lc_externalTrafficLocal :: bool
  lc_internalTrafficLocal :: bool
  lc_hasNodePort :: bool

definition makeNodeSwitchTargetIPs :: "lbConfig \<Rightarrow> nodeInfo \<Rightarrow> string list \<Rightarrow> string list \<times> bool" where
  "makeNodeSwitchTargetIPs c node epIPs =
     (let t1 = (if lc_externalTrafficLocal c then FilterIPsSlice epIPs (nodeSubnets node) True else epIPs);
          t2 = (if lc_internalTrafficLocal c then FilterIPsSlice t1 (nodeSubnets node) True else t1)
      in (t2, length t2 \<noteq> length epIPs))"

definition makeNodeRouterTargetIPs :: "lbConfig \<Rightarrow> nodeInfo \<Rightarrow> string list \<Rightarrow> string \<Rightarrow> string list \<times> bool" where
  "makeNodeRouterTargetIPs c node epIPs hostMasqueradeIP =
     (let t1 = (if lc_externalTrafficLocal c then FilterIPsSlice epIPs (nodeSubnets node) True else epIPs);
          (t2, updated) = UpdateIPsSlice t1 (l3gatewayAddressesStr node) [hostMasqueradeIP]
      in (t2, length t2 \<noteq> length epIPs \<or> updated))"

definition protos :: "string list" where
  "protos = [''TCP'', ''UDP'', ''SCTP'']"

definition getSessionAffinityTimeOut :: "Service \<Rightarrow> int" where
  "getSessionAffinityTimeOut s = (case svc_TimeoutSeconds s of None \<Rightarrow> 10800 | Some t \<Rightarrow> t)"

definition hasSessionAffinityTimeOut :: "Service \<Rightarrow> bool" where
  "hasSessionAffinityTimeOut s \<longleftrightarrow> svc_SessionAffinity s = ''ClientIP'' \<and> getSessionAffinityTimeOut s > 0"

text \<open>The configurations of one service port: per node, template and cluster-wide.\<close>

definition port_configs ::
  "svc_config \<Rightarrow> Service \<Rightarrow> bool \<Rightarrow> bool \<Rightarrow> svcPort \<Rightarrow> LbEndpoints \<Rightarrow> lbConfig list \<times> lbConfig list \<times> lbConfig list" where
  "port_configs cfg service useLBGroup useTemplates svcPort eps =
     (let extLocal = (svc_ExternalTrafficPolicy service = ''Local'');
          intLocal = (svc_InternalTrafficPolicy service = Some ''Local'');
          nodePort = \<lparr>lc_vips = [placeholderNodeIPs], lc_protocol = sp_Protocol svcPort, lc_inport = sp_NodePort svcPort, lc_eps = eps,
                      lc_externalTrafficLocal = extLocal, lc_internalTrafficLocal = False, lc_hasNodePort = True\<rparr>;
          perNodeNP = (\<not> useLBGroup \<or> \<not> useTemplates \<or> extLocal \<or> hasSessionAffinityTimeOut service);
          per1 = (if sp_NodePort svcPort \<noteq> 0 \<and> perNodeNP then [nodePort] else []);
          tmpl = (if sp_NodePort svcPort \<noteq> 0 \<and> \<not> perNodeNP then [nodePort] else []);
          vips = GetClusterIPs service;
          externalVips = GetExternalAndLBIPs service;
          special = (extLocal \<and> length externalVips > 0);
          per2 = (if special then
                    [\<lparr>lc_vips = externalVips, lc_protocol = sp_Protocol svcPort, lc_inport = sp_Port svcPort, lc_eps = eps,
                      lc_externalTrafficLocal = True, lc_internalTrafficLocal = False, lc_hasNodePort = False\<rparr>]
                  else []);
          cluster = \<lparr>lc_vips = (if special then vips else vips @ externalVips), lc_protocol = sp_Protocol svcPort, lc_inport = sp_Port svcPort,
                     lc_eps = eps, lc_externalTrafficLocal = False, lc_internalTrafficLocal = intLocal, lc_hasNodePort = False\<rparr>
      in if hasHostEndpoints cfg (V4IPs eps) \<or> hasHostEndpoints cfg (V6IPs eps) \<or> intLocal
         then (per1 @ per2 @ [cluster], tmpl, [])
         else (per1 @ per2, tmpl, [cluster]))"

fun service_configs ::
  "svc_config \<Rightarrow> Service \<Rightarrow> EndpointSlice list \<Rightarrow> bool \<Rightarrow> bool \<Rightarrow> svcPort list
   \<Rightarrow> (lbConfig list \<times> lbConfig list \<times> lbConfig list) option" where
  "service_configs cfg service slices useLBGroup useTemplates [] = Some ([], [], [])"
| "service_configs cfg service slices useLBGroup useTemplates (p # ps) =
     (case GetLbEndpoints slices p (Some service) of
        None \<Rightarrow> None
      | Some eps \<Rightarrow>
          (case service_configs cfg service slices useLBGroup useTemplates ps of
             None \<Rightarrow> None
           | Some (per, tmpl, cluster) \<Rightarrow>
               (case port_configs cfg service useLBGroup useTemplates p eps of (per1, tmpl1, cluster1) \<Rightarrow>
                  Some (per1 @ per, tmpl1 @ tmpl, cluster1 @ cluster))))"

definition buildServiceLBConfigs ::
  "svc_config \<Rightarrow> Service \<Rightarrow> EndpointSlice list \<Rightarrow> bool \<Rightarrow> bool \<Rightarrow> (lbConfig list \<times> lbConfig list \<times> lbConfig list) option" where
  "buildServiceLBConfigs cfg service slices useLBGroup useTemplates =
     service_configs cfg service slices useLBGroup useTemplates (svc_Ports service)"

definition makeLBName :: "Service \<Rightarrow> string \<Rightarrow> string \<Rightarrow> string" where
  "makeLBName service proto scope =
     ''Service_'' @ svc_Namespace service @ ''/'' @ svc_Name service @ ''_'' @ proto @ ''_'' @ scope"

definition ExternalIDsForObject :: "Service \<Rightarrow> (string \<times> string) list" where
  "ExternalIDsForObject service =
     [(''k8s.ovn.org/owner'', svc_Namespace service @ ''/'' @ svc_Name service), (''k8s.ovn.org/kind'', ''Service'')]"

definition lbOpts :: "svc_config \<Rightarrow> Service \<Rightarrow> LBOpts" where
  "lbOpts cfg service =
     (let idle = (sc_OVNEmptyLbEvents cfg \<and> HasIdleAt service);
          grace = (sc_OVNEmptyLbEvents cfg \<and> IsOnGracePeriod cfg service)
      in \<lparr>op_Reject = (\<not> idle \<and> \<not> grace), op_EmptyLBEvents = (idle \<or> grace),
          op_AffinityTimeOut = (if svc_SessionAffinity service = ''ClientIP'' then getSessionAffinityTimeOut service else 0),
          op_SkipSNAT = False, op_Template = False, op_AddressFamily = []\<rparr>)"

definition lbTemplateOpts :: "svc_config \<Rightarrow> Service \<Rightarrow> string \<Rightarrow> LBOpts" where
  "lbTemplateOpts cfg service family = (lbOpts cfg service)\<lparr>op_AddressFamily := family, op_Template := True\<rparr>"

definition configsByProto :: "lbConfig list \<Rightarrow> string \<Rightarrow> lbConfig list" where
  "configsByProto configs proto = filter (\<lambda>c. lc_protocol c = proto) configs"


section \<open>Expansion to load balancers\<close>

definition ClusterLBGroupName :: string where
  "ClusterLBGroupName = ''clusterLBGroup''"

definition ClusterSwitchLBGroupName :: string where
  "ClusterSwitchLBGroupName = ''clusterSwitchLBGroup''"

definition ClusterRouterLBGroupName :: string where
  "ClusterRouterLBGroupName = ''clusterRouterLBGroup''"

definition hostRule :: "string \<Rightarrow> int \<Rightarrow> Addr list \<Rightarrow> LBRule" where
  "hostRule vip port targets = \<lparr>lr_Source = hostAddr vip port, lr_Targets = targets\<rparr>"

definition familyTargets :: "string \<Rightarrow> Addr list \<Rightarrow> Addr list \<Rightarrow> Addr list" where
  "familyTargets vip v4 v6 = (if IsIPv6String vip then v6 else v4)"

definition cluster_rules :: "lbConfig \<Rightarrow> LBRule list" where
  "cluster_rules c =
     (let v4 = joinHostsPort (V4IPs (lc_eps c)) (ep_Port (lc_eps c));
          v6 = joinHostsPort (V6IPs (lc_eps c)) (ep_Port (lc_eps c))
      in map (\<lambda>vip. hostRule vip (lc_inport c) (familyTargets vip v4 v6)) (filter (\<lambda>vip. vip \<noteq> placeholderNodeIPs) (lc_vips c)))"

definition buildClusterLBs :: "svc_config \<Rightarrow> Service \<Rightarrow> lbConfig list \<Rightarrow> nodeInfo list \<Rightarrow> bool \<Rightarrow> LB list" where
  "buildClusterLBs cfg service configs nodeInfos useLBGroup =
     (let nodeSwitches = (if useLBGroup then [] else map nf_switchName nodeInfos);
          nodeRouters = (if useLBGroup then [] else filter (\<lambda>r. r \<noteq> []) (map nf_gatewayRouterName nodeInfos));
          groups = (if useLBGroup then [ClusterLBGroupName] else [])
      in map (\<lambda>proto.
           emptyLB\<lparr>lb_Name := makeLBName service proto ''cluster'', lb_Protocol := proto,
             lb_ExternalIDs := ExternalIDsForObject service, lb_Opts := lbOpts cfg service,
             lb_Switches := nodeSwitches, lb_Routers := nodeRouters, lb_Groups := groups,
             lb_Rules := concat (map cluster_rules (configsByProto configs proto))\<rparr>)
         (filter (\<lambda>proto. configsByProto configs proto \<noteq> []) protos))"

subsection \<open>Merging\<close>

definition canMergeLB :: "LB \<Rightarrow> LB \<Rightarrow> bool" where
  "canMergeLB a b \<longleftrightarrow> lb_Protocol a = lb_Protocol b \<and> lb_Opts a = lb_Opts b \<and> lb_Rules a = lb_Rules b"

definition merge_into :: "LB \<Rightarrow> LB \<Rightarrow> LB" where
  "merge_into l x =
     x\<lparr>lb_Switches := lb_Switches x @ lb_Switches l, lb_Routers := lb_Routers x @ lb_Routers l, lb_Groups := lb_Groups x @ lb_Groups l,
       lb_Name := (if HasSuffix (lb_Name x) ''_merged'' then lb_Name x else lb_Name x @ ''_merged'')\<rparr>"

text \<open>The inner loop: the first load balancer that can take the new one does.\<close>

fun merge_one :: "LB \<Rightarrow> LB list \<Rightarrow> LB list" where
  "merge_one l [] = [l]"
| "merge_one l (x # xs) = (if canMergeLB l x then merge_into l x # xs else x # merge_one l xs)"

definition mergeLBs :: "LB list \<Rightarrow> LB list" where
  "mergeLBs lbs = (if length lbs = 1 then lbs else fold merge_one lbs [])"

subsection \<open>Template load balancers\<close>

definition makeTemplateName :: "string \<Rightarrow> string" where
  "makeTemplateName name =
     concat (map (\<lambda>c. if c = CHR ''_'' then ''__'' else if c \<in> {CHR ''/'', CHR ''-'', CHR ''$'', CHR ''@''} then ''_'' else [c]) name)"

definition makeLBTargetTemplateName :: "Service \<Rightarrow> string \<Rightarrow> int \<Rightarrow> string \<Rightarrow> string \<Rightarrow> string" where
  "makeLBTargetTemplateName service proto port family scope =
     makeTemplateName (makeLBName service proto (itoa port @ ''_'' @ scope @ ''_'' @ family))"

fun getTemplatesFromRulesTargets_loop :: "Addr list \<Rightarrow> (string \<times> Template) list \<Rightarrow> (string \<times> Template) list" where
  "getTemplatesFromRulesTargets_loop [] m = m"
| "getTemplatesFromRulesTargets_loop (tgt # tgts) m =
     getTemplatesFromRulesTargets_loop tgts
       (case ad_Template tgt of None \<Rightarrow> m | Some t \<Rightarrow> if tm_Name t = [] then m else AList.update (tm_Name t) t m)"

definition getTemplatesFromRulesTargets :: "LBRule list \<Rightarrow> (string \<times> Template) list" where
  "getTemplatesFromRulesTargets rules = getTemplatesFromRulesTargets_loop (concat (map lr_Targets rules)) []"

text \<open>The rules of one configuration for one address family and one kind of target: the targets of each
  node are those that \<open>mk\<close> computes. With identical targets on every node no template is needed.\<close>

definition template_values :: "(nodeInfo \<Rightarrow> string list \<times> bool) \<Rightarrow> int \<Rightarrow> nodeInfo list \<Rightarrow> (string \<times> string) list" where
  "template_values mk port nodes =
     fold (\<lambda>node. AList.update (nf_chassisID node) (addrsToString (joinHostsPort (fst (mk node)) port))) nodes []"

definition template_rules ::
  "(nodeInfo \<Rightarrow> string list \<times> bool) \<Rightarrow> lbConfig \<Rightarrow> string list \<Rightarrow> string \<Rightarrow> nodeInfo list \<Rightarrow> Template list \<Rightarrow> LBRule list" where
  "template_rules mk c epIPs name nodes nodeTemplates =
     (let port = ep_Port (lc_eps c);
          target = \<lparr>tm_Name = name, tm_Value = template_values mk port nodes\<rparr>;
          targets = (if list_ex (\<lambda>node. snd (mk node)) nodes then [templateAddr target 0] else joinHostsPort epIPs port)
      in concat (map (\<lambda>_. map (\<lambda>t. \<lparr>lr_Source = templateAddr t (lc_inport c), lr_Targets = targets\<rparr>) nodeTemplates) (lc_vips c)))"

definition switch_template_rules ::
  "Service \<Rightarrow> string \<Rightarrow> string \<Rightarrow> (LbEndpoints \<Rightarrow> string list) \<Rightarrow> nodeInfo list \<Rightarrow> Template list \<Rightarrow> lbConfig \<Rightarrow> LBRule list" where
  "switch_template_rules service proto family ips nodes templates c =
     template_rules (\<lambda>node. makeNodeSwitchTargetIPs c node (ips (lc_eps c))) c (ips (lc_eps c))
       (makeLBTargetTemplateName service proto (lc_inport c) family ''node_switch_template'') nodes templates"

definition router_template_rules ::
  "Service \<Rightarrow> string \<Rightarrow> string \<Rightarrow> (LbEndpoints \<Rightarrow> string list) \<Rightarrow> ip \<Rightarrow> nodeInfo list \<Rightarrow> Template list \<Rightarrow> lbConfig \<Rightarrow> LBRule list" where
  "router_template_rules service proto family ips masq nodes templates c =
     template_rules (\<lambda>node. makeNodeRouterTargetIPs c node (ips (lc_eps c)) (IP_String masq)) c (ips (lc_eps c))
       (makeLBTargetTemplateName service proto (lc_inport c) family ''node_router_template'') nodes templates"

definition template_lb :: "Service \<Rightarrow> string \<Rightarrow> string \<Rightarrow> LBOpts \<Rightarrow> string \<Rightarrow> LBRule list \<Rightarrow> LB list" where
  "template_lb service proto scope opts grp rules =
     (if rules = [] then []
      else [emptyLB\<lparr>lb_Name := makeLBName service proto scope, lb_Protocol := proto, lb_ExternalIDs := ExternalIDsForObject service,
              lb_Opts := opts, lb_Groups := [grp], lb_Rules := rules, lb_Templates := getTemplatesFromRulesTargets rules\<rparr>])"

definition template_lbs ::
  "svc_config \<Rightarrow> Service \<Rightarrow> lbConfig list \<Rightarrow> nodeInfo list \<Rightarrow> Template list \<Rightarrow> Template list \<Rightarrow> string \<Rightarrow> LB list" where
  "template_lbs cfg service configs nodes v4 v6 proto =
     (let optsV4 = lbTemplateOpts cfg service ''IPv4''; optsV6 = lbTemplateOpts cfg service ''IPv6''
      in (if length v4 > 0 then
            template_lb service proto ''node_switch_template_IPv4'' optsV4 ClusterSwitchLBGroupName
              (concat (map (switch_template_rules service proto ''IPv4'' V4IPs nodes v4) configs))
            @ template_lb service proto ''node_router_template_IPv4'' optsV4 ClusterRouterLBGroupName
              (concat (map (router_template_rules service proto ''IPv4'' V4IPs (sc_V4HostMasqueradeIP cfg) nodes v4) configs))
          else [])
       @ (if length v6 > 0 then
            template_lb service proto ''node_switch_template_IPv6'' optsV6 ClusterSwitchLBGroupName
              (concat (map (switch_template_rules service proto ''IPv6'' V6IPs nodes v6) configs))
            @ template_lb service proto ''node_router_template_IPv6'' optsV6 ClusterRouterLBGroupName
              (concat (map (router_template_rules service proto ''IPv6'' V6IPs (sc_V6HostMasqueradeIP cfg) nodes v6) configs))
          else []))"

definition buildTemplateLBs ::
  "svc_config \<Rightarrow> Service \<Rightarrow> lbConfig list \<Rightarrow> nodeInfo list \<Rightarrow> Template list \<Rightarrow> Template list \<Rightarrow> LB list" where
  "buildTemplateLBs cfg service configs nodes v4 v6 =
     mergeLBs (concat (map (\<lambda>proto. template_lbs cfg service (configsByProto configs proto) nodes v4 v6 proto)
                        (filter (\<lambda>proto. configsByProto configs proto \<noteq> []) protos)))"

subsection \<open>Per-node load balancers\<close>

definition node_vips :: "nodeInfo \<Rightarrow> string list \<Rightarrow> string list" where
  "node_vips node vips = concat (map (\<lambda>vip. if vip = placeholderNodeIPs then hostAddressesStr node else [vip]) vips)"

text \<open>The rules of one vip on the switch, and the one on the router with whether it skips SNAT.\<close>

definition switch_vip_rules :: "svc_config \<Rightarrow> lbConfig \<Rightarrow> nodeInfo \<Rightarrow> string \<Rightarrow> LBRule list" where
  "switch_vip_rules cfg c node vip =
     (let port = ep_Port (lc_eps c);
          local4 = joinHostsPort (fst (makeNodeSwitchTargetIPs c node (V4IPs (lc_eps c)))) port;
          local6 = joinHostsPort (fst (makeNodeSwitchTargetIPs c node (V6IPs (lc_eps c)))) port;
          all4 = joinHostsPort (V4IPs (lc_eps c)) port;
          all6 = joinHostsPort (V6IPs (lc_eps c)) port
      in (if lc_externalTrafficLocal c \<and> lc_hasNodePort c then
            [hostRule (IP_String (if IsIPv6String vip then sc_V6HostMasqueradeIP cfg else sc_V4HostETPLocalMasqueradeIP cfg))
               (lc_inport c) (familyTargets vip local4 local6)]
          else [])
       @ [hostRule vip (lc_inport c)
            (if lc_internalTrafficLocal c \<and> IsClusterIP (sc_ServiceCIDRs cfg) vip
             then familyTargets vip local4 local6 else familyTargets vip all4 all6)])"

definition router_vip_rule :: "svc_config \<Rightarrow> lbConfig \<Rightarrow> nodeInfo \<Rightarrow> string \<Rightarrow> bool \<times> LBRule" where
  "router_vip_rule cfg c node vip =
     (let port = ep_Port (lc_eps c);
          v4 = joinHostsPort (fst (makeNodeRouterTargetIPs c node (V4IPs (lc_eps c)) (IP_String (sc_V4HostMasqueradeIP cfg)))) port;
          v6 = joinHostsPort (fst (makeNodeRouterTargetIPs c node (V6IPs (lc_eps c)) (IP_String (sc_V6HostMasqueradeIP cfg)))) port;
          targets = familyTargets vip v4 v6
      in (lc_externalTrafficLocal c \<and> length targets > 0, hostRule vip (lc_inport c) targets))"

definition node_switch_rules :: "svc_config \<Rightarrow> lbConfig list \<Rightarrow> nodeInfo \<Rightarrow> LBRule list" where
  "node_switch_rules cfg configs node =
     concat (map (\<lambda>c. concat (map (switch_vip_rules cfg c node) (node_vips node (lc_vips c)))) configs)"

definition node_router_rules :: "svc_config \<Rightarrow> lbConfig list \<Rightarrow> nodeInfo \<Rightarrow> (bool \<times> LBRule) list" where
  "node_router_rules cfg configs node =
     concat (map (\<lambda>c. map (router_vip_rule cfg c node) (node_vips node (lc_vips c))) configs)"

definition node_lb :: "svc_config \<Rightarrow> Service \<Rightarrow> string \<Rightarrow> string \<Rightarrow> LBRule list \<Rightarrow> LB" where
  "node_lb cfg service proto scope rules =
     emptyLB\<lparr>lb_Name := makeLBName service proto scope, lb_Protocol := proto, lb_ExternalIDs := ExternalIDsForObject service,
       lb_Opts := lbOpts cfg service, lb_Rules := rules\<rparr>"

definition node_lbs :: "svc_config \<Rightarrow> Service \<Rightarrow> lbConfig list \<Rightarrow> nodeInfo \<Rightarrow> string \<Rightarrow> LB list" where
  "node_lbs cfg service configs node proto =
     (let switchRules = node_switch_rules cfg configs node;
          rules = node_router_rules cfg configs node;
          routerRules = map snd (filter (\<lambda>(skip, _). \<not> skip) rules);
          noSNAT = map snd (filter (\<lambda>(skip, _). skip) rules);
          router = nf_gatewayRouterName node
      in if switchRules = routerRules \<and> length switchRules > 0 \<and> router \<noteq> [] then
           [(node_lb cfg service proto (''node_router+switch_'' @ nf_name node) routerRules)
              \<lparr>lb_Routers := [router], lb_Switches := [nf_switchName node]\<rparr>]
         else
           (if length routerRules > 0 \<and> router \<noteq> [] then
              [(node_lb cfg service proto (''node_router_'' @ nf_name node) routerRules)\<lparr>lb_Routers := [router]\<rparr>] else [])
         @ (if length noSNAT > 0 \<and> router \<noteq> [] then
              [(node_lb cfg service proto (''node_local_router_'' @ nf_name node) noSNAT)
                 \<lparr>lb_Routers := [router], lb_Opts := (lbOpts cfg service)\<lparr>op_SkipSNAT := True\<rparr>\<rparr>] else [])
         @ (if length switchRules > 0 then
              [(node_lb cfg service proto (''node_switch_'' @ nf_name node) switchRules)\<lparr>lb_Switches := [nf_switchName node]\<rparr>] else []))"

definition buildPerNodeLBs :: "svc_config \<Rightarrow> Service \<Rightarrow> lbConfig list \<Rightarrow> nodeInfo list \<Rightarrow> LB list" where
  "buildPerNodeLBs cfg service configs nodes =
     mergeLBs (concat (map (\<lambda>node. concat (map (\<lambda>proto. node_lbs cfg service (configsByProto configs proto) node proto)
                                         (filter (\<lambda>proto. configsByProto configs proto \<noteq> []) protos))) nodes))"


section \<open>What merging keeps\<close>

datatype attachment = OnSwitch string | OnRouter string | OnGroup string

definition attachments :: "LB \<Rightarrow> attachment set" where
  "attachments l = OnSwitch ` set (lb_Switches l) \<union> OnRouter ` set (lb_Routers l) \<union> OnGroup ` set (lb_Groups l)"

text \<open>What the load balancers do, without their names: which rules, with which options, apply where.\<close>

definition lb_view :: "LB list \<Rightarrow> (string \<times> LBOpts \<times> LBRule list \<times> attachment) set" where
  "lb_view lbs = (\<Union>l\<in>set lbs. (\<lambda>at. (lb_Protocol l, lb_Opts l, lb_Rules l, at)) ` attachments l)"

lemma lb_view_simps [simp]:
  "lb_view [] = {}"
  "lb_view (l # ls) = (\<lambda>at. (lb_Protocol l, lb_Opts l, lb_Rules l, at)) ` attachments l \<union> lb_view ls"
  "lb_view (xs @ ys) = lb_view xs \<union> lb_view ys"
  by (auto simp: lb_view_def)

lemma merge_into_fields [simp]:
  "attachments (merge_into l x) = attachments x \<union> attachments l" "lb_Protocol (merge_into l x) = lb_Protocol x"
  "lb_Opts (merge_into l x) = lb_Opts x" "lb_Rules (merge_into l x) = lb_Rules x"
  by (auto simp: merge_into_def attachments_def)

lemma merge_one_view: "lb_view (merge_one l out) = lb_view out \<union> lb_view [l]"
  by (induction l out rule: merge_one.induct) (auto simp: canMergeLB_def)

lemma mergeLBs_view: "lb_view (mergeLBs lbs) = lb_view lbs"
proof -
  have "lb_view (fold merge_one lbs out) = lb_view out \<union> lb_view lbs" for out
    by (induction lbs arbitrary: out) (auto simp: merge_one_view)
  then show ?thesis by (simp add: mergeLBs_def)
qed

text \<open>No two of the load balancers can be merged.\<close>

definition unmergeable :: "LB list \<Rightarrow> bool" where
  "unmergeable lbs \<longleftrightarrow> distinct (map (\<lambda>l. (lb_Protocol l, lb_Opts l, lb_Rules l)) lbs)"

lemma merge_one_keys:
  "map (\<lambda>l. (lb_Protocol l, lb_Opts l, lb_Rules l)) (merge_one l out) =
     (let k = map (\<lambda>l. (lb_Protocol l, lb_Opts l, lb_Rules l)) out
      in if (lb_Protocol l, lb_Opts l, lb_Rules l) \<in> set k then k else k @ [(lb_Protocol l, lb_Opts l, lb_Rules l)])"
  by (induction l out rule: merge_one.induct) (auto simp: canMergeLB_def Let_def)

lemma mergeLBs_unmergeable: "unmergeable (mergeLBs lbs)"
proof -
  have "unmergeable out \<Longrightarrow> unmergeable (fold merge_one lbs out)" for out
    by (induction lbs arbitrary: out) (auto simp: unmergeable_def merge_one_keys Let_def)
  then have "unmergeable (fold merge_one lbs [])" by (simp add: unmergeable_def)
  then show ?thesis by (cases lbs rule: remdups_adj.cases) (auto simp: mergeLBs_def unmergeable_def)
qed

text \<open>C27: Merging load balancers changes nothing of what they do: the same rules with the same protocol and
  options apply to the same switches, routers and groups, and in the result no two load balancers could be
  merged further.\<close>

theorem mergeLBs_correct: "lb_view (mergeLBs lbs) = lb_view lbs \<and> unmergeable (mergeLBs lbs)"
  by (simp add: mergeLBs_view mergeLBs_unmergeable)

lemma lb_view_lookup:
  "l \<in> set lbs \<Longrightarrow> at \<in> attachments l \<Longrightarrow> (lb_Protocol l, lb_Opts l, lb_Rules l, at) \<in> lb_view lbs"
  by (auto simp: lb_view_def)

lemma mergeLBs_origin:
  assumes "l \<in> set (mergeLBs lbs)" "at \<in> attachments l"
  obtains x where "x \<in> set lbs" "at \<in> attachments x" "lb_Protocol x = lb_Protocol l" "lb_Opts x = lb_Opts l" "lb_Rules x = lb_Rules l"
  using lb_view_lookup [OF assms] unfolding mergeLBs_view by (auto simp: lb_view_def)

lemma mergeLBs_target:
  assumes "x \<in> set lbs" "at \<in> attachments x"
  obtains l where "l \<in> set (mergeLBs lbs)" "at \<in> attachments l" "lb_Protocol x = lb_Protocol l" "lb_Opts x = lb_Opts l" "lb_Rules x = lb_Rules l"
proof -
  have "(lb_Protocol x, lb_Opts x, lb_Rules x, at) \<in> lb_view (mergeLBs lbs)"
    unfolding mergeLBs_view by (rule lb_view_lookup [OF assms])
  then show thesis using that by (auto simp: lb_view_def)
qed

section \<open>External traffic policy local\<close>

text \<open>An endpoint on the node: in one of its pod subnets, or one of its addresses.\<close>

definition local_to :: "nodeInfo \<Rightarrow> string \<Rightarrow> bool" where
  "local_to node ep \<longleftrightarrow> (\<exists>c\<in>set (nodeSubnets node). is4 (ParseIP ep) = is4 (IP c) \<and> IPNet_Contains c (ParseIP ep))"

lemma FilterIPsSlice_local: "FilterIPsSlice s (nodeSubnets node) True = filter (local_to node) s"
  unfolding FilterIPsSlice_def Let_def by (rule filter_cong) (auto simp: local_to_def)

text \<open>The endpoint as the router of a node sees it.\<close>

definition seen_by_router :: "nodeInfo \<Rightarrow> string \<Rightarrow> string \<Rightarrow> string" where
  "seen_by_router node masq ep =
     (if ep \<in> set (l3gatewayAddressesStr node) \<and> IsIPv6 (ParseIP masq) = IsIPv6 (ParseIP ep) then masq else ep)"

lemma UpdateIPsSlice_masq: "fst (UpdateIPsSlice s (l3gatewayAddressesStr node) [masq]) = map (seen_by_router node masq) s"
proof -
  have f: "find (\<lambda>oldIP. e = oldIP) xs = (if e \<in> set xs then Some e else None)" for e :: string and xs
    by (induction xs) auto
  show ?thesis by (auto simp: UpdateIPsSlice_def Let_def f seen_by_router_def)
qed

lemma makeNodeRouterTargetIPs_eq:
  "fst (makeNodeRouterTargetIPs c node ips masq) =
     map (seen_by_router node masq) (if lc_externalTrafficLocal c then filter (local_to node) ips else ips)"
  using UpdateIPsSlice_masq [of _ node masq]
  by (auto simp: makeNodeRouterTargetIPs_def Let_def FilterIPsSlice_local split: prod.splits) (metis fst_conv)+

lemma makeNodeSwitchTargetIPs_eq:
  "fst (makeNodeSwitchTargetIPs c node ips) =
     (if lc_externalTrafficLocal c \<or> lc_internalTrafficLocal c then filter (local_to node) ips else ips)"
  by (simp add: makeNodeSwitchTargetIPs_def Let_def FilterIPsSlice_local)


lemma lbOpts_SkipSNAT [simp]: "\<not> op_SkipSNAT (lbOpts cfg service)"
  by (simp add: lbOpts_def Let_def)

lemma node_lbs_router:
  assumes "l \<in> set (node_lbs cfg service configs node proto)" "OnRouter g \<in> attachments l" "r \<in> set (lb_Rules l)"
  shows "g = nf_gatewayRouterName node \<and> (op_SkipSNAT (lb_Opts l), r) \<in> set (node_router_rules cfg configs node)"
  using assms
  by (auto simp: node_lbs_def Let_def node_lb_def emptyLB_def attachments_def split: if_splits)

lemma node_lbs_switch:
  assumes "l \<in> set (node_lbs cfg service configs node proto)" "OnSwitch s \<in> attachments l"
  shows "s = nf_switchName node \<and> lb_Rules l = node_switch_rules cfg configs node \<and> lb_Protocol l = proto"
  using assms
  by (auto simp: node_lbs_def Let_def node_lb_def emptyLB_def attachments_def split: if_splits)

lemma set_joinHostsPort: "t \<in> set (joinHostsPort ips port) \<longleftrightarrow> (\<exists>i\<in>set ips. t = hostAddr i port)"
  by (auto simp: joinHostsPort_def)

lemma joinHostsPort_Nil [simp]: "joinHostsPort ips port = [] \<longleftrightarrow> ips = []"
  by (simp add: joinHostsPort_def)

lemma router_vip_rule_local:
  assumes "router_vip_rule cfg c node vip = (skip, r)" "lc_externalTrafficLocal c" "t \<in> set (lr_Targets r)"
  shows "skip \<and> (\<exists>ep \<in> set (V4IPs (lc_eps c)) \<union> set (V6IPs (lc_eps c)). local_to node ep \<and>
      (\<exists>masq \<in> {sc_V4HostMasqueradeIP cfg, sc_V6HostMasqueradeIP cfg}.
        t = hostAddr (seen_by_router node (IP_String masq) ep) (ep_Port (lc_eps c))))"
  using assms
  by (auto simp: router_vip_rule_def Let_def hostRule_def familyTargets_def makeNodeRouterTargetIPs_eq set_joinHostsPort split: if_splits)



section \<open>Cluster addresses\<close>

lemma canonical_not_node: "IP_String (ParseIPSloppy s) \<noteq> placeholderNodeIPs"
proof
  assume a: "IP_String (ParseIPSloppy s) = placeholderNodeIPs"
  have n: "ParseIPSloppy ''node'' = []" by code_simp
  have "ParseIPSloppy s = [] \<or> length (ParseIPSloppy s) = 16" using parseIP_length [of False s] by (auto simp: ParseIPSloppy_def)
  then show False
  proof
    assume "ParseIPSloppy s = []"
    then show False using a by (simp add: IP_String_def placeholderNodeIPs_def)
  next
    assume l: "length (ParseIPSloppy s) = 16"
    then have "parseIP False (IP_String (ParseIPSloppy s)) = ParseIPSloppy s"
      using parseIP_String [of "ParseIPSloppy s" False] by (simp add: ip_wf_def To16_def)
    then show False using a n l by (simp add: placeholderNodeIPs_def ParseIPSloppy_def)
  qed
qed

lemma GetClusterIPs_not_node: "vip \<in> set (GetClusterIPs service) \<Longrightarrow> vip \<noteq> placeholderNodeIPs"
  by (auto simp: GetClusterIPs_def canonical_not_node split: if_splits)

text \<open>The endpoints that a vip of a service port balances on a node.\<close>

definition vip_targets :: "svc_config \<Rightarrow> bool \<Rightarrow> LbEndpoints \<Rightarrow> nodeInfo \<Rightarrow> string \<Rightarrow> string list" where
  "vip_targets cfg intLocal eps node vip =
     (let ips = (if IsIPv6String vip then V6IPs eps else V4IPs eps)
      in if intLocal \<and> IsClusterIP (sc_ServiceCIDRs cfg) vip then filter (local_to node) ips else ips)"

lemma port_configs_cluster:
  assumes "port_configs cfg service useLBGroup useTemplates p eps = (per, tmpl, cluster)"
  shows "\<exists>c. lc_protocol c = sp_Protocol p \<and> lc_inport c = sp_Port p \<and> lc_eps c = eps
    \<and> set (GetClusterIPs service) \<subseteq> set (lc_vips c) \<and> \<not> lc_externalTrafficLocal c
    \<and> lc_internalTrafficLocal c = (svc_InternalTrafficPolicy service = Some ''Local'')
    \<and> (c \<in> set per \<or> c \<in> set cluster \<and> \<not> lc_internalTrafficLocal c)"
proof -
  let ?ext = "svc_ExternalTrafficPolicy service = ''Local'' \<and> length (GetExternalAndLBIPs service) > 0"
  let ?c = "\<lparr>lc_vips = (if ?ext then GetClusterIPs service else GetClusterIPs service @ GetExternalAndLBIPs service),
     lc_protocol = sp_Protocol p, lc_inport = sp_Port p, lc_eps = eps, lc_externalTrafficLocal = False,
     lc_internalTrafficLocal = (svc_InternalTrafficPolicy service = Some ''Local''), lc_hasNodePort = False\<rparr>"
  have "?c \<in> set per \<or> ?c \<in> set cluster \<and> \<not> lc_internalTrafficLocal ?c"
    using assms unfolding port_configs_def Let_def by (simp split: if_split_asm) (auto split: if_split_asm)
  then show ?thesis by (intro exI [of _ ?c]) auto
qed

lemma service_configs_port:
  assumes "service_configs cfg service slices useLBGroup useTemplates ps = Some (per, tmpl, cluster)" "p \<in> set ps"
  shows "\<exists>eps per1 tmpl1 cluster1. GetLbEndpoints slices p (Some service) = Some eps
    \<and> port_configs cfg service useLBGroup useTemplates p eps = (per1, tmpl1, cluster1)
    \<and> set per1 \<subseteq> set per \<and> set tmpl1 \<subseteq> set tmpl \<and> set cluster1 \<subseteq> set cluster"
  using assms
proof (induction ps arbitrary: per tmpl cluster)
  case (Cons q ps)
  obtain eps per0 tmpl0 cluster0 where e: "GetLbEndpoints slices q (Some service) = Some eps"
    and r: "service_configs cfg service slices useLBGroup useTemplates ps = Some (per0, tmpl0, cluster0)"
    using Cons.prems(1) by (auto split: option.splits)
  obtain per1 tmpl1 cluster1 where pc: "port_configs cfg service useLBGroup useTemplates q eps = (per1, tmpl1, cluster1)"
    using prod_cases3 by blast
  have out: "per = per1 @ per0" "tmpl = tmpl1 @ tmpl0" "cluster = cluster1 @ cluster0"
    using Cons.prems(1) e r pc by auto
  show ?case
  proof (cases "p = q")
    case True
    then show ?thesis using e pc out by auto
  next
    case False
    then have "p \<in> set ps" using Cons.prems(2) by simp
    from Cons.IH [OF r this] show ?thesis using out by fastforce
  qed
qed simp

lemma buildClusterLBs_serves:
  assumes c: "c \<in> set configs" "lc_protocol c \<in> set protos" and vip: "vip \<in> set (lc_vips c)" "vip \<noteq> placeholderNodeIPs"
    and node: "node \<in> set nodes"
  shows "\<exists>l \<in> set (buildClusterLBs cfg service configs nodes useLBGroup). lb_Protocol l = lc_protocol c
    \<and> (if useLBGroup then ClusterLBGroupName \<in> set (lb_Groups l) else nf_switchName node \<in> set (lb_Switches l))
    \<and> hostRule vip (lc_inport c) (joinHostsPort (if IsIPv6String vip then V6IPs (lc_eps c) else V4IPs (lc_eps c)) (ep_Port (lc_eps c)))
        \<in> set (lb_Rules l)"
proof -
  let ?l = "emptyLB\<lparr>lb_Name := makeLBName service (lc_protocol c) ''cluster'', lb_Protocol := lc_protocol c,
             lb_ExternalIDs := ExternalIDsForObject service, lb_Opts := lbOpts cfg service,
             lb_Switches := (if useLBGroup then [] else map nf_switchName nodes),
             lb_Routers := (if useLBGroup then [] else filter (\<lambda>r. r \<noteq> []) (map nf_gatewayRouterName nodes)),
             lb_Groups := (if useLBGroup then [ClusterLBGroupName] else []),
             lb_Rules := concat (map cluster_rules (configsByProto configs (lc_protocol c)))\<rparr>"
  have cp: "c \<in> set (configsByProto configs (lc_protocol c))" using c(1) by (simp add: configsByProto_def)
  then have "?l \<in> set (buildClusterLBs cfg service configs nodes useLBGroup)"
    using c(2) unfolding buildClusterLBs_def Let_def set_map by (intro image_eqI [of _ _ "lc_protocol c"] refl) auto
  moreover have "hostRule vip (lc_inport c) (joinHostsPort (if IsIPv6String vip then V6IPs (lc_eps c) else V4IPs (lc_eps c)) (ep_Port (lc_eps c)))
      \<in> set (cluster_rules c)"
    using vip by (auto simp: cluster_rules_def Let_def familyTargets_def)
  ultimately show ?thesis using cp node by (intro bexI [of _ ?l]) auto
qed


lemma node_lbs_has_switch:
  assumes "node_switch_rules cfg configs node \<noteq> []"
  shows "\<exists>l \<in> set (node_lbs cfg service configs node proto). OnSwitch (nf_switchName node) \<in> attachments l
    \<and> lb_Rules l = node_switch_rules cfg configs node \<and> lb_Protocol l = proto"
proof (cases "node_switch_rules cfg configs node = map snd (filter (\<lambda>(skip, _). \<not> skip) (node_router_rules cfg configs node))
    \<and> nf_gatewayRouterName node \<noteq> []")
  case True
  then show ?thesis using assms by (simp add: node_lbs_def Let_def node_lb_def emptyLB_def attachments_def)
next
  case False
  let ?l = "(node_lb cfg service proto (''node_switch_'' @ nf_name node) (node_switch_rules cfg configs node))\<lparr>lb_Switches := [nf_switchName node]\<rparr>"
  have "?l \<in> set (node_lbs cfg service configs node proto)" using assms False unfolding node_lbs_def Let_def by auto
  then show ?thesis by (intro bexI [of _ ?l]) (simp_all add: node_lb_def emptyLB_def attachments_def)
qed

lemma switch_vip_rules_serves:
  assumes "\<not> lc_externalTrafficLocal c"
  shows "switch_vip_rules cfg c node vip =
    [hostRule vip (lc_inport c) (joinHostsPort (vip_targets cfg (lc_internalTrafficLocal c) (lc_eps c) node vip) (ep_Port (lc_eps c)))]"
  using assms by (simp add: switch_vip_rules_def Let_def vip_targets_def familyTargets_def makeNodeSwitchTargetIPs_eq)

lemma buildPerNodeLBs_serves:
  assumes c: "c \<in> set configs" "lc_protocol c \<in> set protos" "\<not> lc_externalTrafficLocal c"
    and vip: "vip \<in> set (lc_vips c)" "vip \<noteq> placeholderNodeIPs" and node: "node \<in> set nodes"
  shows "\<exists>l \<in> set (buildPerNodeLBs cfg service configs nodes). lb_Protocol l = lc_protocol c \<and> nf_switchName node \<in> set (lb_Switches l)
    \<and> hostRule vip (lc_inport c) (joinHostsPort (vip_targets cfg (lc_internalTrafficLocal c) (lc_eps c) node vip) (ep_Port (lc_eps c)))
        \<in> set (lb_Rules l)"
proof -
  let ?r = "hostRule vip (lc_inport c) (joinHostsPort (vip_targets cfg (lc_internalTrafficLocal c) (lc_eps c) node vip) (ep_Port (lc_eps c)))"
    and ?cs = "configsByProto configs (lc_protocol c)"
  have cp: "c \<in> set ?cs" using c(1) by (simp add: configsByProto_def)
  have "vip \<in> set (node_vips node (lc_vips c))" using vip by (auto simp: node_vips_def)
  moreover have "?r \<in> set (switch_vip_rules cfg c node vip)" by (simp add: switch_vip_rules_serves [OF c(3)])
  ultimately have r: "?r \<in> set (node_switch_rules cfg ?cs node)"
    using cp by (simp add: node_switch_rules_def) blast
  then have "node_switch_rules cfg ?cs node \<noteq> []" by auto
  from node_lbs_has_switch [OF this, of service "lc_protocol c"]
  obtain x where x: "x \<in> set (node_lbs cfg service ?cs node (lc_protocol c))" "OnSwitch (nf_switchName node) \<in> attachments x"
    "lb_Rules x = node_switch_rules cfg ?cs node" "lb_Protocol x = lc_protocol c" by blast
  let ?all = "concat (map (\<lambda>node. concat (map (\<lambda>proto. node_lbs cfg service (configsByProto configs proto) node proto)
                                         (filter (\<lambda>proto. configsByProto configs proto \<noteq> []) protos))) nodes)"
  have "x \<in> set ?all" using x(1) node c(2) cp by fastforce
  then obtain l where l: "l \<in> set (mergeLBs ?all)" "OnSwitch (nf_switchName node) \<in> attachments l"
    "lb_Protocol x = lb_Protocol l" "lb_Opts x = lb_Opts l" "lb_Rules x = lb_Rules l"
    using x(2) by (rule mergeLBs_target)
  then show ?thesis using x(3,4) r unfolding buildPerNodeLBs_def by (intro bexI [of _ l]) (auto simp: attachments_def)
qed

text \<open>C7: Every cluster address of a service is balanced on the switch of every node: for each port of the
  service with a supported protocol, each cluster address and each node, the load balancers built for the
  service contain one with that protocol on the node's switch (or in the group of all switches) with a rule
  from the address and the service port to the endpoints of the port, all eligible ones of the family of the
  address, or those on the node when the internal traffic policy is local.\<close>

theorem cluster_addresses_are_served:
  assumes "buildServiceLBConfigs cfg service slices useLBGroup useTemplates = Some (per, tmpl, cluster)"
    and "p \<in> set (svc_Ports service)" and "sp_Protocol p \<in> set protos"
    and "vip \<in> set (GetClusterIPs service)" and "node \<in> set nodes"
  shows "\<exists>eps l. GetLbEndpoints slices p (Some service) = Some eps
    \<and> l \<in> set (buildClusterLBs cfg service cluster nodes useLBGroup @ buildPerNodeLBs cfg service per nodes)
    \<and> lb_Protocol l = sp_Protocol p
    \<and> (nf_switchName node \<in> set (lb_Switches l) \<or> useLBGroup \<and> ClusterLBGroupName \<in> set (lb_Groups l))
    \<and> hostRule vip (sp_Port p)
        (joinHostsPort (vip_targets cfg (svc_InternalTrafficPolicy service = Some ''Local'') eps node vip) (ep_Port eps))
        \<in> set (lb_Rules l)"
proof -
  obtain eps per1 tmpl1 cluster1 where e: "GetLbEndpoints slices p (Some service) = Some eps"
    and pc: "port_configs cfg service useLBGroup useTemplates p eps = (per1, tmpl1, cluster1)"
    and sub: "set per1 \<subseteq> set per" "set cluster1 \<subseteq> set cluster"
    using service_configs_port [OF assms(1) [unfolded buildServiceLBConfigs_def] assms(2)] by blast
  obtain c where c: "lc_protocol c = sp_Protocol p" "lc_inport c = sp_Port p" "lc_eps c = eps"
    "vip \<in> set (lc_vips c)" "\<not> lc_externalTrafficLocal c"
    "lc_internalTrafficLocal c = (svc_InternalTrafficPolicy service = Some ''Local'')"
    and mem: "c \<in> set per \<or> c \<in> set cluster \<and> \<not> lc_internalTrafficLocal c"
    using port_configs_cluster [OF pc] assms(4) sub by blast
  have nn: "vip \<noteq> placeholderNodeIPs" by (rule GetClusterIPs_not_node [OF assms(4)])
  have pr: "lc_protocol c \<in> set protos" using assms(3) c(1) by simp
  from mem show ?thesis
  proof
    assume "c \<in> set per"
    from buildPerNodeLBs_serves [OF this pr c(5,4) nn assms(5), of cfg service] show ?thesis using e c by auto
  next
    assume m: "c \<in> set cluster \<and> \<not> lc_internalTrafficLocal c"
    then have "vip_targets cfg (svc_InternalTrafficPolicy service = Some ''Local'') eps node vip = (if IsIPv6String vip then V6IPs eps else V4IPs eps)"
      using c(6) by (auto simp: vip_targets_def Let_def)
    then show ?thesis
      using buildClusterLBs_serves [OF conjunct1 [OF m] pr c(4) nn assms(5), of cfg service useLBGroup] e c
      by (fastforce split: if_splits)
  qed
qed


section \<open>The endpoints of a service port\<close>

definition port_matches :: "svcPort \<Rightarrow> slicePort \<Rightarrow> bool" where
  "port_matches svcPort port \<longleftrightarrow>
     (sp_Name svcPort = [] \<or> pt_Name port = Some (sp_Name svcPort)) \<and> pt_Protocol port = Some (sp_Protocol svcPort)"

text \<open>The addresses of one family, in canonical form, of the slices that offer the port.\<close>

definition offered :: "string \<Rightarrow> svcPort \<Rightarrow> Service option \<Rightarrow> EndpointSlice list \<Rightarrow> string set" where
  "offered family svcPort service slices =
     {IP_String (ParseIPSloppy a) |a sl. sl \<in> set slices \<and> es_AddressType sl = family \<and> (\<exists>port \<in> set (es_Ports sl). port_matches svcPort port)
        \<and> a \<in> set (eligible_addresses sl service)}"

lemma slice_port_spec:
  assumes "slice_port svcPort service sl port (v4, v6, p) = Some (v4', v6', p')"
  shows "v4' = (if port_matches svcPort port \<and> es_AddressType sl = ''IPv4'' then v4 @ map (\<lambda>x. IP_String (ParseIPSloppy x)) (eligible_addresses sl service) else v4)"
    and "v6' = (if port_matches svcPort port \<and> es_AddressType sl = ''IPv6'' then v6 @ map (\<lambda>x. IP_String (ParseIPSloppy x)) (eligible_addresses sl service) else v6)"
    and "if port_matches svcPort port then pt_Port port = Some p' else p' = p"
  using assms by (auto simp: slice_port_def port_matches_def Let_def split: if_splits option.splits)

lemma slice_ports_spec:
  "slice_ports svcPort service sl ports (v4, v6, p) = Some (v4', v6', p') \<Longrightarrow>
   set v4' = set v4 \<union> (if es_AddressType sl = ''IPv4'' \<and> (\<exists>port \<in> set ports. port_matches svcPort port)
       then (\<lambda>x. IP_String (ParseIPSloppy x)) ` set (eligible_addresses sl service) else {})
   \<and> set v6' = set v6 \<union> (if es_AddressType sl = ''IPv6'' \<and> (\<exists>port \<in> set ports. port_matches svcPort port)
       then (\<lambda>x. IP_String (ParseIPSloppy x)) ` set (eligible_addresses sl service) else {})
   \<and> (p' = p \<or> (\<exists>port \<in> set ports. port_matches svcPort port \<and> pt_Port port = Some p'))"
proof (induction ports arbitrary: v4 v6 p)
  case (Cons port ports)
  obtain v41 v61 p1 where s: "slice_port svcPort service sl port (v4, v6, p) = Some (v41, v61, p1)"
    and r: "slice_ports svcPort service sl ports (v41, v61, p1) = Some (v4', v6', p')"
    using Cons.prems by (auto simp: bind_eq_Some_conv)
  show ?case using Cons.IH [OF r] slice_port_spec [OF s] by (auto split: if_splits)
qed auto

lemma endpoint_slices_spec:
  "endpoint_slices svcPort service sls (v4, v6, p) = Some (v4', v6', p') \<Longrightarrow>
   set v4' = set v4 \<union> offered ''IPv4'' svcPort service sls \<and> set v6' = set v6 \<union> offered ''IPv6'' svcPort service sls
   \<and> (p' = p \<or> (\<exists>sl \<in> set sls. \<exists>port \<in> set (es_Ports sl). port_matches svcPort port \<and> pt_Port port = Some p'))"
proof (induction sls arbitrary: v4 v6 p)
  case (Cons sl sls)
  obtain v41 v61 p1 where s: "slice_ports svcPort service sl (es_Ports sl) (v4, v6, p) = Some (v41, v61, p1)"
    and r: "endpoint_slices svcPort service sls (v41, v61, p1) = Some (v4', v6', p')"
    using Cons.prems by (auto simp: bind_eq_Some_conv)
  have o: "offered f svcPort service (sl # sls) = offered f svcPort service sls \<union>
      (if es_AddressType sl = f \<and> (\<exists>port \<in> set (es_Ports sl). port_matches svcPort port)
       then (\<lambda>x. IP_String (ParseIPSloppy x)) ` set (eligible_addresses sl service) else {})" for f
    by (auto simp: offered_def)
  show ?case using Cons.IH [OF r] slice_ports_spec [OF s] unfolding o by (auto split: if_splits)
qed (auto simp: offered_def)

text \<open>C29: The endpoints of a service port are exactly the addresses, in canonical form and without
  repetition, of the eligible endpoints (serving, or all if the service publishes addresses that are not
  ready) of the slices that offer a port of that name and protocol, sorted, one list per address family.\<close>

theorem GetLbEndpoints_correct:
  assumes "GetLbEndpoints slices svcPort service = Some eps"
  shows "set (V4IPs eps) = offered ''IPv4'' svcPort service slices \<and> set (V6IPs eps) = offered ''IPv6'' svcPort service slices
    \<and> sorted (V4IPs eps) \<and> distinct (V4IPs eps) \<and> sorted (V6IPs eps) \<and> distinct (V6IPs eps)
    \<and> (ep_Port eps = 0 \<or> (\<exists>sl \<in> set slices. \<exists>port \<in> set (es_Ports sl). port_matches svcPort port \<and> pt_Port port = Some (ep_Port eps)))"
proof (cases "slices = []")
  case True
  then show ?thesis using assms by (auto simp: GetLbEndpoints_def no_endpoints_def offered_def)
next
  case False
  then obtain v4 v6 p where e: "endpoint_slices svcPort service slices ([], [], 0) = Some (v4, v6, p)"
    and eps: "eps = \<lparr>V4IPs = sort (remdups v4), V6IPs = sort (remdups v6), ep_Port = p\<rparr>"
    using assms by (auto simp: GetLbEndpoints_def)
  from endpoint_slices_spec [OF e] show ?thesis by (simp add: eps)
qed

subsection \<open>Concrete services\<close>

definition example_slice :: "string \<Rightarrow> int \<Rightarrow> EndpointSlice" where
  "example_slice addr port = \<lparr>es_AddressType = ''IPv4'',
     es_Ports = [\<lparr>pt_Name = Some ''http'', pt_Protocol = Some ''TCP'', pt_Port = Some port\<rparr>],
     es_Endpoints = [\<lparr>ep_Addresses = [addr], ep_Ready = Some True, ep_Serving = None\<rparr>]\<rparr>"

definition example_svcPort :: svcPort where
  "example_svcPort = \<lparr>sp_Name = ''http'', sp_Protocol = ''TCP'', sp_Port = 80, sp_NodePort = 30080\<rparr>"

text \<open>Two slices of one service port, with different port numbers because the target port is a name: the
  endpoints of both get the port of the last slice.\<close>

lemma GetLbEndpoints_mixes_ports:
  "GetLbEndpoints [example_slice ''10.244.0.5'' 8080, example_slice ''10.244.1.5'' 9090] example_svcPort None =
     Some \<lparr>V4IPs = [''10.244.0.5'', ''10.244.1.5''], V6IPs = [], ep_Port = 9090\<rparr>"
  by code_simp

theorem GetLbEndpoints_correct_witness:
  "offered ''IPv4'' example_svcPort None [example_slice ''10.244.0.5'' 8080, example_slice ''10.244.1.5'' 9090] = {''10.244.0.5'', ''10.244.1.5''}"
  using GetLbEndpoints_correct [OF GetLbEndpoints_mixes_ports] by simp

definition example_service :: Service where
  "example_service = \<lparr>svc_Namespace = ''ns'', svc_Name = ''web'', svc_Type = ''NodePort'', svc_Ports = [example_svcPort],
     svc_ClusterIP = ''10.96.0.10'', svc_ClusterIPs = [''10.96.0.10''], svc_ExternalIPs = [], svc_Ingress = [],
     svc_ExternalTrafficPolicy = ''Local'', svc_InternalTrafficPolicy = None, svc_SessionAffinity = ''None'',
     svc_TimeoutSeconds = None, svc_PublishNotReady = False, svc_Annotations = []\<rparr>"

definition example_svccfg :: svc_config where
  "example_svccfg = \<lparr>sc_ClusterSubnets = [\<lparr>IP = [10, 244, 0, 0], Mask = [255, 255, 0, 0]\<rparr>],
     sc_ServiceCIDRs = [\<lparr>IP = [10, 96, 0, 0], Mask = [255, 255, 0, 0]\<rparr>], sc_V4HostMasqueradeIP = [169, 254, 169, 2],
     sc_V6HostMasqueradeIP = [], sc_V4HostETPLocalMasqueradeIP = [169, 254, 169, 3], sc_V4Hairpin = [169, 254, 169, 5], sc_V6Hairpin = [],
     sc_OVNEmptyLbEvents = False, sc_now = 0, sc_parseTime = (\<lambda>_. None)\<rparr>"

definition example_node :: "string \<Rightarrow> byte \<Rightarrow> nodeInfo" where
  "example_node nm k = \<lparr>nf_name = nm, nf_l3gatewayAddresses = [[192, 168, 1, k]], nf_hostAddresses = [[192, 168, 1, k]],
     nf_podSubnets = [\<lparr>IP = [10, 244, k, 0], Mask = [255, 255, 255, 0]\<rparr>], nf_gatewayRouterName = ''GR_'' @ nm,
     nf_switchName = nm, nf_chassisID = nm, nf_zone = ''global'', nf_migrated = False\<rparr>"

theorem cluster_addresses_are_served_witness:
  "\<exists>eps (l :: LB). GetLbEndpoints [example_slice ''10.244.0.5'' 8080] example_svcPort (Some example_service) = Some eps
     \<and> ''n1'' \<in> set (lb_Switches l) \<and> hostRule ''10.96.0.10'' 80 [hostAddr ''10.244.0.5'' 8080] \<in> set (lb_Rules l)"
proof -
  let ?b = "buildServiceLBConfigs example_svccfg example_service [example_slice ''10.244.0.5'' 8080] False False"
  let ?eps = "\<lparr>V4IPs = [''10.244.0.5''], V6IPs = [], ep_Port = 8080\<rparr>"
  obtain per tmpl cluster where b: "?b = Some (per, tmpl, cluster)"
  proof -
    have "?b \<noteq> None" by code_simp
    then show thesis using that by (cases ?b) auto
  qed
  have e: "GetLbEndpoints [example_slice ''10.244.0.5'' 8080] example_svcPort (Some example_service) = Some ?eps" by code_simp
  have p: "example_svcPort \<in> set (svc_Ports example_service)" "sp_Protocol example_svcPort \<in> set protos"
    "''10.96.0.10'' \<in> set (GetClusterIPs example_service)" by code_simp+
  have t: "vip_targets example_svccfg (svc_InternalTrafficPolicy example_service = Some ''Local'') ?eps (example_node ''n1'' 0) ''10.96.0.10'' = [''10.244.0.5'']"
    by code_simp
  let ?n = "example_node ''n1'' 0"
  have n: "?n \<in> set [?n]" by simp
  obtain eps and l :: LB where l: "GetLbEndpoints [example_slice ''10.244.0.5'' 8080] example_svcPort (Some example_service) = Some eps"
    "nf_switchName ?n \<in> set (lb_Switches l) \<or> False \<and> ClusterLBGroupName \<in> set (lb_Groups l)"
    "hostRule ''10.96.0.10'' (sp_Port example_svcPort) (joinHostsPort (vip_targets example_svccfg
       (svc_InternalTrafficPolicy example_service = Some ''Local'') eps ?n ''10.96.0.10'') (ep_Port eps)) \<in> set (lb_Rules l)"
    using cluster_addresses_are_served [OF b p n] by blast
  have "eps = ?eps" using l(1) e by simp
  then have "hostRule ''10.96.0.10'' 80 [hostAddr ''10.244.0.5'' 8080] \<in> set (lb_Rules l)"
    using l(3) t by (simp add: example_svcPort_def joinHostsPort_def)
  moreover have "''n1'' \<in> set (lb_Switches l)" using l(2) by (simp add: example_node_def)
  ultimately show ?thesis using e by blast
qed

text \<open>A node port with external traffic policy local and an endpoint on each of two nodes.\<close>

definition example_local :: lbConfig where
  "example_local = \<lparr>lc_vips = [''node''], lc_protocol = ''TCP'', lc_inport = 30080,
     lc_eps = \<lparr>V4IPs = [''10.244.0.5'', ''10.244.1.5''], V6IPs = [], ep_Port = 8080\<rparr>,
     lc_externalTrafficLocal = True, lc_internalTrafficLocal = False, lc_hasNodePort = True\<rparr>"


end
