(* ===== verification/L3_Gateway.thy ===== *)
theory L3_Gateway
  imports Pod_Annotation
begin

text \<open>
  The gateway configuration of a node in its \<open>l3-gateway-config\<close> annotation (\<open>pkg/util/node_annotations.go\<close>):
  writing it, reading it back, and the errors of the reader. Reading through a nil pointer is \<open>None\<close>.
\<close>

section \<open>Definitions\<close>

record L3GatewayConfig =
  gw_Mode :: string
  gw_ChassisID :: string
  gw_InterfaceID :: string
  gw_MACAddress :: "byte list"
  gw_IPAddresses :: "ipnet list"
  gw_EgressGWInterfaceID :: string
  gw_EgressGWMACAddress :: "byte list"
  gw_EgressGWIPAddresses :: "ipnet list"
  gw_NextHops :: "ip list"
  gw_NodePortEnable :: bool
  gw_VLANID :: "int option"

record l3GatewayConfigJSON =
  gj_Mode :: string
  gj_InterfaceID :: string
  gj_MACAddress :: string
  gj_IPAddresses :: "string list"
  gj_IPAddress :: string
  gj_EgressGWInterfaceID :: string
  gj_EgressGWMACAddress :: string
  gj_EgressGWIPAddresses :: "string list"
  gj_EgressGWIPAddress :: string
  gj_NextHops :: "string list"
  gj_NextHop :: string
  gj_NodePortEnable :: string
  gj_VLANID :: string

definition emptyGatewayJSON :: l3GatewayConfigJSON where
  "emptyGatewayJSON = \<lparr>gj_Mode = [], gj_InterfaceID = [], gj_MACAddress = [], gj_IPAddresses = [], gj_IPAddress = [],
     gj_EgressGWInterfaceID = [], gj_EgressGWMACAddress = [], gj_EgressGWIPAddresses = [], gj_EgressGWIPAddress = [],
     gj_NextHops = [], gj_NextHop = [], gj_NodePortEnable = [], gj_VLANID = []\<rparr>"

definition emptyGateway :: L3GatewayConfig where
  "emptyGateway = \<lparr>gw_Mode = [], gw_ChassisID = [], gw_InterfaceID = [], gw_MACAddress = [], gw_IPAddresses = [],
     gw_EgressGWInterfaceID = [], gw_EgressGWMACAddress = [], gw_EgressGWIPAddresses = [], gw_NextHops = [],
     gw_NodePortEnable = False, gw_VLANID = None\<rparr>"

subsection \<open>Documents\<close>

definition decode_gw_field :: "string \<Rightarrow> json \<Rightarrow> l3GatewayConfigJSON \<Rightarrow> l3GatewayConfigJSON option" where
  "decode_gw_field k j a =
     (if key_is ''mode'' k then map_option (\<lambda>v. a\<lparr>gj_Mode := v\<rparr>) (decode_string (gj_Mode a) j)
      else if key_is ''interface-id'' k then map_option (\<lambda>v. a\<lparr>gj_InterfaceID := v\<rparr>) (decode_string (gj_InterfaceID a) j)
      else if key_is ''mac-address'' k then map_option (\<lambda>v. a\<lparr>gj_MACAddress := v\<rparr>) (decode_string (gj_MACAddress a) j)
      else if key_is ''ip-addresses'' k then map_option (\<lambda>v. a\<lparr>gj_IPAddresses := v\<rparr>) (decode_strings j)
      else if key_is ''ip-address'' k then map_option (\<lambda>v. a\<lparr>gj_IPAddress := v\<rparr>) (decode_string (gj_IPAddress a) j)
      else if key_is ''exgw-interface-id'' k then map_option (\<lambda>v. a\<lparr>gj_EgressGWInterfaceID := v\<rparr>) (decode_string (gj_EgressGWInterfaceID a) j)
      else if key_is ''exgw-mac-address'' k then map_option (\<lambda>v. a\<lparr>gj_EgressGWMACAddress := v\<rparr>) (decode_string (gj_EgressGWMACAddress a) j)
      else if key_is ''exgw-ip-addresses'' k then map_option (\<lambda>v. a\<lparr>gj_EgressGWIPAddresses := v\<rparr>) (decode_strings j)
      else if key_is ''exgw-ip-address'' k then map_option (\<lambda>v. a\<lparr>gj_EgressGWIPAddress := v\<rparr>) (decode_string (gj_EgressGWIPAddress a) j)
      else if key_is ''next-hops'' k then map_option (\<lambda>v. a\<lparr>gj_NextHops := v\<rparr>) (decode_strings j)
      else if key_is ''next-hop'' k then map_option (\<lambda>v. a\<lparr>gj_NextHop := v\<rparr>) (decode_string (gj_NextHop a) j)
      else if key_is ''node-port-enable'' k then map_option (\<lambda>v. a\<lparr>gj_NodePortEnable := v\<rparr>) (decode_string (gj_NodePortEnable a) j)
      else if key_is ''vlan-id'' k then map_option (\<lambda>v. a\<lparr>gj_VLANID := v\<rparr>) (decode_string (gj_VLANID a) j)
      else Some a)"

fun decode_gw_members :: "(string \<times> json) list \<Rightarrow> l3GatewayConfigJSON \<Rightarrow> l3GatewayConfigJSON option" where
  "decode_gw_members [] a = Some a"
| "decode_gw_members ((k, j) # ms) a = Option.bind (decode_gw_field k j a) (decode_gw_members ms)"

fun decode_gw :: "json \<Rightarrow> l3GatewayConfigJSON option" where
  "decode_gw (JObject ms) = decode_gw_members ms emptyGatewayJSON"
| "decode_gw JNull = Some emptyGatewayJSON"
| "decode_gw _ = None"

definition opt_string :: "string \<Rightarrow> string \<Rightarrow> (string \<times> json) list" where
  "opt_string k s = (if s = [] then [] else [(k, JString s)])"

definition opt_strings :: "string \<Rightarrow> string list \<Rightarrow> (string \<times> json) list" where
  "opt_strings k ss = (if ss = [] then [] else [(k, encode_strings ss)])"

definition encode_gw :: "l3GatewayConfigJSON \<Rightarrow> json" where
  "encode_gw a = JObject
     ([(''mode'', JString (gj_Mode a))] @ opt_string ''interface-id'' (gj_InterfaceID a) @ opt_string ''mac-address'' (gj_MACAddress a)
      @ opt_strings ''ip-addresses'' (gj_IPAddresses a) @ opt_string ''ip-address'' (gj_IPAddress a)
      @ opt_string ''exgw-interface-id'' (gj_EgressGWInterfaceID a) @ opt_string ''exgw-mac-address'' (gj_EgressGWMACAddress a)
      @ opt_strings ''exgw-ip-addresses'' (gj_EgressGWIPAddresses a) @ opt_string ''exgw-ip-address'' (gj_EgressGWIPAddress a)
      @ opt_strings ''next-hops'' (gj_NextHops a) @ opt_string ''next-hop'' (gj_NextHop a)
      @ opt_string ''node-port-enable'' (gj_NodePortEnable a) @ opt_string ''vlan-id'' (gj_VLANID a))"

subsection \<open>Writing and reading\<close>

definition single :: "string list \<Rightarrow> string" where
  "single ss = (if length ss = 1 then ss ! 0 else [])"

definition gw_MarshalJSON :: "L3GatewayConfig \<Rightarrow> json" where
  "gw_MarshalJSON cfg =
     (let cfgjson = emptyGatewayJSON\<lparr>gj_Mode := gw_Mode cfg\<rparr>
      in if gw_Mode cfg = [] then encode_gw cfgjson
         else let ips = map IPNet_String (gw_IPAddresses cfg);
                  egress = map IPNet_String (gw_EgressGWIPAddresses cfg);
                  hops = map IP_String (gw_NextHops cfg)
              in encode_gw (cfgjson\<lparr>gj_InterfaceID := gw_InterfaceID cfg, gj_MACAddress := HardwareAddr_String (gw_MACAddress cfg),
                   gj_EgressGWInterfaceID := gw_EgressGWInterfaceID cfg,
                   gj_EgressGWMACAddress := HardwareAddr_String (gw_EgressGWMACAddress cfg),
                   gj_NodePortEnable := (if gw_NodePortEnable cfg then ''true'' else ''false''),
                   gj_VLANID := (case gw_VLANID cfg of None \<Rightarrow> [] | Some v \<Rightarrow> utoa v),
                   gj_IPAddresses := ips, gj_IPAddress := single ips,
                   gj_EgressGWIPAddresses := egress, gj_EgressGWIPAddress := single egress,
                   gj_NextHops := hops, gj_NextHop := single hops\<rparr>))"

text \<open>\<open>strconv.ParseUint(s, 10, 0)\<close>.\<close>

definition ParseUint :: "string \<Rightarrow> int option" where
  "ParseUint s =
     (if s = [] then None
      else case all_digits 0 s of None \<Rightarrow> None | Some n \<Rightarrow> if n < 2 ^ 64 then Some n else None)"

fun parse_addrs :: "string list \<Rightarrow> annotation_error + ipnet list" where
  "parse_addrs [] = Inr []"
| "parse_addrs (s # ss) =
     (case ParseCIDR s of
        None \<Rightarrow> Inl (BadValue s)
      | Some (x, n) \<Rightarrow> (case parse_addrs ss of Inl e \<Rightarrow> Inl e | Inr ns \<Rightarrow> Inr (\<lparr>IP = x, Mask = Mask n\<rparr> # ns)))"

fun parse_hops :: "string list \<Rightarrow> annotation_error + ip list" where
  "parse_hops [] = Inr []"
| "parse_hops (s # ss) =
     (if ParseIP s = [] then Inl (BadValue s) else case parse_hops ss of Inl e \<Rightarrow> Inl e | Inr hs \<Rightarrow> Inr (ParseIP s # hs))"

definition parse_vlan :: "string \<Rightarrow> annotation_error + int option" where
  "parse_vlan s =
     (if s = [] then Inr None
      else case ParseUint s of None \<Rightarrow> Inl (BadValue s) | Some v \<Rightarrow> if v > 4095 then Inl (BadValue s) else Inr (Some v))"

definition parse_egress_gw :: "l3GatewayConfigJSON \<Rightarrow> annotation_error + byte list \<times> ipnet list" where
  "parse_egress_gw j =
     (if gj_EgressGWInterfaceID j = [] then Inr ([], [])
      else case ParseMAC (gj_EgressGWMACAddress j) of
          None \<Rightarrow> Inl (BadValue (gj_EgressGWMACAddress j))
        | Some mac \<Rightarrow>
            (case parse_addrs (if length (gj_EgressGWIPAddresses j) = 0 then [gj_EgressGWIPAddress j] else gj_EgressGWIPAddresses j) of
               Inl e \<Rightarrow> Inl e
             | Inr ips \<Rightarrow> Inr (mac, ips)))"

definition gw_parse :: "l3GatewayConfigJSON \<Rightarrow> annotation_error + L3GatewayConfig" where
  "gw_parse j =
     (if gj_Mode j = [] then Inr emptyGateway
      else if gj_Mode j \<noteq> ''shared'' \<and> gj_Mode j \<noteq> ''local'' then Inl (BadValue (gj_Mode j))
      else case parse_vlan (gj_VLANID j) of
          Inl e \<Rightarrow> Inl e
        | Inr vlan \<Rightarrow>
            (case ParseMAC (gj_MACAddress j) of
               None \<Rightarrow> Inl (BadValue (gj_MACAddress j))
             | Some mac \<Rightarrow>
                 (case parse_egress_gw j of
                    Inl e \<Rightarrow> Inl e
                  | Inr (egressMac, egressIPs) \<Rightarrow>
                      (case parse_addrs (if length (gj_IPAddresses j) = 0 then [gj_IPAddress j] else gj_IPAddresses j) of
                         Inl e \<Rightarrow> Inl e
                       | Inr ips \<Rightarrow>
                           (case parse_hops (gj_NextHops j) of
                              Inl e \<Rightarrow> Inl e
                            | Inr hops \<Rightarrow>
                                Inr \<lparr>gw_Mode = gj_Mode j, gw_ChassisID = [], gw_InterfaceID = gj_InterfaceID j, gw_MACAddress = mac,
                                     gw_IPAddresses = ips, gw_EgressGWInterfaceID = gj_EgressGWInterfaceID j,
                                     gw_EgressGWMACAddress = egressMac, gw_EgressGWIPAddresses = egressIPs, gw_NextHops = hops,
                                     gw_NodePortEnable = (gj_NodePortEnable j = ''true''), gw_VLANID = vlan\<rparr>)))))"

definition gw_UnmarshalJSON :: "json \<Rightarrow> annotation_error + L3GatewayConfig" where
  "gw_UnmarshalJSON j = (case decode_gw j of None \<Rightarrow> Inl (NotParsed ''l3-gateway-config'') | Some cfgjson \<Rightarrow> gw_parse cfgjson)"

definition ovnNodeL3GatewayConfig :: string where
  "ovnNodeL3GatewayConfig = ''k8s.ovn.org/l3-gateway-config''"

definition ovnDefaultNetworkGateway :: string where
  "ovnDefaultNetworkGateway = ''default''"

definition SetL3GatewayConfig :: "L3GatewayConfig \<Rightarrow> Node \<Rightarrow> Node" where
  "SetL3GatewayConfig cfg node =
     node\<lparr>node_docs := (node_docs node)(ovnNodeL3GatewayConfig \<mapsto> Some (JObject [(ovnDefaultNetworkGateway, gw_MarshalJSON cfg)])),
          node_texts := (if gw_ChassisID cfg \<noteq> [] then (node_texts node)(ovnNodeChassisID \<mapsto> gw_ChassisID cfg) else node_texts node)\<rparr>"

text \<open>The value of a member is a pointer: \<open>null\<close> is nil.\<close>

definition decode_gw_pointer :: "json \<Rightarrow> L3GatewayConfig option option" where
  "decode_gw_pointer j = (if j = JNull then Some None else case gw_UnmarshalJSON j of Inl _ \<Rightarrow> None | Inr cfg \<Rightarrow> Some (Some cfg))"

definition ParseNodeL3GatewayAnnotation :: "Node \<Rightarrow> (annotation_error + L3GatewayConfig) option" where
  "ParseNodeL3GatewayAnnotation node =
     (case node_docs node ovnNodeL3GatewayConfig of
        None \<Rightarrow> Some (Inl (NotSet ovnNodeL3GatewayConfig))
      | Some annotation \<Rightarrow>
          (case Option.bind annotation (decode_map decode_gw_pointer) of
             None \<Rightarrow> Some (Inl (NotParsed ovnNodeL3GatewayConfig))
           | Some cfgs \<Rightarrow>
               (case map_of cfgs ovnDefaultNetworkGateway of
                  None \<Rightarrow> Some (Inl (NotParsed ovnNodeL3GatewayConfig))
                | Some None \<Rightarrow> None
                | Some (Some cfg) \<Rightarrow>
                    if gw_Mode cfg \<noteq> [] then
                      (case node_texts node ovnNodeChassisID of
                         None \<Rightarrow> Some (Inl (NotParsed ovnNodeChassisID))
                       | Some chassis \<Rightarrow> Some (Inr (cfg\<lparr>gw_ChassisID := chassis\<rparr>)))
                    else Some (Inr cfg))))"

definition NodeL3GatewayAnnotationChanged :: "Node \<Rightarrow> Node \<Rightarrow> bool" where
  "NodeL3GatewayAnnotationChanged oldNode newNode \<longleftrightarrow> node_docs oldNode ovnNodeL3GatewayConfig \<noteq> node_docs newNode ovnNodeL3GatewayConfig"

section \<open>Reading back\<close>

definition gw_keys :: "string list" where
  "gw_keys = [''mode'', ''interface-id'', ''mac-address'', ''ip-addresses'', ''ip-address'', ''exgw-interface-id'', ''exgw-mac-address'',
     ''exgw-ip-addresses'', ''exgw-ip-address'', ''next-hops'', ''next-hop'', ''node-port-enable'', ''vlan-id'']"

lemma gw_keys_distinct: "list_all (\<lambda>a. list_all (\<lambda>b. key_is a b \<longleftrightarrow> a = b) gw_keys) gw_keys"
  by code_simp

lemma gw_key_is: "a \<in> set gw_keys \<Longrightarrow> b \<in> set gw_keys \<Longrightarrow> key_is a b \<longleftrightarrow> a = b"
  using gw_keys_distinct by (auto simp: list_all_iff)

lemma decode_gw_fields:
  "decode_gw_field ''mode'' j a = map_option (\<lambda>v. a\<lparr>gj_Mode := v\<rparr>) (decode_string (gj_Mode a) j)"
  "decode_gw_field ''interface-id'' j a = map_option (\<lambda>v. a\<lparr>gj_InterfaceID := v\<rparr>) (decode_string (gj_InterfaceID a) j)"
  "decode_gw_field ''mac-address'' j a = map_option (\<lambda>v. a\<lparr>gj_MACAddress := v\<rparr>) (decode_string (gj_MACAddress a) j)"
  "decode_gw_field ''ip-addresses'' j a = map_option (\<lambda>v. a\<lparr>gj_IPAddresses := v\<rparr>) (decode_strings j)"
  "decode_gw_field ''ip-address'' j a = map_option (\<lambda>v. a\<lparr>gj_IPAddress := v\<rparr>) (decode_string (gj_IPAddress a) j)"
  "decode_gw_field ''exgw-interface-id'' j a = map_option (\<lambda>v. a\<lparr>gj_EgressGWInterfaceID := v\<rparr>) (decode_string (gj_EgressGWInterfaceID a) j)"
  "decode_gw_field ''exgw-mac-address'' j a = map_option (\<lambda>v. a\<lparr>gj_EgressGWMACAddress := v\<rparr>) (decode_string (gj_EgressGWMACAddress a) j)"
  "decode_gw_field ''exgw-ip-addresses'' j a = map_option (\<lambda>v. a\<lparr>gj_EgressGWIPAddresses := v\<rparr>) (decode_strings j)"
  "decode_gw_field ''exgw-ip-address'' j a = map_option (\<lambda>v. a\<lparr>gj_EgressGWIPAddress := v\<rparr>) (decode_string (gj_EgressGWIPAddress a) j)"
  "decode_gw_field ''next-hops'' j a = map_option (\<lambda>v. a\<lparr>gj_NextHops := v\<rparr>) (decode_strings j)"
  "decode_gw_field ''next-hop'' j a = map_option (\<lambda>v. a\<lparr>gj_NextHop := v\<rparr>) (decode_string (gj_NextHop a) j)"
  "decode_gw_field ''node-port-enable'' j a = map_option (\<lambda>v. a\<lparr>gj_NodePortEnable := v\<rparr>) (decode_string (gj_NodePortEnable a) j)"
  "decode_gw_field ''vlan-id'' j a = map_option (\<lambda>v. a\<lparr>gj_VLANID := v\<rparr>) (decode_string (gj_VLANID a) j)"
  by (simp_all add: decode_gw_field_def gw_key_is gw_keys_def)

lemma decode_gw_members_append:
  "decode_gw_members (ms @ ns) a = Option.bind (decode_gw_members ms a) (decode_gw_members ns)"
  by (induction ms arbitrary: a) (auto split: Option.bind_splits)


lemma decode_opt:
  "decode_gw_members (opt_string k s) a = (if s = [] then Some a else decode_gw_field k (JString s) a)"
  "decode_gw_members (opt_strings k ss) a = (if ss = [] then Some a else decode_gw_field k (encode_strings ss) a)"
proof -
  have b: "Option.bind x (decode_gw_members []) = x" for x by (cases x) auto
  show "decode_gw_members (opt_string k s) a = (if s = [] then Some a else decode_gw_field k (JString s) a)"
    "decode_gw_members (opt_strings k ss) a = (if ss = [] then Some a else decode_gw_field k (encode_strings ss) a)"
    by (simp_all add: opt_string_def opt_strings_def b)
qed

lemma gw_update_same:
  "a\<lparr>gj_InterfaceID := gj_InterfaceID a\<rparr> = a"
  "a\<lparr>gj_MACAddress := gj_MACAddress a\<rparr> = a"
  "a\<lparr>gj_IPAddress := gj_IPAddress a\<rparr> = a"
  "a\<lparr>gj_EgressGWInterfaceID := gj_EgressGWInterfaceID a\<rparr> = a"
  "a\<lparr>gj_EgressGWMACAddress := gj_EgressGWMACAddress a\<rparr> = a"
  "a\<lparr>gj_EgressGWIPAddress := gj_EgressGWIPAddress a\<rparr> = a"
  "a\<lparr>gj_NextHop := gj_NextHop a\<rparr> = a"
  "a\<lparr>gj_NodePortEnable := gj_NodePortEnable a\<rparr> = a"
  "a\<lparr>gj_VLANID := gj_VLANID a\<rparr> = a"
  "a\<lparr>gj_IPAddresses := gj_IPAddresses a\<rparr> = a"
  "a\<lparr>gj_EgressGWIPAddresses := gj_EgressGWIPAddresses a\<rparr> = a"
  "a\<lparr>gj_NextHops := gj_NextHops a\<rparr> = a"
  by (cases a, simp)+

lemma decode_opt_fields:
  "gj_InterfaceID a = [] \<Longrightarrow> decode_gw_members (opt_string ''interface-id'' s) a = Some (a\<lparr>gj_InterfaceID := s\<rparr>)"
  "gj_MACAddress a = [] \<Longrightarrow> decode_gw_members (opt_string ''mac-address'' s) a = Some (a\<lparr>gj_MACAddress := s\<rparr>)"
  "gj_IPAddress a = [] \<Longrightarrow> decode_gw_members (opt_string ''ip-address'' s) a = Some (a\<lparr>gj_IPAddress := s\<rparr>)"
  "gj_EgressGWInterfaceID a = [] \<Longrightarrow> decode_gw_members (opt_string ''exgw-interface-id'' s) a = Some (a\<lparr>gj_EgressGWInterfaceID := s\<rparr>)"
  "gj_EgressGWMACAddress a = [] \<Longrightarrow> decode_gw_members (opt_string ''exgw-mac-address'' s) a = Some (a\<lparr>gj_EgressGWMACAddress := s\<rparr>)"
  "gj_EgressGWIPAddress a = [] \<Longrightarrow> decode_gw_members (opt_string ''exgw-ip-address'' s) a = Some (a\<lparr>gj_EgressGWIPAddress := s\<rparr>)"
  "gj_NextHop a = [] \<Longrightarrow> decode_gw_members (opt_string ''next-hop'' s) a = Some (a\<lparr>gj_NextHop := s\<rparr>)"
  "gj_NodePortEnable a = [] \<Longrightarrow> decode_gw_members (opt_string ''node-port-enable'' s) a = Some (a\<lparr>gj_NodePortEnable := s\<rparr>)"
  "gj_VLANID a = [] \<Longrightarrow> decode_gw_members (opt_string ''vlan-id'' s) a = Some (a\<lparr>gj_VLANID := s\<rparr>)"
  "gj_IPAddresses a = [] \<Longrightarrow> decode_gw_members (opt_strings ''ip-addresses'' ss) a = Some (a\<lparr>gj_IPAddresses := ss\<rparr>)"
  "gj_EgressGWIPAddresses a = [] \<Longrightarrow> decode_gw_members (opt_strings ''exgw-ip-addresses'' ss) a = Some (a\<lparr>gj_EgressGWIPAddresses := ss\<rparr>)"
  "gj_NextHops a = [] \<Longrightarrow> decode_gw_members (opt_strings ''next-hops'' ss) a = Some (a\<lparr>gj_NextHops := ss\<rparr>)"
  unfolding decode_opt decode_gw_fields using gw_update_same [of a] by (simp_all split: if_splits)

lemma decode_encode_gw: "decode_gw (encode_gw a) = Some a"
  by (cases a) (simp add: encode_gw_def decode_gw_members_append decode_opt_fields decode_gw_fields(1) emptyGatewayJSON_def)

lemma parse_addrs_String: "list_all host_net ns \<Longrightarrow> parse_addrs (map IPNet_String ns) = Inr ns"
  by (induction ns) (simp_all add: ParseCIDR_host_net)

lemma parse_hops_String: "list_all (\<lambda>h. length h = 16) hs \<Longrightarrow> parse_hops (map IP_String hs) = Inr hs"
  by (induction hs) (auto simp: ParseIP_String16)

lemma parse_vlan_String:
  assumes "pred_option (\<lambda>v. 0 \<le> v \<and> v \<le> 4095) vlan"
  shows "parse_vlan (case vlan of None \<Rightarrow> [] | Some v \<Rightarrow> utoa v) = Inr vlan"
proof (cases vlan)
  case (Some v)
  then have v: "0 \<le> v" "v \<le> 4095" using assms by auto
  then have "all_digits 0 (utoa v) = Some v" "utoa v \<noteq> []" using all_digits_utoa [of v] utoa_chars(1) [of v] by auto
  then show ?thesis using Some v by (simp add: parse_vlan_def ParseUint_def)
qed (simp add: parse_vlan_def)

text \<open>The configurations that the node writes.\<close>

definition gateway_ok :: "L3GatewayConfig \<Rightarrow> bool" where
  "gateway_ok cfg \<longleftrightarrow> gw_Mode cfg \<in> {''shared'', ''local''} \<and> gw_ChassisID cfg \<noteq> [] \<and> mac_ok (gw_MACAddress cfg)
     \<and> gw_IPAddresses cfg \<noteq> [] \<and> list_all host_net (gw_IPAddresses cfg)
     \<and> (if gw_EgressGWInterfaceID cfg = [] then gw_EgressGWMACAddress cfg = [] \<and> gw_EgressGWIPAddresses cfg = []
        else mac_ok (gw_EgressGWMACAddress cfg) \<and> gw_EgressGWIPAddresses cfg \<noteq> [] \<and> list_all host_net (gw_EgressGWIPAddresses cfg))
     \<and> list_all (\<lambda>h. length h = 16) (gw_NextHops cfg) \<and> pred_option (\<lambda>v. 0 \<le> v \<and> v \<le> 4095) (gw_VLANID cfg)"

lemma gw_parse_marshalled:
  assumes "gateway_ok cfg"
  shows "gw_UnmarshalJSON (gw_MarshalJSON cfg) = Inr (cfg\<lparr>gw_ChassisID := []\<rparr>)"
proof -
  have m: "gw_Mode cfg \<noteq> []" using assms by (auto simp: gateway_ok_def)
  define j where "j = emptyGatewayJSON\<lparr>gj_Mode := gw_Mode cfg, gj_InterfaceID := gw_InterfaceID cfg, gj_MACAddress := HardwareAddr_String (gw_MACAddress cfg),
     gj_EgressGWInterfaceID := gw_EgressGWInterfaceID cfg, gj_EgressGWMACAddress := HardwareAddr_String (gw_EgressGWMACAddress cfg),
     gj_NodePortEnable := (if gw_NodePortEnable cfg then ''true'' else ''false''),
     gj_VLANID := (case gw_VLANID cfg of None \<Rightarrow> [] | Some v \<Rightarrow> utoa v),
     gj_IPAddresses := map IPNet_String (gw_IPAddresses cfg), gj_IPAddress := single (map IPNet_String (gw_IPAddresses cfg)),
     gj_EgressGWIPAddresses := map IPNet_String (gw_EgressGWIPAddresses cfg), gj_EgressGWIPAddress := single (map IPNet_String (gw_EgressGWIPAddresses cfg)),
     gj_NextHops := map IP_String (gw_NextHops cfg), gj_NextHop := single (map IP_String (gw_NextHops cfg))\<rparr>"
  have j: "gw_MarshalJSON cfg = encode_gw j" using m by (simp add: gw_MarshalJSON_def Let_def j_def)
  have vlan: "parse_vlan (gj_VLANID j) = Inr (gw_VLANID cfg)"
    using assms parse_vlan_String [of "gw_VLANID cfg"] by (simp add: j_def gateway_ok_def emptyGatewayJSON_def)
  have mac: "ParseMAC (gj_MACAddress j) = Some (gw_MACAddress cfg)"
    using assms by (simp add: j_def gateway_ok_def emptyGatewayJSON_def ParseMAC_String)
  have egress: "parse_egress_gw j = Inr (gw_EgressGWMACAddress cfg, gw_EgressGWIPAddresses cfg)"
    using assms by (auto simp: parse_egress_gw_def j_def gateway_ok_def emptyGatewayJSON_def ParseMAC_String parse_addrs_String split: if_splits)
  have ips: "parse_addrs (if length (gj_IPAddresses j) = 0 then [gj_IPAddress j] else gj_IPAddresses j) = Inr (gw_IPAddresses cfg)"
    using assms by (simp add: j_def gateway_ok_def emptyGatewayJSON_def parse_addrs_String)
  have hops: "parse_hops (gj_NextHops j) = Inr (gw_NextHops cfg)"
    using assms by (simp add: j_def gateway_ok_def emptyGatewayJSON_def parse_hops_String)
  have rest: "gj_Mode j = gw_Mode cfg" "gj_InterfaceID j = gw_InterfaceID cfg" "gj_EgressGWInterfaceID j = gw_EgressGWInterfaceID cfg"
    "(gj_NodePortEnable j = ''true'') = gw_NodePortEnable cfg" by (simp_all add: j_def emptyGatewayJSON_def)
  have "gw_parse j = Inr (cfg\<lparr>gw_ChassisID := []\<rparr>)"
    unfolding gw_parse_def vlan mac egress ips hops sum.case option.case prod.case rest
    using assms by (cases cfg) (auto simp: gateway_ok_def)
  then show ?thesis by (simp add: gw_UnmarshalJSON_def j decode_encode_gw)
qed


definition example_gateway :: L3GatewayConfig where
  "example_gateway = emptyGateway\<lparr>gw_Mode := ''shared'', gw_ChassisID := ''c1'', gw_InterfaceID := ''br-ex_n1'',
     gw_MACAddress := [2, 0, 0, 0, 0, 1], gw_NodePortEnable := True, gw_VLANID := Some 7,
     gw_IPAddresses := [\<lparr>IP = [0, 0, 0, 0, 0, 0, 0, 0, 0, 0, 255, 255, 192, 168, 1, 5], Mask = [255, 255, 255, 0]\<rparr>],
     gw_NextHops := [[0, 0, 0, 0, 0, 0, 0, 0, 0, 0, 255, 255, 192, 168, 1, 1]]\<rparr>"


text \<open>A document in which the configuration of the default network is \<open>null\<close> crashes the reader.\<close>

lemma null_gateway_crashes:
  "ParseNodeL3GatewayAnnotation \<lparr>node_Name = ''n1'', node_docs = [ovnNodeL3GatewayConfig \<mapsto> Some (JObject [(''default'', JNull)])],
     node_texts = Map.empty\<rparr> = None"
  by code_simp

text \<open>A configuration without addresses can be written, but not read.\<close>

lemma gateway_without_addresses:
  assumes "gw_Mode cfg = ''shared''" "gw_IPAddresses cfg = []" "mac_ok (gw_MACAddress cfg)" "gw_VLANID cfg = None" "gw_EgressGWInterfaceID cfg = []"
  shows "gw_UnmarshalJSON (gw_MarshalJSON cfg) = Inl (BadValue [])"
proof -
  have "ParseCIDR [] = None" by code_simp
  then show ?thesis
    using assms by (simp add: gw_MarshalJSON_def Let_def gw_UnmarshalJSON_def decode_encode_gw gw_parse_def parse_vlan_def
        ParseMAC_String parse_egress_gw_def single_def emptyGatewayJSON_def)
qed

end
