(* ===== verification/Service_Controller.thy ===== *)
theory Service_Controller
  imports Service_LB L3_Gateway
begin

text \<open>
  The service controller (\<open>pkg/ovn/controller/services\<close>): the reconciliation of load balancers with the OVN
  northbound database (\<open>EnsureLBs\<close> of \<open>loadbalancer.go\<close>), the template variables for node addresses
  (\<open>svc_template_var.go\<close>), the node tracker (\<open>node_tracker.go\<close>) and the controller itself
  (\<open>services_controller.go\<close>, \<open>repair.go\<close>).

  What the code asks of the database is the list of operations \<open>nb_op\<close>; whether building an operation succeeds
  and what a transaction answers are given by the record \<open>nb_env\<close>, together with the order in which Go iterates
  over its maps and sets.
\<close>

section \<open>Records of the northbound database\<close>

record nbLB =
  nb_UUID :: string
  nb_Name :: string
  nb_Protocol :: string
  nb_Vips :: "(string \<times> string) list"
  nb_Options :: "(string \<times> string) list"
  nb_ExternalIDs :: "(string \<times> string) list"

type_synonym TemplateMap = "(string \<times> Template) list"

record templateLoadBalancer =
  tlb_nbLB :: nbLB
  tlb_templates :: TemplateMap

definition ToLower :: "string \<Rightarrow> string" where
  "ToLower s = map lower s"

definition bool_string :: "bool \<Rightarrow> string" where
  "bool_string b = (if b then ''true'' else ''false'')"

definition buildVipMap :: "LBRule list \<Rightarrow> (string \<times> string) list" where
  "buildVipMap rules =
     fold (\<lambda>r. AList.update (Addr_String (lr_Source r)) (join '','' (map Addr_String (lr_Targets r)))) rules []"

definition BuildLoadBalancer ::
  "string \<Rightarrow> string \<Rightarrow> (string \<times> string) list \<Rightarrow> (string \<times> string) list \<Rightarrow> (string \<times> string) list \<Rightarrow> nbLB" where
  "BuildLoadBalancer name protocol vips options externalIds =
     \<lparr>nb_UUID = [], nb_Name = name, nb_Protocol = protocol, nb_Vips = vips, nb_Options = options, nb_ExternalIDs = externalIds\<rparr>"

definition buildLB :: "svc_config \<Rightarrow> LB \<Rightarrow> templateLoadBalancer" where
  "buildLB cfg l =
     (let opts = lb_Opts l;
          options =
            [(''reject'', bool_string (op_Reject opts)), (''event'', bool_string (op_EmptyLBEvents opts)),
             (''skip_snat'', bool_string (op_SkipSNAT opts)), (''neighbor_responder'', ''none''),
             (''hairpin_snat_ip'', IP_String (sc_V4Hairpin cfg) @ '' '' @ IP_String (sc_V6Hairpin cfg))]
            @ (if op_AffinityTimeOut opts > 0 then [(''affinity_timeout'', itoa (op_AffinityTimeOut opts))] else [])
            @ (if op_Template opts then
                 [(''template'', ''true'')]
                 @ (if op_AddressFamily opts \<noteq> [] then [(''address-family'', ToLower (op_AddressFamily opts))] else [])
               else [])
      in \<lparr>tlb_nbLB = BuildLoadBalancer (lb_Name l) (ToLower (lb_Protocol l)) (buildVipMap (lb_Rules l)) options (lb_ExternalIDs l),
          tlb_templates = lb_Templates l\<rparr>)"

section \<open>Template variables\<close>

text \<open>The flattened records: per chassis, the variables.\<close>

fun flatten_values :: "string \<Rightarrow> (string \<times> string) list \<Rightarrow> (string \<times> (string \<times> string) list) list \<Rightarrow> (string \<times> (string \<times> string) list) list" where
  "flatten_values name [] m = m"
| "flatten_values name ((chassis, v) # vs) m =
     flatten_values name vs
       (AList.update chassis (AList.update name v (case map_of m chassis of None \<Rightarrow> [] | Some vars \<Rightarrow> vars)) m)"

definition flatten_maps :: "TemplateMap list \<Rightarrow> (string \<times> (string \<times> string) list) list" where
  "flatten_maps maps = fold (\<lambda>tm. fold (\<lambda>(_, t). flatten_values (tm_Name t) (tm_Value t)) tm) maps []"

definition isTemplateReference :: "string \<Rightarrow> bool" where
  "isTemplateReference name \<longleftrightarrow> take 1 name = ''^''"

definition templateNameFromReference :: "string \<Rightarrow> string" where
  "templateNameFromReference s = (if isTemplateReference s then drop 1 s else s)"

fun lb_template_loop :: "string list \<Rightarrow> TemplateMap \<Rightarrow> TemplateMap \<Rightarrow> TemplateMap" where
  "lb_template_loop [] allTemplates res = res"
| "lb_template_loop (s # ss) allTemplates res =
     lb_template_loop ss allTemplates
       (if isTemplateReference s then
          (case map_of allTemplates (templateNameFromReference s) of None \<Rightarrow> res | Some t \<Rightarrow> AList.update (tm_Name t) t res)
        else res)"

definition getLoadBalancerTemplates :: "nbLB \<Rightarrow> TemplateMap \<Rightarrow> TemplateMap" where
  "getLoadBalancerTemplates l allTemplates = lb_template_loop (concat (map (\<lambda>(v, b). [v, b]) (nb_Vips l))) allTemplates []"

text \<open>The templates by name, from the chassis records of the database.\<close>

fun list_template_loop :: "string \<Rightarrow> (string \<times> string) list \<Rightarrow> TemplateMap \<Rightarrow> TemplateMap" where
  "list_template_loop chassis [] m = m"
| "list_template_loop chassis ((name, v) # vars) m =
     list_template_loop chassis vars
       (let tv = (case map_of m name of None \<Rightarrow> \<lparr>tm_Name = name, tm_Value = []\<rparr> | Some t \<Rightarrow> t)
        in AList.update name (tv\<lparr>tm_Value := AList.update chassis v (tm_Value tv)\<rparr>) m)"

definition listSvcTemplates :: "(string \<times> (string \<times> string) list) list \<Rightarrow> TemplateMap" where
  "listSvcTemplates records = fold (\<lambda>(chassis, vars). list_template_loop chassis vars) records []"

definition makeLBNodeIPTemplateNamePrefix :: "string \<Rightarrow> string" where
  "makeLBNodeIPTemplateNamePrefix family = ''NODEIP_'' @ family @ ''_''"

definition has_prefix :: "string \<Rightarrow> string \<Rightarrow> bool" where
  "has_prefix s p \<longleftrightarrow> take (length p) s = p"

definition isLBNodeIPTemplateName :: "string \<Rightarrow> bool" where
  "isLBNodeIPTemplateName name \<longleftrightarrow>
     has_prefix name (makeLBNodeIPTemplateNamePrefix ''IPv4'') \<or> has_prefix name (makeLBNodeIPTemplateNamePrefix ''IPv6'')"

record NodeIPsTemplates =
  nt_ipFamily :: string
  nt_templates :: "Template list"

definition NewNodeIPsTemplates :: "string \<Rightarrow> NodeIPsTemplates" where
  "NewNodeIPsTemplates family = \<lparr>nt_ipFamily = family, nt_templates = []\<rparr>"

fun add_ip_loop :: "string \<Rightarrow> string \<Rightarrow> string \<Rightarrow> nat \<Rightarrow> Template list \<Rightarrow> Template list" where
  "add_ip_loop family chassisID x n [] =
     [\<lparr>tm_Name = makeLBNodeIPTemplateNamePrefix family @ itoa (int n), tm_Value = [(chassisID, x)]\<rparr>]"
| "add_ip_loop family chassisID x n (t # ts) =
     (case map_of (tm_Value t) chassisID of
        None \<Rightarrow> t\<lparr>tm_Value := AList.update chassisID x (tm_Value t)\<rparr> # ts
      | Some _ \<Rightarrow> t # add_ip_loop family chassisID x n ts)"

definition AddIP :: "string \<Rightarrow> ip \<Rightarrow> NodeIPsTemplates \<Rightarrow> NodeIPsTemplates" where
  "AddIP chassisID x n =
     n\<lparr>nt_templates := add_ip_loop (nt_ipFamily n) chassisID (IP_String x) (length (nt_templates n)) (nt_templates n)\<rparr>"

definition AsTemplateMap :: "NodeIPsTemplates \<Rightarrow> TemplateMap" where
  "AsTemplateMap n = fold (\<lambda>t. AList.update (tm_Name t) t) (nt_templates n) []"

section \<open>Reconciling load balancers\<close>

datatype nb_op =
    CreateOrUpdateLoadBalancers "nbLB list"
  | CreateOrUpdateChassisTemplateVar string "(string \<times> string) list"
  | AddLoadBalancersToLogicalSwitch string "nbLB list"
  | RemoveLoadBalancersFromLogicalSwitch string "nbLB list"
  | AddLoadBalancersToLogicalRouter string "nbLB list"
  | RemoveLoadBalancersFromLogicalRouter string "nbLB list"
  | AddLoadBalancersToGroup string "nbLB list"
  | RemoveLoadBalancersFromGroup string "nbLB list"
  | DeleteLoadBalancers "string list"
  | DeleteChassisTemplateVarVariables string "(string \<times> string) list"

text \<open>A transaction answers with the identifiers of the load balancers that were created or updated, in
  their order.\<close>

record nb_env =
  ne_opOk :: "nb_op \<Rightarrow> bool"
  ne_transact :: "nb_op list \<Rightarrow> string list option"
  ne_order :: "string list \<Rightarrow> string list"

definition set_diff :: "string list \<Rightarrow> string list \<Rightarrow> string list" where
  "set_diff xs ys = remdups (filter (\<lambda>x. x \<notin> set ys) xs)"

text \<open>The keys of the map that \<open>mapLBDifferenceByKey\<close> builds, and the load balancers at a key: the wanted ones
  whose own difference has the key.\<close>

definition diff_at :: "(LB \<Rightarrow> string list) \<Rightarrow> (LB \<Rightarrow> string list) \<Rightarrow> (LB \<times> nbLB) list \<Rightarrow> string \<Rightarrow> nbLB list" where
  "diff_at keyIn keyNotIn tlbs k = map snd (filter (\<lambda>(l, _). k \<in> set (set_diff (keyIn l) (keyNotIn l))) tlbs)"

definition diff_keys :: "(LB \<Rightarrow> string list) \<Rightarrow> (LB \<Rightarrow> string list) \<Rightarrow> (LB \<times> nbLB) list \<Rightarrow> string list" where
  "diff_keys keyIn keyNotIn tlbs = remdups (concat (map (\<lambda>(l, _). set_diff (keyIn l) (keyNotIn l)) tlbs))"

definition diff_ops ::
  "nb_env \<Rightarrow> (string \<Rightarrow> nbLB list \<Rightarrow> nb_op) \<Rightarrow> (LB \<Rightarrow> string list) \<Rightarrow> (LB \<Rightarrow> string list) \<Rightarrow> (LB \<times> nbLB) list \<Rightarrow> nb_op list" where
  "diff_ops e mk keyIn keyNotIn tlbs = map (\<lambda>k. mk k (diff_at keyIn keyNotIn tlbs k)) (ne_order e (diff_keys keyIn keyNotIn tlbs))"

text \<open>The existing load balancer of a name: the last one of the cache.\<close>

definition existing_named :: "LB list \<Rightarrow> string \<Rightarrow> LB option" where
  "existing_named existing name = find (\<lambda>l. lb_Name l = name) (rev existing)"

definition existing_field :: "LB list \<Rightarrow> (LB \<Rightarrow> string list) \<Rightarrow> LB \<Rightarrow> string list" where
  "existing_field existing f l = (case existing_named existing (lb_Name l) of None \<Rightarrow> [] | Some x \<Rightarrow> f x)"

text \<open>The cached load balancers that are not wanted any more: the map is keyed by identifier, later entries
  replace earlier ones.\<close>

definition stale :: "LB list \<Rightarrow> LB list \<Rightarrow> (string \<times> LB) list" where
  "stale existing lbs =
     filter (\<lambda>(uuid, _). \<forall>l \<in> set lbs. case existing_named existing (lb_Name l) of None \<Rightarrow> True | Some x \<Rightarrow> lb_UUID x \<noteq> uuid)
       (fold (\<lambda>l. AList.update (lb_UUID l) l) existing [])"

definition build_all :: "svc_config \<Rightarrow> LB list \<Rightarrow> LB list \<Rightarrow> (LB \<times> templateLoadBalancer) list" where
  "build_all cfg existing lbs =
     map (\<lambda>l. (l, let t = buildLB cfg l
                  in case existing_named existing (lb_Name l) of
                       None \<Rightarrow> t
                     | Some x \<Rightarrow> t\<lparr>tlb_nbLB := (tlb_nbLB t)\<lparr>nb_UUID := lb_UUID x\<rparr>\<rparr>)) lbs"

definition template_ops :: "nb_env \<Rightarrow> (string \<Rightarrow> (string \<times> string) list \<Rightarrow> nb_op) \<Rightarrow> TemplateMap list \<Rightarrow> nb_op list" where
  "template_ops e mk maps =
     (let flattened = flatten_maps maps
      in map (\<lambda>chassis. mk chassis (case map_of flattened chassis of None \<Rightarrow> [] | Some vars \<Rightarrow> vars)) (ne_order e (map fst flattened)))"

definition ensure_ops :: "nb_env \<Rightarrow> svc_config \<Rightarrow> LB list \<Rightarrow> LB list \<Rightarrow> nb_op list" where
  "ensure_ops e cfg existing lbs =
     (let tlbs = build_all cfg existing lbs;
          pairs = map (\<lambda>(l, t). (l, tlb_nbLB t)) tlbs;
          old = existing_field existing;
          deleted = stale existing lbs
      in [CreateOrUpdateLoadBalancers (map snd pairs)]
         @ template_ops e CreateOrUpdateChassisTemplateVar (map (\<lambda>(_, t). tlb_templates t) tlbs)
         @ diff_ops e AddLoadBalancersToLogicalSwitch lb_Switches (old lb_Switches) pairs
         @ diff_ops e RemoveLoadBalancersFromLogicalSwitch (old lb_Switches) lb_Switches pairs
         @ diff_ops e AddLoadBalancersToLogicalRouter lb_Routers (old lb_Routers) pairs
         @ diff_ops e RemoveLoadBalancersFromLogicalRouter (old lb_Routers) lb_Routers pairs
         @ diff_ops e AddLoadBalancersToGroup lb_Groups (old lb_Groups) pairs
         @ diff_ops e RemoveLoadBalancersFromGroup (old lb_Groups) lb_Groups pairs
         @ [DeleteLoadBalancers (map fst deleted)]
         @ template_ops e DeleteChassisTemplateVarVariables (map (\<lambda>(_, l). lb_Templates l) deleted))"

text \<open>The identifiers are stored by name: of load balancers with the same name, the last one gets the last
  identifier.\<close>

definition store_uuids :: "string list \<Rightarrow> LB list \<Rightarrow> LB list" where
  "store_uuids uuids lbs =
     map (\<lambda>i. let l = lbs ! i
              in if \<exists>j \<in> {i + 1 ..< length lbs}. lb_Name (lbs ! j) = lb_Name l then l else l\<lparr>lb_UUID := uuids ! i\<rparr>) [0 ..< length lbs]"

text \<open>The result: the operations of the transaction, if there was one, and the load balancers with their
  identifiers, if it succeeded.\<close>

definition EnsureLBs :: "nb_env \<Rightarrow> svc_config \<Rightarrow> LB list \<Rightarrow> LB list \<Rightarrow> nb_op list option \<times> LB list option" where
  "EnsureLBs e cfg existing lbs =
     (let ops = ensure_ops e cfg existing lbs
      in if \<not> list_all (ne_opOk e) ops then (None, None)
         else (Some ops, map_option (\<lambda>uuids. store_uuids uuids lbs) (ne_transact e ops)))"

definition LoadBalancersEqualNoUUID :: "LB list \<Rightarrow> LB list \<Rightarrow> bool" where
  "LoadBalancersEqualNoUUID lbs1 lbs2 \<longleftrightarrow>
     length lbs1 = length lbs2 \<and>
     replicate (length lbs1) emptyLB @ map (\<lambda>l. l\<lparr>lb_UUID := []\<rparr>) lbs1 = replicate (length lbs2) emptyLB @ map (\<lambda>l. l\<lparr>lb_UUID := []\<rparr>) lbs2"


section \<open>The node tracker\<close>

record nodeTracker =
  tr_nodes :: "(string \<times> nodeInfo) list"
  tr_zone :: string

definition newNodeTracker :: "string \<Rightarrow> nodeTracker" where
  "newNodeTracker zone = \<lparr>tr_nodes = [], tr_zone = zone\<rparr>"

definition in_zone :: "string \<Rightarrow> nodeInfo \<Rightarrow> bool" where
  "in_zone zone ni \<longleftrightarrow> (if zone = OvnDefaultZone then \<not> nf_migrated ni else nf_zone ni = zone)"

definition getZoneNodes :: "nodeTracker \<Rightarrow> nodeInfo list" where
  "getZoneNodes nt = sort_key nf_name (filter (in_zone (tr_zone nt)) (map snd (tr_nodes nt)))"

text \<open>A change of the tracker, and the nodes with which it asks for a full sync, if it does.\<close>

definition updateNodeInfo :: "nodeInfo \<Rightarrow> nodeTracker \<Rightarrow> nodeTracker \<times> nodeInfo list option" where
  "updateNodeInfo ni nt =
     (if map_of (tr_nodes nt) (nf_name ni) = Some ni then (nt, None)
      else let nt1 = nt\<lparr>tr_nodes := AList.update (nf_name ni) ni (tr_nodes nt)\<rparr> in (nt1, Some (getZoneNodes nt1)))"

definition removeNode :: "string \<Rightarrow> nodeTracker \<Rightarrow> nodeTracker" where
  "removeNode nodeName nt = nt\<lparr>tr_nodes := AList.delete nodeName (tr_nodes nt)\<rparr>"

definition removeNodeWithServiceReSync :: "string \<Rightarrow> nodeTracker \<Rightarrow> nodeTracker \<times> nodeInfo list option" where
  "removeNodeWithServiceReSync nodeName nt = (let nt1 = removeNode nodeName nt in (nt1, Some (getZoneNodes nt1)))"

text \<open>The facts that \<open>updateNode\<close> reads from the annotations of a node with subnets: the router, the addresses of
  the gateway and the chassis. A nil gateway configuration crashes (\<open>None\<close>).\<close>

definition gateway_facts :: "Node \<Rightarrow> (string \<times> ip list \<times> string) option" where
  "gateway_facts node =
     map_option (\<lambda>res. case res of
         Inl _ \<Rightarrow> ([], [], [])
       | Inr gwConf \<Rightarrow>
           if gw_Mode gwConf \<noteq> [] then
             (GetGatewayRouterFromNode (node_Name node),
              (if gw_NodePortEnable gwConf then map IP (gw_IPAddresses gwConf) else []), gw_ChassisID gwConf)
           else ([], [], []))
       (ParseNodeL3GatewayAnnotation node)"

definition host_ips :: "(string set \<Rightarrow> string list) \<Rightarrow> Node \<Rightarrow> ip list" where
  "host_ips unsorted node =
     map ParseIP (unsorted (case ParseNodeHostAddressesDropNetMask node of Inl _ \<Rightarrow> {} | Inr hostAddresses \<Rightarrow> hostAddresses))"

text \<open>\<open>unsorted\<close> is the order in which Go lists a set.\<close>

definition updateNode :: "(string set \<Rightarrow> string list) \<Rightarrow> Node \<Rightarrow> nodeTracker \<Rightarrow> (nodeTracker \<times> nodeInfo list option) option" where
  "updateNode unsorted node nt =
     (case ParseNodeHostSubnetAnnotation node ''default'' of
        Inl _ \<Rightarrow> Some (removeNode (node_Name node) nt, None)
      | Inr [] \<Rightarrow> Some (removeNode (node_Name node) nt, None)
      | Inr (s # hsn) \<Rightarrow>
          map_option (\<lambda>(grName, l3gatewayAddresses, chassisID).
              updateNodeInfo \<lparr>nf_name = node_Name node, nf_l3gatewayAddresses = l3gatewayAddresses,
                nf_hostAddresses = host_ips unsorted node, nf_podSubnets = s # hsn, nf_gatewayRouterName = grName,
                nf_switchName = node_Name node, nf_chassisID = chassisID, nf_zone = GetNodeZone node,
                nf_migrated = HasNodeMigratedZone node\<rparr> nt)
            (gateway_facts node))"

text \<open>The handlers of node events. An update is followed only when it changes what the tracker reads.\<close>

definition tracked_change :: "Node \<Rightarrow> Node \<Rightarrow> bool" where
  "tracked_change oldObj newObj \<longleftrightarrow>
     node_docs oldObj ovnNodeSubnets \<noteq> node_docs newObj ovnNodeSubnets \<or> NodeL3GatewayAnnotationChanged oldObj newObj \<or>
     node_Name oldObj \<noteq> node_Name newObj \<or> node_docs oldObj ovnNodeHostAddresses \<noteq> node_docs newObj ovnNodeHostAddresses \<or>
     NodeZoneAnnotationChanged oldObj newObj \<or> NodeMigratedZoneAnnotationChanged oldObj newObj"

section \<open>The controller\<close>

record labelledSlice = EndpointSlice +
  ls_Namespace :: string
  ls_Labels :: "(string \<times> string) list"

text \<open>What the controller reads of its environment: configuration, database client, informer caches. A lister
  answers with an error (\<open>Inl\<close>), with nothing, or with the object.\<close>

record svc_world =
  sw_cfg :: svc_config
  sw_env :: nb_env
  sw_IPv4Mode :: bool
  sw_IPv6Mode :: bool
  sw_get :: "string \<Rightarrow> string \<Rightarrow> unit + Service option"
  sw_list :: "Service list option"
  sw_slices :: "labelledSlice list option"

record Controller =
  sv_queue :: "string list"
  sv_requeues :: "string \<Rightarrow> nat"
  sv_nodeInfos :: "nodeInfo list"
  sv_nodeIPv4Templates :: NodeIPsTemplates
  sv_nodeIPv6Templates :: NodeIPsTemplates
  sv_alreadyApplied :: "string \<rightharpoonup> LB list"
  sv_unsyncedServices :: "string set"
  sv_useLBGroups :: bool
  sv_useTemplates :: bool
  sv_sent :: "nb_op list list"

datatype svc_error = BadKey | ListerError | SlicesError | DeleteFailed | EnsureFailed

definition maxRetries :: nat where
  "maxRetries = 15"

definition sv_send :: "nb_op list option \<Rightarrow> Controller \<Rightarrow> Controller" where
  "sv_send ops c = (case ops of None \<Rightarrow> c | Some t \<Rightarrow> c\<lparr>sv_sent := sv_sent c @ [t]\<rparr>)"

subsection \<open>Node addresses\<close>

definition add_ips :: "string \<Rightarrow> ip list \<Rightarrow> NodeIPsTemplates \<Rightarrow> NodeIPsTemplates" where
  "add_ips chassisID ips n = fold (AddIP chassisID) ips n"

text \<open>A node without an IPv4 address in a cluster with IPv4 is skipped for IPv6 too.\<close>

definition node_templates :: "bool \<Rightarrow> bool \<Rightarrow> nodeInfo \<Rightarrow> NodeIPsTemplates \<times> NodeIPsTemplates \<Rightarrow> NodeIPsTemplates \<times> NodeIPsTemplates" where
  "node_templates v4mode v6mode ni t =
     (if nf_chassisID ni = [] then t
      else case (if v4mode then MatchIPFamily False (nf_hostAddresses ni) else Inr []) of
          Inl _ \<Rightarrow> t
        | Inr ips4 \<Rightarrow>
            (let t4 = add_ips (nf_chassisID ni) ips4 (fst t)
             in case (if v6mode then MatchIPFamily True (nf_hostAddresses ni) else Inr []) of
                  Inl _ \<Rightarrow> (t4, snd t)
                | Inr ips6 \<Rightarrow> (t4, add_ips (nf_chassisID ni) ips6 (snd t))))"

definition svcCreateOrUpdateTemplateVar :: "nb_env \<Rightarrow> TemplateMap list \<Rightarrow> nb_op list option" where
  "svcCreateOrUpdateTemplateVar e maps =
     (let ops = template_ops e CreateOrUpdateChassisTemplateVar maps in if list_all (ne_opOk e) ops then Some ops else None)"

definition syncNodeInfos :: "svc_world \<Rightarrow> nodeInfo list \<Rightarrow> Controller \<Rightarrow> Controller" where
  "syncNodeInfos w infos c =
     (let c1 = c\<lparr>sv_nodeInfos := infos\<rparr>
      in if \<not> sv_useTemplates c then c1
         else let (t4, t6) = fold (node_templates (sw_IPv4Mode w) (sw_IPv6Mode w)) infos
                               (NewNodeIPsTemplates ''IPv4'', NewNodeIPsTemplates ''IPv6'')
              in sv_send (svcCreateOrUpdateTemplateVar (sw_env w) [AsTemplateMap t4, AsTemplateMap t6])
                   (c1\<lparr>sv_nodeIPv4Templates := t4, sv_nodeIPv6Templates := t6\<rparr>))"

subsection \<open>The queue\<close>

definition queue_Add :: "string \<Rightarrow> Controller \<Rightarrow> Controller" where
  "queue_Add key c = (if key \<in> set (sv_queue c) then c else c\<lparr>sv_queue := sv_queue c @ [key]\<rparr>)"

definition MetaNamespaceKeyFunc :: "Service \<Rightarrow> string" where
  "MetaNamespaceKeyFunc s =
     (if svc_Namespace s \<noteq> [] then svc_Namespace s @ ''/'' @ svc_Name s else svc_Name s)"

definition onServiceAdd :: "Service \<Rightarrow> Controller \<Rightarrow> Controller" where
  "onServiceAdd service c = queue_Add (MetaNamespaceKeyFunc service) c"

definition onServiceUpdate :: "string \<Rightarrow> string \<Rightarrow> bool \<Rightarrow> Service \<Rightarrow> Controller \<Rightarrow> Controller" where
  "onServiceUpdate oldVersion newVersion deleting newService c =
     (if oldVersion = newVersion \<or> deleting then c else queue_Add (MetaNamespaceKeyFunc newService) c)"

definition onServiceDelete :: "Service \<Rightarrow> Controller \<Rightarrow> Controller" where
  "onServiceDelete service c = queue_Add (MetaNamespaceKeyFunc service) c"

definition LabelServiceName :: string where
  "LabelServiceName = ''kubernetes.io/service-name''"

definition ServiceControllerKey :: "labelledSlice \<Rightarrow> string option" where
  "ServiceControllerKey s =
     (case map_of (ls_Labels s) LabelServiceName of
        None \<Rightarrow> None
      | Some serviceName \<Rightarrow> if serviceName = [] then None else Some (ls_Namespace s @ ''/'' @ serviceName))"

definition queueServiceForEndpointSlice :: "labelledSlice \<Rightarrow> Controller \<Rightarrow> Controller" where
  "queueServiceForEndpointSlice s c = (case ServiceControllerKey s of None \<Rightarrow> c | Some key \<Rightarrow> queue_Add key c)"

definition onEndpointSliceUpdate :: "string \<Rightarrow> string \<Rightarrow> bool \<Rightarrow> labelledSlice \<Rightarrow> Controller \<Rightarrow> Controller" where
  "onEndpointSliceUpdate oldVersion newVersion deleting s c =
     (if oldVersion = newVersion \<or> deleting then c else queueServiceForEndpointSlice s c)"

definition RequestFullSync :: "svc_world \<Rightarrow> nodeInfo list \<Rightarrow> Controller \<Rightarrow> Controller" where
  "RequestFullSync w infos c =
     (let c1 = syncNodeInfos w infos c
      in case sw_list w of None \<Rightarrow> c1 | Some services \<Rightarrow> fold onServiceAdd services c1)"

subsection \<open>Syncing a service\<close>

fun split_slash :: "string \<Rightarrow> string list" where
  "split_slash [] = [[]]"
| "split_slash (c # s) =
     (if c = CHR ''/'' then [] # split_slash s
      else case split_slash s of [] \<Rightarrow> [[c]] | p # ps \<Rightarrow> (c # p) # ps)"

definition SplitMetaNamespaceKey :: "string \<Rightarrow> (string \<times> string) option" where
  "SplitMetaNamespaceKey key =
     (case split_slash key of [name] \<Rightarrow> Some ([], name) | [namespace, name] \<Rightarrow> Some (namespace, name) | _ \<Rightarrow> None)"

definition serviceSynced :: "string \<Rightarrow> Controller \<Rightarrow> Controller" where
  "serviceSynced key c = c\<lparr>sv_unsyncedServices := sv_unsyncedServices c - {key}\<rparr>"

definition service_slices :: "labelledSlice list \<Rightarrow> string \<Rightarrow> string \<Rightarrow> EndpointSlice list" where
  "service_slices slices namespace name =
     map EndpointSlice.truncate (filter (\<lambda>s. ls_Namespace s = namespace \<and> map_of (ls_Labels s) LabelServiceName = Some name) slices)"

text \<open>The load balancers of a service: cluster-wide, template, and per node.\<close>

definition desired_lbs :: "svc_config \<Rightarrow> Service \<Rightarrow> EndpointSlice list \<Rightarrow> Controller \<Rightarrow> LB list option" where
  "desired_lbs cfg service slices c =
     map_option (\<lambda>(perNode, tmpl, cluster).
         buildClusterLBs cfg service cluster (sv_nodeInfos c) (sv_useLBGroups c)
         @ buildTemplateLBs cfg service tmpl (sv_nodeInfos c) (nt_templates (sv_nodeIPv4Templates c)) (nt_templates (sv_nodeIPv6Templates c))
         @ buildPerNodeLBs cfg service perNode (sv_nodeInfos c))
       (buildServiceLBConfigs cfg service slices (sv_useLBGroups c) (sv_useTemplates c))"

definition sync_deleted :: "svc_world \<Rightarrow> string \<Rightarrow> Controller \<Rightarrow> svc_error option \<times> Controller" where
  "sync_deleted w key c =
     (case sv_alreadyApplied c key of
        None \<Rightarrow> (None, serviceSynced key c)
      | Some existingLBs \<Rightarrow>
          (case EnsureLBs (sw_env w) (sw_cfg w) existingLBs [] of
             (ops, None) \<Rightarrow> (Some DeleteFailed, sv_send ops c)
           | (ops, Some _) \<Rightarrow>
               (None, serviceSynced key ((sv_send ops c)\<lparr>sv_alreadyApplied := (sv_alreadyApplied c)(key := None)\<rparr>))))"

definition sync_present :: "svc_world \<Rightarrow> string \<Rightarrow> LB list \<Rightarrow> Controller \<Rightarrow> svc_error option \<times> Controller" where
  "sync_present w key lbs c =
     (let existingLBs = (case sv_alreadyApplied c key of None \<Rightarrow> [] | Some l \<Rightarrow> l)
      in if sv_alreadyApplied c key \<noteq> None \<and> LoadBalancersEqualNoUUID existingLBs lbs then (None, serviceSynced key c)
         else case EnsureLBs (sw_env w) (sw_cfg w) existingLBs lbs of
             (ops, None) \<Rightarrow> (Some EnsureFailed, sv_send ops c)
           | (ops, Some stored) \<Rightarrow>
               (None, serviceSynced key ((sv_send ops c)\<lparr>sv_alreadyApplied := (sv_alreadyApplied c)(key \<mapsto> stored)\<rparr>)))"

text \<open>\<open>None\<close>: an endpoint slice with nil fields crashes the worker.\<close>

definition syncService :: "svc_world \<Rightarrow> string \<Rightarrow> Controller \<Rightarrow> (svc_error option \<times> Controller) option" where
  "syncService w key c =
     (case SplitMetaNamespaceKey key of
        None \<Rightarrow> Some (Some BadKey, c)
      | Some (namespace, name) \<Rightarrow>
          (case sw_get w namespace name of
             Inl _ \<Rightarrow> Some (Some ListerError, c)
           | Inr None \<Rightarrow> Some (sync_deleted w key c)
           | Inr (Some service) \<Rightarrow>
               if \<not> ServiceTypeHasClusterIP service \<or> \<not> IsClusterIPSet service then Some (sync_deleted w key c)
               else case sw_slices w of
                   None \<Rightarrow> Some (Some SlicesError, c)
                 | Some slices \<Rightarrow>
                     map_option (\<lambda>lbs. sync_present w key lbs c)
                       (desired_lbs (sw_cfg w) service (service_slices slices namespace name) c)))"

subsection \<open>The worker\<close>

text \<open>A failed key is queued again until it has been retried \<open>maxRetries\<close> times; then it is dropped. Whether the
  back-off has passed is left out: the key is in the queue at once.\<close>

definition Forget :: "string \<Rightarrow> Controller \<Rightarrow> Controller" where
  "Forget key c = c\<lparr>sv_requeues := (sv_requeues c)(key := 0)\<rparr>"

definition AddRateLimited :: "string \<Rightarrow> Controller \<Rightarrow> Controller" where
  "AddRateLimited key c = queue_Add key (c\<lparr>sv_requeues := (sv_requeues c)(key := sv_requeues c key + 1)\<rparr>)"

definition handleErr :: "svc_error option \<Rightarrow> string \<Rightarrow> Controller \<Rightarrow> Controller" where
  "handleErr err key c =
     (if err = None then Forget key c
      else if sv_requeues c key < maxRetries then AddRateLimited key c
      else Forget key c)"

definition processNextWorkItem :: "svc_world \<Rightarrow> Controller \<Rightarrow> Controller option" where
  "processNextWorkItem w c =
     (case sv_queue c of
        [] \<Rightarrow> Some c
      | key # rest \<Rightarrow>
          map_option (\<lambda>(err, c1). handleErr err key c1) (syncService w key (c\<lparr>sv_queue := rest\<rparr>)))"


section \<open>Start-up: the cache and the repair\<close>

text \<open>The tables of the northbound database that are read at start-up; \<open>None\<close> is a failed read. Switches, routers
  and groups carry the identifiers of their load balancers.\<close>

record nb_db =
  db_lbs :: "nbLB list option"
  db_switches :: "(string \<times> string list) list option"
  db_routers :: "(string \<times> string list) list option"
  db_groups :: "(string \<times> string list) list option"
  db_templates :: "(string \<times> (string \<times> string) list) list option"

definition external_id :: "nbLB \<Rightarrow> string \<Rightarrow> string" where
  "external_id l k = (case map_of (nb_ExternalIDs l) k of None \<Rightarrow> [] | Some v \<Rightarrow> v)"

definition attached_to :: "(string \<times> string list) list \<Rightarrow> string \<Rightarrow> string list" where
  "attached_to rows uuid = concat (map (\<lambda>(name, uuids). map (\<lambda>_. name) (filter (\<lambda>u. u = uuid) uuids)) rows)"

definition cached_lb ::
  "TemplateMap \<Rightarrow> (string \<times> string list) list \<Rightarrow> (string \<times> string list) list \<Rightarrow> (string \<times> string list) list \<Rightarrow> nbLB \<Rightarrow> LB" where
  "cached_lb allTemplates switches routers groups l =
     emptyLB\<lparr>lb_UUID := nb_UUID l, lb_Name := nb_Name l, lb_ExternalIDs := nb_ExternalIDs l,
       lb_Templates := getLoadBalancerTemplates l allTemplates, lb_Protocol := nb_Protocol l,
       lb_Switches := attached_to switches (nb_UUID l), lb_Routers := attached_to routers (nb_UUID l),
       lb_Groups := attached_to groups (nb_UUID l)\<rparr>"

definition is_service_lb :: "bool \<Rightarrow> nbLB \<Rightarrow> bool" where
  "is_service_lb withServiceOwner l \<longleftrightarrow>
     external_id l ''k8s.ovn.org/kind'' = ''Service'' \<and>
     (withServiceOwner \<longrightarrow> map_of (nb_ExternalIDs l) ''k8s.ovn.org/owner'' \<noteq> None)"

text \<open>The load balancers by identifier, in the order in which Go walks the map.\<close>

definition getLBsCommon :: "nb_env \<Rightarrow> nb_db \<Rightarrow> TemplateMap \<Rightarrow> bool \<Rightarrow> LB list option" where
  "getLBsCommon e db allTemplates withServiceOwner =
     (case (db_lbs db, db_switches db, db_routers db, db_groups db) of
        (Some lbs, Some switches, Some routers, Some groups) \<Rightarrow>
          (let outMap = fold (\<lambda>l. AList.update (nb_UUID l) (cached_lb allTemplates switches routers groups l))
                          (filter (is_service_lb withServiceOwner) lbs) []
           in Some (List.map_filter (map_of outMap) (ne_order e (map fst outMap))))
      | _ \<Rightarrow> None)"

definition lb_owner :: "LB \<Rightarrow> string" where
  "lb_owner l = (case map_of (lb_ExternalIDs l) ''k8s.ovn.org/owner'' of None \<Rightarrow> [] | Some v \<Rightarrow> v)"

definition initTopLevelCache :: "nb_env \<Rightarrow> nb_db \<Rightarrow> Controller \<Rightarrow> Controller option" where
  "initTopLevelCache e db c =
     Option.bind (if sv_useTemplates c then map_option listSvcTemplates (db_templates db) else Some []) (\<lambda>allTemplates.
       map_option (\<lambda>lbs. c\<lparr>sv_alreadyApplied :=
           (\<lambda>service. let own = filter (\<lambda>l. lb_owner l = service) lbs in if own = [] then None else Some own)\<rparr>)
         (getLBsCommon e db allTemplates True))"

text \<open>The repair: the load balancers and the templates it deletes. Failed reads are only logged.\<close>

definition repair_stale :: "svc_world \<Rightarrow> LB \<Rightarrow> bool" where
  "repair_stale w l \<longleftrightarrow>
     (case SplitMetaNamespaceKey (lb_owner l) of
        None \<Rightarrow> True
      | Some (namespace, name) \<Rightarrow> namespace = [] \<or> sw_get w namespace name = Inr None)"

definition runBeforeSync :: "svc_world \<Rightarrow> nb_db \<Rightarrow> bool \<Rightarrow> Controller \<Rightarrow> Controller \<times> string list \<times> string set" where
  "runBeforeSync w db useTemplates c =
     (let services = (case sw_list w of None \<Rightarrow> [] | Some l \<Rightarrow> l);
          c1 = c\<lparr>sv_unsyncedServices := sv_unsyncedServices c \<union> set (map MetaNamespaceKeyFunc services)\<rparr>;
          allTemplates = (if useTemplates then case db_templates db of None \<Rightarrow> [] | Some rows \<Rightarrow> listSvcTemplates rows else []);
          existingLBs = (case getLBsCommon (sw_env w) db allTemplates False of None \<Rightarrow> [] | Some l \<Rightarrow> l);
          staleLBs = map lb_UUID (filter (repair_stale w) existingLBs);
          live = filter (\<lambda>l. \<not> repair_stale w l) existingLBs;
          staleTemplateNames = {name \<in> set (map fst allTemplates). \<not> isLBNodeIPTemplateName name}
            - set (concat (map (\<lambda>l. map (\<lambda>(_, t). tm_Name t) (lb_Templates l)) live))
      in (c1, staleLBs, staleTemplateNames))"

text \<open>The handlers of the node informer.\<close>

definition tracker_event_update ::
  "(string set \<Rightarrow> string list) \<Rightarrow> string \<Rightarrow> string \<Rightarrow> bool \<Rightarrow> Node \<Rightarrow> Node \<Rightarrow> nodeTracker \<Rightarrow> (nodeTracker \<times> nodeInfo list option) option" where
  "tracker_event_update unsorted oldVersion newVersion deleting oldObj newObj nt =
     (if oldVersion = newVersion \<or> deleting \<or> \<not> tracked_change oldObj newObj then Some (nt, None)
      else updateNode unsorted newObj nt)"

text \<open>The worker on an already filled queue: \<open>n\<close> rounds.\<close>

fun worker :: "nat \<Rightarrow> svc_world \<Rightarrow> Controller \<Rightarrow> Controller option" where
  "worker 0 w c = Some c"
| "worker (Suc n) w c = (if sv_queue c = [] then Some c else Option.bind (processNextWorkItem w c) (worker n w))"

section \<open>What reconciling does to the database\<close>

text \<open>The effect of a transaction on the attachments of load balancers, which are named: \<open>named\<close> gives the name of
  the load balancer with an identifier.\<close>

fun apply_op :: "(string \<Rightarrow> string set) \<Rightarrow> nb_op \<Rightarrow> (string \<times> attachment) set \<Rightarrow> (string \<times> attachment) set" where
  "apply_op named (AddLoadBalancersToLogicalSwitch k ls) S = S \<union> (\<lambda>l. (nb_Name l, OnSwitch k)) ` set ls"
| "apply_op named (RemoveLoadBalancersFromLogicalSwitch k ls) S = S - (\<lambda>l. (nb_Name l, OnSwitch k)) ` set ls"
| "apply_op named (AddLoadBalancersToLogicalRouter k ls) S = S \<union> (\<lambda>l. (nb_Name l, OnRouter k)) ` set ls"
| "apply_op named (RemoveLoadBalancersFromLogicalRouter k ls) S = S - (\<lambda>l. (nb_Name l, OnRouter k)) ` set ls"
| "apply_op named (AddLoadBalancersToGroup k ls) S = S \<union> (\<lambda>l. (nb_Name l, OnGroup k)) ` set ls"
| "apply_op named (RemoveLoadBalancersFromGroup k ls) S = S - (\<lambda>l. (nb_Name l, OnGroup k)) ` set ls"
| "apply_op named (DeleteLoadBalancers uuids) S = {(n, a) \<in> S. \<forall>u \<in> set uuids. n \<notin> named u}"
| "apply_op named _ S = S"

definition attached :: "LB list \<Rightarrow> (string \<times> attachment) set" where
  "attached lbs = (\<Union>l \<in> set lbs. {lb_Name l} \<times> attachments l)"

lemma apply_add:
  assumes "\<And>k ls S. apply_op named (mk k ls) S = S \<union> (\<lambda>l. (nb_Name l, at k)) ` set ls"
  shows "fold (apply_op named) (map (\<lambda>k. mk k (f k)) ks) S = S \<union> (\<Union>k \<in> set ks. (\<lambda>l. (nb_Name l, at k)) ` set (f k))"
  using assms by (induction ks arbitrary: S) auto

lemma apply_remove:
  assumes "\<And>k ls S. apply_op named (mk k ls) S = S - (\<lambda>l. (nb_Name l, at k)) ` set ls"
  shows "fold (apply_op named) (map (\<lambda>k. mk k (f k)) ks) S = S - (\<Union>k \<in> set ks. (\<lambda>l. (nb_Name l, at k)) ` set (f k))"
  using assms by (induction ks arbitrary: S) auto

text \<open>The pairs of load balancer and attachment in which \<open>f\<close> has more than \<open>g\<close>.\<close>

definition more :: "(string \<Rightarrow> attachment) \<Rightarrow> (LB \<Rightarrow> string list) \<Rightarrow> (LB \<Rightarrow> string list) \<Rightarrow> LB list \<Rightarrow> (string \<times> attachment) set" where
  "more at f g lbs = {(lb_Name l, at k) | l k. l \<in> set lbs \<and> k \<in> set (f l) \<and> k \<notin> set (g l)}"

lemma diff_at_set: "set (diff_at f g pairs k) = {t. \<exists>l. (l, t) \<in> set pairs \<and> k \<in> set (f l) \<and> k \<notin> set (g l)}"
  by (force simp: diff_at_def set_diff_def)

lemma diff_keys_set: "set (diff_keys f g pairs) = {k. \<exists>l t. (l, t) \<in> set pairs \<and> k \<in> set (f l) \<and> k \<notin> set (g l)}"
  by (force simp: diff_keys_def set_diff_def)

lemma diff_ops_more:
  assumes "\<And>xs. set (ne_order e xs) = set xs" "\<And>l t. (l, t) \<in> set pairs \<Longrightarrow> nb_Name t = lb_Name l"
  shows "(\<Union>k \<in> set (ne_order e (diff_keys f g pairs)). (\<lambda>l. (nb_Name l, at k)) ` set (diff_at f g pairs k)) = more at f g (map fst pairs)"
proof (intro set_eqI iffI)
  fix x assume "x \<in> (\<Union>k \<in> set (ne_order e (diff_keys f g pairs)). (\<lambda>l. (nb_Name l, at k)) ` set (diff_at f g pairs k))"
  then obtain k l t where "x = (nb_Name t, at k)" and lt: "(l, t) \<in> set pairs" "k \<in> set (f l)" "k \<notin> set (g l)"
    unfolding diff_at_set by blast
  moreover have "l \<in> set (map fst pairs)" using lt(1) by force
  ultimately show "x \<in> more at f g (map fst pairs)" unfolding more_def using assms(2) by blast
next
  fix x assume "x \<in> more at f g (map fst pairs)"
  then obtain k l t where lt: "x = (lb_Name l, at k)" "(l, t) \<in> set pairs" "k \<in> set (f l)" "k \<notin> set (g l)"
    unfolding more_def by force
  then have t: "t \<in> set (diff_at f g pairs k)" and k: "k \<in> set (ne_order e (diff_keys f g pairs))"
    unfolding diff_at_set assms(1) diff_keys_set by blast+
  have "x = (nb_Name t, at k)" using lt(1) assms(2) [OF lt(2)] by simp
  then show "x \<in> (\<Union>k \<in> set (ne_order e (diff_keys f g pairs)). (\<lambda>l. (nb_Name l, at k)) ` set (diff_at f g pairs k))"
    by (intro UN_I [OF k]) (rule image_eqI [OF _ t])
qed

lemma buildLB_name [simp]: "nb_Name (tlb_nbLB (buildLB cfg l)) = lb_Name l"
  unfolding buildLB_def Let_def BuildLoadBalancer_def templateLoadBalancer.simps nbLB.simps ..

lemma build_all_names: "(l, t) \<in> set (map (\<lambda>(l, t). (l, tlb_nbLB t)) (build_all cfg existing lbs)) \<Longrightarrow> nb_Name t = lb_Name l"
  by (auto simp: build_all_def Let_def split: option.splits)

lemma build_all_fst: "map fst (map (\<lambda>(l, t). (l, tlb_nbLB t)) (build_all cfg existing lbs)) = lbs"
  by (simp add: build_all_def comp_def case_prod_beta)

lemma template_ops_neutral:
  assumes "\<And>k vs S. apply_op named (mk k vs) S = S"
  shows "fold (apply_op named) (template_ops e mk maps) S = S"
proof -
  have "fold (apply_op named) (map (\<lambda>k. mk k (f k)) ks) S = S" for f ks using assms by (induction ks) auto
  then show ?thesis by (simp add: template_ops_def Let_def)
qed

lemma apply_ensure_ops:
  assumes "\<And>xs. set (ne_order e xs) = set xs"
  shows "fold (apply_op named) (ensure_ops e cfg existing lbs) S =
     {(n, a) \<in> ((((((S \<union> more OnSwitch lb_Switches (existing_field existing lb_Switches) lbs)
        - more OnSwitch (existing_field existing lb_Switches) lb_Switches lbs)
        \<union> more OnRouter lb_Routers (existing_field existing lb_Routers) lbs)
        - more OnRouter (existing_field existing lb_Routers) lb_Routers lbs)
        \<union> more OnGroup lb_Groups (existing_field existing lb_Groups) lbs)
        - more OnGroup (existing_field existing lb_Groups) lb_Groups lbs).
       \<forall>u \<in> fst ` set (stale existing lbs). n \<notin> named u}"
proof -
  define pairs where "pairs = map (\<lambda>(l, t). (l, tlb_nbLB t)) (build_all cfg existing lbs)"
  have n: "nb_Name t = lb_Name l" if "(l, t) \<in> set pairs" for l t using build_all_names that unfolding pairs_def by blast
  have p: "map fst pairs = lbs" unfolding pairs_def by (rule build_all_fst)
  have m: "(\<Union>k \<in> set (ne_order e (diff_keys f g pairs)). (\<lambda>l. (nb_Name l, at k)) ` set (diff_at f g pairs k)) = more at f g lbs" for f g at
    using diff_ops_more [where e = e and pairs = pairs and f = f and g = g and at = at] assms n unfolding p by blast
  have add: "fold (apply_op named) (diff_ops e mk f g pairs) S = S \<union> more at f g lbs"
    if "\<And>k ls S. apply_op named (mk k ls) S = S \<union> (\<lambda>l. (nb_Name l, at k)) ` set ls" for mk f g at S
    unfolding diff_ops_def apply_add [of named mk at, OF that] m ..
  have rem: "fold (apply_op named) (diff_ops e mk f g pairs) S = S - more at f g lbs"
    if "\<And>k ls S. apply_op named (mk k ls) S = S - (\<lambda>l. (nb_Name l, at k)) ` set ls" for mk f g at S
    unfolding diff_ops_def apply_remove [of named mk at, OF that] m ..
  show ?thesis
    unfolding ensure_ops_def Let_def pairs_def [symmetric]
    by (simp add: template_ops_neutral add [where at = OnSwitch] add [where at = OnRouter] add [where at = OnGroup]
        rem [where at = OnSwitch] rem [where at = OnRouter] rem [where at = OnGroup])
qed


subsection \<open>Reconciling reaches the wanted state\<close>

definition named_by :: "LB list \<Rightarrow> string \<Rightarrow> string set" where
  "named_by existing u = {lb_Name x | x. x \<in> set existing \<and> lb_UUID x = u}"

lemma existing_named_Some: "existing_named existing n = Some x \<Longrightarrow> x \<in> set existing \<and> lb_Name x = n"
proof -
  have "find P xs = Some x \<Longrightarrow> x \<in> set xs \<and> P x" for P and xs :: "LB list" by (induction xs) (auto split: if_splits)
  then show "existing_named existing n = Some x \<Longrightarrow> x \<in> set existing \<and> lb_Name x = n"
    unfolding existing_named_def by fastforce
qed

lemma existing_named_iff:
  assumes "distinct (map lb_Name existing)"
  shows "existing_named existing n = Some x \<longleftrightarrow> x \<in> set existing \<and> lb_Name x = n"
proof
  assume "existing_named existing n = Some x"
  then show "x \<in> set existing \<and> lb_Name x = n" by (rule existing_named_Some)
next
  assume x: "x \<in> set existing \<and> lb_Name x = n"
  then obtain y where y: "existing_named existing n = Some y"
    unfolding existing_named_def by (cases "find (\<lambda>l. lb_Name l = n) (rev existing)") (auto simp: find_None_iff)
  then have "y \<in> set existing" "lb_Name y = n" using existing_named_Some by auto
  then have "y = x" using x assms by (metis distinct_map inj_onD)
  then show "existing_named existing n = Some x" using y by simp
qed

lemma fold_update_keys: "fst ` set (fold (\<lambda>l. AList.update (f l) l) xs m) = fst ` set m \<union> f ` set xs"
  by (induction xs arbitrary: m) (simp_all add: dom_update)

lemma stale_keys:
  assumes "distinct (map lb_Name existing)" "distinct (map lb_UUID existing)"
  shows "fst ` set (stale existing lbs) = {lb_UUID x | x. x \<in> set existing \<and> lb_Name x \<notin> lb_Name ` set lbs}"
proof -
  have same: "x = y" if "x \<in> set existing" "y \<in> set existing" "lb_UUID x = lb_UUID y" for x y
    using that assms(2) by (metis distinct_map inj_onD)
  have "fst ` set (stale existing lbs)
      = {u \<in> fst ` set (fold (\<lambda>l. AList.update (lb_UUID l) l) existing []).
           \<forall>l \<in> set lbs. \<forall>x. existing_named existing (lb_Name l) = Some x \<longrightarrow> lb_UUID x \<noteq> u}"
    unfolding stale_def option.case_eq_if by force
  also have "\<dots> = {u \<in> lb_UUID ` set existing. \<forall>l \<in> set lbs. \<forall>x. x \<in> set existing \<and> lb_Name x = lb_Name l \<longrightarrow> lb_UUID x \<noteq> u}"
    unfolding fold_update_keys existing_named_iff [OF assms(1)] by simp
  also have "\<dots> = {lb_UUID x | x. x \<in> set existing \<and> lb_Name x \<notin> lb_Name ` set lbs}" using same by blast
  finally show ?thesis .
qed

lemma existing_field_mem:
  assumes "distinct (map lb_Name existing)"
  shows "k \<in> set (existing_field existing f l) \<longleftrightarrow> (\<exists>x \<in> set existing. lb_Name x = lb_Name l \<and> k \<in> set (f x))"
proof (cases "existing_named existing (lb_Name l)")
  case None
  then have "x \<notin> set existing \<or> lb_Name x \<noteq> lb_Name l" for x using existing_named_iff [OF assms, of "lb_Name l" x] by auto
  then show ?thesis using None by (auto simp: existing_field_def)
next
  case (Some x)
  then have "y = x" if "y \<in> set existing" "lb_Name y = lb_Name l" for y
    using that existing_named_iff [OF assms, of "lb_Name l" y] by simp
  then show ?thesis using Some existing_named_iff [OF assms, of "lb_Name l" x] by (auto simp: existing_field_def)
qed

lemma more_mem:
  assumes "distinct (map lb_Name lbs)" "l \<in> set lbs" "inj at"
  shows "(lb_Name l, at k) \<in> more at f g lbs \<longleftrightarrow> k \<in> set (f l) \<and> k \<notin> set (g l)"
proof -
  have "l' = l" if "l' \<in> set lbs" "lb_Name l' = lb_Name l" for l' using that assms(1,2) by (metis distinct_map inj_onD)
  then show ?thesis using assms(2,3) by (auto simp: more_def inj_eq)
qed

lemma more_other: "(n, a) \<notin> more at f g lbs" if "n \<notin> lb_Name ` set lbs \<or> a \<notin> range at"
  using that by (auto simp: more_def)

lemma attached_mem:
  assumes "distinct (map lb_Name lbs)" "l \<in> set lbs"
  shows "(lb_Name l, a) \<in> attached lbs \<longleftrightarrow> a \<in> attachments l"
proof -
  have "l' = l" if "l' \<in> set lbs" "lb_Name l' = lb_Name l" for l' using that assms by (metis distinct_map inj_onD)
  then show ?thesis using assms(2) by (auto simp: attached_def)
qed

lemma attachments_mem [simp]:
  "OnSwitch k \<in> attachments l \<longleftrightarrow> k \<in> set (lb_Switches l)"
  "OnRouter k \<in> attachments l \<longleftrightarrow> k \<in> set (lb_Routers l)"
  "OnGroup k \<in> attachments l \<longleftrightarrow> k \<in> set (lb_Groups l)"
  by (auto simp: attachments_def)

lemma ensure_ops_reconcile:
  assumes order: "\<And>xs. set (ne_order e xs) = set xs"
    and d: "distinct (map lb_Name existing)" "distinct (map lb_UUID existing)" "distinct (map lb_Name lbs)"
  shows "fold (apply_op (named_by existing)) (ensure_ops e cfg existing lbs) (attached existing) = attached lbs"
    (is "?L = _")
proof (intro set_eqI iffI; clarify)
  have same: "x = y" if "x \<in> set existing" "y \<in> set existing" "lb_UUID x = lb_UUID y" for x y
    using that d(2) by (metis distinct_map inj_onD)
  have del: "(\<forall>u \<in> fst ` set (stale existing lbs). n \<notin> named_by existing u) \<longleftrightarrow> n \<notin> lb_Name ` set existing \<or> n \<in> lb_Name ` set lbs" for n
    unfolding stale_keys [OF d(1,2)] named_by_def using same by blast
  have inj: "inj OnSwitch" "inj OnRouter" "inj OnGroup" by (auto simp: inj_def)
  have iff: "(lb_Name l, a) \<in> ?L \<longleftrightarrow> a \<in> attachments l" if l: "l \<in> set lbs" for l a
  proof -
    have old: "(lb_Name l, a) \<in> attached existing \<longleftrightarrow> (\<exists>x \<in> set existing. lb_Name x = lb_Name l \<and> a \<in> attachments x)"
      unfolding attached_def by (auto intro: sym)
    note [simp] = more_mem [OF d(3) l] inj existing_field_mem [OF d(1)] more_other image_iff
    show ?thesis
      unfolding apply_ensure_ops [OF order] mem_Collect_eq prod.case del using l old by (cases a) auto
  qed
  have out: "(n, a) \<notin> ?L" if n: "n \<notin> lb_Name ` set lbs" for n a
  proof
    assume L: "(n, a) \<in> ?L"
    have m: "(n, a) \<notin> more at f g lbs" for at f g using more_other n by blast
    have e: "(n, a) \<in> attached existing" and "n \<notin> lb_Name ` set existing \<or> n \<in> lb_Name ` set lbs"
      using L unfolding apply_ensure_ops [OF order] mem_Collect_eq prod.case del Un_iff Diff_iff by (simp_all only: m simp_thms)
    then have "n \<notin> lb_Name ` set existing" using n by simp
    moreover obtain x where "x \<in> set existing" "n = lb_Name x" using e unfolding attached_def by blast
    ultimately show False by blast
  qed
  fix n a
  show "(n, a) \<in> attached lbs" if "(n, a) \<in> ?L"
  proof -
    have "n \<in> lb_Name ` set lbs"
    proof (rule ccontr)
      assume "n \<notin> lb_Name ` set lbs"
      from out [OF this] that show False by (rule notE)
    qed
    then obtain l where l: "l \<in> set lbs" "n = lb_Name l" by blast
    show ?thesis using that unfolding l(2) iff [OF l(1)] attached_mem [OF d(3) l(1)] .
  qed
  show "(n, a) \<in> ?L" if t: "(n, a) \<in> attached lbs"
  proof -
    obtain l where l: "l \<in> set lbs" "n = lb_Name l" using t unfolding attached_def by blast
    show ?thesis using that unfolding l(2) iff [OF l(1)] attached_mem [OF d(3) l(1)] .
  qed
qed


definition no_uuid :: "LB list \<Rightarrow> LB list" where
  "no_uuid lbs = map (\<lambda>l. l\<lparr>lb_UUID := []\<rparr>) lbs"

lemma LoadBalancersEqualNoUUID_iff: "LoadBalancersEqualNoUUID lbs1 lbs2 \<longleftrightarrow> no_uuid lbs1 = no_uuid lbs2"
proof -
  have "length lbs1 = length lbs2" if "no_uuid lbs1 = no_uuid lbs2"
    using arg_cong [OF that, of length] by (simp add: no_uuid_def)
  then show ?thesis by (auto simp: LoadBalancersEqualNoUUID_def no_uuid_def)
qed

lemma no_uuid_store [simp]: "no_uuid (store_uuids uuids lbs) = no_uuid lbs"
  by (rule nth_equalityI) (simp_all add: no_uuid_def store_uuids_def Let_def)

lemma attached_no_uuid: "attached lbs = attached (no_uuid lbs)"
  by (simp add: attached_def no_uuid_def attachments_def)

lemma EnsureLBs_stored: "EnsureLBs e cfg existing lbs = (ops, Some stored) \<Longrightarrow> no_uuid stored = no_uuid lbs"
  by (auto simp: EnsureLBs_def Let_def split: if_splits)

text \<open>C2: Reconciling the load balancers of a service is exact. When \<open>EnsureLBs\<close> succeeds, the operations of its
  transaction turn the attachments of the cached load balancers to switches, routers and groups into those of the
  wanted ones: whatever is missing is added, whatever is too much is removed, and load balancers that are not
  wanted any more are deleted. What is stored for the next call are the wanted load balancers.\<close>

theorem EnsureLBs_reconciles:
  assumes "\<forall>xs. set (ne_order e xs) = set xs"
    and "distinct (map lb_Name existing)" "distinct (map lb_UUID existing)" "distinct (map lb_Name lbs)"
    and "EnsureLBs e cfg existing lbs = (Some ops, Some stored)"
  shows "fold (apply_op (named_by existing)) ops (attached existing) = attached stored \<and> no_uuid stored = no_uuid lbs"
proof -
  have ops: "ops = ensure_ops e cfg existing lbs" using assms(5) by (auto simp: EnsureLBs_def Let_def split: if_splits)
  have s: "no_uuid stored = no_uuid lbs" using assms(5) by (rule EnsureLBs_stored)
  then have "attached stored = attached lbs" using attached_no_uuid by metis
  moreover have "fold (apply_op (named_by existing)) ops (attached existing) = attached lbs"
    unfolding ops by (rule ensure_ops_reconcile) (use assms in auto)
  ultimately show ?thesis using s by simp
qed

section \<open>Syncing a service\<close>

text \<open>The service that the load balancers of a key are for, with its endpoint slices: none if it is gone or has no
  cluster address.\<close>

definition served :: "svc_world \<Rightarrow> string \<Rightarrow> (Service \<times> EndpointSlice list) option" where
  "served w key =
     (case SplitMetaNamespaceKey key of
        None \<Rightarrow> None
      | Some (namespace, name) \<Rightarrow>
          (case sw_get w namespace name of
             Inr (Some service) \<Rightarrow>
               if ServiceTypeHasClusterIP service \<and> IsClusterIPSet service
               then Some (service, service_slices (case sw_slices w of None \<Rightarrow> [] | Some l \<Rightarrow> l) namespace name) else None
           | _ \<Rightarrow> None))"

definition up_to_date :: "svc_world \<Rightarrow> string \<Rightarrow> Controller \<Rightarrow> bool" where
  "up_to_date w key c \<longleftrightarrow>
     (case served w key of
        None \<Rightarrow> sv_alreadyApplied c key = None
      | Some (service, slices) \<Rightarrow>
          (\<exists>lbs stored. desired_lbs (sw_cfg w) service slices c = Some lbs \<and> sv_alreadyApplied c key = Some stored \<and> no_uuid stored = no_uuid lbs))"

lemma desired_lbs_cong:
  "sv_nodeInfos c = sv_nodeInfos c1 \<Longrightarrow> sv_useLBGroups c = sv_useLBGroups c1 \<Longrightarrow> sv_useTemplates c = sv_useTemplates c1 \<Longrightarrow>
   sv_nodeIPv4Templates c = sv_nodeIPv4Templates c1 \<Longrightarrow> sv_nodeIPv6Templates c = sv_nodeIPv6Templates c1 \<Longrightarrow>
   desired_lbs cfg service slices c = desired_lbs cfg service slices c1"
  unfolding desired_lbs_def by (simp only:)

lemma sv_send_fields [simp]:
  "sv_nodeInfos (sv_send ops c) = sv_nodeInfos c" "sv_useLBGroups (sv_send ops c) = sv_useLBGroups c"
  "sv_useTemplates (sv_send ops c) = sv_useTemplates c" "sv_nodeIPv4Templates (sv_send ops c) = sv_nodeIPv4Templates c"
  "sv_nodeIPv6Templates (sv_send ops c) = sv_nodeIPv6Templates c" "sv_alreadyApplied (sv_send ops c) = sv_alreadyApplied c"
  "sv_queue (sv_send ops c) = sv_queue c" "sv_requeues (sv_send ops c) = sv_requeues c"
  "sv_unsyncedServices (sv_send ops c) = sv_unsyncedServices c"
  by (simp_all add: sv_send_def split: option.splits)

lemma desired_lbs_frame [simp]:
  "desired_lbs cfg service slices (sv_send ops c) = desired_lbs cfg service slices c"
  "desired_lbs cfg service slices (c\<lparr>sv_alreadyApplied := m\<rparr>) = desired_lbs cfg service slices c"
  "desired_lbs cfg service slices (c\<lparr>sv_unsyncedServices := u\<rparr>) = desired_lbs cfg service slices c"
  by (rule desired_lbs_cong; simp)+

lemma sync_deleted_success:
  assumes "sync_deleted w key c = (None, c1)"
  shows "sv_alreadyApplied c1 = (sv_alreadyApplied c)(key := None) \<and> key \<notin> sv_unsyncedServices c1
    \<and> (\<forall>cfg service slices. desired_lbs cfg service slices c1 = desired_lbs cfg service slices c)"
  using assms by (auto simp: sync_deleted_def serviceSynced_def split: option.splits prod.splits)

lemma sync_present_success:
  assumes "sync_present w key lbs c = (None, c1)"
  shows "\<exists>stored. sv_alreadyApplied c1 = (sv_alreadyApplied c)(key \<mapsto> stored) \<and> no_uuid stored = no_uuid lbs
    \<and> key \<notin> sv_unsyncedServices c1 \<and> (\<forall>cfg service slices. desired_lbs cfg service slices c1 = desired_lbs cfg service slices c)"
proof (cases "sv_alreadyApplied c key \<noteq> None \<and> LoadBalancersEqualNoUUID (case sv_alreadyApplied c key of None \<Rightarrow> [] | Some l \<Rightarrow> l) lbs")
  case True
  then obtain l where l: "sv_alreadyApplied c key = Some l" "no_uuid l = no_uuid lbs" by (auto simp: LoadBalancersEqualNoUUID_iff)
  then have "c1 = serviceSynced key c" using assms True by (simp add: sync_present_def)
  then show ?thesis using l by (intro exI [of _ l]) (auto simp: serviceSynced_def fun_upd_idem)
next
  case False
  obtain ops stored where "EnsureLBs (sw_env w) (sw_cfg w) (case sv_alreadyApplied c key of None \<Rightarrow> [] | Some l \<Rightarrow> l) lbs = (ops, Some stored)"
    "c1 = serviceSynced key ((sv_send ops c)\<lparr>sv_alreadyApplied := (sv_alreadyApplied c)(key \<mapsto> stored)\<rparr>)"
    using assms False unfolding sync_present_def Let_def by (auto split: prod.splits option.splits)
  then show ?thesis using EnsureLBs_stored by (intro exI [of _ stored]) (auto simp: serviceSynced_def)
qed

lemma syncService_cases:
  assumes "syncService w key c = Some (err, c1)"
  obtains (error) "err \<noteq> None" "c1 = c"
  | (deleted) "served w key = None" "sync_deleted w key c = (err, c1)"
  | (present) service slices lbs where "served w key = Some (service, slices)" "desired_lbs (sw_cfg w) service slices c = Some lbs"
      "sync_present w key lbs c = (err, c1)"
proof (cases "SplitMetaNamespaceKey key")
  case None
  then show ?thesis using assms error by (auto simp: syncService_def)
next
  case (Some nn)
  obtain namespace name where k: "SplitMetaNamespaceKey key = Some (namespace, name)" using Some by (cases nn) simp
  show ?thesis
  proof (cases "sw_get w namespace name")
    case (Inl a)
    then show ?thesis using assms k error by (auto simp: syncService_def)
  next
    case (Inr res)
    show ?thesis
    proof (cases res)
      case None
      then show ?thesis using assms k Inr deleted by (simp add: syncService_def served_def)
    next
      case (Some service)
      show ?thesis
      proof (cases "ServiceTypeHasClusterIP service \<and> IsClusterIPSet service")
        case False
        then show ?thesis using assms k Inr Some deleted by (auto simp: syncService_def served_def)
      next
        case True
        then show ?thesis
          using assms k Inr Some error present [of service "service_slices (case sw_slices w of None \<Rightarrow> [] | Some l \<Rightarrow> l) namespace name"]
          by (auto simp: syncService_def served_def split: option.splits)
      qed
    qed
  qed
qed

lemma syncService_idempotent:
  assumes "syncService w key c = Some (None, c1)"
  shows "syncService w key c1 = Some (None, c1)"
proof -
  obtain namespace name where k: "SplitMetaNamespaceKey key = Some (namespace, name)"
    using assms by (auto simp: syncService_def split: option.splits)
  from assms show ?thesis
  proof (cases rule: syncService_cases)
    case error
    then show ?thesis by simp
  next
    case deleted
    note d = sync_deleted_success [OF deleted(2)]
    have "syncService w key c1 = Some (sync_deleted w key c1)"
      using assms deleted(1) k by (auto simp: syncService_def served_def split: sum.splits option.splits if_splits)
    then show ?thesis using d by (simp add: sync_deleted_def serviceSynced_def)
  next
    case (present service slices lbs)
    then obtain stored where s: "sv_alreadyApplied c1 key = Some stored" "no_uuid stored = no_uuid lbs" "key \<notin> sv_unsyncedServices c1"
      and d: "desired_lbs (sw_cfg w) service slices c1 = Some lbs"
      using sync_present_success [OF present(3)] by auto
    have "syncService w key c1 = Some (sync_present w key lbs c1)"
      using assms present(1) k d by (auto simp: syncService_def served_def split: sum.splits option.splits if_splits)
    then show ?thesis using s by (simp add: sync_present_def LoadBalancersEqualNoUUID_iff serviceSynced_def)
  qed
qed

text \<open>C8: A successful sync of a service leaves exactly its wanted load balancers in the cache (none if the service is
  gone or has no cluster address), marks the service as synced and does not touch other services. A failed sync
  leaves the cache as it was, so that the next attempt starts from the same knowledge of the database. Syncing is
  idempotent: a second sync of the service in the same world changes nothing and sends nothing to the database.\<close>

theorem syncService_correct:
  assumes "syncService w key c = Some (err, c1)"
  shows "if err = None
     then up_to_date w key c1 \<and> key \<notin> sv_unsyncedServices c1 \<and> (\<forall>k. k \<noteq> key \<longrightarrow> sv_alreadyApplied c1 k = sv_alreadyApplied c k)
       \<and> syncService w key c1 = Some (None, c1)
     else sv_alreadyApplied c1 = sv_alreadyApplied c"
  using assms
proof (cases rule: syncService_cases)
  case error
  then show ?thesis by auto
next
  case deleted
  show ?thesis
  proof (cases err)
    case None
    then show ?thesis using deleted sync_deleted_success [of w key c c1] syncService_idempotent [of w key c c1] assms by (auto simp: up_to_date_def)
  next
    case (Some e)
    then show ?thesis using deleted by (auto simp: sync_deleted_def split: option.splits prod.splits)
  qed
next
  case (present service slices lbs)
  show ?thesis
  proof (cases err)
    case None
    then show ?thesis using present sync_present_success [of w key lbs c c1] syncService_idempotent [of w key c c1] assms by (auto simp: up_to_date_def)
  next
    case (Some e)
    then show ?thesis using present by (auto simp: sync_present_def Let_def split: if_splits option.splits prod.splits)
  qed
qed

section \<open>The worker drains its queue\<close>

definition budget :: "Controller \<Rightarrow> nat" where
  "budget c = (\<Sum>k \<leftarrow> sv_queue c. maxRetries + 1 - sv_requeues c k)"

definition queue_ok :: "Controller \<Rightarrow> bool" where
  "queue_ok c \<longleftrightarrow> distinct (sv_queue c) \<and> (\<forall>k. sv_requeues c k \<le> maxRetries)"

lemma syncService_queue:
  assumes "syncService w key c = Some (err, c1)"
  shows "sv_queue c1 = sv_queue c \<and> sv_requeues c1 = sv_requeues c"
  using assms
proof (cases rule: syncService_cases)
  case deleted
  then show ?thesis by (auto simp: sync_deleted_def serviceSynced_def split: option.splits prod.splits)
next
  case (present service slices lbs)
  then show ?thesis by (auto simp: sync_present_def Let_def serviceSynced_def split: if_splits option.splits prod.splits)
qed simp

lemma budget_other: "k \<notin> set ks \<Longrightarrow> (\<Sum>x \<leftarrow> ks. n - (if x = k then v else f x)) = (\<Sum>x \<leftarrow> ks. n - f x :: nat)"
  by (induction ks) auto

lemma processNextWorkItem_progress:
  assumes "queue_ok c" "sv_queue c \<noteq> []" "processNextWorkItem w c = Some c1"
  shows "queue_ok c1 \<and> budget c1 < budget c"
proof -
  obtain key rest where q: "sv_queue c = key # rest" using assms(2) by (cases "sv_queue c") auto
  obtain err c2 where s: "syncService w key (c\<lparr>sv_queue := rest\<rparr>) = Some (err, c2)" and c1: "c1 = handleErr err key c2"
    using assms(3) q by (auto simp: processNextWorkItem_def)
  have c2: "sv_queue c2 = rest" "sv_requeues c2 = sv_requeues c" using syncService_queue [OF s] by auto
  have n: "key \<notin> set rest" "distinct rest" "\<And>k. sv_requeues c k \<le> 15" using assms(1) q by (auto simp: queue_ok_def maxRetries_def)
  have "sv_requeues c key < 16" using n(3) [of key] by linarith
  then show ?thesis
    unfolding c1 handleErr_def Forget_def AddRateLimited_def queue_Add_def budget_def queue_ok_def q
    using n by (auto simp: c2 budget_other maxRetries_def)
qed

text \<open>C28: The worker empties its queue: as long as no endpoint slice with nil fields crashes it, at most sixteen rounds
  per queued service are needed, however often the database or the listers fail, because a service that fails is
  retried at most fifteen times.\<close>

theorem worker_drains_queue:
  assumes "queue_ok c" "\<forall>key d. syncService w key d \<noteq> None"
  shows "\<exists>c1. worker (16 * length (sv_queue c)) w c = Some c1 \<and> sv_queue c1 = []"
proof -
  have step: "processNextWorkItem w d \<noteq> None" for d
    using assms(2) by (auto simp: processNextWorkItem_def split: list.splits)
  have run: "\<exists>c1. worker n w d = Some c1 \<and> sv_queue c1 = []" if "queue_ok d" "budget d \<le> n" for d n
    using that
  proof (induction n arbitrary: d)
    case 0
    have "\<not> 16 \<le> sv_requeues d k" for k
    proof -
      have "sv_requeues d k \<le> 15" using 0(1) by (simp add: queue_ok_def maxRetries_def)
      then show ?thesis by linarith
    qed
    then have "sv_queue d = []" using 0(2) by (cases "sv_queue d") (auto simp: budget_def maxRetries_def)
    then show ?case by simp
  next
    case (Suc n)
    obtain d1 where d1: "processNextWorkItem w d = Some d1" using step [of d] by auto
    show ?case
    proof (cases "sv_queue d = []")
      case False
      then show ?thesis using Suc processNextWorkItem_progress [OF Suc.prems(1) False d1] d1 by auto
    qed simp
  qed
  have "(\<Sum>k \<leftarrow> ks. maxRetries + 1 - f k) \<le> 16 * length ks" for ks and f :: "string \<Rightarrow> nat"
    by (induction ks) (auto simp: maxRetries_def)
  then have "budget c \<le> 16 * length (sv_queue c)" unfolding budget_def .
  then show ?thesis using run assms(1) by blast
qed


section \<open>Templates for node addresses\<close>

text \<open>What the templates hold for a chassis: its addresses, in order. The \<open>i\<close>-th template is named by \<open>i\<close> and holds the
  \<open>i\<close>-th address of every chassis that has one.\<close>

definition held :: "Template list \<Rightarrow> string \<Rightarrow> string list" where
  "held ts chassis = map the (takeWhile (\<lambda>v. v \<noteq> None) (map (\<lambda>t. map_of (tm_Value t) chassis) ts))"

fun no_gaps :: "string \<Rightarrow> Template list \<Rightarrow> bool" where
  "no_gaps chassis [] = True"
| "no_gaps chassis (t # ts) \<longleftrightarrow>
     (if map_of (tm_Value t) chassis = None then list_all (\<lambda>t. map_of (tm_Value t) chassis = None) ts else no_gaps chassis ts)"

definition templates_ok :: "NodeIPsTemplates \<Rightarrow> bool" where
  "templates_ok n \<longleftrightarrow>
     map tm_Name (nt_templates n) = map (\<lambda>i. makeLBNodeIPTemplateNamePrefix (nt_ipFamily n) @ itoa (int i)) [0 ..< length (nt_templates n)]
     \<and> (\<forall>chassis. no_gaps chassis (nt_templates n))"

lemma no_gaps_None: "list_all (\<lambda>t. map_of (tm_Value t) chassis = None) ts \<Longrightarrow> no_gaps chassis ts \<and> held ts chassis = []"
  by (induction ts) (auto simp: held_def)

lemma held_Cons [simp]:
  "held (t # ts) chassis = (case map_of (tm_Value t) chassis of None \<Rightarrow> [] | Some v \<Rightarrow> v # held ts chassis)"
  by (auto simp: held_def split: option.splits)

lemma held_Nil [simp]: "held [] chassis = []"
  by (simp add: held_def)

lemma add_ip_loop_other:
  assumes "ch \<noteq> chassis"
  shows "held (add_ip_loop family chassis x n ts) ch = held ts ch"
    "list_all (\<lambda>t. map_of (tm_Value t) ch = None) (add_ip_loop family chassis x n ts) = list_all (\<lambda>t. map_of (tm_Value t) ch = None) ts"
    "no_gaps ch (add_ip_loop family chassis x n ts) = no_gaps ch ts"
  using assms by (induction ts) (auto simp: update_conv' split: option.splits)

lemma add_ip_loop_same:
  assumes "no_gaps chassis ts"
  shows "held (add_ip_loop family chassis x n ts) chassis = held ts chassis @ [x] \<and> no_gaps chassis (add_ip_loop family chassis x n ts)"
  using assms by (induction ts) (auto simp: update_conv' no_gaps_None split: option.splits if_splits)

lemma add_ip_loop_names:
  "map tm_Name (add_ip_loop family chassis x n ts) =
     map tm_Name ts @ (if list_all (\<lambda>t. map_of (tm_Value t) chassis \<noteq> None) ts then [makeLBNodeIPTemplateNamePrefix family @ itoa (int n)] else [])"
  by (induction ts) (auto split: option.splits)

lemma AddIP_ok:
  assumes "templates_ok n"
  shows "templates_ok (AddIP chassis x n)
    \<and> held (nt_templates (AddIP chassis x n)) = (held (nt_templates n))(chassis := held (nt_templates n) chassis @ [IP_String x])
    \<and> nt_ipFamily (AddIP chassis x n) = nt_ipFamily n"
proof -
  let ?ts = "nt_templates n" and ?r = "nt_templates (AddIP chassis x n)"
  have r: "?r = add_ip_loop (nt_ipFamily n) chassis (IP_String x) (length ?ts) ?ts" by (simp add: AddIP_def)
  have g: "no_gaps ch ?ts" for ch using assms by (simp add: templates_ok_def)
  have "held ?r = (held ?ts)(chassis := held ?ts chassis @ [IP_String x])"
    unfolding r using add_ip_loop_other(1) add_ip_loop_same [OF g [of chassis]] by (auto simp: fun_eq_iff)
  moreover have "no_gaps ch ?r" for ch
    unfolding r using add_ip_loop_other(3) add_ip_loop_same [OF g [of chassis]] g by (cases "ch = chassis") auto
  moreover have "map tm_Name ?r = map (\<lambda>i. makeLBNodeIPTemplateNamePrefix (nt_ipFamily n) @ itoa (int i)) [0 ..< length ?r]"
  proof -
    note nm = add_ip_loop_names [of "nt_ipFamily n" chassis "IP_String x" "length ?ts" ?ts, folded r]
    have "length ?r = length ?ts + (if list_all (\<lambda>t. map_of (tm_Value t) chassis \<noteq> None) ?ts then 1 else 0)"
      using arg_cong [OF nm, of length] by simp
    then show ?thesis using nm assms unfolding templates_ok_def by (cases "list_all (\<lambda>t. map_of (tm_Value t) chassis \<noteq> None) ?ts") simp_all
  qed
  ultimately show ?thesis by (simp add: templates_ok_def AddIP_def)
qed

lemma add_ips_ok:
  assumes "templates_ok n"
  shows "templates_ok (add_ips chassis ips n)
    \<and> held (nt_templates (add_ips chassis ips n)) = (held (nt_templates n))(chassis := held (nt_templates n) chassis @ map IP_String ips)"
  using assms
proof (induction ips arbitrary: n)
  case (Cons x ips)
  then show ?case using AddIP_ok [OF Cons.prems, of chassis x] Cons.IH [of "AddIP chassis x n"] by (auto simp: add_ips_def fun_eq_iff)
qed (simp add: add_ips_def)

definition family_addresses :: "bool \<Rightarrow> nodeInfo \<Rightarrow> string list" where
  "family_addresses isIPv6 ni = map IP_String (filter (\<lambda>x. IsIPv6 x = isIPv6) (nf_hostAddresses ni))"

text \<open>The addresses of a node that get into the templates.\<close>

definition v4_published :: "bool \<Rightarrow> nodeInfo \<Rightarrow> string list" where
  "v4_published v4 ni = (if v4 then family_addresses False ni else [])"

definition v6_published :: "bool \<Rightarrow> bool \<Rightarrow> nodeInfo \<Rightarrow> string list" where
  "v6_published v4 v6 ni = (if v6 \<and> \<not> (v4 \<and> family_addresses False ni = []) then family_addresses True ni else [])"

lemma MatchIPFamily_cases:
  "MatchIPFamily b ips = (if filter (\<lambda>x. IsIPv6 x = b) ips = [] then Inl (NoIPAvailable (IPFamilyName b)) else Inr (filter (\<lambda>x. IsIPv6 x = b) ips))"
  by (simp add: MatchIPFamily_def Let_def)

lemma node_templates_ok:
  assumes "templates_ok (fst t)" "templates_ok (snd t)" "ch \<noteq> []"
  shows "templates_ok (fst (node_templates v4 v6 ni t)) \<and> templates_ok (snd (node_templates v4 v6 ni t))
    \<and> held (nt_templates (fst (node_templates v4 v6 ni t))) ch = held (nt_templates (fst t)) ch @ (if nf_chassisID ni = ch then v4_published v4 ni else [])
    \<and> held (nt_templates (snd (node_templates v4 v6 ni t))) ch = held (nt_templates (snd t)) ch @ (if nf_chassisID ni = ch then v6_published v4 v6 ni else [])"
  using add_ips_ok [OF assms(1)] add_ips_ok [OF assms(2)] assms
  by (auto simp: node_templates_def Let_def MatchIPFamily_cases v4_published_def v6_published_def family_addresses_def)

lemma fold_node_templates:
  assumes "templates_ok (fst t)" "templates_ok (snd t)" "ch \<noteq> []"
  shows "templates_ok (fst (fold (node_templates v4 v6) infos t)) \<and> templates_ok (snd (fold (node_templates v4 v6) infos t))
    \<and> held (nt_templates (fst (fold (node_templates v4 v6) infos t))) ch
        = held (nt_templates (fst t)) ch @ concat (map (\<lambda>ni. if nf_chassisID ni = ch then v4_published v4 ni else []) infos)
    \<and> held (nt_templates (snd (fold (node_templates v4 v6) infos t))) ch
        = held (nt_templates (snd t)) ch @ concat (map (\<lambda>ni. if nf_chassisID ni = ch then v6_published v4 v6 ni else []) infos)"
  using assms(1,2)
proof (induction infos arbitrary: t)
  case (Cons ni infos)
  then show ?case using node_templates_ok [OF Cons.prems assms(3), of v4 v6 ni] Cons.IH [of "node_templates v4 v6 ni t"] by simp
qed simp

lemma only_chassis:
  assumes "distinct (filter (\<lambda>ch. ch \<noteq> []) (map nf_chassisID infos))" "ni \<in> set infos" "nf_chassisID ni \<noteq> []"
  shows "concat (map (\<lambda>x. if nf_chassisID x = nf_chassisID ni then f x else []) infos) = f ni"
  using assms(1,2)
proof (induction infos)
  case (Cons x infos)
  have none: "concat (map (\<lambda>y. if nf_chassisID y = nf_chassisID ni then f y else []) infos) = []"
    if "nf_chassisID ni \<notin> nf_chassisID ` set infos" using that by (induction infos) auto
  show ?case
  proof (cases "nf_chassisID x = nf_chassisID ni")
    case True
    have "nf_chassisID x \<notin> set (map nf_chassisID infos)"
      using Cons.prems(1) True assms(3) by (simp only: list.map filter.simps distinct.simps set_filter mem_Collect_eq if_True simp_thms)
    then have n: "nf_chassisID ni \<notin> nf_chassisID ` set infos" unfolding True set_map .
    then have "ni \<notin> set infos" by blast
    then have "x = ni" using Cons.prems(2) by simp
    then show ?thesis using none [OF n] by simp
  next
    case False
    then have "ni \<in> set infos" using Cons.prems(2) by auto
    moreover have "distinct (filter (\<lambda>ch. ch \<noteq> []) (map nf_chassisID infos))" using Cons.prems(1) by (simp split: if_splits)
    ultimately show ?thesis using False Cons.IH by simp
  qed
qed simp

text \<open>After a change of the nodes, the templates hold for every chassis exactly the host addresses of its node: the
  \<open>i\<close>-th IPv4 address in the variable \<open>NODEIP_IPv4_i\<close>, the \<open>i\<close>-th IPv6 address in \<open>NODEIP_IPv6_i\<close>. The IPv6 addresses
  of a node without an IPv4 address are missing in a dual-stack cluster.\<close>

lemma node_templates_hold_addresses:
  assumes "sv_useTemplates c" "distinct (filter (\<lambda>ch. ch \<noteq> []) (map nf_chassisID infos))"
    and "ni \<in> set infos" "nf_chassisID ni \<noteq> []"
    and "c1 = syncNodeInfos w infos c"
  shows "held (nt_templates (sv_nodeIPv4Templates c1)) (nf_chassisID ni) = v4_published (sw_IPv4Mode w) ni
    \<and> held (nt_templates (sv_nodeIPv6Templates c1)) (nf_chassisID ni) = v6_published (sw_IPv4Mode w) (sw_IPv6Mode w) ni
    \<and> map tm_Name (nt_templates (sv_nodeIPv4Templates c1))
        = map (\<lambda>i. ''NODEIP_IPv4_'' @ itoa (int i)) [0 ..< length (nt_templates (sv_nodeIPv4Templates c1))]"
proof -
  define t where "t = fold (node_templates (sw_IPv4Mode w) (sw_IPv6Mode w)) infos (NewNodeIPsTemplates ''IPv4'', NewNodeIPsTemplates ''IPv6'')"
  have c1: "sv_nodeIPv4Templates c1 = fst t" "sv_nodeIPv6Templates c1 = snd t"
    using assms(1,5) by (simp_all add: syncNodeInfos_def Let_def t_def case_prod_beta)
  have new: "templates_ok (NewNodeIPsTemplates f)" for f by (simp add: templates_ok_def NewNodeIPsTemplates_def)
  note h = fold_node_templates [of "(NewNodeIPsTemplates ''IPv4'', NewNodeIPsTemplates ''IPv6'')", unfolded fst_conv snd_conv, OF new new assms(4),
      of "sw_IPv4Mode w" "sw_IPv6Mode w" infos, folded t_def]
  have add: "nt_ipFamily (add_ips ch ips n) = nt_ipFamily n" for ch ips n
    unfolding add_ips_def by (induction ips arbitrary: n) (simp_all add: AddIP_def)
  have step: "nt_ipFamily (fst (node_templates v4 v6 x s)) = nt_ipFamily (fst s)" for v4 v6 x s
    by (auto simp: node_templates_def Let_def add split: sum.splits)
  have "nt_ipFamily (fst (fold (node_templates v4 v6) xs s)) = nt_ipFamily (fst s)" for v4 v6 xs s
    by (induction xs arbitrary: s) (simp_all add: step)
  then have fam: "nt_ipFamily (fst t) = ''IPv4''" by (simp add: t_def NewNodeIPsTemplates_def)
  have nm: "map tm_Name (nt_templates (fst t)) = map (\<lambda>i. ''NODEIP_IPv4_'' @ itoa (int i)) [0 ..< length (nt_templates (fst t))]"
    using h fam by (simp add: templates_ok_def makeLBNodeIPTemplateNamePrefix_def)
  show ?thesis unfolding c1 using h only_chassis [OF assms(2-4), of "v4_published (sw_IPv4Mode w)"]
      only_chassis [OF assms(2-4), of "v6_published (sw_IPv4Mode w) (sw_IPv6Mode w)"] nm by (simp add: NewNodeIPsTemplates_def)
qed


section \<open>Start-up\<close>

text \<open>What a row of the database says about an attachment.\<close>

fun db_attached :: "nb_db \<Rightarrow> string \<Rightarrow> attachment \<Rightarrow> bool" where
  "db_attached db u (OnSwitch k) \<longleftrightarrow> (\<exists>rows us. db_switches db = Some rows \<and> (k, us) \<in> set rows \<and> u \<in> set us)"
| "db_attached db u (OnRouter k) \<longleftrightarrow> (\<exists>rows us. db_routers db = Some rows \<and> (k, us) \<in> set rows \<and> u \<in> set us)"
| "db_attached db u (OnGroup k) \<longleftrightarrow> (\<exists>rows us. db_groups db = Some rows \<and> (k, us) \<in> set rows \<and> u \<in> set us)"

lemma attached_to_set: "k \<in> set (attached_to rows u) \<longleftrightarrow> (\<exists>us. (k, us) \<in> set rows \<and> u \<in> set us)"
  by (force simp: attached_to_def)

lemma update_new: "k \<notin> fst ` set m \<Longrightarrow> AList.update k v m = m @ [(k, v)]"
  by (induction m) auto

lemma fold_update_distinct:
  assumes "distinct (map f xs)" "\<forall>x \<in> set xs. f x \<notin> fst ` set m"
  shows "fold (\<lambda>x. AList.update (f x) (g x)) xs m = m @ map (\<lambda>x. (f x, g x)) xs"
  using assms
proof (induction xs arbitrary: m)
  case (Cons a xs)
  have "f a \<notin> fst ` set m" "\<forall>x \<in> set xs. f x \<notin> fst ` set (m @ [(f a, g a)])"
    using Cons.prems by (simp_all, metis image_eqI)
  then show ?case using Cons.IH [of "m @ [(f a, g a)]"] Cons.prems(1) by (simp add: update_new)
qed simp

lemma map_filter_set: "set (List.map_filter f xs) = {x. \<exists>u. u \<in> set xs \<and> f u = Some x}"
  by (induction xs) (auto split: option.splits)

lemma lookup_all:
  assumes "distinct (map fst m)" "set ks = fst ` set m"
  shows "set (List.map_filter (map_of m) ks) = snd ` set m"
proof -
  have "(\<exists>u. u \<in> set ks \<and> map_of m u = Some x) \<longleftrightarrow> (\<exists>u. (u, x) \<in> set m)" for x
    unfolding assms(2) map_of_eq_Some_iff [OF assms(1)] by force
  then show ?thesis unfolding map_filter_set by force
qed

lemma getLBsCommon_set:
  assumes order: "\<forall>xs. set (ne_order e xs) = set xs" and d: "distinct (map nb_UUID lbs)"
    and db: "db_lbs db = Some lbs" "db_switches db = Some ss" "db_routers db = Some rs" "db_groups db = Some gs"
  shows "\<exists>out. getLBsCommon e db tms own = Some out \<and> set out = cached_lb tms ss rs gs ` {l \<in> set lbs. is_service_lb own l}"
proof -
  define rows where "rows = filter (is_service_lb own) lbs"
  have dr: "distinct (map nb_UUID rows)" unfolding rows_def using d by (simp add: distinct_map_filter)
  have m: "fold (\<lambda>l. AList.update (nb_UUID l) (cached_lb tms ss rs gs l)) rows [] = map (\<lambda>l. (nb_UUID l, cached_lb tms ss rs gs l)) rows"
    (is "_ = ?m") using fold_update_distinct [OF dr, of "[]"] by simp
  have "distinct (map fst ?m)" using dr by (simp add: comp_def)
  moreover have "set (ne_order e (map fst ?m)) = fst ` set ?m" unfolding order [rule_format] set_map ..
  ultimately have "set (List.map_filter (map_of ?m) (ne_order e (map fst ?m))) = snd ` set ?m" by (rule lookup_all)
  also have "\<dots> = cached_lb tms ss rs gs ` set rows" unfolding set_map image_image by (simp only: snd_conv)
  finally have "set (List.map_filter (map_of ?m) (ne_order e (map fst ?m))) = cached_lb tms ss rs gs ` set rows" .
  moreover have "{l \<in> set lbs. is_service_lb own l} = set rows" by (simp add: rows_def)
  ultimately show ?thesis unfolding getLBsCommon_def db by (simp add: rows_def [symmetric] m Let_def)
qed

lemma cached_lb_fields [simp]:
  "lb_UUID (cached_lb tms ss rs gs l) = nb_UUID l" "lb_Name (cached_lb tms ss rs gs l) = nb_Name l"
  "lb_ExternalIDs (cached_lb tms ss rs gs l) = nb_ExternalIDs l"
  "lb_Switches (cached_lb tms ss rs gs l) = attached_to ss (nb_UUID l)"
  "lb_Routers (cached_lb tms ss rs gs l) = attached_to rs (nb_UUID l)"
  "lb_Groups (cached_lb tms ss rs gs l) = attached_to gs (nb_UUID l)"
  by (simp_all add: cached_lb_def)

lemma cached_lb_attachments:
  assumes "db_switches db = Some ss" "db_routers db = Some rs" "db_groups db = Some gs"
  shows "a \<in> attachments (cached_lb tms ss rs gs l) \<longleftrightarrow> db_attached db (nb_UUID l) a"
  using assms by (cases a) (simp_all add: attached_to_set)

text \<open>C31: After a restart the cache agrees with the database: for every service it holds the load balancers that the
  database has for it, with their identifiers and exactly their attachments to switches, routers and groups, so
  that the first sync of each service computes the right differences.\<close>

theorem restart_cache_matches_database:
  assumes "\<forall>xs. set (ne_order e xs) = set xs" "db_lbs db = Some lbs" "distinct (map nb_UUID lbs)"
    and "initTopLevelCache e db c = Some c1"
  shows "(\<exists>own x. sv_alreadyApplied c1 key = Some own \<and> x \<in> set own \<and> lb_UUID x = u \<and> lb_Name x = n \<and> a \<in> attachments x) \<longleftrightarrow>
    (\<exists>l \<in> set lbs. nb_UUID l = u \<and> nb_Name l = n \<and> external_id l ''k8s.ovn.org/kind'' = ''Service'' \<and>
       map_of (nb_ExternalIDs l) ''k8s.ovn.org/owner'' = Some key \<and> db_attached db u a)"
proof -
  obtain tms out where out: "getLBsCommon e db tms True = Some out"
    and c1: "sv_alreadyApplied c1 = (\<lambda>service. let own = filter (\<lambda>l. lb_owner l = service) out in if own = [] then None else Some own)"
    using assms(4) by (auto simp: initTopLevelCache_def bind_eq_Some_conv)
  obtain ss rs gs where db: "db_switches db = Some ss" "db_routers db = Some rs" "db_groups db = Some gs"
    using out by (auto simp: getLBsCommon_def split: option.splits)
  have so: "set out = cached_lb tms ss rs gs ` {l \<in> set lbs. is_service_lb True l}"
    using getLBsCommon_set [OF assms(1,3,2) db, of tms True] out by auto
  have own: "lb_owner (cached_lb tms ss rs gs l) = key \<longleftrightarrow> map_of (nb_ExternalIDs l) ''k8s.ovn.org/owner'' = Some key"
    if "is_service_lb True l" for l
    using that by (auto simp: lb_owner_def is_service_lb_def)
  have "(\<exists>own x. sv_alreadyApplied c1 key = Some own \<and> x \<in> set own \<and> P x) \<longleftrightarrow> (\<exists>x \<in> set out. lb_owner x = key \<and> P x)" for P
    unfolding c1 Let_def by (auto simp: filter_empty_conv)
  then have "(\<exists>own x. sv_alreadyApplied c1 key = Some own \<and> x \<in> set own \<and> lb_UUID x = u \<and> lb_Name x = n \<and> a \<in> attachments x)
      \<longleftrightarrow> (\<exists>x \<in> set out. lb_owner x = key \<and> lb_UUID x = u \<and> lb_Name x = n \<and> a \<in> attachments x)" .
  also have "\<dots> \<longleftrightarrow> (\<exists>l \<in> set lbs. is_service_lb True l \<and> map_of (nb_ExternalIDs l) ''k8s.ovn.org/owner'' = Some key
      \<and> nb_UUID l = u \<and> nb_Name l = n \<and> db_attached db u a)"
    unfolding so using own cached_lb_attachments [OF db] by auto
  finally show ?thesis by (auto simp: is_service_lb_def)
qed

text \<open>A failed read of the load balancers makes the repair treat every template of every service as stale.\<close>

lemma failed_read_deletes_templates:
  assumes "db_lbs db = None" "db_templates db = Some rows" "runBeforeSync w db True c = (c1, staleLBs, staleTemplateNames)"
  shows "staleTemplateNames = {name \<in> fst ` set (listSvcTemplates rows). \<not> isLBNodeIPTemplateName name}"
  using assms by (auto simp: runBeforeSync_def getLBsCommon_def)

section \<open>Examples\<close>

definition example_env :: nb_env where
  "example_env = \<lparr>ne_opOk = (\<lambda>_. True), ne_transact = (\<lambda>_. Some [''u1'', ''u2'', ''u3'']), ne_order = (\<lambda>xs. xs)\<rparr>"

definition example_lb :: "string \<Rightarrow> string \<Rightarrow> string list \<Rightarrow> LB" where
  "example_lb nm uuid switches = emptyLB\<lparr>lb_Name := nm, lb_UUID := uuid, lb_Protocol := ''TCP'', lb_Switches := switches\<rparr>"

theorem EnsureLBs_reconciles_witness:
  "fold (apply_op (named_by [example_lb ''a'' ''u0'' [''n1'', ''n2''], example_lb ''b'' ''u9'' [''n1'']]))
     (ensure_ops example_env example_svccfg [example_lb ''a'' ''u0'' [''n1'', ''n2''], example_lb ''b'' ''u9'' [''n1'']] [example_lb ''a'' [] [''n2'', ''n3'']])
     (attached [example_lb ''a'' ''u0'' [''n1'', ''n2''], example_lb ''b'' ''u9'' [''n1'']])
   = {(''a'', OnSwitch ''n2''), (''a'', OnSwitch ''n3'')}"
proof -
  let ?old = "[example_lb ''a'' ''u0'' [''n1'', ''n2''], example_lb ''b'' ''u9'' [''n1'']]" and ?new = "[example_lb ''a'' [] [''n2'', ''n3'']]"
  let ?ops = "ensure_ops example_env example_svccfg ?old ?new" and ?stored = "store_uuids [''u1'', ''u2'', ''u3''] ?new"
  have order: "\<forall>xs. set (ne_order example_env xs) = set xs" by (simp add: example_env_def)
  have d: "distinct (map lb_Name ?old)" "distinct (map lb_UUID ?old)" "distinct (map lb_Name ?new)" by (simp_all add: example_lb_def)
  have ok: "list_all (ne_opOk example_env) xs" for xs by (simp add: example_env_def list_all_iff)
  have "EnsureLBs example_env example_svccfg ?old ?new = (Some ?ops, Some ?stored)"
    unfolding EnsureLBs_def Let_def using ok by (simp add: example_env_def)
  note EnsureLBs_reconciles [OF order d this]
  moreover have "attached ?stored = {(''a'', OnSwitch ''n2''), (''a'', OnSwitch ''n3'')}"
    by (auto simp: attached_def attachments_def store_uuids_def Let_def example_lb_def emptyLB_def)
  ultimately show ?thesis by simp
qed

definition example_labelled :: labelledSlice where
  "example_labelled = EndpointSlice.extend (example_slice ''10.244.0.5'' 8080)
     \<lparr>ls_Namespace = ''ns'', ls_Labels = [(LabelServiceName, ''web'')]\<rparr>"

definition example_world :: svc_world where
  "example_world = \<lparr>sw_cfg = example_svccfg, sw_env = example_env, sw_IPv4Mode = True, sw_IPv6Mode = False,
     sw_get = (\<lambda>ns nm. if ns = ''ns'' \<and> nm = ''web'' then Inr (Some example_service) else Inr None),
     sw_list = Some [example_service], sw_slices = Some [example_labelled]\<rparr>"

definition example_controller :: Controller where
  "example_controller = \<lparr>sv_queue = [''ns/web'', ''ns/old''], sv_requeues = (\<lambda>_. 0), sv_nodeInfos = [example_node ''n1'' 0],
     sv_nodeIPv4Templates = NewNodeIPsTemplates ''IPv4'', sv_nodeIPv6Templates = NewNodeIPsTemplates ''IPv6'',
     sv_alreadyApplied = (\<lambda>_. None), sv_unsyncedServices = {''ns/web''}, sv_useLBGroups = False, sv_useTemplates = True, sv_sent = []\<rparr>"

theorem syncService_correct_witness:
  "\<exists>c1. syncService example_world ''ns/web'' example_controller = Some (None, c1) \<and> up_to_date example_world ''ns/web'' c1
     \<and> syncService example_world ''ns/web'' c1 = Some (None, c1)"
proof -
  let ?slices = "[example_slice ''10.244.0.5'' 8080]"
  have k: "SplitMetaNamespaceKey ''ns/web'' = Some (''ns'', ''web'')" by code_simp
  have h: "ServiceTypeHasClusterIP example_service" "IsClusterIPSet example_service" by code_simp+
  have sl: "service_slices [example_labelled] ''ns'' ''web'' = ?slices" by code_simp
  have "buildServiceLBConfigs example_svccfg example_service ?slices False True \<noteq> None" by code_simp
  then obtain lbs where "desired_lbs example_svccfg example_service ?slices example_controller = Some lbs"
    by (auto simp: desired_lbs_def example_controller_def)
  then have "syncService example_world ''ns/web'' example_controller = Some (sync_present example_world ''ns/web'' lbs example_controller)"
    unfolding syncService_def k by (simp add: example_world_def h sl)
  moreover have "fst (EnsureLBs example_env example_svccfg [] lbs) = Some (ensure_ops example_env example_svccfg [] lbs)"
    "snd (EnsureLBs example_env example_svccfg [] lbs) = Some (store_uuids [''u1'', ''u2'', ''u3''] lbs)"
    by (simp_all add: EnsureLBs_def Let_def example_env_def list_all_iff)
  then have "fst (sync_present example_world ''ns/web'' lbs example_controller) = None"
    by (simp add: sync_present_def example_controller_def example_world_def case_prod_beta)
  ultimately obtain c1 where c1: "syncService example_world ''ns/web'' example_controller = Some (None, c1)"
    by (cases "sync_present example_world ''ns/web'' lbs example_controller") simp
  show ?thesis using syncService_correct [OF c1] c1 by auto
qed

definition failing_world :: svc_world where
  "failing_world = example_world\<lparr>sw_get := (\<lambda>_ _. Inl ())\<rparr>"

theorem worker_drains_queue_witness:
  "\<exists>c1. worker 32 failing_world example_controller = Some c1 \<and> sv_queue c1 = []"
proof -
  have q: "queue_ok example_controller" by (simp add: queue_ok_def example_controller_def)
  have "\<forall>key d. syncService failing_world key d \<noteq> None"
    by (simp add: syncService_def failing_world_def split: option.splits)
  from worker_drains_queue [OF q this] show ?thesis by (simp add: example_controller_def)
qed

definition example_db :: nb_db where
  "example_db = \<lparr>db_lbs = Some [\<lparr>nb_UUID = ''u0'', nb_Name = ''a'', nb_Protocol = ''tcp'', nb_Vips = [], nb_Options = [],
       nb_ExternalIDs = [(''k8s.ovn.org/kind'', ''Service''), (''k8s.ovn.org/owner'', ''ns/web'')]\<rparr>],
     db_switches = Some [(''n1'', [''u0'']), (''n2'', [])], db_routers = Some [], db_groups = Some [], db_templates = Some []\<rparr>"

theorem restart_cache_matches_database_witness:
  "\<exists>c1 own x. initTopLevelCache example_env example_db example_controller = Some c1
     \<and> sv_alreadyApplied c1 ''ns/web'' = Some own \<and> x \<in> set own \<and> lb_UUID x = ''u0'' \<and> lb_Name x = ''a'' \<and> OnSwitch ''n1'' \<in> attachments x"
proof -
  have order: "\<forall>xs. set (ne_order example_env xs) = set xs" by (simp add: example_env_def)
  have "initTopLevelCache example_env example_db example_controller \<noteq> None"
    by (simp add: initTopLevelCache_def getLBsCommon_def example_db_def example_controller_def)
  then obtain c1 where c1: "initTopLevelCache example_env example_db example_controller = Some c1" by auto
  obtain lbs where lbs: "db_lbs example_db = Some lbs" "distinct (map nb_UUID lbs)" by (simp add: example_db_def)
  have "\<exists>l \<in> set lbs. nb_UUID l = ''u0'' \<and> nb_Name l = ''a'' \<and> external_id l ''k8s.ovn.org/kind'' = ''Service'' \<and>
       map_of (nb_ExternalIDs l) ''k8s.ovn.org/owner'' = Some ''ns/web'' \<and> db_attached example_db ''u0'' (OnSwitch ''n1'')"
    using lbs(1) by (auto simp: example_db_def external_id_def)
  then show ?thesis
    using restart_cache_matches_database [OF order lbs c1, of "''ns/web''" "''u0''" "''a''" "OnSwitch ''n1''"] c1 by blast
qed

end
