(* ===== verification/Label_Selectors.thy ===== *)
theory Label_Selectors
  imports Ovn_Prelude
begin

text \<open>
  Label selectors of Kubernetes (\<open>k8s.io/apimachinery\<close>), which the egress service controller and the network policies
  use to select nodes, namespaces and pods.
\<close>

section \<open>Label selectors\<close>

text \<open>\<open>k8s.io/apimachinery\<close>: a selector is a list of requirements, all of which must hold. Whether the syntax of the
  key and of the values of a requirement is valid is an argument.\<close>

record requirement =
  rq_Key :: string
  rq_Operator :: string
  rq_Values :: "string list"

record LabelSelector =
  sl_MatchLabels :: "(string \<times> string) list"
  sl_MatchExpressions :: "requirement list"

type_synonym labels = "(string \<times> string) list"

definition requirement_matches :: "requirement \<Rightarrow> labels \<Rightarrow> bool" where
  "requirement_matches r ls =
     (if rq_Operator r = ''In'' then (case map_of ls (rq_Key r) of None \<Rightarrow> False | Some v \<Rightarrow> v \<in> set (rq_Values r))
      else if rq_Operator r = ''NotIn'' then (case map_of ls (rq_Key r) of None \<Rightarrow> True | Some v \<Rightarrow> v \<notin> set (rq_Values r))
      else if rq_Operator r = ''Exists'' then map_of ls (rq_Key r) \<noteq> None
      else if rq_Operator r = ''DoesNotExist'' then map_of ls (rq_Key r) = None
      else False)"

definition selector_matches :: "requirement list \<Rightarrow> labels \<Rightarrow> bool" where
  "selector_matches sel ls \<longleftrightarrow> list_all (\<lambda>r. requirement_matches r ls) sel"

definition requirement_ok :: "(requirement \<Rightarrow> bool) \<Rightarrow> requirement \<Rightarrow> bool" where
  "requirement_ok syntax r \<longleftrightarrow>
     syntax r \<and> (if rq_Operator r \<in> {''In'', ''NotIn''} then rq_Values r \<noteq> []
                 else if rq_Operator r \<in> {''Exists'', ''DoesNotExist''} then rq_Values r = [] else False)"

definition LabelSelectorAsSelector :: "(requirement \<Rightarrow> bool) \<Rightarrow> LabelSelector \<Rightarrow> requirement list option" where
  "LabelSelectorAsSelector syntax ps =
     (let rs = map (\<lambda>(k, v). \<lparr>rq_Key = k, rq_Operator = ''In'', rq_Values = [v]\<rparr>) (sl_MatchLabels ps) @ sl_MatchExpressions ps
      in if list_all (requirement_ok syntax) rs then Some rs else None)"

end
