(* ===== verification/Egress_Service.thy ===== *)
theory Egress_Service
  imports Service_Controller Label_Selectors
begin

text \<open>
  The egress service controller of the cluster manager (\<open>pkg/clustermanager/egressservice\<close>): it selects for every
  \<open>EgressService\<close> the node through which the traffic of the service leaves the cluster, and moves the service when
  the node is not suitable any more.

  A service state is shared between the map of services and the allocations of its node. Here the allocations of a
  node are the keys of its services, and the state is the one of the map; \<open>alloc_inv\<close> says that the two maps belong
  together. What the controller reads of the informers, the answers of the API server and the order in which Go
  walks its maps are in the record \<open>es_env\<close>. A nil dereference is \<open>None\<close>.
\<close>

section \<open>State\<close>

record EgressService =
  egs_Namespace :: string
  egs_Name :: string
  egs_SourceIPBy :: string
  egs_NodeSelector :: LabelSelector
  egs_Host :: string

record esEndpoint =
  xe_NodeName :: "string option"
  xe_Addresses :: "string list"

record esSlice =
  xs_AddressType :: string
  xs_Endpoints :: "esEndpoint list"

record esNode =
  en_node :: Node
  en_labels :: labels
  en_conditions :: "(string \<times> string) list"
  en_addresses :: "(string \<times> string) list"

record svcState =
  ss_node :: string
  ss_selector :: "requirement list"
  ss_stale :: bool

record nodeState =
  ns_name :: string
  ns_labels :: labels
  ns_mgmtIPs :: "ip list"
  ns_v4MgmtIP :: ip
  ns_v6MgmtIP :: ip
  ns_v4InternalNodeIP :: ip
  ns_v6InternalNodeIP :: ip
  ns_allocations :: "string list"
  ns_reachable :: bool
  ns_draining :: bool

datatype es_call = SetHost string string string | SetLabels string "(string \<times> string option) list"

record esController =
  ec_services :: "string \<rightharpoonup> svcState"
  ec_nodes :: "(string \<times> nodeState) list"
  ec_unallocated :: "(string \<times> requirement list) list"
  ec_serviceQueue :: "string list"
  ec_nodesQueue :: "string list"
  ec_serviceRequeues :: "string \<Rightarrow> nat"
  ec_nodeRequeues :: "string \<Rightarrow> nat"
  ec_calls :: "es_call list"

datatype api_answer = ApiOk | ApiNotFound | ApiError

datatype es_error = BadServiceKey | LookupFailed | NoSelector | NoSuitableNode | HostFailed | LabelFailed | SubnetsFailed

text \<open>The informers, the answers to writes and the order of maps.\<close>

record es_env =
  ee_cfg :: svc_config
  ee_shared :: bool
  ee_egressService :: "string \<Rightarrow> string \<Rightarrow> unit + EgressService option"
  ee_service :: "string \<Rightarrow> string \<Rightarrow> unit + Service option"
  ee_slices :: "string \<Rightarrow> string \<Rightarrow> esSlice list option"
  ee_nodes :: "esNode list"
  ee_nodeErr :: "string \<Rightarrow> bool"
  ee_listErr :: bool
  ee_setHost :: "string \<Rightarrow> string \<Rightarrow> string \<Rightarrow> api_answer"
  ee_setLabels :: "string \<Rightarrow> (string \<times> string option) list \<Rightarrow> api_answer"
  ee_syntax :: "requirement \<Rightarrow> bool"
  ee_order :: "string list \<Rightarrow> string list"

definition egressSVCLabelPrefix :: string where
  "egressSVCLabelPrefix = ''egress-service.k8s.ovn.org''"

definition noHost :: string where
  "noHost = []"

definition noSNATHost :: string where
  "noSNATHost = ''ALL''"

definition en_name :: "esNode \<Rightarrow> string" where
  "en_name n = node_Name (en_node n)"

definition NewEgressServiceController :: esController where
  "NewEgressServiceController = \<lparr>ec_services = Map.empty, ec_nodes = [], ec_unallocated = [], ec_serviceQueue = [],
     ec_nodesQueue = [], ec_serviceRequeues = (\<lambda>_. 0), ec_nodeRequeues = (\<lambda>_. 0), ec_calls = []\<rparr>"

section \<open>Writes\<close>

definition es_queue :: "string \<Rightarrow> esController \<Rightarrow> esController" where
  "es_queue key c = (if key \<in> set (ec_serviceQueue c) then c else c\<lparr>ec_serviceQueue := ec_serviceQueue c @ [key]\<rparr>)"

definition en_queue :: "string \<Rightarrow> esController \<Rightarrow> esController" where
  "en_queue key c = (if key \<in> set (ec_nodesQueue c) then c else c\<lparr>ec_nodesQueue := ec_nodesQueue c @ [key]\<rparr>)"

definition nodeLabelForService :: "string \<Rightarrow> string \<Rightarrow> string" where
  "nodeLabelForService namespace name = egressSVCLabelPrefix @ ''/'' @ namespace @ ''-'' @ name"

definition setEgressServiceHost :: "es_env \<Rightarrow> string \<Rightarrow> string \<Rightarrow> string \<Rightarrow> esController \<Rightarrow> es_error option \<times> esController" where
  "setEgressServiceHost e namespace name host c =
     (case ee_setHost e namespace name host of
        ApiOk \<Rightarrow> (None, c\<lparr>ec_calls := ec_calls c @ [SetHost namespace name host]\<rparr>)
      | ApiNotFound \<Rightarrow> (if host \<noteq> [] then Some HostFailed else None, c)
      | ApiError \<Rightarrow> (Some HostFailed, c))"

definition SetLabelsOnNode :: "es_env \<Rightarrow> string \<Rightarrow> (string \<times> string option) list \<Rightarrow> esController \<Rightarrow> api_answer \<times> esController" where
  "SetLabelsOnNode e node ls c =
     (case ee_setLabels e node ls of
        ApiOk \<Rightarrow> (ApiOk, c\<lparr>ec_calls := ec_calls c @ [SetLabels node ls]\<rparr>)
      | ApiNotFound \<Rightarrow> (ApiNotFound, c)
      | ApiError \<Rightarrow> (ApiError, c))"

definition labelNodeForService :: "es_env \<Rightarrow> string \<Rightarrow> string \<Rightarrow> string \<Rightarrow> esController \<Rightarrow> es_error option \<times> esController" where
  "labelNodeForService e namespace name node c =
     (case SetLabelsOnNode e node [(nodeLabelForService namespace name, Some [])] c of
        (ApiOk, c1) \<Rightarrow> (None, c1)
      | (_, c1) \<Rightarrow> (Some LabelFailed, c1))"

definition removeNodeServiceLabel :: "es_env \<Rightarrow> string \<Rightarrow> string \<Rightarrow> string \<Rightarrow> esController \<Rightarrow> es_error option \<times> esController" where
  "removeNodeServiceLabel e namespace name node c =
     (case SetLabelsOnNode e node [(nodeLabelForService namespace name, None)] c of
        (ApiError, c1) \<Rightarrow> (Some LabelFailed, c1)
      | (_, c1) \<Rightarrow> (None, c1))"

definition on_alloc :: "string \<Rightarrow> (nodeState \<Rightarrow> nodeState) \<Rightarrow> (string \<times> nodeState) list \<Rightarrow> (string \<times> nodeState) list" where
  "on_alloc nm f nodes = map (\<lambda>(k, n). (k, if k = nm then f n else n)) nodes"

definition clearServiceResourcesAndRequeue ::
  "es_env \<Rightarrow> string \<Rightarrow> svcState \<Rightarrow> string \<Rightarrow> esController \<Rightarrow> es_error option \<times> esController" where
  "clearServiceResourcesAndRequeue e key st host c =
     (case SplitMetaNamespaceKey key of
        None \<Rightarrow> (Some BadServiceKey, c)
      | Some (namespace, name) \<Rightarrow>
          (let c1 = c\<lparr>ec_services := (ec_services c)(key \<mapsto> st\<lparr>ss_stale := True\<rparr>)\<rparr>
           in case setEgressServiceHost e namespace name host c1 of
                (Some err, c2) \<Rightarrow> (Some err, c2)
              | (None, c2) \<Rightarrow>
                  (case (if map_of (ec_nodes c2) (ss_node st) \<noteq> None then removeNodeServiceLabel e namespace name (ss_node st) c2
                         else (None, c2)) of
                     (Some err, c3) \<Rightarrow> (Some err, c3)
                   | (None, c3) \<Rightarrow>
                       (None, es_queue key (c3\<lparr>ec_nodes := on_alloc (ss_node st) (\<lambda>n. n\<lparr>ns_allocations := removeAll key (ns_allocations n)\<rparr>) (ec_nodes c3),
                          ec_services := (ec_services c3)(key := None)\<rparr>)))))"

section \<open>Selecting a node\<close>

definition nodeIsReady :: "esNode \<Rightarrow> bool" where
  "nodeIsReady n \<longleftrightarrow> (''Ready'', ''True'') \<in> set (en_conditions n)"

definition get_node :: "es_env \<Rightarrow> string \<Rightarrow> unit + esNode option" where
  "get_node e nm = (if ee_nodeErr e nm then Inl () else Inr (find (\<lambda>n. en_name n = nm) (ee_nodes e)))"

fun mgmt_ips :: "ipnet list \<Rightarrow> ip list option" where
  "mgmt_ips [] = Some []"
| "mgmt_ips (n # ns) =
     (case GetNodeManagementIfAddr (Some n) of
        Some (Some m) \<Rightarrow> map_option ((#) (IP m)) (mgmt_ips ns)
      | _ \<Rightarrow> None)"

definition last_ip :: "(ip \<Rightarrow> bool) \<Rightarrow> ip list \<Rightarrow> ip" where
  "last_ip P ips = fold (\<lambda>x acc. if P x then x else acc) ips []"

definition nodeStateFor :: "es_env \<Rightarrow> string \<Rightarrow> (es_error + nodeState) option" where
  "nodeStateFor e nm =
     (case get_node e nm of
        Inl _ \<Rightarrow> Some (Inl LookupFailed)
      | Inr None \<Rightarrow> Some (Inl LookupFailed)
      | Inr (Some node) \<Rightarrow>
          (case ParseNodeHostSubnetAnnotation (en_node node) ''default'' of
             Inl _ \<Rightarrow> Some (Inl SubnetsFailed)
           | Inr subnets \<Rightarrow>
               map_option (\<lambda>ips. Inr \<lparr>ns_name = nm, ns_labels = en_labels node, ns_mgmtIPs = ips, ns_v4MgmtIP = last_ip IsIPv4 ips,
                   ns_v6MgmtIP = last_ip (\<lambda>x. \<not> IsIPv4 x) ips, ns_v4InternalNodeIP = fst (GetNodeInternalAddrs (en_addresses node)),
                   ns_v6InternalNodeIP = snd (GetNodeInternalAddrs (en_addresses node)), ns_allocations = [], ns_reachable = True,
                   ns_draining = False\<rparr>)
                 (mgmt_ips subnets)))"

definition cachedNodesFor :: "es_env \<Rightarrow> requirement list \<Rightarrow> esController \<Rightarrow> nodeState list" where
  "cachedNodesFor e sel c =
     filter (\<lambda>n. selector_matches sel (ns_labels n)) (List.map_filter (map_of (ec_nodes c)) (ee_order e (map fst (ec_nodes c))))"

definition free_nodes :: "es_env \<Rightarrow> requirement list \<Rightarrow> esController \<Rightarrow> string list" where
  "free_nodes e sel c =
     (let ready = map en_name (filter (\<lambda>n. selector_matches sel (en_labels n) \<and> nodeIsReady n) (ee_nodes e))
      in filter (\<lambda>nm. nm \<notin> set (map ns_name (cachedNodesFor e sel c))) (remdups ready))"

definition selectNodeFor :: "es_env \<Rightarrow> requirement list \<Rightarrow> esController \<Rightarrow> (es_error + nodeState) option" where
  "selectNodeFor e sel c =
     (if ee_listErr e then Some (Inl LookupFailed)
      else case ee_order e (free_nodes e sel c) of
          nm # _ \<Rightarrow> nodeStateFor e nm
        | [] \<Rightarrow>
            (case find (\<lambda>n. \<not> ns_draining n) (sort_key (\<lambda>n. length (ns_allocations n)) (cachedNodesFor e sel c)) of
               Some n \<Rightarrow> Some (Inr n)
             | None \<Rightarrow> Some (Inl NoSuitableNode)))"

section \<open>Endpoints\<close>

definition cluster_endpoint :: "svc_config \<Rightarrow> esEndpoint \<Rightarrow> bool" where
  "cluster_endpoint cfg ep \<longleftrightarrow>
     xe_NodeName ep \<noteq> None \<and> list_ex (\<lambda>a. \<not> IsHostEndpoint cfg (IP_String (ParseIPSloppy a))) (xe_Addresses ep)"

definition backendNodesFor :: "es_env \<Rightarrow> Service \<Rightarrow> string list option" where
  "backendNodesFor e svc =
     map_option (\<lambda>slices.
         let eps = concat (map xs_Endpoints (filter (\<lambda>s. xs_AddressType s \<noteq> ''FQDN'') slices))
         in if list_ex (cluster_endpoint (ee_cfg e)) eps
            then ee_order e (remdups (List.map_filter xe_NodeName eps)) else [])
       (ee_slices e (svc_Namespace svc) (svc_Name svc))"

text \<open>With external traffic policy local only a node with an endpoint can be used.\<close>

definition node_selector :: "EgressService \<Rightarrow> Service \<Rightarrow> string list \<Rightarrow> LabelSelector" where
  "node_selector es svc epsNodes =
     (if epsNodes \<noteq> [] \<and> svc_ExternalTrafficPolicy svc = ''Local''
      then (egs_NodeSelector es)\<lparr>sl_MatchExpressions := sl_MatchExpressions (egs_NodeSelector es)
             @ [\<lparr>rq_Key = ''kubernetes.io/hostname'', rq_Operator = ''In'', rq_Values = epsNodes\<rparr>]\<rparr>
      else egs_NodeSelector es)"

section \<open>Syncing an egress service\<close>

definition es_forget :: "string \<Rightarrow> esController \<Rightarrow> esController" where
  "es_forget key c = c\<lparr>ec_unallocated := AList.delete key (ec_unallocated c)\<rparr>"

definition es_remember :: "string \<Rightarrow> requirement list \<Rightarrow> esController \<Rightarrow> esController" where
  "es_remember key sel c = c\<lparr>ec_unallocated := AList.update key sel (ec_unallocated c)\<rparr>"

text \<open>The node is chosen: check it, set the status, label the node.\<close>

definition sync_chosen ::
  "es_env \<Rightarrow> string \<Rightarrow> string \<Rightarrow> string \<Rightarrow> svcState \<Rightarrow> requirement list \<Rightarrow> esController \<Rightarrow> (es_error option \<times> esController) option" where
  "sync_chosen e key namespace name st sel c =
     (let st1 = st\<lparr>ss_selector := sel\<rparr>;
          c1 = c\<lparr>ec_services := (ec_services c)(key \<mapsto> st1)\<rparr>
      in case map_of (ec_nodes c1) (ss_node st) of
           None \<Rightarrow> None
         | Some node \<Rightarrow>
             if \<not> selector_matches sel (ns_labels node) then Some (clearServiceResourcesAndRequeue e key st1 noHost c1)
             else case setEgressServiceHost e namespace name (ss_node st) c1 of
                 (Some err, c2) \<Rightarrow> Some (Some err, c2)
               | (None, c2) \<Rightarrow> Some (labelNodeForService e namespace name (ns_name node) c2))"

definition add_alloc :: "string \<Rightarrow> nodeState \<Rightarrow> nodeState" where
  "add_alloc key n = n\<lparr>ns_allocations := (if key \<in> set (ns_allocations n) then ns_allocations n else ns_allocations n @ [key])\<rparr>"

definition sync_allocate ::
  "es_env \<Rightarrow> string \<Rightarrow> string \<Rightarrow> string \<Rightarrow> requirement list \<Rightarrow> esController \<Rightarrow> (es_error option \<times> esController) option" where
  "sync_allocate e key namespace name sel c =
     (case ec_services c key of
        Some st \<Rightarrow> sync_chosen e key namespace name st sel c
      | None \<Rightarrow>
          (let c1 = es_remember key sel c
           in case selectNodeFor e sel c1 of
                None \<Rightarrow> None
              | Some (Inl err) \<Rightarrow> Some (Some err, c1)
              | Some (Inr node) \<Rightarrow>
                  (let c2 = es_forget key c1;
                       st = \<lparr>ss_node = ns_name node, ss_selector = sel, ss_stale = False\<rparr>;
                       c3 = c2\<lparr>ec_services := (ec_services c2)(key \<mapsto> st),
                               ec_nodes := AList.update (ns_name node) (add_alloc key node) (ec_nodes c2)\<rparr>
                   in sync_chosen e key namespace name st sel c3)))"

definition sync_loadBalancer ::
  "es_env \<Rightarrow> string \<Rightarrow> string \<Rightarrow> string \<Rightarrow> EgressService \<Rightarrow> Service \<Rightarrow> esController \<Rightarrow> (es_error option \<times> esController) option" where
  "sync_loadBalancer e key namespace name es svc c =
     (case backendNodesFor e svc of
        None \<Rightarrow> Some (Some LookupFailed, c)
      | Some epsNodes \<Rightarrow>
          (case LabelSelectorAsSelector (ee_syntax e) (node_selector es svc epsNodes) of
             None \<Rightarrow> Some (Some NoSelector, c)
           | Some sel \<Rightarrow>
               if epsNodes = [] then
                 Some (case ec_services c key of
                         None \<Rightarrow> setEgressServiceHost e namespace name [] (es_remember key sel c)
                       | Some st \<Rightarrow> clearServiceResourcesAndRequeue e key st noHost (es_remember key sel c))
               else sync_allocate e key namespace name sel c))"

text \<open>Without a state the service is only dropped from the unallocated services, and its status is set.\<close>

definition drop_service :: "es_env \<Rightarrow> string \<Rightarrow> string \<Rightarrow> string \<Rightarrow> string \<Rightarrow> esController \<Rightarrow> es_error option \<times> esController" where
  "drop_service e key namespace name host c =
     (case ec_services c key of
        None \<Rightarrow> setEgressServiceHost e namespace name host (es_forget key c)
      | Some st \<Rightarrow> clearServiceResourcesAndRequeue e key st host c)"

definition syncEgressService :: "es_env \<Rightarrow> string \<Rightarrow> esController \<Rightarrow> (es_error option \<times> esController) option" where
  "syncEgressService e key c =
     (case SplitMetaNamespaceKey key of
        None \<Rightarrow> Some (Some BadServiceKey, c)
      | Some (namespace, name) \<Rightarrow>
          (case (ee_egressService e namespace name, ee_service e namespace name) of
             (Inl _, _) \<Rightarrow> Some (Some LookupFailed, c)
           | (_, Inl _) \<Rightarrow> Some (Some LookupFailed, c)
           | (Inr None, Inr _) \<Rightarrow>
               Some (case ec_services c key of
                       None \<Rightarrow> (None, es_forget key c)
                     | Some st \<Rightarrow> clearServiceResourcesAndRequeue e key st noHost c)
           | (Inr (Some _), Inr None) \<Rightarrow> Some (drop_service e key namespace name noHost c)
           | (Inr (Some es), Inr (Some svc)) \<Rightarrow>
               if egs_SourceIPBy es = ''Network'' then
                 Some (drop_service e key namespace name (if ee_shared e then noHost else noSNATHost) c)
               else if (case ec_services c key of None \<Rightarrow> False | Some st \<Rightarrow> ss_stale st) \<or> svc_Ingress svc = [] then
                 Some (drop_service e key namespace name noHost c)
               else sync_loadBalancer e key namespace name es svc c))"

section \<open>Syncing a node\<close>

fun clear_all :: "es_env \<Rightarrow> string list \<Rightarrow> esController \<Rightarrow> es_error option \<times> esController" where
  "clear_all e [] c = (None, c)"
| "clear_all e (key # keys) c =
     (case ec_services c key of
        None \<Rightarrow> clear_all e keys c
      | Some st \<Rightarrow>
          (case clearServiceResourcesAndRequeue e key st noHost c of
             (Some err, c1) \<Rightarrow> (Some err, c1)
           | (None, c1) \<Rightarrow> clear_all e keys c1))"

definition drain_node :: "es_env \<Rightarrow> string \<Rightarrow> nodeState \<Rightarrow> esController \<Rightarrow> es_error option \<times> esController" where
  "drain_node e nm state c =
     clear_all e (ee_order e (ns_allocations state)) (c\<lparr>ec_nodes := on_alloc nm (\<lambda>n. n\<lparr>ns_draining := True\<rparr>) (ec_nodes c)\<rparr>)"

definition drain_and_delete :: "es_env \<Rightarrow> string \<Rightarrow> nodeState \<Rightarrow> esController \<Rightarrow> es_error option \<times> esController" where
  "drain_and_delete e nm state c =
     (case drain_node e nm state c of
        (Some err, c1) \<Rightarrow> (Some err, c1)
      | (None, c1) \<Rightarrow> (None, c1\<lparr>ec_nodes := AList.delete nm (ec_nodes c1)\<rparr>))"

definition queue_matching :: "es_env \<Rightarrow> labels \<Rightarrow> esController \<Rightarrow> esController" where
  "queue_matching e ls c =
     fold es_queue (filter (\<lambda>key. case map_of (ec_unallocated c) key of None \<Rightarrow> False | Some sel \<Rightarrow> selector_matches sel ls)
                      (ee_order e (map fst (ec_unallocated c)))) c"

definition egress_labels :: "labels \<Rightarrow> string list" where
  "egress_labels ls = filter (\<lambda>k. has_prefix k egressSVCLabelPrefix) (map fst ls)"

definition label_answer :: "api_answer \<times> esController \<Rightarrow> es_error option \<times> esController" where
  "label_answer r = (if fst r = ApiOk then None else Some LabelFailed, snd r)"

definition sync_uncached :: "es_env \<Rightarrow> esNode \<Rightarrow> esController \<Rightarrow> es_error option \<times> esController" where
  "sync_uncached e n c =
     (let c1 = (if nodeIsReady n then queue_matching e (en_labels n) c else c);
          labelsToRemove = map (\<lambda>k. (k, None)) (egress_labels (en_labels n))
      in if length labelsToRemove > 0 then label_answer (SetLabelsOnNode e (en_name n) labelsToRemove c1) else (None, c1))"

definition service_label :: "string \<Rightarrow> string" where
  "service_label key =
     (case SplitMetaNamespaceKey key of None \<Rightarrow> nodeLabelForService [] [] | Some (namespace, name) \<Rightarrow> nodeLabelForService namespace name)"

definition sync_usable :: "es_env \<Rightarrow> esNode \<Rightarrow> nodeState \<Rightarrow> esController \<Rightarrow> es_error option \<times> esController" where
  "sync_usable e n state c =
     (let c1 = c\<lparr>ec_nodes := on_alloc (en_name n) (\<lambda>s. s\<lparr>ns_labels := en_labels n\<rparr>) (ec_nodes c)\<rparr>;
          leaving = filter (\<lambda>key. case ec_services c1 key of
                                     None \<Rightarrow> False
                                   | Some st \<Rightarrow> \<not> selector_matches (ss_selector st) (en_labels n) \<or> ss_stale st)
                      (ee_order e (ns_allocations state))
      in case clear_all e leaving c1 of
           (Some err, c2) \<Rightarrow> (Some err, c2)
         | (None, c2) \<Rightarrow>
             (let held = (case map_of (ec_nodes c2) (en_name n) of None \<Rightarrow> [] | Some s \<Rightarrow> map service_label (ns_allocations s));
                  labelsToSet = map (\<lambda>k. (k, Some [])) held
                    @ map (\<lambda>k. (k, None)) (filter (\<lambda>k. k \<notin> set held) (egress_labels (en_labels n)))
              in case label_answer (SetLabelsOnNode e (en_name n) labelsToSet c2) of
                   (Some err, c3) \<Rightarrow> (Some err, c3)
                 | (None, c3) \<Rightarrow> (None, queue_matching e (en_labels n) c3)))"

definition syncNode :: "es_env \<Rightarrow> string \<Rightarrow> esController \<Rightarrow> es_error option \<times> esController" where
  "syncNode e key c =
     (case SplitMetaNamespaceKey key of
        None \<Rightarrow> (Some BadServiceKey, c)
      | Some (_, nodeName) \<Rightarrow>
          (case (get_node e nodeName, map_of (ec_nodes c) nodeName) of
             (Inl _, _) \<Rightarrow> (Some LookupFailed, c)
           | (Inr None, None) \<Rightarrow> (None, c)
           | (Inr None, Some state) \<Rightarrow> drain_and_delete e nodeName state c
           | (Inr (Some n), None) \<Rightarrow> sync_uncached e n c
           | (Inr (Some n), Some state) \<Rightarrow>
               if \<not> nodeIsReady n then drain_and_delete e nodeName state c
               else if \<not> ns_reachable state \<or> ns_draining state then drain_node e nodeName state c
               else sync_usable e n state c))"

section \<open>Reachability\<close>

definition CheckNodesReachabilityIterate :: "(string \<Rightarrow> ip list \<Rightarrow> bool) \<Rightarrow> es_env \<Rightarrow> esController \<Rightarrow> esController" where
  "CheckNodesReachabilityIterate isReachable e c =
     (let states = List.map_filter (map_of (ec_nodes c)) (ee_order e (map fst (ec_nodes c)));
          now = (\<lambda>n. isReachable (ns_name n) (ns_mgmtIPs n));
          lost = filter (\<lambda>n. ns_reachable n \<and> \<not> now n) states;
          toFree = filter (\<lambda>n. \<not> (ns_reachable n \<and> \<not> now n) \<and> ns_draining n \<and> ns_allocations n = [] \<and> now n) states;
          c1 = c\<lparr>ec_nodes := map (\<lambda>(k, n). (k, n\<lparr>ns_reachable := now n\<rparr>)) (ec_nodes c)\<rparr>;
          c2 = fold en_queue (map ns_name lost) c1
      in fold (\<lambda>nm d. en_queue nm (d\<lparr>ec_nodes := AList.delete nm (ec_nodes d)\<rparr>)) (map ns_name toFree) c2)"

section \<open>Events and workers\<close>

definition onEgressServiceAdd :: "EgressService \<Rightarrow> esController \<Rightarrow> esController" where
  "onEgressServiceAdd es c = es_queue (egs_Namespace es @ ''/'' @ egs_Name es) c"

definition onEgressServiceUpdate :: "string \<Rightarrow> string \<Rightarrow> bool \<Rightarrow> EgressService \<Rightarrow> esController \<Rightarrow> esController" where
  "onEgressServiceUpdate oldVersion newVersion deleting newES c =
     (if oldVersion = newVersion \<or> deleting then c else es_queue (egs_Namespace newES @ ''/'' @ egs_Name newES) c)"

definition onEgressServiceDelete :: "EgressService \<Rightarrow> esController \<Rightarrow> esController" where
  "onEgressServiceDelete es c = es_queue (egs_Namespace es @ ''/'' @ egs_Name es) c"

definition es_onServiceAdd :: "es_env \<Rightarrow> Service \<Rightarrow> esController \<Rightarrow> esController" where
  "es_onServiceAdd e service c =
     (if \<not> ServiceTypeHasLoadBalancer service \<or> svc_Ingress service = [] then c
      else case ee_egressService e (svc_Namespace service) (svc_Name service) of
          Inr None \<Rightarrow> c
        | _ \<Rightarrow> es_queue (MetaNamespaceKeyFunc service) c)"

definition es_onServiceUpdate :: "es_env \<Rightarrow> string \<Rightarrow> string \<Rightarrow> bool \<Rightarrow> Service \<Rightarrow> Service \<Rightarrow> esController \<Rightarrow> esController" where
  "es_onServiceUpdate e oldVersion newVersion deleting oldService newService c =
     (if oldVersion = newVersion \<or> deleting then c
      else if \<not> ServiceTypeHasLoadBalancer oldService \<and> \<not> ServiceTypeHasLoadBalancer newService then c
      else case ee_egressService e (svc_Namespace newService) (svc_Name newService) of
          Inr None \<Rightarrow> c
        | _ \<Rightarrow> es_queue (MetaNamespaceKeyFunc newService) c)"

definition es_onServiceDelete :: "es_env \<Rightarrow> Service \<Rightarrow> esController \<Rightarrow> esController" where
  "es_onServiceDelete e service c =
     (if \<not> ServiceTypeHasLoadBalancer service then c
      else case ee_egressService e (svc_Namespace service) (svc_Name service) of
          Inr None \<Rightarrow> c
        | _ \<Rightarrow> es_queue (MetaNamespaceKeyFunc service) c)"

definition es_queueForSlice :: "labelledSlice \<Rightarrow> esController \<Rightarrow> esController" where
  "es_queueForSlice sl c =
     (case ServiceControllerKey sl of
        None \<Rightarrow> c
      | Some key \<Rightarrow>
          if ec_services c key = None \<and> map_of (ec_unallocated c) key = None then c else es_queue key c)"

definition es_onEndpointSliceAdd :: "labelledSlice option \<Rightarrow> esController \<Rightarrow> esController" where
  "es_onEndpointSliceAdd obj c = (case obj of None \<Rightarrow> c | Some sl \<Rightarrow> es_queueForSlice sl c)"

definition es_onEndpointSliceUpdate :: "string \<Rightarrow> string \<Rightarrow> bool \<Rightarrow> labelledSlice \<Rightarrow> esController \<Rightarrow> esController" where
  "es_onEndpointSliceUpdate oldVersion newVersion deleting sl c =
     (if oldVersion = newVersion \<or> deleting then c else es_queueForSlice sl c)"

text \<open>A deleted object may come as a tombstone, which may hold something else than an endpoint slice.\<close>

datatype deleted_obj = DeletedSlice "labelledSlice option" | Tombstone "labelledSlice option option" | DeletedOther

definition es_onEndpointSliceDelete :: "deleted_obj \<Rightarrow> esController \<Rightarrow> esController" where
  "es_onEndpointSliceDelete obj c =
     (case obj of
        DeletedSlice (Some sl) \<Rightarrow> es_queueForSlice sl c
      | Tombstone (Some (Some sl)) \<Rightarrow> es_queueForSlice sl c
      | _ \<Rightarrow> c)"

definition es_onNodeAdd :: "esNode \<Rightarrow> esController \<Rightarrow> esController" where
  "es_onNodeAdd n c = en_queue (en_name n) c"

definition es_onNodeDelete :: "esNode \<Rightarrow> esController \<Rightarrow> esController" where
  "es_onNodeDelete n c = en_queue (en_name n) c"

definition es_onNodeUpdate :: "string \<Rightarrow> string \<Rightarrow> bool \<Rightarrow> esNode \<Rightarrow> esNode \<Rightarrow> esController \<Rightarrow> esController" where
  "es_onNodeUpdate oldVersion newVersion deleting oldNode newNode c =
     (if oldVersion = newVersion \<or> deleting then c
      else if map_of (en_labels oldNode) \<noteq> map_of (en_labels newNode) \<or> nodeIsReady oldNode \<noteq> nodeIsReady newNode
      then en_queue (en_name newNode) c else c)"

definition es_maxRetries :: nat where
  "es_maxRetries = 10"

definition processNextEgressServiceWorkItem :: "es_env \<Rightarrow> esController \<Rightarrow> esController option" where
  "processNextEgressServiceWorkItem e c =
     (case ec_serviceQueue c of
        [] \<Rightarrow> Some c
      | key # rest \<Rightarrow>
          map_option (\<lambda>(err, c1).
              if err = None \<or> \<not> ec_serviceRequeues c1 key < es_maxRetries
              then c1\<lparr>ec_serviceRequeues := (ec_serviceRequeues c1)(key := 0)\<rparr>
              else es_queue key (c1\<lparr>ec_serviceRequeues := (ec_serviceRequeues c1)(key := ec_serviceRequeues c1 key + 1)\<rparr>))
            (syncEgressService e key (c\<lparr>ec_serviceQueue := rest\<rparr>)))"

definition processNextNodeWorkItem :: "es_env \<Rightarrow> esController \<Rightarrow> esController" where
  "processNextNodeWorkItem e c =
     (case ec_nodesQueue c of
        [] \<Rightarrow> c
      | key # rest \<Rightarrow>
          (case syncNode e key (c\<lparr>ec_nodesQueue := rest\<rparr>) of (err, c1) \<Rightarrow>
             if err = None \<or> \<not> ec_nodeRequeues c1 key < es_maxRetries
             then c1\<lparr>ec_nodeRequeues := (ec_nodeRequeues c1)(key := 0)\<rparr>
             else en_queue key (c1\<lparr>ec_nodeRequeues := (ec_nodeRequeues c1)(key := ec_nodeRequeues c1 key + 1)\<rparr>)))"

section \<open>Repair\<close>

text \<open>The first phase takes over the allocation that the status of an \<open>EgressService\<close> names, if it is still valid. The
  requirement on the host name is appended to the selector of the cached object itself, which is returned. An
  invalid selector is nil, and printing it crashes (\<open>None\<close>).\<close>

definition repair_take :: "es_env \<Rightarrow> string \<Rightarrow> esNode \<Rightarrow> requirement list \<Rightarrow> esController \<Rightarrow> esController option" where
  "repair_take e key node sel c =
     (if \<not> selector_matches sel (en_labels node) then Some c
      else map_option (\<lambda>r. case r of
          Inl _ \<Rightarrow> c
        | Inr state \<Rightarrow>
            c\<lparr>ec_services := (ec_services c)(key \<mapsto> \<lparr>ss_node = en_name node, ss_selector = sel, ss_stale = False\<rparr>),
              ec_nodes := AList.update (en_name node) (add_alloc key state) (ec_nodes c)\<rparr>)
        (case map_of (ec_nodes c) (en_name node) of Some state \<Rightarrow> Some (Inr state) | None \<Rightarrow> nodeStateFor e (en_name node)))"

definition repair_one :: "es_env \<Rightarrow> EgressService \<Rightarrow> esController \<Rightarrow> (EgressService \<times> esController) option" where
  "repair_one e es c =
     (let key = egs_Namespace es @ ''/'' @ egs_Name es
      in case (ee_service e (egs_Namespace es) (egs_Name es), get_node e (egs_Host es)) of
           (Inr (Some svc), Inr (Some node)) \<Rightarrow>
             if egs_SourceIPBy es = ''Network'' \<or> \<not> ServiceTypeHasLoadBalancer svc \<or> svc_Ingress svc = [] \<or> egs_Host es = []
                \<or> \<not> nodeIsReady node then Some (es, c)
             else (case backendNodesFor e svc of
                     None \<Rightarrow> Some (es, c)
                   | Some [] \<Rightarrow> Some (es, c)
                   | Some (x # epsNodes) \<Rightarrow>
                       (let es1 = es\<lparr>egs_NodeSelector := node_selector es svc (x # epsNodes)\<rparr>
                        in case LabelSelectorAsSelector (ee_syntax e) (egs_NodeSelector es1) of
                             None \<Rightarrow> None
                           | Some sel \<Rightarrow> map_option (Pair es1) (repair_take e key node sel c)))
         | _ \<Rightarrow> Some (es, c))"

fun repair_all :: "es_env \<Rightarrow> EgressService list \<Rightarrow> esController \<Rightarrow> (EgressService list \<times> esController) option" where
  "repair_all e [] c = Some ([], c)"
| "repair_all e (es # ess) c =
     (case repair_one e es c of
        None \<Rightarrow> None
      | Some (es1, c1) \<Rightarrow> map_option (\<lambda>(ess1, c2). (es1 # ess1, c2)) (repair_all e ess c1))"

definition repair_host :: "es_env \<Rightarrow> EgressService \<Rightarrow> esController \<Rightarrow> esController" where
  "repair_host e es c =
     (if egs_SourceIPBy es = ''Network'' then
        (if egs_Host es = noSNATHost then c else snd (setEgressServiceHost e (egs_Namespace es) (egs_Name es) noSNATHost c))
      else if ec_services c (egs_Namespace es @ ''/'' @ egs_Name es) = None
      then snd (setEgressServiceHost e (egs_Namespace es) (egs_Name es) [] c)
      else c)"

definition repair_labels :: "es_env \<Rightarrow> string list \<Rightarrow> esNode \<Rightarrow> esController \<Rightarrow> esController" where
  "repair_labels e keys node c =
     (let owner = (\<lambda>k. case find (\<lambda>key. service_label key = k \<and> ec_services c key \<noteq> None) keys of
                         None \<Rightarrow> [] | Some key \<Rightarrow> ss_node (the (ec_services c key)));
          labelsToRemove = map (\<lambda>k. (k, None)) (filter (\<lambda>k. owner k \<noteq> en_name node) (egress_labels (en_labels node)))
      in snd (SetLabelsOnNode e (en_name node) labelsToRemove c))"

definition es_repair :: "es_env \<Rightarrow> EgressService list \<Rightarrow> esController \<Rightarrow> (EgressService list \<times> esController) option" where
  "es_repair e ess c =
     map_option (\<lambda>(ess1, c1).
         (ess1, fold (repair_labels e (map (\<lambda>es. egs_Namespace es @ ''/'' @ egs_Name es) ess1)) (ee_nodes e) (fold (repair_host e) ess1 c1)))
       (repair_all e ess c)"


section \<open>Services and nodes belong together\<close>

text \<open>Every service state names a cached node that lists the service, and every service that a cached node lists has a
  state that names the node.\<close>

definition alloc_inv :: "esController \<Rightarrow> bool" where
  "alloc_inv c \<longleftrightarrow> distinct (map fst (ec_nodes c))
     \<and> (\<forall>nm n. map_of (ec_nodes c) nm = Some n \<longrightarrow> ns_name n = nm \<and> distinct (ns_allocations n)
          \<and> (\<forall>k \<in> set (ns_allocations n). \<exists>st. ec_services c k = Some st \<and> ss_node st = nm))
     \<and> (\<forall>k st. ec_services c k = Some st \<longrightarrow> (\<exists>n. map_of (ec_nodes c) (ss_node st) = Some n \<and> k \<in> set (ns_allocations n)))"

named_theorems frame_simps

lemma queue_frames [frame_simps]:
  "ec_services (es_queue k c) = ec_services c" "ec_nodes (es_queue k c) = ec_nodes c" "ec_unallocated (es_queue k c) = ec_unallocated c"
  "ec_calls (es_queue k c) = ec_calls c"
  "ec_services (en_queue k c) = ec_services c" "ec_nodes (en_queue k c) = ec_nodes c" "ec_unallocated (en_queue k c) = ec_unallocated c"
  "ec_services (es_forget k c) = ec_services c" "ec_nodes (es_forget k c) = ec_nodes c"
  "ec_services (es_remember k sel c) = ec_services c" "ec_nodes (es_remember k sel c) = ec_nodes c"
  "ec_calls (es_forget k c) = ec_calls c" "ec_calls (es_remember k sel c) = ec_calls c"
  "ec_serviceQueue (es_forget k c) = ec_serviceQueue c" "ec_serviceQueue (es_remember k sel c) = ec_serviceQueue c"
  "set (ec_serviceQueue (es_queue k c)) = insert k (set (ec_serviceQueue c))"
  by (auto simp: es_queue_def en_queue_def es_forget_def es_remember_def)

lemma write_frames [frame_simps]:
  "ec_services (snd (setEgressServiceHost e ns nm h c)) = ec_services c" "ec_nodes (snd (setEgressServiceHost e ns nm h c)) = ec_nodes c"
  "ec_unallocated (snd (setEgressServiceHost e ns nm h c)) = ec_unallocated c"
  "ec_serviceQueue (snd (setEgressServiceHost e ns nm h c)) = ec_serviceQueue c"
  "ec_services (snd (SetLabelsOnNode e nd ls c)) = ec_services c" "ec_nodes (snd (SetLabelsOnNode e nd ls c)) = ec_nodes c"
  "ec_unallocated (snd (SetLabelsOnNode e nd ls c)) = ec_unallocated c" "ec_serviceQueue (snd (SetLabelsOnNode e nd ls c)) = ec_serviceQueue c"
  "ec_services (snd (removeNodeServiceLabel e ns nm nd c)) = ec_services c" "ec_nodes (snd (removeNodeServiceLabel e ns nm nd c)) = ec_nodes c"
  "ec_unallocated (snd (removeNodeServiceLabel e ns nm nd c)) = ec_unallocated c"
  "ec_serviceQueue (snd (removeNodeServiceLabel e ns nm nd c)) = ec_serviceQueue c"
  "ec_services (snd (labelNodeForService e ns nm nd c)) = ec_services c" "ec_nodes (snd (labelNodeForService e ns nm nd c)) = ec_nodes c"
  by (auto simp: setEgressServiceHost_def SetLabelsOnNode_def removeNodeServiceLabel_def labelNodeForService_def split: api_answer.splits)

lemma alloc_inv_cong:
  assumes "ec_services c = ec_services d" "ec_nodes c = ec_nodes d"
  shows "alloc_inv c \<longleftrightarrow> alloc_inv d"
  unfolding alloc_inv_def assms ..

lemma map_of_on_alloc: "map_of (on_alloc nm f nodes) k = map_option (\<lambda>n. if k = nm then f n else n) (map_of nodes k)"
  by (induction nodes) (auto simp: on_alloc_def)

lemma fst_on_alloc [simp]: "map fst (on_alloc nm f nodes) = map fst nodes"
  by (simp add: on_alloc_def case_prod_beta)

text \<open>The effect of clearing a service: on success it is gone from both maps and queued, on failure at most its state is
  marked stale.\<close>

definition cleared :: "string \<Rightarrow> svcState \<Rightarrow> esController \<Rightarrow> esController \<Rightarrow> bool" where
  "cleared key st c c1 \<longleftrightarrow>
     ec_services c1 = (ec_services c)(key := None)
     \<and> ec_nodes c1 = on_alloc (ss_node st) (\<lambda>n. n\<lparr>ns_allocations := removeAll key (ns_allocations n)\<rparr>) (ec_nodes c)
     \<and> ec_unallocated c1 = ec_unallocated c \<and> set (ec_serviceQueue c1) = insert key (set (ec_serviceQueue c))"

definition marked :: "string \<Rightarrow> svcState \<Rightarrow> esController \<Rightarrow> esController \<Rightarrow> bool" where
  "marked key st c c1 \<longleftrightarrow>
     ec_nodes c1 = ec_nodes c \<and> ec_unallocated c1 = ec_unallocated c \<and> ec_serviceQueue c1 = ec_serviceQueue c
     \<and> (ec_services c1 = ec_services c \<or> ec_services c1 = (ec_services c)(key \<mapsto> st\<lparr>ss_stale := True\<rparr>))"

lemma clear_effect:
  assumes "clearServiceResourcesAndRequeue e key st host c = (err, c1)"
  shows "if err = None then cleared key st c c1 else marked key st c c1"
proof (cases "SplitMetaNamespaceKey key")
  case None
  then show ?thesis using assms by (auto simp: clearServiceResourcesAndRequeue_def marked_def)
next
  case (Some nn)
  obtain ns nm where k: "SplitMetaNamespaceKey key = Some (ns, nm)" using Some by (cases nn) auto
  define c0 where "c0 = c\<lparr>ec_services := (ec_services c)(key \<mapsto> st\<lparr>ss_stale := True\<rparr>)\<rparr>"
  define h where "h = setEgressServiceHost e ns nm host c0"
  define l where "l = (if map_of (ec_nodes (snd h)) (ss_node st) \<noteq> None then removeNodeServiceLabel e ns nm (ss_node st) (snd h) else (None, snd h))"
  have c0: "ec_services c0 = (ec_services c)(key \<mapsto> st\<lparr>ss_stale := True\<rparr>)" "ec_nodes c0 = ec_nodes c"
    "ec_unallocated c0 = ec_unallocated c" "ec_serviceQueue c0 = ec_serviceQueue c" by (simp_all add: c0_def)
  have hf: "ec_services (snd h) = ec_services c0" "ec_nodes (snd h) = ec_nodes c0" "ec_unallocated (snd h) = ec_unallocated c0"
    "ec_serviceQueue (snd h) = ec_serviceQueue c0" by (simp_all add: h_def frame_simps)
  have lf: "ec_services (snd l) = ec_services c0" "ec_nodes (snd l) = ec_nodes c0" "ec_unallocated (snd l) = ec_unallocated c0"
    "ec_serviceQueue (snd l) = ec_serviceQueue c0" by (simp_all add: l_def frame_simps hf)
  have eq: "(err, c1) = (case h of (Some er, c2) \<Rightarrow> (Some er, c2) | (None, c2) \<Rightarrow>
      (case (if map_of (ec_nodes c2) (ss_node st) \<noteq> None then removeNodeServiceLabel e ns nm (ss_node st) c2 else (None, c2)) of
         (Some er, c3) \<Rightarrow> (Some er, c3)
       | (None, c3) \<Rightarrow> (None, es_queue key (c3\<lparr>ec_nodes := on_alloc (ss_node st) (\<lambda>n. n\<lparr>ns_allocations := removeAll key (ns_allocations n)\<rparr>) (ec_nodes c3),
            ec_services := (ec_services c3)(key := None)\<rparr>))))"
    using assms unfolding clearServiceResourcesAndRequeue_def k h_def c0_def by (simp add: Let_def)
  show ?thesis
  proof (cases "fst h")
    case (Some er)
    then have "(err, c1) = (Some er, snd h)" using eq by (cases h) simp
    then show ?thesis using hf c0 by (simp add: marked_def)
  next
    case None
    then have eq2: "(err, c1) = (case l of (Some er, c3) \<Rightarrow> (Some er, c3)
       | (None, c3) \<Rightarrow> (None, es_queue key (c3\<lparr>ec_nodes := on_alloc (ss_node st) (\<lambda>n. n\<lparr>ns_allocations := removeAll key (ns_allocations n)\<rparr>) (ec_nodes c3),
            ec_services := (ec_services c3)(key := None)\<rparr>)))"
      using eq unfolding l_def by (cases h) simp
    show ?thesis
    proof (cases "fst l")
      case (Some er)
      then have "(err, c1) = (Some er, snd l)" using eq2 by (cases l) simp
      then show ?thesis using lf c0 by (simp add: marked_def)
    next
      case None
      then show ?thesis using eq2 lf c0 by (cases l) (auto simp: cleared_def frame_simps)
    qed
  qed
qed

lemma alloc_inv_services_node:
  assumes "alloc_inv c" "ec_services c k = Some st"
  obtains n where "map_of (ec_nodes c) (ss_node st) = Some n" "k \<in> set (ns_allocations n)"
  using assms unfolding alloc_inv_def by blast

lemma cleared_inv:
  assumes "alloc_inv c" "ec_services c key = Some st" "cleared key st c c1"
  shows "alloc_inv c1"
  unfolding alloc_inv_def
proof (intro conjI allI impI)
  have s: "ec_services c1 = (ec_services c)(key := None)"
    and n: "ec_nodes c1 = on_alloc (ss_node st) (\<lambda>n. n\<lparr>ns_allocations := removeAll key (ns_allocations n)\<rparr>) (ec_nodes c)"
    using assms(3) by (auto simp: cleared_def)
  show "distinct (map fst (ec_nodes c1))" using assms(1) n by (simp add: alloc_inv_def)
  fix nm m assume m: "map_of (ec_nodes c1) nm = Some m"
  then obtain m0 where m0: "map_of (ec_nodes c) nm = Some m0"
    "m = (if nm = ss_node st then m0\<lparr>ns_allocations := removeAll key (ns_allocations m0)\<rparr> else m0)"
    unfolding n map_of_on_alloc by (cases "map_of (ec_nodes c) nm") auto
  have i: "ns_name m0 = nm" "distinct (ns_allocations m0)" "\<And>k. k \<in> set (ns_allocations m0) \<Longrightarrow> \<exists>x. ec_services c k = Some x \<and> ss_node x = nm"
    using assms(1) m0(1) unfolding alloc_inv_def by blast+
  show "ns_name m = nm" "distinct (ns_allocations m)" using m0(2) i by (simp_all add: distinct_removeAll)
  show "\<forall>k \<in> set (ns_allocations m). \<exists>x. ec_services c1 k = Some x \<and> ss_node x = nm"
  proof
    fix k assume k: "k \<in> set (ns_allocations m)"
    then have "k \<in> set (ns_allocations m0)" using m0(2) by (auto split: if_splits)
    then obtain x where x: "ec_services c k = Some x" "ss_node x = nm" using i(3) by blast
    have "k \<noteq> key"
    proof
      assume "k = key"
      then show False using x assms(2) k m0(2) by auto
    qed
    then show "\<exists>x. ec_services c1 k = Some x \<and> ss_node x = nm" using x s by simp
  qed
next
  fix k x assume x: "ec_services c1 k = Some x"
  then have k: "k \<noteq> key" "ec_services c k = Some x" using assms(3) by (auto simp: cleared_def split: if_splits)
  then obtain m where "map_of (ec_nodes c) (ss_node x) = Some m" "k \<in> set (ns_allocations m)"
    using alloc_inv_services_node [OF assms(1)] by blast
  then show "\<exists>m. map_of (ec_nodes c1) (ss_node x) = Some m \<and> k \<in> set (ns_allocations m)"
    using assms(3) k(1) by (auto simp: cleared_def map_of_on_alloc)
qed

lemma services_same_nodes_inv:
  assumes "alloc_inv c" "ec_nodes c1 = ec_nodes c"
    and "\<And>k. map_option ss_node (ec_services c1 k) = map_option ss_node (ec_services c k)"
  shows "alloc_inv c1"
proof -
  have iff: "(\<exists>st. ec_services c1 k = Some st \<and> ss_node st = nm) \<longleftrightarrow> (\<exists>st. ec_services c k = Some st \<and> ss_node st = nm)" for k nm
    using assms(3) [of k] by (cases "ec_services c1 k"; cases "ec_services c k") auto
  have "\<exists>n. map_of (ec_nodes c) (ss_node st) = Some n \<and> k \<in> set (ns_allocations n)" if st: "ec_services c1 k = Some st" for k st
  proof -
    obtain st0 where "ec_services c k = Some st0" "ss_node st0 = ss_node st" using iff [of k "ss_node st"] st by blast
    then show ?thesis using alloc_inv_services_node [OF assms(1)] by metis
  qed
  then show ?thesis using assms(1) unfolding alloc_inv_def assms(2) iff by blast
qed

lemma marked_inv:
  assumes "alloc_inv c" "ec_services c key = Some st" "marked key st c c1"
  shows "alloc_inv c1"
  using assms by (intro services_same_nodes_inv [OF assms(1)]) (auto simp: marked_def)

lemma clear_inv:
  assumes "alloc_inv c" "ec_services c key = Some st" "clearServiceResourcesAndRequeue e key st host c = (err, c1)"
  shows "alloc_inv c1"
  using clear_effect [OF assms(3)] cleared_inv [OF assms(1,2)] marked_inv [OF assms(1,2)] by (auto split: if_splits)


lemma alloc_inv_nodes:
  assumes "alloc_inv c" "map_of (ec_nodes c) nm = Some n"
  shows "ns_name n = nm" "distinct (ns_allocations n)" "k \<in> set (ns_allocations n) \<Longrightarrow> \<exists>st. ec_services c k = Some st \<and> ss_node st = nm"
  using assms unfolding alloc_inv_def by blast+

lemma nodes_frame_inv:
  assumes "alloc_inv c" "ec_services c1 = ec_services c" "map fst (ec_nodes c1) = map fst (ec_nodes c)"
    and "\<And>k. map_of (ec_nodes c1) k = map_option (g k) (map_of (ec_nodes c) k)"
    and "\<And>k n. ns_name (g k n) = ns_name n" "\<And>k n. ns_allocations (g k n) = ns_allocations n"
  shows "alloc_inv c1"
  unfolding alloc_inv_def
proof (intro conjI allI impI)
  show "distinct (map fst (ec_nodes c1))" using assms(1) unfolding assms(3) by (simp add: alloc_inv_def)
  fix k m assume "map_of (ec_nodes c1) k = Some m"
  then obtain m0 where m0: "map_of (ec_nodes c) k = Some m0" "ns_name m = ns_name m0" "ns_allocations m = ns_allocations m0"
    using assms(4-6) by auto
  note i = alloc_inv_nodes [OF assms(1) m0(1)]
  show "ns_name m = k" "distinct (ns_allocations m)" using m0 i by simp_all
  show "\<forall>x \<in> set (ns_allocations m). \<exists>st. ec_services c1 x = Some st \<and> ss_node st = k" using m0 i(3) assms(2) by simp
next
  fix k st assume "ec_services c1 k = Some st"
  then have "ec_services c k = Some st" using assms(2) by simp
  then obtain n where "map_of (ec_nodes c) (ss_node st) = Some n" "k \<in> set (ns_allocations n)"
    using alloc_inv_services_node [OF assms(1)] by blast
  then show "\<exists>n. map_of (ec_nodes c1) (ss_node st) = Some n \<and> k \<in> set (ns_allocations n)" using assms(4,6) by simp
qed

lemma on_alloc_inv:
  assumes "alloc_inv c" "\<And>n. ns_name (f n) = ns_name n" "\<And>n. ns_allocations (f n) = ns_allocations n"
  shows "alloc_inv (c\<lparr>ec_nodes := on_alloc nm f (ec_nodes c)\<rparr>)"
  by (rule nodes_frame_inv [OF assms(1), where g = "\<lambda>k n. if k = nm then f n else n"]) (simp_all add: map_of_on_alloc assms(2,3))

lemma delete_inv:
  assumes "alloc_inv c" "\<And>k st. ec_services c k = Some st \<Longrightarrow> ss_node st \<noteq> nm"
  shows "alloc_inv (c\<lparr>ec_nodes := AList.delete nm (ec_nodes c)\<rparr>)"
  unfolding alloc_inv_def
proof (intro conjI allI impI)
  let ?c = "c\<lparr>ec_nodes := AList.delete nm (ec_nodes c)\<rparr>"
  show "distinct (map fst (ec_nodes ?c))" using assms(1) by (simp add: alloc_inv_def distinct_delete)
  fix k m assume "map_of (ec_nodes ?c) k = Some m"
  then have m: "map_of (ec_nodes c) k = Some m" by (auto simp: delete_conv' split: if_splits)
  note i = alloc_inv_nodes [OF assms(1) m]
  show "ns_name m = k" "distinct (ns_allocations m)" using i by simp_all
  show "\<forall>x \<in> set (ns_allocations m). \<exists>st. ec_services ?c x = Some st \<and> ss_node st = k" using i(3) by simp
next
  let ?c = "c\<lparr>ec_nodes := AList.delete nm (ec_nodes c)\<rparr>"
  fix k st assume "ec_services ?c k = Some st"
  then have s: "ec_services c k = Some st" by simp
  then obtain n where "map_of (ec_nodes c) (ss_node st) = Some n" "k \<in> set (ns_allocations n)"
    using alloc_inv_services_node [OF assms(1)] by blast
  then show "\<exists>n. map_of (ec_nodes ?c) (ss_node st) = Some n \<and> k \<in> set (ns_allocations n)"
    using assms(2) [OF s] by (simp add: delete_conv')
qed

lemma clear_all_effect:
  assumes "alloc_inv c" "clear_all e keys c = (err, c1)"
  shows "alloc_inv c1 \<and> map fst (ec_nodes c1) = map fst (ec_nodes c) \<and> set (ec_serviceQueue c) \<subseteq> set (ec_serviceQueue c1)
    \<and> ec_unallocated c1 = ec_unallocated c
    \<and> (err = None \<longrightarrow> ec_services c1 = (\<lambda>k. if k \<in> set keys then None else ec_services c k)
         \<and> (\<forall>k \<in> set keys. ec_services c k \<noteq> None \<longrightarrow> k \<in> set (ec_serviceQueue c1)))"
  using assms
proof (induction keys arbitrary: c)
  case (Cons key keys)
  show ?case
  proof (cases "ec_services c key")
    case None
    then show ?thesis using Cons.IH [OF Cons.prems(1)] Cons.prems(2) by auto
  next
    case (Some st)
    obtain er c2 where cl: "clearServiceResourcesAndRequeue e key st noHost c = (er, c2)" by fastforce
    have inv: "alloc_inv c2" by (rule clear_inv [OF Cons.prems(1) Some cl])
    note eff = clear_effect [OF cl]
    show ?thesis
    proof (cases er)
      case None
      then have c: "cleared key st c c2" using eff by simp
      have "clear_all e keys c2 = (err, c1)" using Cons.prems(2) Some cl None by simp
      note IH = Cons.IH [OF inv this]
      have "k \<in> set (ec_serviceQueue c1)" if "err = None" "k \<in> set (key # keys)" "ec_services c k \<noteq> None" for k
        using that IH c by (cases "k = key") (auto simp: cleared_def)
      then show ?thesis using IH c by (auto simp: cleared_def)
    next
      case (Some x)
      then have "marked key st c c2" "err = Some x" "c1 = c2" using eff Cons.prems(2) \<open>ec_services c key = Some st\<close> cl by auto
      then show ?thesis using inv by (auto simp: marked_def)
    qed
  qed
qed simp

lemma drain_effect:
  assumes "alloc_inv c" "map_of (ec_nodes c) nm = Some state" "\<forall>xs. set (ee_order e xs) = set xs" "drain_node e nm state c = (err, c1)"
  shows "alloc_inv c1 \<and> map fst (ec_nodes c1) = map fst (ec_nodes c)
    \<and> (err = None \<longrightarrow> ec_services c1 = (\<lambda>k. if \<exists>st. ec_services c k = Some st \<and> ss_node st = nm then None else ec_services c k)
         \<and> (\<forall>k st. ec_services c k = Some st \<and> ss_node st = nm \<longrightarrow> k \<in> set (ec_serviceQueue c1)))"
proof -
  define d where "d = c\<lparr>ec_nodes := on_alloc nm (\<lambda>n. n\<lparr>ns_draining := True\<rparr>) (ec_nodes c)\<rparr>"
  have inv: "alloc_inv d" unfolding d_def by (rule on_alloc_inv [OF assms(1)]) simp_all
  have d: "ec_services d = ec_services c" "map fst (ec_nodes d) = map fst (ec_nodes c)" by (simp_all add: d_def)
  have cl: "clear_all e (ee_order e (ns_allocations state)) d = (err, c1)" using assms(4) by (simp add: drain_node_def d_def)
  have "k \<in> set (ns_allocations state) \<longleftrightarrow> (\<exists>st. ec_services c k = Some st \<and> ss_node st = nm)" for k
    using alloc_inv_nodes(3) [OF assms(1,2)] alloc_inv_services_node [OF assms(1)] assms(2) by (metis option.inject)
  then have ks: "k \<in> set (ee_order e (ns_allocations state)) \<longleftrightarrow> (\<exists>st. ec_services c k = Some st \<and> ss_node st = nm)" for k
    using assms(3) by blast
  note eff = clear_all_effect [OF inv cl, unfolded d ks]
  have "k \<in> set (ec_serviceQueue c1)" if "err = None" "ec_services c k = Some st" "ss_node st = nm" for k st
    using that eff ks by (metis option.distinct(1))
  then show ?thesis using eff by blast
qed

lemma drain_and_delete_effect:
  assumes "alloc_inv c" "map_of (ec_nodes c) nm = Some state" "\<forall>xs. set (ee_order e xs) = set xs" "drain_and_delete e nm state c = (err, c1)"
  shows "alloc_inv c1
    \<and> (err = None \<longrightarrow> map_of (ec_nodes c1) nm = None
         \<and> ec_services c1 = (\<lambda>k. if \<exists>st. ec_services c k = Some st \<and> ss_node st = nm then None else ec_services c k)
         \<and> (\<forall>k st. ec_services c k = Some st \<and> ss_node st = nm \<longrightarrow> k \<in> set (ec_serviceQueue c1)))"
proof -
  obtain er c2 where d: "drain_node e nm state c = (er, c2)" by fastforce
  note eff = drain_effect [OF assms(1-3) d]
  show ?thesis
  proof (cases er)
    case None
    then have s: "ec_services c2 = (\<lambda>k. if \<exists>st. ec_services c k = Some st \<and> ss_node st = nm then None else ec_services c k)"
      using eff by simp
    have c1: "err = None" "c1 = c2\<lparr>ec_nodes := AList.delete nm (ec_nodes c2)\<rparr>" using assms(4) d None by (simp_all add: drain_and_delete_def)
    have "alloc_inv c1" unfolding c1(2) by (rule delete_inv) (use eff s in \<open>auto split: if_splits\<close>)
    then show ?thesis using c1 eff None s by (simp add: delete_conv')
  next
    case (Some x)
    then show ?thesis using assms(4) d eff by (auto simp: drain_and_delete_def)
  qed
qed


subsection \<open>Selecting a node\<close>

definition order_ok :: "es_env \<Rightarrow> bool" where
  "order_ok e \<longleftrightarrow> (\<forall>xs. set (ee_order e xs) = set xs)"

text \<open>The cached labels of the nodes are those of the informer.\<close>

definition labels_current :: "es_env \<Rightarrow> esController \<Rightarrow> bool" where
  "labels_current e c \<longleftrightarrow> (\<forall>x \<in> set (ee_nodes e). \<forall>n. map_of (ec_nodes c) (en_name x) = Some n \<longrightarrow> ns_labels n = en_labels x)"

lemma cachedNodesFor_mem:
  assumes "alloc_inv c" "order_ok e"
  shows "n \<in> set (cachedNodesFor e sel c) \<longleftrightarrow> map_of (ec_nodes c) (ns_name n) = Some n \<and> selector_matches sel (ns_labels n)"
proof -
  have ks: "set (ee_order e (map fst (ec_nodes c))) = fst ` set (ec_nodes c)" using assms(2) by (simp add: order_ok_def)
  have "distinct (map fst (ec_nodes c))" using assms(1) by (simp add: alloc_inv_def)
  then have "n \<in> set (List.map_filter (map_of (ec_nodes c)) (ee_order e (map fst (ec_nodes c)))) \<longleftrightarrow> (\<exists>nm. map_of (ec_nodes c) nm = Some n)"
    using lookup_all [OF _ ks] map_of_eq_Some_iff by force
  also have "\<dots> \<longleftrightarrow> map_of (ec_nodes c) (ns_name n) = Some n" using alloc_inv_nodes(1) [OF assms(1)] by blast
  finally show ?thesis by (simp add: cachedNodesFor_def)
qed

lemma nodeStateFor_new:
  assumes "nodeStateFor e nm = Some (Inr n)"
  shows "ns_name n = nm \<and> ns_allocations n = [] \<and> \<not> ns_draining n \<and> (\<exists>x. get_node e nm = Inr (Some x) \<and> ns_labels n = en_labels x)"
  using assms by (auto simp: nodeStateFor_def split: sum.splits option.splits)

lemma free_nodes_mem:
  "nm \<in> set (free_nodes e sel c) \<longleftrightarrow>
     (\<exists>x \<in> set (ee_nodes e). en_name x = nm \<and> selector_matches sel (en_labels x) \<and> nodeIsReady x) \<and> nm \<notin> ns_name ` set (cachedNodesFor e sel c)"
  by (auto simp: free_nodes_def Let_def)

lemma free_nodes_uncached:
  assumes "alloc_inv c" "order_ok e" "labels_current e c" "nm \<in> set (free_nodes e sel c)"
  shows "map_of (ec_nodes c) nm = None"
proof (rule ccontr)
  assume "map_of (ec_nodes c) nm \<noteq> None"
  then obtain n where n: "map_of (ec_nodes c) nm = Some n" by auto
  obtain x where x: "x \<in> set (ee_nodes e)" "en_name x = nm" "selector_matches sel (en_labels x)"
    using assms(4) unfolding free_nodes_mem by blast
  have "ns_labels n = en_labels x" "ns_name n = nm" using assms(3) x n alloc_inv_nodes(1) [OF assms(1) n] unfolding labels_current_def by auto
  then have "n \<in> set (cachedNodesFor e sel c)" using cachedNodesFor_mem [OF assms(1,2)] x n by simp
  then have "nm \<in> ns_name ` set (cachedNodesFor e sel c)" using \<open>ns_name n = nm\<close> by (metis imageI)
  then show False using assms(4) unfolding free_nodes_mem by blast
qed

lemma selectNodeFor_cases:
  assumes "order_ok e" "selectNodeFor e sel c = Some (Inr n)"
  obtains (free) nm where "nm \<in> set (free_nodes e sel c)" "nodeStateFor e nm = Some (Inr n)"
  | (cached) "free_nodes e sel c = []" "find (\<lambda>n. \<not> ns_draining n) (sort_key (\<lambda>n. length (ns_allocations n)) (cachedNodesFor e sel c)) = Some n"
proof (cases "ee_order e (free_nodes e sel c)")
  case Nil
  then have "free_nodes e sel c = []" using assms(1) unfolding order_ok_def by (metis set_empty)
  then show ?thesis using assms(2) Nil cached by (auto simp: selectNodeFor_def split: if_splits option.splits)
next
  case (Cons nm nms)
  then have "nm \<in> set (free_nodes e sel c)" using assms(1) unfolding order_ok_def by (metis list.set_intros(1))
  then show ?thesis using assms(2) Cons free by (auto simp: selectNodeFor_def split: if_splits)
qed

lemma find_sorted:
  assumes "find P (sort_key f xs) = Some n"
  shows "n \<in> set xs \<and> P n \<and> (\<forall>m \<in> set xs. P m \<longrightarrow> f n \<le> f m)"
proof -
  have "sorted (map f ys) \<Longrightarrow> find P ys = Some n \<Longrightarrow> n \<in> set ys \<and> P n \<and> (\<forall>m \<in> set ys. P m \<longrightarrow> f n \<le> f m)" for ys
    by (induction ys) (auto split: if_splits)
  from this [of "sort_key f xs"] show ?thesis using assms by simp
qed

lemma selected_node:
  assumes "alloc_inv c" "order_ok e" "labels_current e c" "selectNodeFor e sel c = Some (Inr n)"
  shows "map_of (ec_nodes c) (ns_name n) = Some n \<or> map_of (ec_nodes c) (ns_name n) = None \<and> ns_allocations n = []"
  using assms(2,4)
proof (cases rule: selectNodeFor_cases)
  case (free nm)
  then show ?thesis using free_nodes_uncached [OF assms(1-3) free(1)] nodeStateFor_new [OF free(2)] by simp
next
  case cached
  then show ?thesis using find_sorted [OF cached(2)] cachedNodesFor_mem [OF assms(1,2)] by simp
qed

lemma allocate_inv:
  assumes inv: "alloc_inv c" and new: "ec_services c key = None"
    and n: "map_of (ec_nodes c) (ns_name n) = Some n \<or> map_of (ec_nodes c) (ns_name n) = None \<and> ns_allocations n = []"
    and st: "ss_node st = ns_name n"
    and c1: "ec_services c1 = (ec_services c)(key \<mapsto> st)" "ec_nodes c1 = AList.update (ns_name n) (add_alloc key n) (ec_nodes c)"
  shows "alloc_inv c1"
  unfolding alloc_inv_def
proof (intro conjI allI impI)
  have d: "distinct (ns_allocations n)" using n alloc_inv_nodes(2) [OF inv] by auto
  have old: "\<exists>x. ec_services c k = Some x \<and> ss_node x = ns_name n" if "k \<in> set (ns_allocations n)" for k
    using n alloc_inv_nodes(3) [OF inv] that by auto
  have fresh: "key \<notin> set (ns_allocations m)" if "map_of (ec_nodes c) nm = Some m" for nm m
    using alloc_inv_nodes(3) [OF inv that, of key] new by auto
  show "distinct (map fst (ec_nodes c1))" using inv c1(2) by (simp add: alloc_inv_def distinct_update)
  fix nm m assume m: "map_of (ec_nodes c1) nm = Some m"
  show "ns_name m = nm" "distinct (ns_allocations m)"
    using m alloc_inv_nodes(1,2) [OF inv] d unfolding c1 update_conv' by (auto simp: add_alloc_def split: if_splits)
  show "\<forall>k \<in> set (ns_allocations m). \<exists>x. ec_services c1 k = Some x \<and> ss_node x = nm"
  proof
    fix k assume k: "k \<in> set (ns_allocations m)"
    show "\<exists>x. ec_services c1 k = Some x \<and> ss_node x = nm"
    proof (cases "nm = ns_name n")
      case True
      then have "k = key \<or> k \<in> set (ns_allocations n)" using m k unfolding c1 update_conv' by (auto simp: add_alloc_def split: if_splits)
      then show ?thesis using old True st new by (auto simp: c1)
    next
      case False
      then have m0: "map_of (ec_nodes c) nm = Some m" using m unfolding c1 update_conv' by simp
      then have "k \<noteq> key" using fresh k by blast
      then show ?thesis using alloc_inv_nodes(3) [OF inv m0 k] by (simp add: c1)
    qed
  qed
next
  fix k x assume x: "ec_services c1 k = Some x"
  show "\<exists>m. map_of (ec_nodes c1) (ss_node x) = Some m \<and> k \<in> set (ns_allocations m)"
  proof (cases "k = key")
    case True
    then show ?thesis using x st unfolding c1 update_conv' by (auto simp: add_alloc_def)
  next
    case False
    then have "ec_services c k = Some x" using x by (simp add: c1)
    then obtain m where "map_of (ec_nodes c) (ss_node x) = Some m" "k \<in> set (ns_allocations m)"
      using alloc_inv_services_node [OF inv] by blast
    then show ?thesis using n unfolding c1 update_conv' by (auto simp: add_alloc_def)
  qed
qed


subsection \<open>Every operation keeps services and nodes together\<close>

lemma sync_chosen_inv:
  assumes inv: "alloc_inv c" and st: "ec_services c key = Some st"
  shows "\<exists>err c1. sync_chosen e key ns nm st sel c = Some (err, c1) \<and> alloc_inv c1"
proof -
  define d where "d = c\<lparr>ec_services := (ec_services c)(key \<mapsto> st\<lparr>ss_selector := sel\<rparr>)\<rparr>"
  have d: "alloc_inv d" unfolding d_def by (rule services_same_nodes_inv [OF inv]) (use st in auto)
  have ds: "ec_services d key = Some (st\<lparr>ss_selector := sel\<rparr>)" "ec_nodes d = ec_nodes c" by (simp_all add: d_def)
  obtain n where n: "map_of (ec_nodes c) (ss_node st) = Some n" using alloc_inv_services_node [OF inv st] by blast
  show ?thesis
  proof (cases "selector_matches sel (ns_labels n)")
    case False
    obtain err c1 where c1: "clearServiceResourcesAndRequeue e key (st\<lparr>ss_selector := sel\<rparr>) noHost d = (err, c1)" by fastforce
    have "sync_chosen e key ns nm st sel c = Some (err, c1)" using n False c1 by (simp add: sync_chosen_def d_def Let_def)
    then show ?thesis using clear_inv [OF d ds(1) c1] by blast
  next
    case True
    obtain err c1 where c1: "setEgressServiceHost e ns nm (ss_node st) d = (err, c1)" by fastforce
    have i1: "alloc_inv c1" using d alloc_inv_cong [of c1 d] c1 write_frames(1,2) [of e ns nm "ss_node st" d] by simp
    obtain err2 c2 where c2: "labelNodeForService e ns nm (ns_name n) c1 = (err2, c2)" by fastforce
    have i2: "alloc_inv c2" using i1 alloc_inv_cong [of c2 c1] c2 write_frames(13,14) [of e ns nm "ns_name n" c1] by simp
    have "sync_chosen e key ns nm st sel c = Some (case err of None \<Rightarrow> (err2, c2) | Some er \<Rightarrow> (Some er, c1))"
      using n True c1 c2 by (simp add: sync_chosen_def d_def Let_def split: option.splits)
    then show ?thesis using i1 i2 by (cases err) auto
  qed
qed

lemma sync_allocate_inv:
  assumes inv: "alloc_inv c" and "order_ok e" "labels_current e c" "sync_allocate e key ns nm sel c = Some (err, c1)"
  shows "alloc_inv c1"
proof (cases "ec_services c key")
  case (Some st)
  then show ?thesis using sync_chosen_inv [OF inv Some, of e ns nm sel] assms(4) by (auto simp: sync_allocate_def)
next
  case None
  define d where "d = es_remember key sel c"
  have d: "ec_services d = ec_services c" "ec_nodes d = ec_nodes c" by (simp_all add: d_def frame_simps)
  have di: "alloc_inv d" "labels_current e d" using inv assms(3) alloc_inv_cong [of d c] d by (simp_all add: labels_current_def)
  obtain r where r: "selectNodeFor e sel d = Some r" using assms(4) None
    by (cases "selectNodeFor e sel d") (auto simp: sync_allocate_def Let_def d_def)
  show ?thesis
  proof (cases r)
    case (Inl x)
    then show ?thesis using assms(4) None r di(1) by (simp add: sync_allocate_def d_def [symmetric])
  next
    case (Inr n)
    define st where "st = \<lparr>ss_node = ns_name n, ss_selector = sel, ss_stale = False\<rparr>"
    define b where "b = (es_forget key d)\<lparr>ec_services := (ec_services d)(key \<mapsto> st), ec_nodes := AList.update (ns_name n) (add_alloc key n) (ec_nodes d)\<rparr>"
    have b: "alloc_inv b"
      by (rule allocate_inv [OF di(1), of key n st]) (use None d selected_node [OF di(1) assms(2) di(2)] r Inr in \<open>auto simp: b_def st_def\<close>)
    have "sync_chosen e key ns nm st sel b = Some (err, c1)"
      using assms(4) None r Inr by (simp add: sync_allocate_def d_def [symmetric] Let_def b_def st_def frame_simps)
    then show ?thesis using sync_chosen_inv [OF b, of key st e ns nm sel] by (auto simp: b_def)
  qed
qed

lemma drop_service_inv:
  assumes "alloc_inv c" "drop_service e key ns nm host c = (err, c1)"
  shows "alloc_inv c1"
proof (cases "ec_services c key")
  case None
  then have "c1 = snd (setEgressServiceHost e ns nm host (es_forget key c))" using assms(2) by (simp add: drop_service_def)
  then show ?thesis using assms(1) alloc_inv_cong [of c1 c] by (simp add: frame_simps)
next
  case (Some st)
  then show ?thesis using assms clear_inv by (simp add: drop_service_def)
qed

lemma sync_loadBalancer_inv:
  assumes inv: "alloc_inv c" and "order_ok e" "labels_current e c" "sync_loadBalancer e key ns nm es svc c = Some (err, c1)"
  shows "alloc_inv c1"
proof (cases "backendNodesFor e svc")
  case None
  then show ?thesis using assms by (simp add: sync_loadBalancer_def)
next
  case (Some eps)
  show ?thesis
  proof (cases "LabelSelectorAsSelector (ee_syntax e) (node_selector es svc eps)")
    case None
    then show ?thesis using assms Some by (simp add: sync_loadBalancer_def)
  next
    case sel: (Some sel)
    show ?thesis
    proof (cases "eps = []")
      case False
      then show ?thesis using assms(4) Some sel sync_allocate_inv [OF inv assms(2,3)] by (simp add: sync_loadBalancer_def)
    next
      case True
      define d where "d = es_remember key sel c"
      have d: "ec_services d = ec_services c" "alloc_inv d" using inv alloc_inv_cong [of d c] by (simp_all add: d_def frame_simps)
      have "(case ec_services c key of None \<Rightarrow> setEgressServiceHost e ns nm [] d | Some st \<Rightarrow> clearServiceResourcesAndRequeue e key st noHost d) = (err, c1)"
        using assms(4) Some sel True unfolding d_def by (simp add: sync_loadBalancer_def)
      moreover have "alloc_inv (snd (setEgressServiceHost e ns nm [] d))"
        using d(2) alloc_inv_cong [of "snd (setEgressServiceHost e ns nm [] d)" d] by (simp add: frame_simps)
      ultimately show ?thesis using clear_inv [OF d(2)] d(1) by (cases "ec_services c key") (auto dest: arg_cong [where f = snd])
    qed
  qed
qed

text \<open>The way a sync goes: it leaves the controller, drops the service, or handles its load balancer.\<close>

lemma syncEgressService_cases:
  assumes "syncEgressService e key c = r"
  obtains (fails) err where "r = Some (err, c)" "err \<noteq> None"
  | (forget) "ec_services c key = None" "r = Some (None, es_forget key c)"
  | (clear) st err c1 where "ec_services c key = Some st" "clearServiceResourcesAndRequeue e key st noHost c = (err, c1)" "r = Some (err, c1)"
  | (drop) ns nm host err c1 where "drop_service e key ns nm host c = (err, c1)" "r = Some (err, c1)"
  | (lb) ns nm es svc where "SplitMetaNamespaceKey key = Some (ns, nm)" "ee_egressService e ns nm = Inr (Some es)"
      "ee_service e ns nm = Inr (Some svc)" "r = sync_loadBalancer e key ns nm es svc c"
proof (cases "SplitMetaNamespaceKey key")
  case None
  then have "r = Some (Some BadServiceKey, c)" using assms by (simp add: syncEgressService_def)
  then show ?thesis using fails by blast
next
  case (Some nn)
  obtain ns nm where k: "SplitMetaNamespaceKey key = Some (ns, nm)" using Some by (cases nn) auto
  show ?thesis
  proof (cases "ee_egressService e ns nm")
    case (Inl x)
    then have "r = Some (Some LookupFailed, c)" using assms k by (simp add: syncEgressService_def)
    then show ?thesis using fails by blast
  next
    case es: (Inr eo)
    show ?thesis
    proof (cases "ee_service e ns nm")
      case (Inl x)
      then have "r = Some (Some LookupFailed, c)" using assms k es by (cases eo) (simp_all add: syncEgressService_def)
      then show ?thesis using fails by blast
    next
      case svc: (Inr so)
      show ?thesis
      proof (cases eo)
        case None
        then show ?thesis
          using assms k es svc forget clear by (cases "ec_services c key") (auto simp: syncEgressService_def, metis surj_pair)
      next
        case e1: (Some eg)
        show ?thesis
        proof (cases so)
          case None
          then show ?thesis using assms k es svc e1 drop by (auto simp: syncEgressService_def) (metis surj_pair)
        next
          case s1: (Some sv)
          let ?stop = "(case ec_services c key of None \<Rightarrow> False | Some st \<Rightarrow> ss_stale st) \<or> svc_Ingress sv = []"
          have r: "r = (if egs_SourceIPBy eg = ''Network'' then Some (drop_service e key ns nm (if ee_shared e then noHost else noSNATHost) c)
              else if ?stop then Some (drop_service e key ns nm noHost c) else sync_loadBalancer e key ns nm eg sv c)"
            using assms k es svc e1 s1 by (simp add: syncEgressService_def)
          show ?thesis
          proof (cases "egs_SourceIPBy eg = ''Network''")
            case True
            then show ?thesis using r drop by (metis surj_pair)
          next
            case notNetwork: False
            show ?thesis
            proof (cases ?stop)
              case True
              then show ?thesis using r notNetwork drop by (metis surj_pair)
            next
              case False
              then show ?thesis using r notNetwork lb [of ns nm eg sv] k es svc e1 s1 by simp
            qed
          qed
        qed
      qed
    qed
  qed
qed

lemma syncEgressService_inv:
  assumes inv: "alloc_inv c" and "order_ok e" "labels_current e c" "syncEgressService e key c = Some (err, c1)"
  shows "alloc_inv c1"
  using assms(4)
proof (cases rule: syncEgressService_cases)
  case (fails er)
  then show ?thesis using inv by simp
next
  case forget
  then show ?thesis using inv alloc_inv_cong [of "es_forget key c" c] by (simp add: frame_simps)
next
  case (clear st er c2)
  then show ?thesis using clear_inv [OF inv] by simp
next
  case (drop ns nm host er c2)
  then show ?thesis using drop_service_inv [OF inv] by simp
next
  case (lb ns nm es svc)
  then show ?thesis using sync_loadBalancer_inv [OF inv assms(2,3) lb(4) [symmetric]] by simp
qed


lemma fold_es_queue [frame_simps]:
  "ec_services (fold es_queue ks c) = ec_services c" "ec_nodes (fold es_queue ks c) = ec_nodes c"
  by (induction ks arbitrary: c) (simp_all add: frame_simps)

lemma queue_matching_frames [frame_simps]:
  "ec_services (queue_matching e ls c) = ec_services c" "ec_nodes (queue_matching e ls c) = ec_nodes c"
  by (simp_all add: queue_matching_def frame_simps)

lemma sync_uncached_inv:
  assumes "alloc_inv c"
  shows "alloc_inv (snd (sync_uncached e n c))"
proof -
  have "ec_services (snd (sync_uncached e n c)) = ec_services c" "ec_nodes (snd (sync_uncached e n c)) = ec_nodes c"
    by (simp_all add: sync_uncached_def Let_def label_answer_def frame_simps)
  then show ?thesis using assms alloc_inv_cong by metis
qed

lemma sync_usable_inv:
  assumes "alloc_inv c" "sync_usable e n state c = (err, c1)"
  shows "alloc_inv c1"
proof -
  define d where "d = c\<lparr>ec_nodes := on_alloc (en_name n) (\<lambda>s. s\<lparr>ns_labels := en_labels n\<rparr>) (ec_nodes c)\<rparr>"
  have d: "alloc_inv d" unfolding d_def by (rule on_alloc_inv [OF assms(1)]) simp_all
  define leaving where "leaving = filter (\<lambda>key. case ec_services d key of None \<Rightarrow> False
      | Some st \<Rightarrow> \<not> selector_matches (ss_selector st) (en_labels n) \<or> ss_stale st) (ee_order e (ns_allocations state))"
  obtain err2 c2 where cl: "clear_all e leaving d = (err2, c2)" by fastforce
  have c1: "c1 = c2 \<or> (\<exists>ls. c1 = snd (SetLabelsOnNode e (en_name n) ls c2))
      \<or> (\<exists>ls. c1 = queue_matching e (en_labels n) (snd (SetLabelsOnNode e (en_name n) ls c2)))"
    using assms(2) unfolding sync_usable_def Let_def d_def [symmetric] leaving_def [symmetric] cl label_answer_def
    by (cases err2) (auto split: if_splits)
  have "alloc_inv c2" using clear_all_effect [OF d cl] by blast
  moreover have "ec_services c1 = ec_services c2 \<and> ec_nodes c1 = ec_nodes c2" using c1 by (auto simp: frame_simps)
  ultimately show ?thesis using alloc_inv_cong by metis
qed

lemma syncNode_inv:
  assumes inv: "alloc_inv c" and "order_ok e" "syncNode e key c = (err, c1)"
  shows "alloc_inv c1"
proof (cases "SplitMetaNamespaceKey key")
  case None
  then show ?thesis using assms by (simp add: syncNode_def)
next
  case (Some nn)
  obtain ns nm where k: "SplitMetaNamespaceKey key = Some (ns, nm)" using Some by (cases nn) auto
  note o = assms(2) [unfolded order_ok_def]
  show ?thesis
  proof (cases "get_node e nm")
    case (Inl x)
    then show ?thesis using assms k by (simp add: syncNode_def)
  next
    case (Inr no)
    show ?thesis
    proof (cases "map_of (ec_nodes c) nm")
      case None
      then show ?thesis using assms k Inr sync_uncached_inv [OF inv] by (cases no) (auto simp: syncNode_def, metis snd_conv)
    next
      case st: (Some state)
      show ?thesis
        using assms(3) k Inr st drain_and_delete_effect [OF inv st o] drain_effect [OF inv st o] sync_usable_inv [OF inv]
        by (cases no) (auto simp: syncNode_def split: if_splits)
    qed
  qed
qed

lemma free_all_inv:
  assumes "alloc_inv c" "\<forall>k st. ec_services c k = Some st \<longrightarrow> ss_node st \<notin> set nms"
  shows "alloc_inv (fold (\<lambda>nm d. en_queue nm (d\<lparr>ec_nodes := AList.delete nm (ec_nodes d)\<rparr>)) nms c)"
  using assms
proof (induction nms arbitrary: c)
  case (Cons nm nms)
  let ?d = "en_queue nm (c\<lparr>ec_nodes := AList.delete nm (ec_nodes c)\<rparr>)"
  have "alloc_inv (c\<lparr>ec_nodes := AList.delete nm (ec_nodes c)\<rparr>)" by (rule delete_inv [OF Cons.prems(1)]) (use Cons.prems(2) in auto)
  then have "alloc_inv ?d" using alloc_inv_cong [of ?d "c\<lparr>ec_nodes := AList.delete nm (ec_nodes c)\<rparr>"] by (simp add: frame_simps)
  moreover have "\<forall>k st. ec_services ?d k = Some st \<longrightarrow> ss_node st \<notin> set nms" using Cons.prems(2) by (simp add: frame_simps)
  ultimately show ?case using Cons.IH by simp
qed simp

lemma fold_en_queue [frame_simps]:
  "ec_services (fold en_queue ks c) = ec_services c" "ec_nodes (fold en_queue ks c) = ec_nodes c"
  by (induction ks arbitrary: c) (simp_all add: frame_simps)

lemma map_nodes_inv:
  assumes "alloc_inv c" "\<And>n. ns_name (f n) = ns_name n" "\<And>n. ns_allocations (f n) = ns_allocations n"
  shows "alloc_inv (c\<lparr>ec_nodes := map (\<lambda>(k, n). (k, f n)) (ec_nodes c)\<rparr>)"
proof (rule nodes_frame_inv [OF assms(1), where g = "\<lambda>_. f"])
  have m: "map_of (map (\<lambda>(k, n). (k, f n)) xs) nm = map_option f (map_of xs nm)" for xs nm by (induction xs) auto
  show "map_of (ec_nodes (c\<lparr>ec_nodes := map (\<lambda>(k, n). (k, f n)) (ec_nodes c)\<rparr>)) k = map_option f (map_of (ec_nodes c) k)" for k
    using m by simp
qed (simp_all add: assms(2,3) case_prod_beta)

lemma reachability_inv:
  assumes "alloc_inv c" "order_ok e"
  shows "alloc_inv (CheckNodesReachabilityIterate isReachable e c)"
proof -
  define now where "now = (\<lambda>n :: nodeState. isReachable (ns_name n) (ns_mgmtIPs n))"
  define states where "states = List.map_filter (map_of (ec_nodes c)) (ee_order e (map fst (ec_nodes c)))"
  define d where "d = c\<lparr>ec_nodes := map (\<lambda>(k, n). (k, n\<lparr>ns_reachable := now n\<rparr>)) (ec_nodes c)\<rparr>"
  define toFree where "toFree = filter (\<lambda>n. \<not> (ns_reachable n \<and> \<not> now n) \<and> ns_draining n \<and> ns_allocations n = [] \<and> now n) states"
  obtain lost where eq: "CheckNodesReachabilityIterate isReachable e c =
      fold (\<lambda>nm d. en_queue nm (d\<lparr>ec_nodes := AList.delete nm (ec_nodes d)\<rparr>)) (map ns_name toFree) (fold en_queue lost d)"
    unfolding CheckNodesReachabilityIterate_def Let_def toFree_def d_def states_def now_def by blast
  have "alloc_inv d" unfolding d_def by (rule map_nodes_inv [OF assms(1)]) simp_all
  then have i: "alloc_inv (fold en_queue lost d)" using alloc_inv_cong [of "fold en_queue lost d" d] by (simp add: frame_simps)
  have "ss_node st \<notin> set (map ns_name toFree)" if svc: "ec_services c k = Some st" for k st
  proof
    assume "ss_node st \<in> set (map ns_name toFree)"
    then obtain n where n: "n \<in> set states" "ns_allocations n = []" "ns_name n = ss_node st" by (auto simp: toFree_def)
    then obtain nm where nm: "map_of (ec_nodes c) nm = Some n" unfolding states_def map_filter_set by blast
    then have "nm = ss_node st" using alloc_inv_nodes(1) [OF assms(1) nm] n(3) by simp
    then have n1: "map_of (ec_nodes c) (ss_node st) = Some n" using nm by simp
    obtain m where "map_of (ec_nodes c) (ss_node st) = Some m" "k \<in> set (ns_allocations m)"
      using alloc_inv_services_node [OF assms(1) svc] by blast
    then show False using n1 n(2) by simp
  qed
  then show ?thesis unfolding eq by (intro free_all_inv [OF i]) (simp add: frame_simps d_def)
qed

lemma sync_chosen_no_crash:
  "map_of (ec_nodes c) (ss_node st) \<noteq> None \<Longrightarrow> sync_chosen e key ns nm st sel c \<noteq> None"
  by (auto simp: sync_chosen_def Let_def split: option.splits prod.splits)

lemma syncEgressService_no_crash:
  assumes "alloc_inv c" "\<forall>nm. nodeStateFor e nm \<noteq> None"
  shows "syncEgressService e key c \<noteq> None"
proof -
  have "selectNodeFor e sel d \<noteq> None" for sel d
    using assms(2) by (auto simp: selectNodeFor_def split: list.splits option.splits)
  then have sel: "\<exists>r. selectNodeFor e sel d = Some r" for sel d by blast
  have old: "map_of (ec_nodes c) (ss_node st) \<noteq> None" if "ec_services c key = Some st" for st
    using alloc_inv_services_node [OF assms(1) that] by auto
  have "sync_allocate e key ns nm sel c \<noteq> None" for ns nm sel
  proof (cases "ec_services c key")
    case (Some st)
    then show ?thesis using sync_chosen_no_crash [OF old] by (simp only: sync_allocate_def option.case simp_thms)
  next
    case None
    obtain r where r: "selectNodeFor e sel (es_remember key sel c) = Some r" using sel by blast
    show ?thesis
    proof (cases r)
      case (Inl x)
      then show ?thesis using None r by (simp add: sync_allocate_def Let_def)
    next
      case (Inr n)
      show ?thesis unfolding sync_allocate_def None option.case Let_def r Inr sum.case
        by (rule sync_chosen_no_crash) (simp add: update_conv')
    qed
  qed
  then have lb: "sync_loadBalancer e key ns nm es svc c \<noteq> None" for ns nm es svc
    unfolding sync_loadBalancer_def by (simp split: option.split)
  show ?thesis by (cases rule: syncEgressService_cases [OF refl, of e key c]) (use lb in auto)
qed


subsection \<open>All runs of the controller\<close>

abbreviation es_key :: "EgressService \<Rightarrow> string" where
  "es_key es \<equiv> egs_Namespace es @ ''/'' @ egs_Name es"

lemma repair_take_inv:
  assumes inv: "alloc_inv c" and new: "ec_services c key = None" and "repair_take e key node sel c = Some c1"
  shows "alloc_inv c1 \<and> (\<forall>k. k \<noteq> key \<longrightarrow> ec_services c1 k = ec_services c k)"
proof -
  define r where "r = (case map_of (ec_nodes c) (en_name node) of Some state \<Rightarrow> Some (Inr state) | None \<Rightarrow> nodeStateFor e (en_name node))"
  consider "c1 = c" | state where "r = Some (Inr state)"
      "c1 = c\<lparr>ec_services := (ec_services c)(key \<mapsto> \<lparr>ss_node = en_name node, ss_selector = sel, ss_stale = False\<rparr>),
              ec_nodes := AList.update (en_name node) (add_alloc key state) (ec_nodes c)\<rparr>"
  proof (cases "selector_matches sel (en_labels node)")
    case False
    then show ?thesis using that(1) assms(3) by (simp add: repair_take_def)
  next
    case True
    then obtain z where "r = Some z" using assms(3) unfolding repair_take_def r_def [symmetric] by (cases r) auto
    then show ?thesis using that assms(3) True unfolding repair_take_def r_def [symmetric] by (cases z) auto
  qed
  then show ?thesis
  proof cases
    case 2
    have "ns_name state = en_name node \<and> (map_of (ec_nodes c) (en_name node) = Some state \<or> map_of (ec_nodes c) (en_name node) = None \<and> ns_allocations state = [])"
      using 2(1) alloc_inv_nodes(1) [OF inv] nodeStateFor_new unfolding r_def by (auto split: option.splits)
    then have "alloc_inv c1"
      using allocate_inv [OF inv new, of state "\<lparr>ss_node = en_name node, ss_selector = sel, ss_stale = False\<rparr>" c1] 2(2) by simp
    then show ?thesis using 2(2) by simp
  qed (use inv in simp)
qed

lemma repair_one_inv:
  assumes "alloc_inv c" "ec_services c (es_key es) = None" "repair_one e es c = Some (es1, c1)"
  shows "alloc_inv c1 \<and> (\<forall>k. k \<noteq> es_key es \<longrightarrow> ec_services c1 k = ec_services c k)"
proof -
  have "c1 = c \<or> (\<exists>node sel. repair_take e (es_key es) node sel c = Some c1)"
    using assms(3) unfolding repair_one_def Let_def by (auto split: sum.splits option.splits if_splits list.splits)
  then show ?thesis using repair_take_inv [OF assms(1,2)] assms(1) by blast
qed

lemma repair_all_inv:
  assumes "alloc_inv c" "distinct (map es_key ess)" "\<forall>es \<in> set ess. ec_services c (es_key es) = None"
    "repair_all e ess c = Some (ess1, c1)"
  shows "alloc_inv c1"
  using assms
proof (induction ess arbitrary: c ess1)
  case (Cons es ess)
  obtain es1 c2 where r: "repair_one e es c = Some (es1, c2)" using Cons.prems(4) by (auto split: option.splits)
  then obtain ess2 where r2: "repair_all e ess c2 = Some (ess2, c1)" using Cons.prems(4) by auto
  have c2: "alloc_inv c2" "\<forall>k. k \<noteq> es_key es \<longrightarrow> ec_services c2 k = ec_services c k"
    using repair_one_inv [OF Cons.prems(1) _ r] Cons.prems(3) by simp_all
  have "\<forall>x \<in> set ess. ec_services c2 (es_key x) = None"
  proof
    fix x assume x: "x \<in> set ess"
    then have "es_key x \<in> set (map es_key ess)" unfolding set_map by (rule imageI)
    moreover have "es_key es \<notin> set (map es_key ess)" using Cons.prems(2) unfolding list.map distinct.simps by (rule conjunct1)
    ultimately have "es_key x \<noteq> es_key es" by metis
    then show "ec_services c2 (es_key x) = None" using c2(2) Cons.prems(3) x by simp
  qed
  moreover have "distinct (map es_key ess)" using Cons.prems(2) by (simp only: list.map distinct.simps)
  ultimately show ?case using Cons.IH [OF c2(1) _ _ r2] by blast
qed simp

lemma repair_writes_frames [frame_simps]:
  "ec_services (fold (repair_host e) ess c) = ec_services c" "ec_nodes (fold (repair_host e) ess c) = ec_nodes c"
  "ec_services (fold (repair_labels e keys) ns c) = ec_services c" "ec_nodes (fold (repair_labels e keys) ns c) = ec_nodes c"
proof -
  have h: "ec_services (repair_host e es d) = ec_services d \<and> ec_nodes (repair_host e es d) = ec_nodes d" for es d
    by (simp add: repair_host_def frame_simps)
  have l: "ec_services (repair_labels e keys n d) = ec_services d \<and> ec_nodes (repair_labels e keys n d) = ec_nodes d" for n d
    by (simp add: repair_labels_def Let_def frame_simps)
  show "ec_services (fold (repair_host e) ess c) = ec_services c" "ec_nodes (fold (repair_host e) ess c) = ec_nodes c"
    by (induction ess arbitrary: c) (simp_all add: h)
  show "ec_services (fold (repair_labels e keys) ns c) = ec_services c" "ec_nodes (fold (repair_labels e keys) ns c) = ec_nodes c"
    by (induction ns arbitrary: c) (simp_all add: l)
qed

lemma es_repair_inv:
  assumes "distinct (map es_key ess)" "es_repair e ess NewEgressServiceController = Some (ess1, c)"
  shows "alloc_inv c"
proof -
  have new: "alloc_inv NewEgressServiceController" by (simp add: alloc_inv_def NewEgressServiceController_def)
  obtain ess2 c2 where r: "repair_all e ess NewEgressServiceController = Some (ess2, c2)"
    and c: "ec_services c = ec_services c2" "ec_nodes c = ec_nodes c2"
    using assms(2) by (auto simp: es_repair_def frame_simps)
  have "alloc_inv c2" by (rule repair_all_inv [OF new assms(1) _ r]) (simp add: NewEgressServiceController_def)
  then show ?thesis using alloc_inv_cong [OF c] by simp
qed

text \<open>The states of the controller: it starts with the repair, then the workers take items from the two queues, nodes
  are probed, and events fill the queues. The environment differs from step to step; the only thing asked of it is
  that a service is synced with the labels of the cached nodes up to date.\<close>

inductive es_reachable :: "esController \<Rightarrow> bool" where
  repaired: "distinct (map es_key ess) \<Longrightarrow> es_repair e ess NewEgressServiceController = Some (ess1, c) \<Longrightarrow> es_reachable c"
| service_item: "es_reachable c \<Longrightarrow> order_ok e \<Longrightarrow> labels_current e c \<Longrightarrow> processNextEgressServiceWorkItem e c = Some c1 \<Longrightarrow> es_reachable c1"
| node_item: "es_reachable c \<Longrightarrow> order_ok e \<Longrightarrow> es_reachable (processNextNodeWorkItem e c)"
| probe: "es_reachable c \<Longrightarrow> order_ok e \<Longrightarrow> es_reachable (CheckNodesReachabilityIterate isReachable e c)"
| service_event: "es_reachable c \<Longrightarrow> es_reachable (es_queue key c)"
| node_event: "es_reachable c \<Longrightarrow> es_reachable (en_queue key c)"

lemma service_item_inv:
  assumes "alloc_inv c" "order_ok e" "labels_current e c" "processNextEgressServiceWorkItem e c = Some c1"
  shows "alloc_inv c1"
proof (cases "ec_serviceQueue c")
  case Nil
  then show ?thesis using assms by (simp add: processNextEgressServiceWorkItem_def)
next
  case (Cons key rest)
  let ?d = "c\<lparr>ec_serviceQueue := rest\<rparr>"
  have d: "alloc_inv ?d" "labels_current e ?d" using assms(1,3) alloc_inv_cong [of ?d c] by (simp_all add: labels_current_def)
  obtain err c2 where s: "syncEgressService e key ?d = Some (err, c2)" using assms(4) Cons by (auto simp: processNextEgressServiceWorkItem_def)
  have "ec_services c1 = ec_services c2 \<and> ec_nodes c1 = ec_nodes c2"
    using assms(4) Cons s by (auto simp: processNextEgressServiceWorkItem_def frame_simps split: if_splits)
  then show ?thesis using syncEgressService_inv [OF d(1) assms(2) d(2) s] alloc_inv_cong by blast
qed

lemma node_item_inv:
  assumes "alloc_inv c" "order_ok e"
  shows "alloc_inv (processNextNodeWorkItem e c)"
proof (cases "ec_nodesQueue c")
  case Nil
  then show ?thesis using assms by (simp add: processNextNodeWorkItem_def)
next
  case (Cons key rest)
  let ?d = "c\<lparr>ec_nodesQueue := rest\<rparr>"
  have d: "alloc_inv ?d" using assms(1) alloc_inv_cong [of ?d c] by simp
  obtain err c2 where s: "syncNode e key ?d = (err, c2)" by fastforce
  have "ec_services (processNextNodeWorkItem e c) = ec_services c2 \<and> ec_nodes (processNextNodeWorkItem e c) = ec_nodes c2"
    using Cons s by (simp add: processNextNodeWorkItem_def frame_simps)
  then show ?thesis using syncNode_inv [OF d assms(2) s] alloc_inv_cong by blast
qed

lemma es_reachable_inv: "es_reachable c \<Longrightarrow> alloc_inv c"
proof (induction rule: es_reachable.induct)
  case (repaired ess e ess1 c)
  then show ?case using es_repair_inv by blast
next
  case (service_item c e c1)
  then show ?case using service_item_inv by blast
next
  case (node_item c e)
  then show ?case using node_item_inv by blast
next
  case (probe c e isReachable)
  then show ?case using reachability_inv by blast
next
  case (service_event c key)
  then show ?case using alloc_inv_cong [of "es_queue key c" c] by (simp add: frame_simps)
next
  case (node_event c key)
  then show ?case using alloc_inv_cong [of "en_queue key c" c] by (simp add: frame_simps)
qed


text \<open>The event handlers only fill the queues, so they stay within the reachable states.\<close>

lemmas es_handlers = onEgressServiceAdd_def onEgressServiceUpdate_def onEgressServiceDelete_def es_onServiceAdd_def es_onServiceUpdate_def
  es_onServiceDelete_def es_queueForSlice_def es_onEndpointSliceAdd_def es_onEndpointSliceUpdate_def es_onEndpointSliceDelete_def
  es_onNodeAdd_def es_onNodeUpdate_def es_onNodeDelete_def

lemma handlers_reachable:
  assumes "es_reachable c"
  shows "es_reachable (onEgressServiceAdd es c)" "es_reachable (onEgressServiceUpdate ov nv del es c)" "es_reachable (onEgressServiceDelete es c)"
    "es_reachable (es_onServiceAdd e svc c)" "es_reachable (es_onServiceUpdate e ov nv del svc svc1 c)" "es_reachable (es_onServiceDelete e svc c)"
    "es_reachable (es_onEndpointSliceAdd o1 c)" "es_reachable (es_onEndpointSliceUpdate ov nv del sl c)" "es_reachable (es_onEndpointSliceDelete o2 c)"
    "es_reachable (es_onNodeAdd n c)" "es_reachable (es_onNodeUpdate ov nv del n n1 c)" "es_reachable (es_onNodeDelete n c)"
  using assms by (auto simp: es_handlers intro: es_reachable.service_event es_reachable.node_event split: option.split sum.split deleted_obj.split)




subsection \<open>What a successful sync publishes\<close>

definition published :: "string \<Rightarrow> string \<Rightarrow> string \<Rightarrow> requirement list \<Rightarrow> esController \<Rightarrow> bool" where
  "published key ns nm sel c \<longleftrightarrow>
     (\<forall>st. ec_services c key = Some st \<longrightarrow>
        (\<exists>n. map_of (ec_nodes c) (ss_node st) = Some n \<and> selector_matches sel (ns_labels n)
           \<and> (ss_node st \<noteq> [] \<longrightarrow> SetHost ns nm (ss_node st) \<in> set (ec_calls c))
           \<and> SetLabels (ns_name n) [(nodeLabelForService ns nm, Some [])] \<in> set (ec_calls c)))"

lemma cleared_published: "cleared key st c c1 \<Longrightarrow> published key ns nm sel c1"
  by (simp add: cleared_def published_def)

lemma setHost_calls:
  assumes "setEgressServiceHost e ns nm h c = (None, c1)"
  shows "ec_services c1 = ec_services c" "ec_nodes c1 = ec_nodes c" "h \<noteq> [] \<Longrightarrow> SetHost ns nm h \<in> set (ec_calls c1)"
  using assms by (auto simp: setEgressServiceHost_def split: api_answer.splits if_splits)

lemma label_calls:
  assumes "labelNodeForService e ns nm nd c = (None, c1)"
  shows "ec_services c1 = ec_services c" "ec_nodes c1 = ec_nodes c" "set (ec_calls c) \<subseteq> set (ec_calls c1)"
    "SetLabels nd [(nodeLabelForService ns nm, Some [])] \<in> set (ec_calls c1)"
  using assms by (auto simp: labelNodeForService_def SetLabelsOnNode_def split: api_answer.splits)

lemma sync_chosen_published:
  assumes "sync_chosen e key ns nm st sel c = Some (None, c1)"
  shows "published key ns nm sel c1"
proof -
  define d where "d = c\<lparr>ec_services := (ec_services c)(key \<mapsto> st\<lparr>ss_selector := sel\<rparr>)\<rparr>"
  obtain n where n: "map_of (ec_nodes d) (ss_node st) = Some n"
    using assms unfolding sync_chosen_def Let_def d_def [symmetric] by (auto split: option.splits)
  show ?thesis
  proof (cases "selector_matches sel (ns_labels n)")
    case False
    then have "clearServiceResourcesAndRequeue e key (st\<lparr>ss_selector := sel\<rparr>) noHost d = (None, c1)"
      using assms n unfolding sync_chosen_def Let_def d_def [symmetric] by simp
    from clear_effect [OF this] show ?thesis by (simp add: cleared_published)
  next
    case True
    obtain er c2 where h: "setEgressServiceHost e ns nm (ss_node st) d = (er, c2)" by fastforce
    have er: "er = None" "labelNodeForService e ns nm (ns_name n) c2 = (None, c1)"
      using assms n True h unfolding sync_chosen_def Let_def d_def [symmetric] by (auto split: option.splits)
    note hc = setHost_calls [OF h [unfolded er(1)]] and lc = label_calls [OF er(2)]
    have "ec_services c1 key = Some (st\<lparr>ss_selector := sel\<rparr>)" using hc lc by (simp add: d_def)
    then show ?thesis using hc lc n True unfolding published_def by (auto simp: subset_iff)
  qed
qed

lemma clear_gone: "clearServiceResourcesAndRequeue e key st host c = (None, c1) \<Longrightarrow> ec_services c1 key = None"
  using clear_effect [of e key st host c None c1] by (simp add: cleared_def)

lemma drop_service_gone:
  assumes "drop_service e key ns nm host c = (None, c1)"
  shows "ec_services c1 key = None"
proof (cases "ec_services c key")
  case None
  then have "setEgressServiceHost e ns nm host (es_forget key c) = (None, c1)" using assms by (simp add: drop_service_def)
  from setHost_calls(1) [OF this] show ?thesis using None by (simp add: frame_simps)
next
  case (Some st)
  then show ?thesis using assms clear_gone by (simp add: drop_service_def)
qed

text \<open>C19: When a sync of an egress service succeeds and the service is allocated, the node matches the node selector of
  the service, the status of the \<open>EgressService\<close> names the node and the node carries the label of the service. With
  external traffic policy local, the host name of the node is that of a node with an endpoint of the service.\<close>

theorem egress_service_host_published:
  assumes "syncEgressService e key c = Some (None, c1)" "ec_services c1 key = Some st" "ss_node st \<noteq> []"
  shows "\<exists>ns nm es svc eps sel n. ee_egressService e ns nm = Inr (Some es) \<and> ee_service e ns nm = Inr (Some svc)
    \<and> backendNodesFor e svc = Some eps \<and> LabelSelectorAsSelector (ee_syntax e) (node_selector es svc eps) = Some sel
    \<and> map_of (ec_nodes c1) (ss_node st) = Some n \<and> selector_matches sel (ns_labels n)
    \<and> SetHost ns nm (ss_node st) \<in> set (ec_calls c1)
    \<and> SetLabels (ns_name n) [(nodeLabelForService ns nm, Some [])] \<in> set (ec_calls c1)
    \<and> (svc_ExternalTrafficPolicy svc = ''Local'' \<longrightarrow> (\<exists>host \<in> set eps. map_of (ns_labels n) ''kubernetes.io/hostname'' = Some host))"
  using assms(1)
proof (cases rule: syncEgressService_cases)
  case (fails err)
  then show ?thesis by simp
next
  case forget
  then show ?thesis using assms(2) by (simp add: frame_simps)
next
  case (clear st1 err c2)
  then show ?thesis using clear_gone assms(2) by simp
next
  case (drop ns nm host err c2)
  then show ?thesis using drop_service_gone assms(2) by simp
next
  case (lb ns nm es svc)
  obtain eps where eps: "backendNodesFor e svc = Some eps"
    using lb(4) unfolding sync_loadBalancer_def by (auto split: option.splits)
  obtain sel where sel: "LabelSelectorAsSelector (ee_syntax e) (node_selector es svc eps) = Some sel"
    using lb(4) eps unfolding sync_loadBalancer_def by (auto split: option.splits)
  have ne: "eps \<noteq> []"
  proof
    assume "eps = []"
    then have cl: "(case ec_services c key of None \<Rightarrow> setEgressServiceHost e ns nm [] (es_remember key sel c)
        | Some st \<Rightarrow> clearServiceResourcesAndRequeue e key st noHost (es_remember key sel c)) = (None, c1)"
      using lb(4) eps sel unfolding sync_loadBalancer_def by simp
    then have "ec_services c1 key = None"
    proof (cases "ec_services c key")
      case None
      then have "setEgressServiceHost e ns nm [] (es_remember key sel c) = (None, c1)" using cl by simp
      from setHost_calls(1) [OF this] show ?thesis using None by (simp add: frame_simps)
    next
      case (Some st1)
      then show ?thesis using cl clear_gone by simp
    qed
    then show False using assms(2) by simp
  qed
  have al: "sync_allocate e key ns nm sel c = Some (None, c1)" using lb(4) eps sel ne unfolding sync_loadBalancer_def by simp
  then have "\<exists>st d. sync_chosen e key ns nm st sel d = Some (None, c1)"
    unfolding sync_allocate_def Let_def by (auto split: option.splits sum.splits)
  then have "published key ns nm sel c1" using sync_chosen_published by blast
  then obtain n where n: "map_of (ec_nodes c1) (ss_node st) = Some n" "selector_matches sel (ns_labels n)"
    "SetHost ns nm (ss_node st) \<in> set (ec_calls c1)" "SetLabels (ns_name n) [(nodeLabelForService ns nm, Some [])] \<in> set (ec_calls c1)"
    using assms(2,3) unfolding published_def by blast
  have "\<exists>host \<in> set eps. map_of (ns_labels n) ''kubernetes.io/hostname'' = Some host" if "svc_ExternalTrafficPolicy svc = ''Local''"
  proof -
    have "\<lparr>rq_Key = ''kubernetes.io/hostname'', rq_Operator = ''In'', rq_Values = eps\<rparr> \<in> set sel"
      using sel ne that by (auto simp: LabelSelectorAsSelector_def node_selector_def Let_def split: if_splits)
    then have "requirement_matches \<lparr>rq_Key = ''kubernetes.io/hostname'', rq_Operator = ''In'', rq_Values = eps\<rparr> (ns_labels n)"
      using n(2) unfolding selector_matches_def list_all_iff by blast
    then show ?thesis by (auto simp: requirement_matches_def split: option.splits)
  qed
  then show ?thesis using lb(2,3) eps sel n by blast
qed


section \<open>Examples\<close>

definition web_service :: "string \<Rightarrow> string \<Rightarrow> Service" where
  "web_service nm policy = example_service\<lparr>svc_Name := nm, svc_Type := ''LoadBalancer'', svc_Ingress := [''5.5.5.5''], svc_ExternalTrafficPolicy := policy\<rparr>"

definition web_node :: "string \<Rightarrow> labels \<Rightarrow> esNode" where
  "web_node nm ls = \<lparr>en_node = \<lparr>node_Name = nm,
       node_docs = [ovnNodeSubnets \<mapsto> Some (JObject [(''default'', JArray [JString ''10.244.1.0/24''])])], node_texts = Map.empty\<rparr>,
     en_labels = (''kubernetes.io/hostname'', nm) # ls, en_conditions = [(''Ready'', ''True'')], en_addresses = [(''InternalIP'', ''172.18.0.2'')]\<rparr>"

definition web_egress :: "string \<Rightarrow> (string \<times> string) list \<Rightarrow> EgressService" where
  "web_egress nm sel = \<lparr>egs_Namespace = ''ns'', egs_Name = nm, egs_SourceIPBy = ''LoadBalancerIP'',
     egs_NodeSelector = \<lparr>sl_MatchLabels = sel, sl_MatchExpressions = []\<rparr>, egs_Host = []\<rparr>"

text \<open>The service \<open>a\<close> may use every node, the service \<open>b\<close> only nodes with the label \<open>x\<close>; all endpoints are on \<open>n1\<close>.\<close>

definition web_env :: "string \<Rightarrow> esNode list \<Rightarrow> es_env" where
  "web_env policy nodes = \<lparr>ee_cfg = example_svccfg, ee_shared = False,
     ee_egressService = (\<lambda>_ nm. Inr (Some (web_egress nm (if nm = ''b'' then [(''x'', ''1'')] else [])))),
     ee_service = (\<lambda>_ nm. Inr (Some (web_service nm policy))),
     ee_slices = (\<lambda>_ _. Some [\<lparr>xs_AddressType = ''IPv4'', xs_Endpoints = [\<lparr>xe_NodeName = Some ''n1'', xe_Addresses = [''10.244.1.5'']\<rparr>]\<rparr>]),
     ee_nodes = nodes, ee_nodeErr = (\<lambda>_. False), ee_listErr = False, ee_setHost = (\<lambda>_ _ _. ApiOk), ee_setLabels = (\<lambda>_ _. ApiOk),
     ee_syntax = (\<lambda>_. True), ee_order = (\<lambda>xs. xs)\<rparr>"

abbreviation two_nodes :: "esNode list" where
  "two_nodes \<equiv> [web_node ''n1'' [], web_node ''n2'' []]"

definition started :: esController where
  "started = es_queue ''ns/a'' (the (map_option snd (es_repair (web_env ''Local'' two_nodes) [web_egress ''a'' []] NewEgressServiceController)))"

definition allocated :: esController where
  "allocated = the (processNextEgressServiceWorkItem (web_env ''Local'' two_nodes) started)"

lemma web_order: "order_ok (web_env policy nodes)"
  by (simp add: order_ok_def web_env_def)

lemma started_reachable: "es_reachable started"
proof -
  have "map_option (\<lambda>_. ()) (es_repair (web_env ''Local'' two_nodes) [web_egress ''a'' []] NewEgressServiceController) = Some ()" by code_simp
  then obtain x c where "es_repair (web_env ''Local'' two_nodes) [web_egress ''a'' []] NewEgressServiceController = Some (x, c)" by auto
  moreover from this have "es_reachable c" by (rule es_reachable.repaired [rotated]) simp
  ultimately show ?thesis using es_reachable.service_event by (simp add: started_def)
qed

lemma allocated_reachable: "es_reachable allocated"
  and allocated_n1: "map_option ss_node (ec_services allocated ''ns/a'') = Some ''n1''"
proof -
  have "map_option (\<lambda>_. ()) (processNextEgressServiceWorkItem (web_env ''Local'' two_nodes) started) = Some ()" by code_simp
  then have p: "processNextEgressServiceWorkItem (web_env ''Local'' two_nodes) started = Some allocated" by (auto simp: allocated_def)
  have "ec_nodes started = []" by code_simp
  then have "labels_current (web_env ''Local'' two_nodes) started" by (simp add: labels_current_def)
  from es_reachable.service_item [OF started_reachable web_order this p] show "es_reachable allocated" .
  show "map_option ss_node (ec_services allocated ''ns/a'') = Some ''n1''" by code_simp
qed




theorem egress_service_host_published_witness:
  "\<exists>c1 ns nm. syncEgressService (web_env ''Local'' two_nodes) ''ns/a'' allocated = Some (None, c1) \<and> SetHost ns nm ''n1'' \<in> set (ec_calls c1)"
proof -
  let ?r = "syncEgressService (web_env ''Local'' two_nodes) ''ns/a'' allocated"
  have "map_option (\<lambda>(err, c). (err, map_option ss_node (ec_services c ''ns/a''))) ?r = Some (None, Some ''n1'')" by code_simp
  then obtain c1 st where c1: "?r = Some (None, c1)" "ec_services c1 ''ns/a'' = Some st" "ss_node st = ''n1''" by auto
  then have "ss_node st \<noteq> []" by simp
  from egress_service_host_published [OF c1(1,2) this] c1 show ?thesis by metis
qed

section \<open>A node whose cached labels are out of date\<close>

text \<open>The service \<open>a\<close> is on \<open>n1\<close>. The node receives the label \<open>x\<close>, and before the event of the node is processed the
  service \<open>b\<close>, which asks for the label, is synced: the cached node does not match the selector, so \<open>n1\<close> counts as a
  node without services, and a new state without the service \<open>a\<close> replaces its state. When the node is deleted later,
  only \<open>b\<close> is moved; the service \<open>a\<close> stays on the node that is not cached any more, and its next sync dereferences nil.\<close>

definition relabelled :: esController where
  "relabelled = snd (the (syncEgressService (web_env ''Cluster'' [web_node ''n1'' [(''x'', ''1'')]]) ''ns/b''
     (snd (the (syncEgressService (web_env ''Cluster'' [web_node ''n1'' []]) ''ns/a'' NewEgressServiceController)))))"

lemma stale_labels_lose_services:
  "map_option ss_node (ec_services relabelled ''ns/a'') = Some ''n1''
   \<and> map_option ns_allocations (map_of (ec_nodes relabelled) ''n1'') = Some [''ns/b'']
   \<and> syncEgressService (web_env ''Cluster'' []) ''ns/a'' (snd (syncNode (web_env ''Cluster'' []) ''n1'' relabelled)) = None"
proof (intro conjI)
  have "Option.is_none (syncEgressService (web_env ''Cluster'' []) ''ns/a'' (snd (syncNode (web_env ''Cluster'' []) ''n1'' relabelled)))" by code_simp
  then show "syncEgressService (web_env ''Cluster'' []) ''ns/a'' (snd (syncNode (web_env ''Cluster'' []) ''n1'' relabelled)) = None"
    by (simp add: Option.is_none_def)
qed code_simp+

text \<open>Services of different namespaces may share a label.\<close>

lemma nodeLabelForService_collides: "nodeLabelForService ''a-b'' ''c'' = nodeLabelForService ''a'' ''b-c''"
  by (simp add: nodeLabelForService_def)

end
