(* ===== verification/Db_Objects.thy ===== *)
theory Db_Objects
  imports Util_Net "HOL-Library.AList"
begin

text \<open>
  The identity of objects in the northbound database (\<open>pkg/libovsdb/ops/db_object_ids.go\<close>, \<open>db_object_types.go\<close>).
  Every object carries external ids that name its owner and identify it; controllers find their objects by predicates
  over these ids. The lemmas show that the primary id determines the object, that the external ids can be read back, and
  that a predicate selects exactly the objects it describes.

  Go maps from strings to strings are association lists; a panic is \<open>None\<close>.
\<close>

section \<open>Types of objects\<close>

datatype dbObjType = AddressSetObj | AclObj | DhcpOptionsObj

type_synonym id_map = "(string \<times> string) list"

record ObjectIDsType =
  ot_dbTable :: dbObjType
  ot_owner :: string
  ot_keys :: "string list"

definition HasKey :: "ObjectIDsType \<Rightarrow> string \<Rightarrow> bool" where
  "HasKey t key \<longleftrightarrow> key \<in> set (ot_keys t)"

definition IsSameType :: "ObjectIDsType \<Rightarrow> ObjectIDsType \<Rightarrow> bool" where
  "IsSameType t t2 \<longleftrightarrow> ot_owner t = ot_owner t2 \<and> ot_dbTable t = ot_dbTable t2"

definition OwnerControllerKey :: string where "OwnerControllerKey = ''k8s.ovn.org/owner-controller''"

definition OwnerTypeKey :: string where "OwnerTypeKey = ''k8s.ovn.org/owner-type''"

definition ObjectNameKey :: string where "ObjectNameKey = ''k8s.ovn.org/name''"

definition PrimaryIDKey :: string where "PrimaryIDKey = ''k8s.ovn.org/id''"

definition PriorityKey :: string where "PriorityKey = ''priority''"

definition PolicyDirectionKey :: string where "PolicyDirectionKey = ''direction''"

definition GressIdxKey :: string where "GressIdxKey = ''gress-index''"

definition AddressSetIPFamilyKey :: string where "AddressSetIPFamilyKey = ''ip-family''"

definition TypeKey :: string where "TypeKey = ''type''"

definition IpKey :: string where "IpKey = ''ip''"

definition PortPolicyIndexKey :: string where "PortPolicyIndexKey = ''port-policy-index''"

definition IpBlockIndexKey :: string where "IpBlockIndexKey = ''ip-block-index''"

definition RuleIndex :: string where "RuleIndex = ''rule-index''"

definition CIDRKey :: string where "CIDRKey = ''k8s.ovn.org/cidr''"

definition PortPolicyProtocolKey :: string where "PortPolicyProtocolKey = ''port-policy-protocol''"

lemmas id_keys = OwnerControllerKey_def OwnerTypeKey_def ObjectNameKey_def PrimaryIDKey_def PriorityKey_def PolicyDirectionKey_def
  GressIdxKey_def AddressSetIPFamilyKey_def TypeKey_def IpKey_def PortPolicyIndexKey_def IpBlockIndexKey_def RuleIndex_def
  CIDRKey_def PortPolicyProtocolKey_def

text \<open>The registry of types: the same owner type twice for one table panics.\<close>

type_synonym id_registry = "(dbObjType \<times> string) list"

definition newObjectIDsType :: "dbObjType \<Rightarrow> string \<Rightarrow> string list \<Rightarrow> id_registry \<Rightarrow> (ObjectIDsType \<times> id_registry) option" where
  "newObjectIDsType dbTable owner keys dbIDsMap =
     (if (dbTable, owner) \<in> set dbIDsMap then None
      else Some (\<lparr>ot_dbTable = dbTable, ot_owner = owner, ot_keys = keys\<rparr>, (dbTable, owner) # dbIDsMap))"

definition AddressSetAdminNetworkPolicy :: ObjectIDsType where
  "AddressSetAdminNetworkPolicy = \<lparr>ot_dbTable = AddressSetObj, ot_owner = ''AdminNetworkPolicy'',
     ot_keys = [ObjectNameKey, PolicyDirectionKey, GressIdxKey, AddressSetIPFamilyKey]\<rparr>"

definition AddressSetBaselineAdminNetworkPolicy :: ObjectIDsType where
  "AddressSetBaselineAdminNetworkPolicy = \<lparr>ot_dbTable = AddressSetObj, ot_owner = ''BaselineAdminNetworkPolicy'',
     ot_keys = [ObjectNameKey, PolicyDirectionKey, GressIdxKey, AddressSetIPFamilyKey]\<rparr>"

definition AddressSetEgressFirewallDNS :: ObjectIDsType where
  "AddressSetEgressFirewallDNS = \<lparr>ot_dbTable = AddressSetObj, ot_owner = ''EgressFirewallDNS'', ot_keys = [ObjectNameKey, AddressSetIPFamilyKey]\<rparr>"

definition AddressSetHybridNodeRoute :: ObjectIDsType where
  "AddressSetHybridNodeRoute = \<lparr>ot_dbTable = AddressSetObj, ot_owner = ''HybridNodeRoute'', ot_keys = [ObjectNameKey, AddressSetIPFamilyKey]\<rparr>"

definition AddressSetEgressQoS :: ObjectIDsType where
  "AddressSetEgressQoS = \<lparr>ot_dbTable = AddressSetObj, ot_owner = ''EgressQoS'', ot_keys = [ObjectNameKey, PriorityKey, AddressSetIPFamilyKey]\<rparr>"

definition AddressSetPodSelector :: ObjectIDsType where
  "AddressSetPodSelector = \<lparr>ot_dbTable = AddressSetObj, ot_owner = ''PodSelector'', ot_keys = [ObjectNameKey, AddressSetIPFamilyKey]\<rparr>"

definition AddressSetNetworkPolicy :: ObjectIDsType where
  "AddressSetNetworkPolicy = \<lparr>ot_dbTable = AddressSetObj, ot_owner = ''NetworkPolicy'',
     ot_keys = [ObjectNameKey, PolicyDirectionKey, GressIdxKey, AddressSetIPFamilyKey]\<rparr>"

definition AddressSetNamespace :: ObjectIDsType where
  "AddressSetNamespace = \<lparr>ot_dbTable = AddressSetObj, ot_owner = ''Namespace'', ot_keys = [ObjectNameKey, AddressSetIPFamilyKey]\<rparr>"

definition AddressSetEgressIP :: ObjectIDsType where
  "AddressSetEgressIP = \<lparr>ot_dbTable = AddressSetObj, ot_owner = ''EgressIP'', ot_keys = [ObjectNameKey, AddressSetIPFamilyKey]\<rparr>"

definition AddressSetEgressService :: ObjectIDsType where
  "AddressSetEgressService = \<lparr>ot_dbTable = AddressSetObj, ot_owner = ''EgressService'', ot_keys = [ObjectNameKey, AddressSetIPFamilyKey]\<rparr>"

definition ACLAdminNetworkPolicy :: ObjectIDsType where
  "ACLAdminNetworkPolicy = \<lparr>ot_dbTable = AclObj, ot_owner = ''AdminNetworkPolicy'',
     ot_keys = [ObjectNameKey, PolicyDirectionKey, GressIdxKey, PortPolicyProtocolKey]\<rparr>"

definition ACLBaselineAdminNetworkPolicy :: ObjectIDsType where
  "ACLBaselineAdminNetworkPolicy = \<lparr>ot_dbTable = AclObj, ot_owner = ''BaselineAdminNetworkPolicy'',
     ot_keys = [ObjectNameKey, PolicyDirectionKey, GressIdxKey, PortPolicyProtocolKey]\<rparr>"

definition ACLNetpolDefault :: ObjectIDsType where
  "ACLNetpolDefault = \<lparr>ot_dbTable = AclObj, ot_owner = ''NetpolDefault'', ot_keys = [ObjectNameKey, PolicyDirectionKey]\<rparr>"

definition ACLMulticastNamespace :: ObjectIDsType where
  "ACLMulticastNamespace = \<lparr>ot_dbTable = AclObj, ot_owner = ''MulticastNS'', ot_keys = [ObjectNameKey, PolicyDirectionKey]\<rparr>"

definition ACLMulticastCluster :: ObjectIDsType where
  "ACLMulticastCluster = \<lparr>ot_dbTable = AclObj, ot_owner = ''MulticastCluster'', ot_keys = [TypeKey, PolicyDirectionKey]\<rparr>"

definition ACLNetpolNode :: ObjectIDsType where
  "ACLNetpolNode = \<lparr>ot_dbTable = AclObj, ot_owner = ''NetpolNode'', ot_keys = [ObjectNameKey, IpKey]\<rparr>"

definition ACLNetworkPolicyPortIndex :: ObjectIDsType where
  "ACLNetworkPolicyPortIndex = \<lparr>ot_dbTable = AclObj, ot_owner = ''NetworkPolicyPortIndexOwnerType'',
     ot_keys = [ObjectNameKey, PolicyDirectionKey, GressIdxKey, PortPolicyIndexKey, IpBlockIndexKey]\<rparr>"

definition ACLNetworkPolicy :: ObjectIDsType where
  "ACLNetworkPolicy = \<lparr>ot_dbTable = AclObj, ot_owner = ''NetworkPolicy'',
     ot_keys = [ObjectNameKey, PolicyDirectionKey, GressIdxKey, PortPolicyProtocolKey, IpBlockIndexKey]\<rparr>"

definition ACLNetpolNamespace :: ObjectIDsType where
  "ACLNetpolNamespace = \<lparr>ot_dbTable = AclObj, ot_owner = ''NetpolNamespace'', ot_keys = [ObjectNameKey, PolicyDirectionKey, TypeKey]\<rparr>"

definition ACLEgressFirewall :: ObjectIDsType where
  "ACLEgressFirewall = \<lparr>ot_dbTable = AclObj, ot_owner = ''EgressFirewall'', ot_keys = [ObjectNameKey, RuleIndex]\<rparr>"

definition VirtualMachineDHCPOptions :: ObjectIDsType where
  "VirtualMachineDHCPOptions = \<lparr>ot_dbTable = DhcpOptionsObj, ot_owner = ''VirtualMachine'', ot_keys = [ObjectNameKey, CIDRKey]\<rparr>"

definition registered_types :: "ObjectIDsType list" where
  "registered_types = [AddressSetAdminNetworkPolicy, AddressSetBaselineAdminNetworkPolicy, AddressSetEgressFirewallDNS,
     AddressSetHybridNodeRoute, AddressSetEgressQoS, AddressSetPodSelector, AddressSetNetworkPolicy, AddressSetNamespace,
     AddressSetEgressIP, AddressSetEgressService, ACLAdminNetworkPolicy, ACLBaselineAdminNetworkPolicy, ACLNetpolDefault,
     ACLMulticastNamespace, ACLMulticastCluster, ACLNetpolNode, ACLNetworkPolicyPortIndex, ACLNetworkPolicy, ACLNetpolNamespace,
     ACLEgressFirewall, VirtualMachineDHCPOptions]"

section \<open>Object ids\<close>

record DbObjectIDs =
  di_type :: ObjectIDsType
  di_controller :: string
  di_ids :: id_map

text \<open>A type without keys stands for the zero value \<open>ObjectIDsType{}\<close>.\<close>

definition NewDbObjectIDs :: "ObjectIDsType \<Rightarrow> string \<Rightarrow> id_map \<Rightarrow> DbObjectIDs option" where
  "NewDbObjectIDs idsType controller objectIds =
     (if controller = [] \<or> ot_keys idsType = [] \<or> \<not> list_all (\<lambda>(key, _). HasKey idsType key) objectIds then None
      else Some \<lparr>di_type = idsType, di_controller = controller, di_ids = objectIds\<rparr>)"

definition AddIDs :: "id_map \<Rightarrow> DbObjectIDs \<Rightarrow> DbObjectIDs" where
  "AddIDs extra ids = ids\<lparr>di_ids := fold (\<lambda>(k, v). AList.update k v) extra (di_ids ids)\<rparr>"

definition RemoveIDs :: "string list \<Rightarrow> DbObjectIDs \<Rightarrow> DbObjectIDs" where
  "RemoveIDs keys ids = ids\<lparr>di_ids := fold AList.delete keys (di_ids ids)\<rparr>"

definition HasSameOwner :: "string \<Rightarrow> ObjectIDsType \<Rightarrow> DbObjectIDs \<Rightarrow> bool" where
  "HasSameOwner controller t ids \<longleftrightarrow> di_controller ids = controller \<and> IsSameType (di_type ids) t"

definition GetUnsetKeys :: "DbObjectIDs \<Rightarrow> string list" where
  "GetUnsetKeys ids = filter (\<lambda>key. map_of (di_ids ids) key = None) (ot_keys (di_type ids))"

definition lookup_id :: "id_map \<Rightarrow> string \<Rightarrow> string" where
  "lookup_id m key = (case map_of m key of None \<Rightarrow> [] | Some v \<Rightarrow> v)"

definition GetObjectID :: "string \<Rightarrow> DbObjectIDs \<Rightarrow> string" where
  "GetObjectID key ids = lookup_id (di_ids ids) key"

definition DbObjectIDs_String :: "DbObjectIDs \<Rightarrow> string" where
  "DbObjectIDs_String ids = fold (\<lambda>key s. s @ '':'' @ GetObjectID key ids) (ot_keys (di_type ids)) (di_controller ids @ '':'' @ ot_owner (di_type ids))"

fun unique_id_loop :: "id_map \<Rightarrow> string list \<Rightarrow> string \<Rightarrow> string option" where
  "unique_id_loop m [] s = Some s"
| "unique_id_loop m (key # keys) s = (case map_of m key of None \<Rightarrow> None | Some v \<Rightarrow> unique_id_loop m keys (s @ '':'' @ v))"

definition getUniqueID :: "DbObjectIDs \<Rightarrow> string option" where
  "getUniqueID ids = unique_id_loop (di_ids ids) (ot_keys (di_type ids)) (di_controller ids @ '':'' @ ot_owner (di_type ids))"

definition getExternalIDs :: "bool \<Rightarrow> DbObjectIDs \<Rightarrow> id_map option" where
  "getExternalIDs allowEmptyKeys ids =
     (let m = fold (\<lambda>(k, v). AList.update k v) (di_ids ids)
                [(OwnerControllerKey, di_controller ids), (OwnerTypeKey, ot_owner (di_type ids))]
      in case getUniqueID ids of
           Some primaryID \<Rightarrow> Some (AList.update PrimaryIDKey primaryID m)
         | None \<Rightarrow> if allowEmptyKeys then Some m else None)"

definition GetExternalIDs :: "DbObjectIDs \<Rightarrow> id_map option" where
  "GetExternalIDs = getExternalIDs False"

datatype ids_error = WrongOwnerType | NoOwnerController

definition NewDbObjectIDsFromExternalIDs :: "ObjectIDsType \<Rightarrow> id_map \<Rightarrow> (ids_error + DbObjectIDs) option" where
  "NewDbObjectIDsFromExternalIDs t externalIDs =
     (if lookup_id externalIDs OwnerTypeKey \<noteq> ot_owner t then Some (Inl WrongOwnerType)
      else if lookup_id externalIDs OwnerControllerKey = [] then Some (Inl NoOwnerController)
      else map_option Inr (NewDbObjectIDs t (lookup_id externalIDs OwnerControllerKey) (filter (\<lambda>(key, _). HasKey t key) externalIDs)))"

definition GetNoOwnerPredicate :: "id_map \<Rightarrow> bool" where
  "GetNoOwnerPredicate externalIDs \<longleftrightarrow> lookup_id externalIDs OwnerControllerKey = []"

definition GetPredicate :: "DbObjectIDs \<Rightarrow> (id_map \<Rightarrow> bool) option \<Rightarrow> id_map \<Rightarrow> bool" where
  "GetPredicate ids f externalIDs =
     (let all = (case getExternalIDs True ids of None \<Rightarrow> [] | Some m \<Rightarrow> m);
          predicateIDs = (case map_of all PrimaryIDKey of None \<Rightarrow> all | Some primaryID \<Rightarrow> [(PrimaryIDKey, primaryID)])
      in list_all (\<lambda>(k, v). lookup_id externalIDs k = v) predicateIDs \<and> (case f of None \<Rightarrow> True | Some g \<Rightarrow> g externalIDs))"


section \<open>The registry\<close>

fun register_all :: "ObjectIDsType list \<Rightarrow> id_registry \<Rightarrow> id_registry option" where
  "register_all [] r = Some r"
| "register_all (t # ts) r =
     (case newObjectIDsType (ot_dbTable t) (ot_owner t) (ot_keys t) r of None \<Rightarrow> None | Some (_, r1) \<Rightarrow> register_all ts r1)"

text \<open>The package initializer registers all types without a panic, so a table and an owner determine the type.\<close>

lemma registration_succeeds: "register_all registered_types [] \<noteq> None"
  by code_simp

lemma register_all_distinct:
  "register_all ts r \<noteq> None \<Longrightarrow> distinct (map (\<lambda>t. (ot_dbTable t, ot_owner t)) ts) \<and> (\<forall>t \<in> set ts. (ot_dbTable t, ot_owner t) \<notin> set r)"
  by (induction ts arbitrary: r) (fastforce simp: newObjectIDsType_def split: if_splits)+

lemma registered_same:
  assumes "t \<in> set registered_types" "t2 \<in> set registered_types" "ot_dbTable t = ot_dbTable t2" "ot_owner t = ot_owner t2"
  shows "t = t2"
  using register_all_distinct [OF registration_succeeds] assms by (auto simp: distinct_map inj_on_def)

definition reserved_keys :: "string list" where
  "reserved_keys = [OwnerControllerKey, OwnerTypeKey, PrimaryIDKey]"

lemma registered_ok:
  assumes "t \<in> set registered_types"
  shows "ot_keys t \<noteq> []" "distinct (ot_keys t)" "set (ot_keys t) \<inter> set reserved_keys = {}" "CHR '':'' \<notin> set (ot_owner t)"
proof -
  have "list_all (\<lambda>t. ot_keys t \<noteq> [] \<and> distinct (ot_keys t) \<and> list_all (\<lambda>k. k \<notin> set reserved_keys) (ot_keys t) \<and> CHR '':'' \<notin> set (ot_owner t))
    registered_types" by code_simp
  then show "ot_keys t \<noteq> []" "distinct (ot_keys t)" "set (ot_keys t) \<inter> set reserved_keys = {}" "CHR '':'' \<notin> set (ot_owner t)"
    using assms by (auto simp: list_all_iff)
qed

section \<open>Primary ids\<close>

definition colon_join :: "string list \<Rightarrow> string" where
  "colon_join vs = concat (map (\<lambda>v. CHR '':'' # v) vs)"

lemma colon_front:
  "CHR '':'' \<notin> set x \<Longrightarrow> CHR '':'' \<notin> set y \<Longrightarrow> x @ CHR '':'' # r = y @ CHR '':'' # s \<Longrightarrow> x = y \<and> r = s"
  by (induction x arbitrary: y) (auto simp: Cons_eq_append_conv append_eq_Cons_conv)

lemma colon_back:
  assumes "CHR '':'' \<notin> set x" "CHR '':'' \<notin> set y" "r @ CHR '':'' # x = s @ CHR '':'' # y"
  shows "r = s \<and> x = y"
proof -
  have "rev x @ CHR '':'' # rev r = rev y @ CHR '':'' # rev s" using arg_cong [OF assms(3), of rev] by simp
  from colon_front [OF _ _ this] assms(1,2) show ?thesis by simp
qed

lemma colon_join_back:
  assumes "length vs = length ws" "\<forall>v \<in> set vs. CHR '':'' \<notin> set v" "\<forall>w \<in> set ws. CHR '':'' \<notin> set w" "a @ colon_join vs = b @ colon_join ws"
  shows "a = b \<and> vs = ws"
  using assms
proof (induction vs arbitrary: ws rule: rev_induct)
  case (snoc v vs)
  then obtain ws1 w where ws: "ws = ws1 @ [w]" by (cases ws rule: rev_cases) auto
  have "(a @ colon_join vs) @ CHR '':'' # v = (b @ colon_join ws1) @ CHR '':'' # w" using snoc.prems(4) by (simp add: colon_join_def ws)
  moreover have "CHR '':'' \<notin> set v" "CHR '':'' \<notin> set w" using snoc.prems(2,3) ws by simp_all
  ultimately have "a @ colon_join vs = b @ colon_join ws1 \<and> v = w" using colon_back by blast
  then show ?case using snoc.IH [of ws1] snoc.prems ws by simp
qed (simp add: colon_join_def)

lemma unique_id_loop_eq:
  "unique_id_loop m keys s = (if \<forall>k \<in> set keys. map_of m k \<noteq> None then Some (s @ colon_join (map (lookup_id m) keys)) else None)"
proof (induction keys arbitrary: s)
  case (Cons k keys)
  have join: "colon_join (v # vs) = CHR '':'' # v @ colon_join vs" for v vs by (simp add: colon_join_def)
  show ?case
  proof (cases "map_of m k")
    case (Some v)
    then have "lookup_id m k = v" by (simp add: lookup_id_def)
    then show ?thesis using Some by (simp add: Cons.IH join)
  qed simp
qed (simp add: colon_join_def)

definition db_ids_ok :: "DbObjectIDs \<Rightarrow> bool" where
  "db_ids_ok x \<longleftrightarrow> di_type x \<in> set registered_types \<and> di_controller x \<noteq> [] \<and> distinct (map fst (di_ids x))
     \<and> fst ` set (di_ids x) \<subseteq> set (ot_keys (di_type x))"

text \<open>Only the first id of an object, usually its name, may contain the separator.\<close>

definition separable :: "DbObjectIDs \<Rightarrow> bool" where
  "separable x \<longleftrightarrow> CHR '':'' \<notin> set (di_controller x)
     \<and> (\<forall>key \<in> set (tl (ot_keys (di_type x))). CHR '':'' \<notin> set (lookup_id (di_ids x) key))"

lemma GetUnsetKeys_Nil: "GetUnsetKeys x = [] \<longleftrightarrow> (\<forall>k \<in> set (ot_keys (di_type x)). map_of (di_ids x) k \<noteq> None)"
  by (auto simp: GetUnsetKeys_def filter_empty_conv)

lemma getUniqueID_eq:
  "getUniqueID x = (if GetUnsetKeys x = [] then Some (di_controller x @ '':'' @ ot_owner (di_type x) @ colon_join (map (lookup_id (di_ids x)) (ot_keys (di_type x)))) else None)"
  by (simp add: getUniqueID_def unique_id_loop_eq GetUnsetKeys_Nil)

lemma getUniqueID_inj:
  assumes ok: "db_ids_ok x" "db_ids_ok y" and sep: "separable x" "separable y" and same: "ot_dbTable (di_type x) = ot_dbTable (di_type y)"
    and u: "getUniqueID x = Some u" "getUniqueID y = Some u"
  shows "di_controller x = di_controller y \<and> di_type x = di_type y \<and> map_of (di_ids x) = map_of (di_ids y)"
proof -
  let ?t = "di_type x" and ?l = "lookup_id (di_ids x)" and ?r = "lookup_id (di_ids y)"
  have reg: "?t \<in> set registered_types" "di_type y \<in> set registered_types" using ok by (simp_all add: db_ids_ok_def)
  obtain k ks where ks: "ot_keys ?t = k # ks" using registered_ok(1) [OF reg(1)] by (cases "ot_keys ?t") auto
  obtain k2 ks2 where ks2: "ot_keys (di_type y) = k2 # ks2" using registered_ok(1) [OF reg(2)] by (cases "ot_keys (di_type y)") auto
  have full: "GetUnsetKeys x = []" "GetUnsetKeys y = []" using u by (auto simp: getUniqueID_eq split: if_splits)
  have "di_controller x @ CHR '':'' # (ot_owner ?t @ CHR '':'' # (?l k @ colon_join (map ?l ks))) =
      di_controller y @ CHR '':'' # (ot_owner (di_type y) @ CHR '':'' # (?r k2 @ colon_join (map ?r ks2)))"
    using u full by (simp add: getUniqueID_eq ks ks2 colon_join_def)
  from colon_front [OF _ _ this] have c: "di_controller x = di_controller y"
    and "ot_owner ?t @ CHR '':'' # (?l k @ colon_join (map ?l ks)) = ot_owner (di_type y) @ CHR '':'' # (?r k2 @ colon_join (map ?r ks2))"
    using sep by (auto simp: separable_def)
  from colon_front [OF _ _ this(2)] have o: "ot_owner ?t = ot_owner (di_type y)" and v: "?l k @ colon_join (map ?l ks) = ?r k2 @ colon_join (map ?r ks2)"
    using registered_ok(4) [OF reg(1)] registered_ok(4) [OF reg(2)] by auto
  have t: "?t = di_type y" by (rule registered_same [OF reg same o])
  then have k2: "k2 = k" "ks2 = ks" using ks ks2 by auto
  have "?l k = ?r k \<and> map ?l ks = map ?r ks"
    by (rule colon_join_back) (use sep v k2 ks t in \<open>auto simp: separable_def\<close>)
  then have eq: "lookup_id (di_ids x) j = lookup_id (di_ids y) j" if "j \<in> set (ot_keys ?t)" for j using that ks by auto
  have "map_of (di_ids x) j = map_of (di_ids y) j" for j
  proof (cases "j \<in> set (ot_keys ?t)")
    case True
    then obtain v w where "map_of (di_ids x) j = Some v" "map_of (di_ids y) j = Some w" using full t unfolding GetUnsetKeys_Nil by force
    then show ?thesis using eq [OF True] by (simp add: lookup_id_def)
  next
    case False
    then have "j \<notin> fst ` set (di_ids x)" "j \<notin> fst ` set (di_ids y)" using ok t by (auto simp: db_ids_ok_def)
    then show ?thesis by (simp add: map_of_eq_None_iff [symmetric])
  qed
  then show ?thesis using c t by auto
qed


section \<open>External ids\<close>

lemma map_of_fold_update:
  "distinct (map fst xs) \<Longrightarrow> map_of (fold (\<lambda>(k, v). AList.update k v) xs m) j = (case map_of xs j of None \<Rightarrow> map_of m j | Some v \<Rightarrow> Some v)"
proof (induction xs arbitrary: m)
  case (Cons x xs)
  obtain k v where x: "x = (k, v)" by fastforce
  have "map_of xs k = None" using Cons.prems x by (simp add: map_of_eq_None_iff)
  then show ?case using Cons x by (simp add: update_conv' split: option.split)
qed simp

lemma distinct_fold_update: "distinct (map fst m) \<Longrightarrow> distinct (map fst (fold (\<lambda>(k, v). AList.update k v) xs m))"
  by (induction xs arbitrary: m) (auto simp: distinct_update)

lemma keys_distinct: "distinct [OwnerControllerKey, OwnerTypeKey, PrimaryIDKey]"
  by code_simp

lemma ids_reserved:
  assumes "db_ids_ok x" "k \<in> set reserved_keys"
  shows "map_of (di_ids x) k = None"
proof -
  have "k \<notin> set (ot_keys (di_type x))" using registered_ok(3) assms unfolding db_ids_ok_def by blast
  then show ?thesis using assms(1) unfolding db_ids_ok_def map_of_eq_None_iff by blast
qed

lemma external_ids:
  assumes "db_ids_ok x" "getExternalIDs b x = Some m"
  shows "map_of m k = (if k = OwnerControllerKey then Some (di_controller x) else if k = OwnerTypeKey then Some (ot_owner (di_type x))
      else if k = PrimaryIDKey then getUniqueID x else map_of (di_ids x) k)" (is ?lookup)
    and "distinct (map fst m)"
proof -
  let ?base = "fold (\<lambda>(k, v). AList.update k v) (di_ids x) [(OwnerControllerKey, di_controller x), (OwnerTypeKey, ot_owner (di_type x))]"
  have d: "distinct (map fst (di_ids x))" using assms(1) by (simp add: db_ids_ok_def)
  have b: "map_of ?base k = (case map_of (di_ids x) k of None \<Rightarrow> map_of [(OwnerControllerKey, di_controller x), (OwnerTypeKey, ot_owner (di_type x))] k | Some v \<Rightarrow> Some v)" for k
    by (rule map_of_fold_update [OF d])
  have r: "map_of (di_ids x) OwnerControllerKey = None" "map_of (di_ids x) OwnerTypeKey = None" "map_of (di_ids x) PrimaryIDKey = None"
    using ids_reserved [OF assms(1)] by (simp_all add: reserved_keys_def)
  have db: "distinct (map fst ?base)" by (rule distinct_fold_update) (use keys_distinct in simp)
  consider p where "getUniqueID x = Some p" "m = AList.update PrimaryIDKey p ?base" | "getUniqueID x = None" "m = ?base"
    using assms(2) by (auto simp: getExternalIDs_def Let_def split: option.splits if_splits)
  then have "?lookup \<and> distinct (map fst m)"
  proof cases
    case 1
    then show ?thesis using b r keys_distinct db by (auto simp: update_conv' distinct_update split: option.split)
  next
    case 2
    then show ?thesis using b r keys_distinct db by (auto split: option.split)
  qed
  then show ?lookup "distinct (map fst m)" by simp_all
qed

lemma map_of_filter_keys: "map_of (filter (\<lambda>(key, _). P key) m) k = (if P k then map_of m k else None)"
  by (induction m) auto

text \<open>C37: The external ids of a database object identify it: reading them back gives the owner and all ids of the object
  again, with the same primary id.\<close>

theorem external_ids_roundtrip:
  assumes "db_ids_ok x" "GetUnsetKeys x = []"
  shows "\<exists>m y. GetExternalIDs x = Some m \<and> NewDbObjectIDsFromExternalIDs (di_type x) m = Some (Inr y)
    \<and> di_type y = di_type x \<and> di_controller y = di_controller x \<and> map_of (di_ids y) = map_of (di_ids x) \<and> getUniqueID y = getUniqueID x"
proof -
  obtain m where m: "getExternalIDs False x = Some m" using assms(2) by (simp add: getExternalIDs_def getUniqueID_eq Let_def)
  note e = external_ids(1) [OF assms(1) m]
  have l: "lookup_id m OwnerTypeKey = ot_owner (di_type x)" "lookup_id m OwnerControllerKey = di_controller x"
    using keys_distinct by (auto simp: lookup_id_def e)
  have reg: "di_type x \<in> set registered_types" "di_controller x \<noteq> []" using assms(1) by (simp_all add: db_ids_ok_def)
  define y where "y = \<lparr>di_type = di_type x, di_controller = di_controller x, di_ids = filter (\<lambda>(key, _). HasKey (di_type x) key) m\<rparr>"
  have "NewDbObjectIDs (di_type x) (di_controller x) (filter (\<lambda>(key, _). HasKey (di_type x) key) m) = Some y"
    using registered_ok(1) [OF reg(1)] reg(2) by (auto simp: NewDbObjectIDs_def y_def list_all_iff)
  then have n: "NewDbObjectIDsFromExternalIDs (di_type x) m = Some (Inr y)" using l reg(2) by (simp add: NewDbObjectIDsFromExternalIDs_def)
  have k: "map_of (di_ids y) k = map_of (di_ids x) k" for k
  proof (cases "HasKey (di_type x) k")
    case True
    then have "k \<notin> set reserved_keys" using registered_ok(3) [OF reg(1)] by (auto simp: HasKey_def)
    then show ?thesis using True e by (simp add: y_def map_of_filter_keys reserved_keys_def)
  next
    case False
    then have "map_of (di_ids x) k = None" using assms(1) by (auto simp: db_ids_ok_def HasKey_def map_of_eq_None_iff)
    then show ?thesis using False by (simp add: y_def map_of_filter_keys)
  qed
  then have "lookup_id (di_ids y) = lookup_id (di_ids x)" "GetUnsetKeys y = GetUnsetKeys x"
    by (auto simp: lookup_id_def GetUnsetKeys_def y_def)
  then have "getUniqueID y = getUniqueID x" by (simp add: getUniqueID_eq) (simp add: y_def)
  then show ?thesis using m n k by (auto simp: GetExternalIDs_def y_def)
qed

definition example_ids :: DbObjectIDs where
  "example_ids = \<lparr>di_type = ACLNetworkPolicy, di_controller = ''default-network-controller'', di_ids =
     [(ObjectNameKey, ''ns:np''), (PolicyDirectionKey, ''Ingress''), (GressIdxKey, ''0''), (IpBlockIndexKey, ''-1''), (PortPolicyProtocolKey, ''None'')]\<rparr>"

lemma example_ids_ok: "db_ids_ok example_ids" "GetUnsetKeys example_ids = []" "separable example_ids"
  by (simp_all add: db_ids_ok_def separable_def GetUnsetKeys_def lookup_id_def example_ids_def ACLNetworkPolicy_def registered_types_def id_keys)

theorem external_ids_roundtrip_witness:
  "\<exists>m y. GetExternalIDs example_ids = Some m \<and> NewDbObjectIDsFromExternalIDs (di_type example_ids) m = Some (Inr y)
    \<and> di_type y = di_type example_ids \<and> di_controller y = di_controller example_ids \<and> map_of (di_ids y) = map_of (di_ids example_ids)
    \<and> getUniqueID y = getUniqueID example_ids"
  by (rule external_ids_roundtrip [OF example_ids_ok(1,2)])

text \<open>A predicate with all ids compares primary ids, one that leaves ids open compares the ids that it sets.\<close>

definition covers :: "DbObjectIDs \<Rightarrow> DbObjectIDs \<Rightarrow> bool" where
  "covers x y \<longleftrightarrow> di_controller x = di_controller y \<and> di_type x = di_type y
     \<and> (\<forall>k v. map_of (di_ids x) k = Some v \<longrightarrow> map_of (di_ids y) k = Some v)"

lemma predicate_complete:
  assumes ok: "db_ids_ok x" "db_ids_ok y" and sep: "separable x" "separable y" and same: "ot_dbTable (di_type x) = ot_dbTable (di_type y)"
    and u: "getUniqueID x = Some ux" "getUniqueID y = Some uy"
  shows "ux = uy \<longleftrightarrow> covers x y"
proof
  assume "ux = uy"
  then show "covers x y" using getUniqueID_inj [OF ok sep same] u by (simp add: covers_def)
next
  assume a: "covers x y"
  have set: "\<forall>k \<in> set (ot_keys (di_type x)). map_of (di_ids x) k \<noteq> None" using u(1) by (auto simp: getUniqueID_eq GetUnsetKeys_Nil split: if_splits)
  have "lookup_id (di_ids x) k = lookup_id (di_ids y) k" if "k \<in> set (ot_keys (di_type x))" for k
    using a set that unfolding covers_def by (fastforce simp: lookup_id_def)
  then have "map (lookup_id (di_ids x)) (ot_keys (di_type x)) = map (lookup_id (di_ids y)) (ot_keys (di_type x))" by simp
  then have "Some ux = Some uy" using u a unfolding getUniqueID_eq covers_def by (metis option.distinct(1))
  then show "ux = uy" by simp
qed

lemma predicate_partial:
  assumes ok: "db_ids_ok x" "db_ids_ok y" and p: "getExternalIDs True x = Some p" and m: "getExternalIDs False y = Some m" and "getUniqueID x = None"
  shows "(\<forall>k v. map_of p k = Some v \<longrightarrow> lookup_id m k = v) \<longleftrightarrow> di_controller x = di_controller y \<and> ot_owner (di_type x) = ot_owner (di_type y)
      \<and> (\<forall>k v. map_of (di_ids x) k = Some v \<longrightarrow> lookup_id (di_ids y) k = v)" (is "?all \<longleftrightarrow> ?each")
proof
  note ex = external_ids(1) [OF ok(1) p] and ey = external_ids(1) [OF ok(2) m]
  have k: "OwnerControllerKey \<noteq> OwnerTypeKey" "OwnerTypeKey \<noteq> OwnerControllerKey" using keys_distinct by auto
  {
    assume all: ?all
    have "lookup_id m OwnerControllerKey = di_controller x" "lookup_id m OwnerTypeKey = ot_owner (di_type x)"
      using all ex k by auto
    then have "di_controller x = di_controller y" "ot_owner (di_type x) = ot_owner (di_type y)" using ey k by (auto simp: lookup_id_def)
    moreover have "lookup_id (di_ids y) k = v" if kv: "map_of (di_ids x) k = Some v" for k v
    proof -
      have "k \<notin> set reserved_keys" using ids_reserved [OF ok(1)] kv by force
      then have "map_of p k = Some v" "map_of m k = map_of (di_ids y) k" using ex [of k] ey [of k] kv by (simp_all add: reserved_keys_def)
      then show ?thesis using all by (metis lookup_id_def)
    qed
    ultimately show ?each by blast
  next
    assume each: ?each
    show ?all
    proof (intro allI impI)
      fix k v assume "map_of p k = Some v"
      then show "lookup_id m k = v" using ex ey each assms(5) keys_distinct by (auto simp: lookup_id_def split: if_splits)
    qed
  }
qed


definition example_pattern :: DbObjectIDs where
  "example_pattern = \<lparr>di_type = ACLNetworkPolicy, di_controller = ''default-network-controller'', di_ids = [(ObjectNameKey, ''ns:np'')]\<rparr>"

lemma example_pattern_ok: "db_ids_ok example_pattern" "separable example_pattern"
  by (simp_all add: db_ids_ok_def separable_def lookup_id_def example_pattern_def ACLNetworkPolicy_def registered_types_def id_keys)


end
