(* ===== verification/Nb_Client.thy ===== *)
theory Nb_Client
  imports Db_Objects
begin

text \<open>
  The client of the northbound database as the policy code uses it: the model client that turns operation models into
  operations (\<open>pkg/libovsdb/ops/model_client.go\<close>), the operations on address sets, port groups and ACLs
  (\<open>address_set.go\<close>, \<open>portgroup.go\<close>, \<open>acl.go\<close>) and the transaction (\<open>transact.go\<close>).

  The cache of the client is the database itself. A row stands for its UUID: a port group refers to its ACLs by their
  primary id. Whether the server commits a transaction and in which order Go walks a set are arguments (\<open>nb_answers\<close>).
\<close>

section \<open>Rows\<close>

record AddressSetRow =
  as_Name :: string
  as_ExternalIDs :: id_map
  as_Addresses :: "string list"

record PortGroupRow =
  pg_Name :: string
  pg_ExternalIDs :: id_map
  pg_Ports :: "string list"
  pg_ACLs :: "string list"

record ACL =
  acl_Name :: "string option"
  acl_Direction :: string
  acl_Priority :: int
  acl_Match :: string
  acl_Action :: string
  acl_Meter :: "string option"
  acl_Severity :: "string option"
  acl_Log :: bool
  acl_ExternalIDs :: id_map
  acl_Options :: id_map
  acl_Tier :: int

definition acl_id :: "ACL \<Rightarrow> string" where
  "acl_id a = lookup_id (acl_ExternalIDs a) PrimaryIDKey"

record nb_db =
  nb_AddressSets :: "AddressSetRow list"
  nb_PortGroups :: "PortGroupRow list"
  nb_ACLs :: "ACL list"

section \<open>The model client\<close>

datatype nb_error = NotFound | MultipleResults | MissingIndex | EmptyValue | BadIDs | TransactFailed | ListFailed | NoIDs

record ('r, 'o) operationModel =
  om_lookup :: "'r list \<Rightarrow> nb_error + 'r list"
  om_whenFound :: "'r \<Rightarrow> nb_error + 'o list"
  om_whenNotFound :: "(nb_error + 'o list) option"
  om_ErrNotFound :: bool
  om_BulkOp :: bool

fun found_ops :: "('r \<Rightarrow> nb_error + 'o list) \<Rightarrow> bool \<Rightarrow> bool \<Rightarrow> 'r list \<Rightarrow> nb_error + 'o list" where
  "found_ops f bulk had [] = Inr []"
| "found_ops f bulk had (r # rs) =
     (if had \<and> \<not> bulk then Inl MultipleResults
      else case f r of
          Inl e \<Rightarrow> Inl e
        | Inr o1 \<Rightarrow> (case found_ops f bulk True rs of Inl e \<Rightarrow> Inl e | Inr o2 \<Rightarrow> Inr (o1 @ o2)))"

fun buildOps :: "'o list \<Rightarrow> ('r, 'o) operationModel list \<Rightarrow> 'r list \<Rightarrow> nb_error + 'o list" where
  "buildOps ops [] rows = Inr ops"
| "buildOps ops (m # ms) rows =
     (case om_lookup m rows of
        Inl e \<Rightarrow> Inl e
      | Inr existing \<Rightarrow>
          (case found_ops (om_whenFound m) (om_BulkOp m) False existing of
             Inl e \<Rightarrow> Inl e
           | Inr o1 \<Rightarrow>
               if existing \<noteq> [] then buildOps (ops @ o1) ms rows
               else if om_ErrNotFound m then Inl NotFound
               else case om_whenNotFound m of
                   None \<Rightarrow> buildOps ops ms rows
                 | Some (Inl e) \<Rightarrow> Inl e
                 | Some (Inr o2) \<Rightarrow> buildOps (ops @ o2) ms rows))"

text \<open>A model without index can only be created.\<close>

definition by_index :: "bool \<Rightarrow> ('r \<Rightarrow> string) \<Rightarrow> string \<Rightarrow> 'r list \<Rightarrow> nb_error + 'r list" where
  "by_index lookupRequired index nm rows =
     (if nm = [] then if lookupRequired then Inl MissingIndex else Inr [] else Inr (filter (\<lambda>r. index r = nm) rows))"

section \<open>Operations and transactions\<close>

datatype nb_op =
    AsInsert AddressSetRow
  | AsUpdate string "string list option" "id_map option"
  | AsAddAddresses string "string list"
  | AsDelAddresses string "string list"
  | AsDelete string
  | PgInsert PortGroupRow
  | PgUpdate PortGroupRow
  | PgAddPorts string "string list"
  | PgDelPorts string "string list"
  | PgAddACLs string "string list"
  | PgDelACLs string "string list"
  | PgSetACLs string "string list"
  | PgDelete string
  | AclInsert ACL
  | AclUpdate ACL
  | AclLogging string "string option" bool

definition set_add :: "string list \<Rightarrow> string list \<Rightarrow> string list" where
  "set_add new old = old @ filter (\<lambda>x. x \<notin> set old) new"

definition on_row :: "('r \<Rightarrow> string) \<Rightarrow> string \<Rightarrow> ('r \<Rightarrow> 'r) \<Rightarrow> 'r list \<Rightarrow> 'r list" where
  "on_row index nm f rows = map (\<lambda>r. if index r = nm then f r else r) rows"

definition on_as :: "string \<Rightarrow> (AddressSetRow \<Rightarrow> AddressSetRow) \<Rightarrow> nb_db \<Rightarrow> nb_db" where
  "on_as nm f db = db\<lparr>nb_AddressSets := on_row as_Name nm f (nb_AddressSets db)\<rparr>"

definition on_pg :: "string \<Rightarrow> (PortGroupRow \<Rightarrow> PortGroupRow) \<Rightarrow> nb_db \<Rightarrow> nb_db" where
  "on_pg nm f db = db\<lparr>nb_PortGroups := on_row pg_Name nm f (nb_PortGroups db)\<rparr>"

definition on_acl :: "string \<Rightarrow> (ACL \<Rightarrow> ACL) \<Rightarrow> nb_db \<Rightarrow> nb_db" where
  "on_acl nm f db = db\<lparr>nb_ACLs := on_row acl_id nm f (nb_ACLs db)\<rparr>"

fun apply_nb_op :: "nb_op \<Rightarrow> nb_db \<Rightarrow> nb_db" where
  "apply_nb_op (AsInsert r) db = db\<lparr>nb_AddressSets := nb_AddressSets db @ [r]\<rparr>"
| "apply_nb_op (AsUpdate nm addrs ids) db =
     on_as nm (\<lambda>r. r\<lparr>as_Addresses := (case addrs of None \<Rightarrow> as_Addresses r | Some xs \<Rightarrow> xs),
                     as_ExternalIDs := (case ids of None \<Rightarrow> as_ExternalIDs r | Some m \<Rightarrow> m)\<rparr>) db"
| "apply_nb_op (AsAddAddresses nm xs) db = on_as nm (\<lambda>r. r\<lparr>as_Addresses := set_add xs (as_Addresses r)\<rparr>) db"
| "apply_nb_op (AsDelAddresses nm xs) db = on_as nm (\<lambda>r. r\<lparr>as_Addresses := filter (\<lambda>x. x \<notin> set xs) (as_Addresses r)\<rparr>) db"
| "apply_nb_op (AsDelete nm) db = db\<lparr>nb_AddressSets := filter (\<lambda>r. as_Name r \<noteq> nm) (nb_AddressSets db)\<rparr>"
| "apply_nb_op (PgInsert r) db = db\<lparr>nb_PortGroups := nb_PortGroups db @ [r]\<rparr>"
| "apply_nb_op (PgUpdate r) db = on_pg (pg_Name r) (\<lambda>_. r) db"
| "apply_nb_op (PgAddPorts nm xs) db = on_pg nm (\<lambda>r. r\<lparr>pg_Ports := set_add xs (pg_Ports r)\<rparr>) db"
| "apply_nb_op (PgDelPorts nm xs) db = on_pg nm (\<lambda>r. r\<lparr>pg_Ports := filter (\<lambda>x. x \<notin> set xs) (pg_Ports r)\<rparr>) db"
| "apply_nb_op (PgAddACLs nm xs) db = on_pg nm (\<lambda>r. r\<lparr>pg_ACLs := set_add xs (pg_ACLs r)\<rparr>) db"
| "apply_nb_op (PgDelACLs nm xs) db = on_pg nm (\<lambda>r. r\<lparr>pg_ACLs := filter (\<lambda>x. x \<notin> set xs) (pg_ACLs r)\<rparr>) db"
| "apply_nb_op (PgSetACLs nm xs) db = on_pg nm (\<lambda>r. r\<lparr>pg_ACLs := xs\<rparr>) db"
| "apply_nb_op (PgDelete nm) db = db\<lparr>nb_PortGroups := filter (\<lambda>r. pg_Name r \<noteq> nm) (nb_PortGroups db)\<rparr>"
| "apply_nb_op (AclInsert a) db = db\<lparr>nb_ACLs := nb_ACLs db @ [a]\<rparr>"
| "apply_nb_op (AclUpdate a) db = on_acl (acl_id a) (\<lambda>_. a) db"
| "apply_nb_op (AclLogging nm severity log) db = on_acl nm (\<lambda>a. a\<lparr>acl_Severity := severity, acl_Log := log\<rparr>) db"

record nb_answers =
  na_commits :: "nb_op list \<Rightarrow> bool"
  na_lists :: bool
  na_setOrder :: "string list \<Rightarrow> string list"

definition TransactAndCheck :: "nb_answers \<Rightarrow> nb_op list \<Rightarrow> nb_db \<Rightarrow> bool \<times> nb_db" where
  "TransactAndCheck w ops db = (if ops = [] then (True, db) else if na_commits w ops then (True, fold apply_nb_op ops db) else (False, db))"

text \<open>Inserting an empty value into a set is refused.\<close>

definition insert_mutation :: "(string \<Rightarrow> string list \<Rightarrow> nb_op) \<Rightarrow> string list \<Rightarrow> string \<Rightarrow> nb_error + nb_op list" where
  "insert_mutation mk xs nm = (if xs = [] then Inr [] else if [] \<in> set xs then Inl EmptyValue else Inr [mk nm xs])"

definition delete_mutation :: "(string \<Rightarrow> string list \<Rightarrow> nb_op) \<Rightarrow> string list \<Rightarrow> string \<Rightarrow> nb_error + nb_op list" where
  "delete_mutation mk xs nm = (if xs = [] then Inr [] else Inr [mk nm xs])"

section \<open>Address sets\<close>

definition FindAddressSetsWithPredicate :: "nb_answers \<Rightarrow> (AddressSetRow \<Rightarrow> bool) \<Rightarrow> nb_db \<Rightarrow> nb_error + AddressSetRow list" where
  "FindAddressSetsWithPredicate w p db = (if na_lists w then Inr (filter p (nb_AddressSets db)) else Inl ListFailed)"

definition GetAddressSetRow :: "string \<Rightarrow> nb_db \<Rightarrow> nb_error + AddressSetRow" where
  "GetAddressSetRow nm db =
     (case by_index True as_Name nm (nb_AddressSets db) of
        Inl e \<Rightarrow> Inl e
      | Inr [] \<Rightarrow> Inl NotFound
      | Inr [r] \<Rightarrow> Inr r
      | Inr (_ # _ # _) \<Rightarrow> Inl MultipleResults)"

definition CreateAddressSetsOps :: "nb_op list \<Rightarrow> AddressSetRow list \<Rightarrow> nb_db \<Rightarrow> nb_error + nb_op list" where
  "CreateAddressSetsOps ops addrSets db =
     buildOps ops (map (\<lambda>r. \<lparr>om_lookup = by_index False as_Name (as_Name r), om_whenFound = (\<lambda>_. Inr []),
       om_whenNotFound = Some (Inr [AsInsert r]), om_ErrNotFound = False, om_BulkOp = False\<rparr>) addrSets) (nb_AddressSets db)"

text \<open>A field that is nil is not updated; the address sets of the callers have both fields set.\<close>

definition CreateOrUpdateAddressSetsOps :: "nb_op list \<Rightarrow> AddressSetRow list \<Rightarrow> nb_db \<Rightarrow> nb_error + nb_op list" where
  "CreateOrUpdateAddressSetsOps ops addrSets db =
     buildOps ops (map (\<lambda>r. \<lparr>om_lookup = by_index False as_Name (as_Name r),
       om_whenFound = (\<lambda>x. Inr [AsUpdate (as_Name x) (Some (as_Addresses r)) (Some (as_ExternalIDs r))]),
       om_whenNotFound = Some (Inr [AsInsert r]), om_ErrNotFound = False, om_BulkOp = False\<rparr>) addrSets) (nb_AddressSets db)"

definition AddIPsToAddressSetOps :: "nb_op list \<Rightarrow> string \<Rightarrow> string list \<Rightarrow> nb_db \<Rightarrow> nb_error + nb_op list" where
  "AddIPsToAddressSetOps ops nm ips db =
     buildOps ops [\<lparr>om_lookup = by_index True as_Name nm, om_whenFound = (\<lambda>x. insert_mutation AsAddAddresses ips (as_Name x)),
       om_whenNotFound = None, om_ErrNotFound = True, om_BulkOp = False\<rparr>] (nb_AddressSets db)"

definition DeleteIPsFromAddressSetOps :: "nb_op list \<Rightarrow> string \<Rightarrow> string list \<Rightarrow> nb_db \<Rightarrow> nb_error + nb_op list" where
  "DeleteIPsFromAddressSetOps ops nm ips db =
     buildOps ops [\<lparr>om_lookup = by_index True as_Name nm, om_whenFound = (\<lambda>x. delete_mutation AsDelAddresses ips (as_Name x)),
       om_whenNotFound = None, om_ErrNotFound = True, om_BulkOp = False\<rparr>] (nb_AddressSets db)"

definition DeleteAddressSetsOps :: "nb_op list \<Rightarrow> string list \<Rightarrow> nb_db \<Rightarrow> nb_error + nb_op list" where
  "DeleteAddressSetsOps ops names db =
     buildOps ops (map (\<lambda>nm. \<lparr>om_lookup = by_index False as_Name nm, om_whenFound = (\<lambda>x. Inr [AsDelete (as_Name x)]),
       om_whenNotFound = None, om_ErrNotFound = False, om_BulkOp = False\<rparr>) names) (nb_AddressSets db)"

definition nb_transact :: "nb_answers \<Rightarrow> nb_error + nb_op list \<Rightarrow> nb_db \<Rightarrow> nb_error option \<times> nb_db" where
  "nb_transact w r db =
     (case r of
        Inl e \<Rightarrow> (Some e, db)
      | Inr ops \<Rightarrow> (case TransactAndCheck w ops db of (True, db1) \<Rightarrow> (None, db1) | (False, db1) \<Rightarrow> (Some TransactFailed, db1)))"

definition CreateAddressSets :: "nb_answers \<Rightarrow> AddressSetRow list \<Rightarrow> nb_db \<Rightarrow> nb_error option \<times> nb_db" where
  "CreateAddressSets w addrSets db = nb_transact w (CreateAddressSetsOps [] addrSets db) db"

definition CreateOrUpdateAddressSets :: "nb_answers \<Rightarrow> AddressSetRow list \<Rightarrow> nb_db \<Rightarrow> nb_error option \<times> nb_db" where
  "CreateOrUpdateAddressSets w addrSets db = nb_transact w (CreateOrUpdateAddressSetsOps [] addrSets db) db"

text \<open>An address set is given by its name and its new addresses.\<close>

definition UpdateAddressSetsIPs :: "nb_answers \<Rightarrow> (string \<times> string list) list \<Rightarrow> nb_db \<Rightarrow> nb_error option \<times> nb_db" where
  "UpdateAddressSetsIPs w addrSets db =
     nb_transact w (buildOps [] (map (\<lambda>(nm, addrs). \<lparr>om_lookup = by_index True as_Name nm,
         om_whenFound = (\<lambda>x. Inr [AsUpdate (as_Name x) (Some addrs) None]), om_whenNotFound = None, om_ErrNotFound = True, om_BulkOp = False\<rparr>) addrSets)
       (nb_AddressSets db)) db"

definition DeleteAddressSets :: "nb_answers \<Rightarrow> string list \<Rightarrow> nb_db \<Rightarrow> nb_error option \<times> nb_db" where
  "DeleteAddressSets w names db = nb_transact w (DeleteAddressSetsOps [] names db) db"

definition DeleteAddressSetsWithPredicateOps :: "nb_answers \<Rightarrow> nb_op list \<Rightarrow> (AddressSetRow \<Rightarrow> bool) \<Rightarrow> nb_db \<Rightarrow> nb_error + nb_op list" where
  "DeleteAddressSetsWithPredicateOps w ops p db =
     buildOps ops [\<lparr>om_lookup = (\<lambda>_. FindAddressSetsWithPredicate w p db), om_whenFound = (\<lambda>x. Inr [AsDelete (as_Name x)]),
       om_whenNotFound = None, om_ErrNotFound = False, om_BulkOp = True\<rparr>] (nb_AddressSets db)"

text \<open>An error of the first step is dropped.\<close>

definition DeleteAddressSetsWithPredicate :: "nb_answers \<Rightarrow> (AddressSetRow \<Rightarrow> bool) \<Rightarrow> nb_db \<Rightarrow> nb_error option \<times> nb_db" where
  "DeleteAddressSetsWithPredicate w p db =
     (case DeleteAddressSetsWithPredicateOps w [] p db of Inl e \<Rightarrow> (None, db) | Inr ops \<Rightarrow> nb_transact w (Inr ops) db)"

section \<open>Port groups\<close>

definition FindPortGroupsWithPredicate :: "nb_answers \<Rightarrow> (PortGroupRow \<Rightarrow> bool) \<Rightarrow> nb_db \<Rightarrow> nb_error + PortGroupRow list" where
  "FindPortGroupsWithPredicate w p db = (if na_lists w then Inr (filter p (nb_PortGroups db)) else Inl ListFailed)"

definition BuildPortGroup :: "string \<Rightarrow> string list \<Rightarrow> ACL list \<Rightarrow> id_map \<Rightarrow> PortGroupRow" where
  "BuildPortGroup hashName ports acls externalIds =
     \<lparr>pg_Name = hashName, pg_ExternalIDs = externalIds, pg_Ports = ports, pg_ACLs = map acl_id acls\<rparr>"

definition CreateOrUpdatePortGroupsOps :: "nb_op list \<Rightarrow> PortGroupRow list \<Rightarrow> nb_db \<Rightarrow> nb_error + nb_op list" where
  "CreateOrUpdatePortGroupsOps ops pgs db =
     buildOps ops (map (\<lambda>pg. \<lparr>om_lookup = by_index False pg_Name (pg_Name pg), om_whenFound = (\<lambda>_. Inr [PgUpdate pg]),
       om_whenNotFound = Some (Inr [PgInsert pg]), om_ErrNotFound = False, om_BulkOp = False\<rparr>) pgs) (nb_PortGroups db)"

definition CreateOrUpdatePortGroups :: "nb_answers \<Rightarrow> PortGroupRow list \<Rightarrow> nb_db \<Rightarrow> nb_error option \<times> nb_db" where
  "CreateOrUpdatePortGroups w pgs db = nb_transact w (CreateOrUpdatePortGroupsOps [] pgs db) db"

definition GetPortGroup :: "string \<Rightarrow> nb_db \<Rightarrow> nb_error + PortGroupRow" where
  "GetPortGroup nm db =
     (case by_index True pg_Name nm (nb_PortGroups db) of
        Inl e \<Rightarrow> Inl e
      | Inr [] \<Rightarrow> Inl NotFound
      | Inr [r] \<Rightarrow> Inr r
      | Inr (_ # _ # _) \<Rightarrow> Inl MultipleResults)"

text \<open>The mutations of one port group share their shape.\<close>

definition pg_mutation :: "(string \<Rightarrow> nb_error + nb_op list) \<Rightarrow> nb_op list \<Rightarrow> string \<Rightarrow> nb_db \<Rightarrow> nb_error + nb_op list" where
  "pg_mutation mutate ops nm db =
     buildOps ops [\<lparr>om_lookup = by_index True pg_Name nm, om_whenFound = (\<lambda>x. mutate (pg_Name x)), om_whenNotFound = None,
       om_ErrNotFound = True, om_BulkOp = False\<rparr>] (nb_PortGroups db)"

definition AddPortsToPortGroupOps :: "nb_op list \<Rightarrow> string \<Rightarrow> string list \<Rightarrow> nb_db \<Rightarrow> nb_error + nb_op list" where
  "AddPortsToPortGroupOps ops nm ports db = (if ports = [] then Inr ops else pg_mutation (insert_mutation PgAddPorts ports) ops nm db)"

definition DeletePortsFromPortGroupOps :: "nb_op list \<Rightarrow> string \<Rightarrow> string list \<Rightarrow> nb_db \<Rightarrow> nb_error + nb_op list" where
  "DeletePortsFromPortGroupOps ops nm ports db = (if ports = [] then Inr ops else pg_mutation (delete_mutation PgDelPorts ports) ops nm db)"

definition AddPortsToPortGroup :: "nb_answers \<Rightarrow> string \<Rightarrow> string list \<Rightarrow> nb_db \<Rightarrow> nb_error option \<times> nb_db" where
  "AddPortsToPortGroup w nm ports db = nb_transact w (AddPortsToPortGroupOps [] nm ports db) db"

definition DeletePortsFromPortGroup :: "nb_answers \<Rightarrow> string \<Rightarrow> string list \<Rightarrow> nb_db \<Rightarrow> nb_error option \<times> nb_db" where
  "DeletePortsFromPortGroup w nm ports db = nb_transact w (DeletePortsFromPortGroupOps [] nm ports db) db"

definition AddACLsToPortGroupOps :: "nb_op list \<Rightarrow> string \<Rightarrow> ACL list \<Rightarrow> nb_db \<Rightarrow> nb_error + nb_op list" where
  "AddACLsToPortGroupOps ops nm acls db = (if acls = [] then Inr ops else pg_mutation (insert_mutation PgAddACLs (map acl_id acls)) ops nm db)"

definition DeleteACLsFromPortGroupOps :: "nb_op list \<Rightarrow> string \<Rightarrow> ACL list \<Rightarrow> nb_db \<Rightarrow> nb_error + nb_op list" where
  "DeleteACLsFromPortGroupOps ops nm acls db = (if acls = [] then Inr ops else pg_mutation (delete_mutation PgDelACLs (map acl_id acls)) ops nm db)"

definition UpdatePortGroupSetACLsOps :: "nb_op list \<Rightarrow> string \<Rightarrow> ACL list \<Rightarrow> nb_db \<Rightarrow> nb_error + nb_op list" where
  "UpdatePortGroupSetACLsOps ops nm acls db = pg_mutation (\<lambda>x. Inr [PgSetACLs x (map acl_id acls)]) ops nm db"

fun DeleteACLsFromPortGroups_loop :: "nb_op list \<Rightarrow> string list \<Rightarrow> ACL list \<Rightarrow> nb_db \<Rightarrow> nb_error + nb_op list" where
  "DeleteACLsFromPortGroups_loop ops [] acls db = Inr ops"
| "DeleteACLsFromPortGroups_loop ops (pgName # names) acls db =
     (case DeleteACLsFromPortGroupOps ops pgName acls db of Inl e \<Rightarrow> Inl e | Inr ops1 \<Rightarrow> DeleteACLsFromPortGroups_loop ops1 names acls db)"

definition DeleteACLsFromPortGroups :: "nb_answers \<Rightarrow> string list \<Rightarrow> ACL list \<Rightarrow> nb_db \<Rightarrow> nb_error option \<times> nb_db" where
  "DeleteACLsFromPortGroups w names acls db = nb_transact w (DeleteACLsFromPortGroups_loop [] names acls db) db"

definition DeletePortGroupsOps :: "nb_op list \<Rightarrow> string list \<Rightarrow> nb_db \<Rightarrow> nb_error + nb_op list" where
  "DeletePortGroupsOps ops names db =
     buildOps ops (map (\<lambda>nm. \<lparr>om_lookup = by_index False pg_Name nm, om_whenFound = (\<lambda>x. Inr [PgDelete (pg_Name x)]),
       om_whenNotFound = None, om_ErrNotFound = False, om_BulkOp = False\<rparr>) names) (nb_PortGroups db)"

definition DeletePortGroups :: "nb_answers \<Rightarrow> string list \<Rightarrow> nb_db \<Rightarrow> nb_error option \<times> nb_db" where
  "DeletePortGroups w names db = nb_transact w (DeletePortGroupsOps [] names db) db"

definition DeletePortGroupsWithPredicateOps :: "nb_answers \<Rightarrow> nb_op list \<Rightarrow> (PortGroupRow \<Rightarrow> bool) \<Rightarrow> nb_db \<Rightarrow> nb_error + nb_op list" where
  "DeletePortGroupsWithPredicateOps w ops p db =
     buildOps ops [\<lparr>om_lookup = (\<lambda>_. FindPortGroupsWithPredicate w p db), om_whenFound = (\<lambda>x. Inr [PgDelete (pg_Name x)]),
       om_whenNotFound = None, om_ErrNotFound = False, om_BulkOp = True\<rparr>] (nb_PortGroups db)"

definition DeletePortGroupsWithPredicate :: "nb_answers \<Rightarrow> (PortGroupRow \<Rightarrow> bool) \<Rightarrow> nb_db \<Rightarrow> nb_error option \<times> nb_db" where
  "DeletePortGroupsWithPredicate w p db = nb_transact w (DeletePortGroupsWithPredicateOps w [] p db) db"

section \<open>ACLs\<close>

definition ACL_name :: "ACL \<Rightarrow> string" where
  "ACL_name a = (case acl_Name a of None \<Rightarrow> [] | Some nm \<Rightarrow> nm)"

definition FindACLsWithPredicate :: "nb_answers \<Rightarrow> (ACL \<Rightarrow> bool) \<Rightarrow> nb_db \<Rightarrow> nb_error + ACL list" where
  "FindACLsWithPredicate w p db = (if na_lists w then Inr (filter p (nb_ACLs db)) else Inl ListFailed)"

fun FindACLs :: "ACL list \<Rightarrow> nb_db \<Rightarrow> nb_error + ACL list" where
  "FindACLs [] db = Inr []"
| "FindACLs (a # acls) db =
     (case by_index False acl_id (acl_id a) (nb_ACLs db) of
        Inl e \<Rightarrow> Inl e
      | Inr (_ # _ # _) \<Rightarrow> Inl MultipleResults
      | Inr found \<Rightarrow> (case FindACLs acls db of Inl e \<Rightarrow> Inl e | Inr rest \<Rightarrow> Inr (found @ rest)))"

definition string_ptr :: "string \<Rightarrow> string option" where
  "string_ptr s = (if s = [] then None else Some s)"

definition build_ACL ::
  "string \<Rightarrow> string \<Rightarrow> int \<Rightarrow> string \<Rightarrow> string \<Rightarrow> string \<Rightarrow> string \<Rightarrow> bool \<Rightarrow> id_map \<Rightarrow> id_map \<Rightarrow> int \<Rightarrow> ACL" where
  "build_ACL name direction priority match action meter severity log externalIds options tier =
     \<lparr>acl_Name = string_ptr (take 63 name), acl_Direction = direction, acl_Priority = priority, acl_Match = match, acl_Action = action,
      acl_Meter = string_ptr meter, acl_Severity = string_ptr severity, acl_Log = log, acl_ExternalIDs = externalIds, acl_Options = options,
      acl_Tier = tier\<rparr>"

definition SetACLLogging :: "string \<Rightarrow> bool \<Rightarrow> ACL \<Rightarrow> ACL" where
  "SetACLLogging severity log a = a\<lparr>acl_Severity := string_ptr severity, acl_Log := log\<rparr>"

definition cut_name :: "ACL \<Rightarrow> ACL" where
  "cut_name a = a\<lparr>acl_Name := map_option (take 63) (acl_Name a)\<rparr>"

definition CreateOrUpdateACLsOps :: "nb_op list \<Rightarrow> ACL list \<Rightarrow> nb_db \<Rightarrow> nb_error + nb_op list" where
  "CreateOrUpdateACLsOps ops acls db =
     buildOps ops (map (\<lambda>a. \<lparr>om_lookup = by_index False acl_id (acl_id a), om_whenFound = (\<lambda>_. Inr [AclUpdate (cut_name a)]),
       om_whenNotFound = Some (Inr [AclInsert (cut_name a)]), om_ErrNotFound = False, om_BulkOp = False\<rparr>) acls) (nb_ACLs db)"

definition UpdateACLsOps :: "nb_op list \<Rightarrow> ACL list \<Rightarrow> nb_db \<Rightarrow> nb_error + nb_op list" where
  "UpdateACLsOps ops acls db =
     buildOps ops (map (\<lambda>a. \<lparr>om_lookup = by_index True acl_id (acl_id a), om_whenFound = (\<lambda>_. Inr [AclUpdate a]),
       om_whenNotFound = None, om_ErrNotFound = True, om_BulkOp = False\<rparr>) acls) (nb_ACLs db)"

definition CreateOrUpdateACLs :: "nb_answers \<Rightarrow> ACL list \<Rightarrow> nb_db \<Rightarrow> nb_error option \<times> nb_db" where
  "CreateOrUpdateACLs w acls db = nb_transact w (CreateOrUpdateACLsOps [] acls db) db"

definition UpdateACLsLoggingOps :: "nb_op list \<Rightarrow> ACL list \<Rightarrow> nb_db \<Rightarrow> nb_error + nb_op list" where
  "UpdateACLsLoggingOps ops acls db =
     buildOps ops (map (\<lambda>a. \<lparr>om_lookup = by_index True acl_id (acl_id a), om_whenFound = (\<lambda>x. Inr [AclLogging (acl_id x) (acl_Severity a) (acl_Log a)]),
       om_whenNotFound = None, om_ErrNotFound = True, om_BulkOp = False\<rparr>) acls) (nb_ACLs db)"

end
