(* ===== verification/Address_Set.thy ===== *)
theory Address_Set
  imports Nb_Client
begin

text \<open>
  Address sets (\<open>pkg/ovn/address_set/address_set.go\<close>): a set of addresses that ACLs refer to by a hashed name. One
  logical set is a pair of database rows, one per address family; a family that is disabled has no row.

  The operations are shown to act as operations on sets of addresses.
\<close>

section \<open>State\<close>

record ovnAddressSet =
  oas_name :: string
  oas_hashName :: string

record ovnAddressSets =
  ass_name :: string
  ass_ipv4 :: "ovnAddressSet option"
  ass_ipv6 :: "ovnAddressSet option"

record ovnAddressSetFactory =
  asf_ipv4Mode :: bool
  asf_ipv6Mode :: bool

definition ipv4InternalID :: string where "ipv4InternalID = ''v4''"

definition ipv6InternalID :: string where "ipv6InternalID = ''v6''"

definition splitIPsByFamily :: "ip list \<Rightarrow> ip list \<times> ip list" where
  "splitIPsByFamily ips = (filter (\<lambda>x. \<not> IsIPv6 x) ips, filter IsIPv6 ips)"

definition ipsToStringUnique :: "nb_answers \<Rightarrow> ip list \<Rightarrow> string list" where
  "ipsToStringUnique w ips = na_setOrder w (remdups (map IP_String ips))"

definition hashedAddressSet :: "string \<Rightarrow> string" where
  "hashedAddressSet s = HashForOVN s"

definition getDbIDsWithIPFamily :: "DbObjectIDs \<Rightarrow> string \<Rightarrow> DbObjectIDs" where
  "getDbIDsWithIPFamily dbIDs ipFamily = AddIDs [(AddressSetIPFamilyKey, ipFamily)] dbIDs"

definition getOvnAddressSetsName :: "DbObjectIDs \<Rightarrow> string" where
  "getOvnAddressSetsName dbIDs =
     DbObjectIDs_String (if GetObjectID AddressSetIPFamilyKey dbIDs \<noteq> [] then RemoveIDs [AddressSetIPFamilyKey] dbIDs else dbIDs)"

definition validateDbIDs :: "DbObjectIDs \<Rightarrow> bool" where
  "validateDbIDs dbIDs \<longleftrightarrow> GetUnsetKeys dbIDs = [AddressSetIPFamilyKey]"

definition buildAddressSet :: "DbObjectIDs \<Rightarrow> string \<Rightarrow> AddressSetRow option" where
  "buildAddressSet dbIDs ipFamily =
     map_option (\<lambda>ids. \<lparr>as_Name = hashedAddressSet (lookup_id ids PrimaryIDKey), as_ExternalIDs = ids, as_Addresses = []\<rparr>)
       (GetExternalIDs (getDbIDsWithIPFamily dbIDs ipFamily))"

definition newOvnAddressSet :: "AddressSetRow \<Rightarrow> ovnAddressSet" where
  "newOvnAddressSet r = \<lparr>oas_name = lookup_id (as_ExternalIDs r) PrimaryIDKey, oas_hashName = as_Name r\<rparr>"

definition newOvnAddressSets :: "ovnAddressSet option \<Rightarrow> ovnAddressSet option \<Rightarrow> DbObjectIDs \<Rightarrow> ovnAddressSets" where
  "newOvnAddressSets v4set v6set dbIDs = \<lparr>ass_name = getOvnAddressSetsName dbIDs, ass_ipv4 = v4set, ass_ipv6 = v6set\<rparr>"

definition GetHashNamesForAS :: "DbObjectIDs \<Rightarrow> (string \<times> string) option" where
  "GetHashNamesForAS dbIDs =
     (case (buildAddressSet dbIDs ipv4InternalID, buildAddressSet dbIDs ipv6InternalID) of
        (Some a, Some b) \<Rightarrow> Some (as_Name a, as_Name b) | _ \<Rightarrow> None)"

section \<open>The factory\<close>

definition ensureOvnAddressSetOps ::
  "nb_answers \<Rightarrow> ip list \<Rightarrow> DbObjectIDs \<Rightarrow> string \<Rightarrow> bool \<Rightarrow> nb_op list \<Rightarrow> nb_db \<Rightarrow> (nb_error + ovnAddressSet \<times> nb_op list) option" where
  "ensureOvnAddressSetOps w ips dbIDs ipFamily updateAS ops db =
     (case buildAddressSet dbIDs ipFamily of
        None \<Rightarrow> None
      | Some addrSet \<Rightarrow>
          Some (case (if updateAS then CreateOrUpdateAddressSetsOps ops [addrSet\<lparr>as_Addresses := ipsToStringUnique w ips\<rparr>] db
                      else CreateAddressSetsOps ops [addrSet] db) of
                  Inl e \<Rightarrow> Inl e
                | Inr ops1 \<Rightarrow> Inr (newOvnAddressSet addrSet, ops1)))"

definition ensure_family ::
  "nb_answers \<Rightarrow> bool \<Rightarrow> ip list \<Rightarrow> DbObjectIDs \<Rightarrow> string \<Rightarrow> bool \<Rightarrow> nb_op list \<Rightarrow> nb_db \<Rightarrow> (nb_error + ovnAddressSet option \<times> nb_op list) option" where
  "ensure_family w enabled ips dbIDs ipFamily updateAS ops db =
     (if enabled then map_option (map_sum id (map_prod Some id)) (ensureOvnAddressSetOps w ips dbIDs ipFamily updateAS ops db)
      else Some (Inr (None, ops)))"

definition ensureOvnAddressSetsOps ::
  "nb_answers \<Rightarrow> ovnAddressSetFactory \<Rightarrow> ip list \<Rightarrow> DbObjectIDs \<Rightarrow> bool \<Rightarrow> nb_db \<Rightarrow> (nb_error + ovnAddressSets \<times> nb_op list) option" where
  "ensureOvnAddressSetsOps w asf ips dbIDs updateAS db =
     (case ensure_family w (asf_ipv4Mode asf) (fst (splitIPsByFamily ips)) dbIDs ipv4InternalID updateAS [] db of
        None \<Rightarrow> None
      | Some (Inl e) \<Rightarrow> Some (Inl e)
      | Some (Inr (v4set, ops)) \<Rightarrow>
          (case ensure_family w (asf_ipv6Mode asf) (snd (splitIPsByFamily ips)) dbIDs ipv6InternalID updateAS ops db of
             None \<Rightarrow> None
           | Some (Inl e) \<Rightarrow> Some (Inl e)
           | Some (Inr (v6set, ops1)) \<Rightarrow> Some (Inr (newOvnAddressSets v4set v6set dbIDs, ops1))))"

definition NewAddressSetOps ::
  "nb_answers \<Rightarrow> ovnAddressSetFactory \<Rightarrow> DbObjectIDs \<Rightarrow> ip list \<Rightarrow> nb_db \<Rightarrow> (nb_error + ovnAddressSets \<times> nb_op list) option" where
  "NewAddressSetOps w asf dbIDs ips db =
     (if validateDbIDs dbIDs then ensureOvnAddressSetsOps w asf ips dbIDs True db else Some (Inl BadIDs))"

definition commit_address_sets ::
  "nb_answers \<Rightarrow> nb_db \<Rightarrow> nb_error + ovnAddressSets \<times> nb_op list \<Rightarrow> (nb_error + ovnAddressSets) \<times> nb_db" where
  "commit_address_sets w db r =
     (case r of
        Inl e \<Rightarrow> (Inl e, db)
      | Inr (as, ops) \<Rightarrow> (case TransactAndCheck w ops db of (True, db1) \<Rightarrow> (Inr as, db1) | (False, db1) \<Rightarrow> (Inl TransactFailed, db1)))"

definition NewAddressSet ::
  "nb_answers \<Rightarrow> ovnAddressSetFactory \<Rightarrow> DbObjectIDs \<Rightarrow> ip list \<Rightarrow> nb_db \<Rightarrow> ((nb_error + ovnAddressSets) \<times> nb_db) option" where
  "NewAddressSet w asf dbIDs ips db = map_option (commit_address_sets w db) (NewAddressSetOps w asf dbIDs ips db)"

definition EnsureAddressSet ::
  "nb_answers \<Rightarrow> ovnAddressSetFactory \<Rightarrow> DbObjectIDs \<Rightarrow> nb_db \<Rightarrow> ((nb_error + ovnAddressSets) \<times> nb_db) option" where
  "EnsureAddressSet w asf dbIDs db =
     (if validateDbIDs dbIDs then map_option (commit_address_sets w db) (ensureOvnAddressSetsOps w asf [] dbIDs False db)
      else Some (Inl BadIDs, db))"

definition with_family :: "string \<Rightarrow> AddressSetRow list \<Rightarrow> ovnAddressSet option" where
  "with_family fam rows =
     fold (\<lambda>r acc. if lookup_id (as_ExternalIDs r) AddressSetIPFamilyKey = fam then Some (newOvnAddressSet r) else acc) rows None"

definition GetAddressSet :: "nb_answers \<Rightarrow> DbObjectIDs \<Rightarrow> nb_db \<Rightarrow> nb_error + ovnAddressSets" where
  "GetAddressSet w dbIDs db =
     (if \<not> validateDbIDs dbIDs then Inl BadIDs
      else case FindAddressSetsWithPredicate w (\<lambda>r. GetPredicate dbIDs None (as_ExternalIDs r)) db of
          Inl e \<Rightarrow> Inl e
        | Inr rows \<Rightarrow> Inr (newOvnAddressSets (with_family ipv4InternalID rows) (with_family ipv6InternalID rows) dbIDs))"

text \<open>\<open>do\<close> returns whether it failed; all rows are visited.\<close>

fun process_rows :: "ObjectIDsType \<Rightarrow> (DbObjectIDs \<Rightarrow> 's \<Rightarrow> bool \<times> 's) \<Rightarrow> AddressSetRow list \<Rightarrow> string list \<Rightarrow> bool \<Rightarrow> 's \<Rightarrow> (bool \<times> 's) option" where
  "process_rows t f [] processed ok s = Some (ok, s)"
| "process_rows t f (r # rows) processed ok s =
     (case NewDbObjectIDsFromExternalIDs t (as_ExternalIDs r) of
        None \<Rightarrow> None
      | Some (Inl _) \<Rightarrow> process_rows t f rows processed False s
      | Some (Inr dbIDs) \<Rightarrow>
          (let ids = RemoveIDs [AddressSetIPFamilyKey] dbIDs; nm = getOvnAddressSetsName ids
           in if nm \<in> set processed then process_rows t f rows processed ok s
              else case f ids s of (ok1, s1) \<Rightarrow> process_rows t f rows (nm # processed) (ok \<and> ok1) s1))"

definition ProcessEachAddressSet ::
  "nb_answers \<Rightarrow> string \<Rightarrow> ObjectIDsType \<Rightarrow> (DbObjectIDs \<Rightarrow> 's \<Rightarrow> bool \<times> 's) \<Rightarrow> nb_db \<Rightarrow> 's \<Rightarrow> (bool \<times> 's) option" where
  "ProcessEachAddressSet w ownerController t f db s =
     (case NewDbObjectIDs t ownerController [] of
        None \<Rightarrow> None
      | Some predIDs \<Rightarrow>
          (case FindAddressSetsWithPredicate w (\<lambda>r. GetPredicate predIDs None (as_ExternalIDs r)) db of
             Inl _ \<Rightarrow> Some (False, s)
           | Inr rows \<Rightarrow> process_rows t f rows [] True s))"

definition DestroyAddressSet :: "nb_answers \<Rightarrow> DbObjectIDs \<Rightarrow> nb_db \<Rightarrow> (nb_error option \<times> nb_db) option" where
  "DestroyAddressSet w dbIDs db =
     (if \<not> validateDbIDs dbIDs then Some (Some BadIDs, db)
      else map_option (\<lambda>(v4, v6). DeleteAddressSets w [v4, v6] db) (GetHashNamesForAS dbIDs))"

section \<open>One family\<close>

definition oas_setIPs :: "nb_answers \<Rightarrow> ovnAddressSet \<Rightarrow> ip list \<Rightarrow> nb_db \<Rightarrow> nb_error option \<times> nb_db" where
  "oas_setIPs w as ips db = UpdateAddressSetsIPs w [(oas_hashName as, ipsToStringUnique w ips)] db"

definition oas_getIPs :: "ovnAddressSet \<Rightarrow> nb_db \<Rightarrow> nb_error + string list" where
  "oas_getIPs as db = (case GetAddressSetRow (oas_hashName as) db of Inl e \<Rightarrow> Inl e | Inr r \<Rightarrow> Inr (as_Addresses r))"

definition oas_hasIPs :: "ovnAddressSet \<Rightarrow> string list \<Rightarrow> nb_db \<Rightarrow> bool" where
  "oas_hasIPs as ips db =
     (case oas_getIPs as db of Inl _ \<Rightarrow> False | Inr existing \<Rightarrow> existing \<noteq> [] \<and> set ips \<subseteq> set existing)"

definition oas_addIPs :: "nb_answers \<Rightarrow> ovnAddressSet \<Rightarrow> ip list \<Rightarrow> nb_db \<Rightarrow> nb_error + nb_op list" where
  "oas_addIPs w as ips db =
     (if ips = [] then Inr []
      else if oas_hasIPs as (ipsToStringUnique w ips) db then Inr []
      else AddIPsToAddressSetOps [] (oas_hashName as) (ipsToStringUnique w ips) db)"

definition oas_deleteIPs :: "nb_answers \<Rightarrow> ovnAddressSet \<Rightarrow> ip list \<Rightarrow> nb_db \<Rightarrow> nb_error + nb_op list" where
  "oas_deleteIPs w as ips db = (if ips = [] then Inr [] else DeleteIPsFromAddressSetOps [] (oas_hashName as) (ipsToStringUnique w ips) db)"

definition oas_destroy :: "nb_answers \<Rightarrow> ovnAddressSet \<Rightarrow> nb_db \<Rightarrow> nb_error option \<times> nb_db" where
  "oas_destroy w as db = DeleteAddressSets w [oas_hashName as] db"

section \<open>Both families\<close>

definition GetASHashNames :: "ovnAddressSets \<Rightarrow> string \<times> string" where
  "GetASHashNames as = ((case ass_ipv4 as of None \<Rightarrow> [] | Some x \<Rightarrow> oas_hashName x), (case ass_ipv6 as of None \<Rightarrow> [] | Some x \<Rightarrow> oas_hashName x))"

text \<open>\<open>errors.Wrapf\<close> of a nil error is nil: an error of the IPv4 set only counts when the IPv6 set failed too.\<close>

definition SetIPs :: "nb_answers \<Rightarrow> ovnAddressSets \<Rightarrow> ip list \<Rightarrow> nb_db \<Rightarrow> nb_error option \<times> nb_db" where
  "SetIPs w as ips db =
     (let (v4ips, v6ips) = splitIPsByFamily ips;
          (err, db1) = (case ass_ipv6 as of None \<Rightarrow> (None, db) | Some x \<Rightarrow> oas_setIPs w x v6ips db)
      in case ass_ipv4 as of
           None \<Rightarrow> (err, db1)
         | Some x \<Rightarrow> (err, snd (oas_setIPs w x v4ips db1)))"

definition GetIPs :: "ovnAddressSets \<Rightarrow> nb_db \<Rightarrow> string list \<times> string list" where
  "GetIPs as db =
     (let ips = (\<lambda>s. case s of None \<Rightarrow> [] | Some x \<Rightarrow> (case oas_getIPs x db of Inl _ \<Rightarrow> [] | Inr xs \<Rightarrow> xs))
      in (ips (ass_ipv4 as), ips (ass_ipv6 as)))"

definition family_ops :: "(ovnAddressSet \<Rightarrow> ip list \<Rightarrow> nb_error + nb_op list) \<Rightarrow> ovnAddressSets \<Rightarrow> ip list \<Rightarrow> nb_error + nb_op list" where
  "family_ops f as ips =
     (if ips = [] then Inr []
      else case (case ass_ipv6 as of None \<Rightarrow> Inr [] | Some x \<Rightarrow> f x (snd (splitIPsByFamily ips))) of
          Inl e \<Rightarrow> Inl e
        | Inr ops6 \<Rightarrow>
            (case (case ass_ipv4 as of None \<Rightarrow> Inr [] | Some x \<Rightarrow> f x (fst (splitIPsByFamily ips))) of
               Inl e \<Rightarrow> Inl e
             | Inr ops4 \<Rightarrow> Inr (ops6 @ ops4)))"

definition AddIPsReturnOps :: "nb_answers \<Rightarrow> ovnAddressSets \<Rightarrow> ip list \<Rightarrow> nb_db \<Rightarrow> nb_error + nb_op list" where
  "AddIPsReturnOps w as ips db = family_ops (\<lambda>x xs. oas_addIPs w x xs db) as ips"

definition DeleteIPsReturnOps :: "nb_answers \<Rightarrow> ovnAddressSets \<Rightarrow> ip list \<Rightarrow> nb_db \<Rightarrow> nb_error + nb_op list" where
  "DeleteIPsReturnOps w as ips db = family_ops (\<lambda>x xs. oas_deleteIPs w x xs db) as ips"

definition AddIPs :: "nb_answers \<Rightarrow> ovnAddressSets \<Rightarrow> ip list \<Rightarrow> nb_db \<Rightarrow> nb_error option \<times> nb_db" where
  "AddIPs w as ips db = (if ips = [] then (None, db) else nb_transact w (AddIPsReturnOps w as ips db) db)"

definition DeleteIPs :: "nb_answers \<Rightarrow> ovnAddressSets \<Rightarrow> ip list \<Rightarrow> nb_db \<Rightarrow> nb_error option \<times> nb_db" where
  "DeleteIPs w as ips db = (if ips = [] then (None, db) else nb_transact w (DeleteIPsReturnOps w as ips db) db)"

definition Destroy :: "nb_answers \<Rightarrow> ovnAddressSets \<Rightarrow> nb_db \<Rightarrow> nb_error option \<times> nb_db" where
  "Destroy w as db =
     (case (case ass_ipv4 as of None \<Rightarrow> (None, db) | Some x \<Rightarrow> oas_destroy w x db) of
        (Some e, db1) \<Rightarrow> (Some e, db1)
      | (None, db1) \<Rightarrow> (case ass_ipv6 as of None \<Rightarrow> (None, db1) | Some x \<Rightarrow> oas_destroy w x db1))"


section \<open>Rows by name\<close>

definition nb_ok :: "nb_db \<Rightarrow> bool" where
  "nb_ok db \<longleftrightarrow> distinct (map as_Name (nb_AddressSets db)) \<and> distinct (map pg_Name (nb_PortGroups db)) \<and> distinct (map acl_id (nb_ACLs db))"

definition row_of :: "('r \<Rightarrow> string) \<Rightarrow> 'r list \<Rightarrow> string \<Rightarrow> 'r option" where
  "row_of index rows nm = find (\<lambda>r. index r = nm) rows"

lemma row_of_simps [simp]:
  "row_of index [] nm = None"
  "row_of index (r # rows) nm = (if index r = nm then Some r else row_of index rows nm)"
  by (simp_all add: row_of_def)

lemma row_of_Some: "row_of index rows nm = Some r \<Longrightarrow> r \<in> set rows \<and> index r = nm"
  by (induction rows) (auto split: if_splits)

lemma row_of_None: "row_of index rows nm = None \<longleftrightarrow> nm \<notin> index ` set rows"
  by (induction rows) auto

lemma row_of_mem: "distinct (map index rows) \<Longrightarrow> r \<in> set rows \<Longrightarrow> row_of index rows (index r) = Some r"
  by (induction rows) auto

lemma filter_index:
  "distinct (map index rows) \<Longrightarrow> filter (\<lambda>r. index r = nm) rows = (case row_of index rows nm of None \<Rightarrow> [] | Some r \<Rightarrow> [r])"
proof (induction rows)
  case (Cons r rows)
  have "filter (\<lambda>x. index x = index r) rows = []" using Cons.prems unfolding filter_empty_conv by (metis distinct.simps(2) image_eqI list.set_map list.simps(9))
  then show ?case using Cons by auto
qed simp

lemma row_of_on_row:
  "(\<And>r. index (f r) = index r) \<Longrightarrow> row_of index (on_row index nm f rows) k = (if k = nm then map_option f (row_of index rows k) else row_of index rows k)"
  by (induction rows) (auto simp: on_row_def)

lemma map_on_row: "(\<And>r. index (f r) = index r) \<Longrightarrow> map index (on_row index nm f rows) = map index rows"
  by (simp add: on_row_def)

lemma row_of_append: "row_of index (xs @ ys) k = (case row_of index xs k of None \<Rightarrow> row_of index ys k | Some r \<Rightarrow> Some r)"
  by (induction xs) auto

lemma row_of_filter: "row_of index (filter (\<lambda>r. index r \<noteq> nm) rows) k = (if k = nm then None else row_of index rows k)"
  by (induction rows) auto

lemma by_index_ok:
  "distinct (map index rows) \<Longrightarrow> nm \<noteq> [] \<Longrightarrow> by_index b index nm rows = Inr (case row_of index rows nm of None \<Rightarrow> [] | Some r \<Rightarrow> [r])"
  by (simp add: by_index_def filter_index)

lemma nb_transact_None:
  "nb_transact w r db = (None, db1) \<longleftrightarrow> (\<exists>ops. r = Inr ops \<and> (ops = [] \<or> na_commits w ops) \<and> db1 = fold apply_nb_op ops db)"
  by (cases r) (auto simp: nb_transact_def TransactAndCheck_def)

lemma nb_transact_Some: "nb_transact w r db = (Some e, db1) \<Longrightarrow> db1 = db"
  by (auto simp: nb_transact_def TransactAndCheck_def split: sum.splits if_splits)

section \<open>The addresses of a set\<close>

abbreviation as_row :: "nb_db \<Rightarrow> string \<Rightarrow> AddressSetRow option" where
  "as_row db \<equiv> row_of as_Name (nb_AddressSets db)"

definition contents :: "nb_db \<Rightarrow> string \<Rightarrow> string set" where
  "contents db nm = (case as_row db nm of None \<Rightarrow> {} | Some r \<Rightarrow> set (as_Addresses r))"

lemma contents_ops:
  "contents (apply_nb_op (AsAddAddresses nm xs) db) k = (if k = nm \<and> as_row db nm \<noteq> None then contents db k \<union> set xs else contents db k)"
  "contents (apply_nb_op (AsDelAddresses nm xs) db) k = (if k = nm then contents db k - set xs else contents db k)"
  "contents (apply_nb_op (AsUpdate nm (Some xs) ids) db) k = (if k = nm \<and> as_row db nm \<noteq> None then set xs else contents db k)"
  "contents (apply_nb_op (AsDelete nm) db) k = (if k = nm then {} else contents db k)"
  by (auto simp: contents_def on_as_def row_of_on_row row_of_filter set_add_def split: option.splits)

lemma contents_insert: "as_row db (as_Name r) = None \<Longrightarrow> contents (apply_nb_op (AsInsert r) db) k = (if k = as_Name r then set (as_Addresses r) else contents db k)"
  by (auto simp: contents_def row_of_append split: option.splits)

fun as_keeps_names :: "nb_op \<Rightarrow> bool" where
  "as_keeps_names (AsUpdate _ _ _) = True"
| "as_keeps_names (AsAddAddresses _ _) = True"
| "as_keeps_names (AsDelAddresses _ _) = True"
| "as_keeps_names _ = False"

lemma as_keeps_row:
  "as_keeps_names op \<Longrightarrow> as_row (apply_nb_op op db) k = None \<longleftrightarrow> as_row db k = None"
  "as_keeps_names op \<Longrightarrow> nb_ok (apply_nb_op op db) = nb_ok db"
  by (cases op; simp add: on_as_def row_of_on_row nb_ok_def map_on_row)+

section \<open>The operations on sets\<close>

definition strings :: "ip list \<Rightarrow> string set" where
  "strings ips = IP_String ` set ips"

definition as_order_ok :: "nb_answers \<Rightarrow> bool" where
  "as_order_ok w \<longleftrightarrow> (\<forall>xs. set (na_setOrder w xs) = set xs)"

lemma ipsToStringUnique_set: "as_order_ok w \<Longrightarrow> set (ipsToStringUnique w ips) = strings ips"
  by (simp add: ipsToStringUnique_def as_order_ok_def strings_def)

lemma GetAddressSetRow_ok:
  "nb_ok db \<Longrightarrow> nm \<noteq> [] \<Longrightarrow> GetAddressSetRow nm db = (case as_row db nm of None \<Rightarrow> Inl NotFound | Some r \<Rightarrow> Inr r)"
  by (simp add: GetAddressSetRow_def by_index_ok nb_ok_def split: option.split)

lemma oas_addIPs_shape:
  assumes "nb_ok db" "as_order_ok w" "oas_hashName x \<noteq> []" "oas_addIPs w x ips db = Inr ops"
  shows "ops = [] \<and> strings ips \<subseteq> contents db (oas_hashName x)
    \<or> (\<exists>xs. set xs = strings ips \<and> ops = [AsAddAddresses (oas_hashName x) xs] \<and> as_row db (oas_hashName x) \<noteq> None)"
proof (cases "ips = [] \<or> oas_hasIPs x (ipsToStringUnique w ips) db")
  case True
  have "strings ips \<subseteq> contents db (oas_hashName x)" if "oas_hasIPs x (ipsToStringUnique w ips) db"
    using that assms(1,3) ipsToStringUnique_set [OF assms(2), of ips]
    by (auto simp: oas_hasIPs_def oas_getIPs_def GetAddressSetRow_ok contents_def split: option.splits)
  moreover have "ops = []" using True assms(4) by (auto simp: oas_addIPs_def split: if_splits)
  ultimately show ?thesis using True by (auto simp: strings_def)
next
  case False
  then have ne: "ipsToStringUnique w ips \<noteq> []" using ipsToStringUnique_set [OF assms(2), of ips] by (auto simp: strings_def)
  have "AddIPsToAddressSetOps [] (oas_hashName x) (ipsToStringUnique w ips) db = Inr ops" using False assms(4) by (simp add: oas_addIPs_def)
  then show ?thesis
    using assms(1,3) ne ipsToStringUnique_set [OF assms(2), of ips]
    by (auto simp: AddIPsToAddressSetOps_def by_index_ok nb_ok_def insert_mutation_def split: option.splits if_splits dest: row_of_Some)
qed

lemma oas_deleteIPs_shape:
  assumes "nb_ok db" "as_order_ok w" "oas_hashName x \<noteq> []" "oas_deleteIPs w x ips db = Inr ops"
  shows "ops = [] \<and> ips = [] \<or> (\<exists>xs. set xs = strings ips \<and> ops = [AsDelAddresses (oas_hashName x) xs])"
proof (cases "ips = []")
  case False
  then have ne: "ipsToStringUnique w ips \<noteq> []" using ipsToStringUnique_set [OF assms(2), of ips] by (auto simp: strings_def)
  have "DeleteIPsFromAddressSetOps [] (oas_hashName x) (ipsToStringUnique w ips) db = Inr ops" using False assms(4) by (simp add: oas_deleteIPs_def)
  then show ?thesis
    using assms(1,3) ne ipsToStringUnique_set [OF assms(2), of ips]
    by (auto simp: DeleteIPsFromAddressSetOps_def by_index_ok nb_ok_def delete_mutation_def split: option.splits if_splits dest: row_of_Some)
qed (use assms(4) in \<open>simp add: oas_deleteIPs_def\<close>)

text \<open>The two rows of an address set have different names.\<close>

definition ass_ok :: "ovnAddressSets \<Rightarrow> bool" where
  "ass_ok as \<longleftrightarrow> (\<forall>x. ass_ipv4 as = Some x \<longrightarrow> oas_hashName x \<noteq> []) \<and> (\<forall>y. ass_ipv6 as = Some y \<longrightarrow> oas_hashName y \<noteq> [])
     \<and> (\<forall>x y. ass_ipv4 as = Some x \<longrightarrow> ass_ipv6 as = Some y \<longrightarrow> oas_hashName x \<noteq> oas_hashName y)"

text \<open>The addresses that an operation hands to the row of a name.\<close>

definition routed :: "ovnAddressSets \<Rightarrow> ip list \<Rightarrow> string \<Rightarrow> string set" where
  "routed as ips nm = {IP_String x | x s. x \<in> set ips \<and> (if IsIPv6 x then ass_ipv6 as else ass_ipv4 as) = Some s \<and> oas_hashName s = nm}"

definition fam_part :: "ovnAddressSet option \<Rightarrow> ip list \<Rightarrow> string \<Rightarrow> string set" where
  "fam_part s ips nm = (case s of None \<Rightarrow> {} | Some x \<Rightarrow> if oas_hashName x = nm then strings ips else {})"

lemma routed_families:
  "routed as ips nm = fam_part (ass_ipv6 as) (snd (splitIPsByFamily ips)) nm \<union> fam_part (ass_ipv4 as) (fst (splitIPsByFamily ips)) nm"
  by (auto simp: routed_def strings_def splitIPsByFamily_def fam_part_def split: option.splits)

definition same_rows :: "nb_db \<Rightarrow> nb_db \<Rightarrow> bool" where
  "same_rows db d \<longleftrightarrow> nb_ok d \<and> (\<forall>k. as_row d k = None \<longleftrightarrow> as_row db k = None)"

lemma family_ops_split:
  assumes "family_ops f as ips = Inr ops" "ips \<noteq> []"
  obtains ops6 ops4 where "(case ass_ipv6 as of None \<Rightarrow> Inr [] | Some x \<Rightarrow> f x (snd (splitIPsByFamily ips))) = Inr ops6"
    "(case ass_ipv4 as of None \<Rightarrow> Inr [] | Some x \<Rightarrow> f x (fst (splitIPsByFamily ips))) = Inr ops4" "ops = ops6 @ ops4"
  using assms by (auto simp: family_ops_def split: sum.splits)

lemma add_family:
  assumes "nb_ok db" "as_order_ok w" "\<forall>x. s = Some x \<longrightarrow> oas_hashName x \<noteq> []" "(case s of None \<Rightarrow> Inr [] | Some x \<Rightarrow> oas_addIPs w x ips db) = Inr ops"
    "same_rows db d" "\<forall>nm. contents db nm \<subseteq> contents d nm"
  shows "\<forall>nm. contents (fold apply_nb_op ops d) nm = contents d nm \<union> fam_part s ips nm" "same_rows db (fold apply_nb_op ops d)"
proof -
  have "(\<forall>nm. contents (fold apply_nb_op ops d) nm = contents d nm \<union> fam_part s ips nm) \<and> same_rows db (fold apply_nb_op ops d)"
  proof (cases s)
    case (Some x)
    then have "oas_addIPs w x ips db = Inr ops" "oas_hashName x \<noteq> []" using assms(3,4) by simp_all
    from oas_addIPs_shape [OF assms(1,2) this(2,1)] show ?thesis
    proof (elim disjE exE conjE)
      assume "ops = []" "strings ips \<subseteq> contents db (oas_hashName x)"
      then show ?thesis using Some assms(5,6) by (auto simp: fam_part_def)
    next
      fix xs assume o: "set xs = strings ips" "ops = [AsAddAddresses (oas_hashName x) xs]" "as_row db (oas_hashName x) \<noteq> None"
      then have "as_row d (oas_hashName x) \<noteq> None" using assms(5) by (simp add: same_rows_def)
      then show ?thesis using Some o assms(5) by (auto simp: fam_part_def contents_ops same_rows_def as_keeps_row simp del: apply_nb_op.simps)
    qed
  qed (use assms(4,5) in \<open>simp add: fam_part_def\<close>)
  then show "\<forall>nm. contents (fold apply_nb_op ops d) nm = contents d nm \<union> fam_part s ips nm" "same_rows db (fold apply_nb_op ops d)" by simp_all
qed

lemma AddIPs_effect:
  assumes "nb_ok db" "as_order_ok w" "ass_ok as" "AddIPs w as ips db = (None, db1)"
  shows "contents db1 nm = contents db nm \<union> routed as ips nm" and "nb_ok db1"
proof -
  have "contents db1 nm = contents db nm \<union> routed as ips nm \<and> nb_ok db1"
  proof (cases "ips = []")
    case True
    then show ?thesis using assms(1,4) by (simp add: AddIPs_def routed_def)
  next
    case False
    obtain ops where ops: "AddIPsReturnOps w as ips db = Inr ops" "db1 = fold apply_nb_op ops db"
      using assms(4) False by (auto simp: AddIPs_def nb_transact_None)
    obtain ops6 ops4 where f: "(case ass_ipv6 as of None \<Rightarrow> Inr [] | Some x \<Rightarrow> oas_addIPs w x (snd (splitIPsByFamily ips)) db) = Inr ops6"
      "(case ass_ipv4 as of None \<Rightarrow> Inr [] | Some x \<Rightarrow> oas_addIPs w x (fst (splitIPsByFamily ips)) db) = Inr ops4" "ops = ops6 @ ops4"
      using family_ops_split [OF ops(1) [unfolded AddIPsReturnOps_def] False] by blast
    have h: "\<forall>x. ass_ipv6 as = Some x \<longrightarrow> oas_hashName x \<noteq> []" "\<forall>x. ass_ipv4 as = Some x \<longrightarrow> oas_hashName x \<noteq> []"
      using assms(3) by (simp_all add: ass_ok_def)
    note s6 = add_family [OF assms(1,2) h(1) f(1), of db]
    have r: "same_rows db db" using assms(1) by (simp add: same_rows_def)
    note s4 = add_family [OF assms(1,2) h(2) f(2), of "fold apply_nb_op ops6 db"]
    show ?thesis using s6 [OF r] s4 ops(2) f(3) by (auto simp: routed_families same_rows_def)
  qed
  then show "contents db1 nm = contents db nm \<union> routed as ips nm" "nb_ok db1" by simp_all
qed

lemma delete_family:
  assumes "nb_ok db" "as_order_ok w" "\<forall>x. s = Some x \<longrightarrow> oas_hashName x \<noteq> []" "(case s of None \<Rightarrow> Inr [] | Some x \<Rightarrow> oas_deleteIPs w x ips db) = Inr ops"
    "same_rows db d"
  shows "\<forall>nm. contents (fold apply_nb_op ops d) nm = contents d nm - fam_part s ips nm" "same_rows db (fold apply_nb_op ops d)"
proof -
  have "(\<forall>nm. contents (fold apply_nb_op ops d) nm = contents d nm - fam_part s ips nm) \<and> same_rows db (fold apply_nb_op ops d)"
  proof (cases s)
    case (Some x)
    then have "oas_deleteIPs w x ips db = Inr ops" "oas_hashName x \<noteq> []" using assms(3,4) by simp_all
    from oas_deleteIPs_shape [OF assms(1,2) this(2,1)] show ?thesis
      using Some assms(5) by (auto simp: fam_part_def contents_ops same_rows_def as_keeps_row strings_def simp del: apply_nb_op.simps)
  qed (use assms(4,5) in \<open>simp add: fam_part_def\<close>)
  then show "\<forall>nm. contents (fold apply_nb_op ops d) nm = contents d nm - fam_part s ips nm" "same_rows db (fold apply_nb_op ops d)" by simp_all
qed

lemma DeleteIPs_effect:
  assumes "nb_ok db" "as_order_ok w" "ass_ok as" "DeleteIPs w as ips db = (None, db1)"
  shows "contents db1 nm = contents db nm - routed as ips nm" and "nb_ok db1"
proof -
  have "contents db1 nm = contents db nm - routed as ips nm \<and> nb_ok db1"
  proof (cases "ips = []")
    case True
    then show ?thesis using assms(1,4) by (simp add: DeleteIPs_def routed_def)
  next
    case False
    obtain ops where ops: "DeleteIPsReturnOps w as ips db = Inr ops" "db1 = fold apply_nb_op ops db"
      using assms(4) False by (auto simp: DeleteIPs_def nb_transact_None)
    obtain ops6 ops4 where f: "(case ass_ipv6 as of None \<Rightarrow> Inr [] | Some x \<Rightarrow> oas_deleteIPs w x (snd (splitIPsByFamily ips)) db) = Inr ops6"
      "(case ass_ipv4 as of None \<Rightarrow> Inr [] | Some x \<Rightarrow> oas_deleteIPs w x (fst (splitIPsByFamily ips)) db) = Inr ops4" "ops = ops6 @ ops4"
      using family_ops_split [OF ops(1) [unfolded DeleteIPsReturnOps_def] False] by blast
    have h: "\<forall>x. ass_ipv6 as = Some x \<longrightarrow> oas_hashName x \<noteq> []" "\<forall>x. ass_ipv4 as = Some x \<longrightarrow> oas_hashName x \<noteq> []"
      using assms(3) by (simp_all add: ass_ok_def)
    have r: "same_rows db db" using assms(1) by (simp add: same_rows_def)
    note s6 = delete_family [OF assms(1,2) h(1) f(1) r]
    show ?thesis using s6 delete_family [OF assms(1,2) h(2) f(2) s6(2)] ops(2) f(3) by (auto simp: routed_families same_rows_def)
  qed
  then show "contents db1 nm = contents db nm - routed as ips nm" "nb_ok db1" by simp_all
qed

lemma failed_call_unchanged:
  "AddIPs w as ips db = (Some e, db1) \<Longrightarrow> db1 = db" "DeleteIPs w as ips db = (Some e, db1) \<Longrightarrow> db1 = db"
  by (auto simp: AddIPs_def DeleteIPs_def dest: nb_transact_Some split: if_splits)

section \<open>Creating an address set\<close>

lemma HashForOVN_nonempty [simp]: "HashForOVN s \<noteq> []"
  by (simp add: HashForOVN_def)

definition row_upsert :: "AddressSetRow \<Rightarrow> nb_db \<Rightarrow> nb_op" where
  "row_upsert r db = (case as_row db (as_Name r) of None \<Rightarrow> AsInsert r | Some x \<Rightarrow> AsUpdate (as_Name r) (Some (as_Addresses r)) (Some (as_ExternalIDs r)))"

lemma CreateOrUpdate_one:
  assumes "nb_ok db" "as_Name r \<noteq> []"
  shows "CreateOrUpdateAddressSetsOps ops [r] db = Inr (ops @ [row_upsert r db])"
  using assms by (auto simp: CreateOrUpdateAddressSetsOps_def by_index_ok nb_ok_def row_upsert_def split: option.splits dest: row_of_Some)

lemma row_upsert_effect:
  assumes "nb_ok d" "as_row d (as_Name r) = None \<longleftrightarrow> as_row db (as_Name r) = None"
  shows "contents (apply_nb_op (row_upsert r db) d) nm = (if nm = as_Name r then set (as_Addresses r) else contents d nm)"
    and "nb_ok (apply_nb_op (row_upsert r db) d)"
    and "nm \<noteq> as_Name r \<Longrightarrow> as_row (apply_nb_op (row_upsert r db) d) nm = as_row d nm"
    and "as_row (apply_nb_op (row_upsert r db) d) (as_Name r) \<noteq> None"
proof -
  have "contents (apply_nb_op (row_upsert r db) d) nm = (if nm = as_Name r then set (as_Addresses r) else contents d nm)
    \<and> nb_ok (apply_nb_op (row_upsert r db) d) \<and> (nm \<noteq> as_Name r \<longrightarrow> as_row (apply_nb_op (row_upsert r db) d) nm = as_row d nm)
    \<and> as_row (apply_nb_op (row_upsert r db) d) (as_Name r) \<noteq> None"
  proof (cases "as_row db (as_Name r)")
    case None
    then have n: "as_row d (as_Name r) = None" using assms(2) by simp
    have "nb_ok (apply_nb_op (AsInsert r) d)" using n assms(1) by (auto simp: nb_ok_def row_of_None)
    then show ?thesis using None n contents_insert [OF n] by (auto simp: row_upsert_def row_of_append split: option.split)
  next
    case (Some x)
    then have n: "as_row d (as_Name r) \<noteq> None" using assms(2) by simp
    then show ?thesis using Some assms(1) contents_ops(3) [of "as_Name r" "as_Addresses r" "Some (as_ExternalIDs r)" d nm]
        as_keeps_row [of "AsUpdate (as_Name r) (Some (as_Addresses r)) (Some (as_ExternalIDs r))" d]
      by (auto simp: row_upsert_def on_as_def row_of_on_row)
  qed
  then show "contents (apply_nb_op (row_upsert r db) d) nm = (if nm = as_Name r then set (as_Addresses r) else contents d nm)"
    "nb_ok (apply_nb_op (row_upsert r db) d)" "nm \<noteq> as_Name r \<Longrightarrow> as_row (apply_nb_op (row_upsert r db) d) nm = as_row d nm"
    "as_row (apply_nb_op (row_upsert r db) d) (as_Name r) \<noteq> None" by simp_all
qed

lemma ensure_family_shape:
  assumes "nb_ok db" "ensure_family w b ips ids fam True ops db = Some (Inr (s, ops1))"
  shows "(case s of None \<Rightarrow> \<not> b \<and> ops1 = ops
    | Some x \<Rightarrow> b \<and> (\<exists>r. as_Name r = oas_hashName x \<and> oas_hashName x \<noteq> [] \<and> as_Addresses r = ipsToStringUnique w ips \<and> ops1 = ops @ [row_upsert r db]))"
proof (cases b)
  case True
  then obtain r0 where r0: "buildAddressSet ids fam = Some r0" "as_Name r0 \<noteq> []"
    using assms(2) by (auto simp: ensure_family_def ensureOvnAddressSetOps_def buildAddressSet_def hashedAddressSet_def split: option.splits)
  let ?r = "r0\<lparr>as_Addresses := ipsToStringUnique w ips\<rparr>"
  have "CreateOrUpdateAddressSetsOps ops [?r] db = Inr (ops @ [row_upsert ?r db])" by (rule CreateOrUpdate_one) (use assms(1) r0 in simp_all)
  then have "s = Some (newOvnAddressSet r0) \<and> ops1 = ops @ [row_upsert ?r db]"
    using assms(2) True r0 by (auto simp: ensure_family_def ensureOvnAddressSetOps_def)
  moreover have "as_Name ?r = oas_hashName (newOvnAddressSet r0)" "oas_hashName (newOvnAddressSet r0) \<noteq> []" "as_Addresses ?r = ipsToStringUnique w ips"
    using r0(2) by (simp_all add: newOvnAddressSet_def)
  ultimately show ?thesis using True by (simp only: option.case) blast
qed (use assms(2) in \<open>auto simp: ensure_family_def\<close>)

definition has_name :: "ovnAddressSets \<Rightarrow> string \<Rightarrow> bool" where
  "has_name as nm \<longleftrightarrow> (\<exists>x. (ass_ipv4 as = Some x \<or> ass_ipv6 as = Some x) \<and> oas_hashName x = nm)"

lemma NewAddressSet_effect:
  assumes "nb_ok db" "as_order_ok w" "NewAddressSet w asf ids ips db = Some (Inr as, db1)" "ass_ok as"
  shows "contents db1 nm = (if has_name as nm then routed as ips nm else contents db nm)" and "nb_ok db1"
proof -
  obtain ops where n: "NewAddressSetOps w asf ids ips db = Some (Inr (as, ops))" "db1 = fold apply_nb_op ops db"
  proof -
    obtain z where z: "NewAddressSetOps w asf ids ips db = Some z" "commit_address_sets w db z = (Inr as, db1)"
      using assms(3) by (auto simp: NewAddressSet_def)
    then show ?thesis using that by (cases z) (auto simp: commit_address_sets_def TransactAndCheck_def split: if_splits)
  qed
  obtain s4 ops4 s6 where f: "ensure_family w (asf_ipv4Mode asf) (fst (splitIPsByFamily ips)) ids ipv4InternalID True [] db = Some (Inr (s4, ops4))"
    "ensure_family w (asf_ipv6Mode asf) (snd (splitIPsByFamily ips)) ids ipv6InternalID True ops4 db = Some (Inr (s6, ops))"
    "as = newOvnAddressSets s4 s6 ids"
    using n(1) by (auto simp: NewAddressSetOps_def ensureOvnAddressSetsOps_def split: if_splits option.splits sum.splits)
  have s: "ass_ipv4 as = s4" "ass_ipv6 as = s6" using f(3) by (simp_all add: newOvnAddressSets_def)
  define d where "d = fold apply_nb_op ops4 db"
  have d: "nb_ok d \<and> (\<forall>nm. contents d nm = (if \<exists>x. s4 = Some x \<and> oas_hashName x = nm then fam_part s4 (fst (splitIPsByFamily ips)) nm else contents db nm)
      \<and> ((\<forall>x. s4 = Some x \<longrightarrow> oas_hashName x \<noteq> nm) \<longrightarrow> as_row d nm = as_row db nm))"
    using ensure_family_shape [OF assms(1) f(1)] assms(1) row_upsert_effect [OF assms(1)] ipsToStringUnique_set [OF assms(2)]
    by (auto simp: d_def fam_part_def split: option.splits)
  have "contents db1 nm = (if \<exists>x. s6 = Some x \<and> oas_hashName x = nm then fam_part s6 (snd (splitIPsByFamily ips)) nm else contents d nm) \<and> nb_ok db1"
  proof (cases s6)
    case None
    then show ?thesis using ensure_family_shape [OF assms(1) f(2)] d n(2) by (auto simp: d_def)
  next
    case (Some y)
    then obtain r where r: "as_Name r = oas_hashName y" "as_Addresses r = ipsToStringUnique w (snd (splitIPsByFamily ips))" "ops = ops4 @ [row_upsert r db]"
      using ensure_family_shape [OF assms(1) f(2)] by auto
    have "as_row d (as_Name r) = as_row db (as_Name r)" using d assms(4) s Some r(1) by (auto simp: ass_ok_def)
    then show ?thesis using row_upsert_effect(1,2) [of d r db] d Some r n(2) ipsToStringUnique_set [OF assms(2)] by (auto simp: d_def fam_part_def)
  qed
  then have "contents db1 nm = (if has_name as nm then routed as ips nm else contents db nm) \<and> nb_ok db1"
    using d assms(4) s unfolding routed_families has_name_def ass_ok_def fam_part_def by (auto split: option.splits)
  then show "contents db1 nm = (if has_name as nm then routed as ips nm else contents db nm)" "nb_ok db1" by simp_all
qed

section \<open>Sequences of calls\<close>

datatype as_call = CallAdd "ip list" | CallDelete "ip list"

fun as_step :: "ovnAddressSets \<Rightarrow> nb_answers \<times> as_call \<Rightarrow> nb_db \<Rightarrow> nb_error option \<times> nb_db" where
  "as_step as (w, CallAdd ips) db = AddIPs w as ips db"
| "as_step as (w, CallDelete ips) db = DeleteIPs w as ips db"

fun as_spec :: "ovnAddressSets \<Rightarrow> string \<Rightarrow> as_call \<Rightarrow> string set \<Rightarrow> string set" where
  "as_spec as nm (CallAdd ips) S = S \<union> routed as ips nm"
| "as_spec as nm (CallDelete ips) S = S - routed as ips nm"

fun as_run :: "ovnAddressSets \<Rightarrow> (nb_answers \<times> as_call) list \<Rightarrow> nb_db \<Rightarrow> as_call list \<times> nb_db" where
  "as_run as [] db = ([], db)"
| "as_run as (c # cs) db =
     (case as_step as c db of
        (None, db1) \<Rightarrow> (case as_run as cs db1 of (oks, db2) \<Rightarrow> (snd c # oks, db2))
      | (Some _, db1) \<Rightarrow> as_run as cs db1)"

lemma as_run_effect:
  assumes "nb_ok db" "ass_ok as" "\<forall>c \<in> set cs. as_order_ok (fst c)" "as_run as cs db = (oks, db1)"
  shows "contents db1 nm = fold (as_spec as nm) oks (contents db nm)"
  using assms
proof (induction cs arbitrary: db oks)
  case (Cons c cs)
  obtain w call where c: "c = (w, call)" by fastforce
  obtain r d where r: "as_step as c db = (r, d)" by fastforce
  have o: "as_order_ok w" using Cons.prems(3) c by simp
  show ?case
  proof (cases r)
    case None
    then obtain oks1 where oks1: "as_run as cs d = (oks1, db1)" "oks = call # oks1"
      using Cons.prems(4) r c by (auto split: prod.splits)
    have e: "contents d nm = as_spec as nm call (contents db nm) \<and> nb_ok d"
      using r None c AddIPs_effect [OF Cons.prems(1) o Cons.prems(2)] DeleteIPs_effect [OF Cons.prems(1) o Cons.prems(2)] by (cases call) auto
    then show ?thesis using Cons.IH [of d oks1] Cons.prems(2,3) oks1 by simp
  next
    case (Some err)
    then have "d = db" using r c failed_call_unchanged by (cases call) auto
    then show ?thesis using Cons.IH [of db oks] Cons.prems r Some by simp
  qed
qed simp

text \<open>C12: An address set behaves as a set of addresses: after it is created and any sequence of additions and deletions,
  some of which may fail, each of its two rows holds exactly the addresses of its family that result from the calls
  that succeeded, and the rows of other address sets are as before.\<close>

theorem address_set_refines_sets:
  assumes "nb_ok db" "as_order_ok w" "NewAddressSet w asf ids ips db = Some (Inr as, db1)" "ass_ok as"
    and "\<forall>c \<in> set cs. as_order_ok (fst c)" "as_run as cs db1 = (oks, db2)"
  shows "contents db2 nm = (if has_name as nm then fold (as_spec as nm) oks (routed as ips nm) else contents db nm)"
proof -
  note n = NewAddressSet_effect [OF assms(1-4)]
  have r: "contents db2 nm = fold (as_spec as nm) oks (contents db1 nm)" by (rule as_run_effect [OF n(2) assms(4-6)])
  have "fold (as_spec as nm) xs S = S" if "\<not> has_name as nm" for xs S
  proof -
    have "routed as ips nm = {}" for ips using that by (auto simp: routed_def has_name_def)
    then have "as_spec as nm c S = S" for c S by (cases c) simp_all
    then show ?thesis by (induction xs) simp_all
  qed
  then show ?thesis using r n(1) [of nm] by simp
qed


definition example_answers :: nb_answers where
  "example_answers = \<lparr>na_commits = (\<lambda>_. True), na_lists = True, na_setOrder = (\<lambda>xs. xs)\<rparr>"

definition example_asf :: ovnAddressSetFactory where
  "example_asf = \<lparr>asf_ipv4Mode = True, asf_ipv6Mode = True\<rparr>"

definition namespace_ids :: DbObjectIDs where
  "namespace_ids = \<lparr>di_type = AddressSetNamespace, di_controller = ''default-network-controller'', di_ids = [(ObjectNameKey, ''ns1'')]\<rparr>"

definition example_ips :: "ip list" where
  "example_ips = [[10, 244, 0, 5], [0xfd, 0, 0, 0, 0, 0, 0, 0, 0, 0, 0, 0, 0, 0, 0, 5]]"

definition empty_nb :: nb_db where
  "empty_nb = \<lparr>nb_AddressSets = [], nb_PortGroups = [], nb_ACLs = []\<rparr>"

definition example_as :: ovnAddressSets where
  "example_as = \<lparr>ass_name = ''default-network-controller:Namespace:ns1:'',
     ass_ipv4 = Some \<lparr>oas_name = ''default-network-controller:Namespace:ns1:v4'', oas_hashName = ''a3835515562697250779''\<rparr>,
     ass_ipv6 = Some \<lparr>oas_name = ''default-network-controller:Namespace:ns1:v6'', oas_hashName = ''a3835517761720507201''\<rparr>\<rparr>"

definition example_row :: "string \<Rightarrow> string \<Rightarrow> string \<Rightarrow> AddressSetRow" where
  "example_row nm fam x = \<lparr>as_Name = nm, as_ExternalIDs =
     [(''k8s.ovn.org/owner-controller'', ''default-network-controller''), (''k8s.ovn.org/owner-type'', ''Namespace''), (''k8s.ovn.org/name'', ''ns1''),
      (''ip-family'', fam), (''k8s.ovn.org/id'', ''default-network-controller:Namespace:ns1:'' @ fam)], as_Addresses = [x]\<rparr>"

definition example_nb :: nb_db where
  "example_nb = empty_nb\<lparr>nb_AddressSets := [example_row ''a3835515562697250779'' ''v4'' ''10.244.0.5'', example_row ''a3835517761720507201'' ''v6'' ''fd00::5'']\<rparr>"

definition example_calls :: "(nb_answers \<times> as_call) list" where
  "example_calls = [(example_answers, CallAdd [[10, 244, 0, 6]]), (example_answers, CallDelete [[10, 244, 0, 5]])]"

lemma example_created: "NewAddressSet example_answers example_asf namespace_ids example_ips empty_nb = Some (Inr example_as, example_nb)"
  by code_simp

lemma example_ran: "fst (as_run example_as example_calls example_nb) = [CallAdd [[10, 244, 0, 6]], CallDelete [[10, 244, 0, 5]]]"
  by code_simp

theorem address_set_refines_sets_witness:
  "contents (snd (as_run example_as example_calls example_nb)) ''a3835515562697250779'' =
    (if has_name example_as ''a3835515562697250779''
     then fold (as_spec example_as ''a3835515562697250779'') [CallAdd [[10, 244, 0, 6]], CallDelete [[10, 244, 0, 5]]] (routed example_as example_ips ''a3835515562697250779'') else contents empty_nb ''a3835515562697250779'')"
proof (rule address_set_refines_sets [OF _ _ example_created])
  show "nb_ok empty_nb" by (simp add: nb_ok_def empty_nb_def)
  show "as_order_ok example_answers" by (simp add: as_order_ok_def example_answers_def)
  show "ass_ok example_as" by (simp add: ass_ok_def example_as_def)
  show "\<forall>c \<in> set example_calls. as_order_ok (fst c)" by (simp add: example_calls_def as_order_ok_def example_answers_def)
  show "as_run example_as example_calls example_nb = ([CallAdd [[10, 244, 0, 6]], CallDelete [[10, 244, 0, 5]]], snd (as_run example_as example_calls example_nb))"
    using example_ran by (metis prod.collapse)
qed

text \<open>The error of the IPv4 set is lost when the IPv6 set does not fail, so in a cluster with only IPv4 the replacement of
  the addresses never reports an error, even when nothing was written.\<close>

lemma SetIPs_v4_error_lost: "ass_ipv6 as = None \<Longrightarrow> fst (SetIPs w as ips db) = None"
  by (simp add: SetIPs_def split: option.split prod.split)

lemma SetIPs_v4_not_written:
  "oas_setIPs (example_answers\<lparr>na_commits := (\<lambda>_. False)\<rparr>) (the (ass_ipv4 example_as)) [[10, 244, 0, 7]] example_nb = (Some TransactFailed, example_nb)"
  "SetIPs (example_answers\<lparr>na_commits := (\<lambda>_. False)\<rparr>) (example_as\<lparr>ass_ipv6 := None\<rparr>) [[10, 244, 0, 7]] example_nb = (None, example_nb)"
  by code_simp+

text \<open>The error of a listing that failed is lost when address sets are deleted by a predicate.\<close>

lemma DeleteAddressSetsWithPredicate_list_error: "\<not> na_lists w \<Longrightarrow> DeleteAddressSetsWithPredicate w p db = (None, db)"
  by (simp add: DeleteAddressSetsWithPredicate_def DeleteAddressSetsWithPredicateOps_def FindAddressSetsWithPredicate_def)

end
