(* ===== verification/Gress_Policy.thy ===== *)
theory Gress_Policy
  imports Address_Set Node_Annotations
begin

text \<open>
  The rules of a network policy and the ACLs that implement them (\<open>pkg/ovn/gress_policy.go\<close>, \<open>pkg/libovsdb/util/acl.go\<close>).
  An ACL matches packets by an expression of OVN, which the code builds as text. Here the text is built in the same way,
  and \<open>render\<close> relates it to a syntax tree with a meaning, so that the ACLs can be compared with the rule.
\<close>

section \<open>ACLs\<close>

definition LportIngress :: string where "LportIngress = ''to-lport''"

definition LportEgressAfterLB :: string where "LportEgressAfterLB = ''from-lport-after-lb''"

definition PolicyTypeToAclPipeline :: "string \<Rightarrow> string option" where
  "PolicyTypeToAclPipeline policyType =
     (if policyType = ''Egress'' then Some LportEgressAfterLB else if policyType = ''Ingress'' then Some LportIngress else None)"

definition ACLDirectionToACLPipeline :: "string \<Rightarrow> string option" where
  "ACLDirectionToACLPipeline aclDir =
     (if aclDir = ''Egress'' then Some LportEgressAfterLB else if aclDir = ''Ingress'' then Some LportIngress else None)"

definition HashedPortGroup :: "string \<Rightarrow> string" where
  "HashedPortGroup s = HashForOVN s"

definition JoinACLName :: "string list \<Rightarrow> string" where
  "JoinACLName substrings = join ''_'' substrings"

definition GetACLName :: "DbObjectIDs \<Rightarrow> string" where
  "GetACLName dbIDs =
     (let t = di_type dbIDs; nm = GetObjectID ObjectNameKey dbIDs; dir = GetObjectID PolicyDirectionKey dbIDs; idx = GetObjectID GressIdxKey dbIDs;
          aclName =
            (if IsSameType t ACLNetworkPolicy then ''NP:'' @ nm @ '':'' @ dir @ '':'' @ idx
             else if IsSameType t ACLNetpolNamespace then ''NP:'' @ nm @ '':'' @ dir
             else if IsSameType t ACLEgressFirewall then ''EF:'' @ nm @ '':'' @ GetObjectID RuleIndex dbIDs
             else if IsSameType t ACLAdminNetworkPolicy then ''ANP:'' @ nm @ '':'' @ dir @ '':'' @ idx
             else if IsSameType t ACLBaselineAdminNetworkPolicy then ''BANP:'' @ nm @ '':'' @ dir @ '':'' @ idx
             else [])
      in take 63 aclName)"

record ACLLoggingLevels =
  al_Allow :: string
  al_Deny :: string

definition getLogSeverity :: "string \<Rightarrow> ACLLoggingLevels option \<Rightarrow> bool \<times> string" where
  "getLogSeverity action aclLogging =
     (let severity =
        (case aclLogging of
           None \<Rightarrow> []
         | Some l \<Rightarrow>
             if action \<in> {''allow'', ''allow-related'', ''allow-stateless''} then al_Allow l
             else if action \<in> {''drop'', ''reject''} then al_Deny l else [])
      in (severity \<noteq> [], severity))"

definition DefaultAllowPriority :: int where "DefaultAllowPriority = 1001"

definition DefaultDenyPriority :: int where "DefaultDenyPriority = 1000"

definition DefaultACLTier :: int where "DefaultACLTier = 2"

definition DefaultANPACLTier :: int where "DefaultANPACLTier = 1"

definition DefaultBANPACLTier :: int where "DefaultBANPACLTier = 3"

definition OvnACLLoggingMeter :: string where "OvnACLLoggingMeter = ''acl-logging''"

definition BuildACL :: "DbObjectIDs \<Rightarrow> int \<Rightarrow> string \<Rightarrow> string \<Rightarrow> ACLLoggingLevels option \<Rightarrow> string \<Rightarrow> ACL option" where
  "BuildACL dbIDs priority match action logLevels aclT =
     (case (if aclT = LportEgressAfterLB then Some (''from-lport'', [(''apply-after-lb'', ''true'')])
            else if aclT = LportIngress then Some (''to-lport'', []) else None) of
        None \<Rightarrow> None
      | Some (direction, options) \<Rightarrow>
          map_option (\<lambda>externalIDs.
              case getLogSeverity action logLevels of (log, logSeverity) \<Rightarrow>
                build_ACL (GetACLName dbIDs) direction priority match action OvnACLLoggingMeter logSeverity log externalIDs options DefaultACLTier)
            (GetExternalIDs dbIDs))"

definition GetACLTier :: "DbObjectIDs \<Rightarrow> int" where
  "GetACLTier dbIDs =
     (if IsSameType (di_type dbIDs) ACLAdminNetworkPolicy then DefaultANPACLTier
      else if IsSameType (di_type dbIDs) ACLBaselineAdminNetworkPolicy then DefaultBANPACLTier else DefaultACLTier)"

definition BuildANPACL :: "DbObjectIDs \<Rightarrow> int \<Rightarrow> string \<Rightarrow> string \<Rightarrow> string \<Rightarrow> ACL option" where
  "BuildANPACL dbIDs priority match action aclT =
     map_option (\<lambda>a. a\<lparr>acl_Tier := GetACLTier dbIDs\<rparr>) (BuildACL dbIDs priority match action None aclT)"

definition GetACLMatch :: "string \<Rightarrow> string \<Rightarrow> string \<Rightarrow> string option" where
  "GetACLMatch portGroupName match aclDir =
     map_option (\<lambda>m. if match \<noteq> [] then m @ '' && '' @ match else m)
       (if aclDir = ''Ingress'' then Some (''outport == @'' @ portGroupName)
        else if aclDir = ''Egress'' then Some (''inport == @'' @ portGroupName) else None)"

definition UpdateACLLogging :: "nb_answers \<Rightarrow> ACL list \<Rightarrow> ACLLoggingLevels option \<Rightarrow> nb_db \<Rightarrow> nb_error option \<times> nb_db" where
  "UpdateACLLogging w acls aclLogging db =
     (if acls = [] then (None, db)
      else nb_transact w (UpdateACLsLoggingOps []
             (map (\<lambda>a. case getLogSeverity (acl_Action a) aclLogging of (log, severity) \<Rightarrow> SetACLLogging severity log a) acls) db) db)"

definition UpdateACLLoggingWithPredicate :: "nb_answers \<Rightarrow> (ACL \<Rightarrow> bool) \<Rightarrow> ACLLoggingLevels option \<Rightarrow> nb_db \<Rightarrow> nb_error option \<times> nb_db" where
  "UpdateACLLoggingWithPredicate w p aclLogging db =
     (case FindACLsWithPredicate w p db of Inl e \<Rightarrow> (Some e, db) | Inr acls \<Rightarrow> UpdateACLLogging w acls aclLogging db)"

section \<open>Gress policies\<close>

record portPolicy =
  pp_protocol :: string
  pp_port :: int
  pp_endPort :: int

record gressPolicyPorts =
  gpp_portList :: "string list"
  gpp_portRange :: "string list"

record IPBlock =
  ib_CIDR :: string
  ib_Except :: "string list"

text \<open>The peer address sets are maps used as sets: lists of the references in the order in which they were stored.\<close>

record gressPolicy =
  gp_controllerName :: string
  gp_policyNamespace :: string
  gp_policyName :: string
  gp_policyType :: string
  gp_aclPipeline :: string
  gp_idx :: int
  gp_peerV4AddressSets :: "string list"
  gp_peerV6AddressSets :: "string list"
  gp_hasPeerSelector :: bool
  gp_portPolicies :: "portPolicy list"
  gp_ipBlocks :: "IPBlock list"
  gp_isNetPolStateless :: bool
  gp_ipv4Mode :: bool
  gp_ipv6Mode :: bool

definition noneMatch :: string where "noneMatch = ''None''"

definition emptyIdx :: int where "emptyIdx = - 1"

definition emptyProtocol :: string where "emptyProtocol = ''None''"

definition supportedProtocols :: "string list" where
  "supportedProtocols = [''TCP'', ''UDP'', ''SCTP'']"

definition to_lower :: "string \<Rightarrow> string" where
  "to_lower s = map lower s"

definition add_port :: "portPolicy \<Rightarrow> (string \<times> gressPolicyPorts) list \<Rightarrow> (string \<times> gressPolicyPorts) list" where
  "add_port pp m =
     (if pp_protocol pp \<notin> set supportedProtocols then m
      else let protocol = to_lower (pp_protocol pp);
               gpp = (case map_of m protocol of None \<Rightarrow> \<lparr>gpp_portList = [], gpp_portRange = []\<rparr> | Some g \<Rightarrow> g);
               gpp1 = (if pp_endPort pp \<noteq> 0 \<and> pp_endPort pp \<noteq> pp_port pp
                       then gpp\<lparr>gpp_portRange := gpp_portRange gpp @ [itoa (pp_port pp) @ ''<='' @ protocol @ ''.dst<='' @ itoa (pp_endPort pp)]\<rparr>
                       else if pp_port pp \<noteq> 0 then gpp\<lparr>gpp_portList := gpp_portList gpp @ [itoa (pp_port pp)]\<rparr> else gpp)
           in AList.update protocol gpp1 m)"

definition getProtocolPortsMap :: "gressPolicy \<Rightarrow> (string \<times> gressPolicyPorts) list" where
  "getProtocolPortsMap gp = fold add_port (gp_portPolicies gp) []"

definition getL4Match :: "string \<Rightarrow> gressPolicyPorts \<Rightarrow> string" where
  "getL4Match protocol ports =
     (let listed =
            (if gpp_portList ports = [] then []
             else if length (gpp_portList ports) > 1 then [protocol @ ''.dst=={'' @ join '','' (gpp_portList ports) @ ''}'']
             else [protocol @ ''.dst=='' @ join '','' (gpp_portList ports)]);
          allL4Matches = listed @ gpp_portRange ports
      in if allL4Matches = [] then protocol
         else if length allL4Matches > 1 then protocol @ '' && ('' @ join '' || '' allL4Matches @ '')''
         else protocol @ '' && '' @ join '' || '' allL4Matches)"

definition newGressPolicy :: "string \<Rightarrow> int \<Rightarrow> string \<Rightarrow> string \<Rightarrow> string \<Rightarrow> bool \<Rightarrow> bool \<times> bool \<Rightarrow> gressPolicy option" where
  "newGressPolicy policyType idx namespace name controllerName stateless ipMode =
     map_option (\<lambda>pipeline. \<lparr>gp_controllerName = controllerName, gp_policyNamespace = namespace, gp_policyName = name, gp_policyType = policyType,
         gp_aclPipeline = pipeline, gp_idx = idx, gp_peerV4AddressSets = [], gp_peerV6AddressSets = [], gp_hasPeerSelector = False,
         gp_portPolicies = [], gp_ipBlocks = [], gp_isNetPolStateless = stateless, gp_ipv4Mode = fst ipMode, gp_ipv6Mode = snd ipMode\<rparr>)
       (PolicyTypeToAclPipeline policyType)"

text \<open>\<open>sync.Map\<close> used as a set.\<close>

definition map_store :: "string \<Rightarrow> string list \<Rightarrow> string list" where
  "map_store x xs = (if x \<in> set xs then xs else xs @ [x])"

definition addPeerAddressSets :: "string \<Rightarrow> string \<Rightarrow> gressPolicy \<Rightarrow> gressPolicy" where
  "addPeerAddressSets asHashNameV4 asHashNameV6 gp =
     gp\<lparr>gp_peerV4AddressSets := (if gp_ipv4Mode gp \<and> asHashNameV4 \<noteq> [] then map_store (''$'' @ asHashNameV4) (gp_peerV4AddressSets gp) else gp_peerV4AddressSets gp),
        gp_peerV6AddressSets := (if gp_ipv6Mode gp \<and> asHashNameV6 \<noteq> [] then map_store (''$'' @ asHashNameV6) (gp_peerV6AddressSets gp) else gp_peerV6AddressSets gp)\<rparr>"

record NetworkPolicyPort =
  np_Protocol :: "string option"
  np_Port :: "int option"
  np_EndPort :: "int option"

text \<open>A nil protocol crashes. \<open>np_Port\<close> is the field \<open>IntVal\<close> of the port, which is 0 for a named port.\<close>

definition addPortPolicy :: "NetworkPolicyPort \<Rightarrow> gressPolicy \<Rightarrow> gressPolicy option" where
  "addPortPolicy portJSON gp =
     map_option (\<lambda>protocol. gp\<lparr>gp_portPolicies := gp_portPolicies gp @ [\<lparr>pp_protocol = protocol,
         pp_port = (case np_Port portJSON of None \<Rightarrow> 0 | Some p \<Rightarrow> p), pp_endPort = (case np_EndPort portJSON of None \<Rightarrow> 0 | Some p \<Rightarrow> p)\<rparr>]\<rparr>)
       (np_Protocol portJSON)"

definition addIPBlock :: "IPBlock \<Rightarrow> gressPolicy \<Rightarrow> gressPolicy" where
  "addIPBlock b gp = gp\<lparr>gp_ipBlocks := gp_ipBlocks gp @ [b]\<rparr>"

definition gress_direction :: "gressPolicy \<Rightarrow> string" where
  "gress_direction gp = (if gp_policyType gp = ''Ingress'' then ''src'' else ''dst'')"

text \<open>Sorting strings as Go does: by bytes.\<close>

fun string_less_eq :: "string \<Rightarrow> string \<Rightarrow> bool" where
  "string_less_eq [] t = True"
| "string_less_eq (c # s) [] = False"
| "string_less_eq (c # s) (d # t) = (if c = d then string_less_eq s t else (of_char c :: nat) < of_char d)"

fun insert_string :: "string \<Rightarrow> string list \<Rightarrow> string list" where
  "insert_string x [] = [x]"
| "insert_string x (y # ys) = (if string_less_eq x y then x # y # ys else y # insert_string x ys)"

definition sort_strings :: "string list \<Rightarrow> string list" where
  "sort_strings xs = foldr insert_string xs []"

definition address_sets_match :: "string \<Rightarrow> string \<Rightarrow> string list \<Rightarrow> string" where
  "address_sets_match fam direction sets = fam @ ''.'' @ direction @ '' == {'' @ join '', '' sets @ ''}''"

definition getL3MatchFromAddressSet :: "gressPolicy \<Rightarrow> string" where
  "getL3MatchFromAddressSet gp =
     (let v4 = sort_strings (gp_peerV4AddressSets gp); v6 = sort_strings (gp_peerV6AddressSets gp);
          v4Match = (if gp_ipv4Mode gp \<and> v4 \<noteq> [] then address_sets_match ''ip4'' (gress_direction gp) v4 else []);
          v6Match = (if gp_ipv6Mode gp \<and> v6 \<noteq> [] then address_sets_match ''ip6'' (gress_direction gp) v6 else [])
      in if v4Match \<noteq> [] \<and> v6Match \<noteq> [] then ''('' @ v4Match @ '' || '' @ v6Match @ '')''
         else if v6Match \<noteq> [] then v6Match else v4Match)"

definition allIPsMatch :: "gressPolicy \<Rightarrow> string" where
  "allIPsMatch gp = (if gp_ipv4Mode gp \<and> gp_ipv6Mode gp then ''(ip4 || ip6)'' else if gp_ipv6Mode gp then ''ip6'' else ''ip4'')"

definition IsIPv6CIDRString :: "string \<Rightarrow> bool" where
  "IsIPv6CIDRString cidr = (case ParseCIDRSloppy cidr of None \<Rightarrow> False | Some (x, _) \<Rightarrow> IPFamilyOf x = IPv6)"

definition block_family :: "IPBlock \<Rightarrow> string" where
  "block_family b = (if IsIPv6CIDRString (ib_CIDR b) then ''ip6'' else ''ip4'')"

definition getMatchFromIPBlock :: "string \<Rightarrow> string \<Rightarrow> gressPolicy \<Rightarrow> string list" where
  "getMatchFromIPBlock lportMatch l4Match gp =
     map (\<lambda>b. let field = block_family b @ ''.'' @ gress_direction gp;
                   matchStr = (if ib_Except b = [] then field @ '' == '' @ ib_CIDR b
                               else field @ '' == '' @ ib_CIDR b @ '' && '' @ field @ '' != {'' @ join '', '' (ib_Except b) @ ''}'')
               in if l4Match = noneMatch then matchStr @ '' && '' @ lportMatch else matchStr @ '' && '' @ l4Match @ '' && '' @ lportMatch)
       (gp_ipBlocks gp)"

definition getNamespaceAddrSetDbIDs :: "string \<Rightarrow> string \<Rightarrow> DbObjectIDs option" where
  "getNamespaceAddrSetDbIDs namespaceName controller = NewDbObjectIDs AddressSetNamespace controller [(ObjectNameKey, namespaceName)]"

definition addNamespaceAddressSet :: "nb_answers \<Rightarrow> string \<Rightarrow> nb_db \<Rightarrow> gressPolicy \<Rightarrow> ((nb_error + bool) \<times> gressPolicy) option" where
  "addNamespaceAddressSet w name db gp =
     (case getNamespaceAddrSetDbIDs name (gp_controllerName gp) of
        None \<Rightarrow> None
      | Some dbIDs \<Rightarrow>
          Some (case GetAddressSet w dbIDs db of
                  Inl e \<Rightarrow> (Inl e, gp)
                | Inr as \<Rightarrow>
                    (let v4 = ''$'' @ fst (GetASHashNames as); v6 = ''$'' @ snd (GetASHashNames as);
                         v4NoUpdate = (\<not> gp_ipv4Mode gp \<or> v4 \<in> set (gp_peerV4AddressSets gp));
                         v6NoUpdate = (\<not> gp_ipv6Mode gp \<or> v6 \<in> set (gp_peerV6AddressSets gp))
                     in (Inr (\<not> (v4NoUpdate \<and> v6NoUpdate)),
                         gp\<lparr>gp_peerV4AddressSets := (if gp_ipv4Mode gp then map_store v4 (gp_peerV4AddressSets gp) else gp_peerV4AddressSets gp),
                            gp_peerV6AddressSets := (if gp_ipv6Mode gp then map_store v6 (gp_peerV6AddressSets gp) else gp_peerV6AddressSets gp)\<rparr>))))"

definition delNamespaceAddressSet :: "string \<Rightarrow> gressPolicy \<Rightarrow> (bool \<times> gressPolicy) option" where
  "delNamespaceAddressSet name gp =
     (case getNamespaceAddrSetDbIDs name (gp_controllerName gp) of
        None \<Rightarrow> None
      | Some dbIDs \<Rightarrow>
          map_option (\<lambda>(h4, h6).
              let v4 = ''$'' @ h4; v6 = ''$'' @ h6;
                  v4Update = (gp_ipv4Mode gp \<and> v4 \<in> set (gp_peerV4AddressSets gp));
                  v6Update = (gp_ipv6Mode gp \<and> v6 \<in> set (gp_peerV6AddressSets gp))
              in (v4Update \<or> v6Update,
                  gp\<lparr>gp_peerV4AddressSets := (if gp_ipv4Mode gp then removeAll v4 (gp_peerV4AddressSets gp) else gp_peerV4AddressSets gp),
                     gp_peerV6AddressSets := (if gp_ipv6Mode gp then removeAll v6 (gp_peerV6AddressSets gp) else gp_peerV6AddressSets gp)\<rparr>))
            (GetHashNamesForAS dbIDs))"

definition gress_isEmpty :: "gressPolicy \<Rightarrow> bool" where
  "gress_isEmpty gp \<longleftrightarrow> \<not> gp_hasPeerSelector gp \<and> gp_ipBlocks gp = []"

definition getACLPolicyKey :: "string \<Rightarrow> string \<Rightarrow> string" where
  "getACLPolicyKey policyNamespace policyName = policyNamespace @ '':'' @ policyName"

fun split_colon :: "string \<Rightarrow> string list" where
  "split_colon [] = [[]]"
| "split_colon (c # s) = (if c = CHR '':'' then [] # split_colon s else (c # hd (split_colon s)) # tl (split_colon s))"

definition parseACLPolicyKey :: "string \<Rightarrow> (string \<times> string) option" where
  "parseACLPolicyKey aclPolicyKey = (case split_colon aclPolicyKey of [a, b] \<Rightarrow> Some (a, b) | _ \<Rightarrow> None)"

definition getNetpolACLDbIDs :: "int \<Rightarrow> string \<Rightarrow> gressPolicy \<Rightarrow> DbObjectIDs option" where
  "getNetpolACLDbIDs ipBlockIdx protocol gp =
     NewDbObjectIDs ACLNetworkPolicy (gp_controllerName gp)
       [(ObjectNameKey, getACLPolicyKey (gp_policyNamespace gp) (gp_policyName gp)), (PolicyDirectionKey, gp_policyType gp),
        (GressIdxKey, itoa (gp_idx gp)), (IpBlockIndexKey, itoa ipBlockIdx), (PortPolicyProtocolKey, protocol)]"

definition netpol_acl :: "ACLLoggingLevels option \<Rightarrow> gressPolicy \<Rightarrow> string \<Rightarrow> int \<Rightarrow> string \<Rightarrow> ACL option" where
  "netpol_acl aclLogging gp protocol idx match =
     Option.bind (getNetpolACLDbIDs idx protocol gp) (\<lambda>ids.
       BuildACL ids DefaultAllowPriority match (if gp_isNetPolStateless gp then ''allow-stateless'' else ''allow-related'') aclLogging (gp_aclPipeline gp))"

definition lport_match :: "string \<Rightarrow> gressPolicy \<Rightarrow> string" where
  "lport_match portGroupName gp = (if gp_policyType gp = ''Ingress'' then ''outport == @'' else ''inport == @'') @ portGroupName"

fun option_all :: "'a option list \<Rightarrow> 'a list option" where
  "option_all [] = Some []"
| "option_all (x # xs) = (case x of None \<Rightarrow> None | Some a \<Rightarrow> map_option ((#) a) (option_all xs))"

text \<open>One round of the loop over the protocols: the ACLs of the address blocks and the ACL of the address sets with
  whether it is created or skipped.\<close>

definition protocol_acls ::
  "string \<Rightarrow> ACLLoggingLevels option \<Rightarrow> gressPolicy \<Rightarrow> string \<Rightarrow> gressPolicyPorts option \<Rightarrow> (ACL list \<times> ACL list) option" where
  "protocol_acls portGroupName aclLogging gp protocol ports =
     (let lportMatch = lport_match portGroupName gp;
          l4Match = (case ports of None \<Rightarrow> noneMatch | Some p \<Rightarrow> getL4Match protocol p);
          blocks = option_all (map (\<lambda>(i, m). netpol_acl aclLogging gp protocol i m) (zip (map int [0..<length (gp_ipBlocks gp)]) (getMatchFromIPBlock lportMatch l4Match gp)))
      in case blocks of
           None \<Rightarrow> None
         | Some created \<Rightarrow>
             if gp_hasPeerSelector gp \<or> gress_isEmpty gp then
               (let l3Match = (if gress_isEmpty gp then allIPsMatch gp else getL3MatchFromAddressSet gp);
                    addrSetMatch = (if l4Match = noneMatch then l3Match @ '' && '' @ lportMatch else l3Match @ '' && '' @ l4Match @ '' && '' @ lportMatch)
                in map_option (\<lambda>acl. if l3Match = [] then (created, [acl]) else (created @ [acl], []))
                     (netpol_acl aclLogging gp protocol emptyIdx addrSetMatch))
             else Some (created, []))"

fun append_acls :: "(ACL list \<times> ACL list) option list \<Rightarrow> (ACL list \<times> ACL list) option" where
  "append_acls [] = Some ([], [])"
| "append_acls (x # xs) =
     (case (x, append_acls xs) of
        (Some (c, s), Some (c1, s1)) \<Rightarrow> Some (c @ c1, s @ s1)
      | _ \<Rightarrow> None)"

definition buildLocalPodACLs ::
  "(string list \<Rightarrow> string list) \<Rightarrow> string \<Rightarrow> ACLLoggingLevels option \<Rightarrow> gressPolicy \<Rightarrow> (ACL list \<times> ACL list) option" where
  "buildLocalPodACLs order portGroupName aclLogging gp =
     (let m = getProtocolPortsMap gp;
          entries = (if m = [] then [(emptyProtocol, None)] else map (\<lambda>p. (p, map_of m p)) (order (map fst m)))
      in append_acls (map (\<lambda>(protocol, ports). protocol_acls portGroupName aclLogging gp protocol ports) entries))"


section \<open>The meaning of match expressions\<close>

datatype mexpr =
    MProto string
  | MDst string "int list"
  | MRange int string int
  | MSets string string "string list"
  | MCidr string string string
  | MNotIn string string "string list"
  | MFam string
  | MPort string string
  | MAnd "mexpr list"
  | MOr "mexpr list"

fun render :: "mexpr \<Rightarrow> string" where
  "render (MProto p) = p"
| "render (MDst p ports) =
     (if length ports > 1 then p @ ''.dst=={'' @ join '','' (map itoa ports) @ ''}'' else p @ ''.dst=='' @ join '','' (map itoa ports))"
| "render (MRange lo p hi) = itoa lo @ ''<='' @ p @ ''.dst<='' @ itoa hi"
| "render (MSets fam dir refs) = address_sets_match fam dir refs"
| "render (MCidr fam dir c) = fam @ ''.'' @ dir @ '' == '' @ c"
| "render (MNotIn fam dir cs) = fam @ ''.'' @ dir @ '' != {'' @ join '', '' cs @ ''}''"
| "render (MFam fam) = fam"
| "render (MPort field pg) = field @ '' == @'' @ pg"
| "render (MAnd es) = join '' && '' (map render es)"
| "render (MOr es) = ''('' @ join '' || '' (map render es) @ '')''"

record packet =
  pk_proto :: string
  pk_dport :: int
  pk_fam :: string
  pk_src :: ip
  pk_dst :: ip
  pk_inport :: string
  pk_outport :: string

record match_env =
  me_sets :: "string \<Rightarrow> string set"
  me_groups :: "string \<Rightarrow> string set"

definition pk_addr :: "string \<Rightarrow> packet \<Rightarrow> ip" where
  "pk_addr dir p = (if dir = ''src'' then pk_src p else pk_dst p)"

definition in_cidr :: "string \<Rightarrow> ip \<Rightarrow> bool" where
  "in_cidr c x = (case ParseCIDRSloppy c of None \<Rightarrow> False | Some (_, n) \<Rightarrow> IPNet_Contains n x)"

fun holds :: "match_env \<Rightarrow> packet \<Rightarrow> mexpr \<Rightarrow> bool" where
  "holds env p (MProto pr) \<longleftrightarrow> pk_proto p = pr"
| "holds env p (MDst pr ports) \<longleftrightarrow> pk_proto p = pr \<and> pk_dport p \<in> set ports"
| "holds env p (MRange lo pr hi) \<longleftrightarrow> pk_proto p = pr \<and> lo \<le> pk_dport p \<and> pk_dport p \<le> hi"
| "holds env p (MSets fam dir refs) \<longleftrightarrow> pk_fam p = fam \<and> (\<exists>r \<in> set refs. IP_String (pk_addr dir p) \<in> me_sets env (tl r))"
| "holds env p (MCidr fam dir c) \<longleftrightarrow> pk_fam p = fam \<and> in_cidr c (pk_addr dir p)"
| "holds env p (MNotIn fam dir cs) \<longleftrightarrow> pk_fam p = fam \<and> \<not> list_ex (\<lambda>c. in_cidr c (pk_addr dir p)) cs"
| "holds env p (MFam fam) \<longleftrightarrow> pk_fam p = fam"
| "holds env p (MPort field pg) \<longleftrightarrow> (if field = ''inport'' then pk_inport p else pk_outport p) \<in> me_groups env pg"
| "holds env p (MAnd es) \<longleftrightarrow> (\<forall>e \<in> set es. holds env p e)"
| "holds env p (MOr es) \<longleftrightarrow> (\<exists>e \<in> set es. holds env p e)"

section \<open>The rule\<close>

definition pp_protocol_is :: "portPolicy \<Rightarrow> string \<Rightarrow> bool" where
  "pp_protocol_is pp proto \<longleftrightarrow> pp_protocol pp \<in> set supportedProtocols \<and> to_lower (pp_protocol pp) = proto"

definition pp_isRange :: "portPolicy \<Rightarrow> bool" where
  "pp_isRange pp \<longleftrightarrow> pp_endPort pp \<noteq> 0 \<and> pp_endPort pp \<noteq> pp_port pp"

definition pp_allows :: "portPolicy \<Rightarrow> packet \<Rightarrow> bool" where
  "pp_allows pp p \<longleftrightarrow> pp_protocol_is pp (pk_proto p)
     \<and> (if pp_endPort pp \<noteq> 0 then pp_port pp \<le> pk_dport p \<and> pk_dport p \<le> pp_endPort pp else pp_port pp = 0 \<or> pp_port pp = pk_dport p)"

definition block_allows :: "gressPolicy \<Rightarrow> packet \<Rightarrow> IPBlock \<Rightarrow> bool" where
  "block_allows gp p b \<longleftrightarrow> pk_fam p = block_family b \<and> in_cidr (ib_CIDR b) (pk_addr (gress_direction gp) p)
     \<and> (\<forall>x \<in> set (ib_Except b). \<not> in_cidr x (pk_addr (gress_direction gp) p))"

definition sets_allow :: "match_env \<Rightarrow> gressPolicy \<Rightarrow> packet \<Rightarrow> bool" where
  "sets_allow env gp p \<longleftrightarrow>
     gp_ipv4Mode gp \<and> pk_fam p = ''ip4'' \<and> (\<exists>r \<in> set (gp_peerV4AddressSets gp). IP_String (pk_addr (gress_direction gp) p) \<in> me_sets env (tl r))
   \<or> gp_ipv6Mode gp \<and> pk_fam p = ''ip6'' \<and> (\<exists>r \<in> set (gp_peerV6AddressSets gp). IP_String (pk_addr (gress_direction gp) p) \<in> me_sets env (tl r))"

definition family_enabled :: "gressPolicy \<Rightarrow> packet \<Rightarrow> bool" where
  "family_enabled gp p \<longleftrightarrow> pk_fam p = ''ip6'' \<and> gp_ipv6Mode gp \<or> pk_fam p = ''ip4'' \<and> (gp_ipv4Mode gp \<or> \<not> gp_ipv6Mode gp)"

text \<open>What a rule of a network policy allows: a peer of the rule, or every peer when it names none, on a port of the rule,
  or on every port when it names none.\<close>

definition rule_allows :: "match_env \<Rightarrow> gressPolicy \<Rightarrow> packet \<Rightarrow> bool" where
  "rule_allows env gp p \<longleftrightarrow>
     (if gress_isEmpty gp then family_enabled gp p
      else (\<exists>b \<in> set (gp_ipBlocks gp). block_allows gp p b) \<or> gp_hasPeerSelector gp \<and> sets_allow env gp p)
   \<and> (gp_portPolicies gp = [] \<or> (\<exists>pp \<in> set (gp_portPolicies gp). pp_allows pp p))"

definition at_port :: "match_env \<Rightarrow> string \<Rightarrow> gressPolicy \<Rightarrow> packet \<Rightarrow> bool" where
  "at_port env pg gp p \<longleftrightarrow> (if gp_policyType gp = ''Ingress'' then pk_outport p else pk_inport p) \<in> me_groups env pg"

text \<open>All protocols are known, and a protocol is either open on all ports or restricted to ports.\<close>

definition pp_open :: "portPolicy \<Rightarrow> bool" where
  "pp_open pp \<longleftrightarrow> pp_port pp = 0 \<and> pp_endPort pp = 0"

definition regular_ports :: "gressPolicy \<Rightarrow> bool" where
  "regular_ports gp \<longleftrightarrow> list_all (\<lambda>pp. pp_protocol pp \<in> set supportedProtocols
     \<and> list_all (\<lambda>qq. pp_protocol qq = pp_protocol pp \<longrightarrow> pp_open qq = pp_open pp) (gp_portPolicies gp)) (gp_portPolicies gp)"

section \<open>The expressions of the ACLs\<close>

definition plain_ports :: "portPolicy list \<Rightarrow> string \<Rightarrow> int list" where
  "plain_ports pps proto = map pp_port (filter (\<lambda>pp. pp_protocol_is pp proto \<and> \<not> pp_isRange pp \<and> pp_port pp \<noteq> 0) pps)"

definition port_ranges :: "portPolicy list \<Rightarrow> string \<Rightarrow> (int \<times> int) list" where
  "port_ranges pps proto = map (\<lambda>pp. (pp_port pp, pp_endPort pp)) (filter (\<lambda>pp. pp_protocol_is pp proto \<and> pp_isRange pp) pps)"

definition l4_alternatives :: "portPolicy list \<Rightarrow> string \<Rightarrow> mexpr list" where
  "l4_alternatives pps proto =
     (if plain_ports pps proto = [] then [] else [MDst proto (plain_ports pps proto)]) @ map (\<lambda>(lo, hi). MRange lo proto hi) (port_ranges pps proto)"

definition l4_exprs :: "portPolicy list \<Rightarrow> string \<Rightarrow> mexpr list" where
  "l4_exprs pps proto =
     MProto proto # (let alts = l4_alternatives pps proto in if length alts > 1 then [MOr alts] else alts)"

definition block_expr :: "gressPolicy \<Rightarrow> mexpr list \<Rightarrow> mexpr \<Rightarrow> IPBlock \<Rightarrow> mexpr" where
  "block_expr gp l4 lport b =
     MAnd ([MCidr (block_family b) (gress_direction gp) (ib_CIDR b)]
       @ (if ib_Except b = [] then [] else [MNotIn (block_family b) (gress_direction gp) (ib_Except b)]) @ l4 @ [lport])"

definition l3_expr :: "gressPolicy \<Rightarrow> mexpr option" where
  "l3_expr gp =
     (if gress_isEmpty gp then
        Some (if gp_ipv4Mode gp \<and> gp_ipv6Mode gp then MOr [MFam ''ip4'', MFam ''ip6''] else if gp_ipv6Mode gp then MFam ''ip6'' else MFam ''ip4'')
      else let v4 = MSets ''ip4'' (gress_direction gp) (sort_strings (gp_peerV4AddressSets gp));
               v6 = MSets ''ip6'' (gress_direction gp) (sort_strings (gp_peerV6AddressSets gp));
               has4 = (gp_ipv4Mode gp \<and> gp_peerV4AddressSets gp \<noteq> []); has6 = (gp_ipv6Mode gp \<and> gp_peerV6AddressSets gp \<noteq> [])
           in if has4 \<and> has6 then Some (MOr [v4, v6]) else if has6 then Some v6 else if has4 then Some v4 else None)"

definition lport_expr :: "string \<Rightarrow> gressPolicy \<Rightarrow> mexpr" where
  "lport_expr pg gp = MPort (if gp_policyType gp = ''Ingress'' then ''outport'' else ''inport'') pg"

definition protocol_exprs :: "string \<Rightarrow> gressPolicy \<Rightarrow> mexpr list \<Rightarrow> mexpr list" where
  "protocol_exprs pg gp l4 =
     map (block_expr gp l4 (lport_expr pg gp)) (gp_ipBlocks gp)
     @ (if gp_hasPeerSelector gp \<or> gress_isEmpty gp
        then (case l3_expr gp of None \<Rightarrow> [] | Some l3 \<Rightarrow> [MAnd (l3 # l4 @ [lport_expr pg gp])]) else [])"

definition rule_protocols :: "gressPolicy \<Rightarrow> string list" where
  "rule_protocols gp = map fst (getProtocolPortsMap gp)"

definition gress_exprs :: "(string list \<Rightarrow> string list) \<Rightarrow> string \<Rightarrow> gressPolicy \<Rightarrow> mexpr list" where
  "gress_exprs order pg gp =
     (if rule_protocols gp = [] then protocol_exprs pg gp []
      else concat (map (\<lambda>proto. protocol_exprs pg gp (l4_exprs (gp_portPolicies gp) proto)) (order (rule_protocols gp))))"

subsection \<open>The text is the text of the expressions\<close>

lemma join_append: "xs \<noteq> [] \<Longrightarrow> ys \<noteq> [] \<Longrightarrow> join sep (xs @ ys) = join sep xs @ sep @ join sep ys"
  by (induction sep xs rule: join.induct) (auto simp: neq_Nil_conv)

lemma set_insert_string [simp]: "set (insert_string x xs) = insert x (set xs)"
  by (induction xs) auto

lemma set_sort_strings [simp]: "set (sort_strings xs) = set xs"
  by (induction xs) (auto simp: sort_strings_def)

lemma sort_strings_Nil [simp]: "sort_strings xs = [] \<longleftrightarrow> xs = []"
  by (metis set_empty set_sort_strings)

definition port_entry :: "portPolicy list \<Rightarrow> string \<Rightarrow> gressPolicyPorts" where
  "port_entry pps proto = \<lparr>gpp_portList = map itoa (plain_ports pps proto),
     gpp_portRange = map (\<lambda>(lo, hi). itoa lo @ ''<='' @ proto @ ''.dst<='' @ itoa hi) (port_ranges pps proto)\<rparr>"

definition has_protocol :: "portPolicy list \<Rightarrow> string \<Rightarrow> bool" where
  "has_protocol pps proto \<longleftrightarrow> list_ex (\<lambda>pp. pp_protocol_is pp proto) pps"

lemma add_port_other: "\<not> pp_protocol_is pp proto \<Longrightarrow> map_of (add_port pp m) proto = map_of m proto"
  by (auto simp: add_port_def pp_protocol_is_def Let_def update_conv')

lemma add_port_same:
  assumes "pp_protocol_is pp proto"
  shows "map_of (add_port pp m) proto =
    Some (let gpp = (case map_of m proto of None \<Rightarrow> \<lparr>gpp_portList = [], gpp_portRange = []\<rparr> | Some g \<Rightarrow> g) in
      if pp_isRange pp then gpp\<lparr>gpp_portRange := gpp_portRange gpp @ [itoa (pp_port pp) @ ''<='' @ proto @ ''.dst<='' @ itoa (pp_endPort pp)]\<rparr>
      else if pp_port pp \<noteq> 0 then gpp\<lparr>gpp_portList := gpp_portList gpp @ [itoa (pp_port pp)]\<rparr> else gpp)"
proof -
  have p: "pp_protocol pp \<in> set supportedProtocols" "to_lower (pp_protocol pp) = proto" using assms by (simp_all add: pp_protocol_is_def)
  show ?thesis unfolding add_port_def Let_def p(2) pp_isRange_def by (simp only: p(1) not_True_eq_False if_False update_conv' fun_upd_same)
qed

lemma ports_map:
  "map_of (fold add_port pps []) proto = (if has_protocol pps proto then Some (port_entry pps proto) else None)"
proof (induction pps rule: rev_induct)
  case (snoc pp pps)
  show ?case
  proof (cases "pp_protocol_is pp proto")
    case False
    then have "map_of (fold add_port (pps @ [pp]) []) proto = map_of (fold add_port pps []) proto" by (simp add: add_port_other)
    then show ?thesis using snoc False by (simp add: has_protocol_def port_entry_def plain_ports_def port_ranges_def)
  next
    case True
    have old: "(case map_of (fold add_port pps []) proto of None \<Rightarrow> \<lparr>gpp_portList = [], gpp_portRange = []\<rparr> | Some g \<Rightarrow> g) = port_entry pps proto"
    proof (cases "has_protocol pps proto")
      case False
      then have "plain_ports pps proto = []" "port_ranges pps proto = []"
        by (auto simp: has_protocol_def plain_ports_def port_ranges_def filter_empty_conv list_ex_iff)
      then show ?thesis using snoc False by (simp add: port_entry_def)
    qed (use snoc in simp)
    have has: "has_protocol (pps @ [pp]) proto" using True by (simp add: has_protocol_def)
    have new: "fold add_port (pps @ [pp]) [] = add_port pp (fold add_port pps [])" by simp
    show ?thesis unfolding new add_port_same [OF True] old Let_def using True has
      by (simp add: port_entry_def plain_ports_def port_ranges_def)
  qed
qed (simp add: has_protocol_def)

lemma distinct_ports_map: "distinct (map fst (fold add_port pps []))"
proof -
  have "distinct (map fst m) \<Longrightarrow> distinct (map fst (fold add_port pps m))" for m
    by (induction pps arbitrary: m) (simp_all add: add_port_def Let_def distinct_update)
  then show ?thesis by simp
qed

lemma rule_protocols_mem: "proto \<in> set (rule_protocols gp) \<longleftrightarrow> has_protocol (gp_portPolicies gp) proto"
  using ports_map [of "gp_portPolicies gp" proto] map_of_eq_None_iff [of "getProtocolPortsMap gp" proto]
  by (auto simp: rule_protocols_def getProtocolPortsMap_def split: if_splits)

lemma getL4Match_render: "getL4Match proto (port_entry pps proto) = join '' && '' (map render (l4_exprs pps proto))"
proof -
  let ?listed = "if plain_ports pps proto = [] then [] else [MDst proto (plain_ports pps proto)]"
  have r: "map render (l4_alternatives pps proto) =
      (if plain_ports pps proto = [] then [] else [render (MDst proto (plain_ports pps proto))])
      @ gpp_portRange (port_entry pps proto)"
    by (auto simp: l4_alternatives_def port_entry_def)
  have l: "(if gpp_portList (port_entry pps proto) = [] then []
      else if length (gpp_portList (port_entry pps proto)) > 1 then [proto @ ''.dst=={'' @ join '','' (gpp_portList (port_entry pps proto)) @ ''}'']
      else [proto @ ''.dst=='' @ join '','' (gpp_portList (port_entry pps proto))])
    = (if plain_ports pps proto = [] then [] else [render (MDst proto (plain_ports pps proto))])"
    by (simp add: port_entry_def)
  have "getL4Match proto (port_entry pps proto) =
      (let alts = map render (l4_alternatives pps proto) in if alts = [] then proto
       else if length alts > 1 then proto @ '' && ('' @ join '' || '' alts @ '')'' else proto @ '' && '' @ join '' || '' alts)"
    unfolding getL4Match_def l r Let_def ..
  also have "\<dots> = join '' && '' (map render (l4_exprs pps proto))"
  proof (cases "l4_alternatives pps proto")
    case (Cons a rest)
    then show ?thesis by (cases rest) (simp_all add: l4_exprs_def Let_def)
  qed (simp add: l4_exprs_def)
  finally show ?thesis .
qed


definition gp_ok :: "gressPolicy \<Rightarrow> bool" where
  "gp_ok gp \<longleftrightarrow> gp_controllerName gp \<noteq> [] \<and> PolicyTypeToAclPipeline (gp_policyType gp) = Some (gp_aclPipeline gp)"

text \<open>The fields in which the ACLs of a rule agree.\<close>

definition allow_acl :: "gressPolicy \<Rightarrow> ACL \<Rightarrow> bool" where
  "allow_acl gp a \<longleftrightarrow> acl_Action a = (if gp_isNetPolStateless gp then ''allow-stateless'' else ''allow-related'')
     \<and> acl_Priority a = DefaultAllowPriority \<and> acl_Tier a = DefaultACLTier
     \<and> acl_Direction a = (if gp_policyType gp = ''Ingress'' then ''to-lport'' else ''from-lport'')"

lemma getNetpolACLDbIDs_ok:
  assumes "gp_controllerName gp \<noteq> []"
  shows "\<exists>ids m. getNetpolACLDbIDs idx proto gp = Some ids \<and> GetExternalIDs ids = Some m"
proof -
  define ids where "ids = \<lparr>di_type = ACLNetworkPolicy, di_controller = gp_controllerName gp, di_ids =
    [(ObjectNameKey, getACLPolicyKey (gp_policyNamespace gp) (gp_policyName gp)), (PolicyDirectionKey, gp_policyType gp),
     (GressIdxKey, itoa (gp_idx gp)), (IpBlockIndexKey, itoa idx), (PortPolicyProtocolKey, proto)]\<rparr>"
  have "getNetpolACLDbIDs idx proto gp = Some ids"
    using assms by (simp add: getNetpolACLDbIDs_def NewDbObjectIDs_def ids_def ACLNetworkPolicy_def HasKey_def)
  moreover have "GetUnsetKeys ids = []" by (simp add: GetUnsetKeys_def ids_def ACLNetworkPolicy_def id_keys)
  then have "GetExternalIDs ids \<noteq> None" by (simp add: GetExternalIDs_def getExternalIDs_def getUniqueID_eq Let_def)
  ultimately show ?thesis by auto
qed

lemma netpol_acl_ok:
  assumes "gp_ok gp"
  shows "\<exists>a. netpol_acl lg gp proto idx m = Some a \<and> acl_Match a = m \<and> allow_acl gp a"
proof -
  obtain ids e where i: "getNetpolACLDbIDs idx proto gp = Some ids" "GetExternalIDs ids = Some e"
    using getNetpolACLDbIDs_ok [of gp idx proto] assms unfolding gp_ok_def by blast
  have t: "gp_policyType gp = ''Ingress'' \<and> gp_aclPipeline gp = LportIngress \<or> gp_policyType gp = ''Egress'' \<and> gp_aclPipeline gp = LportEgressAfterLB"
    using assms by (auto simp: gp_ok_def PolicyTypeToAclPipeline_def split: if_splits)
  obtain log sev where l: "getLogSeverity (if gp_isNetPolStateless gp then ''allow-stateless'' else ''allow-related'') lg = (log, sev)" by fastforce
  show ?thesis using t i l
    by (auto simp: netpol_acl_def BuildACL_def LportIngress_def LportEgressAfterLB_def build_ACL_def allow_acl_def)
qed

lemma option_all_map:
  assumes "\<forall>x \<in> set xs. \<exists>a. f x = Some a \<and> P x a"
  shows "\<exists>as. option_all (map f xs) = Some as \<and> list_all2 P xs as"
  using assms by (induction xs) fastforce+

text \<open>The text of the transport match and its expressions.\<close>

definition l4_of :: "string \<Rightarrow> gressPolicyPorts option \<Rightarrow> mexpr list \<Rightarrow> bool" where
  "l4_of proto ports l4 \<longleftrightarrow> (case ports of None \<Rightarrow> l4 = []
     | Some q \<Rightarrow> l4 \<noteq> [] \<and> getL4Match proto q = join '' && '' (map render l4) \<and> getL4Match proto q \<noteq> noneMatch)"

lemma match_text:
  assumes "l4_of proto ports l4" "es \<noteq> []"
  shows "(if (case ports of None \<Rightarrow> noneMatch | Some q \<Rightarrow> getL4Match proto q) = noneMatch then join '' && '' (map render es) @ '' && '' @ lp
     else join '' && '' (map render es) @ '' && '' @ (case ports of None \<Rightarrow> noneMatch | Some q \<Rightarrow> getL4Match proto q) @ '' && '' @ lp)
   = join '' && '' (map render (es @ l4) @ [lp])"
proof -
  have n: "map render es \<noteq> []" using assms(2) by simp
  show ?thesis
  proof (cases ports)
    case None
    then show ?thesis using assms join_append [OF n, of "[lp]" "'' && ''"] by (simp add: l4_of_def)
  next
    case (Some q)
    then have q: "l4 \<noteq> []" "getL4Match proto q = join '' && '' (map render l4)" "getL4Match proto q \<noteq> noneMatch"
      using assms(1) unfolding l4_of_def by auto
    have l: "map render l4 \<noteq> []" "map render l4 @ [lp] \<noteq> []" using q(1) by simp_all
    have "join '' && '' (map render (es @ l4) @ [lp]) = join '' && '' (map render es) @ '' && '' @ join '' && '' (map render l4) @ '' && '' @ lp"
      using join_append [OF n l(2), of "'' && ''"] join_append [OF l(1), of "[lp]" "'' && ''"] by simp
    then show ?thesis using Some q by simp
  qed
qed

lemma lport_match_render: "lport_match pg gp = render (lport_expr pg gp)"
  by (simp add: lport_match_def lport_expr_def)

lemma getMatchFromIPBlock_render:
  assumes "l4_of proto ports l4"
  shows "getMatchFromIPBlock (lport_match pg gp) (case ports of None \<Rightarrow> noneMatch | Some q \<Rightarrow> getL4Match proto q) gp
    = map (\<lambda>b. render (block_expr gp l4 (lport_expr pg gp) b)) (gp_ipBlocks gp)"
proof -
  let ?l = "case ports of None \<Rightarrow> noneMatch | Some q \<Rightarrow> getL4Match proto q"
  have "(let field = block_family b @ ''.'' @ gress_direction gp;
             matchStr = (if ib_Except b = [] then field @ '' == '' @ ib_CIDR b
                         else field @ '' == '' @ ib_CIDR b @ '' && '' @ field @ '' != {'' @ join '', '' (ib_Except b) @ ''}'')
         in if ?l = noneMatch then matchStr @ '' && '' @ lport_match pg gp else matchStr @ '' && '' @ ?l @ '' && '' @ lport_match pg gp)
      = render (block_expr gp l4 (lport_expr pg gp) b)" for b
  proof -
    let ?es = "[MCidr (block_family b) (gress_direction gp) (ib_CIDR b)]
       @ (if ib_Except b = [] then [] else [MNotIn (block_family b) (gress_direction gp) (ib_Except b)])"
    have m: "(let field = block_family b @ ''.'' @ gress_direction gp in
        if ib_Except b = [] then field @ '' == '' @ ib_CIDR b
        else field @ '' == '' @ ib_CIDR b @ '' && '' @ field @ '' != {'' @ join '', '' (ib_Except b) @ ''}'')
      = join '' && '' (map render ?es)" by simp
    have "render (block_expr gp l4 (lport_expr pg gp) b) = join '' && '' (map render (?es @ l4) @ [lport_match pg gp])"
      by (simp add: block_expr_def lport_match_render)
    then show ?thesis unfolding Let_def m [unfolded Let_def] using match_text [OF assms, of ?es "lport_match pg gp"] by simp
  qed
  then show ?thesis unfolding getMatchFromIPBlock_def by simp
qed

lemma l3_text:
  assumes "gp_hasPeerSelector gp \<or> gress_isEmpty gp"
  shows "(if gress_isEmpty gp then allIPsMatch gp else getL3MatchFromAddressSet gp) = (case l3_expr gp of None \<Rightarrow> [] | Some e \<Rightarrow> render e)"
  by (simp add: l3_expr_def allIPsMatch_def getL3MatchFromAddressSet_def address_sets_match_def Let_def)

lemma l3_nonempty: "l3_expr gp = Some e \<Longrightarrow> render e \<noteq> []"
  by (auto simp: l3_expr_def address_sets_match_def Let_def split: if_splits)

lemma protocol_acls_render:
  assumes ok: "gp_ok gp" and l4: "l4_of proto ports l4"
  shows "\<exists>created skipped. protocol_acls pg lg gp proto ports = Some (created, skipped)
    \<and> map acl_Match created = map render (protocol_exprs pg gp l4) \<and> list_all (allow_acl gp) created"
proof -
  let ?l = "case ports of None \<Rightarrow> noneMatch | Some q \<Rightarrow> getL4Match proto q"
  let ?ms = "map (\<lambda>b. render (block_expr gp l4 (lport_expr pg gp) b)) (gp_ipBlocks gp)"
  let ?zs = "zip (map int [0..<length (gp_ipBlocks gp)]) ?ms"
  let ?addr = "\<lambda>l3. if ?l = noneMatch then l3 @ '' && '' @ lport_match pg gp else l3 @ '' && '' @ ?l @ '' && '' @ lport_match pg gp"
  let ?l3 = "if gress_isEmpty gp then allIPsMatch gp else getL3MatchFromAddressSet gp"
  have "\<forall>z \<in> set ?zs. \<exists>a. (case z of (i, m) \<Rightarrow> netpol_acl lg gp proto i m) = Some a \<and> (acl_Match a = snd z \<and> allow_acl gp a)"
    using netpol_acl_ok [OF ok] by (auto split: prod.split)
  from option_all_map [OF this] obtain blocks where
    b: "option_all (map (\<lambda>(i, m). netpol_acl lg gp proto i m) ?zs) = Some blocks" "list_all2 (\<lambda>z a. acl_Match a = snd z \<and> allow_acl gp a) ?zs blocks"
    by blast
  have bm: "map acl_Match blocks = ?ms" "list_all (allow_acl gp) blocks"
    using b(2) by (auto simp: list_all2_conv_all_nth list_all_length intro!: nth_equalityI)
  obtain a where a: "netpol_acl lg gp proto emptyIdx (?addr ?l3) = Some a" "acl_Match a = ?addr ?l3" "allow_acl gp a"
    using netpol_acl_ok [OF ok] by blast
  have eq: "protocol_acls pg lg gp proto ports =
    (if gp_hasPeerSelector gp \<or> gress_isEmpty gp then Some (if ?l3 = [] then (blocks, [a]) else (blocks @ [a], [])) else Some (blocks, []))"
    unfolding protocol_acls_def Let_def getMatchFromIPBlock_render [OF l4] b(1) option.case a(1) by simp
  have addr: "?addr (render e) = render (MAnd (e # l4 @ [lport_expr pg gp]))" for e
  proof -
    have j: "join '' && '' (map render [e]) = render e" by simp
    have r: "join '' && '' (map render ([e] @ l4) @ [lport_match pg gp]) = render (MAnd (e # l4 @ [lport_expr pg gp]))"
      by (simp add: lport_match_render)
    show ?thesis using match_text [OF l4, of "[e]" "lport_match pg gp"] unfolding j r by simp
  qed
  show ?thesis
  proof (cases "(gp_hasPeerSelector gp \<or> gress_isEmpty gp) \<and> l3_expr gp \<noteq> None")
    case True
    then obtain e where e: "l3_expr gp = Some e" by blast
    have l3: "?l3 = render e" using l3_text [of gp] True e by simp
    have "protocol_acls pg lg gp proto ports = Some (blocks @ [a], [])" unfolding eq using True l3 l3_nonempty [OF e] by simp
    moreover have "acl_Match a = render (MAnd (e # l4 @ [lport_expr pg gp]))" using a(2) unfolding l3 addr .
    ultimately show ?thesis using bm True e a(3) by (simp add: protocol_exprs_def)
  next
    case False
    have "\<exists>s. protocol_acls pg lg gp proto ports = Some (blocks, s)"
    proof (cases "gp_hasPeerSelector gp \<or> gress_isEmpty gp")
      case True
      then have "?l3 = []" using False l3_text [of gp] by simp
      then show ?thesis unfolding eq by simp
    qed (unfold eq, simp)
    moreover have "protocol_exprs pg gp l4 = map (block_expr gp l4 (lport_expr pg gp)) (gp_ipBlocks gp)" using False by (auto simp: protocol_exprs_def)
    ultimately show ?thesis using bm by auto
  qed
qed


lemma append_acls_map:
  assumes "\<forall>x \<in> set xs. \<exists>c s. f x = Some (c, s) \<and> map acl_Match c = map render (g x) \<and> list_all P c"
  shows "\<exists>c s. append_acls (map f xs) = Some (c, s) \<and> map acl_Match c = map render (concat (map g xs)) \<and> list_all P c"
  using assms
proof (induction xs)
  case (Cons x xs)
  obtain c s where x: "f x = Some (c, s)" "map acl_Match c = map render (g x)" "list_all P c" using Cons.prems by auto
  obtain c1 s1 where xs: "append_acls (map f xs) = Some (c1, s1)" "map acl_Match c1 = map render (concat (map g xs))" "list_all P c1"
    using Cons by auto
  show ?case using x xs by simp
qed simp

lemma lower_names: "to_lower ''TCP'' = ''tcp''" "to_lower ''UDP'' = ''udp''" "to_lower ''SCTP'' = ''sctp''"
  by (code_simp, code_simp, code_simp)

lemma lower_protocols: "pp_protocol_is pp proto \<Longrightarrow> proto \<in> {''tcp'', ''udp'', ''sctp''}"
  by (auto simp: pp_protocol_is_def supportedProtocols_def lower_names)

lemma l4_of_entry:
  assumes "has_protocol pps proto"
  shows "l4_of proto (Some (port_entry pps proto)) (l4_exprs pps proto)"
proof -
  have p: "proto \<in> {''tcp'', ''udp'', ''sctp''}" using assms lower_protocols by (auto simp: has_protocol_def list_ex_iff)
  have "\<exists>rest. getL4Match proto (port_entry pps proto) = proto @ rest" by (simp add: getL4Match_def Let_def)
  then have "getL4Match proto (port_entry pps proto) \<noteq> noneMatch" using p by (auto simp: noneMatch_def)
  then show ?thesis by (simp add: l4_of_def getL4Match_render l4_exprs_def)
qed

lemma buildLocalPodACLs_render:
  assumes ok: "gp_ok gp" and order: "\<And>xs. set (order xs) = set xs"
  shows "\<exists>created skipped. buildLocalPodACLs order pg lg gp = Some (created, skipped)
    \<and> map acl_Match created = map render (gress_exprs order pg gp) \<and> list_all (allow_acl gp) created"
proof (cases "getProtocolPortsMap gp = []")
  case True
  obtain c s where c: "protocol_acls pg lg gp emptyProtocol None = Some (c, s)" "map acl_Match c = map render (protocol_exprs pg gp [])" "list_all (allow_acl gp) c"
    using protocol_acls_render [OF ok, of emptyProtocol None "[]" pg lg] by (auto simp: l4_of_def)
  show ?thesis using True c by (simp add: buildLocalPodACLs_def gress_exprs_def rule_protocols_def)
next
  case False
  let ?g = "\<lambda>proto. protocol_exprs pg gp (l4_exprs (gp_portPolicies gp) proto)"
  let ?f = "\<lambda>proto. protocol_acls pg lg gp proto (map_of (getProtocolPortsMap gp) proto)"
  have "\<forall>proto \<in> set (order (rule_protocols gp)). \<exists>c s. ?f proto = Some (c, s) \<and> map acl_Match c = map render (?g proto) \<and> list_all (allow_acl gp) c"
  proof
    fix proto assume "proto \<in> set (order (rule_protocols gp))"
    then have h: "has_protocol (gp_portPolicies gp) proto" using order rule_protocols_mem by auto
    then have "map_of (getProtocolPortsMap gp) proto = Some (port_entry (gp_portPolicies gp) proto)"
      using ports_map by (simp add: getProtocolPortsMap_def)
    then show "\<exists>c s. ?f proto = Some (c, s) \<and> map acl_Match c = map render (?g proto) \<and> list_all (allow_acl gp) c"
      using protocol_acls_render [OF ok l4_of_entry [OF h]] by simp
  qed
  from append_acls_map [OF this] show ?thesis using False
    by (simp add: buildLocalPodACLs_def gress_exprs_def rule_protocols_def Let_def comp_def)
qed

subsection \<open>The expressions describe the rule\<close>

definition peer_allows :: "match_env \<Rightarrow> gressPolicy \<Rightarrow> packet \<Rightarrow> bool" where
  "peer_allows env gp p \<longleftrightarrow>
     (if gress_isEmpty gp then family_enabled gp p
      else (\<exists>b \<in> set (gp_ipBlocks gp). block_allows gp p b) \<or> gp_hasPeerSelector gp \<and> sets_allow env gp p)"

lemma holds_lport: "holds env p (lport_expr pg gp) \<longleftrightarrow> at_port env pg gp p"
  by (simp add: lport_expr_def at_port_def)

lemma holds_block:
  "holds env p (block_expr gp l4 lp b) \<longleftrightarrow> block_allows gp p b \<and> (\<forall>e \<in> set l4. holds env p e) \<and> holds env p lp"
  by (auto simp: block_expr_def block_allows_def list_ex_iff)

lemma holds_l3:
  assumes "gp_hasPeerSelector gp \<or> gress_isEmpty gp"
  shows "(\<exists>e. l3_expr gp = Some e \<and> holds env p e) \<longleftrightarrow> (if gress_isEmpty gp then family_enabled gp p else sets_allow env gp p)"
proof (cases "gress_isEmpty gp")
  case True
  then show ?thesis by (auto simp: l3_expr_def family_enabled_def)
next
  case False
  then show ?thesis by (auto simp: l3_expr_def sets_allow_def Let_def)
qed

lemma holds_protocol_exprs:
  "(\<exists>e \<in> set (protocol_exprs pg gp l4). holds env p e) \<longleftrightarrow> peer_allows env gp p \<and> (\<forall>e \<in> set l4. holds env p e) \<and> at_port env pg gp p"
proof -
  let ?rest = "(\<forall>e \<in> set l4. holds env p e) \<and> at_port env pg gp p"
  have b: "(\<exists>e \<in> set (map (block_expr gp l4 (lport_expr pg gp)) (gp_ipBlocks gp)). holds env p e) \<longleftrightarrow> (\<exists>b \<in> set (gp_ipBlocks gp). block_allows gp p b) \<and> ?rest"
    by (auto simp: holds_block holds_lport)
  have s: "(\<exists>e \<in> set (case l3_expr gp of None \<Rightarrow> [] | Some l3 \<Rightarrow> [MAnd (l3 # l4 @ [lport_expr pg gp])]). holds env p e)
      \<longleftrightarrow> (\<exists>e. l3_expr gp = Some e \<and> holds env p e) \<and> ?rest"
    by (cases "l3_expr gp") (simp_all add: holds_lport conj_commute conj_left_commute)
  have split: "(\<exists>e \<in> set (protocol_exprs pg gp l4). holds env p e) \<longleftrightarrow> (\<exists>b \<in> set (gp_ipBlocks gp). block_allows gp p b) \<and> ?rest
      \<or> (gp_hasPeerSelector gp \<or> gress_isEmpty gp) \<and> (\<exists>e. l3_expr gp = Some e \<and> holds env p e) \<and> ?rest"
  proof (cases "gp_hasPeerSelector gp \<or> gress_isEmpty gp")
    case True
    show ?thesis unfolding protocol_exprs_def set_append bex_Un b if_P [OF True] s using True by blast
  next
    case False
    show ?thesis unfolding protocol_exprs_def set_append bex_Un b if_not_P [OF False] using False by simp
  qed
  show ?thesis unfolding split peer_allows_def using holds_l3 [of gp env p] by (auto simp: gress_isEmpty_def)
qed

lemma holds_l4_exprs:
  assumes "regular_ports gp" "has_protocol (gp_portPolicies gp) proto"
  shows "(\<forall>e \<in> set (l4_exprs (gp_portPolicies gp) proto). holds env p e) \<longleftrightarrow> pk_proto p = proto \<and> (\<exists>pp \<in> set (gp_portPolicies gp). pp_allows pp p)"
proof -
  let ?pps = "gp_portPolicies gp"
  let ?alts = "l4_alternatives ?pps proto"
  obtain q where q: "q \<in> set ?pps" "pp_protocol_is q proto" using assms(2) by (auto simp: has_protocol_def list_ex_iff)
  have same: "pp_open pp = pp_open q" if "pp \<in> set ?pps" "pp_protocol_is pp proto" for pp
  proof -
    have "inj_on to_lower (set supportedProtocols)" by (simp add: supportedProtocols_def lower_names)
    then have "pp_protocol pp = pp_protocol q" using that(2) q(2) unfolding pp_protocol_is_def by (auto dest: inj_onD)
    then show ?thesis using assms(1) that(1) q(1) unfolding regular_ports_def list_all_iff by metis
  qed
  have alts: "(\<exists>e \<in> set ?alts. holds env p e) \<longleftrightarrow> pk_proto p = proto \<and> (\<exists>pp \<in> set ?pps. pp_protocol_is pp proto \<and> \<not> pp_open pp \<and> pp_allows pp p)" (is "?lhs \<longleftrightarrow> ?rhs")
  proof
    assume ?lhs
    then obtain e where e: "e \<in> set ?alts" "holds env p e" by blast
    then consider "e = MDst proto (plain_ports ?pps proto)" | lo hi where "e = MRange lo proto hi" "(lo, hi) \<in> set (port_ranges ?pps proto)"
      by (auto simp: l4_alternatives_def split: if_splits)
    then show ?rhs
    proof cases
      case 1
      then have "pk_proto p = proto" "pk_dport p \<in> set (plain_ports ?pps proto)" using e(2) by simp_all
      then obtain pp where "pp \<in> set ?pps" "pp_protocol_is pp proto" "\<not> pp_isRange pp" "pp_port pp \<noteq> 0" "pk_dport p = pp_port pp" "pk_proto p = proto"
        by (auto simp: plain_ports_def)
      then show ?thesis by (intro conjI bexI [of _ pp]) (auto simp: pp_isRange_def pp_open_def pp_allows_def)
    next
      case 2
      then have "pk_proto p = proto" "lo \<le> pk_dport p" "pk_dport p \<le> hi" using e(2) by simp_all
      moreover obtain pp where "pp \<in> set ?pps" "pp_protocol_is pp proto" "pp_isRange pp" "lo = pp_port pp" "hi = pp_endPort pp"
        using 2(2) by (auto simp: port_ranges_def)
      ultimately show ?thesis by (intro conjI bexI [of _ pp]) (auto simp: pp_isRange_def pp_open_def pp_allows_def)
    qed
  next
    assume ?rhs
    then obtain pp where pp: "pk_proto p = proto" "pp \<in> set ?pps" "pp_protocol_is pp proto" "\<not> pp_open pp" "pp_allows pp p" by blast
    show ?lhs
    proof (cases "pp_isRange pp")
      case True
      then have "(pp_port pp, pp_endPort pp) \<in> set (port_ranges ?pps proto)" using pp by (force simp: port_ranges_def)
      then have "MRange (pp_port pp) proto (pp_endPort pp) \<in> set ?alts" by (force simp: l4_alternatives_def)
      moreover have "holds env p (MRange (pp_port pp) proto (pp_endPort pp))" using pp True by (simp add: pp_allows_def pp_isRange_def)
      ultimately show ?thesis by blast
    next
      case False
      then have nz: "pp_port pp \<noteq> 0" "pk_dport p = pp_port pp" using pp by (auto simp: pp_isRange_def pp_open_def pp_allows_def split: if_splits)
      then have m: "pp_port pp \<in> set (plain_ports ?pps proto)" using pp False by (auto simp: plain_ports_def)
      then have "MDst proto (plain_ports ?pps proto) \<in> set ?alts" by (auto simp: l4_alternatives_def)
      moreover have "holds env p (MDst proto (plain_ports ?pps proto))" using m nz pp(1) by simp
      ultimately show ?thesis by blast
    qed
  qed
  have all: "(\<forall>e \<in> set (l4_exprs ?pps proto). holds env p e) \<longleftrightarrow> pk_proto p = proto \<and> (?alts = [] \<or> (\<exists>e \<in> set ?alts. holds env p e))"
    by (cases ?alts; cases "tl ?alts") (auto simp: l4_exprs_def Let_def)
  have empty: "?alts = [] \<longleftrightarrow> pp_open q"
  proof
    show "pp_open q" if "?alts = []"
      using that q by (force simp: l4_alternatives_def plain_ports_def port_ranges_def filter_empty_conv pp_open_def pp_isRange_def split: if_splits)
    assume "pp_open q"
    then have "\<forall>pp \<in> set ?pps. pp_protocol_is pp proto \<longrightarrow> pp_open pp" using same by blast
    then show "?alts = []" by (auto simp: l4_alternatives_def plain_ports_def port_ranges_def filter_empty_conv pp_open_def pp_isRange_def)
  qed
  have pi: "pp_protocol_is pp proto" if "pp_allows pp p" "pk_proto p = proto" for pp using that by (simp add: pp_allows_def)
  show ?thesis
  proof (cases "pp_open q")
    case True
    then have "pk_proto p = proto \<Longrightarrow> pp_allows q p" using q(2) by (simp add: pp_allows_def pp_open_def)
    then show ?thesis using all empty True q(1) by blast
  next
    case False
    then show ?thesis using all empty alts same pi by blast
  qed
qed

lemma rule_protocols_Nil:
  assumes "regular_ports gp"
  shows "rule_protocols gp = [] \<longleftrightarrow> gp_portPolicies gp = []"
proof -
  have "rule_protocols gp = [] \<longleftrightarrow> (\<forall>proto. \<not> has_protocol (gp_portPolicies gp) proto)"
    using rule_protocols_mem [of _ gp] by (metis list.set_intros(1) neq_Nil_conv empty_iff empty_set)
  moreover have "has_protocol (gp_portPolicies gp) (to_lower (pp_protocol pp))" if "pp \<in> set (gp_portPolicies gp)" for pp
    using that assms by (auto simp: has_protocol_def regular_ports_def list_all_iff list_ex_iff pp_protocol_is_def)
  ultimately show ?thesis by (cases "gp_portPolicies gp") (auto simp: has_protocol_def)
qed

lemma gress_exprs_hold:
  assumes reg: "regular_ports gp" and order: "\<And>xs. set (order xs) = set xs"
  shows "(\<exists>e \<in> set (gress_exprs order pg gp). holds env p e) \<longleftrightarrow> at_port env pg gp p \<and> rule_allows env gp p"
proof (cases "gp_portPolicies gp = []")
  case True
  then show ?thesis using rule_protocols_Nil [OF reg] holds_protocol_exprs [of pg gp "[]" env p]
    by (simp add: gress_exprs_def rule_allows_def peer_allows_def conj_commute)
next
  case False
  let ?pps = "gp_portPolicies gp"
  have "(\<exists>e \<in> set (gress_exprs order pg gp). holds env p e)
      \<longleftrightarrow> (\<exists>proto \<in> set (rule_protocols gp). \<exists>e \<in> set (protocol_exprs pg gp (l4_exprs ?pps proto)). holds env p e)"
    using False rule_protocols_Nil [OF reg] order by (auto simp: gress_exprs_def)
  also have "\<dots> \<longleftrightarrow> (\<exists>proto. has_protocol ?pps proto \<and> peer_allows env gp p \<and> pk_proto p = proto \<and> (\<exists>pp \<in> set ?pps. pp_allows pp p) \<and> at_port env pg gp p)"
    unfolding holds_protocol_exprs using holds_l4_exprs [OF reg] rule_protocols_mem by metis
  also have "\<dots> \<longleftrightarrow> peer_allows env gp p \<and> (\<exists>pp \<in> set ?pps. pp_allows pp p) \<and> at_port env pg gp p"
    by (auto simp: has_protocol_def list_ex_iff pp_allows_def)
  finally show ?thesis using False by (auto simp: rule_allows_def peer_allows_def)
qed

text \<open>C10: The ACLs of a network policy rule let through exactly what the rule allows. For a rule whose protocols are all known
  and whose protocols are each either open or restricted to ports, \<open>buildLocalPodACLs\<close> succeeds, all its ACLs allow with the
  priority of allow rules in the direction of the policy, their matches are the texts of match expressions, and a packet
  matches one of them if and only if it passes a port of the port group, in the direction of the policy, and comes from
  (goes to) a peer of the rule on one of its ports, whatever the order in which the protocols are visited.\<close>

theorem acls_implement_rule:
  assumes "gp_ok gp" "regular_ports gp" "\<And>xs. set (order xs) = set xs"
  shows "\<exists>created skipped. buildLocalPodACLs order pg lg gp = Some (created, skipped)
    \<and> map acl_Match created = map render (gress_exprs order pg gp) \<and> list_all (allow_acl gp) created
    \<and> (\<forall>env p. (\<exists>e \<in> set (gress_exprs order pg gp). holds env p e) \<longleftrightarrow> at_port env pg gp p \<and> rule_allows env gp p)"
  using buildLocalPodACLs_render [OF assms(1,3)] gress_exprs_hold [OF assms(2,3)] by blast

definition web_rule :: gressPolicy where
  "web_rule = \<lparr>gp_controllerName = ''default-network-controller'', gp_policyNamespace = ''ns'', gp_policyName = ''web'', gp_policyType = ''Ingress'',
     gp_aclPipeline = ''to-lport'', gp_idx = 0, gp_peerV4AddressSets = [''$a2'', ''$a1''], gp_peerV6AddressSets = [], gp_hasPeerSelector = True,
     gp_portPolicies = [\<lparr>pp_protocol = ''TCP'', pp_port = 80, pp_endPort = 0\<rparr>, \<lparr>pp_protocol = ''TCP'', pp_port = 8000, pp_endPort = 8080\<rparr>],
     gp_ipBlocks = [], gp_isNetPolStateless = False, gp_ipv4Mode = True, gp_ipv6Mode = False\<rparr>"

lemma web_rule_ok: "gp_ok web_rule" "regular_ports web_rule"
  by (simp_all add: gp_ok_def web_rule_def PolicyTypeToAclPipeline_def LportIngress_def regular_ports_def supportedProtocols_def pp_open_def)

theorem acls_implement_rule_witness:
  "\<exists>created skipped. buildLocalPodACLs id ''pg'' None web_rule = Some (created, skipped)
    \<and> map acl_Match created = map render (gress_exprs id ''pg'' web_rule) \<and> list_all (allow_acl web_rule) created
    \<and> (\<forall>env p. (\<exists>e \<in> set (gress_exprs id ''pg'' web_rule). holds env p e) \<longleftrightarrow> at_port env ''pg'' web_rule p \<and> rule_allows env web_rule p)"
  by (rule acls_implement_rule [OF web_rule_ok]) simp

lemma web_rule_match:
  "map_option (\<lambda>(created, skipped). map acl_Match created) (buildLocalPodACLs id ''pg'' None web_rule)
    = Some [''ip4.src == {$a1, $a2} && tcp && (tcp.dst==80 || 8000<=tcp.dst<=8080) && outport == @pg'']"
  by code_simp

text \<open>Outside these rules the ACLs and the rule differ. When one entry of a rule opens a protocol and another one names a
  port of it, only the named port is let through.\<close>

definition mixed_rule :: gressPolicy where
  "mixed_rule = web_rule\<lparr>gp_portPolicies := [\<lparr>pp_protocol = ''TCP'', pp_port = 0, pp_endPort = 0\<rparr>, \<lparr>pp_protocol = ''TCP'', pp_port = 80, pp_endPort = 0\<rparr>],
     gp_hasPeerSelector := False\<rparr>"

lemma mixed_rule_narrowed:
  "map_option (\<lambda>(created, skipped). map acl_Match created) (buildLocalPodACLs id ''pg'' None mixed_rule)
    = Some [''ip4 && tcp && tcp.dst==80 && outport == @pg'']"
  "pk_proto p = ''tcp'' \<Longrightarrow> pk_fam p = ''ip4'' \<Longrightarrow> rule_allows env mixed_rule p"
  by code_simp (simp add: rule_allows_def mixed_rule_def web_rule_def gress_isEmpty_def family_enabled_def pp_allows_def pp_protocol_is_def
    supportedProtocols_def lower_names)

text \<open>A rule whose only protocol is not known is opened for all protocols.\<close>

lemma unknown_protocol_opens:
  "map_option (\<lambda>(created, skipped). map acl_Match created)
     (buildLocalPodACLs id ''pg'' None (mixed_rule\<lparr>gp_portPolicies := [\<lparr>pp_protocol = ''ICMP'', pp_port = 80, pp_endPort = 0\<rparr>]\<rparr>))
    = Some [''ip4 && outport == @pg'']"
  by code_simp

lemma policy_key_roundtrip:
  assumes "CHR '':'' \<notin> set namespace" "CHR '':'' \<notin> set name"
  shows "parseACLPolicyKey (getACLPolicyKey namespace name) = Some (namespace, name)"
proof -
  have "split_colon s = [s]" if "CHR '':'' \<notin> set s" for s using that by (induction s) auto
  moreover have "split_colon (s @ CHR '':'' # t) = s # split_colon t" if "CHR '':'' \<notin> set s" for s t using that by (induction s) auto
  ultimately show ?thesis using assms by (simp add: parseACLPolicyKey_def getACLPolicyKey_def)
qed


text \<open>A namespace without address set is not reported: an empty reference is added to the rule instead, and the match of its
  ACLs is not well formed any more.\<close>

lemma missing_namespace_set:
  "map_option (\<lambda>(r, gp). (r, gp_peerV4AddressSets gp)) (addNamespaceAddressSet example_answers ''ns2'' empty_nb (web_rule\<lparr>gp_peerV4AddressSets := []\<rparr>))
     = Some (Inr True, [''$''])"
  "getL3MatchFromAddressSet (web_rule\<lparr>gp_peerV4AddressSets := [''$'']\<rparr>) = ''ip4.src == {$}''"
  by code_simp+

text \<open>Adding and removing the address set of a namespace are inverse.\<close>

lemma del_after_add:
  assumes "GetAddressSet w ids db = Inr as" "getNamespaceAddrSetDbIDs name (gp_controllerName gp) = Some ids" "GetHashNamesForAS ids = Some (GetASHashNames as)"
    and "''$'' @ fst (GetASHashNames as) \<notin> set (gp_peerV4AddressSets gp)" "''$'' @ snd (GetASHashNames as) \<notin> set (gp_peerV6AddressSets gp)"
    and "addNamespaceAddressSet w name db gp = Some (r, gp1)"
  shows "delNamespaceAddressSet name gp1 = Some (gp_ipv4Mode gp \<or> gp_ipv6Mode gp, gp)"
proof -
  obtain h4 h6 where h: "GetASHashNames as = (h4, h6)" by fastforce
  have gp1: "gp1 = gp\<lparr>gp_peerV4AddressSets := (if gp_ipv4Mode gp then gp_peerV4AddressSets gp @ [''$'' @ h4] else gp_peerV4AddressSets gp),
      gp_peerV6AddressSets := (if gp_ipv6Mode gp then gp_peerV6AddressSets gp @ [''$'' @ h6] else gp_peerV6AddressSets gp)\<rparr>"
    using assms h by (auto simp: addNamespaceAddressSet_def map_store_def Let_def)
  show ?thesis using assms(2-5) h unfolding gp1 by (simp add: delNamespaceAddressSet_def Let_def)
qed

end
