(* ===== verification/Spec2Isabelle.thy ===== *)
theory Spec2Isabelle
  imports Logical_Switch_Manager Node_Allocator Egress_Reconcile Zone_Controller Pod_Allocator Egress_Service L3_Gateway Gress_Policy
begin

text \<open>
  \<^bold>\<open>Verification of the control logic of ovn-kubernetes\<close>

  ovn-kubernetes (\<open>src/go-controller\<close>) connects a Kubernetes cluster to Open Virtual Network. It has three kinds of
  processes. The cluster manager (\<open>pkg/clustermanager\<close>) hands out what must be unique in the cluster: host subnets, node
  ids, addresses of join and transit switches, tunnel ids of pods, and the nodes that host egress addresses and egress
  services. It publishes the results in annotations, labels and statuses of Kubernetes objects. The network controllers
  (\<open>pkg/ovn\<close>) of a zone read these and the other objects of Kubernetes and write the northbound database of OVN: addresses
  of pods, load balancers of services, address sets, port groups and ACLs of network policies. The node agents
  (\<open>pkg/node\<close>, \<open>pkg/cni\<close>) connect the pods of a node. The development models the first two, from the allocators up to
  the controllers; the parts interact through the annotations, the retry framework and the database, which are modelled
  as well.

  \<^bold>\<open>Conventions.\<close> An operation on a mutable receiver takes the state and returns the new one. A Go error is \<open>Inl\<close> of a
  sum or \<open>Some\<close> of an error option, a panic is \<open>None\<close>. Machine integers are words where their width matters. A Go map is
  a partial function or an association list, and the order in which Go walks it is an argument, so that each theorem
  holds for every order. What the environment answers (informer caches, the API server, the database, clocks, random
  numbers) is an argument or a record of answers. A method under one mutex is one step; where goroutines interleave
  (\<open>Sync_Map\<close>) the model is a step relation. JSON documents are values: the encoding as text is not modelled.

  \<^bold>\<open>The layers.\<close>

  \<^item> \<open>Ovn_Prelude\<close>: machine types, result conventions, shared lemmas and the interface \<open>pool\<close> of allocators, which
    \<open>Bitmap\<close> and \<open>IP_Range\<close> implement (interpretations \<open>bmp\<close> and \<open>rng\<close>): what is handed out was free, nothing is handed out
    twice, and the pool is used up completely before it reports that it is full.
  \<^item> \<open>Go_Big\<close>, \<open>Go_Net\<close>, \<open>Go_Text\<close>: \<open>math/big\<close>, \<open>net.IP\<close> and \<open>net.IPNet\<close>, their texts and their parsers (the standard
    library, \<open>k8s.io/utils/net\<close>). Membership in a network is an interval of integers, and parsing inverts printing.
  \<^item> \<open>Util_Net\<close>: the helpers of \<open>pkg/util/net.go\<close> and \<open>pkg/util/util.go\<close>.
  \<^item> \<open>Label_Selectors\<close>: label selectors of Kubernetes.

  \<^bold>\<open>Allocators.\<close>

  \<^item> \<open>Bitmap\<close> (\<open>pkg/allocator/bitmap\<close>), \<open>Id_Allocator\<close> (\<open>pkg/allocator/id\<close>), \<open>IP_Range\<close> (\<open>pkg/allocator/ip\<close>): counters
    agree with the bits, ids are unique and do not leak.
  \<^item> \<open>Subnet_IPAM\<close> (\<open>pkg/allocator/ip/subnet\<close>), \<open>Logical_Switch_Manager\<close> (\<open>pkg/ovn/logical_switch_manager\<close>): a
    request for several addresses succeeds completely or changes nothing.
  \<^item> \<open>Host_Subnets\<close> (\<open>pkg/clustermanager/node/subnet_allocator.go\<close>): 32-bit arithmetic; host subnets are disjoint, owned
    by one node, and the IPv4 bit rotation loses none.

  \<^bold>\<open>Annotations and events.\<close>

  \<^item> \<open>Node_Annotations\<close> (\<open>pkg/util/subnet_annotations.go\<close>, \<open>node_annotations.go\<close>): annotations that hold a map from network
    names share the interface \<open>network_annotation\<close>, interpreted for subnets and for network ids.
  \<^item> \<open>Pod_Annotation\<close> (\<open>pkg/util/pod_annotation.go\<close>), \<open>L3_Gateway\<close> (the gateway configuration): round trips.
  \<^item> \<open>Sync_Map\<close> (\<open>pkg/syncmap\<close>): mutual exclusion per key for any interleaving of goroutines.
  \<^item> \<open>Retry_Framework\<close> (\<open>pkg/retry\<close>): no event is lost, and retries end. The interface \<open>resource_handler\<close> carries an
    invariant of a handler over a run of the framework; \<open>Zone_Controller\<close> interprets it.

  \<^bold>\<open>Cluster manager.\<close>

  \<^item> \<open>Node_Allocator\<close> (\<open>pkg/clustermanager/node/node_allocator.go\<close>): after a node event the annotation holds one owned subnet
    per address family.
  \<^item> \<open>Zone_Controller\<close> (\<open>zone_cluster_controller.go\<close>, \<open>ip_generator.go\<close>): distinct ids and addresses of nodes.
  \<^item> \<open>Pod_Allocator\<close> (\<open>pkg/allocator/pod\<close>, \<open>pkg/clustermanager/pod\<close>): fresh addresses and tunnel ids for pods, rollback of
    failed allocations, release at most once.
  \<^item> \<open>Cloud_Names\<close>, \<open>Egress_IP\<close>, \<open>Egress_Assignment\<close>, \<open>Egress_Constraints\<close>, \<open>Egress_Reconcile\<close>
    (\<open>egressip_controller.go\<close>, \<open>egressip_event_handler.go\<close>): the definitions, the invariant of the allocator cache,
    the constraints of an assignment and the convergence of the reconciliation.
  \<^item> \<open>Egress_Service\<close> (\<open>pkg/clustermanager/egressservice\<close>): in every run of the controller an egress service is on one
    node; nodes that cannot be used are drained.

  \<^bold>\<open>Network controllers.\<close>

  \<^item> \<open>Service_LB\<close> and \<open>Service_Controller\<close> (\<open>pkg/ovn/controller/services\<close>, \<open>pkg/util/kube.go\<close>): from services and endpoint
    slices to load balancers, their reconciliation with the database, the worker and its queue.
  \<^item> \<open>Db_Objects\<close> (\<open>pkg/libovsdb/ops/db_object_ids.go\<close>, \<open>db_object_types.go\<close>): the ids of database objects, their round trip
    through the external ids, and the predicates by which a controller finds its objects.
  \<^item> \<open>Nb_Client\<close> (\<open>pkg/libovsdb/ops\<close>): the model client and the operations on address sets, port groups and ACLs.
  \<^item> \<open>Address_Set\<close> (\<open>pkg/ovn/address_set\<close>): address sets refine sets of addresses, over calls that may fail.
  \<^item> \<open>Gress_Policy\<close> (\<open>pkg/ovn/gress_policy.go\<close>, \<open>pkg/libovsdb/util/acl.go\<close>): the ACLs of a network policy rule. Their matches
    are texts; \<open>render\<close> and \<open>holds\<close> give the syntax and the meaning of the fragment of the OVN expression language that the
    code writes, and the ACLs let through exactly the packets that the rule allows.

  \<^bold>\<open>Bounds and termination.\<close> Loops over lists are structural. The scan of a bitmap, the search for a host subnet and the
  rounds of the retry framework have measures. Two loops of \<open>Subnet_IPAM\<close> (\<open>reserveSubnets_loop\<close>, \<open>until_full\<close>) may not
  return at the end of the address space and are partial functions into an option; the theorems about them state when
  they return. Runs of controllers and workers are inductive relations or folds over the list of events, so no fuel is
  needed there; \<open>worker_drains_queue\<close> bounds the number of rounds of the worker.

  \<^bold>\<open>Limits of the code.\<close> Next to the theorems stand lemmas that show where a natural statement fails, with a concrete
  input: for instance \<open>Logical_Switch_Manager.AddOrUpdateSwitch_forgets\<close>, \<open>Egress_Service.stale_labels_lose_services\<close>,
  \<open>Address_Set.SetIPs_v4_not_written\<close> and \<open>Gress_Policy.mixed_rule_narrowed\<close>. The hypotheses of the theorems exclude these
  inputs.

  \<^bold>\<open>Not modelled.\<close> The node agents, the CNI plugin and the hybrid overlay act on the kernel and on Open vSwitch. Of
  the network controllers, the wiring of the logical topology (\<open>master.go\<close>, \<open>gateway_init.go\<close>, \<open>pods.go\<close>, secondary networks,
  interconnect), the state of the network policy controller around the rules, admin network policies, egress firewall and
  QoS, external gateways, and the zone parts of egress IP and egress service are left out: they are sequences of database
  operations on tables that \<open>Nb_Client\<close> does not have. Generated code (\<open>nbdb\<close>, \<open>sbdb\<close>, the clients of the custom
  resources), informers, configuration parsing, metrics and the command line tools are left out too. In the modelled files,
  logging, metrics and the start of goroutines are left out.
\<close>

end
